(* ===== verification/Prelude.thy ===== *)
theory Prelude
  imports "HOL-Library.Word" "HOL-Library.State_Monad"
begin

text \<open>
  What every other theory of the development shares: the names of the machine types, the
  C conversions between them, the state monad the stateful code is written in, and the
  collections of rules the component proofs are run with.

  The stateful functions of the repository are values of \<open>('s, 'a) state\<close> (HOL-Library's
  state monad): a C function that reads and writes the globals is a \<open>do\<close> block whose lines
  follow the statements of the function.  An operation is related to its effect by
  \<open>state_io_rel R m\<close>: every run of \<open>m\<close> leads from a state to one that is related to it by
  \<open>R\<close>.  For a preorder \<open>R\<close> this is closed under sequencing, which is how the frame lemmas
  of all the system calls are proved.
\<close>

section \<open>Machine types\<close>

type_synonym u8 = "8 word"
type_synonym u16 = "16 word"
type_synonym u32 = "32 word"
type_synonym u64 = "64 word"

text \<open>Rules for the frame proofs, and equations that run a piece of monadic code.\<close>

named_theorems frame_intros \<open>introduction rules of the frame relation\<close>
named_theorems run_simps \<open>equations that run monadic code\<close>

section \<open>The state monad\<close>

abbreviation return :: "'a \<Rightarrow> ('s, 'a) state" where
  "return \<equiv> State_Monad.return"

definition gets :: "('s \<Rightarrow> 'a) \<Rightarrow> ('s, 'a) state" where
  "gets f = State (\<lambda>s. (f s, s))"

definition modify :: "('s \<Rightarrow> 's) \<Rightarrow> ('s, unit) state" where
  "modify f = State (\<lambda>s. ((), f s))"

lemma run_gets [simp, run_simps]: "run_state (gets f) s = (f s, s)"
  by (simp add: gets_def)

lemma run_modify [simp, run_simps]: "run_state (modify f) s = ((), f s)"
  by (simp add: modify_def)

lemmas [run_simps] = run_state_return run_state_bind

text \<open>The result and the final state of a run.\<close>

abbreviation result_of :: "('s, 'a) state \<Rightarrow> 's \<Rightarrow> 'a" where
  "result_of m s \<equiv> fst (run_state m s)"

abbreviation state_after :: "('s, 'a) state \<Rightarrow> 's \<Rightarrow> 's" where
  "state_after m s \<equiv> snd (run_state m s)"

lemma result_of_bind:
  "result_of (State_Monad.bind m f) s = result_of (f (result_of m s)) (state_after m s)"
  by (simp add: case_prod_unfold)

lemma state_after_bind:
  "state_after (State_Monad.bind m f) s = state_after (f (result_of m s)) (state_after m s)"
  by (simp add: case_prod_unfold)

lemma run_bind:
  "run_state (State_Monad.bind m f) s = run_state (f (result_of m s)) (state_after m s)"
  by (simp add: case_prod_unfold)

section \<open>Frames: what a preorder on states is closed under\<close>

lemma io_rel_return:
  assumes "reflp R"
  shows "state_io_rel R (return x)"
  using assms by (simp add: state_io_rel_def reflpD)

lemma io_rel_gets:
  assumes "reflp R"
  shows "state_io_rel R (gets f)"
  using assms by (simp add: state_io_rel_def reflpD)

lemma io_rel_modify:
  assumes "\<And>s. R s (f s)"
  shows "state_io_rel R (modify f)"
  using assms by (simp add: state_io_rel_def)

lemma io_rel_bind:
  assumes "transp R" and "state_io_rel R m" and "\<And>x. state_io_rel R (f x)"
  shows "state_io_rel R (State_Monad.bind m f)"
  using assms unfolding state_io_rel_def state_after_bind by (meson transpD)

lemma io_rel_if:
  assumes "b \<Longrightarrow> state_io_rel R m" and "\<not> b \<Longrightarrow> state_io_rel R n"
  shows "state_io_rel R (if b then m else n)"
  using assms by simp

lemma io_rel_let:
  assumes "\<And>x. state_io_rel R (f x)"
  shows "state_io_rel R (let x = e in f x)"
  using assms by (simp add: Let_def)

lemma io_rel_case_prod:
  assumes "\<And>a b. state_io_rel R (f a b)"
  shows "state_io_rel R (case p of (a, b) \<Rightarrow> f a b)"
  using assms by (cases p) simp

lemma io_rel_case_option:
  assumes "state_io_rel R m" and "\<And>x. state_io_rel R (f x)"
  shows "state_io_rel R (case v of None \<Rightarrow> m | Some x \<Rightarrow> f x)"
  using assms by (cases v) simp_all

section \<open>Words\<close>

text \<open>
  The conversions C makes between its integer types.  \<open>abi_long\<close> is a 32-bit two's
  complement value, kept as a \<open>u32\<close>; it reaches a host function as the mathematical value
  the parameter's type gives it.
\<close>

definition c_int :: "u32 \<Rightarrow> int" where
  "c_int a = sint a"

definition c_uint :: "u32 \<Rightarrow> int" where
  "c_uint a = uint a"

text \<open>An \<open>abi_long\<close> passed as \<open>size_t\<close> or \<open>unsigned long\<close>: sign-extended, then read as unsigned.\<close>

definition c_size :: "u32 \<Rightarrow> int" where
  "c_size a = uint (scast a :: u64)"

text \<open>An \<open>abi_long\<close> passed as a 16-bit unsigned type would be truncated; a \<open>long\<close> result is
  truncated to \<open>abi_long\<close> on return.\<close>

definition to_abi :: "int \<Rightarrow> u32" where
  "to_abi r = word_of_int r"

lemma sint_u32: "sint (r :: u32) = (if uint r < 2 ^ 31 then uint r else uint r - 2 ^ 32)"
proof -
  have u: "0 \<le> uint r" "uint r < 4294967296"
    using uint_range_size [of r] by (simp_all add: word_size)
  have "sint r = (uint r + 2147483648) mod 4294967296 - 2147483648"
    by (simp add: sint_uint signed_take_bit_eq_take_bit_shift take_bit_eq_mod)
  also have "\<dots> = (if uint r < 2147483648 then uint r else uint r - 4294967296)"
    using u by (auto simp: mod_pos_geq)
  finally show ?thesis by simp
qed

lemma uint_u32_less: "uint (r :: u32) < 4294967296"
  using uint_range_size [of r] by (simp add: word_size)

lemma scast_nonneg:
  assumes "0 \<le> sint (l :: u32)"
  shows "(scast l :: u64) = ucast l"
proof -
  have "sint l = uint l" using assms uint_u32_less [of l] by (simp add: sint_u32 split: if_splits)
  then have "(word_of_int (sint l) :: u64) = word_of_int (uint l)" by (rule arg_cong)
  then show ?thesis by simp
qed

lemma unat_u32_less: "unat (l :: u32) < 4294967296"
  using unsigned_less [of l, where 'a = nat] by simp

lemma unat_ucast_u64 [simp]: "unat (ucast (l :: u32) :: u64) = unat l"
  using unat_u32_less [of l] by (simp add: unsigned_ucast_eq take_bit_nat_eq_self)

lemma sint_nonneg:
  assumes "unat (l :: u32) < 2 ^ 31"
  shows "sint l = int (unat l)"
proof -
  have "int (unat l) < int (2 ^ 31)" using assms by (rule of_nat_less_iff [THEN iffD2])
  then show ?thesis by (simp add: sint_u32)
qed

lemma word_sub_bound:
  fixes l m t :: "'a::len word"
  assumes "l \<le> m - t" and "t \<le> m"
  shows "unat t + unat l \<le> unat m"
proof -
  have "unat l \<le> unat (m - t)" using assms(1) by (simp add: word_le_nat_alt)
  also have "\<dots> = unat m - unat t" using assms(2) by (simp add: unat_sub)
  finally show ?thesis using assms(2) by (simp add: word_le_nat_alt)
qed

lemma sint_to_abi: "- (2 ^ 31) \<le> k \<Longrightarrow> k < 2 ^ 31 \<Longrightarrow> sint (to_abi k) = k"
  by (simp add: to_abi_def signed_of_int signed_take_bit_int_eq_self)

lemma uint_to_abi: "0 \<le> k \<Longrightarrow> k < 2 ^ 32 \<Longrightarrow> uint (to_abi k) = k"
  by (simp add: to_abi_def unsigned_of_int take_bit_int_eq_self)

lemma to_abi_sint [simp]: "to_abi (sint r) = r"
  by (simp add: to_abi_def)

lemma to_abi_numeral [simp]:
  "to_abi 0 = 0" "to_abi 1 = 1" "to_abi (numeral n) = numeral n" "to_abi (- numeral n) = - numeral n"
  "to_abi (- 1) = - 1"
  by (simp_all add: to_abi_def)

lemma unat_sub_add:
  fixes a b :: "'a::len word"
  assumes "b \<le> a"
  shows "unat (a - b) + unat b = unat a"
  using assms by (simp add: unat_sub word_le_nat_alt)

lemma unat_of_nat_less:
  assumes "n < 2 ^ LENGTH('a)"
  shows "unat (of_nat n :: 'a::len word) = n"
  using assms by (simp add: unsigned_of_nat take_bit_nat_eq_self)

lemma map_nth_upt:
  assumes "length xs = n"
  shows "map (\<lambda>i. xs ! i) [0..<n] = xs"
  using assms map_nth by blast

section \<open>Numbers as text\<close>

text \<open>The digits of a number in the base an alphabet of digits gives, the first one first.\<close>

function positional :: "string \<Rightarrow> nat \<Rightarrow> string" where
  "positional alphabet n =
    (if n < length alphabet \<or> length alphabet < 2 then [alphabet ! n]
     else positional alphabet (n div length alphabet) @ [alphabet ! (n mod length alphabet)])"
  by pat_completeness auto
termination
  by (relation "measure snd") (auto intro!: div_less_dividend)

declare positional.simps [simp del]

definition decimal :: "nat \<Rightarrow> string" where
  "decimal n = positional ''0123456789'' n"

lemma decimal_rec:
  "decimal n = (if n < 10 then [''0123456789'' ! n] else decimal (n div 10) @ [''0123456789'' ! (n mod 10)])"
  unfolding decimal_def by (subst positional.simps) simp

end
