(* ===== verification/Bswap.thy ===== *)
theory Bswap
  imports Prelude
begin

unbundle bit_operations_syntax

text \<open>
  The byte order layer: \<open>proj/sparc-linux/bswap.h\<close> and the \<open>tswap\<close> functions of
  \<open>cpu-all.h\<close>.  The host (x86-64, \<open>HOST_X86_64\<close> in \<open>config-host.h\<close>) is little endian, the
  target (\<open>TARGET_WORDS_BIGENDIAN\<close> in \<open>config-target.h\<close>) is big endian, so
  \<open>BSWAP_NEEDED\<close> holds.  Host memory is a function from 64-bit host addresses to bytes;
  \<open>memcpy\<close> is a bulk read or write of it.

  The locale \<open>mem_codec\<close> is the interface of a fixed-size scalar in memory: how it is
  encoded in bytes and decoded again.  Its lemmas (a load after a store, loads and stores of
  disjoint ranges) are proved once and interpreted for every width and byte order of the
  header; \<open>swapped_scalar\<close> derives the big-endian accessors from the host-endian ones and
  \<open>bswap\<close>, the way the header does.
\<close>

section \<open>Host memory\<close>

type_synonym hostmem = "u64 \<Rightarrow> u8"

definition mem_read :: "hostmem \<Rightarrow> u64 \<Rightarrow> nat \<Rightarrow> u8 list" where
  "mem_read m p n = map (\<lambda>i. m (p + of_nat i)) [0..<n]"

definition mem_write :: "hostmem \<Rightarrow> u64 \<Rightarrow> u8 list \<Rightarrow> hostmem" where
  "mem_write m p bs = (\<lambda>a. if unat (a - p) < length bs then bs ! unat (a - p) else m a)"

text \<open>\<open>memset(p, c, n)\<close> and \<open>memcpy(d, s, n)\<close> of the C library.\<close>

definition mem_set :: "hostmem \<Rightarrow> u64 \<Rightarrow> u8 \<Rightarrow> nat \<Rightarrow> hostmem" where
  "mem_set m p c n = (\<lambda>a. if unat (a - p) < n then c else m a)"

definition mem_copy :: "hostmem \<Rightarrow> u64 \<Rightarrow> u64 \<Rightarrow> nat \<Rightarrow> hostmem" where
  "mem_copy m d s n = mem_write m d (mem_read m s n)"

text \<open>Address \<open>a\<close> lies in the \<open>n\<close> bytes at \<open>p\<close>.\<close>

definition in_range :: "u64 \<Rightarrow> u64 \<Rightarrow> nat \<Rightarrow> bool" where
  "in_range a p n \<longleftrightarrow> unat (a - p) < n"

lemma length_mem_read [simp]: "length (mem_read m p n) = n"
  by (simp add: mem_read_def)

lemma mem_write_outside: "\<not> in_range a p (length bs) \<Longrightarrow> mem_write m p bs a = m a"
  by (simp add: mem_write_def in_range_def)

lemma mem_set_outside: "\<not> in_range a p n \<Longrightarrow> mem_set m p c n a = m a"
  by (simp add: mem_set_def in_range_def)

lemma mem_set_inside: "in_range a p n \<Longrightarrow> mem_set m p c n a = c"
  by (simp add: mem_set_def in_range_def)

lemma mem_copy_outside: "\<not> in_range a d n \<Longrightarrow> mem_copy m d s n a = m a"
  by (simp add: mem_copy_def mem_write_outside)

lemma offset_unat:
  assumes "i < n" and "n \<le> 2 ^ 64"
  shows "unat (of_nat i :: u64) = i"
  using assms by (simp add: unat_of_nat_less)

lemma mem_read_write_same:
  assumes "n = length bs" and "n \<le> 2 ^ 64"
  shows "mem_read (mem_write m p bs) p n = bs"
  using assms by (intro nth_equalityI) (simp_all add: mem_read_def mem_write_def offset_unat [where n = n])

text \<open>Two ranges that do not meet, as offsets in the 64-bit address space.\<close>

definition disjoint :: "u64 \<Rightarrow> nat \<Rightarrow> u64 \<Rightarrow> nat \<Rightarrow> bool" where
  "disjoint p n q k \<longleftrightarrow> (\<forall>i < n. \<not> in_range (p + of_nat i) q k)"

lemma mem_read_write_disjoint:
  assumes "disjoint p n q (length bs)"
  shows "mem_read (mem_write m q bs) p n = mem_read m p n"
  using assms by (simp add: mem_read_def disjoint_def mem_write_outside)

lemma mem_read_cong:
  assumes "\<And>a. in_range a p n \<Longrightarrow> m a = m' a" and "n \<le> 2 ^ 64"
  shows "mem_read m p n = mem_read m' p n"
  using assms by (simp add: mem_read_def in_range_def offset_unat [where n = n])

lemma mem_write_write_same:
  assumes "length bs = length cs"
  shows "mem_write (mem_write m p bs) p cs = mem_write m p cs"
  using assms by (auto simp: mem_write_def fun_eq_iff)

text \<open>Adjacent writes are one write; reading inside a write gives a slice of it.\<close>

lemma unat_u64_less: "unat (d :: u64) < 18446744073709551616"
  using unsigned_less [of d] by simp

lemma unat_sub_u64:
  "unat (d - n :: u64) =
    (if unat n \<le> unat d then unat d - unat n else unat d + 18446744073709551616 - unat n)"
  by (simp add: unat_sub_if')

lemma mem_write_append:
  assumes "length bs + length cs \<le> 2 ^ 64"
  shows "mem_write (mem_write m p bs) (p + of_nat (length bs)) cs = mem_write m p (bs @ cs)"
proof (cases "cs = []")
  case True
  then show ?thesis by (simp add: mem_write_def)
next
  case False
  then have l: "length bs < 2 ^ 64" using assms by (cases cs) simp_all
  show ?thesis
  proof
    fix a
    have "unat (of_nat (length bs) :: u64) = length bs" using l by (simp add: unat_of_nat_less)
    moreover have "a - (p + of_nat (length bs)) = (a - p) - of_nat (length bs)" by simp
    ultimately have e: "unat (a - (p + of_nat (length bs))) =
        (if length bs \<le> unat (a - p) then unat (a - p) - length bs
         else unat (a - p) + 18446744073709551616 - length bs)"
      by (simp only: unat_sub_u64)
    show "mem_write (mem_write m p bs) (p + of_nat (length bs)) cs a = mem_write m p (bs @ cs) a"
      using assms unat_u64_less [of "a - p"]
      by (auto simp: mem_write_def e nth_append)
  qed
qed
lemma mem_read_write_inside:
  assumes "off + n \<le> length bs" and "length bs \<le> 2 ^ 64"
  shows "mem_read (mem_write m p bs) (p + of_nat off) n = take n (drop off bs)"
proof (rule nth_equalityI)
  show "length (mem_read (mem_write m p bs) (p + of_nat off) n) = length (take n (drop off bs))"
    using assms by simp
  fix i assume "i < length (mem_read (mem_write m p bs) (p + of_nat off) n)"
  then have i: "i < n" by simp
  have "unat (of_nat (off + i) :: u64) = off + i"
    using assms i by (intro offset_unat [of _ "length bs"]) auto
  then have "unat (of_nat off + of_nat i :: u64) = off + i" by simp
  then show "mem_read (mem_write m p bs) (p + of_nat off) n ! i = take n (drop off bs) ! i"
    using assms i by (simp add: mem_read_def mem_write_def)
qed

lemma mem_write_Nil [simp]: "mem_write m p [] = m"
  by (simp add: mem_write_def)

lemma mem_read_append:
  "mem_read m p (n + k) = mem_read m p n @ mem_read m (p + of_nat n) k"
  by (rule nth_equalityI) (auto simp: mem_read_def nth_append add.assoc simp flip: of_nat_add)
section \<open>Byte swapping\<close>

text \<open>
  The header takes \<open>bswap_16\<close>, \<open>bswap_32\<close> and \<open>bswap_64\<close> of \<open>byteswap.h\<close> where the host has
  them, and gives their text otherwise; the definitions below are that text.
\<close>

definition bswap16_fallback :: "u16 \<Rightarrow> u16" where
  "bswap16_fallback x = push_bit 8 (x AND 0x00ff) OR drop_bit 8 (x AND 0xff00)"

definition bswap32_fallback :: "u32 \<Rightarrow> u32" where
  "bswap32_fallback x =
     push_bit 24 (x AND 0x000000ff) OR
     push_bit 8 (x AND 0x0000ff00) OR
     drop_bit 8 (x AND 0x00ff0000) OR
     drop_bit 24 (x AND 0xff000000)"

definition bswap64_fallback :: "u64 \<Rightarrow> u64" where
  "bswap64_fallback x =
     push_bit 56 (x AND 0x00000000000000ff) OR
     push_bit 40 (x AND 0x000000000000ff00) OR
     push_bit 24 (x AND 0x0000000000ff0000) OR
     push_bit 8 (x AND 0x00000000ff000000) OR
     drop_bit 8 (x AND 0x000000ff00000000) OR
     drop_bit 24 (x AND 0x0000ff0000000000) OR
     drop_bit 40 (x AND 0x00ff000000000000) OR
     drop_bit 56 (x AND 0xff00000000000000)"

text \<open>The bytes of a word, least significant first, and the word of such bytes: what
  \<open>memcpy\<close> from and to a variable sees on the little-endian host.\<close>

definition bytes16 :: "u16 \<Rightarrow> u8 list" where
  "bytes16 v = [ucast v, ucast (drop_bit 8 v)]"

definition bytes32 :: "u32 \<Rightarrow> u8 list" where
  "bytes32 v = [ucast v, ucast (drop_bit 8 v), ucast (drop_bit 16 v), ucast (drop_bit 24 v)]"

definition bytes64 :: "u64 \<Rightarrow> u8 list" where
  "bytes64 v = [ucast v, ucast (drop_bit 8 v), ucast (drop_bit 16 v), ucast (drop_bit 24 v),
     ucast (drop_bit 32 v), ucast (drop_bit 40 v), ucast (drop_bit 48 v), ucast (drop_bit 56 v)]"

definition word16 :: "u8 list \<Rightarrow> u16" where
  "word16 b = ucast (b ! 0) OR push_bit 8 (ucast (b ! 1))"

definition word32 :: "u8 list \<Rightarrow> u32" where
  "word32 b = ucast (b ! 0) OR push_bit 8 (ucast (b ! 1)) OR push_bit 16 (ucast (b ! 2)) OR
     push_bit 24 (ucast (b ! 3))"

definition word64 :: "u8 list \<Rightarrow> u64" where
  "word64 b = ucast (b ! 0) OR push_bit 8 (ucast (b ! 1)) OR push_bit 16 (ucast (b ! 2)) OR
     push_bit 24 (ucast (b ! 3)) OR push_bit 32 (ucast (b ! 4)) OR push_bit 40 (ucast (b ! 5)) OR
     push_bit 48 (ucast (b ! 6)) OR push_bit 56 (ucast (b ! 7))"

lemma length_bytes [simp]:
  "length (bytes16 v) = 2" "length (bytes32 w) = 4" "length (bytes64 x) = 8"
  by (simp_all add: bytes16_def bytes32_def bytes64_def)

text \<open>A bit of a word is a bit of the byte that holds it: the byte lanes, one by one.\<close>

lemma lanes32:
  assumes "n < (32::nat)"
  obtains "n < 8" | "8 \<le> n" "n < 16" | "16 \<le> n" "n < 24" | "24 \<le> n" "n < 32"
  using assms by linarith

lemma lanes64:
  assumes "n < (64::nat)"
  obtains "n < 8" | "8 \<le> n" "n < 16" | "16 \<le> n" "n < 24" | "24 \<le> n" "n < 32"
  | "32 \<le> n" "n < 40" | "40 \<le> n" "n < 48" | "48 \<le> n" "n < 56" | "56 \<le> n" "n < 64"
  using assms by linarith

lemma word16_bytes16 [simp]: "word16 (bytes16 v) = v"
  by (rule bit_word_eqI) (auto simp: word16_def bytes16_def bit_simps)

lemma word32_bytes32 [simp]: "word32 (bytes32 v) = v"
proof (rule bit_word_eqI)
  fix n assume "n < LENGTH(32)"
  then have "n < 32" by simp
  then show "bit (word32 (bytes32 v)) n = bit v n"
    by (cases rule: lanes32) (simp_all add: word32_def bytes32_def bit_simps less_diff_conv2)
qed

lemma word64_bytes64 [simp]: "word64 (bytes64 v) = v"
proof (rule bit_word_eqI)
  fix n assume "n < LENGTH(64)"
  then have "n < 64" by simp
  then show "bit (word64 (bytes64 v)) n = bit v n"
    by (cases rule: lanes64) (simp_all add: word64_def bytes64_def bit_simps less_diff_conv2)
qed

text \<open>Swapping reverses the bytes, so it is its own inverse.\<close>

lemma fallback16_lanes:
  "bswap16_fallback x = push_bit 8 (x AND mask 8) OR drop_bit 8 (x AND push_bit 8 (mask 8))"
  by (simp add: bswap16_fallback_def mask_eq_exp_minus_1)

lemma fallback32_lanes:
  "bswap32_fallback x = push_bit 24 (x AND mask 8) OR push_bit 8 (x AND push_bit 8 (mask 8)) OR
     drop_bit 8 (x AND push_bit 16 (mask 8)) OR drop_bit 24 (x AND push_bit 24 (mask 8))"
  by (simp add: bswap32_fallback_def mask_eq_exp_minus_1)

lemma fallback64_lanes:
  "bswap64_fallback x = push_bit 56 (x AND mask 8) OR push_bit 40 (x AND push_bit 8 (mask 8)) OR
     push_bit 24 (x AND push_bit 16 (mask 8)) OR push_bit 8 (x AND push_bit 24 (mask 8)) OR
     drop_bit 8 (x AND push_bit 32 (mask 8)) OR drop_bit 24 (x AND push_bit 40 (mask 8)) OR
     drop_bit 40 (x AND push_bit 48 (mask 8)) OR drop_bit 56 (x AND push_bit 56 (mask 8))"
  by (simp add: bswap64_fallback_def mask_eq_exp_minus_1)

lemma bit_fallback16:
  "bit (bswap16_fallback v) n \<longleftrightarrow> (if n < 8 then bit v (n + 8) else n < 16 \<and> bit v (n - 8))"
  by (auto simp: fallback16_lanes bit_simps less_diff_conv2 not_less add.commute)

lemma bytes16_fallback: "bytes16 (bswap16_fallback v) = rev (bytes16 v)"
  by (auto simp: bytes16_def bit_fallback16 bit_simps add.commute intro!: bit_word_eqI)

lemma bit_fallback32:
  assumes "n < 32"
  shows "bit (bswap32_fallback v) n \<longleftrightarrow>
    bit v (if n < 8 then n + 24 else if n < 16 then n + 8 else if n < 24 then n - 8 else n - 24)"
  using assms
  by (cases rule: lanes32) (simp_all add: fallback32_lanes bit_simps less_diff_conv2 add.commute)

lemma bit_fallback64:
  assumes "n < 64"
  shows "bit (bswap64_fallback v) n \<longleftrightarrow>
    bit v (if n < 8 then n + 56 else if n < 16 then n + 40 else if n < 24 then n + 24
           else if n < 32 then n + 8 else if n < 40 then n - 8 else if n < 48 then n - 24
           else if n < 56 then n - 40 else n - 56)"
  using assms
  by (cases rule: lanes64) (simp_all add: fallback64_lanes bit_simps less_diff_conv2 add.commute)

lemma bytes32_fallback: "bytes32 (bswap32_fallback v) = rev (bytes32 v)"
  by (auto simp: bytes32_def bit_fallback32 bit_simps add.commute intro!: bit_word_eqI)

lemma bytes64_fallback: "bytes64 (bswap64_fallback v) = rev (bytes64 v)"
  by (auto simp: bytes64_def bit_fallback64 bit_simps add.commute intro!: bit_word_eqI)

text \<open>With \<open>CONFIG_BYTESWAP_H\<close>, as in \<open>config-host.h\<close>, the functions call those of the C library
  (\<open><byteswap.h>\<close>), which reverse the bytes of a value; the branch for other hosts gives the same.\<close>

definition bswap_16 :: "u16 \<Rightarrow> u16" where
  "bswap_16 x = word16 (rev (bytes16 x))"

definition bswap_32 :: "u32 \<Rightarrow> u32" where
  "bswap_32 x = word32 (rev (bytes32 x))"

definition bswap_64 :: "u64 \<Rightarrow> u64" where
  "bswap_64 x = word64 (rev (bytes64 x))"

definition bswap16 :: "u16 \<Rightarrow> u16" where
  "bswap16 x = bswap_16 x"

definition bswap32 :: "u32 \<Rightarrow> u32" where
  "bswap32 x = bswap_32 x"

definition bswap64 :: "u64 \<Rightarrow> u64" where
  "bswap64 x = bswap_64 x"

lemma bswap16_same: "bswap16 x = bswap16_fallback x"
  by (simp add: bswap16_def bswap_16_def flip: bytes16_fallback)

lemma bswap32_same: "bswap32 x = bswap32_fallback x"
  by (simp add: bswap32_def bswap_32_def flip: bytes32_fallback)

lemma bswap64_same: "bswap64 x = bswap64_fallback x"
  by (simp add: bswap64_def bswap_64_def flip: bytes64_fallback)

lemma bytes16_bswap16: "bytes16 (bswap16 v) = rev (bytes16 v)"
  by (simp add: bswap16_same bytes16_fallback)

lemma bytes32_bswap32: "bytes32 (bswap32 v) = rev (bytes32 v)"
  by (simp add: bswap32_same bytes32_fallback)

lemma bytes64_bswap64: "bytes64 (bswap64 v) = rev (bytes64 v)"
  by (simp add: bswap64_same bytes64_fallback)

lemma bswap_involution [simp]: "bswap16 (bswap16 u) = u" "bswap32 (bswap32 v) = v" "bswap64 (bswap64 w) = w"
  by (simp_all only: bswap16_def [of "bswap16 u"] bswap32_def [of "bswap32 v"] bswap64_def [of "bswap64 w"]
      bswap_16_def bswap_32_def bswap_64_def bytes16_bswap16 bytes32_bswap32 bytes64_bswap64 rev_rev_ident
      word16_bytes16 word32_bytes32 word64_bytes64)

lemmas bit_bswap32 = bit_fallback32 [folded bswap32_same]
lemmas bit_bswap64 = bit_fallback64 [folded bswap64_same]

section \<open>The interface of a scalar in memory\<close>

text \<open>
  \<open>ld\<close> and \<open>st\<close> are the accessors of one width and byte order; \<open>enc\<close> says which bytes
  a store leaves in memory, in address order.
\<close>

locale mem_scalar =
  fixes size :: nat
    and ld :: "hostmem \<Rightarrow> u64 \<Rightarrow> 'v"
    and st :: "hostmem \<Rightarrow> u64 \<Rightarrow> 'v \<Rightarrow> hostmem"
    and enc :: "'v \<Rightarrow> u8 list"
    and dec :: "u8 list \<Rightarrow> 'v"
  assumes size_le: "size \<le> 8"
    and enc_length: "length (enc v) = size"
    and dec_enc: "dec (enc v) = v"
    and ld_eq: "ld m p = dec (mem_read m p size)"
    and st_eq: "st m p v = mem_write m p (enc v)"
begin

lemma bytes_st: "mem_read (st m p v) p size = enc v"
  using size_le by (simp add: st_eq enc_length mem_read_write_same)

lemma ld_st: "ld (st m p v) p = v"
  by (simp add: ld_eq bytes_st dec_enc)

lemma ld_write_other: "disjoint p size q (length bs) \<Longrightarrow> ld (mem_write m q bs) p = ld m p"
  by (simp add: ld_eq mem_read_write_disjoint)

lemma ld_st_other: "disjoint p size q size \<Longrightarrow> ld (st m q v) p = ld m p"
  by (simp add: st_eq enc_length ld_write_other)

lemma ld_inside:
  assumes "off + size \<le> length bs" and "length bs \<le> 2 ^ 64"
  shows "ld (mem_write m p bs) (p + of_nat off) = dec (take size (drop off bs))"
  using assms by (simp add: ld_eq mem_read_write_inside)

lemma st_frame: "\<not> in_range a p size \<Longrightarrow> st m p v a = m a"
  by (simp add: st_eq enc_length mem_write_outside)

lemma st_st: "st (st m p v) p w = st m p w"
  by (simp add: st_eq enc_length mem_write_write_same)

lemma ld_cong: "(\<And>a. in_range a p size \<Longrightarrow> m a = m' a) \<Longrightarrow> ld m p = ld m' p"
  using mem_read_cong [of p size m m'] size_le by (simp add: ld_eq)

end

text \<open>The other byte order: swap the value on the way in and on the way out.\<close>

locale swapped_scalar = mem_scalar size ld st enc dec
  for size :: nat
    and ld :: "hostmem \<Rightarrow> u64 \<Rightarrow> 'v"
    and st :: "hostmem \<Rightarrow> u64 \<Rightarrow> 'v \<Rightarrow> hostmem"
    and enc :: "'v \<Rightarrow> u8 list"
    and dec :: "u8 list \<Rightarrow> 'v" +
  fixes swap :: "'v \<Rightarrow> 'v"
  assumes swap_swap: "swap (swap v) = v"

sublocale swapped_scalar \<subseteq> swp: mem_scalar size "\<lambda>m p. swap (ld m p)" "\<lambda>m p v. st m p (swap v)"
    "\<lambda>v. enc (swap v)" "\<lambda>bs. swap (dec bs)"
  by unfold_locales (simp_all add: size_le enc_length dec_enc swap_swap ld_eq st_eq)

section \<open>Pointer accesses\<close>

text \<open>
  \<open>ld{type}{sign}{size}{endian}_p\<close> and \<open>st{type}{size}{endian}_p\<close>.  A \<open>w\<close> or \<open>b\<close> load has
  the C type \<open>int\<close>: the value is zero- or sign-extended to 32 bits.
\<close>

definition ldub_p :: "hostmem \<Rightarrow> u64 \<Rightarrow> u32" where
  "ldub_p m p = ucast (m p)"

definition ldsb_p :: "hostmem \<Rightarrow> u64 \<Rightarrow> u32" where
  "ldsb_p m p = scast (m p)"

definition stb_p :: "hostmem \<Rightarrow> u64 \<Rightarrow> u8 \<Rightarrow> hostmem" where
  "stb_p m p v = mem_write m p [v]"

definition lduw_he_p :: "hostmem \<Rightarrow> u64 \<Rightarrow> u32" where
  "lduw_he_p m p = ucast (word16 (mem_read m p 2))"

definition ldsw_he_p :: "hostmem \<Rightarrow> u64 \<Rightarrow> u32" where
  "ldsw_he_p m p = scast (word16 (mem_read m p 2))"

definition stw_he_p :: "hostmem \<Rightarrow> u64 \<Rightarrow> u16 \<Rightarrow> hostmem" where
  "stw_he_p m p v = mem_write m p (bytes16 v)"

definition ldl_he_p :: "hostmem \<Rightarrow> u64 \<Rightarrow> u32" where
  "ldl_he_p m p = word32 (mem_read m p 4)"

definition stl_he_p :: "hostmem \<Rightarrow> u64 \<Rightarrow> u32 \<Rightarrow> hostmem" where
  "stl_he_p m p v = mem_write m p (bytes32 v)"

definition ldq_he_p :: "hostmem \<Rightarrow> u64 \<Rightarrow> u64" where
  "ldq_he_p m p = word64 (mem_read m p 8)"

definition stq_he_p :: "hostmem \<Rightarrow> u64 \<Rightarrow> u64 \<Rightarrow> hostmem" where
  "stq_he_p m p v = mem_write m p (bytes64 v)"

text \<open>On a little-endian host \<open>le_bswap\<close> is the identity and \<open>be_bswap\<close> swaps.\<close>

definition lduw_le_p :: "hostmem \<Rightarrow> u64 \<Rightarrow> u32" where
  "lduw_le_p m p = ucast (ucast (lduw_he_p m p) :: u16)"

definition ldsw_le_p :: "hostmem \<Rightarrow> u64 \<Rightarrow> u32" where
  "ldsw_le_p m p = scast (ucast (lduw_he_p m p) :: u16)"

definition ldl_le_p :: "hostmem \<Rightarrow> u64 \<Rightarrow> u32" where
  "ldl_le_p m p = ldl_he_p m p"

definition ldq_le_p :: "hostmem \<Rightarrow> u64 \<Rightarrow> u64" where
  "ldq_le_p m p = ldq_he_p m p"

definition stw_le_p :: "hostmem \<Rightarrow> u64 \<Rightarrow> u16 \<Rightarrow> hostmem" where
  "stw_le_p m p v = stw_he_p m p v"

definition stl_le_p :: "hostmem \<Rightarrow> u64 \<Rightarrow> u32 \<Rightarrow> hostmem" where
  "stl_le_p m p v = stl_he_p m p v"

definition stq_le_p :: "hostmem \<Rightarrow> u64 \<Rightarrow> u64 \<Rightarrow> hostmem" where
  "stq_le_p m p v = stq_he_p m p v"

definition lduw_be_p :: "hostmem \<Rightarrow> u64 \<Rightarrow> u32" where
  "lduw_be_p m p = ucast (bswap16 (ucast (lduw_he_p m p)))"

definition ldsw_be_p :: "hostmem \<Rightarrow> u64 \<Rightarrow> u32" where
  "ldsw_be_p m p = scast (bswap16 (ucast (lduw_he_p m p)))"

definition ldl_be_p :: "hostmem \<Rightarrow> u64 \<Rightarrow> u32" where
  "ldl_be_p m p = bswap32 (ldl_he_p m p)"

definition ldq_be_p :: "hostmem \<Rightarrow> u64 \<Rightarrow> u64" where
  "ldq_be_p m p = bswap64 (ldq_he_p m p)"

definition stw_be_p :: "hostmem \<Rightarrow> u64 \<Rightarrow> u16 \<Rightarrow> hostmem" where
  "stw_be_p m p v = stw_he_p m p (bswap16 v)"

definition stl_be_p :: "hostmem \<Rightarrow> u64 \<Rightarrow> u32 \<Rightarrow> hostmem" where
  "stl_be_p m p v = stl_he_p m p (bswap32 v)"

definition stq_be_p :: "hostmem \<Rightarrow> u64 \<Rightarrow> u64 \<Rightarrow> hostmem" where
  "stq_be_p m p v = stq_he_p m p (bswap64 v)"

text \<open>The in-place swaps of \<open>bswap.h\<close> and the target swaps of \<open>cpu-all.h\<close>.\<close>

definition bswap16s :: "hostmem \<Rightarrow> u64 \<Rightarrow> hostmem" where
  "bswap16s m p = stw_he_p m p (bswap16 (ucast (lduw_he_p m p)))"

definition bswap32s :: "hostmem \<Rightarrow> u64 \<Rightarrow> hostmem" where
  "bswap32s m p = stl_he_p m p (bswap32 (ldl_he_p m p))"

definition bswap64s :: "hostmem \<Rightarrow> u64 \<Rightarrow> hostmem" where
  "bswap64s m p = stq_he_p m p (bswap64 (ldq_he_p m p))"

text \<open>\<open>qemu_bswap_len\<close>: the low \<open>len\<close> bytes of a value, swapped.\<close>

definition qemu_bswap_len :: "u32 \<Rightarrow> nat \<Rightarrow> u32" where
  "qemu_bswap_len value len = drop_bit (32 - 8 * len) (bswap32 value)"

definition tswap16 :: "u16 \<Rightarrow> u16" where
  "tswap16 s = bswap16 s"

definition tswap32 :: "u32 \<Rightarrow> u32" where
  "tswap32 s = bswap32 s"

definition tswap64 :: "u64 \<Rightarrow> u64" where
  "tswap64 s = bswap64 s"

definition tswap32s :: "hostmem \<Rightarrow> u64 \<Rightarrow> hostmem" where
  "tswap32s m p = stl_he_p m p (bswap32 (ldl_he_p m p))"

definition tswap64s :: "hostmem \<Rightarrow> u64 \<Rightarrow> hostmem" where
  "tswap64s m p = stq_he_p m p (bswap64 (ldq_he_p m p))"

text \<open>\<open>tswapal\<close> of \<open>abitypes.h\<close>: \<open>TARGET_ABI_BITS\<close> is 32.\<close>

definition tswapal :: "u32 \<Rightarrow> u32" where
  "tswapal v = tswap32 v"

lemma tswap_inverse [simp]:
  "tswap16 (tswap16 a) = a" "tswap32 (tswap32 b) = b" "tswap64 (tswap64 c) = c"
  "tswapal (tswapal b) = b"
  by (simp_all add: tswap16_def tswap32_def tswap64_def tswapal_def)

section \<open>The accessors meet the interface\<close>

lemma ucast_u16_u32 [simp]: "ucast (ucast x :: u32) = (x :: u16)"
  by (rule bit_word_eqI) (auto simp: bit_simps)

interpretation he16: swapped_scalar 2 "\<lambda>m p. ucast (lduw_he_p m p)" stw_he_p bytes16 word16 bswap16
  by unfold_locales (simp_all add: lduw_he_p_def stw_he_p_def)

interpretation he32: swapped_scalar 4 ldl_he_p stl_he_p bytes32 word32 bswap32
  by unfold_locales (simp_all add: ldl_he_p_def stl_he_p_def)

interpretation he64: swapped_scalar 8 ldq_he_p stq_he_p bytes64 word64 bswap64
  by unfold_locales (simp_all add: ldq_he_p_def stq_he_p_def)

interpretation be16: mem_scalar 2 "\<lambda>m p. ucast (lduw_be_p m p)" stw_be_p
    "\<lambda>v. rev (bytes16 v)" "\<lambda>bs. bswap16 (word16 bs)"
  using he16.swp.mem_scalar_axioms
  by (simp add: lduw_be_p_def [abs_def] stw_be_p_def [abs_def] bytes16_bswap16)

interpretation be32: mem_scalar 4 ldl_be_p stl_be_p "\<lambda>v. rev (bytes32 v)" "\<lambda>bs. bswap32 (word32 bs)"
  using he32.swp.mem_scalar_axioms
  by (simp add: ldl_be_p_def [abs_def] stl_be_p_def [abs_def] bytes32_bswap32)

interpretation be64: mem_scalar 8 ldq_be_p stq_be_p "\<lambda>v. rev (bytes64 v)" "\<lambda>bs. bswap64 (word64 bs)"
  using he64.swp.mem_scalar_axioms
  by (simp add: ldq_be_p_def [abs_def] stq_be_p_def [abs_def] bytes64_bswap64)

lemmas scalar_same = be16.ld_st be32.ld_st be64.ld_st he16.ld_st he32.ld_st he64.ld_st
lemmas scalar_frame = be16.st_frame be32.st_frame be64.st_frame
  he16.st_frame he32.st_frame he64.st_frame

end
