(* ===== verification/Host.thy ===== *)
theory Host
  imports Bswap
begin

text \<open>
  The host side of the emulation: the C library and the Linux kernel that \<open>syscall.c\<close> calls.
  They are not part of the repository, so they are a parameter of the model: a record
  \<open>host_os\<close> of functions, one field per shape of call, over an abstract kernel state \<open>'w\<close>.
  A host function gets its arguments as the values its C parameter types give them and the
  whole of host memory (it reads path strings and buffers there); it answers with the
  returned \<open>int\<close> or \<open>long\<close>, the \<open>errno\<close> it set (if it set one), memory as it left it, the
  next kernel state, and the structure it filled in.  Nothing is assumed of it here; what a
  property relies on is a hypothesis of that property.
\<close>

section \<open>Structures of the host's headers\<close>

text \<open>Every integer field is kept as a 64-bit pattern (a narrower field extended to it).\<close>

record host_timeval =
  tv_sec :: u64
  tv_usec :: u64

record host_timespec =
  ts_sec :: u64
  ts_nsec :: u64

record host_timezone =
  tz_minuteswest :: u32
  tz_dsttime :: u32

record host_itimerval =
  it_interval :: host_timeval
  it_value :: host_timeval

record host_itimerspec =
  its_interval :: host_timespec
  its_value :: host_timespec

record host_rlimit =
  rlim_cur :: u64
  rlim_max :: u64

record host_tms =
  tms_utime :: u64
  tms_stime :: u64
  tms_cutime :: u64
  tms_cstime :: u64

record host_stat =
  st_dev :: u64
  st_ino :: u64
  st_mode :: u64
  st_nlink :: u64
  st_uid :: u64
  st_gid :: u64
  st_rdev :: u64
  st_size :: u64
  st_blksize :: u64
  st_blocks :: u64
  st_atime :: u64
  st_mtime :: u64
  st_ctime :: u64

record host_statfs =
  f_type :: u64
  f_bsize :: u64
  f_blocks :: u64
  f_bfree :: u64
  f_bavail :: u64
  f_files :: u64
  f_ffree :: u64
  f_fsid0 :: u64
  f_fsid1 :: u64
  f_namelen :: u64
  f_frsize :: u64

record host_rusage =
  ru_utime :: host_timeval
  ru_stime :: host_timeval
  ru_maxrss :: u64
  ru_ixrss :: u64
  ru_idrss :: u64
  ru_isrss :: u64
  ru_minflt :: u64
  ru_majflt :: u64
  ru_nswap :: u64
  ru_inblock :: u64
  ru_oublock :: u64
  ru_msgsnd :: u64
  ru_msgrcv :: u64
  ru_nsignals :: u64
  ru_nvcsw :: u64
  ru_nivcsw :: u64

record host_sysinfo =
  si_uptime :: u64
  si_load0 :: u64
  si_load1 :: u64
  si_load2 :: u64
  si_totalram :: u64
  si_freeram :: u64
  si_sharedram :: u64
  si_bufferram :: u64
  si_totalswap :: u64
  si_freeswap :: u64
  si_procs :: u64
  si_totalhigh :: u64
  si_freehigh :: u64
  si_mem_unit :: u64

text \<open>\<open>fd_set\<close>: \<open>FD_SETSIZE\<close> is 1024, bit \<open>k\<close> stands for descriptor \<open>k\<close>.\<close>

type_synonym fd_set = "1024 word"

text \<open>An element of \<open>struct iovec\<close>: base and length.\<close>

type_synonym host_iovec = "u64 \<times> u64"

section \<open>Calls\<close>

datatype harg = HInt int | HPtr u64 | HNull | HVec "int list" | HIov "host_iovec list"

datatype path_fn = P_open | P_creat | P_link | P_linkat | P_unlink | P_unlinkat | P_chdir
  | P_mknod | P_mknodat | P_chmod | P_fchmodat | P_access | P_faccessat | P_rename | P_renameat
  | P_mkdir | P_mkdirat | P_rmdir | P_symlink | P_symlinkat | P_chroot | P_truncate
  | P_chown | P_lchown | P_fchownat | P_utime | P_utimes | P_futimesat

datatype fd_fn = F_read | F_write | F_close | F_lseek | F_dup | F_dup2 | F_sync | F_fsync
  | F_fdatasync | F_ftruncate | F_fchmod | F_fchown | F_fchdir | F_flock | F_readv | F_writev
  | F_tee | F_getdents | F_getdents64 | F_getcwd

datatype proc_fn = K_getpid | K_getppid | K_getpgrp | K_getpgid | K_getsid | K_setpgid | K_setsid
  | K_gettid | K_nice | K_umask | K_getpriority | K_setpriority | K_sched_getscheduler
  | K_sched_yield | K_sched_get_priority_max | K_sched_get_priority_min | K_personality
  | K_prctl | K_vhangup | K_unshare | K_sethostname | K_setdomainname | K_syslog
  | K_setrlimit | K_settimeofday | K_stime

datatype id_fn = I_getuid | I_getgid | I_geteuid | I_getegid | I_setreuid | I_setregid
  | I_setuid | I_setgid | I_setfsuid | I_setfsgid | I_setresuid | I_setresgid

datatype mem_fn = M_msync | M_mlock | M_munlock | M_munlockall | M_calloc

datatype stat_fn = S_stat | S_lstat | S_fstat | S_fstatat

datatype statfs_fn = S_statfs | S_fstatfs

datatype itimer_fn = T_getitimer | T_setitimer

datatype res_fn = R_getresuid | R_getresgid

section \<open>Answers\<close>

record ('w, 'o) hresult =
  hr_ret :: int
  hr_errno :: "int option"
  hr_mem :: hostmem
  hr_world :: 'w
  hr_out :: 'o

type_synonym ('w, 'o) hostfun = "hostmem \<Rightarrow> 'w \<Rightarrow> ('w, 'o) hresult"

text \<open>
  \<open>select\<close> gets three optional sets and an optional timeout, and gives back the sets and the
  timeout as it left them.  \<open>indet_ret\<close> is no function: it is the value the compiled code
  returns for the local \<open>ret\<close> of \<open>do_syscall\<close> where no statement has assigned it.
\<close>

record 'w host_os =
  os_path :: "path_fn \<Rightarrow> harg list \<Rightarrow> ('w, unit) hostfun"
  os_fd :: "fd_fn \<Rightarrow> harg list \<Rightarrow> ('w, unit) hostfun"
  os_proc :: "proc_fn \<Rightarrow> harg list \<Rightarrow> ('w, unit) hostfun"
  os_id :: "id_fn \<Rightarrow> harg list \<Rightarrow> ('w, unit) hostfun"
  os_mem :: "mem_fn \<Rightarrow> harg list \<Rightarrow> ('w, unit) hostfun"
  os_stat :: "stat_fn \<Rightarrow> harg list \<Rightarrow> ('w, host_stat) hostfun"
  os_statfs :: "statfs_fn \<Rightarrow> harg list \<Rightarrow> ('w, host_statfs) hostfun"
  os_itimer :: "itimer_fn \<Rightarrow> harg list \<Rightarrow> ('w, host_itimerval) hostfun"
  os_getres :: "res_fn \<Rightarrow> ('w, u32 \<times> u32 \<times> u32) hostfun"
  os_getrlimit :: "harg list \<Rightarrow> ('w, host_rlimit) hostfun"
  os_getrusage :: "harg list \<Rightarrow> ('w, host_rusage) hostfun"
  os_gettimeofday :: "('w, host_timeval) hostfun"
  os_time :: "('w, u64) hostfun"
  os_times :: "('w, host_tms) hostfun"
  os_sysinfo :: "('w, host_sysinfo) hostfun"
  os_pdeathsig :: "harg list \<Rightarrow> ('w, u32) hostfun"
  os_sendfile :: "harg list \<Rightarrow> ('w, u64) hostfun"
  os_select :: "int \<Rightarrow> fd_set option \<Rightarrow> fd_set option \<Rightarrow> fd_set option \<Rightarrow> host_timeval option
     \<Rightarrow> ('w, fd_set \<times> fd_set \<times> fd_set \<times> host_timeval) hostfun"
  indet_ret :: u32

end
