(* ===== verification/Errno_Defs.thy ===== *)
theory Errno_Defs
  imports Prelude
begin

text \<open>
  The errno numbers of both sides.  \<open>TARGET_E*\<close> is \<open>proj/sparc-linux/errno_defs.h\<close>; \<open>E*\<close> are the
  values the host (Linux on x86-64, \<open>asm-generic/errno-base.h\<close> and \<open>asm-generic/errno.h\<close>)
  gives the names \<open>syscall.c\<close> uses.
\<close>

section \<open>The target\<close>

abbreviation (input) TARGET_EPERM :: int where "TARGET_EPERM \<equiv> 1"
abbreviation (input) TARGET_ENOENT :: int where "TARGET_ENOENT \<equiv> 2"
abbreviation (input) TARGET_ESRCH :: int where "TARGET_ESRCH \<equiv> 3"
abbreviation (input) TARGET_EINTR :: int where "TARGET_EINTR \<equiv> 4"
abbreviation (input) TARGET_EIO :: int where "TARGET_EIO \<equiv> 5"
abbreviation (input) TARGET_ENXIO :: int where "TARGET_ENXIO \<equiv> 6"
abbreviation (input) TARGET_E2BIG :: int where "TARGET_E2BIG \<equiv> 7"
abbreviation (input) TARGET_ENOEXEC :: int where "TARGET_ENOEXEC \<equiv> 8"
abbreviation (input) TARGET_EBADF :: int where "TARGET_EBADF \<equiv> 9"
abbreviation (input) TARGET_ECHILD :: int where "TARGET_ECHILD \<equiv> 10"
abbreviation (input) TARGET_EAGAIN :: int where "TARGET_EAGAIN \<equiv> 11"
abbreviation (input) TARGET_ENOMEM :: int where "TARGET_ENOMEM \<equiv> 12"
abbreviation (input) TARGET_EACCES :: int where "TARGET_EACCES \<equiv> 13"
abbreviation (input) TARGET_EFAULT :: int where "TARGET_EFAULT \<equiv> 14"
abbreviation (input) TARGET_ENOTBLK :: int where "TARGET_ENOTBLK \<equiv> 15"
abbreviation (input) TARGET_EBUSY :: int where "TARGET_EBUSY \<equiv> 16"
abbreviation (input) TARGET_EEXIST :: int where "TARGET_EEXIST \<equiv> 17"
abbreviation (input) TARGET_EXDEV :: int where "TARGET_EXDEV \<equiv> 18"
abbreviation (input) TARGET_ENODEV :: int where "TARGET_ENODEV \<equiv> 19"
abbreviation (input) TARGET_ENOTDIR :: int where "TARGET_ENOTDIR \<equiv> 20"
abbreviation (input) TARGET_EISDIR :: int where "TARGET_EISDIR \<equiv> 21"
abbreviation (input) TARGET_EINVAL :: int where "TARGET_EINVAL \<equiv> 22"
abbreviation (input) TARGET_ENFILE :: int where "TARGET_ENFILE \<equiv> 23"
abbreviation (input) TARGET_EMFILE :: int where "TARGET_EMFILE \<equiv> 24"
abbreviation (input) TARGET_ENOTTY :: int where "TARGET_ENOTTY \<equiv> 25"
abbreviation (input) TARGET_ETXTBSY :: int where "TARGET_ETXTBSY \<equiv> 26"
abbreviation (input) TARGET_EFBIG :: int where "TARGET_EFBIG \<equiv> 27"
abbreviation (input) TARGET_ENOSPC :: int where "TARGET_ENOSPC \<equiv> 28"
abbreviation (input) TARGET_ESPIPE :: int where "TARGET_ESPIPE \<equiv> 29"
abbreviation (input) TARGET_EROFS :: int where "TARGET_EROFS \<equiv> 30"
abbreviation (input) TARGET_EMLINK :: int where "TARGET_EMLINK \<equiv> 31"
abbreviation (input) TARGET_EPIPE :: int where "TARGET_EPIPE \<equiv> 32"
abbreviation (input) TARGET_EDOM :: int where "TARGET_EDOM \<equiv> 33"
abbreviation (input) TARGET_ERANGE :: int where "TARGET_ERANGE \<equiv> 34"
abbreviation (input) TARGET_EDEADLK :: int where "TARGET_EDEADLK \<equiv> 35"
abbreviation (input) TARGET_ENAMETOOLONG :: int where "TARGET_ENAMETOOLONG \<equiv> 36"
abbreviation (input) TARGET_ENOLCK :: int where "TARGET_ENOLCK \<equiv> 37"
abbreviation (input) TARGET_ENOSYS :: int where "TARGET_ENOSYS \<equiv> 38"
abbreviation (input) TARGET_ENOTEMPTY :: int where "TARGET_ENOTEMPTY \<equiv> 39"
abbreviation (input) TARGET_ELOOP :: int where "TARGET_ELOOP \<equiv> 40"
abbreviation (input) TARGET_ENOMSG :: int where "TARGET_ENOMSG \<equiv> 42"
abbreviation (input) TARGET_EIDRM :: int where "TARGET_EIDRM \<equiv> 43"
abbreviation (input) TARGET_ECHRNG :: int where "TARGET_ECHRNG \<equiv> 44"
abbreviation (input) TARGET_EL2NSYNC :: int where "TARGET_EL2NSYNC \<equiv> 45"
abbreviation (input) TARGET_EL3HLT :: int where "TARGET_EL3HLT \<equiv> 46"
abbreviation (input) TARGET_EL3RST :: int where "TARGET_EL3RST \<equiv> 47"
abbreviation (input) TARGET_ELNRNG :: int where "TARGET_ELNRNG \<equiv> 48"
abbreviation (input) TARGET_EUNATCH :: int where "TARGET_EUNATCH \<equiv> 49"
abbreviation (input) TARGET_ENOCSI :: int where "TARGET_ENOCSI \<equiv> 50"
abbreviation (input) TARGET_EL2HLT :: int where "TARGET_EL2HLT \<equiv> 51"
abbreviation (input) TARGET_EBADE :: int where "TARGET_EBADE \<equiv> 52"
abbreviation (input) TARGET_EBADR :: int where "TARGET_EBADR \<equiv> 53"
abbreviation (input) TARGET_EXFULL :: int where "TARGET_EXFULL \<equiv> 54"
abbreviation (input) TARGET_ENOANO :: int where "TARGET_ENOANO \<equiv> 55"
abbreviation (input) TARGET_EBADRQC :: int where "TARGET_EBADRQC \<equiv> 56"
abbreviation (input) TARGET_EBADSLT :: int where "TARGET_EBADSLT \<equiv> 57"
abbreviation (input) TARGET_EBFONT :: int where "TARGET_EBFONT \<equiv> 59"
abbreviation (input) TARGET_ENOSTR :: int where "TARGET_ENOSTR \<equiv> 60"
abbreviation (input) TARGET_ENODATA :: int where "TARGET_ENODATA \<equiv> 61"
abbreviation (input) TARGET_ETIME :: int where "TARGET_ETIME \<equiv> 62"
abbreviation (input) TARGET_ENOSR :: int where "TARGET_ENOSR \<equiv> 63"
abbreviation (input) TARGET_ENONET :: int where "TARGET_ENONET \<equiv> 64"
abbreviation (input) TARGET_ENOPKG :: int where "TARGET_ENOPKG \<equiv> 65"
abbreviation (input) TARGET_EREMOTE :: int where "TARGET_EREMOTE \<equiv> 66"
abbreviation (input) TARGET_ENOLINK :: int where "TARGET_ENOLINK \<equiv> 67"
abbreviation (input) TARGET_EADV :: int where "TARGET_EADV \<equiv> 68"
abbreviation (input) TARGET_ESRMNT :: int where "TARGET_ESRMNT \<equiv> 69"
abbreviation (input) TARGET_ECOMM :: int where "TARGET_ECOMM \<equiv> 70"
abbreviation (input) TARGET_EPROTO :: int where "TARGET_EPROTO \<equiv> 71"
abbreviation (input) TARGET_EMULTIHOP :: int where "TARGET_EMULTIHOP \<equiv> 72"
abbreviation (input) TARGET_EDOTDOT :: int where "TARGET_EDOTDOT \<equiv> 73"
abbreviation (input) TARGET_EBADMSG :: int where "TARGET_EBADMSG \<equiv> 74"
abbreviation (input) TARGET_EOVERFLOW :: int where "TARGET_EOVERFLOW \<equiv> 75"
abbreviation (input) TARGET_ENOTUNIQ :: int where "TARGET_ENOTUNIQ \<equiv> 76"
abbreviation (input) TARGET_EBADFD :: int where "TARGET_EBADFD \<equiv> 77"
abbreviation (input) TARGET_EREMCHG :: int where "TARGET_EREMCHG \<equiv> 78"
abbreviation (input) TARGET_ELIBACC :: int where "TARGET_ELIBACC \<equiv> 79"
abbreviation (input) TARGET_ELIBBAD :: int where "TARGET_ELIBBAD \<equiv> 80"
abbreviation (input) TARGET_ELIBSCN :: int where "TARGET_ELIBSCN \<equiv> 81"
abbreviation (input) TARGET_ELIBMAX :: int where "TARGET_ELIBMAX \<equiv> 82"
abbreviation (input) TARGET_ELIBEXEC :: int where "TARGET_ELIBEXEC \<equiv> 83"
abbreviation (input) TARGET_EILSEQ :: int where "TARGET_EILSEQ \<equiv> 84"
abbreviation (input) TARGET_ERESTART :: int where "TARGET_ERESTART \<equiv> 85"
abbreviation (input) TARGET_ESTRPIPE :: int where "TARGET_ESTRPIPE \<equiv> 86"
abbreviation (input) TARGET_EUSERS :: int where "TARGET_EUSERS \<equiv> 87"
abbreviation (input) TARGET_ENOTSOCK :: int where "TARGET_ENOTSOCK \<equiv> 88"
abbreviation (input) TARGET_EDESTADDRREQ :: int where "TARGET_EDESTADDRREQ \<equiv> 89"
abbreviation (input) TARGET_EMSGSIZE :: int where "TARGET_EMSGSIZE \<equiv> 90"
abbreviation (input) TARGET_EPROTOTYPE :: int where "TARGET_EPROTOTYPE \<equiv> 91"
abbreviation (input) TARGET_ENOPROTOOPT :: int where "TARGET_ENOPROTOOPT \<equiv> 92"
abbreviation (input) TARGET_EPROTONOSUPPORT :: int where "TARGET_EPROTONOSUPPORT \<equiv> 93"
abbreviation (input) TARGET_ESOCKTNOSUPPORT :: int where "TARGET_ESOCKTNOSUPPORT \<equiv> 94"
abbreviation (input) TARGET_EOPNOTSUPP :: int where "TARGET_EOPNOTSUPP \<equiv> 95"
abbreviation (input) TARGET_EPFNOSUPPORT :: int where "TARGET_EPFNOSUPPORT \<equiv> 96"
abbreviation (input) TARGET_EAFNOSUPPORT :: int where "TARGET_EAFNOSUPPORT \<equiv> 97"
abbreviation (input) TARGET_EADDRINUSE :: int where "TARGET_EADDRINUSE \<equiv> 98"
abbreviation (input) TARGET_EADDRNOTAVAIL :: int where "TARGET_EADDRNOTAVAIL \<equiv> 99"
abbreviation (input) TARGET_ENETDOWN :: int where "TARGET_ENETDOWN \<equiv> 100"
abbreviation (input) TARGET_ENETUNREACH :: int where "TARGET_ENETUNREACH \<equiv> 101"
abbreviation (input) TARGET_ENETRESET :: int where "TARGET_ENETRESET \<equiv> 102"
abbreviation (input) TARGET_ECONNABORTED :: int where "TARGET_ECONNABORTED \<equiv> 103"
abbreviation (input) TARGET_ECONNRESET :: int where "TARGET_ECONNRESET \<equiv> 104"
abbreviation (input) TARGET_ENOBUFS :: int where "TARGET_ENOBUFS \<equiv> 105"
abbreviation (input) TARGET_EISCONN :: int where "TARGET_EISCONN \<equiv> 106"
abbreviation (input) TARGET_ENOTCONN :: int where "TARGET_ENOTCONN \<equiv> 107"
abbreviation (input) TARGET_ESHUTDOWN :: int where "TARGET_ESHUTDOWN \<equiv> 108"
abbreviation (input) TARGET_ETOOMANYREFS :: int where "TARGET_ETOOMANYREFS \<equiv> 109"
abbreviation (input) TARGET_ETIMEDOUT :: int where "TARGET_ETIMEDOUT \<equiv> 110"
abbreviation (input) TARGET_ECONNREFUSED :: int where "TARGET_ECONNREFUSED \<equiv> 111"
abbreviation (input) TARGET_EHOSTDOWN :: int where "TARGET_EHOSTDOWN \<equiv> 112"
abbreviation (input) TARGET_EHOSTUNREACH :: int where "TARGET_EHOSTUNREACH \<equiv> 113"
abbreviation (input) TARGET_EALREADY :: int where "TARGET_EALREADY \<equiv> 114"
abbreviation (input) TARGET_EINPROGRESS :: int where "TARGET_EINPROGRESS \<equiv> 115"
abbreviation (input) TARGET_ESTALE :: int where "TARGET_ESTALE \<equiv> 116"
abbreviation (input) TARGET_EUCLEAN :: int where "TARGET_EUCLEAN \<equiv> 117"
abbreviation (input) TARGET_ENOTNAM :: int where "TARGET_ENOTNAM \<equiv> 118"
abbreviation (input) TARGET_ENAVAIL :: int where "TARGET_ENAVAIL \<equiv> 119"
abbreviation (input) TARGET_EISNAM :: int where "TARGET_EISNAM \<equiv> 120"
abbreviation (input) TARGET_EREMOTEIO :: int where "TARGET_EREMOTEIO \<equiv> 121"
abbreviation (input) TARGET_EDQUOT :: int where "TARGET_EDQUOT \<equiv> 122"
abbreviation (input) TARGET_ENOMEDIUM :: int where "TARGET_ENOMEDIUM \<equiv> 123"
abbreviation (input) TARGET_EMEDIUMTYPE :: int where "TARGET_EMEDIUMTYPE \<equiv> 124"
abbreviation (input) TARGET_ECANCELED :: int where "TARGET_ECANCELED \<equiv> 125"
abbreviation (input) TARGET_ENOKEY :: int where "TARGET_ENOKEY \<equiv> 126"
abbreviation (input) TARGET_EKEYEXPIRED :: int where "TARGET_EKEYEXPIRED \<equiv> 127"
abbreviation (input) TARGET_EKEYREVOKED :: int where "TARGET_EKEYREVOKED \<equiv> 128"
abbreviation (input) TARGET_EKEYREJECTED :: int where "TARGET_EKEYREJECTED \<equiv> 129"
abbreviation (input) TARGET_EOWNERDEAD :: int where "TARGET_EOWNERDEAD \<equiv> 130"
abbreviation (input) TARGET_ENOTRECOVERABLE :: int where "TARGET_ENOTRECOVERABLE \<equiv> 131"

section \<open>The host\<close>

abbreviation (input) ENOMEM :: int where "ENOMEM \<equiv> 12"
abbreviation (input) EFAULT :: int where "EFAULT \<equiv> 14"
abbreviation (input) EINVAL :: int where "EINVAL \<equiv> 22"
abbreviation (input) EDEADLK :: int where "EDEADLK \<equiv> 35"
abbreviation (input) ENAMETOOLONG :: int where "ENAMETOOLONG \<equiv> 36"
abbreviation (input) ENOLCK :: int where "ENOLCK \<equiv> 37"
abbreviation (input) ENOSYS :: int where "ENOSYS \<equiv> 38"
abbreviation (input) ENOTEMPTY :: int where "ENOTEMPTY \<equiv> 39"
abbreviation (input) ELOOP :: int where "ELOOP \<equiv> 40"
abbreviation (input) EIDRM :: int where "EIDRM \<equiv> 43"
abbreviation (input) ECHRNG :: int where "ECHRNG \<equiv> 44"
abbreviation (input) EL2NSYNC :: int where "EL2NSYNC \<equiv> 45"
abbreviation (input) EL3HLT :: int where "EL3HLT \<equiv> 46"
abbreviation (input) EL3RST :: int where "EL3RST \<equiv> 47"
abbreviation (input) ELNRNG :: int where "ELNRNG \<equiv> 48"
abbreviation (input) EUNATCH :: int where "EUNATCH \<equiv> 49"
abbreviation (input) ENOCSI :: int where "ENOCSI \<equiv> 50"
abbreviation (input) EL2HLT :: int where "EL2HLT \<equiv> 51"
abbreviation (input) EBADE :: int where "EBADE \<equiv> 52"
abbreviation (input) EBADR :: int where "EBADR \<equiv> 53"
abbreviation (input) EXFULL :: int where "EXFULL \<equiv> 54"
abbreviation (input) ENOANO :: int where "ENOANO \<equiv> 55"
abbreviation (input) EBADRQC :: int where "EBADRQC \<equiv> 56"
abbreviation (input) EBADSLT :: int where "EBADSLT \<equiv> 57"
abbreviation (input) EBFONT :: int where "EBFONT \<equiv> 59"
abbreviation (input) ENOSTR :: int where "ENOSTR \<equiv> 60"
abbreviation (input) ENODATA :: int where "ENODATA \<equiv> 61"
abbreviation (input) ETIME :: int where "ETIME \<equiv> 62"
abbreviation (input) ENOSR :: int where "ENOSR \<equiv> 63"
abbreviation (input) ENONET :: int where "ENONET \<equiv> 64"
abbreviation (input) ENOPKG :: int where "ENOPKG \<equiv> 65"
abbreviation (input) EREMOTE :: int where "EREMOTE \<equiv> 66"
abbreviation (input) ENOLINK :: int where "ENOLINK \<equiv> 67"
abbreviation (input) EADV :: int where "EADV \<equiv> 68"
abbreviation (input) ESRMNT :: int where "ESRMNT \<equiv> 69"
abbreviation (input) ECOMM :: int where "ECOMM \<equiv> 70"
abbreviation (input) EPROTO :: int where "EPROTO \<equiv> 71"
abbreviation (input) EMULTIHOP :: int where "EMULTIHOP \<equiv> 72"
abbreviation (input) EDOTDOT :: int where "EDOTDOT \<equiv> 73"
abbreviation (input) EBADMSG :: int where "EBADMSG \<equiv> 74"
abbreviation (input) EOVERFLOW :: int where "EOVERFLOW \<equiv> 75"
abbreviation (input) ENOTUNIQ :: int where "ENOTUNIQ \<equiv> 76"
abbreviation (input) EBADFD :: int where "EBADFD \<equiv> 77"
abbreviation (input) EREMCHG :: int where "EREMCHG \<equiv> 78"
abbreviation (input) ELIBACC :: int where "ELIBACC \<equiv> 79"
abbreviation (input) ELIBBAD :: int where "ELIBBAD \<equiv> 80"
abbreviation (input) ELIBSCN :: int where "ELIBSCN \<equiv> 81"
abbreviation (input) ELIBMAX :: int where "ELIBMAX \<equiv> 82"
abbreviation (input) ELIBEXEC :: int where "ELIBEXEC \<equiv> 83"
abbreviation (input) EILSEQ :: int where "EILSEQ \<equiv> 84"
abbreviation (input) ERESTART :: int where "ERESTART \<equiv> 85"
abbreviation (input) ESTRPIPE :: int where "ESTRPIPE \<equiv> 86"
abbreviation (input) EUSERS :: int where "EUSERS \<equiv> 87"
abbreviation (input) ENOTSOCK :: int where "ENOTSOCK \<equiv> 88"
abbreviation (input) EDESTADDRREQ :: int where "EDESTADDRREQ \<equiv> 89"
abbreviation (input) EMSGSIZE :: int where "EMSGSIZE \<equiv> 90"
abbreviation (input) EPROTOTYPE :: int where "EPROTOTYPE \<equiv> 91"
abbreviation (input) ENOPROTOOPT :: int where "ENOPROTOOPT \<equiv> 92"
abbreviation (input) EPROTONOSUPPORT :: int where "EPROTONOSUPPORT \<equiv> 93"
abbreviation (input) ESOCKTNOSUPPORT :: int where "ESOCKTNOSUPPORT \<equiv> 94"
abbreviation (input) EOPNOTSUPP :: int where "EOPNOTSUPP \<equiv> 95"
abbreviation (input) EPFNOSUPPORT :: int where "EPFNOSUPPORT \<equiv> 96"
abbreviation (input) EAFNOSUPPORT :: int where "EAFNOSUPPORT \<equiv> 97"
abbreviation (input) EADDRINUSE :: int where "EADDRINUSE \<equiv> 98"
abbreviation (input) EADDRNOTAVAIL :: int where "EADDRNOTAVAIL \<equiv> 99"
abbreviation (input) ENETDOWN :: int where "ENETDOWN \<equiv> 100"
abbreviation (input) ENETUNREACH :: int where "ENETUNREACH \<equiv> 101"
abbreviation (input) ENETRESET :: int where "ENETRESET \<equiv> 102"
abbreviation (input) ECONNABORTED :: int where "ECONNABORTED \<equiv> 103"
abbreviation (input) ECONNRESET :: int where "ECONNRESET \<equiv> 104"
abbreviation (input) ENOBUFS :: int where "ENOBUFS \<equiv> 105"
abbreviation (input) EISCONN :: int where "EISCONN \<equiv> 106"
abbreviation (input) ENOTCONN :: int where "ENOTCONN \<equiv> 107"
abbreviation (input) ESHUTDOWN :: int where "ESHUTDOWN \<equiv> 108"
abbreviation (input) ETOOMANYREFS :: int where "ETOOMANYREFS \<equiv> 109"
abbreviation (input) ETIMEDOUT :: int where "ETIMEDOUT \<equiv> 110"
abbreviation (input) ECONNREFUSED :: int where "ECONNREFUSED \<equiv> 111"
abbreviation (input) EHOSTDOWN :: int where "EHOSTDOWN \<equiv> 112"
abbreviation (input) EHOSTUNREACH :: int where "EHOSTUNREACH \<equiv> 113"
abbreviation (input) EALREADY :: int where "EALREADY \<equiv> 114"
abbreviation (input) EINPROGRESS :: int where "EINPROGRESS \<equiv> 115"
abbreviation (input) ESTALE :: int where "ESTALE \<equiv> 116"
abbreviation (input) EUCLEAN :: int where "EUCLEAN \<equiv> 117"
abbreviation (input) ENOTNAM :: int where "ENOTNAM \<equiv> 118"
abbreviation (input) ENAVAIL :: int where "ENAVAIL \<equiv> 119"
abbreviation (input) EISNAM :: int where "EISNAM \<equiv> 120"
abbreviation (input) EREMOTEIO :: int where "EREMOTEIO \<equiv> 121"
abbreviation (input) ENOMEDIUM :: int where "ENOMEDIUM \<equiv> 123"
abbreviation (input) EMEDIUMTYPE :: int where "EMEDIUMTYPE \<equiv> 124"
abbreviation (input) ECANCELED :: int where "ECANCELED \<equiv> 125"
abbreviation (input) ENOKEY :: int where "ENOKEY \<equiv> 126"
abbreviation (input) EKEYEXPIRED :: int where "EKEYEXPIRED \<equiv> 127"
abbreviation (input) EKEYREVOKED :: int where "EKEYREVOKED \<equiv> 128"
abbreviation (input) EKEYREJECTED :: int where "EKEYREJECTED \<equiv> 129"
abbreviation (input) EOWNERDEAD :: int where "EOWNERDEAD \<equiv> 130"
abbreviation (input) ENOTRECOVERABLE :: int where "ENOTRECOVERABLE \<equiv> 131"

end
