(* ===== verification/Guest.thy ===== *)
theory Guest
  imports Host Errno_Defs
begin

unbundle bit_operations_syntax

text \<open>
  The state of the emulation layer (the globals of \<open>proj/sparc-linux/syscall.c\<close>), the access
  to guest memory through it (\<open>g2h\<close>, \<open>lock_user\<close>, \<open>get_user\<close> and \<open>put_user\<close> of
  \<open>target-sparc.h\<close>) and the errno translation.

  A guest address is 32 bits wide; \<open>g2h\<close> adds the host address of the guest's RAM.
  \<open>fault\<close> is not a variable of the code: it records that the C program has left what the
  language defines (an access outside an array, a loop that never ends).  It only ever
  goes from \<open>False\<close> to \<open>True\<close>; what runs after that has no meaning.
\<close>

section \<open>State\<close>

datatype log_entry = UnsupportedSyscall int | FileMmapNotSupported | FixedMmapUnsupported
  | ArgcIsWrong

record 'w sl_state =
  target_brk :: u32
  target_brk_limit :: u32
  target_cur_mmap_ptr :: u32
  target_mmap_limit :: u32
  target_sp :: u32
  target_exit_called :: int
  guest_base :: u64
  guest_max_mem :: u64
  errno :: int
  target_to_host_errno_table :: "int list"
  g_posix_timers :: "u64 list"
  hmem :: hostmem
  stderr :: "log_entry list"
  fault :: bool
  world :: 'w

type_synonym ('w, 'a) sl = "('w sl_state, 'a) state"

definition set_errno :: "int \<Rightarrow> ('w, unit) sl" where
  "set_errno e = modify (\<lambda>s. s\<lparr>errno := e\<rparr>)"

definition log_msg :: "log_entry \<Rightarrow> ('w, unit) sl" where
  "log_msg x = modify (\<lambda>s. s\<lparr>stderr := stderr s @ [x]\<rparr>)"

text \<open>A condition the C language needs for what follows to be defined.\<close>

definition require :: "bool \<Rightarrow> ('w, unit) sl" where
  "require b = modify (\<lambda>s. s\<lparr>fault := fault s \<or> \<not> b\<rparr>)"

definition update_mem :: "(hostmem \<Rightarrow> hostmem) \<Rightarrow> ('w, unit) sl" where
  "update_mem f = modify (\<lambda>s. s\<lparr>hmem := f (hmem s)\<rparr>)"

text \<open>A call of the host: its answer, and the state with what the host changed.\<close>

definition after_host :: "('w, 'o) hresult \<Rightarrow> 'w sl_state \<Rightarrow> 'w sl_state" where
  "after_host r s = s\<lparr>
     errno := (case hr_errno r of None \<Rightarrow> errno s | Some e \<Rightarrow> e),
     hmem := hr_mem r, world := hr_world r\<rparr>"

definition host_run :: "('w, 'o) hostfun \<Rightarrow> ('w, int \<times> 'o) sl" where
  "host_run f = State (\<lambda>s. let r = f (hmem s) (world s) in ((hr_ret r, hr_out r), after_host r s))"

definition host_int :: "('w, unit) hostfun \<Rightarrow> ('w, int) sl" where
  "host_int f = do { (r, _) \<leftarrow> host_run f; return r }"

lemma run_host_run [run_simps]:
  "run_state (host_run f) s =
    ((hr_ret (f (hmem s) (world s)), hr_out (f (hmem s) (world s))), after_host (f (hmem s) (world s)) s)"
  by (simp add: host_run_def Let_def)

lemma run_host_int [run_simps]:
  "run_state (host_int f) s = (hr_ret (f (hmem s) (world s)), after_host (f (hmem s) (world s)) s)"
  by (simp add: host_int_def run_host_run)

lemmas [run_simps] = set_errno_def log_msg_def require_def update_mem_def

section \<open>Guest addresses\<close>

definition g2h_at :: "u64 \<Rightarrow> u32 \<Rightarrow> u64" where
  "g2h_at base x = ucast x + base"

definition g2h :: "u32 \<Rightarrow> ('w, u64) sl" where
  "g2h x = gets (\<lambda>s. g2h_at (guest_base s) x)"

text \<open>
  \<open>lock_user\<close> and \<open>lock_user_string\<close> only translate the address: they check nothing, so
  their callers' test for a null pointer is a test for \<open>g2h\<close> being 0.  \<open>unlock_user\<close> is empty.
\<close>

definition lock_user :: "u32 \<Rightarrow> ('w, u64) sl" where
  "lock_user guest_addr = g2h guest_addr"

definition unlock_user :: "u64 \<Rightarrow> u32 \<Rightarrow> ('w, unit) sl" where
  "unlock_user host_ptr guest_addr = return ()"

definition lock_user_string :: "u32 \<Rightarrow> ('w, u64) sl" where
  "lock_user_string guest_addr = g2h guest_addr"

lemmas [run_simps] = g2h_def lock_user_def lock_user_string_def unlock_user_def

text \<open>The result of a failed translation.\<close>

abbreviation (input) efault :: u32 where "efault \<equiv> to_abi (- TARGET_EFAULT)"

section \<open>Typed access to guest memory\<close>

text \<open>\<open>put_user\<close> and \<open>get_user\<close> at the types the code uses; 0 or \<open>-TARGET_EFAULT\<close>.\<close>

definition put_user32 :: "u32 \<Rightarrow> u32 \<Rightarrow> ('w, u32) sl" where
  "put_user32 x gaddr = do {
     p \<leftarrow> lock_user gaddr;
     if p \<noteq> 0 then do {
       update_mem (\<lambda>m. stl_be_p m p x);
       unlock_user p gaddr;
       return 0
     } else return efault
   }"

definition put_user64 :: "u64 \<Rightarrow> u32 \<Rightarrow> ('w, u32) sl" where
  "put_user64 x gaddr = do {
     p \<leftarrow> lock_user gaddr;
     if p \<noteq> 0 then do {
       update_mem (\<lambda>m. stq_be_p m p x);
       unlock_user p gaddr;
       return 0
     } else return efault
   }"

definition get_user32 :: "u32 \<Rightarrow> ('w, u32 \<times> u32) sl" where
  "get_user32 gaddr = do {
     p \<leftarrow> lock_user gaddr;
     if p \<noteq> 0 then do {
       x \<leftarrow> gets (\<lambda>s. ldl_be_p (hmem s) p);
       unlock_user p gaddr;
       return (x, 0)
     } else return (0, efault)
   }"

text \<open>
  \<open>__put_user\<close> and \<open>__get_user\<close> through a pointer into guest memory, at the width of the
  field.  A field that the code assigns as \<open>tswapal(v)\<close> is a host-endian store of the
  swapped value.
\<close>

definition put16 :: "u64 \<Rightarrow> u64 \<Rightarrow> ('w, unit) sl" where
  "put16 x p = update_mem (\<lambda>m. stw_be_p m p (ucast x))"

definition put32 :: "u64 \<Rightarrow> u64 \<Rightarrow> ('w, unit) sl" where
  "put32 x p = update_mem (\<lambda>m. stl_be_p m p (ucast x))"

definition put64 :: "u64 \<Rightarrow> u64 \<Rightarrow> ('w, unit) sl" where
  "put64 x p = update_mem (\<lambda>m. stq_be_p m p x)"

definition get32 :: "u64 \<Rightarrow> ('w, u32) sl" where
  "get32 p = gets (\<lambda>s. ldl_be_p (hmem s) p)"

definition store_tswapal :: "u64 \<Rightarrow> u64 \<Rightarrow> ('w, unit) sl" where
  "store_tswapal x p = update_mem (\<lambda>m. stl_he_p m p (tswapal (ucast x)))"

definition load_tswapal :: "u64 \<Rightarrow> ('w, u32) sl" where
  "load_tswapal p = gets (\<lambda>s. tswapal (ldl_he_p (hmem s) p))"

text \<open>The two ways of writing a field leave the same bytes.\<close>

lemma stl_he_tswapal [simp]: "stl_he_p m p (tswapal v) = stl_be_p m p v"
  by (simp add: stl_be_p_def tswapal_def tswap32_def)

lemma tswapal_ldl_he [simp]: "tswapal (ldl_he_p m p) = ldl_be_p m p"
  by (simp add: ldl_be_p_def tswapal_def tswap32_def)

lemmas [run_simps] = put_user32_def put_user64_def get_user32_def put16_def put32_def put64_def
  get32_def store_tswapal_def load_tswapal_def

section \<open>The frame of an ordinary system call\<close>

text \<open>
  What all system calls but \<open>exit\<close>, \<open>exit_group\<close>, \<open>brk\<close> and the two \<open>mmap\<close>s leave alone:
  the layout of the guest's address space, the exit flag and the tables.  A fault is never
  taken back.
\<close>

definition same_core :: "'w sl_state \<Rightarrow> 'w sl_state \<Rightarrow> bool" where
  "same_core s t \<longleftrightarrow>
     target_brk t = target_brk s \<and> target_brk_limit t = target_brk_limit s \<and>
     target_cur_mmap_ptr t = target_cur_mmap_ptr s \<and> target_mmap_limit t = target_mmap_limit s \<and>
     target_sp t = target_sp s \<and> target_exit_called t = target_exit_called s \<and>
     guest_base t = guest_base s \<and> guest_max_mem t = guest_max_mem s \<and>
     target_to_host_errno_table t = target_to_host_errno_table s \<and>
     g_posix_timers t = g_posix_timers s \<and> (fault s \<longrightarrow> fault t)"

lemma same_core_refl [simp]: "same_core s s"
  by (simp add: same_core_def)

lemma same_core_trans: "same_core s t \<Longrightarrow> same_core t u \<Longrightarrow> same_core s u"
  by (auto simp: same_core_def)

lemma reflp_same_core [simp]: "reflp same_core"
  by (simp add: reflp_def)

lemma transp_same_core [simp]: "transp same_core"
  by (auto simp: transp_def intro: same_core_trans)

abbreviation framed :: "('w, 'a) sl \<Rightarrow> bool" where
  "framed m \<equiv> state_io_rel same_core m"

lemma framedD: "framed m \<Longrightarrow> same_core s (state_after m s)"
  by (simp add: state_io_rel_def)

lemmas framed_basic [frame_intros] =
  io_rel_return [OF reflp_same_core] io_rel_gets [OF reflp_same_core]
  io_rel_bind [OF transp_same_core] io_rel_if io_rel_let io_rel_case_prod io_rel_case_option

lemma framed_modify [frame_intros]:
  "framed (set_errno e)" "framed (log_msg x)" "framed (require b)" "framed (update_mem f)"
  by (simp_all add: set_errno_def log_msg_def require_def update_mem_def state_io_rel_def same_core_def)

lemma framed_host [frame_intros]: "framed (host_run f)" "framed (host_int g)"
  by (simp_all add: state_io_rel_def run_host_run run_host_int after_host_def same_core_def)

lemma framed_access [frame_intros]:
  "framed (g2h x)" "framed (lock_user x)" "framed (lock_user_string x)" "framed (unlock_user p x)"
  "framed (put16 v p)" "framed (put32 v p)" "framed (put64 v p)" "framed (get32 p)"
  "framed (store_tswapal v p)" "framed (load_tswapal p)"
  unfolding g2h_def lock_user_def lock_user_string_def unlock_user_def put16_def put32_def
    put64_def get32_def store_tswapal_def load_tswapal_def
  by (intro frame_intros)+

lemma framed_user [frame_intros]:
  "framed (put_user32 v x)" "framed (put_user64 w x)" "framed (get_user32 x)"
  unfolding put_user32_def put_user64_def get_user32_def by (intro frame_intros)+

section \<open>A concrete machine\<close>

text \<open>
  A state and a host at which the theorems are applied: the layout that \<open>main.cpp\<close> sets up
  (1 GB of guest memory), memory all zero; a host that knows no path and otherwise answers 0.
\<close>

definition demo_state :: "unit sl_state" where
  "demo_state = \<lparr>target_brk = 0x20000, target_brk_limit = 0x10000000,
     target_cur_mmap_ptr = 0x10000000, target_mmap_limit = 0x20000000, target_sp = 0x3fc00000,
     target_exit_called = 0, guest_base = 0x700000000000, guest_max_mem = 0x40000000, errno = 0,
     target_to_host_errno_table = replicate 1200 0, g_posix_timers = replicate 32 0,
     hmem = (\<lambda>a. 0), stderr = [], fault = False, world = ()\<rparr>"

definition demo_answer :: "int \<Rightarrow> int option \<Rightarrow> 'o \<Rightarrow> (unit, 'o) hostfun" where
  "demo_answer r e x m w = \<lparr>hr_ret = r, hr_errno = e, hr_mem = m, hr_world = w, hr_out = x\<rparr>"

definition demo_stat :: host_stat where
  "demo_stat = \<lparr>st_dev = 2049, st_ino = 42, st_mode = 33188, st_nlink = 1, st_uid = 1000,
     st_gid = 1000, st_rdev = 0, st_size = 5000000000, st_blksize = 4096, st_blocks = 16,
     st_atime = 1, st_mtime = 2, st_ctime = 3\<rparr>"

definition demo_tv :: host_timeval where
  "demo_tv = \<lparr>tv_sec = 7, tv_usec = 8\<rparr>"

definition demo_os :: "unit host_os" where
  "demo_os = \<lparr>
     os_path = (\<lambda>f x. demo_answer (- 1) (Some 2) ()),
     os_fd = (\<lambda>f x. demo_answer 0 None ()),
     os_proc = (\<lambda>f x. demo_answer 0 None ()),
     os_id = (\<lambda>f x. demo_answer 0 None ()),
     os_mem = (\<lambda>f x. demo_answer (if f = M_calloc then 64 else 0) None ()),
     os_stat = (\<lambda>f x. demo_answer 0 None demo_stat),
     os_statfs = (\<lambda>f x. demo_answer 0 None
        \<lparr>f_type = 0, f_bsize = 0, f_blocks = 0, f_bfree = 0, f_bavail = 0, f_files = 0,
         f_ffree = 0, f_fsid0 = 0, f_fsid1 = 0, f_namelen = 0, f_frsize = 0\<rparr>),
     os_itimer = (\<lambda>f x. demo_answer 0 None \<lparr>it_interval = demo_tv, it_value = demo_tv\<rparr>),
     os_getres = (\<lambda>f. demo_answer 0 None (0, 0, 0)),
     os_getrlimit = (\<lambda>x. demo_answer 0 None \<lparr>rlim_cur = 0, rlim_max = 0\<rparr>),
     os_getrusage = (\<lambda>x. demo_answer 0 None
        \<lparr>ru_utime = demo_tv, ru_stime = demo_tv, ru_maxrss = 0, ru_ixrss = 0, ru_idrss = 0,
         ru_isrss = 0, ru_minflt = 0, ru_majflt = 0, ru_nswap = 0, ru_inblock = 0,
         ru_oublock = 0, ru_msgsnd = 0, ru_msgrcv = 0, ru_nsignals = 0, ru_nvcsw = 0,
         ru_nivcsw = 0\<rparr>),
     os_gettimeofday = demo_answer 0 None demo_tv,
     os_time = demo_answer 1000 None 1000,
     os_times = demo_answer 5 None \<lparr>tms_utime = 1, tms_stime = 2, tms_cutime = 3, tms_cstime = 4\<rparr>,
     os_sysinfo = demo_answer 0 None
        \<lparr>si_uptime = 0, si_load0 = 0, si_load1 = 0, si_load2 = 0, si_totalram = 0, si_freeram = 0,
         si_sharedram = 0, si_bufferram = 0, si_totalswap = 0, si_freeswap = 0, si_procs = 0,
         si_totalhigh = 0, si_freehigh = 0, si_mem_unit = 0\<rparr>,
     os_pdeathsig = (\<lambda>x. demo_answer 0 None 0),
     os_sendfile = (\<lambda>x. demo_answer 0 None 0),
     os_select = (\<lambda>n r w e t. demo_answer (- 1) (Some 9) (0, 0, 0, demo_tv)),
     indet_ret = 0\<rparr>"

lemma demo_base [simp]: "guest_base demo_state = 0x700000000000" "\<not> fault demo_state"
  by (simp_all add: demo_state_def)

end
