(* ===== verification/Errno.thy ===== *)
theory Errno
  imports Guest
begin

unbundle bit_operations_syntax

text \<open>
  The errno translation of \<open>proj/sparc-linux/syscall.c\<close>: the table, the result convention
  (\<open>get_errno\<close>, \<open>is_error\<close>) and the inverse table that \<open>sl_init\<close> builds.  The lemmas show
  that on a Linux host the table is the identity wherever it is defined, so a failed host
  call reaches the guest as \<open>-errno\<close>.
\<close>

section \<open>The table\<close>

definition ERRNO_TABLE_SIZE :: int where
  "ERRNO_TABLE_SIZE = 1200"

text \<open>The designated initialisers of the array; every other element is 0.\<close>

definition host_to_target_errno_table :: "(int \<times> int) list" where
  "host_to_target_errno_table = [
     (EIDRM, TARGET_EIDRM), (ECHRNG, TARGET_ECHRNG), (EL2NSYNC, TARGET_EL2NSYNC),
     (EL3HLT, TARGET_EL3HLT), (EL3RST, TARGET_EL3RST), (ELNRNG, TARGET_ELNRNG),
     (EUNATCH, TARGET_EUNATCH), (ENOCSI, TARGET_ENOCSI), (EL2HLT, TARGET_EL2HLT),
     (EDEADLK, TARGET_EDEADLK), (ENOLCK, TARGET_ENOLCK), (EBADE, TARGET_EBADE),
     (EBADR, TARGET_EBADR), (EXFULL, TARGET_EXFULL), (ENOANO, TARGET_ENOANO),
     (EBADRQC, TARGET_EBADRQC), (EBADSLT, TARGET_EBADSLT), (EBFONT, TARGET_EBFONT),
     (ENOSTR, TARGET_ENOSTR), (ENODATA, TARGET_ENODATA), (ETIME, TARGET_ETIME),
     (ENOSR, TARGET_ENOSR), (ENONET, TARGET_ENONET), (ENOPKG, TARGET_ENOPKG),
     (EREMOTE, TARGET_EREMOTE), (ENOLINK, TARGET_ENOLINK), (EADV, TARGET_EADV),
     (ESRMNT, TARGET_ESRMNT), (ECOMM, TARGET_ECOMM), (EPROTO, TARGET_EPROTO),
     (EDOTDOT, TARGET_EDOTDOT), (EMULTIHOP, TARGET_EMULTIHOP), (EBADMSG, TARGET_EBADMSG),
     (ENAMETOOLONG, TARGET_ENAMETOOLONG), (EOVERFLOW, TARGET_EOVERFLOW), (ENOTUNIQ, TARGET_ENOTUNIQ),
     (EBADFD, TARGET_EBADFD), (EREMCHG, TARGET_EREMCHG), (ELIBACC, TARGET_ELIBACC),
     (ELIBBAD, TARGET_ELIBBAD), (ELIBSCN, TARGET_ELIBSCN), (ELIBMAX, TARGET_ELIBMAX),
     (ELIBEXEC, TARGET_ELIBEXEC), (EILSEQ, TARGET_EILSEQ), (ENOSYS, TARGET_ENOSYS),
     (ELOOP, TARGET_ELOOP), (ERESTART, TARGET_ERESTART), (ESTRPIPE, TARGET_ESTRPIPE),
     (ENOTEMPTY, TARGET_ENOTEMPTY), (EUSERS, TARGET_EUSERS), (ENOTSOCK, TARGET_ENOTSOCK),
     (EDESTADDRREQ, TARGET_EDESTADDRREQ), (EMSGSIZE, TARGET_EMSGSIZE), (EPROTOTYPE, TARGET_EPROTOTYPE),
     (ENOPROTOOPT, TARGET_ENOPROTOOPT), (EPROTONOSUPPORT, TARGET_EPROTONOSUPPORT), (ESOCKTNOSUPPORT, TARGET_ESOCKTNOSUPPORT),
     (EOPNOTSUPP, TARGET_EOPNOTSUPP), (EPFNOSUPPORT, TARGET_EPFNOSUPPORT), (EAFNOSUPPORT, TARGET_EAFNOSUPPORT),
     (EADDRINUSE, TARGET_EADDRINUSE), (EADDRNOTAVAIL, TARGET_EADDRNOTAVAIL), (ENETDOWN, TARGET_ENETDOWN),
     (ENETUNREACH, TARGET_ENETUNREACH), (ENETRESET, TARGET_ENETRESET), (ECONNABORTED, TARGET_ECONNABORTED),
     (ECONNRESET, TARGET_ECONNRESET), (ENOBUFS, TARGET_ENOBUFS), (EISCONN, TARGET_EISCONN),
     (ENOTCONN, TARGET_ENOTCONN), (EUCLEAN, TARGET_EUCLEAN), (ENOTNAM, TARGET_ENOTNAM),
     (ENAVAIL, TARGET_ENAVAIL), (EISNAM, TARGET_EISNAM), (EREMOTEIO, TARGET_EREMOTEIO),
     (ESHUTDOWN, TARGET_ESHUTDOWN), (ETOOMANYREFS, TARGET_ETOOMANYREFS), (ETIMEDOUT, TARGET_ETIMEDOUT),
     (ECONNREFUSED, TARGET_ECONNREFUSED), (EHOSTDOWN, TARGET_EHOSTDOWN), (EHOSTUNREACH, TARGET_EHOSTUNREACH),
     (EALREADY, TARGET_EALREADY), (EINPROGRESS, TARGET_EINPROGRESS), (ESTALE, TARGET_ESTALE),
     (ECANCELED, TARGET_ECANCELED), (ENOMEDIUM, TARGET_ENOMEDIUM), (EMEDIUMTYPE, TARGET_EMEDIUMTYPE),
     (ENOKEY, TARGET_ENOKEY), (EKEYEXPIRED, TARGET_EKEYEXPIRED), (EKEYREVOKED, TARGET_EKEYREVOKED),
     (EKEYREJECTED, TARGET_EKEYREJECTED), (EOWNERDEAD, TARGET_EOWNERDEAD), (ENOTRECOVERABLE, TARGET_ENOTRECOVERABLE)]"

definition errno_entry :: "int \<Rightarrow> int" where
  "errno_entry i = (case map_of host_to_target_errno_table i of None \<Rightarrow> 0 | Some t \<Rightarrow> t)"

definition host_to_target_errno :: "int \<Rightarrow> ('w, int) sl" where
  "host_to_target_errno err = do {
     require (0 \<le> err \<and> err < ERRNO_TABLE_SIZE);
     return (if errno_entry err \<noteq> 0 then errno_entry err else err)
   }"

section \<open>Results\<close>

text \<open>The parameter of \<open>get_errno\<close> is an \<open>abi_long\<close>: a \<open>long\<close> result is truncated to 32 bits.\<close>

definition get_errno :: "int \<Rightarrow> ('w, u32) sl" where
  "get_errno r = (let ret = to_abi r in
     if ret = -1 then do {
       e \<leftarrow> gets errno;
       t \<leftarrow> host_to_target_errno e;
       return (to_abi (- t))
     } else return ret)"

definition is_error :: "u32 \<Rightarrow> bool" where
  "is_error ret \<longleftrightarrow> ret \<ge> -4096"

section \<open>The inverse table\<close>

text \<open>
  The loop of \<open>sl_init\<close>: \<open>target_to_host_errno_table[host_to_target_errno_table[i]] = i\<close> for
  every \<open>i\<close>, unused elements (0) included.
\<close>

definition build_target_to_host_errno :: "int list \<Rightarrow> int list" where
  "build_target_to_host_errno t =
     fold (\<lambda>i t. t[nat (errno_entry i) := i]) [0..ERRNO_TABLE_SIZE - 1] t"

section \<open>Facts\<close>

lemma table_diagonal: "(e, t) \<in> set host_to_target_errno_table \<Longrightarrow> t = e \<and> 35 \<le> e \<and> e < 132"
  by (auto simp: host_to_target_errno_table_def)

lemma errno_entry_cases: "errno_entry i = 0 \<or> errno_entry i = i"
  using table_diagonal by (auto simp: errno_entry_def split: option.splits dest!: map_of_SomeD)

lemma errno_entry_range: "errno_entry i \<noteq> 0 \<Longrightarrow> errno_entry i = i \<and> 35 \<le> i \<and> i < 132"
  using table_diagonal by (auto simp: errno_entry_def split: option.splits dest!: map_of_SomeD)

lemma host_to_target_errno_id [run_simps]:
  "run_state (host_to_target_errno e) s =
    (e, s\<lparr>fault := fault s \<or> \<not> (0 \<le> e \<and> e < ERRNO_TABLE_SIZE)\<rparr>)"
  using errno_entry_cases [of e] by (auto simp: host_to_target_errno_def run_simps)

lemma run_get_errno [run_simps]:
  "run_state (get_errno r) s =
    (if to_abi r = -1
     then (to_abi (- errno s),
           s\<lparr>fault := fault s \<or> \<not> (0 \<le> errno s \<and> errno s < ERRNO_TABLE_SIZE)\<rparr>)
     else (to_abi r, s))"
  by (auto simp: get_errno_def Let_def host_to_target_errno_id)

lemma is_error_iff: "is_error r \<longleftrightarrow> - 4096 \<le> sint r \<and> sint r < 0"
  using uint_u32_less [of r] by (auto simp: is_error_def word_le_def sint_u32)

lemma is_error_of_neg:
  assumes "0 < e" and "e \<le> 4096"
  shows "is_error (to_abi (- e))"
  using assms by (simp add: is_error_iff sint_to_abi)

lemma not_is_error_zero [simp]: "\<not> is_error 0"
  by (simp add: is_error_def word_le_def)

text \<open>A failed host call with a valid errno, and a call that did not fail.\<close>

lemma get_errno_failed:
  assumes "to_abi r = -1" and "0 \<le> errno s" and "errno s < ERRNO_TABLE_SIZE"
  shows "run_state (get_errno r) s = (to_abi (- errno s), s)"
  using assms by (simp add: run_get_errno)

lemma get_errno_succeeded:
  assumes "to_abi r \<noteq> -1"
  shows "run_state (get_errno r) s = (to_abi r, s)"
  using assms by (simp add: run_get_errno)

lemma fold_update_other:
  assumes "k \<notin> f ` set is"
  shows "fold (\<lambda>i t. t[f i := g i]) is t ! k = t ! k"
  using assms by (induction "is" arbitrary: t) (auto simp: nth_list_update_neq)

lemma length_fold_update [simp]: "length (fold (\<lambda>i t. t[f i := g i]) is t) = length t"
  by (induction "is" arbitrary: t) auto

lemma fold_update_at:
  assumes "f i < length t" and "i \<in> set is" and "\<And>j. j \<in> set is \<Longrightarrow> f j = f i \<Longrightarrow> j = i"
  shows "fold (\<lambda>i t. t[f i := g i]) is t ! f i = g i"
  using assms
proof (induction "is" arbitrary: t)
  case Nil
  then show ?case by simp
next
  case (Cons j js)
  show ?case
  proof (cases "i \<in> set js")
    case True
    then show ?thesis using Cons.prems Cons.IH [of "t[f j := g j]"] by simp
  next
    case False
    with Cons.prems(2) have j: "j = i" by simp
    have "f i \<notin> f ` set js"
    proof
      assume "f i \<in> f ` set js"
      then obtain l where "l \<in> set js" "f l = f i" by force
      with Cons.prems(3) [of l] False show False by simp
    qed
    then have "fold (\<lambda>i t. t[f i := g i]) js (t[f j := g j]) ! f i = t[f j := g j] ! f i"
      by (rule fold_update_other)
    with Cons.prems(1) j show ?thesis by simp
  qed
qed

text \<open>The inverse table inverts the table on the entries it has.\<close>

lemma target_to_host_inverts:
  assumes "length t = nat ERRNO_TABLE_SIZE" and "errno_entry e \<noteq> 0"
  shows "build_target_to_host_errno t ! nat (errno_entry e) = e"
proof -
  have e: "errno_entry e = e" "35 \<le> e" "e < 132"
    using errno_entry_range assms by blast+
  have "\<And>j. nat (errno_entry j) = nat (errno_entry e) \<Longrightarrow> j = e"
    using e errno_entry_cases by (metis (no_types) nat_0_iff eq_nat_nat_iff linorder_not_le
        order_less_le_trans zero_less_numeral less_imp_le)
  moreover have "e \<in> set [0..ERRNO_TABLE_SIZE - 1]"
    unfolding set_upto using e by (simp add: ERRNO_TABLE_SIZE_def)
  moreover have "nat (errno_entry e) < length t"
    using assms e by (simp add: ERRNO_TABLE_SIZE_def)
  ultimately show ?thesis
    unfolding build_target_to_host_errno_def by (intro fold_update_at) simp_all
qed

lemma framed_errno [frame_intros]: "framed (host_to_target_errno e)" "framed (get_errno r)"
  unfolding host_to_target_errno_def get_errno_def by (intro frame_intros)+

end
