(* ===== verification/AddrSpace.thy ===== *)
theory AddrSpace
  imports Errno
begin

unbundle bit_operations_syntax

text \<open>
  The guest's address space in \<open>proj/sparc-linux/syscall.c\<close>: the heap that \<open>do_brk\<close> grows and
  the region that \<open>target_mmap\<close> hands out from below, with the page rounding of
  \<open>cpu-all.h\<close>.  The abstract side (\<open>aspace\<close>, \<open>spec_brk\<close>, \<open>spec_mmap\<close>) has natural numbers for
  addresses; the code refines it as long as rounding the request up and adding it to the
  pointer stay below 2^32.  Beyond that the 32-bit sums wrap, and two lemmas show what the
  code does then.

  The locale \<open>region_allocator\<close> is the contract of an allocator that only moves a pointer
  up; its client lemma is that the regions of a run of requests never meet.
\<close>

section \<open>Pages\<close>

definition TARGET_PAGE_ALIGN :: "u32 \<Rightarrow> u32" where
  "TARGET_PAGE_ALIGN addr = (addr + 0x1000 - 1) AND 0xfffff000"

text \<open>The sum is taken in 32 bits (\<open>4U*1024U\<close>), the mask in 64.\<close>

definition HOST_PAGE_ALIGN :: "u32 \<Rightarrow> u64" where
  "HOST_PAGE_ALIGN addr = ucast (addr + 4 * 1024 - 1) AND 0xfffffffffffff000"

definition roundup :: "nat \<Rightarrow> nat" where
  "roundup n = (n + 4095) div 4096 * 4096"

section \<open>The code\<close>

definition do_brk :: "u32 \<Rightarrow> ('w, u32) sl" where
  "do_brk new_brk = do {
     brk \<leftarrow> gets target_brk;
     if new_brk = 0 then return brk
     else if new_brk < brk then return brk
     else do {
       let new_brk = ucast (HOST_PAGE_ALIGN new_brk);
       limit \<leftarrow> gets target_brk_limit;
       if new_brk \<le> limit then do {
         (if new_brk > brk then do {
            p \<leftarrow> g2h brk;
            update_mem (\<lambda>m. mem_set m p 0 (unat (new_brk - brk)))
          } else return ());
         modify (\<lambda>s. s\<lparr>target_brk := new_brk\<rparr>);
         gets target_brk
       } else gets target_brk
     }
   }"

abbreviation (input) MAP_FIXED :: u32 where "MAP_FIXED \<equiv> 0x10"

definition target_mmap :: "u32 \<Rightarrow> u32 \<Rightarrow> u32 \<Rightarrow> u32 \<Rightarrow> u32 \<Rightarrow> u32 \<Rightarrow> ('w, u32) sl" where
  "target_mmap start len prot flags fd offset =
    (if sint fd \<ge> 0 then do {
       log_msg FileMmapNotSupported; set_errno EINVAL; return (-1)
     }
     else if flags AND MAP_FIXED \<noteq> 0 then do {
       log_msg FixedMmapUnsupported; set_errno EINVAL; return (-1)
     }
     else do {
       let len = TARGET_PAGE_ALIGN len;
       cur \<leftarrow> gets target_cur_mmap_ptr;
       limit \<leftarrow> gets target_mmap_limit;
       if len + cur < limit then do {
         start \<leftarrow> gets target_cur_mmap_ptr;
         modify (\<lambda>s. s\<lparr>target_cur_mmap_ptr := target_cur_mmap_ptr s + len\<rparr>);
         return start
       } else do { set_errno ENOMEM; return (-1) }
     })"

definition target_munmap :: "u32 \<Rightarrow> u32 \<Rightarrow> ('w, u32) sl" where
  "target_munmap start len = return 0"

section \<open>The abstract address space\<close>

record aspace =
  as_brk :: nat
  as_brk_limit :: nat
  as_mmap_ptr :: nat
  as_mmap_limit :: nat

definition abs_aspace :: "'w sl_state \<Rightarrow> aspace" where
  "abs_aspace s = \<lparr>as_brk = unat (target_brk s), as_brk_limit = unat (target_brk_limit s),
     as_mmap_ptr = unat (target_cur_mmap_ptr s), as_mmap_limit = unat (target_mmap_limit s)\<rparr>"

text \<open>The break never moves down, and moves up by whole pages while they fit.\<close>

definition spec_brk :: "nat \<Rightarrow> aspace \<Rightarrow> nat \<times> aspace" where
  "spec_brk n a =
    (if as_brk a \<le> n \<and> roundup n \<le> as_brk_limit a
     then (roundup n, a\<lparr>as_brk := roundup n\<rparr>) else (as_brk a, a))"

text \<open>A mapping takes the next pages of the region, if they end before its limit.\<close>

definition spec_mmap :: "nat \<Rightarrow> aspace \<Rightarrow> (nat \<times> nat) option \<times> aspace" where
  "spec_mmap len a =
    (let e = as_mmap_ptr a + roundup len in
     if e < as_mmap_limit a then (Some (as_mmap_ptr a, e), a\<lparr>as_mmap_ptr := e\<rparr>)
     else (None, a))"

text \<open>Heap below, mappings above.\<close>

definition layout_ok :: "aspace \<Rightarrow> bool" where
  "layout_ok a \<longleftrightarrow> as_brk a \<le> as_brk_limit a \<and> as_brk_limit a \<le> as_mmap_ptr a \<and>
     as_mmap_ptr a \<le> as_mmap_limit a"

section \<open>Rounding\<close>

lemma page_mask:
  fixes x :: u32
  shows "unat (x AND 0xfffff000) = unat x div 4096 * 4096"
proof -
  have m: "(0xfffff000 :: u32) = push_bit 12 (mask 20)"
    by (simp add: mask_eq_exp_minus_1)
  have "x AND push_bit 12 (mask 20) = push_bit 12 (drop_bit 12 x)"
    by (rule bit_word_eqI) (auto simp: bit_simps less_diff_conv2)
  then have "x AND 0xfffff000 = push_bit 12 (drop_bit 12 x)"
    by (simp only: m)
  moreover have "unat (push_bit 12 (drop_bit 12 x)) = unat x div 4096 * 4096"
  proof -
    have "unat x div 4096 * 4096 < 4294967296"
      using unat_u32_less [of x] div_times_less_eq_dividend [of "unat x" 4096] by linarith
    then show ?thesis
      by (simp add: push_bit_eq_mult drop_bit_eq_div unat_word_ariths(2) unat_div)
  qed
  ultimately show ?thesis by simp
qed

lemma roundup_bounds: "n \<le> roundup n" "roundup n < n + 4096" "4096 dvd roundup n"
proof -
  have "(n + 4095) mod 4096 + (n + 4095) div 4096 * 4096 = n + 4095" by simp
  then show "n \<le> roundup n" "roundup n < n + 4096"
    unfolding roundup_def using mod_less_divisor [of 4096 "n + 4095"] by linarith+
  show "4096 dvd roundup n" by (simp add: roundup_def)
qed

lemma roundup_mono: "m \<le> n \<Longrightarrow> roundup m \<le> roundup n"
  by (simp add: roundup_def div_le_mono)

lemma roundup_0 [simp]: "roundup 0 = 0"
  by (simp add: roundup_def)

lemma TARGET_PAGE_ALIGN_roundup:
  assumes "unat len + 4095 < 2 ^ 32"
  shows "unat (TARGET_PAGE_ALIGN len) = roundup (unat len)"
proof -
  have "len + 0x1000 - 1 = len + 4095" by simp
  moreover have "unat (len + 4095) = unat len + 4095"
    using assms by (simp add: unat_word_ariths)
  ultimately show ?thesis
    by (simp only: TARGET_PAGE_ALIGN_def page_mask roundup_def)
qed

lemma HOST_PAGE_ALIGN_low: "ucast (HOST_PAGE_ALIGN a) = TARGET_PAGE_ALIGN a"
proof -
  have "(ucast (0xfffffffffffff000 :: u64) :: u32) = 0xfffff000" by simp
  moreover have "(ucast (ucast x :: u64) :: u32) = x" for x :: u32
    by (rule bit_word_eqI) (simp add: bit_simps)
  moreover have "a + 4 * 1024 - 1 = a + 0x1000 - 1" by simp
  ultimately show ?thesis
    by (simp only: HOST_PAGE_ALIGN_def TARGET_PAGE_ALIGN_def unsigned_and_eq)
qed

lemma TARGET_PAGE_ALIGN_wraps:
  assumes "0xfffff000 < len"
  shows "TARGET_PAGE_ALIGN len = 0"
proof -
  define d where "d = unat len - 0xfffff001"
  have u: "unat len = d + 0xfffff001" "d < 4095"
    using assms unat_u32_less [of len] by (auto simp: d_def word_less_nat_alt)
  have "len + 0x1000 - 1 = len + 4095" by simp
  moreover have "unat (len + 4095) = d"
    using u by (simp add: unat_word_ariths)
  ultimately have "unat (TARGET_PAGE_ALIGN len) = d div 4096 * 4096"
    by (simp only: TARGET_PAGE_ALIGN_def page_mask)
  then show ?thesis using u by (simp add: unat_eq_0)
qed

section \<open>The break\<close>

lemma run_do_brk:
  "run_state (do_brk n) s =
    (let e = TARGET_PAGE_ALIGN n; b = target_brk s in
     if n = 0 \<or> n < b \<or> target_brk_limit s < e then (b, s)
     else (e, s\<lparr>target_brk := e,
                hmem := (if b < e then mem_set (hmem s) (g2h_at (guest_base s) b) 0 (unat (e - b))
                         else hmem s)\<rparr>))"
  by (auto simp: do_brk_def run_simps Let_def HOST_PAGE_ALIGN_low)

lemma brk_refines:
  assumes "unat n + 4095 < 2 ^ 32"
  shows "(let (r, t) = run_state (do_brk n) s in (unat r, abs_aspace t)) =
    spec_brk (unat n) (abs_aspace s)"
  using TARGET_PAGE_ALIGN_roundup [OF assms]
  by (auto simp: run_do_brk Let_def spec_brk_def abs_aspace_def word_less_nat_alt unat_eq_0)

lemma brk_framed:
  defines "t s n \<equiv> state_after (do_brk n) s"
  shows "t s n = s\<lparr>target_brk := target_brk (t s n), hmem := hmem (t s n)\<rparr>"
  by (simp add: t_def run_do_brk Let_def)

lemma g2h_in_range:
  assumes "n \<le> 2 ^ 32"
  shows "in_range (g2h_at base a) (g2h_at base b) n \<longleftrightarrow> unat b \<le> unat a \<and> unat a < unat b + n"
  using assms unat_u32_less [of a] unat_u32_less [of b]
  by (auto simp: in_range_def g2h_at_def unat_sub_u64)

lemma mem_set_guest:
  fixes n :: u32
  shows "mem_set m (g2h_at base b) c (unat n) (g2h_at base a) =
    (if unat b \<le> unat a \<and> unat a < unat b + unat n then c else m (g2h_at base a))"
  using g2h_in_range [of "unat n" base a b] unat_u32_less [of n]
  by (simp add: mem_set_def in_range_def)

lemma brk_memory:
  defines "t s n \<equiv> state_after (do_brk n) s"
  shows "hmem (t s n) (g2h_at (guest_base s) a) =
    (if target_brk s \<le> a \<and> a < target_brk (t s n) then 0 else hmem s (g2h_at (guest_base s) a))"
proof -
  let ?e = "TARGET_PAGE_ALIGN n" and ?b = "target_brk s"
  have "unat ?b + unat (?e - ?b) = unat ?e" if "?b \<le> ?e"
    using unat_sub_add [OF that] by simp
  then show ?thesis
    by (auto simp: t_def run_do_brk Let_def mem_set_guest word_le_nat_alt word_less_nat_alt)
qed

lemma brk_wraps:
  assumes "0xfffff000 < n" and "target_brk s \<le> n"
  shows "result_of (do_brk n) s = 0" "target_brk (state_after (do_brk n) s) = 0"
proof -
  have "n \<noteq> 0" using assms(1) by auto
  then show "result_of (do_brk n) s = 0" "target_brk (state_after (do_brk n) s) = 0"
    using TARGET_PAGE_ALIGN_wraps [OF assms(1)] assms(2) by (auto simp: run_do_brk Let_def)
qed

section \<open>Mappings\<close>

lemma run_target_mmap:
  assumes "sint fd < 0" and "flags AND MAP_FIXED = 0"
  shows "run_state (target_mmap start len prot flags fd offset) s =
    (let l = TARGET_PAGE_ALIGN len; c = target_cur_mmap_ptr s in
     if l + c < target_mmap_limit s then (c, s\<lparr>target_cur_mmap_ptr := c + l\<rparr>)
     else (-1, s\<lparr>errno := ENOMEM\<rparr>))"
  using assms by (simp add: target_mmap_def run_simps Let_def)

lemma mmap_refused:
  assumes "0 \<le> sint fd \<or> flags AND MAP_FIXED \<noteq> 0"
  shows "result_of (target_mmap start len prot flags fd offset) s = -1"
    "errno (state_after (target_mmap start len prot flags fd offset) s) = EINVAL"
    "abs_aspace (state_after (target_mmap start len prot flags fd offset) s) = abs_aspace s"
  using assms by (auto simp: target_mmap_def run_simps abs_aspace_def)

lemma mmap_refines:
  assumes "sint fd < 0" and "flags AND MAP_FIXED = 0"
    and "unat len + 4095 < 2 ^ 32"
    and "unat (target_cur_mmap_ptr s) + roundup (unat len) < 2 ^ 32"
  shows "case (run_state (target_mmap start len prot flags fd offset) s,
               spec_mmap (unat len) (abs_aspace s)) of
      ((r, t), (Some (b, e), a)) \<Rightarrow> unat r = b \<and> errno t = errno s \<and> abs_aspace t = a
    | ((r, t), (None, a)) \<Rightarrow> r = -1 \<and> errno t = ENOMEM \<and> abs_aspace t = a"
proof -
  have l: "unat (TARGET_PAGE_ALIGN len) = roundup (unat len)"
    using assms(3) by (rule TARGET_PAGE_ALIGN_roundup)
  have "unat (target_cur_mmap_ptr s + TARGET_PAGE_ALIGN len) =
      unat (target_cur_mmap_ptr s) + roundup (unat len)"
    using assms(4) l by (simp add: unat_word_ariths)
  then show ?thesis
    by (simp add: run_target_mmap [OF assms(1,2)] Let_def spec_mmap_def abs_aspace_def
        word_less_nat_alt add.commute [of "TARGET_PAGE_ALIGN len"])
qed

lemma mmap_wraps:
  assumes "sint fd < 0" and "flags AND MAP_FIXED = 0"
    and "unat len + 4095 < 2 ^ 32"
    and "2 ^ 32 \<le> unat (target_cur_mmap_ptr s) + roundup (unat len)"
    and "target_cur_mmap_ptr s \<le> target_mmap_limit s"
  shows "result_of (target_mmap start len prot flags fd offset) s = target_cur_mmap_ptr s"
    "target_cur_mmap_ptr (state_after (target_mmap start len prot flags fd offset) s)
      < target_cur_mmap_ptr s"
proof -
  let ?c = "target_cur_mmap_ptr s" and ?l = "TARGET_PAGE_ALIGN len"
  have l: "unat ?l = roundup (unat len)"
    using assms(3) by (rule TARGET_PAGE_ALIGN_roundup)
  have "unat ?c + unat ?l - 2 ^ 32 < unat ?c" "2 ^ 32 \<le> unat ?c + unat ?l"
    using assms(4) l unat_u32_less [of ?l] by simp_all
  then have "unat (?c + ?l) < unat ?c"
    using unat_u32_less [of ?l] unat_u32_less [of ?c]
    by (simp add: unat_word_ariths mod_if)
  then have lt: "?c + ?l < ?c" by (simp add: word_less_nat_alt)
  then have "?l + ?c < target_mmap_limit s"
    using assms(5) by (simp add: add.commute)
  then show "result_of (target_mmap start len prot flags fd offset) s = ?c"
    "target_cur_mmap_ptr (state_after (target_mmap start len prot flags fd offset) s) < ?c"
    using lt by (simp_all add: run_target_mmap [OF assms(1,2)] Let_def)
qed

section \<open>Regions never meet\<close>

text \<open>The regions a list of requests obtains, in order.\<close>

primrec alloc_regions ::
  "('r \<Rightarrow> 's \<Rightarrow> (nat \<times> nat) option \<times> 's) \<Rightarrow> 'r list \<Rightarrow> 's \<Rightarrow> (nat \<times> nat) list" where
  "alloc_regions alloc [] s = []"
| "alloc_regions alloc (r # rs) s = (case alloc r s of
     (None, t) \<Rightarrow> alloc_regions alloc rs t
   | (Some x, t) \<Rightarrow> x # alloc_regions alloc rs t)"

locale region_allocator =
  fixes alloc :: "'r \<Rightarrow> 's \<Rightarrow> (nat \<times> nat) option \<times> 's"
    and next_free top :: "'s \<Rightarrow> nat"
    and ok :: "'s \<Rightarrow> bool"
    and fits :: "'r \<Rightarrow> bool"
  assumes alloc_some: "ok s \<Longrightarrow> fits r \<Longrightarrow> alloc r s = (Some (a, e), t) \<Longrightarrow>
      next_free s \<le> a \<and> a \<le> e \<and> e \<le> next_free t \<and> e \<le> top s"
    and alloc_none: "ok s \<Longrightarrow> fits r \<Longrightarrow> alloc r s = (None, t) \<Longrightarrow> next_free s \<le> next_free t"
    and alloc_ok: "ok s \<Longrightarrow> fits r \<Longrightarrow> ok (snd (alloc r s)) \<and> top (snd (alloc r s)) = top s"
begin

lemma regions:
  assumes "ok s" and "\<forall>r \<in> set rs. fits r"
  shows "sorted_wrt (\<lambda>x y. snd x \<le> fst y) (alloc_regions alloc rs s) \<and>
    (\<forall>x \<in> set (alloc_regions alloc rs s). next_free s \<le> fst x \<and> fst x \<le> snd x \<and> snd x \<le> top s)"
  using assms
proof (induction rs arbitrary: s)
  case Nil
  show ?case by simp
next
  case (Cons r rs)
  obtain x t where a: "alloc r s = (x, t)" by (cases "alloc r s")
  have t: "ok t" "top t = top s"
    using alloc_ok [of s r] Cons.prems a by simp_all
  have IH: "sorted_wrt (\<lambda>x y. snd x \<le> fst y) (alloc_regions alloc rs t) \<and>
    (\<forall>x \<in> set (alloc_regions alloc rs t). next_free t \<le> fst x \<and> fst x \<le> snd x \<and> snd x \<le> top s)"
    using Cons.IH [OF t(1)] Cons.prems(2) t(2) by simp
  show ?case
  proof (cases x)
    case None
    then show ?thesis
      using IH a alloc_none [of s r t] Cons.prems by (auto intro: order_trans)
  next
    case (Some y)
    have "next_free s \<le> fst y \<and> fst y \<le> snd y \<and> snd y \<le> next_free t \<and> snd y \<le> top s"
      using alloc_some [of s r "fst y" "snd y" t] a Some Cons.prems by simp
    then show ?thesis
      using IH a Some by (auto intro: order_trans)
  qed
qed

end

text \<open>The code's allocator: a request is the argument list of \<open>target_mmap\<close>; a request that
  succeeds obtains its length, rounded up to pages, from the address returned.\<close>

type_synonym mmap_request = "u32 \<times> u32 \<times> u32 \<times> u32 \<times> u32 \<times> u32"

definition mmap_alloc :: "mmap_request \<Rightarrow> 'w sl_state \<Rightarrow> (nat \<times> nat) option \<times> 'w sl_state" where
  "mmap_alloc q s = (case q of (start, len, prot, flags, fd, offset) \<Rightarrow>
     let (r, t) = run_state (target_mmap start len prot flags fd offset) s in
     (if r = -1 then None else Some (unat r, unat r + roundup (unat len)), t))"

text \<open>Where the sums cannot wrap: a limit below 2 GB, requests of at most 2 GB.\<close>

definition mmap_ok :: "'w sl_state \<Rightarrow> bool" where
  "mmap_ok s \<longleftrightarrow> target_cur_mmap_ptr s \<le> target_mmap_limit s \<and> target_mmap_limit s < 0x80000000"

definition mmap_fits :: "mmap_request \<Rightarrow> bool" where
  "mmap_fits q = (case q of (start, len, prot, flags, fd, offset) \<Rightarrow> len \<le> 0x80000000)"

lemma mmap_alloc_cases:
  assumes ok: "mmap_ok s" and fits: "mmap_fits q"
  shows "(\<exists>l. unat (target_cur_mmap_ptr s) + l < unat (target_mmap_limit s) \<and>
      mmap_alloc q s = (Some (unat (target_cur_mmap_ptr s), unat (target_cur_mmap_ptr s) + l),
        s\<lparr>target_cur_mmap_ptr := target_cur_mmap_ptr s + of_nat l\<rparr>))
    \<or> (\<exists>t. mmap_alloc q s = (None, t) \<and> target_cur_mmap_ptr t = target_cur_mmap_ptr s \<and>
        target_mmap_limit t = target_mmap_limit s)"
proof -
  obtain start len prot flags fd offset where q: "q = (start, len, prot, flags, fd, offset)"
    by (cases q)
  let ?c = "target_cur_mmap_ptr s" and ?l = "TARGET_PAGE_ALIGN len"
  show ?thesis
  proof (cases "0 \<le> sint fd \<or> flags AND MAP_FIXED \<noteq> 0")
    case True
    then show ?thesis
      by (auto simp: q mmap_alloc_def target_mmap_def run_simps)
  next
    case False
    have len: "unat len \<le> 2147483648" and c: "unat ?c < 2147483648"
      using ok fits by (auto simp: mmap_ok_def mmap_fits_def q word_le_nat_alt word_less_nat_alt)
    then have l: "unat ?l = roundup (unat len)"
      by (simp add: TARGET_PAGE_ALIGN_roundup)
    have "roundup (unat len) \<le> roundup 2147483648" using len by (rule roundup_mono)
    then have "unat ?c + unat ?l < 2 ^ 32" using l c by (simp add: roundup_def)
    then have s: "unat (?c + ?l) = unat ?c + unat ?l"
      by (simp add: unat_word_ariths)
    have "?c \<noteq> -1" using c by (auto simp: unsigned_minus_1_eq_mask mask_eq_exp_minus_1)
    then show ?thesis
      using False s
      by (auto simp: q mmap_alloc_def run_target_mmap Let_def word_less_nat_alt
          add.commute [of ?l] l [symmetric] intro!: exI [of _ "unat ?l"])
  qed
qed

interpretation mm: region_allocator mmap_alloc "\<lambda>s. unat (target_cur_mmap_ptr s)"
  "\<lambda>s. unat (target_mmap_limit s)" mmap_ok mmap_fits
proof
  fix s t :: "'w sl_state" and q a e
  assume ok: "mmap_ok s" and fits: "mmap_fits q"
  have w: "unat (target_cur_mmap_ptr s + of_nat l) = unat (target_cur_mmap_ptr s) + l"
    if "unat (target_cur_mmap_ptr s) + l < unat (target_mmap_limit s)" for l
    using that unat_u32_less [of "target_mmap_limit s"]
    by (simp add: unat_word_ariths unat_of_nat_less)
  note c = mmap_alloc_cases [OF ok fits]
  show "mmap_alloc q s = (Some (a, e), t) \<Longrightarrow>
    unat (target_cur_mmap_ptr s) \<le> a \<and> a \<le> e \<and> e \<le> unat (target_cur_mmap_ptr t) \<and>
    e \<le> unat (target_mmap_limit s)"
    using c w by auto
  show "mmap_alloc q s = (None, t) \<Longrightarrow>
    unat (target_cur_mmap_ptr s) \<le> unat (target_cur_mmap_ptr t)"
    using c by auto
  show "mmap_ok (snd (mmap_alloc q s)) \<and>
    unat (target_mmap_limit (snd (mmap_alloc q s))) = unat (target_mmap_limit s)"
    using c w ok by (auto simp: mmap_ok_def word_le_nat_alt)
qed

section \<open>Layout\<close>

lemma do_brk_layout:
  assumes "layout_ok (abs_aspace s)"
  shows "layout_ok (abs_aspace (state_after (do_brk n) s))"
  using assms by (auto simp: layout_ok_def abs_aspace_def run_do_brk Let_def word_less_nat_alt)

lemma framed_munmap [frame_intros]: "framed (target_munmap a l)"
  unfolding target_munmap_def by (intro frame_intros)

end
