(* ===== verification/Space_Props.thy ===== *)
theory Space_Props
  imports AddrSpace
begin

unbundle bit_operations_syntax

text \<open>
  The properties of the guest's address space: \<open>brk\<close> and \<open>mmap\<close> against their specification,
  memory handed out by \<open>brk\<close>, disjointness of mappings, and the two requests for which the
  32-bit sums of the code wrap.
\<close>

lemma demo_space [simp]:
  "target_brk demo_state = 0x20000" "target_brk_limit demo_state = 0x10000000"
  "target_cur_mmap_ptr demo_state = 0x10000000" "target_mmap_limit demo_state = 0x20000000"
  "errno demo_state = 0" "hmem demo_state = (\<lambda>a. 0)"
  by (simp_all add: demo_state_def)

text \<open>C1: \<open>do_brk\<close> refines its specification: for every request that page rounding does not
  carry past 2^32, the value returned and the break afterwards are those of \<open>spec_brk\<close>: the
  request rounded up to a page if that is not below the break nor above the limit, the old
  break otherwise.\<close>

theorem do_brk_refines_spec:
  assumes "unat n + 4095 < 2 ^ 32"
  shows "(let (r, t) = run_state (do_brk n) s in (unat r, abs_aspace t)) =
    spec_brk (unat n) (abs_aspace s)"
  by (rule brk_refines) (rule assms)

theorem do_brk_refines_spec_witness:
  "(let (r, t) = run_state (do_brk 0x21001) demo_state in (unat r, abs_aspace t)) =
     (0x22000, \<lparr>as_brk = 0x22000, as_brk_limit = 0x10000000, as_mmap_ptr = 0x10000000,
       as_mmap_limit = 0x20000000\<rparr>)"
  by (subst do_brk_refines_spec)
     (simp_all add: spec_brk_def abs_aspace_def roundup_def)

text \<open>C2: \<open>do_brk\<close> hands out zeroed memory and writes nowhere else in the guest's address
  space: after the call every guest byte between the old break and the new one is 0, and every
  other guest byte is what it was.\<close>

theorem do_brk_zeroes_new_heap:
  "hmem (state_after (do_brk n) s) (g2h_at (guest_base s) a) =
    (if target_brk s \<le> a \<and> a < target_brk (state_after (do_brk n) s) then 0
     else hmem s (g2h_at (guest_base s) a))"
  by (rule brk_memory)

text \<open>C37: The rounding of \<open>do_brk\<close> wraps: a request above 0xfffff000 that is not below the
  break is rounded to 0, passes the test against the limit, and the break of the program
  becomes 0.\<close>

theorem do_brk_top_page_resets_break:
  assumes "0xfffff000 < n" and "target_brk s \<le> n"
  shows "result_of (do_brk n) s = 0 \<and> target_brk (state_after (do_brk n) s) = 0"
  using brk_wraps [OF assms] by simp

theorem do_brk_top_page_resets_break_witness:
  "result_of (do_brk 0xfffff001) demo_state = 0 \<and>
   target_brk (state_after (do_brk 0xfffff001) demo_state) = 0"
  using do_brk_top_page_resets_break [of "0xfffff001" demo_state] by simp

text \<open>C3: \<open>target_mmap\<close> refines its specification for anonymous, non-fixed requests whose
  rounded length does not carry the pointer past 2^32: it returns the start of the region and
  moves the pointer to its end, or returns -1 with \<open>ENOMEM\<close> and moves nothing.\<close>

theorem target_mmap_refines_spec:
  assumes "sint fd < 0" and "flags AND MAP_FIXED = 0"
    and "unat len + 4095 < 2 ^ 32"
    and "unat (target_cur_mmap_ptr s) + roundup (unat len) < 2 ^ 32"
  shows "case (run_state (target_mmap start len prot flags fd offset) s,
               spec_mmap (unat len) (abs_aspace s)) of
      ((r, t), (Some (b, e), a)) \<Rightarrow> unat r = b \<and> errno t = errno s \<and> abs_aspace t = a
    | ((r, t), (None, a)) \<Rightarrow> r = -1 \<and> errno t = ENOMEM \<and> abs_aspace t = a"
  by (rule mmap_refines) (rule assms)+

theorem target_mmap_refines_spec_witness:
  "unat (result_of (target_mmap 0 0x1001 3 0x22 (-1) 0) demo_state) = 0x10000000 \<and>
   as_mmap_ptr (abs_aspace (state_after (target_mmap 0 0x1001 3 0x22 (-1) 0) demo_state)) = 0x10002000"
  using target_mmap_refines_spec [of "-1" "0x22" "0x1001" demo_state 0 3 0]
  by (simp add: spec_mmap_def abs_aspace_def roundup_def Let_def case_prod_unfold)

text \<open>C4: Mappings never overlap: over any sequence of requests of at most 2 GB each, from a
  pointer at most the limit and a limit below 2 GB, the regions obtained (the address returned,
  and from there the length asked for, rounded up to pages) lie between the pointer and the
  limit, each above all that were obtained before it.\<close>

theorem target_mmap_regions_disjoint:
  assumes "mmap_ok s" and "\<forall>q \<in> set qs. mmap_fits q"
  shows "sorted_wrt (\<lambda>x y. snd x \<le> fst y) (alloc_regions mmap_alloc qs s) \<and>
    (\<forall>x \<in> set (alloc_regions mmap_alloc qs s).
       unat (target_cur_mmap_ptr s) \<le> fst x \<and> fst x \<le> snd x \<and>
       snd x \<le> unat (target_mmap_limit s))"
  using assms by (rule mm.regions)

theorem target_mmap_regions_disjoint_witness:
  "sorted_wrt (\<lambda>x y. snd x \<le> fst y)
     (alloc_regions mmap_alloc [(0, 0x1001, 3, 0x22, -1, 0), (0, 0x3000, 3, 0x22, -1, 0)] demo_state)"
  by (rule target_mmap_regions_disjoint [THEN conjunct1]) (simp_all add: mmap_ok_def mmap_fits_def)

text \<open>C38: The sum in \<open>target_mmap\<close> wraps: an anonymous, non-fixed request whose length,
  rounded up to pages (which does not wrap itself), reaches 2^32 from the pointer succeeds
  although no such memory is there, and moves the pointer down, if the pointer was not above the
  limit.\<close>

theorem target_mmap_huge_request_moves_down:
  assumes "sint fd < 0" and "flags AND MAP_FIXED = 0"
    and "unat len + 4095 < 2 ^ 32"
    and "2 ^ 32 \<le> unat (target_cur_mmap_ptr s) + roundup (unat len)"
    and "target_cur_mmap_ptr s \<le> target_mmap_limit s"
  shows "result_of (target_mmap start len prot flags fd offset) s = target_cur_mmap_ptr s \<and>
    target_cur_mmap_ptr (state_after (target_mmap start len prot flags fd offset) s)
      < target_cur_mmap_ptr s"
  using mmap_wraps [OF assms] by blast

theorem target_mmap_huge_request_moves_down_witness:
  "target_cur_mmap_ptr (state_after (target_mmap 0 0xf0000000 3 0x22 (-1) 0) demo_state) < 0x10000000"
  using target_mmap_huge_request_moves_down [of "-1" "0x22" "0xf0000000" demo_state 0 3 0]
  by (simp add: roundup_def)

text \<open>File mappings and fixed mappings are refused: the result is -1 with \<open>EINVAL\<close> and
  the address space does not change.\<close>

theorem target_mmap_refuses:
  assumes "0 \<le> sint fd \<or> flags AND MAP_FIXED \<noteq> 0"
  shows "result_of (target_mmap start len prot flags fd offset) s = -1 \<and>
    errno (state_after (target_mmap start len prot flags fd offset) s) = EINVAL \<and>
    abs_aspace (state_after (target_mmap start len prot flags fd offset) s) = abs_aspace s"
  using mmap_refused [OF assms] by blast

theorem target_mmap_refuses_witness:
  "result_of (target_mmap 0 0x1000 3 2 3 0) demo_state = -1"
  using target_mmap_refuses [of 3 2 0 "0x1000" 3 0 demo_state] by simp

end
