(* ===== verification/Convert.thy ===== *)
theory Convert
  imports Errno
begin

unbundle bit_operations_syntax

text \<open>
  The conversions between the target's and the host's data in \<open>proj/sparc-linux/syscall.c\<close>:
  user and group ids (\<open>USE_UID16\<close>), times, resource limits and the \<open>rusage\<close> structure.  A
  target structure is a range of guest memory; its layout is the one of \<open>syscall_defs.h\<close>,
  the field offsets written next to the accesses.
\<close>

section \<open>Ids\<close>

text \<open>C's \<open>int\<close> as a 32-bit word: the comparison is signed.\<close>

definition high2lowuid :: "u32 \<Rightarrow> u32" where
  "high2lowuid uid = (if sint uid > 65535 then 65534 else uid)"

definition high2lowgid :: "u32 \<Rightarrow> u32" where
  "high2lowgid gid = (if sint gid > 65535 then 65534 else gid)"

definition low2highuid :: "u32 \<Rightarrow> u32" where
  "low2highuid uid = (if (ucast uid :: u16) = -1 then -1 else uid)"

definition low2highgid :: "u32 \<Rightarrow> u32" where
  "low2highgid gid = (if (ucast gid :: u16) = -1 then -1 else gid)"

lemma uint_minus_one_u16: "uint (-1 :: u16) = 65535"
  by (simp add: unsigned_minus_1_eq_mask mask_eq_exp_minus_1)

text \<open>The contract of the 16-bit id emulation, for users and for groups.\<close>

locale id16 =
  fixes high2low low2high :: "u32 \<Rightarrow> u32"
  assumes high2low_eq: "high2low i = (if sint i > 65535 then 65534 else i)"
    and low2high_eq: "low2high i = (if (ucast i :: u16) = -1 then -1 else i)"
begin

lemma high2low_bound: "sint (high2low i) \<le> 65535"
  by (simp add: high2low_eq)

lemma high2low_idem: "high2low (high2low i) = high2low i"
  by (simp add: high2low_eq)

lemma high2low_small: "uint i \<le> 65535 \<Longrightarrow> high2low i = i"
  by (simp add: high2low_eq sint_u32)

lemma roundtrip:
  assumes "uint i < 65535"
  shows "low2high (high2low i) = i"
proof -
  have "uint (ucast i :: u16) = uint i"
    using assms uint_ge_0 [of i] by (simp add: unsigned_ucast_eq take_bit_eq_mod)
  then have "(ucast i :: u16) \<noteq> -1"
    using assms uint_minus_one_u16 by force
  with assms show ?thesis by (simp add: high2low_small low2high_eq)
qed

lemma minus_one: "low2high (-1) = -1" "low2high 65535 = -1"
  by (simp_all add: low2high_eq)

end

interpretation uid16: id16 high2lowuid low2highuid
  by unfold_locales (simp_all add: high2lowuid_def low2highuid_def)

interpretation gid16: id16 high2lowgid low2highgid
  by unfold_locales (simp_all add: high2lowgid_def low2highgid_def)

section \<open>Times\<close>

text \<open>\<open>struct target_timezone\<close>: minuteswest 0, dsttime 4.\<close>

definition copy_from_user_timezone :: "u32 \<Rightarrow> ('w, host_timezone \<times> u32) sl" where
  "copy_from_user_timezone target_tz_addr = do {
     p \<leftarrow> lock_user target_tz_addr;
     if p = 0 then return (\<lparr>tz_minuteswest = 0, tz_dsttime = 0\<rparr>, efault)
     else do {
       mw \<leftarrow> get32 p;
       dst \<leftarrow> get32 (p + 4);
       unlock_user p target_tz_addr;
       return (\<lparr>tz_minuteswest = mw, tz_dsttime = dst\<rparr>, 0)
     }
   }"

text \<open>\<open>struct target_timeval\<close>: tv_sec 0, tv_usec 4; 8 bytes.\<close>

definition copy_to_user_timeval :: "u32 \<Rightarrow> host_timeval \<Rightarrow> ('w, u32) sl" where
  "copy_to_user_timeval target_tv_addr tv = do {
     p \<leftarrow> lock_user target_tv_addr;
     if p = 0 then return efault
     else do {
       put32 (tv_sec tv) p;
       put32 (tv_usec tv) (p + 4);
       unlock_user p target_tv_addr;
       return 0
     }
   }"

definition no_timeval :: host_timeval where
  "no_timeval = \<lparr>tv_sec = 0, tv_usec = 0\<rparr>"

definition copy_from_user_timeval :: "u32 \<Rightarrow> ('w, host_timeval \<times> u32) sl" where
  "copy_from_user_timeval target_tv_addr = do {
     p \<leftarrow> lock_user target_tv_addr;
     if p = 0 then return (no_timeval, efault)
     else do {
       sec \<leftarrow> get32 p;
       usec \<leftarrow> get32 (p + 4);
       unlock_user p target_tv_addr;
       return (\<lparr>tv_sec = scast sec, tv_usec = scast usec\<rparr>, 0)
     }
   }"

text \<open>
  \<open>struct target_timespec\<close>: tv_sec 0, tv_nsec 4.  \<open>tswapal\<close> is unsigned, so a time read
  here is zero-extended, unlike a \<open>timeval\<close>.
\<close>

definition no_timespec :: host_timespec where
  "no_timespec = \<lparr>ts_sec = 0, ts_nsec = 0\<rparr>"

definition target_to_host_timespec :: "u32 \<Rightarrow> ('w, host_timespec \<times> u32) sl" where
  "target_to_host_timespec target_addr = do {
     p \<leftarrow> lock_user target_addr;
     if p = 0 then return (no_timespec, efault)
     else do {
       sec \<leftarrow> load_tswapal p;
       nsec \<leftarrow> load_tswapal (p + 4);
       unlock_user p target_addr;
       return (\<lparr>ts_sec = ucast sec, ts_nsec = ucast nsec\<rparr>, 0)
     }
   }"

definition host_to_target_timespec :: "u32 \<Rightarrow> host_timespec \<Rightarrow> ('w, u32) sl" where
  "host_to_target_timespec target_addr host_ts = do {
     p \<leftarrow> lock_user target_addr;
     if p = 0 then return efault
     else do {
       store_tswapal (ts_sec host_ts) p;
       store_tswapal (ts_nsec host_ts) (p + 4);
       unlock_user p target_addr;
       return 0
     }
   }"

text \<open>\<open>struct target_itimerspec\<close>: it_interval 0 and 4, it_value 8 and 12.\<close>

definition target_to_host_itimerspec :: "u32 \<Rightarrow> ('w, host_itimerspec \<times> u32) sl" where
  "target_to_host_itimerspec target_addr = do {
     p \<leftarrow> lock_user target_addr;
     if p = 0 then return (\<lparr>its_interval = no_timespec, its_value = no_timespec\<rparr>, efault)
     else do {
       isec \<leftarrow> load_tswapal p;
       insec \<leftarrow> load_tswapal (p + 4);
       vsec \<leftarrow> load_tswapal (p + 8);
       vnsec \<leftarrow> load_tswapal (p + 12);
       unlock_user p target_addr;
       return (\<lparr>its_interval = \<lparr>ts_sec = ucast isec, ts_nsec = ucast insec\<rparr>,
                its_value = \<lparr>ts_sec = ucast vsec, ts_nsec = ucast vnsec\<rparr>\<rparr>, 0)
     }
   }"

definition host_to_target_itimerspec :: "u32 \<Rightarrow> host_itimerspec \<Rightarrow> ('w, u32) sl" where
  "host_to_target_itimerspec target_addr host_its = do {
     p \<leftarrow> lock_user target_addr;
     if p = 0 then return efault
     else do {
       store_tswapal (ts_sec (its_interval host_its)) p;
       store_tswapal (ts_nsec (its_interval host_its)) (p + 4);
       store_tswapal (ts_sec (its_value host_its)) (p + 8);
       store_tswapal (ts_nsec (its_value host_its)) (p + 12);
       unlock_user p target_addr;
       return 0
     }
   }"

text \<open>The \<open>long\<close> of ticks is truncated to \<open>abi_long\<close>.\<close>

definition host_to_target_clock_t :: "u64 \<Rightarrow> u32" where
  "host_to_target_clock_t ticks = ucast ticks"

section \<open>Resource limits\<close>

text \<open>The numbers of \<open>syscall_defs.h\<close> for SPARC, and those of the host's \<open>sys/resource.h\<close>.\<close>

abbreviation (input) TARGET_RLIM_INFINITY :: u32 where "TARGET_RLIM_INFINITY \<equiv> 0x7fffffff"
abbreviation (input) TARGET_RLIMIT_CPU :: int where "TARGET_RLIMIT_CPU \<equiv> 0"
abbreviation (input) TARGET_RLIMIT_FSIZE :: int where "TARGET_RLIMIT_FSIZE \<equiv> 1"
abbreviation (input) TARGET_RLIMIT_DATA :: int where "TARGET_RLIMIT_DATA \<equiv> 2"
abbreviation (input) TARGET_RLIMIT_STACK :: int where "TARGET_RLIMIT_STACK \<equiv> 3"
abbreviation (input) TARGET_RLIMIT_CORE :: int where "TARGET_RLIMIT_CORE \<equiv> 4"
abbreviation (input) TARGET_RLIMIT_RSS :: int where "TARGET_RLIMIT_RSS \<equiv> 5"
abbreviation (input) TARGET_RLIMIT_NOFILE :: int where "TARGET_RLIMIT_NOFILE \<equiv> 6"
abbreviation (input) TARGET_RLIMIT_NPROC :: int where "TARGET_RLIMIT_NPROC \<equiv> 7"
abbreviation (input) TARGET_RLIMIT_MEMLOCK :: int where "TARGET_RLIMIT_MEMLOCK \<equiv> 8"
abbreviation (input) TARGET_RLIMIT_AS :: int where "TARGET_RLIMIT_AS \<equiv> 9"
abbreviation (input) TARGET_RLIMIT_LOCKS :: int where "TARGET_RLIMIT_LOCKS \<equiv> 10"
abbreviation (input) TARGET_RLIMIT_SIGPENDING :: int where "TARGET_RLIMIT_SIGPENDING \<equiv> 11"
abbreviation (input) TARGET_RLIMIT_MSGQUEUE :: int where "TARGET_RLIMIT_MSGQUEUE \<equiv> 12"
abbreviation (input) TARGET_RLIMIT_NICE :: int where "TARGET_RLIMIT_NICE \<equiv> 13"
abbreviation (input) TARGET_RLIMIT_RTPRIO :: int where "TARGET_RLIMIT_RTPRIO \<equiv> 14"

abbreviation (input) RLIM_INFINITY :: u64 where "RLIM_INFINITY \<equiv> -1"
abbreviation (input) RLIMIT_CPU :: int where "RLIMIT_CPU \<equiv> 0"
abbreviation (input) RLIMIT_FSIZE :: int where "RLIMIT_FSIZE \<equiv> 1"
abbreviation (input) RLIMIT_DATA :: int where "RLIMIT_DATA \<equiv> 2"
abbreviation (input) RLIMIT_STACK :: int where "RLIMIT_STACK \<equiv> 3"
abbreviation (input) RLIMIT_CORE :: int where "RLIMIT_CORE \<equiv> 4"
abbreviation (input) RLIMIT_RSS :: int where "RLIMIT_RSS \<equiv> 5"
abbreviation (input) RLIMIT_NPROC :: int where "RLIMIT_NPROC \<equiv> 6"
abbreviation (input) RLIMIT_NOFILE :: int where "RLIMIT_NOFILE \<equiv> 7"
abbreviation (input) RLIMIT_MEMLOCK :: int where "RLIMIT_MEMLOCK \<equiv> 8"
abbreviation (input) RLIMIT_AS :: int where "RLIMIT_AS \<equiv> 9"
abbreviation (input) RLIMIT_LOCKS :: int where "RLIMIT_LOCKS \<equiv> 10"
abbreviation (input) RLIMIT_SIGPENDING :: int where "RLIMIT_SIGPENDING \<equiv> 11"
abbreviation (input) RLIMIT_MSGQUEUE :: int where "RLIMIT_MSGQUEUE \<equiv> 12"
abbreviation (input) RLIMIT_NICE :: int where "RLIMIT_NICE \<equiv> 13"
abbreviation (input) RLIMIT_RTPRIO :: int where "RLIMIT_RTPRIO \<equiv> 14"

definition target_to_host_resource :: "int \<Rightarrow> int" where
  "target_to_host_resource code =
    (if code = TARGET_RLIMIT_AS then RLIMIT_AS
     else if code = TARGET_RLIMIT_CORE then RLIMIT_CORE
     else if code = TARGET_RLIMIT_CPU then RLIMIT_CPU
     else if code = TARGET_RLIMIT_DATA then RLIMIT_DATA
     else if code = TARGET_RLIMIT_FSIZE then RLIMIT_FSIZE
     else if code = TARGET_RLIMIT_LOCKS then RLIMIT_LOCKS
     else if code = TARGET_RLIMIT_MEMLOCK then RLIMIT_MEMLOCK
     else if code = TARGET_RLIMIT_MSGQUEUE then RLIMIT_MSGQUEUE
     else if code = TARGET_RLIMIT_NICE then RLIMIT_NICE
     else if code = TARGET_RLIMIT_NOFILE then RLIMIT_NOFILE
     else if code = TARGET_RLIMIT_NPROC then RLIMIT_NPROC
     else if code = TARGET_RLIMIT_RSS then RLIMIT_RSS
     else if code = TARGET_RLIMIT_RTPRIO then RLIMIT_RTPRIO
     else if code = TARGET_RLIMIT_SIGPENDING then RLIMIT_SIGPENDING
     else if code = TARGET_RLIMIT_STACK then RLIMIT_STACK
     else code)"

definition target_to_host_rlim :: "u32 \<Rightarrow> u64" where
  "target_to_host_rlim target_rlim = (
     let target_rlim_swap = tswapal target_rlim in
     if target_rlim_swap = TARGET_RLIM_INFINITY then RLIM_INFINITY
     else let result = ucast target_rlim_swap in
     if (ucast target_rlim_swap :: u64) \<noteq> result then RLIM_INFINITY
     else result)"

definition host_to_target_rlim :: "u64 \<Rightarrow> u32" where
  "host_to_target_rlim rlim = (
     let target_rlim_swap =
       (if rlim = RLIM_INFINITY \<or> rlim \<noteq> scast (ucast rlim :: u32) then TARGET_RLIM_INFINITY
        else ucast rlim) in
     tswapal target_rlim_swap)"

section \<open>Resource usage\<close>

text \<open>\<open>struct target_rusage\<close>: eighteen \<open>abi_long\<close>s in order.\<close>

definition host_to_target_rusage :: "u32 \<Rightarrow> host_rusage \<Rightarrow> ('w, u32) sl" where
  "host_to_target_rusage target_addr r = do {
     p \<leftarrow> lock_user target_addr;
     if p = 0 then return efault
     else do {
       store_tswapal (tv_sec (ru_utime r)) p;
       store_tswapal (tv_usec (ru_utime r)) (p + 4);
       store_tswapal (tv_sec (ru_stime r)) (p + 8);
       store_tswapal (tv_usec (ru_stime r)) (p + 12);
       store_tswapal (ru_maxrss r) (p + 16);
       store_tswapal (ru_ixrss r) (p + 20);
       store_tswapal (ru_idrss r) (p + 24);
       store_tswapal (ru_isrss r) (p + 28);
       store_tswapal (ru_minflt r) (p + 32);
       store_tswapal (ru_majflt r) (p + 36);
       store_tswapal (ru_nswap r) (p + 40);
       store_tswapal (ru_inblock r) (p + 44);
       store_tswapal (ru_oublock r) (p + 48);
       store_tswapal (ru_msgsnd r) (p + 52);
       store_tswapal (ru_msgrcv r) (p + 56);
       store_tswapal (ru_nsignals r) (p + 60);
       store_tswapal (ru_nvcsw r) (p + 64);
       store_tswapal (ru_nivcsw r) (p + 68);
       unlock_user p target_addr;
       return 0
     }
   }"

section \<open>Frames\<close>

lemma framed_times [frame_intros]:
  "framed (copy_from_user_timezone a)" "framed (copy_to_user_timeval a tv)"
  "framed (copy_from_user_timeval a)" "framed (target_to_host_timespec a)"
  "framed (host_to_target_timespec a ts)" "framed (target_to_host_itimerspec a)"
  "framed (host_to_target_itimerspec a its)"
  unfolding copy_from_user_timezone_def copy_to_user_timeval_def copy_from_user_timeval_def
    target_to_host_timespec_def host_to_target_timespec_def target_to_host_itimerspec_def
    host_to_target_itimerspec_def
  by (intro frame_intros)+

lemma framed_rusage [frame_intros]: "framed (host_to_target_rusage a r)"
  unfolding host_to_target_rusage_def by (intro frame_intros)+

end
