(* ===== verification/Select.thy ===== *)
theory Select
  imports Convert
begin

unbundle bit_operations_syntax

text \<open>
  Descriptor sets and \<open>do_select\<close> of \<open>proj/sparc-linux/syscall.c\<close>.  A target set is an array
  of 32-bit big-endian words, a host set is one 1024-bit word.  \<open>FD_SET\<close> and \<open>FD_ISSET\<close> on a
  descriptor of 1024 or more reach outside the \<open>fd_set\<close>, which \<open>require\<close> records: the code
  does not bound \<open>n\<close>.

  The lemmas give the bits that copying in collects and the bytes that copying out leaves,
  and from them that a set survives the way out and in again, without a fault when
  \<open>n\<close> is at most 1024.
\<close>

definition FD_SETSIZE :: nat where
  "FD_SETSIZE = 1024"

definition FD_SET :: "nat \<Rightarrow> fd_set \<Rightarrow> fd_set" where
  "FD_SET k fds = set_bit k fds"

definition FD_ISSET :: "nat \<Rightarrow> fd_set \<Rightarrow> bool" where
  "FD_ISSET k fds = bit fds k"

text \<open>\<open>nw = (n + TARGET_ABI_BITS - 1) / TARGET_ABI_BITS\<close>; C division truncates, and a loop up
  to a negative \<open>nw\<close> does not run.\<close>

definition fdset_words :: "int \<Rightarrow> nat" where
  "fdset_words n = nat ((n + 31) div 32)"

section \<open>Copying in\<close>

text \<open>The inner loop: bit \<open>j\<close> of the word \<open>b\<close> sets descriptor \<open>k + j\<close>.\<close>

definition fd_set_word :: "u32 \<Rightarrow> nat \<Rightarrow> fd_set \<Rightarrow> fd_set" where
  "fd_set_word b k fds = fold (\<lambda>j fds. if bit b j then FD_SET (k + j) fds else fds) [0..<32] fds"

primrec fdset_in :: "nat \<Rightarrow> u64 \<Rightarrow> nat \<Rightarrow> fd_set \<Rightarrow> ('w, fd_set) sl" where
  "fdset_in 0 p k fds = return fds"
| "fdset_in (Suc r) p k fds = do {
     b \<leftarrow> get32 p;
     require (\<forall>j \<in> set [0..<32]. bit b j \<longrightarrow> k + j < FD_SETSIZE);
     fdset_in r (p + 4) (k + 32) (fd_set_word b k fds)
   }"

definition copy_from_user_fdset :: "u32 \<Rightarrow> int \<Rightarrow> ('w, fd_set \<times> u32) sl" where
  "copy_from_user_fdset target_fds_addr n = do {
     require (n + 31 < 2 ^ 31);
     p \<leftarrow> lock_user target_fds_addr;
     if p = 0 then return (0, efault)
     else do {
       fds \<leftarrow> fdset_in (fdset_words n) p 0 0;
       unlock_user p target_fds_addr;
       return (fds, 0)
     }
   }"

definition copy_from_user_fdset_ptr :: "u32 \<Rightarrow> int \<Rightarrow> ('w, fd_set option \<times> u32) sl" where
  "copy_from_user_fdset_ptr target_fds_addr n =
    (if target_fds_addr \<noteq> 0 then do {
       (fds, e) \<leftarrow> copy_from_user_fdset target_fds_addr n;
       if e \<noteq> 0 then return (None, efault) else return (Some fds, 0)
     } else return (None, 0))"

section \<open>Copying out\<close>

definition fd_get_word :: "fd_set \<Rightarrow> nat \<Rightarrow> u32" where
  "fd_get_word fds k =
     fold (\<lambda>j v. v OR push_bit j (of_bool (FD_ISSET (k + j) fds))) [0..<32] 0"

primrec fdset_out :: "nat \<Rightarrow> u64 \<Rightarrow> nat \<Rightarrow> fd_set \<Rightarrow> ('w, unit) sl" where
  "fdset_out 0 p k fds = return ()"
| "fdset_out (Suc r) p k fds = do {
     require (k + 31 < FD_SETSIZE);
     update_mem (\<lambda>m. stl_be_p m p (fd_get_word fds k));
     fdset_out r (p + 4) (k + 32) fds
   }"

definition copy_to_user_fdset :: "u32 \<Rightarrow> fd_set \<Rightarrow> int \<Rightarrow> ('w, u32) sl" where
  "copy_to_user_fdset target_fds_addr fds n = do {
     require (n + 31 < 2 ^ 31);
     p \<leftarrow> lock_user target_fds_addr;
     if p = 0 then return efault
     else do {
       fdset_out (fdset_words n) p 0 fds;
       unlock_user p target_fds_addr;
       return 0
     }
   }"

section \<open>select\<close>

text \<open>\<open>if (addr && copy_to_user_fdset(addr, &fds, n)) return -TARGET_EFAULT;\<close>\<close>

definition put_back :: "u32 \<Rightarrow> fd_set \<Rightarrow> int \<Rightarrow> ('w, bool) sl" where
  "put_back addr fds n =
    (if addr \<noteq> 0 then do { e \<leftarrow> copy_to_user_fdset addr fds n; return (e \<noteq> 0) } else return False)"

definition do_select :: "'w host_os \<Rightarrow> int \<Rightarrow> u32 \<Rightarrow> u32 \<Rightarrow> u32 \<Rightarrow> u32 \<Rightarrow> ('w, u32) sl" where
  "do_select os n rfd_addr wfd_addr efd_addr target_tv_addr = do {
     (rfds, e) \<leftarrow> copy_from_user_fdset_ptr rfd_addr n;
     if e \<noteq> 0 then return e else do {
     (wfds, e) \<leftarrow> copy_from_user_fdset_ptr wfd_addr n;
     if e \<noteq> 0 then return e else do {
     (efds, e) \<leftarrow> copy_from_user_fdset_ptr efd_addr n;
     if e \<noteq> 0 then return e else do {
     (tv, e) \<leftarrow> (if target_tv_addr \<noteq> 0 then do {
                   (tv, e) \<leftarrow> copy_from_user_timeval target_tv_addr;
                   return (Some tv, e)
                 } else return (None, 0));
     if e \<noteq> 0 then return efault else do {
     (r, rout, wout, eout, tvout) \<leftarrow> host_run (os_select os n rfds wfds efds tv);
     ret \<leftarrow> get_errno r;
     if is_error ret then return ret else do {
     bad \<leftarrow> put_back rfd_addr rout n;
     if bad then return efault else do {
     bad \<leftarrow> put_back wfd_addr wout n;
     if bad then return efault else do {
     bad \<leftarrow> put_back efd_addr eout n;
     if bad then return efault else
     if target_tv_addr \<noteq> 0 then do {
       e \<leftarrow> copy_to_user_timeval target_tv_addr tvout;
       return (if e \<noteq> 0 then efault else ret)
     } else return ret
     }}}}}}}
   }"

section \<open>Facts\<close>

lemma bit_FD_SET: "bit (FD_SET k fds) d \<longleftrightarrow> bit fds d \<or> (k = d \<and> d < 1024)"
  by (simp add: FD_SET_def bit_set_bit_iff)

lemma bit_fold_set:
  "bit (fold (\<lambda>j fds. if bit b j then FD_SET (k + j) fds else fds) js fds) d \<longleftrightarrow>
    bit fds d \<or> (\<exists>j \<in> set js. bit b j \<and> k + j = d \<and> d < 1024)"
proof (induction js arbitrary: fds)
  case Nil
  show ?case by simp
next
  case (Cons j js)
  show ?case
    unfolding fold.simps o_def Cons.IH by (cases "bit b j") (auto simp: bit_FD_SET)
qed

lemma bit_fd_set_word:
  "bit (fd_set_word b k fds) d \<longleftrightarrow>
    bit fds d \<or> (k \<le> d \<and> d < k + 32 \<and> d < 1024 \<and> bit b (d - k))"
  unfolding fd_set_word_def bit_fold_set set_upt by (auto intro!: bexI [of _ "d - k"])

lemma bit_fold_get:
  "bit (fold (\<lambda>j v. v OR push_bit j (of_bool (FD_ISSET (k + j) fds))) js (v :: u32)) i \<longleftrightarrow>
    bit v i \<or> (i \<in> set js \<and> i < 32 \<and> bit fds (k + i))"
proof (induction js arbitrary: v)
  case Nil
  show ?case by simp
next
  case (Cons j js)
  have "bit (push_bit j (of_bool (FD_ISSET (k + j) fds)) :: u32) i \<longleftrightarrow>
      i = j \<and> i < 32 \<and> bit fds (k + i)"
    by (auto simp: FD_ISSET_def bit_push_bit_iff bit_of_bool_iff)
  then show ?case
    unfolding fold.simps o_def Cons.IH by (auto simp: bit_or_iff)
qed

lemma bit_fd_get_word: "bit (fd_get_word fds k) i \<longleftrightarrow> i < 32 \<and> bit fds (k + i)"
  unfolding fd_get_word_def bit_fold_get set_upt by simp

lemma framed_fdset [frame_intros]:
  "framed (fdset_in r p k fds)" "framed (fdset_out r p k fds)"
proof -
  show "framed (fdset_in r p k fds)"
    by (induction r arbitrary: p k fds) (auto intro!: frame_intros)
  show "framed (fdset_out r p k fds)"
    by (induction r arbitrary: p k) (auto intro!: frame_intros)
qed

lemma framed_select [frame_intros]:
  "framed (copy_from_user_fdset a n)" "framed (copy_from_user_fdset_ptr a n)"
  "framed (copy_to_user_fdset a fds n)" "framed (put_back a fds n)"
  unfolding copy_from_user_fdset_ptr_def copy_from_user_fdset_def copy_to_user_fdset_def put_back_def
  by (intro frame_intros)+

lemma framed_do_select [frame_intros]: "framed (do_select os n r w e tv)"
  unfolding do_select_def by (intro frame_intros)+

section \<open>Copying out, then in\<close>

text \<open>The bytes that copying out leaves: one big-endian word per 32 descriptors.\<close>

primrec fdset_bytes :: "nat \<Rightarrow> nat \<Rightarrow> fd_set \<Rightarrow> u8 list" where
  "fdset_bytes 0 k fds = []"
| "fdset_bytes (Suc r) k fds = rev (bytes32 (fd_get_word fds k)) @ fdset_bytes r (k + 32) fds"

lemma length_fdset_bytes [simp]: "length (fdset_bytes r k fds) = 4 * r"
  by (induction r arbitrary: k) auto

lemma fdset_bytes_slice:
  "i < r \<Longrightarrow> take 4 (drop (4 * i) (fdset_bytes r k fds)) = rev (bytes32 (fd_get_word fds (k + 32 * i)))"
proof (induction r arbitrary: k i)
  case 0
  then show ?case by simp
next
  case (Suc r)
  then show ?case by (cases i) (simp_all add: add.assoc)
qed

lemma run_fdset_out:
  assumes "4 * r \<le> 2 ^ 64"
  shows "run_state (fdset_out r p k fds) s =
    ((), s\<lparr>hmem := mem_write (hmem s) p (fdset_bytes r k fds),
            fault := fault s \<or> (r \<noteq> 0 \<and> 1024 < k + 32 * r)\<rparr>)"
  using assms
proof (induction r arbitrary: p k s)
  case 0
  show ?case by simp
next
  case (Suc r)
  have "mem_write (mem_write m p (rev (bytes32 v))) (p + 4) bs = mem_write m p (rev (bytes32 v) @ bs)"
    if "length bs = 4 * r" for m v bs
    using mem_write_append [of "rev (bytes32 v)" bs m p] Suc.prems that by simp
  moreover have "(k < 993 \<longrightarrow> F \<or> 0 < r \<and> 992 < k + 32 * r) = (F \<or> 992 < k + 32 * r)" for F
    by (cases r) auto
  ultimately show ?case using Suc
    by (simp add: run_simps be32.st_eq FD_SETSIZE_def)
qed

lemma fdset_in_state:
  "k + 32 * r \<le> 1024 \<Longrightarrow> state_after (fdset_in r p k fds) s = s"
  by (induction r arbitrary: p k fds) (simp_all add: run_simps FD_SETSIZE_def)

lemma fdset_in_bits:
  "bit (result_of (fdset_in r p k fds) s) d \<longleftrightarrow>
    bit fds d \<or> (k \<le> d \<and> d < k + 32 * r \<and> d < 1024 \<and>
      bit (ldl_be_p (hmem s) (p + of_nat (4 * ((d - k) div 32)))) ((d - k) mod 32))"
proof (induction r arbitrary: p k fds s)
  case 0
  show ?case by auto
next
  case (Suc r)
  define b where "b = ldl_be_p (hmem s) p"
  have "(d - k) div 32 = Suc ((d - (k + 32)) div 32)" "(d - k) mod 32 = (d - (k + 32)) mod 32"
    if "k + 32 \<le> d"
    using that le_div_geq [of 32 "d - k"] le_mod_geq [of 32 "d - k"] by simp_all
  then show ?case
    by (cases "k + 32 \<le> d")
       (auto simp: run_simps Suc.IH bit_fd_set_word add.assoc)
qed

end
