(* ===== verification/Handler.thy ===== *)
theory Handler
  imports Convert
begin

text \<open>
  What the cases of \<open>do_syscall\<close> share: the argument registers, the two ways a case refuses
  a call, and the three shapes most cases have (a plain host call, a call with one path,
  a call with two).
\<close>

record sargs =
  arg1 :: u32
  arg2 :: u32
  arg3 :: u32
  arg4 :: u32
  arg5 :: u32
  arg6 :: u32
  arg7 :: u32
  arg8 :: u32

type_synonym 'w handler = "'w host_os \<Rightarrow> sargs \<Rightarrow> ('w, u32) sl"

text \<open>The label \<open>unimplemented:\<close> logs the number and falls into \<open>unimplemented_nowarn:\<close>.\<close>

definition unimplemented_nowarn :: "('w, u32) sl" where
  "unimplemented_nowarn = return (to_abi (- TARGET_ENOSYS))"

definition unimplemented :: "int \<Rightarrow> ('w, u32) sl" where
  "unimplemented num = do { log_msg (UnsupportedSyscall num); unimplemented_nowarn }"

text \<open>\<open>ret = get_errno(f(...))\<close>\<close>

definition plain_call :: "('w, unit) hostfun \<Rightarrow> ('w, u32) sl" where
  "plain_call f = do { r \<leftarrow> host_int f; get_errno r }"

text \<open>
  \<open>if (!(p = lock_user_string(x))) goto efault; ret = get_errno(f(p, ...)); unlock_user(p, x, 0)\<close>
\<close>

definition path_call :: "u32 \<Rightarrow> (u64 \<Rightarrow> ('w, unit) hostfun) \<Rightarrow> ('w, u32) sl" where
  "path_call x f = do {
     p \<leftarrow> lock_user_string x;
     if p = 0 then return efault
     else do {
       ret \<leftarrow> plain_call (f p);
       unlock_user p x;
       return ret
     }
   }"

text \<open>Two paths: both are translated first, and one bad address gives \<open>-TARGET_EFAULT\<close>.\<close>

definition path_call2 :: "u32 \<Rightarrow> u32 \<Rightarrow> (u64 \<Rightarrow> u64 \<Rightarrow> ('w, unit) hostfun) \<Rightarrow> ('w, u32) sl" where
  "path_call2 x y f = do {
     p \<leftarrow> lock_user_string x;
     p2 \<leftarrow> lock_user_string y;
     ret \<leftarrow> (if p = 0 \<or> p2 = 0 then return efault else plain_call (f p p2));
     unlock_user p2 y;
     unlock_user p x;
     return ret
   }"

lemma framed_calls [frame_intros]:
  "framed (plain_call f)" "framed (path_call x g)" "framed (path_call2 x y h)"
  "framed unimplemented_nowarn" "framed (unimplemented n)"
  unfolding plain_call_def path_call_def path_call2_def unimplemented_nowarn_def unimplemented_def
  by (intro frame_intros)+

text \<open>What a host call comes to: the host's step, and its result or its error for the guest.\<close>

lemma run_plain_call [run_simps]:
  "run_state (plain_call f) s =
    (let r = f (hmem s) (world s); t = after_host r s in
     if to_abi (hr_ret r) = -1
     then (to_abi (- errno t), t\<lparr>fault := fault s \<or> \<not> (0 \<le> errno t \<and> errno t < ERRNO_TABLE_SIZE)\<rparr>)
     else (to_abi (hr_ret r), t))"
  by (simp add: plain_call_def run_simps Let_def after_host_def)

lemma run_path_call [run_simps]:
  "run_state (path_call x f) s =
    (let p = g2h_at (guest_base s) x in if p = 0 then (efault, s) else run_state (plain_call (f p)) s)"
  by (simp add: path_call_def run_simps Let_def case_prod_unfold)

lemma run_path_call2 [run_simps]:
  "run_state (path_call2 x y f) s =
    (let p = g2h_at (guest_base s) x; q = g2h_at (guest_base s) y in
     if p = 0 \<or> q = 0 then (efault, s) else run_state (plain_call (f p q)) s)"
  by (simp add: path_call2_def run_simps Let_def case_prod_unfold)

lemma run_unimplemented [run_simps]:
  "run_state (unimplemented n) s =
    (to_abi (- TARGET_ENOSYS), s\<lparr>stderr := stderr s @ [UnsupportedSyscall n]\<rparr>)"
  by (simp add: unimplemented_def unimplemented_nowarn_def run_simps)

end
