(* ===== verification/Layout.thy ===== *)
theory Layout
  imports Bswap
begin

text \<open>
  Structures in memory: a structure that is written field by field is a list of offsets with
  the bytes stored there.  Where the fields do not overlap, each is found again at its offset
  after all the stores, and nothing outside the structure changes.
\<close>

type_synonym fields = "(nat \<times> u8 list) list"

definition write_fields :: "hostmem \<Rightarrow> u64 \<Rightarrow> fields \<Rightarrow> hostmem" where
  "write_fields m p fs = fold (\<lambda>(i, bs) m. mem_write m (p + of_nat i) bs) fs m"

definition apart :: "nat \<times> u8 list \<Rightarrow> nat \<times> u8 list \<Rightarrow> bool" where
  "apart f g \<longleftrightarrow> fst f + length (snd f) \<le> fst g \<or> fst g + length (snd g) \<le> fst f"

definition fields_ok :: "nat \<Rightarrow> fields \<Rightarrow> bool" where
  "fields_ok n fs \<longleftrightarrow> n \<le> 4294967296 \<and> sorted_wrt apart fs \<and> list_all (\<lambda>(i, bs). i + length bs \<le> n) fs"

text \<open>Big-endian fields of the three widths; a wider value is truncated.\<close>

definition enc16 :: "u64 \<Rightarrow> u8 list" where
  "enc16 v = rev (bytes16 (ucast v))"

definition enc32 :: "u64 \<Rightarrow> u8 list" where
  "enc32 v = rev (bytes32 (ucast v))"

definition enc64 :: "u64 \<Rightarrow> u8 list" where
  "enc64 v = rev (bytes64 v)"

lemma length_enc [simp]: "length (enc16 v) = 2" "length (enc32 v) = 4" "length (enc64 v) = 8"
  by (simp_all add: enc16_def enc32_def enc64_def)

lemma write_fields_Nil [simp]: "write_fields m p [] = m"
  by (simp add: write_fields_def)

lemma write_fields_Cons:
  "write_fields m p ((i, bs) # fs) = write_fields (mem_write m (p + of_nat i) bs) p fs"
  by (simp add: write_fields_def)

lemma in_range_field:
  assumes "i + n \<le> 4294967296" and "j < 4294967296"
  shows "in_range (p + of_nat j) (p + of_nat i) n \<longleftrightarrow> i \<le> j \<and> j < i + n"
proof -
  have u: "unat (of_nat k :: u64) = k" if "k \<le> 4294967296" for k
    using that by (simp add: unat_of_nat_less)
  have e: "(p + of_nat j) - (p + of_nat i) = of_nat j - of_nat i" by simp
  show ?thesis
    unfolding in_range_def e using assms by (auto simp: unat_sub_u64 u)
qed

lemma in_range_part:
  assumes "in_range a (p + of_nat i) k" and "i + k \<le> n" and "n \<le> 4294967296"
  shows "in_range a p n"
proof -
  have "unat (of_nat i :: u64) = i"
    using assms by (simp add: unat_of_nat_less)
  moreover have "a - p = (a - (p + of_nat i)) + of_nat i" by simp
  moreover have "unat (a - (p + of_nat i)) < k"
    using assms(1) by (simp add: in_range_def)
  ultimately have "unat (a - p) = unat (a - (p + of_nat i)) + i"
    using assms unat_add_lem [of "a - (p + of_nat i)" "of_nat i"] by simp
  then show ?thesis
    using assms by (simp add: in_range_def)
qed

lemma mem_write_at:
  assumes "i + length bs \<le> 4294967296" and "j < 4294967296"
  shows "mem_write m (p + of_nat i) bs (p + of_nat j) =
    (if i \<le> j \<and> j < i + length bs then bs ! (j - i) else m (p + of_nat j))"
proof (cases "i \<le> j \<and> j < i + length bs")
  case True
  then have "j - i < 18446744073709551616" using assms by linarith
  with True have "unat ((p + of_nat j) - (p + of_nat i)) = j - i"
    using unat_of_nat_less [of "j - i", where 'a = 64] by (simp flip: of_nat_diff)
  moreover have "j - i < length bs" using True by linarith
  ultimately show ?thesis using True by (simp add: mem_write_def)
next
  case False
  then have "\<not> in_range (p + of_nat j) (p + of_nat i) (length bs)"
    using in_range_field [OF assms] by blast
  then show ?thesis using False by (auto simp: mem_write_outside)
qed

lemma mem_read_slice:
  assumes "i + k \<le> n"
  shows "mem_read m (p + of_nat i) k = take k (drop i (mem_read m p n))"
  using assms by (intro nth_equalityI) (auto simp: mem_read_def add.assoc)

lemma write_fields_outside:
  assumes "fields_ok n fs" and "\<not> in_range a p n"
  shows "write_fields m p fs a = m a"
  using assms
proof (induction fs arbitrary: m)
  case Nil
  show ?case by simp
next
  case (Cons f fs)
  obtain i bs where f: "f = (i, bs)" by (cases f)
  have ok: "fields_ok n fs" and i: "i + length bs \<le> n" "n \<le> 4294967296"
    using Cons.prems(1) by (simp_all add: fields_ok_def f)
  have "\<not> in_range a (p + of_nat i) (length bs)"
    using Cons.prems(2) in_range_part i by blast
  then show ?case
    using Cons.IH [OF ok Cons.prems(2)] by (simp add: f write_fields_Cons mem_write_outside)
qed

lemma write_fields_apart:
  assumes "fields_ok n fs" and "list_all (apart (i, bs)) fs" and "i + length bs \<le> n" "k < length bs"
  shows "write_fields m p fs (p + of_nat (i + k)) = m (p + of_nat (i + k))"
  using assms
proof (induction fs arbitrary: m)
  case Nil
  show ?case by simp
next
  case (Cons f fs)
  obtain j cs where f: "f = (j, cs)" by (cases f)
  have ok: "fields_ok n fs" and i: "j + length cs \<le> 4294967296" "i + k < 4294967296"
    using Cons.prems by (auto simp: fields_ok_def f)
  have "\<not> in_range (p + of_nat (i + k)) (p + of_nat j) (length cs)"
    using Cons.prems unfolding in_range_field [OF i] by (auto simp: apart_def f)
  then show ?case
    using Cons by (simp add: f write_fields_Cons mem_write_outside ok del: of_nat_add)
qed

lemma write_fields_read:
  assumes "fields_ok n fs" and "(i, bs) \<in> set fs"
  shows "mem_read (write_fields m p fs) (p + of_nat i) (length bs) = bs"
  using assms
proof (induction fs arbitrary: m)
  case Nil
  then show ?case by simp
next
  case (Cons f fs)
  have ok: "fields_ok n fs" using Cons.prems(1) by (auto simp: fields_ok_def)
  show ?case
  proof (cases "(i, bs) \<in> set fs")
    case True
    then show ?thesis
      using Cons.IH [OF ok] by (cases f) (simp add: write_fields_Cons)
  next
    case False
    with Cons.prems(2) have f: "f = (i, bs)" by simp
    have b: "i + length bs \<le> n" "n \<le> 4294967296" "list_all (apart (i, bs)) fs"
      using Cons.prems(1) by (auto simp: fields_ok_def f list_all_iff)
    have "mem_read (write_fields (mem_write m (p + of_nat i) bs) p fs) (p + of_nat i) (length bs) =
        mem_read (mem_write m (p + of_nat i) bs) (p + of_nat i) (length bs)"
      using write_fields_apart [OF ok b(3) b(1)]
      by (simp add: mem_read_def add.assoc)
    then show ?thesis
      using b by (simp add: f write_fields_Cons mem_read_write_same)
  qed
qed

text \<open>The loads at a field's offset.\<close>

lemma load_field:
  assumes "fields_ok n fs"
  shows "(i, enc16 v) \<in> set fs \<Longrightarrow>
      lduw_be_p (write_fields m p fs) (p + of_nat i) = ucast (ucast v :: u16)"
    "(i, enc32 v) \<in> set fs \<Longrightarrow> ldl_be_p (write_fields m p fs) (p + of_nat i) = ucast v"
    "(i, enc64 v) \<in> set fs \<Longrightarrow> ldq_be_p (write_fields m p fs) (p + of_nat i) = v"
proof -
  note r = write_fields_read [OF assms]
  show "lduw_be_p (write_fields m p fs) (p + of_nat i) = ucast (ucast v :: u16)"
    if "(i, enc16 v) \<in> set fs"
  proof -
    have "lduw_be_p m q = ucast (ucast (lduw_be_p m q) :: u16)" for m q
      by (simp add: lduw_be_p_def)
    moreover have "(ucast (lduw_be_p (write_fields m p fs) (p + of_nat i)) :: u16) = ucast v"
      unfolding be16.ld_eq using r [OF that, of m p] be16.dec_enc by (simp add: enc16_def)
    ultimately show ?thesis by metis
  qed
  show "ldl_be_p (write_fields m p fs) (p + of_nat i) = ucast v" if "(i, enc32 v) \<in> set fs"
    unfolding be32.ld_eq using r [OF that, of m p] be32.dec_enc by (simp add: enc32_def)
  show "ldq_be_p (write_fields m p fs) (p + of_nat i) = v" if "(i, enc64 v) \<in> set fs"
    unfolding be64.ld_eq using r [OF that, of m p] be64.dec_enc by (simp add: enc64_def)
qed

end
