(* ===== verification/Dirent.thy ===== *)
theory Dirent
  imports Handler Layout
begin

text \<open>
  Directory entries: the loops of the cases \<open>getdents\<close> and \<open>getdents64\<close>, which swap the
  headers of the host's records where they are.  \<open>HOST_LONG_BITS\<close> is defined nowhere, so
  \<open>getdents\<close> is the in-place loop over \<open>struct linux_dirent\<close>
  (\<open>long d_ino\<close> 0, \<open>unsigned long d_off\<close> 8, \<open>d_reclen\<close> 16, \<open>d_name\<close> 18).  Its \<open>tswapls\<close> swaps
  four bytes of the eight a host \<open>long\<close> has.  A record of length 0 would be visited forever;
  the loops are partial functions, \<open>None\<close> is a loop that does not end.

  The lemmas show that over a buffer of well-formed records the loop ends, permutes the bytes
  of each record as \<open>entry_index\<close> and \<open>entry64_index\<close> say, and leaves the rest of memory alone.
\<close>

section \<open>The loops\<close>

definition entry_reclen :: "hostmem \<Rightarrow> u64 \<Rightarrow> u16" where
  "entry_reclen m de = ucast (lduw_he_p m (de + 16))"

definition swap_dirent :: "hostmem \<Rightarrow> u64 \<Rightarrow> hostmem" where
  "swap_dirent m de = (
     let m = stw_he_p m (de + 16) (tswap16 (entry_reclen m de));
         m = tswap32s m de
     in tswap32s m (de + 8))"

definition swap_dirent64 :: "hostmem \<Rightarrow> u64 \<Rightarrow> hostmem" where
  "swap_dirent64 m de = (
     let m = stw_he_p m (de + 16) (tswap16 (entry_reclen m de));
         m = tswap64s m de
     in tswap64s m (de + 8))"

partial_function (option) getdents_loop :: "hostmem \<Rightarrow> u64 \<Rightarrow> int \<Rightarrow> hostmem option" where
  "getdents_loop m de len =
    (if len > 0 then
       let reclen = uint (entry_reclen m de) in
       if reclen > len then Some m
       else getdents_loop (swap_dirent m de) (de + of_int reclen) (len - reclen)
     else Some m)"

partial_function (option) getdents64_loop :: "hostmem \<Rightarrow> u64 \<Rightarrow> int \<Rightarrow> hostmem option" where
  "getdents64_loop m de len =
    (if len > 0 then
       let reclen = uint (entry_reclen m de) in
       if reclen > len then Some m
       else getdents64_loop (swap_dirent64 m de) (de + of_int reclen) (len - reclen)
     else Some m)"

section \<open>The cases\<close>

definition finish_loop :: "(hostmem \<Rightarrow> hostmem option) \<Rightarrow> ('w, unit) sl" where
  "finish_loop f = do {
     m \<leftarrow> gets hmem;
     case f m of None \<Rightarrow> require False | Some m' \<Rightarrow> update_mem (\<lambda>_. m')
   }"

definition sys_getdents :: "'w handler" where
  "sys_getdents os a = do {
     let count = arg3 a;
     dirp \<leftarrow> lock_user (arg2 a);
     if dirp = 0 then return efault
     else do {
       r \<leftarrow> host_int (os_fd os F_getdents [HInt (c_int (arg1 a)), HPtr dirp, HInt (c_int count)]);
       ret \<leftarrow> get_errno r;
       (if \<not> is_error ret then finish_loop (\<lambda>m. getdents_loop m dirp (c_int ret)) else return ());
       unlock_user dirp (arg2 a);
       return ret
     }
   }"

definition sys_getdents64 :: "'w handler" where
  "sys_getdents64 os a = do {
     let count = arg3 a;
     dirp \<leftarrow> lock_user (arg2 a);
     if dirp = 0 then return efault
     else do {
       r \<leftarrow> host_int (os_fd os F_getdents64 [HInt (c_int (arg1 a)), HPtr dirp, HInt (c_int count)]);
       ret \<leftarrow> get_errno r;
       (if \<not> is_error ret then finish_loop (\<lambda>m. getdents64_loop m dirp (c_int ret)) else return ());
       unlock_user dirp (arg2 a);
       return ret
     }
   }"

lemma framed_finish_loop [frame_intros]: "framed (finish_loop f)"
  unfolding finish_loop_def by (intro frame_intros)

lemma framed_dirent [frame_intros]: "framed (sys_getdents os a)" "framed (sys_getdents64 os a)"
  unfolding sys_getdents_def sys_getdents64_def by (intro frame_intros)+

section \<open>A record in place\<close>

lemma bit_u8: "8 \<le> n \<Longrightarrow> \<not> bit (a :: u8) n"
  by (auto dest: bit_imp_le_length)

lemma byte_lists:
  "length bs = 2 \<Longrightarrow> \<exists>a b. bs = [a, b]"
  "length bs = 4 \<Longrightarrow> \<exists>a b c d. bs = [a, b, c, d]"
  "length bs = 8 \<Longrightarrow> \<exists>a b c d e f g h. bs = [a, b, c, d, e, f, g, h]"
  by (auto simp: numeral_eq_Suc length_Suc_conv)

lemma bytes16_word16: "length bs = 2 \<Longrightarrow> bytes16 (word16 bs) = bs"
  by (drule byte_lists(1))
     (auto simp: bytes16_def word16_def bit_simps bit_u8 intro!: bit_word_eqI)

lemma bytes32_word32: "length bs = 4 \<Longrightarrow> bytes32 (word32 bs) = bs"
  by (drule byte_lists(2))
     (auto simp: bytes32_def word32_def bit_simps bit_u8 intro!: bit_word_eqI)

lemma bytes64_word64: "length bs = 8 \<Longrightarrow> bytes64 (word64 bs) = bs"
  by (drule byte_lists(3))
     (auto simp: bytes64_def word64_def bit_simps bit_u8 intro!: bit_word_eqI)

lemma swap_in_place:
  "stw_he_p m p (tswap16 (ucast (lduw_he_p m p))) = mem_write m p (rev (mem_read m p 2))"
  "tswap32s m p = mem_write m p (rev (mem_read m p 4))"
  "tswap64s m p = mem_write m p (rev (mem_read m p 8))"
  by (simp_all add: stw_he_p_def tswap16_def lduw_he_p_def tswap32s_def tswap64s_def stl_he_p_def
      ldl_he_p_def stq_he_p_def ldq_he_p_def bytes16_bswap16 bytes32_bswap32 bytes64_bswap64
      bytes16_word16 bytes32_word32 bytes64_word64)

text \<open>Which byte of the old record is byte \<open>j\<close> of the new one.\<close>

definition entry_index :: "nat \<Rightarrow> nat" where
  "entry_index j = (if j < 4 then 3 - j else if 8 \<le> j \<and> j < 12 then 19 - j
     else if j = 16 then 17 else if j = 17 then 16 else j)"

definition entry64_index :: "nat \<Rightarrow> nat" where
  "entry64_index j = (if j < 8 then 7 - j else if 8 \<le> j \<and> j < 16 then 23 - j
     else if j = 16 then 17 else if j = 17 then 16 else j)"

text \<open>A range of bytes reversed in place; memory by offset.\<close>

definition mem_at :: "hostmem \<Rightarrow> u64 \<Rightarrow> nat \<Rightarrow> u8" where
  "mem_at m p j = m (p + of_nat j)"

definition rev_at :: "hostmem \<Rightarrow> u64 \<Rightarrow> nat \<Rightarrow> nat \<Rightarrow> hostmem" where
  "rev_at m p i n = mem_write m (p + of_nat i) (rev (mem_read m (p + of_nat i) n))"

lemma mem_at_rev_at:
  assumes "i + n \<le> 4294967296" and "j < 4294967296"
  shows "mem_at (rev_at m p i n) p j =
    (if i \<le> j \<and> j < i + n then mem_at m p (i + (n - Suc (j - i))) else mem_at m p j)"
proof (cases "i \<le> j \<and> j < i + n")
  case True
  then have "j - i < n" "n - Suc (j - i) < n" by linarith+
  then have "rev (mem_read m (p + of_nat i) n) ! (j - i) = m ((p + of_nat i) + of_nat (n - Suc (j - i)))"
    unfolding mem_read_def by (subst rev_nth) (simp_all only: length_map length_upt diff_zero
        nth_map nth_upt add_0)
  also have "\<dots> = m (p + of_nat (i + (n - Suc (j - i))))"
    by (simp only: of_nat_add add.assoc)
  finally show ?thesis
    using assms True by (simp only: mem_at_def rev_at_def mem_write_at length_rev length_mem_read if_True)
next
  case False
  then show ?thesis
    using assms by (simp only: mem_at_def rev_at_def mem_write_at length_rev length_mem_read if_False)
qed

lemma swap_dirent_rev: "swap_dirent m de = rev_at (rev_at (rev_at m de 16 2) de 0 4) de 8 4"
  by (simp add: swap_dirent_def entry_reclen_def swap_in_place Let_def rev_at_def)

lemma swap_dirent64_rev: "swap_dirent64 m de = rev_at (rev_at (rev_at m de 16 2) de 0 8) de 8 8"
  by (simp add: swap_dirent64_def entry_reclen_def swap_in_place Let_def rev_at_def)

lemma swap_dirent_at: "j < 65536 \<Longrightarrow> mem_at (swap_dirent m de) de j = mem_at m de (entry_index j)"
  by (auto simp: swap_dirent_rev mem_at_rev_at entry_index_def intro!: arg_cong [of _ _ "mem_at m de"])

lemma swap_dirent64_at:
  "j < 65536 \<Longrightarrow> mem_at (swap_dirent64 m de) de j = mem_at m de (entry64_index j)"
  by (auto simp: swap_dirent64_rev mem_at_rev_at entry64_index_def intro!: arg_cong [of _ _ "mem_at m de"])

lemma rev_at_outside:
  assumes "\<not> in_range a p 18" and "i + n \<le> 18"
  shows "rev_at m p i n a = m a"
proof -
  have "\<not> in_range a (p + of_nat i) n"
    using in_range_part [of a p i n 18] assms by auto
  then show ?thesis by (simp add: rev_at_def mem_write_outside)
qed

lemma swap_outside:
  assumes "\<not> in_range a de 18"
  shows "swap_dirent m de a = m a" "swap_dirent64 m de a = m a"
  using assms by (simp_all add: swap_dirent_rev swap_dirent64_rev rev_at_outside)

section \<open>The walk over a buffer of records\<close>

text \<open>
  A record as the host writes it: at least a header long, its little-endian \<open>d_reclen\<close> the
  number of its bytes.  A converted record is a permutation of it.
\<close>

definition wf_entry :: "u8 list \<Rightarrow> bool" where
  "wf_entry e \<longleftrightarrow> 18 \<le> length e \<and> length e < 65536 \<and> word16 (take 2 (drop 16 e)) = of_nat (length e)"

definition permute :: "(nat \<Rightarrow> nat) \<Rightarrow> u8 list \<Rightarrow> u8 list" where
  "permute idx e = map (\<lambda>j. e ! idx j) [0..<length e]"

lemma length_permute [simp]: "length (permute idx e) = length e"
  by (simp add: permute_def)

lemma in_range_tail:
  fixes p :: u64
  assumes "in_range a (p + of_nat i) k" and "i + k < 18446744073709551616"
  shows "in_range a p (i + k)" "\<not> in_range a p i"
proof -
  have i: "unat (of_nat i :: u64) = i"
    using assms by (simp add: unat_of_nat_less)
  have "a - p = (a - (p + of_nat i)) + of_nat i" by simp
  moreover have "unat (a - (p + of_nat i)) < k"
    using assms(1) by (simp add: in_range_def)
  ultimately have "unat (a - p) = unat (a - (p + of_nat i)) + i"
    using assms i unat_add_lem [of "a - (p + of_nat i)" "of_nat i"] by simp
  then show "in_range a p (i + k)" "\<not> in_range a p i"
    using assms by (simp_all add: in_range_def)
qed

lemma in_range_mono: "in_range a p i \<Longrightarrow> i \<le> k \<Longrightarrow> in_range a p k"
  by (simp add: in_range_def)

locale record_walk =
  fixes loop :: "hostmem \<Rightarrow> u64 \<Rightarrow> int \<Rightarrow> hostmem option"
    and step :: "hostmem \<Rightarrow> u64 \<Rightarrow> hostmem"
    and idx :: "nat \<Rightarrow> nat"
  assumes loop_eq: "loop m de len =
      (if len > 0 then
         let reclen = uint (entry_reclen m de) in
         if reclen > len then Some m else loop (step m de) (de + of_int reclen) (len - reclen)
       else Some m)"
    and step_at: "j < 65536 \<Longrightarrow> mem_at (step m de) de j = mem_at m de (idx j)"
    and step_outside: "\<not> in_range a de 18 \<Longrightarrow> step m de a = m a"
    and idx_bound: "18 \<le> n \<Longrightarrow> j < n \<Longrightarrow> idx j < n"
begin

lemma step_entry:
  assumes "wf_entry e" and "mem_read m de (length e) = e"
  shows "entry_reclen m de = of_nat (length e)"
    "mem_read (step m de) de (length e) = permute idx e"
proof -
  have "mem_read m (de + 16) 2 = take 2 (drop 16 e)"
    using mem_read_slice [of 16 2 "length e" m de] assms by (simp add: wf_entry_def)
  then show "entry_reclen m de = of_nat (length e)"
    using assms(1) by (simp add: entry_reclen_def lduw_he_p_def wf_entry_def)
  show "mem_read (step m de) de (length e) = permute idx e"
  proof (rule nth_equalityI)
    fix j assume "j < length (mem_read (step m de) de (length e))"
    then have j: "j < length e" "j < 65536" "idx j < length e"
      using assms(1) idx_bound [of "length e" j] by (auto simp: wf_entry_def)
    have "m (de + of_nat (idx j)) = e ! idx j"
      using arg_cong [OF assms(2), of "\<lambda>x. x ! idx j"] j(3) by (simp add: mem_read_def)
    then show "mem_read (step m de) de (length e) ! j = permute idx e ! j"
      using j step_at [of j m de] by (simp add: mem_read_def permute_def mem_at_def)
  qed simp
qed

lemma walk:
  assumes "list_all wf_entry es" and "length (concat es) < 2 ^ 31"
    and "mem_read m p (length (concat es)) = concat es"
  shows "\<exists>m'. loop m p (int (length (concat es))) = Some m' \<and>
    mem_read m' p (length (concat es)) = concat (map (permute idx) es) \<and>
    (\<forall>a. \<not> in_range a p (length (concat es)) \<longrightarrow> m' a = m a)"
  using assms
proof (induction es arbitrary: m p)
  case Nil
  then show ?case by (subst loop_eq) (simp add: mem_read_def)
next
  case (Cons e es)
  let ?n = "length e" and ?k = "length (concat es)" and ?q = "p + of_nat (length e)"
  let ?m1 = "step m p"
  have e: "wf_entry e" "18 \<le> ?n" "?n < 65536" using Cons.prems(1) by (simp_all add: wf_entry_def)
  have len: "?n + ?k < 2147483648" using Cons.prems(2) by simp
  have "mem_read m p ?n @ mem_read m ?q ?k = e @ concat es"
    using Cons.prems(3) by (simp add: mem_read_append)
  then have r: "mem_read m p ?n = e" "mem_read m ?q ?k = concat es" by simp_all
  note s = step_entry [OF e(1) r(1)]
  have keep: "?m1 a = m a" if "\<not> in_range a p ?n" for a
    using that e(2) by (intro step_outside) (auto dest: in_range_mono)
  have "mem_read ?m1 ?q ?k = concat es"
    using mem_read_cong [of ?q ?k ?m1 m] keep in_range_tail(2) [of _ p ?n ?k] len r(2) by auto
  from Cons.IH [OF _ _ this] Cons.prems(1) len obtain m' where
    m': "loop ?m1 ?q (int ?k) = Some m'" "mem_read m' ?q ?k = concat (map (permute idx) es)"
      "\<And>a. \<not> in_range a ?q ?k \<Longrightarrow> m' a = ?m1 a" by auto
  have u: "uint (entry_reclen m p) = int ?n"
    using e(3) by (simp add: s(1) unsigned_of_nat take_bit_nat_eq_self)
  have "loop m p (int (length (concat (e # es)))) = Some m'"
    using m'(1) e(2) by (subst loop_eq) (simp add: u)
  moreover have "mem_read m' p ?n = mem_read ?m1 p ?n"
    using mem_read_cong [of p ?n m' ?m1] m'(3) in_range_tail(2) [of _ p ?n ?k] len by auto
  then have "mem_read m' p (length (concat (e # es))) = concat (map (permute idx) (e # es))"
    using m'(2) s(2) by (simp add: mem_read_append)
  moreover have "m' a = m a" if "\<not> in_range a p (length (concat (e # es)))" for a
  proof -
    have "\<not> in_range a ?q ?k"
      using that in_range_tail(1) [of a p ?n ?k] len by auto
    moreover have "\<not> in_range a p ?n"
      using that in_range_mono [of a p ?n "?n + ?k"] by auto
    ultimately show ?thesis using m'(3) keep by simp
  qed
  ultimately show ?case by blast
qed

end

lemma index_bound:
  "18 \<le> n \<Longrightarrow> j < n \<Longrightarrow> entry_index j < n" "18 \<le> n \<Longrightarrow> j < n \<Longrightarrow> entry64_index j < n"
  by (auto simp: entry_index_def entry64_index_def)

interpretation dirents: record_walk getdents_loop swap_dirent entry_index
  by unfold_locales (rule getdents_loop.simps swap_dirent_at swap_outside index_bound; assumption?)+

interpretation dirents64: record_walk getdents64_loop swap_dirent64 entry64_index
  by unfold_locales (rule getdents64_loop.simps swap_dirent64_at swap_outside index_bound; assumption?)+

section \<open>A record of length 0\<close>

lemma entry_reclen_at: "entry_reclen m de = word16 [mem_at m de 16, mem_at m de 17]"
  by (simp add: entry_reclen_def lduw_he_p_def mem_read_def mem_at_def numeral_2_eq_2 add.assoc)

lemma reclen_0_again:
  assumes "entry_reclen m de = 0"
  shows "entry_reclen (swap_dirent m de) de = 0"
proof -
  have "[mem_at m de 16, mem_at m de 17] = bytes16 0"
    using assms bytes16_word16 [of "[mem_at m de 16, mem_at m de 17]"] by (simp add: entry_reclen_at)
  then show ?thesis
    by (simp add: entry_reclen_at swap_dirent_at entry_index_def bytes16_def word16_def)
qed

lemma loop_some:
  assumes "getdents_loop m de len = Some r"
  shows "\<not> (entry_reclen m de = 0 \<and> 0 < len)"
  using assms
  by (rule getdents_loop.raw_induct
      [where P = "\<lambda>m de len r. \<not> (entry_reclen m de = 0 \<and> 0 < len)", rotated])
     (auto simp: Let_def reclen_0_again split: if_splits)

lemma loop_stuck:
  assumes "entry_reclen m de = 0" and "0 < len"
  shows "getdents_loop m de len = None"
  using loop_some assms by (cases "getdents_loop m de len") auto

end
