(* ===== verification/Stat.thy ===== *)
theory Stat
  imports Handler Layout
begin

text \<open>
  The structures that describe files and the system, written into guest memory:
  \<open>struct target_stat\<close>, \<open>target_stat64\<close>, \<open>target_statfs\<close>, \<open>target_statfs64\<close> and
  \<open>target_sysinfo\<close> in the SPARC layout of \<open>syscall_defs.h\<close>.  The offset of a field is the
  number added to the base; the width is the width of the store.
\<close>

section \<open>Layout\<close>

text \<open>Sizes of the structures (\<open>sizeof\<close>).\<close>

definition sizeof_target_stat :: nat where
  "sizeof_target_stat = 64"

definition sizeof_target_stat64 :: nat where
  "sizeof_target_stat64 = 104"

text \<open>The fields of \<open>struct target_stat\<close> through the pointer \<open>p\<close>, in the order of the code.\<close>

definition put_target_stat :: "host_stat \<Rightarrow> u64 \<Rightarrow> ('w, unit) sl" where
  "put_target_stat st p = do {
     update_mem (\<lambda>m. mem_set m p 0 sizeof_target_stat);
     put16 (st_dev st) p;
     put32 (st_ino st) (p + 4);
     put16 (st_mode st) (p + 8);
     put16 (st_uid st) (p + 12);
     put16 (st_gid st) (p + 14);
     put16 (st_nlink st) (p + 10);
     put16 (st_rdev st) (p + 16);
     put32 (st_size st) (p + 20);
     put32 (st_blksize st) (p + 48);
     put32 (st_blocks st) (p + 52);
     put32 (st_atime st) (p + 24);
     put32 (st_mtime st) (p + 32);
     put32 (st_ctime st) (p + 40)
   }"

text \<open>The part of the cases after the label \<open>do_stat:\<close>.\<close>

definition do_stat :: "u32 \<Rightarrow> u32 \<Rightarrow> host_stat \<Rightarrow> ('w, u32) sl" where
  "do_stat addr ret st =
    (if \<not> is_error ret then do {
       p \<leftarrow> lock_user addr;
       if p = 0 then return efault
       else do {
         put_target_stat st p;
         unlock_user p addr;
         return ret
       }
     } else return ret)"

definition host_to_target_stat64 :: "u32 \<Rightarrow> host_stat \<Rightarrow> ('w, u32) sl" where
  "host_to_target_stat64 target_addr st = do {
     p \<leftarrow> lock_user target_addr;
     if p = 0 then return efault
     else do {
       update_mem (\<lambda>m. mem_set m p 0 sizeof_target_stat64);
       put16 (st_dev st) (p + 6);
       put64 (st_ino st) (p + 8);
       put32 (st_mode st) (p + 16);
       put32 (st_nlink st) (p + 20);
       put32 (st_uid st) (p + 24);
       put32 (st_gid st) (p + 28);
       put16 (st_rdev st) (p + 38);
       put64 (st_size st) (p + 48);
       put32 (st_blksize st) (p + 56);
       put32 (st_blocks st) (p + 68);
       put32 (st_atime st) (p + 72);
       put32 (st_mtime st) (p + 80);
       put32 (st_ctime st) (p + 88);
       unlock_user p target_addr;
       return 0
     }
   }"

text \<open>After \<open>convert_statfs:\<close>; \<open>f_spare\<close> is five words.\<close>

definition convert_statfs :: "u32 \<Rightarrow> u32 \<Rightarrow> host_statfs \<Rightarrow> ('w, u32) sl" where
  "convert_statfs addr ret stfs =
    (if \<not> is_error ret then do {
       p \<leftarrow> lock_user addr;
       if p = 0 then return efault
       else do {
         put32 (f_type stfs) p;
         put32 (f_bsize stfs) (p + 4);
         put32 (f_blocks stfs) (p + 8);
         put32 (f_bfree stfs) (p + 12);
         put32 (f_bavail stfs) (p + 16);
         put32 (f_files stfs) (p + 20);
         put32 (f_ffree stfs) (p + 24);
         put32 (f_fsid0 stfs) (p + 28);
         put32 (f_fsid1 stfs) (p + 32);
         put32 (f_namelen stfs) (p + 36);
         put32 (f_frsize stfs) (p + 40);
         update_mem (\<lambda>m. mem_set m (p + 44) 0 20);
         unlock_user p addr;
         return ret
       }
     } else return ret)"

text \<open>After \<open>convert_statfs64:\<close>; the counts are 64 bits wide.\<close>

definition convert_statfs64 :: "u32 \<Rightarrow> u32 \<Rightarrow> host_statfs \<Rightarrow> ('w, u32) sl" where
  "convert_statfs64 addr ret stfs =
    (if \<not> is_error ret then do {
       p \<leftarrow> lock_user addr;
       if p = 0 then return efault
       else do {
         put32 (f_type stfs) p;
         put32 (f_bsize stfs) (p + 4);
         put64 (f_blocks stfs) (p + 8);
         put64 (f_bfree stfs) (p + 16);
         put64 (f_bavail stfs) (p + 24);
         put64 (f_files stfs) (p + 32);
         put64 (f_ffree stfs) (p + 40);
         put32 (f_fsid0 stfs) (p + 48);
         put32 (f_fsid1 stfs) (p + 52);
         put32 (f_namelen stfs) (p + 56);
         put32 (f_frsize stfs) (p + 60);
         update_mem (\<lambda>m. mem_set m (p + 64) 0 20);
         unlock_user p addr;
         return ret
       }
     } else return ret)"

text \<open>\<open>struct target_sysinfo\<close>, field by field.\<close>

definition put_target_sysinfo :: "host_sysinfo \<Rightarrow> u64 \<Rightarrow> ('w, unit) sl" where
  "put_target_sysinfo v p = do {
     put32 (si_uptime v) p;
     put32 (si_load0 v) (p + 4);
     put32 (si_load1 v) (p + 8);
     put32 (si_load2 v) (p + 12);
     put32 (si_totalram v) (p + 16);
     put32 (si_freeram v) (p + 20);
     put32 (si_sharedram v) (p + 24);
     put32 (si_bufferram v) (p + 28);
     put32 (si_totalswap v) (p + 32);
     put32 (si_freeswap v) (p + 36);
     put16 (si_procs v) (p + 40);
     put32 (si_totalhigh v) (p + 44);
     put32 (si_freehigh v) (p + 48);
     put32 (si_mem_unit v) (p + 52)
   }"

section \<open>Frames\<close>

lemma framed_stat [frame_intros]:
  "framed (put_target_stat st p)" "framed (do_stat x r st)" "framed (host_to_target_stat64 x st)"
  "framed (convert_statfs x r sf)" "framed (convert_statfs64 x r sf)" "framed (put_target_sysinfo v p)"
proof -
  show *: "framed (put_target_stat st p)" for p
    unfolding put_target_stat_def by (intro frame_intros)
  show "framed (do_stat x r st)"
    unfolding do_stat_def by (intro frame_intros *)
  show "framed (host_to_target_stat64 x st)" "framed (convert_statfs x r sf)"
    "framed (convert_statfs64 x r sf)" "framed (put_target_sysinfo v p)"
    unfolding host_to_target_stat64_def convert_statfs_def convert_statfs64_def
      put_target_sysinfo_def
    by (intro frame_intros)+
qed

section \<open>What the guest reads back\<close>

definition target_stat_fields :: "host_stat \<Rightarrow> fields" where
  "target_stat_fields st = [(0, enc16 (st_dev st)), (4, enc32 (st_ino st)), (8, enc16 (st_mode st)),
     (12, enc16 (st_uid st)), (14, enc16 (st_gid st)), (10, enc16 (st_nlink st)),
     (16, enc16 (st_rdev st)), (20, enc32 (st_size st)), (48, enc32 (st_blksize st)),
     (52, enc32 (st_blocks st)), (24, enc32 (st_atime st)), (32, enc32 (st_mtime st)),
     (40, enc32 (st_ctime st))]"

definition target_stat64_fields :: "host_stat \<Rightarrow> fields" where
  "target_stat64_fields st = [(6, enc16 (st_dev st)), (8, enc64 (st_ino st)),
     (16, enc32 (st_mode st)), (20, enc32 (st_nlink st)), (24, enc32 (st_uid st)),
     (28, enc32 (st_gid st)), (38, enc16 (st_rdev st)), (48, enc64 (st_size st)),
     (56, enc32 (st_blksize st)), (68, enc32 (st_blocks st)), (72, enc32 (st_atime st)),
     (80, enc32 (st_mtime st)), (88, enc32 (st_ctime st))]"

definition target_statfs_fields :: "host_statfs \<Rightarrow> fields" where
  "target_statfs_fields sf = [(0, enc32 (f_type sf)), (4, enc32 (f_bsize sf)),
     (8, enc32 (f_blocks sf)), (12, enc32 (f_bfree sf)), (16, enc32 (f_bavail sf)),
     (20, enc32 (f_files sf)), (24, enc32 (f_ffree sf)), (28, enc32 (f_fsid0 sf)),
     (32, enc32 (f_fsid1 sf)), (36, enc32 (f_namelen sf)), (40, enc32 (f_frsize sf)),
     (44, replicate 20 0)]"

definition target_statfs64_fields :: "host_statfs \<Rightarrow> fields" where
  "target_statfs64_fields sf = [(0, enc32 (f_type sf)), (4, enc32 (f_bsize sf)),
     (8, enc64 (f_blocks sf)), (16, enc64 (f_bfree sf)), (24, enc64 (f_bavail sf)),
     (32, enc64 (f_files sf)), (40, enc64 (f_ffree sf)), (48, enc32 (f_fsid0 sf)),
     (52, enc32 (f_fsid1 sf)), (56, enc32 (f_namelen sf)), (60, enc32 (f_frsize sf)),
     (64, replicate 20 0)]"

definition target_sysinfo_fields :: "host_sysinfo \<Rightarrow> fields" where
  "target_sysinfo_fields v = [(0, enc32 (si_uptime v)), (4, enc32 (si_load0 v)),
     (8, enc32 (si_load1 v)), (12, enc32 (si_load2 v)), (16, enc32 (si_totalram v)),
     (20, enc32 (si_freeram v)), (24, enc32 (si_sharedram v)), (28, enc32 (si_bufferram v)),
     (32, enc32 (si_totalswap v)), (36, enc32 (si_freeswap v)), (40, enc16 (si_procs v)),
     (44, enc32 (si_totalhigh v)), (48, enc32 (si_freehigh v)), (52, enc32 (si_mem_unit v))]"

lemma fields_ok_stat:
  "fields_ok 64 (target_stat_fields st)" "fields_ok 104 (target_stat64_fields st)"
  "fields_ok 64 (target_statfs_fields sf)" "fields_ok 84 (target_statfs64_fields sf)"
  "fields_ok 56 (target_sysinfo_fields v)"
  by (simp_all add: fields_ok_def apart_def target_stat_fields_def target_stat64_fields_def
      target_statfs_fields_def target_statfs64_fields_def target_sysinfo_fields_def)

lemma mem_set_write: "mem_set m p c n = mem_write m p (replicate n c)"
  by (simp add: mem_set_def mem_write_def fun_eq_iff)

lemma put_fields:
  "stw_be_p m p (ucast v) = mem_write m p (enc16 v)"
  "stl_be_p m p (ucast v) = mem_write m p (enc32 v)"
  "stq_be_p m p v = mem_write m p (enc64 v)"
  by (simp_all add: be16.st_eq be32.st_eq be64.st_eq enc16_def enc32_def enc64_def)

lemma run_put_target_stat:
  "run_state (put_target_stat st p) s =
    ((), s\<lparr>hmem := write_fields (mem_set (hmem s) p 0 64) p (target_stat_fields st)\<rparr>)"
  by (simp add: put_target_stat_def run_simps put_fields target_stat_fields_def write_fields_def
      sizeof_target_stat_def)

lemma run_put_target_sysinfo:
  "run_state (put_target_sysinfo v p) s =
    ((), s\<lparr>hmem := write_fields (hmem s) p (target_sysinfo_fields v)\<rparr>)"
  by (simp add: put_target_sysinfo_def run_simps put_fields target_sysinfo_fields_def write_fields_def)

lemma run_do_stat [run_simps]:
  "run_state (do_stat x r st) s =
    (let p = g2h_at (guest_base s) x in
     if is_error r then (r, s) else if p = 0 then (efault, s)
     else (r, s\<lparr>hmem := write_fields (mem_set (hmem s) p 0 64) p (target_stat_fields st)\<rparr>))"
  by (simp add: do_stat_def run_simps run_put_target_stat Let_def)

lemma run_host_to_target_stat64 [run_simps]:
  "run_state (host_to_target_stat64 x st) s =
    (let p = g2h_at (guest_base s) x in if p = 0 then (efault, s)
     else (0, s\<lparr>hmem := write_fields (mem_set (hmem s) p 0 104) p (target_stat64_fields st)\<rparr>))"
  by (simp add: host_to_target_stat64_def run_simps put_fields target_stat64_fields_def
      write_fields_def sizeof_target_stat64_def Let_def)

lemma run_convert_statfs [run_simps]:
  "run_state (convert_statfs x r sf) s =
    (let p = g2h_at (guest_base s) x in
     if is_error r then (r, s) else if p = 0 then (efault, s)
     else (r, s\<lparr>hmem := write_fields (hmem s) p (target_statfs_fields sf)\<rparr>))"
  by (simp add: convert_statfs_def run_simps put_fields target_statfs_fields_def
      write_fields_def Let_def mem_set_write)

lemma run_convert_statfs64 [run_simps]:
  "run_state (convert_statfs64 x r sf) s =
    (let p = g2h_at (guest_base s) x in
     if is_error r then (r, s) else if p = 0 then (efault, s)
     else (r, s\<lparr>hmem := write_fields (hmem s) p (target_statfs64_fields sf)\<rparr>))"
  by (simp add: convert_statfs64_def run_simps put_fields target_statfs64_fields_def
      write_fields_def Let_def mem_set_write)

text \<open>A store of fields over a cleared structure, read back and framed.\<close>

lemma cleared_outside:
  assumes "fields_ok n fs" and "\<not> in_range a p n"
  shows "write_fields (mem_set m p 0 n) p fs a = m a"
  using write_fields_outside [OF assms] assms(2) by (simp add: mem_set_outside)

text \<open>Each field found at its offset.\<close>

lemma stat_fields16:
  "(0, enc16 (st_dev st)) \<in> set (target_stat_fields st)"
  "(8, enc16 (st_mode st)) \<in> set (target_stat_fields st)"
  "(10, enc16 (st_nlink st)) \<in> set (target_stat_fields st)"
  "(12, enc16 (st_uid st)) \<in> set (target_stat_fields st)"
  "(14, enc16 (st_gid st)) \<in> set (target_stat_fields st)"
  "(16, enc16 (st_rdev st)) \<in> set (target_stat_fields st)"
  by (simp_all add: target_stat_fields_def)

lemma stat_fields32:
  "(4, enc32 (st_ino st)) \<in> set (target_stat_fields st)"
  "(20, enc32 (st_size st)) \<in> set (target_stat_fields st)"
  "(24, enc32 (st_atime st)) \<in> set (target_stat_fields st)"
  "(32, enc32 (st_mtime st)) \<in> set (target_stat_fields st)"
  "(40, enc32 (st_ctime st)) \<in> set (target_stat_fields st)"
  "(48, enc32 (st_blksize st)) \<in> set (target_stat_fields st)"
  "(52, enc32 (st_blocks st)) \<in> set (target_stat_fields st)"
  by (simp_all add: target_stat_fields_def)

lemma stat64_fields16:
  "(6, enc16 (st_dev st)) \<in> set (target_stat64_fields st)"
  "(38, enc16 (st_rdev st)) \<in> set (target_stat64_fields st)"
  by (simp_all add: target_stat64_fields_def)

lemma stat64_fields32:
  "(16, enc32 (st_mode st)) \<in> set (target_stat64_fields st)"
  "(20, enc32 (st_nlink st)) \<in> set (target_stat64_fields st)"
  "(24, enc32 (st_uid st)) \<in> set (target_stat64_fields st)"
  "(28, enc32 (st_gid st)) \<in> set (target_stat64_fields st)"
  "(56, enc32 (st_blksize st)) \<in> set (target_stat64_fields st)"
  "(68, enc32 (st_blocks st)) \<in> set (target_stat64_fields st)"
  "(72, enc32 (st_atime st)) \<in> set (target_stat64_fields st)"
  "(80, enc32 (st_mtime st)) \<in> set (target_stat64_fields st)"
  "(88, enc32 (st_ctime st)) \<in> set (target_stat64_fields st)"
  by (simp_all add: target_stat64_fields_def)

lemma stat64_fields64:
  "(8, enc64 (st_ino st)) \<in> set (target_stat64_fields st)"
  "(48, enc64 (st_size st)) \<in> set (target_stat64_fields st)"
  by (simp_all add: target_stat64_fields_def)

lemmas stat_reads =
  stat_fields16 [THEN load_field(1) [OF fields_ok_stat(1)], simplified]
  stat_fields32 [THEN load_field(2) [OF fields_ok_stat(1)], simplified]

lemmas stat64_reads =
  stat64_fields16 [THEN load_field(1) [OF fields_ok_stat(2)], simplified]
  stat64_fields32 [THEN load_field(2) [OF fields_ok_stat(2)], simplified]
  stat64_fields64 [THEN load_field(3) [OF fields_ok_stat(2)], simplified]

end
