(* ===== verification/Data_Props.thy ===== *)
theory Data_Props
  imports Select Iovec Dirent Stat
begin

unbundle bit_operations_syntax

text \<open>
  The properties of the data conversions: byte order, typed access to guest memory, errno,
  ids, limits, times, descriptor sets, vectors, the status structures and directory entries.
\<close>

section \<open>Bytes\<close>

text \<open>Words that the little-endian host stores for the guest are big-endian: the bytes of a 16, 32
  or 64 bit store are the value's bytes from the most significant one, and the load of the
  same width gives the value back.\<close>

theorem guest_stores_are_big_endian:
  "mem_read (stw_be_p m p x) p 2 = [ucast (drop_bit 8 x), ucast x] \<and>
   mem_read (stl_be_p m p y) p 4 =
     [ucast (drop_bit 24 y), ucast (drop_bit 16 y), ucast (drop_bit 8 y), ucast y] \<and>
   mem_read (stq_be_p m p z) p 8 =
     [ucast (drop_bit 56 z), ucast (drop_bit 48 z), ucast (drop_bit 40 z), ucast (drop_bit 32 z),
      ucast (drop_bit 24 z), ucast (drop_bit 16 z), ucast (drop_bit 8 z), ucast z] \<and>
   ucast (lduw_be_p (stw_be_p m p x) p) = x \<and> ldl_be_p (stl_be_p m p y) p = y \<and>
   ldq_be_p (stq_be_p m p z) p = z"
  using be16.bytes_st [of m p x] be32.bytes_st [of m p y] be64.bytes_st [of m p z]
    be16.ld_st [of m p x] be32.ld_st [of m p y] be64.ld_st [of m p z]
  by (simp add: bytes16_def bytes32_def bytes64_def)

text \<open>A store writes its own bytes only: an address outside the range keeps its byte.\<close>

theorem stores_write_their_range:
  "(\<not> in_range a p 2 \<longrightarrow> stw_be_p m p x a = m a) \<and> (\<not> in_range a p 4 \<longrightarrow> stl_be_p m p y a = m a) \<and>
   (\<not> in_range a p 8 \<longrightarrow> stq_be_p m p z a = m a)"
  by (simp add: scalar_frame)

theorem stores_write_their_range_witness:
  "stl_be_p (\<lambda>a. 7) 100 0x12345678 104 = 7"
  using stores_write_their_range [of 104 100 "\<lambda>a. 7" 0 "0x12345678" 0]
  by (simp add: in_range_def)

text \<open>The byte swaps of \<open>bswap.h\<close> reverse the bytes of a value and are their own inverse,
  at all three widths.\<close>

theorem byte_swaps_reverse:
  "bytes16 (bswap16 x) = rev (bytes16 x) \<and> bytes32 (bswap32 y) = rev (bytes32 y) \<and>
   bytes64 (bswap64 z) = rev (bytes64 z) \<and>
   bswap16 (bswap16 x) = x \<and> bswap32 (bswap32 y) = y \<and> bswap64 (bswap64 z) = z"
  by (simp add: bytes16_bswap16 bytes32_bswap32 bytes64_bswap64)

text \<open>\<open>put_user\<close> and \<open>get_user\<close> are inverse at a guest address that has a host address:
  both report success and the value read is the value written.\<close>

theorem put_user_get_user:
  assumes "g2h_at (guest_base s) x \<noteq> 0"
  shows "result_of (do { e \<leftarrow> put_user32 v x; (w, f) \<leftarrow> get_user32 x; return (e, w, f) }) s =
    (0, v, 0)"
  using assms by (simp add: run_simps be32.ld_st)

theorem put_user_get_user_witness:
  "result_of (do { e \<leftarrow> put_user32 0xdeadbeef 0x1000; (w, f) \<leftarrow> get_user32 0x1000; return (e, w, f) })
     demo_state = (0, 0xdeadbeef, 0)"
  by (rule put_user_get_user) (simp add: g2h_at_def)

section \<open>Ids, limits, times\<close>

text \<open>The 16-bit ids: an id below 65535 survives the way to the guest and back, for users
  and for groups.\<close>

theorem id16_roundtrip:
  assumes "uint i < 65535"
  shows "low2highuid (high2lowuid i) = i \<and> low2highgid (high2lowgid i) = i"
  using uid16.roundtrip [OF assms] gid16.roundtrip [OF assms] by simp

theorem id16_roundtrip_witness: "low2highuid (high2lowuid 1000) = 1000"
  using id16_roundtrip [of 1000] by simp

lemma ucast_u32_u64_id: "unat (r :: u64) < 4294967296 \<Longrightarrow> ucast (ucast r :: u32) = r"
  by (simp add: word_unat_eq_iff unsigned_ucast_eq unsigned_take_bit_eq take_bit_nat_eq_self)

lemma scast_range: "(scast (u :: u32) :: u64) < 0x80000000 \<or> 0xffffffff80000000 \<le> (scast u :: u64)"
proof (cases "0 \<le> sint u")
  case True
  then have "uint u < 2147483648"
    using uint_u32_less [of u] by (simp add: sint_u32 split: if_splits)
  then have "nat (uint u) < nat 2147483648" by (simp only: nat_mono_iff zero_less_numeral)
  then have "unat (ucast u :: u64) < 2147483648" by simp
  then have "(ucast u :: u64) < 0x80000000"
    by (simp only: word_less_nat_alt) simp
  then show ?thesis using scast_nonneg [OF True] by simp
next
  case False
  then have k: "- 2147483648 \<le> sint u" "sint u < 0"
    using uint_u32_less [of u] uint_ge_0 [of u] by (simp_all add: sint_u32 split: if_splits)
  then have "sint u mod 18446744073709551616 = sint u + 18446744073709551616"
    by (intro int_mod_pos_eq [where q = "- 1"]) simp_all
  then have "uint (word_of_int (sint u) :: u64) = sint u + 18446744073709551616"
    by (simp only: unsigned_of_int take_bit_eq_mod) simp
  then have "uint (scast u :: u64) = sint u + 18446744073709551616" by simp
  then show ?thesis using k(1) by (simp add: word_le_def)
qed

text \<open>A host limit below \<open>TARGET_RLIM_INFINITY\<close> survives the way to the guest and back; one from
  there to \<open>0xffffffff7fffffff\<close> comes back as \<open>RLIM_INFINITY\<close>.  (The top 2 GB, which are the
  sign-extensions of negative words, are not covered.)\<close>

theorem rlim_roundtrip:
  assumes "r < 0xffffffff80000000"
  shows "target_to_host_rlim (host_to_target_rlim r) = (if r < 0x7fffffff then r else -1)"
proof -
  let ?u = "ucast r :: u32"
  have r: "r \<noteq> -1" using assms by auto
  have small: "ucast ?u = r" if "r \<le> 0x7fffffff"
    using that by (intro ucast_u32_u64_id) (simp add: word_le_nat_alt)
  have signed: "r = scast ?u \<longleftrightarrow> r \<le> 0x7fffffff"
  proof
    assume "r = scast ?u"
    then have "r < 0x80000000" using scast_range [of ?u] assms by auto
    then show "r \<le> 0x7fffffff" by (simp add: word_le_nat_alt word_less_nat_alt)
  next
    assume le: "r \<le> 0x7fffffff"
    then have "unat ?u < 2 ^ 31"
      using arg_cong [OF small [OF le], of unat] by (simp add: word_le_nat_alt)
    then have "0 \<le> sint ?u" by (simp only: sint_nonneg)
    then show "r = scast ?u" using small [OF le] by (simp add: scast_nonneg)
  qed
  have inf: "?u = 0x7fffffff \<longleftrightarrow> r = 0x7fffffff" if "r \<le> 0x7fffffff"
    using small [OF that] by auto
  show ?thesis
    using r signed small inf
    by (auto simp: host_to_target_rlim_def target_to_host_rlim_def Let_def not_less)
qed

theorem rlim_roundtrip_witness: "target_to_host_rlim (host_to_target_rlim 0x80000000) = -1"
  by (subst rlim_roundtrip) simp_all

lemma be32_two:
  "ldl_be_p (stl_be_p (stl_be_p m p a) (p + 4) b) p = a"
  "ldl_be_p (stl_be_p (stl_be_p m p a) (p + 4) b) (p + 4) = b"
proof -
  have "disjoint p 4 (p + 4) 4"
    unfolding disjoint_def using in_range_field [of 4 4 _ p] by (auto simp: add.commute)
  then show "ldl_be_p (stl_be_p (stl_be_p m p a) (p + 4) b) p = a"
    by (simp add: be32.ld_st_other be32.ld_st)
qed (rule be32.ld_st)

text \<open>A time whose fields fit in 32 bits survives the way to guest memory and back, and
  both copies report success.\<close>

theorem timeval_roundtrip:
  assumes "g2h_at (guest_base s) x \<noteq> 0"
    and "scast (ucast (tv_sec tv) :: u32) = tv_sec tv"
    and "scast (ucast (tv_usec tv) :: u32) = tv_usec tv"
  shows "result_of (do { e \<leftarrow> copy_to_user_timeval x tv; (w, f) \<leftarrow> copy_from_user_timeval x;
      return (e, w, f) }) s = (0, tv, 0)"
  using assms
  by (simp add: copy_to_user_timeval_def copy_from_user_timeval_def run_simps be32_two)

theorem timeval_roundtrip_witness:
  "result_of (do { e \<leftarrow> copy_to_user_timeval 0x1000 demo_tv;
      (w, f) \<leftarrow> copy_from_user_timeval 0x1000; return (e, w, f) }) demo_state = (0, demo_tv, 0)"
  by (rule timeval_roundtrip) (simp_all add: g2h_at_def demo_tv_def)

section \<open>Descriptor sets and vectors\<close>

lemma fdset_words_bound:
  assumes "0 \<le> n" and "n \<le> 1024"
  shows "32 * fdset_words n \<le> 1024"
  using assms by (simp add: fdset_words_def)

lemma fdset_out_in:
  assumes r: "32 * r \<le> 1024"
  shows "result_of (fdset_in r p 0 0) (s\<lparr>hmem := mem_write (hmem s) p (fdset_bytes r 0 fds)\<rparr>) =
    take_bit (32 * r) fds"
proof (rule bit_word_eqI)
  fix d assume d: "d < LENGTH(1024)"
  let ?m = "mem_write (hmem s) p (fdset_bytes r 0 fds)"
  show "bit (result_of (fdset_in r p 0 0) (s\<lparr>hmem := ?m\<rparr>)) d = bit (take_bit (32 * r) fds) d"
  proof (cases "d < 32 * r")
    case True
    then have q: "d div 32 < r" by auto
    have "ldl_be_p ?m (p + of_nat (4 * (d div 32))) =
        bswap32 (word32 (take 4 (drop (4 * (d div 32)) (fdset_bytes r 0 fds))))"
      using q r by (intro be32.ld_inside) auto
    also have "\<dots> = fd_get_word fds (32 * (d div 32))"
      using be32.dec_enc fdset_bytes_slice [OF q] by simp
    finally have "ldl_be_p ?m (p + of_nat (4 * (d div 32))) = fd_get_word fds (32 * (d div 32))" .
    then show ?thesis
      using True d unfolding fdset_in_bits by (simp add: bit_fd_get_word bit_take_bit_iff)
  next
    case False
    then show ?thesis unfolding fdset_in_bits by (simp add: bit_take_bit_iff)
  qed
qed

lemma run_fdset_out_in:
  assumes "32 * r \<le> 1024"
  shows "run_state (fdset_in r p 0 0) (s\<lparr>hmem := mem_write (hmem s) p (fdset_bytes r 0 fds)\<rparr>) =
    (take_bit (32 * r) fds, s\<lparr>hmem := mem_write (hmem s) p (fdset_bytes r 0 fds)\<rparr>)"
  using fdset_out_in [OF assms, of p s fds] fdset_in_state [of 0 r p 0] assms
  by (intro prod_eqI) simp_all

text \<open>C32: A descriptor set survives the way to guest memory and back for up to 1024
  descriptors: both copies report success, the bits of all whole words are kept, and no step
  leaves what C defines.\<close>

theorem fdset_roundtrip:
  assumes "0 \<le> n" and "n \<le> 1024" and "g2h_at (guest_base s) x \<noteq> 0"
  shows "(case run_state (do { e \<leftarrow> copy_to_user_fdset x fds n; (g, f) \<leftarrow> copy_from_user_fdset x n;
      return (e, g, f) }) s of (r, t) \<Rightarrow>
    r = (0, take_bit (32 * fdset_words n) fds, 0) \<and> fault t = fault s)"
proof -
  have r: "32 * fdset_words n \<le> 1024" using assms(1,2) by (rule fdset_words_bound)
  have "fault s \<or> (fdset_words n \<noteq> 0 \<and> 1024 < 32 * fdset_words n) \<longleftrightarrow> fault s"
    using r by auto
  then show ?thesis
    using assms r
    by (simp add: copy_to_user_fdset_def copy_from_user_fdset_def run_simps run_fdset_out
        run_fdset_out_in)
qed

theorem fdset_roundtrip_witness:
  "(case run_state (do { e \<leftarrow> copy_to_user_fdset 0x1000 0b101001 40; (g, f) \<leftarrow> copy_from_user_fdset 0x1000 40;
      return (e, g, f) }) demo_state of (r, t) \<Rightarrow>
    r = (0, take_bit (32 * fdset_words 40) 0b101001, 0) \<and> fault t = fault demo_state)"
  by (rule fdset_roundtrip) (simp_all add: g2h_at_def)

text \<open>For more than 1024 descriptors copying a set out reads past the end of the host's
  \<open>fd_set\<close>: the code does not bound \<open>n\<close>.\<close>

theorem fdset_unbounded:
  assumes "1024 < n" and "n + 31 < 2 ^ 31" and "g2h_at (guest_base s) x \<noteq> 0"
  shows "fault (state_after (copy_to_user_fdset x fds n) s)"
proof -
  have "1024 < 32 * fdset_words n" "4 * fdset_words n \<le> 2 ^ 64"
    using assms(1,2) by (simp_all add: fdset_words_def nat_le_iff)
  moreover have "fdset_words n \<noteq> 0" using calculation by auto
  ultimately show ?thesis
    using assms(3) by (simp add: copy_to_user_fdset_def run_simps run_fdset_out)
qed

theorem fdset_unbounded_witness: "fault (state_after (copy_to_user_fdset 0x1000 0 1025) demo_state)"
  by (rule fdset_unbounded) (simp_all add: g2h_at_def)

text \<open>C29: A vector that \<open>lock_iovec\<close> builds has as many elements as were asked for, between
  1 and 1024, and the lengths in it sum to at most 2 GB less a page, whatever is in guest
  memory.\<close>

theorem lock_iovec_bounds:
  fixes s :: "'w sl_state"
  assumes "result_of (lock_iovec os x count) s = Some vs"
  shows "length vs = unat count \<and> 0 < unat count \<and> unat count \<le> 1024 \<and>
    iov_total vs \<le> unat iov_max_len"
proof -
  have "0 < sint count" "sint count \<le> 1024"
    using assms by (auto simp: lock_iovec_def run_simps IOV_MAX_def split: if_splits)
  then have "0 < uint count \<and> uint count \<le> 1024"
    using uint_u32_less [of count] by (auto simp: sint_u32 split: if_splits)
  then have "0 < nat (uint count) \<and> nat (uint count) \<le> 1024" by linarith
  then have c: "0 < unat count \<and> unat count \<le> 1024" by simp
  obtain p and t :: "'w sl_state" where "result_of (iov_loop (unat count) p True False 0) t = Inr vs"
    using assms
    by (auto simp: lock_iovec_def run_bind simp del: run_state_bind split: if_splits sum.splits)
  then show ?thesis using iov_loop_bound [of "unat count" p True False 0 t vs] c by simp
qed

theorem lock_iovec_bounds_witness:
  "length (the (result_of (lock_iovec demo_os 0x1000 1) demo_state)) = 1"
proof -
  have "\<exists>vs. result_of (lock_iovec demo_os 0x1000 1) demo_state = Some vs"
    by (simp add: lock_iovec_def run_simps IOV_MAX_def demo_os_def demo_answer_def
        after_host_def g2h_at_def iov_element_def demo_state_def ldl_be_p_def ldl_he_p_def
        mem_read_def word32_def bytes32_def bswap32_def bswap_32_def tswapal_def tswap32_def)
  then show ?thesis using lock_iovec_bounds by fastforce
qed

text \<open>A count that is negative or above 1024 is refused with \<open>EINVAL\<close> before anything is
  read or any host function is called.\<close>

theorem lock_iovec_refuses:
  assumes "sint count < 0 \<or> 1024 < sint count"
  shows "run_state (lock_iovec os x count) s = (None, s\<lparr>errno := EINVAL\<rparr>)"
  using assms by (auto simp: lock_iovec_def run_simps IOV_MAX_def)

theorem lock_iovec_refuses_witness:
  "run_state (lock_iovec demo_os 0x1000 1025) demo_state = (None, demo_state\<lparr>errno := EINVAL\<rparr>)"
  by (rule lock_iovec_refuses) simp

section \<open>Status structures\<close>

text \<open>C30: \<open>struct target_stat\<close> as the guest reads it, after a call that the host did not refuse and
  for an address that is not null: each field of the host's structure is found big-endian at the
  offset of the SPARC layout, cut to the width of the field; the result is the host's, and
  nothing outside the 64 bytes changes.\<close>

theorem stat_layout:
  assumes "g2h_at (guest_base s) x \<noteq> 0" and "\<not> is_error r"
  shows "let p = g2h_at (guest_base s) x; m = hmem (state_after (do_stat x r st) s) in
    result_of (do_stat x r st) s = r \<and>
    (lduw_be_p m p = ucast (ucast (st_dev st) :: u16) \<and> ldl_be_p m (p + 4) = ucast (st_ino st) \<and>
     lduw_be_p m (p + 8) = ucast (ucast (st_mode st) :: u16) \<and>
     lduw_be_p m (p + 10) = ucast (ucast (st_nlink st) :: u16) \<and>
     lduw_be_p m (p + 12) = ucast (ucast (st_uid st) :: u16) \<and>
     lduw_be_p m (p + 14) = ucast (ucast (st_gid st) :: u16) \<and>
     lduw_be_p m (p + 16) = ucast (ucast (st_rdev st) :: u16) \<and>
     ldl_be_p m (p + 20) = ucast (st_size st) \<and> ldl_be_p m (p + 24) = ucast (st_atime st) \<and>
     ldl_be_p m (p + 32) = ucast (st_mtime st) \<and> ldl_be_p m (p + 40) = ucast (st_ctime st) \<and>
     ldl_be_p m (p + 48) = ucast (st_blksize st) \<and> ldl_be_p m (p + 52) = ucast (st_blocks st)) \<and>
    (\<forall>a. in_range a p 64 \<or> m a = hmem s a)"
  using assms cleared_outside [OF fields_ok_stat(1)]
  by (auto simp: run_do_stat Let_def stat_reads)

theorem stat_layout_witness:
  "ldl_be_p (hmem (state_after (do_stat 0x1000 0 demo_stat) demo_state)) (0x700000001000 + 52) = 16"
  using stat_layout [of demo_state "0x1000" 0 demo_stat]
  by (simp add: Let_def g2h_at_def demo_stat_def)

text \<open>\<open>struct target_stat64\<close> the same way, over its 104 bytes: the inode and the size
  keep all 64 bits.\<close>

theorem stat64_layout:
  assumes "g2h_at (guest_base s) x \<noteq> 0"
  shows "let p = g2h_at (guest_base s) x; m = hmem (state_after (host_to_target_stat64 x st) s) in
    result_of (host_to_target_stat64 x st) s = 0 \<and>
    (lduw_be_p m (p + 6) = ucast (ucast (st_dev st) :: u16) \<and> ldq_be_p m (p + 8) = st_ino st \<and>
     ldl_be_p m (p + 16) = ucast (st_mode st) \<and> ldl_be_p m (p + 20) = ucast (st_nlink st) \<and>
     ldl_be_p m (p + 24) = ucast (st_uid st) \<and> ldl_be_p m (p + 28) = ucast (st_gid st) \<and>
     lduw_be_p m (p + 38) = ucast (ucast (st_rdev st) :: u16) \<and>
     ldq_be_p m (p + 48) = st_size st \<and> ldl_be_p m (p + 56) = ucast (st_blksize st) \<and>
     ldl_be_p m (p + 68) = ucast (st_blocks st) \<and> ldl_be_p m (p + 72) = ucast (st_atime st) \<and>
     ldl_be_p m (p + 80) = ucast (st_mtime st) \<and> ldl_be_p m (p + 88) = ucast (st_ctime st)) \<and>
    (\<forall>a. in_range a p 104 \<or> m a = hmem s a)"
  using assms cleared_outside [OF fields_ok_stat(2)]
  by (auto simp: run_host_to_target_stat64 Let_def stat64_reads)

theorem stat64_layout_witness:
  "ldq_be_p (hmem (state_after (host_to_target_stat64 0x1000 demo_stat) demo_state)) (0x700000001000 + 48) =
    5000000000"
  using stat64_layout [of demo_state "0x1000" demo_stat]
  by (simp add: Let_def g2h_at_def demo_stat_def)

section \<open>Directory entries\<close>

text \<open>C31: \<open>getdents64\<close> over a buffer of well-formed host records: the loop ends, every
  record keeps its length and has its header fields byte-swapped in place (\<open>d_ino\<close> and
  \<open>d_off\<close> over 8 bytes, \<open>d_reclen\<close> over 2, name and type as they are), and no byte outside
  the buffer changes.\<close>

theorem getdents64_converts:
  assumes "list_all wf_entry es" and "length (concat es) < 2 ^ 31"
    and "mem_read m p (length (concat es)) = concat es"
  shows "\<exists>m'. getdents64_loop m p (int (length (concat es))) = Some m' \<and>
    mem_read m' p (length (concat es)) = concat (map (permute entry64_index) es) \<and>
    (\<forall>a. in_range a p (length (concat es)) \<or> m' a = m a)"
  using dirents64.walk [OF assms] by auto

definition demo_entry :: "u8 list" where
  "demo_entry = [42, 0, 0, 0, 0, 0, 0, 0, 1, 0, 0, 0, 0, 0, 0, 0, 24, 0, 8, 46, 0, 0, 0, 0]"

lemma demo_entry_wf: "wf_entry demo_entry" "length demo_entry = 24"
  by (simp_all add: wf_entry_def demo_entry_def word16_def)

lemma demo_entry_read:
  "mem_read (mem_write (\<lambda>a. 0) 0x5000 demo_entry) 0x5000 24 = demo_entry"
  by (rule mem_read_write_same) (simp_all add: demo_entry_wf)

theorem getdents64_converts_witness:
  "\<exists>m'. getdents64_loop (mem_write (\<lambda>a. 0) 0x5000 demo_entry) 0x5000 24 = Some m' \<and>
    mem_read m' 0x5000 24 =
      [0, 0, 0, 0, 0, 0, 0, 42, 0, 0, 0, 0, 0, 0, 0, 1, 0, 24, 8, 46, 0, 0, 0, 0]"
proof -
  have "permute entry64_index demo_entry =
      [0, 0, 0, 0, 0, 0, 0, 42, 0, 0, 0, 0, 0, 0, 0, 1, 0, 24, 8, 46, 0, 0, 0, 0]"
    by (simp add: permute_def demo_entry_def entry64_index_def upt_rec)
  then show ?thesis
    using getdents64_converts [of "[demo_entry]" "mem_write (\<lambda>a. 0) 0x5000 demo_entry" "0x5000"]
    by (auto simp: demo_entry_wf demo_entry_read)
qed

text \<open>\<open>getdents\<close> swaps only the first four bytes of the host's eight-byte \<open>d_ino\<close> and
  \<open>d_off\<close> and keeps the host's layout: over well-formed records the loop ends and permutes
  the bytes by \<open>entry_index\<close>, so \<open>d_reclen\<close> stays at offset 16, where \<open>struct
  target_dirent\<close> of the guest has part of the name.\<close>

theorem getdents_keeps_host_layout:
  assumes "list_all wf_entry es" and "length (concat es) < 2 ^ 31"
    and "mem_read m p (length (concat es)) = concat es"
  shows "\<exists>m'. getdents_loop m p (int (length (concat es))) = Some m' \<and>
    mem_read m' p (length (concat es)) = concat (map (permute entry_index) es) \<and>
    (\<forall>a. in_range a p (length (concat es)) \<or> m' a = m a)"
  using dirents.walk [OF assms] by auto

theorem getdents_keeps_host_layout_witness:
  "\<exists>m'. getdents_loop (mem_write (\<lambda>a. 0) 0x5000 demo_entry) 0x5000 24 = Some m' \<and>
    mem_read m' 0x5000 24 =
      [0, 0, 0, 42, 0, 0, 0, 0, 0, 0, 0, 1, 0, 0, 0, 0, 0, 24, 8, 46, 0, 0, 0, 0]"
proof -
  have "permute entry_index demo_entry =
      [0, 0, 0, 42, 0, 0, 0, 0, 0, 0, 0, 1, 0, 0, 0, 0, 0, 24, 8, 46, 0, 0, 0, 0]"
    by (simp add: permute_def demo_entry_def entry_index_def upt_rec)
  then show ?thesis
    using getdents_keeps_host_layout [of "[demo_entry]" "mem_write (\<lambda>a. 0) 0x5000 demo_entry" "0x5000"]
    by (auto simp: demo_entry_wf demo_entry_read)
qed

text \<open>C40: A record of length 0 makes the loop of \<open>getdents\<close> run forever: it swaps the same
  header again and again.\<close>

theorem getdents_zero_reclen_hangs:
  assumes "entry_reclen m de = 0" and "0 < len"
  shows "getdents_loop m de len = None"
  using assms by (rule loop_stuck)

theorem getdents_zero_reclen_hangs_witness: "getdents_loop (\<lambda>a. 0) 0x5000 24 = None"
  by (rule getdents_zero_reclen_hangs)
     (simp_all add: entry_reclen_def lduw_he_p_def mem_read_def word16_def)

end
