(* ===== verification/Sys_Fd.thy ===== *)
theory Sys_Fd
  imports Select Iovec Dirent
begin

unbundle bit_operations_syntax

text \<open>
  The cases of \<open>do_syscall\<close> on open descriptors: reading and writing, positions, scatter and
  gather, \<open>select\<close>, and the calls that hand a descriptor to the host as it is.
\<close>

section \<open>Reading and writing\<close>

definition sys_read :: "'w handler" where
  "sys_read os a =
    (if arg3 a = 0 then return 0
     else do {
       p \<leftarrow> lock_user (arg2 a);
       if p = 0 then return efault
       else do {
         r \<leftarrow> host_int (os_fd os F_read [HInt (c_int (arg1 a)), HPtr p, HInt (c_size (arg3 a))]);
         ret \<leftarrow> get_errno r;
         unlock_user p (arg2 a);
         return ret
       }
     })"

definition sys_write :: "'w handler" where
  "sys_write os a = do {
     p \<leftarrow> lock_user (arg2 a);
     if p = 0 then return efault
     else do {
       r \<leftarrow> host_int (os_fd os F_write [HInt (c_int (arg1 a)), HPtr p, HInt (c_size (arg3 a))]);
       ret \<leftarrow> get_errno r;
       unlock_user p (arg2 a);
       return ret
     }
   }"

definition sys_readv :: "'w handler" where
  "sys_readv os a = do {
     vec \<leftarrow> lock_iovec os (arg2 a) (arg3 a);
     case vec of
       Some v \<Rightarrow> do {
         r \<leftarrow> host_int (os_fd os F_readv [HInt (c_int (arg1 a)), HIov v, HInt (c_int (arg3 a))]);
         ret \<leftarrow> get_errno r;
         unlock_iovec v (arg2 a) (arg3 a);
         return ret
       }
     | None \<Rightarrow> do {
         e \<leftarrow> gets errno;
         t \<leftarrow> host_to_target_errno e;
         return (to_abi (- t))
       }
   }"

definition sys_writev :: "'w handler" where
  "sys_writev os a = do {
     vec \<leftarrow> lock_iovec os (arg2 a) (arg3 a);
     case vec of
       Some v \<Rightarrow> do {
         r \<leftarrow> host_int (os_fd os F_writev [HInt (c_int (arg1 a)), HIov v, HInt (c_int (arg3 a))]);
         ret \<leftarrow> get_errno r;
         unlock_iovec v (arg2 a) (arg3 a);
         return ret
       }
     | None \<Rightarrow> do {
         e \<leftarrow> gets errno;
         t \<leftarrow> host_to_target_errno e;
         return (to_abi (- t))
       }
   }"

section \<open>Positions\<close>

definition sys_lseek :: "'w handler" where
  "sys_lseek os a = plain_call (os_fd os F_lseek
     [HInt (c_int (arg1 a)), HInt (c_int (arg2 a)), HInt (c_int (arg3 a))])"

text \<open>
  \<open>((uint64_t)arg2 << 32) | arg3\<close>: both operands are \<open>abi_long\<close>s, so both are sign-extended
  to 64 bits; for \<open>arg2\<close> the shift drops the extension, for \<open>arg3\<close> nothing does.
\<close>

definition llseek_offset :: "u32 \<Rightarrow> u32 \<Rightarrow> u64" where
  "llseek_offset high low = push_bit 32 (scast high) OR scast low"

definition sys_llseek :: "'w handler" where
  "sys_llseek os a = do {
     res \<leftarrow> host_int (os_fd os F_lseek [HInt (c_int (arg1 a)),
        HInt (sint (llseek_offset (arg2 a) (arg3 a))), HInt (c_int (arg5 a))]);
     ret \<leftarrow> (if res = -1 then get_errno res else return 0);
     if ret = 0 then do {
       e \<leftarrow> put_user64 (word_of_int res) (arg4 a);
       if e \<noteq> 0 then return efault else return ret
     } else return ret
   }"

definition sys_ftruncate :: "'w handler" where
  "sys_ftruncate os a = plain_call (os_fd os F_ftruncate
     [HInt (c_int (arg1 a)), HInt (c_int (arg2 a))])"

section \<open>Descriptors\<close>

definition sys_close :: "'w handler" where
  "sys_close os a = plain_call (os_fd os F_close [HInt (c_int (arg1 a))])"

definition sys_dup :: "'w handler" where
  "sys_dup os a = plain_call (os_fd os F_dup [HInt (c_int (arg1 a))])"

definition sys_dup2 :: "'w handler" where
  "sys_dup2 os a = plain_call (os_fd os F_dup2 [HInt (c_int (arg1 a)), HInt (c_int (arg2 a))])"

definition sys_sync :: "'w handler" where
  "sys_sync os a = do { _ \<leftarrow> host_int (os_fd os F_sync []); return 0 }"

definition sys_fsync :: "'w handler" where
  "sys_fsync os a = plain_call (os_fd os F_fsync [HInt (c_int (arg1 a))])"

definition sys_fdatasync :: "'w handler" where
  "sys_fdatasync os a = plain_call (os_fd os F_fdatasync [HInt (c_int (arg1 a))])"

definition sys_fchmod :: "'w handler" where
  "sys_fchmod os a = plain_call (os_fd os F_fchmod
     [HInt (c_int (arg1 a)), HInt (c_uint (arg2 a))])"

definition sys_fchown :: "'w handler" where
  "sys_fchown os a = plain_call (os_fd os F_fchown [HInt (c_int (arg1 a)),
     HInt (c_uint (low2highuid (arg2 a))), HInt (c_uint (low2highgid (arg3 a)))])"

definition sys_fchown32 :: "'w handler" where
  "sys_fchown32 os a = plain_call (os_fd os F_fchown
     [HInt (c_int (arg1 a)), HInt (c_uint (arg2 a)), HInt (c_uint (arg3 a))])"

definition sys_fchdir :: "'w handler" where
  "sys_fchdir os a = plain_call (os_fd os F_fchdir [HInt (c_int (arg1 a))])"

definition sys_flock :: "'w handler" where
  "sys_flock os a = plain_call (os_fd os F_flock [HInt (c_int (arg1 a)), HInt (c_int (arg2 a))])"

definition sys_tee :: "'w handler" where
  "sys_tee os a = plain_call (os_fd os F_tee [HInt (c_int (arg1 a)), HInt (c_int (arg2 a)),
     HInt (c_size (arg3 a)), HInt (c_uint (arg4 a))])"

definition sys_getcwd :: "'w handler" where
  "sys_getcwd os a = do {
     p \<leftarrow> lock_user (arg1 a);
     if p = 0 then return efault
     else do {
       r \<leftarrow> host_int (os_fd os F_getcwd [HPtr p, HInt (c_int (arg2 a))]);
       ret \<leftarrow> get_errno r;
       unlock_user p (arg1 a);
       return ret
     }
   }"

text \<open>The offset is read and written as an \<open>abi_long\<close>.\<close>

definition sys_sendfile :: "'w handler" where
  "sys_sendfile os a = do {
     (offp, e) \<leftarrow> (if arg3 a \<noteq> 0 then do {
                     (off, e) \<leftarrow> get_user32 (arg3 a);
                     return (HVec [c_int off], e)
                   } else return (HNull, 0));
     if is_error e then return e
     else do {
       (r, off) \<leftarrow> host_run (os_sendfile os
          [HInt (c_int (arg1 a)), HInt (c_int (arg2 a)), offp, HInt (c_size (arg4 a))]);
       ret \<leftarrow> get_errno r;
       if \<not> is_error ret \<and> arg3 a \<noteq> 0 then do {
         ret2 \<leftarrow> put_user32 (ucast off) (arg3 a);
         return (if is_error ret2 then ret2 else ret)
       } else return ret
     }
   }"

section \<open>select\<close>

text \<open>\<open>struct target_sel_arg_struct\<close>: n 0, inp 4, outp 8, exp 12, tvp 16.\<close>

definition sys_select :: "'w handler" where
  "sys_select os a = do {
     sel \<leftarrow> lock_user (arg1 a);
     if sel = 0 then return efault
     else do {
       nsel \<leftarrow> load_tswapal sel;
       inp \<leftarrow> load_tswapal (sel + 4);
       outp \<leftarrow> load_tswapal (sel + 8);
       exp \<leftarrow> load_tswapal (sel + 12);
       tvp \<leftarrow> load_tswapal (sel + 16);
       unlock_user sel (arg1 a);
       do_select os (c_int nsel) inp outp exp tvp
     }
   }"

definition sys_newselect :: "'w handler" where
  "sys_newselect os a = do_select os (c_int (arg1 a)) (arg2 a) (arg3 a) (arg4 a) (arg5 a)"

section \<open>Frames\<close>

lemmas fd_defs =
  sys_read_def sys_write_def sys_readv_def sys_writev_def sys_lseek_def sys_llseek_def
  sys_ftruncate_def sys_close_def sys_dup_def sys_dup2_def sys_sync_def sys_fsync_def
  sys_fdatasync_def sys_fchmod_def sys_fchown_def sys_fchown32_def sys_fchdir_def sys_flock_def
  sys_tee_def sys_getcwd_def sys_sendfile_def sys_select_def sys_newselect_def

lemma framed_fd [frame_intros]:
  "framed (sys_read os a)" "framed (sys_write os a)" "framed (sys_readv os a)"
  "framed (sys_writev os a)" "framed (sys_lseek os a)" "framed (sys_llseek os a)"
  "framed (sys_ftruncate os a)" "framed (sys_close os a)" "framed (sys_dup os a)"
  "framed (sys_dup2 os a)" "framed (sys_sync os a)" "framed (sys_fsync os a)"
  "framed (sys_fdatasync os a)" "framed (sys_fchmod os a)" "framed (sys_fchown os a)"
  "framed (sys_fchown32 os a)" "framed (sys_fchdir os a)" "framed (sys_flock os a)"
  "framed (sys_tee os a)" "framed (sys_getcwd os a)" "framed (sys_sendfile os a)"
  "framed (sys_select os a)" "framed (sys_newselect os a)"
  unfolding fd_defs by (intro frame_intros)+

section \<open>The 64-bit offset\<close>

lemma llseek_offset_small:
  assumes "0 \<le> sint low"
  shows "llseek_offset high low = push_bit 32 (ucast high) OR ucast low"
proof -
  have "push_bit 32 (scast high :: u64) = push_bit 32 (ucast high)"
    by (rule bit_word_eqI) (auto simp: bit_simps)
  then show ?thesis
    using scast_nonneg [OF assms] by (simp add: llseek_offset_def)
qed

lemma llseek_offset_high_lost:
  assumes "sint low < 0"
  shows "llseek_offset high low = scast low"
proof (rule bit_word_eqI)
  fix n assume n: "n < LENGTH(64)"
  have "bit low 31"
    using assms bit_last_iff [of low] by simp
  then show "bit (llseek_offset high low) n = bit (scast low :: u64) n"
    using n by (auto simp: llseek_offset_def bit_simps)
qed

end
