(* ===== verification/Sys_Path.thy ===== *)
theory Sys_Path
  imports Stat
begin

text \<open>
  The cases of \<open>do_syscall\<close> that name a file by a path.  Each definition is one case; the
  argument list of the host function gives every argument as the C prototype reads it: an
  \<open>int\<close> or \<open>off_t\<close> signed (\<open>c_int\<close>), a \<open>mode_t\<close>, \<open>uid_t\<close> or \<open>gid_t\<close> unsigned (\<open>c_uint\<close>), a
  \<open>size_t\<close>, \<open>dev_t\<close> or \<open>unsigned long\<close> sign-extended to 64 bits (\<open>c_size\<close>).  The macro
  \<open>target_to_host_bitmask\<close> is the identity, so flags reach the host as the guest wrote them.
\<close>

section \<open>Opening, linking, creating\<close>

definition sys_open :: "'w handler" where
  "sys_open os a = path_call (arg1 a)
     (\<lambda>p. os_path os P_open [HPtr p, HInt (c_int (arg2 a)), HInt (c_int (arg3 a))])"

definition sys_creat :: "'w handler" where
  "sys_creat os a = path_call (arg1 a) (\<lambda>p. os_path os P_creat [HPtr p, HInt (c_uint (arg2 a))])"

definition sys_link :: "'w handler" where
  "sys_link os a = path_call2 (arg1 a) (arg2 a) (\<lambda>p p2. os_path os P_link [HPtr p, HPtr p2])"

definition sys_linkat :: "'w handler" where
  "sys_linkat os a =
    (if arg2 a = 0 \<or> arg4 a = 0 then return efault
     else path_call2 (arg2 a) (arg4 a) (\<lambda>p p2. os_path os P_linkat
       [HInt (c_int (arg1 a)), HPtr p, HInt (c_int (arg3 a)), HPtr p2, HInt (c_int (arg5 a))]))"

definition sys_unlink :: "'w handler" where
  "sys_unlink os a = path_call (arg1 a) (\<lambda>p. os_path os P_unlink [HPtr p])"

definition sys_unlinkat :: "'w handler" where
  "sys_unlinkat os a = path_call (arg2 a)
     (\<lambda>p. os_path os P_unlinkat [HInt (c_int (arg1 a)), HPtr p, HInt (c_int (arg3 a))])"

definition sys_chdir :: "'w handler" where
  "sys_chdir os a = path_call (arg1 a) (\<lambda>p. os_path os P_chdir [HPtr p])"

definition sys_mknod :: "'w handler" where
  "sys_mknod os a = path_call (arg1 a)
     (\<lambda>p. os_path os P_mknod [HPtr p, HInt (c_uint (arg2 a)), HInt (c_size (arg3 a))])"

definition sys_mknodat :: "'w handler" where
  "sys_mknodat os a = path_call (arg2 a) (\<lambda>p. os_path os P_mknodat
     [HInt (c_int (arg1 a)), HPtr p, HInt (c_uint (arg3 a)), HInt (c_size (arg4 a))])"

definition sys_chmod :: "'w handler" where
  "sys_chmod os a = path_call (arg1 a) (\<lambda>p. os_path os P_chmod [HPtr p, HInt (c_uint (arg2 a))])"

definition sys_fchmodat :: "'w handler" where
  "sys_fchmodat os a = path_call (arg2 a) (\<lambda>p. os_path os P_fchmodat
     [HInt (c_int (arg1 a)), HPtr p, HInt (c_uint (arg3 a)), HInt 0])"

definition sys_access :: "'w handler" where
  "sys_access os a = path_call (arg1 a) (\<lambda>p. os_path os P_access [HPtr p, HInt (c_int (arg2 a))])"

definition sys_faccessat :: "'w handler" where
  "sys_faccessat os a = path_call (arg2 a) (\<lambda>p. os_path os P_faccessat
     [HInt (c_int (arg1 a)), HPtr p, HInt (c_int (arg3 a)), HInt 0])"

definition sys_rename :: "'w handler" where
  "sys_rename os a = path_call2 (arg1 a) (arg2 a) (\<lambda>p p2. os_path os P_rename [HPtr p, HPtr p2])"

definition sys_renameat :: "'w handler" where
  "sys_renameat os a = path_call2 (arg2 a) (arg4 a) (\<lambda>p p2. os_path os P_renameat
     [HInt (c_int (arg1 a)), HPtr p, HInt (c_int (arg3 a)), HPtr p2])"

definition sys_mkdir :: "'w handler" where
  "sys_mkdir os a = path_call (arg1 a) (\<lambda>p. os_path os P_mkdir [HPtr p, HInt (c_uint (arg2 a))])"

definition sys_mkdirat :: "'w handler" where
  "sys_mkdirat os a = path_call (arg2 a) (\<lambda>p. os_path os P_mkdirat
     [HInt (c_int (arg1 a)), HPtr p, HInt (c_uint (arg3 a))])"

definition sys_rmdir :: "'w handler" where
  "sys_rmdir os a = path_call (arg1 a) (\<lambda>p. os_path os P_rmdir [HPtr p])"

definition sys_symlink :: "'w handler" where
  "sys_symlink os a = path_call2 (arg1 a) (arg2 a) (\<lambda>p p2. os_path os P_symlink [HPtr p, HPtr p2])"

definition sys_symlinkat :: "'w handler" where
  "sys_symlinkat os a = path_call2 (arg1 a) (arg3 a) (\<lambda>p p2. os_path os P_symlinkat
     [HPtr p, HInt (c_int (arg2 a)), HPtr p2])"

definition sys_chroot :: "'w handler" where
  "sys_chroot os a = path_call (arg1 a) (\<lambda>p. os_path os P_chroot [HPtr p])"

definition sys_truncate :: "'w handler" where
  "sys_truncate os a = path_call (arg1 a)
     (\<lambda>p. os_path os P_truncate [HPtr p, HInt (c_int (arg2 a))])"

section \<open>Owners\<close>

definition sys_lchown :: "'w handler" where
  "sys_lchown os a = path_call (arg1 a) (\<lambda>p. os_path os P_lchown
     [HPtr p, HInt (c_uint (low2highuid (arg2 a))), HInt (c_uint (low2highgid (arg3 a)))])"

definition sys_chown :: "'w handler" where
  "sys_chown os a = path_call (arg1 a) (\<lambda>p. os_path os P_chown
     [HPtr p, HInt (c_uint (low2highuid (arg2 a))), HInt (c_uint (low2highgid (arg3 a)))])"

definition sys_fchownat :: "'w handler" where
  "sys_fchownat os a = path_call (arg2 a) (\<lambda>p. os_path os P_fchownat
     [HInt (c_int (arg1 a)), HPtr p, HInt (c_uint (low2highuid (arg3 a))),
      HInt (c_uint (low2highgid (arg4 a))), HInt (c_int (arg5 a))])"

definition sys_lchown32 :: "'w handler" where
  "sys_lchown32 os a = path_call (arg1 a) (\<lambda>p. os_path os P_lchown
     [HPtr p, HInt (c_uint (arg2 a)), HInt (c_uint (arg3 a))])"

definition sys_chown32 :: "'w handler" where
  "sys_chown32 os a = path_call (arg1 a) (\<lambda>p. os_path os P_chown
     [HPtr p, HInt (c_uint (arg2 a)), HInt (c_uint (arg3 a))])"

section \<open>Times of a file\<close>

text \<open>\<open>struct target_utimbuf\<close>: actime 0, modtime 4; \<open>tswapal\<close> makes them unsigned.\<close>

definition sys_utime :: "'w handler" where
  "sys_utime os a = do {
     host_tbuf \<leftarrow> (if arg2 a \<noteq> 0 then do {
         target_tbuf \<leftarrow> lock_user (arg2 a);
         if target_tbuf = 0 then return None
         else do {
           actime \<leftarrow> load_tswapal target_tbuf;
           modtime \<leftarrow> load_tswapal (target_tbuf + 4);
           unlock_user target_tbuf (arg2 a);
           return (Some (HVec [uint actime, uint modtime]))
         }
       } else return (Some HNull));
     case host_tbuf of
       None \<Rightarrow> return efault
     | Some tbuf \<Rightarrow> path_call (arg1 a) (\<lambda>p. os_path os P_utime [HPtr p, tbuf])
   }"

text \<open>
  \<open>copy_from_user_timeval(&tv[0], x) || copy_from_user_timeval(&tv[1], x + 8)\<close>, guarded by
  \<open>if (x)\<close>: the pair as a host argument, or \<open>None\<close> for a fault.
\<close>

definition timeval_pair :: "u32 \<Rightarrow> ('w, harg option) sl" where
  "timeval_pair x =
    (if x \<noteq> 0 then do {
       (tv0, e0) \<leftarrow> copy_from_user_timeval x;
       if e0 \<noteq> 0 then return None
       else do {
         (tv1, e1) \<leftarrow> copy_from_user_timeval (x + 8);
         if e1 \<noteq> 0 then return None
         else return (Some (HVec [sint (tv_sec tv0), sint (tv_usec tv0),
                                  sint (tv_sec tv1), sint (tv_usec tv1)]))
       }
     } else return (Some HNull))"

definition sys_utimes :: "'w handler" where
  "sys_utimes os a = do {
     tvp \<leftarrow> timeval_pair (arg2 a);
     case tvp of
       None \<Rightarrow> return efault
     | Some tv \<Rightarrow> path_call (arg1 a) (\<lambda>p. os_path os P_utimes [HPtr p, tv])
   }"

definition sys_futimesat :: "'w handler" where
  "sys_futimesat os a = do {
     tvp \<leftarrow> timeval_pair (arg3 a);
     case tvp of
       None \<Rightarrow> return efault
     | Some tv \<Rightarrow> path_call (arg2 a) (\<lambda>p. os_path os P_futimesat [HInt (c_int (arg1 a)), HPtr p, tv])
   }"

section \<open>Status\<close>

definition stat_path :: "'w host_os \<Rightarrow> stat_fn \<Rightarrow> u32 \<Rightarrow> (u32 \<Rightarrow> host_stat \<Rightarrow> ('w, u32) sl) \<Rightarrow> ('w, u32) sl"
  where
  "stat_path os f x k = do {
     p \<leftarrow> lock_user_string x;
     if p = 0 then return efault
     else do {
       (r, st) \<leftarrow> host_run (os_stat os f [HPtr p]);
       ret \<leftarrow> get_errno r;
       unlock_user p x;
       k ret st
     }
   }"

definition sys_stat :: "'w handler" where
  "sys_stat os a = stat_path os S_stat (arg1 a) (do_stat (arg2 a))"

definition sys_lstat :: "'w handler" where
  "sys_lstat os a = stat_path os S_lstat (arg1 a) (do_stat (arg2 a))"

definition sys_fstat :: "'w handler" where
  "sys_fstat os a = do {
     (r, st) \<leftarrow> host_run (os_stat os S_fstat [HInt (c_int (arg1 a))]);
     ret \<leftarrow> get_errno r;
     do_stat (arg2 a) ret st
   }"

text \<open>\<open>if (!is_error(ret)) ret = host_to_target_stat64(x, &st);\<close>\<close>

definition finish_stat64 :: "u32 \<Rightarrow> u32 \<Rightarrow> host_stat \<Rightarrow> ('w, u32) sl" where
  "finish_stat64 x ret st = (if \<not> is_error ret then host_to_target_stat64 x st else return ret)"

definition sys_stat64 :: "'w handler" where
  "sys_stat64 os a = stat_path os S_stat (arg1 a) (finish_stat64 (arg2 a))"

definition sys_lstat64 :: "'w handler" where
  "sys_lstat64 os a = stat_path os S_lstat (arg1 a) (finish_stat64 (arg2 a))"

definition sys_fstat64 :: "'w handler" where
  "sys_fstat64 os a = do {
     (r, st) \<leftarrow> host_run (os_stat os S_fstat [HInt (c_int (arg1 a))]);
     ret \<leftarrow> get_errno r;
     finish_stat64 (arg2 a) ret st
   }"

definition sys_fstatat64 :: "'w handler" where
  "sys_fstatat64 os a = do {
     p \<leftarrow> lock_user_string (arg2 a);
     if p = 0 then return efault
     else do {
       (r, st) \<leftarrow> host_run (os_stat os S_fstatat
          [HInt (c_int (arg1 a)), HPtr p, HInt (c_int (arg4 a))]);
       ret \<leftarrow> get_errno r;
       finish_stat64 (arg3 a) ret st
     }
   }"

definition statfs_path :: "'w host_os \<Rightarrow> u32 \<Rightarrow> (u32 \<Rightarrow> host_statfs \<Rightarrow> ('w, u32) sl) \<Rightarrow> ('w, u32) sl"
  where
  "statfs_path os x k = do {
     p \<leftarrow> lock_user_string x;
     if p = 0 then return efault
     else do {
       (r, stfs) \<leftarrow> host_run (os_statfs os S_statfs [HPtr p]);
       ret \<leftarrow> get_errno r;
       unlock_user p x;
       k ret stfs
     }
   }"

definition sys_statfs :: "'w handler" where
  "sys_statfs os a = statfs_path os (arg1 a) (convert_statfs (arg2 a))"

definition sys_fstatfs :: "'w handler" where
  "sys_fstatfs os a = do {
     (r, stfs) \<leftarrow> host_run (os_statfs os S_fstatfs [HInt (c_int (arg1 a))]);
     ret \<leftarrow> get_errno r;
     convert_statfs (arg2 a) ret stfs
   }"

definition sys_statfs64 :: "'w handler" where
  "sys_statfs64 os a = statfs_path os (arg1 a) (convert_statfs64 (arg3 a))"

definition sys_fstatfs64 :: "'w handler" where
  "sys_fstatfs64 os a = do {
     (r, stfs) \<leftarrow> host_run (os_statfs os S_fstatfs [HInt (c_int (arg1 a))]);
     ret \<leftarrow> get_errno r;
     convert_statfs64 (arg3 a) ret stfs
   }"

section \<open>Frames\<close>

lemma framed_timeval_pair [frame_intros]: "framed (timeval_pair x)"
  unfolding timeval_pair_def by (intro frame_intros)

lemma framed_stat_path [frame_intros]:
  assumes "\<And>r st. framed (k r st)"
  shows "framed (stat_path os f x k)"
  unfolding stat_path_def by (intro frame_intros assms)

lemma framed_statfs_path [frame_intros]:
  assumes "\<And>r st. framed (k r st)"
  shows "framed (statfs_path os x k)"
  unfolding statfs_path_def by (intro frame_intros assms)

lemma framed_finish_stat64 [frame_intros]: "framed (finish_stat64 x r st)"
  unfolding finish_stat64_def by (intro frame_intros)

lemmas path_defs =
  sys_open_def sys_creat_def sys_link_def sys_linkat_def sys_unlink_def sys_unlinkat_def
  sys_chdir_def sys_mknod_def sys_mknodat_def sys_chmod_def sys_fchmodat_def sys_access_def
  sys_faccessat_def sys_rename_def sys_renameat_def sys_mkdir_def sys_mkdirat_def sys_rmdir_def
  sys_symlink_def sys_symlinkat_def sys_chroot_def sys_truncate_def sys_lchown_def sys_chown_def
  sys_fchownat_def sys_lchown32_def sys_chown32_def sys_utime_def sys_utimes_def
  sys_futimesat_def sys_stat_def sys_lstat_def sys_fstat_def sys_stat64_def sys_lstat64_def
  sys_fstat64_def sys_fstatat64_def sys_statfs_def sys_fstatfs_def sys_statfs64_def
  sys_fstatfs64_def

lemma framed_path [frame_intros]:
  "framed (sys_open os a)" "framed (sys_creat os a)" "framed (sys_link os a)"
  "framed (sys_linkat os a)" "framed (sys_unlink os a)" "framed (sys_unlinkat os a)"
  "framed (sys_chdir os a)" "framed (sys_mknod os a)" "framed (sys_mknodat os a)"
  "framed (sys_chmod os a)" "framed (sys_fchmodat os a)" "framed (sys_access os a)"
  "framed (sys_faccessat os a)" "framed (sys_rename os a)" "framed (sys_renameat os a)"
  "framed (sys_mkdir os a)" "framed (sys_mkdirat os a)" "framed (sys_rmdir os a)"
  "framed (sys_symlink os a)" "framed (sys_symlinkat os a)" "framed (sys_chroot os a)"
  "framed (sys_truncate os a)" "framed (sys_lchown os a)" "framed (sys_chown os a)"
  "framed (sys_fchownat os a)" "framed (sys_lchown32 os a)" "framed (sys_chown32 os a)"
  "framed (sys_utime os a)" "framed (sys_utimes os a)" "framed (sys_futimesat os a)"
  "framed (sys_stat os a)" "framed (sys_lstat os a)" "framed (sys_fstat os a)"
  "framed (sys_stat64 os a)" "framed (sys_lstat64 os a)" "framed (sys_fstat64 os a)"
  "framed (sys_fstatat64 os a)" "framed (sys_statfs os a)" "framed (sys_fstatfs os a)"
  "framed (sys_statfs64 os a)" "framed (sys_fstatfs64 os a)"
  unfolding path_defs by (intro frame_intros)+

end
