(* ===== verification/Sys_Proc.thy ===== *)
theory Sys_Proc
  imports Sys_Path AddrSpace
begin

unbundle bit_operations_syntax

text \<open>
  The remaining cases of \<open>do_syscall\<close>: memory, processes and scheduling, user and group ids,
  times, limits and the state of the host.
\<close>

section \<open>The exit flag\<close>

text \<open>\<open>ret\<close> is not assigned: what is returned is left to the compiler.\<close>

definition sys_exit :: "'w handler" where
  "sys_exit os a = do { modify (\<lambda>s. s\<lparr>target_exit_called := 1\<rparr>); return (indet_ret os) }"

definition sys_exit_group :: "'w handler" where
  "sys_exit_group os a = do { modify (\<lambda>s. s\<lparr>target_exit_called := 1\<rparr>); return (indet_ret os) }"

section \<open>Memory\<close>

definition sys_brk :: "'w handler" where
  "sys_brk os a = do_brk (arg1 a)"

definition sys_mmap :: "'w handler" where
  "sys_mmap os a = do {
     r \<leftarrow> target_mmap (arg1 a) (arg2 a) (arg3 a) (arg4 a) (arg5 a) (arg6 a);
     get_errno (sint r)
   }"

definition sys_mmap2 :: "'w handler" where
  "sys_mmap2 os a = do {
     r \<leftarrow> target_mmap (arg1 a) (arg2 a) (arg3 a) (arg4 a) (arg5 a) (push_bit 12 (arg6 a));
     get_errno (sint r)
   }"

definition sys_munmap :: "'w handler" where
  "sys_munmap os a = do { r \<leftarrow> target_munmap (arg1 a) (arg2 a); get_errno (sint r) }"

definition sys_msync :: "'w handler" where
  "sys_msync os a = do {
     p \<leftarrow> g2h (arg1 a);
     plain_call (os_mem os M_msync [HPtr p, HInt (c_size (arg2 a)), HInt (c_int (arg3 a))])
   }"

definition sys_mlock :: "'w handler" where
  "sys_mlock os a = do {
     p \<leftarrow> g2h (arg1 a);
     plain_call (os_mem os M_mlock [HPtr p, HInt (c_size (arg2 a))])
   }"

definition sys_munlock :: "'w handler" where
  "sys_munlock os a = do {
     p \<leftarrow> g2h (arg1 a);
     plain_call (os_mem os M_munlock [HPtr p, HInt (c_size (arg2 a))])
   }"

definition sys_munlockall :: "'w handler" where
  "sys_munlockall os a = plain_call (os_mem os M_munlockall [])"

definition sys_madvise :: "'w handler" where
  "sys_madvise os a = get_errno 0"

definition sys_getpagesize :: "'w handler" where
  "sys_getpagesize os a = return 0x1000"

section \<open>Processes and scheduling\<close>

definition sys_getpid :: "'w handler" where
  "sys_getpid os a = plain_call (os_proc os K_getpid [])"

definition sys_getppid :: "'w handler" where
  "sys_getppid os a = plain_call (os_proc os K_getppid [])"

definition sys_getpgrp :: "'w handler" where
  "sys_getpgrp os a = plain_call (os_proc os K_getpgrp [])"

definition sys_getpgid :: "'w handler" where
  "sys_getpgid os a = plain_call (os_proc os K_getpgid [HInt (c_int (arg1 a))])"

definition sys_getsid :: "'w handler" where
  "sys_getsid os a = plain_call (os_proc os K_getsid [HInt (c_int (arg1 a))])"

definition sys_setpgid :: "'w handler" where
  "sys_setpgid os a = plain_call (os_proc os K_setpgid
     [HInt (c_int (arg1 a)), HInt (c_int (arg2 a))])"

definition sys_setsid :: "'w handler" where
  "sys_setsid os a = plain_call (os_proc os K_setsid [])"

definition sys_gettid :: "'w handler" where
  "sys_gettid os a = plain_call (os_proc os K_gettid [])"

definition sys_nice :: "'w handler" where
  "sys_nice os a = plain_call (os_proc os K_nice [HInt (c_int (arg1 a))])"

definition sys_umask :: "'w handler" where
  "sys_umask os a = plain_call (os_proc os K_umask [HInt (c_uint (arg1 a))])"

text \<open>A negative priority is valid, so the error test is on \<open>errno\<close>.\<close>

definition sys_getpriority :: "'w handler" where
  "sys_getpriority os a = do {
     set_errno 0;
     r \<leftarrow> host_int (os_proc os K_getpriority [HInt (c_int (arg1 a)), HInt (c_uint (arg2 a))]);
     let ret = to_abi r;
     e \<leftarrow> gets errno;
     if ret = -1 \<and> e \<noteq> 0 then do {
       t \<leftarrow> host_to_target_errno e;
       return (to_abi (- t))
     } else return (20 - ret)
   }"

definition sys_setpriority :: "'w handler" where
  "sys_setpriority os a = plain_call (os_proc os K_setpriority
     [HInt (c_int (arg1 a)), HInt (c_uint (arg2 a)), HInt (c_int (arg3 a))])"

definition sys_sched_getscheduler :: "'w handler" where
  "sys_sched_getscheduler os a = plain_call (os_proc os K_sched_getscheduler
     [HInt (c_int (arg1 a))])"

definition sys_sched_yield :: "'w handler" where
  "sys_sched_yield os a = plain_call (os_proc os K_sched_yield [])"

definition sys_sched_get_priority_max :: "'w handler" where
  "sys_sched_get_priority_max os a = plain_call (os_proc os K_sched_get_priority_max
     [HInt (c_int (arg1 a))])"

definition sys_sched_get_priority_min :: "'w handler" where
  "sys_sched_get_priority_min os a = plain_call (os_proc os K_sched_get_priority_min
     [HInt (c_int (arg1 a))])"

definition sys_personality :: "'w handler" where
  "sys_personality os a = plain_call (os_proc os K_personality [HInt (c_size (arg1 a))])"

definition sys_vhangup :: "'w handler" where
  "sys_vhangup os a = plain_call (os_proc os K_vhangup [])"

definition sys_unshare :: "'w handler" where
  "sys_unshare os a = plain_call (os_proc os K_unshare [HInt (c_int (arg1 a))])"

text \<open>The options of \<open>linux/prctl.h\<close> that take a pointer.\<close>

abbreviation (input) PR_GET_PDEATHSIG :: int where "PR_GET_PDEATHSIG \<equiv> 2"
abbreviation (input) PR_SET_NAME :: int where "PR_SET_NAME \<equiv> 15"
abbreviation (input) PR_GET_NAME :: int where "PR_GET_NAME \<equiv> 16"

definition sys_prctl :: "'w handler" where
  "sys_prctl os a = (
     let option = c_int (arg1 a);
         rest = [HInt (c_int (arg3 a)), HInt (c_int (arg4 a)), HInt (c_int (arg5 a))] in
     if option = PR_GET_PDEATHSIG then do {
       (r, deathsig) \<leftarrow> host_run (os_pdeathsig os (HInt option # rest));
       ret \<leftarrow> get_errno r;
       if \<not> is_error ret \<and> arg2 a \<noteq> 0 then do {
         e \<leftarrow> put_user32 deathsig (arg2 a);
         if e \<noteq> 0 then return efault else return ret
       } else return ret
     }
     else if option = PR_GET_NAME \<or> option = PR_SET_NAME then do {
       name \<leftarrow> lock_user (arg2 a);
       if name = 0 then return efault
       else do {
         r \<leftarrow> host_int (os_proc os K_prctl (HInt option # HPtr name # rest));
         ret \<leftarrow> get_errno r;
         unlock_user name (arg2 a);
         return ret
       }
     }
     else plain_call (os_proc os K_prctl (HInt option # HInt (c_int (arg2 a)) # rest)))"

section \<open>Names of the host and its log\<close>

definition sys_sethostname :: "'w handler" where
  "sys_sethostname os a = path_call (arg1 a)
     (\<lambda>p. os_proc os K_sethostname [HPtr p, HInt (c_size (arg2 a))])"

definition sys_setdomainname :: "'w handler" where
  "sys_setdomainname os a = path_call (arg1 a)
     (\<lambda>p. os_proc os K_setdomainname [HPtr p, HInt (c_size (arg2 a))])"

definition sys_syslog :: "'w handler" where
  "sys_syslog os a = path_call (arg2 a)
     (\<lambda>p. os_proc os K_syslog [HInt (c_int (arg1 a)), HPtr p, HInt (c_int (arg3 a))])"

definition sys_sysctl :: "'w handler" where
  "sys_sysctl os a = return (to_abi (- TARGET_ENOTDIR))"

definition sys_sysinfo :: "'w handler" where
  "sys_sysinfo os a = do {
     (r, v) \<leftarrow> host_run (os_sysinfo os);
     ret \<leftarrow> get_errno r;
     if \<not> is_error ret \<and> arg1 a \<noteq> 0 then do {
       p \<leftarrow> lock_user (arg1 a);
       if p = 0 then return efault
       else do {
         put_target_sysinfo v p;
         unlock_user p (arg1 a);
         return ret
       }
     } else return ret
   }"

section \<open>Ids\<close>

text \<open>\<open>uid_t\<close> converts to the \<open>int\<close> parameter of \<open>high2lowuid\<close>.\<close>

definition sys_getuid :: "'w handler" where
  "sys_getuid os a = do {
     r \<leftarrow> host_int (os_id os I_getuid []);
     get_errno (sint (high2lowuid (to_abi r)))
   }"

definition sys_getgid :: "'w handler" where
  "sys_getgid os a = do {
     r \<leftarrow> host_int (os_id os I_getgid []);
     get_errno (sint (high2lowgid (to_abi r)))
   }"

definition sys_geteuid :: "'w handler" where
  "sys_geteuid os a = do {
     r \<leftarrow> host_int (os_id os I_geteuid []);
     get_errno (sint (high2lowuid (to_abi r)))
   }"

definition sys_getegid :: "'w handler" where
  "sys_getegid os a = do {
     r \<leftarrow> host_int (os_id os I_getegid []);
     get_errno (sint (high2lowgid (to_abi r)))
   }"

definition sys_setreuid :: "'w handler" where
  "sys_setreuid os a = plain_call (os_id os I_setreuid
     [HInt (c_uint (low2highuid (arg1 a))), HInt (c_uint (low2highuid (arg2 a)))])"

definition sys_setregid :: "'w handler" where
  "sys_setregid os a = plain_call (os_id os I_setregid
     [HInt (c_uint (low2highgid (arg1 a))), HInt (c_uint (low2highgid (arg2 a)))])"

definition sys_setuid :: "'w handler" where
  "sys_setuid os a = plain_call (os_id os I_setuid [HInt (c_uint (low2highuid (arg1 a)))])"

definition sys_setgid :: "'w handler" where
  "sys_setgid os a = plain_call (os_id os I_setgid [HInt (c_uint (low2highgid (arg1 a)))])"

definition sys_setfsuid :: "'w handler" where
  "sys_setfsuid os a = plain_call (os_id os I_setfsuid [HInt (c_uint (arg1 a))])"

definition sys_setfsgid :: "'w handler" where
  "sys_setfsgid os a = plain_call (os_id os I_setfsgid [HInt (c_uint (arg1 a))])"

definition sys_getuid32 :: "'w handler" where
  "sys_getuid32 os a = plain_call (os_id os I_getuid [])"

definition sys_getgid32 :: "'w handler" where
  "sys_getgid32 os a = plain_call (os_id os I_getgid [])"

definition sys_geteuid32 :: "'w handler" where
  "sys_geteuid32 os a = plain_call (os_id os I_geteuid [])"

definition sys_getegid32 :: "'w handler" where
  "sys_getegid32 os a = plain_call (os_id os I_getegid [])"

definition sys_setreuid32 :: "'w handler" where
  "sys_setreuid32 os a = plain_call (os_id os I_setreuid
     [HInt (c_uint (arg1 a)), HInt (c_uint (arg2 a))])"

definition sys_setregid32 :: "'w handler" where
  "sys_setregid32 os a = plain_call (os_id os I_setregid
     [HInt (c_uint (arg1 a)), HInt (c_uint (arg2 a))])"

definition sys_setresuid32 :: "'w handler" where
  "sys_setresuid32 os a = plain_call (os_id os I_setresuid
     [HInt (c_uint (arg1 a)), HInt (c_uint (arg2 a)), HInt (c_uint (arg3 a))])"

definition sys_setresgid32 :: "'w handler" where
  "sys_setresgid32 os a = plain_call (os_id os I_setresgid
     [HInt (c_uint (arg1 a)), HInt (c_uint (arg2 a)), HInt (c_uint (arg3 a))])"

text \<open>Three stores, given up at the first that fails.\<close>

definition put_three :: "u32 \<times> u32 \<times> u32 \<Rightarrow> sargs \<Rightarrow> u32 \<Rightarrow> ('w, u32) sl" where
  "put_three v a ret = (case v of (x, y, z) \<Rightarrow> do {
     e \<leftarrow> put_user32 x (arg1 a);
     if e \<noteq> 0 then return efault else do {
     e \<leftarrow> put_user32 y (arg2 a);
     if e \<noteq> 0 then return efault else do {
     e \<leftarrow> put_user32 z (arg3 a);
     if e \<noteq> 0 then return efault else return ret }}})"

definition sys_getresuid32 :: "'w handler" where
  "sys_getresuid32 os a = do {
     (r, ids) \<leftarrow> host_run (os_getres os R_getresuid);
     ret \<leftarrow> get_errno r;
     if \<not> is_error ret then put_three ids a ret else return ret
   }"

definition sys_getresgid32 :: "'w handler" where
  "sys_getresgid32 os a = do {
     (r, ids) \<leftarrow> host_run (os_getres os R_getresgid);
     ret \<leftarrow> get_errno r;
     if \<not> is_error ret then put_three ids a ret else return ret
   }"

definition sys_setuid32 :: "'w handler" where
  "sys_setuid32 os a = plain_call (os_id os I_setuid [HInt (c_uint (arg1 a))])"

definition sys_setgid32 :: "'w handler" where
  "sys_setgid32 os a = plain_call (os_id os I_setgid [HInt (c_uint (arg1 a))])"

definition sys_setfsuid32 :: "'w handler" where
  "sys_setfsuid32 os a = plain_call (os_id os I_setfsuid [HInt (c_uint (arg1 a))])"

definition sys_setfsgid32 :: "'w handler" where
  "sys_setfsgid32 os a = plain_call (os_id os I_setfsgid [HInt (c_uint (arg1 a))])"

section \<open>Times\<close>

definition sys_time :: "'w handler" where
  "sys_time os a = do {
     (r, host_time) \<leftarrow> host_run (os_time os);
     ret \<leftarrow> get_errno r;
     if \<not> is_error ret \<and> arg1 a \<noteq> 0 then do {
       e \<leftarrow> put_user32 (ucast host_time) (arg1 a);
       if e \<noteq> 0 then return efault else return ret
     } else return ret
   }"

definition sys_stime :: "'w handler" where
  "sys_stime os a = do {
     (host_time, e) \<leftarrow> get_user32 (arg1 a);
     if e \<noteq> 0 then return efault
     else plain_call (os_proc os K_stime [HVec [c_int host_time]])
   }"

text \<open>\<open>struct target_tms\<close>: utime 0, stime 4, cutime 8, cstime 12.\<close>

definition sys_times :: "'w handler" where
  "sys_times os a = do {
     (r, t) \<leftarrow> host_run (os_times os);
     ret \<leftarrow> get_errno r;
     ok \<leftarrow> (if arg1 a \<noteq> 0 then do {
         p \<leftarrow> lock_user (arg1 a);
         if p = 0 then return False
         else do {
           store_tswapal (ucast (host_to_target_clock_t (tms_utime t))) p;
           store_tswapal (ucast (host_to_target_clock_t (tms_stime t))) (p + 4);
           store_tswapal (ucast (host_to_target_clock_t (tms_cutime t))) (p + 8);
           store_tswapal (ucast (host_to_target_clock_t (tms_cstime t))) (p + 12);
           return True
         }
       } else return True);
     if \<not> ok then return efault
     else if \<not> is_error ret then return (host_to_target_clock_t (scast ret))
     else return ret
   }"

definition sys_gettimeofday :: "'w handler" where
  "sys_gettimeofday os a = do {
     (r, tv) \<leftarrow> host_run (os_gettimeofday os);
     ret \<leftarrow> get_errno r;
     if \<not> is_error ret then do {
       e \<leftarrow> copy_to_user_timeval (arg1 a) tv;
       if e \<noteq> 0 then return efault else return ret
     } else return ret
   }"

definition sys_settimeofday :: "'w handler" where
  "sys_settimeofday os a = do {
     (ptv, e) \<leftarrow> (if arg1 a \<noteq> 0 then do {
         (tv, e) \<leftarrow> copy_from_user_timeval (arg1 a);
         return (HVec [sint (tv_sec tv), sint (tv_usec tv)], e)
       } else return (HNull, 0));
     if e \<noteq> 0 then return efault else do {
     (ptz, e) \<leftarrow> (if arg2 a \<noteq> 0 then do {
         (tz, e) \<leftarrow> copy_from_user_timezone (arg2 a);
         return (HVec [sint (tz_minuteswest tz), sint (tz_dsttime tz)], e)
       } else return (HNull, 0));
     if e \<noteq> 0 then return efault
     else plain_call (os_proc os K_settimeofday [ptv, ptz]) }
   }"

text \<open>Two \<open>timeval\<close>s to the guest, given up at the first that fails.\<close>

definition put_itimerval :: "u32 \<Rightarrow> host_itimerval \<Rightarrow> u32 \<Rightarrow> ('w, u32) sl" where
  "put_itimerval x v ret = do {
     e \<leftarrow> copy_to_user_timeval x (it_interval v);
     if e \<noteq> 0 then return efault else do {
     e \<leftarrow> copy_to_user_timeval (x + 8) (it_value v);
     if e \<noteq> 0 then return efault else return ret }
   }"

definition sys_setitimer :: "'w handler" where
  "sys_setitimer os a = do {
     pvalue \<leftarrow> timeval_pair (arg2 a);
     case pvalue of
       None \<Rightarrow> return efault
     | Some v \<Rightarrow> do {
         (r, ovalue) \<leftarrow> host_run (os_itimer os T_setitimer [HInt (c_int (arg1 a)), v]);
         ret \<leftarrow> get_errno r;
         if \<not> is_error ret \<and> arg3 a \<noteq> 0 then put_itimerval (arg3 a) ovalue ret else return ret
       }
   }"

definition sys_getitimer :: "'w handler" where
  "sys_getitimer os a = do {
     (r, v) \<leftarrow> host_run (os_itimer os T_getitimer [HInt (c_int (arg1 a))]);
     ret \<leftarrow> get_errno r;
     if \<not> is_error ret \<and> arg2 a \<noteq> 0 then put_itimerval (arg2 a) v ret else return ret
   }"

section \<open>Limits and usage\<close>

text \<open>\<open>struct target_rlimit\<close>: rlim_cur 0, rlim_max 4; the helpers swap.\<close>

definition sys_setrlimit :: "'w handler" where
  "sys_setrlimit os a = do {
     let resource = target_to_host_resource (c_int (arg1 a));
     p \<leftarrow> lock_user (arg2 a);
     if p = 0 then return efault
     else do {
       cur \<leftarrow> gets (\<lambda>s. target_to_host_rlim (ldl_he_p (hmem s) p));
       max \<leftarrow> gets (\<lambda>s. target_to_host_rlim (ldl_he_p (hmem s) (p + 4)));
       unlock_user p (arg2 a);
       plain_call (os_proc os K_setrlimit [HInt resource, HVec [uint cur, uint max]])
     }
   }"

definition sys_getrlimit :: "'w handler" where
  "sys_getrlimit os a = do {
     let resource = target_to_host_resource (c_int (arg1 a));
     (r, rlim) \<leftarrow> host_run (os_getrlimit os [HInt resource]);
     ret \<leftarrow> get_errno r;
     if \<not> is_error ret then do {
       p \<leftarrow> lock_user (arg2 a);
       if p = 0 then return efault
       else do {
         update_mem (\<lambda>m. stl_he_p m p (host_to_target_rlim (rlim_cur rlim)));
         update_mem (\<lambda>m. stl_he_p m (p + 4) (host_to_target_rlim (rlim_max rlim)));
         unlock_user p (arg2 a);
         return ret
       }
     } else return ret
   }"

definition sys_getrusage :: "'w handler" where
  "sys_getrusage os a = do {
     (r, rusage) \<leftarrow> host_run (os_getrusage os [HInt (c_int (arg1 a))]);
     ret \<leftarrow> get_errno r;
     if \<not> is_error ret then host_to_target_rusage (arg2 a) rusage else return ret
   }"

section \<open>Frames\<close>

text \<open>All but the exits, \<open>brk\<close> and the two \<open>mmap\<close>s.\<close>

lemma framed_parts [frame_intros]: "framed (put_three v a r)" "framed (put_itimerval x w r)"
  unfolding put_three_def put_itimerval_def by (intro frame_intros)+

lemmas proc_defs =
  sys_munmap_def sys_msync_def sys_mlock_def sys_munlock_def sys_munlockall_def sys_madvise_def
  sys_getpagesize_def sys_getpid_def sys_getppid_def sys_getpgrp_def sys_getpgid_def
  sys_getsid_def sys_setpgid_def sys_setsid_def sys_gettid_def sys_nice_def sys_umask_def
  sys_getpriority_def sys_setpriority_def sys_sched_getscheduler_def sys_sched_yield_def
  sys_sched_get_priority_max_def sys_sched_get_priority_min_def sys_personality_def
  sys_vhangup_def sys_unshare_def sys_prctl_def sys_sethostname_def sys_setdomainname_def
  sys_syslog_def sys_sysctl_def sys_sysinfo_def sys_getuid_def sys_getgid_def sys_geteuid_def
  sys_getegid_def sys_setreuid_def sys_setregid_def sys_setuid_def sys_setgid_def
  sys_setfsuid_def sys_setfsgid_def sys_getuid32_def sys_getgid32_def sys_geteuid32_def
  sys_getegid32_def sys_setreuid32_def sys_setregid32_def sys_setresuid32_def
  sys_setresgid32_def sys_getresuid32_def sys_getresgid32_def sys_setuid32_def
  sys_setgid32_def sys_setfsuid32_def sys_setfsgid32_def sys_time_def sys_stime_def
  sys_times_def sys_gettimeofday_def sys_settimeofday_def sys_setitimer_def sys_getitimer_def
  sys_setrlimit_def sys_getrlimit_def sys_getrusage_def

lemma framed_proc [frame_intros]:
  "framed (sys_munmap os a)" "framed (sys_msync os a)" "framed (sys_mlock os a)"
  "framed (sys_munlock os a)" "framed (sys_munlockall os a)" "framed (sys_madvise os a)"
  "framed (sys_getpagesize os a)" "framed (sys_getpid os a)" "framed (sys_getppid os a)"
  "framed (sys_getpgrp os a)" "framed (sys_getpgid os a)" "framed (sys_getsid os a)"
  "framed (sys_setpgid os a)" "framed (sys_setsid os a)" "framed (sys_gettid os a)"
  "framed (sys_nice os a)" "framed (sys_umask os a)" "framed (sys_getpriority os a)"
  "framed (sys_setpriority os a)" "framed (sys_sched_getscheduler os a)"
  "framed (sys_sched_yield os a)" "framed (sys_sched_get_priority_max os a)"
  "framed (sys_sched_get_priority_min os a)" "framed (sys_personality os a)"
  "framed (sys_vhangup os a)" "framed (sys_unshare os a)" "framed (sys_prctl os a)"
  "framed (sys_sethostname os a)" "framed (sys_setdomainname os a)" "framed (sys_syslog os a)"
  "framed (sys_sysctl os a)" "framed (sys_sysinfo os a)" "framed (sys_getuid os a)"
  "framed (sys_getgid os a)" "framed (sys_geteuid os a)" "framed (sys_getegid os a)"
  "framed (sys_setreuid os a)" "framed (sys_setregid os a)" "framed (sys_setuid os a)"
  "framed (sys_setgid os a)" "framed (sys_setfsuid os a)" "framed (sys_setfsgid os a)"
  "framed (sys_getuid32 os a)" "framed (sys_getgid32 os a)" "framed (sys_geteuid32 os a)"
  "framed (sys_getegid32 os a)" "framed (sys_setreuid32 os a)" "framed (sys_setregid32 os a)"
  "framed (sys_setresuid32 os a)" "framed (sys_setresgid32 os a)" "framed (sys_getresuid32 os a)"
  "framed (sys_getresgid32 os a)" "framed (sys_setuid32 os a)" "framed (sys_setgid32 os a)"
  "framed (sys_setfsuid32 os a)" "framed (sys_setfsgid32 os a)" "framed (sys_time os a)"
  "framed (sys_stime os a)" "framed (sys_times os a)" "framed (sys_gettimeofday os a)"
  "framed (sys_settimeofday os a)" "framed (sys_setitimer os a)" "framed (sys_getitimer os a)"
  "framed (sys_setrlimit os a)" "framed (sys_getrlimit os a)" "framed (sys_getrusage os a)"
  unfolding proc_defs by (intro frame_intros)+

end
