(* ===== verification/Syscall_Nr.thy ===== *)
theory Syscall_Nr
  imports Prelude
begin

text \<open>
  The system call numbers of the target: \<open>proj/sparc-linux/syscall_nr.h\<close>, one abbreviation per
  macro that the header defines (the commented-out \<open>TARGET_NR_vserver\<close> has none).  They are the
  case labels of \<open>do_syscall\<close>.
\<close>

abbreviation (input) TARGET_NR_exit :: int where "TARGET_NR_exit \<equiv> 1"
abbreviation (input) TARGET_NR_fork :: int where "TARGET_NR_fork \<equiv> 2"
abbreviation (input) TARGET_NR_read :: int where "TARGET_NR_read \<equiv> 3"
abbreviation (input) TARGET_NR_write :: int where "TARGET_NR_write \<equiv> 4"
abbreviation (input) TARGET_NR_open :: int where "TARGET_NR_open \<equiv> 5"
abbreviation (input) TARGET_NR_close :: int where "TARGET_NR_close \<equiv> 6"
abbreviation (input) TARGET_NR_wait4 :: int where "TARGET_NR_wait4 \<equiv> 7"
abbreviation (input) TARGET_NR_creat :: int where "TARGET_NR_creat \<equiv> 8"
abbreviation (input) TARGET_NR_link :: int where "TARGET_NR_link \<equiv> 9"
abbreviation (input) TARGET_NR_unlink :: int where "TARGET_NR_unlink \<equiv> 10"
abbreviation (input) TARGET_NR_execv :: int where "TARGET_NR_execv \<equiv> 11"
abbreviation (input) TARGET_NR_chdir :: int where "TARGET_NR_chdir \<equiv> 12"
abbreviation (input) TARGET_NR_chown :: int where "TARGET_NR_chown \<equiv> 13"
abbreviation (input) TARGET_NR_mknod :: int where "TARGET_NR_mknod \<equiv> 14"
abbreviation (input) TARGET_NR_chmod :: int where "TARGET_NR_chmod \<equiv> 15"
abbreviation (input) TARGET_NR_lchown :: int where "TARGET_NR_lchown \<equiv> 16"
abbreviation (input) TARGET_NR_brk :: int where "TARGET_NR_brk \<equiv> 17"
abbreviation (input) TARGET_NR_perfctr :: int where "TARGET_NR_perfctr \<equiv> 18"
abbreviation (input) TARGET_NR_lseek :: int where "TARGET_NR_lseek \<equiv> 19"
abbreviation (input) TARGET_NR_getpid :: int where "TARGET_NR_getpid \<equiv> 20"
abbreviation (input) TARGET_NR_capget :: int where "TARGET_NR_capget \<equiv> 21"
abbreviation (input) TARGET_NR_capset :: int where "TARGET_NR_capset \<equiv> 22"
abbreviation (input) TARGET_NR_setuid :: int where "TARGET_NR_setuid \<equiv> 23"
abbreviation (input) TARGET_NR_getuid :: int where "TARGET_NR_getuid \<equiv> 24"
abbreviation (input) TARGET_NR_ptrace :: int where "TARGET_NR_ptrace \<equiv> 26"
abbreviation (input) TARGET_NR_alarm :: int where "TARGET_NR_alarm \<equiv> 27"
abbreviation (input) TARGET_NR_sigaltstack :: int where "TARGET_NR_sigaltstack \<equiv> 28"
abbreviation (input) TARGET_NR_pause :: int where "TARGET_NR_pause \<equiv> 29"
abbreviation (input) TARGET_NR_utime :: int where "TARGET_NR_utime \<equiv> 30"
abbreviation (input) TARGET_NR_lchown32 :: int where "TARGET_NR_lchown32 \<equiv> 31"
abbreviation (input) TARGET_NR_fchown32 :: int where "TARGET_NR_fchown32 \<equiv> 32"
abbreviation (input) TARGET_NR_access :: int where "TARGET_NR_access \<equiv> 33"
abbreviation (input) TARGET_NR_nice :: int where "TARGET_NR_nice \<equiv> 34"
abbreviation (input) TARGET_NR_chown32 :: int where "TARGET_NR_chown32 \<equiv> 35"
abbreviation (input) TARGET_NR_sync :: int where "TARGET_NR_sync \<equiv> 36"
abbreviation (input) TARGET_NR_kill :: int where "TARGET_NR_kill \<equiv> 37"
abbreviation (input) TARGET_NR_stat :: int where "TARGET_NR_stat \<equiv> 38"
abbreviation (input) TARGET_NR_sendfile :: int where "TARGET_NR_sendfile \<equiv> 39"
abbreviation (input) TARGET_NR_lstat :: int where "TARGET_NR_lstat \<equiv> 40"
abbreviation (input) TARGET_NR_dup :: int where "TARGET_NR_dup \<equiv> 41"
abbreviation (input) TARGET_NR_pipe :: int where "TARGET_NR_pipe \<equiv> 42"
abbreviation (input) TARGET_NR_times :: int where "TARGET_NR_times \<equiv> 43"
abbreviation (input) TARGET_NR_getuid32 :: int where "TARGET_NR_getuid32 \<equiv> 44"
abbreviation (input) TARGET_NR_umount2 :: int where "TARGET_NR_umount2 \<equiv> 45"
abbreviation (input) TARGET_NR_setgid :: int where "TARGET_NR_setgid \<equiv> 46"
abbreviation (input) TARGET_NR_getgid :: int where "TARGET_NR_getgid \<equiv> 47"
abbreviation (input) TARGET_NR_signal :: int where "TARGET_NR_signal \<equiv> 48"
abbreviation (input) TARGET_NR_geteuid :: int where "TARGET_NR_geteuid \<equiv> 49"
abbreviation (input) TARGET_NR_getegid :: int where "TARGET_NR_getegid \<equiv> 50"
abbreviation (input) TARGET_NR_acct :: int where "TARGET_NR_acct \<equiv> 51"
abbreviation (input) TARGET_NR_getgid32 :: int where "TARGET_NR_getgid32 \<equiv> 53"
abbreviation (input) TARGET_NR_ioctl :: int where "TARGET_NR_ioctl \<equiv> 54"
abbreviation (input) TARGET_NR_reboot :: int where "TARGET_NR_reboot \<equiv> 55"
abbreviation (input) TARGET_NR_mmap2 :: int where "TARGET_NR_mmap2 \<equiv> 56"
abbreviation (input) TARGET_NR_symlink :: int where "TARGET_NR_symlink \<equiv> 57"
abbreviation (input) TARGET_NR_readlink :: int where "TARGET_NR_readlink \<equiv> 58"
abbreviation (input) TARGET_NR_execve :: int where "TARGET_NR_execve \<equiv> 59"
abbreviation (input) TARGET_NR_umask :: int where "TARGET_NR_umask \<equiv> 60"
abbreviation (input) TARGET_NR_chroot :: int where "TARGET_NR_chroot \<equiv> 61"
abbreviation (input) TARGET_NR_fstat :: int where "TARGET_NR_fstat \<equiv> 62"
abbreviation (input) TARGET_NR_fstat64 :: int where "TARGET_NR_fstat64 \<equiv> 63"
abbreviation (input) TARGET_NR_getpagesize :: int where "TARGET_NR_getpagesize \<equiv> 64"
abbreviation (input) TARGET_NR_msync :: int where "TARGET_NR_msync \<equiv> 65"
abbreviation (input) TARGET_NR_vfork :: int where "TARGET_NR_vfork \<equiv> 66"
abbreviation (input) TARGET_NR_pread64 :: int where "TARGET_NR_pread64 \<equiv> 67"
abbreviation (input) TARGET_NR_pwrite64 :: int where "TARGET_NR_pwrite64 \<equiv> 68"
abbreviation (input) TARGET_NR_geteuid32 :: int where "TARGET_NR_geteuid32 \<equiv> 69"
abbreviation (input) TARGET_NR_getegid32 :: int where "TARGET_NR_getegid32 \<equiv> 70"
abbreviation (input) TARGET_NR_mmap :: int where "TARGET_NR_mmap \<equiv> 71"
abbreviation (input) TARGET_NR_setreuid32 :: int where "TARGET_NR_setreuid32 \<equiv> 72"
abbreviation (input) TARGET_NR_munmap :: int where "TARGET_NR_munmap \<equiv> 73"
abbreviation (input) TARGET_NR_mprotect :: int where "TARGET_NR_mprotect \<equiv> 74"
abbreviation (input) TARGET_NR_madvise :: int where "TARGET_NR_madvise \<equiv> 75"
abbreviation (input) TARGET_NR_vhangup :: int where "TARGET_NR_vhangup \<equiv> 76"
abbreviation (input) TARGET_NR_truncate64 :: int where "TARGET_NR_truncate64 \<equiv> 77"
abbreviation (input) TARGET_NR_mincore :: int where "TARGET_NR_mincore \<equiv> 78"
abbreviation (input) TARGET_NR_getgroups :: int where "TARGET_NR_getgroups \<equiv> 79"
abbreviation (input) TARGET_NR_setgroups :: int where "TARGET_NR_setgroups \<equiv> 80"
abbreviation (input) TARGET_NR_getpgrp :: int where "TARGET_NR_getpgrp \<equiv> 81"
abbreviation (input) TARGET_NR_setgroups32 :: int where "TARGET_NR_setgroups32 \<equiv> 82"
abbreviation (input) TARGET_NR_setitimer :: int where "TARGET_NR_setitimer \<equiv> 83"
abbreviation (input) TARGET_NR_ftruncate64 :: int where "TARGET_NR_ftruncate64 \<equiv> 84"
abbreviation (input) TARGET_NR_swapon :: int where "TARGET_NR_swapon \<equiv> 85"
abbreviation (input) TARGET_NR_getitimer :: int where "TARGET_NR_getitimer \<equiv> 86"
abbreviation (input) TARGET_NR_setuid32 :: int where "TARGET_NR_setuid32 \<equiv> 87"
abbreviation (input) TARGET_NR_sethostname :: int where "TARGET_NR_sethostname \<equiv> 88"
abbreviation (input) TARGET_NR_setgid32 :: int where "TARGET_NR_setgid32 \<equiv> 89"
abbreviation (input) TARGET_NR_dup2 :: int where "TARGET_NR_dup2 \<equiv> 90"
abbreviation (input) TARGET_NR_setfsuid32 :: int where "TARGET_NR_setfsuid32 \<equiv> 91"
abbreviation (input) TARGET_NR_fcntl :: int where "TARGET_NR_fcntl \<equiv> 92"
abbreviation (input) TARGET_NR_select :: int where "TARGET_NR_select \<equiv> 93"
abbreviation (input) TARGET_NR_setfsgid32 :: int where "TARGET_NR_setfsgid32 \<equiv> 94"
abbreviation (input) TARGET_NR_fsync :: int where "TARGET_NR_fsync \<equiv> 95"
abbreviation (input) TARGET_NR_setpriority :: int where "TARGET_NR_setpriority \<equiv> 96"
abbreviation (input) TARGET_NR_socket :: int where "TARGET_NR_socket \<equiv> 97"
abbreviation (input) TARGET_NR_connect :: int where "TARGET_NR_connect \<equiv> 98"
abbreviation (input) TARGET_NR_accept :: int where "TARGET_NR_accept \<equiv> 99"
abbreviation (input) TARGET_NR_getpriority :: int where "TARGET_NR_getpriority \<equiv> 100"
abbreviation (input) TARGET_NR_rt_sigreturn :: int where "TARGET_NR_rt_sigreturn \<equiv> 101"
abbreviation (input) TARGET_NR_rt_sigaction :: int where "TARGET_NR_rt_sigaction \<equiv> 102"
abbreviation (input) TARGET_NR_rt_sigprocmask :: int where "TARGET_NR_rt_sigprocmask \<equiv> 103"
abbreviation (input) TARGET_NR_rt_sigpending :: int where "TARGET_NR_rt_sigpending \<equiv> 104"
abbreviation (input) TARGET_NR_rt_sigtimedwait :: int where "TARGET_NR_rt_sigtimedwait \<equiv> 105"
abbreviation (input) TARGET_NR_rt_sigqueueinfo :: int where "TARGET_NR_rt_sigqueueinfo \<equiv> 106"
abbreviation (input) TARGET_NR_rt_sigsuspend :: int where "TARGET_NR_rt_sigsuspend \<equiv> 107"
abbreviation (input) TARGET_NR_setresuid32 :: int where "TARGET_NR_setresuid32 \<equiv> 108"
abbreviation (input) TARGET_NR_getresuid32 :: int where "TARGET_NR_getresuid32 \<equiv> 109"
abbreviation (input) TARGET_NR_setresgid32 :: int where "TARGET_NR_setresgid32 \<equiv> 110"
abbreviation (input) TARGET_NR_getresgid32 :: int where "TARGET_NR_getresgid32 \<equiv> 111"
abbreviation (input) TARGET_NR_setregid32 :: int where "TARGET_NR_setregid32 \<equiv> 112"
abbreviation (input) TARGET_NR_recvmsg :: int where "TARGET_NR_recvmsg \<equiv> 113"
abbreviation (input) TARGET_NR_sendmsg :: int where "TARGET_NR_sendmsg \<equiv> 114"
abbreviation (input) TARGET_NR_getgroups32 :: int where "TARGET_NR_getgroups32 \<equiv> 115"
abbreviation (input) TARGET_NR_gettimeofday :: int where "TARGET_NR_gettimeofday \<equiv> 116"
abbreviation (input) TARGET_NR_getrusage :: int where "TARGET_NR_getrusage \<equiv> 117"
abbreviation (input) TARGET_NR_getsockopt :: int where "TARGET_NR_getsockopt \<equiv> 118"
abbreviation (input) TARGET_NR_getcwd :: int where "TARGET_NR_getcwd \<equiv> 119"
abbreviation (input) TARGET_NR_readv :: int where "TARGET_NR_readv \<equiv> 120"
abbreviation (input) TARGET_NR_writev :: int where "TARGET_NR_writev \<equiv> 121"
abbreviation (input) TARGET_NR_settimeofday :: int where "TARGET_NR_settimeofday \<equiv> 122"
abbreviation (input) TARGET_NR_fchown :: int where "TARGET_NR_fchown \<equiv> 123"
abbreviation (input) TARGET_NR_fchmod :: int where "TARGET_NR_fchmod \<equiv> 124"
abbreviation (input) TARGET_NR_recvfrom :: int where "TARGET_NR_recvfrom \<equiv> 125"
abbreviation (input) TARGET_NR_setreuid :: int where "TARGET_NR_setreuid \<equiv> 126"
abbreviation (input) TARGET_NR_setregid :: int where "TARGET_NR_setregid \<equiv> 127"
abbreviation (input) TARGET_NR_rename :: int where "TARGET_NR_rename \<equiv> 128"
abbreviation (input) TARGET_NR_truncate :: int where "TARGET_NR_truncate \<equiv> 129"
abbreviation (input) TARGET_NR_ftruncate :: int where "TARGET_NR_ftruncate \<equiv> 130"
abbreviation (input) TARGET_NR_flock :: int where "TARGET_NR_flock \<equiv> 131"
abbreviation (input) TARGET_NR_lstat64 :: int where "TARGET_NR_lstat64 \<equiv> 132"
abbreviation (input) TARGET_NR_sendto :: int where "TARGET_NR_sendto \<equiv> 133"
abbreviation (input) TARGET_NR_shutdown :: int where "TARGET_NR_shutdown \<equiv> 134"
abbreviation (input) TARGET_NR_socketpair :: int where "TARGET_NR_socketpair \<equiv> 135"
abbreviation (input) TARGET_NR_mkdir :: int where "TARGET_NR_mkdir \<equiv> 136"
abbreviation (input) TARGET_NR_rmdir :: int where "TARGET_NR_rmdir \<equiv> 137"
abbreviation (input) TARGET_NR_utimes :: int where "TARGET_NR_utimes \<equiv> 138"
abbreviation (input) TARGET_NR_stat64 :: int where "TARGET_NR_stat64 \<equiv> 139"
abbreviation (input) TARGET_NR_getpeername :: int where "TARGET_NR_getpeername \<equiv> 141"
abbreviation (input) TARGET_NR_futex :: int where "TARGET_NR_futex \<equiv> 142"
abbreviation (input) TARGET_NR_gettid :: int where "TARGET_NR_gettid \<equiv> 143"
abbreviation (input) TARGET_NR_getrlimit :: int where "TARGET_NR_getrlimit \<equiv> 144"
abbreviation (input) TARGET_NR_setrlimit :: int where "TARGET_NR_setrlimit \<equiv> 145"
abbreviation (input) TARGET_NR_pivot_root :: int where "TARGET_NR_pivot_root \<equiv> 146"
abbreviation (input) TARGET_NR_prctl :: int where "TARGET_NR_prctl \<equiv> 147"
abbreviation (input) TARGET_NR_pciconfig_read :: int where "TARGET_NR_pciconfig_read \<equiv> 148"
abbreviation (input) TARGET_NR_pciconfig_write :: int where "TARGET_NR_pciconfig_write \<equiv> 149"
abbreviation (input) TARGET_NR_getsockname :: int where "TARGET_NR_getsockname \<equiv> 150"
abbreviation (input) TARGET_NR_poll :: int where "TARGET_NR_poll \<equiv> 153"
abbreviation (input) TARGET_NR_getdents64 :: int where "TARGET_NR_getdents64 \<equiv> 154"
abbreviation (input) TARGET_NR_fcntl64 :: int where "TARGET_NR_fcntl64 \<equiv> 155"
abbreviation (input) TARGET_NR_statfs :: int where "TARGET_NR_statfs \<equiv> 157"
abbreviation (input) TARGET_NR_fstatfs :: int where "TARGET_NR_fstatfs \<equiv> 158"
abbreviation (input) TARGET_NR_umount :: int where "TARGET_NR_umount \<equiv> 159"
abbreviation (input) TARGET_NR_getdomainname :: int where "TARGET_NR_getdomainname \<equiv> 162"
abbreviation (input) TARGET_NR_setdomainname :: int where "TARGET_NR_setdomainname \<equiv> 163"
abbreviation (input) TARGET_NR_quotactl :: int where "TARGET_NR_quotactl \<equiv> 165"
abbreviation (input) TARGET_NR_set_tid_address :: int where "TARGET_NR_set_tid_address \<equiv> 166"
abbreviation (input) TARGET_NR_mount :: int where "TARGET_NR_mount \<equiv> 167"
abbreviation (input) TARGET_NR_ustat :: int where "TARGET_NR_ustat \<equiv> 168"
abbreviation (input) TARGET_NR_getdents :: int where "TARGET_NR_getdents \<equiv> 174"
abbreviation (input) TARGET_NR_setsid :: int where "TARGET_NR_setsid \<equiv> 175"
abbreviation (input) TARGET_NR_fchdir :: int where "TARGET_NR_fchdir \<equiv> 176"
abbreviation (input) TARGET_NR_sigpending :: int where "TARGET_NR_sigpending \<equiv> 183"
abbreviation (input) TARGET_NR_query_module :: int where "TARGET_NR_query_module \<equiv> 184"
abbreviation (input) TARGET_NR_setpgid :: int where "TARGET_NR_setpgid \<equiv> 185"
abbreviation (input) TARGET_NR_tkill :: int where "TARGET_NR_tkill \<equiv> 187"
abbreviation (input) TARGET_NR_exit_group :: int where "TARGET_NR_exit_group \<equiv> 188"
abbreviation (input) TARGET_NR_uname :: int where "TARGET_NR_uname \<equiv> 189"
abbreviation (input) TARGET_NR_init_module :: int where "TARGET_NR_init_module \<equiv> 190"
abbreviation (input) TARGET_NR_personality :: int where "TARGET_NR_personality \<equiv> 191"
abbreviation (input) TARGET_NR_getppid :: int where "TARGET_NR_getppid \<equiv> 197"
abbreviation (input) TARGET_NR_sigaction :: int where "TARGET_NR_sigaction \<equiv> 198"
abbreviation (input) TARGET_NR_sgetmask :: int where "TARGET_NR_sgetmask \<equiv> 199"
abbreviation (input) TARGET_NR_ssetmask :: int where "TARGET_NR_ssetmask \<equiv> 200"
abbreviation (input) TARGET_NR_sigsuspend :: int where "TARGET_NR_sigsuspend \<equiv> 201"
abbreviation (input) TARGET_NR_oldlstat :: int where "TARGET_NR_oldlstat \<equiv> 202"
abbreviation (input) TARGET_NR_uselib :: int where "TARGET_NR_uselib \<equiv> 203"
abbreviation (input) TARGET_NR_readdir :: int where "TARGET_NR_readdir \<equiv> 204"
abbreviation (input) TARGET_NR_readahead :: int where "TARGET_NR_readahead \<equiv> 205"
abbreviation (input) TARGET_NR_socketcall :: int where "TARGET_NR_socketcall \<equiv> 206"
abbreviation (input) TARGET_NR_syslog :: int where "TARGET_NR_syslog \<equiv> 207"
abbreviation (input) TARGET_NR_tgkill :: int where "TARGET_NR_tgkill \<equiv> 211"
abbreviation (input) TARGET_NR_waitpid :: int where "TARGET_NR_waitpid \<equiv> 212"
abbreviation (input) TARGET_NR_swapoff :: int where "TARGET_NR_swapoff \<equiv> 213"
abbreviation (input) TARGET_NR_sysinfo :: int where "TARGET_NR_sysinfo \<equiv> 214"
abbreviation (input) TARGET_NR_ipc :: int where "TARGET_NR_ipc \<equiv> 215"
abbreviation (input) TARGET_NR_sigreturn :: int where "TARGET_NR_sigreturn \<equiv> 216"
abbreviation (input) TARGET_NR_clone :: int where "TARGET_NR_clone \<equiv> 217"
abbreviation (input) TARGET_NR_adjtimex :: int where "TARGET_NR_adjtimex \<equiv> 219"
abbreviation (input) TARGET_NR_sigprocmask :: int where "TARGET_NR_sigprocmask \<equiv> 220"
abbreviation (input) TARGET_NR_create_module :: int where "TARGET_NR_create_module \<equiv> 221"
abbreviation (input) TARGET_NR_delete_module :: int where "TARGET_NR_delete_module \<equiv> 222"
abbreviation (input) TARGET_NR_get_kernel_syms :: int where "TARGET_NR_get_kernel_syms \<equiv> 223"
abbreviation (input) TARGET_NR_getpgid :: int where "TARGET_NR_getpgid \<equiv> 224"
abbreviation (input) TARGET_NR_bdflush :: int where "TARGET_NR_bdflush \<equiv> 225"
abbreviation (input) TARGET_NR_sysfs :: int where "TARGET_NR_sysfs \<equiv> 226"
abbreviation (input) TARGET_NR_afs_syscall :: int where "TARGET_NR_afs_syscall \<equiv> 227"
abbreviation (input) TARGET_NR_setfsuid :: int where "TARGET_NR_setfsuid \<equiv> 228"
abbreviation (input) TARGET_NR_setfsgid :: int where "TARGET_NR_setfsgid \<equiv> 229"
abbreviation (input) TARGET_NR__newselect :: int where "TARGET_NR__newselect \<equiv> 230"
abbreviation (input) TARGET_NR_time :: int where "TARGET_NR_time \<equiv> 231"
abbreviation (input) TARGET_NR_stime :: int where "TARGET_NR_stime \<equiv> 233"
abbreviation (input) TARGET_NR_statfs64 :: int where "TARGET_NR_statfs64 \<equiv> 234"
abbreviation (input) TARGET_NR_fstatfs64 :: int where "TARGET_NR_fstatfs64 \<equiv> 235"
abbreviation (input) TARGET_NR__llseek :: int where "TARGET_NR__llseek \<equiv> 236"
abbreviation (input) TARGET_NR_mlock :: int where "TARGET_NR_mlock \<equiv> 237"
abbreviation (input) TARGET_NR_munlock :: int where "TARGET_NR_munlock \<equiv> 238"
abbreviation (input) TARGET_NR_mlockall :: int where "TARGET_NR_mlockall \<equiv> 239"
abbreviation (input) TARGET_NR_munlockall :: int where "TARGET_NR_munlockall \<equiv> 240"
abbreviation (input) TARGET_NR_sched_setparam :: int where "TARGET_NR_sched_setparam \<equiv> 241"
abbreviation (input) TARGET_NR_sched_getparam :: int where "TARGET_NR_sched_getparam \<equiv> 242"
abbreviation (input) TARGET_NR_sched_setscheduler :: int where "TARGET_NR_sched_setscheduler \<equiv> 243"
abbreviation (input) TARGET_NR_sched_getscheduler :: int where "TARGET_NR_sched_getscheduler \<equiv> 244"
abbreviation (input) TARGET_NR_sched_yield :: int where "TARGET_NR_sched_yield \<equiv> 245"
abbreviation (input) TARGET_NR_sched_get_priority_max :: int where "TARGET_NR_sched_get_priority_max \<equiv> 246"
abbreviation (input) TARGET_NR_sched_get_priority_min :: int where "TARGET_NR_sched_get_priority_min \<equiv> 247"
abbreviation (input) TARGET_NR_sched_rr_get_interval :: int where "TARGET_NR_sched_rr_get_interval \<equiv> 248"
abbreviation (input) TARGET_NR_nanosleep :: int where "TARGET_NR_nanosleep \<equiv> 249"
abbreviation (input) TARGET_NR_mremap :: int where "TARGET_NR_mremap \<equiv> 250"
abbreviation (input) TARGET_NR__sysctl :: int where "TARGET_NR__sysctl \<equiv> 251"
abbreviation (input) TARGET_NR_getsid :: int where "TARGET_NR_getsid \<equiv> 252"
abbreviation (input) TARGET_NR_fdatasync :: int where "TARGET_NR_fdatasync \<equiv> 253"
abbreviation (input) TARGET_NR_nfsservctl :: int where "TARGET_NR_nfsservctl \<equiv> 254"
abbreviation (input) TARGET_NR_aplib :: int where "TARGET_NR_aplib \<equiv> 255"
abbreviation (input) TARGET_NR_clock_settime :: int where "TARGET_NR_clock_settime \<equiv> 256"
abbreviation (input) TARGET_NR_clock_gettime :: int where "TARGET_NR_clock_gettime \<equiv> 257"
abbreviation (input) TARGET_NR_clock_getres :: int where "TARGET_NR_clock_getres \<equiv> 258"
abbreviation (input) TARGET_NR_clock_nanosleep :: int where "TARGET_NR_clock_nanosleep \<equiv> 259"
abbreviation (input) TARGET_NR_sched_getaffinity :: int where "TARGET_NR_sched_getaffinity \<equiv> 260"
abbreviation (input) TARGET_NR_sched_setaffinity :: int where "TARGET_NR_sched_setaffinity \<equiv> 261"
abbreviation (input) TARGET_NR_timer_settime :: int where "TARGET_NR_timer_settime \<equiv> 262"
abbreviation (input) TARGET_NR_timer_gettime :: int where "TARGET_NR_timer_gettime \<equiv> 263"
abbreviation (input) TARGET_NR_timer_getoverrun :: int where "TARGET_NR_timer_getoverrun \<equiv> 264"
abbreviation (input) TARGET_NR_timer_delete :: int where "TARGET_NR_timer_delete \<equiv> 265"
abbreviation (input) TARGET_NR_timer_create :: int where "TARGET_NR_timer_create \<equiv> 266"
abbreviation (input) TARGET_NR_io_setup :: int where "TARGET_NR_io_setup \<equiv> 268"
abbreviation (input) TARGET_NR_io_destroy :: int where "TARGET_NR_io_destroy \<equiv> 269"
abbreviation (input) TARGET_NR_io_submit :: int where "TARGET_NR_io_submit \<equiv> 270"
abbreviation (input) TARGET_NR_io_cancel :: int where "TARGET_NR_io_cancel \<equiv> 271"
abbreviation (input) TARGET_NR_io_getevents :: int where "TARGET_NR_io_getevents \<equiv> 272"
abbreviation (input) TARGET_NR_mq_open :: int where "TARGET_NR_mq_open \<equiv> 273"
abbreviation (input) TARGET_NR_mq_unlink :: int where "TARGET_NR_mq_unlink \<equiv> 274"
abbreviation (input) TARGET_NR_mq_timedsend :: int where "TARGET_NR_mq_timedsend \<equiv> 275"
abbreviation (input) TARGET_NR_mq_timedreceive :: int where "TARGET_NR_mq_timedreceive \<equiv> 276"
abbreviation (input) TARGET_NR_mq_notify :: int where "TARGET_NR_mq_notify \<equiv> 277"
abbreviation (input) TARGET_NR_mq_getsetattr :: int where "TARGET_NR_mq_getsetattr \<equiv> 278"
abbreviation (input) TARGET_NR_waitid :: int where "TARGET_NR_waitid \<equiv> 279"
abbreviation (input) TARGET_NR_tee :: int where "TARGET_NR_tee \<equiv> 280"
abbreviation (input) TARGET_NR_add_key :: int where "TARGET_NR_add_key \<equiv> 281"
abbreviation (input) TARGET_NR_request_key :: int where "TARGET_NR_request_key \<equiv> 282"
abbreviation (input) TARGET_NR_keyctl :: int where "TARGET_NR_keyctl \<equiv> 283"
abbreviation (input) TARGET_NR_openat :: int where "TARGET_NR_openat \<equiv> 284"
abbreviation (input) TARGET_NR_mkdirat :: int where "TARGET_NR_mkdirat \<equiv> 285"
abbreviation (input) TARGET_NR_mknodat :: int where "TARGET_NR_mknodat \<equiv> 286"
abbreviation (input) TARGET_NR_fchownat :: int where "TARGET_NR_fchownat \<equiv> 287"
abbreviation (input) TARGET_NR_futimesat :: int where "TARGET_NR_futimesat \<equiv> 288"
abbreviation (input) TARGET_NR_fstatat64 :: int where "TARGET_NR_fstatat64 \<equiv> 289"
abbreviation (input) TARGET_NR_unlinkat :: int where "TARGET_NR_unlinkat \<equiv> 290"
abbreviation (input) TARGET_NR_renameat :: int where "TARGET_NR_renameat \<equiv> 291"
abbreviation (input) TARGET_NR_linkat :: int where "TARGET_NR_linkat \<equiv> 292"
abbreviation (input) TARGET_NR_symlinkat :: int where "TARGET_NR_symlinkat \<equiv> 293"
abbreviation (input) TARGET_NR_readlinkat :: int where "TARGET_NR_readlinkat \<equiv> 294"
abbreviation (input) TARGET_NR_fchmodat :: int where "TARGET_NR_fchmodat \<equiv> 295"
abbreviation (input) TARGET_NR_faccessat :: int where "TARGET_NR_faccessat \<equiv> 296"
abbreviation (input) TARGET_NR_pselect6 :: int where "TARGET_NR_pselect6 \<equiv> 297"
abbreviation (input) TARGET_NR_ppoll :: int where "TARGET_NR_ppoll \<equiv> 298"
abbreviation (input) TARGET_NR_unshare :: int where "TARGET_NR_unshare \<equiv> 299"
abbreviation (input) TARGET_NR_set_robust_list :: int where "TARGET_NR_set_robust_list \<equiv> 300"
abbreviation (input) TARGET_NR_get_robust_list :: int where "TARGET_NR_get_robust_list \<equiv> 301"
abbreviation (input) TARGET_NR_migrate_pages :: int where "TARGET_NR_migrate_pages \<equiv> 302"
abbreviation (input) TARGET_NR_mbind :: int where "TARGET_NR_mbind \<equiv> 303"
abbreviation (input) TARGET_NR_get_mempolicy :: int where "TARGET_NR_get_mempolicy \<equiv> 304"
abbreviation (input) TARGET_NR_set_mempolicy :: int where "TARGET_NR_set_mempolicy \<equiv> 305"
abbreviation (input) TARGET_NR_kexec_load :: int where "TARGET_NR_kexec_load \<equiv> 306"
abbreviation (input) TARGET_NR_move_pages :: int where "TARGET_NR_move_pages \<equiv> 307"
abbreviation (input) TARGET_NR_getcpu :: int where "TARGET_NR_getcpu \<equiv> 308"
abbreviation (input) TARGET_NR_epoll_pwait :: int where "TARGET_NR_epoll_pwait \<equiv> 309"
abbreviation (input) TARGET_NR_utimensat :: int where "TARGET_NR_utimensat \<equiv> 310"
abbreviation (input) TARGET_NR_signalfd :: int where "TARGET_NR_signalfd \<equiv> 311"
abbreviation (input) TARGET_NR_timerfd :: int where "TARGET_NR_timerfd \<equiv> 312"
abbreviation (input) TARGET_NR_eventfd :: int where "TARGET_NR_eventfd \<equiv> 313"
abbreviation (input) TARGET_NR_fallocate :: int where "TARGET_NR_fallocate \<equiv> 314"
abbreviation (input) TARGET_NR_timerfd_settime :: int where "TARGET_NR_timerfd_settime \<equiv> 315"
abbreviation (input) TARGET_NR_timerfd_gettime :: int where "TARGET_NR_timerfd_gettime \<equiv> 316"
abbreviation (input) TARGET_NR_signalfd4 :: int where "TARGET_NR_signalfd4 \<equiv> 317"
abbreviation (input) TARGET_NR_eventfd2 :: int where "TARGET_NR_eventfd2 \<equiv> 318"
abbreviation (input) TARGET_NR_epoll_create1 :: int where "TARGET_NR_epoll_create1 \<equiv> 319"
abbreviation (input) TARGET_NR_dup3 :: int where "TARGET_NR_dup3 \<equiv> 320"
abbreviation (input) TARGET_NR_pipe2 :: int where "TARGET_NR_pipe2 \<equiv> 321"
abbreviation (input) TARGET_NR_inotify_init1 :: int where "TARGET_NR_inotify_init1 \<equiv> 322"
abbreviation (input) TARGET_NR_accept4 :: int where "TARGET_NR_accept4 \<equiv> 323"
abbreviation (input) TARGET_NR_preadv :: int where "TARGET_NR_preadv \<equiv> 324"
abbreviation (input) TARGET_NR_pwritev :: int where "TARGET_NR_pwritev \<equiv> 325"
abbreviation (input) TARGET_NR_rt_tgsigqueueinfo :: int where "TARGET_NR_rt_tgsigqueueinfo \<equiv> 326"
abbreviation (input) TARGET_NR_perf_event_open :: int where "TARGET_NR_perf_event_open \<equiv> 327"
abbreviation (input) TARGET_NR_recvmmsg :: int where "TARGET_NR_recvmmsg \<equiv> 328"
abbreviation (input) TARGET_NR_fanotify_init :: int where "TARGET_NR_fanotify_init \<equiv> 329"
abbreviation (input) TARGET_NR_fanotify_mark :: int where "TARGET_NR_fanotify_mark \<equiv> 330"
abbreviation (input) TARGET_NR_prlimit64 :: int where "TARGET_NR_prlimit64 \<equiv> 331"
abbreviation (input) TARGET_NR_name_to_handle_at :: int where "TARGET_NR_name_to_handle_at \<equiv> 332"
abbreviation (input) TARGET_NR_open_by_handle_at :: int where "TARGET_NR_open_by_handle_at \<equiv> 333"
abbreviation (input) TARGET_NR_clock_adjtime :: int where "TARGET_NR_clock_adjtime \<equiv> 334"
abbreviation (input) TARGET_NR_syncfs :: int where "TARGET_NR_syncfs \<equiv> 335"
abbreviation (input) TARGET_NR_sendmmsg :: int where "TARGET_NR_sendmmsg \<equiv> 336"
abbreviation (input) TARGET_NR_setns :: int where "TARGET_NR_setns \<equiv> 337"
abbreviation (input) TARGET_NR_process_vm_readv :: int where "TARGET_NR_process_vm_readv \<equiv> 338"
abbreviation (input) TARGET_NR_process_vm_writev :: int where "TARGET_NR_process_vm_writev \<equiv> 339"
abbreviation (input) TARGET_NR_kern_features :: int where "TARGET_NR_kern_features \<equiv> 340"
abbreviation (input) TARGET_NR_kcmp :: int where "TARGET_NR_kcmp \<equiv> 341"
abbreviation (input) TARGET_NR_finit_module :: int where "TARGET_NR_finit_module \<equiv> 342"

end
