(* ===== verification/Dispatch.thy ===== *)
theory Dispatch
  imports Sys_Fd Sys_Proc Syscall_Nr
begin

text \<open>
  The \<open>switch\<close> of \<open>do_syscall\<close>: one table entry per case label that the build compiles (the
  configuration of \<open>config-host.h\<close> and the SPARC numbers of \<open>syscall_nr.h\<close>), in the order of
  the source.  A label runs its handler, or goes to \<open>unimplemented\<close>, or to
  \<open>unimplemented_nowarn\<close>; a number without a label takes the \<open>default\<close>.  The lemmas show that
  no label occurs twice, what unknown numbers do, and which calls leave the layout and the
  exit flag alone.
\<close>

datatype 'w entry = Run "'w handler" | Unimplemented | Nowarn

section \<open>The case labels\<close>

text \<open>Lines 890 to 1035.\<close>

definition cases_1 :: "(int \<times> 'w entry) list" where
  "cases_1 = [
    (TARGET_NR_exit, Run sys_exit), (TARGET_NR_read, Run sys_read),
    (TARGET_NR_write, Run sys_write), (TARGET_NR_open, Run sys_open),
    (TARGET_NR_openat, Unimplemented), (TARGET_NR_close, Run sys_close),
    (TARGET_NR_brk, Run sys_brk), (TARGET_NR_fork, Unimplemented),
    (TARGET_NR_waitpid, Unimplemented), (TARGET_NR_waitid, Unimplemented),
    (TARGET_NR_creat, Run sys_creat), (TARGET_NR_link, Run sys_link),
    (TARGET_NR_linkat, Run sys_linkat), (TARGET_NR_unlink, Run sys_unlink),
    (TARGET_NR_unlinkat, Run sys_unlinkat), (TARGET_NR_execve, Unimplemented),
    (TARGET_NR_chdir, Run sys_chdir), (TARGET_NR_time, Run sys_time),
    (TARGET_NR_mknod, Run sys_mknod)]"

text \<open>Lines 1036 to 1184.\<close>

definition cases_2 :: "(int \<times> 'w entry) list" where
  "cases_2 = [
    (TARGET_NR_mknodat, Run sys_mknodat), (TARGET_NR_chmod, Run sys_chmod),
    (TARGET_NR_lseek, Run sys_lseek), (TARGET_NR_getpid, Run sys_getpid),
    (TARGET_NR_mount, Unimplemented), (TARGET_NR_umount, Unimplemented),
    (TARGET_NR_stime, Run sys_stime), (TARGET_NR_ptrace, Unimplemented),
    (TARGET_NR_alarm, Unimplemented), (TARGET_NR_pause, Unimplemented),
    (TARGET_NR_utime, Run sys_utime), (TARGET_NR_utimes, Run sys_utimes),
    (TARGET_NR_futimesat, Run sys_futimesat), (TARGET_NR_access, Run sys_access)]"

text \<open>Lines 1185 to 1331.\<close>

definition cases_3 :: "(int \<times> 'w entry) list" where
  "cases_3 = [
    (TARGET_NR_faccessat, Run sys_faccessat), (TARGET_NR_nice, Run sys_nice),
    (TARGET_NR_sync, Run sys_sync), (TARGET_NR_kill, Unimplemented),
    (TARGET_NR_rename, Run sys_rename), (TARGET_NR_renameat, Run sys_renameat),
    (TARGET_NR_mkdir, Run sys_mkdir), (TARGET_NR_mkdirat, Run sys_mkdirat),
    (TARGET_NR_rmdir, Run sys_rmdir), (TARGET_NR_dup, Run sys_dup),
    (TARGET_NR_pipe, Unimplemented), (TARGET_NR_pipe2, Unimplemented),
    (TARGET_NR_times, Run sys_times), (TARGET_NR_signal, Unimplemented),
    (TARGET_NR_acct, Unimplemented), (TARGET_NR_umount2, Unimplemented),
    (TARGET_NR_ioctl, Unimplemented)]"

text \<open>Lines 1332 to 1473.\<close>

definition cases_4 :: "(int \<times> 'w entry) list" where
  "cases_4 = [
    (TARGET_NR_fcntl, Unimplemented), (TARGET_NR_setpgid, Run sys_setpgid),
    (TARGET_NR_umask, Run sys_umask), (TARGET_NR_chroot, Run sys_chroot),
    (TARGET_NR_ustat, Unimplemented), (TARGET_NR_dup2, Run sys_dup2),
    (TARGET_NR_dup3, Unimplemented), (TARGET_NR_getppid, Run sys_getppid),
    (TARGET_NR_getpgrp, Run sys_getpgrp), (TARGET_NR_setsid, Run sys_setsid),
    (TARGET_NR_sigaction, Unimplemented), (TARGET_NR_rt_sigaction, Unimplemented),
    (TARGET_NR_sgetmask, Unimplemented), (TARGET_NR_ssetmask, Unimplemented),
    (TARGET_NR_sigprocmask, Unimplemented), (TARGET_NR_rt_sigprocmask, Unimplemented),
    (TARGET_NR_sigpending, Unimplemented), (TARGET_NR_rt_sigpending, Unimplemented),
    (TARGET_NR_sigsuspend, Unimplemented), (TARGET_NR_rt_sigsuspend, Unimplemented),
    (TARGET_NR_rt_sigtimedwait, Unimplemented), (TARGET_NR_rt_sigqueueinfo, Unimplemented),
    (TARGET_NR_sigreturn, Unimplemented), (TARGET_NR_rt_sigreturn, Unimplemented),
    (TARGET_NR_sethostname, Run sys_sethostname)]"

text \<open>Lines 1474 to 1621.\<close>

definition cases_5 :: "(int \<times> 'w entry) list" where
  "cases_5 = [
    (TARGET_NR_setrlimit, Run sys_setrlimit), (TARGET_NR_getrlimit, Run sys_getrlimit),
    (TARGET_NR_getrusage, Run sys_getrusage), (TARGET_NR_gettimeofday, Run sys_gettimeofday),
    (TARGET_NR_settimeofday, Run sys_settimeofday), (TARGET_NR_select, Run sys_select),
    (TARGET_NR_pselect6, Unimplemented), (TARGET_NR_symlink, Run sys_symlink),
    (TARGET_NR_symlinkat, Run sys_symlinkat), (TARGET_NR_oldlstat, Unimplemented),
    (TARGET_NR_readlink, Unimplemented), (TARGET_NR_readlinkat, Unimplemented)]"

text \<open>Lines 1622 to 1753.\<close>

definition cases_6 :: "(int \<times> 'w entry) list" where
  "cases_6 = [
    (TARGET_NR_uselib, Unimplemented), (TARGET_NR_swapon, Unimplemented),
    (TARGET_NR_reboot, Unimplemented), (TARGET_NR_readdir, Unimplemented),
    (TARGET_NR_mmap, Run sys_mmap), (TARGET_NR_mmap2, Run sys_mmap2),
    (TARGET_NR_munmap, Run sys_munmap), (TARGET_NR_mprotect, Unimplemented),
    (TARGET_NR_mremap, Unimplemented), (TARGET_NR_msync, Run sys_msync),
    (TARGET_NR_mlock, Run sys_mlock), (TARGET_NR_munlock, Run sys_munlock),
    (TARGET_NR_mlockall, Unimplemented), (TARGET_NR_munlockall, Run sys_munlockall),
    (TARGET_NR_truncate, Run sys_truncate), (TARGET_NR_ftruncate, Run sys_ftruncate),
    (TARGET_NR_fchmod, Run sys_fchmod), (TARGET_NR_fchmodat, Run sys_fchmodat),
    (TARGET_NR_getpriority, Run sys_getpriority), (TARGET_NR_setpriority, Run sys_setpriority)]"

text \<open>Lines 1754 to 1902.\<close>

definition cases_7 :: "(int \<times> 'w entry) list" where
  "cases_7 = [
    (TARGET_NR_statfs, Run sys_statfs), (TARGET_NR_fstatfs, Run sys_fstatfs),
    (TARGET_NR_statfs64, Run sys_statfs64), (TARGET_NR_fstatfs64, Run sys_fstatfs64),
    (TARGET_NR_socketcall, Unimplemented), (TARGET_NR_accept, Unimplemented),
    (TARGET_NR_accept4, Unimplemented), (TARGET_NR_connect, Unimplemented),
    (TARGET_NR_getpeername, Unimplemented), (TARGET_NR_getsockname, Unimplemented),
    (TARGET_NR_getsockopt, Unimplemented), (TARGET_NR_recvfrom, Unimplemented),
    (TARGET_NR_recvmsg, Unimplemented)]"

text \<open>Lines 1903 to 2045.\<close>

definition cases_8 :: "(int \<times> 'w entry) list" where
  "cases_8 = [
    (TARGET_NR_sendmsg, Unimplemented), (TARGET_NR_sendmmsg, Unimplemented),
    (TARGET_NR_recvmmsg, Unimplemented), (TARGET_NR_sendto, Unimplemented),
    (TARGET_NR_shutdown, Unimplemented), (TARGET_NR_socket, Unimplemented),
    (TARGET_NR_socketpair, Unimplemented), (TARGET_NR_syslog, Run sys_syslog),
    (TARGET_NR_setitimer, Run sys_setitimer), (TARGET_NR_getitimer, Run sys_getitimer),
    (TARGET_NR_stat, Run sys_stat), (TARGET_NR_lstat, Run sys_lstat),
    (TARGET_NR_fstat, Run sys_fstat)]"

text \<open>Lines 2046 to 2195.\<close>

definition cases_9 :: "(int \<times> 'w entry) list" where
  "cases_9 = [
    (TARGET_NR_vhangup, Run sys_vhangup), (TARGET_NR_wait4, Unimplemented),
    (TARGET_NR_swapoff, Unimplemented), (TARGET_NR_sysinfo, Run sys_sysinfo),
    (TARGET_NR_ipc, Unimplemented), (TARGET_NR_fsync, Run sys_fsync),
    (TARGET_NR_clone, Unimplemented), (TARGET_NR_exit_group, Run sys_exit_group),
    (TARGET_NR_setdomainname, Run sys_setdomainname), (TARGET_NR_uname, Unimplemented),
    (TARGET_NR_adjtimex, Unimplemented)]"

text \<open>Lines 2196 to 2261.\<close>

definition cases_10 :: "(int \<times> 'w entry) list" where
  "cases_10 = [
    (TARGET_NR_create_module, Unimplemented), (TARGET_NR_init_module, Unimplemented),
    (TARGET_NR_delete_module, Unimplemented), (TARGET_NR_get_kernel_syms, Unimplemented),
    (TARGET_NR_quotactl, Unimplemented), (TARGET_NR_getpgid, Run sys_getpgid),
    (TARGET_NR_fchdir, Run sys_fchdir), (TARGET_NR_bdflush, Unimplemented),
    (TARGET_NR_sysfs, Unimplemented), (TARGET_NR_personality, Run sys_personality),
    (TARGET_NR_afs_syscall, Unimplemented), (TARGET_NR__llseek, Run sys_llseek)]"

text \<open>Lines 2262 to 2394.\<close>

definition cases_11 :: "(int \<times> 'w entry) list" where
  "cases_11 = [
    (TARGET_NR_getdents, Run sys_getdents)]"

text \<open>Lines 2395 to 2539.\<close>

definition cases_12 :: "(int \<times> 'w entry) list" where
  "cases_12 = [
    (TARGET_NR_getdents64, Run sys_getdents64), (TARGET_NR__newselect, Run sys_newselect),
    (TARGET_NR_poll, Unimplemented), (TARGET_NR_ppoll, Unimplemented),
    (TARGET_NR_flock, Run sys_flock), (TARGET_NR_readv, Run sys_readv),
    (TARGET_NR_writev, Run sys_writev), (TARGET_NR_getsid, Run sys_getsid),
    (TARGET_NR_fdatasync, Run sys_fdatasync), (TARGET_NR__sysctl, Run sys_sysctl),
    (TARGET_NR_sched_getaffinity, Unimplemented), (TARGET_NR_sched_setaffinity, Unimplemented),
    (TARGET_NR_sched_setparam, Unimplemented), (TARGET_NR_sched_getparam, Unimplemented),
    (TARGET_NR_sched_setscheduler, Unimplemented),
    (TARGET_NR_sched_getscheduler, Run sys_sched_getscheduler),
    (TARGET_NR_sched_yield, Run sys_sched_yield),
    (TARGET_NR_sched_get_priority_max, Run sys_sched_get_priority_max),
    (TARGET_NR_sched_get_priority_min, Run sys_sched_get_priority_min),
    (TARGET_NR_sched_rr_get_interval, Unimplemented), (TARGET_NR_nanosleep, Unimplemented),
    (TARGET_NR_query_module, Unimplemented), (TARGET_NR_nfsservctl, Unimplemented)]"

text \<open>Lines 2540 to 2687.\<close>

definition cases_13 :: "(int \<times> 'w entry) list" where
  "cases_13 = [
    (TARGET_NR_prctl, Run sys_prctl), (TARGET_NR_pread64, Unimplemented),
    (TARGET_NR_pwrite64, Unimplemented), (TARGET_NR_getcwd, Run sys_getcwd),
    (TARGET_NR_capget, Unimplemented), (TARGET_NR_capset, Unimplemented),
    (TARGET_NR_sigaltstack, Unimplemented), (TARGET_NR_sendfile, Run sys_sendfile),
    (TARGET_NR_vfork, Unimplemented), (TARGET_NR_truncate64, Unimplemented),
    (TARGET_NR_ftruncate64, Unimplemented)]"

text \<open>Lines 2688 to 2836.\<close>

definition cases_14 :: "(int \<times> 'w entry) list" where
  "cases_14 = [
    (TARGET_NR_stat64, Run sys_stat64), (TARGET_NR_lstat64, Run sys_lstat64),
    (TARGET_NR_fstat64, Run sys_fstat64), (TARGET_NR_fstatat64, Run sys_fstatat64),
    (TARGET_NR_lchown, Run sys_lchown), (TARGET_NR_getuid, Run sys_getuid),
    (TARGET_NR_getgid, Run sys_getgid), (TARGET_NR_geteuid, Run sys_geteuid),
    (TARGET_NR_getegid, Run sys_getegid), (TARGET_NR_setreuid, Run sys_setreuid),
    (TARGET_NR_setregid, Run sys_setregid), (TARGET_NR_getgroups, Unimplemented),
    (TARGET_NR_setgroups, Unimplemented), (TARGET_NR_fchown, Run sys_fchown),
    (TARGET_NR_fchownat, Run sys_fchownat)]"

text \<open>Lines 2837 to 2986.\<close>

definition cases_15 :: "(int \<times> 'w entry) list" where
  "cases_15 = [
    (TARGET_NR_chown, Run sys_chown), (TARGET_NR_setuid, Run sys_setuid),
    (TARGET_NR_setgid, Run sys_setgid), (TARGET_NR_setfsuid, Run sys_setfsuid),
    (TARGET_NR_setfsgid, Run sys_setfsgid), (TARGET_NR_lchown32, Run sys_lchown32),
    (TARGET_NR_getuid32, Run sys_getuid32), (TARGET_NR_getgid32, Run sys_getgid32),
    (TARGET_NR_geteuid32, Run sys_geteuid32), (TARGET_NR_getegid32, Run sys_getegid32),
    (TARGET_NR_setreuid32, Run sys_setreuid32), (TARGET_NR_setregid32, Run sys_setregid32),
    (TARGET_NR_getgroups32, Unimplemented), (TARGET_NR_setgroups32, Unimplemented),
    (TARGET_NR_fchown32, Run sys_fchown32), (TARGET_NR_setresuid32, Run sys_setresuid32),
    (TARGET_NR_getresuid32, Run sys_getresuid32), (TARGET_NR_setresgid32, Run sys_setresgid32),
    (TARGET_NR_getresgid32, Run sys_getresgid32), (TARGET_NR_chown32, Run sys_chown32),
    (TARGET_NR_setuid32, Run sys_setuid32), (TARGET_NR_setgid32, Run sys_setgid32)]"

text \<open>Lines 2987 to 3132.\<close>

definition cases_16 :: "(int \<times> 'w entry) list" where
  "cases_16 = [
    (TARGET_NR_setfsuid32, Run sys_setfsuid32), (TARGET_NR_setfsgid32, Run sys_setfsgid32),
    (TARGET_NR_pivot_root, Unimplemented), (TARGET_NR_mincore, Unimplemented),
    (TARGET_NR_madvise, Run sys_madvise), (TARGET_NR_fcntl64, Unimplemented),
    (TARGET_NR_getpagesize, Run sys_getpagesize), (TARGET_NR_gettid, Run sys_gettid),
    (TARGET_NR_readahead, Unimplemented), (TARGET_NR_getdomainname, Nowarn),
    (TARGET_NR_clock_gettime, Unimplemented), (TARGET_NR_clock_getres, Unimplemented),
    (TARGET_NR_clock_nanosleep, Unimplemented), (TARGET_NR_set_tid_address, Unimplemented),
    (TARGET_NR_tkill, Unimplemented), (TARGET_NR_tgkill, Unimplemented),
    (TARGET_NR_set_robust_list, Nowarn), (TARGET_NR_get_robust_list, Nowarn),
    (TARGET_NR_utimensat, Unimplemented)]"

text \<open>Lines 3133 to 3254.\<close>

definition cases_17 :: "(int \<times> 'w entry) list" where
  "cases_17 = [
    (TARGET_NR_futex, Unimplemented), (TARGET_NR_inotify_init1, Unimplemented),
    (TARGET_NR_mq_open, Unimplemented), (TARGET_NR_mq_unlink, Unimplemented),
    (TARGET_NR_mq_timedsend, Unimplemented), (TARGET_NR_mq_timedreceive, Unimplemented),
    (TARGET_NR_mq_getsetattr, Unimplemented), (TARGET_NR_tee, Run sys_tee),
    (TARGET_NR_eventfd, Unimplemented), (TARGET_NR_eventfd2, Unimplemented),
    (TARGET_NR_fallocate, Unimplemented)]"

text \<open>Lines 3255 to 3375.\<close>

definition cases_18 :: "(int \<times> 'w entry) list" where
  "cases_18 = [
    (TARGET_NR_epoll_create1, Unimplemented), (TARGET_NR_epoll_pwait, Unimplemented),
    (TARGET_NR_prlimit64, Unimplemented), (TARGET_NR_timer_create, Unimplemented),
    (TARGET_NR_timer_settime, Unimplemented), (TARGET_NR_timer_gettime, Unimplemented),
    (TARGET_NR_timer_getoverrun, Unimplemented), (TARGET_NR_timer_delete, Unimplemented),
    (TARGET_NR_timerfd_gettime, Unimplemented), (TARGET_NR_timerfd_settime, Unimplemented),
    (TARGET_NR_setns, Unimplemented), (TARGET_NR_unshare, Run sys_unshare)]"

definition syscall_table :: "(int \<times> 'w entry) list" where
  "syscall_table =
     cases_1 @ cases_2 @ cases_3 @ cases_4 @ cases_5 @ cases_6 @ cases_7 @ cases_8 @ cases_9 @
     cases_10 @ cases_11 @ cases_12 @ cases_13 @ cases_14 @ cases_15 @ cases_16 @ cases_17 @
     cases_18"

section \<open>The switch\<close>

primrec run_entry :: "int \<Rightarrow> 'w host_os \<Rightarrow> sargs \<Rightarrow> 'w entry \<Rightarrow> ('w, u32) sl" where
  "run_entry num os a (Run h) = h os a"
| "run_entry num os a Unimplemented = unimplemented num"
| "run_entry num os a Nowarn = unimplemented_nowarn"

definition do_syscall :: "'w host_os \<Rightarrow> int \<Rightarrow> sargs \<Rightarrow> ('w, u32) sl" where
  "do_syscall os num a = (case map_of syscall_table num of
     None \<Rightarrow> unimplemented num
   | Some e \<Rightarrow> run_entry num os a e)"

text \<open>The two entry points of \<open>syscall.h\<close> besides \<open>sl_init\<close>.\<close>

definition sl_syscall :: "'w host_os \<Rightarrow> int \<Rightarrow> sargs \<Rightarrow> ('w, u32) sl" where
  "sl_syscall os num a = do_syscall os num a"

definition sl_exit_called :: "('w, int) sl" where
  "sl_exit_called = gets target_exit_called"

section \<open>Facts\<close>

lemmas cases_defs = cases_1_def cases_2_def cases_3_def cases_4_def cases_5_def cases_6_def cases_7_def
  cases_8_def cases_9_def cases_10_def cases_11_def cases_12_def cases_13_def cases_14_def
  cases_15_def cases_16_def cases_17_def cases_18_def

lemma labels_eq:
  "map fst syscall_table = map fst (syscall_table :: (int \<times> unit entry) list)"
  by (simp add: syscall_table_def cases_defs)

lemma labels_distinct: "distinct (map fst syscall_table)"
  by (simp add: syscall_table_def cases_defs)

text \<open>The calls that are not framed.\<close>

definition core_calls :: "int list" where
  "core_calls = [TARGET_NR_exit, TARGET_NR_brk, TARGET_NR_mmap, TARGET_NR_mmap2, TARGET_NR_exit_group]"

abbreviation framed_entry :: "int \<times> 'w entry \<Rightarrow> bool" where
  "framed_entry x \<equiv> fst x \<in> set core_calls \<or> (\<forall>num os a. framed (run_entry num os a (snd x)))"

lemma framed_entries:
  "list_all framed_entry cases_1"
  "list_all framed_entry cases_2"
  "list_all framed_entry cases_3"
  "list_all framed_entry cases_4"
  "list_all framed_entry cases_5"
  "list_all framed_entry cases_6"
  "list_all framed_entry cases_7"
  "list_all framed_entry cases_8"
  "list_all framed_entry cases_9"
  "list_all framed_entry cases_10"
  "list_all framed_entry cases_11"
  "list_all framed_entry cases_12"
  "list_all framed_entry cases_13"
  "list_all framed_entry cases_14"
  "list_all framed_entry cases_15"
  "list_all framed_entry cases_16"
  "list_all framed_entry cases_17"
  "list_all framed_entry cases_18"
  by (simp_all add: cases_defs core_calls_def frame_intros)

lemma table_framed: "list_all framed_entry syscall_table"
  by (simp add: syscall_table_def framed_entries)

lemma do_syscall_framed:
  fixes os :: "'w host_os"
  assumes "num \<notin> set core_calls"
  shows "framed (do_syscall os num a)"
proof (cases "map_of syscall_table num :: 'w entry option")
  case None
  then show ?thesis by (simp add: do_syscall_def frame_intros)
next
  case (Some e)
  then have "(num, e) \<in> set syscall_table" by (rule map_of_SomeD)
  then have "framed_entry (num, e)"
    using table_framed unfolding list_all_iff by blast
  then show ?thesis using assms Some by (simp add: do_syscall_def)
qed

lemma table_lookup:
  fixes os :: "'w host_os"
  assumes "(num, e) \<in> set syscall_table"
  shows "do_syscall os num a = run_entry num os a e"
  using map_of_is_SomeI [OF labels_distinct assms] by (simp add: do_syscall_def)

end
