(* ===== verification/Init.thy ===== *)
theory Init
  imports Dispatch "HOL-Library.Signed_Division"
begin

unbundle bit_operations_syntax

text \<open>
  \<open>sl_init\<close> and \<open>init_stack\<close> of \<open>proj/sparc-linux/syscall.c\<close>: the state the emulation starts
  in and the program arguments on the guest's stack; then the runs of the emulation as a step
  relation (a step is one call of \<open>sl_syscall\<close>).

  \<open>argv\<close> is a list of host pointers; the strings are read from host memory.  The loop that
  looks for the end of a string is a partial function: without a zero byte it does not end.
  \<open>exit(-1)\<close> is the value \<open>Inl (-1)\<close>.
\<close>

section \<open>The program arguments\<close>

text \<open>\<open>while (*tmp++);\<close>: the address after the first zero byte.\<close>

partial_function (option) skip_string :: "hostmem \<Rightarrow> u64 \<Rightarrow> u64 option" where
  "skip_string m tmp = (if m tmp = 0 then Some (tmp + 1) else skip_string m (tmp + 1))"

text \<open>\<open>((len + 15) / 16) * 16\<close> with the division of C.\<close>

definition stack_align :: "int \<Rightarrow> int" where
  "stack_align len = ((len + 15) sdiv 16) * 16"

text \<open>The loop over \<open>i\<close>, downwards; the pointers are collected in \<open>new_argv\<close>.\<close>

primrec copy_args :: "u64 list \<Rightarrow> nat \<Rightarrow> u32 \<Rightarrow> u32 list \<Rightarrow> ('w, int + u32 list) sl" where
  "copy_args argv 0 guest_ptr new_argv = return (Inr new_argv)"
| "copy_args argv (Suc i) guest_ptr new_argv = do {
     let tmp1 = argv ! i;
     if tmp1 = 0 then do { log_msg ArgcIsWrong; return (Inl (-1)) }
     else do {
       m \<leftarrow> gets hmem;
       case skip_string m tmp1 of
         None \<Rightarrow> do { require False; return (Inr new_argv) }
       | Some tmp \<Rightarrow> do {
           let len = sint (ucast (tmp - tmp1) :: u32);
           let guest_ptr = guest_ptr - word_of_int (stack_align len);
           host_ptr \<leftarrow> lock_user guest_ptr;
           update_mem (\<lambda>m. mem_copy m host_ptr tmp1 (unat (word_of_int (len + 1) :: u64)));
           copy_args argv i guest_ptr (guest_ptr # new_argv)
         }
     }
   }"

primrec put_words :: "u32 list \<Rightarrow> u32 \<Rightarrow> ('w, u32) sl" where
  "put_words [] guest_ptr = return guest_ptr"
| "put_words (w # ws) guest_ptr = do {
     _ \<leftarrow> put_user32 w guest_ptr;
     put_words ws (guest_ptr + 4)
   }"

definition init_stack :: "int \<Rightarrow> u64 list \<Rightarrow> ('w, int + unit) sl" where
  "init_stack argc argv = do {
     require (argc \<le> int (length argv));
     gm \<leftarrow> gets guest_max_mem;
     r \<leftarrow> copy_args argv (nat argc) (ucast gm) [];
     case r of
       Inl e \<Rightarrow> return (Inl e)
     | Inr new_argv \<Rightarrow> do {
         sp \<leftarrow> gets target_sp;
         let guest_ptr = sp + 16 * 4;
         _ \<leftarrow> put_user32 (to_abi argc) guest_ptr;
         let guest_ptr = guest_ptr + 4;
         guest_ptr \<leftarrow> put_words new_argv guest_ptr;
         _ \<leftarrow> put_user32 0 guest_ptr;
         return (Inr ())
       }
   }"

definition sl_init :: "u32 \<Rightarrow> u32 \<Rightarrow> u64 \<Rightarrow> u64 \<Rightarrow> int \<Rightarrow> u64 list \<Rightarrow> ('w, int + unit) sl" where
  "sl_init brk init_stack_pointer gb gm argc argv = do {
     modify (\<lambda>s. s\<lparr>guest_base := gb, guest_max_mem := gm\<rparr>);
     modify (\<lambda>s. s\<lparr>target_brk := brk\<rparr>);
     modify (\<lambda>s. s\<lparr>target_brk_limit := ucast (guest_max_mem s div 4)\<rparr>);
     modify (\<lambda>s. s\<lparr>target_cur_mmap_ptr := target_brk_limit s\<rparr>);
     modify (\<lambda>s. s\<lparr>target_mmap_limit := ucast (guest_max_mem s div 2)\<rparr>);
     modify (\<lambda>s. s\<lparr>target_sp := init_stack_pointer, target_exit_called := 0\<rparr>);
     modify (\<lambda>s. s\<lparr>target_to_host_errno_table :=
        build_target_to_host_errno (target_to_host_errno_table s)\<rparr>);
     init_stack argc argv
   }"

section \<open>Runs\<close>

text \<open>
  A run of the emulation: any number of system calls with any arguments.  The processor stops
  when the exit flag is set, but nothing in this file does, so a step is always possible.
\<close>

inductive step :: "'w host_os \<Rightarrow> 'w sl_state \<Rightarrow> int \<times> sargs \<Rightarrow> u32 \<Rightarrow> 'w sl_state \<Rightarrow> bool"
  for os where
  syscall: "run_state (sl_syscall os num a) s = (r, t) \<Longrightarrow> step os s (num, a) r t"

inductive_cases step_cases: "step os s (num, a) r t"
inductive_simps step_simps: "step os s (num, a) r t"

inductive run :: "'w host_os \<Rightarrow> 'w sl_state \<Rightarrow> (int \<times> sargs) list \<Rightarrow> 'w sl_state \<Rightarrow> bool"
  for os where
  stop: "run os s [] s"
| call: "step os s c r t \<Longrightarrow> run os t cs u \<Longrightarrow> run os s (c # cs) u"

section \<open>Frames\<close>

lemma framed_copy_args [frame_intros]: "framed (copy_args argv i gp acc)"
  by (induction i arbitrary: gp acc) (auto intro!: frame_intros simp: Let_def)

lemma framed_put_words [frame_intros]: "framed (put_words ws gp)"
  by (induction ws arbitrary: gp) (auto intro!: frame_intros)

lemma framed_init_stack [frame_intros]: "framed (init_stack argc argv)"
  unfolding init_stack_def by (auto intro!: frame_intros split: sum.split)

section \<open>What every run keeps\<close>

text \<open>
  The requests a guest must not make for the layout to survive: a mapping of more than 2 GB
  (\<open>mmap_wraps\<close> shows what happens then).
\<close>

definition tame :: "int \<times> sargs \<Rightarrow> bool" where
  "tame c \<longleftrightarrow> (fst c = TARGET_NR_mmap \<or> fst c = TARGET_NR_mmap2 \<longrightarrow> arg2 (snd c) \<le> 0x80000000)"

definition layout_inv :: "'w sl_state \<Rightarrow> bool" where
  "layout_inv s \<longleftrightarrow> layout_ok (abs_aspace s) \<and> mmap_ok s"

text \<open>What is fixed after \<open>sl_init\<close>, and what only grows.\<close>

definition advances :: "'w sl_state \<Rightarrow> 'w sl_state \<Rightarrow> bool" where
  "advances s t \<longleftrightarrow>
     target_brk_limit t = target_brk_limit s \<and> target_mmap_limit t = target_mmap_limit s \<and>
     target_sp t = target_sp s \<and> guest_base t = guest_base s \<and>
     guest_max_mem t = guest_max_mem s \<and>
     target_to_host_errno_table t = target_to_host_errno_table s \<and>
     (target_exit_called s = 1 \<longrightarrow> target_exit_called t = 1) \<and> (fault s \<longrightarrow> fault t)"

lemma advances_refl [simp]: "advances s s"
  by (simp add: advances_def)

lemma advances_trans: "advances s t \<Longrightarrow> advances t u \<Longrightarrow> advances s u"
  by (auto simp: advances_def)

lemma same_core_advances: "same_core s t \<Longrightarrow> advances s t"
  by (auto simp: same_core_def advances_def)

lemma same_core_layout: "same_core s t \<Longrightarrow> layout_inv t = layout_inv s"
  by (simp add: same_core_def layout_inv_def layout_ok_def abs_aspace_def mmap_ok_def)

lemma core_entries:
  "(TARGET_NR_exit, Run sys_exit) \<in> set syscall_table"
  "(TARGET_NR_brk, Run sys_brk) \<in> set syscall_table"
  "(TARGET_NR_mmap, Run sys_mmap) \<in> set syscall_table"
  "(TARGET_NR_mmap2, Run sys_mmap2) \<in> set syscall_table"
  "(TARGET_NR_exit_group, Run sys_exit_group) \<in> set syscall_table"
  by (simp_all add: syscall_table_def cases_defs)

lemmas core_run = core_entries [THEN table_lookup, unfolded run_entry.simps]

lemma target_mmap_keeps:
  "target_brk (state_after (target_mmap start len prot flags fd offset) s) = target_brk s"
  "target_brk_limit (state_after (target_mmap start len prot flags fd offset) s) = target_brk_limit s"
  by (simp_all add: target_mmap_def run_simps Let_def)

lemma target_mmap_layout:
  assumes "layout_inv s" and "len \<le> 0x80000000"
  shows "layout_inv (state_after (target_mmap start len prot flags fd offset) s)"
proof -
  let ?q = "(start, len, prot, flags, fd, offset)"
    and ?t = "state_after (target_mmap start len prot flags fd offset) s"
  have t: "snd (mmap_alloc ?q s) = ?t"
    by (simp add: mmap_alloc_def Let_def split: prod.split)
  have fits: "mmap_fits ?q" using assms(2) by (simp add: mmap_fits_def)
  have ok: "mmap_ok s" using assms(1) by (simp add: layout_inv_def)
  have "target_brk ?t = target_brk s" "target_brk_limit ?t = target_brk_limit s"
    by (rule target_mmap_keeps)+
  moreover have "mmap_ok ?t"
    using mm.alloc_ok [OF ok fits] t by simp
  moreover have "unat (target_cur_mmap_ptr s) \<le> unat (target_cur_mmap_ptr ?t)"
  proof (cases "fst (mmap_alloc ?q s)")
    case None
    then show ?thesis using mm.alloc_none [OF ok fits, of ?t] t by (simp add: prod_eq_iff)
  next
    case (Some x)
    then have "mmap_alloc ?q s = (Some (fst x, snd x), ?t)" using t by (simp add: prod_eq_iff)
    then show ?thesis using mm.alloc_some [OF ok fits] by fastforce
  qed
  ultimately show ?thesis
    using assms(1)
    by (auto simp: layout_inv_def layout_ok_def abs_aspace_def mmap_ok_def word_le_nat_alt)
qed

lemma get_errno_core: "same_core s (state_after (get_errno r) s)"
  by (rule framedD) (intro frame_intros)

lemma core_advances:
  "advances s (state_after (sys_exit os a) s)" "advances s (state_after (sys_exit_group os a) s)"
  "advances s (state_after (sys_brk os a) s)" "advances s (state_after (sys_mmap os a) s)"
  "advances s (state_after (sys_mmap2 os a) s)"
proof -
  have m: "advances s (state_after (target_mmap start len prot flags fd offset) s)"
    for s :: "'w sl_state" and start len prot flags fd offset
    by (simp add: target_mmap_def run_simps Let_def advances_def)
  have e: "advances s (state_after (get_errno r) s)" for s :: "'w sl_state" and r
    using get_errno_core same_core_advances by blast
  show "advances s (state_after (sys_exit os a) s)" "advances s (state_after (sys_exit_group os a) s)"
    by (simp_all add: sys_exit_def sys_exit_group_def run_simps advances_def)
  show "advances s (state_after (sys_brk os a) s)"
    by (simp add: sys_brk_def run_do_brk Let_def advances_def)
  show "advances s (state_after (sys_mmap os a) s)" "advances s (state_after (sys_mmap2 os a) s)"
    unfolding sys_mmap_def sys_mmap2_def state_after_bind using m e advances_trans by blast+
qed

lemma core_layout:
  assumes "layout_inv s"
  shows "layout_inv (state_after (sys_exit os a) s)" "layout_inv (state_after (sys_exit_group os a) s)"
    "layout_inv (state_after (sys_brk os a) s)"
    "arg2 a \<le> 0x80000000 \<Longrightarrow> layout_inv (state_after (sys_mmap os a) s)"
    "arg2 a \<le> 0x80000000 \<Longrightarrow> layout_inv (state_after (sys_mmap2 os a) s)"
proof -
  show "layout_inv (state_after (sys_exit os a) s)" "layout_inv (state_after (sys_exit_group os a) s)"
    using assms
    by (simp_all add: sys_exit_def sys_exit_group_def run_simps layout_inv_def layout_ok_def
        abs_aspace_def mmap_ok_def)
  have "mmap_ok (state_after (do_brk (arg1 a)) s) = mmap_ok s"
    by (simp add: run_do_brk Let_def mmap_ok_def)
  then show "layout_inv (state_after (sys_brk os a) s)"
    using assms by (simp add: sys_brk_def layout_inv_def do_brk_layout)
  show "arg2 a \<le> 0x80000000 \<Longrightarrow> layout_inv (state_after (sys_mmap os a) s)"
    "arg2 a \<le> 0x80000000 \<Longrightarrow> layout_inv (state_after (sys_mmap2 os a) s)"
    unfolding sys_mmap_def sys_mmap2_def state_after_bind same_core_layout [OF get_errno_core]
    using target_mmap_layout [OF assms] by blast+
qed

lemma core_calls_cases:
  assumes "num \<in> set core_calls"
  obtains "num = TARGET_NR_exit" | "num = TARGET_NR_brk" | "num = TARGET_NR_mmap"
  | "num = TARGET_NR_mmap2" | "num = TARGET_NR_exit_group"
  using assms by (auto simp: core_calls_def)

lemma do_syscall_advances: "advances s (state_after (do_syscall os num a) s)"
proof (cases "num \<in> set core_calls")
  case True
  then show ?thesis
    by (cases rule: core_calls_cases) (simp_all only: core_run core_advances)
next
  case False
  then show ?thesis using framedD [OF do_syscall_framed] same_core_advances by blast
qed

lemma do_syscall_layout:
  assumes "layout_inv s" and "tame (num, a)"
  shows "layout_inv (state_after (do_syscall os num a) s)"
proof (cases "num \<in> set core_calls")
  case True
  then show ?thesis
    using assms(2) core_layout [OF assms(1)]
    by (cases rule: core_calls_cases) (simp_all only: core_run tame_def fst_conv snd_conv simp_thms)
next
  case False
  then show ?thesis
    using framedD [OF do_syscall_framed] same_core_layout assms(1) by blast
qed

lemma run_invariant:
  assumes "run os s cs t"
  shows "advances s t" "layout_inv s \<Longrightarrow> list_all tame cs \<Longrightarrow> layout_inv t"
  using assms
proof (induction rule: run.induct)
  case (stop s)
  { case 1 show ?case by simp }
  { case 2 then show ?case by simp }
next
  case (call s c r t cs u)
  obtain num a where c: "c = (num, a)" by (cases c)
  have t: "t = state_after (do_syscall os num a) s"
    using call.hyps(1) by (auto simp: c step_simps sl_syscall_def)
  { case 1 show ?case using call.IH(1) do_syscall_advances advances_trans t by blast }
  { case 2 then show ?case using call.IH(2) c t by (simp add: do_syscall_layout) }
qed

end
