(* ===== verification/Call_Props.thy ===== *)
theory Call_Props
  imports Init
begin

unbundle bit_operations_syntax

text \<open>
  The properties of the dispatcher, of single system calls and of whole runs.
\<close>

section \<open>The dispatcher\<close>

text \<open>C27: Every system call but \<open>exit\<close>, \<open>exit_group\<close>, \<open>brk\<close>, \<open>mmap\<close> and \<open>mmap2\<close>, with any
  number and any arguments, leaves the layout of the address space, the exit flag, the guest's
  location in host memory and the tables alone.\<close>

theorem ordinary_calls_keep_core:
  assumes "num \<notin> set core_calls"
  shows "same_core s (state_after (do_syscall os num a) s)"
  using do_syscall_framed [OF assms] by (rule framedD)

definition demo_args :: sargs where
  "demo_args = \<lparr>arg1 = 1, arg2 = 0x1000, arg3 = 16, arg4 = 0, arg5 = 0, arg6 = 0, arg7 = 0, arg8 = 0\<rparr>"

theorem ordinary_calls_keep_core_witness:
  "same_core demo_state (state_after (do_syscall demo_os TARGET_NR_write demo_args) demo_state)"
  by (rule ordinary_calls_keep_core) (simp add: core_calls_def)

text \<open>A number without a case label, and a label that goes to \<open>unimplemented\<close>, give
  \<open>-ENOSYS\<close>; the call is logged and nothing else happens.\<close>

theorem unsupported_calls:
  fixes os :: "'w host_os"
  assumes "map_of (syscall_table :: (int \<times> 'w entry) list) num \<in> {None, Some Unimplemented}"
  shows "run_state (do_syscall os num a) s =
    (to_abi (- TARGET_ENOSYS), s\<lparr>stderr := stderr s @ [UnsupportedSyscall num]\<rparr>)"
  using assms by (auto simp: do_syscall_def run_simps)

lemma table_999: "map_of syscall_table 999 = None"
  by (simp add: syscall_table_def cases_defs)

theorem unsupported_calls_witness:
  "run_state (do_syscall demo_os 999 demo_args) demo_state =
    (to_abi (- 38), demo_state\<lparr>stderr := stderr demo_state @ [UnsupportedSyscall 999]\<rparr>)"
  by (rule unsupported_calls) (simp add: table_999)

text \<open>The labels of the \<open>switch\<close> are distinct, so a call with the number of a label runs that
  case.\<close>

theorem labels_reach_their_case:
  fixes os :: "'w host_os"
  assumes "(num, e) \<in> set syscall_table"
  shows "do_syscall os num a = run_entry num os a e"
  using assms by (rule table_lookup)

theorem labels_reach_their_case_witness:
  "do_syscall demo_os TARGET_NR_getpid demo_args = sys_getpid demo_os demo_args"
proof -
  have "(TARGET_NR_getpid, Run sys_getpid) \<in> set (syscall_table :: (int \<times> unit entry) list)"
    by (simp add: syscall_table_def cases_defs)
  from labels_reach_their_case [OF this] show ?thesis by simp
qed

section \<open>Runs\<close>

text \<open>C26: The layout invariant (heap below its limit, the limit below the mappings, the mapping
  pointer below its limit, and that limit below 2 GB, as it is after \<open>sl_init\<close>) is kept by any
  sequence of system calls that asks for no mapping of more than 2 GB, in any order and with any
  arguments.\<close>

theorem runs_keep_layout:
  assumes "run os s cs t" and "layout_inv s" and "list_all tame cs"
  shows "layout_inv t"
  using run_invariant(2) [OF assms] .

lemma demo_run:
  "run demo_os demo_state [(TARGET_NR_brk, demo_args)]
    (state_after (sl_syscall demo_os TARGET_NR_brk demo_args) demo_state)"
  by (rule run.call [OF step.syscall [OF prod.collapse [symmetric]] run.stop])

theorem runs_keep_layout_witness:
  "layout_inv (state_after (sl_syscall demo_os TARGET_NR_brk demo_args) demo_state)"
  by (rule runs_keep_layout [OF demo_run])
     (simp_all add: tame_def layout_inv_def layout_ok_def abs_aspace_def mmap_ok_def demo_state_def)

text \<open>Over any run the limits, the stack pointer, the guest's place in host memory and the
  errno table stay as \<open>sl_init\<close> set them, and the exit flag once set stays set.\<close>

theorem runs_advance:
  assumes "run os s cs t"
  shows "advances s t"
  using run_invariant(1) [OF assms] .

theorem runs_advance_witness:
  "advances demo_state (state_after (sl_syscall demo_os TARGET_NR_brk demo_args) demo_state)"
  by (rule runs_advance [OF demo_run])

lemma exit_flag_step:
  "target_exit_called (state_after (do_syscall os num a) s) =
    (if num = TARGET_NR_exit \<or> num = TARGET_NR_exit_group then 1 else target_exit_called s)"
proof (cases "num \<in> set core_calls")
  case True
  have m: "target_exit_called (state_after (target_mmap start len prot flags fd offset) s) =
      target_exit_called s" for start len prot flags fd offset
    by (simp add: target_mmap_def run_simps Let_def)
  have e: "target_exit_called (state_after (get_errno r) t) = target_exit_called t"
    for r and t :: "'a sl_state"
    using get_errno_core [of t r] by (simp add: same_core_def)
  have c: "target_exit_called (state_after (sys_exit os a) s) = 1"
    "target_exit_called (state_after (sys_exit_group os a) s) = 1"
    "target_exit_called (state_after (sys_brk os a) s) = target_exit_called s"
    "target_exit_called (state_after (sys_mmap os a) s) = target_exit_called s"
    "target_exit_called (state_after (sys_mmap2 os a) s) = target_exit_called s"
    unfolding sys_mmap_def sys_mmap2_def state_after_bind e m
    by (simp_all add: sys_exit_def sys_exit_group_def sys_brk_def run_simps run_do_brk Let_def)
  from True show ?thesis
    by (cases rule: core_calls_cases) (simp_all add: core_run c)
next
  case False
  then show ?thesis
    using framedD [OF do_syscall_framed [OF False], of s os a]
    by (auto simp: same_core_def core_calls_def)
qed

lemma exit_flag_run:
  assumes "run os s cs t"
  shows "target_exit_called t =
    (if \<exists>c \<in> set cs. fst c = TARGET_NR_exit \<or> fst c = TARGET_NR_exit_group then 1
     else target_exit_called s)"
  using assms
proof (induction rule: run.induct)
  case (stop s)
  show ?case by simp
next
  case (call s c r t cs u)
  obtain num a where c: "c = (num, a)" by (cases c)
  have "t = state_after (do_syscall os num a) s"
    using call.hyps(1) by (auto simp: c step_simps sl_syscall_def)
  then show ?case
    using call.IH exit_flag_step [of os num a s] by (auto simp: c)
qed

text \<open>C28: The exit flag is set exactly by \<open>exit\<close> and \<open>exit_group\<close>: after a run from a state
  where it is 0 it is 1 if one of the two was called, and 0 otherwise.\<close>

theorem exit_flag_iff_exit_called:
  assumes "run os s cs t" and "target_exit_called s = 0"
  shows "result_of sl_exit_called t =
    (if \<exists>c \<in> set cs. fst c = TARGET_NR_exit \<or> fst c = TARGET_NR_exit_group then 1 else 0)"
  using exit_flag_run [OF assms(1)] assms(2) by (simp add: sl_exit_called_def)

theorem exit_flag_iff_exit_called_witness:
  "result_of sl_exit_called (state_after (sl_syscall demo_os TARGET_NR_brk demo_args) demo_state) = 0"
  using exit_flag_iff_exit_called [OF demo_run] by (simp add: demo_state_def)

section \<open>Single calls\<close>

text \<open>C33: The result convention: where the host reports failure (-1) with an errno of its
  table, the guest gets minus that errno, which \<open>is_error\<close> recognises; no errno is renumbered,
  and the state is untouched.\<close>

theorem host_failure_reaches_guest:
  assumes "to_abi r = -1" and "0 < errno s" and "errno s < ERRNO_TABLE_SIZE"
  shows "run_state (get_errno r) s = (to_abi (- errno s), s) \<and> is_error (to_abi (- errno s))"
  using assms get_errno_failed [of r s] is_error_of_neg [of "errno s"]
  by (simp add: ERRNO_TABLE_SIZE_def)

theorem host_failure_reaches_guest_witness:
  "result_of (get_errno (- 1)) (demo_state\<lparr>errno := ENOSYS\<rparr>) = to_abi (- 38)"
  using host_failure_reaches_guest [of "- 1" "demo_state\<lparr>errno := ENOSYS\<rparr>"]
  by (simp add: ERRNO_TABLE_SIZE_def)

text \<open>\<open>readv\<close> and \<open>writev\<close> of an empty vector return 0 without calling the host: the
  vector is refused with errno 0, which the error path turns into 0.\<close>

theorem empty_vectors_return_0:
  assumes "arg3 a = 0"
  shows "run_state (sys_readv os a) s = (0, s\<lparr>errno := 0\<rparr>) \<and>
    run_state (sys_writev os a) s = (0, s\<lparr>errno := 0\<rparr>)"
  using assms
  by (simp add: sys_readv_def sys_writev_def lock_iovec_def run_simps ERRNO_TABLE_SIZE_def)

theorem empty_vectors_return_0_witness:
  "run_state (sys_readv demo_os (demo_args\<lparr>arg3 := 0\<rparr>)) demo_state = (0, demo_state\<lparr>errno := 0\<rparr>)"
  using empty_vectors_return_0 [of "demo_args\<lparr>arg3 := 0\<rparr>" demo_os demo_state] by simp

text \<open>The offset that \<open>_llseek\<close> computes is that of its two halves while the low half is below
  2^31.\<close>

theorem llseek_low_half_small:
  assumes "0 \<le> sint low"
  shows "llseek_offset high low = push_bit 32 (ucast high) OR ucast low"
  using assms by (rule llseek_offset_small)

theorem llseek_low_half_small_witness: "llseek_offset 1 2 = 0x100000002"
  using llseek_low_half_small [of 2 1] by simp

text \<open>With a low half of 2^31 or more the high half is lost: the low half is
  sign-extended over it before the two are combined.\<close>

theorem llseek_low_half_large:
  assumes "sint low < 0"
  shows "llseek_offset high low = scast low"
  using assms by (rule llseek_offset_high_lost)

theorem llseek_low_half_large_witness: "llseek_offset 1 0x80000000 = 0xffffffff80000000"
  by (subst llseek_low_half_large) simp_all

text \<open>\<open>getpriority\<close> never reports a priority as an error: for a priority from -20 to 19
  that the host returns without setting errno, the guest gets 20 less the priority, from 1 to
  40.\<close>

theorem getpriority_biased:
  fixes os :: "'w host_os" and s :: "'w sl_state"
  defines "h \<equiv> os_proc os K_getpriority"
  assumes "\<And>x m w. hr_errno (h x m w) = None"
    and "\<And>x m w. hr_ret (h x m w) = r" and "- 20 \<le> r" and "r \<le> 19"
  shows "result_of (sys_getpriority os a) s = to_abi (20 - r) \<and>
    \<not> is_error (result_of (sys_getpriority os a) s)"
proof -
  have "20 - to_abi r = to_abi (20 - r)" by (simp add: to_abi_def)
  moreover have "\<not> is_error (to_abi (20 - r))"
    using assms(4,5) by (simp add: is_error_iff sint_to_abi)
  ultimately show ?thesis
    using assms(2,3) by (simp add: sys_getpriority_def run_simps Let_def after_host_def h_def)
qed

theorem getpriority_biased_witness:
  "result_of (sys_getpriority demo_os demo_args) demo_state = 20"
  using getpriority_biased [of demo_os 0 demo_args demo_state]
  by (simp add: demo_os_def demo_answer_def)

text \<open>\<open>getuid\<close> gives the 16-bit id of a host id below 2^31: the id itself up to 65535,
  and 65534 above.\<close>

theorem getuid_16bit:
  fixes os :: "'w host_os" and s :: "'w sl_state"
  assumes "hr_ret (os_id os I_getuid [] (hmem s) (world s)) = r" and "0 \<le> r" and "r < 2 ^ 31"
  shows "result_of (sys_getuid os a) s = to_abi (if r > 65535 then 65534 else r)"
proof -
  have "sint (to_abi r) = r" using assms by (intro sint_to_abi) simp_all
  moreover have "to_abi r \<noteq> -1"
  proof
    assume "to_abi r = -1"
    with \<open>sint (to_abi r) = r\<close> have "r = -1" by simp
    with assms(2) show False by simp
  qed
  ultimately show ?thesis
    using assms(1) by (simp add: sys_getuid_def run_simps high2lowuid_def)
qed

theorem getuid_16bit_witness: "result_of (sys_getuid demo_os demo_args) demo_state = 0"
  using getuid_16bit [of demo_os demo_state 0 demo_args]
  by (simp add: demo_os_def demo_answer_def)

end
