(* ===== verification/Args.thy ===== *)
theory Args
  imports Init Layout
begin

unbundle bit_operations_syntax

text \<open>
  What \<open>init_stack\<close> leaves on the guest's stack: the strings below the top of guest memory,
  each on a 16-byte boundary, and above the register window at the stack pointer the word
  \<open>argc\<close>, the pointers to the strings, and a zero word.
\<close>

section \<open>Guest ranges in host memory\<close>

definition guest_range :: "u64 \<Rightarrow> nat \<Rightarrow> nat \<Rightarrow> u64 set" where
  "guest_range base lo hi = g2h_at base ` {a. lo \<le> unat a \<and> unat a < hi}"

lemma g2h_at_inj: "g2h_at base a = g2h_at base b \<longleftrightarrow> a = b"
proof
  assume "g2h_at base a = g2h_at base b"
  then have "unat (ucast a :: u64) = unat (ucast b :: u64)" by (simp add: g2h_at_def)
  then show "a = b" by (simp add: word_unat_eq_iff)
qed simp

lemma guest_range_mem [simp]: "g2h_at base a \<in> guest_range base lo hi \<longleftrightarrow> lo \<le> unat a \<and> unat a < hi"
  by (auto simp: guest_range_def g2h_at_inj)

lemma guest_range_mono: "lo' \<le> lo \<Longrightarrow> hi \<le> hi' \<Longrightarrow> guest_range base lo hi \<subseteq> guest_range base lo' hi'"
  by (auto simp: guest_range_def)

lemma unat_plus_of_nat:
  assumes "unat (b :: u32) + k < 4294967296"
  shows "unat (b + of_nat k) = unat b + k"
  using assms by (simp add: unat_word_ariths unat_of_nat_less)

lemma g2h_at_plus:
  assumes "unat (b :: u32) + k < 4294967296"
  shows "g2h_at base (b + of_nat k) = g2h_at base b + of_nat k"
proof -
  have "unat (ucast b + of_nat k :: u64) = unat b + k"
    using assms by (simp add: unat_word_ariths unat_of_nat_less)
  then have "(ucast (b + of_nat k) :: u64) = ucast b + of_nat k"
    using unat_plus_of_nat [OF assms] by (simp add: word_unat_eq_iff)
  then show ?thesis by (simp add: g2h_at_def)
qed

text \<open>The range of a write at a guest address.\<close>

lemma in_range_guest:
  assumes "in_range q (g2h_at base b) n" and "unat b + n \<le> 4294967296"
  shows "q \<in> guest_range base (unat b) (unat b + n)"
proof -
  define k where "k = unat (q - g2h_at base b)"
  have k: "k < n" using assms(1) by (simp add: in_range_def k_def)
  then have l: "unat b + k < 4294967296" using assms(2) by simp
  have "of_nat k = q - g2h_at base b" by (simp add: k_def)
  then have "q = g2h_at base b + of_nat k" by simp
  also have "\<dots> = g2h_at base (b + of_nat k)" using g2h_at_plus [OF l] by simp
  finally show ?thesis using k unat_plus_of_nat [OF l] by simp
qed

lemma write_outside_guest:
  assumes "q \<notin> guest_range base (unat b) (unat b + length bs)"
    and "unat b + length bs \<le> 4294967296"
  shows "mem_write m (g2h_at base b) bs q = m q"
  using assms in_range_guest by (intro mem_write_outside) blast

section \<open>Strings\<close>

text \<open>A C string: its bytes have no zero and are followed by one.\<close>

definition c_string :: "hostmem \<Rightarrow> u64 \<Rightarrow> u8 list \<Rightarrow> bool" where
  "c_string m p str \<longleftrightarrow> 0 \<notin> set str \<and> length str < 2 ^ 30 \<and>
     mem_read m p (length str + 1) = str @ [0]"

lemma mem_read_Suc: "mem_read m p (Suc n) = m p # mem_read m (p + 1) n"
  using mem_read_append [of m p 1 n] by (simp add: mem_read_def)

lemma skip_string_end:
  assumes "0 \<notin> set str" and "mem_read m p (length str + 1) = str @ [0]"
  shows "skip_string m p = Some (p + of_nat (length str + 1))"
  using assms
proof (induction str arbitrary: p)
  case Nil
  then show ?case by (subst skip_string.simps) (simp add: mem_read_Suc)
next
  case (Cons c str)
  have "m p = c" "mem_read m (p + 1) (length str + 1) = str @ [0]"
    using Cons.prems(2) by (simp_all add: mem_read_Suc)
  then show ?case
    using Cons.IH [of "p + 1"] Cons.prems(1) by (subst skip_string.simps) (simp add: add_ac)
qed

lemma c_string_cong:
  assumes "c_string m p str" and "\<And>k. k < length str + 1 \<Longrightarrow> m' (p + of_nat k) = m (p + of_nat k)"
  shows "c_string m' p str"
proof -
  have "mem_read m' p (length str + 1) = mem_read m p (length str + 1)"
    unfolding mem_read_def by (intro map_cong refl assms(2)) (simp only: set_upt atLeastLessThan_iff)
  then show ?thesis using assms(1) by (simp add: c_string_def)
qed

text \<open>The bytes a string takes on the stack.\<close>

definition arg_size :: "u8 list \<Rightarrow> nat" where
  "arg_size str = (length str + 1 + 15) div 16 * 16"

definition args_size :: "u8 list list \<Rightarrow> nat" where
  "args_size strs = sum_list (map arg_size strs)"

lemma args_size_simps [simp]:
  "args_size [] = 0" "args_size (x # xs) = arg_size x + args_size xs"
  "args_size (xs @ ys) = args_size xs + args_size ys"
  by (simp_all add: args_size_def)

lemma stack_align_eq: "stack_align (int (length str + 1)) = int (arg_size str)"
proof -
  have "stack_align (int (length str + 1)) = (int (length str + 1) + 15) div 16 * 16"
    by (simp add: stack_align_def signed_divide_int_def)
  also have "\<dots> = int ((length str + 1 + 15) div 16 * 16)" by simp
  finally show ?thesis by (simp add: arg_size_def)
qed

text \<open>Where the extra byte that is copied falls into the padding.\<close>

definition padded :: "u8 list \<Rightarrow> bool" where
  "padded str \<longleftrightarrow> (length str + 1) mod 16 \<noteq> 0"

lemma arg_size_padded:
  assumes "padded str"
  shows "length str + 2 \<le> arg_size str"
proof -
  define n where "n = length str + 1"
  have "n mod 16 \<noteq> 0" using assms by (simp add: n_def padded_def)
  moreover have "n = n div 16 * 16 + n mod 16" by simp
  ultimately have "n + 1 \<le> (n + 15) div 16 * 16" by presburger
  then show ?thesis by (simp add: arg_size_def n_def)
qed

section \<open>Copying the strings\<close>

text \<open>The addresses, for the strings in order, when the last one ends at \<open>hi\<close>.\<close>

primrec arg_addrs :: "nat \<Rightarrow> u8 list list \<Rightarrow> nat list" where
  "arg_addrs hi [] = []"
| "arg_addrs hi (x # xs) = (hi - args_size (x # xs)) # arg_addrs hi xs"

lemma length_arg_addrs [simp]: "length (arg_addrs hi xs) = length xs"
  by (induction xs) simp_all

lemma arg_addrs_snoc:
  "args_size xs + arg_size x \<le> hi \<Longrightarrow>
    arg_addrs hi (xs @ [x]) = arg_addrs (hi - arg_size x) xs @ [hi - arg_size x]"
  by (induction xs) (auto simp: diff_diff_add add.commute)

lemma arg_addrs_bounds:
  assumes "a \<in> set (arg_addrs hi xs)"
  shows "hi - args_size xs \<le> a"
  using assms by (induction xs) auto

lemma arg_addrs_fit:
  assumes "args_size xs \<le> hi" and "j < length xs" and "padded (xs ! j)"
  shows "hi - args_size xs \<le> arg_addrs hi xs ! j \<and>
    arg_addrs hi xs ! j + (length (xs ! j) + 2) \<le> hi"
  using assms
proof (induction xs arbitrary: j)
  case Nil
  then show ?case by simp
next
  case (Cons x xs)
  show ?case
  proof (cases j)
    case 0
    then show ?thesis using Cons.prems arg_size_padded [of x] by simp
  next
    case (Suc k)
    have "hi - args_size (x # xs) \<le> hi - args_size xs" by simp
    then show ?thesis using Suc Cons.IH [of k] Cons.prems by (auto intro: order_trans)
  qed
qed

text \<open>One step of the loop, for a string that is there.\<close>

lemma copy_args_Suc:
  assumes "argv ! i \<noteq> 0" and "c_string (hmem s) (argv ! i) str"
    and "arg_size str \<le> unat gp" and "guest_base s = base"
  shows "run_state (copy_args argv (Suc i) gp acc) s =
    run_state (copy_args argv i (gp - of_nat (arg_size str)) ((gp - of_nat (arg_size str)) # acc))
      (s\<lparr>hmem := mem_copy (hmem s) (g2h_at base (gp - of_nat (arg_size str))) (argv ! i) (length str + 2)\<rparr>)"
proof -
  define n where "n = length str + 1"
  define tmp where "tmp = argv ! i + of_nat n"
  have l: "n < 2 ^ 31" using assms(2) by (simp add: c_string_def n_def)
  have k: "skip_string (hmem s) (argv ! i) = Some tmp"
    using assms(2) skip_string_end [of str "hmem s" "argv ! i"]
    by (simp add: c_string_def tmp_def n_def del: of_nat_add of_nat_Suc)
  have "tmp - argv ! i = of_nat n" by (simp add: tmp_def)
  moreover have "ucast (of_nat n :: u64) = (of_nat n :: u32)"
    using l by (intro word_unat_eq_iff [THEN iffD2])
      (simp add: unsigned_ucast_eq unat_of_nat_less take_bit_nat_eq_self)
  ultimately have "sint (ucast (tmp - argv ! i) :: u32) = sint (of_nat n :: u32)"
    by (simp only:)
  also have "\<dots> = int n"
    using l sint_nonneg [of "of_nat n"] by (simp add: unat_of_nat_less)
  finally have len: "sint (ucast (tmp - argv ! i) :: u32) = int n" .
  have "(word_of_int (int n + 1) :: u64) = of_nat (n + 1)" by simp
  then have c: "unat (word_of_int (int n + 1) :: u64) = length str + 2"
    using l unat_of_nat_less [of "n + 1", where 'a = 64] by (simp only:) (simp add: n_def)
  have a: "stack_align (int n) = int (arg_size str)"
    unfolding n_def by (rule stack_align_eq)
  have c': "unat (of_nat n + 1 :: u64) = length str + 2" using c by (simp add: n_def)
  show ?thesis
    using assms(1,4) by (simp add: run_simps Let_def k len c c' a)
qed

lemma c_string_copy:
  assumes "c_string m p str"
  shows "c_string (mem_copy m q p (length str + 2)) q str"
proof -
  have "mem_read (mem_copy m q p (length str + 2)) q (length str + 2) = mem_read m p (length str + 2)"
    unfolding mem_copy_def using assms
    by (intro mem_read_write_same) (simp_all add: c_string_def)
  moreover have "mem_read m r (length str + 1) = take (length str + 1) (mem_read m r (length str + 2))"
    for m r
    using mem_read_append [of m r "length str + 1" 1] by simp
  ultimately have "mem_read (mem_copy m q p (length str + 2)) q (length str + 1) =
      mem_read m p (length str + 1)" by simp
  then show ?thesis using assms by (simp add: c_string_def)
qed

lemma copy_args_correct:
  assumes "i = length strs"
    and "\<And>j. j < i \<Longrightarrow> argv ! j \<noteq> 0 \<and> c_string (hmem s) (argv ! j) (strs ! j) \<and> padded (strs ! j)"
    and "\<And>j k. j < i \<Longrightarrow> k < length (strs ! j) + 1 \<Longrightarrow>
      argv ! j + of_nat k \<notin> guest_range base lo (unat gp)"
    and "lo + args_size strs \<le> unat gp" and "guest_base s = base"
  shows "\<exists>m. run_state (copy_args argv i gp acc) s =
      (Inr (map of_nat (arg_addrs (unat gp) strs) @ acc), s\<lparr>hmem := m\<rparr>) \<and>
    (\<forall>q. q \<notin> guest_range base lo (unat gp) \<longrightarrow> m q = hmem s q) \<and>
    (\<forall>j < i. c_string m (g2h_at base (of_nat (arg_addrs (unat gp) strs ! j))) (strs ! j))"
  using assms
proof (induction i arbitrary: strs gp acc s)
  case 0
  then show ?case by (intro exI [of _ "hmem s"]) simp
next
  case (Suc i)
  obtain xs x where strs: "strs = xs @ [x]" and len: "length xs = i"
    using Suc.prems(1) by (cases strs rule: rev_cases) auto
  have nth: "strs ! j = xs ! j" if "j < i" for j using that len by (simp add: strs nth_append)
  have x: "argv ! i \<noteq> 0" "c_string (hmem s) (argv ! i) x" "padded x"
    using Suc.prems(2) [of i] len by (simp_all add: strs nth_append)
  define gp' where "gp' = gp - of_nat (arg_size x)"
  define m0 where "m0 = mem_copy (hmem s) (g2h_at base gp') (argv ! i) (length x + 2)"
  let ?s = "s\<lparr>hmem := m0\<rparr>"
  have size: "lo + args_size xs + arg_size x \<le> unat gp" using Suc.prems(4) by (simp add: strs)
  then have gp: "unat gp' = unat gp - arg_size x"
    using unat_u32_less [of gp] by (simp add: gp'_def unat_sub word_le_nat_alt unat_of_nat_less)
  have fit: "unat gp' + (length x + 2) \<le> unat gp" "lo \<le> unat gp'" "lo + args_size xs \<le> unat gp'"
    using arg_size_padded [OF x(3)] size gp by simp_all
  have sub: "guest_range base lo (unat gp') \<subseteq> guest_range base lo (unat gp)"
    using fit(1) by (intro guest_range_mono) simp_all
  have keep: "m0 q = hmem s q" if "q \<notin> guest_range base lo (unat gp)" for q
  proof -
    have "guest_range base (unat gp') (unat gp' + (length x + 2)) \<subseteq> guest_range base lo (unat gp)"
      using fit by (intro guest_range_mono)
    then have "q \<notin> guest_range base (unat gp') (unat gp' + (length x + 2))" using that by blast
    moreover have "unat gp' + (length x + 2) \<le> 4294967296" using fit(1) unat_u32_less [of gp] by simp
    ultimately show ?thesis
      unfolding m0_def mem_copy_def by (intro write_outside_guest) simp_all
  qed
  have off: "argv ! j + of_nat k \<notin> guest_range base lo (unat gp)"
    if "j < i" "k < length (xs ! j) + 1" for j k
    using Suc.prems(3) [of j k] that nth [OF that(1)] by (simp only: less_Suc_eq simp_thms)
  have src: "argv ! j \<noteq> 0 \<and> c_string (hmem ?s) (argv ! j) (xs ! j) \<and> padded (xs ! j)"
    if "j < i" for j
  proof -
    have p: "argv ! j \<noteq> 0 \<and> c_string (hmem s) (argv ! j) (xs ! j) \<and> padded (xs ! j)"
      using Suc.prems(2) [of j] that nth [OF that] by simp
    then have "c_string (hmem s) (argv ! j) (xs ! j)" by simp
    then have "c_string m0 (argv ! j) (xs ! j)"
      by (rule c_string_cong) (rule keep [OF off [OF that]])
    then show ?thesis using p by simp
  qed
  have "\<exists>m. run_state (copy_args argv i gp' (gp' # acc)) ?s =
      (Inr (map of_nat (arg_addrs (unat gp') xs) @ gp' # acc), ?s\<lparr>hmem := m\<rparr>) \<and>
    (\<forall>q. q \<notin> guest_range base lo (unat gp') \<longrightarrow> m q = hmem ?s q) \<and>
    (\<forall>j < i. c_string m (g2h_at base (of_nat (arg_addrs (unat gp') xs ! j))) (xs ! j))"
    using Suc.prems(5) off sub by (intro Suc.IH len [symmetric] src fit(3)) auto
  then obtain m where m:
    "run_state (copy_args argv i gp' (gp' # acc)) ?s =
      (Inr (map of_nat (arg_addrs (unat gp') xs) @ gp' # acc), ?s\<lparr>hmem := m\<rparr>)"
    "\<And>q. q \<notin> guest_range base lo (unat gp') \<Longrightarrow> m q = m0 q"
    "\<And>j. j < i \<Longrightarrow> c_string m (g2h_at base (of_nat (arg_addrs (unat gp') xs ! j))) (xs ! j)"
    by auto
  have addrs: "arg_addrs (unat gp) strs = arg_addrs (unat gp') xs @ [unat gp']"
    unfolding strs gp using size by (intro arg_addrs_snoc) simp
  have c0: "c_string m0 (g2h_at base gp') x"
    unfolding m0_def by (rule c_string_copy [OF x(2)])
  have "m (g2h_at base gp' + of_nat k) = m0 (g2h_at base gp' + of_nat k)"
    if "k < length x + 1" for k
  proof -
    have l: "unat gp' + k < 4294967296" using that fit(1) unat_u32_less [of gp] by simp
    have "g2h_at base (gp' + of_nat k) \<notin> guest_range base lo (unat gp')"
      using unat_plus_of_nat [OF l] by simp
    from m(2) [OF this] show ?thesis by (simp only: g2h_at_plus [OF l])
  qed
  then have last: "c_string m (g2h_at base gp') x" by (rule c_string_cong [OF c0])
  have all: "c_string m (g2h_at base (of_nat (arg_addrs (unat gp) strs ! j))) (strs ! j)"
    if "j < Suc i" for j
  proof (cases "j = i")
    case True
    have "arg_addrs (unat gp) strs ! i = unat gp'" using len by (simp add: addrs nth_append)
    moreover have "strs ! i = x" using len by (simp add: strs nth_append)
    ultimately show ?thesis using last by (simp add: True)
  next
    case False
    then show ?thesis using that m(3) [of j] len nth by (simp add: addrs nth_append)
  qed
  have rest: "m q = hmem s q" if "q \<notin> guest_range base lo (unat gp)" for q
    using that keep [OF that] m(2) [of q] sub by auto
  have le: "arg_size x \<le> unat gp" using size by simp
  have "run_state (copy_args argv (Suc i) gp acc) s =
      (Inr (map of_nat (arg_addrs (unat gp) strs) @ acc), s\<lparr>hmem := m\<rparr>)"
    unfolding copy_args_Suc [OF x(1,2) le Suc.prems(5)]
    using m(1) by (simp add: addrs gp'_def m0_def del: copy_args.simps)
  then show ?case using all rest by blast
qed

section \<open>Writing the words\<close>

text \<open>The guest's memory is a block of host memory that does not wrap and is not at 0.\<close>

definition base_ok :: "u64 \<Rightarrow> bool" where
  "base_ok base \<longleftrightarrow> base \<noteq> 0 \<and> unat base + 2 ^ 32 \<le> 2 ^ 64"

lemma base_ok_unat:
  assumes "base_ok base"
  shows "unat (g2h_at base a) = unat a + unat base"
proof -
  have "unat (ucast a :: u64) = unat a" by simp
  then have "unat (ucast a :: u64) + unat base < 2 ^ 64"
    using assms unat_u32_less [of a] by (simp add: base_ok_def)
  then show ?thesis by (simp add: g2h_at_def unat_word_ariths)
qed

lemma base_ok_g2h:
  assumes "base_ok base"
  shows "g2h_at base a \<noteq> 0"
proof -
  have "unat base \<noteq> 0" using assms by (simp add: base_ok_def unat_eq_0)
  then show ?thesis using base_ok_unat [OF assms, of a] by auto
qed

lemma guest_range_low:
  assumes "base_ok base" and "q < base"
  shows "q \<notin> guest_range base lo hi"
  using assms base_ok_unat [OF assms(1)] by (auto simp: guest_range_def word_less_nat_alt)

abbreviation word_at :: "hostmem \<Rightarrow> u64 \<Rightarrow> u32 \<Rightarrow> u32" where
  "word_at m base a \<equiv> ldl_be_p m (g2h_at base a)"

lemma word_at_cong:
  assumes "\<And>q. q \<in> guest_range base (unat a) (unat a + 4) \<Longrightarrow> m q = m' q"
    and "unat a + 4 \<le> 4294967296"
  shows "word_at m base a = word_at m' base a"
  using assms in_range_guest by (intro be32.ld_cong) blast

lemma put_words_snoc:
  "run_state (put_words (ws @ [w]) gp) s =
    (let (g, t) = run_state (put_words ws gp) s; (_, u) = run_state (put_user32 w g) t in (g + 4, u))"
  by (induction ws arbitrary: gp s) (simp_all add: run_simps case_prod_unfold Let_def)

lemma run_put_words:
  assumes "base_ok base" and "guest_base s = base" and "unat gp + 4 * length ws \<le> 4294967296"
  shows "\<exists>m. run_state (put_words ws gp) s = (gp + 4 * of_nat (length ws), s\<lparr>hmem := m\<rparr>) \<and>
    (\<forall>q. q \<notin> guest_range base (unat gp) (unat gp + 4 * length ws) \<longrightarrow> m q = hmem s q) \<and>
    (\<forall>j < length ws. word_at m base (gp + 4 * of_nat j) = ws ! j)"
  using assms
proof (induction ws arbitrary: gp s)
  case Nil
  then show ?case by (intro exI [of _ "hmem s"]) simp
next
  case (Cons w ws)
  define m0 where "m0 = stl_be_p (hmem s) (g2h_at base gp) w"
  let ?s = "s\<lparr>hmem := m0\<rparr>"
  have here: "m0 q = hmem s q" if "q \<notin> guest_range base (unat gp) (unat gp + 4)" for q
    unfolding m0_def using that Cons.prems(3) in_range_guest [of q base gp 4]
    by (intro be32.st_frame) auto
  show ?case
  proof (cases "ws = []")
    case True
    have "guest_range base (unat gp) (unat gp + 4 * length (w # ws)) =
        guest_range base (unat gp) (unat gp + 4)" by (simp add: True)
    then show ?thesis
      using True here Cons.prems(2) base_ok_g2h [OF Cons.prems(1)]
      by (intro exI [of _ m0]) (simp add: run_simps m0_def be32.ld_st)
  next
    case False
    have gp: "unat (gp + 4) = unat gp + 4"
      using Cons.prems(3) False unat_plus_of_nat [of gp 4] by (cases ws) simp_all
    then have "unat (gp + 4) + 4 * length ws \<le> 4294967296" using Cons.prems(3) by simp
    then obtain m where m:
      "run_state (put_words ws (gp + 4)) ?s = (gp + 4 + 4 * of_nat (length ws), ?s\<lparr>hmem := m\<rparr>)"
      "\<And>q. q \<notin> guest_range base (unat gp + 4) (unat gp + 4 + 4 * length ws) \<Longrightarrow> m q = m0 q"
      "\<And>j. j < length ws \<Longrightarrow> word_at m base (gp + 4 + 4 * of_nat j) = ws ! j"
      using Cons.IH [of ?s "gp + 4"] Cons.prems(1,2) gp by auto
    have first: "word_at m base gp = w"
    proof -
      have "word_at m base gp = word_at m0 base gp"
      proof (rule word_at_cong)
        fix q assume "q \<in> guest_range base (unat gp) (unat gp + 4)"
        then show "m q = m0 q" by (intro m(2)) (auto simp: guest_range_def g2h_at_inj)
      qed (use Cons.prems(3) in simp)
      then show ?thesis by (simp add: m0_def be32.ld_st)
    qed
    have words: "word_at m base (gp + 4 * of_nat j) = (w # ws) ! j" if "j < length (w # ws)" for j
    proof (cases j)
      case 0
      then show ?thesis using first by simp
    next
      case (Suc k)
      then show ?thesis using that m(3) [of k] by (simp add: algebra_simps)
    qed
    have rest: "m q = hmem s q"
      if q: "q \<notin> guest_range base (unat gp) (unat gp + 4 * length (w # ws))" for q
    proof -
      have "q \<notin> guest_range base (unat gp) (unat gp + 4)"
        "q \<notin> guest_range base (unat gp + 4) (unat gp + 4 + 4 * length ws)"
        using q guest_range_mono [of "unat gp" "unat gp" "unat gp + 4" "unat gp + 4 * length (w # ws)" base]
          guest_range_mono [of "unat gp" "unat gp + 4" "unat gp + 4 + 4 * length ws"
            "unat gp + 4 * length (w # ws)" base] by auto
      then show ?thesis using m(2) here by simp
    qed
    have "run_state (put_words (w # ws) gp) s =
        (gp + 4 * of_nat (length (w # ws)), s\<lparr>hmem := m\<rparr>)"
      using m(1) Cons.prems(2) base_ok_g2h [OF Cons.prems(1)]
      by (simp add: run_simps m0_def algebra_simps)
    then show ?thesis using words rest by blast
  qed
qed

end
