(* ===== verification/Start_Props.thy ===== *)
theory Start_Props
  imports Args
begin

text \<open>
  The properties of start-up: the arguments on the guest's stack, the state \<open>sl_init\<close>
  leaves, and the two bytes \<open>init_stack\<close> copies too many.
\<close>

lemma put_words_all:
  "run_state (do { _ \<leftarrow> put_user32 v gp; g \<leftarrow> put_words ws (gp + 4); _ \<leftarrow> put_user32 w g; return x }) s =
    (x, state_after (put_words (v # ws @ [w]) gp) s)"
  by (simp add: put_words_snoc Let_def case_prod_unfold)

lemma init_stack_unfold:
  assumes "run_state (copy_args argv (length argv) (ucast (guest_max_mem s)) []) s = (Inr ptrs, t)"
    and "target_sp t = target_sp s"
  shows "run_state (init_stack (int (length argv)) argv) s =
    (Inr (), state_after (put_words (to_abi (int (length argv)) # ptrs @ [0]) (target_sp s + 64)) t)"
proof -
  have "s\<lparr>fault := fault s\<rparr> = s" by simp
  then show ?thesis
    using assms put_words_all [of "to_abi (int (length argv))" "target_sp s + 64" ptrs 0 "Inr ()" t]
    by (simp add: init_stack_def require_def run_bind Let_def del: put_words.simps)
qed

text \<open>
  What the caller of \<open>sl_init\<close> has to provide: the guest's block is in host memory, the
  strings are there and outside it, none of them fills its 16-byte units (see
  \<open>init_stack_overruns_memory\<close>), and the stack pointer leaves room below them.
\<close>

definition args_ok :: "'w sl_state \<Rightarrow> u64 list \<Rightarrow> u8 list list \<Rightarrow> bool" where
  "args_ok s argv strs \<longleftrightarrow>
     base_ok (guest_base s) \<and> unat (guest_max_mem s) < 2 ^ 32 \<and> length argv = length strs \<and>
     (\<forall>j < length strs. argv ! j \<noteq> 0 \<and> c_string (hmem s) (argv ! j) (strs ! j) \<and> padded (strs ! j) \<and>
        (\<forall>k < length (strs ! j) + 1.
           argv ! j + of_nat k \<notin> guest_range (guest_base s) 0 (unat (guest_max_mem s)))) \<and>
     unat (target_sp s) + 64 + 4 * (length strs + 2) + args_size strs \<le> unat (guest_max_mem s)"

text \<open>Where the pointer to argument \<open>j\<close> points.\<close>

abbreviation arg_ptr :: "'w sl_state \<Rightarrow> u8 list list \<Rightarrow> nat \<Rightarrow> u32" where
  "arg_ptr s strs j \<equiv> of_nat (arg_addrs (unat (guest_max_mem s)) strs ! j)"

lemma unat_ucast_small: "unat (g :: u64) < 4294967296 \<Longrightarrow> unat (ucast g :: u32) = unat g"
  by (simp add: unsigned_ucast_eq unsigned_take_bit_eq take_bit_nat_eq_self)

lemma run_copy_args:
  assumes ok: "args_ok s argv strs"
  defines "base \<equiv> guest_base s" and "gm \<equiv> unat (guest_max_mem s)"
  shows "\<exists>m. run_state (copy_args argv (length strs) (ucast (guest_max_mem s)) []) s =
      (Inr (map of_nat (arg_addrs gm strs)), s\<lparr>hmem := m\<rparr>) \<and>
    (\<forall>q. q \<notin> guest_range base (gm - args_size strs) gm \<longrightarrow> m q = hmem s q) \<and>
    (\<forall>j < length strs. c_string m (g2h_at base (of_nat (arg_addrs gm strs ! j))) (strs ! j))"
proof -
  let ?g = "ucast (guest_max_mem s) :: u32" and ?lo = "gm - args_size strs"
  have g: "unat ?g = gm"
    using ok unat_ucast_small [of "guest_max_mem s"] by (simp add: args_ok_def gm_def)
  have "\<exists>m. run_state (copy_args argv (length strs) ?g []) s =
      (Inr (map of_nat (arg_addrs (unat ?g) strs) @ []), s\<lparr>hmem := m\<rparr>) \<and>
    (\<forall>q. q \<notin> guest_range base ?lo (unat ?g) \<longrightarrow> m q = hmem s q) \<and>
    (\<forall>j < length strs. c_string m (g2h_at base (of_nat (arg_addrs (unat ?g) strs ! j))) (strs ! j))"
  proof (rule copy_args_correct)
    show "argv ! j \<noteq> 0 \<and> c_string (hmem s) (argv ! j) (strs ! j) \<and> padded (strs ! j)"
      if "j < length strs" for j using ok that by (simp add: args_ok_def)
    show "argv ! j + of_nat k \<notin> guest_range base ?lo (unat ?g)"
      if "j < length strs" "k < length (strs ! j) + 1" for j k
      using ok that guest_range_mono [of 0 ?lo gm gm base] unfolding g args_ok_def base_def gm_def
      by blast
    show "?lo + args_size strs \<le> unat ?g" using ok by (simp add: g args_ok_def gm_def)
  qed (simp_all add: base_def)
  then show ?thesis unfolding g append_Nil2 .
qed

lemma run_init_stack:
  assumes ok: "args_ok s argv strs"
  defines "base \<equiv> guest_base s" and "gm \<equiv> unat (guest_max_mem s)" and "n \<equiv> length strs"
  shows "\<exists>m. run_state (init_stack (int n) argv) s = (Inr (), s\<lparr>hmem := m\<rparr>) \<and>
    (\<forall>j < n + 2. word_at m base (target_sp s + 64 + 4 * of_nat j) =
       (to_abi (int n) # map of_nat (arg_addrs gm strs) @ [0]) ! j) \<and>
    (\<forall>j < n. c_string m (g2h_at base (of_nat (arg_addrs gm strs ! j))) (strs ! j)) \<and>
    (\<forall>q. q \<notin> guest_range base (unat (target_sp s) + 64) (unat (target_sp s) + 64 + 4 * (n + 2)) \<longrightarrow>
       q \<notin> guest_range base (gm - args_size strs) gm \<longrightarrow> m q = hmem s q)"
proof -
  define ws :: "u32 list" where "ws = to_abi (int n) # map of_nat (arg_addrs gm strs) @ [0]"
  have base: "base_ok base" and gm: "gm < 4294967296" and len: "length argv = n"
    and room: "unat (target_sp s) + 64 + 4 * (n + 2) + args_size strs \<le> gm"
    and pad: "\<And>j. j < n \<Longrightarrow> padded (strs ! j)"
    using ok by (simp_all add: args_ok_def base_def gm_def n_def)
  have sp: "unat (target_sp s + 64) = unat (target_sp s) + 64"
    using unat_plus_of_nat [of "target_sp s" 64] room gm by simp
  obtain m1 where m1:
    "run_state (copy_args argv n (ucast (guest_max_mem s)) []) s =
      (Inr (map of_nat (arg_addrs gm strs)), s\<lparr>hmem := m1\<rparr>)"
    "\<And>q. q \<notin> guest_range base (gm - args_size strs) gm \<Longrightarrow> m1 q = hmem s q"
    "\<And>j. j < n \<Longrightarrow> c_string m1 (g2h_at base (of_nat (arg_addrs gm strs ! j))) (strs ! j)"
    using run_copy_args [OF ok] unfolding base_def gm_def n_def by blast
  let ?s = "s\<lparr>hmem := m1\<rparr>"
  obtain m where m:
    "run_state (put_words ws (target_sp s + 64)) ?s =
      (target_sp s + 64 + 4 * of_nat (length ws), ?s\<lparr>hmem := m\<rparr>)"
    "\<And>q. q \<notin> guest_range base (unat (target_sp s) + 64) (unat (target_sp s) + 64 + 4 * (n + 2)) \<Longrightarrow>
      m q = m1 q"
    "\<And>j. j < n + 2 \<Longrightarrow> word_at m base (target_sp s + 64 + 4 * of_nat j) = ws ! j"
    using run_put_words [OF base, of ?s "target_sp s + 64" ws] room gm sp
    by (auto simp: base_def ws_def n_def simp del: put_words.simps)
  have "run_state (init_stack (int n) argv) s = (Inr (), s\<lparr>hmem := m\<rparr>)"
    using init_stack_unfold [of argv s "map of_nat (arg_addrs gm strs)" ?s] m1(1) m(1)
    by (simp add: len ws_def del: put_words.simps)
  moreover have "c_string m (g2h_at base (of_nat (arg_addrs gm strs ! j))) (strs ! j)" if j: "j < n" for j
  proof (rule c_string_cong [OF m1(3) [OF j]])
    fix k assume k: "k < length (strs ! j) + 1"
    define a where "a = arg_addrs gm strs ! j"
    have a: "gm - args_size strs \<le> a" "a + (length (strs ! j) + 2) \<le> gm"
      using arg_addrs_fit [of strs gm j] pad [OF j] j room by (simp_all add: a_def n_def)
    have u: "unat (of_nat a :: u32) = a" using a(2) gm by (simp add: unat_of_nat_less)
    have b: "unat (of_nat a :: u32) + k < 4294967296" using a(2) k gm u by simp
    have "unat (target_sp s) + 64 + 4 * (n + 2) \<le> a" using a(1) room by simp
    then have "g2h_at base (of_nat a + of_nat k) \<notin>
        guest_range base (unat (target_sp s) + 64) (unat (target_sp s) + 64 + 4 * (n + 2))"
      using unat_plus_of_nat [OF b] u by simp
    from m(2) [OF this] show
      "m (g2h_at base (of_nat (arg_addrs gm strs ! j)) + of_nat k) =
       m1 (g2h_at base (of_nat (arg_addrs gm strs ! j)) + of_nat k)"
      unfolding a_def [symmetric] by (simp only: g2h_at_plus [OF b])
  qed
  ultimately show ?thesis using m(2,3) m1(2) unfolding ws_def by auto
qed

section \<open>The initial state\<close>

abbreviation placed :: "'w sl_state \<Rightarrow> u64 \<Rightarrow> u64 \<Rightarrow> u32 \<Rightarrow> 'w sl_state" where
  "placed s gb gm sp \<equiv> s\<lparr>guest_base := gb, guest_max_mem := gm, target_sp := sp\<rparr>"

text \<open>The state in which \<open>sl_init\<close> calls \<open>init_stack\<close>.\<close>

definition init_state :: "u32 \<Rightarrow> u32 \<Rightarrow> u64 \<Rightarrow> u64 \<Rightarrow> 'w sl_state \<Rightarrow> 'w sl_state" where
  "init_state brk sp gb gm s =
     s\<lparr>guest_base := gb, guest_max_mem := gm, target_brk := brk,
       target_brk_limit := ucast (gm div 4), target_cur_mmap_ptr := ucast (gm div 4),
       target_mmap_limit := ucast (gm div 2), target_sp := sp, target_exit_called := 0,
       target_to_host_errno_table := build_target_to_host_errno (target_to_host_errno_table s)\<rparr>"

lemma run_sl_init:
  "run_state (sl_init brk sp gb gm argc argv) s =
    run_state (init_stack argc argv) (init_state brk sp gb gm s)"
  by (simp add: sl_init_def init_state_def)

lemma args_ok_init_state:
  "args_ok (init_state brk sp gb gm s) argv strs = args_ok (placed s gb gm sp) argv strs"
  by (simp add: args_ok_def init_state_def)

lemma arg_word:
  "j < length as \<Longrightarrow> (x # as @ [0]) ! Suc j = as ! j" "(x # as @ [0]) ! Suc (length as) = 0"
  by (simp_all add: nth_append)

text \<open>C5: The program finds its arguments where the SPARC start-up code looks for them: above the
  register window at the stack pointer \<open>argc\<close>, then one pointer per argument to a copy of its
  string in guest memory, then a zero word; nothing else in memory changes but the stack words
  and the argument area below the top of guest memory.  This is so if the block of guest memory,
  of less than 4 GB, lies inside host memory, the arguments are zero-terminated strings outside
  it, none of them with its zero fills whole units of 16 bytes (for those one byte too
  many is copied, see below), and the stack pointer leaves room for them.\<close>

theorem sl_init_passes_arguments:
  fixes s :: "'w sl_state"
  assumes "args_ok (placed s gb gm sp) argv strs"
  shows "\<exists>m. run_state (sl_init brk sp gb gm (int (length strs)) argv) s =
      (Inr (), (init_state brk sp gb gm s)\<lparr>hmem := m\<rparr>) \<and>
    word_at m gb (sp + 64) = to_abi (int (length strs)) \<and>
    (\<forall>j < length strs.
       c_string m (g2h_at gb (word_at m gb (sp + 68 + 4 * of_nat j))) (strs ! j)) \<and>
    word_at m gb (sp + 68 + 4 * of_nat (length strs)) = 0 \<and>
    (\<forall>q. q \<notin> guest_range gb (unat sp + 64) (unat sp + 72 + 4 * length strs) \<longrightarrow>
       q \<notin> guest_range gb (unat gm - args_size strs) (unat gm) \<longrightarrow> m q = hmem s q)"
proof -
  let ?s = "init_state brk sp gb gm s"
  have s: "guest_base ?s = gb" "guest_max_mem ?s = gm" "target_sp ?s = sp" "hmem ?s = hmem s"
    by (simp_all add: init_state_def)
  have ok: "args_ok ?s argv strs" using assms by (simp only: args_ok_init_state)
  obtain m where m:
    "run_state (init_stack (int (length strs)) argv) ?s = (Inr (), ?s\<lparr>hmem := m\<rparr>)"
    "\<And>j. j < length strs + 2 \<Longrightarrow> word_at m gb (sp + 64 + 4 * of_nat j) =
       (to_abi (int (length strs)) # map of_nat (arg_addrs (unat gm) strs) @ [0]) ! j"
    "\<And>j. j < length strs \<Longrightarrow> c_string m (g2h_at gb (of_nat (arg_addrs (unat gm) strs ! j))) (strs ! j)"
    "\<And>q. q \<notin> guest_range gb (unat sp + 64) (unat sp + 64 + 4 * (length strs + 2)) \<Longrightarrow>
       q \<notin> guest_range gb (unat gm - args_size strs) (unat gm) \<Longrightarrow> m q = hmem s q"
    using run_init_stack [OF ok] unfolding s by blast
  have next_word: "sp + 68 + 4 * of_nat j = sp + 64 + 4 * of_nat (Suc j)" for j
    by (simp add: algebra_simps)
  have "word_at m gb (sp + 64) = to_abi (int (length strs))"
    using m(2) [of 0] by simp
  moreover have "word_at m gb (sp + 68 + 4 * of_nat j) = of_nat (arg_addrs (unat gm) strs ! j)"
    if "j < length strs" for j
    unfolding next_word using that m(2) [of "Suc j"] by (simp only: arg_word length_map length_arg_addrs nth_map)
  moreover have "word_at m gb (sp + 68 + 4 * of_nat (length strs)) = 0"
    unfolding next_word using m(2) [of "Suc (length strs)"]
      arg_word(2) [of _ "map of_nat (arg_addrs (unat gm) strs)"] by simp
  moreover have e: "unat sp + 64 + 4 * (length strs + 2) = unat sp + 72 + 4 * length strs" by simp
  note m(4) [unfolded e]
  ultimately show ?thesis
    using m(1,3) run_sl_init [of brk sp gb gm "int (length strs)" argv s]
    by (intro exI [of _ m]) auto
qed

definition demo_argument :: "u8 list" where "demo_argument = [104, 105]"

definition demo_start :: "unit sl_state" where
  "demo_start = demo_state\<lparr>hmem := mem_write (\<lambda>a. 0) 0x1000 (demo_argument @ [0])\<rparr>"

lemma demo_argument_length: "length demo_argument = 2" "0 \<notin> set demo_argument"
  by (simp_all add: demo_argument_def)

lemma demo_c_string: "c_string (hmem demo_start) 0x1000 demo_argument"
proof -
  have "mem_read (mem_write (\<lambda>a. 0) 0x1000 (demo_argument @ [0])) 0x1000 (length (demo_argument @ [0])) =
      demo_argument @ [0]"
    by (rule mem_read_write_same) (simp_all add: demo_argument_length)
  then show ?thesis
    by (simp add: c_string_def demo_start_def demo_argument_length)
qed

lemma demo_args_ok:
  "args_ok (placed demo_start 0x700000000000 0x40000000 0x3fc00000) [0x1000] [demo_argument]"
proof -
  have ok: "base_ok 0x700000000000" by (simp add: base_ok_def)
  have "(0x1000 + of_nat k :: u64) < 0x700000000000" if "k < 3" for k :: nat
  proof -
    have "k = 0 \<or> k = 1 \<or> k = 2" using that by linarith
    then show ?thesis by (elim disjE) simp_all
  qed
  then have "0x1000 + of_nat k \<notin> guest_range 0x700000000000 lo hi" if "k < 3" for k lo hi
    using that guest_range_low [OF ok] by blast
  then show ?thesis
    using demo_c_string ok
    by (simp add: args_ok_def padded_def arg_size_def demo_argument_length)
qed

theorem sl_init_passes_arguments_witness:
  "\<exists>m. run_state (sl_init 0x20000 0x3fc00000 0x700000000000 0x40000000 1 [0x1000]) demo_start =
      (Inr (), (init_state 0x20000 0x3fc00000 0x700000000000 0x40000000 demo_start)\<lparr>hmem := m\<rparr>) \<and>
    word_at m 0x700000000000 0x3fc00040 = 1"
  using sl_init_passes_arguments [OF demo_args_ok, of "0x20000"] by (auto simp: to_abi_def)

text \<open>C6: Whatever the arguments, \<open>sl_init\<close> establishes the layout of the address space (heap
  below its limit, the limit below the mappings, the mapping pointer below its limit, and that
  below 2 GB) when the program's break is in the first quarter of a guest memory of less than 4
  GB, and any run that asks for no mapping of more than 2 GB keeps it.\<close>

theorem sl_init_establishes_layout:
  assumes "unat brk \<le> unat gm div 4" and "unat gm < 2 ^ 32"
    and "run os (state_after (sl_init brk sp gb gm argc argv) s) cs t" and "list_all tame cs"
  shows "layout_inv (state_after (sl_init brk sp gb gm argc argv) s) \<and> layout_inv t"
proof -
  have q: "unat (ucast (gm div 4) :: u32) = unat gm div 4" "unat (ucast (gm div 2) :: u32) = unat gm div 2"
    using assms(2) by (simp_all add: unat_ucast_small unat_div)
  have d: "unat gm div 4 \<le> unat gm div 2" "unat gm div 2 < 2147483648" using assms(2) by simp_all
  have "layout_inv (init_state brk sp gb gm s)"
    using assms(1) q d
    by (simp add: layout_inv_def layout_ok_def abs_aspace_def mmap_ok_def init_state_def
        word_le_nat_alt word_less_nat_alt)
  moreover have "same_core (init_state brk sp gb gm s)
      (state_after (sl_init brk sp gb gm argc argv) s)"
    using framedD [OF framed_init_stack] by (simp add: run_sl_init)
  ultimately have "layout_inv (state_after (sl_init brk sp gb gm argc argv) s)"
    by (simp add: same_core_layout)
  then show ?thesis using run_invariant(2) [OF assms(3)] assms(4) by blast
qed

theorem sl_init_establishes_layout_witness:
  "layout_inv (state_after (sl_init 0x20000 0x3fc00000 0x700000000000 0x40000000 0 []) demo_state)"
proof -
  let ?s = "state_after (sl_init 0x20000 0x3fc00000 0x700000000000 0x40000000 0 []) demo_state"
  have "run demo_os ?s [] ?s" by (rule run.stop)
  from sl_init_establishes_layout [OF _ _ this] show ?thesis by simp
qed

text \<open>C34: After \<open>sl_init\<close> the table from guest to host errno numbers is the inverse of the
  table from host to guest: for every errno with an entry, converting forth and looking it up
  gives the errno back.\<close>

theorem sl_init_inverts_errno_table:
  assumes "length (target_to_host_errno_table s) = nat ERRNO_TABLE_SIZE" and "errno_entry e \<noteq> 0"
  shows "target_to_host_errno_table (state_after (sl_init brk sp gb gm argc argv) s) !
      nat (errno_entry e) = e"
proof -
  have "same_core (init_state brk sp gb gm s) (state_after (sl_init brk sp gb gm argc argv) s)"
    using framedD [OF framed_init_stack] by (simp add: run_sl_init)
  then show ?thesis
    using target_to_host_inverts [OF assms] by (simp add: same_core_def init_state_def)
qed

theorem sl_init_inverts_errno_table_witness:
  "target_to_host_errno_table (state_after (sl_init 0 0 0 0 0 []) demo_state) ! 38 = 38"
  using sl_init_inverts_errno_table [of demo_state 38 0 0 0 0 0 "[]"]
  by (simp add: demo_state_def ERRNO_TABLE_SIZE_def errno_entry_def host_to_target_errno_table_def)

lemma arg_size_exact:
  assumes "\<not> padded str"
  shows "arg_size str = length str + 1"
proof -
  obtain k where "length str + 1 = 16 * k" using assms by (auto simp: padded_def)
  then show ?thesis by (simp add: arg_size_def)
qed

text \<open>C39: One byte too many: the length of an argument counts its terminating zero, and one more
  byte than that is copied.  For a program with a single argument whose length with the zero is a
  multiple of 16 (and for which there is room) the byte is written behind the space reserved, on
  the first byte after guest memory: whatever follows the string in host memory ends up there.\<close>

theorem init_stack_overruns_memory:
  fixes s :: "'w sl_state"
  assumes "base_ok (guest_base s)" and "unat (guest_max_mem s) < 2 ^ 32"
    and "str_at \<noteq> 0" and "c_string (hmem s) str_at str" and "\<not> padded str"
    and "length str + 1 \<le> unat (guest_max_mem s)"
    and "unat (target_sp s) + 64 + 12 \<le> unat (guest_max_mem s)"
  shows "hmem (state_after (init_stack 1 [str_at]) s) (g2h_at (guest_base s) (ucast (guest_max_mem s))) =
    hmem s (str_at + of_nat (length str + 1))"
proof -
  define base where "base = guest_base s"
  define gm :: u32 where "gm = ucast (guest_max_mem s)"
  define n where "n = length str + 1"
  have gm: "unat gm = unat (guest_max_mem s)"
    using assms(2) by (simp add: gm_def unat_ucast_small)
  have size: "arg_size str = n" using arg_size_exact [OF assms(5)] by (simp add: n_def)
  have n: "n \<le> unat gm" using assms(6) gm by (simp add: n_def)
  define gp where "gp = gm - of_nat n"
  define m0 where "m0 = mem_copy (hmem s) (g2h_at base gp) str_at (n + 1)"
  let ?s = "s\<lparr>hmem := m0\<rparr>"
  have gp: "unat gp = unat gm - n" "gp + of_nat n = gm"
    using n unat_u32_less [of gm]
    by (simp_all add: gp_def unat_sub word_le_nat_alt unat_of_nat_less)
  have "run_state (copy_args [str_at] (Suc 0) gm []) s = (Inr [gp], ?s)"
    using copy_args_Suc [of "[str_at]" 0 s str gm base "[]"] assms(3,4) n
    by (simp add: size base_def gp_def m0_def n_def del: copy_args.simps(2))
  then have run: "run_state (init_stack 1 [str_at]) s =
      (Inr (), state_after (put_words [to_abi 1, gp, 0] (target_sp s + 64)) ?s)"
    using init_stack_unfold [of "[str_at]" s "[gp]" ?s] by (simp add: gm_def del: put_words.simps)
  have sp: "unat (target_sp s + 64) = unat (target_sp s) + 64"
    using unat_plus_of_nat [of "target_sp s" 64] assms(7) gm unat_u32_less [of gm] by simp
  then obtain m where m: "state_after (put_words [to_abi 1, gp, 0] (target_sp s + 64)) ?s = ?s\<lparr>hmem := m\<rparr>"
    "\<And>q. q \<notin> guest_range base (unat (target_sp s) + 64) (unat (target_sp s) + 64 + 12) \<Longrightarrow> m q = m0 q"
    using run_put_words [of base ?s "target_sp s + 64" "[to_abi 1, gp, 0]"] assms(1,7) gm
      unat_u32_less [of gm] by (auto simp: base_def simp del: put_words.simps)
  have "g2h_at base gm = g2h_at base gp + of_nat n"
    using g2h_at_plus [of gp n base] gp n unat_u32_less [of gm] by simp
  then have "m0 (g2h_at base gm) = hmem s (str_at + of_nat n)"
    using n unat_u32_less [of gm]
    by (simp add: m0_def mem_copy_def mem_write_def mem_read_def unat_of_nat_less nth_append)
  moreover have "m (g2h_at base gm) = m0 (g2h_at base gm)"
    using assms(7) gm by (intro m(2)) simp
  ultimately have "m (g2h_at base gm) = hmem s (str_at + of_nat n)" by simp
  then show ?thesis unfolding run snd_conv m(1) base_def gm_def n_def by simp
qed

definition demo_full :: "u8 list" where "demo_full = replicate 15 65"

definition demo_full_start :: "unit sl_state" where
  "demo_full_start = demo_state\<lparr>hmem := mem_write (\<lambda>a. 0) 0x1000 (demo_full @ [0, 7])\<rparr>"

lemma demo_full_facts: "length demo_full = 15" "0 \<notin> set demo_full" "\<not> padded demo_full"
  by (simp_all add: demo_full_def padded_def)

lemma demo_full_start_facts: "c_string (hmem demo_full_start) 0x1000 demo_full"
  "hmem demo_full_start (0x1000 + 16) = 7"
proof -
  have "mem_read (hmem demo_full_start) 0x1000 17 = demo_full @ [0, 7]"
    unfolding demo_full_start_def
    by (simp add: mem_read_write_same demo_full_facts)
  moreover have "mem_read (hmem demo_full_start) 0x1000 17 =
      mem_read (hmem demo_full_start) 0x1000 16 @ mem_read (hmem demo_full_start) (0x1000 + 16) 1"
    using mem_read_append [of "hmem demo_full_start" "0x1000" 16 1] by simp
  ultimately have "mem_read (hmem demo_full_start) 0x1000 16 = demo_full @ [0] \<and>
      mem_read (hmem demo_full_start) (0x1000 + 16) 1 = [7]"
    using append_eq_append_conv [of "mem_read (hmem demo_full_start) 0x1000 16" "demo_full @ [0]"]
    by (simp add: demo_full_facts)
  then show "c_string (hmem demo_full_start) 0x1000 demo_full" "hmem demo_full_start (0x1000 + 16) = 7"
    by (simp_all add: c_string_def demo_full_facts mem_read_def)
qed

theorem init_stack_overruns_memory_witness:
  "hmem (state_after (init_stack 1 [0x1000]) demo_full_start) (0x700000000000 + 0x40000000) = 7"
proof -
  have s: "guest_base demo_full_start = 0x700000000000" "guest_max_mem demo_full_start = 0x40000000"
    "target_sp demo_full_start = 0x3fc00000"
    by (simp_all add: demo_full_start_def demo_state_def)
  show ?thesis
    using init_stack_overruns_memory [of demo_full_start "0x1000" demo_full]
      demo_full_start_facts demo_full_facts
    by (simp add: s base_ok_def g2h_at_def)
qed

end
