(* ===== verification/Bus.thy ===== *)
theory Bus
  imports Bswap
begin

unbundle bit_operations_syntax

text \<open>
  The memory side of the processor's bus: \<open>System::tick\<close> of \<open>proj/system.cpp\<close>, which the
  test bench calls at every clock edge, and the callback \<open>dram_read_complete\<close>.

  A \<open>system\<close> record holds the members of the class.  The RAM is a range of host memory that
  starts at \<open>ram\<close> (the memory that the system calls work on).  The pins of the Verilog module
  are a record \<open>vtop\<close>; its extension is the rest of the processor.  DRAMSim2 is a library the
  repository does not have: a record of the three functions the code calls, over an abstract
  state; \<open>update\<close> tells the reads whose callback it runs, in their order.  (The callback for
  writes is empty.)

  A failed assertion (the program is built with assertions) or an access outside the RAM ends
  a step with \<open>Inl\<close>.
\<close>

section \<open>Pins, members, the library\<close>

record vtop =
  clk :: bool
  reset :: bool
  entry :: u64
  bus_reqcyc :: bool
  bus_respack :: bool
  bus_req :: u64
  bus_reqtag :: u16
  bus_respcyc :: bool
  bus_reqack :: bool
  bus_resp :: u64
  bus_resptag :: u16

record 'd dram_sim =
  willAcceptTransaction :: "'d \<Rightarrow> bool"
  addTransaction :: "bool \<Rightarrow> u64 \<Rightarrow> 'd \<Rightarrow> bool \<times> 'd"
  update :: "'d \<Rightarrow> u64 list \<times> 'd"

datatype message = Request_on_reset | Already_outstanding u64

text \<open>A character on the console: attribute, row, column, character.\<close>

type_synonym screen_char = "u32 \<times> nat \<times> nat \<times> u32"

record 'd system =
  host_mem :: hostmem
  ram :: u64
  ramsize :: u32
  max_elf_addr :: u64
  interrupts :: u32
  keys :: "u8 list"
  show_console :: bool
  cmd :: nat
  rx_count :: int
  xfer_addr :: u64
  addr_to_tag :: "u64 \<rightharpoonup> u32"
  tx_queue :: "(u64 \<times> u32) list"
  dramsim :: 'd
  screen :: "screen_char list"
  messages :: "message list"

datatype stop = Assertion_failed | Outside_ram | Exit_called

definition READ :: nat where "READ = 1"
definition WRITE :: nat where "WRITE = 0"
definition MEMORY :: nat where "MEMORY = 1"
definition MMIO :: nat where "MMIO = 3"
definition PORT :: nat where "PORT = 4"
definition IRQ :: u32 where "IRQ = 14"
definition IRQ_TIMER :: nat where "IRQ_TIMER = 0"
definition IRQ_KBD :: nat where "IRQ_KBD = 1"
definition ps_per_clock :: nat where "ps_per_clock = 500"

definition be32toh :: "u32 \<Rightarrow> u32" where
  "be32toh x = bswap32 x"

definition cse502_be64toh :: "u64 \<Rightarrow> u64" where
  "cse502_be64toh x = push_bit 32 (ucast (be32toh (ucast (x AND 0xFFFFFFFF)))) OR
     ucast (be32toh (ucast (drop_bit 32 (x AND 0xFFFFFFFF00000000))))"

section \<open>The RAM\<close>

definition in_ram :: "'d system \<Rightarrow> u64 \<Rightarrow> bool" where
  "in_ram s off \<longleftrightarrow> unat off + 8 \<le> unat (ramsize s)"

definition ram_load :: "'d system \<Rightarrow> u64 \<Rightarrow> stop + u64" where
  "ram_load s off = (if in_ram s off then Inr (ldq_he_p (host_mem s) (ram s + off)) else Inl Outside_ram)"

definition ram_store :: "u64 \<Rightarrow> u64 \<Rightarrow> 'd system \<Rightarrow> stop + 'd system" where
  "ram_store off v s =
    (if in_ram s off then Inr (s\<lparr>host_mem := stq_he_p (host_mem s) (ram s + off) v\<rparr>) else Inl Outside_ram)"

text \<open>The word \<open>k\<close> bytes after \<open>address\<close> in its line of 64 bytes, turning at the end.\<close>

definition line_word :: "u64 \<Rightarrow> u64 \<Rightarrow> u64" where
  "line_word address k = (address AND NOT 63) + ((address + k) AND 63)"

section \<open>Callbacks\<close>

primrec fill :: "u64 \<Rightarrow> u32 \<Rightarrow> nat list \<Rightarrow> 'd system \<Rightarrow> stop + 'd system" where
  "fill address tag [] s = Inr s"
| "fill address tag (i # is) s =
    (case ram_load s (line_word address (of_nat i)) of
       Inl e \<Rightarrow> Inl e
     | Inr x \<Rightarrow> fill address tag is (s\<lparr>tx_queue := tx_queue s @ [(cse502_be64toh x, tag)]\<rparr>))"

definition dram_read_complete :: "u64 \<Rightarrow> 'd system \<Rightarrow> stop + 'd system" where
  "dram_read_complete address s =
    (case addr_to_tag s address of
       None \<Rightarrow> Inl Assertion_failed
     | Some tag \<Rightarrow>
        (case fill address tag [0, 8, 16, 24, 32, 40, 48, 56] s of
           Inl e \<Rightarrow> Inl e
         | Inr s \<Rightarrow> Inr (s\<lparr>addr_to_tag := (addr_to_tag s)(address := None)\<rparr>)))"

definition dram_write_complete :: "u64 \<Rightarrow> 'd system \<Rightarrow> 'd system" where
  "dram_write_complete address s = s"

primrec callbacks :: "u64 list \<Rightarrow> 'd system \<Rightarrow> stop + 'd system" where
  "callbacks [] s = Inr s"
| "callbacks (a # as) s =
    (case dram_read_complete a s of Inl e \<Rightarrow> Inl e | Inr s \<Rightarrow> callbacks as s)"

definition dram_update :: "'d dram_sim \<Rightarrow> 'd system \<Rightarrow> stop + 'd system" where
  "dram_update D s = (case update D (dramsim s) of (done, d) \<Rightarrow> callbacks done (s\<lparr>dramsim := d\<rparr>))"

section \<open>The clock edges\<close>

definition keyboard :: "nat \<Rightarrow> u32 option \<Rightarrow> 'd system \<Rightarrow> 'd system" where
  "keyboard main_time getch s =
    (if main_time mod (ps_per_clock * 1000) = 0 then
       (case getch of
          None \<Rightarrow> s
        | Some ch \<Rightarrow>
            if interrupts s AND push_bit IRQ_KBD 1 = 0 then
              s\<lparr>interrupts := interrupts s OR push_bit IRQ_KBD 1,
                tx_queue := tx_queue s @ [(of_nat IRQ_KBD, IRQ)],
                keys := keys s @ [ucast ch]\<rparr>
            else s)
     else s)"

definition respond :: "'t vtop_scheme \<times> 'd system \<Rightarrow> 't vtop_scheme \<times> 'd system" where
  "respond = (\<lambda>(pins, s).
     let s = (if tx_queue s \<noteq> [] \<and> bus_respack pins then s\<lparr>tx_queue := tl (tx_queue s)\<rparr> else s)
     in (case tx_queue s of
           (resp, tag) # _ \<Rightarrow> (pins\<lparr>bus_respcyc := True, bus_resp := resp, bus_resptag := ucast tag\<rparr>, s)
         | [] \<Rightarrow>
            (pins\<lparr>bus_respcyc := False, bus_resp := 0xaaaaaaaaaaaaaaaa, bus_resptag := 0xaaaa\<rparr>, s)))"

text \<open>One 16-bit cell of the console for every second byte of the word.\<close>

definition console_cells :: "u64 \<Rightarrow> u64 \<Rightarrow> screen_char list" where
  "console_cells addr x =
    (let screenpos = unat (addr - 0xb8000)
     in map (\<lambda>shift. let val = ucast (drop_bit (8 * shift) (cse502_be64toh x) AND 0xffff) :: u32
               in (val AND NOT 0xff, screenpos div 160, screenpos mod 160 + shift div 2, val AND 0xff))
         [0, 2, 4, 6])"

definition request_cmd :: "'t vtop_scheme \<Rightarrow> nat" where
  "request_cmd pins = unat (drop_bit 8 (bus_reqtag pins) AND 0xf)"

text \<open>A word of data of the write in progress.\<close>

definition receive_data :: "'t vtop_scheme \<Rightarrow> 'd system \<Rightarrow> stop + 'd system" where
  "receive_data pins s =
    (let stored =
       (if cmd s = MEMORY then
          ram_store (line_word (xfer_addr s) (word_of_int ((8 - rx_count s) * 8)))
            (cse502_be64toh (bus_req pins)) s
        else if cmd s = MMIO then
          (if xfer_addr s < ucast (ramsize s) then
             map_sum id (\<lambda>s. if show_console s \<and> xfer_addr s - 0xb8000 < 80 * 25 * 2
                then s\<lparr>screen := screen s @ console_cells (xfer_addr s) (bus_req pins)\<rparr> else s)
               (ram_store (xfer_addr s) (bus_req pins) s)
           else Inl Assertion_failed)
        else Inr s)
     in map_sum id (\<lambda>s. s\<lparr>rx_count := rx_count s - 1\<rparr>) stored)"

definition is_write :: "'t vtop_scheme \<Rightarrow> bool" where
  "is_write pins \<longleftrightarrow> unat (drop_bit 12 (bus_reqtag pins) AND 1) = WRITE"

definition memory_request :: "'d dram_sim \<Rightarrow> 't vtop_scheme \<Rightarrow> 'd system \<Rightarrow> stop + 'd system" where
  "memory_request D pins s =
    (let s = s\<lparr>xfer_addr := bus_req pins\<rparr>
     in if xfer_addr s AND 7 \<noteq> 0 then Inl Assertion_failed
        else if addr_to_tag s (xfer_addr s) \<noteq> None then
          Inr (s\<lparr>messages := messages s @ [Already_outstanding (xfer_addr s)]\<rparr>)
        else (case addTransaction D (is_write pins) (xfer_addr s) (dramsim s) of (accepted, d) \<Rightarrow>
          let s = s\<lparr>dramsim := d\<rparr>
          in if \<not> accepted then Inl Assertion_failed
             else if \<not> is_write pins then
               Inr (s\<lparr>addr_to_tag := (addr_to_tag s)(xfer_addr s \<mapsto> ucast (bus_reqtag pins))\<rparr>)
             else Inr s))"

definition mmio_request :: "'t vtop_scheme \<Rightarrow> 'd system \<Rightarrow> stop + 'd system" where
  "mmio_request pins s =
    (let s = s\<lparr>xfer_addr := bus_req pins\<rparr>
     in if xfer_addr s AND 7 \<noteq> 0 then Inl Assertion_failed
        else if \<not> is_write pins then
          map_sum id (\<lambda>x. s\<lparr>tx_queue := tx_queue s @ [(x, ucast (bus_reqtag pins))]\<rparr>)
            (ram_load s (xfer_addr s))
        else Inr s)"

definition new_request :: "'d dram_sim \<Rightarrow> 't vtop_scheme \<Rightarrow> 'd system \<Rightarrow> stop + 'd system" where
  "new_request D pins s =
    (let s = s\<lparr>rx_count :=
          (if cmd s = MEMORY \<and> is_write pins then 8
           else if cmd s = MMIO \<and> is_write pins then 1 else 0)\<rparr>
     in if cmd s = MEMORY then memory_request D pins s
        else if cmd s = MMIO then mmio_request pins s
        else Inl Assertion_failed)"

definition serve :: "'d dram_sim \<Rightarrow> 't vtop_scheme \<times> 'd system \<Rightarrow> stop + 't vtop_scheme \<times> 'd system" where
  "serve D = (\<lambda>(pins, s).
     if bus_reqcyc pins then
       let s = s\<lparr>cmd := request_cmd pins\<rparr>
       in map_sum id (Pair pins) (if rx_count s \<noteq> 0 then receive_data pins s else new_request D pins s)
     else Inr (pins\<lparr>bus_reqack := False\<rparr>, s\<lparr>rx_count := 0\<rparr>))"

definition tick :: "'d dram_sim \<Rightarrow> nat \<Rightarrow> u32 option \<Rightarrow> bool \<Rightarrow>
    't vtop_scheme \<times> 'd system \<Rightarrow> stop + 't vtop_scheme \<times> 'd system" where
  "tick D main_time getch edge = (\<lambda>(pins, s).
     if reset pins \<and> bus_reqcyc pins then Inr (pins, s\<lparr>messages := messages s @ [Request_on_reset]\<rparr>)
     else if \<not> edge then
       (if bus_reqcyc pins then
          let ack = willAcceptTransaction D (dramsim s)
          in if rx_count s = 0 \<or> ack then Inr (pins\<lparr>bus_reqack := ack\<rparr>, s) else Inl Assertion_failed
        else Inr (pins, s))
     else
       (case dram_update D (keyboard main_time getch s) of
          Inl e \<Rightarrow> Inl e
        | Inr s \<Rightarrow> serve D (respond (pins, s))))"

end
