(* ===== verification/Bus_Facts.thy ===== *)
theory Bus_Facts
  imports Bus "HOL-Library.Multiset"
begin

unbundle bit_operations_syntax

text \<open>
  What the operations of the bus do: the byte order of a word on its way between RAM and bus,
  the words of a line, the bursts, the reads in flight, and runs of clock edges.
\<close>

section \<open>Byte order\<close>

lemma be64toh_lanes:
  "cse502_be64toh x = push_bit 32 (ucast (bswap32 (ucast x))) OR ucast (bswap32 (ucast (drop_bit 32 x)))"
proof -
  have "(ucast (x AND 0xFFFFFFFF) :: u32) = ucast x"
  proof (rule bit_word_eqI)
    fix n assume n: "n < LENGTH(32)"
    have m: "(0xFFFFFFFF :: u64) = mask 32" by (simp add: mask_eq_exp_minus_1)
    show "bit (ucast (x AND 0xFFFFFFFF) :: u32) n = bit (ucast x :: u32) n"
      unfolding m using n by (simp add: bit_simps)
  qed
  moreover have "(ucast (drop_bit 32 (x AND 0xFFFFFFFF00000000)) :: u32) = ucast (drop_bit 32 x)"
  proof (rule bit_word_eqI)
    fix n assume n: "n < LENGTH(32)"
    have m: "(0xFFFFFFFF00000000 :: u64) = push_bit 32 (mask 32)" by (simp add: mask_eq_exp_minus_1)
    show "bit (ucast (drop_bit 32 (x AND 0xFFFFFFFF00000000)) :: u32) n =
        bit (ucast (drop_bit 32 x) :: u32) n"
      unfolding m using n by (simp add: bit_simps)
  qed
  ultimately show ?thesis by (simp add: cse502_be64toh_def be32toh_def)
qed

lemma be64toh_bswap64: "cse502_be64toh x = bswap64 x"
proof (rule bit_word_eqI)
  fix n assume "n < LENGTH(64)"
  then have "n < 64" by simp
  have "\<not> bit (w :: u32) n" if "32 \<le> n" for w
    using that bit_imp_le_length [of w n] by auto
  with \<open>n < 64\<close> show "bit (cse502_be64toh x) n = bit (bswap64 x) n"
    by (cases rule: lanes64)
      (simp_all add: be64toh_lanes bit_simps bit_bswap32 bit_bswap64 less_diff_conv2 add.commute)
qed

lemma bus_load: "cse502_be64toh (ldq_he_p m p) = ldq_be_p m p"
  by (simp add: be64toh_bswap64 ldq_be_p_def)

lemma bus_store: "stq_he_p m p (cse502_be64toh v) = stq_be_p m p v"
  by (simp add: be64toh_bswap64 stq_be_p_def)

section \<open>Lines\<close>

lemma unat_and_63: "unat ((a :: u64) AND 63) = unat a mod 64"
proof -
  have "(63 :: u64) = mask 6" by (simp add: mask_eq_exp_minus_1)
  then have "a AND 63 = take_bit 6 a" by (simp only: take_bit_eq_mask)
  then show ?thesis by (simp add: unsigned_take_bit_eq take_bit_eq_mod unat_mod)
qed

lemma unat_and_7: "unat ((a :: u64) AND 7) = unat a mod 8"
proof -
  have "(7 :: u64) = mask 3" by (simp add: mask_eq_exp_minus_1)
  then have "a AND 7 = take_bit 3 a" by (simp only: take_bit_eq_mask)
  then show ?thesis by (simp add: unsigned_take_bit_eq take_bit_eq_mod unat_mod)
qed

lemma aligned_iff: "(a :: u64) AND 7 = 0 \<longleftrightarrow> unat a mod 8 = 0"
  by (simp add: word_unat_eq_iff unat_and_7)

lemma and_not_eq_diff: "(a :: u64) AND NOT b = a - (a AND b)"
proof -
  have "(a AND b) AND (a AND NOT b) = 0" "(a AND b) OR (a AND NOT b) = a"
    by (rule bit_word_eqI; auto simp: bit_simps)+
  then have "(a AND b) + (a AND NOT b) = a"
    using word_plus_and_or [of "a AND b" "a AND NOT b"] by simp
  then show ?thesis by (simp only: eq_diff_eq add.commute)
qed

lemma unat_and_not_63: "unat ((a :: u64) AND NOT 63) = unat a div 64 * 64"
proof -
  have "(a AND 63) \<le> a" unfolding word_le_nat_alt unat_and_63 by simp
  then show ?thesis
    unfolding and_not_eq_diff by (simp only: unat_sub unat_and_63 minus_mod_eq_div_mult)
qed

lemma unat_sum_63: "unat ((a + of_nat k :: u64) AND 63) = (unat a + k) mod 64"
proof -
  have m: "(x mod 18446744073709551616) mod 64 = x mod 64" for x :: nat
    by (rule mod_mod_cancel) simp
  show ?thesis
    unfolding unat_and_63 by (simp add: unat_word_ariths unsigned_of_nat take_bit_eq_mod mod_simps m)
qed

lemma unat_line_word:
  "unat (line_word a (of_nat k)) = unat a div 64 * 64 + (unat a + k) mod 64"
proof -
  have "unat a div 64 < 288230376151711744"
    using unat_u64_less [of a] by (intro less_mult_imp_div_less) simp
  then have "unat a div 64 * 64 + (unat a + k) mod 64 < 18446744073709551616"
    using mod_less_divisor [of 64 "unat a + k"] by linarith
  then show ?thesis
    unfolding line_word_def unat_word_ariths unat_and_not_63 unat_sum_63 by simp
qed

text \<open>The line of an address lies in the RAM.\<close>

definition line_in_ram :: "'d system \<Rightarrow> u64 \<Rightarrow> bool" where
  "line_in_ram s a \<longleftrightarrow> unat a div 64 * 64 + 64 \<le> unat (ramsize s)"

lemma aligned_mod:
  assumes "(a :: u64) AND 7 = 0"
  shows "(unat a + 8 * i) mod 64 = 8 * ((unat a div 8 + i) mod 8)"
proof -
  have "unat a mod 8 = 0" using assms by (simp only: aligned_iff)
  then have "unat a = 8 * (unat a div 8)" using mult_div_mod_eq [of 8 "unat a"] by linarith
  then have "(unat a + 8 * i) mod 64 = (8 * (unat a div 8 + i)) mod (8 * 8)" by simp
  then show ?thesis by (simp only: mult_mod_right)
qed

lemma line_word_in_ram:
  assumes "line_in_ram s a" and "a AND 7 = 0"
  shows "in_ram s (line_word a (of_nat (8 * i)))"
proof -
  have "(unat a + 8 * i) mod 64 + 8 \<le> 64" using aligned_mod [OF assms(2)] by simp
  then show ?thesis
    using assms(1) unfolding in_ram_def line_in_ram_def unat_line_word by linarith
qed

lemma disjoint_offsets:
  assumes "unat (x :: u64) + 8 \<le> unat y \<or> unat y + 8 \<le> unat x"
    and "unat x + 8 \<le> 2 ^ 64" and "unat y + 8 \<le> 2 ^ 64"
  shows "disjoint (p + x) 8 (p + y) 8"
  unfolding disjoint_def in_range_def
proof (intro allI impI)
  fix i :: nat assume i: "i < 8"
  have u: "unat (of_nat i :: u64) = i" using i by (simp add: unat_of_nat_less)
  have x: "unat (x + of_nat i) = unat x + i"
    using assms(2) i by (simp add: unat_word_ariths u)
  have "p + x + of_nat i - (p + y) = (x + of_nat i) - y" by simp
  then have "unat (p + x + of_nat i - (p + y)) = (if unat y \<le> unat x + i then unat x + i - unat y
      else unat x + i + 18446744073709551616 - unat y)"
    by (simp only: unat_sub_u64 x)
  then show "\<not> unat (p + x + of_nat i - (p + y)) < 8"
    using assms i by (auto split: if_splits)
qed

lemma add_mod_8:
  assumes "i < (8 :: nat)"
  shows "(q + i) mod 8 = (if q mod 8 + i < 8 then q mod 8 + i else q mod 8 + i - 8)"
proof -
  have "(q + i) mod 8 = (q mod 8 + i) mod 8" by (simp only: mod_add_left_eq)
  then show ?thesis using assms mod_less_divisor [of 8 q] by (auto simp: le_mod_geq)
qed

lemma line_words_disjoint:
  assumes "a AND 7 = 0" and "i < 8" and "j < 8" and "i \<noteq> j"
  shows "disjoint (p + line_word a (of_nat (8 * i))) 8 (p + line_word a (of_nat (8 * j))) 8"
proof (rule disjoint_offsets)
  let ?q = "unat a div 8"
  have "(?q + i) mod 8 \<noteq> (?q + j) mod 8" using assms(2-4) by (auto simp: add_mod_8) linarith
  then show "unat (line_word a (of_nat (8 * i))) + 8 \<le> unat (line_word a (of_nat (8 * j))) \<or>
      unat (line_word a (of_nat (8 * j))) + 8 \<le> unat (line_word a (of_nat (8 * i)))"
    unfolding unat_line_word aligned_mod [OF assms(1)] by linarith
  have "unat a div 64 < 288230376151711744"
    using unat_u64_less [of a] by (intro less_mult_imp_div_less) simp
  then have "unat a div 64 * 64 + 8 * (r mod 8) + 8 \<le> 2 ^ 64" for r :: nat
    using mod_less_divisor [of 8 r] by simp
  then show "unat (line_word a (of_nat (8 * i))) + 8 \<le> 2 ^ 64"
    "unat (line_word a (of_nat (8 * j))) + 8 \<le> 2 ^ 64"
    unfolding unat_line_word aligned_mod [OF assms(1)] by (simp_all only: add.assoc)
qed

section \<open>The burst of a read\<close>

text \<open>The words of a line from a given one on, each with the tag of the request.\<close>

definition burst :: "'d system \<Rightarrow> u64 \<Rightarrow> u32 \<Rightarrow> (u64 \<times> u32) list" where
  "burst s a tag = map (\<lambda>i. (ldq_be_p (host_mem s) (ram s + line_word a (of_nat (8 * i))), tag)) [0..<8]"

lemma fill_result:
  assumes "line_in_ram s a" and "a AND 7 = 0"
  shows "fill a tag (map (\<lambda>i. 8 * i) is) s = Inr (s\<lparr>tx_queue := tx_queue s @
    map (\<lambda>i. (ldq_be_p (host_mem s) (ram s + line_word a (of_nat (8 * i))), tag)) is\<rparr>)"
  using assms(1)
proof (induction "is" arbitrary: s)
  case Nil
  then show ?case by simp
next
  case (Cons i "is")
  have "in_ram s (line_word a (of_nat (8 * i)))" using line_word_in_ram [OF Cons.prems assms(2)] .
  then show ?case
    using Cons.prems Cons.IH [of "s\<lparr>tx_queue := tx_queue s @
      [(ldq_be_p (host_mem s) (ram s + line_word a (of_nat (8 * i))), tag)]\<rparr>"]
    by (simp add: ram_load_def bus_load line_in_ram_def del: of_nat_mult of_nat_numeral)
qed

lemma dram_read_complete_result:
  assumes "line_in_ram s a" and "a AND 7 = 0" and "addr_to_tag s a = Some tag"
  shows "dram_read_complete a s = Inr (s\<lparr>tx_queue := tx_queue s @ burst s a tag,
    addr_to_tag := (addr_to_tag s)(a := None)\<rparr>)"
proof -
  have "[0, 8, 16, 24, 32, 40, 48, 56] = map (\<lambda>i. 8 * i) [0..<8 :: nat]" by (simp add: upt_rec)
  then show ?thesis
    using fill_result [OF assms(1,2), of tag "[0..<8]"] assms(3)
    by (simp add: dram_read_complete_def burst_def del: upt_rec_numeral)
qed

lemma fill_fields:
  assumes "fill a tag is s = Inr t"
  shows "t = s\<lparr>tx_queue := tx_queue s @
    map (\<lambda>i. (ldq_be_p (host_mem s) (ram s + line_word a (of_nat i)), tag)) is\<rparr>"
  using assms
proof (induction "is" arbitrary: s)
  case Nil
  then show ?case by simp
next
  case (Cons i "is")
  then have "fill a tag is (s\<lparr>tx_queue := tx_queue s @
      [(ldq_be_p (host_mem s) (ram s + line_word a (of_nat i)), tag)]\<rparr>) = Inr t"
    by (auto simp: ram_load_def bus_load split: if_splits)
  from Cons.IH [OF this] show ?case by simp
qed

lemma ram_load_never_asserts [simp]: "ram_load s off \<noteq> Inl Assertion_failed"
  by (simp add: ram_load_def)

lemma fill_never_asserts: "fill a tag is s \<noteq> Inl Assertion_failed"
  by (induction "is" arbitrary: s) (auto split: sum.splits)

text \<open>A callback changes the queue and the table of reads, and nothing else.\<close>

lemma read_complete_fields:
  assumes "dram_read_complete a s = Inr t"
  obtains tag where "addr_to_tag s a = Some tag"
    "t = s\<lparr>tx_queue := tx_queue s @ burst s a tag, addr_to_tag := (addr_to_tag s)(a := None)\<rparr>"
proof -
  obtain tag u where u: "addr_to_tag s a = Some tag"
    "fill a tag [0, 8, 16, 24, 32, 40, 48, 56] s = Inr u" "t = u\<lparr>addr_to_tag := (addr_to_tag u)(a := None)\<rparr>"
    using assms by (auto simp: dram_read_complete_def split: option.splits sum.splits)
  have "[0, 8, 16, 24, 32, 40, 48, 56] = map (\<lambda>i. 8 * i) [0..<8 :: nat]" by (simp add: upt_rec)
  then have "u = s\<lparr>tx_queue := tx_queue s @ burst s a tag\<rparr>"
    using fill_fields [OF u(2)] by (simp add: burst_def del: upt_rec_numeral of_nat_mult)
  then show ?thesis using that [of tag] u by simp
qed

definition bursts :: "'d system \<Rightarrow> u64 list \<Rightarrow> (u64 \<times> u32) list" where
  "bursts s as = concat (map (\<lambda>a. burst s a (the (addr_to_tag s a))) as)"

lemma callbacks_fields:
  assumes "callbacks as s = Inr t"
  shows "t = s\<lparr>tx_queue := tx_queue s @ bursts s as, addr_to_tag := (addr_to_tag s) |` (- set as)\<rparr> \<and>
    distinct as \<and> set as \<subseteq> dom (addr_to_tag s)"
  using assms
proof (induction as arbitrary: s)
  case Nil
  then show ?case by (simp add: bursts_def)
next
  case (Cons a as)
  obtain u where u: "dram_read_complete a s = Inr u" "callbacks as u = Inr t"
    using Cons.prems by (auto split: sum.splits)
  obtain tag where q: "addr_to_tag s a = Some tag"
    "u = s\<lparr>tx_queue := tx_queue s @ burst s a tag, addr_to_tag := (addr_to_tag s)(a := None)\<rparr>"
    using read_complete_fields [OF u(1)] by blast
  have q': "t = u\<lparr>tx_queue := tx_queue u @ bursts u as, addr_to_tag := addr_to_tag u |` (- set as)\<rparr>"
    "distinct as" "set as \<subseteq> dom (addr_to_tag u)"
    using Cons.IH [OF u(2)] by blast+
  have "(addr_to_tag s)(a := None) |` (- set as) = addr_to_tag s |` (- set (a # as))"
    by (auto simp: restrict_map_def)
  moreover have "a \<notin> set as" using q'(3) q(2) by auto
  then have "bursts u as = bursts s as"
    unfolding bursts_def q(2) by (intro arg_cong [where f = concat] map_cong) (auto simp: burst_def)
  ultimately show ?case using q q' by (auto simp: bursts_def)
qed

section \<open>What a step can change\<close>

lemma callbacks_never_assert:
  assumes "distinct as" and "set as \<subseteq> dom (addr_to_tag s)"
  shows "callbacks as s \<noteq> Inl Assertion_failed"
  using assms
proof (induction as arbitrary: s)
  case Nil
  then show ?case by simp
next
  case (Cons a as)
  show ?case
  proof (cases "dram_read_complete a s")
    case (Inl e)
    then have "e \<noteq> Assertion_failed"
      using Cons.prems fill_never_asserts
      by (auto simp: dram_read_complete_def split: option.splits sum.splits)
    then show ?thesis using Inl by simp
  next
    case (Inr u)
    from read_complete_fields [OF this] obtain tag where
      "u = s\<lparr>tx_queue := tx_queue s @ burst s a tag, addr_to_tag := (addr_to_tag s)(a := None)\<rparr>" by blast
    then have "set as \<subseteq> dom (addr_to_tag u)" using Cons.prems by auto
    then show ?thesis using Inr Cons by simp
  qed
qed

lemma keyboard_fields:
  "\<exists>i q k. keyboard t ch s = s\<lparr>interrupts := i, tx_queue := tx_queue s @ q, keys := k\<rparr>"
  by (rule exI [of _ "interrupts (keyboard t ch s)"],
      rule exI [of _ "drop (length (tx_queue s)) (tx_queue (keyboard t ch s))"],
      rule exI [of _ "keys (keyboard t ch s)"])
    (simp add: keyboard_def split: option.split)

lemma map_sum_result [simp]:
  "map_sum id f x = Inr y \<longleftrightarrow> (\<exists>z. x = Inr z \<and> y = f z)"
  "map_sum id f x = Inl e \<longleftrightarrow> x = Inl e"
  by (cases x; auto)+

lemma receive_data_fields:
  assumes "receive_data p s = Inr t"
  shows "\<exists>m c. t = s\<lparr>host_mem := m, screen := c, rx_count := rx_count s - 1\<rparr>"
  using assms
  by (intro exI [of _ "host_mem t"] exI [of _ "screen t"])
    (auto simp: receive_data_def ram_store_def Let_def split: if_splits)

text \<open>A request starts at most one transaction; only a read enters the table.\<close>

definition started :: "'d dram_sim \<Rightarrow> 't vtop_scheme \<Rightarrow> 'd system \<Rightarrow> 'd system \<Rightarrow> bool" where
  "started D p s t \<longleftrightarrow>
     addTransaction D (is_write p) (bus_req p) (dramsim s) = (True, dramsim t) \<and>
     addr_to_tag s (bus_req p) = None \<and> bus_req p AND 7 = 0 \<and>
     addr_to_tag t = (if is_write p then addr_to_tag s
       else (addr_to_tag s)(bus_req p \<mapsto> ucast (bus_reqtag p)))"

definition same_reads :: "'d system \<Rightarrow> 'd system \<Rightarrow> bool" where
  "same_reads s t \<longleftrightarrow> addr_to_tag t = addr_to_tag s \<and> dramsim t = dramsim s"

lemma new_request_fields:
  assumes "new_request D p s = Inr t"
  shows "same_reads s t \<or> started D p s t"
  using assms
  by (auto simp: new_request_def memory_request_def mmio_request_def same_reads_def started_def
      Let_def split: if_splits prod.splits sum.splits)

lemma serve_fields:
  assumes "serve D (p, s) = Inr (p', t)"
  shows "same_reads s t \<or> started D p s t"
proof (cases "bus_reqcyc p")
  case False
  then show ?thesis using assms by (auto simp: serve_def same_reads_def)
next
  case True
  let ?s = "s\<lparr>cmd := request_cmd p\<rparr>"
  show ?thesis
  proof (cases "rx_count s = 0")
    case True
    then have "new_request D p ?s = Inr t"
      using assms \<open>bus_reqcyc p\<close> by (auto simp: serve_def)
    from new_request_fields [OF this] show ?thesis
      by (cases "is_write p") (auto simp: same_reads_def started_def)
  next
    case False
    then have "receive_data p ?s = Inr t"
      using assms \<open>bus_reqcyc p\<close> by (auto simp: serve_def)
    from receive_data_fields [OF this] show ?thesis by (auto simp: same_reads_def)
  qed
qed

lemma respond_fields:
  assumes "respond (p, s) = (p', t)"
  shows "same_reads s t" "bus_req p' = bus_req p" "bus_reqtag p' = bus_reqtag p"
    "is_write p' = is_write p" "bus_reqcyc p' = bus_reqcyc p"
  using assms
  by (auto simp: respond_def same_reads_def is_write_def Let_def split: if_splits list.splits)

section \<open>The reads in flight\<close>

text \<open>
  What the code relies on of DRAMSim2: \<open>R d\<close> are the reads the memory system has accepted and
  not yet reported.  An accepted read joins them, a write or a refused transaction does not,
  and \<open>update\<close> reports some of them and forgets those.
\<close>

definition dram_contract :: "'d dram_sim \<Rightarrow> ('d \<Rightarrow> u64 multiset) \<Rightarrow> bool" where
  "dram_contract D R \<longleftrightarrow>
     (\<forall>w a d ok d'. addTransaction D w a d = (ok, d') \<longrightarrow>
        R d' = R d + (if ok \<and> \<not> w then {#a#} else {#})) \<and>
     (\<forall>d done d'. update D d = (done, d') \<longrightarrow> R d = mset done + R d')"

text \<open>The table has exactly one entry for every read in flight, and its addresses are aligned.\<close>

definition reads_inv :: "('d \<Rightarrow> u64 multiset) \<Rightarrow> 'd system \<Rightarrow> bool" where
  "reads_inv R s \<longleftrightarrow> R (dramsim s) = mset_set (dom (addr_to_tag s)) \<and>
     (\<forall>a \<in> dom (addr_to_tag s). a AND 7 = 0)"

lemma reads_inv_same: "same_reads s t \<Longrightarrow> reads_inv R t = reads_inv R s"
  by (simp add: reads_inv_def same_reads_def)

lemma reads_inv_keyboard [simp]: "reads_inv R (keyboard t ch s) = reads_inv R s"
proof -
  obtain i q k where "keyboard t ch s = s\<lparr>interrupts := i, tx_queue := tx_queue s @ q, keys := k\<rparr>"
    using keyboard_fields by blast
  then show ?thesis by (simp add: reads_inv_def)
qed

lemma finite_u64_dom [simp]: "finite (A :: u64 set)"
  by simp

lemma reads_inv_started:
  assumes "dram_contract D R" and "reads_inv R s" and "started D p s t"
  shows "reads_inv R t"
proof (cases "is_write p")
  case True
  then show ?thesis using assms by (auto simp: dram_contract_def reads_inv_def started_def)
next
  case False
  have "R (dramsim t) = R (dramsim s) + {#bus_req p#}"
    using assms(1,3) False by (auto simp: dram_contract_def started_def)
  then show ?thesis
    using assms(2,3) False by (auto simp: reads_inv_def started_def domIff)
qed

lemma update_reports:
  assumes "dram_contract D R" and "reads_inv R s" and "update D (dramsim s) = (as, d)"
  shows "distinct as" "set as \<subseteq> dom (addr_to_tag s)" "R d = mset_set (dom (addr_to_tag s) - set as)"
proof -
  have e: "mset_set (dom (addr_to_tag s)) = mset as + R d"
    using assms unfolding dram_contract_def reads_inv_def by metis
  have "count (mset as) x \<le> 1" for x
  proof -
    have "count (mset as) x \<le> count (mset_set (dom (addr_to_tag s))) x" by (simp add: e)
    also have "\<dots> \<le> 1" by (simp add: count_mset_set')
    finally show ?thesis .
  qed
  then have "\<forall>x. count (mset as) x = (if x \<in> set as then 1 else 0)"
    by (metis One_nat_def count_mset_0_iff le_Suc_eq le_zero_eq)
  then show d: "distinct as" by (simp add: distinct_count_atmost_1)
  have "set_mset (mset_set (dom (addr_to_tag s))) = set as \<union> set_mset (R d)" by (simp add: e)
  then show s: "set as \<subseteq> dom (addr_to_tag s)" by auto
  have "R d = mset_set (dom (addr_to_tag s)) - mset as" by (simp add: e)
  also have "\<dots> = mset_set (dom (addr_to_tag s)) - mset_set (set as)"
    using d by (simp add: mset_set_set)
  also have "\<dots> = mset_set (dom (addr_to_tag s) - set as)"
    using s by (simp add: mset_set_Diff)
  finally show "R d = mset_set (dom (addr_to_tag s) - set as)" .
qed

lemma reads_inv_update:
  assumes "dram_contract D R" and "reads_inv R s"
  shows "dram_update D s \<noteq> Inl Assertion_failed"
    and "dram_update D s = Inr t \<Longrightarrow> reads_inv R t"
proof -
  obtain as d where u: "update D (dramsim s) = (as, d)" by (cases "update D (dramsim s)")
  note r = update_reports [OF assms u]
  show "dram_update D s \<noteq> Inl Assertion_failed"
    unfolding dram_update_def u using r by (simp add: callbacks_never_assert)
  assume "dram_update D s = Inr t"
  then have "callbacks as (s\<lparr>dramsim := d\<rparr>) = Inr t" by (simp add: dram_update_def u)
  from callbacks_fields [OF this] obtain q where
    "t = s\<lparr>dramsim := d, tx_queue := tx_queue s @ q, addr_to_tag := addr_to_tag s |` (- set as)\<rparr>" by auto
  then show "reads_inv R t"
    using assms(2) r(3) by (auto simp: reads_inv_def Diff_eq)
qed

lemma reads_inv_tick:
  assumes "dram_contract D R" and "reads_inv R s" and "tick D t ch e (p, s) = Inr (p', s')"
  shows "reads_inv R s'"
proof -
  have kb: "reads_inv R (keyboard t ch s)" using assms(2) by simp
  show ?thesis
  proof (cases "e \<and> \<not> (reset p \<and> bus_reqcyc p)")
    case False
    then show ?thesis using assms(2,3) by (auto simp: tick_def Let_def reads_inv_def split: if_splits)
  next
    case True
    then obtain u where u: "dram_update D (keyboard t ch s) = Inr u"
      "serve D (respond (p, u)) = Inr (p', s')"
      using assms(3) by (auto simp: tick_def split: sum.splits if_splits)
    obtain q v where v: "respond (p, u) = (q, v)" by (cases "respond (p, u)")
    have "reads_inv R u" using reads_inv_update(2) [OF assms(1) kb u(1)] .
    then have "reads_inv R v" using respond_fields(1) [OF v] by (simp add: reads_inv_same)
    moreover have "same_reads v s' \<or> started D q v s'" using serve_fields u(2) v by metis
    ultimately show ?thesis using reads_inv_started [OF assms(1)] by (auto simp: reads_inv_same)
  qed
qed

section \<open>Runs\<close>

text \<open>
  A run of clock edges: for each one the time, the key that is waiting, the edge, and the pins
  before it (as the processor has set them) and after it.
\<close>

record bus_event =
  at_time :: nat
  key_waiting :: "u32 option"
  rising :: bool
  pins_in :: vtop
  pins_out :: vtop

inductive bus_run :: "'d dram_sim \<Rightarrow> 'd system \<Rightarrow> bus_event list \<Rightarrow> 'd system \<Rightarrow> bool" for D where
  stop: "bus_run D s [] s"
| step: "tick D (at_time e) (key_waiting e) (rising e) (pins_in e, s) = Inr (pins_out e, s') \<Longrightarrow>
    bus_run D s' es t \<Longrightarrow> bus_run D s (e # es) t"

inductive_cases bus_run_NilE: "bus_run D s [] t"
inductive_cases bus_run_ConsE: "bus_run D s (e # es) t"

lemma reads_inv_run:
  assumes "bus_run D s es t" and "dram_contract D R" and "reads_inv R s"
  shows "reads_inv R t"
  using assms(1,3)
proof (induction rule: bus_run.induct)
  case (stop s)
  then show ?case .
next
  case (step e s s' es t)
  then show ?case using reads_inv_tick [OF assms(2)] by metis
qed

end
