(* ===== verification/Bus_Props.thy ===== *)
theory Bus_Props
  imports Bus_Facts
begin

unbundle bit_operations_syntax

text \<open>
  Properties of the memory side of the bus: bursts of data that are written and read back, the
  queue of responses, and the reads in flight.
\<close>

section \<open>Rising edges\<close>

lemma rising_tick:
  assumes "tick D t ch True (p, s) = Inr (p', s')" and "\<not> (reset p \<and> bus_reqcyc p)"
  obtains as d u q v where "update D (dramsim s) = (as, d)"
    "dram_update D (keyboard t ch s) = Inr u"
    "callbacks as ((keyboard t ch s)\<lparr>dramsim := d\<rparr>) = Inr u"
    "respond (p, u) = (q, v)" "serve D (q, v) = Inr (p', s')"
proof -
  obtain as d where u: "update D (dramsim s) = (as, d)" by (cases "update D (dramsim s)")
  have "dramsim (keyboard t ch s) = dramsim s" using keyboard_fields [of t ch s] by auto
  moreover obtain u where "dram_update D (keyboard t ch s) = Inr u" "serve D (respond (p, u)) = Inr (p', s')"
    using assms by (auto simp: tick_def split: sum.splits if_splits)
  moreover obtain q v where "respond (p, u) = (q, v)" by (cases "respond (p, u)")
  ultimately show ?thesis using that u by (simp add: dram_update_def)
qed

lemma falling_tick:
  assumes "tick D t ch False (p, s) = Inr (p', s')"
  shows "\<exists>m. s' = s\<lparr>messages := m\<rparr>"
  using assms by (intro exI [of _ "messages s'"]) (auto simp: tick_def Let_def split: if_splits)



section \<open>A burst of data\<close>











section \<open>Two memory systems and a small machine\<close>

text \<open>For the instances of the properties: a memory system that never reports, one that reports
  the reads in their order, one with every update, and a machine of 64 bytes with a read of
  address 0 outstanding.\<close>

definition silent_dram :: "u64 list dram_sim" where
  "silent_dram = \<lparr>willAcceptTransaction = (\<lambda>d. True),
     addTransaction = (\<lambda>w a d. (True, if w then d else d @ [a])), update = (\<lambda>d. ([], d))\<rparr>"

definition fifo_dram :: "u64 list dram_sim" where
  "fifo_dram = \<lparr>willAcceptTransaction = (\<lambda>d. True),
     addTransaction = (\<lambda>w a d. (True, if w then d else d @ [a])),
     update = (\<lambda>d. (take 1 d, drop 1 d))\<rparr>"

definition demo_system :: "u64 list system" where
  "demo_system = \<lparr>host_mem = (\<lambda>a. ucast a), ram = 0x1000, ramsize = 64, max_elf_addr = 0, interrupts = 0,
     keys = [], show_console = False, cmd = 0, rx_count = 0, xfer_addr = 0, addr_to_tag = [0 \<mapsto> 7],
     tx_queue = [], dramsim = [0], screen = [], messages = []\<rparr>"

definition drive :: "bool \<Rightarrow> u16 \<Rightarrow> u64 \<Rightarrow> bool \<Rightarrow> vtop" where
  "drive req tag v ack = \<lparr>clk = True, reset = False, entry = 0, bus_reqcyc = req, bus_respack = ack,
     bus_req = v, bus_reqtag = tag, bus_respcyc = False, bus_reqack = True, bus_resp = 0, bus_resptag = 0\<rparr>"

definition edge_event :: "vtop \<Rightarrow> vtop \<Rightarrow> bus_event" where
  "edge_event p p' = \<lparr>at_time = 250, key_waiting = None, rising = True, pins_in = p, pins_out = p'\<rparr>"

definition idle_pins :: "vtop \<Rightarrow> vtop" where
  "idle_pins p = p\<lparr>bus_respcyc := False, bus_resp := 0xaaaaaaaaaaaaaaaa, bus_resptag := 0xaaaa\<rparr>"

definition write_event :: "u64 \<Rightarrow> bus_event" where
  "write_event v = edge_event (drive True 0x100 v False) (idle_pins (drive True 0x100 v False))"

lemma edge_event_sel [simp]:
  "at_time (edge_event p p') = 250" "key_waiting (edge_event p p') = None" "rising (edge_event p p')"
  "pins_in (edge_event p p') = p" "pins_out (edge_event p p') = p'"
  by (simp_all add: edge_event_def)

lemma drive_sel [simp]:
  "\<not> reset (drive req tag v ack)" "bus_reqcyc (drive req tag v ack) = req"
  "bus_respack (drive req tag v ack) = ack" "bus_req (drive req tag v ack) = v"
  "bus_reqtag (drive req tag v ack) = tag"
  by (simp_all add: drive_def)

lemma memory_write_tag [simp]:
  "request_cmd (drive req 0x100 v ack) = MEMORY" "is_write (drive req 0x100 v ack)"
  by (simp_all add: request_cmd_def is_write_def MEMORY_def WRITE_def drop_bit_eq_div)

lemma write_event_sel [simp]:
  "at_time (write_event v) = 250" "key_waiting (write_event v) = None" "rising (write_event v)"
  "pins_in (write_event v) = drive True 0x100 v False"
  "pins_out (write_event v) = idle_pins (drive True 0x100 v False)"
  by (simp_all add: write_event_def)

lemma idle_pins_sel [simp]:
  "request_cmd (idle_pins p) = request_cmd p" "bus_reqcyc (idle_pins p) = bus_reqcyc p"
  "is_write (idle_pins p) = is_write p" "bus_req (idle_pins p) = bus_req p"
  by (simp_all add: idle_pins_def request_cmd_def is_write_def)

lemma demo_system_sel [simp]:
  "tx_queue demo_system = []" "rx_count demo_system = 0" "addr_to_tag demo_system = [0 \<mapsto> 7]"
  "ramsize demo_system = 64" "dramsim demo_system = [0]" "messages demo_system = []"
  by (simp_all add: demo_system_def)


lemma no_key [simp]: "keyboard t None s = s"
  by (simp add: keyboard_def)

lemma run_one:
  assumes "tick D 250 None True (p, s) = Inr (p', s')"
  shows "bus_run D s [edge_event p p'] s'"
  using assms by (auto intro!: bus_run.intros)






section \<open>Reads in flight\<close>

text \<open>C8: The assertion of \<open>dram_read_complete\<close> never fails.  If the memory system reports
  only reads it has accepted, each once, then along every run of clock edges the table of
  outstanding reads holds exactly the reads in flight, if it did at the start (with aligned
  addresses), and no report of the memory system finds its address missing.\<close>

theorem callback_finds_its_read:
  assumes "bus_run D s es t" and "dram_contract D R" and "reads_inv R s"
  shows "reads_inv R t \<and> dram_update D (keyboard main_time getch t) \<noteq> Inl Assertion_failed"
proof -
  have t: "reads_inv R t" using reads_inv_run [OF assms] .
  then have "reads_inv R (keyboard main_time getch t)" by simp
  then show ?thesis using t reads_inv_update(1) [OF assms(2)] by blast
qed

lemma fifo_contract: "dram_contract fifo_dram mset"
  by (auto simp: dram_contract_def fifo_dram_def take_Suc neq_Nil_conv) (metis append_take_drop_id mset_append)

lemma demo_reads_inv: "reads_inv mset demo_system"
  by (simp add: reads_inv_def)

text \<open>An edge without a request: the read of the small machine completes.\<close>

lemma demo_read_edge:
  "\<exists>p t. tick fifo_dram 250 None True (drive False 0 0 False, demo_system) = Inr (p, t)"
proof -
  have "line_in_ram (demo_system\<lparr>dramsim := []\<rparr>) 0" by (simp add: line_in_ram_def)
  then obtain u where "dram_read_complete 0 (demo_system\<lparr>dramsim := []\<rparr>) = Inr u"
    using dram_read_complete_result [of "demo_system\<lparr>dramsim := []\<rparr>" 0 7] by simp
  moreover have "update fifo_dram [0] = ([0], [])" by (simp add: fifo_dram_def)
  moreover obtain q v where "respond (drive False 0 0 False, u) = (q, v)"
    by (cases "respond (drive False 0 0 False, u)")
  moreover from this have "\<not> bus_reqcyc q" using respond_fields(5) by fastforce
  ultimately show ?thesis by (simp add: tick_def dram_update_def serve_def)
qed

theorem callback_finds_its_read_witness:
  "\<exists>es t. length es = 1 \<and> bus_run fifo_dram demo_system es t \<and> reads_inv mset t \<and>
    dram_update fifo_dram (keyboard 500 None t) \<noteq> Inl Assertion_failed"
proof -
  obtain p t where "tick fifo_dram 250 None True (drive False 0 0 False, demo_system) = Inr (p, t)"
    using demo_read_edge by blast
  note r = run_one [OF this]
  show ?thesis
    using r callback_finds_its_read [OF r fifo_contract demo_reads_inv, of 500 None]
    by (intro exI [of _ "[edge_event (drive False 0 0 False) p]"] exI [of _ t]) simp
qed

text \<open>A read the memory system has in flight comes closer to its report with every update.\<close>

definition dram_latency :: "'d dram_sim \<Rightarrow> ('d \<Rightarrow> u64 multiset) \<Rightarrow> ('d \<Rightarrow> u64 \<Rightarrow> nat) \<Rightarrow> bool" where
  "dram_latency D R due \<longleftrightarrow>
     (\<forall>d done d' a. update D d = (done, d') \<and> a \<in># R d \<and> a \<notin> set done \<longrightarrow> due d' a < due d a) \<and>
     (\<forall>w b d ok d' a. addTransaction D w b d = (ok, d') \<and> a \<in># R d \<longrightarrow> due d' a \<le> due d a)"

text \<open>One rising edge: the read is answered, or it stays outstanding and is due earlier.\<close>

lemma read_progress:
  assumes "tick D tm ch True (p, s) = Inr (p', s')" and "\<not> (reset p \<and> bus_reqcyc p)"
    and "dram_contract D R" and "dram_latency D R due" and "reads_inv R s" and "addr_to_tag s a = Some tag"
  shows "(\<exists>v. dram_update D (keyboard tm ch s) = Inr v \<and> addr_to_tag v a = None \<and>
      (\<exists>q1 q2. tx_queue v = q1 @ burst s a tag @ q2)) \<or>
    addr_to_tag s' a = Some tag \<and> due (dramsim s') a < due (dramsim s) a"
proof -
  obtain as d u q v where u: "update D (dramsim s) = (as, d)" "dram_update D (keyboard tm ch s) = Inr u"
    "callbacks as ((keyboard tm ch s)\<lparr>dramsim := d\<rparr>) = Inr u"
    "respond (p, u) = (q, v)" "serve D (q, v) = Inr (p', s')"
    by (rule rising_tick [OF assms(1,2)])
  let ?k = "(keyboard tm ch s)\<lparr>dramsim := d\<rparr>"
  have k: "addr_to_tag ?k = addr_to_tag s" "burst ?k a tag = burst s a tag"
    using keyboard_fields [of tm ch s] by (auto simp: burst_def)
  have U: "u = ?k\<lparr>tx_queue := tx_queue ?k @ bursts ?k as, addr_to_tag := addr_to_tag ?k |` (- set as)\<rparr>"
    using callbacks_fields [OF u(3)] by blast
  have inv: "reads_inv R u"
    using reads_inv_update(2) [OF assms(3) _ u(2)] assms(5) by simp
  show ?thesis
  proof (cases "a \<in> set as")
    case True
    then obtain as1 as2 where "as = as1 @ a # as2" by (auto simp: in_set_conv_decomp)
    then have "tx_queue u = (tx_queue ?k @ bursts ?k as1) @ burst s a tag @ bursts ?k as2"
      by (subst U) (use k assms(6) in \<open>simp add: bursts_def\<close>)
    moreover have "addr_to_tag u a = None" by (subst U) (use True in simp)
    ultimately show ?thesis using u(2) by blast
  next
    case False
    then have a: "addr_to_tag u a = Some tag" by (subst U) (use k assms(6) in simp)
    have "a \<in># R (dramsim s)" using assms(5,6) by (auto simp: reads_inv_def)
    then have d: "due d a < due (dramsim s) a"
      using assms(4) u(1) False unfolding dram_latency_def by blast
    have v: "addr_to_tag v = addr_to_tag u" "dramsim v = d"
      using respond_fields(1) [OF u(4)] by (simp_all add: same_reads_def) (simp add: U)
    have "a \<in># R d" using inv a by (auto simp: reads_inv_def) (subst (asm) U, auto)
    then have "due (dramsim s') a \<le> due d a \<and> addr_to_tag s' a = Some tag"
      using serve_fields [OF u(5)] v a assms(4)
      by (auto simp: same_reads_def started_def dram_latency_def)
    then show ?thesis using d by auto
  qed
qed

text \<open>C9: Every read is answered.  The memory system reports only reads it has accepted, each
  once, moves each accepted read towards its report at every update, and agrees at the start with
  the table of outstanding reads.  Then for a read in the table, a run that does not fail, has no
  request at a reset and has more rising edges than the read is due in contains an edge that hands
  the words of its line, with its tag, to the queue of responses and takes the read out of the
  table.\<close>

theorem read_is_answered:
  assumes "bus_run D s es t" and "dram_contract D R" and "dram_latency D R due" and "reads_inv R s"
    and "addr_to_tag s a = Some tag" and "\<forall>e \<in> set es. \<not> (reset (pins_in e) \<and> bus_reqcyc (pins_in e))"
    and "due (dramsim s) a < length (filter rising es)"
  shows "\<exists>es1 e es2 u v. es = es1 @ e # es2 \<and> bus_run D s es1 u \<and> addr_to_tag u a = Some tag \<and>
    dram_update D (keyboard (at_time e) (key_waiting e) u) = Inr v \<and> addr_to_tag v a = None \<and>
    (\<exists>q1 q2. tx_queue v = q1 @ burst u a tag @ q2)"
  using assms(1,4-7)
proof (induction rule: bus_run.induct)
  case (stop s)
  then show ?case by simp
next
  case (step e s s' es t)
  have inv: "reads_inv R s'" using reads_inv_tick [OF assms(2) step.prems(1) step.hyps(1)] .
  have rst: "\<forall>e \<in> set es. \<not> (reset (pins_in e) \<and> bus_reqcyc (pins_in e))"
    using step.prems(3) by (intro ballI) (erule bspec, simp)
  have later: ?case if due: "addr_to_tag s' a = Some tag" "due (dramsim s') a < length (filter rising es)"
  proof -
    obtain es1 e' es2 u v where "es = es1 @ e' # es2" "bus_run D s' es1 u" "addr_to_tag u a = Some tag"
      "dram_update D (keyboard (at_time e') (key_waiting e') u) = Inr v" "addr_to_tag v a = None"
      "\<exists>q1 q2. tx_queue v = q1 @ burst u a tag @ q2"
      using step.IH [OF inv due(1) rst due(2)] by blast
    moreover from this(2) have "bus_run D s (e # es1) u" using step.hyps(1) by (rule bus_run.step [rotated])
    ultimately show ?thesis
      by (intro exI [of _ "e # es1"] exI [of _ e'] exI [of _ es2] exI [of _ u] exI [of _ v]) simp
  qed
  show ?case
  proof (cases "rising e")
    case False
    then have "tick D (at_time e) (key_waiting e) False (pins_in e, s) = Inr (pins_out e, s')"
      using step.hyps(1) by simp
    from falling_tick [OF this] obtain m where "s' = s\<lparr>messages := m\<rparr>" by blast
    then show ?thesis using later step.prems False by simp
  next
    case True
    then have "tick D (at_time e) (key_waiting e) True (pins_in e, s) = Inr (pins_out e, s')"
      using step.hyps(1) by simp
    from read_progress [OF this _ assms(2,3) step.prems(1,2)] step.prems(3)
    consider v where "dram_update D (keyboard (at_time e) (key_waiting e) s) = Inr v"
        "addr_to_tag v a = None" "\<exists>q1 q2. tx_queue v = q1 @ burst s a tag @ q2"
      | "addr_to_tag s' a = Some tag" "due (dramsim s') a < due (dramsim s) a" by auto
    then show ?thesis
    proof cases
      case 1
      then show ?thesis using bus_run.stop step.prems(2)
        by (intro exI [of _ "[]"] exI [of _ e] exI [of _ es] exI [of _ s] exI [of _ v]) simp
    next
      case 2
      then show ?thesis using later step.prems(4) True by simp
    qed
  qed
qed

lemma fifo_latency: "dram_latency fifo_dram mset (\<lambda>d a. length (takeWhile (\<lambda>b. b \<noteq> a) d))"
proof -
  have "length (takeWhile (\<lambda>b. b \<noteq> a) (drop 1 d)) < length (takeWhile (\<lambda>b. b \<noteq> a) d)"
    if "a \<in> set d" "a \<notin> set (take 1 d)" for a :: u64 and d
    using that by (cases d) simp_all
  moreover have "length (takeWhile (\<lambda>b. b \<noteq> a) (d @ [b])) \<le> length (takeWhile (\<lambda>b. b \<noteq> a) d)"
    if "a \<in> set d" for a b :: u64 and d
    using that by (subst takeWhile_append1 [of a]) simp_all
  ultimately show ?thesis by (auto simp: dram_latency_def fifo_dram_def)
qed

theorem read_is_answered_witness:
  "\<exists>u v. addr_to_tag u 0 = Some 7 \<and> dram_update fifo_dram (keyboard 250 None u) = Inr v \<and>
    addr_to_tag v 0 = None \<and> (\<exists>q1 q2. tx_queue v = q1 @ burst u 0 7 @ q2)"
proof -
  obtain p t where "tick fifo_dram 250 None True (drive False 0 0 False, demo_system) = Inr (p, t)"
    using demo_read_edge by blast
  from read_is_answered [OF run_one [OF this] fifo_contract fifo_latency demo_reads_inv, of 0 7]
  show ?thesis by (auto simp: Cons_eq_append_conv)
qed

section \<open>The queue of responses\<close>

lemma rising_queue:
  assumes "tick D tm ch True (p, s) = Inr (p', s')" and "\<not> (reset p \<and> bus_reqcyc p)" and "bus_respack p"
    and "tx_queue s = x # q"
  shows "\<exists>more. tx_queue s' = q @ more" and "q = y # q' \<Longrightarrow> bus_respcyc p' \<and>
    bus_resp p' = fst y \<and> bus_resptag p' = ucast (snd y)"
proof -
  obtain as d u p2 v where u: "callbacks as ((keyboard tm ch s)\<lparr>dramsim := d\<rparr>) = Inr u"
    "respond (p, u) = (p2, v)" "serve D (p2, v) = Inr (p', s')"
    by (rule rising_tick [OF assms(1,2)])
  obtain m1 where "tx_queue (keyboard tm ch s) = tx_queue s @ m1"
    using keyboard_fields [of tm ch s] by auto
  moreover obtain m2 where "tx_queue u = tx_queue (keyboard tm ch s) @ m2"
    using callbacks_fields [OF u(1)] by auto
  ultimately obtain m where m: "tx_queue u = x # q @ m" using assms(4) by auto
  then have v: "tx_queue v = q @ m"
    using u(2) assms(3) by (auto simp: respond_def Let_def split: list.splits)
  have "\<exists>more. tx_queue s' = tx_queue v @ more"
    using u(3) by (auto simp: serve_def receive_data_def ram_store_def new_request_def memory_request_def
        mmio_request_def Let_def split: if_splits prod.splits)
  then show "\<exists>more. tx_queue s' = q @ more" using v by auto
  assume "q = y # q'"
  then have "bus_respcyc p2 \<and> bus_resp p2 = fst y \<and> bus_resptag p2 = ucast (snd y)"
    using m u(2) assms(3) by (cases y) (auto simp: respond_def Let_def split: list.splits)
  moreover have "bus_respcyc p' = bus_respcyc p2" "bus_resp p' = bus_resp p2" "bus_resptag p' = bus_resptag p2"
    using u(3) by (auto simp: serve_def Let_def split: if_splits)
  ultimately show "bus_respcyc p' \<and> bus_resp p' = fst y \<and> bus_resptag p' = ucast (snd y)" by simp
qed

text \<open>Responses leave in order, one per acknowledged clock.  The response number \<open>k\<close> of
  the queue is on the pins, with its tag, after \<open>k\<close> rising edges at which the processor
  acknowledges, whatever else arrives meanwhile.\<close>

theorem queued_response_is_delivered:
  assumes "bus_run D s (es @ [e]) t" and "rising e" and "length (filter rising (es @ [e])) = k"
    and "\<forall>x \<in> set (es @ [e]). bus_respack (pins_in x) \<and> \<not> (reset (pins_in x) \<and> bus_reqcyc (pins_in x))"
    and "k < length (tx_queue s)"
  shows "bus_respcyc (pins_out e) \<and> bus_resp (pins_out e) = fst (tx_queue s ! k) \<and>
    bus_resptag (pins_out e) = ucast (snd (tx_queue s ! k))"
  using assms(1,3-5)
proof (induction es arbitrary: s k)
  case Nil
  then obtain x y q where q: "tx_queue s = x # y # q" "k = 1"
    using assms(2) by (cases "tx_queue s"; cases "tl (tx_queue s)") auto
  obtain s' where "tick D (at_time e) (key_waiting e) True (pins_in e, s) = Inr (pins_out e, s')"
    using Nil.prems(1) assms(2) by (auto elim: bus_run_ConsE)
  from rising_queue(2) [OF this _ _ q(1)] show ?case using Nil.prems(3) q by simp
next
  case (Cons f es)
  obtain s' where s': "tick D (at_time f) (key_waiting f) (rising f) (pins_in f, s) = Inr (pins_out f, s')"
    "bus_run D s' (es @ [e]) t"
    using Cons.prems(1) by (auto elim: bus_run_ConsE)
  have f: "bus_respack (pins_in f)" "\<not> (reset (pins_in f) \<and> bus_reqcyc (pins_in f))"
    using Cons.prems(3) by simp_all
  show ?case
  proof (cases "rising f")
    case False
    then have "tx_queue s' = tx_queue s" using falling_tick s'(1) by fastforce
    then show ?thesis using Cons.IH [OF s'(2)] Cons.prems False by simp
  next
    case True
    then obtain k' where k: "k = Suc k'" "length (filter rising (es @ [e])) = k'"
      using Cons.prems(2) by auto
    obtain x q where q: "tx_queue s = x # q" using Cons.prems(4) by (cases "tx_queue s") auto
    have "tick D (at_time f) (key_waiting f) True (pins_in f, s) = Inr (pins_out f, s')"
      using s'(1) True by simp
    from rising_queue(1) [OF this f(2,1) q] obtain more where "tx_queue s' = q @ more" by blast
    then have "tx_queue s' ! k' = tx_queue s ! k" "k' < length (tx_queue s')"
      using k(1) q Cons.prems(4) by (simp_all add: nth_append)
    then show ?thesis using Cons.IH [OF s'(2) k(2)] Cons.prems(3) by simp
  qed
qed

theorem queued_response_is_delivered_witness:
  "\<exists>p s. tick silent_dram 250 None True (drive False 0 0 True, demo_system\<lparr>tx_queue := [(1, 2), (3, 4)]\<rparr>) =
      Inr (p, s) \<and> bus_respcyc p \<and> bus_resp p = 3 \<and> bus_resptag p = 4"
proof -
  let ?s = "demo_system\<lparr>tx_queue := [(1, 2), (3, 4)]\<rparr>"
  obtain p t where t: "tick silent_dram 250 None True (drive False 0 0 True, ?s) = Inr (p, t)"
    by (simp add: tick_def dram_update_def silent_dram_def serve_def respond_def Let_def)
  then have "bus_run silent_dram ?s ([] @ [edge_event (drive False 0 0 True) p]) t" using run_one by simp
  from queued_response_is_delivered [OF this, of 1] t show ?thesis by simp
qed

section \<open>The order of the words of a line\<close>

text \<open>C35: The critical word first.  The answer to an outstanding read at an aligned address of a line in
  the RAM are the eight words of the line of 64 bytes around the address, each a big-endian word of the RAM, in the order of the line turned
  so that the word asked for comes first.\<close>

theorem read_burst_is_rotated_line:
  assumes "line_in_ram s a" and "a AND 7 = 0" and "addr_to_tag s a = Some tag"
  shows "dram_read_complete a s = Inr (s\<lparr>
    tx_queue := tx_queue s @ rotate (unat a mod 64 div 8)
      (map (\<lambda>i. (ldq_be_p (host_mem s) (ram s + (a AND NOT 63) + of_nat (8 * i)), tag)) [0..<8]),
    addr_to_tag := (addr_to_tag s)(a := None)\<rparr>)"
proof -
  let ?line = "map (\<lambda>i. (ldq_be_p (host_mem s) (ram s + (a AND NOT 63) + of_nat (8 * i)), tag)) [0..<8]"
  have "burst s a tag ! i = rotate (unat a mod 64 div 8) ?line ! i" if "i < 8" for i
  proof -
    define j where "j = (unat a div 8 + i) mod 8"
    have "unat a mod 64 div 8 = unat a div 8 mod 8"
      using mod_mult2_eq [of "unat a" 8 8] by (simp add: div_mult2_eq [symmetric])
    then have j: "(unat a mod 64 div 8 + i) mod 8 = j" "j < 8"
      by (simp_all add: j_def mod_simps)
    have "unat (of_nat (8 * j) :: u64) = 8 * j" using j(2) by (intro unat_of_nat_less) simp
    then have "(a + of_nat (8 * i)) AND 63 = of_nat (8 * j)"
      unfolding word_unat_eq_iff unat_sum_63 by (simp only: aligned_mod [OF assms(2)] j_def)
    then have "ram s + line_word a (of_nat (8 * i)) = ram s + (a AND NOT 63) + of_nat (8 * j)"
      by (simp only: line_word_def add.assoc)
    then show ?thesis
      using that j by (simp add: burst_def nth_rotate add.assoc del: of_nat_mult)
  qed
  then have "burst s a tag = rotate (unat a mod 64 div 8) ?line"
    by (intro nth_equalityI) (simp_all add: burst_def)
  then show ?thesis using dram_read_complete_result [OF assms] by simp
qed

theorem read_burst_is_rotated_line_witness:
  "\<exists>t. dram_read_complete 8 (demo_system\<lparr>addr_to_tag := [8 \<mapsto> 7]\<rparr>) = Inr t \<and>
    fst (hd (tx_queue t)) = ldq_be_p (host_mem demo_system) 0x1008 \<and>
    fst (last (tx_queue t)) = ldq_be_p (host_mem demo_system) 0x1000"
  using read_burst_is_rotated_line [of "demo_system\<lparr>addr_to_tag := [8 \<mapsto> 7]\<rparr>" 8 7]
  by (simp add: line_in_ram_def upt_rec rotate1_def) (simp add: demo_system_def)

end
