(* ===== verification/Elf.thy ===== *)
theory Elf
  imports Bus
begin

unbundle bit_operations_syntax

text \<open>
  Start-up of the simulated machine in \<open>proj/system.cpp\<close>: \<open>System::load_elf\<close> and the
  constructor.  libelf is a library the repository does not have: what it finds in the file,
  or the way it fails, is the argument \<open>elf_image\<close>.  \<open>exit(-1)\<close> is \<open>Inl Exit_called\<close>.
\<close>

section \<open>Program headers\<close>

record elf_phdr =
  p_type :: u32
  p_offset :: u64
  p_vaddr :: u64
  p_filesz :: u64
  p_memsz :: u64

record elf_file =
  e_entry :: u64
  phdrs :: "elf_phdr list"
  contents :: "u8 list"

datatype elf_image = Elf_outdated | Open_failed | Begin_failed | Not_an_elf | Elf_object elf_file

definition PT_LOAD :: u32 where "PT_LOAD = 1"
definition PT_NOTE :: u32 where "PT_NOTE = 4"
definition PT_GNU_STACK :: u32 where "PT_GNU_STACK = 0x6474e551"

text \<open>\<open>lseek\<close> to the offset and \<open>read\<close> of \<open>p_filesz\<close> bytes: what the file has of them.\<close>

definition segment_bytes :: "u8 list \<Rightarrow> elf_phdr \<Rightarrow> u8 list" where
  "segment_bytes file h = take (unat (p_filesz h)) (drop (unat (p_offset h)) file)"

definition fits_ram :: "'d system \<Rightarrow> u64 \<Rightarrow> nat \<Rightarrow> bool" where
  "fits_ram s a n \<longleftrightarrow> unat a + n \<le> unat (ramsize s)"

definition load_segment :: "u8 list \<Rightarrow> elf_phdr \<Rightarrow> 'd system \<Rightarrow> stop + 'd system" where
  "load_segment file h s =
    (if p_type h = PT_LOAD then
       if p_vaddr h + p_memsz h > ucast (ramsize s) then Inl Exit_called
       else if \<not> fits_ram s (p_vaddr h) (unat (p_memsz h)) then Inl Outside_ram
       else
         let s = s\<lparr>host_mem := mem_set (host_mem s) (ram s + p_vaddr h) 0 (unat (p_memsz h))\<rparr>
         in if sint (p_offset h) < 0 then Inl Assertion_failed
            else
              let bytes = segment_bytes file h
              in if \<not> fits_ram s (p_vaddr h) (length bytes) then Inl Outside_ram
                 else if length bytes \<noteq> unat (p_filesz h) then Inl Assertion_failed
                 else
                   let s = s\<lparr>host_mem := mem_write (host_mem s) (ram s + p_vaddr h) bytes\<rparr>
                   in Inr (if max_elf_addr s < p_vaddr h + p_filesz h
                       then s\<lparr>max_elf_addr := p_vaddr h + p_filesz h\<rparr> else s)
     else if p_type h = PT_GNU_STACK \<or> p_type h = PT_NOTE then Inr s
     else Inl Exit_called)"

primrec load_segments :: "u8 list \<Rightarrow> elf_phdr list \<Rightarrow> 'd system \<Rightarrow> stop + 'd system" where
  "load_segments file [] s = Inr s"
| "load_segments file (h # hs) s =
    (case load_segment file h s of Inl e \<Rightarrow> Inl e | Inr s \<Rightarrow> load_segments file hs s)"

definition page_align :: "u64 \<Rightarrow> u64" where
  "page_align a = ((a + 4095) div 4096) * 4096"

definition load_elf :: "elf_image \<Rightarrow> 'd system \<Rightarrow> stop + u64 \<times> 'd system" where
  "load_elf img s =
    (case img of
       Elf_outdated \<Rightarrow> Inl Exit_called
     | Open_failed \<Rightarrow> Inl Assertion_failed
     | Begin_failed \<Rightarrow> Inl Exit_called
     | Not_an_elf \<Rightarrow> Inl Exit_called
     | Elf_object f \<Rightarrow>
        (case load_segments (contents f) (phdrs f) s of
           Inl e \<Rightarrow> Inl e
         | Inr s \<Rightarrow> Inr (e_entry f, s\<lparr>max_elf_addr := page_align (max_elf_addr s)\<rparr>)))"

section \<open>The constructor\<close>

text \<open>
  \<open>raw\<close> is the object before the constructor: the members it does not set keep what was there.
  \<open>malloc\<close> returned \<open>ptr\<close>; \<open>d\<close> is the memory system that DRAMSim2 made.
\<close>

definition System_new :: "'d system \<Rightarrow> u64 \<Rightarrow> 'd \<Rightarrow> u32 \<Rightarrow> elf_image option \<Rightarrow> 't vtop_scheme \<Rightarrow>
    stop + 't vtop_scheme \<times> 'd system" where
  "System_new raw ptr d rs ramelf pins =
    (let s = raw\<lparr>ram := ptr, ramsize := rs, max_elf_addr := 0, keys := [], show_console := False,
        rx_count := 0, addr_to_tag := Map.empty, tx_queue := [], dramsim := d\<rparr>
     in if ptr = 0 then Inl Assertion_failed
        else (case ramelf of
           None \<Rightarrow> Inr (pins, s)
         | Some img \<Rightarrow>
            (case load_elf img s of
               Inl e \<Rightarrow> Inl e
             | Inr (addr, s) \<Rightarrow> Inr (pins\<lparr>entry := addr\<rparr>, s))))"

definition get_ram_address :: "'d system \<Rightarrow> u64" where
  "get_ram_address s = ram s"

definition get_max_elf_addr :: "'d system \<Rightarrow> u64" where
  "get_max_elf_addr s = max_elf_addr s"

section \<open>One segment\<close>

definition loadable :: "elf_phdr \<Rightarrow> bool" where
  "loadable h \<longleftrightarrow> p_type h = PT_LOAD"

text \<open>What a segment is in memory: its bytes from the file, then zeros.\<close>

definition segment_image :: "u8 list \<Rightarrow> elf_phdr \<Rightarrow> u8 list" where
  "segment_image file h = segment_bytes file h @ replicate (unat (p_memsz h) - unat (p_filesz h)) 0"

lemma mem_set_as_write: "n < 2 ^ 64 \<Longrightarrow> mem_set m p 0 n = mem_write m p (replicate n 0)"
  by (auto simp: mem_set_def mem_write_def fun_eq_iff)

lemma write_after_clear:
  assumes "length bs \<le> n"
  shows "mem_write (mem_set m p 0 n) p bs = mem_write m p (bs @ replicate (n - length bs) 0)"
  using assms by (auto simp: mem_set_def mem_write_def fun_eq_iff nth_append)

lemma load_segment_result:
  assumes "load_segment file h s = Inr t" and "loadable h" and "p_filesz h \<le> p_memsz h"
  shows "t = s\<lparr>host_mem := mem_write (host_mem s) (ram s + p_vaddr h) (segment_image file h),
      max_elf_addr := max (max_elf_addr s) (p_vaddr h + p_filesz h)\<rparr>"
    and "length (segment_image file h) = unat (p_memsz h)"
    and "unat (p_vaddr h) + unat (p_memsz h) \<le> unat (ramsize s)"
proof -
  have l: "length (segment_bytes file h) = unat (p_filesz h)"
    and f: "unat (p_vaddr h) + unat (p_memsz h) \<le> unat (ramsize s)"
    using assms(1,2) by (auto simp: load_segment_def loadable_def Let_def fits_ram_def split: if_splits)
  have le: "unat (p_filesz h) \<le> unat (p_memsz h)" using assms(3) by (simp add: word_le_nat_alt)
  show "length (segment_image file h) = unat (p_memsz h)" using l le by (simp add: segment_image_def)
  show "unat (p_vaddr h) + unat (p_memsz h) \<le> unat (ramsize s)" by (rule f)
  have "mem_write (mem_set (host_mem s) (ram s + p_vaddr h) 0 (unat (p_memsz h))) (ram s + p_vaddr h)
      (segment_bytes file h) = mem_write (host_mem s) (ram s + p_vaddr h) (segment_image file h)"
    using le l by (simp add: write_after_clear segment_image_def)
  then show "t = s\<lparr>host_mem := mem_write (host_mem s) (ram s + p_vaddr h) (segment_image file h),
      max_elf_addr := max (max_elf_addr s) (p_vaddr h + p_filesz h)\<rparr>"
    using assms(1,2)
    by (auto simp: load_segment_def loadable_def Let_def max_def split: if_splits)
qed

lemma load_segment_other:
  assumes "load_segment file h s = Inr t" and "\<not> loadable h"
  shows "t = s"
  using assms by (auto simp: load_segment_def loadable_def split: if_splits)

section \<open>All segments\<close>

definition apart :: "elf_phdr \<Rightarrow> elf_phdr \<Rightarrow> bool" where
  "apart g h \<longleftrightarrow> unat (p_vaddr g) + unat (p_memsz g) \<le> unat (p_vaddr h) \<or>
     unat (p_vaddr h) + unat (p_memsz h) \<le> unat (p_vaddr g)"

text \<open>The segment is in memory at its address.\<close>

definition placed_at :: "hostmem \<Rightarrow> u64 \<Rightarrow> u8 list \<Rightarrow> elf_phdr \<Rightarrow> bool" where
  "placed_at m base file h \<longleftrightarrow>
     mem_read m (base + p_vaddr h) (unat (p_memsz h)) = segment_image file h"

lemma disjoint_segments:
  assumes "unat x + n \<le> unat y \<or> unat y + k \<le> unat x" and "unat x + n \<le> 2 ^ 32" and "unat y + k \<le> 2 ^ 32"
  shows "disjoint (p + x) n (p + y) k"
  unfolding disjoint_def in_range_def
proof (intro allI impI)
  fix i assume i: "i < n"
  have u: "unat (of_nat i :: u64) = i" using i assms(2) by (intro unat_of_nat_less) simp
  have x: "unat (x + of_nat i) = unat x + i" using assms(2) i by (simp add: unat_word_ariths u)
  have "p + x + of_nat i - (p + y) = (x + of_nat i) - y" by simp
  then have "unat (p + x + of_nat i - (p + y)) = (if unat y \<le> unat x + i then unat x + i - unat y
      else unat x + i + 18446744073709551616 - unat y)"
    by (simp only: unat_sub_u64 x)
  then show "\<not> unat (p + x + of_nat i - (p + y)) < k"
    using assms i by (auto split: if_splits)
qed

lemma placed_at_mono:
  assumes "placed_at m base file g" and "apart g h" and "length bs = unat (p_memsz h)"
    and "unat (p_vaddr g) + unat (p_memsz g) \<le> 2 ^ 32" and "unat (p_vaddr h) + unat (p_memsz h) \<le> 2 ^ 32"
  shows "placed_at (mem_write m (base + p_vaddr h) bs) base file g"
proof -
  have "disjoint (base + p_vaddr g) (unat (p_memsz g)) (base + p_vaddr h) (length bs)"
    using assms(2-5) by (intro disjoint_segments) (auto simp: apart_def)
  from mem_read_write_disjoint [OF this] show ?thesis using assms(1) by (simp add: placed_at_def)
qed

definition loaded :: "u8 list \<Rightarrow> 'd system \<Rightarrow> elf_phdr \<Rightarrow> bool" where
  "loaded file s g \<longleftrightarrow> placed_at (host_mem s) (ram s) file g \<and>
     unat (p_vaddr g) + unat (p_memsz g) \<le> unat (ramsize s) \<and> p_vaddr g + p_filesz g \<le> max_elf_addr s"

lemma load_one:
  assumes "load_segment file h s = Inr u" and "loadable h" and "p_filesz h \<le> p_memsz h"
  shows "loaded file u h" and "loaded file s g \<Longrightarrow> apart g h \<Longrightarrow> loaded file u g"
proof -
  note r = load_segment_result [OF assms]
  have rs: "unat (ramsize s) \<le> 2 ^ 32" using unat_u32_less [of "ramsize s"] by simp
  have u: "host_mem u = mem_write (host_mem s) (ram s + p_vaddr h) (segment_image file h)"
    "ram u = ram s" "ramsize u = ramsize s"
    "max_elf_addr u = max (max_elf_addr s) (p_vaddr h + p_filesz h)"
    using r(1) by simp_all
  have "placed_at (host_mem u) (ram u) file h"
    unfolding placed_at_def u using r(2,3) rs by (intro mem_read_write_same) simp_all
  then show "loaded file u h" using r(3) by (simp add: loaded_def u)
  assume "loaded file s g" "apart g h"
  then show "loaded file u g"
    using r(2,3) rs by (auto simp: loaded_def u le_max_iff_disj intro!: placed_at_mono)
qed

lemma load_segments_result:
  assumes "load_segments file hs s = Inr t" and "\<forall>h \<in> set hs. loadable h \<longrightarrow> p_filesz h \<le> p_memsz h"
    and "\<forall>g \<in> set done. loaded file s g" and "\<forall>g \<in> set done. \<forall>h \<in> set hs. loadable h \<longrightarrow> apart g h"
    and "sorted_wrt (\<lambda>g h. loadable g \<and> loadable h \<longrightarrow> apart g h) hs"
  shows "(\<forall>g \<in> set done. loaded file t g) \<and> (\<forall>h \<in> set hs. loadable h \<longrightarrow> loaded file t h)"
  using assms
proof (induction hs arbitrary: s "done")
  case Nil
  then show ?case by simp
next
  case (Cons h hs)
  obtain u where u: "load_segment file h s = Inr u" "load_segments file hs u = Inr t"
    using Cons.prems(1) by (auto split: sum.splits)
  have le: "\<forall>h \<in> set hs. loadable h \<longrightarrow> p_filesz h \<le> p_memsz h"
    and order: "sorted_wrt (\<lambda>g h. loadable g \<and> loadable h \<longrightarrow> apart g h) hs"
    using Cons.prems(2,5) by simp_all
  show ?case
  proof (cases "loadable h")
    case False
    then have "u = s" using load_segment_other u(1) by blast
    then show ?thesis using Cons.IH [OF u(2) le _ _ order, of "done"] Cons.prems(3,4) False by simp
  next
    case True
    have "\<forall>g \<in> set (h # done). loaded file u g"
      using load_one [OF u(1) True] Cons.prems(2-4) True by simp
    moreover have "\<forall>g \<in> set (h # done). \<forall>h \<in> set hs. loadable h \<longrightarrow> apart g h"
      using Cons.prems(4,5) True by simp
    ultimately show ?thesis using Cons.IH [OF u(2) le _ _ order, of "h # done"] by simp
  qed
qed

lemma load_segment_ram:
  assumes "load_segment file h s = Inr u"
  shows "ram u = ram s \<and> ramsize u = ramsize s"
    and "unat (max_elf_addr s) \<le> unat (ramsize s) \<Longrightarrow> unat (max_elf_addr u) \<le> unat (ramsize u)"
proof -
  show r: "ram u = ram s \<and> ramsize u = ramsize s"
    using assms by (auto simp: load_segment_def Let_def split: if_splits)
  have "max_elf_addr u = max_elf_addr s \<or> max_elf_addr u = p_vaddr h + p_filesz h \<and>
      unat (p_vaddr h) + unat (p_filesz h) \<le> unat (ramsize s)"
    using assms by (auto simp: load_segment_def Let_def fits_ram_def split: if_splits)
  moreover have "unat (p_vaddr h + p_filesz h) \<le> unat (p_vaddr h) + unat (p_filesz h)"
    by (simp add: unat_word_ariths)
  moreover assume "unat (max_elf_addr s) \<le> unat (ramsize s)"
  ultimately show "unat (max_elf_addr u) \<le> unat (ramsize u)" using r by auto
qed

lemma load_segments_ram:
  assumes "load_segments file hs s = Inr t"
  shows "ram t = ram s \<and> ramsize t = ramsize s"
    and "unat (max_elf_addr s) \<le> unat (ramsize s) \<Longrightarrow> unat (max_elf_addr t) \<le> unat (ramsize t)"
  using assms
proof (induction hs arbitrary: s)
  case Nil
  {
    case 1
    then show ?case by simp
  next
    case 2
    then show ?case by simp
  }
next
  case (Cons h hs)
  {
    case 1
    then show ?case using Cons.IH(1) by (fastforce split: sum.splits dest: load_segment_ram(1))
  next
    case 2
    then show ?case using Cons.IH(2) by (auto split: sum.splits dest: load_segment_ram(2))
  }
qed

lemma page_align_unat:
  assumes "unat a \<le> 2 ^ 32"
  shows "unat (page_align a) = (unat a + 4095) div 4096 * 4096"
proof -
  have s: "unat (a + 4095) = unat a + 4095" using assms by (simp add: unat_word_ariths)
  have "(unat a + 4095) div 4096 * 4096 \<le> unat a + 4095" by simp
  also have "\<dots> < 18446744073709551616" using assms by simp
  finally show ?thesis by (simp add: page_align_def unat_word_ariths unat_div s)
qed

lemma round_up_bounds:
  "(x :: nat) \<le> (x + 4095) div 4096 * 4096" "(x + 4095) div 4096 * 4096 \<le> x + 4095"
  using div_mult_mod_eq [of "x + 4095" 4096] mod_less_divisor [of 4096 "x + 4095"] by linarith+

section \<open>The whole file\<close>

text \<open>A machine with 64 KB and a program of one segment with four bytes in the file.\<close>

definition small_machine :: "unit system" where
  "small_machine = \<lparr>host_mem = (\<lambda>a. 9), ram = 0x1000, ramsize = 0x10000, max_elf_addr = 0,
     interrupts = 0, keys = [], show_console = False, cmd = 0, rx_count = 0, xfer_addr = 0,
     addr_to_tag = Map.empty, tx_queue = [], dramsim = (), screen = [], messages = []\<rparr>"

definition small_program :: "u64 \<Rightarrow> elf_file" where
  "small_program n = \<lparr>e_entry = 0x100,
     phdrs = [\<lparr>p_type = PT_LOAD, p_offset = 0, p_vaddr = 0x100, p_filesz = 4, p_memsz = n\<rparr>],
     contents = [1, 2, 3, 4]\<rparr>"

lemma small_program_sel [simp]:
  "phdrs (small_program n) = [\<lparr>p_type = PT_LOAD, p_offset = 0, p_vaddr = 0x100, p_filesz = 4, p_memsz = n\<rparr>]"
  "contents (small_program n) = [1, 2, 3, 4]" "max_elf_addr small_machine = 0"
  "ram small_machine = 0x1000" "ramsize small_machine = 0x10000"
  by (simp_all add: small_program_def small_machine_def)

lemma small_program_loads:
  assumes "unat n \<le> 0x2000"
  shows "\<exists>a t. load_elf (Elf_object (small_program n)) small_machine = Inr (a, t) \<and> ram t = 0x1000"
proof -
  have "0x100 + n \<le> (0x10000 :: u64)" using assms by (simp add: word_le_nat_alt unat_word_ariths)
  then show ?thesis
    using assms by (simp add: load_elf_def load_segment_def fits_ram_def segment_bytes_def Let_def not_less)
qed

text \<open>C25: Loading a program.  If the segments to load do not overlap and none has more bytes in
  the file than in memory, then after a \<open>load_elf\<close> that does not fail the entry point of the file is returned, and each of them stands in the RAM at its address,
  its bytes from the file followed by zeros; the end of the program is a multiple of the page
  size and not below the end of the file contents of any segment.\<close>

theorem load_elf_places_segments:
  assumes "load_elf (Elf_object f) s = Inr (a, t)" and "max_elf_addr s = 0"
    and "\<forall>h \<in> set (phdrs f). loadable h \<longrightarrow> p_filesz h \<le> p_memsz h"
    and "sorted_wrt (\<lambda>g h. loadable g \<and> loadable h \<longrightarrow> apart g h) (phdrs f)"
  shows "a = e_entry f \<and> unat (max_elf_addr t) mod 4096 = 0 \<and>
    (\<forall>h \<in> set (phdrs f). loadable h \<longrightarrow>
       mem_read (host_mem t) (ram t + p_vaddr h) (unat (p_memsz h)) =
         segment_bytes (contents f) h @ replicate (unat (p_memsz h) - unat (p_filesz h)) 0 \<and>
       unat (p_vaddr h + p_filesz h) \<le> unat (max_elf_addr t))"
proof -
  obtain u where u: "load_segments (contents f) (phdrs f) s = Inr u" "a = e_entry f"
    "t = u\<lparr>max_elf_addr := page_align (max_elf_addr u)\<rparr>"
    using assms(1) by (auto simp: load_elf_def split: sum.splits)
  have "unat (max_elf_addr u) \<le> unat (ramsize u)" using load_segments_ram(2) [OF u(1)] assms(2) by simp
  then have "unat (max_elf_addr u) \<le> 2 ^ 32" using unat_u32_less [of "ramsize u"] by simp
  note p = page_align_unat [OF this]
  have e: "unat (max_elf_addr t) = (unat (max_elf_addr u) + 4095) div 4096 * 4096" using p by (simp add: u(3))
  have all: "\<forall>h \<in> set (phdrs f). loadable h \<longrightarrow> loaded (contents f) u h"
    using load_segments_result [OF u(1) assms(3) _ _ assms(4), of "[]"] by simp
  have "mem_read (host_mem t) (ram t + p_vaddr h) (unat (p_memsz h)) =
        segment_bytes (contents f) h @ replicate (unat (p_memsz h) - unat (p_filesz h)) 0 \<and>
      unat (p_vaddr h + p_filesz h) \<le> unat (max_elf_addr t)"
    if "h \<in> set (phdrs f)" "loadable h" for h
  proof -
    have l: "loaded (contents f) u h" using all that by simp
    then have "unat (p_vaddr h + p_filesz h) \<le> unat (max_elf_addr u)"
      by (simp add: loaded_def word_le_nat_alt)
    then show ?thesis
      using l order_trans [OF _ round_up_bounds(1)] unfolding e
      by (simp add: loaded_def placed_at_def segment_image_def u(3))
  qed
  then show ?thesis using u(2) e by simp
qed

theorem load_elf_places_segments_witness:
  "\<exists>a t. load_elf (Elf_object (small_program 8)) small_machine = Inr (a, t) \<and>
    mem_read (host_mem t) 0x1100 8 = [1, 2, 3, 4, 0, 0, 0, 0]"
proof -
  obtain a t where t: "load_elf (Elf_object (small_program 8)) small_machine = Inr (a, t)" "ram t = 0x1000"
    using small_program_loads [of 8] by auto
  have "replicate 4 (0 :: u8) = [0, 0, 0, 0]" by (simp add: numeral_eq_Suc)
  with load_elf_places_segments [OF t(1)] show ?thesis
    using t by (simp add: loadable_def segment_bytes_def)
qed

text \<open>The end of the program ignores what a segment has in memory beyond its contents in
  the file.  For a program of one segment the address handed to \<open>sl_init\<close> as the initial break
  is the page after the file contents; when the zero-initialised part is a page or more, that
  address lies inside the segment, so the heap starts on top of the program's own data.\<close>

theorem break_inside_segment:
  assumes "load_elf (Elf_object f) s = Inr (a, t)" and "max_elf_addr s = 0"
    and "phdrs f = [h]" and "loadable h" and "0 < p_filesz h"
    and "unat (p_filesz h) + 4096 \<le> unat (p_memsz h)"
  shows "unat (get_max_elf_addr t) = (unat (p_vaddr h) + unat (p_filesz h) + 4095) div 4096 * 4096 \<and>
    unat (p_vaddr h) < unat (get_max_elf_addr t) \<and>
    unat (get_max_elf_addr t) < unat (p_vaddr h) + unat (p_memsz h)"
proof -
  obtain u where u: "load_segment (contents f) h s = Inr u"
    "t = u\<lparr>max_elf_addr := page_align (max_elf_addr u)\<rparr>"
    using assms(1,3) by (auto simp: load_elf_def split: sum.splits)
  have le: "p_filesz h \<le> p_memsz h" using assms(6) by (simp add: word_le_nat_alt)
  note r = load_segment_result [OF u(1) assms(4) le]
  have s: "unat (p_vaddr h + p_filesz h) = unat (p_vaddr h) + unat (p_filesz h)"
    using r(3) assms(6) unat_u32_less [of "ramsize s"] by (simp add: unat_word_ariths)
  have "unat (p_vaddr h + p_filesz h) \<le> 2 ^ 32"
    using s r(3) assms(6) unat_u32_less [of "ramsize s"] by simp
  note p = page_align_unat [OF this]
  have "max_elf_addr u = p_vaddr h + p_filesz h"
    using r(1) assms(2) by (simp add: max_def)
  then have "unat (get_max_elf_addr t) = (unat (p_vaddr h) + unat (p_filesz h) + 4095) div 4096 * 4096"
    using p s by (simp add: get_max_elf_addr_def u(2))
  moreover have "0 < unat (p_filesz h)" using assms(5) by (simp add: word_less_nat_alt)
  ultimately show ?thesis
    using assms(6) round_up_bounds [of "unat (p_vaddr h) + unat (p_filesz h)"] by linarith
qed

theorem break_inside_segment_witness:
  "\<exists>a t. load_elf (Elf_object (small_program 0x2000)) small_machine = Inr (a, t) \<and>
    unat (get_max_elf_addr t) = 0x1000 \<and> unat (get_max_elf_addr t) < 0x100 + 0x2000"
proof -
  obtain a t where t: "load_elf (Elf_object (small_program 0x2000)) small_machine = Inr (a, t)"
    using small_program_loads [of "0x2000"] by auto
  from break_inside_segment [OF t] show ?thesis
    using t by (simp add: loadable_def)
qed

end
