(* ===== verification/Sim.thy ===== *)
theory Sim
  imports Elf Args
begin

unbundle bit_operations_syntax

text \<open>
  The test bench \<open>proj/main.cpp\<close>: the clock, the main loop, the set-up of the system calls, and
  the check of the program arguments; and the stub by which the processor makes a system call.

  A simulation has the pins and the rest of the processor, the state of the system call
  layer, the members of the \<open>System\<close>, and the time.  Both of the latter work on the same host
  memory: it is kept in the state of the system calls and lent to the \<open>System\<close> for a tick.  The
  Verilog model is a parameter: \<open>eval\<close> may change the pins and (through the stub) the state of
  the system calls.  Dumping of waveforms is left out.
\<close>

section \<open>The stub\<close>

definition syscall_cse502 :: "'w host_os \<Rightarrow> u32 \<Rightarrow> u32 \<Rightarrow> u32 \<Rightarrow> u32 \<Rightarrow> u32 \<Rightarrow> u32 \<Rightarrow> u32 \<Rightarrow> ('w, u32) sl" where
  "syscall_cse502 os g1 o0 o1 o2 o3 o4 o5 =
     sl_syscall os (sint g1) \<lparr>arg1 = o0, arg2 = o1, arg3 = o2, arg4 = o3, arg5 = o4, arg6 = o5,
       arg7 = 0, arg8 = 0\<rparr>"

section \<open>The clock\<close>

record ('c, 'w, 'd) sim =
  chip :: "'c vtop_scheme"
  sl_st :: "'w sl_state"
  sys :: "'d system"
  main_time :: u64

record ('c, 'w) verilog =
  eval :: "'c vtop_scheme \<times> 'w sl_state \<Rightarrow> 'c vtop_scheme \<times> 'w sl_state"
  gotFinish :: "'c vtop_scheme \<Rightarrow> bool"

definition KILO :: nat where "KILO = 1024"
definition MEGA :: nat where "MEGA = 1024 * 1024"
definition GIGA :: nat where "GIGA = 1024 * 1024 * 1024"
definition RAM_SIZE :: u64 where "RAM_SIZE = of_nat GIGA"
definition INIT_STACK_OFFSET :: u64 where "INIT_STACK_OFFSET = of_nat (4 * MEGA)"
definition INIT_STACK_POINTER :: u64 where "INIT_STACK_POINTER = RAM_SIZE - INIT_STACK_OFFSET"

definition eval_chip :: "('c, 'w) verilog \<Rightarrow> ('c, 'w, 'd) sim \<Rightarrow> ('c, 'w, 'd) sim" where
  "eval_chip V st = (case eval V (chip st, sl_st st) of (c, s) \<Rightarrow> st\<lparr>chip := c, sl_st := s\<rparr>)"

definition pass_time :: "('c, 'w, 'd) sim \<Rightarrow> ('c, 'w, 'd) sim" where
  "pass_time st = st\<lparr>main_time := main_time st + of_nat (ps_per_clock div 4)\<rparr>"

definition sys_tick :: "'d dram_sim \<Rightarrow> (nat \<Rightarrow> u32 option) \<Rightarrow> ('c, 'w, 'd) sim \<Rightarrow> stop + ('c, 'w, 'd) sim" where
  "sys_tick D getch st =
    (case tick D (unat (main_time st)) (getch (unat (main_time st))) (clk (chip st))
        (chip st, (sys st)\<lparr>host_mem := hmem (sl_st st)\<rparr>) of
       Inl e \<Rightarrow> Inl e
     | Inr (c, s) \<Rightarrow> Inr (st\<lparr>chip := c, sys := s, sl_st := (sl_st st)\<lparr>hmem := host_mem s\<rparr>\<rparr>))"

definition TICK :: "'d dram_sim \<Rightarrow> ('c, 'w) verilog \<Rightarrow> (nat \<Rightarrow> u32 option) \<Rightarrow> ('c, 'w, 'd) sim \<Rightarrow>
    stop + ('c, 'w, 'd) sim" where
  "TICK D V getch st =
    (let st = st\<lparr>chip := (chip st)\<lparr>clk := \<not> clk (chip st)\<rparr>\<rparr>;
         st = pass_time (eval_chip V st)
     in case sys_tick D getch st of
          Inl e \<Rightarrow> Inl e
        | Inr st \<Rightarrow> Inr (pass_time (eval_chip V st)))"

section \<open>The main loop\<close>

definition running :: "('c, 'w) verilog \<Rightarrow> ('c, 'w, 'd) sim \<Rightarrow> bool" where
  "running V st \<longleftrightarrow> unat (main_time st) div ps_per_clock < 2000 * MEGA \<and> \<not> gotFinish V (chip st) \<and>
     result_of sl_exit_called (sl_st st) = 0"

lemma main_time_eval [simp]: "main_time (eval_chip V st) = main_time st"
  by (simp add: eval_chip_def split: prod.split)

lemma main_time_pass: "main_time (pass_time st) = main_time st + 125"
  by (simp add: pass_time_def ps_per_clock_def)

lemma TICK_time:
  assumes "TICK D V getch st = Inr st'"
  shows "main_time st' = main_time st + 250"
  using assms
  by (auto simp: TICK_def sys_tick_def Let_def main_time_pass split: sum.splits prod.splits)

lemma running_time:
  assumes "running V st" and "TICK D V getch st = Inr st'"
  shows "unat (main_time st') = unat (main_time st) + 250"
    and "unat (main_time st) < 2000 * MEGA * ps_per_clock"
proof -
  have "unat (main_time st) div ps_per_clock < 2000 * MEGA" using assms(1) by (simp add: running_def)
  then show l: "unat (main_time st) < 2000 * MEGA * ps_per_clock"
    by (simp add: ps_per_clock_def MEGA_def div_less_iff_less_mult)
  then show "unat (main_time st') = unat (main_time st) + 250"
    unfolding TICK_time [OF assms(2)] by (simp add: unat_word_ariths ps_per_clock_def MEGA_def)
qed

function sim_loop :: "'d dram_sim \<Rightarrow> ('c, 'w) verilog \<Rightarrow> (nat \<Rightarrow> u32 option) \<Rightarrow> ('c, 'w, 'd) sim \<Rightarrow>
    stop + ('c, 'w, 'd) sim" where
  "sim_loop D V getch st =
    (if running V st then
       (case TICK D V getch st of Inl e \<Rightarrow> Inl e | Inr st \<Rightarrow> sim_loop D V getch st)
     else Inr st)"
  by pat_completeness auto
termination
  by (relation "measure (\<lambda>(D, V, getch, st). 2000 * MEGA * ps_per_clock - unat (main_time st))")
    (auto simp: running_time dest: running_time(2))

declare sim_loop.simps [simp del]

text \<open>Four edges under reset.\<close>

primrec TICKs :: "nat \<Rightarrow> 'd dram_sim \<Rightarrow> ('c, 'w) verilog \<Rightarrow> (nat \<Rightarrow> u32 option) \<Rightarrow> ('c, 'w, 'd) sim \<Rightarrow>
    stop + ('c, 'w, 'd) sim" where
  "TICKs 0 D V getch st = Inr st"
| "TICKs (Suc n) D V getch st =
    (case TICK D V getch st of Inl e \<Rightarrow> Inl e | Inr st \<Rightarrow> TICKs n D V getch st)"

definition simulate :: "'d dram_sim \<Rightarrow> ('c, 'w) verilog \<Rightarrow> (nat \<Rightarrow> u32 option) \<Rightarrow> bool \<Rightarrow>
    ('c, 'w, 'd) sim \<Rightarrow> stop + ('c, 'w, 'd) sim" where
  "simulate D V getch console st =
    (case TICKs 4 D V getch (st\<lparr>chip := (chip st)\<lparr>reset := True, clk := False\<rparr>\<rparr>) of
       Inl e \<Rightarrow> Inl e
     | Inr st \<Rightarrow>
        let st = st\<lparr>chip := (chip st)\<lparr>reset := False\<rparr>\<rparr>;
            st = (if console then st\<lparr>sys := (sys st)\<lparr>show_console := True\<rparr>\<rparr> else st)
        in sim_loop D V getch st)"

section \<open>The program arguments\<close>

text \<open>\<open>sl_init\<close> as \<open>main\<close> calls it; the first argument of the test bench itself is left out.\<close>

definition main_sl_init :: "'d system \<Rightarrow> int \<Rightarrow> u64 list \<Rightarrow> ('w, int + unit) sl" where
  "main_sl_init s argc argv =
     sl_init (ucast (get_max_elf_addr s)) (ucast INIT_STACK_POINTER) (get_ram_address s) RAM_SIZE
       (argc - 1) (tl argv)"

definition be32tole :: "u32 \<Rightarrow> u32" where
  "be32tole x = push_bit 24 (x AND 0xFF) OR push_bit 16 (drop_bit 8 x AND 0xFF) OR
     push_bit 8 (drop_bit 16 x AND 0xFF) OR (drop_bit 24 x AND 0xFF)"

text \<open>The word number \<open>j\<close> that the sanity check looks at.\<close>

definition check_word :: "hostmem \<Rightarrow> u64 \<Rightarrow> nat \<Rightarrow> u32" where
  "check_word m r j =
     be32tole (ldl_he_p m (r + (INIT_STACK_POINTER + 16 * 4 + of_nat j * 4)))"

datatype check_line = Argc_line u32 | Arg_line nat

primrec check_args :: "'w host_os \<Rightarrow> u64 \<Rightarrow> nat list \<Rightarrow> ('w, check_line list) sl" where
  "check_args os r [] = return []"
| "check_args os r (j # js) = do {
     m \<leftarrow> gets hmem;
     let val = check_word m r j;
     if j = 0 then do {
       lines \<leftarrow> check_args os r js;
       return (Argc_line val # lines)
     } else
       (case skip_string m (r + ucast val) of
          None \<Rightarrow> do { require False; return [] }
        | Some arg_ptr \<Rightarrow> do {
            let len = (ucast (arg_ptr - (r + ucast val)) :: u32);
            _ \<leftarrow> sl_syscall os 4 \<lparr>arg1 = 2, arg2 = val, arg3 = len, arg4 = 0, arg5 = 0, arg6 = 0,
              arg7 = 0, arg8 = 0\<rparr>;
            lines \<leftarrow> check_args os r js;
            return (Arg_line (j - 1) # lines)
          })
   }"

definition main_check :: "'w host_os \<Rightarrow> u64 \<Rightarrow> nat \<Rightarrow> ('w, check_line list) sl" where
  "main_check os r argc = check_args os r [0..<argc]"

end
