(* ===== verification/Sim_Props.thy ===== *)
theory Sim_Props
  imports Sim Bus_Props Start_Props
begin

unbundle bit_operations_syntax

text \<open>
  Properties of the test bench as a whole: the main loop, the keyboard, the arguments of the
  program, and the memory that system calls and bus share.
\<close>

section \<open>The main loop\<close>

text \<open>C36: The simulation ends.  The main loop is a bounded number of clock edges: two billion
  cycles of two edges each at most, counted in \<open>MEGA\<close>, whatever the processor does; and unless
  an edge failed the loop was left because the time is up, the model finished or the program has
  called exit.\<close>

theorem main_loop_ends:
  "\<exists>n \<le> 4000 * MEGA. sim_loop D V getch st = TICKs n D V getch st \<and>
    (\<forall>st'. sim_loop D V getch st = Inr st' \<longrightarrow>
       unat (main_time st') div ps_per_clock \<ge> 2000 * MEGA \<or> gotFinish V (chip st') \<or>
       target_exit_called (sl_st st') \<noteq> 0)"
proof -
  have "\<exists>n. (0 < n \<longrightarrow> unat (main_time st) + 250 * n < 2000 * MEGA * ps_per_clock + 250) \<and>
      sim_loop D V getch st = TICKs n D V getch st \<and>
      (\<forall>st'. sim_loop D V getch st = Inr st' \<longrightarrow> \<not> running V st')"
  proof (induction D V getch st rule: sim_loop.induct)
    case (1 D V getch st)
    show ?case
    proof (cases "running V st")
      case False
      then show ?thesis by (intro exI [of _ 0]) (simp add: sim_loop.simps [of D V getch st])
    next
      case True
      show ?thesis
      proof (cases "TICK D V getch st")
        case (Inl e)
        have "unat (main_time st) div ps_per_clock < 2000 * MEGA" using True by (simp add: running_def)
        then have "unat (main_time st) < 2000 * MEGA * ps_per_clock"
          by (simp add: ps_per_clock_def div_less_iff_less_mult)
        then show ?thesis
          using True Inl by (intro exI [of _ 1]) (simp add: sim_loop.simps [of D V getch st])
      next
        case (Inr st1)
        obtain n where n: "0 < n \<longrightarrow> unat (main_time st1) + 250 * n < 2000 * MEGA * ps_per_clock + 250"
          "sim_loop D V getch st1 = TICKs n D V getch st1"
          "\<forall>st'. sim_loop D V getch st1 = Inr st' \<longrightarrow> \<not> running V st'"
          using 1 [OF True Inr] by blast
        have "unat (main_time st) + 250 * Suc n < 2000 * MEGA * ps_per_clock + 250"
          using n(1) running_time [OF True Inr] by (cases "n = 0") simp_all
        then show ?thesis
          using n(2,3) True Inr by (intro exI [of _ "Suc n"]) (simp add: sim_loop.simps [of D V getch st])
      qed
    qed
  qed
  then obtain n where n: "(0 < n \<longrightarrow> unat (main_time st) + 250 * n < 2000 * MEGA * ps_per_clock + 250)"
    "sim_loop D V getch st = TICKs n D V getch st"
    "\<forall>st'. sim_loop D V getch st = Inr st' \<longrightarrow> \<not> running V st'" by blast
  have "n \<le> 4000 * MEGA" using n(1) by (cases "n = 0") (simp_all add: ps_per_clock_def MEGA_def)
  then show ?thesis
    using n(2,3) by (intro exI [of _ n]) (auto simp: running_def sl_exit_called_def not_less)
qed

section \<open>The keyboard\<close>

lemma tick_off_beat:
  fixes D :: "'d dram_sim" and t :: u64
  assumes "unat t mod 250 = 0" and "unat t < 2 ^ 63"
  shows "tick D (unat (t + 125)) k e x = tick D (unat (t + 125)) k' e x"
proof -
  have u: "unat (t + 125 :: u64) = unat t + 125" using assms(2) by (simp add: unat_word_ariths)
  obtain q where q: "unat t = 250 * q" using assms(1) by (auto simp: mod_eq_0_iff_dvd)
  have "(250 * q + 125) mod 500000 mod 250 = (250 * q + 125) mod 250" by (rule mod_mod_cancel) simp
  also have "\<dots> = 125" by simp
  finally have "(250 * q + 125) mod 500000 \<noteq> 0" by (intro notI) simp
  then have kb: "keyboard (unat (t + 125)) k s = keyboard (unat (t + 125)) k' s" for s :: "'d system"
    unfolding u q by (simp add: keyboard_def ps_per_clock_def)
  show ?thesis unfolding tick_def kb ..
qed

lemma TICK_keyboard:
  assumes "unat (main_time st) mod 250 = 0" and "unat (main_time st) < 2 ^ 63"
  shows "TICK D V getch st = TICK D V getch' st"
    and "TICK D V getch st = Inr st' \<Longrightarrow> unat (main_time st') = unat (main_time st) + 250"
proof -
  have eq: "sys_tick D getch s = sys_tick D getch' s" if "main_time s = main_time st + 125" for s
    unfolding sys_tick_def that by (subst tick_off_beat [OF assms]) (rule refl)
  have "sys_tick D getch (pass_time (eval_chip V (st\<lparr>chip := (chip st)\<lparr>clk := \<not> clk (chip st)\<rparr>\<rparr>))) =
      sys_tick D getch' (pass_time (eval_chip V (st\<lparr>chip := (chip st)\<lparr>clk := \<not> clk (chip st)\<rparr>\<rparr>)))"
    by (rule eq) (simp add: main_time_pass)
  then show "TICK D V getch st = TICK D V getch' st"
    by (simp only: TICK_def Let_def)
  show "unat (main_time st') = unat (main_time st) + 250" if "TICK D V getch st = Inr st'"
    using TICK_time [OF that] assms(2) by (simp add: unat_word_ariths)
qed

lemma TICKs_keyboard:
  assumes "unat (main_time st) mod 250 = 0" and "unat (main_time st) + 250 * n < 2 ^ 63"
  shows "TICKs n D V getch st = TICKs n D V getch' st"
    and "TICKs n D V getch st = Inr st' \<Longrightarrow> unat (main_time st') = unat (main_time st) + 250 * n"
proof -
  have "TICKs n D V getch st = TICKs n D V getch' st \<and>
      (\<forall>st'. TICKs n D V getch st = Inr st' \<longrightarrow> unat (main_time st') = unat (main_time st) + 250 * n)"
    using assms
  proof (induction n arbitrary: st)
    case 0
    then show ?case by simp
  next
    case (Suc n)
    have t: "unat (main_time st) mod 250 = 0" "unat (main_time st) < 2 ^ 63" using Suc.prems by simp_all
    show ?case
    proof (cases "TICK D V getch st")
      case (Inl e)
      then show ?thesis using TICK_keyboard(1) [OF t, of D V getch getch'] by simp
    next
      case (Inr st1)
      have t1: "unat (main_time st1) = unat (main_time st) + 250" using TICK_keyboard(2) [OF t Inr] .
      then have "TICKs n D V getch st1 = TICKs n D V getch' st1 \<and>
          (\<forall>st'. TICKs n D V getch st1 = Inr st' \<longrightarrow> unat (main_time st') = unat (main_time st1) + 250 * n)"
        using Suc.prems by (intro Suc.IH) simp_all
      then show ?thesis using Inr TICK_keyboard(1) [OF t, of D V getch getch'] t1 by simp
    qed
  qed
  then show "TICKs n D V getch st = TICKs n D V getch' st"
    and "TICKs n D V getch st = Inr st' \<Longrightarrow> unat (main_time st') = unat (main_time st) + 250 * n" by blast+
qed

lemma sim_loop_keyboard:
  assumes "unat (main_time st) mod 250 = 0"
  shows "sim_loop D V getch st = sim_loop D V getch' st"
  using assms
proof (induction D V getch st rule: sim_loop.induct)
  case (1 D V getch st)
  show ?case
  proof (cases "running V st")
    case False
    then show ?thesis by (simp add: sim_loop.simps [of D V _ st])
  next
    case True
    have "unat (main_time st) div ps_per_clock < 2000 * MEGA" using True by (simp add: running_def)
    then have t: "unat (main_time st) < 2 ^ 63"
      by (simp add: ps_per_clock_def MEGA_def div_less_iff_less_mult)
    note eq = TICK_keyboard(1) [OF "1.prems" t, of D V getch getch']
    show ?thesis
    proof (cases "TICK D V getch st")
      case (Inl e)
      then show ?thesis using True eq by (simp add: sim_loop.simps [of D V _ st])
    next
      case (Inr st1)
      then show ?thesis
        using True eq "1.IH" [OF True Inr] TICK_keyboard(2) [OF "1.prems" t Inr] "1.prems"
        by (simp add: sim_loop.simps [of D V _ st])
    qed
  qed
qed

text \<open>The keyboard is never read.  The test for the time of a poll in \<open>tick\<close> sees a time
  that is an odd multiple of an eighth of a clock, never a multiple of a thousand clocks: from time
  0 on the whole simulation is the same whatever keys are waiting.\<close>

theorem keyboard_is_never_polled:
  assumes "main_time st = 0"
  shows "simulate D V getch console st = simulate D V getch' console st"
proof -
  let ?st = "st\<lparr>chip := (chip st)\<lparr>reset := True, clk := False\<rparr>\<rparr>"
  have t: "unat (main_time ?st) mod 250 = 0" "unat (main_time ?st) + 250 * 4 < 2 ^ 63"
    using assms by simp_all
  note eq = TICKs_keyboard(1) [OF t, of D V getch getch']
  show ?thesis
  proof (cases "TICKs 4 D V getch ?st")
    case (Inl e)
    then show ?thesis using eq by (simp add: simulate_def)
  next
    case (Inr st1)
    have "unat (main_time st1) = 1000" using TICKs_keyboard(2) [OF t Inr] assms by simp
    then have "unat (main_time s) mod 250 = 0" if "main_time s = main_time st1" for s :: "('a, 'b, 'c) sim"
      using that by simp
    note loop = sim_loop_keyboard [OF this, of _ D V getch getch']
    have "sim_loop D V getch s = sim_loop D V getch' s"
      if "s = (if console then st1\<lparr>chip := c, sys := d\<rparr> else st1\<lparr>chip := c\<rparr>)" for s c d
      using that by (intro loop) simp
    then show ?thesis
      unfolding simulate_def Inr eq [symmetric] sum.case Let_def by simp
  qed
qed

definition idle_verilog :: "(unit, 'w) verilog" where
  "idle_verilog = \<lparr>eval = (\<lambda>x. x), gotFinish = (\<lambda>c. True)\<rparr>"

definition demo_sim :: "(unit, unit, u64 list) sim" where
  "demo_sim = \<lparr>chip = drive False 0 0 True, sl_st = demo_state, sys = demo_system, main_time = 0\<rparr>"

theorem keyboard_is_never_polled_witness:
  "simulate fifo_dram idle_verilog (\<lambda>t. Some 65) True demo_sim =
    simulate fifo_dram idle_verilog (\<lambda>t. None) True demo_sim"
  by (rule keyboard_is_never_polled) (simp add: demo_sim_def)

theorem main_loop_ends_witness:
  "\<exists>n. sim_loop fifo_dram idle_verilog (\<lambda>t. None) demo_sim = TICKs n fifo_dram idle_verilog (\<lambda>t. None) demo_sim"
  using main_loop_ends [of fifo_dram idle_verilog "\<lambda>t. None" demo_sim] by blast

section \<open>Program arguments\<close>

lemma be32tole_bswap32: "be32tole x = bswap32 x"
proof (rule bit_word_eqI)
  fix n assume "n < LENGTH(32)"
  then have "n < 32" by simp
  have m: "(0xFF :: u32) = mask 8" by (simp add: mask_eq_exp_minus_1)
  show "bit (be32tole x) n = bit (bswap32 x) n"
    unfolding be32tole_def m using \<open>n < 32\<close>
    by (cases rule: lanes32) (simp_all add: bit_simps bit_bswap32 less_diff_conv2 add.commute)
qed

lemma check_word_eq:
  "check_word m r j = ldl_be_p m (r + (INIT_STACK_POINTER + 64 + of_nat j * 4))"
  by (simp add: check_word_def be32tole_bswap32 ldl_be_p_def)

text \<open>C22: The sanity check of \<open>main\<close> reads back what \<open>sl_init\<close> laid out.  The word number 0
  is the number of arguments; the word number \<open>j + 1\<close> is the address of a copy of the argument
  \<open>j\<close>, whose end the loop over the string finds (one past the terminating zero).  (Fewer than
  2^20 arguments, which are strings as \<open>sl_init\<close> needs them: see \<open>args_ok\<close>.)\<close>

theorem check_reads_back_arguments:
  fixes s :: "'w sl_state"
  assumes "args_ok (placed s (get_ram_address S) RAM_SIZE (ucast INIT_STACK_POINTER)) (tl argv) strs"
    and "argc = 1 + int (length strs)" and "length strs < 2 ^ 20"
  shows "\<exists>m. result_of (main_sl_init S argc argv) s = Inr () \<and>
    hmem (state_after (main_sl_init S argc argv) s) = m \<and>
    check_word m (ram S) 0 = of_nat (length strs) \<and>
    (\<forall>j < length strs. let p = ram S + ucast (check_word m (ram S) (Suc j)) in
       mem_read m p (length (strs ! j) + 1) = strs ! j @ [0] \<and>
       skip_string m p = Some (p + of_nat (length (strs ! j) + 1)))"
proof -
  let ?sp = "ucast INIT_STACK_POINTER :: u32" and ?gb = "get_ram_address S"
  let ?s = "init_state (ucast (get_max_elf_addr S)) ?sp ?gb RAM_SIZE s"
  have s: "guest_base ?s = ram S" "guest_max_mem ?s = RAM_SIZE" "target_sp ?s = ?sp" "hmem ?s = hmem s"
    by (simp_all add: init_state_def get_ram_address_def)
  have ok: "args_ok ?s (tl argv) strs" using assms(1) by (simp only: args_ok_init_state)
  obtain m where m:
    "run_state (init_stack (int (length strs)) (tl argv)) ?s = (Inr (), ?s\<lparr>hmem := m\<rparr>)"
    "\<And>j. j < length strs + 2 \<Longrightarrow> word_at m (ram S) (?sp + 64 + 4 * of_nat j) =
       (to_abi (int (length strs)) # map of_nat (arg_addrs (unat RAM_SIZE) strs) @ [0]) ! j"
    "\<And>j. j < length strs \<Longrightarrow> c_string m (g2h_at (ram S) (of_nat (arg_addrs (unat RAM_SIZE) strs ! j))) (strs ! j)"
    using run_init_stack [OF ok] unfolding s by blast
  have run: "run_state (main_sl_init S argc argv) s = (Inr (), ?s\<lparr>hmem := m\<rparr>)"
    using m(1) by (simp add: main_sl_init_def run_sl_init assms(2))
  have isp: "?sp = 0x3fc00000" "INIT_STACK_POINTER = 0x3fc00000"
    by (simp_all add: INIT_STACK_POINTER_def RAM_SIZE_def INIT_STACK_OFFSET_def GIGA_def MEGA_def)
  have w: "check_word m (ram S) j = word_at m (ram S) (?sp + 64 + 4 * of_nat j)"
    if "j < length strs + 2" for j
  proof -
    have "unat (0x3fc00040 + 4 * of_nat j :: u32) = unat (0x3fc00040 + of_nat j * 4 :: u64)"
      using that assms(3) by (simp add: unat_word_ariths unat_of_nat_less)
    then have c: "ucast (0x3fc00040 + 4 * of_nat j :: u32) = (0x3fc00040 + of_nat j * 4 :: u64)"
      by (simp only: word_unat_eq_iff unat_ucast_u64)
    have a: "?sp + 64 + 4 * of_nat j = 0x3fc00040 + 4 * of_nat j"
      and b: "INIT_STACK_POINTER + 64 + of_nat j * 4 = 0x3fc00040 + of_nat j * 4"
      unfolding isp by simp_all
    have "g2h_at (ram S) (?sp + 64 + 4 * of_nat j) = ram S + (INIT_STACK_POINTER + 64 + of_nat j * 4)"
      unfolding g2h_at_def a b c by (rule add.commute)
    then show ?thesis by (simp add: check_word_eq)
  qed
  have zero: "check_word m (ram S) 0 = of_nat (length strs)"
    using w [of 0] m(2) [of 0] by (simp add: to_abi_def)
  have "check_word m (ram S) (Suc j) = of_nat (arg_addrs (unat RAM_SIZE) strs ! j)"
    if "j < length strs" for j
    using that w [of "Suc j"] m(2) [of "Suc j"] by (simp add: nth_append)
  then have "c_string m (ram S + ucast (check_word m (ram S) (Suc j))) (strs ! j)"
    if "j < length strs" for j
    using that m(3) [OF that] by (simp add: g2h_at_def add.commute)
  then have words: "let p = ram S + ucast (check_word m (ram S) (Suc j)) in
       mem_read m p (length (strs ! j) + 1) = strs ! j @ [0] \<and>
       skip_string m p = Some (p + of_nat (length (strs ! j) + 1))"
    if "j < length strs" for j
    using that skip_string_end unfolding Let_def c_string_def by blast
  have "result_of (main_sl_init S argc argv) s = Inr ()"
    "hmem (state_after (main_sl_init S argc argv) s) = m" by (simp_all add: run)
  then show ?thesis using zero words by blast
qed

definition demo_loaded :: "unit system" where
  "demo_loaded = small_machine\<lparr>ram := 0x700000000000, ramsize := 0x40000000\<rparr>"

theorem check_reads_back_arguments_witness:
  "\<exists>m. hmem (state_after (main_sl_init demo_loaded 2 [0x500, 0x1000]) demo_start) = m \<and>
    check_word m (ram demo_loaded) 0 = 1 \<and>
    mem_read m (ram demo_loaded + ucast (check_word m (ram demo_loaded) 1)) 3 = [104, 105, 0]"
proof -
  have "ucast INIT_STACK_POINTER = (0x3fc00000 :: u32)" "RAM_SIZE = 0x40000000"
    "get_ram_address demo_loaded = 0x700000000000"
    by (simp_all add: INIT_STACK_POINTER_def RAM_SIZE_def INIT_STACK_OFFSET_def GIGA_def MEGA_def
        get_ram_address_def demo_loaded_def)
  then have "args_ok (placed demo_start (get_ram_address demo_loaded) RAM_SIZE (ucast INIT_STACK_POINTER))
      (tl [0x500, 0x1000]) [demo_argument]"
    using demo_args_ok by simp
  from check_reads_back_arguments [OF this, of 2] show ?thesis
    by (simp add: demo_argument_def Let_def numeral_3_eq_3)
qed

section \<open>One memory\<close>

lemma line_word_0: "line_word a 0 = a"
proof -
  have "(a AND NOT 63) = a - (a AND 63)" by (rule and_not_eq_diff)
  then show ?thesis unfolding line_word_def by (simp only: add_0_right diff_add_cancel)
qed

text \<open>C23: System calls and the bus work on one memory.  A 64-bit value that a system call puts
  at an aligned guest address is the first word of the answer to an outstanding bus read of that
  address, if its line is in the RAM and the guest's memory is the RAM: the byte orders of
  \<open>put_user\<close> and of the bus agree.\<close>

theorem stored_word_reaches_bus:
  fixes s :: "'w sl_state" and S :: "'d system"
  assumes "run_state (put_user64 x a) s = (0, t)" and "a AND 7 = 0"
    and "host_mem S = hmem t" and "ram S = guest_base s"
    and "line_in_ram S (ucast a)" and "addr_to_tag S (ucast a) = Some tag"
  shows "\<exists>u rest. dram_read_complete (ucast a) S = Inr u \<and> tx_queue u = tx_queue S @ (x, tag) # rest"
proof -
  have "(ucast a :: u64) AND 7 = ucast (a AND 7)"
    by (rule bit_word_eqI) (auto simp: bit_simps dest: bit_imp_le_length)
  then have al: "(ucast a :: u64) AND 7 = 0" using assms(2) by simp
  have "hmem t = stq_be_p (hmem s) (g2h_at (guest_base s) a) x"
    using assms(1) by (auto simp: put_user64_def run_simps to_abi_def split: if_splits)
  then have "ldq_be_p (host_mem S) (ram S + line_word (ucast a) 0) = x"
    by (simp add: assms(3,4) line_word_0 g2h_at_def add.commute be64.ld_st)
  then have b: "burst S (ucast a) tag = (x, tag) # tl (burst S (ucast a) tag)"
    by (simp add: burst_def upt_rec)
  show ?thesis
  proof (intro exI conjI)
    show "dram_read_complete (ucast a) S = Inr (S\<lparr>tx_queue := tx_queue S @ burst S (ucast a) tag,
        addr_to_tag := (addr_to_tag S)(ucast a := None)\<rparr>)"
      by (rule dram_read_complete_result [OF assms(5) al assms(6)])
    show "tx_queue (S\<lparr>tx_queue := tx_queue S @ burst S (ucast a) tag,
        addr_to_tag := (addr_to_tag S)(ucast a := None)\<rparr>) = tx_queue S @ (x, tag) # tl (burst S (ucast a) tag)"
      using b by simp
  qed
qed

theorem stored_word_reaches_bus_witness:
  "\<exists>t u rest. run_state (put_user64 0x1122334455667788 0x40) demo_start = (0, t) \<and>
    dram_read_complete 0x40 (small_machine\<lparr>host_mem := hmem t, ram := guest_base demo_start,
      addr_to_tag := [0x40 \<mapsto> 9]\<rparr>) = Inr u \<and> tx_queue u = (0x1122334455667788, 9) # rest"
proof -
  obtain t where t: "run_state (put_user64 0x1122334455667788 0x40) demo_start = (0, t)"
    by (simp add: put_user64_def run_simps demo_start_def demo_state_def g2h_at_def)
  let ?S = "small_machine\<lparr>host_mem := hmem t, ram := guest_base demo_start, addr_to_tag := [0x40 \<mapsto> 9]\<rparr>"
  have "line_in_ram ?S (ucast (0x40 :: u32))" by (simp add: line_in_ram_def)
  from stored_word_reaches_bus [OF t _ _ _ this, of 9] t show ?thesis
    by (simp add: small_machine_def)
qed

end
