(* ===== verification/Cache_Bench.thy ===== *)
theory Cache_Bench
  imports Bus
begin

unbundle bit_operations_syntax

text \<open>
  The test bench of the cache homework, \<open>hw2/system.cpp\<close> and \<open>hw2/main.cpp\<close>.  The processor is
  in the bench: \<open>procTick\<close> makes random requests to the cache under test, a Verilog module that
  talks to the memory over the bus, and \<open>ramTick\<close> is an earlier copy of the memory side.

  The members of this \<open>System\<close> are a record \<open>hw_system\<close>, the pins of this module a record
  \<open>hw_pins\<close> (names the other bench has too start with \<open>hw_\<close>); the record's extension is the
  inside of the cache.  \<open>rand\<close> of the C library is a parameter, a function of the state of the
  generator.  DRAMSim2 is the record of functions of \<open>Bus\<close>.
\<close>

section \<open>Pins and members\<close>

record hw_pins =
  hw_clk :: bool
  hw_reset :: bool
  c_ack :: bool
  c_data_out :: u32
  c_req :: bool
  c_read_write_n :: bool
  c_line_addr :: u64
  c_data_in :: u32
  c_word_select :: u8
  hw_bus_reqcyc :: bool
  hw_bus_respack :: bool
  hw_bus_req :: u64
  hw_bus_reqtag :: u16
  hw_bus_respcyc :: bool
  hw_bus_reqack :: bool
  hw_bus_resp :: u64
  hw_bus_resptag :: u16

record 'd hw_system =
  hw_mem :: hostmem
  hw_ram :: u64
  hw_ramsize :: u32
  hw_cmd :: nat
  hw_rx_count :: int
  hw_xfer_addr :: u64
  hw_addr_to_tag :: "u64 \<rightharpoonup> u32"
  hw_tx_queue :: "(u64 \<times> u32) list"
  hw_dramsim :: 'd
  hw_messages :: "message list"

type_synonym 'r rand = "'r \<Rightarrow> nat \<times> 'r"

text \<open>The constructor: the RAM is cleared, \<open>cmd\<close> and \<open>xfer_addr\<close> keep what was there.\<close>

definition hw_System_new :: "'d hw_system \<Rightarrow> u64 \<Rightarrow> 'd \<Rightarrow> u32 \<Rightarrow> stop + 'd hw_system" where
  "hw_System_new raw ptr d rs =
    (let s = raw\<lparr>hw_ram := ptr, hw_ramsize := rs, hw_rx_count := 0, hw_addr_to_tag := Map.empty,
        hw_tx_queue := [], hw_dramsim := d\<rparr>
     in if ptr = 0 then Inl Assertion_failed
        else Inr (s\<lparr>hw_mem := mem_set (hw_mem s) ptr 0 (unat rs)\<rparr>))"

section \<open>The processor\<close>

definition procTick :: "'r rand \<Rightarrow> u32 \<Rightarrow> 't hw_pins_scheme \<times> 'r \<Rightarrow> 't hw_pins_scheme \<times> 'r" where
  "procTick rand rs = (\<lambda>(p, r).
     if hw_reset p then (p, r)
     else if c_req p \<and> \<not> c_ack p then (p, r)
     else if \<not> hw_clk p then
       let p = (if c_ack p then p\<lparr>c_req := False\<rparr> else p);
           (wait, r) = rand r
       in if wait mod 5 = 0 then (p, r)
          else
            let p = p\<lparr>c_req := True\<rparr>;
                (x, r) = rand r; p = p\<lparr>c_read_write_n := x mod 2 = 1\<rparr>;
                (x, r) = rand r; addr = of_nat x mod rs; p = p\<lparr>c_line_addr := ucast (drop_bit 6 addr)\<rparr>;
                (x, r) = rand r; p = p\<lparr>c_word_select := of_nat (x mod 16)\<rparr>
            in if \<not> c_read_write_n p then
                 let (x, r) = rand r in (p\<lparr>c_data_in := of_nat x\<rparr>, r)
               else (p, r)
     else (p, r))"

section \<open>The memory\<close>

definition hw_load :: "'d hw_system \<Rightarrow> u64 \<Rightarrow> stop + u64" where
  "hw_load s off =
    (if unat off + 8 \<le> unat (hw_ramsize s) then Inr (ldq_he_p (hw_mem s) (hw_ram s + off))
     else Inl Outside_ram)"

definition hw_store :: "u64 \<Rightarrow> u64 \<Rightarrow> 'd hw_system \<Rightarrow> stop + 'd hw_system" where
  "hw_store off v s =
    (if unat off + 8 \<le> unat (hw_ramsize s)
     then Inr (s\<lparr>hw_mem := stq_he_p (hw_mem s) (hw_ram s + off) v\<rparr>) else Inl Outside_ram)"

primrec hw_fill :: "u64 \<Rightarrow> u32 \<Rightarrow> nat list \<Rightarrow> 'd hw_system \<Rightarrow> stop + 'd hw_system" where
  "hw_fill address tag [] s = Inr s"
| "hw_fill address tag (i # is) s =
    (case hw_load s ((address AND NOT 63) + ((address + of_nat i) AND 63)) of
       Inl e \<Rightarrow> Inl e
     | Inr x \<Rightarrow> hw_fill address tag is (s\<lparr>hw_tx_queue := hw_tx_queue s @ [(cse502_be64toh x, tag)]\<rparr>))"

definition hw_dram_read_complete :: "u64 \<Rightarrow> 'd hw_system \<Rightarrow> stop + 'd hw_system" where
  "hw_dram_read_complete address s =
    (case hw_addr_to_tag s address of
       None \<Rightarrow> Inl Assertion_failed
     | Some tag \<Rightarrow>
        (case hw_fill address tag [0, 8, 16, 24, 32, 40, 48, 56] s of
           Inl e \<Rightarrow> Inl e
         | Inr s \<Rightarrow> Inr (s\<lparr>hw_addr_to_tag := (hw_addr_to_tag s)(address := None)\<rparr>)))"

primrec hw_callbacks :: "u64 list \<Rightarrow> 'd hw_system \<Rightarrow> stop + 'd hw_system" where
  "hw_callbacks [] s = Inr s"
| "hw_callbacks (a # as) s =
    (case hw_dram_read_complete a s of Inl e \<Rightarrow> Inl e | Inr s \<Rightarrow> hw_callbacks as s)"

definition hw_update :: "'d dram_sim \<Rightarrow> 'd hw_system \<Rightarrow> stop + 'd hw_system" where
  "hw_update D s =
    (case update D (hw_dramsim s) of (done, d) \<Rightarrow> hw_callbacks done (s\<lparr>hw_dramsim := d\<rparr>))"

definition hw_respond :: "'t hw_pins_scheme \<times> 'd hw_system \<Rightarrow> 't hw_pins_scheme \<times> 'd hw_system" where
  "hw_respond = (\<lambda>(p, s).
     let s = (if hw_tx_queue s \<noteq> [] \<and> hw_bus_respack p
         then s\<lparr>hw_tx_queue := tl (hw_tx_queue s)\<rparr> else s)
     in (case hw_tx_queue s of
           (resp, tag) # _ \<Rightarrow>
             (p\<lparr>hw_bus_respcyc := True, hw_bus_resp := resp, hw_bus_resptag := ucast tag\<rparr>, s)
         | [] \<Rightarrow>
             (p\<lparr>hw_bus_respcyc := False, hw_bus_resp := 0xaaaaaaaaaaaaaaaa, hw_bus_resptag := 0xaaaa\<rparr>, s)))"

definition hw_request_cmd :: "'t hw_pins_scheme \<Rightarrow> nat" where
  "hw_request_cmd p = unat (drop_bit 8 (hw_bus_reqtag p) AND 0xf)"

definition hw_is_write :: "'t hw_pins_scheme \<Rightarrow> bool" where
  "hw_is_write p \<longleftrightarrow> unat (drop_bit 12 (hw_bus_reqtag p) AND 1) = WRITE"

definition hw_receive_data :: "'t hw_pins_scheme \<Rightarrow> 'd hw_system \<Rightarrow> stop + 'd hw_system" where
  "hw_receive_data p s =
    (if hw_cmd s = MEMORY then
       map_sum id (\<lambda>s. s\<lparr>hw_rx_count := hw_rx_count s - 1\<rparr>)
         (hw_store ((hw_xfer_addr s AND NOT 63) +
             ((hw_xfer_addr s + word_of_int ((8 - hw_rx_count s) * 8)) AND 63))
           (cse502_be64toh (hw_bus_req p)) s)
     else Inl Assertion_failed)"

definition hw_memory_request :: "'d dram_sim \<Rightarrow> 't hw_pins_scheme \<Rightarrow> 'd hw_system \<Rightarrow> stop + 'd hw_system" where
  "hw_memory_request D p s =
    (let s = s\<lparr>hw_xfer_addr := hw_bus_req p\<rparr>
     in if hw_xfer_addr s AND 7 \<noteq> 0 then Inl Assertion_failed
        else if hw_addr_to_tag s (hw_xfer_addr s) \<noteq> None then
          Inr (s\<lparr>hw_messages := hw_messages s @ [Already_outstanding (hw_xfer_addr s)]\<rparr>)
        else (case addTransaction D (hw_is_write p) (hw_xfer_addr s) (hw_dramsim s) of (accepted, d) \<Rightarrow>
          let s = s\<lparr>hw_dramsim := d\<rparr>
          in if \<not> accepted then Inl Assertion_failed
             else if \<not> hw_is_write p then
               Inr (s\<lparr>hw_addr_to_tag := (hw_addr_to_tag s)(hw_xfer_addr s \<mapsto> ucast (hw_bus_reqtag p))\<rparr>)
             else Inr s))"

definition hw_new_request :: "'d dram_sim \<Rightarrow> 't hw_pins_scheme \<Rightarrow> 'd hw_system \<Rightarrow> stop + 'd hw_system" where
  "hw_new_request D p s =
    (let s = s\<lparr>hw_rx_count :=
          (if hw_cmd s = MEMORY \<and> hw_is_write p then 8
           else if hw_cmd s = MMIO \<and> hw_is_write p then 1 else 0)\<rparr>
     in if hw_cmd s = MEMORY then hw_memory_request D p s else Inl Assertion_failed)"

definition hw_serve :: "'d dram_sim \<Rightarrow> 't hw_pins_scheme \<times> 'd hw_system \<Rightarrow>
    stop + 't hw_pins_scheme \<times> 'd hw_system" where
  "hw_serve D = (\<lambda>(p, s).
     if hw_bus_reqcyc p then
       let s = s\<lparr>hw_cmd := hw_request_cmd p\<rparr>
       in map_sum id (Pair p) (if hw_rx_count s \<noteq> 0 then hw_receive_data p s else hw_new_request D p s)
     else Inr (p\<lparr>hw_bus_reqack := False\<rparr>, s\<lparr>hw_rx_count := 0\<rparr>))"

definition ramTick :: "'d dram_sim \<Rightarrow> bool \<Rightarrow> 't hw_pins_scheme \<times> 'd hw_system \<Rightarrow>
    stop + 't hw_pins_scheme \<times> 'd hw_system" where
  "ramTick D edge = (\<lambda>(p, s).
     if hw_reset p \<and> hw_bus_reqcyc p then
       Inr (p, s\<lparr>hw_messages := hw_messages s @ [Request_on_reset]\<rparr>)
     else if \<not> edge then
       (if hw_bus_reqcyc p then
          let ack = willAcceptTransaction D (hw_dramsim s)
          in if hw_rx_count s = 0 \<or> ack then Inr (p\<lparr>hw_bus_reqack := ack\<rparr>, s) else Inl Assertion_failed
        else Inr (p, s))
     else
       (case hw_update D s of
          Inl e \<Rightarrow> Inl e
        | Inr s \<Rightarrow> hw_serve D (hw_respond (p, s))))"

section \<open>The bench\<close>

definition hw_tick :: "'d dram_sim \<Rightarrow> 'r rand \<Rightarrow> bool \<Rightarrow> 't hw_pins_scheme \<times> 'd hw_system \<times> 'r \<Rightarrow>
    stop + 't hw_pins_scheme \<times> 'd hw_system \<times> 'r" where
  "hw_tick D rand edge = (\<lambda>(p, s, r).
     case procTick rand (hw_ramsize s) (p, r) of (p, r) \<Rightarrow>
       map_sum id (\<lambda>(p, s). (p, s, r)) (ramTick D edge (p, s)))"

record ('c, 'd, 'r) bench =
  cache :: "'c hw_pins_scheme"
  bench_sys :: "'d hw_system"
  bench_rand :: 'r
  bench_time :: u64

record 'c cache_model =
  cache_eval :: "'c hw_pins_scheme \<Rightarrow> 'c hw_pins_scheme"
  cache_gotFinish :: "'c hw_pins_scheme \<Rightarrow> bool"

definition HW_RAM_SIZE :: u32 where "HW_RAM_SIZE = 1024 * 1024"

definition bench_eval :: "'c cache_model \<Rightarrow> ('c, 'd, 'r) bench \<Rightarrow> ('c, 'd, 'r) bench" where
  "bench_eval V b = b\<lparr>cache := cache_eval V (cache b)\<rparr>"

definition bench_pass_time :: "('c, 'd, 'r) bench \<Rightarrow> ('c, 'd, 'r) bench" where
  "bench_pass_time b = b\<lparr>bench_time := bench_time b + of_nat (ps_per_clock div 4)\<rparr>"

definition bench_tick :: "'d dram_sim \<Rightarrow> 'r rand \<Rightarrow> ('c, 'd, 'r) bench \<Rightarrow> stop + ('c, 'd, 'r) bench" where
  "bench_tick D rand b =
     map_sum id (\<lambda>(p, s, r). b\<lparr>cache := p, bench_sys := s, bench_rand := r\<rparr>)
       (hw_tick D rand (hw_clk (cache b)) (cache b, bench_sys b, bench_rand b))"

definition bench_TICK :: "'d dram_sim \<Rightarrow> 'r rand \<Rightarrow> 'c cache_model \<Rightarrow> ('c, 'd, 'r) bench \<Rightarrow>
    stop + ('c, 'd, 'r) bench" where
  "bench_TICK D rand V b =
    (let b = bench_eval V (b\<lparr>cache := (cache b)\<lparr>hw_clk := \<not> hw_clk (cache b)\<rparr>\<rparr>)
     in case bench_tick D rand b of
          Inl e \<Rightarrow> Inl e
        | Inr b \<Rightarrow> Inr (bench_pass_time (bench_eval V (bench_pass_time b))))"

primrec bench_TICKs :: "nat \<Rightarrow> 'd dram_sim \<Rightarrow> 'r rand \<Rightarrow> 'c cache_model \<Rightarrow> ('c, 'd, 'r) bench \<Rightarrow>
    stop + ('c, 'd, 'r) bench" where
  "bench_TICKs 0 D rand V b = Inr b"
| "bench_TICKs (Suc n) D rand V b =
    (case bench_TICK D rand V b of Inl e \<Rightarrow> Inl e | Inr b \<Rightarrow> bench_TICKs n D rand V b)"

definition bench_running :: "'c cache_model \<Rightarrow> ('c, 'd, 'r) bench \<Rightarrow> bool" where
  "bench_running V b \<longleftrightarrow>
     unat (bench_time b) div ps_per_clock < 200 * 1024 \<and> \<not> cache_gotFinish V (cache b)"

lemma bench_TICK_time:
  assumes "bench_TICK D rand V b = Inr b'"
  shows "bench_time b' = bench_time b + 250"
  using assms
  by (auto simp: bench_TICK_def bench_tick_def bench_eval_def bench_pass_time_def ps_per_clock_def
      map_sum_def Let_def split: sum.splits)

lemma bench_running_time:
  assumes "bench_running V b" and "bench_TICK D rand V b = Inr b'"
  shows "unat (bench_time b') = unat (bench_time b) + 250"
    and "unat (bench_time b) < 200 * 1024 * ps_per_clock"
proof -
  have "unat (bench_time b) div ps_per_clock < 200 * 1024"
    using assms(1) by (simp add: bench_running_def)
  then show l: "unat (bench_time b) < 200 * 1024 * ps_per_clock"
    by (simp add: ps_per_clock_def div_less_iff_less_mult)
  then show "unat (bench_time b') = unat (bench_time b) + 250"
    unfolding bench_TICK_time [OF assms(2)] by (simp add: unat_word_ariths ps_per_clock_def)
qed

function bench_loop :: "'d dram_sim \<Rightarrow> 'r rand \<Rightarrow> 'c cache_model \<Rightarrow> ('c, 'd, 'r) bench \<Rightarrow>
    stop + ('c, 'd, 'r) bench" where
  "bench_loop D rand V b =
    (if bench_running V b then
       (case bench_TICK D rand V b of Inl e \<Rightarrow> Inl e | Inr b \<Rightarrow> bench_loop D rand V b)
     else Inr b)"
  by pat_completeness auto
termination
  by (relation "measure (\<lambda>(D, rand, V, b). 200 * 1024 * ps_per_clock - unat (bench_time b))")
    (auto simp: bench_running_time dest: bench_running_time(2))

declare bench_loop.simps [simp del]

text \<open>Two edges under reset, two without, and the loop; \<open>srand\<close> has set the generator.\<close>

definition bench_main :: "'d dram_sim \<Rightarrow> 'r rand \<Rightarrow> 'c cache_model \<Rightarrow> ('c, 'd, 'r) bench \<Rightarrow>
    stop + ('c, 'd, 'r) bench" where
  "bench_main D rand V b =
    (case bench_TICKs 2 D rand V (b\<lparr>cache := (cache b)\<lparr>hw_reset := True, hw_clk := False\<rparr>\<rparr>) of
       Inl e \<Rightarrow> Inl e
     | Inr b \<Rightarrow>
        (case bench_TICKs 2 D rand V (b\<lparr>cache := (cache b)\<lparr>hw_reset := False\<rparr>\<rparr>) of
           Inl e \<Rightarrow> Inl e
         | Inr b \<Rightarrow> bench_loop D rand V b))"

end
