(* ===== verification/Cache_Bench_Props.thy ===== *)
theory Cache_Bench_Props
  imports Cache_Bench Bus_Props
begin

unbundle bit_operations_syntax

text \<open>
  Properties of the cache bench: its memory side is the one of the other bench, and what its
  processor asks the cache for.
\<close>

section \<open>The two memory sides\<close>

text \<open>The state of this bench as a state of the other, with no program, keys or screen.\<close>

definition bus_pins :: "'t hw_pins_scheme \<Rightarrow> vtop" where
  "bus_pins p = \<lparr>clk = hw_clk p, reset = hw_reset p, entry = 0, bus_reqcyc = hw_bus_reqcyc p,
     bus_respack = hw_bus_respack p, bus_req = hw_bus_req p, bus_reqtag = hw_bus_reqtag p,
     bus_respcyc = hw_bus_respcyc p, bus_reqack = hw_bus_reqack p, bus_resp = hw_bus_resp p,
     bus_resptag = hw_bus_resptag p\<rparr>"

definition as_system :: "'d hw_system \<Rightarrow> 'd system" where
  "as_system s = \<lparr>host_mem = hw_mem s, ram = hw_ram s, ramsize = hw_ramsize s, max_elf_addr = 0,
     interrupts = 0, keys = [], show_console = False, cmd = hw_cmd s, rx_count = hw_rx_count s,
     xfer_addr = hw_xfer_addr s, addr_to_tag = hw_addr_to_tag s, tx_queue = hw_tx_queue s,
     dramsim = hw_dramsim s, screen = [], messages = hw_messages s\<rparr>"

lemma bus_pins_sel [simp]:
  "reset (bus_pins p) = hw_reset p" "bus_reqcyc (bus_pins p) = hw_bus_reqcyc p"
  "bus_respack (bus_pins p) = hw_bus_respack p" "bus_req (bus_pins p) = hw_bus_req p"
  "bus_reqtag (bus_pins p) = hw_bus_reqtag p"
  "request_cmd (bus_pins p) = hw_request_cmd p" "is_write (bus_pins p) = hw_is_write p"
  by (simp_all add: bus_pins_def request_cmd_def hw_request_cmd_def is_write_def hw_is_write_def)

lemma as_system_sel [simp]:
  "rx_count (as_system s) = hw_rx_count s" "cmd (as_system s) = hw_cmd s"
  "xfer_addr (as_system s) = hw_xfer_addr s" "addr_to_tag (as_system s) = hw_addr_to_tag s"
  "tx_queue (as_system s) = hw_tx_queue s" "dramsim (as_system s) = hw_dramsim s"
  "messages (as_system s) = hw_messages s" "show_console (as_system s) = False"
  by (simp_all add: as_system_def)

lemma bus_pins_update:
  "bus_pins p\<lparr>bus_reqack := a\<rparr> = bus_pins (p\<lparr>hw_bus_reqack := a\<rparr>)"
  "bus_pins p\<lparr>bus_respcyc := a, bus_resp := v, bus_resptag := g\<rparr> =
     bus_pins (p\<lparr>hw_bus_respcyc := a, hw_bus_resp := v, hw_bus_resptag := g\<rparr>)"
  by (simp_all add: bus_pins_def)

text \<open>The other way round, so that the simplifier collects the updates in this bench's state.\<close>

lemma as_system_update:
  "as_system s\<lparr>host_mem := m\<rparr> = as_system (s\<lparr>hw_mem := m\<rparr>)"
  "as_system s\<lparr>rx_count := n\<rparr> = as_system (s\<lparr>hw_rx_count := n\<rparr>)"
  "as_system s\<lparr>cmd := c\<rparr> = as_system (s\<lparr>hw_cmd := c\<rparr>)"
  "as_system s\<lparr>xfer_addr := a\<rparr> = as_system (s\<lparr>hw_xfer_addr := a\<rparr>)"
  "as_system s\<lparr>addr_to_tag := t\<rparr> = as_system (s\<lparr>hw_addr_to_tag := t\<rparr>)"
  "as_system s\<lparr>tx_queue := q\<rparr> = as_system (s\<lparr>hw_tx_queue := q\<rparr>)"
  "as_system s\<lparr>dramsim := d\<rparr> = as_system (s\<lparr>hw_dramsim := d\<rparr>)"
  "as_system s\<lparr>messages := l\<rparr> = as_system (s\<lparr>hw_messages := l\<rparr>)"
  by (simp_all add: as_system_def)

lemma load_matches: "ram_load (as_system s) off = hw_load s off"
  by (simp add: ram_load_def in_ram_def hw_load_def as_system_def)

lemma store_matches: "ram_store off v (as_system s) = map_sum id as_system (hw_store off v s)"
  by (simp add: ram_store_def in_ram_def hw_store_def as_system_def)

lemma fill_matches: "fill a tag is (as_system s) = map_sum id as_system (hw_fill a tag is s)"
  by (induction "is" arbitrary: s)
    (simp_all add: load_matches line_word_def as_system_update split: sum.split)

lemma read_complete_matches:
  "dram_read_complete a (as_system s) = map_sum id as_system (hw_dram_read_complete a s)"
  by (simp add: dram_read_complete_def hw_dram_read_complete_def fill_matches as_system_update
      split: option.split sum.split)

lemma callbacks_match: "callbacks as (as_system s) = map_sum id as_system (hw_callbacks as s)"
  by (induction as arbitrary: s) (simp_all add: read_complete_matches split: sum.split)

lemma update_matches: "dram_update D (as_system s) = map_sum id as_system (hw_update D s)"
  by (simp add: dram_update_def hw_update_def callbacks_match as_system_update split: prod.split)

lemma respond_matches:
  "respond (bus_pins p, as_system s) = map_prod bus_pins as_system (hw_respond (p, s))"
  by (auto simp: respond_def hw_respond_def as_system_update bus_pins_update Let_def split: list.split)

lemma receive_matches:
  assumes "hw_cmd s = MEMORY"
  shows "receive_data (bus_pins p) (as_system s) = map_sum id as_system (hw_receive_data p s)"
  using assms
  by (simp add: receive_data_def hw_receive_data_def store_matches line_word_def sum.map_comp
      as_system_update comp_def)

lemma new_request_matches:
  assumes "hw_cmd s = MEMORY"
  shows "new_request D (bus_pins p) (as_system s) = map_sum id as_system (hw_new_request D p s)"
  using assms
  by (simp add: new_request_def hw_new_request_def memory_request_def hw_memory_request_def
      as_system_update Let_def split: prod.split)

lemma serve_matches:
  assumes "hw_bus_reqcyc p \<longrightarrow> hw_request_cmd p = MEMORY"
  shows "serve D (bus_pins p, as_system s) =
    map_sum id (map_prod bus_pins as_system) (hw_serve D (p, s))"
  using assms
  by (auto simp: serve_def hw_serve_def as_system_update receive_matches new_request_matches
      sum.map_comp comp_def bus_pins_update Let_def)

lemma respond_request:
  assumes "hw_respond (p, s) = (q, t)"
  shows "hw_bus_reqcyc q = hw_bus_reqcyc p" and "hw_request_cmd q = hw_request_cmd p"
  using assms by (auto simp: hw_respond_def hw_request_cmd_def Let_def split: if_splits list.splits)

text \<open>C24: On memory traffic the two test benches are one machine: an edge of the clock takes the
  memory side of the cache bench from state to state exactly as \<open>System::tick\<close> of the processor's
  bench takes the corresponding state, with no key pressed, failures included.\<close>

theorem ramTick_equals_tick:
  assumes "edge \<and> hw_bus_reqcyc p \<longrightarrow> hw_request_cmd p = MEMORY"
  shows "tick D t None edge (bus_pins p, as_system s) =
    map_sum id (map_prod bus_pins as_system) (ramTick D edge (p, s))"
proof (cases "edge \<and> \<not> (hw_reset p \<and> hw_bus_reqcyc p)")
  case True
  then have "serve D (respond (bus_pins p, as_system u)) =
      map_sum id (map_prod bus_pins as_system) (hw_serve D (hw_respond (p, u)))" for u
    using assms by (cases "hw_respond (p, u)") (simp add: respond_matches respond_request serve_matches)
  then show ?thesis
    using True by (auto simp: tick_def ramTick_def update_matches split: sum.split)
next
  case False
  then show ?thesis
    by (auto simp: tick_def ramTick_def as_system_update bus_pins_update Let_def)
qed

text \<open>A write of a word of data, at a rising edge.\<close>

definition demo_pins :: hw_pins where
  "demo_pins = \<lparr>hw_clk = True, hw_reset = False, c_ack = False, c_data_out = 0, c_req = False,
     c_read_write_n = False, c_line_addr = 0, c_data_in = 0, c_word_select = 0, hw_bus_reqcyc = True,
     hw_bus_respack = False, hw_bus_req = 7, hw_bus_reqtag = 0x100, hw_bus_respcyc = False,
     hw_bus_reqack = True, hw_bus_resp = 0, hw_bus_resptag = 0\<rparr>"

definition demo_hw :: "u64 list hw_system" where
  "demo_hw = \<lparr>hw_mem = (\<lambda>a. 0), hw_ram = 0x1000, hw_ramsize = 64, hw_cmd = 1, hw_rx_count = 8,
     hw_xfer_addr = 0, hw_addr_to_tag = Map.empty, hw_tx_queue = [], hw_dramsim = [], hw_messages = []\<rparr>"

lemma ramTick_equals_tick_witness:
  "tick silent_dram 250 None True (bus_pins demo_pins, as_system demo_hw) =
    map_sum id (map_prod bus_pins as_system) (ramTick silent_dram True (demo_pins, demo_hw))"
  by (rule ramTick_equals_tick) (simp add: demo_pins_def hw_request_cmd_def MEMORY_def)

section \<open>The processor's requests\<close>

text \<open>The pins the processor drives, and a request for a word of the RAM.\<close>

definition driven :: "'t hw_pins_scheme \<Rightarrow> bool \<times> bool \<times> u64 \<times> u8 \<times> u32" where
  "driven p = (c_req p, c_read_write_n p, c_line_addr p, c_word_select p, c_data_in p)"

definition request_in_ram :: "u32 \<Rightarrow> 't hw_pins_scheme \<Rightarrow> bool" where
  "request_in_ram rs p \<longleftrightarrow>
     (c_req p \<longrightarrow> unat (c_line_addr p) * 64 + unat (c_word_select p) * 4 + 4 \<le> unat rs)"

lemma request_in_ram_driven:
  assumes "driven p = driven q"
  shows "request_in_ram rs p = request_in_ram rs q"
  using assms by (simp add: request_in_ram_def driven_def)

lemma waiting_keeps_request:
  assumes "hw_reset p \<or> (c_req p \<and> \<not> c_ack p) \<or> hw_clk p"
  shows "procTick rand rs (p, r) = (p, r)"
  using assms by (auto simp: procTick_def)

lemma new_address_in_ram:
  fixes rs :: u32
  assumes "unat rs mod 64 = 0" and "0 < rs"
  shows "unat (drop_bit 6 (of_nat x mod rs)) * 64 + unat (of_nat (y mod 16) :: u8) * 4 + 4 \<le> unat rs"
proof -
  let ?a = "of_nat x mod rs"
  have a: "unat ?a < unat rs" using assms(2) by (simp add: unat_mod word_less_nat_alt)
  have w: "unat (of_nat (y mod 16) :: u8) < 16"
    by (simp add: unsigned_of_nat take_bit_eq_mod)
  have d: "unat (drop_bit 6 ?a) = unat ?a div 64" by (simp add: drop_bit_eq_div unat_div)
  obtain k where k: "unat rs = 64 * k" using assms(1) by (auto simp: mod_eq_0_iff_dvd)
  have "unat ?a div 64 < k" using a k by (simp add: div_less_iff_less_mult mult.commute)
  then have "Suc (unat ?a div 64) * 64 \<le> k * 64" by (intro mult_right_mono) simp_all
  then show ?thesis unfolding d using w k by simp
qed

lemma procTick_in_ram:
  assumes "request_in_ram rs p" and "unat rs mod 64 = 0" and "0 < rs"
    and "procTick rand rs (p, r) = (p', r')"
  shows "request_in_ram rs p'"
  using assms(1,4)
  by (auto simp: procTick_def request_in_ram_def new_address_in_ram [OF assms(2,3)] Let_def
      split: if_splits prod.splits)

text \<open>The memory side leaves the requests of the processor and the size of the RAM alone.\<close>

lemma hw_fill_ramsize: "hw_fill a tag is s = Inr t \<Longrightarrow> hw_ramsize t = hw_ramsize s"
  by (induction "is" arbitrary: s) (fastforce split: sum.splits)+

lemma hw_callbacks_ramsize: "hw_callbacks as s = Inr t \<Longrightarrow> hw_ramsize t = hw_ramsize s"
  by (induction as arbitrary: s)
    (fastforce simp: hw_dram_read_complete_def dest: hw_fill_ramsize split: sum.splits option.splits)+

lemma hw_serve_frame:
  assumes "hw_serve D (p, s) = Inr (q, t)"
  shows "driven q = driven p \<and> hw_ramsize t = hw_ramsize s"
  using assms
  by (auto simp: hw_serve_def hw_receive_data_def hw_new_request_def hw_memory_request_def hw_store_def
      driven_def map_sum_def Let_def split: sum.splits if_splits prod.splits)

lemma ramTick_frame:
  assumes "ramTick D edge (p, s) = Inr (q, t)"
  shows "driven q = driven p \<and> hw_ramsize t = hw_ramsize s"
proof -
  have r: "driven u = driven p \<and> hw_ramsize w = hw_ramsize v" if "hw_respond (p, v) = (u, w)" for u v w
    using that by (auto simp: hw_respond_def driven_def Let_def split: if_splits list.splits)
  have c: "hw_ramsize v = hw_ramsize s" if "hw_update D s = Inr v" for v
    using that by (auto simp: hw_update_def dest!: hw_callbacks_ramsize split: prod.splits)
  have s: "driven q = driven p \<and> hw_ramsize t = hw_ramsize v"
    if "hw_serve D (hw_respond (p, v)) = Inr (q, t)" for v
    using that r hw_serve_frame by (cases "hw_respond (p, v)") fastforce
  show ?thesis
    using assms s c by (auto simp: ramTick_def driven_def Let_def split: if_splits sum.splits)
qed

text \<open>The model of the cache: its evaluation does not change its inputs.\<close>

definition keeps_inputs :: "'c cache_model \<Rightarrow> bool" where
  "keeps_inputs V \<longleftrightarrow> (\<forall>p. driven (cache_eval V p) = driven p)"

definition well_sized :: "('c, 'd, 'r) bench \<Rightarrow> bool" where
  "well_sized b \<longleftrightarrow> 0 < hw_ramsize (bench_sys b) \<and> unat (hw_ramsize (bench_sys b)) mod 64 = 0"

definition bench_ok :: "('c, 'd, 'r) bench \<Rightarrow> bool" where
  "bench_ok b \<longleftrightarrow> well_sized b \<and> request_in_ram (hw_ramsize (bench_sys b)) (cache b)"

lemma hw_tick_ok:
  assumes "request_in_ram (hw_ramsize s) p" and "unat (hw_ramsize s) mod 64 = 0" and "0 < hw_ramsize s"
    and "hw_tick D rand edge (p, s, r) = Inr (p', s', r')"
  shows "request_in_ram (hw_ramsize s') p' \<and> hw_ramsize s' = hw_ramsize s"
proof -
  obtain q where q: "procTick rand (hw_ramsize s) (p, r) = (q, r')" "ramTick D edge (q, s) = Inr (p', s')"
    using assms(4) by (auto simp: hw_tick_def map_sum_def split: prod.splits sum.splits)
  have "request_in_ram (hw_ramsize s) q" using procTick_in_ram [OF assms(1-3) q(1)] .
  then show ?thesis using ramTick_frame [OF q(2)] request_in_ram_driven [of p' q] by auto
qed

lemma bench_TICK_ok:
  assumes "keeps_inputs V" and "bench_ok b" and "bench_TICK D rand V b = Inr b'"
  shows "bench_ok b'"
proof -
  define c where "c = bench_eval V (b\<lparr>cache := (cache b)\<lparr>hw_clk := \<not> hw_clk (cache b)\<rparr>\<rparr>)"
  have "driven (cache c) = driven (cache b)"
    using assms(1) by (simp add: c_def bench_eval_def keeps_inputs_def) (simp add: driven_def)
  then have c: "bench_ok c"
    using assms(2) request_in_ram_driven [of "cache c" "cache b"]
    by (simp add: bench_ok_def well_sized_def) (simp add: c_def bench_eval_def)
  obtain d where d: "bench_tick D rand c = Inr d" "b' = bench_pass_time (bench_eval V (bench_pass_time d))"
    using assms(3) by (auto simp: bench_TICK_def c_def split: sum.splits)
  obtain p s r where e: "hw_tick D rand (hw_clk (cache c)) (cache c, bench_sys c, bench_rand c) = Inr (p, s, r)"
    "d = c\<lparr>cache := p, bench_sys := s, bench_rand := r\<rparr>"
    using d(1) by (auto simp: bench_tick_def map_sum_def split: sum.splits)
  have "bench_ok d"
    using c hw_tick_ok [OF _ _ _ e(1)] by (auto simp: bench_ok_def well_sized_def e(2))
  then show ?thesis
    using assms(1) request_in_ram_driven [of "cache_eval V (cache d)" "cache d"]
    by (simp add: d(2) bench_ok_def well_sized_def bench_eval_def bench_pass_time_def keeps_inputs_def)
qed

lemma bench_TICK_ramsize:
  "bench_TICK D rand V b = Inr b' \<Longrightarrow> hw_ramsize (bench_sys b') = hw_ramsize (bench_sys b)"
  by (auto simp: bench_TICK_def bench_tick_def hw_tick_def bench_eval_def bench_pass_time_def map_sum_def
      Let_def dest!: ramTick_frame split: sum.splits prod.splits)

lemma bench_TICKs_ramsize:
  "bench_TICKs n D rand V b = Inr b' \<Longrightarrow> hw_ramsize (bench_sys b') = hw_ramsize (bench_sys b)"
  by (induction n arbitrary: b) (auto simp: bench_TICK_ramsize split: sum.splits)

lemma bench_TICKs_ok:
  "keeps_inputs V \<Longrightarrow> bench_ok b \<Longrightarrow> bench_TICKs n D rand V b = Inr b' \<Longrightarrow> bench_ok b'"
  by (induction n arbitrary: b) (auto split: sum.splits dest: bench_TICK_ok)

lemma bench_loop_ok:
  "keeps_inputs V \<Longrightarrow> bench_ok b \<Longrightarrow> bench_loop D rand V b = Inr b' \<Longrightarrow> bench_ok b'"
proof (induction D rand V b rule: bench_loop.induct)
  case (1 D rand V b)
  show ?case
  proof (cases "bench_running V b")
    case True
    then obtain c where "bench_TICK D rand V b = Inr c" "bench_loop D rand V c = Inr b'"
      using "1.prems"(3) by (auto simp: bench_loop.simps [of D rand V b] split: sum.splits)
    then show ?thesis using "1.IH" [OF True] bench_TICK_ok "1.prems"(1,2) by blast
  next
    case False
    then show ?thesis using "1.prems" by (simp add: bench_loop.simps [of D rand V b])
  qed
qed

text \<open>The processor of the cache bench asks only for words of the RAM: after any
  number of clock edges from a state with no request, a request on the pins lies in the RAM,
  whatever the random numbers are.  The evaluation of the cache does not change its inputs.\<close>

theorem requests_stay_in_ram:
  assumes "hw_System_new raw ptr d HW_RAM_SIZE = Inr (bench_sys b)" and "\<not> c_req (cache b)"
    and "\<forall>p. driven (cache_eval V p) = driven p"
    and "bench_TICKs n D rand V b = Inr b'" and "c_req (cache b')"
  shows "unat (c_line_addr (cache b')) * 64 + unat (c_word_select (cache b')) * 4 + 4 \<le> 1024 * 1024"
proof -
  have rs: "hw_ramsize (bench_sys b) = HW_RAM_SIZE"
    using assms(1) by (auto simp: hw_System_new_def Let_def split: if_splits dest!: sym [of _ "bench_sys b"])
  then have "bench_ok b"
    using assms(2) by (simp add: bench_ok_def well_sized_def request_in_ram_def HW_RAM_SIZE_def)
  moreover have "keeps_inputs V" using assms(3) by (simp add: keeps_inputs_def)
  ultimately have "bench_ok b' \<and> hw_ramsize (bench_sys b') = HW_RAM_SIZE"
    using bench_TICKs_ok [OF _ _ assms(4)] bench_TICKs_ramsize [OF assms(4)] rs by simp
  then show ?thesis using assms(5) by (auto simp: bench_ok_def request_in_ram_def HW_RAM_SIZE_def)
qed

end
