(* ===== verification/Helpers.thy ===== *)
theory Helpers
  imports Guest
begin

unbundle bit_operations_syntax

text \<open>
  The small functions of \<open>syscall.c\<close> that stand beside the system calls: the ids of POSIX
  timers and the table of their slots, the 64-bit offset from two registers, and the test
  whether a path names an entry of the process's own \<open>/proc\<close> directory.
\<close>

section \<open>Timers\<close>

definition TIMER_MAGIC :: u32 where "TIMER_MAGIC = 0x0caf0000"
definition TIMER_MAGIC_MASK :: u32 where "TIMER_MAGIC_MASK = 0xffff000"

definition get_timer_id :: "u32 \<Rightarrow> u32" where
  "get_timer_id arg = (
     if arg AND TIMER_MAGIC_MASK \<noteq> TIMER_MAGIC then to_abi (- TARGET_EINVAL)
     else let timerid = arg AND 0xffff in
       if sint timerid \<ge> 32 then to_abi (- TARGET_EINVAL) else timerid)"

text \<open>The loop over the slots: the first free one is marked and its index returned.\<close>

function find_timer :: "nat \<Rightarrow> u64 list \<Rightarrow> int \<times> u64 list" where
  "find_timer k ts =
    (if k < 32 then if ts ! k = 0 then (int k, ts[k := 1]) else find_timer (Suc k) ts
     else (- 1, ts))"
  by pat_completeness auto
termination by (relation "measure (\<lambda>(k, ts). 32 - k)") auto

declare find_timer.simps [simp del]

definition next_free_host_timer :: "('w, int) sl" where
  "next_free_host_timer = do {
     ts \<leftarrow> gets g_posix_timers;
     let (k, ts) = find_timer 0 ts;
     modify (\<lambda>s. s\<lparr>g_posix_timers := ts\<rparr>);
     return k
   }"

lemma find_timer_result:
  assumes "k \<le> 32"
  shows "(\<exists>i. k \<le> i \<and> i < 32 \<and> ts ! i = 0 \<and> (\<forall>j. k \<le> j \<and> j < i \<longrightarrow> ts ! j \<noteq> 0) \<and>
      find_timer k ts = (int i, ts[i := 1])) \<or>
    ((\<forall>j. k \<le> j \<and> j < 32 \<longrightarrow> ts ! j \<noteq> 0) \<and> find_timer k ts = (- 1, ts))"
  using assms
proof (induction k ts rule: find_timer.induct)
  case (1 k ts)
  show ?case
  proof (cases "k < 32 \<and> ts ! k \<noteq> 0")
    case True
    then have "find_timer k ts = find_timer (Suc k) ts" by (subst find_timer.simps) simp
    moreover have "k \<le> j \<longleftrightarrow> j = k \<or> Suc k \<le> j" for j by auto
    ultimately show ?thesis using "1.IH" True by (auto simp: Suc_le_eq)
  next
    case False
    then show ?thesis using "1.prems" by (subst (1 2) find_timer.simps) auto
  qed
qed

text \<open>The ids \<open>TIMER_MAGIC + k\<close> of the slots are those of which \<open>get_timer_id\<close> gives \<open>k\<close>
  back, and what it gives is a slot or \<open>-TARGET_EINVAL\<close>.\<close>

lemma mask_16: "unat (a AND 0xffff :: u32) < 65536"
proof -
  have "a AND 0xffff = take_bit 16 a" by (simp add: take_bit_eq_mask mask_eq_exp_minus_1)
  then show ?thesis by (simp add: unsigned_take_bit_eq take_bit_nat_less_exp [where n = 16, simplified])
qed

lemma get_timer_id_range:
  "get_timer_id a = to_abi (- TARGET_EINVAL) \<or> unat (get_timer_id a) < 32"
proof -
  have "sint (a AND 0xffff) = int (unat (a AND 0xffff))"
    using mask_16 [of a] by (intro sint_nonneg) simp
  then have "32 \<le> sint (a AND 0xffff) \<longleftrightarrow> 32 \<le> unat (a AND 0xffff)" by linarith
  then show ?thesis by (simp add: get_timer_id_def Let_def not_le)
qed

text \<open>The id a timer is given out under, \<open>TIMER_MAGIC\<close> with the number of its slot,
  comes back as that number.\<close>

theorem get_timer_id_roundtrip:
  assumes "k < 32"
  shows "get_timer_id (TIMER_MAGIC OR of_nat k) = of_nat k"
proof -
  have "\<forall>k \<in> set [0..<32]. get_timer_id (TIMER_MAGIC OR of_nat k) = of_nat k"
    by (simp add: get_timer_id_def TIMER_MAGIC_def TIMER_MAGIC_MASK_def Let_def upt_rec)
  then show ?thesis using assms by simp
qed

theorem get_timer_id_roundtrip_witness: "get_timer_id 0x0caf0005 = 5"
  using get_timer_id_roundtrip [of 5] by (simp add: TIMER_MAGIC_def)

section \<open>Offsets\<close>

text \<open>The target is big-endian: the first word is the high one.\<close>

definition target_offset64 :: "u32 \<Rightarrow> u32 \<Rightarrow> u64" where
  "target_offset64 word0 word1 = push_bit 32 (ucast word0) OR ucast word1"

lemma target_offset64_value:
  "unat (target_offset64 hi lo) = unat hi * 2 ^ 32 + unat lo"
proof -
  have "target_offset64 hi lo = push_bit 32 (ucast hi) + ucast lo"
    unfolding target_offset64_def
    by (rule disjunctive_add [symmetric]) (auto simp: bit_simps dest: bit_imp_le_length)
  moreover have "unat (push_bit 32 (ucast hi) :: u64) = unat hi * 2 ^ 32"
    using unat_u32_less [of hi] by (simp add: push_bit_eq_mult unat_word_ariths)
  ultimately show ?thesis
    using unat_u32_less [of hi] unat_u32_less [of lo] by (simp add: unat_word_ariths)
qed

section \<open>The process's own directory\<close>

text \<open>\<open>strncmp (s, p, strlen (p)) == 0\<close> for C strings.\<close>

definition has_prefix :: "string \<Rightarrow> string \<Rightarrow> bool" where
  "has_prefix p s \<longleftrightarrow> take (length p) s = p"

text \<open>\<open>decimal\<close> is \<open>"%d"\<close> of \<open>snprintf\<close> for a process id, which is positive.\<close>

definition is_proc_myself :: "nat \<Rightarrow> string \<Rightarrow> string \<Rightarrow> int" where
  "is_proc_myself pid filename entry =
    (if has_prefix ''/proc/'' filename then
       let filename = drop 6 filename;
           rest = (if has_prefix ''self/'' filename then Some (drop 5 filename)
             else if filename \<noteq> [] \<and> hd filename \<in> set ''123456789'' then
               let myself = take 79 (decimal pid @ ''/'') in
               if has_prefix myself filename then Some (drop (length myself) filename) else None
             else None)
       in (case rest of None \<Rightarrow> 0 | Some filename \<Rightarrow> if filename = entry then 1 else 0)
     else 0)"

lemma has_prefixE:
  assumes "has_prefix p s"
  obtains r where "s = p @ r"
  using assms append_take_drop_id [of "length p" s] unfolding has_prefix_def by metis

lemma has_prefix_append [simp]: "has_prefix p (p @ r)"
  by (simp add: has_prefix_def)

lemma length_decimal: "n < 10 ^ Suc k \<Longrightarrow> length (decimal n) \<le> Suc k"
proof (induction k arbitrary: n)
  case 0
  then show ?case by (subst decimal_rec) simp
next
  case (Suc k)
  then have "n div 10 < 10 ^ Suc k" by simp
  from Suc.IH [OF this] show ?case by (subst decimal_rec) simp
qed

lemma decimal_head: "0 < n \<Longrightarrow> decimal n \<noteq> [] \<and> hd (decimal n) \<in> set ''123456789''"
proof (induction n rule: less_induct)
  case (less n)
  show ?case
  proof (cases "n < 10")
    case True
    have "\<forall>n \<in> set [1..<10]. ''0123456789'' ! n \<in> set ''123456789''"
      by code_simp
    then have "''0123456789'' ! n \<in> set ''123456789''"
      using True less.prems by (simp only: set_upt) simp
    then show ?thesis using True by (subst (1 2) decimal_rec) simp
  next
    case False
    then have "0 < n div 10" "n div 10 < n" by simp_all
    then show ?thesis
      using less.IH False by (subst (1 2) decimal_rec) (simp add: hd_append)
  qed
qed

text \<open>\<open>is_proc_myself\<close> says yes exactly for the two names of an entry of the process's
  own directory, \<open>/proc/self/entry\<close> and \<open>/proc/pid/entry\<close> with the decimal process id.\<close>

theorem is_proc_myself_iff:
  assumes "0 < pid" and "pid < 2 ^ 31"
  shows "is_proc_myself pid filename entry =
    of_bool (filename = ''/proc/self/'' @ entry \<or> filename = ''/proc/'' @ decimal pid @ ''/'' @ entry)"
proof (cases "has_prefix ''/proc/'' filename")
  case False
  then show ?thesis by (auto simp: is_proc_myself_def has_prefix_def)
next
  case True
  then obtain f where f: "filename = ''/proc/'' @ f" by (rule has_prefixE)
  have "pid < 10 ^ Suc 9" using assms(2) by simp
  from length_decimal [OF this] have t: "take 79 (decimal pid @ ''/'') = decimal pid @ ''/''" by simp
  obtain c ds where d: "decimal pid = c # ds" "c \<in> set ''123456789''"
    using decimal_head [OF assms(1)] by (cases "decimal pid") auto
  show ?thesis
  proof (cases "has_prefix ''self/'' f")
    case True
    then obtain g where g: "f = ''self/'' @ g" by (rule has_prefixE)
    have "c \<noteq> CHR ''s''" using d(2) by auto
    then have "filename \<noteq> ''/proc/'' @ decimal pid @ ''/'' @ entry" by (simp add: f g d(1))
    moreover have "is_proc_myself pid filename entry = of_bool (g = entry)"
      by (simp add: is_proc_myself_def f g Let_def has_prefix_def)
    moreover have "filename = ''/proc/self/'' @ entry \<longleftrightarrow> g = entry" by (simp add: f g)
    ultimately show ?thesis by simp
  next
    case False
    then have n: "filename \<noteq> ''/proc/self/'' @ entry" by (auto simp: f has_prefix_def)
    define my where "my = decimal pid @ ''/''"
    have my: "take 79 my = my" "my = c # ds @ ''/''" using t d(1) by (simp_all add: my_def)
    have "f \<noteq> [] \<and> hd f \<in> set ''123456789''" if "has_prefix my f"
      using that d(2) by (auto simp: my(2) elim!: has_prefixE)
    then have run: "is_proc_myself pid filename entry =
        (if has_prefix my f then of_bool (drop (length my) f = entry) else 0)"
      unfolding is_proc_myself_def f my_def [symmetric] my(1) Let_def
      using False by (simp add: has_prefix_def)
    show ?thesis
    proof (cases "has_prefix my f")
      case True
      then obtain g where g: "f = my @ g" by (rule has_prefixE)
      have "filename = ''/proc/'' @ decimal pid @ ''/'' @ entry \<longleftrightarrow> g = entry"
        using g my_def by (simp add: f)
      then show ?thesis using run n g True by simp
    next
      case no: False
      then have "filename \<noteq> ''/proc/'' @ decimal pid @ ''/'' @ entry"
        using has_prefix_append [of my entry] by (auto simp: f my_def)
      then show ?thesis using run n no by simp
    qed
  qed
qed

theorem is_proc_myself_iff_witness:
  "is_proc_myself 1234 ''/proc/self/maps'' ''maps'' = 1"
  using is_proc_myself_iff [of 1234 "''/proc/self/maps''" "''maps''"] by simp

end
