(* ===== verification/Prints.thy ===== *)
theory Prints
  imports Prelude
begin

text \<open>
  \<open>proj/sparc-prog/prints.c\<close>: printing of numbers by the test programs.  A program's output is
  the list of the buffers it passes to \<open>write (1, ...)\<close>, in order; \<open>long\<close> has 32 bits on the
  processor.  The digits are collected from the last one on in an array of 100 characters
  (\<open>num_digits\<close> is the index of the last entry) and written out in reverse.
\<close>

section \<open>The functions\<close>

definition print_str :: "string \<Rightarrow> string list" where
  "print_str str = [str]"

definition DEC_DIGITS :: "string list" where
  "DEC_DIGITS = [''0'', ''1'', ''2'', ''3'', ''4'', ''5'', ''6'', ''7'', ''8'', ''9'']"

definition HEX_DIGITS :: "string list" where
  "HEX_DIGITS = [''0'', ''1'', ''2'', ''3'', ''4'', ''5'', ''6'', ''7'', ''8'', ''9'',
     ''A'', ''B'', ''C'', ''D'', ''E'', ''F'']"

text \<open>\<open>num >= 0\<close> is true of every unsigned number: the loops end by their \<open>break\<close>.\<close>

function collect_dec :: "u32 \<Rightarrow> u8 list \<Rightarrow> u8 list" where
  "collect_dec num digits =
    (let digits = digits @ [ucast (num mod 10)]; num = num div 10
     in if 0 = num then digits else collect_dec num digits)"
  by pat_completeness auto
termination
proof (relation "measure (\<lambda>(num, digits). unat num)")
  fix num :: u32 and digits x y
  assume "x = digits @ [ucast (num mod 10)]" "y = num div 10" "0 \<noteq> y"
  then have "unat num div 10 \<noteq> 0" by (auto simp: unat_div word_unat_eq_iff)
  then show "((y, x), (num, digits)) \<in> measure (\<lambda>(num, digits). unat num)"
    using \<open>y = num div 10\<close> by (simp add: unat_div)
qed simp

function collect_hex :: "u32 \<Rightarrow> u8 list \<Rightarrow> u8 list" where
  "collect_hex num digits =
    (let digits = digits @ [ucast (num mod 16)]; num = num div 16
     in if 0 = num then digits else collect_hex num digits)"
  by pat_completeness auto
termination
proof (relation "measure (\<lambda>(num, digits). unat num)")
  fix num :: u32 and digits x y
  assume "x = digits @ [ucast (num mod 16)]" "y = num div 16" "0 \<noteq> y"
  then have "unat num div 16 \<noteq> 0" by (auto simp: unat_div word_unat_eq_iff)
  then show "((y, x), (num, digits)) \<in> measure (\<lambda>(num, digits). unat num)"
    using \<open>y = num div 16\<close> by (simp add: unat_div)
qed simp

declare collect_dec.simps [simp del] collect_hex.simps [simp del]

definition print_udecimal :: "u32 \<Rightarrow> string list" where
  "print_udecimal num = map (\<lambda>d. DEC_DIGITS ! unat d) (rev (collect_dec num []))"

definition print_decimal :: "u32 \<Rightarrow> string list" where
  "print_decimal num = (if sint num < 0 then print_udecimal (- num) else print_udecimal num)"

definition print_hex :: "u32 \<Rightarrow> string list" where
  "print_hex num = map (\<lambda>d. HEX_DIGITS ! unat d) (rev (collect_hex num []))"

section \<open>What is printed\<close>

text \<open>The number a list of digits denotes, the last one first.\<close>

primrec digits_value :: "nat \<Rightarrow> u8 list \<Rightarrow> nat" where
  "digits_value b [] = 0"
| "digits_value b (d # ds) = unat d + b * digits_value b ds"

text \<open>
  The digits of a number in base \<open>b\<close>, for a collecting loop of that base: both loops are
  instances.
\<close>

locale digit_collector =
  fixes b :: u32 and collect :: "u32 \<Rightarrow> u8 list \<Rightarrow> u8 list"
  assumes base: "2 \<le> unat b" "unat b \<le> 256"
    and step: "collect num digits =
      (let digits = digits @ [ucast (num mod b)]; num = num div b
       in if 0 = num then digits else collect num digits)"
begin

lemma digit: "unat (ucast (num mod b) :: u8) = unat num mod unat b"
proof -
  have "unat num mod unat b < unat b" using base by simp
  then have "unat num mod unat b < 256" using base by linarith
  then show ?thesis by (simp add: unsigned_ucast_eq unat_mod take_bit_nat_eq_self)
qed

lemma collect_spec:
  "\<exists>ds. collect num digits = digits @ ds \<and> digits_value (unat b) ds = unat num \<and>
    (\<forall>d \<in> set ds. unat d < unat b) \<and> ds \<noteq> [] \<and> (num \<noteq> 0 \<longrightarrow> last ds \<noteq> 0) \<and>
    (\<forall>k. unat num < 2 ^ Suc k \<longrightarrow> length ds \<le> Suc k)"
proof (induction "unat num" arbitrary: num digits rule: less_induct)
  case less
  have d: "unat num mod unat b < unat b" using base by simp
  show ?case
  proof (cases "num div b = 0")
    case True
    then have n: "unat num div unat b = 0" by (simp add: unat_div [symmetric])
    then have m: "unat num mod unat b = unat num" using base by (simp add: div_eq_0_iff)
    then have "ucast (num mod b) = (0 :: u8) \<longleftrightarrow> num = 0"
      using digit [of num] by (simp add: unat_eq_0 [symmetric] del: unat_eq_0)
    then show ?thesis using True m d digit [of num] by (subst step) (auto simp: Let_def)
  next
    case False
    then have n: "unat num div unat b \<noteq> 0" by (simp add: unat_div [symmetric] unat_eq_0)
    then have "unat num \<noteq> 0" by (metis div_0)
    then have l: "unat (num div b) < unat num" using base by (simp add: unat_div)
    obtain ds where ds: "collect (num div b) (digits @ [ucast (num mod b)]) =
        (digits @ [ucast (num mod b)]) @ ds"
      "digits_value (unat b) ds = unat (num div b)" "\<forall>d \<in> set ds. unat d < unat b" "ds \<noteq> []"
      "last ds \<noteq> 0" "\<And>k. unat (num div b) < 2 ^ Suc k \<Longrightarrow> length ds \<le> Suc k"
      using less [OF l] False by blast
    have "length (ucast (num mod b) # ds) \<le> Suc k" if k: "unat num < 2 ^ Suc k" for k
    proof (cases k)
      case 0
      have "unat num div unat b \<le> unat num div 2" using base by (intro div_le_mono2) simp_all
      then show ?thesis using n k 0 by simp
    next
      case (Suc j)
      have "unat num div unat b \<le> unat num div 2" using base by (intro div_le_mono2) simp_all
      also have "\<dots> < 2 ^ Suc j" using k Suc by simp
      finally show ?thesis using ds(6) [of j] Suc by (simp add: unat_div)
    qed
    moreover have "unat num mod unat b + unat b * (unat num div unat b) = unat num" by simp
    ultimately show ?thesis
      using ds(1-5) False d digit [of num] by (subst step) (auto simp: Let_def unat_div)
  qed
qed

end

interpretation dec: digit_collector 10 collect_dec
  by unfold_locales (simp_all add: collect_dec.simps)

interpretation hex: digit_collector 16 collect_hex
  by unfold_locales (simp_all add: collect_hex.simps)

lemma dec_digit: "unat d < 10 \<Longrightarrow> DEC_DIGITS ! unat d = [''0123456789'' ! unat d]"
proof -
  have "\<forall>i \<in> set [0..<10]. DEC_DIGITS ! i = [''0123456789'' ! i]"
    by (simp add: DEC_DIGITS_def upt_rec)
  then show "unat d < 10 \<Longrightarrow> ?thesis" by simp
qed

lemma hex_digit: "unat d < 16 \<Longrightarrow> HEX_DIGITS ! unat d = [''0123456789ABCDEF'' ! unat d]"
proof -
  have "\<forall>i \<in> set [0..<16]. HEX_DIGITS ! i = [''0123456789ABCDEF'' ! i]"
    by (simp add: HEX_DIGITS_def upt_rec)
  then show "unat d < 16 \<Longrightarrow> ?thesis" by simp
qed

context digit_collector
begin

lemma digits_text:
  assumes "\<And>d. unat d < unat b \<Longrightarrow> glyph (d :: u8) = [alphabet ! unat d]" and "length alphabet = unat b"
  shows "concat (map glyph (rev (collect num digits))) =
    positional alphabet (unat num) @ concat (map glyph (rev digits))"
proof (induction "unat num" arbitrary: num digits rule: less_induct)
  case less
  have d: "unat (ucast (num mod b) :: u8) < unat b" using digit [of num] base by simp
  have g: "glyph (ucast (num mod b)) = [alphabet ! (unat num mod unat b)]"
    using assms(1) [OF d] digit [of num] by simp
  have z: "num div b = 0 \<longleftrightarrow> unat num < unat b"
  proof -
    have "num div b = 0 \<longleftrightarrow> unat num div unat b = 0" by (simp add: unat_div [symmetric] unat_eq_0)
    then show ?thesis using base by (simp add: div_eq_0_iff)
  qed
  show ?case
  proof (cases "num div b = 0")
    case True
    then have "unat num < unat b" by (simp add: z)
    then show ?thesis
      using True g assms(2) by (subst step, subst positional.simps) (simp add: Let_def)
  next
    case False
    then have n: "\<not> unat num < unat b" by (simp add: z)
    then have "unat (num div b) < unat num" using base by (simp add: unat_div)
    from less [OF this] show ?thesis
      using n False g assms(2) base
      by (subst step, subst positional.simps) (simp add: Let_def unat_div)
  qed
qed

end

text \<open>\<open>print_udecimal\<close> writes the decimal numeral of its argument: the digits are
  collected from the last one, the table gives their characters, and 0 is one digit.\<close>

theorem print_udecimal_text: "concat (print_udecimal num) = decimal (unat num)"
  unfolding print_udecimal_def decimal_def
  by (subst dec.digits_text [OF dec_digit]) simp_all

lemma print_hex_text: "concat (print_hex num) = positional ''0123456789ABCDEF'' (unat num)"
  unfolding print_hex_def
  by (subst hex.digits_text [OF hex_digit]) simp_all

text \<open>The 100 characters of the array are enough.\<close>

lemma digits_fit: "length (collect_dec num []) \<le> 32" "length (collect_hex num []) \<le> 32"
  using dec.collect_spec [of num "[]"] hex.collect_spec [of num "[]"] unat_u32_less [of num]
  by (auto dest!: spec [of _ "31::nat"])

text \<open>The sign is lost.\<close>

lemma print_decimal_abs:
  assumes "sint num < 0"
  shows "print_decimal num = print_udecimal (- num)"
  using assms by (simp add: print_decimal_def)

end
