(* ===== verification/Progs.thy ===== *)
theory Progs
  imports Prints "HOL-Library.Signed_Division"
begin

text \<open>
  The test programs \<open>pi_checksum.c\<close>, \<open>malloc.c\<close>, \<open>stack_dir.c\<close> and \<open>hw.c\<close> of \<open>proj/sparc-prog\<close>.
  A program is the list of buffers it writes.  \<open>int\<close> arithmetic is on mathematical integers
  with the division of C; \<open>pi_fits\<close> states that no value leaves the range of \<open>int\<close>.
  What a program takes from outside is a parameter: the answers of \<open>malloc\<close>, the addresses of
  local variables, and the entry \<open>r[140]\<close> that \<open>pi_checksum.c\<close> never sets.
\<close>

section \<open>pi\_checksum.c\<close>

abbreviation NUM_DIGITS :: nat where "NUM_DIGITS \<equiv> 140"

text \<open>The inner loop, from \<open>i\<close> down; the results are \<open>d\<close> and the array.\<close>

function pi_inner :: "nat \<Rightarrow> int \<Rightarrow> int list \<Rightarrow> int \<times> int list" where
  "pi_inner i d r =
    (let d = d + r ! i * 10000;
         b = 2 * int i - 1;
         r = r[i := d smod b];
         d = d sdiv b;
         i = i - 1
     in if i = 0 then (d, r) else pi_inner i (d * int i) r)"
  by pat_completeness auto
termination by (relation "measure (\<lambda>(i, d, r). i)") auto

function pi_outer :: "nat \<Rightarrow> int \<Rightarrow> int \<Rightarrow> int list \<Rightarrow> int" where
  "pi_outer k c res r =
    (if k > 0 then
       let (d, r) = pi_inner k 0 r;
           res = res + (c + d sdiv 10000);
           c = d smod 10000
       in pi_outer (k - 14) c res r
     else res)"
  by pat_completeness auto
termination by (relation "measure (\<lambda>(k, c, res, r). k)") auto

declare pi_inner.simps [simp del] pi_outer.simps [simp del]

definition pi_result :: "int \<Rightarrow> int" where
  "pi_result r140 = pi_outer NUM_DIGITS 0 0 (replicate NUM_DIGITS 2000 @ [r140])"

definition pi_main :: "int \<Rightarrow> string list" where
  "pi_main r140 = print_str ''res is '' @ print_decimal (word_of_int (pi_result r140)) @ print_str [CHR 10]"

text \<open>
  What the loops need to stay within \<open>int\<close>: entries between 0 and 2000 (as they are set and
  as they are after a pass) keep the accumulator below 40000000.
\<close>

definition pi_fits :: "int list \<Rightarrow> bool" where
  "pi_fits r \<longleftrightarrow> length r = 141 \<and> (\<forall>x \<in> set r. 0 \<le> x \<and> x \<le> 2000)"

lemma sdiv_nonneg: "0 \<le> (d :: int) \<Longrightarrow> 0 < b \<Longrightarrow> d sdiv b = d div b"
  by (simp add: signed_divide_int_def sgn_if)

lemma smod_nonneg: "0 \<le> (d :: int) \<Longrightarrow> 0 < b \<Longrightarrow> d smod b = d mod b"
  by (cases "d = 0") (simp_all add: signed_modulo_int_def)

text \<open>One round: the accumulator before and after the division.\<close>

lemma pi_round:
  assumes "0 \<le> d" and "d \<le> 20000000" and "0 \<le> x" and "x \<le> (2000 :: int)"
    and "0 < i" and "i \<le> (140 :: nat)"
  shows "0 \<le> d + x * 10000" "d + x * 10000 \<le> 40000000"
    "(d + x * 10000) sdiv (2 * int i - 1) * int (i - 1) \<le> 20000000"
    "0 \<le> (d + x * 10000) sdiv (2 * int i - 1)"
    "0 \<le> (d + x * 10000) smod (2 * int i - 1)" "(d + x * 10000) smod (2 * int i - 1) \<le> 2000"
proof -
  define v b where "v = d + x * 10000" and "b = 2 * int i - 1"
  have v: "0 \<le> v" "v \<le> 40000000" and b: "0 < b" "b \<le> 279"
    using assms by (simp_all add: v_def b_def)
  show "0 \<le> d + x * 10000" "d + x * 10000 \<le> 40000000" using v by (simp_all add: v_def)
  have q: "v sdiv b = v div b" "v smod b = v mod b" using v b by (simp_all add: sdiv_nonneg smod_nonneg)
  have "v div b * (2 * int (i - 1)) \<le> v div b * b"
    using v b assms(5) by (intro mult_left_mono) (auto simp: b_def pos_imp_zdiv_nonneg_iff)
  also have "\<dots> \<le> v" using b pos_mod_sign [of b v] by (simp add: minus_mod_eq_div_mult [symmetric])
  finally show "(d + x * 10000) sdiv (2 * int i - 1) * int (i - 1) \<le> 20000000"
    using v q by (simp add: v_def [symmetric] b_def [symmetric])
  have "v mod b < b" using b(1) by (rule pos_mod_bound)
  then have m: "v mod b \<le> 2000" using b(2) by linarith
  show "0 \<le> (d + x * 10000) sdiv (2 * int i - 1)" "0 \<le> (d + x * 10000) smod (2 * int i - 1)"
    "(d + x * 10000) smod (2 * int i - 1) \<le> 2000"
    using v b q m by (simp_all add: v_def [symmetric] b_def [symmetric] pos_imp_zdiv_nonneg_iff)
qed

lemma pi_inner_fits:
  assumes "0 < i" and "i \<le> 140" and "0 \<le> d" and "d \<le> 20000000" and "pi_fits r"
  shows "case pi_inner i d r of (d', r') \<Rightarrow> 0 \<le> d' \<and> d' \<le> 40000000 \<and> pi_fits r'"
  using assms
proof (induction i d r rule: pi_inner.induct)
  case (1 i d r)
  have x: "0 \<le> r ! i" "r ! i \<le> 2000" using 1(3,6) by (simp_all add: pi_fits_def)
  note R = pi_round [OF 1(4,5) x 1(2,3)]
  let ?r = "r[i := (d + r ! i * 10000) smod (2 * int i - 1)]"
  have r: "pi_fits ?r"
    using 1(6) R(5,6) set_update_subset_insert [of r i] unfolding pi_fits_def by fastforce
  show ?case
  proof (cases "i - 1 = 0")
    case True
    then have "i = 1" using 1(2) by simp
    then show ?thesis using r R(1,2) by (subst pi_inner.simps) (simp add: Let_def sdiv_nonneg)
  next
    case False
    then show ?thesis
      using 1(1) [OF refl refl refl refl refl] R(3,4) r 1(2,3)
      by (subst pi_inner.simps) (simp add: Let_def)
  qed
qed

lemma pi_outer_step:
  assumes "pi_fits r" and "0 < k" and "k \<le> 140"
  shows "pi_fits (snd (pi_inner k 0 r))" "0 \<le> fst (pi_inner k 0 r)" "fst (pi_inner k 0 r) \<le> 40000000"
  using pi_inner_fits [OF assms(2,3) _ _ assms(1), of 0] by (auto split: prod.splits)

text \<open>So the result is that of the loops over \<open>int\<close>, whatever the unset entry is in this range,
  and it is small: ten rounds of at most 13999.\<close>

lemma pi_outer_bound:
  assumes "pi_fits r" and "k \<le> 140" and "0 \<le> c" and "c < 10000"
  shows "res \<le> pi_outer k c res r \<and> pi_outer k c res r \<le> res + 14000 * int ((k + 13) div 14)"
  using assms
proof (induction k c res r rule: pi_outer.induct)
  case (1 k c res r)
  show ?case
  proof (cases "0 < k")
    case True
    obtain d r' where p: "pi_inner k 0 r = (d, r')" by (cases "pi_inner k 0 r")
    have s: "pi_fits r'" "0 \<le> d" "d \<le> 40000000"
      using pi_outer_step [OF "1.prems"(1) True "1.prems"(2)] by (simp_all add: p)
    have q: "d sdiv 10000 = d div 10000" "d smod 10000 = d mod 10000"
      using s(2) by (simp_all add: sdiv_nonneg smod_nonneg)
    have m: "0 \<le> d smod 10000" "d smod 10000 < 10000" by (simp_all add: q)
    have d: "0 \<le> d div 10000" "d div 10000 \<le> 4000" using s(2,3) by simp_all
    have k: "(k + 13) div 14 = Suc ((k - 14 + 13) div 14)"
    proof (cases "14 \<le> k")
      case True
      then have "k + 13 = (k - 14 + 13) + 14" by simp
      then show ?thesis by (simp only: div_add_self2)
    next
      case False
      then have "k + 13 = k - 1 + 14" "k - 14 = 0" "k - 1 < 14" using True by simp_all
      then show ?thesis by simp
    qed
    have eq: "pi_outer k c res r =
        pi_outer (k - 14) (d mod 10000) (res + (c + d div 10000)) r'"
      by (subst pi_outer.simps) (simp add: True p q Let_def)
    have "res + (c + d div 10000) \<le> pi_outer k c res r \<and>
        pi_outer k c res r \<le> res + (c + d div 10000) + 14000 * int ((k - 14 + 13) div 14)"
      unfolding eq using True p s(1,2) "1.prems"(2)
      by (intro "1.IH") (simp_all add: q [symmetric] m)
    then show ?thesis using d "1.prems"(3,4) unfolding k by auto
  next
    case False
    then have "pi_outer k c res r = res" by (subst pi_outer.simps) simp
    then show ?thesis by simp
  qed
qed

section \<open>malloc.c\<close>

text \<open>\<open>malloc i\<close> is the answer to the call in round \<open>i\<close>.\<close>

definition malloc_main :: "(nat \<Rightarrow> u32) \<Rightarrow> string list" where
  "malloc_main malloc = concat (map (\<lambda>i.
     print_str ''test is 0x'' @ print_hex (malloc i) @ print_str [CHR 10]) [0..<10])"

section \<open>stack\_dir.c\<close>

text \<open>\<open>frame n\<close> is the address of \<open>dummy\<close> in the n-th activation; \<open>addr\<close> the static variable.\<close>

partial_function (option) find_stack_direction :: "(nat \<Rightarrow> u32) \<Rightarrow> nat \<Rightarrow> u32 \<Rightarrow> int option" where
  "find_stack_direction frame n addr =
    (if addr = 0 then find_stack_direction frame (Suc n) (frame n)
     else Some (if frame n > addr then 1 else - 1))"

definition stack_dir_main :: "(nat \<Rightarrow> u32) \<Rightarrow> string list option" where
  "stack_dir_main frame = (case find_stack_direction frame 0 0 of None \<Rightarrow> None
   | Some d \<Rightarrow> Some (if d > 0 then print_str (''Stack grows towards higher addrs.'' @ [CHR 10])
       else print_str (''Stack grows towards lower addrs.'' @ [CHR 10])))"

lemma stack_direction:
  assumes "frame 0 \<noteq> 0"
  shows "find_stack_direction frame 0 0 = Some (if frame 1 > frame 0 then 1 else - 1)"
  using assms by (simp add: find_stack_direction.simps)

section \<open>hw.c\<close>

definition hw_main :: "string list" where
  "hw_main = (let a = (10 :: int); b = 20; c = a + b in [])"

end
