(* ===== verification/Mz_Radix.thy ===== *)
theory Mz_Radix
  imports Prelude "HOL-Library.Multiset"
begin

unbundle bit_operations_syntax

text \<open>
  \<open>tdefl_radix_sort_syms\<close> of \<open>proj/sparc-prog/miniz.c\<close>: the symbols of a Huffman table sorted by
  their 16-bit frequency, one byte per pass, least significant byte first.  The arrays are
  lists; the counters never exceed the number of symbols and are naturals.  The second pass is
  skipped when no frequency has a high byte.  The lemmas show that the result is the stable
  sort by frequency.
\<close>

section \<open>The code\<close>

record tdefl_sym_freq =
  m_key :: u16
  m_sym_index :: u16

text \<open>\<open>(m_key >> pass_shift) & 0xFF\<close>.\<close>

definition radix_byte :: "nat \<Rightarrow> tdefl_sym_freq \<Rightarrow> nat" where
  "radix_byte pass_shift s = unat (drop_bit pass_shift (m_key s) AND 0xFF)"

text \<open>One round of the counting loop: \<open>hist[freq & 0xFF]++; hist[256 + ((freq >> 8) & 0xFF)]++\<close>.\<close>

definition hist_add :: "tdefl_sym_freq \<Rightarrow> nat list \<Rightarrow> nat list" where
  "hist_add s hist = (
     let lo = radix_byte 0 s; hist = hist[lo := hist ! lo + 1]; hi = 256 + radix_byte 8 s
     in hist[hi := hist ! hi + 1])"

definition radix_hist :: "nat \<Rightarrow> tdefl_sym_freq list \<Rightarrow> nat list" where
  "radix_hist num_syms pSyms0 = fold (\<lambda>i. hist_add (pSyms0 ! i)) [0..<num_syms] (replicate 512 0)"

primrec radix_passes :: "nat \<Rightarrow> nat list \<Rightarrow> nat \<Rightarrow> nat" where
  "radix_passes num_syms hist 0 = 0"
| "radix_passes num_syms hist (Suc p) =
    (if p > 0 \<and> num_syms = hist ! (p * 256) then radix_passes num_syms hist p else Suc p)"

text \<open>The offsets of the buckets: \<open>offsets[i] = cur_ofs; cur_ofs += pHist[i]\<close>.\<close>

primrec radix_offsets :: "nat \<Rightarrow> nat list \<Rightarrow> nat list" where
  "radix_offsets cur_ofs [] = []"
| "radix_offsets cur_ofs (h # hs) = cur_ofs # radix_offsets (cur_ofs + h) hs"

text \<open>\<open>pNew_syms[offsets[byte]++] = pCur_syms[i]\<close>.\<close>

definition scatter :: "('a \<Rightarrow> nat) \<Rightarrow> 'a \<Rightarrow> 'a list \<times> nat list \<Rightarrow> 'a list \<times> nat list" where
  "scatter f x = (\<lambda>(new, offsets).
     let b = f x in (new[offsets ! b := x], offsets[b := offsets ! b + 1]))"

definition radix_pass :: "nat \<Rightarrow> nat list \<Rightarrow> nat \<Rightarrow> tdefl_sym_freq list \<Rightarrow> tdefl_sym_freq list \<Rightarrow>
    tdefl_sym_freq list" where
  "radix_pass num_syms hist pass cur new = fst (fold (\<lambda>i. scatter (radix_byte (8 * pass)) (cur ! i))
     [0..<num_syms] (new, radix_offsets 0 (take 256 (drop (256 * pass) hist))))"

text \<open>The passes from \<open>pass\<close> on; the two arrays change places after each.\<close>

primrec radix_loop :: "nat \<Rightarrow> nat list \<Rightarrow> nat \<Rightarrow> nat \<Rightarrow> tdefl_sym_freq list \<Rightarrow> tdefl_sym_freq list \<Rightarrow>
    tdefl_sym_freq list" where
  "radix_loop num_syms hist pass 0 cur new = cur"
| "radix_loop num_syms hist pass (Suc r) cur new =
    radix_loop num_syms hist (Suc pass) r (radix_pass num_syms hist pass cur new) cur"

definition tdefl_radix_sort_syms ::
  "nat \<Rightarrow> tdefl_sym_freq list \<Rightarrow> tdefl_sym_freq list \<Rightarrow> tdefl_sym_freq list" where
  "tdefl_radix_sort_syms num_syms pSyms0 pSyms1 = (
     let hist = radix_hist num_syms pSyms0;
         total_passes = radix_passes num_syms hist 2
     in radix_loop num_syms hist 0 total_passes pSyms0 pSyms1)"

section \<open>Counting\<close>

abbreviation count_in :: "('a \<Rightarrow> nat) \<Rightarrow> 'a list \<Rightarrow> nat \<Rightarrow> nat" where
  "count_in f xs b \<equiv> length (filter (\<lambda>x. f x = b) xs)"

lemma radix_byte_less: "radix_byte k s < 256"
proof -
  have "drop_bit k (m_key s) AND 0xFF = take_bit 8 (drop_bit k (m_key s))"
    by (simp add: take_bit_eq_mask mask_eq_exp_minus_1)
  then show ?thesis
    using take_bit_nat_less_exp [of 8 "unat (drop_bit k (m_key s))"]
    by (simp only: radix_byte_def unsigned_take_bit_eq) simp
qed

text \<open>A loop over the indices of an array is a fold over its first entries.\<close>

lemma fold_nth_upt:
  assumes "n \<le> length xs"
  shows "fold (\<lambda>i. f (xs ! i)) [0..<n] s = fold f (take n xs) s"
proof -
  have "take n xs = map (\<lambda>i. xs ! i) [0..<n]"
    using assms by (intro nth_equalityI) simp_all
  then show ?thesis by (simp add: fold_map comp_def)
qed

lemma hist_add_counts:
  assumes "length h = 512"
  shows "length (hist_add x h) = 512"
    and "b < 256 \<Longrightarrow> hist_add x h ! b = h ! b + of_bool (radix_byte 0 x = b)"
    and "b < 256 \<Longrightarrow> hist_add x h ! (256 + b) = h ! (256 + b) + of_bool (radix_byte 8 x = b)"
  using assms radix_byte_less [of 0 x] radix_byte_less [of 8 x]
  by (auto simp: hist_add_def Let_def nth_list_update)

lemma hist_fold:
  assumes "length h = 512"
  shows "length (fold hist_add xs h) = 512"
    and "b < 256 \<Longrightarrow> fold hist_add xs h ! b = h ! b + count_in (radix_byte 0) xs b"
    and "b < 256 \<Longrightarrow> fold hist_add xs h ! (256 + b) = h ! (256 + b) + count_in (radix_byte 8) xs b"
  using assms by (induction xs arbitrary: h) (simp_all add: hist_add_counts)

lemma radix_hist_counts:
  assumes "n \<le> length xs"
  shows "length (radix_hist n xs) = 512"
    and "b < 256 \<Longrightarrow> radix_hist n xs ! b = count_in (radix_byte 0) (take n xs) b"
    and "b < 256 \<Longrightarrow> radix_hist n xs ! (256 + b) = count_in (radix_byte 8) (take n xs) b"
  by (simp_all add: radix_hist_def fold_nth_upt [OF assms] hist_fold)

lemma length_radix_offsets [simp]: "length (radix_offsets c hs) = length hs"
  by (induction hs arbitrary: c) simp_all

lemma radix_offsets_nth: "b < length hs \<Longrightarrow> radix_offsets c hs ! b = c + sum_list (take b hs)"
  by (induction hs arbitrary: c b) (auto simp: nth_Cons split: nat.split)

section \<open>One pass\<close>

definition bucket_start :: "('a \<Rightarrow> nat) \<Rightarrow> 'a list \<Rightarrow> nat \<Rightarrow> nat" where
  "bucket_start f xs b = sum_list (map (count_in f xs) [0..<b])"

lemma bucket_start_Suc [simp]:
  "bucket_start f xs 0 = 0" "bucket_start f xs (Suc b) = bucket_start f xs b + count_in f xs b"
  by (simp_all add: bucket_start_def)

lemma bucket_start_mono: "b \<le> c \<Longrightarrow> bucket_start f xs b \<le> bucket_start f xs c"
  by (induction c) (auto simp: le_Suc_eq)

lemma bucket_below: "b < c \<Longrightarrow> bucket_start f xs b + count_in f xs b \<le> bucket_start f xs c"
  using bucket_start_mono [of "Suc b" c f xs] by simp

lemma length_filter_below: "length (filter (\<lambda>x. f x < b) xs) = bucket_start f xs b"
proof (induction b)
  case (Suc b)
  have "length (filter (\<lambda>x. f x < Suc b) xs) =
      length (filter (\<lambda>x. f x < b) xs) + length (filter (\<lambda>x. f x = b) xs)"
    by (induction xs) (auto simp: less_Suc_eq)
  then show ?case using Suc by simp
qed simp

lemma bucket_start_all:
  assumes "\<And>x. f x < n"
  shows "bucket_start f xs n = length xs"
  using length_filter_below [of f n xs] assms by simp

text \<open>The places of different buckets are different.\<close>

lemma bucket_places:
  assumes "j < count_in f xs b" and "k < count_in f xs c" and "bucket_start f xs b + j = bucket_start f xs c + k"
  shows "b = c \<and> j = k"
  using assms bucket_below [of b c f xs] bucket_below [of c b f xs] by (cases b c rule: linorder_cases) auto

text \<open>After the symbols of a prefix have been placed.\<close>

definition placed_in :: "('a \<Rightarrow> nat) \<Rightarrow> 'a list \<Rightarrow> 'a list \<Rightarrow> 'a list \<times> nat list \<Rightarrow> bool" where
  "placed_in f xs ys = (\<lambda>(new, offsets). length xs \<le> length new \<and> length offsets = 256 \<and>
     (\<forall>b < 256. offsets ! b = bucket_start f xs b + count_in f ys b) \<and>
     (\<forall>b < 256. \<forall>j < count_in f ys b. new ! (bucket_start f xs b + j) = filter (\<lambda>x. f x = b) ys ! j))"

lemma placed_step:
  assumes "placed_in f xs ys (new, offsets)" and "xs = ys @ x # zs" and f: "\<And>x. f x < 256"
  shows "placed_in f xs (ys @ [x]) (scatter f x (new, offsets))"
proof -
  let ?b = "f x" and ?p = "offsets ! f x"
  have p: "?p = bucket_start f xs ?b + count_in f ys ?b" using assms(1) f by (simp add: placed_in_def)
  have less: "count_in f ys ?b < count_in f xs ?b" using assms(2) by simp
  then have "?p < length xs"
    using p bucket_below [of ?b 256 f xs] bucket_start_all [of f 256 xs] f by simp
  then have in_new: "?p < length new" using assms(1) by (simp add: placed_in_def)
  have other: "bucket_start f xs c + j \<noteq> ?p" if "j < count_in f ys c" for c j
  proof
    assume eq: "bucket_start f xs c + j = ?p"
    have "j < count_in f xs c" using that assms(2) by simp
    then have "c = ?b \<and> j = count_in f ys ?b" using bucket_places [OF _ less] eq p by metis
    then show False using that by simp
  qed
  have "new[?p := x] ! (bucket_start f xs c + j) = filter (\<lambda>y. f y = c) (ys @ [x]) ! j"
    if c: "c < 256" and j: "j < count_in f (ys @ [x]) c" for c j
  proof (cases "j < count_in f ys c")
    case True
    then show ?thesis using assms(1) c other [OF True] by (simp add: placed_in_def nth_append)
  next
    case False
    then have "c = ?b" "j = count_in f ys ?b" using j by (auto split: if_splits)
    then show ?thesis using p in_new by (simp add: nth_append)
  qed
  moreover have "offsets[?b := ?p + 1] ! c = bucket_start f xs c + count_in f (ys @ [x]) c"
    if "c < 256" for c
    using that assms(1) p by (auto simp: placed_in_def nth_list_update)
  moreover have "length xs \<le> length (new[?p := x])" "length (offsets[?b := ?p + 1]) = 256"
    using assms(1) by (simp_all add: placed_in_def)
  ultimately show ?thesis
    unfolding placed_in_def scatter_def Let_def prod.case by blast
qed

lemma placed_fold:
  assumes "placed_in f xs ys s" and "xs = ys @ zs" and "\<And>x. f x < 256"
  shows "placed_in f xs xs (fold (scatter f) zs s)"
  using assms(1,2)
proof (induction zs arbitrary: ys s)
  case Nil
  then show ?case by simp
next
  case (Cons z zs)
  obtain new offsets where s: "s = (new, offsets)" by (cases s)
  have placed: "placed_in f xs (ys @ [z]) (scatter f z s)"
    unfolding s using Cons.prems(1) [unfolded s] Cons.prems(2) assms(3) by (rule placed_step)
  have split: "xs = (ys @ [z]) @ zs" using Cons.prems(2) by simp
  show ?case using Cons.IH [OF placed split] by (simp only: fold_simps)
qed

text \<open>When all are placed the array holds the buckets one after the other.\<close>

lemma placed_buckets:
  assumes "placed_in f xs xs (new, offsets)" and "\<And>x. f x < 256" and "n \<le> 256"
  shows "take (bucket_start f xs n) new = concat (map (\<lambda>b. filter (\<lambda>x. f x = b) xs) [0..<n])"
  using assms(3)
proof (induction n)
  case 0
  then show ?case by simp
next
  case (Suc n)
  have "bucket_start f xs (Suc n) \<le> length new"
    using assms(1) bucket_start_mono [OF Suc.prems, of f xs] bucket_start_all [of f 256 xs] assms(2)
    by (simp add: placed_in_def)
  then have "take (count_in f xs n) (drop (bucket_start f xs n) new) = filter (\<lambda>x. f x = n) xs"
    using assms(1) Suc.prems by (intro nth_equalityI) (auto simp: placed_in_def)
  then show ?case using Suc by (simp add: take_add)
qed

lemma filter_buckets:
  "filter (\<lambda>x. f x = k) (concat (map (\<lambda>b. filter (\<lambda>x. f x = b) xs) [0..<n])) =
    (if k < n then filter (\<lambda>x. f x = k) xs else [])"
proof (induction n)
  case (Suc n)
  have "filter (\<lambda>x. f x = k \<and> f x = n) xs = (if k = n then filter (\<lambda>x. f x = k) xs else [])"
    by (auto simp: filter_empty_conv)
  then show ?case using Suc by (simp add: less_Suc_eq conj_commute)
qed simp

lemma sorted_buckets: "sorted (map f (concat (map (\<lambda>b. filter (\<lambda>x. f x = b) xs) [0..<n])))"
proof (induction n)
  case (Suc n)
  have "sorted (map f (filter (\<lambda>x. f x = n) xs))" by (induction xs) auto
  then show ?case using Suc by (auto simp: sorted_append)
qed simp

lemma mset_buckets:
  assumes "\<And>x. f x < (n :: nat)"
  shows "mset (concat (map (\<lambda>b. filter (\<lambda>x. f x = b) xs) [0..<n])) = mset xs"
proof -
  have "mset (concat (map (\<lambda>b. filter (\<lambda>x. f x = b) xs) [0..<m])) = mset (filter (\<lambda>x. f x < m) xs)" for m
  proof (induction m)
    case (Suc m)
    have "mset (filter (\<lambda>x. f x < Suc m) xs) =
        mset (filter (\<lambda>x. f x < m) xs) + mset (filter (\<lambda>x. f x = m) xs)"
      by (induction xs) (auto simp: less_Suc_eq)
    then show ?case using Suc by simp
  qed simp
  then show ?thesis using assms by simp
qed

lemma concat_buckets:
  assumes "\<And>x. f x < (n :: nat)"
  shows "concat (map (\<lambda>b. filter (\<lambda>x. f x = b) xs) [0..<n]) = sort_key f xs"
proof (rule properties_for_sort_key [symmetric])
  show "filter (\<lambda>x. f k = f x) (concat (map (\<lambda>b. filter (\<lambda>x. f x = b) xs) [0..<n])) =
      filter (\<lambda>x. f k = f x) xs" for k
    using filter_buckets [of f "f k" xs n] assms [of k] by (simp only: eq_commute [of "f k"] if_True)
qed (rule mset_buckets [OF assms], rule sorted_buckets)

text \<open>One pass sorts by its byte.\<close>

lemma radix_pass_sorts:
  assumes "n \<le> length cur" and "n \<le> length new" and "length hist = 512" and "pass < 2"
    and "\<And>b. b < 256 \<Longrightarrow> hist ! (256 * pass + b) = count_in (radix_byte (8 * pass)) (take n cur) b"
  shows "take n (radix_pass n hist pass cur new) = sort_key (radix_byte (8 * pass)) (take n cur)"
    and "n \<le> length (radix_pass n hist pass cur new)"
proof -
  let ?f = "radix_byte (8 * pass)" and ?xs = "take n cur"
  let ?hs = "take 256 (drop (256 * pass) hist)"
  have l: "length ?hs = 256" using assms(3,4) by simp
  have hs: "?hs = map (count_in ?f ?xs) [0..<256]"
    using l assms(3-5) by (intro nth_equalityI) simp_all
  have start: "radix_offsets 0 ?hs ! b = bucket_start ?f ?xs b" if "b < 256" for b
    using that by (simp add: hs radix_offsets_nth bucket_start_def take_map)
  let ?s = "fold (scatter ?f) ?xs (new, radix_offsets 0 ?hs)"
  obtain new' offsets where s: "?s = (new', offsets)" by (cases ?s)
  have "placed_in ?f ?xs [] (new, radix_offsets 0 ?hs)"
    using l assms(1,2) start by (simp add: placed_in_def)
  then have placed: "placed_in ?f ?xs ?xs (new', offsets)"
    unfolding s [symmetric] by (rule placed_fold) (simp_all add: radix_byte_less)
  have run: "radix_pass n hist pass cur new = new'"
    by (simp add: radix_pass_def fold_nth_upt [OF assms(1)] s)
  have "take (bucket_start ?f ?xs 256) new' = sort_key ?f ?xs"
    using placed_buckets [OF placed radix_byte_less order_refl] concat_buckets [OF radix_byte_less] by simp
  then show "take n (radix_pass n hist pass cur new) = sort_key ?f ?xs"
    using run bucket_start_all [of ?f 256 ?xs] radix_byte_less assms(1) by simp
  show "n \<le> length (radix_pass n hist pass cur new)"
    using run placed assms(1) by (simp add: placed_in_def)
qed

section \<open>Both passes\<close>

text \<open>Sorting by the low byte and then, stably, by the high byte sorts by the whole key.\<close>

lemma sorted_by_parts:
  assumes "sorted (map f xs)" and "\<And>k. sorted (map g (filter (\<lambda>x. f x = k) xs))"
  shows "sorted_wrt (\<lambda>x y. f x < f y \<or> f x = f y \<and> g x \<le> g y) xs"
  using assms
proof (induction xs)
  case Nil
  show ?case by simp
next
  case (Cons x xs)
  have "f x < f y \<or> f x = f y \<and> g x \<le> g y" if y: "y \<in> set xs" for y
  proof (cases "f x = f y")
    case True
    then have "y \<in> set (filter (\<lambda>z. f z = f x) xs)" using y by simp
    then have "g x \<le> g y" using Cons.prems(2) [of "f x"] by simp
    then show ?thesis using True by simp
  next
    case False
    then show ?thesis using Cons.prems(1) y by auto
  qed
  moreover have "sorted (map g (filter (\<lambda>x. f x = k) xs))" for k
    using Cons.prems(2) [of k] by (auto split: if_splits)
  ultimately show ?case using Cons.IH Cons.prems(1) by simp
qed

lemma sort_key_parts:
  assumes "\<And>x y. f x < f y \<or> f x = f y \<and> g x \<le> g y \<Longrightarrow> h x \<le> h y"
    and "\<And>x y. h x = h y \<longleftrightarrow> f x = f y \<and> g x = g y"
  shows "sort_key f (sort_key g xs) = sort_key h xs"
proof (rule properties_for_sort_key [symmetric])
  show "mset (sort_key f (sort_key g xs)) = mset xs" by simp
  show "filter (\<lambda>x. h k = h x) (sort_key f (sort_key g xs)) = filter (\<lambda>x. h k = h x) xs" for k
  proof -
    have h: "filter (\<lambda>x. h k = h x) ys = filter (\<lambda>x. g x = g k) (filter (\<lambda>x. f x = f k) ys)" for ys
      using assms(2) by (auto intro!: filter_cong)
    have swap: "filter (\<lambda>x. g x = g k) (filter (\<lambda>x. f x = f k) ys) =
        filter (\<lambda>x. f x = f k) (filter (\<lambda>x. g x = g k) ys)" for ys
      by (simp add: conj_commute)
    have "filter (\<lambda>x. h k = h x) (sort_key f (sort_key g xs)) =
        filter (\<lambda>x. g x = g k) (filter (\<lambda>x. f x = f k) (sort_key g xs))"
      unfolding h sort_key_stable ..
    also have "\<dots> = filter (\<lambda>x. f x = f k) (filter (\<lambda>x. g x = g k) xs)"
      unfolding swap sort_key_stable ..
    finally show ?thesis unfolding h swap .
  qed
  have "sorted_wrt (\<lambda>x y. f x < f y \<or> f x = f y \<and> g x \<le> g y) (sort_key f (sort_key g xs))"
  proof (rule sorted_by_parts)
    show "sorted (map g (filter (\<lambda>x. f x = k) (sort_key f (sort_key g xs))))" for k
      by (simp add: sort_key_stable sorted_filter)
  qed simp
  then show "sorted (map h (sort_key f (sort_key g xs)))"
    unfolding sorted_map by (rule sorted_wrt_mono_rel [rotated]) (rule assms(1))
qed

lemma key_bytes:
  "radix_byte 0 s = unat (m_key s) mod 256" "radix_byte 8 s = unat (m_key s) div 256"
proof -
  have b: "x AND 0xFF = take_bit 8 (x :: u16)" for x by (simp add: take_bit_eq_mask mask_eq_exp_minus_1)
  have u: "unat (m_key s) < 65536" using unsigned_less [of "m_key s", where 'a = nat] by simp
  show "radix_byte 0 s = unat (m_key s) mod 256"
    by (simp only: radix_byte_def b unsigned_take_bit_eq) (simp add: take_bit_eq_mod)
  have "radix_byte 8 s = take_bit 8 (drop_bit 8 (unat (m_key s)))"
    by (simp only: radix_byte_def b unsigned_take_bit_eq unsigned_drop_bit_eq)
       (use u in \<open>simp add: take_bit_eq_mod drop_bit_eq_div\<close>)
  then show "radix_byte 8 s = unat (m_key s) div 256"
    using u by (simp add: take_bit_eq_mod drop_bit_eq_div)
qed

lemma le_by_bytes:
  fixes u v :: nat
  assumes "u div 256 < v div 256 \<or> u div 256 = v div 256 \<and> u mod 256 \<le> v mod 256"
  shows "u \<le> v"
proof -
  have "u = u div 256 * 256 + u mod 256" "v = v div 256 * 256 + v mod 256" "u mod 256 < 256" by simp_all
  then show ?thesis using assms by linarith
qed

lemma eq_by_bytes: "(u :: nat) = v \<longleftrightarrow> u div 256 = v div 256 \<and> u mod 256 = v mod 256"
  by (metis div_mult_mod_eq)

lemma sort_key_bytes:
  "sort_key (radix_byte 8) (sort_key (radix_byte 0) xs) = sort_key (\<lambda>s. unat (m_key s)) xs"
proof (rule sort_key_parts)
  fix x y
  show "unat (m_key x) = unat (m_key y) \<longleftrightarrow> radix_byte 8 x = radix_byte 8 y \<and> radix_byte 0 x = radix_byte 0 y"
    unfolding key_bytes by (rule eq_by_bytes)
  assume "radix_byte 8 x < radix_byte 8 y \<or> radix_byte 8 x = radix_byte 8 y \<and> radix_byte 0 x \<le> radix_byte 0 y"
  then show "unat (m_key x) \<le> unat (m_key y)"
    unfolding key_bytes by (rule le_by_bytes)
qed

text \<open>Where all high bytes are zero, the second pass has nothing to do.\<close>

lemma count_in_mset: "mset xs = mset ys \<Longrightarrow> count_in f xs b = count_in f ys b"
  by (metis mset_filter size_mset)

lemma radix_sort_result:
  assumes "num_syms \<le> length pSyms0" and "num_syms \<le> length pSyms1"
  shows "take num_syms (tdefl_radix_sort_syms num_syms pSyms0 pSyms1) =
    sort_key (\<lambda>s. unat (m_key s)) (take num_syms pSyms0)"
proof -
  let ?h = "radix_hist num_syms pSyms0" and ?xs = "take num_syms pSyms0"
  let ?one = "radix_pass num_syms ?h 0 pSyms0 pSyms1"
  have one: "take num_syms ?one = sort_key (radix_byte 0) ?xs" "num_syms \<le> length ?one"
    using radix_pass_sorts [of num_syms pSyms0 pSyms1 ?h 0] assms radix_hist_counts [OF assms(1)]
    by simp_all
  show ?thesis
  proof (cases "num_syms = ?h ! 256")
    case True
    then have "count_in (radix_byte 8) ?xs 0 = length ?xs"
      using radix_hist_counts(3) [OF assms(1), of 0] assms(1) by simp
    then have z: "radix_byte 8 x = 0" if "x \<in> set ?xs" for x
      using that length_filter_less [of x ?xs "\<lambda>x. radix_byte 8 x = 0"] by fastforce
    have "sort_key (radix_byte 8) (sort_key (radix_byte 0) ?xs) = sort_key (radix_byte 0) ?xs"
    proof (rule sort_key_id_if_sorted)
      have "map (radix_byte 8) (sort_key (radix_byte 0) ?xs) = map (\<lambda>_. 0) (sort_key (radix_byte 0) ?xs)"
        using z by (intro map_cong) simp_all
      then show "sorted (map (radix_byte 8) (sort_key (radix_byte 0) ?xs))"
        by (simp only: map_replicate_const sorted_replicate)
    qed
    then show ?thesis
      using True one(1) sort_key_bytes [of ?xs]
      by (simp add: tdefl_radix_sort_syms_def Let_def numeral_2_eq_2)
  next
    case False
    let ?two = "radix_pass num_syms ?h 1 ?one pSyms0"
    have "count_in (radix_byte 8) (take num_syms ?one) b = count_in (radix_byte 8) ?xs b" for b
      unfolding one(1) by (rule count_in_mset) simp
    then have "take num_syms ?two = sort_key (radix_byte 8) (take num_syms ?one)"
      using radix_pass_sorts(1) [of num_syms ?one pSyms0 ?h 1] one(2) assms(1)
        radix_hist_counts [OF assms(1)] by simp
    then show ?thesis
      using False one(1) sort_key_bytes [of ?xs]
      by (simp add: tdefl_radix_sort_syms_def Let_def numeral_2_eq_2)
  qed
qed

lemma length_radix_pass [simp]: "length (radix_pass num_syms hist p cur new) = length new"
proof -
  have "length (fst (fold (\<lambda>i. scatter f (cur ! i)) is s)) = length (fst s)" for f "is" and s :: "tdefl_sym_freq list \<times> nat list"
    by (induction "is" arbitrary: s) (simp_all add: scatter_def Let_def split: prod.split)
  then show ?thesis by (simp add: radix_pass_def)
qed

lemma length_radix_sort:
  assumes "length pSyms0 = length pSyms1"
  shows "length (tdefl_radix_sort_syms num_syms pSyms0 pSyms1) = length pSyms0"
proof -
  have "length cur = length new \<Longrightarrow> length (radix_loop num_syms hist p r cur new) = length cur" for hist p r cur new
    by (induction r arbitrary: p cur new) simp_all
  then show ?thesis using assms by (simp add: tdefl_radix_sort_syms_def Let_def)
qed

text \<open>C19: The radix sort of the symbols is a stable sort by frequency: two counting passes
  over the bytes of the 16-bit keys, the second left out when all high bytes are 0, return the
  symbols in the order of their keys, equal keys in the order they had.\<close>

theorem radix_sort_correct:
  assumes "num_syms \<le> length pSyms0" and "num_syms \<le> length pSyms1"
  shows "take num_syms (tdefl_radix_sort_syms num_syms pSyms0 pSyms1) =
    sort_key (\<lambda>s. unat (m_key s)) (take num_syms pSyms0)"
  using radix_sort_result [OF assms] .

theorem radix_sort_correct_witness:
  "take 3 (tdefl_radix_sort_syms 3
      [\<lparr>m_key = 300, m_sym_index = 0\<rparr>, \<lparr>m_key = 7, m_sym_index = 1\<rparr>, \<lparr>m_key = 300, m_sym_index = 2\<rparr>]
      (replicate 3 \<lparr>m_key = 0, m_sym_index = 0\<rparr>)) =
    [\<lparr>m_key = 7, m_sym_index = 1\<rparr>, \<lparr>m_key = 300, m_sym_index = 0\<rparr>, \<lparr>m_key = 300, m_sym_index = 2\<rparr>]"
  by (subst radix_sort_correct) simp_all

end
