(* ===== verification/Mz_MinRed.thy ===== *)
theory Mz_MinRed
  imports Mz_Radix
begin

text \<open>
  \<open>tdefl_calculate_minimum_redundancy\<close> of \<open>proj/sparc-prog/miniz.c\<close>: Moffat and Katajainen's
  in-place computation of the code lengths of a Huffman code.  The array holds, one after the
  other, weights, indices of parents, depths of inner nodes and lengths of codes; the keys are
  16-bit words and wrap as in the code.  The last loop is a partial function: \<open>None\<close> is a run
  that does not end or writes below the array.

  The lemmas show that it always ends with a complete code: whatever the weights, the lengths
  \<open>l\<close> of the codes satisfy Kraft's equality, the sum of \<open>2^(n - l)\<close> being \<open>2^n\<close>.
\<close>

section \<open>The code\<close>

abbreviation key :: "tdefl_sym_freq list \<Rightarrow> nat \<Rightarrow> u16" where
  "key A i \<equiv> m_key (A ! i)"

definition set_key :: "tdefl_sym_freq list \<Rightarrow> nat \<Rightarrow> u16 \<Rightarrow> tdefl_sym_freq list" where
  "set_key A i v = A[i := (A ! i)\<lparr>m_key := v\<rparr>]"

text \<open>The first loop: every new inner node \<open>next\<close> takes the two smallest weights, inner nodes
  from \<open>root\<close> on and leaves from \<open>leaf\<close> on; the key of an inner node taken becomes its parent.\<close>

definition mr_first :: "nat \<Rightarrow> nat \<Rightarrow> nat \<times> nat \<times> tdefl_sym_freq list \<Rightarrow> nat \<times> nat \<times> tdefl_sym_freq list" where
  "mr_first n next = (\<lambda>(root, leaf, A).
     if leaf \<ge> n \<or> key A root < key A leaf then
       let A = set_key A next (key A root) in (root + 1, leaf, set_key A root (of_nat next))
     else (root, leaf + 1, set_key A next (key A leaf)))"

definition mr_second :: "nat \<Rightarrow> nat \<Rightarrow> nat \<times> nat \<times> tdefl_sym_freq list \<Rightarrow> nat \<times> nat \<times> tdefl_sym_freq list" where
  "mr_second n next = (\<lambda>(root, leaf, A).
     if leaf \<ge> n \<or> (root < next \<and> key A root < key A leaf) then
       let A = set_key A next (key A next + key A root) in (root + 1, leaf, set_key A root (of_nat next))
     else (root, leaf + 1, set_key A next (key A next + key A leaf)))"

function mr_link :: "nat \<Rightarrow> nat \<Rightarrow> nat \<times> nat \<times> tdefl_sym_freq list \<Rightarrow> tdefl_sym_freq list" where
  "mr_link n next s =
    (if next < n - 1 then mr_link n (next + 1) (mr_second n next (mr_first n next s))
     else snd (snd s))"
  by pat_completeness auto
termination by (relation "measure (\<lambda>(n, next, s). n - 1 - next)") auto

declare mr_link.simps [simp del]

text \<open>The second loop, \<open>next\<close> from \<open>n - 3\<close> down to 0: depths from parents.\<close>

primrec mr_depths :: "nat \<Rightarrow> tdefl_sym_freq list \<Rightarrow> tdefl_sym_freq list" where
  "mr_depths 0 A = A"
| "mr_depths (Suc next) A = mr_depths next (set_key A next (key A (unat (key A next)) + 1))"

text \<open>The third loop: \<open>used\<close> inner nodes of the \<open>avbl\<close> places at depth \<open>dpth\<close>, leaves in the rest.\<close>

function mr_count :: "tdefl_sym_freq list \<Rightarrow> nat \<Rightarrow> int \<Rightarrow> nat \<Rightarrow> int \<times> nat" where
  "mr_count A dpth root used =
    (if root \<ge> 0 \<and> unat (key A (nat root)) = dpth then mr_count A dpth (root - 1) (used + 1)
     else (root, used))"
  by pat_completeness auto
termination by (relation "measure (\<lambda>(A, dpth, root, used). nat (root + 1))") auto

declare mr_count.simps [simp del]

primrec mr_assign :: "nat \<Rightarrow> nat \<Rightarrow> int \<Rightarrow> tdefl_sym_freq list \<Rightarrow> (int \<times> tdefl_sym_freq list) option" where
  "mr_assign dpth 0 next A = Some (next, A)"
| "mr_assign dpth (Suc k) next A =
    (if next < 0 then None else mr_assign dpth k (next - 1) (set_key A (nat next) (of_nat dpth)))"

partial_function (option) mr_levels ::
  "nat \<Rightarrow> nat \<Rightarrow> int \<Rightarrow> int \<Rightarrow> tdefl_sym_freq list \<Rightarrow> tdefl_sym_freq list option" where
  "mr_levels avbl dpth root next A =
    (if avbl > 0 then
       (case mr_count A dpth root 0 of (root, used) \<Rightarrow>
        case mr_assign dpth (avbl - used) next A of
          None \<Rightarrow> None
        | Some (next, A) \<Rightarrow> mr_levels (2 * used) (dpth + 1) root next A)
     else Some A)"

definition tdefl_calculate_minimum_redundancy ::
  "tdefl_sym_freq list \<Rightarrow> nat \<Rightarrow> tdefl_sym_freq list option" where
  "tdefl_calculate_minimum_redundancy A n =
    (if n = 0 then Some A
     else if n = 1 then Some (set_key A 0 1)
     else
       let A = set_key A 0 (key A 0 + key A 1);
           A = mr_link n 1 (0, 2, A);
           A = mr_depths (n - 2) (set_key A (n - 2) 0)
       in mr_levels 1 0 (int n - 2) (int n - 1) A)"

section \<open>Keys\<close>

lemma length_set_key [simp]: "length (set_key A i v) = length A"
  by (simp add: set_key_def)

lemma key_set_key: "i < length A \<Longrightarrow> key (set_key A i v) j = (if j = i then v else key A j)"
  by (simp add: set_key_def nth_list_update)

lemma syms_set_key [simp]: "map m_sym_index (set_key A i v) = map m_sym_index A"
  by (cases "i < length A") (auto simp: set_key_def nth_list_update intro!: nth_equalityI)

section \<open>The tree\<close>

text \<open>
  What the first loop builds: a parent function on the inner nodes \<open>0 .. n - 3\<close> below the root
  \<open>n - 2\<close>, in which parents lie above their children, in the order of the children, and no
  node has more than two of them.
\<close>

definition links :: "nat \<Rightarrow> nat \<Rightarrow> (nat \<Rightarrow> nat) \<Rightarrow> bool" where
  "links m t p \<longleftrightarrow> (\<forall>i < m. i < p i \<and> p i \<le> t) \<and> (\<forall>i j. i \<le> j \<and> j < m \<longrightarrow> p i \<le> p j) \<and>
     (\<forall>i. i + 2 < m \<longrightarrow> p i < p (i + 2))"

definition mr_inv :: "nat \<Rightarrow> nat \<Rightarrow> nat \<times> nat \<times> tdefl_sym_freq list \<Rightarrow> bool" where
  "mr_inv n next = (\<lambda>(root, leaf, A). length A = n \<and> 1 \<le> next \<and> next \<le> n - 1 \<and> 2 \<le> n \<and>
     root + leaf = 2 * next \<and> root < next \<and> leaf \<le> n \<and>
     links root (next - 1) (\<lambda>i. unat (key A i)))"

lemma links_extend:
  assumes "links m (q - 1) p" and "\<And>i. i < m \<Longrightarrow> p' i = p i" and "m \<le> m'" and "m' \<le> m + 2"
    and "\<And>i. m \<le> i \<Longrightarrow> i < m' \<Longrightarrow> p' i = q" and "m' \<le> q" and "1 \<le> q"
  shows "links m' q p'"
proof -
  have old: "i < p' i" "p' i < q" if "i < m" for i
    using assms(1,2,7) that by (auto simp: links_def)
  have new: "p' i = q" "i < q" if "\<not> i < m" "i < m'" for i
    using assms(5) [of i] that assms(6) by auto
  show ?thesis
    unfolding links_def
  proof (intro conjI allI impI)
    fix i assume "i < m'"
    then show "i < p' i" "p' i \<le> q" using old [of i] new [of i] by (cases "i < m"; simp)+
  next
    fix i j assume "i \<le> j \<and> j < m'"
    then show "p' i \<le> p' j"
      using old [of i] old [of j] new [of i] new [of j] assms(1,2) unfolding links_def
      by (cases "i < m"; cases "j < m") auto
  next
    fix i assume i: "i + 2 < m'"
    then have "i < m" using assms(4) by simp
    then show "p' i < p' (i + 2)"
      using old [of i] new [of "i + 2"] i assms(1,2) unfolding links_def
      by (cases "i + 2 < m") auto
  qed
qed

lemma mr_pick:
  assumes "mr_inv n next s" and "next < n - 1" and "n \<le> 65536"
  shows "mr_inv n (next + 1) (mr_second n next (mr_first n next s))"
    and "map m_sym_index (snd (snd (mr_second n next (mr_first n next s)))) = map m_sym_index (snd (snd s))"
proof -
  obtain root leaf A where s: "s = (root, leaf, A)" by (cases s)
  obtain root1 leaf1 A1 where s1: "mr_first n next s = (root1, leaf1, A1)"
    by (cases "mr_first n next s")
  obtain root2 leaf2 A2 where s2: "mr_second n next (root1, leaf1, A1) = (root2, leaf2, A2)"
    by (cases "mr_second n next (root1, leaf1, A1)")
  have i: "length A = n" "1 \<le> next" "root + leaf = 2 * next" "root < next" "leaf \<le> n"
    "links root (next - 1) (\<lambda>i. unat (key A i))"
    using assms(1) by (simp_all add: mr_inv_def s)
  have w: "unat (of_nat next :: u16) = next"
    using assms(2,3) by (intro unat_of_nat_less) simp
  have one: "length A1 = n" "root1 + leaf1 = 2 * next + 1" "leaf1 \<le> n" "root \<le> root1" "root1 \<le> root + 1"
    "root1 \<le> next" "map m_sym_index A1 = map m_sym_index A"
    "\<And>i. i < root \<Longrightarrow> key A1 i = key A i" "\<And>i. root \<le> i \<Longrightarrow> i < root1 \<Longrightarrow> key A1 i = of_nat next"
    using s1 i assms(2)
    by (auto simp: mr_first_def s Let_def key_set_key split: if_splits)
  have two: "length A2 = n" "root2 + leaf2 = 2 * next + 2" "leaf2 \<le> n" "root1 \<le> root2" "root2 \<le> root1 + 1"
    "root2 \<le> next" "map m_sym_index A2 = map m_sym_index A1"
    "\<And>i. i < root1 \<Longrightarrow> key A2 i = key A1 i" "\<And>i. root1 \<le> i \<Longrightarrow> i < root2 \<Longrightarrow> key A2 i = of_nat next"
    using s2 one assms(2)
    by (auto simp: mr_second_def Let_def key_set_key split: if_splits)
  have "links root2 next (\<lambda>i. unat (key A2 i))"
  proof (rule links_extend [OF i(6)])
    show "unat (key A2 i) = unat (key A i)" if "i < root" for i
      using that one(4,8) two(8) by simp
    show "unat (key A2 i) = next" if "root \<le> i" "i < root2" for i
      using that one(4,9) two(8,9) w by (cases "i < root1") simp_all
  qed (use one two i in simp_all)
  then show "mr_inv n (next + 1) (mr_second n next (mr_first n next s))"
    using one two i assms(2) by (simp add: mr_inv_def s1 s2)
  show "map m_sym_index (snd (snd (mr_second n next (mr_first n next s)))) = map m_sym_index (snd (snd s))"
    using one two by (simp add: s1 [unfolded s] s2 s)
qed

lemma mr_link_result:
  assumes "mr_inv n next s" and "n \<le> 65536"
  shows "length (mr_link n next s) = n \<and> links (n - 2) (n - 2) (\<lambda>i. unat (key (mr_link n next s) i)) \<and>
    map m_sym_index (mr_link n next s) = map m_sym_index (snd (snd s))"
  using assms
proof (induction n "next" s rule: mr_link.induct)
  case (1 n "next" s)
  show ?case
  proof (cases "next < n - 1")
    case True
    then show ?thesis
      using 1 mr_pick [OF 1(2) True 1(3)] by (subst (1 2 3) mr_link.simps) simp
  next
    case False
    obtain root leaf A where s: "s = (root, leaf, A)" by (cases s)
    have "next = n - 1" "root + leaf = 2 * next" "root < next" "leaf \<le> n"
      using False 1(2) by (simp_all add: mr_inv_def s)
    then have "root = n - 2" "next - 1 = n - 2" by simp_all
    then show ?thesis
      using False 1(2) by (subst (1 2 3) mr_link.simps) (simp add: mr_inv_def s)
  qed
qed

section \<open>Depths\<close>

definition depths :: "nat \<Rightarrow> (nat \<Rightarrow> nat) \<Rightarrow> (nat \<Rightarrow> nat) \<Rightarrow> bool" where
  "depths m p d \<longleftrightarrow> d m = 0 \<and> (\<forall>i < m. d i = d (p i) + 1)"

lemma depths_bound:
  assumes "links m m p" and "depths m p d" and "i \<le> m"
  shows "d i \<le> m - i"
  using assms(3)
proof (induction "m - i" arbitrary: i rule: less_induct)
  case less
  show ?case
  proof (cases "i = m")
    case True
    then show ?thesis using assms(2) by (simp add: depths_def)
  next
    case False
    then have "i < p i" "p i \<le> m" "d i = d (p i) + 1"
      using assms(1,2) less.prems by (simp_all add: links_def depths_def)
    moreover from this have "m - p i < m - i" by linarith
    ultimately have "d (p i) \<le> m - p i" using less.hyps [of "p i"] by blast
    then show ?thesis using \<open>m - p i < m - i\<close> \<open>d i = d (p i) + 1\<close> by linarith
  qed
qed

lemma depths_antimono:
  assumes "links m m p" and "depths m p d" and "i \<le> j" and "j \<le> m"
  shows "d j \<le> d i"
  using assms(3,4)
proof (induction "m - i" arbitrary: i j rule: less_induct)
  case less
  show ?case
  proof (cases "j = m \<or> i = j")
    case True
    then show ?thesis using assms(2) by (auto simp: depths_def)
  next
    case False
    then have "j < m" "i < m" using less.prems by simp_all
    then have "p i \<le> p j" "i < p i" "p j \<le> m" "d i = d (p i) + 1" "d j = d (p j) + 1"
      using assms(1,2) less.prems by (simp_all add: links_def depths_def)
    then show ?thesis using less.hyps [of "p i" "p j"] less.prems by simp
  qed
qed

lemma mr_depths_result:
  assumes "m < length A" and "links m m p" and "j \<le> m" and "m < 65535"
    and "\<And>i. i < j \<Longrightarrow> unat (key A i) = p i"
    and "\<And>i. j \<le> i \<Longrightarrow> i \<le> m \<Longrightarrow> unat (key A i) = d i" and "depths m p d"
  shows "length (mr_depths j A) = length A \<and> map m_sym_index (mr_depths j A) = map m_sym_index A \<and>
    (\<forall>i \<le> m. unat (key (mr_depths j A) i) = d i)"
  using assms(1,3,5,6)
proof (induction j arbitrary: A)
  case 0
  then show ?case by simp
next
  case (Suc j)
  let ?A = "set_key A j (key A (unat (key A j)) + 1)"
  have p: "j < p j" "p j \<le> m" "d j = d (p j) + 1"
    using assms(2,7) Suc.prems(2) by (simp_all add: links_def depths_def)
  have "d (p j) < 65535"
    using depths_bound [OF assms(2,7) p(2)] assms(4) p(1) by simp
  then have "unat (key A (p j) + 1) = d j"
    using Suc.prems(4) [of "p j"] p by (simp add: unat_word_ariths)
  then have "unat (key ?A i) = d i" if "j \<le> i" "i \<le> m" for i
    using that Suc.prems by (cases "i = j") (simp_all add: key_set_key)
  moreover have "unat (key ?A i) = p i" if "i < j" for i
    using that Suc.prems by (simp add: key_set_key)
  ultimately show ?case using Suc.IH [of ?A] Suc.prems(1,2) by simp
qed

text \<open>Such a \<open>d\<close> exists: the depth by recursion towards the root.\<close>

lemma depths_exist:
  assumes "links m m p"
  shows "\<exists>d. depths m p d"
proof -
  have "\<exists>d. d m = 0 \<and> (\<forall>i. m - k \<le> i \<and> i < m \<longrightarrow> d i = d (p i) + (1 :: nat))" for k
  proof (induction k)
    case 0
    show ?case by (intro exI [of _ "\<lambda>_. 0"]) simp
  next
    case (Suc k)
    then obtain d where d: "d m = 0" "\<And>i. m - k \<le> i \<Longrightarrow> i < m \<Longrightarrow> d i = d (p i) + (1 :: nat)" by blast
    show ?case
    proof (cases "k < m")
      case True
      let ?j = "m - Suc k" and ?d = "d(m - Suc k := d (p (m - Suc k)) + 1)"
      have up: "i < p i" if "i < m" for i using assms that by (simp add: links_def)
      have "?d i = ?d (p i) + 1" if "m - Suc k \<le> i" "i < m" for i
        using that up [of i] d(2) [of i] True by (cases "i = ?j") auto
      then show ?thesis using d(1) True by (intro exI [of _ ?d]) simp
    next
      case False
      then show ?thesis using d by (intro exI [of _ d]) simp
    qed
  qed
  from this [of m] show ?thesis by (simp add: depths_def)
qed

section \<open>Levels\<close>

definition level :: "nat \<Rightarrow> (nat \<Rightarrow> nat) \<Rightarrow> nat \<Rightarrow> nat" where
  "level m d e = card {i. i \<le> m \<and> d i = e}"

definition above :: "nat \<Rightarrow> (nat \<Rightarrow> nat) \<Rightarrow> nat \<Rightarrow> nat" where
  "above m d e = card {i. i \<le> m \<and> d i < e}"

lemma above_Suc: "above m d (Suc e) = above m d e + level m d e"
proof -
  have "{i. i \<le> m \<and> d i < Suc e} = {i. i \<le> m \<and> d i < e} \<union> {i. i \<le> m \<and> d i = e}" by auto
  then show ?thesis
    unfolding above_def level_def by (simp add: card_Un_disjoint disjoint_iff)
qed

lemma above_0 [simp]: "above m d 0 = 0"
  by (simp add: above_def)

lemma above_le: "above m d e \<le> m + 1"
proof -
  have "above m d e \<le> card {..m}" unfolding above_def by (intro card_mono) auto
  then show ?thesis by simp
qed

text \<open>No level has more than twice the inner nodes of the one above it.\<close>

lemma fibre_le_2:
  assumes "links m m p"
  shows "card {i. i < m \<and> p i = q} \<le> 2"
proof (cases "{i. i < m \<and> p i = q} = {}")
  case False
  define k where "k = Min {i. i < m \<and> p i = q}"
  have fin: "finite {i. i < m \<and> p i = q}" by simp
  have k: "k < m" "p k = q" using Min_in [OF fin False] by (simp_all add: k_def)
  have "i \<in> {k, k + 1}" if "i < m" "p i = q" for i
  proof (rule ccontr)
    assume "i \<notin> {k, k + 1}"
    moreover have "k \<le> i" using Min_le [OF fin, of i] that by (simp add: k_def)
    ultimately have "k + 2 \<le> i" by simp
    then have "p k < p (k + 2)" "p (k + 2) \<le> p i" using assms that by (auto simp: links_def)
    then show False using k that by simp
  qed
  then have "{i. i < m \<and> p i = q} \<subseteq> {k, k + 1}" by blast
  then have "card {i. i < m \<and> p i = q} \<le> card {k, k + 1}" by (intro card_mono) simp_all
  then show ?thesis by simp
qed (simp only: card.empty)

lemma level_Suc_le:
  assumes "links m m p" and "depths m p d"
  shows "level m d (Suc e) \<le> 2 * level m d e"
proof -
  let ?S = "{i. i \<le> m \<and> d i = Suc e}" and ?T = "{i. i \<le> m \<and> d i = e}"
  have "?S \<subseteq> (\<Union>q \<in> ?T. {i. i < m \<and> p i = q})"
    using assms by (auto simp: links_def depths_def le_less)
  then have "card ?S \<le> card (\<Union>q \<in> ?T. {i. i < m \<and> p i = q})"
    by (intro card_mono finite_UN_I) simp_all
  also have "\<dots> \<le> (\<Sum>q \<in> ?T. card {i. i < m \<and> p i = q})" by (rule card_UN_le) simp
  also have "\<dots> \<le> (\<Sum>q \<in> ?T. 2)" by (intro sum_mono fibre_le_2 [OF assms(1)])
  finally show ?thesis by (simp add: level_def)
qed

lemma level_0:
  assumes "links m m p" and "depths m p d"
  shows "level m d 0 = 1"
proof -
  have "{i. i \<le> m \<and> d i = 0} = {m}" using assms(2) by (auto simp: depths_def le_less)
  then show ?thesis by (simp add: level_def)
qed

text \<open>After an empty level there is none below.\<close>

lemma level_empty:
  assumes "links m m p" and "depths m p d" and "level m d e = 0"
  shows "above m d e = m + 1"
proof -
  have z: "level m d (e + k) = 0" for k
  proof (induction k)
    case 0
    show ?case using assms(3) by simp
  next
    case (Suc k)
    then show ?case using level_Suc_le [OF assms(1,2), of "e + k"] by simp
  qed
  have "d i < e" if i: "i \<le> m" for i
  proof (rule ccontr)
    assume "\<not> d i < e"
    then have "level m d (d i) = 0" using z [of "d i - e"] by simp
    then have "{j. j \<le> m \<and> d j = d i} = {}" by (simp add: level_def)
    then show False using i by blast
  qed
  then have "{i. i \<le> m \<and> d i < e} = {..m}" by auto
  then show ?thesis by (simp add: above_def)
qed

text \<open>The nodes above a depth are the last ones.\<close>

lemma above_iff:
  assumes "links m m p" and "depths m p d" and "i \<le> m"
  shows "d i < e \<longleftrightarrow> m + 1 - above m d e \<le> i"
proof -
  have up: "{i..m} \<subseteq> {i. i \<le> m \<and> d i < e}" if "d i < e" "i \<le> m" for i
    using depths_antimono [OF assms(1,2)] that by fastforce
  show ?thesis
  proof
    assume "d i < e"
    then have "card {i..m} \<le> above m d e" unfolding above_def using up assms(3) by (intro card_mono) auto
    then show "m + 1 - above m d e \<le> i" by simp
  next
    assume le: "m + 1 - above m d e \<le> i"
    show "d i < e"
    proof (rule ccontr)
      assume n: "\<not> d i < e"
      have "{j. j \<le> m \<and> d j < e} \<subseteq> {i + 1..m}"
        using depths_antimono [OF assms(1,2), of _ i] n assms(3) by (auto simp: not_le Suc_le_eq)
          (metis leD le_less_linear less_le_trans)
      then have "above m d e \<le> card {i + 1..m}" unfolding above_def by (intro card_mono) auto
      then show False using le assms(3) by simp
    qed
  qed
qed

section \<open>The third loop\<close>

lemma mr_count_result:
  assumes "links m m p" and "depths m p d" and "\<And>i. i \<le> m \<Longrightarrow> int i \<le> root \<Longrightarrow> unat (key A i) = d i"
    and "root = int m - int (above m d e) - int used" and "used \<le> level m d e"
  shows "mr_count A e root used = (int m - int (above m d (Suc e)), level m d e)"
  using assms(3-5)
proof (induction "level m d e - used" arbitrary: root used rule: less_induct)
  case less
  have "above m d (Suc e) \<le> m + 1" by (rule above_le)
  then have le: "above m d e + level m d e \<le> m + 1" by (simp only: above_Suc)
  show ?case
  proof (cases "used < level m d e")
    case True
    define i where "i = m - above m d e - used"
    have i: "i \<le> m" "root = int i" using True le less.prems(2) by (simp_all add: i_def)
    have "d i < Suc e" "\<not> d i < e"
      unfolding above_iff [OF assms(1,2) i(1)] above_Suc using True le by (simp_all add: i_def)
    then have "unat (key A i) = e" using less.prems(1) [of i] i by simp
    then have "mr_count A e root used = mr_count A e (root - 1) (used + 1)"
      using i by (subst mr_count.simps) simp
    then show ?thesis
      using True less.hyps [of "used + 1" "root - 1"] less.prems by simp
  next
    case False
    then have used: "used = level m d e" using less.prems(3) by simp
    have "\<not> (root \<ge> 0 \<and> unat (key A (nat root)) = e)"
    proof
      assume *: "root \<ge> 0 \<and> unat (key A (nat root)) = e"
      define i where "i = nat root"
      have r: "root = int i" using * by (simp add: i_def)
      have "i + above m d (Suc e) = m"
        using r less.prems(2) used unfolding above_Suc by linarith
      note i = r this
      then have "d i = e" using * less.prems(1) [of i] by simp
      then have "m + 1 - above m d (Suc e) \<le> i"
        using above_iff [OF assms(1,2), of i "Suc e"] i by simp
      then show False using i(2) by simp
    qed
    then show ?thesis using used less.prems(2) by (subst mr_count.simps) (auto simp: above_Suc)
  qed
qed

lemma mr_assign_result:
  assumes "k \<le> nat (next + 1)" and "next < int (length A)" and "e < 65536" and "- 1 \<le> next"
  shows "\<exists>B. mr_assign e k next A = Some (next - int k, B) \<and> length B = length A \<and>
    map m_sym_index B = map m_sym_index A \<and>
    (\<forall>i. unat (key B i) = (if next - int k < int i \<and> int i \<le> next then e else unat (key A i)))"
  using assms
proof (induction k arbitrary: "next" A)
  case 0
  then show ?case by simp
next
  case (Suc k)
  let ?A = "set_key A (nat next) (of_nat e)"
  have n: "0 \<le> next" using Suc.prems(1) by simp
  then have k: "k \<le> nat next" using Suc.prems(1) by (simp add: nat_add_distrib)
  have e: "unat (of_nat e :: u16) = e" using Suc.prems(3) by (intro unat_of_nat_less) simp
  obtain B where B: "mr_assign e k (next - 1) ?A = Some (next - 1 - int k, B)" "length B = length A"
    "map m_sym_index B = map m_sym_index A"
    "\<And>i. unat (key B i) = (if next - 1 - int k < int i \<and> int i \<le> next - 1 then e else unat (key ?A i))"
    using Suc.IH [of "next - 1" ?A] Suc.prems n k by auto
  have "unat (key B i) = (if next - int (Suc k) < int i \<and> int i \<le> next then e else unat (key A i))" for i
    using B(4) [of i] n e Suc.prems(2) key_set_key [of "nat next" A "of_nat e" i] by auto
  then show ?case using B(1-3) n by (intro exI [of _ B]) simp
qed

text \<open>Kraft's sum over the codes of a set of places, scaled by \<open>2^N\<close>.\<close>

definition kraft_sum :: "nat \<Rightarrow> (nat \<Rightarrow> nat) \<Rightarrow> nat set \<Rightarrow> nat" where
  "kraft_sum N l S = (\<Sum>i \<in> S. 2 ^ (N - l i))"

lemma kraft_sum_split:
  "a \<le> b \<Longrightarrow> b \<le> c \<Longrightarrow> kraft_sum N l {a..<b} + kraft_sum N l {b..<c} = kraft_sum N l {a..<c}"
  unfolding kraft_sum_def by (rule sum.atLeastLessThan_concat)

text \<open>
  The loop at depth \<open>e\<close> with \<open>L\<close> leaves placed: \<open>L\<close> and the places open at this depth make one
  more than the inner nodes above it, and the codes placed with the open places fill the
  whole code space.
\<close>

definition levels_inv :: "nat \<Rightarrow> (nat \<Rightarrow> nat) \<Rightarrow> nat \<Rightarrow> nat \<Rightarrow> nat \<Rightarrow> tdefl_sym_freq list \<Rightarrow> bool" where
  "levels_inv m d e avbl L A \<longleftrightarrow> length A = m + 2 \<and> L + avbl = 1 + above m d e \<and>
     level m d e \<le> avbl \<and> (avbl > 0 \<longrightarrow> e \<le> above m d e \<and> e \<le> d 0 + 1) \<and>
     (\<forall>i \<le> m. i + above m d e \<le> m \<longrightarrow> unat (key A i) = d i) \<and>
     (\<forall>i. m + 2 - L \<le> i \<and> i < m + 2 \<longrightarrow> unat (key A i) \<le> d 0 + 1) \<and>
     kraft_sum (m + 1) (\<lambda>i. unat (key A i)) {m + 2 - L..<m + 2} + avbl * 2 ^ (m + 1 - e) = 2 ^ (m + 1)"

lemma levels_step:
  assumes "links m m p" and "depths m p d" and "levels_inv m d e avbl L A" and "avbl > 0" and "m < 65000"
  obtains B where
    "mr_count A e (int m - int (above m d e)) 0 = (int m - int (above m d (Suc e)), level m d e)"
    "mr_assign e (avbl - level m d e) (int m + 1 - int L) A =
      Some (int m + 1 - int (L + (avbl - level m d e)), B)"
    "levels_inv m d (Suc e) (2 * level m d e) (L + (avbl - level m d e)) B"
    "map m_sym_index B = map m_sym_index A"
proof -
  let ?U = "above m d e" and ?c = "level m d e"
  define k where "k = avbl - ?c"
  have inv: "length A = m + 2" "L + avbl = 1 + ?U" "?c \<le> avbl" "e \<le> ?U" "e \<le> d 0 + 1"
    "\<And>i. i \<le> m \<Longrightarrow> i + ?U \<le> m \<Longrightarrow> unat (key A i) = d i"
    "\<And>i. m + 2 - L \<le> i \<Longrightarrow> i < m + 2 \<Longrightarrow> unat (key A i) \<le> d 0 + 1"
    "kraft_sum (m + 1) (\<lambda>i. unat (key A i)) {m + 2 - L..<m + 2} + avbl * 2 ^ (m + 1 - e) = 2 ^ (m + 1)"
    using assms(3,4) by (simp_all add: levels_inv_def)
  have U: "?U + ?c \<le> m + 1" using above_le [of m d "Suc e"] by (simp add: above_Suc)
  have L: "L + k + ?c = 1 + ?U" using inv(2,3) by (simp add: k_def)
  have count: "mr_count A e (int m - int ?U) 0 = (int m - int (above m d (Suc e)), ?c)"
    using inv(6) by (intro mr_count_result [OF assms(1,2)]) simp_all
  have bounds: "k \<le> nat (int m + 1 - int L + 1)" "int m + 1 - int L < int (length A)" "e < 65536"
    "- 1 \<le> int m + 1 - int L"
    using inv(1,4) L U assms(5) by linarith+
  obtain B where B: "mr_assign e k (int m + 1 - int L) A = Some (int m + 1 - int L - int k, B)"
    "length B = length A" "map m_sym_index B = map m_sym_index A"
    "\<And>i. unat (key B i) = (if int m + 1 - int L - int k < int i \<and> int i \<le> int m + 1 - int L then e
       else unat (key A i))"
    using mr_assign_result [OF bounds] by blast
  have placed: "unat (key B i) = (if m + 2 - (L + k) \<le> i \<and> i < m + 2 - L then e else unat (key A i))" for i
    using B(4) [of i] L U by auto
  have rest: "unat (key B i) = d i" if "i \<le> m" "i + above m d (Suc e) \<le> m" for i
  proof -
    have u: "i + (?U + ?c) \<le> m" using that(2) unfolding above_Suc .
    then have "\<not> m + 2 - (L + k) \<le> i" using L by linarith
    then show ?thesis using placed [of i] inv(6) [of i] that(1) u by simp
  qed
  have new: "kraft_sum (m + 1) (\<lambda>i. unat (key B i)) {m + 2 - (L + k)..<m + 2 - L} = k * 2 ^ (m + 1 - e)"
  proof -
    have "kraft_sum (m + 1) (\<lambda>i. unat (key B i)) {m + 2 - (L + k)..<m + 2 - L} =
        (\<Sum>i \<in> {m + 2 - (L + k)..<m + 2 - L}. 2 ^ (m + 1 - e))"
      unfolding kraft_sum_def by (intro sum.cong) (simp_all add: placed)
    then show ?thesis using L U by simp
  qed
  have old: "kraft_sum (m + 1) (\<lambda>i. unat (key B i)) {m + 2 - L..<m + 2} =
      kraft_sum (m + 1) (\<lambda>i. unat (key A i)) {m + 2 - L..<m + 2}"
    unfolding kraft_sum_def by (intro sum.cong) (auto simp: placed)
  have "kraft_sum (m + 1) (\<lambda>i. unat (key B i)) {m + 2 - (L + k)..<m + 2} =
      k * 2 ^ (m + 1 - e) + kraft_sum (m + 1) (\<lambda>i. unat (key A i)) {m + 2 - L..<m + 2}"
    unfolding new [symmetric] old [symmetric] by (rule kraft_sum_split [symmetric]) simp_all
  moreover have "2 * ?c * 2 ^ (m + 1 - Suc e) = ?c * 2 ^ (m + 1 - e)"
  proof (cases "?c > 0")
    case True
    then have "e \<le> m" using U inv(4) by simp
    then have "m + 1 - e = Suc (m + 1 - Suc e)" by simp
    then show ?thesis by simp
  qed simp
  moreover have "k * 2 ^ (m + 1 - e) + ?c * 2 ^ (m + 1 - e) = avbl * 2 ^ (m + 1 - e)"
    using inv(3) by (simp add: k_def add_mult_distrib [symmetric])
  ultimately have kraft: "kraft_sum (m + 1) (\<lambda>i. unat (key B i)) {m + 2 - (L + k)..<m + 2} +
      2 * ?c * 2 ^ (m + 1 - Suc e) = 2 ^ (m + 1)"
    using inv(8) by linarith
  have "levels_inv m d (Suc e) (2 * ?c) (L + k) B"
    unfolding levels_inv_def
  proof (intro conjI allI impI)
    show "L + k + 2 * ?c = 1 + above m d (Suc e)" using L by (simp add: above_Suc)
    show "level m d (Suc e) \<le> 2 * ?c" using level_Suc_le [OF assms(1,2)] .
    show "Suc e \<le> above m d (Suc e)" if "0 < 2 * ?c" using that inv(4) by (simp add: above_Suc)
    show "Suc e \<le> d 0 + 1" if "0 < 2 * ?c"
    proof -
      have "0 < level m d e" using that by simp
      then have "{i. i \<le> m \<and> d i = e} \<noteq> {}" unfolding level_def card_gt_0_iff by blast
      then obtain i where "i \<le> m" "d i = e" by blast
      then show ?thesis using depths_antimono [OF assms(1,2), of 0 i] by simp
    qed
    show "unat (key B i) \<le> d 0 + 1" if "m + 2 - (L + k) \<le> i \<and> i < m + 2" for i
      using that placed [of i] inv(5) inv(7) [of i] by (auto split: if_splits)
  qed (use B(2) inv(1) rest kraft in simp_all)
  then show ?thesis using that [of B] count B(1,3) by (simp add: k_def)
qed

lemma mr_levels_result:
  assumes "links m m p" and "depths m p d" and "levels_inv m d e avbl L A" and "m < 65000"
  shows "\<exists>B. mr_levels avbl e (int m - int (above m d e)) (int m + 1 - int L) A = Some B \<and> length B = m + 2 \<and>
    map m_sym_index B = map m_sym_index A \<and> (\<forall>i < m + 2. unat (key B i) \<le> d 0 + 1) \<and>
    kraft_sum (m + 1) (\<lambda>i. unat (key B i)) {..<m + 2} = 2 ^ (m + 1)"
  using assms(3)
proof (induction "(m + 1 - above m d e) + (if avbl > 0 then 1 else 0)" arbitrary: e avbl L A rule: less_induct)
  case less
  show ?case
  proof (cases "avbl > 0")
    case False
    have inv: "length A = m + 2" "L = 1 + above m d e" "level m d e = 0"
      "\<forall>i. m + 2 - L \<le> i \<and> i < m + 2 \<longrightarrow> unat (key A i) \<le> d 0 + 1"
      "kraft_sum (m + 1) (\<lambda>i. unat (key A i)) {m + 2 - L..<m + 2} = 2 ^ (m + 1)"
      using less.prems False by (auto simp: levels_inv_def)
    have "L = m + 2" using inv(2) level_empty [OF assms(1,2) inv(3)] by simp
    then show ?thesis
      using inv False by (subst mr_levels.simps) (simp add: lessThan_atLeast0)
  next
    case True
    obtain B where B:
      "mr_count A e (int m - int (above m d e)) 0 = (int m - int (above m d (Suc e)), level m d e)"
      "mr_assign e (avbl - level m d e) (int m + 1 - int L) A =
        Some (int m + 1 - int (L + (avbl - level m d e)), B)"
      "levels_inv m d (Suc e) (2 * level m d e) (L + (avbl - level m d e)) B"
      "map m_sym_index B = map m_sym_index A"
      by (rule levels_step [OF assms(1,2) less.prems True assms(4)])
    have "(m + 1 - above m d (Suc e)) + (if 2 * level m d e > 0 then 1 else 0) <
        (m + 1 - above m d e) + (if avbl > 0 then 1 else 0)"
      using True above_le [of m d "Suc e"] by (auto simp: above_Suc)
    from less.hyps [OF this B(3)] B(4) show ?thesis
      using True B(1,2) by (subst mr_levels.simps) simp
  qed
qed

section \<open>The whole function\<close>

text \<open>The code lengths are at most the depth of the deepest inner node and one.\<close>

lemma mr_tree_result:
  assumes "2 \<le> n" and "n \<le> 65000" and "length A = n"
  defines "p \<equiv> \<lambda>i. unat (key (mr_link n 1 (0, 2, set_key A 0 (key A 0 + key A 1))) i)"
  shows "\<exists>B d. tdefl_calculate_minimum_redundancy A n = Some B \<and> length B = n \<and>
    map m_sym_index B = map m_sym_index A \<and> links (n - 2) (n - 2) p \<and> depths (n - 2) p d \<and>
    (\<forall>i < n. unat (key B i) \<le> d 0 + 1) \<and> kraft_sum (n - 1) (\<lambda>i. unat (key B i)) {..<n} = 2 ^ (n - 1)"
proof -
  define m where "m = n - 2"
  have n: "n = m + 2" "m < 65000" using assms(1,2) by (simp_all add: m_def)
  let ?A1 = "set_key A 0 (key A 0 + key A 1)"
  let ?A2 = "mr_link n 1 (0, 2, ?A1)"
  let ?A3 = "set_key ?A2 m 0"
  let ?A4 = "mr_depths m ?A3"
  have "mr_inv n 1 (0, 2, ?A1)" using assms(1,3) by (simp add: mr_inv_def links_def)
  then have A2: "length ?A2 = n" "links m m p" "map m_sym_index ?A2 = map m_sym_index A"
    using mr_link_result [of n 1 "(0, 2, ?A1)"] assms(2) by (simp_all add: m_def p_def)
  obtain d where d: "depths m p d" using depths_exist [OF A2(2)] by blast
  have "m < length ?A3" using A2(1) n by simp
  moreover have "unat (key ?A3 i) = p i" if "i < m" for i
    using that A2(1) n by (simp add: key_set_key p_def)
  moreover have "unat (key ?A3 i) = d i" if "m \<le> i" "i \<le> m" for i
    using that A2(1) n d by (simp add: key_set_key depths_def)
  ultimately have A4: "length ?A4 = n" "map m_sym_index ?A4 = map m_sym_index A"
      "\<And>i. i \<le> m \<Longrightarrow> unat (key ?A4 i) = d i"
    using mr_depths_result [OF _ A2(2) _ _ _ _ d, of ?A3 m] A2 n by simp_all
  have "levels_inv m d 0 1 0 ?A4"
    using A4 n level_0 [OF A2(2) d] by (simp add: levels_inv_def kraft_sum_def)
  from mr_levels_result [OF A2(2) d this n(2)] obtain B where
    "mr_levels 1 0 (int m) (int m + 1) ?A4 = Some B" "length B = m + 2"
    "map m_sym_index B = map m_sym_index ?A4" "\<forall>i < m + 2. unat (key B i) \<le> d 0 + 1"
    "kraft_sum (m + 1) (\<lambda>i. unat (key B i)) {..<m + 2} = 2 ^ (m + 1)"
    by auto
  then show ?thesis
    using n A4(2) A2(2) d
    by (intro exI [of _ B] exI [of _ d])
      (simp add: tdefl_calculate_minimum_redundancy_def Let_def numeral_2_eq_2 add.commute [of 1 "int m"])
qed

lemma mr_result:
  assumes "2 \<le> n" and "n \<le> 65000" and "length A = n"
  shows "\<exists>B. tdefl_calculate_minimum_redundancy A n = Some B \<and> length B = n \<and>
    map m_sym_index B = map m_sym_index A \<and> (\<forall>i < n. unat (key B i) \<le> n - 1) \<and>
    kraft_sum (n - 1) (\<lambda>i. unat (key B i)) {..<n} = 2 ^ (n - 1)"
proof -
  obtain B d p where B: "tdefl_calculate_minimum_redundancy A n = Some B" "length B = n"
    "map m_sym_index B = map m_sym_index A" "links (n - 2) (n - 2) p" "depths (n - 2) p d"
    "\<forall>i < n. unat (key B i) \<le> d 0 + 1" "kraft_sum (n - 1) (\<lambda>i. unat (key B i)) {..<n} = 2 ^ (n - 1)"
    using mr_tree_result [OF assms] by blast
  have "d 0 + 1 \<le> n - 1" using depths_bound [OF B(4,5), of 0] assms(1) by simp
  then have "\<forall>i < n. unat (key B i) \<le> n - 1" using B(6) by (blast intro: order_trans)
  then show ?thesis using B(1-3,7) by blast
qed

text \<open>C18: The in-place computation of code lengths ends, and with a complete prefix code.
  For any weights of 2 to 65000 symbols (the sums of weights may wrap in 16 bits) the three
  loops stay inside the array and end; the symbols keep their places, every length is at most
  \<open>n - 1\<close>, and the lengths satisfy Kraft's equality: they use the whole code space, and no more.\<close>

theorem minimum_redundancy_is_complete:
  assumes "2 \<le> n" and "n \<le> 65000" and "length A = n"
  shows "\<exists>B. tdefl_calculate_minimum_redundancy A n = Some B \<and> length B = n \<and>
    map m_sym_index B = map m_sym_index A \<and> (\<forall>i < n. unat (m_key (B ! i)) \<le> n - 1) \<and>
    (\<Sum>i < n. 2 ^ (n - 1 - unat (m_key (B ! i)))) = (2 :: nat) ^ (n - 1)"
  using mr_result [OF assms] unfolding kraft_sum_def .

theorem minimum_redundancy_is_complete_witness:
  "\<exists>B. tdefl_calculate_minimum_redundancy (map (\<lambda>k. \<lparr>m_key = k, m_sym_index = k\<rparr>) [1, 1, 2, 5]) 4 = Some B \<and>
    (\<Sum>i < 4. 2 ^ (3 - unat (m_key (B ! i)))) = (8 :: nat)"
  using minimum_redundancy_is_complete
    [of 4 "map (\<lambda>k. \<lparr>m_key = k, m_sym_index = k\<rparr>) [1, 1, 2, 5]"] by auto

end
