(* ===== verification/Mz_Limit.thy ===== *)
theory Mz_Limit
  imports Prelude
begin

unbundle bit_operations_syntax

text \<open>
  \<open>tdefl_huffman_enforce_max_code_size\<close> of \<open>proj/sparc-prog/miniz.c\<close>: the number of codes of
  each length (\<open>num_codes\<close>, an array of 33) changed so that no code is longer than a limit.
  The loop is a partial function; the lemmas show that it ends, with as many codes as before
  and the whole code space used.
\<close>

section \<open>The code\<close>

definition TDEFL_MAX_SUPPORTED_HUFF_CODESIZE :: nat where
  "TDEFL_MAX_SUPPORTED_HUFF_CODESIZE = 32"

text \<open>The three \<open>for\<close> loops: longer codes cut to the limit, the code space they need, and a
  shorter code that makes room.\<close>

definition limit_clamp :: "nat \<Rightarrow> int list \<Rightarrow> int list" where
  "limit_clamp m num =
    fold (\<lambda>i num. num[m := num ! m + num ! i]) [m + 1..<TDEFL_MAX_SUPPORTED_HUFF_CODESIZE + 1] num"

definition limit_total :: "nat \<Rightarrow> int list \<Rightarrow> u32" where
  "limit_total m num =
    fold (\<lambda>i tot. tot + push_bit (m - i) (word_of_int (num ! i))) (rev [1..<m + 1]) 0"

primrec limit_borrow :: "nat \<Rightarrow> int list \<Rightarrow> int list" where
  "limit_borrow 0 num = num"
| "limit_borrow (Suc i) num =
    (if num ! Suc i \<noteq> 0 then
       let num = num[Suc i := num ! Suc i - 1]
       in num[Suc i + 1 := num ! (Suc i + 1) + 2]
     else limit_borrow i num)"

partial_function (option) limit_loop :: "nat \<Rightarrow> int list \<Rightarrow> u32 \<Rightarrow> int list option" where
  "limit_loop m num tot =
    (if tot \<noteq> push_bit m 1 then
       limit_loop m (limit_borrow (m - 1) (num[m := num ! m - 1])) (tot - 1)
     else Some num)"

definition tdefl_huffman_enforce_max_code_size :: "int list \<Rightarrow> nat \<Rightarrow> nat \<Rightarrow> int list option" where
  "tdefl_huffman_enforce_max_code_size num code_list_len max_code_size =
    (if code_list_len \<le> 1 then Some num
     else
       let num = limit_clamp max_code_size num
       in limit_loop max_code_size num (limit_total max_code_size num))"

section \<open>The code space\<close>

text \<open>The part of the code space, of size \<open>2^m\<close>, that the codes of the lengths in \<open>S\<close> take.\<close>

definition space_in :: "nat \<Rightarrow> int list \<Rightarrow> nat set \<Rightarrow> int" where
  "space_in m c S = (\<Sum>i \<in> S. c ! i * 2 ^ (m - i))"

definition codes_in :: "int list \<Rightarrow> nat set \<Rightarrow> int" where
  "codes_in c S = (\<Sum>i \<in> S. c ! i)"

definition counts :: "int list \<Rightarrow> bool" where
  "counts c \<longleftrightarrow> length c = 33 \<and> (\<forall>i < 33. 0 \<le> c ! i)"

lemma space_in_last: "0 < m \<Longrightarrow> space_in m c {1..m} = space_in m c {1..<m} + c ! m"
  by (cases m) (simp_all add: space_in_def atLeastLessThanSuc_atLeastAtMost [symmetric])

lemma codes_in_last: "0 < m \<Longrightarrow> codes_in c {1..m} = codes_in c {1..<m} + c ! m"
  by (cases m) (simp_all add: codes_in_def atLeastLessThanSuc_atLeastAtMost [symmetric])

lemma sum_update:
  fixes g :: "nat \<Rightarrow> int"
  assumes "finite S" and "i \<in> S" and "i < length c"
  shows "(\<Sum>k \<in> S. c[i := c ! i + v] ! k * g k) = (\<Sum>k \<in> S. c ! k * g k) + v * g i"
proof -
  have "(\<Sum>k \<in> S. c[i := c ! i + v] ! k * g k) =
      (c ! i + v) * g i + (\<Sum>k \<in> S - {i}. c[i := c ! i + v] ! k * g k)"
    using assms by (simp add: sum.remove)
  also have "(\<Sum>k \<in> S - {i}. c[i := c ! i + v] ! k * g k) = (\<Sum>k \<in> S - {i}. c ! k * g k)"
    by (rule sum.cong) simp_all
  also have "(c ! i + v) * g i + \<dots> = (\<Sum>k \<in> S. c ! k * g k) + v * g i"
    using assms by (simp add: sum.remove algebra_simps)
  finally show ?thesis .
qed

lemma sum_update_outside:
  fixes g :: "nat \<Rightarrow> int"
  assumes "i \<notin> S"
  shows "(\<Sum>k \<in> S. c[i := v] ! k * g k) = (\<Sum>k \<in> S. c ! k * g k)"
proof (rule sum.cong [OF refl])
  show "c[i := v] ! k * g k = c ! k * g k" if "k \<in> S" for k
    using that assms by (cases "k = i") simp_all
qed

text \<open>What the borrowing does: one code of a length \<open>j < m\<close> becomes two of length \<open>j + 1\<close>.\<close>

lemma limit_borrow_result:
  assumes "\<exists>j. 0 < j \<and> j \<le> i \<and> c ! j \<noteq> 0"
  shows "\<exists>j. 0 < j \<and> j \<le> i \<and> c ! j \<noteq> 0 \<and>
    limit_borrow i c = c[j := c ! j + (- 1), Suc j := c[j := c ! j + (- 1)] ! Suc j + 2]"
  using assms
proof (induction i)
  case 0
  then show ?case by auto
next
  case (Suc i)
  show ?case
  proof (cases "c ! Suc i = 0")
    case True
    then have "\<exists>j. 0 < j \<and> j \<le> i \<and> c ! j \<noteq> 0" using Suc.prems le_Suc_eq by auto
    from Suc.IH [OF this] show ?thesis using True by (auto intro: le_SucI)
  next
    case False
    then show ?thesis by (intro exI [of _ "Suc i"]) (simp add: Let_def)
  qed
qed

section \<open>The loop\<close>

definition limit_inv :: "nat \<Rightarrow> int \<Rightarrow> int list \<Rightarrow> bool" where
  "limit_inv m n c \<longleftrightarrow> counts c \<and> 0 < m \<and> m < 31 \<and> codes_in c {1..m} = n \<and> n \<le> 2 ^ m \<and>
     space_in m c {1..<m} \<le> 2 ^ m \<and> 2 ^ m \<le> space_in m c {1..m}"

text \<open>A round of the loop takes one unit of code space and keeps the number of codes.\<close>

lemma limit_round:
  assumes inv: "limit_inv m n c" and more: "space_in m c {1..m} \<noteq> 2 ^ m"
  defines "c' \<equiv> limit_borrow (m - 1) (c[m := c ! m - 1])"
  shows "limit_inv m n c'" and "space_in m c' {1..m} = space_in m c {1..m} - 1"
proof -
  define b where "b = c[m := c ! m + (- 1)]"
  have m: "0 < m" "m < 31" and len: "length c = 33" using inv by (simp_all add: limit_inv_def counts_def)
  have cm: "1 \<le> c ! m" using inv more space_in_last [OF m(1), of c] by (auto simp: limit_inv_def)
  have b: "b ! k = (if k = m then c ! m - 1 else c ! k)" for k
    using m len by (auto simp: b_def nth_list_update)
  have "\<exists>j. 0 < j \<and> j \<le> m - 1 \<and> b ! j \<noteq> 0"
  proof (rule ccontr)
    assume none: "\<not> ?thesis"
    have z: "c ! j = 0" if "j \<in> {1..<m}" for j
    proof -
      have "0 < j" "j \<le> m - 1" using that by auto
      then have "b ! j = 0" using none by blast
      then show ?thesis using that b [of j] by simp
    qed
    then have "space_in m c {1..<m} = 0" "codes_in c {1..<m} = 0" by (simp_all add: space_in_def codes_in_def)
    then have "space_in m c {1..m} = n"
      using inv space_in_last [OF m(1), of c] codes_in_last [OF m(1), of c] by (simp add: limit_inv_def)
    then show False using inv more by (simp add: limit_inv_def)
  qed
  then obtain j where j: "0 < j" "j < m" "b ! j \<noteq> 0"
    "c' = b[j := b ! j + (- 1), Suc j := b[j := b ! j + (- 1)] ! Suc j + 2]"
    using limit_borrow_result [of "m - 1" b] m by (auto simp: c'_def b_def)
  have p: "(2 :: int) ^ (m - j) = 2 * 2 ^ (m - Suc j)"
    using j(2) power_Suc [of "2 :: int" "m - Suc j"] by (simp add: Suc_diff_Suc)
  let ?b1 = "b[j := b ! j + (- 1)]"
  have all: "(\<Sum>k \<in> {1..m}. c' ! k * g k) = (\<Sum>k \<in> {1..m}. c ! k * g k) - g m - g j + 2 * g (Suc j)" for g
  proof -
    have "(\<Sum>k \<in> {1..m}. c' ! k * g k) = (\<Sum>k \<in> {1..m}. ?b1 ! k * g k) + 2 * g (Suc j)"
      unfolding j(4) using j m len by (intro sum_update) (simp_all add: b_def)
    also have "(\<Sum>k \<in> {1..m}. ?b1 ! k * g k) = (\<Sum>k \<in> {1..m}. b ! k * g k) + (- 1) * g j"
      using j m len by (intro sum_update) (simp_all add: b_def)
    also have "(\<Sum>k \<in> {1..m}. b ! k * g k) = (\<Sum>k \<in> {1..m}. c ! k * g k) + (- 1) * g m"
      unfolding b_def using m len by (intro sum_update) simp_all
    finally show ?thesis by simp
  qed
  show space: "space_in m c' {1..m} = space_in m c {1..m} - 1"
    using all [of "\<lambda>k. 2 ^ (m - k)"] p by (simp add: space_in_def)
  have "codes_in c' {1..m} = codes_in c {1..m}" using all [of "\<lambda>_. 1"] by (simp add: codes_in_def)
  moreover have "space_in m c' {1..<m} \<le> space_in m c {1..<m}"
  proof -
    have "(\<Sum>k \<in> {1..<m}. c' ! k * 2 ^ (m - k)) \<le> (\<Sum>k \<in> {1..<m}. ?b1 ! k * 2 ^ (m - k)) + 2 ^ (m - j)"
    proof (cases "Suc j < m")
      case True
      then show ?thesis
        unfolding j(4) using j m len p by (subst sum_update) (simp_all add: b_def)
    next
      case False
      then show ?thesis unfolding j(4) by (subst sum_update_outside) simp_all
    qed
    also have "(\<Sum>k \<in> {1..<m}. ?b1 ! k * 2 ^ (m - k)) = (\<Sum>k \<in> {1..<m}. b ! k * 2 ^ (m - k)) + (- 1) * 2 ^ (m - j)"
      using j m len by (intro sum_update) (simp_all add: b_def)
    also have "(\<Sum>k \<in> {1..<m}. b ! k * 2 ^ (m - k)) = (\<Sum>k \<in> {1..<m}. c ! k * 2 ^ (m - k))"
      unfolding b_def by (rule sum_update_outside) simp
    finally show ?thesis by (simp add: space_in_def)
  qed
  moreover have "counts c'"
  proof -
    have nonneg: "0 \<le> c ! k" if "k < 33" for k using inv that by (simp add: limit_inv_def counts_def)
    have "c ! j \<noteq> 0" using j b [of j] by simp
    then have "1 \<le> c ! j" using nonneg [of j] j m by simp
    then have "0 \<le> c' ! k" if "k < 33" for k
      using that cm nonneg [of k] j(1,2) m len b unfolding j(4) by (auto simp: nth_list_update b_def)
    then show ?thesis using len by (simp add: counts_def j(4) b_def)
  qed
  moreover have "2 ^ m \<le> space_in m c' {1..m}"
    using inv more unfolding space limit_inv_def by linarith
  ultimately show "limit_inv m n c'" using inv by (simp add: limit_inv_def)
qed

lemma limit_loop_result:
  assumes "limit_inv m n c" and "uint w = space_in m c {1..m}"
  shows "\<exists>c'. limit_loop m c w = Some c' \<and> limit_inv m n c' \<and> space_in m c' {1..m} = 2 ^ m"
  using assms
proof (induction "nat (space_in m c {1..m} - 2 ^ m)" arbitrary: c w rule: less_induct)
  case less
  have m: "m < 31" and ge: "2 ^ m \<le> space_in m c {1..m}" using less.prems by (simp_all add: limit_inv_def)
  have "(2 :: int) ^ m < 2 ^ 32" using m by (intro power_strict_increasing) simp_all
  moreover have "(push_bit m 1 :: u32) = word_of_int (2 ^ m)" by (simp add: push_bit_of_1)
  ultimately have "uint (push_bit m 1 :: u32) = 2 ^ m" by (simp only: uint_word_of_int) simp
  then have end_: "w = push_bit m 1 \<longleftrightarrow> space_in m c {1..m} = 2 ^ m"
    using less.prems(2) by (simp add: word_uint_eq_iff)
  show ?case
  proof (cases "space_in m c {1..m} = 2 ^ m")
    case True
    then show ?thesis using end_ less.prems by (subst limit_loop.simps) simp
  next
    case False
    let ?c = "limit_borrow (m - 1) (c[m := c ! m - 1])"
    have "1 \<le> space_in m c {1..m}" using ge by (rule order_trans [rotated]) simp
    then have "(1 :: u32) \<le> w" using less.prems(2) unfolding word_le_def by simp
    then have "uint (w - 1) = uint w - 1" by (simp add: uint_sub_if' word_le_def)
    then have w: "uint (w - 1) = space_in m ?c {1..m}"
      using limit_round(2) [OF less.prems(1) False] less.prems(2) by simp
    have "nat (space_in m ?c {1..m} - 2 ^ m) < nat (space_in m c {1..m} - 2 ^ m)"
      using limit_round(2) [OF less.prems(1) False] ge False by simp
    from less.hyps [OF this limit_round(1) [OF less.prems(1) False] w] show ?thesis
      using False end_ by (subst limit_loop.simps) simp
  qed
qed

section \<open>Before the loop\<close>

text \<open>Cutting the long codes: the lengths below the limit keep their numbers.\<close>

lemma limit_clamp_result:
  assumes "counts c" and "m < 32"
  shows "limit_clamp m c = c[m := \<Sum>i \<in> {m..32}. c ! i]"
proof -
  have "fold (\<lambda>i num. num[m := num ! m + num ! i]) [m + 1..<k + 1] c = c[m := \<Sum>i \<in> {m..k}. c ! i]"
    if "m \<le> k" "k \<le> 32" for k
    using that
  proof (induction k)
    case 0
    then show ?case by simp
  next
    case (Suc k)
    show ?case
    proof (cases "m = Suc k")
      case True
      then show ?thesis by simp
    next
      case False
      have len: "m < length c" using assms by (simp add: counts_def)
      have "[m + 1..<Suc k + 1] = [m + 1..<k + 1] @ [Suc k]" using Suc.prems False by simp
      then show ?thesis using Suc False len by (simp add: sum.nat_ivl_Suc')
    qed
  qed
  from this [of 32] show ?thesis
    using assms(2) by (simp add: limit_clamp_def TDEFL_MAX_SUPPORTED_HUFF_CODESIZE_def)
qed

lemma limit_total_result:
  assumes "counts c" and "m < 31" and "space_in m c {1..m} < 2 ^ 32"
  shows "uint (limit_total m c) = space_in m c {1..m}"
proof -
  have fold: "fold (\<lambda>i tot. tot + push_bit (m - i) (word_of_int (c ! i))) is (w :: u32) =
      w + word_of_int (\<Sum>i \<leftarrow> is. c ! i * 2 ^ (m - i))" for "is" w
    by (induction "is" arbitrary: w) (simp_all add: push_bit_eq_mult ac_simps)
  have "(\<Sum>i \<leftarrow> rev [1..<m + 1]. c ! i * 2 ^ (m - i)) = space_in m c {1..m}"
    by (simp add: rev_map [symmetric] sum_list_distinct_conv_sum_set space_in_def
        atLeastLessThanSuc_atLeastAtMost del: upt_Suc)
  moreover have "0 \<le> space_in m c {1..m}"
    unfolding space_in_def using assms(1,2) by (intro sum_nonneg mult_nonneg_nonneg) (auto simp: counts_def)
  ultimately show ?thesis
    using assms(3) unfolding limit_total_def fold by (simp add: uint_word_of_int)
qed

lemma clamp_inv:
  assumes c: "counts c" "space_in 32 c {1..32} = 2 ^ 32" and m: "0 < m" "m < 31"
    and n: "codes_in c {1..32} \<le> 2 ^ m"
  shows "limit_inv m (codes_in c {1..32}) (limit_clamp m c)"
proof -
  let ?d = "c[m := \<Sum>i \<in> {m..32}. c ! i]"
  have len: "m < length c" using c m by (simp add: counts_def)
  have nonneg: "0 \<le> c ! i" if "i \<le> 32" for i using c(1) that by (simp add: counts_def)
  have parts: "(\<Sum>i \<in> {1..32}. f i) = (\<Sum>i \<in> {1..<m}. f i) + (\<Sum>i \<in> {m..32}. f i)" for f :: "nat \<Rightarrow> int"
    using sum.atLeastLessThan_concat [of 1 m 33 f] m
    by (simp add: atLeastLessThanSuc_atLeastAtMost [symmetric] numeral_eq_Suc)
  have d: "?d ! i = c ! i" if "i \<noteq> m" for i using that by simp
  have low: "space_in m ?d {1..<m} = space_in m c {1..<m}" "codes_in ?d {1..<m} = codes_in c {1..<m}"
    by (simp_all add: space_in_def codes_in_def)
  have scale: "space_in m c {1..<m} * 2 ^ (32 - m) = space_in 32 c {1..<m}"
    unfolding space_in_def sum_distrib_right
  proof (rule sum.cong [OF refl])
    fix i assume "i \<in> {1..<m}"
    then have "32 - i = (m - i) + (32 - m)" using m by simp
    then show "c ! i * 2 ^ (m - i) * 2 ^ (32 - m) = c ! i * 2 ^ (32 - i)" by (simp add: power_add)
  qed
  have p: "(2 :: int) ^ 32 = 2 ^ m * 2 ^ (32 - m)" using m by (simp flip: power_add)
  have "0 \<le> (\<Sum>i \<in> {m..32}. c ! i * 2 ^ (32 - i))" using nonneg by (intro sum_nonneg) simp
  then have "space_in 32 c {1..<m} \<le> 2 ^ 32"
    using c(2) parts [of "\<lambda>i. c ! i * 2 ^ (32 - i)"] by (simp add: space_in_def)
  then have "space_in m c {1..<m} * 2 ^ (32 - m) \<le> 2 ^ m * 2 ^ (32 - m)" unfolding scale p .
  then have "space_in m ?d {1..<m} \<le> 2 ^ m" unfolding low by (rule mult_right_le_imp_le) simp
  moreover have "2 ^ m \<le> space_in m ?d {1..m}"
  proof -
    have "(\<Sum>i \<in> {m..32}. c ! i * 2 ^ (32 - i)) \<le> (\<Sum>i \<in> {m..32}. c ! i * 2 ^ (32 - m))"
      using nonneg by (intro sum_mono mult_left_mono power_increasing) auto
    then have "2 ^ 32 \<le> space_in 32 c {1..<m} + (\<Sum>i \<in> {m..32}. c ! i) * 2 ^ (32 - m)"
      using c(2) parts [of "\<lambda>i. c ! i * 2 ^ (32 - i)"] by (simp add: space_in_def sum_distrib_right)
    also have "\<dots> = space_in m ?d {1..m} * 2 ^ (32 - m)"
      using len unfolding space_in_last [OF m(1)] low scale [symmetric] by (simp add: distrib_right)
    finally show ?thesis unfolding p by (rule mult_right_le_imp_le) simp
  qed
  moreover have "codes_in ?d {1..m} = codes_in c {1..32}"
    using len parts [of "\<lambda>i. c ! i"] unfolding codes_in_last [OF m(1)] low by (simp add: codes_in_def)
  moreover have "counts ?d"
    using c(1) nonneg m len by (auto simp: counts_def nth_list_update intro!: sum_nonneg)
  ultimately show ?thesis
    using m n c(1) by (simp add: limit_inv_def limit_clamp_result)
qed

lemma enforce_result:
  assumes "counts c" and "(\<Sum>i \<in> {1..32}. c ! i * 2 ^ (32 - i)) = 2 ^ 32"
    and "0 < m" and "m < 31" and "2 \<le> n" and "int n = (\<Sum>i \<in> {1..32}. c ! i)" and "n \<le> 2 ^ m"
  shows "\<exists>c'. tdefl_huffman_enforce_max_code_size c n m = Some c' \<and> counts c' \<and>
    (\<Sum>i \<in> {1..m}. c' ! i) = int n \<and> (\<Sum>i \<in> {1..m}. c' ! i * 2 ^ (m - i)) = 2 ^ m"
proof -
  have n: "int n = codes_in c {1..32}" using assms(6) by (simp add: codes_in_def)
  have "int n \<le> 2 ^ m" using assms(7) by (metis of_nat_le_iff of_nat_numeral of_nat_power)
  then have inv: "limit_inv m (int n) (limit_clamp m c)"
    using clamp_inv [OF assms(1) _ assms(3,4)] assms(2) n by (simp add: space_in_def)
  have "limit_clamp m c ! m \<le> int n"
  proof -
    have "0 \<le> codes_in (limit_clamp m c) {1..<m}"
      using inv assms(4) unfolding codes_in_def by (intro sum_nonneg) (simp add: limit_inv_def counts_def)
    then show ?thesis using codes_in_last [OF assms(3), of "limit_clamp m c"] inv by (simp add: limit_inv_def)
  qed
  then have "space_in m (limit_clamp m c) {1..m} \<le> 2 ^ m + 2 ^ m"
    using inv space_in_last [OF assms(3), of "limit_clamp m c"] unfolding limit_inv_def by linarith
  also have "(2 :: int) ^ m + 2 ^ m = 2 ^ Suc m" by simp
  also have "\<dots> < 2 ^ 32" using assms(4) by (intro power_strict_increasing) simp_all
  finally have "uint (limit_total m (limit_clamp m c)) = space_in m (limit_clamp m c) {1..m}"
    using inv by (intro limit_total_result) (simp_all add: limit_inv_def)
  from limit_loop_result [OF inv this] show ?thesis
    using assms(5)
    by (auto simp: tdefl_huffman_enforce_max_code_size_def limit_inv_def codes_in_def space_in_def Let_def)
qed

text \<open>Limiting the lengths of a Huffman code ends and keeps the code complete.  From the numbers
  of codes of each length of a complete code (Kraft's sum is 1) with at least two and at most
  \<open>2^m\<close> codes, the function makes the numbers of a code with as many codes, none longer than
  \<open>m\<close>, none of its numbers negative, that again uses exactly the whole code space.\<close>

theorem enforced_code_is_complete:
  assumes "counts c" and "(\<Sum>i \<in> {1..32}. c ! i * 2 ^ (32 - i)) = 2 ^ 32"
    and "0 < m" and "m < 31" and "2 \<le> n" and "int n = (\<Sum>i \<in> {1..32}. c ! i)" and "n \<le> 2 ^ m"
  shows "\<exists>c'. tdefl_huffman_enforce_max_code_size c n m = Some c' \<and> counts c' \<and>
    (\<Sum>i \<in> {1..m}. c' ! i) = int n \<and> (\<Sum>i \<in> {1..m}. c' ! i * 2 ^ (m - i)) = 2 ^ m"
  using enforce_result [OF assms] .

definition demo_counts :: "int list" where
  "demo_counts = [0, 1, 1, 1, 1, 2] @ replicate 27 0"

theorem enforced_code_is_complete_witness:
  "\<exists>c'. tdefl_huffman_enforce_max_code_size demo_counts 6 3 = Some c' \<and>
    (\<Sum>i \<in> {1..3}. c' ! i) = 6 \<and> (\<Sum>i \<in> {1..3}. c' ! i * 2 ^ (3 - i)) = 8"
proof -
  have i: "{1..32 :: nat} = set [1..<33]" by auto
  have "counts demo_counts" by (auto simp: counts_def demo_counts_def nth_append nth_Cons split: nat.split)
  moreover have "(\<Sum>i \<in> {1..32}. demo_counts ! i * 2 ^ (32 - i)) = 2 ^ 32" "int 6 = (\<Sum>i \<in> {1..32}. demo_counts ! i)"
    unfolding i by (simp_all add: demo_counts_def upt_rec)
  ultimately show ?thesis using enforced_code_is_complete [of demo_counts 3 6] by auto
qed

end
