(* ===== verification/Mz_Canonical.thy ===== *)
theory Mz_Canonical
  imports Mz_Huffman
begin

unbundle bit_operations_syntax

text \<open>
  The second half of \<open>tdefl_optimize_huffman_table\<close>: from the number of codes of each length
  to codes no one of which begins with another.
\<close>

section \<open>The first code of each length\<close>

primrec first_code :: "int list \<Rightarrow> nat \<Rightarrow> int" where
  "first_code num 0 = 0"
| "first_code num (Suc i) = (if i = 0 then 0 else (first_code num i + num ! i) * 2)"

lemma first_code_space:
  assumes "0 < b"
  shows "first_code num b + num ! b = space_in b num {1..b}"
  using assms
proof (induction b)
  case 0
  then show ?case by simp
next
  case (Suc b)
  show ?case
  proof (cases b)
    case 0
    then show ?thesis by (simp add: space_in_def)
  next
    case (Suc b')
    have "space_in (Suc b) num {1..b} = space_in b num {1..b} * 2"
      unfolding space_in_def sum_distrib_right by (rule sum.cong) (simp_all add: Suc_diff_le)
    moreover have "space_in (Suc b) num {1..Suc b} = space_in (Suc b) num {1..b} + num ! Suc b"
      by (simp add: space_in_def)
    ultimately show ?thesis using Suc.IH Suc by simp
  qed
qed

lemma first_code_grows:
  assumes "counts num" and "0 < a" and "a < b" and "b \<le> 32"
  shows "(first_code num a + num ! a) * 2 ^ (b - a) \<le> first_code num b"
  using assms(3,4)
proof (induction b)
  case 0
  then show ?case by simp
next
  case (Suc b)
  show ?case
  proof (cases "a = b")
    case True
    then show ?thesis using assms(2) by simp
  next
    case False
    then have ab: "a < b" "0 < b" using Suc.prems by simp_all
    have "0 \<le> num ! b" using assms(1) Suc.prems by (simp add: counts_def)
    then have "(first_code num a + num ! a) * 2 ^ (b - a) \<le> first_code num b + num ! b"
      using Suc.IH ab Suc.prems by simp
    then have "(first_code num a + num ! a) * 2 ^ (b - a) * 2 \<le> (first_code num b + num ! b) * 2"
      by simp
    then show ?thesis using ab by (simp add: Suc_diff_le less_imp_le algebra_simps)
  qed
qed

lemma first_code_nonneg:
  assumes "counts num" and "b \<le> 32"
  shows "0 \<le> first_code num b"
  using assms(2) by (induction b) (use assms(1) in \<open>auto simp: counts_def\<close>)

lemma first_code_bound:
  assumes "counts num" and "0 < b" and "b \<le> m" and "m \<le> 32" and "space_in m num {1..m} \<le> 2 ^ m"
  shows "first_code num b + num ! b \<le> 2 ^ b"
proof (cases "b = m")
  case True
  then show ?thesis using first_code_space [of m num] assms by simp
next
  case False
  have "(first_code num b + num ! b) * 2 ^ (m - b) \<le> first_code num m"
    using first_code_grows [OF assms(1,2), of m] False assms by simp
  also have "\<dots> \<le> first_code num m + num ! m" using assms by (simp add: counts_def)
  also have "\<dots> \<le> 2 ^ m" using first_code_space [of m num] assms by simp
  also have "(2 :: int) ^ m = 2 ^ b * 2 ^ (m - b)" using assms by (simp flip: power_add)
  finally show ?thesis by (rule mult_right_le_imp_le) simp
qed

lemma huff_next_codes_result:
  assumes "0 < a" and "a \<le> b"
  shows "huff_next_codes [Suc a..<Suc b] num (first_code num a) nc ! i =
    (if a < i \<and> i \<le> b \<and> i < length nc then word_of_int (first_code num i) else nc ! i)"
  using assms
proof (induction "b - a" arbitrary: a nc)
  case 0
  then show ?case by auto
next
  case (Suc k)
  have u: "[Suc a..<Suc b] = Suc a # [Suc (Suc a)..<Suc b]" using Suc.hyps(2) by (simp add: upt_conv_Cons del: upt_Suc)
  let ?v = "first_code num (Suc a)"
  have "huff_next_codes [Suc a..<Suc b] num (first_code num a) nc =
      huff_next_codes [Suc (Suc a)..<Suc b] num ?v (nc[Suc a := word_of_int ?v])"
    unfolding u using Suc.prems by (simp add: Let_def del: upt_Suc)
  also have "\<dots> ! i = (if Suc a < i \<and> i \<le> b \<and> i < length nc then word_of_int (first_code num i)
      else nc[Suc a := word_of_int ?v] ! i)"
    using Suc.hyps(1) [of "Suc a" "nc[Suc a := word_of_int ?v]"] Suc.prems Suc.hyps(2)
    by (simp del: first_code.simps upt_Suc)
  also have "\<dots> = (if a < i \<and> i \<le> b \<and> i < length nc then word_of_int (first_code num i) else nc ! i)"
    using Suc.hyps(2) by (cases "i = Suc a"; cases "i < length nc") (auto simp: list_update_beyond not_less simp del: first_code.simps)
  finally show ?case .
qed

lemma length_huff_next_codes: "length (huff_next_codes is num j nc) = length nc"
  by (induction "is" arbitrary: j nc) (simp_all add: Let_def)

text \<open>The table that the code starts from.\<close>

lemma next_codes_start:
  assumes "0 < i" and "i \<le> m" and "m \<le> 32"
  shows "huff_next_codes [2..<m + 1] num 0 (replicate 33 0) ! i = word_of_int (first_code num i)"
  using huff_next_codes_result [of 1 m num "replicate 33 0" i] assms
  by (cases "i = 1") (auto simp: numeral_2_eq_2 simp del: upt_Suc)

section \<open>Reversed codes\<close>

lemma no_high_bits:
  fixes z :: "'a :: len word"
  assumes "unat z < 2 ^ c" and "c \<le> j"
  shows "\<not> bit z j"
proof
  assume "bit z j"
  then have "bit (unat z) j" by (simp add: bit_unsigned_iff bit_imp_le_length)
  moreover have "take_bit c (unat z) = unat z" using assms(1) by (simp add: take_bit_nat_eq_self_iff)
  ultimately show False using assms(2) by (metis bit_take_bit_iff not_less)
qed

lemma bit_huff_reverse:
  assumes "k < 32"
  shows "bit (huff_reverse l code r) k = (if k < l then bit code (l - 1 - k) else bit r (k - l))"
  using assms
proof (induction l arbitrary: code r)
  case 0
  then show ?case by simp
next
  case (Suc l)
  show ?case
  proof (cases "k < l")
    case True
    then have "Suc (l - Suc k) = l - k" by simp
    then show ?thesis using Suc True by (simp add: bit_drop_bit_eq less_SucI)
  next
    case False
    show ?thesis
    proof (cases "k = l")
      case True
      then show ?thesis using Suc.IH [OF Suc.prems] by (simp add: bit_0 even_or_iff even_and_iff)
    next
      case False': False
      then have "k - l = Suc (k - Suc l)" "k - Suc l < 31" using False Suc.prems by simp_all
      then show ?thesis
        using Suc.IH [OF Suc.prems] Suc.prems False False'
        by (simp add: bit_or_iff bit_and_iff bit_1_iff bit_double_iff mult.commute [of r 2])
    qed
  qed
qed

text \<open>The code \<open>x\<close> of length \<open>a\<close> as the stream has it, first bit lowest.\<close>

definition stream_code :: "nat \<Rightarrow> u32 \<Rightarrow> u16" where
  "stream_code a x = ucast (huff_reverse a x 0)"

lemma bit_stream_code:
  "a \<le> 16 \<Longrightarrow> bit (stream_code a x) k \<longleftrightarrow> k < a \<and> bit x (a - 1 - k)"
  by (cases "k < 16")
    (auto simp: stream_code_def bit_ucast_iff bit_huff_reverse dest: bit_imp_le_length)

lemma stream_code_bound: "a \<le> 15 \<Longrightarrow> unat (stream_code a x) < 2 ^ a"
proof -
  assume a: "a \<le> 15"
  have "take_bit a (stream_code a x) = stream_code a x"
    using a by (intro bit_word_eqI) (auto simp: bit_take_bit_iff bit_stream_code)
  then show ?thesis
    by (metis take_bit_nat_eq_self_iff unsigned_take_bit_eq)
qed

lemma stream_code_prefix:
  assumes "a \<le> b" and "b \<le> 15" and "unat x < 2 ^ a" and "unat y < 2 ^ b"
    and "take_bit a (stream_code b y) = stream_code a x"
  shows "unat y div 2 ^ (b - a) = unat x"
proof -
  have "drop_bit (b - a) y = x"
  proof (rule bit_word_eqI)
    fix j assume "j < LENGTH(32)"
    show "bit (drop_bit (b - a) y) j = bit x j"
    proof (cases "j < a")
      case True
      have "bit (take_bit a (stream_code b y)) (a - 1 - j) = bit (stream_code a x) (a - 1 - j)"
        using assms(5) by simp
      moreover have "b - Suc (a - Suc j) = b - a + j" "a - Suc (a - Suc j) = j" "a - Suc j < b" using True assms(1) by simp_all
      ultimately show ?thesis
        using True assms(1,2) by (simp add: bit_take_bit_iff bit_stream_code bit_drop_bit_eq)
    next
      case False
      then show ?thesis
        using no_high_bits [OF assms(3), of j] no_high_bits [OF assms(4), of "b - a + j"] assms(1)
        by (simp add: bit_drop_bit_eq)
    qed
  qed
  then show ?thesis by (metis drop_bit_eq_div unsigned_drop_bit_eq unsigned_take_bit_eq take_bit_length_eq)
qed

section \<open>The codes of a table\<close>

text \<open>The symbols below \<open>n\<close> of a length, and the place of a symbol among those of its length.\<close>

abbreviation syms_of :: "nat \<Rightarrow> u8 list \<Rightarrow> nat \<Rightarrow> nat set" where
  "syms_of n sizes k \<equiv> {s. s < n \<and> unat (sizes ! s) = k}"

definition code_of :: "u32 list \<Rightarrow> u8 list \<Rightarrow> nat \<Rightarrow> u32" where
  "code_of nc sizes t = nc ! unat (sizes ! t) + of_nat (card (syms_of t sizes (unat (sizes ! t))))"

lemma give_codes_append:
  "huff_give_codes (xs @ ys) sizes nc = huff_give_codes ys sizes (huff_give_codes xs sizes nc)"
  by (induction xs arbitrary: nc) (auto simp: Let_def split: prod.split)

lemma length_huff_give_codes [simp]: "length (snd (huff_give_codes is sizes nc)) = length (snd nc)"
  by (induction "is" arbitrary: nc) (auto simp: Let_def split: prod.split)

lemma card_syms_of_Suc:
  "card (syms_of (Suc n) sizes k) = (if unat (sizes ! n) = k then 1 else 0) + card (syms_of n sizes k)"
proof -
  have "syms_of (Suc n) sizes k =
      (if unat (sizes ! n) = k then insert n (syms_of n sizes k) else syms_of n sizes k)"
    by (auto simp: less_Suc_eq)
  then show ?thesis by simp
qed

lemma give_codes_result:
  assumes "n \<le> length codes" and "\<forall>s < n. unat (sizes ! s) < length nc"
    and "huff_give_codes [0..<n] sizes (nc, codes) = (nc', codes')"
  shows "length nc' = length nc \<and> length codes' = length codes \<and>
    (\<forall>k. 0 < k \<longrightarrow> k < length nc \<longrightarrow> nc' ! k = nc ! k + of_nat (card (syms_of n sizes k))) \<and>
    (\<forall>t < n. sizes ! t \<noteq> 0 \<longrightarrow> codes' ! t = stream_code (unat (sizes ! t)) (code_of nc sizes t))"
  using assms
proof (induction n arbitrary: nc' codes')
  case 0
  then show ?case by simp
next
  case (Suc n)
  obtain nc1 codes1 where one: "huff_give_codes [0..<n] sizes (nc, codes) = (nc1, codes1)" by fastforce
  have IH: "length nc1 = length nc" "length codes1 = length codes"
    "\<And>k. 0 < k \<Longrightarrow> k < length nc \<Longrightarrow> nc1 ! k = nc ! k + of_nat (card (syms_of n sizes k))"
    "\<And>t. t < n \<Longrightarrow> sizes ! t \<noteq> 0 \<Longrightarrow> codes1 ! t = stream_code (unat (sizes ! t)) (code_of nc sizes t)"
    using Suc.IH [OF _ _ one] Suc.prems by simp_all
  let ?k = "unat (sizes ! n)"
  have k: "?k < length nc" and n: "n < length codes" using Suc.prems by simp_all
  have step: "(nc', codes') = (if ?k = 0 then (nc1, codes1)
      else (nc1[?k := nc1 ! ?k + 1], codes1[n := stream_code ?k (nc1 ! ?k)]))"
    using Suc.prems(3) one by (auto simp: give_codes_append Let_def stream_code_def split: if_splits)
  show ?case
  proof (cases "?k = 0")
    case True
    then show ?thesis using step IH unfolding card_syms_of_Suc by (auto elim!: less_SucE simp: unat_eq_0)
  next
    case False
    have c: "nc1 ! ?k = code_of nc sizes n" using IH(3) [of ?k] False k by (simp add: code_of_def)
    have "nc' ! i = nc ! i + of_nat (card (syms_of (Suc n) sizes i))" if "0 < i" "i < length nc" for i
      using step False IH(1) IH(3) [OF that] that k unfolding card_syms_of_Suc by (auto simp: nth_list_update)
    then show ?thesis
      using step False IH(1,2,4) c n by (auto simp: nth_list_update elim!: less_SucE)
  qed
qed

text \<open>A table of lengths with the number of its codes, which fit into the code space.\<close>

definition table_counts :: "nat \<Rightarrow> nat \<Rightarrow> u8 list \<Rightarrow> int list \<Rightarrow> bool" where
  "table_counts m n sizes num \<longleftrightarrow> counts num \<and> m \<le> 15 \<and> space_in m num {1..m} \<le> 2 ^ m \<and>
     (\<forall>s < n. unat (sizes ! s) \<le> m) \<and> (\<forall>k. 0 < k \<longrightarrow> k \<le> m \<longrightarrow> num ! k = int (card (syms_of n sizes k)))"

text \<open>What a table of codes should be: no code begins with the code of another symbol.\<close>

definition prefix_free :: "nat \<Rightarrow> u8 list \<Rightarrow> u16 list \<Rightarrow> bool" where
  "prefix_free n sizes codes \<longleftrightarrow> (\<forall>s < n. \<forall>t < n. s \<noteq> t \<longrightarrow> sizes ! s \<noteq> 0 \<longrightarrow> sizes ! s \<le> sizes ! t \<longrightarrow>
     take_bit (unat (sizes ! s)) (codes ! t) \<noteq> codes ! s)"

text \<open>The codes as numbers: those of length \<open>k\<close> start at \<open>first_code num k\<close>.\<close>

lemma code_of_value:
  assumes tc: "table_counts m n sizes num" and t: "t < n" "sizes ! t \<noteq> 0"
    and nc: "\<forall>k. 0 < k \<longrightarrow> k \<le> m \<longrightarrow> nc ! k = word_of_int (first_code num k)"
  defines "k \<equiv> unat (sizes ! t)"
  shows "int (unat (code_of nc sizes t)) = first_code num k + int (card (syms_of t sizes k))"
    and "int (card (syms_of t sizes k)) < num ! k" and "int (unat (code_of nc sizes t)) < 2 ^ k"
proof -
  have k: "0 < k" "k \<le> m" "m \<le> 15"
    using tc t by (auto simp: table_counts_def k_def unat_gt_0)
  have "insert t (syms_of t sizes k) \<subseteq> syms_of n sizes k" using t by (auto simp: k_def)
  then have "card (insert t (syms_of t sizes k)) \<le> card (syms_of n sizes k)" by (intro card_mono) simp_all
  then show r: "int (card (syms_of t sizes k)) < num ! k"
    using tc k by (simp add: table_counts_def)
  have "0 \<le> first_code num k" using tc k by (intro first_code_nonneg) (auto simp: table_counts_def)
  moreover have "first_code num k + num ! k \<le> 2 ^ k"
    using tc k by (intro first_code_bound [of num k m]) (auto simp: table_counts_def)
  moreover have "(2 :: int) ^ k \<le> 2 ^ 15" using k by (intro power_increasing) simp_all
  moreover define v where "v = first_code num k + int (card (syms_of t sizes k))"
  ultimately have "0 \<le> v" "v < 2 ^ 32" using r by simp_all
  moreover have "code_of nc sizes t = word_of_int v"
    using nc k by (simp add: code_of_def k_def v_def)
  ultimately have "uint (code_of nc sizes t) = v" by (simp only: uint_word_of_int) simp
  then show "int (unat (code_of nc sizes t)) = first_code num k + int (card (syms_of t sizes k))"
    by (simp add: v_def)
  then show "int (unat (code_of nc sizes t)) < 2 ^ k" using r \<open>first_code num k + num ! k \<le> 2 ^ k\<close> by simp
qed

lemma codes_differ:
  assumes tc: "table_counts m n sizes num" and s: "s < n" "sizes ! s \<noteq> 0" and t: "t < n" "s \<noteq> t"
    and le: "sizes ! s \<le> sizes ! t"
    and nc: "\<forall>k. 0 < k \<longrightarrow> k \<le> m \<longrightarrow> nc ! k = word_of_int (first_code num k)"
  shows "unat (code_of nc sizes t) div 2 ^ (unat (sizes ! t) - unat (sizes ! s)) \<noteq> unat (code_of nc sizes s)"
proof -
  let ?a = "unat (sizes ! s)" and ?b = "unat (sizes ! t)"
  have t0: "sizes ! t \<noteq> 0" using s le by (auto simp: word_le_nat_alt unat_eq_0)
  note S = code_of_value [OF tc s nc] and T = code_of_value [OF tc t(1) t0 nc]
  have ab: "0 < ?a" "?a \<le> ?b" "?b \<le> m" "m \<le> 15"
    using tc s t le by (auto simp: table_counts_def word_le_nat_alt unat_gt_0)
  show ?thesis
  proof (cases "?a = ?b")
    case True
    have "card (syms_of s sizes ?a) < card (syms_of t sizes ?a)" if "s < t"
      using that by (intro psubset_card_mono) auto
    moreover have "card (syms_of t sizes ?a) < card (syms_of s sizes ?a)" if "t < s"
      using that True by (intro psubset_card_mono) auto
    ultimately have "int (unat (code_of nc sizes t)) \<noteq> int (unat (code_of nc sizes s))"
      using t(2) unfolding S(1) T(1) True by (cases "s < t") auto
    then have "unat (code_of nc sizes t) \<noteq> unat (code_of nc sizes s)" by (simp only: of_nat_eq_iff not_False_eq_True)
    then show ?thesis using True by simp
  next
    case False
    then have "(first_code num ?a + num ! ?a) * 2 ^ (?b - ?a) \<le> first_code num ?b"
      using tc ab by (intro first_code_grows) (auto simp: table_counts_def)
    then have "(first_code num ?a + num ! ?a) * 2 ^ (?b - ?a) \<le> int (unat (code_of nc sizes t))"
      using T(1) by simp
    then have "first_code num ?a + num ! ?a \<le> int (unat (code_of nc sizes t)) div 2 ^ (?b - ?a)"
      by (metis zdiv_mono1 nonzero_mult_div_cancel_right zero_less_power zero_less_numeral less_irrefl)
    also have "\<dots> = int (unat (code_of nc sizes t) div 2 ^ (?b - ?a))" by (simp add: zdiv_int)
    finally show ?thesis using S(1,2) by linarith
  qed
qed

text \<open>The canonical code of a symbol, as RFC 1951 defines it from the lengths alone.\<close>

definition size_counts :: "nat \<Rightarrow> u8 list \<Rightarrow> int list" where
  "size_counts n sizes = map (\<lambda>k. int (card (syms_of n sizes k))) [0..<33]"

definition canonical_code :: "nat \<Rightarrow> u8 list \<Rightarrow> nat \<Rightarrow> u16" where
  "canonical_code n sizes s =
    (let k = unat (sizes ! s)
     in stream_code k (word_of_int (first_code (size_counts n sizes) k + int (card (syms_of s sizes k)))))"

lemma first_code_cong:
  "(\<And>i. 0 < i \<Longrightarrow> i < k \<Longrightarrow> a ! i = b ! i) \<Longrightarrow> first_code a k = first_code b k"
  by (induction k) simp_all

lemma code_of_canonical:
  assumes "table_counts m n sizes num" and "t < n" and "sizes ! t \<noteq> 0"
    and "\<forall>k. 0 < k \<longrightarrow> k \<le> m \<longrightarrow> nc ! k = word_of_int (first_code num k)"
  shows "stream_code (unat (sizes ! t)) (code_of nc sizes t) = canonical_code n sizes t"
proof -
  let ?k = "unat (sizes ! t)"
  have k: "0 < ?k" "?k \<le> m" "m \<le> 15" using assms by (auto simp: table_counts_def unat_gt_0)
  have "first_code num ?k = first_code (size_counts n sizes) ?k"
    using assms(1) k by (intro first_code_cong) (simp add: table_counts_def size_counts_def)
  then show ?thesis
    using assms(4) k by (simp add: canonical_code_def code_of_def Let_def)
qed

lemma huff_assign_codes_result:
  assumes "table_counts m n (m_huff_code_sizes d ! k) num" and "n \<le> length (m_huff_codes d ! k)"
    and "k < length (m_huff_codes d)"
  shows "prefix_free n (m_huff_code_sizes d ! k) (m_huff_codes (huff_assign_codes k n m num d) ! k)"
    and "\<forall>s < n. m_huff_code_sizes d ! k ! s \<noteq> 0 \<longrightarrow>
      unat (m_huff_codes (huff_assign_codes k n m num d) ! k ! s) < 2 ^ unat (m_huff_code_sizes d ! k ! s)"
    and "\<forall>s < n. m_huff_code_sizes d ! k ! s \<noteq> 0 \<longrightarrow>
      m_huff_codes (huff_assign_codes k n m num d) ! k ! s = canonical_code n (m_huff_code_sizes d ! k) s"
proof -
  let ?sizes = "m_huff_code_sizes d ! k"
  let ?nc = "huff_next_codes [2..<m + 1] num 0 (replicate 33 0)"
  have nc: "\<forall>i. 0 < i \<longrightarrow> i \<le> m \<longrightarrow> ?nc ! i = word_of_int (first_code num i)"
    using assms(1) by (intro allI impI next_codes_start) (simp_all add: table_counts_def)
  have len: "length ?nc = 33" by (simp add: length_huff_next_codes del: upt_Suc)
  have le: "unat (?sizes ! s) \<le> m" "m \<le> 15" if "s < n" for s using assms(1) that by (simp_all add: table_counts_def)
  obtain nc' codes' where g: "huff_give_codes [0..<n] ?sizes (?nc, m_huff_codes d ! k) = (nc', codes')" by fastforce
  have c: "m_huff_codes (huff_assign_codes k n m num d) ! k = codes'"
    using g assms(3) by (simp add: huff_assign_codes_def Let_def del: upt_Suc)
  have *: "codes' ! t = stream_code (unat (?sizes ! t)) (code_of ?nc ?sizes t)" if "t < n" "?sizes ! t \<noteq> 0" for t
    using give_codes_result [OF assms(2) _ g] that le len by fastforce
  have b: "unat (code_of ?nc ?sizes t) < 2 ^ unat (?sizes ! t)" if "t < n" "?sizes ! t \<noteq> 0" for t
    using code_of_value(3) [OF assms(1) that nc] by (metis of_nat_less_iff of_nat_numeral of_nat_power)
  show "prefix_free n ?sizes (m_huff_codes (huff_assign_codes k n m num d) ! k)"
    unfolding prefix_free_def c
  proof (intro allI impI notI)
    fix s t assume st: "s < n" "t < n" "s \<noteq> t" "?sizes ! s \<noteq> 0" "?sizes ! s \<le> ?sizes ! t"
      and eq: "take_bit (unat (?sizes ! s)) (codes' ! t) = codes' ! s"
    have t0: "?sizes ! t \<noteq> 0" using st by (auto simp: word_le_nat_alt unat_eq_0)
    have "unat (?sizes ! s) \<le> unat (?sizes ! t)" "unat (?sizes ! t) \<le> 15"
      using st(5) le [OF st(2)] by (simp_all add: word_le_nat_alt)
    from stream_code_prefix [OF this b [OF st(1,4)] b [OF st(2) t0]] eq
    show False using codes_differ [OF assms(1) st(1,4,2,3,5) nc] * st t0 by simp
  qed
  show "\<forall>s < n. ?sizes ! s \<noteq> 0 \<longrightarrow>
      m_huff_codes (huff_assign_codes k n m num d) ! k ! s = canonical_code n ?sizes s"
    unfolding c using * code_of_canonical [OF assms(1) _ _ nc] by simp
  show "\<forall>s < n. ?sizes ! s \<noteq> 0 \<longrightarrow>
      unat (m_huff_codes (huff_assign_codes k n m num d) ! k ! s) < 2 ^ unat (?sizes ! s)"
    unfolding c
  proof (intro allI impI)
    fix s assume s: "s < n" "?sizes ! s \<noteq> 0"
    then show "unat (codes' ! s) < 2 ^ unat (?sizes ! s)"
      using le [OF s(1)] by (simp add: * stream_code_bound)
  qed
qed

end
