(* ===== verification/Mz_Weights.thy ===== *)
theory Mz_Weights
  imports Mz_MinRed
begin

text \<open>
  The depth of the tree that \<open>tdefl_calculate_minimum_redundancy\<close> of \<open>proj/sparc-prog/miniz.c\<close>
  builds: when the weights are sorted, positive and together below 65536, no sum wraps, the
  weight of a node at least doubles every two levels towards the root, and no code is longer than
  30 bits.  So the array of 33 counts in \<open>tdefl_optimize_huffman_table\<close> is large enough.
\<close>

section \<open>The smallest remaining weight\<close>

text \<open>Remaining are the inner nodes from \<open>root\<close> up to \<open>next\<close> and the leaves from \<open>leaf\<close> on.\<close>

definition rest_sum :: "nat \<Rightarrow> nat \<Rightarrow> (nat \<Rightarrow> nat) \<Rightarrow> (nat \<Rightarrow> nat) \<Rightarrow> nat \<Rightarrow> nat \<Rightarrow> nat" where
  "rest_sum n next W w root leaf = (\<Sum>i \<in> {root..<next}. W i) + (\<Sum>j \<in> {leaf..<n}. w j)"

definition rest_min :: "nat \<Rightarrow> nat \<Rightarrow> (nat \<Rightarrow> nat) \<Rightarrow> (nat \<Rightarrow> nat) \<Rightarrow> nat \<Rightarrow> nat \<Rightarrow> nat \<Rightarrow> bool" where
  "rest_min n next W w root leaf x \<longleftrightarrow> (\<forall>i. root \<le> i \<longrightarrow> i < next \<longrightarrow> x \<le> W i) \<and> (\<forall>j. leaf \<le> j \<longrightarrow> j < n \<longrightarrow> x \<le> w j)"

definition takes_inner :: "nat \<Rightarrow> nat \<Rightarrow> (nat \<Rightarrow> nat) \<Rightarrow> (nat \<Rightarrow> nat) \<Rightarrow> nat \<Rightarrow> nat \<Rightarrow> bool" where
  "takes_inner n next W w root leaf \<longleftrightarrow> n \<le> leaf \<or> (root < next \<and> W root < w leaf)"

lemma take_inner:
  assumes "takes_inner n next W w root leaf" and "root < next"
    and "\<And>i j. i \<le> j \<Longrightarrow> j < next \<Longrightarrow> W i \<le> W j" and "\<And>i j. i \<le> j \<Longrightarrow> j < n \<Longrightarrow> w i \<le> w j"
  shows "rest_min n next W w root leaf (W root)"
    and "rest_sum n next W w root leaf = W root + rest_sum n next W w (root + 1) leaf"
proof -
  have "W root \<le> w j" if "leaf \<le> j" "j < n" for j
    using assms(1) assms(4) [OF that] that by (auto simp: takes_inner_def)
  then show "rest_min n next W w root leaf (W root)" using assms(3) by (simp add: rest_min_def)
  show "rest_sum n next W w root leaf = W root + rest_sum n next W w (root + 1) leaf"
    using assms(2) by (simp add: rest_sum_def sum.atLeast_Suc_lessThan)
qed

lemma take_leaf:
  assumes "\<not> takes_inner n next W w root leaf"
    and "\<And>i j. i \<le> j \<Longrightarrow> j < next \<Longrightarrow> W i \<le> W j" and "\<And>i j. i \<le> j \<Longrightarrow> j < n \<Longrightarrow> w i \<le> w j"
  shows "rest_min n next W w root leaf (w leaf)"
    and "rest_sum n next W w root leaf = w leaf + rest_sum n next W w root (leaf + 1)"
proof -
  have "w leaf \<le> W i" if "root \<le> i" "i < next" for i
    using assms(1) assms(2) [OF that] that by (auto simp: takes_inner_def)
  then show "rest_min n next W w root leaf (w leaf)" using assms(3) by (simp add: rest_min_def)
  show "rest_sum n next W w root leaf = w leaf + rest_sum n next W w root (leaf + 1)"
    using assms(1) by (simp add: rest_sum_def takes_inner_def sum.atLeast_Suc_lessThan)
qed

section \<open>The weights of the inner nodes\<close>

text \<open>
  \<open>W\<close> are the weights that the inner nodes had when they were made, \<open>mx\<close> is the last weight taken:
  what was taken is at most \<open>mx\<close>, what remains at least.  A linked node is lighter than its
  parent by at least the weight of each of its own children.
\<close>

definition weighed :: "nat \<Rightarrow> nat \<Rightarrow> (nat \<Rightarrow> nat) \<Rightarrow> (nat \<Rightarrow> nat) \<Rightarrow> nat \<Rightarrow> nat \<Rightarrow> nat \<Rightarrow> nat \<Rightarrow>
    tdefl_sym_freq list \<Rightarrow> bool" where
  "weighed n T w W mx next root leaf A \<longleftrightarrow>
     (\<forall>i. root \<le> i \<longrightarrow> i < next \<longrightarrow> unat (key A i) = W i) \<and>
     (\<forall>j. leaf \<le> j \<longrightarrow> j < n \<longrightarrow> unat (key A j) = w j) \<and>
     (\<forall>i j. i \<le> j \<longrightarrow> j < next \<longrightarrow> W i \<le> W j) \<and>
     (\<forall>c < root. W c \<le> mx) \<and> rest_min n next W w root leaf mx \<and> W (next - 1) \<le> 2 * mx \<and>
     rest_sum n next W w root leaf = T \<and> (\<forall>i < next. 2 \<le> W i) \<and>
     (\<forall>i < root. unat (key A i) < next \<and> W i + 1 \<le> W (unat (key A i)) \<and>
        (\<forall>c < i. unat (key A c) = i \<longrightarrow> W i + W c \<le> W (unat (key A i))))"

text \<open>One of the two choices of a round: the key of the new node grows by the weight taken.\<close>

definition pick :: "nat \<Rightarrow> nat \<Rightarrow> nat \<times> nat \<times> tdefl_sym_freq list \<Rightarrow> u16 \<Rightarrow> nat \<times> nat \<times> tdefl_sym_freq list" where
  "pick n next = (\<lambda>(root, leaf, A) v.
     if leaf \<ge> n \<or> (root < next \<and> key A root < key A leaf) then
       (root + 1, leaf, set_key (set_key A next (v + key A root)) root (of_nat next))
     else (root, leaf + 1, set_key A next (v + key A leaf)))"

lemma mr_first_pick: "root < next \<Longrightarrow> mr_first n next (root, leaf, A) = pick n next (root, leaf, A) 0"
  by (simp add: mr_first_def pick_def Let_def)

lemma mr_second_pick: "mr_second n next (root, leaf, A) = pick n next (root, leaf, A) (key A next)"
  by (simp add: mr_second_def pick_def Let_def)

text \<open>What a choice does, as long as the sums do not wrap.\<close>

lemma pick_result:
  assumes "length A = n" and "root \<le> next" and "next < leaf" and "next < n" and "leaf \<le> n" and "leaf < n \<or> root < next"
    and W: "\<And>i. root \<le> i \<Longrightarrow> i < next \<Longrightarrow> unat (key A i) = W i" "\<And>i j. i \<le> j \<Longrightarrow> j < next \<Longrightarrow> W i \<le> W j"
    and w: "\<And>j. leaf \<le> j \<Longrightarrow> j < n \<Longrightarrow> unat (key A j) = w j" "\<And>i j. i \<le> j \<Longrightarrow> j < n \<Longrightarrow> w i \<le> w j"
    and v: "unat v + rest_sum n next W w root leaf < 65536"
  shows "\<exists>root' leaf' B x. pick n next (root, leaf, A) v = (root', leaf', B) \<and> length B = n \<and>
    root \<le> root' \<and> root' \<le> root + 1 \<and> root' \<le> next \<and> leaf' \<le> n \<and> root' + leaf' = root + leaf + 1 \<and>
    unat (key B next) = unat v + x \<and> rest_min n next W w root leaf x \<and>
    rest_sum n next W w root leaf = x + rest_sum n next W w root' leaf' \<and>
    (\<forall>i. i \<noteq> next \<longrightarrow> \<not> (root \<le> i \<and> i < root') \<longrightarrow> key B i = key A i) \<and>
    (root' = root + 1 \<longrightarrow> x = W root \<and> key B root = of_nat next) \<and>
    (root' = root \<longrightarrow> x = w leaf \<and> leaf < n)"
proof (cases "takes_inner n next W w root leaf")
  case True
  have r: "root < next" using True assms(6) by (auto simp: takes_inner_def)
  have c: "leaf \<ge> n \<or> (root < next \<and> key A root < key A leaf)"
    using True W(1) [of root] w(1) [of leaf] r
    by (cases "leaf < n") (auto simp: takes_inner_def word_less_nat_alt)
  let ?B = "set_key (set_key A next (v + key A root)) root (of_nat next)"
  have p: "pick n next (root, leaf, A) v = (root + 1, leaf, ?B)" using c by (simp add: pick_def)
  note M = take_inner [OF True r W(2) w(2), simplified]
  have "unat (v + key A root) = unat v + W root"
    using v M(2) W(1) [of root] r by (simp add: unat_word_ariths)
  then have "unat (key ?B next) = unat v + W root" using assms(1,4) r by (simp add: key_set_key)
  then show ?thesis
    using p M r assms(1-5) by (intro exI [of _ "root + 1"] exI [of _ leaf] exI [of _ ?B] exI [of _ "W root"])
      (auto simp: key_set_key)
next
  case False
  have l: "leaf < n" using False assms(5) by (auto simp: takes_inner_def)
  have c: "\<not> (leaf \<ge> n \<or> (root < next \<and> key A root < key A leaf))"
    using False W(1) [of root] w(1) [of leaf] l by (auto simp: takes_inner_def word_less_nat_alt)
  let ?B = "set_key A next (v + key A leaf)"
  have p: "pick n next (root, leaf, A) v = (root, leaf + 1, ?B)" using c by (simp only: pick_def prod.case if_False)
  note M = take_leaf [OF False W(2) w(2), simplified]
  have "unat (v + key A leaf) = unat v + w leaf"
    using v M(2) w(1) [of leaf] l by (simp add: unat_word_ariths)
  then have "unat (key ?B next) = unat v + w leaf" using assms(1,4) by (simp add: key_set_key)
  then show ?thesis
    using p M l assms(1-5) by (intro exI [of _ root] exI [of _ "leaf + 1"] exI [of _ ?B] exI [of _ "w leaf"])
      (auto simp: key_set_key)
qed

lemma rest_min_mono: "rest_min n next W w root leaf x \<Longrightarrow> root \<le> r \<Longrightarrow> leaf \<le> l \<Longrightarrow> rest_min n next W w r l x"
  by (simp add: rest_min_def)

lemma weighed_round:
  assumes inv: "mr_inv n next (root, leaf, A)" and h: "weighed n T w W mx next root leaf A"
    and nx: "next < n - 1" "n \<le> 65000" and T: "T < 65536" and sorted: "\<forall>i j. i \<le> j \<longrightarrow> j < n \<longrightarrow> w i \<le> w j"
    and s: "mr_second n next (mr_first n next (root, leaf, A)) = (root', leaf', B)"
  shows "\<exists>W mx. weighed n T w W mx (next + 1) root' leaf' B"
proof -
  have w: "w i \<le> w j" if "i \<le> j" "j < n" for i j using sorted that by blast
  have I: "length A = n" "1 \<le> next" "root + leaf = 2 * next" "root < next" "leaf \<le> n"
    using inv by (simp_all add: mr_inv_def)
  have H: "\<And>i. root \<le> i \<Longrightarrow> i < next \<Longrightarrow> unat (key A i) = W i" "\<And>j. leaf \<le> j \<Longrightarrow> j < n \<Longrightarrow> unat (key A j) = w j"
    "\<And>i j. i \<le> j \<Longrightarrow> j < next \<Longrightarrow> W i \<le> W j" "\<And>c. c < root \<Longrightarrow> W c \<le> mx" "rest_min n next W w root leaf mx"
    "W (next - 1) \<le> 2 * mx" "rest_sum n next W w root leaf = T" "\<And>i. i < next \<Longrightarrow> 2 \<le> W i"
    "\<And>i. i < root \<Longrightarrow> unat (key A i) < next \<and> W i + 1 \<le> W (unat (key A i)) \<and>
        (\<forall>c < i. unat (key A c) = i \<longrightarrow> W i + W c \<le> W (unat (key A i)))"
    using h by (simp_all add: weighed_def)
  have nl: "next < leaf" "next < n" using I nx by simp_all
  have "leaf < n \<or> root < next" using I(4) by simp
  from pick_result [OF I(1) _ nl I(5) this H(1,3) H(2) w, of 0] I(4) H(7) T
  obtain r1 l1 A1 x where P1: "pick n next (root, leaf, A) 0 = (r1, l1, A1)" "length A1 = n" "root \<le> r1" "r1 \<le> root + 1"
    "r1 \<le> next" "l1 \<le> n" "r1 + l1 = root + leaf + 1" "unat (key A1 next) = x" "rest_min n next W w root leaf x"
    "T = x + rest_sum n next W w r1 l1"
    "\<And>i. i \<noteq> next \<Longrightarrow> \<not> (root \<le> i \<and> i < r1) \<Longrightarrow> key A1 i = key A i"
    "r1 = root + 1 \<Longrightarrow> x = W root \<and> key A1 root = of_nat next" "r1 = root \<Longrightarrow> x = w leaf \<and> leaf < n"
    by auto
  have l1: "leaf \<le> l1" "l1 \<le> leaf + 1" "r1 = root \<or> r1 = root + 1" using P1(3,4,7) by linarith+
  have k1: "unat (key A1 i) = W i" if "r1 \<le> i" "i < next" for i
    using P1(11) [of i] H(1) [of i] that P1(3) by simp
  have k2: "unat (key A1 j) = w j" if "l1 \<le> j" "j < n" for j
    using P1(11) [of j] H(2) [of j] that l1 nl(1) P1(5) by simp
  have nl1: "next < l1" "l1 < n \<or> r1 < next" using nl l1 I P1(6,7) nx by linarith+
  have "unat (key A1 next) + rest_sum n next W w r1 l1 < 65536" using P1(8,10) T by simp
  from pick_result [OF P1(2,5) nl1(1) nl(2) P1(6) nl1(2) k1 H(3) k2 w this]
  obtain r2 l2 A2 y where P2: "pick n next (r1, l1, A1) (key A1 next) = (r2, l2, A2)" "length A2 = n" "r1 \<le> r2" "r2 \<le> r1 + 1"
    "r2 \<le> next" "l2 \<le> n" "r2 + l2 = r1 + l1 + 1" "unat (key A2 next) = x + y" "rest_min n next W w r1 l1 y"
    "rest_sum n next W w r1 l1 = y + rest_sum n next W w r2 l2"
    "\<And>i. i \<noteq> next \<Longrightarrow> \<not> (r1 \<le> i \<and> i < r2) \<Longrightarrow> key A2 i = key A1 i"
    "r2 = r1 + 1 \<Longrightarrow> y = W r1 \<and> key A2 r1 = of_nat next" "r2 = r1 \<Longrightarrow> y = w l1 \<and> l1 < n"
    using P1(8) by auto
  have l2: "l1 \<le> l2" "r2 = r1 \<or> r2 = r1 + 1" using P2(3,4,7) by linarith+
  have e: "root' = r2" "leaf' = l2" "B = A2"
    using s mr_first_pick [OF I(4), of n leaf A] mr_second_pick [of n "next" r1 l1 A1] P1(1) P2(1) by simp_all
  have mxx: "mx \<le> x" using H(5) P1(12,13) l1(3) I(4) by (auto simp: rest_min_def)
  have xy: "x \<le> y" using P1(9) P2(12,13) l1 l2 P1(3) P2(5) by (auto simp: rest_min_def)
  have mx1: "1 \<le> mx" using H(6) H(8) [of "next - 1"] I(2) by simp
  define W' where "W' = W(next := x + y)"
  have nw: "unat (of_nat next :: u16) = next" using nx by (intro unat_of_nat_less) simp
  have old: "W' i = W i" if "i < next" for i using that by (simp add: W'_def)
  have new: "W' next = x + y" by (simp add: W'_def)
  have k3: "key A2 i = key A i" if "i < root" for i
    using that P1(3,5,11) P2(11) I(4) by simp
  have linked: "W i = x \<or> W i = y" "unat (key A2 i) = next" if "root \<le> i" "i < r2" for i
  proof -
    have "(i = root \<and> r1 = root + 1) \<or> (i = r1 \<and> r2 = r1 + 1)" using that l1(3) l2(2) by linarith
    then have "(W i = x \<or> W i = y) \<and> unat (key A2 i) = next"
    proof
      assume i: "i = root \<and> r1 = root + 1"
      then have "key A2 i = key A1 i" using P2(11) [of i] I(4) by simp
      then show ?thesis using i P1(12) nw by simp
    qed (use P2(12) nw in simp)
    then show "W i = x \<or> W i = y" "unat (key A2 i) = next" by simp_all
  qed
  have mono: "W' i \<le> W' j" if "i \<le> j" "j < next + 1" for i j
  proof (cases "j = next")
    case True
    have "W i \<le> W (next - 1)" if "i < next" using H(3) [of i "next - 1"] I(2) that by simp
    then have "W i \<le> x + y" if "i < next" using H(6) mxx xy that by simp
    moreover have "i < next \<or> i = next" using that by linarith
    ultimately have "W' i \<le> x + y" using new old [of i] by auto
    then show ?thesis unfolding True new .
  next
    case False
    then show ?thesis using H(3) [of i j] old [of i] old [of j] that by simp
  qed
  have "weighed n T w W' y (next + 1) r2 l2 A2"
    unfolding weighed_def
  proof (intro conjI allI impI)
    show "unat (key A2 i) = W' i" if "r2 \<le> i" "i < next + 1" for i
      using that P2(8) new old [of i] k1 [of i] P2(3) P2(11) [of i] by (cases "i = next") simp_all
    show "unat (key A2 j) = w j" if "l2 \<le> j" "j < n" for j
      using that k2 [of j] P2(11) [of j] l2(1) nl1(1) P2(5) by simp
    show "W' i \<le> W' j" if "i \<le> j" "j < next + 1" for i j using mono that .
    show "W' c \<le> y" if "c < r2" for c
      using that linked(1) [of c] H(4) [of c] old [of c] mxx xy P2(5) by (cases "c < root") auto
    show "rest_min n (next + 1) W' w r2 l2 y"
      using P2(9) P2(3) l2(1) new old by (auto simp: rest_min_def less_Suc_eq)
    show "W' (next + 1 - 1) \<le> 2 * y" using new xy by simp
    have "(\<Sum>i \<in> {r2..<next}. W' i) = (\<Sum>i \<in> {r2..<next}. W i)" using old by (intro sum.cong) simp_all
    then show "rest_sum n (next + 1) W' w r2 l2 = T"
      using P1(10) P2(5,10) new by (simp add: rest_sum_def)
    show "2 \<le> W' i" if "i < next + 1" for i
      using that new old [of i] H(8) [of i] mx1 mxx xy by (cases "i = next") simp_all
    show "unat (key A2 i) < next + 1" if "i < r2" for i
      using that linked(2) [of i] k3 [of i] H(9) [of i] by (cases "i < root") auto
    show "W' i + 1 \<le> W' (unat (key A2 i))" if "i < r2" for i
      using that linked [of i] k3 [of i] H(9) [of i] old [of i] old [of "unat (key A i)"] new P2(5) mx1 mxx xy
      by (cases "i < root") auto
    show "W' i + W' c \<le> W' (unat (key A2 i))" if "i < r2" "c < i" "unat (key A2 c) = i" for i c
    proof (cases "i < root")
      case True
      then show ?thesis
        using that k3 [of i] k3 [of c] H(9) [of i] old [of i] old [of c] old [of "unat (key A i)"] I(4) by simp
    next
      case False
      have "c < root" using linked(2) [of c] that P2(5) by (cases "c < root") auto
      then have "W c \<le> mx" by (rule H(4))
      then show ?thesis
        using that False linked [of i] old [of i] old [of c] new P2(5) mxx xy by auto
    qed
  qed
  then show ?thesis unfolding e by blast
qed

section \<open>The depth\<close>

lemma mr_link_weighed:
  assumes "mr_inv n next s" and "weighed n T w W mx next (fst s) (fst (snd s)) (snd (snd s))"
    and "n \<le> 65000" and "T < 65536" and "\<forall>i j. i \<le> j \<longrightarrow> j < n \<longrightarrow> w i \<le> w j"
  shows "\<exists>W mx. weighed n T w W mx (n - 1) (n - 2) n (mr_link n next s)"
  using assms(1,2,3,5)
proof (induction n "next" s arbitrary: W mx rule: mr_link.induct)
  case (1 n "next" s)
  obtain root leaf A where s: "s = (root, leaf, A)" by (cases s)
  show ?case
  proof (cases "next < n - 1")
    case True
    obtain r l B where b: "mr_second n next (mr_first n next s) = (r, l, B)" by (metis prod_cases3)
    have "\<exists>W1 mx1. weighed n T w W1 mx1 (next + 1) r l B"
    proof (rule weighed_round)
      show "mr_inv n next (root, leaf, A)" "weighed n T w W mx next root leaf A" using 1(2,3) by (simp_all add: s)
      show "mr_second n next (mr_first n next (root, leaf, A)) = (r, l, B)" using b by (simp add: s)
    qed (use True 1(4,5) assms(4) in simp_all)
    then obtain W1 mx1 where "weighed n T w W1 mx1 (next + 1) r l B" by blast
    then show ?thesis
      using "1.IH" [OF True mr_pick(1) [OF 1(2) True]] 1(4,5) True b by (subst mr_link.simps) auto
  next
    case False
    have "next = n - 1" "root + leaf = 2 * next" "root < next" "leaf \<le> n"
      using False 1(2) by (simp_all add: mr_inv_def s)
    then have "root = n - 2" "leaf = n" by simp_all
    then show ?thesis
      using 1(3) False \<open>next = n - 1\<close> by (subst mr_link.simps) (auto simp: s)
  qed
qed

text \<open>Weights double every two levels towards the root.\<close>

lemma weight_doubles:
  assumes l: "links m m p" and d: "depths m p d"
    and up: "\<And>i. i < m \<Longrightarrow> W i \<le> W (p i)" and two: "\<And>i c. i < m \<Longrightarrow> c < i \<Longrightarrow> p c = i \<Longrightarrow> W i + W c \<le> W (p i)"
    and i: "i \<le> m" and mono: "\<And>i j. i \<le> j \<Longrightarrow> j \<le> m \<Longrightarrow> W i \<le> W (j :: nat)"
  shows "W i * 2 ^ (d i div 2) \<le> (W m :: nat)"
  using i
proof (induction "d i" arbitrary: i rule: less_induct)
  case less
  show ?case
  proof (cases "d i < 2")
    case True
    then show ?thesis using mono [of i m] less.prems by simp
  next
    case False
    have im: "i < m" using False d less.prems by (cases "i = m") (auto simp: depths_def)
    then have q: "d i = d (p i) + 1" "i < p i" "p i \<le> m" using l d by (simp_all add: links_def depths_def)
    then have qm: "p i < m" using False d by (cases "p i = m") (auto simp: depths_def)
    then have r: "d (p i) = d (p (p i)) + 1" "p (p i) \<le> m" using l d by (simp_all add: links_def depths_def)
    have "W (p (p i)) * 2 ^ (d (p (p i)) div 2) \<le> W m" using less.hyps [of "p (p i)"] q(1) r by simp
    moreover have "2 * W i \<le> W (p (p i))" using two [OF qm q(2) refl] up [OF im] by simp
    then have "(2 * W i) * 2 ^ (d (p (p i)) div 2) \<le> W (p (p i)) * 2 ^ (d (p (p i)) div 2)" by (rule mult_le_mono1)
    ultimately have le: "(2 * W i) * 2 ^ (d (p (p i)) div 2) \<le> W m" by (rule order_trans [rotated])
    have "d i div 2 = Suc (d (p (p i)) div 2)" using q(1) r(1) by simp
    then have "W i * 2 ^ (d i div 2) = (2 * W i) * 2 ^ (d (p (p i)) div 2)" by (simp only: power_Suc ac_simps)
    then show ?thesis using le by (simp only:)
  qed
qed

lemma mr_short_codes:
  assumes n: "2 \<le> n" "n \<le> 65000" "length A = n" and sorted: "sorted (map (\<lambda>s. unat (m_key s)) A)"
    and pos: "\<forall>s \<in> set A. m_key s \<noteq> 0" and total: "(\<Sum>s \<leftarrow> A. unat (m_key s)) < 65536"
    and B: "tdefl_calculate_minimum_redundancy A n = Some B" "i < n"
  shows "unat (key B i) \<le> 30"
proof -
  define w where "w = (\<lambda>i. unat (key A i))"
  define T where "T = (\<Sum>s \<leftarrow> A. unat (m_key s))"
  let ?A1 = "set_key A 0 (key A 0 + key A 1)"
  let ?L = "mr_link n 1 (0, 2, ?A1)"
  have ws: "\<forall>i j. i \<le> j \<longrightarrow> j < n \<longrightarrow> w i \<le> w j"
    using sorted_nth_mono [OF sorted] n(3) by (simp add: w_def)
  have wp: "1 \<le> w i" if "i < n" for i
    using pos nth_mem [of i A] that n(3) by (simp add: w_def Suc_le_eq unat_gt_0)
  have T: "T = (\<Sum>i \<in> {0..<n}. w i)"
    using n(3) by (simp add: T_def w_def sum_list_sum_nth)
  also have "\<dots> = w 0 + w 1 + (\<Sum>i \<in> {2..<n}. w i)"
    using n(1) by (simp add: sum.atLeast_Suc_lessThan numeral_2_eq_2)
  finally have T': "T = w 0 + w 1 + (\<Sum>i \<in> {2..<n}. w i)" .
  have T16: "T < 65536" using total by (simp add: T_def)
  have "unat (key A 0 + key A 1) = w 0 + w 1" using T' T16 by (simp add: w_def unat_word_ariths)
  then have k: "unat (key ?A1 0) = w 0 + w 1" "\<And>j. 2 \<le> j \<Longrightarrow> unat (key ?A1 j) = w j"
    using n by (simp_all add: key_set_key w_def)
  have "weighed n T w (\<lambda>_. w 0 + w 1) (w 1) 1 0 2 ?A1"
    unfolding weighed_def rest_min_def rest_sum_def
    using k n T' ws wp [of 0] wp [of 1] by (auto simp: less_Suc_eq)
  then have start: "weighed n T w (\<lambda>_. w 0 + w 1) (w 1) 1 (fst (0, 2, ?A1)) (fst (snd (0, 2, ?A1))) (snd (snd (0, 2, ?A1)))"
    by simp
  have "mr_inv n 1 (0, 2, ?A1)" using n by (simp add: mr_inv_def links_def)
  from mr_link_weighed [OF this start n(2) T16 ws] obtain W mx where W: "weighed n T w W mx (n - 1) (n - 2) n ?L"
    by blast
  obtain B' d where d: "tdefl_calculate_minimum_redundancy A n = Some B'"
    "links (n - 2) (n - 2) (\<lambda>i. unat (key ?L i))" "depths (n - 2) (\<lambda>i. unat (key ?L i)) d"
    "\<forall>i < n. unat (key B' i) \<le> d 0 + 1"
    using mr_tree_result [OF n] by blast
  have H: "\<And>i j. i \<le> j \<Longrightarrow> j \<le> n - 2 \<Longrightarrow> W i \<le> W j" "rest_sum n (n - 1) W w (n - 2) n = T" "2 \<le> W 0"
    "\<And>i. i < n - 2 \<Longrightarrow> W i + 1 \<le> W (unat (key ?L i)) \<and>
        (\<forall>c < i. unat (key ?L c) = i \<longrightarrow> W i + W c \<le> W (unat (key ?L i)))"
    using W n(1) by (auto simp: weighed_def)
  have e: "{n - 2..<n - 1} = {n - 2}" using n(1) by auto
  have Wm: "W (n - 2) = T" using H(2) unfolding rest_sum_def e by simp
  have "W 0 * 2 ^ (d 0 div 2) \<le> W (n - 2)"
  proof (rule weight_doubles [OF d(2,3)])
    show "W i \<le> W (unat (key ?L i))" if "i < n - 2" for i using H(4) [OF that] by simp
    show "W i + W c \<le> W (unat (key ?L i))" if "i < n - 2" "c < i" "unat (key ?L c) = i" for i c
      using H(4) [OF that(1)] that(2,3) by blast
    show "W i \<le> W j" if "i \<le> j" "j \<le> n - 2" for i j using H(1) that .
  qed simp
  then have "2 * 2 ^ (d 0 div 2) \<le> T" using H(3) Wm by (meson le_trans mult_le_mono1)
  then have "(2 :: nat) ^ Suc (d 0 div 2) < 2 ^ 16" using T16 by simp
  then have "Suc (d 0 div 2) < 16" by (rule power_less_imp_less_exp [rotated]) simp
  then have "d 0 \<le> 29" by simp
  then show ?thesis using d(1,4) B by fastforce
qed

end
