(* ===== verification/Mz_Tables.thy ===== *)
theory Mz_Tables
  imports Mz_Canonical Mz_Weights
begin

unbundle bit_operations_syntax

text \<open>
  The first half of \<open>tdefl_optimize_huffman_table\<close>: the number of codes of each length, and
  the lengths given to the symbols; then the whole function.
\<close>

section \<open>Counting lengths\<close>

lemma count_sizes_result:
  assumes "\<forall>k \<in> set ks. k \<le> 32" and "length num = 33"
  shows "\<exists>num'. huff_count_sizes ks num = Some num' \<and> length num' = 33 \<and>
    (\<forall>i < 33. num' ! i = num ! i + int (count_list ks i))"
  using assms
proof (induction ks arbitrary: num)
  case Nil
  then show ?case by simp
next
  case (Cons k ks)
  obtain num' where "huff_count_sizes ks (num[k := num ! k + 1]) = Some num'" "length num' = 33"
    "\<forall>i < 33. num' ! i = num[k := num ! k + 1] ! i + int (count_list ks i)"
    using Cons.IH [of "num[k := num ! k + 1]"] Cons.prems by auto
  then show ?case
    using Cons.prems by (auto simp: TDEFL_MAX_SUPPORTED_HUFF_CODESIZE_def nth_list_update)
qed

lemma count_sizes_some: "huff_count_sizes ks num = Some num' \<Longrightarrow> \<forall>k \<in> set ks. k \<le> 32"
  by (induction ks arbitrary: num) (auto simp: TDEFL_MAX_SUPPORTED_HUFF_CODESIZE_def split: if_splits)

text \<open>From the lengths of a complete code to the numbers of its codes.\<close>

lemma counts_complete:
  assumes num: "length num = 33" "\<forall>i < 33. num ! i = int (count_list ks i)"
    and ks: "2 \<le> length ks" "\<forall>k \<in> set ks. k \<le> 32 \<and> k \<le> length ks - 1"
    and kraft: "(\<Sum>k \<leftarrow> ks. 2 ^ (length ks - 1 - k)) = (2 :: nat) ^ (length ks - 1)"
  shows "counts num" and "(\<Sum>i \<in> {1..32}. num ! i * 2 ^ (32 - i)) = 2 ^ 32"
    and "(\<Sum>i \<in> {1..32}. num ! i) = int (length ks)"
proof -
  show "counts num" using num by (simp add: counts_def)
  have pos: "0 < k" if "k \<in> set ks" for k
  proof (rule ccontr)
    assume "\<not> 0 < k"
    with that have "0 \<in> set ks" by simp
    then obtain xs ys where s: "ks = xs @ 0 # ys" by (meson split_list)
    then have "xs @ ys \<noteq> []" using ks(1) by (cases xs; cases ys) simp_all
    then have "0 < (\<Sum>k \<leftarrow> xs @ ys. (2 :: nat) ^ (length ks - 1 - k))"
      by (cases "xs @ ys") (simp_all add: add_pos_nonneg)
    then show False using kraft by (simp add: s)
  qed
  then have sub: "set ks \<subseteq> {1..32}" using ks(2) by fastforce
  have total: "(\<Sum>i \<in> {1..32}. num ! i * int (f i)) = int (\<Sum>k \<leftarrow> ks. f k)" for f
    using sum_list_map_eq_sum_count2 [OF sub, of f] num(2) by (simp add: of_nat_sum)
  show "(\<Sum>i \<in> {1..32}. num ! i) = int (length ks)"
    using total [of "\<lambda>_. 1"] by (simp add: sum_list_triv)
  have "2 ^ (length ks - 1) * (\<Sum>k \<leftarrow> ks. (2 :: nat) ^ (32 - k)) = 2 ^ 32 * (\<Sum>k \<leftarrow> ks. 2 ^ (length ks - 1 - k))"
    unfolding sum_list_const_mult [symmetric]
  proof (rule arg_cong [where f = sum_list], rule map_cong [OF refl])
    fix k assume "k \<in> set ks"
    then have "k \<le> 32" "k \<le> length ks - 1" using ks(2) by simp_all
    then have "length ks - 1 + (32 - k) = 32 + (length ks - 1 - k)" by simp
    then show "(2 :: nat) ^ (length ks - 1) * 2 ^ (32 - k) = 2 ^ 32 * 2 ^ (length ks - 1 - k)"
      by (simp only: power_add [symmetric])
  qed
  then have "(\<Sum>k \<leftarrow> ks. (2 :: nat) ^ (32 - k)) = 2 ^ 32" unfolding kraft by simp
  then show "(\<Sum>i \<in> {1..32}. num ! i * 2 ^ (32 - i)) = 2 ^ 32"
    using total [of "\<lambda>k. 2 ^ (32 - k)"] by simp
qed

section \<open>Giving lengths to symbols\<close>

text \<open>The symbols at the places \<open>j\<close> to \<open>n - 1\<close> of the sorted array have their lengths.\<close>

definition sizes_inv :: "(nat \<Rightarrow> nat) \<Rightarrow> nat \<Rightarrow> nat \<Rightarrow> u8 list \<Rightarrow> bool" where
  "sizes_inv idx n j sizes \<longleftrightarrow> length sizes = 288 \<and> j \<le> n \<and> inj_on idx {..<n} \<and> idx ` {..<n} \<subseteq> {..<288} \<and>
     (\<forall>s < 288. sizes ! s \<noteq> 0 \<longleftrightarrow> s \<in> idx ` {j..<n})"

lemma card_syms_of_update:
  assumes "p < n" and "n \<le> length sizes" and "sizes ! p = 0" and "0 < unat v" and "0 < z"
  shows "card (syms_of n (sizes[p := v]) z) = card (syms_of n sizes z) + (if z = unat v then 1 else 0)"
proof -
  have "syms_of n (sizes[p := v]) z = (if z = unat v then insert p (syms_of n sizes z) else syms_of n sizes z)"
    using assms by (auto simp: nth_list_update)
  then show ?thesis using assms by simp
qed

lemma sizes_inv_step:
  assumes inv: "sizes_inv idx n (Suc j) sizes" and v: "v \<noteq> 0"
  shows "sizes_inv idx n j (sizes[idx j := v])" and "sizes ! idx j = 0" and "idx j < 288"
proof -
  have j: "j < n" and inj: "inj_on idx {..<n}" using inv by (simp_all add: sizes_inv_def)
  then show p: "idx j < 288" using inv by (auto simp: sizes_inv_def)
  have "idx j \<notin> idx ` {Suc j..<n}"
  proof
    assume "idx j \<in> idx ` {Suc j..<n}"
    then obtain k where "Suc j \<le> k" "k < n" "idx j = idx k" by auto
    then show False using inj_onD [OF inj, of j k] j by simp
  qed
  then show "sizes ! idx j = 0" using inv p by (auto simp: sizes_inv_def)
  have "{j..<n} = insert j {Suc j..<n}" using j by auto
  then show "sizes_inv idx n j (sizes[idx j := v])"
    using inv v p by (auto simp: sizes_inv_def nth_list_update)
qed

lemma give_size_result:
  assumes "sizes_inv (\<lambda>k. unat (m_sym_index (syms ! k))) n j sizes" and "l \<le> j" and "0 < i" and "i < 256"
  shows "\<exists>sizes'. huff_give_size i l syms (j, sizes) = Some (j - l, sizes') \<and>
    sizes_inv (\<lambda>k. unat (m_sym_index (syms ! k))) n (j - l) sizes' \<and>
    (\<forall>z > 0. card (syms_of 288 sizes' z) = card (syms_of 288 sizes z) + (if z = i then l else 0))"
  using assms(1,2)
proof (induction l arbitrary: j sizes)
  case 0
  then show ?case by simp
next
  case (Suc l)
  then obtain j' where j: "j = Suc j'" by (cases j) simp_all
  have v: "unat (of_nat i :: u8) = i" using assms(4) by (simp add: unsigned_of_nat take_bit_nat_eq_self)
  then have v0: "of_nat i \<noteq> (0 :: u8)" using assms(3) by (metis unsigned_0 less_irrefl)
  let ?p = "unat (m_sym_index (syms ! j'))"
  note S = sizes_inv_step [OF Suc.prems(1) [unfolded j] v0]
  have len: "length sizes = 288" using Suc.prems(1) by (simp add: sizes_inv_def)
  obtain sizes' where s: "huff_give_size i l syms (j', sizes[?p := of_nat i]) = Some (j' - l, sizes')"
    "sizes_inv (\<lambda>k. unat (m_sym_index (syms ! k))) n (j' - l) sizes'"
    "\<forall>z > 0. card (syms_of 288 sizes' z) = card (syms_of 288 (sizes[?p := of_nat i]) z) + (if z = i then l else 0)"
    using Suc.IH [OF S(1)] Suc.prems(2) j by auto
  have "card (syms_of 288 (sizes[?p := of_nat i]) z) = card (syms_of 288 sizes z) + (if z = i then 1 else 0)"
    if "0 < z" for z
    using card_syms_of_update [OF S(3) _ S(2), of "of_nat i" z] that v len assms(3) by simp
  then show ?case using s by (auto simp: j)
qed

lemma give_sizes_result:
  assumes "sizes_inv (\<lambda>k. unat (m_sym_index (syms ! k))) n j sizes" and "distinct is"
    and "\<forall>i \<in> set is. 0 < i \<and> i < 256" and "(\<Sum>i \<leftarrow> is. nat (num ! i)) \<le> j"
  shows "\<exists>sizes'. huff_give_sizes is num syms (j, sizes) = Some (j - (\<Sum>i \<leftarrow> is. nat (num ! i)), sizes') \<and>
    sizes_inv (\<lambda>k. unat (m_sym_index (syms ! k))) n (j - (\<Sum>i \<leftarrow> is. nat (num ! i))) sizes' \<and>
    (\<forall>z > 0. card (syms_of 288 sizes' z) =
      card (syms_of 288 sizes z) + (if z \<in> set is then nat (num ! z) else 0))"
  using assms
proof (induction "is" arbitrary: j sizes)
  case Nil
  then show ?case by simp
next
  case (Cons i "is")
  let ?l = "nat (num ! i)"
  obtain sizes1 where one: "huff_give_size i ?l syms (j, sizes) = Some (j - ?l, sizes1)"
    "sizes_inv (\<lambda>k. unat (m_sym_index (syms ! k))) n (j - ?l) sizes1"
    "\<forall>z > 0. card (syms_of 288 sizes1 z) = card (syms_of 288 sizes z) + (if z = i then ?l else 0)"
    using give_size_result [OF Cons.prems(1), of ?l i] Cons.prems(3,4) by auto
  have le: "(\<Sum>i \<leftarrow> is. nat (num ! i)) \<le> j - ?l" using Cons.prems(4) by simp
  obtain sizes' where two: "huff_give_sizes is num syms (j - ?l, sizes1) =
      Some (j - ?l - (\<Sum>i \<leftarrow> is. nat (num ! i)), sizes')"
    "sizes_inv (\<lambda>k. unat (m_sym_index (syms ! k))) n (j - ?l - (\<Sum>i \<leftarrow> is. nat (num ! i))) sizes'"
    "\<forall>z > 0. card (syms_of 288 sizes' z) =
      card (syms_of 288 sizes1 z) + (if z \<in> set is then nat (num ! z) else 0)"
    using Cons.IH [OF one(2) _ _ le] Cons.prems(2,3) by auto
  show ?case using one two Cons.prems(2) by (auto simp: diff_diff_left)
qed

section \<open>The lengths\<close>

lemma used_syms_result:
  fixes c :: "u16 list"
  assumes "table_len \<le> 288"
  defines "u \<equiv> filter (\<lambda>i. c ! i \<noteq> 0) [0..<table_len]"
  shows "map (\<lambda>s. unat (m_sym_index s)) (huff_used_syms c table_len) = u" and "distinct u"
    and "set u = {i. i < table_len \<and> c ! i \<noteq> 0}"
proof -
  have "unat (of_nat i :: u16) = i" if "i < table_len" for i
    using that assms(1) by (simp add: unsigned_of_nat take_bit_nat_eq_self)
  then show "map (\<lambda>s. unat (m_sym_index s)) (huff_used_syms c table_len) = u"
    by (auto simp: huff_used_syms_def u_def comp_def intro!: map_idI)
qed (auto simp: u_def)

text \<open>The symbols after sorting and the computation of lengths: the same, in another order.\<close>

lemma sorted_lengths:
  assumes "n = length A" and "n \<le> 288"
    and "tdefl_calculate_minimum_redundancy
      (tdefl_radix_sort_syms n A (replicate n \<lparr>m_key = 0, m_sym_index = 0\<rparr>)) n = Some B"
  shows "length B = n" and "mset (map m_sym_index B) = mset (map m_sym_index A)"
    and "2 \<le> n \<Longrightarrow> (\<forall>i < n. unat (key B i) \<le> n - 1) \<and>
      (\<Sum>i < n. 2 ^ (n - 1 - unat (key B i))) = (2 :: nat) ^ (n - 1)"
    and "n = 1 \<Longrightarrow> key B 0 = 1"
proof -
  let ?S = "tdefl_radix_sort_syms n A (replicate n \<lparr>m_key = 0, m_sym_index = 0\<rparr>)"
  have len: "length ?S = n" using assms(1) by (simp add: length_radix_sort)
  have "take n ?S = sort_key (\<lambda>s. unat (m_key s)) A"
    using radix_sort_result [of n A "replicate n \<lparr>m_key = 0, m_sym_index = 0\<rparr>"] assms(1) by simp
  then have S: "mset (map m_sym_index ?S) = mset (map m_sym_index A)" using len by simp
  have "length B = n \<and> mset (map m_sym_index B) = mset (map m_sym_index A) \<and>
      (2 \<le> n \<longrightarrow> (\<forall>i < n. unat (key B i) \<le> n - 1) \<and>
        (\<Sum>i < n. 2 ^ (n - 1 - unat (key B i))) = (2 :: nat) ^ (n - 1)) \<and> (n = 1 \<longrightarrow> key B 0 = 1)"
  proof (cases "2 \<le> n")
    case True
    then obtain B' where "tdefl_calculate_minimum_redundancy ?S n = Some B'" "length B' = n"
      "map m_sym_index B' = map m_sym_index ?S" "\<forall>i < n. unat (key B' i) \<le> n - 1"
      "kraft_sum (n - 1) (\<lambda>i. unat (key B' i)) {..<n} = 2 ^ (n - 1)"
      using mr_result [OF True _ len] assms(2) by auto
    then show ?thesis
      using assms(3) S True by (simp add: kraft_sum_def)
  next
    case False
    then consider "n = 0" | "n = 1" by linarith
    then show ?thesis
      using assms(3) S len
      by cases (auto simp: tdefl_calculate_minimum_redundancy_def key_set_key simp flip: mset_map)
  qed
  then show "length B = n" "mset (map m_sym_index B) = mset (map m_sym_index A)"
    "2 \<le> n \<Longrightarrow> (\<forall>i < n. unat (key B i) \<le> n - 1) \<and>
      (\<Sum>i < n. 2 ^ (n - 1 - unat (key B i))) = (2 :: nat) ^ (n - 1)" "n = 1 \<Longrightarrow> key B 0 = 1"
    by simp_all
qed

text \<open>Weights that together stay below 65536 give codes of at most 30 bits.\<close>

lemma light_lengths:
  assumes "n = length A" and "2 \<le> n" and "n \<le> 288"
    and "tdefl_calculate_minimum_redundancy
      (tdefl_radix_sort_syms n A (replicate n \<lparr>m_key = 0, m_sym_index = 0\<rparr>)) n = Some B"
    and "\<forall>s \<in> set A. m_key s \<noteq> 0" and "(\<Sum>s \<leftarrow> A. unat (m_key s)) < 65536" and "i < n"
  shows "unat (key B i) \<le> 30"
proof -
  let ?S = "tdefl_radix_sort_syms n A (replicate n \<lparr>m_key = 0, m_sym_index = 0\<rparr>)"
  have len: "length ?S = n" using assms(1) by (simp add: length_radix_sort)
  have S: "?S = sort_key (\<lambda>s. unat (m_key s)) A"
    using radix_sort_result [of n A "replicate n \<lparr>m_key = 0, m_sym_index = 0\<rparr>"] assms(1) len by simp
  have "mset (map (\<lambda>s. unat (m_key s)) ?S) = mset (map (\<lambda>s. unat (m_key s)) A)" unfolding S by simp
  then have "sum_mset (mset (map (\<lambda>s. unat (m_key s)) ?S)) = sum_mset (mset (map (\<lambda>s. unat (m_key s)) A))"
    by (rule arg_cong)
  then have "(\<Sum>s \<leftarrow> ?S. unat (m_key s)) = (\<Sum>s \<leftarrow> A. unat (m_key s))" by (simp only: sum_mset_sum_list)
  moreover have "sorted (map (\<lambda>s. unat (m_key s)) ?S)" unfolding S by simp
  moreover have "\<forall>s \<in> set ?S. m_key s \<noteq> 0" unfolding S using assms(5) by simp
  ultimately show ?thesis using mr_short_codes [OF assms(2) _ len _ _ _ assms(4,7)] assms(3,6) by simp
qed

lemma used_syms_weight:
  "(\<Sum>s \<leftarrow> huff_used_syms c len. unat (m_key s)) = (\<Sum>i \<in> {i. i < len \<and> c ! i \<noteq> 0}. unat (c ! i))"
proof -
  have "(\<Sum>s \<leftarrow> huff_used_syms c len. unat (m_key s)) = (\<Sum>i \<leftarrow> filter (\<lambda>i. c ! i \<noteq> 0) [0..<len]. unat (c ! i))"
    by (simp add: huff_used_syms_def comp_def)
  also have "\<dots> = (\<Sum>i \<in> set (filter (\<lambda>i. c ! i \<noteq> 0) [0..<len]). unat (c ! i))"
    by (rule sum_list_distinct_conv_sum_set) simp
  also have "set (filter (\<lambda>i. c ! i \<noteq> 0) [0..<len]) = {i. i < len \<and> c ! i \<noteq> 0}" by auto
  finally show ?thesis .
qed

lemma min_redundancy_some:
  assumes "length A = n" and "n \<le> 288"
  shows "\<exists>B. tdefl_calculate_minimum_redundancy A n = Some B"
proof (cases "2 \<le> n")
  case True
  then show ?thesis using mr_result [OF True _ assms(1)] assms(2) by auto
next
  case False
  then show ?thesis by (simp add: tdefl_calculate_minimum_redundancy_def)
qed

text \<open>The symbols in their new order as places of the table.\<close>

lemma places_of_syms:
  assumes "mset (map m_sym_index B) = mset (map m_sym_index (huff_used_syms c table_len))"
    and "table_len \<le> 288" and "length B = n"
  defines "idx \<equiv> \<lambda>k. unat (m_sym_index (B ! k))"
  shows "inj_on idx {..<n}" and "idx ` {..<n} = {i. i < table_len \<and> c ! i \<noteq> 0}"
    and "n = card {i. i < table_len \<and> c ! i \<noteq> 0}"
proof -
  note U = used_syms_result [OF assms(2), of c]
  have "mset (map (\<lambda>s. unat (m_sym_index s)) B) = image_mset unat (mset (map m_sym_index B))"
    by (simp add: image_mset.compositionality comp_def)
  also have "\<dots> = mset (map (\<lambda>s. unat (m_sym_index s)) (huff_used_syms c table_len))"
    unfolding assms(1) by (simp add: image_mset.compositionality comp_def)
  finally have m: "mset (map (\<lambda>s. unat (m_sym_index s)) B) = mset (filter (\<lambda>i. c ! i \<noteq> 0) [0..<table_len])"
    unfolding U(1) .
  have l: "map (\<lambda>s. unat (m_sym_index s)) B = map idx [0..<n]"
    using assms(3) by (intro nth_equalityI) (simp_all add: idx_def)
  have "distinct (map idx [0..<n])" using mset_eq_imp_distinct_iff [OF m] U(2) unfolding l by simp
  then show "inj_on idx {..<n}" by (simp add: distinct_map atLeast_upt lessThan_atLeast0)
  have "set (map idx [0..<n]) = {i. i < table_len \<and> c ! i \<noteq> 0}"
    using mset_eq_setD [OF m] U(3) unfolding l by simp
  then show im: "idx ` {..<n} = {i. i < table_len \<and> c ! i \<noteq> 0}" by (simp add: lessThan_atLeast0)
  show "n = card {i. i < table_len \<and> c ! i \<noteq> 0}"
    unfolding im [symmetric] using \<open>inj_on idx {..<n}\<close> by (simp add: card_image)
qed

text \<open>The numbers of codes of each length after the limit was enforced.\<close>

lemma limited_counts:
  assumes B: "length B = n" "2 \<le> n \<Longrightarrow> (\<forall>i < n. unat (key B i) \<le> n - 1) \<and>
      (\<Sum>i < n. 2 ^ (n - 1 - unat (key B i))) = (2 :: nat) ^ (n - 1)" "n = 1 \<Longrightarrow> key B 0 = 1"
    and m: "0 < m" "m \<le> 15" "n \<le> 2 ^ m" and small: "\<forall>i < n. unat (key B i) \<le> 32"
  shows "\<exists>c num. huff_count_sizes (map (\<lambda>s. unat (m_key s)) (take n B)) (replicate 33 0) = Some c \<and>
    tdefl_huffman_enforce_max_code_size c n m = Some num \<and> counts num \<and>
    (\<Sum>i \<in> {1..m}. num ! i) = int n \<and> space_in m num {1..m} \<le> 2 ^ m \<and>
    (2 \<le> n \<longrightarrow> space_in m num {1..m} = 2 ^ m)"
proof -
  let ?ks = "map (\<lambda>s. unat (m_key s)) (take n B)"
  have ks: "?ks = map (\<lambda>i. unat (key B i)) [0..<n]" using B(1) by (intro nth_equalityI) simp_all
  have le: "\<forall>k \<in> set ?ks. k \<le> 32" using small unfolding ks by simp
  obtain c where c: "huff_count_sizes ?ks (replicate 33 0) = Some c" "length c = 33"
    "\<forall>i < 33. c ! i = int (count_list ?ks i)"
    using count_sizes_result [OF le, of "replicate 33 0"] by auto
  have "\<exists>num. tdefl_huffman_enforce_max_code_size c n m = Some num \<and> counts num \<and>
      (\<Sum>i \<in> {1..m}. num ! i) = int n \<and> space_in m num {1..m} \<le> 2 ^ m \<and>
      (2 \<le> n \<longrightarrow> space_in m num {1..m} = 2 ^ m)"
  proof (cases "2 \<le> n")
    case True
    have l: "length ?ks = n" using B(1) by simp
    have "(\<Sum>k \<leftarrow> ?ks. (2 :: nat) ^ (n - 1 - k)) = 2 ^ (n - 1)"
      using B(2) [OF True] unfolding ks by (simp add: comp_def interv_sum_list_conv_sum_set_nat lessThan_atLeast0)
    moreover have "\<forall>k \<in> set ?ks. k \<le> 32 \<and> k \<le> n - 1" using le B(2) [OF True] unfolding ks by simp
    ultimately have cc: "counts c" "(\<Sum>i \<in> {1..32}. c ! i * 2 ^ (32 - i)) = 2 ^ 32"
      "(\<Sum>i \<in> {1..32}. c ! i) = int n"
      using counts_complete [OF c(2,3)] True unfolding l by simp_all
    then show ?thesis
      using enforce_result [OF cc(1,2) m(1) _ True cc(3) [symmetric] m(3)] m(2) by (auto simp: space_in_def)
  next
    case False
    have "counts c" using c by (simp add: counts_def)
    have "c ! i = (if i = 1 \<and> n = 1 then 1 else 0)" if "i < 33" for i
      using False c(3) that B(3) unfolding ks by (cases "n = 0") (auto simp: upt_rec)
    then have e: "c ! i * g = (if i = 1 then int n * g else 0)" if "i \<in> {1..m}" for i g
      using that m False by (cases "n = 0") auto
    have "(\<Sum>i \<in> {1..m}. c ! i * g i) = int n * g 1" for g
    proof -
      have "(\<Sum>i \<in> {1..m}. c ! i * g i) = (\<Sum>i \<in> {1..m}. if i = 1 then int n * g 1 else 0)"
        using e by (intro sum.cong) auto
      then show ?thesis using m(1) by (simp only: sum.delta finite_atLeastAtMost) simp
    qed
    from this [of "\<lambda>_. 1"] this [of "\<lambda>i. 2 ^ (m - i)"]
    have "(\<Sum>i \<in> {1..m}. c ! i) = int n" "space_in m c {1..m} = int n * 2 ^ (m - 1)"
      by (simp_all add: space_in_def)
    moreover have "int n * 2 ^ (m - 1) \<le> 2 ^ m"
      using False m(1) by (cases m; cases "n = 0") auto
    ultimately show ?thesis
      using False \<open>counts c\<close> by (simp add: tdefl_huffman_enforce_max_code_size_def)
  qed
  then show ?thesis using c(1) by blast
qed

section \<open>The whole function\<close>

definition huff_arrays :: "tdefl_compressor \<Rightarrow> bool" where
  "huff_arrays d \<longleftrightarrow> length (m_huff_count d) = 3 \<and> length (m_huff_codes d) = 3 \<and>
     length (m_huff_code_sizes d) = 3 \<and>
     (\<forall>k < 3. length (m_huff_count d ! k) = 288 \<and> length (m_huff_codes d ! k) = 288 \<and>
       length (m_huff_code_sizes d ! k) = 288)"

text \<open>The symbols of a table that occur.\<close>

definition used_in :: "tdefl_compressor \<Rightarrow> nat \<Rightarrow> nat \<Rightarrow> nat set" where
  "used_in d k len = {i. i < len \<and> m_huff_count d ! k ! i \<noteq> 0}"

lemma optimal_sizes_result:
  assumes d: "huff_arrays d" "k < 3" "len \<le> 288" and m: "0 < m" "m \<le> 15"
    and used: "card (used_in d k len) \<le> 2 ^ m"
    and depth: "card (used_in d k len) \<le> 33 \<or> (\<Sum>s \<in> used_in d k len. unat (m_huff_count d ! k ! s)) < 65536 \<or>
      huff_optimal_sizes k len m d \<noteq> None"
  shows "\<exists>num sizes. huff_optimal_sizes k len m d = Some (num,
      d\<lparr>m_huff_code_sizes := (m_huff_code_sizes d)[k := sizes],
        m_huff_codes := (m_huff_codes d)[k := replicate 288 0]\<rparr>) \<and>
    table_counts m len sizes num \<and> length sizes = 288 \<and>
    (\<forall>s < 288. sizes ! s \<noteq> 0 \<longleftrightarrow> s \<in> used_in d k len) \<and>
    (2 \<le> card (used_in d k len) \<longrightarrow> space_in m num {1..m} = 2 ^ m)"
proof -
  let ?c = "m_huff_count d ! k"
  define A where "A = huff_used_syms ?c len"
  define n where "n = length A"
  let ?S = "tdefl_radix_sort_syms n A (replicate n \<lparr>m_key = 0, m_sym_index = 0\<rparr>)"
  have "length ?S = n" by (simp add: length_radix_sort n_def)
  moreover have n288: "n \<le> 288"
    using d(3) length_filter_le [of "\<lambda>i. ?c ! i \<noteq> 0" "[0..<len]"] by (simp add: n_def A_def huff_used_syms_def)
  ultimately obtain B where B: "tdefl_calculate_minimum_redundancy ?S n = Some B"
    using min_redundancy_some by blast
  note sorted = sorted_lengths [OF n_def n288 B]
  define idx where "idx = (\<lambda>k. unat (m_sym_index (B ! k)))"
  note places = places_of_syms [OF sorted(2) [unfolded A_def] d(3) sorted(1), folded idx_def used_in_def]
  have small: "\<forall>i < n. unat (key B i) \<le> 32"
  proof (cases "n \<le> 33")
    case True
    show ?thesis
    proof (cases "2 \<le> n")
      case 2: True
      then show ?thesis using sorted(3) True by fastforce
    next
      case False
      then consider "n = 0" | "n = 1" by linarith
      then show ?thesis using sorted(4) by cases simp_all
    qed
  next
    case False
    show ?thesis
    proof (cases "(\<Sum>s \<in> used_in d k len. unat (?c ! s)) < 65536")
      case True
      then have "(\<Sum>s \<leftarrow> A. unat (m_key s)) < 65536" by (simp add: A_def used_syms_weight used_in_def)
      moreover have "\<forall>s \<in> set A. m_key s \<noteq> 0" by (auto simp: A_def huff_used_syms_def)
      ultimately show ?thesis using light_lengths [OF n_def _ n288 B] False by (fastforce intro: le_trans)
    next
      case heavy: False
      then have "huff_optimal_sizes k len m d \<noteq> None" using depth places(3) False by simp
      then obtain c where "huff_count_sizes (map (\<lambda>s. unat (m_key s)) (take n B)) (replicate 33 0) = Some c"
        using B by (auto simp: huff_optimal_sizes_def Let_def n_def A_def bind_eq_Some_conv)
      from count_sizes_some [OF this] sorted(1) show ?thesis by (simp add: all_set_conv_all_nth)
    qed
  qed
  obtain c num where num: "huff_count_sizes (map (\<lambda>s. unat (m_key s)) (take n B)) (replicate 33 0) = Some c"
    "tdefl_huffman_enforce_max_code_size c n m = Some num" "counts num" "(\<Sum>i \<in> {1..m}. num ! i) = int n"
    "space_in m num {1..m} \<le> 2 ^ m" "2 \<le> n \<longrightarrow> space_in m num {1..m} = 2 ^ m"
    using limited_counts [OF sorted(1,3,4) m _ small] used places(3) by blast
  have nonneg: "0 \<le> num ! i" if "i \<le> m" for i using num(3) m that by (simp add: counts_def)
  have "int (\<Sum>i \<leftarrow> [1..<m + 1]. nat (num ! i)) = (\<Sum>i \<in> {1..m}. num ! i)"
    using nonneg by (simp add: interv_sum_list_conv_sum_set_nat atLeastLessThanSuc_atLeastAtMost del: upt_Suc)
  then have total: "(\<Sum>i \<leftarrow> [1..<m + 1]. nat (num ! i)) = n" unfolding num(4) by (simp only: of_nat_eq_iff)
  have start: "sizes_inv idx n n (replicate 288 0)"
    using places d(3) by (auto simp: sizes_inv_def used_in_def)
  obtain sizes where sizes: "huff_give_sizes [1..<m + 1] num B (n, replicate 288 0) = Some (0, sizes)"
    "sizes_inv idx n 0 sizes"
    "\<forall>z > 0. card (syms_of 288 sizes z) = card (syms_of 288 (replicate 288 0) z) +
      (if z \<in> set [1..<m + 1] then nat (num ! z) else 0)"
    using give_sizes_result [OF start [unfolded idx_def], of "[1..<m + 1]" num] total m
    by (auto simp del: upt_Suc simp: idx_def)
  have zero: "syms_of 288 (replicate 288 0) z = {}" if "0 < z" for z :: nat using that by auto
  have card: "card (syms_of 288 sizes z) = (if z \<le> m then nat (num ! z) else 0)" if "0 < z" for z
    using sizes(3) zero [OF that] that by auto
  have s: "sizes ! i \<noteq> 0 \<longleftrightarrow> i \<in> used_in d k len" if "i < 288" for i
    using sizes(2) that places(2) by (simp add: sizes_inv_def lessThan_atLeast0)
  have same: "syms_of len sizes z = syms_of 288 sizes z" if "0 < z" for z
    using s d(3) that by (force simp: used_in_def)
  have "unat (sizes ! i) \<le> m" if "i < len" for i
  proof (rule ccontr)
    assume "\<not> ?thesis"
    then have "card (syms_of 288 sizes (unat (sizes ! i))) = 0" using card [of "unat (sizes ! i)"] by simp
    then have "\<forall>x < 288. unat (sizes ! x) \<noteq> unat (sizes ! i)" by simp
    moreover have "i < 288" using that d(3) by simp
    ultimately show False by blast
  qed
  then have "table_counts m len sizes num"
    using num(3,5) m card same nonneg by (simp add: table_counts_def)
  moreover have "huff_optimal_sizes k len m d = Some (num,
      d\<lparr>m_huff_code_sizes := (m_huff_code_sizes d)[k := sizes],
        m_huff_codes := (m_huff_codes d)[k := replicate 288 0]\<rparr>)"
    using B num(1,2) sizes(1) d
    by (simp add: huff_optimal_sizes_def Let_def TDEFL_MAX_HUFF_SYMBOLS_def huff_arrays_def n_def A_def
        del: upt_Suc)
  ultimately show ?thesis
    using sizes(2) s num(6) places(3) by (auto simp: sizes_inv_def)
qed

text \<open>The code space taken, summed over symbols instead of lengths.\<close>

lemma space_of_symbols:
  assumes "table_counts m n sizes num"
  shows "(\<Sum>s \<in> {s. s < n \<and> sizes ! s \<noteq> 0}. (2 :: int) ^ (m - unat (sizes ! s))) = space_in m num {1..m}"
proof -
  let ?S = "{s. s < n \<and> sizes ! s \<noteq> 0}"
  have "(\<Sum>s \<in> ?S. (2 :: int) ^ (m - unat (sizes ! s))) =
      (\<Sum>i \<in> {1..m}. \<Sum>s \<in> {s \<in> ?S. unat (sizes ! s) = i}. 2 ^ (m - unat (sizes ! s)))"
    using assms by (intro sum.group [symmetric]) (auto simp: table_counts_def unat_gt_0 Suc_le_eq)
  also have "\<dots> = space_in m num {1..m}"
    unfolding space_in_def
  proof (rule sum.cong [OF refl])
    fix i assume i: "i \<in> {1..m}"
    then have "{s \<in> ?S. unat (sizes ! s) = i} = syms_of n sizes i" by auto
    then show "(\<Sum>s \<in> {s \<in> ?S. unat (sizes ! s) = i}. 2 ^ (m - unat (sizes ! s))) = num ! i * 2 ^ (m - i)"
      using assms i by (simp add: table_counts_def)
  qed
  finally show ?thesis .
qed

lemma optimize_result:
  assumes d: "huff_arrays d" "k < 3" "len \<le> 288" and m: "0 < m" "m \<le> 15"
    and used: "card (used_in d k len) \<le> 2 ^ m"
    and depth: "card (used_in d k len) \<le> 33 \<or> (\<Sum>s \<in> used_in d k len. unat (m_huff_count d ! k ! s)) < 65536 \<or>
      tdefl_optimize_huffman_table d k len m False \<noteq> None"
  shows "\<exists>sizes codes. tdefl_optimize_huffman_table d k len m False = Some
      (d\<lparr>m_huff_code_sizes := (m_huff_code_sizes d)[k := sizes], m_huff_codes := (m_huff_codes d)[k := codes]\<rparr>) \<and>
    length sizes = 288 \<and> length codes = 288 \<and>
    (\<forall>s < 288. sizes ! s \<noteq> 0 \<longleftrightarrow> s \<in> used_in d k len) \<and> (\<forall>s < len. unat (sizes ! s) \<le> m) \<and>
    prefix_free len sizes codes \<and> (\<forall>s < len. sizes ! s \<noteq> 0 \<longrightarrow> unat (codes ! s) < 2 ^ unat (sizes ! s)) \<and>
    (\<forall>s < len. sizes ! s \<noteq> 0 \<longrightarrow> codes ! s = canonical_code len sizes s) \<and>
    (2 \<le> card (used_in d k len) \<longrightarrow> (\<Sum>s \<in> used_in d k len. 2 ^ (m - unat (sizes ! s))) = (2 :: nat) ^ m)"
proof -
  have "card (used_in d k len) \<le> 33 \<or> (\<Sum>s \<in> used_in d k len. unat (m_huff_count d ! k ! s)) < 65536 \<or>
      huff_optimal_sizes k len m d \<noteq> None"
    using depth by (cases "huff_optimal_sizes k len m d") (auto simp: tdefl_optimize_huffman_table_def)
  then obtain num sizes where o: "huff_optimal_sizes k len m d = Some (num,
      d\<lparr>m_huff_code_sizes := (m_huff_code_sizes d)[k := sizes],
        m_huff_codes := (m_huff_codes d)[k := replicate 288 0]\<rparr>)"
    "table_counts m len sizes num" "length sizes = 288"
    "\<forall>s < 288. sizes ! s \<noteq> 0 \<longleftrightarrow> s \<in> used_in d k len"
    "2 \<le> card (used_in d k len) \<longrightarrow> space_in m num {1..m} = 2 ^ m"
    using optimal_sizes_result [OF d m used] by blast
  define d1 where "d1 = d\<lparr>m_huff_code_sizes := (m_huff_code_sizes d)[k := sizes],
        m_huff_codes := (m_huff_codes d)[k := replicate 288 0]\<rparr>"
  have k: "m_huff_code_sizes d1 ! k = sizes" "length (m_huff_codes d1 ! k) = 288" "k < length (m_huff_codes d1)"
    using d by (simp_all add: d1_def huff_arrays_def)
  obtain codes where codes: "huff_assign_codes k len m num d1 =
      d\<lparr>m_huff_code_sizes := (m_huff_code_sizes d)[k := sizes], m_huff_codes := (m_huff_codes d)[k := codes]\<rparr>"
    by (simp add: huff_assign_codes_def d1_def Let_def)
  then have c: "m_huff_codes (huff_assign_codes k len m num d1) ! k = codes" using k(3) by (simp add: d1_def)
  have "length (m_huff_codes (huff_assign_codes k len m num d1) ! k) = 288"
    using k by (simp add: huff_assign_codes_def Let_def length_huff_give_codes del: upt_Suc)
  moreover have "tdefl_optimize_huffman_table d k len m False = Some (huff_assign_codes k len m num d1)"
    by (simp add: tdefl_optimize_huffman_table_def o(1) d1_def)
  moreover have "(\<Sum>s \<in> used_in d k len. 2 ^ (m - unat (sizes ! s))) = (2 :: nat) ^ m"
    if "2 \<le> card (used_in d k len)"
  proof (rule of_nat_eq_iff [where 'a = int, THEN iffD1])
    have "s \<in> used_in d k len \<longleftrightarrow> s < len \<and> sizes ! s \<noteq> 0" for s
      using o(4) d(3) by (cases "s < len") (auto simp: used_in_def)
    then have "used_in d k len = {s. s < len \<and> sizes ! s \<noteq> 0}" by blast
    then show "int (\<Sum>s \<in> used_in d k len. 2 ^ (m - unat (sizes ! s))) = int (2 ^ m)"
      using space_of_symbols [OF o(2)] o(5) that by simp
  qed
  ultimately show ?thesis
    using o(2-4) c codes huff_assign_codes_result [of m len d1 k num] k d(3)
    by (intro exI [of _ sizes] exI [of _ codes]) (simp add: table_counts_def)
qed

text \<open>C16: The Huffman tables of a dynamic block are prefix codes.  For any frequencies (sums may wrap in 16
  bits) with at most \<open>2^m\<close> symbols in use and a limit of \<open>m\<close> bits: the function gives a code to
  exactly the symbols that occur, no code is longer than the limit, no code (as the stream has
  it, first bit lowest) begins with the code of another symbol, and with two symbols or more the
  whole code space is used.  It ends and stays inside its arrays if no more than 33 symbols
  occur, or if the frequencies add up to less than 65536 (as in every block that the buffer of LZ
  codes can hold); otherwise all this holds if it returns.\<close>

theorem huffman_table_is_prefix_code:
  assumes "huff_arrays d" and "k < 3" and "len \<le> 288" and "0 < m" and "m \<le> 15"
    and "card (used_in d k len) \<le> 2 ^ m"
    and "card (used_in d k len) \<le> 33 \<or> (\<Sum>s \<in> used_in d k len. unat (m_huff_count d ! k ! s)) < 65536 \<or>
      tdefl_optimize_huffman_table d k len m False \<noteq> None"
  shows "\<exists>sizes codes. tdefl_optimize_huffman_table d k len m False = Some
      (d\<lparr>m_huff_code_sizes := (m_huff_code_sizes d)[k := sizes], m_huff_codes := (m_huff_codes d)[k := codes]\<rparr>) \<and>
    (\<forall>s < len. sizes ! s \<noteq> 0 \<longleftrightarrow> m_huff_count d ! k ! s \<noteq> 0) \<and> (\<forall>s < len. unat (sizes ! s) \<le> m) \<and>
    (\<forall>s < len. \<forall>t < len. s \<noteq> t \<longrightarrow> sizes ! s \<noteq> 0 \<longrightarrow> sizes ! s \<le> sizes ! t \<longrightarrow>
       take_bit (unat (sizes ! s)) (codes ! t) \<noteq> codes ! s) \<and>
    (2 \<le> card (used_in d k len) \<longrightarrow> (\<Sum>s \<in> used_in d k len. 2 ^ (m - unat (sizes ! s))) = (2 :: nat) ^ m)"
proof -
  obtain sizes codes where r: "tdefl_optimize_huffman_table d k len m False = Some
      (d\<lparr>m_huff_code_sizes := (m_huff_code_sizes d)[k := sizes], m_huff_codes := (m_huff_codes d)[k := codes]\<rparr>)"
    "\<forall>s < 288. sizes ! s \<noteq> 0 \<longleftrightarrow> s \<in> used_in d k len" "\<forall>s < len. unat (sizes ! s) \<le> m"
    "prefix_free len sizes codes"
    "2 \<le> card (used_in d k len) \<longrightarrow> (\<Sum>s \<in> used_in d k len. 2 ^ (m - unat (sizes ! s))) = (2 :: nat) ^ m"
    using optimize_result [OF assms] by blast
  have "\<forall>s < len. sizes ! s \<noteq> 0 \<longleftrightarrow> m_huff_count d ! k ! s \<noteq> 0"
    using r(2) assms(3) by (simp add: used_in_def)
  with r(1,3,5) r(4) [unfolded prefix_free_def] show ?thesis by blast
qed

definition demo_compressor :: tdefl_compressor where
  "demo_compressor = \<lparr>m_bits_in = 0, m_bit_buffer = 0,
     m_huff_count = replicate 3 ([10, 1, 0, 3, 1] @ replicate 283 0),
     m_huff_codes = replicate 3 (replicate 288 0), m_huff_code_sizes = replicate 3 (replicate 288 0),
     m_output = [], m_output_room = 100\<rparr>"

theorem huffman_table_is_prefix_code_witness:
  "\<exists>sizes codes. tdefl_optimize_huffman_table demo_compressor 1 5 3 False = Some
      (demo_compressor\<lparr>m_huff_code_sizes := (m_huff_code_sizes demo_compressor)[1 := sizes],
        m_huff_codes := (m_huff_codes demo_compressor)[1 := codes]\<rparr>) \<and>
    (\<forall>s < 5. unat (sizes ! s) \<le> 3)"
proof -
  have "used_in demo_compressor 1 5 \<subseteq> {..<5}" by (auto simp: used_in_def)
  then have c: "card (used_in demo_compressor 1 5) \<le> 5" using card_mono [of "{..<5 :: nat}"] by simp
  have "huff_arrays demo_compressor" by (simp add: huff_arrays_def demo_compressor_def)
  from huffman_table_is_prefix_code [OF this, of 1 5 3] show ?thesis using c by auto
qed

end
