(* ===== verification/Mz_Bits.thy ===== *)
theory Mz_Bits
  imports Mz_Tables
begin

unbundle bit_operations_syntax

text \<open>
  The bit stream of the compressor: the macro \<open>TDEFL_PUT_BITS\<close> of \<open>proj/sparc-prog/miniz.c\<close>, and
  what a sequence of uses of it writes.  Bits leave the buffer lowest first; when the output
  buffer is full, bytes are dropped, which the callers notice by the room left.  (The programs
  are built with \<open>NDEBUG\<close>: the assertion on \<open>bits\<close> is not there.)
\<close>

section \<open>The code\<close>

lemma unat_minus_8: "8 \<le> (x :: u32) \<Longrightarrow> unat (x - 8) = unat x - 8"
  by (simp add: unat_sub)

function put_bytes :: "tdefl_compressor \<Rightarrow> tdefl_compressor" where
  "put_bytes d =
    (if 8 \<le> m_bits_in d then
       let d = (if 0 < m_output_room d
             then d\<lparr>m_output := m_output d @ [ucast (m_bit_buffer d)], m_output_room := m_output_room d - 1\<rparr>
             else d)
       in put_bytes (d\<lparr>m_bit_buffer := drop_bit 8 (m_bit_buffer d), m_bits_in := m_bits_in d - 8\<rparr>)
     else d)"
  by pat_completeness auto

termination
  by (relation "measure (\<lambda>d. unat (m_bits_in d))") (auto simp: unat_minus_8 word_le_nat_alt)

declare put_bytes.simps [simp del]

definition TDEFL_PUT_BITS :: "u32 \<Rightarrow> u32 \<Rightarrow> tdefl_compressor \<Rightarrow> tdefl_compressor" where
  "TDEFL_PUT_BITS b l d =
    put_bytes (d\<lparr>m_bit_buffer := m_bit_buffer d OR push_bit (unat (m_bits_in d)) b,
      m_bits_in := m_bits_in d + l\<rparr>)"

section \<open>The stream\<close>

definition low_bits :: "nat \<Rightarrow> 'a :: len word \<Rightarrow> bool list" where
  "low_bits n w = map (bit w) [0..<n]"

definition stream_of :: "tdefl_compressor \<Rightarrow> bool list" where
  "stream_of d = concat (map (low_bits 8) (m_output d)) @ low_bits (unat (m_bits_in d)) (m_bit_buffer d)"

text \<open>Fewer than eight bits wait in the buffer, and above them are zeros.\<close>

definition coder_ok :: "tdefl_compressor \<Rightarrow> bool" where
  "coder_ok d \<longleftrightarrow> unat (m_bits_in d) < 8 \<and> (\<forall>i. unat (m_bits_in d) \<le> i \<longrightarrow> \<not> bit (m_bit_buffer d) i)"

lemma length_low_bits [simp]: "length (low_bits n w) = n"
  by (simp add: low_bits_def)

lemma low_bits_split: "k \<le> n \<Longrightarrow> low_bits n w = low_bits k w @ low_bits (n - k) (drop_bit k w)"
proof -
  assume k: "k \<le> n"
  then have "[0..<n] = [0..<k] @ map (\<lambda>i. k + i) [0..<n - k]"
    using upt_add_eq_append [of 0 k "n - k"] map_add_upt [of k "n - k"] by (simp add: add.commute)
  then show ?thesis by (simp add: low_bits_def bit_drop_bit_eq)
qed

lemma low_bits_ucast: "n \<le> LENGTH('a) \<Longrightarrow> n \<le> LENGTH('b) \<Longrightarrow>
    low_bits n (ucast (w :: 'a :: len word) :: 'b :: len word) = low_bits n w"
  by (simp add: low_bits_def bit_ucast_iff)

text \<open>Only the stream, the buffer and the room change.\<close>

definition same_tables :: "tdefl_compressor \<Rightarrow> tdefl_compressor \<Rightarrow> bool" where
  "same_tables d d' \<longleftrightarrow> m_huff_count d' = m_huff_count d \<and> m_huff_codes d' = m_huff_codes d \<and>
     m_huff_code_sizes d' = m_huff_code_sizes d"

text \<open>A byte that is written takes its place from the room.\<close>

definition output_space :: "tdefl_compressor \<Rightarrow> nat" where
  "output_space d = length (m_output d) + m_output_room d"

lemma put_bytes_same: "same_tables d (put_bytes d) \<and> output_space (put_bytes d) = output_space d"
proof (induction d rule: put_bytes.induct)
  case (1 d)
  then show ?case
    by (subst (1 2) put_bytes.simps) (auto simp: same_tables_def output_space_def Let_def)
qed

lemma put_bytes_result:
  assumes "\<forall>i. unat (m_bits_in d) \<le> i \<longrightarrow> \<not> bit (m_bit_buffer d) i"
  shows "coder_ok (put_bytes d) \<and> same_tables d (put_bytes d) \<and>
    m_output_room (put_bytes d) \<le> m_output_room d \<and>
    8 * m_output_room d + unat (m_bits_in (put_bytes d)) \<le> 8 * m_output_room (put_bytes d) + unat (m_bits_in d) \<and>
    (0 < m_output_room (put_bytes d) \<longrightarrow> stream_of (put_bytes d) = stream_of d)"
  using assms
proof (induction d rule: put_bytes.induct)
  case (1 d)
  show ?case
  proof (cases "8 \<le> m_bits_in d")
    case False
    then show ?thesis
      using 1 by (simp add: put_bytes.simps [of d] coder_ok_def same_tables_def word_le_nat_alt)
  next
    case True
    let ?d1 = "if 0 < m_output_room d
        then d\<lparr>m_output := m_output d @ [ucast (m_bit_buffer d)], m_output_room := m_output_room d - 1\<rparr>
        else d"
    let ?d2 = "?d1\<lparr>m_bit_buffer := drop_bit 8 (m_bit_buffer ?d1), m_bits_in := m_bits_in ?d1 - 8\<rparr>"
    have n: "8 \<le> unat (m_bits_in d)" "unat (m_bits_in d - 8) = unat (m_bits_in d) - 8"
      using True by (simp_all add: word_le_nat_alt unat_minus_8)
    have p: "put_bytes d = put_bytes ?d2" using True by (simp add: put_bytes.simps [of d] Let_def)
    have zero: "\<forall>i. unat (m_bits_in ?d2) \<le> i \<longrightarrow> \<not> bit (m_bit_buffer ?d2) i"
      using "1.prems" n by (simp add: bit_drop_bit_eq)
    have IH: "coder_ok (put_bytes ?d2)" "same_tables ?d2 (put_bytes ?d2)"
      "m_output_room (put_bytes ?d2) \<le> m_output_room ?d2"
      "8 * m_output_room ?d2 + unat (m_bits_in (put_bytes ?d2)) \<le> 8 * m_output_room (put_bytes ?d2) + unat (m_bits_in ?d2)"
      "0 < m_output_room (put_bytes ?d2) \<longrightarrow> stream_of (put_bytes ?d2) = stream_of ?d2"
      using "1.IH" [OF True refl zero] by blast+
    have "stream_of ?d2 = stream_of d" if "0 < m_output_room d"
      using that n low_bits_split [OF n(1), of "m_bit_buffer d"] by (simp add: stream_of_def low_bits_ucast)
    then show ?thesis
      using IH n unfolding p by (auto simp: same_tables_def split: if_splits)
  qed
qed

text \<open>A step that writes the bits \<open>bs\<close>, if there is room left after it, and no more bytes than they need.\<close>

definition writes :: "bool list \<Rightarrow> tdefl_compressor \<Rightarrow> tdefl_compressor \<Rightarrow> bool" where
  "writes bs d d' \<longleftrightarrow> (coder_ok d \<longrightarrow> coder_ok d' \<and> m_output_room d' \<le> m_output_room d \<and>
     8 * m_output_room d + unat (m_bits_in d') \<le> 8 * m_output_room d' + unat (m_bits_in d) + length bs \<and>
     (0 < m_output_room d' \<longrightarrow> stream_of d' = stream_of d @ bs)) \<and> same_tables d d' \<and>
     output_space d' = output_space d"

lemma writes_nothing [intro]: "writes [] d d"
  by (simp add: writes_def same_tables_def)

lemma writes_append: "writes a d d1 \<Longrightarrow> writes b d1 d2 \<Longrightarrow> writes (a @ b) d d2"
  by (auto simp: writes_def same_tables_def)

lemma put_bits_same: "same_tables d (TDEFL_PUT_BITS b l d) \<and> output_space (TDEFL_PUT_BITS b l d) = output_space d"
  using put_bytes_same [of "d\<lparr>m_bit_buffer := m_bit_buffer d OR push_bit (unat (m_bits_in d)) b, m_bits_in := m_bits_in d + l\<rparr>"]
  by (simp_all add: TDEFL_PUT_BITS_def same_tables_def output_space_def)

lemma put_bits_writes:
  assumes "unat b < 2 ^ unat l" and "unat l \<le> 24"
  shows "writes (low_bits (unat l) b) d (TDEFL_PUT_BITS b l d)"
proof -
  let ?e = "d\<lparr>m_bit_buffer := m_bit_buffer d OR push_bit (unat (m_bits_in d)) b, m_bits_in := m_bits_in d + l\<rparr>"
  have b: "\<not> bit b i" if "unat l \<le> i" for i using no_high_bits [OF assms(1) that] .
  show ?thesis
  proof (cases "coder_ok d")
    case True
    then have d: "unat (m_bits_in d) < 8" "\<And>i. unat (m_bits_in d) \<le> i \<Longrightarrow> \<not> bit (m_bit_buffer d) i"
      by (simp_all add: coder_ok_def)
    have n: "unat (m_bits_in d + l) = unat (m_bits_in d) + unat l"
      using d(1) assms(2) by (simp add: unat_word_ariths)
    have "\<forall>i. unat (m_bits_in ?e) \<le> i \<longrightarrow> \<not> bit (m_bit_buffer ?e) i"
      using d(2) b by (simp add: n bit_or_iff bit_push_bit_iff)
    note r = put_bytes_result [OF this]
    have "low_bits (unat (m_bits_in d)) (m_bit_buffer ?e) = low_bits (unat (m_bits_in d)) (m_bit_buffer d)"
      by (simp add: low_bits_def bit_or_iff bit_push_bit_iff)
    moreover have "low_bits (unat l) (drop_bit (unat (m_bits_in d)) (m_bit_buffer ?e)) = low_bits (unat l) b"
      using d assms(2) by (simp add: low_bits_def bit_or_iff bit_push_bit_iff bit_drop_bit_eq)
    ultimately have "stream_of ?e = stream_of d @ low_bits (unat l) b"
      using low_bits_split [of "unat (m_bits_in d)" "unat (m_bits_in d) + unat l" "m_bit_buffer ?e"]
      by (simp add: stream_of_def n)
    then show ?thesis
      using r n put_bits_same [of d b l] unfolding TDEFL_PUT_BITS_def writes_def by (auto simp: same_tables_def)
  next
    case False
    then show ?thesis
      using put_bits_same [of d b l] by (simp add: writes_def)
  qed
qed

end
