(* ===== verification/Mz_Block.thy ===== *)
theory Mz_Block
  imports Mz_Bits
begin

unbundle bit_operations_syntax

text \<open>
  The start of a block in \<open>proj/sparc-prog/miniz.c\<close>: \<open>tdefl_start_dynamic_block\<close>, which makes the
  tables and sends the lengths of their codes, run-length coded, and
  \<open>tdefl_start_static_block\<close>.
\<close>

section \<open>Run lengths\<close>

text \<open>The local variables that the two macros use: the counts of table 2, the packed lengths, and
  the runs of zeros and of repeated lengths that are not yet packed.\<close>

record rle_state =
  rle_count :: "u16 list"
  packed_code_sizes :: "u8 list"
  rle_z_count :: nat
  rle_repeat_count :: nat

definition rle_add :: "nat \<Rightarrow> nat \<Rightarrow> rle_state \<Rightarrow> rle_state" where
  "rle_add i n r = r\<lparr>rle_count := (rle_count r)[i := rle_count r ! i + of_nat n]\<rparr>"

definition rle_emit :: "u8 list \<Rightarrow> rle_state \<Rightarrow> rle_state" where
  "rle_emit cs r = r\<lparr>packed_code_sizes := packed_code_sizes r @ cs\<rparr>"

definition TDEFL_RLE_PREV_CODE_SIZE :: "u8 \<Rightarrow> rle_state \<Rightarrow> rle_state" where
  "TDEFL_RLE_PREV_CODE_SIZE prev_code_size r =
    (let n = rle_repeat_count r
     in if n \<noteq> 0 then
          let r = (if n < 3 then rle_emit (replicate n prev_code_size) (rle_add (unat prev_code_size) n r)
                   else rle_emit [16, of_nat (n - 3)] (rle_add 16 1 r))
          in r\<lparr>rle_repeat_count := 0\<rparr>
        else r)"

definition TDEFL_RLE_ZERO_CODE_SIZE :: "rle_state \<Rightarrow> rle_state" where
  "TDEFL_RLE_ZERO_CODE_SIZE r =
    (let n = rle_z_count r
     in if n \<noteq> 0 then
          let r = (if n < 3 then rle_emit (replicate n 0) (rle_add 0 n r)
                   else if n \<le> 10 then rle_emit [17, of_nat (n - 3)] (rle_add 17 1 r)
                   else rle_emit [18, of_nat (n - 11)] (rle_add 18 1 r))
          in r\<lparr>rle_z_count := 0\<rparr>
        else r)"

text \<open>A round of the loop over the lengths; \<open>prev_code_size\<close> goes along.\<close>

definition rle_round :: "u8 \<Rightarrow> u8 \<times> rle_state \<Rightarrow> u8 \<times> rle_state" where
  "rle_round code_size = (\<lambda>(prev_code_size, r).
    (code_size,
     if code_size = 0 then
       let r = TDEFL_RLE_PREV_CODE_SIZE prev_code_size r;
           r = r\<lparr>rle_z_count := rle_z_count r + 1\<rparr>
       in if rle_z_count r = 138 then TDEFL_RLE_ZERO_CODE_SIZE r else r
     else
       let r = TDEFL_RLE_ZERO_CODE_SIZE r
       in if code_size \<noteq> prev_code_size then
            let r = TDEFL_RLE_PREV_CODE_SIZE prev_code_size r
            in rle_emit [code_size] (rle_add (unat code_size) 1 r)
          else
            let r = r\<lparr>rle_repeat_count := rle_repeat_count r + 1\<rparr>
            in if rle_repeat_count r = 6 then TDEFL_RLE_PREV_CODE_SIZE prev_code_size r else r))"

definition rle_pack :: "u16 list \<Rightarrow> u8 list \<Rightarrow> rle_state" where
  "rle_pack cnt code_sizes_to_pack =
    (case fold rle_round code_sizes_to_pack
        (0xFF, \<lparr>rle_count = cnt, packed_code_sizes = [], rle_z_count = 0, rle_repeat_count = 0\<rparr>) of
       (prev_code_size, r) \<Rightarrow>
         if rle_repeat_count r \<noteq> 0 then TDEFL_RLE_PREV_CODE_SIZE prev_code_size r
         else TDEFL_RLE_ZERO_CODE_SIZE r)"

section \<open>Dynamic blocks\<close>

definition swizzle :: "nat list" where
  "swizzle = [16, 17, 18, 0, 8, 7, 9, 6, 10, 5, 11, 4, 12, 3, 13, 2, 14, 1, 15]"

text \<open>\<open>for (n = high; n > low; n--) if (sizes[n - 1]) break;\<close>\<close>

primrec trim_codes :: "u8 list \<Rightarrow> nat \<Rightarrow> nat \<Rightarrow> nat" where
  "trim_codes sizes low 0 = 0"
| "trim_codes sizes low (Suc n) =
    (if low < Suc n \<and> sizes ! n = 0 then trim_codes sizes low n else Suc n)"

definition rle_extra_bits :: "nat \<Rightarrow> u32" where
  "rle_extra_bits code = [2, 3, 7] ! (code - 16)"

definition put_code :: "nat \<Rightarrow> nat \<Rightarrow> tdefl_compressor \<Rightarrow> tdefl_compressor" where
  "put_code k s d = TDEFL_PUT_BITS (ucast (m_huff_codes d ! k ! s)) (ucast (m_huff_code_sizes d ! k ! s)) d"

text \<open>The loop over the packed lengths; the one after a repeat code holds its extra bits (\<open>None\<close>:
  there is none).\<close>

fun put_packed :: "u8 list \<Rightarrow> tdefl_compressor \<Rightarrow> tdefl_compressor option" where
  "put_packed [] d = Some d"
| "put_packed (code # cs) d =
    (let d = put_code 2 (unat code) d
     in if 16 \<le> code then
          (case cs of
             [] \<Rightarrow> None
           | extra # cs \<Rightarrow> put_packed cs (TDEFL_PUT_BITS (ucast extra) (rle_extra_bits (unat code)) d))
        else put_packed cs d)"

definition put_bit_lengths :: "nat \<Rightarrow> tdefl_compressor \<Rightarrow> tdefl_compressor" where
  "put_bit_lengths num_bit_lengths d =
    fold (\<lambda>i d. TDEFL_PUT_BITS (ucast (m_huff_code_sizes d ! 2 ! (swizzle ! i))) 3 d) [0..<num_bit_lengths] d"

text \<open>The number of lengths of table 2 to send: \<open>MZ_MAX(4, (num_bit_lengths + 1))\<close>.\<close>

definition bit_lengths_used :: "tdefl_compressor \<Rightarrow> nat" where
  "bit_lengths_used d = max 4 (trim_codes (map (\<lambda>i. m_huff_code_sizes d ! 2 ! i) swizzle) 0 19)"

definition dynamic_tables :: "tdefl_compressor \<Rightarrow> tdefl_compressor option" where
  "dynamic_tables d =
    (let d = d\<lparr>m_huff_count := (m_huff_count d)[0 := (m_huff_count d ! 0)[256 := 1]]\<rparr>
     in do {
       d \<leftarrow> tdefl_optimize_huffman_table d 0 TDEFL_MAX_HUFF_SYMBOLS_0 15 False;
       tdefl_optimize_huffman_table d 1 TDEFL_MAX_HUFF_SYMBOLS_1 15 False })"

definition lengths_table :: "nat \<Rightarrow> nat \<Rightarrow> tdefl_compressor \<Rightarrow> (u8 list \<times> tdefl_compressor) option" where
  "lengths_table num_lit_codes num_dist_codes d =
    (let code_sizes_to_pack = take num_lit_codes (m_huff_code_sizes d ! 0) @
           take num_dist_codes (m_huff_code_sizes d ! 1);
         cnt = replicate TDEFL_MAX_HUFF_SYMBOLS_2 0 @ drop TDEFL_MAX_HUFF_SYMBOLS_2 (m_huff_count d ! 2);
         r = rle_pack cnt code_sizes_to_pack;
         d = d\<lparr>m_huff_count := (m_huff_count d)[2 := rle_count r]\<rparr>
     in do {
       d \<leftarrow> tdefl_optimize_huffman_table d 2 TDEFL_MAX_HUFF_SYMBOLS_2 7 False;
       Some (packed_code_sizes r, d) })"

definition tdefl_start_dynamic_block :: "tdefl_compressor \<Rightarrow> tdefl_compressor option" where
  "tdefl_start_dynamic_block d =
    do {
      d \<leftarrow> dynamic_tables d;
      let num_lit_codes = trim_codes (m_huff_code_sizes d ! 0) 257 286;
      let num_dist_codes = trim_codes (m_huff_code_sizes d ! 1) 1 30;
      (packed, d) \<leftarrow> lengths_table num_lit_codes num_dist_codes d;
      let d = TDEFL_PUT_BITS 2 2 d;
      let d = TDEFL_PUT_BITS (of_nat (num_lit_codes - 257)) 5 d;
      let d = TDEFL_PUT_BITS (of_nat (num_dist_codes - 1)) 5 d;
      let num_bit_lengths = bit_lengths_used d;
      let d = TDEFL_PUT_BITS (of_nat (num_bit_lengths - 4)) 4 d;
      let d = put_bit_lengths num_bit_lengths d;
      put_packed packed d
    }"

section \<open>Static blocks\<close>

definition static_lit_sizes :: "u8 list" where
  "static_lit_sizes = replicate 144 8 @ replicate 112 9 @ replicate 24 7 @ replicate 8 8"

definition tdefl_start_static_block :: "tdefl_compressor \<Rightarrow> tdefl_compressor option" where
  "tdefl_start_static_block d =
    (let d = d\<lparr>m_huff_code_sizes := (m_huff_code_sizes d)[0 := static_lit_sizes]\<rparr>;
         d = d\<lparr>m_huff_code_sizes := (m_huff_code_sizes d)[1 := replicate 32 5 @ drop 32 (m_huff_code_sizes d ! 1)]\<rparr>
     in do {
       d \<leftarrow> tdefl_optimize_huffman_table d 0 288 15 True;
       d \<leftarrow> tdefl_optimize_huffman_table d 1 32 15 True;
       Some (TDEFL_PUT_BITS 1 2 d) })"

section \<open>Unpacking\<close>

text \<open>The meaning of the packed lengths (RFC 1951): 16 repeats the last length, 17 and 18 are runs
  of zeros.\<close>

fun rle_unpack :: "u8 list \<Rightarrow> u8 list \<Rightarrow> u8 list option" where
  "rle_unpack [] out = Some out"
| "rle_unpack (c # cs) out =
    (if c < 16 then rle_unpack cs (out @ [c])
     else
       (case cs of
          [] \<Rightarrow> None
        | e # cs \<Rightarrow>
            if c = 16 \<and> out \<noteq> [] \<and> e < 4 then rle_unpack cs (out @ replicate (3 + unat e) (last out))
            else if c = 17 \<and> e < 8 then rle_unpack cs (out @ replicate (3 + unat e) 0)
            else if c = 18 \<and> e < 128 then rle_unpack cs (out @ replicate (11 + unat e) 0)
            else None))"

text \<open>The symbols of table 2 among the packed lengths.\<close>

fun codes_of :: "u8 list \<Rightarrow> u8 list" where
  "codes_of [] = []"
| "codes_of (c # cs) = c # (if c < 16 then codes_of cs else (case cs of [] \<Rightarrow> [] | e # cs \<Rightarrow> codes_of cs))"

lemma rle_unpack_append:
  assumes "rle_unpack a out = Some out1"
  shows "rle_unpack (a @ b) out = rle_unpack b out1 \<and> codes_of (a @ b) = codes_of a @ codes_of b"
  using assms
proof (induction a out rule: rle_unpack.induct)
  case (1 out)
  then show ?case by simp
next
  case (2 c cs out)
  show ?case
  proof (cases "c < 16")
    case True
    then show ?thesis using 2 by simp
  next
    case False
    then obtain e es where cs: "cs = e # es" using 2 by (cases cs) simp_all
    consider "c = 16" "out \<noteq> []" "e < 4" | "c = 17" "e < 8" | "c = 18" "e < 128"
      using 2(5) False cs by (auto split: if_splits)
    then show ?thesis using 2(2-5) False cs by cases simp_all
  qed
qed

lemma codes_of_less: "rle_unpack a out = Some out1 \<Longrightarrow> c \<in> set (codes_of a) \<Longrightarrow> c < 19"
proof (induction a out rule: rle_unpack.induct)
  case (2 c' cs out)
  then show ?case by (auto simp: word_less_nat_alt split: if_splits list.splits)
qed simp

lemma length_codes_of: "length (codes_of a) \<le> length a"
  by (induction a rule: codes_of.induct) (auto split: list.splits)

section \<open>Packing loses nothing\<close>

text \<open>The packed lengths stand for \<open>out\<close>, are no longer than it, and the counts are theirs.\<close>

definition rle_at :: "u8 list \<Rightarrow> rle_state \<Rightarrow> bool" where
  "rle_at out r \<longleftrightarrow> rle_unpack (packed_code_sizes r) [] = Some out \<and>
     length (packed_code_sizes r) \<le> length out \<and> 19 \<le> length (rle_count r) \<and>
     (\<forall>i < 19. rle_count r ! i = of_nat (count_list (codes_of (packed_code_sizes r)) (of_nat i)))"

lemma rle_at_emit:
  assumes "rle_at out r" and "rle_unpack cs out = Some (out @ new)" and "length cs \<le> length new"
    and "k < 19" and "codes_of cs = replicate n (of_nat k)"
  shows "rle_at (out @ new) (rle_emit cs (rle_add k n r))"
proof -
  have p: "rle_unpack (packed_code_sizes r) [] = Some out" using assms(1) by (simp add: rle_at_def)
  have same: "(of_nat k = (of_nat i :: u8)) \<longleftrightarrow> k = i" if "i < 19" for i
  proof -
    have "unat (of_nat j :: u8) = j" if "j < 19" for j using that by (simp add: unsigned_of_nat take_bit_nat_eq_self)
    then show ?thesis using that assms(4) by (metis)
  qed
  have "count_list (replicate n x) y = (if x = y then n else 0)" for n and x y :: u8 by (induction n) auto
  then show ?thesis
    using assms same rle_unpack_append [OF p, of cs]
    by (auto simp: rle_at_def rle_emit_def rle_add_def nth_list_update)
qed

lemma rle_at_literals:
  assumes "rle_at out r" and "c < 16"
  shows "rle_at (out @ replicate n c) (rle_emit (replicate n c) (rle_add (unat c) n r))"
proof (rule rle_at_emit [OF assms(1)])
  have "rle_unpack (replicate n c) out = Some (out @ replicate n c)" for out
    using assms(2) by (induction n arbitrary: out) (simp_all add: replicate_app_Cons_same)
  then show "rle_unpack (replicate n c) out = Some (out @ replicate n c)" .
  show "codes_of (replicate n c) = replicate n (of_nat (unat c))" using assms(2) by (induction n) simp_all
  show "unat c < 19" using assms(2) by (simp add: word_less_nat_alt)
qed simp

lemma rle_at_run:
  assumes "rle_at out r" and "n < 256"
  shows "out \<noteq> [] \<Longrightarrow> n < 4 \<Longrightarrow>
      rle_at (out @ replicate (3 + n) (last out)) (rle_emit [16, of_nat n] (rle_add 16 1 r))"
    and "n < 8 \<Longrightarrow> rle_at (out @ replicate (3 + n) 0) (rle_emit [17, of_nat n] (rle_add 17 1 r))"
    and "n < 128 \<Longrightarrow> rle_at (out @ replicate (11 + n) 0) (rle_emit [18, of_nat n] (rle_add 18 1 r))"
proof -
  have u: "unat (of_nat n :: u8) = n" using assms(2) by (simp add: unsigned_of_nat take_bit_nat_eq_self)
  have less: "(of_nat n :: u8) < 4 \<longleftrightarrow> n < 4" "(of_nat n :: u8) < 8 \<longleftrightarrow> n < 8" "(of_nat n :: u8) < 128 \<longleftrightarrow> n < 128"
    by (simp_all add: word_less_nat_alt u)
  show "rle_at (out @ replicate (3 + n) (last out)) (rle_emit [16, of_nat n] (rle_add 16 1 r))"
    if "out \<noteq> []" "n < 4" using that by (intro rle_at_emit [OF assms(1)]) (simp_all add: u less)
  show "rle_at (out @ replicate (3 + n) 0) (rle_emit [17, of_nat n] (rle_add 17 1 r))" if "n < 8"
    using that by (intro rle_at_emit [OF assms(1)]) (simp_all add: u less)
  show "rle_at (out @ replicate (11 + n) 0) (rle_emit [18, of_nat n] (rle_add 18 1 r))" if "n < 128"
    using that by (intro rle_at_emit [OF assms(1)]) (simp_all add: u less)
qed

lemma rle_at_counters [simp]:
  "rle_at out (r\<lparr>rle_z_count := z\<rparr>) = rle_at out r" "rle_at out (r\<lparr>rle_repeat_count := n\<rparr>) = rle_at out r"
  by (simp_all add: rle_at_def)

lemma rle_emit_counters [simp]:
  "rle_z_count (rle_emit cs r) = rle_z_count r" "rle_repeat_count (rle_emit cs r) = rle_repeat_count r"
  "rle_z_count (rle_add i n r) = rle_z_count r" "rle_repeat_count (rle_add i n r) = rle_repeat_count r"
  by (simp_all add: rle_emit_def rle_add_def)

lemma flush_repeats:
  assumes "rle_at out r" and "rle_repeat_count r \<le> 6"
    and "rle_repeat_count r \<noteq> 0 \<Longrightarrow> out \<noteq> [] \<and> last out = prev \<and> prev < 16"
  shows "rle_at (out @ replicate (rle_repeat_count r) prev) (TDEFL_RLE_PREV_CODE_SIZE prev r)"
    and "rle_repeat_count (TDEFL_RLE_PREV_CODE_SIZE prev r) = 0"
    and "rle_z_count (TDEFL_RLE_PREV_CODE_SIZE prev r) = rle_z_count r"
proof -
  let ?n = "rle_repeat_count r"
  show "rle_at (out @ replicate ?n prev) (TDEFL_RLE_PREV_CODE_SIZE prev r)"
  proof (cases "?n = 0 \<or> ?n < 3")
    case True
    then show ?thesis
      using assms(1,3) rle_at_literals [OF assms(1), of prev ?n] by (auto simp: TDEFL_RLE_PREV_CODE_SIZE_def Let_def)
  next
    case False
    then have "3 + (?n - 3) = ?n" by simp
    then show ?thesis
      using False assms(2,3) rle_at_run(1) [OF assms(1), of "?n - 3"]
      by (simp add: TDEFL_RLE_PREV_CODE_SIZE_def Let_def)
  qed
qed (simp_all add: TDEFL_RLE_PREV_CODE_SIZE_def Let_def)

lemma flush_zeros:
  assumes "rle_at out r" and "rle_z_count r \<le> 138"
  shows "rle_at (out @ replicate (rle_z_count r) 0) (TDEFL_RLE_ZERO_CODE_SIZE r)"
    and "rle_z_count (TDEFL_RLE_ZERO_CODE_SIZE r) = 0"
    and "rle_repeat_count (TDEFL_RLE_ZERO_CODE_SIZE r) = rle_repeat_count r"
proof -
  let ?n = "rle_z_count r"
  consider "?n < 3" | "3 \<le> ?n" "?n \<le> 10" | "10 < ?n" by linarith
  then show "rle_at (out @ replicate ?n 0) (TDEFL_RLE_ZERO_CODE_SIZE r)"
  proof cases
    case 1
    then show ?thesis
      using assms(1) rle_at_literals [OF assms(1), of 0 ?n] by (auto simp: TDEFL_RLE_ZERO_CODE_SIZE_def Let_def)
  next
    case 2
    then have "3 + (?n - 3) = ?n" by simp
    then show ?thesis
      using 2 rle_at_run(2) [OF assms(1), of "?n - 3"] by (simp add: TDEFL_RLE_ZERO_CODE_SIZE_def Let_def)
  next
    case 3
    then have "11 + (?n - 11) = ?n" by simp
    then show ?thesis
      using 3 assms(2) rle_at_run(3) [OF assms(1), of "?n - 11"] by (simp add: TDEFL_RLE_ZERO_CODE_SIZE_def Let_def)
  qed
qed (simp_all add: TDEFL_RLE_ZERO_CODE_SIZE_def Let_def)

text \<open>Between two rounds, with the lengths \<open>xs\<close> read: what is packed, and the run waiting.\<close>

definition rle_inv :: "u8 list \<Rightarrow> u8 \<Rightarrow> rle_state \<Rightarrow> bool" where
  "rle_inv xs prev r \<longleftrightarrow> (\<exists>out. rle_at out r \<and>
     xs = out @ replicate (rle_z_count r) 0 @ replicate (rle_repeat_count r) prev \<and>
     (rle_z_count r = 0 \<or> rle_repeat_count r = 0) \<and> rle_z_count r < 138 \<and> rle_repeat_count r < 6 \<and>
     (rle_repeat_count r \<noteq> 0 \<longrightarrow> out \<noteq> [] \<and> last out = prev)) \<and>
     prev = (if xs = [] then 0xFF else last xs)"

lemma rle_inv_round:
  assumes inv: "rle_inv xs prev r" and small: "\<forall>x \<in> set xs. x < 16" and c: "c < 16"
    and round: "rle_round c (prev, r) = (c', r')"
  shows "rle_inv (xs @ [c]) c' r'"
proof -
  let ?z = "rle_z_count r" and ?n = "rle_repeat_count r"
  obtain out where out: "rle_at out r" "xs = out @ replicate ?z 0 @ replicate ?n prev"
    "?z = 0 \<or> ?n = 0" "?z < 138" "?n < 6" "?n \<noteq> 0 \<longrightarrow> out \<noteq> [] \<and> last out = prev"
    "prev = (if xs = [] then 0xFF else last xs)"
    using inv by (auto simp: rle_inv_def)
  have c': "c' = c" using round by (simp add: rle_round_def)
  have prev: "prev < 16" if "xs \<noteq> []" using that out(7) small by simp
  have prev_n: "?n \<noteq> 0 \<Longrightarrow> out \<noteq> [] \<and> last out = prev \<and> prev < 16" using out(2,6) prev by auto
  show ?thesis
  proof (cases "c = 0")
    case True
    let ?r = "TDEFL_RLE_PREV_CODE_SIZE prev r"
    have F: "rle_at (out @ replicate ?n prev) ?r" "rle_repeat_count ?r = 0" "rle_z_count ?r = ?z"
      using flush_repeats [OF out(1) _ prev_n] out(5) by simp_all
    let ?s = "?r\<lparr>rle_z_count := ?z + 1\<rparr>"
    have xs: "xs @ [0] = (out @ replicate ?n prev) @ replicate (?z + 1) 0"
      using out(2,3) by (auto simp: replicate_append_same)
    have r': "r' = (if ?z + 1 = 138 then TDEFL_RLE_ZERO_CODE_SIZE ?s else ?s)"
      using round True F(3) by (auto simp: rle_round_def Let_def split: if_splits)
    show ?thesis
    proof (cases "?z + 1 = 138")
      case full: True
      have s: "rle_z_count ?s = ?z + 1" "rle_at (out @ replicate ?n prev) ?s" "rle_z_count ?s \<le> 138"
        using F(1) full by simp_all
      have "rle_at (xs @ [0]) (TDEFL_RLE_ZERO_CODE_SIZE ?s)"
        using flush_zeros(1) [OF s(2,3)] by (simp only: xs s(1))
      moreover have "rle_z_count (TDEFL_RLE_ZERO_CODE_SIZE ?s) = 0"
        "rle_repeat_count (TDEFL_RLE_ZERO_CODE_SIZE ?s) = 0"
        using flush_zeros(2,3) [OF s(2,3)] F(2) by simp_all
      ultimately show ?thesis using True c' r' full by (auto simp: rle_inv_def)
    next
      case False
      then show ?thesis
        using True c' r' F out(4) xs
        by (auto simp: rle_inv_def intro!: exI [of _ "out @ replicate ?n prev"])
    qed
  next
    case False
    let ?r = "TDEFL_RLE_ZERO_CODE_SIZE r"
    have F: "rle_at (out @ replicate ?z 0) ?r" "rle_z_count ?r = 0" "rle_repeat_count ?r = ?n"
      using flush_zeros [OF out(1)] out(4) by simp_all
    show ?thesis
    proof (cases "c = prev")
      case new: False
      let ?s = "TDEFL_RLE_PREV_CODE_SIZE prev ?r"
      have "?n \<noteq> 0 \<Longrightarrow> out @ replicate ?z 0 \<noteq> [] \<and> last (out @ replicate ?z 0) = prev \<and> prev < 16"
        using prev_n out(3) by auto
      then have G: "rle_at (out @ replicate ?z 0 @ replicate ?n prev) ?s" "rle_repeat_count ?s = 0" "rle_z_count ?s = 0"
        using flush_repeats [OF F(1), of prev] F(2,3) out(5) by simp_all
      have "rle_at (xs @ [c]) (rle_emit [c] (rle_add (unat c) 1 ?s))"
        using rle_at_literals [OF G(1) c, of 1] out(2) by simp
      moreover have "r' = rle_emit [c] (rle_add (unat c) 1 ?s)"
        using round False new by (auto simp: rle_round_def Let_def)
      ultimately show ?thesis using c' G(2,3) by (auto simp: rle_inv_def)
    next
      case same: True
      have xs: "xs \<noteq> []" using out(7) same c by (auto simp: word_less_nat_alt)
      have z: "?z = 0"
      proof (rule ccontr)
        assume "?z \<noteq> 0"
        then have "?n = 0" "last xs = 0" using out(2,3) by simp_all
        then show False using out(7) xs same False by simp
      qed
      then have F0: "rle_at out ?r" using F(1) by simp
      let ?s = "?r\<lparr>rle_repeat_count := ?n + 1\<rparr>"
      have last: "out \<noteq> [] \<and> last out = prev" using out(2,6,7) xs z by (cases "?n = 0") simp_all
      have xs': "xs @ [c] = out @ replicate (?n + 1) prev"
        using out(2) z same by (simp add: replicate_append_same)
      have r': "r' = (if ?n + 1 = 6 then TDEFL_RLE_PREV_CODE_SIZE prev ?s else ?s)"
        using round False same F(3) by (auto simp: rle_round_def Let_def split: if_splits)
      show ?thesis
      proof (cases "?n + 1 = 6")
        case True
        have s: "rle_repeat_count ?s = ?n + 1" "rle_at out ?s" "rle_repeat_count ?s \<le> 6"
          using F0 True by simp_all
        have p: "out \<noteq> [] \<and> last out = prev \<and> prev < 16" using last prev [OF xs] by simp
        have "rle_at (out @ replicate (rle_repeat_count ?s) prev) (TDEFL_RLE_PREV_CODE_SIZE prev ?s)"
          using flush_repeats(1) [OF s(2,3)] p by blast
        then have "rle_at (xs @ [c]) (TDEFL_RLE_PREV_CODE_SIZE prev ?s)" by (simp only: xs' s(1))
        moreover have "rle_repeat_count (TDEFL_RLE_PREV_CODE_SIZE prev ?s) = 0"
          "rle_z_count (TDEFL_RLE_PREV_CODE_SIZE prev ?s) = 0"
          using flush_repeats(2,3) [OF s(2,3)] p F(2) by simp_all
        ultimately show ?thesis using r' True c' by (auto simp: rle_inv_def)
      next
        case short: False
        then show ?thesis
          using r' c' F0 F(2) last out(5) xs' same by (auto simp: rle_inv_def intro!: exI [of _ out])
      qed
    qed
  qed
qed

lemma rle_counts_used:
  assumes "rle_at xs r" and "length xs \<le> 320"
  shows "\<forall>c \<in> set (codes_of (packed_code_sizes r)). rle_count r ! unat c \<noteq> 0"
proof
  fix c assume c: "c \<in> set (codes_of (packed_code_sizes r))"
  have "c < 19" using assms(1) c by (auto simp: rle_at_def intro: codes_of_less)
  then have i: "unat c < 19" by (simp add: word_less_nat_alt)
  let ?n = "count_list (codes_of (packed_code_sizes r)) c"
  have "?n \<le> length (codes_of (packed_code_sizes r))" by (rule count_le_length)
  also have "\<dots> \<le> length (packed_code_sizes r)" by (rule length_codes_of)
  also have "\<dots> \<le> 320" using assms by (simp add: rle_at_def)
  finally have "?n < 65536" by simp
  moreover have "?n \<noteq> 0" using c by (simp add: count_list_0_iff)
  ultimately have "(of_nat ?n :: u16) \<noteq> 0"
    by (simp add: word_of_nat_eq_0_iff dvd_imp_le nat_dvd_not_less)
  then show "rle_count r ! unat c \<noteq> 0" using assms(1) i by (simp add: rle_at_def)
qed

lemma rle_pack_result:
  assumes "\<forall>x \<in> set xs. x < 16" and "19 \<le> length cnt" and "\<forall>i < 19. cnt ! i = 0"
  shows "rle_at xs (rle_pack cnt xs)"
proof -
  let ?r0 = "\<lparr>rle_count = cnt, packed_code_sizes = [], rle_z_count = 0, rle_repeat_count = 0\<rparr>"
  have "case fold rle_round xs (0xFF, ?r0) of (prev, r) \<Rightarrow> rle_inv xs prev r"
    using assms(1)
  proof (induction xs rule: rev_induct)
    case Nil
    show ?case using assms(2,3) by (simp add: rle_inv_def rle_at_def)
  next
    case (snoc x xs)
    obtain prev r where f: "fold rle_round xs (0xFF, ?r0) = (prev, r)" by fastforce
    obtain prev' r' where g: "rle_round x (prev, r) = (prev', r')" by fastforce
    have "rle_inv (xs @ [x]) prev' r'"
      using rle_inv_round [OF _ _ _ g] snoc f by simp
    then show ?case using f g by simp
  qed
  then obtain prev r where f: "fold rle_round xs (0xFF, ?r0) = (prev, r)" and inv: "rle_inv xs prev r"
    by (auto split: prod.splits)
  obtain out where out: "rle_at out r" "xs = out @ replicate (rle_z_count r) 0 @ replicate (rle_repeat_count r) prev"
    "rle_z_count r = 0 \<or> rle_repeat_count r = 0" "rle_z_count r < 138" "rle_repeat_count r < 6"
    "rle_repeat_count r \<noteq> 0 \<longrightarrow> out \<noteq> [] \<and> last out = prev"
    using inv by (auto simp: rle_inv_def)
  have pack: "rle_pack cnt xs = (if rle_repeat_count r \<noteq> 0 then TDEFL_RLE_PREV_CODE_SIZE prev r
      else TDEFL_RLE_ZERO_CODE_SIZE r)"
    by (simp add: rle_pack_def f)
  show ?thesis
    unfolding pack
  proof (cases "rle_repeat_count r = 0")
    case True
    then show "rle_at xs (if rle_repeat_count r \<noteq> 0 then TDEFL_RLE_PREV_CODE_SIZE prev r
        else TDEFL_RLE_ZERO_CODE_SIZE r)"
      using flush_zeros(1) [OF out(1)] out(2,4) by simp
  next
    case False
    then have "prev < 16" using out(2) assms(1) by (metis Un_iff in_set_replicate set_append)
    then show "rle_at xs (if rle_repeat_count r \<noteq> 0 then TDEFL_RLE_PREV_CODE_SIZE prev r
        else TDEFL_RLE_ZERO_CODE_SIZE r)"
      using flush_repeats(1) [OF out(1), of prev] out(2,3,5,6) False by simp
  qed
qed

text \<open>Packing the code lengths for a dynamic block loses nothing and overruns nothing.  For
  lengths of at most 15 bits, the packed form is never longer than the list (it is written to an array of
  that size), unpacking it as RFC 1951 says gives the lengths back (the repeat counts fit their 2, 3
  and 7 extra bits), and every symbol used in it has been counted, so that table 2 has a code
  for it.\<close>

theorem packed_lengths_unpack:
  assumes "\<forall>x \<in> set xs. x \<le> 15" and "length xs \<le> 320"
  shows "rle_unpack (packed_code_sizes (rle_pack (replicate 19 0) xs)) [] = Some xs \<and>
    length (packed_code_sizes (rle_pack (replicate 19 0) xs)) \<le> length xs \<and>
    (\<forall>c \<in> set (codes_of (packed_code_sizes (rle_pack (replicate 19 0) xs))).
       rle_count (rle_pack (replicate 19 0) xs) ! unat c \<noteq> 0)"
proof -
  let ?r = "rle_pack (replicate 19 0) xs"
  have "\<forall>x \<in> set xs. x < 16" using assms(1) by (auto simp: word_less_nat_alt word_le_nat_alt)
  then have r: "rle_at xs ?r" using rle_pack_result [of xs "replicate 19 0"] by simp
  then show ?thesis using rle_counts_used [OF r assms(2)] by (simp add: rle_at_def)
qed

theorem packed_lengths_unpack_witness:
  "rle_unpack (packed_code_sizes (rle_pack (replicate 19 0) (replicate 8 7 @ replicate 200 0 @ [3, 3])))
    [] = Some (replicate 8 7 @ replicate 200 0 @ [3, 3])"
  using packed_lengths_unpack [of "replicate 8 7 @ replicate 200 0 @ [3, 3]"] by auto

end
