(* ===== verification/Mz_Inflate.thy ===== *)
theory Mz_Inflate
  imports Mz_Block
begin

unbundle bit_operations_syntax

text \<open>
  What a stream of deflate blocks means (RFC 1951), as functions on lists of bits: the reference
  against which the output of the compressor is read.  This is not a model of the decompressor
  of \<open>miniz.c\<close>.
\<close>

section \<open>Bits and symbols\<close>

definition read_bits :: "nat \<Rightarrow> bool list \<Rightarrow> (nat \<times> bool list) option" where
  "read_bits n bs =
    (if n \<le> length bs then Some (horner_sum of_bool 2 (take n bs), drop n bs) else None)"

text \<open>The symbol of a table of lengths whose canonical code comes next.\<close>

definition code_matches :: "nat \<Rightarrow> u8 list \<Rightarrow> bool list \<Rightarrow> nat \<Rightarrow> bool" where
  "code_matches n sizes bs s \<longleftrightarrow> sizes ! s \<noteq> 0 \<and>
     take (unat (sizes ! s)) bs = low_bits (unat (sizes ! s)) (canonical_code n sizes s)"

definition read_symbol :: "nat \<Rightarrow> u8 list \<Rightarrow> bool list \<Rightarrow> (nat \<times> bool list) option" where
  "read_symbol n sizes bs =
    (case filter (code_matches n sizes bs) [0..<n] of
       [] \<Rightarrow> None
     | s # _ \<Rightarrow> Some (s, drop (unat (sizes ! s)) bs))"

lemma read_bits_low:
  assumes "n \<le> LENGTH('a)"
  shows "read_bits n (low_bits n (w :: 'a :: len word) @ bs) = Some (take_bit n (unat w), bs)"
proof -
  have "low_bits n w = map (bit (unat w)) [0..<n]"
    using assms by (simp add: low_bits_def bit_unsigned_iff)
  then show ?thesis by (simp add: read_bits_def horner_sum_bit_eq_take_bit)
qed

text \<open>A table whose canonical codes are the codes of a prefix code.\<close>

definition good_table :: "nat \<Rightarrow> u8 list \<Rightarrow> u16 list \<Rightarrow> bool" where
  "good_table n sizes codes \<longleftrightarrow> prefix_free n sizes codes \<and>
     (\<forall>s < n. unat (sizes ! s) \<le> 15) \<and>
     (\<forall>s < n. sizes ! s \<noteq> 0 \<longrightarrow> unat (codes ! s) < 2 ^ unat (sizes ! s)) \<and>
     (\<forall>s < n. sizes ! s \<noteq> 0 \<longrightarrow> codes ! s = canonical_code n sizes s)"

definition symbol_bits :: "u8 list \<Rightarrow> u16 list \<Rightarrow> nat \<Rightarrow> bool list" where
  "symbol_bits sizes codes s = low_bits (unat (sizes ! s)) (codes ! s)"

lemma low_bits_eq_iff:
  "low_bits n (x :: 'a :: len word) = low_bits n y \<longleftrightarrow> take_bit n x = take_bit n y"
proof -
  have "low_bits n x = low_bits n y \<longleftrightarrow> (\<forall>i < n. bit x i = bit y i)" by (auto simp: low_bits_def)
  moreover have "take_bit n x = take_bit n y \<longleftrightarrow> (\<forall>i < n. bit x i = bit y i)"
  proof
    assume "take_bit n x = take_bit n y"
    then have "bit (take_bit n x) i = bit (take_bit n y) i" for i by simp
    then show "\<forall>i < n. bit x i = bit y i" by (auto simp: bit_take_bit_iff)
  qed (auto intro!: bit_word_eqI simp: bit_take_bit_iff)
  ultimately show ?thesis by simp
qed

lemma take_low_bits: "k \<le> n \<Longrightarrow> take k (low_bits n w) = low_bits k w"
  by (simp add: low_bits_def take_map)

lemma take_bit_code:
  assumes "unat (w :: u16) < 2 ^ n"
  shows "take_bit n w = w"
proof (rule bit_word_eqI)
  show "bit (take_bit n w) i = bit w i" for i
    using no_high_bits [OF assms, of i] by (cases "i < n") (simp_all add: bit_take_bit_iff)
qed

lemma code_matches_only:
  assumes g: "good_table n sizes codes" and s: "s < n" "sizes ! s \<noteq> 0" and t: "t < n"
  shows "code_matches n sizes (symbol_bits sizes codes s @ bs) t \<longleftrightarrow> t = s"
proof
  assume m: "code_matches n sizes (symbol_bits sizes codes s @ bs) t"
  let ?a = "unat (sizes ! s)" and ?b = "unat (sizes ! t)"
  have t0: "sizes ! t \<noteq> 0" using m by (simp add: code_matches_def)
  have c: "codes ! t = canonical_code n sizes t" using g t t0 by (simp add: good_table_def)
  have a: "?a \<le> 15" "?b \<le> 15" using g s t by (simp_all add: good_table_def)
  have eq: "take ?b (symbol_bits sizes codes s @ bs) = low_bits ?b (codes ! t)"
    using m by (simp add: code_matches_def c)
  have small: "take_bit ?a (codes ! s) = codes ! s" "take_bit ?b (codes ! t) = codes ! t"
    using g s t t0 unfolding good_table_def by (blast intro: take_bit_code)+
  show "t = s"
  proof (rule ccontr)
    assume ne: "t \<noteq> s"
    show False
    proof (cases "sizes ! s \<le> sizes ! t")
      case True
      then have le: "?a \<le> ?b" by (simp add: word_le_nat_alt)
      have "low_bits ?a (codes ! t) = take ?a (take ?b (symbol_bits sizes codes s @ bs))"
        unfolding eq using le by (simp add: take_low_bits)
      also have "\<dots> = low_bits ?a (codes ! s)" using le by (simp add: symbol_bits_def min_def)
      finally have "take_bit ?a (codes ! t) = codes ! s"
        using a small(1) by (simp add: low_bits_eq_iff)
      then show False using g s t ne True by (auto simp: good_table_def prefix_free_def)
    next
      case False
      then have le: "?b \<le> ?a" "sizes ! t \<le> sizes ! s" by (simp_all add: word_le_nat_alt not_le)
      have "low_bits ?b (codes ! s) = low_bits ?b (codes ! t)"
        using eq le by (simp add: symbol_bits_def take_low_bits)
      then have "take_bit ?b (codes ! s) = codes ! t" using a small(2) by (simp add: low_bits_eq_iff)
      then show False using g s t t0 ne le(2) unfolding good_table_def prefix_free_def by blast
    qed
  qed
next
  assume "t = s"
  then show "code_matches n sizes (symbol_bits sizes codes s @ bs) t"
    using g s by (simp add: code_matches_def symbol_bits_def good_table_def)
qed

lemma read_symbol_bits:
  assumes "good_table n sizes codes" and "s < n" and "sizes ! s \<noteq> 0"
  shows "read_symbol n sizes (symbol_bits sizes codes s @ bs) = Some (s, bs)"
proof -
  have "filter (code_matches n sizes (symbol_bits sizes codes s @ bs)) [0..<n] = filter (\<lambda>t. t = s) [0..<n]"
    using code_matches_only [OF assms] by (intro filter_cong) simp_all
  also have "\<dots> = [s]"
  proof -
    have "[0..<n] = [0..<s] @ s # [Suc s..<n]"
      using assms(2) upt_add_eq_append [of 0 s "n - s"] upt_conv_Cons [of s n] by simp
    moreover have "filter (\<lambda>t. t = s) [0..<s] = []" "filter (\<lambda>t. t = s) [Suc s..<n] = []"
      by (simp_all add: filter_empty_conv)
    ultimately show ?thesis by simp
  qed
  finally show ?thesis by (simp add: read_symbol_def symbol_bits_def)
qed

section \<open>Full codes\<close>

text \<open>The share of the code space that the codes take, in units of a code of 15 bits.\<close>

definition kraft :: "u8 list \<Rightarrow> nat" where
  "kraft sizes = sum_list (map (\<lambda>x. if x = 0 then 0 else 2 ^ (15 - unat x)) sizes)"

definition used_sizes :: "u8 list \<Rightarrow> nat set" where
  "used_sizes sizes = {s. s < length sizes \<and> sizes ! s \<noteq> 0}"

text \<open>Neither over- nor undersubscribed; a code of one symbol or none is accepted as well.\<close>

definition full_code :: "u8 list \<Rightarrow> bool" where
  "full_code sizes \<longleftrightarrow> (\<forall>x \<in> set sizes. unat x \<le> 15) \<and>
     (kraft sizes = 2 ^ 15 \<or> length (filter (\<lambda>x. x \<noteq> 0) sizes) \<le> 1)"

lemma card_used: "card (used_sizes sizes) = length (filter (\<lambda>x. x \<noteq> 0) sizes)"
  by (simp add: used_sizes_def length_filter_conv_card)

lemma finite_used [simp]: "finite (used_sizes sizes)"
  by (simp add: used_sizes_def)

lemma kraft_sum: "kraft sizes = (\<Sum>s \<in> used_sizes sizes. 2 ^ (15 - unat (sizes ! s)))"
proof -
  have "kraft sizes = (\<Sum>s < length sizes. if sizes ! s = 0 then 0 else 2 ^ (15 - unat (sizes ! s)))"
    by (simp add: kraft_def sum_list_sum_nth atLeast0LessThan)
  also have "\<dots> = (\<Sum>s \<in> {..<length sizes} - {s. sizes ! s = 0}. 2 ^ (15 - unat (sizes ! s)))"
    by (rule sum.mono_neutral_cong_right) auto
  also have "{..<length sizes} - {s. sizes ! s = 0} = used_sizes sizes" by (auto simp: used_sizes_def)
  finally show ?thesis .
qed

section \<open>The header of a dynamic block\<close>

text \<open>The lengths of the code length code come in this order.\<close>

definition length_order :: "nat list" where
  "length_order = [16, 17, 18, 0, 8, 7, 9, 6, 10, 5, 11, 4, 12, 3, 13, 2, 14, 1, 15]"

primrec read_lengths :: "nat \<Rightarrow> bool list \<Rightarrow> (nat list \<times> bool list) option" where
  "read_lengths 0 bs = Some ([], bs)"
| "read_lengths (Suc n) bs =
    do { (x, bs) \<leftarrow> read_bits 3 bs; (xs, bs) \<leftarrow> read_lengths n bs; Some (x # xs, bs) }"

text \<open>One symbol of the code length code, with its extra bits, applied to the lengths so far.\<close>

definition read_length_item :: "u8 list \<Rightarrow> u8 list \<Rightarrow> bool list \<Rightarrow> (u8 list \<times> bool list) option" where
  "read_length_item sizes out bs =
    do {
      (c, bs) \<leftarrow> read_symbol 19 sizes bs;
      if c < 16 then Some (out @ [of_nat c], bs)
      else if c = 16 then
        (if out = [] then None
         else do { (e, bs) \<leftarrow> read_bits 2 bs; Some (out @ replicate (3 + e) (last out), bs) })
      else if c = 17 then do { (e, bs) \<leftarrow> read_bits 3 bs; Some (out @ replicate (3 + e) 0, bs) }
      else do { (e, bs) \<leftarrow> read_bits 7 bs; Some (out @ replicate (11 + e) 0, bs) }
    }"

lemma read_length_item_grows:
  "read_length_item sizes out bs = Some (out', bs') \<Longrightarrow> length out < length out'"
  by (auto simp: read_length_item_def bind_eq_Some_conv split: if_splits)

function read_code_lengths :: "u8 list \<Rightarrow> nat \<Rightarrow> u8 list \<Rightarrow> bool list \<Rightarrow> (u8 list \<times> bool list) option" where
  "read_code_lengths sizes tot out bs =
    (if tot \<le> length out then (if length out = tot then Some (out, bs) else None)
     else
       (case read_length_item sizes out bs of
          None \<Rightarrow> None
        | Some (out, bs) \<Rightarrow> read_code_lengths sizes tot out bs))"
  by pat_completeness auto
termination
  by (relation "measure (\<lambda>(sizes, tot, out, bs). tot - length out)")
    (auto dest!: read_length_item_grows)

declare read_code_lengths.simps [simp del]

text \<open>The lengths that the header does not send are zero.\<close>

definition pad_lengths :: "nat \<Rightarrow> u8 list \<Rightarrow> u8 list" where
  "pad_lengths n xs = xs @ replicate (n - length xs) 0"

lemma pad_lengths_take:
  assumes "k \<le> n" and "n \<le> length xs" and "\<forall>i. k \<le> i \<longrightarrow> i < n \<longrightarrow> xs ! i = 0"
  shows "pad_lengths n (take k xs) = take n xs"
  using assms by (intro nth_equalityI) (auto simp: pad_lengths_def nth_append min_def)

text \<open>All three codes have to be full.\<close>

definition read_dynamic_header :: "bool list \<Rightarrow> (u8 list \<times> u8 list \<times> bool list) option" where
  "read_dynamic_header bs =
    do {
      (hlit, bs) \<leftarrow> read_bits 5 bs;
      (hdist, bs) \<leftarrow> read_bits 5 bs;
      (hclen, bs) \<leftarrow> read_bits 4 bs;
      (ls, bs) \<leftarrow> read_lengths (hclen + 4) bs;
      let sizes = fold (\<lambda>(i, x) sizes. sizes[i := of_nat x]) (zip length_order ls) (replicate 19 0);
      if \<not> full_code sizes then None
      else do {
        (out, bs) \<leftarrow> read_code_lengths sizes (hlit + 257 + (hdist + 1)) [] bs;
        if full_code (take (hlit + 257) out) \<and> full_code (drop (hlit + 257) out)
        then Some (pad_lengths 288 (take (hlit + 257) out), pad_lengths 32 (drop (hlit + 257) out), bs) else None }
    }"

end
