(* ===== verification/Mz_Header.thy ===== *)
theory Mz_Header
  imports Mz_Inflate
begin

unbundle bit_operations_syntax

text \<open>
  The header of a dynamic block, written by \<open>tdefl_start_dynamic_block\<close> and read back as RFC 1951
  says.
\<close>

section \<open>Tables cut to the symbols sent\<close>

lemma canonical_code_cong:
  assumes "\<forall>s < n. a ! s = b ! s" and "\<forall>s. n \<le> s \<longrightarrow> s < m \<longrightarrow> b ! s = 0" and "n \<le> m" and "s < n" and "a ! s \<noteq> 0"
    and "unat (a ! s) \<le> 15"
  shows "canonical_code n a s = canonical_code m b s"
proof -
  let ?k = "unat (a ! s)"
  have k: "0 < ?k" using assms(5) by (simp add: unat_gt_0)
  have b: "b ! s = a ! s" using assms(1,4) by simp
  have "syms_of n a i = syms_of m b i" if "0 < i" for i
  proof (rule Collect_cong)
    fix t
    show "t < n \<and> unat (a ! t) = i \<longleftrightarrow> t < m \<and> unat (b ! t) = i"
      using assms(1-3) that by (cases "t < n") auto
  qed
  then have c: "size_counts n a ! i = size_counts m b ! i" if "0 < i" "i < 33" for i
    using that by (simp add: size_counts_def)
  have "first_code (size_counts n a) ?k = first_code (size_counts m b) ?k"
    using assms(6) by (intro first_code_cong c) simp_all
  moreover have "syms_of s a ?k = syms_of s b ?k" using assms(1,4) by auto
  ultimately show ?thesis
    by (simp add: canonical_code_def b Let_def)
qed

lemma good_table_cut:
  assumes g: "good_table m sizes codes" and "\<forall>s < n. a ! s = sizes ! s"
    and "\<forall>s. n \<le> s \<longrightarrow> s < m \<longrightarrow> sizes ! s = 0" and "n \<le> m"
  shows "good_table n a codes"
proof -
  have eq: "canonical_code n a s = canonical_code m sizes s" if "s < n" "a ! s \<noteq> 0" for s
  proof (rule canonical_code_cong [OF assms(2-4) that])
    show "unat (a ! s) \<le> 15" using g assms(2,4) that by (simp add: good_table_def)
  qed
  show ?thesis
    using g assms(2,4) eq unfolding good_table_def prefix_free_def by (auto simp del: not_less)
qed

lemma trim_codes_result:
  assumes "low \<le> n" and "\<forall>s. n \<le> s \<longrightarrow> s < m \<longrightarrow> sizes ! s = 0"
  shows "low \<le> trim_codes sizes low n \<and> trim_codes sizes low n \<le> n \<and>
    (\<forall>s. trim_codes sizes low n \<le> s \<longrightarrow> s < m \<longrightarrow> sizes ! s = 0)"
  using assms
proof (induction n)
  case 0
  then show ?case by simp
next
  case (Suc n)
  show ?case
  proof (cases "low < Suc n \<and> sizes ! n = 0")
    case True
    have "\<forall>s. n \<le> s \<longrightarrow> s < m \<longrightarrow> sizes ! s = 0" using Suc.prems(2) True by (metis le_antisym not_less_eq_eq)
    then show ?thesis using Suc.IH True by (simp add: le_SucI)
  next
    case False
    then have "trim_codes sizes low (Suc n) = Suc n" by auto
    then show ?thesis using Suc.prems by simp
  qed
qed

section \<open>Codes\<close>

lemma unat_ucast_widen:
  assumes "LENGTH('a) \<le> LENGTH('b)"
  shows "unat (ucast (w :: 'a :: len word) :: 'b :: len word) = unat w"
proof -
  have "unat w < 2 ^ LENGTH('a)" by (rule unsigned_less)
  also have "(2 :: nat) ^ LENGTH('a) \<le> 2 ^ LENGTH('b)" using assms by (intro power_increasing) simp_all
  finally have "take_bit LENGTH('b) (unat w) = unat w" by (simp only: take_bit_nat_eq_self_iff)
  then show ?thesis by (simp add: unsigned_ucast_eq)
qed

lemma good_tableD:
  assumes "good_table n sizes codes" and "s < n" and "sizes ! s \<noteq> 0"
  shows "unat (sizes ! s) \<le> 15" and "unat (codes ! s) < 2 ^ unat (sizes ! s)"
  using assms unfolding good_table_def by blast+

lemma put_code_writes:
  assumes "good_table n (m_huff_code_sizes d ! k) (m_huff_codes d ! k)" and "s < n"
    and "m_huff_code_sizes d ! k ! s \<noteq> 0"
  shows "writes (symbol_bits (m_huff_code_sizes d ! k) (m_huff_codes d ! k) s) d (put_code k s d)"
proof -
  let ?w = "m_huff_codes d ! k ! s" and ?l = "m_huff_code_sizes d ! k ! s"
  have l: "unat ?l \<le> 15" "unat ?w < 2 ^ unat ?l" using good_tableD [OF assms] by blast+
  have u: "unat (ucast ?l :: u32) = unat ?l" "unat (ucast ?w :: u32) = unat ?w"
    by (simp_all add: unat_ucast_widen)
  have "writes (low_bits (unat ?l) (ucast ?w :: u32)) d (put_code k s d)"
    unfolding put_code_def using put_bits_writes [of "ucast ?w" "ucast ?l" d] l u by simp
  then show ?thesis using l(1) by (simp add: symbol_bits_def low_bits_ucast)
qed

lemma put_value_writes:
  assumes "x < 2 ^ unat l" and "unat l \<le> 24" and "n = unat l"
  shows "writes (low_bits n (of_nat x :: u32)) d (TDEFL_PUT_BITS (of_nat x) l d)"
proof -
  have "(2 :: nat) ^ unat l \<le> 2 ^ 24" using assms(2) by (intro power_increasing) simp_all
  then have "x < 2 ^ 32" using assms(1) by simp
  then have "unat (of_nat x :: u32) = x" by (simp add: unsigned_of_nat take_bit_nat_eq_self)
  then show ?thesis using put_bits_writes [of "of_nat x" l d] assms by simp
qed

lemma read_value:
  assumes "x < 2 ^ n" and "n \<le> 24"
  shows "read_bits n (low_bits n (of_nat x :: u32) @ bs) = Some (x, bs)"
proof -
  have "(2 :: nat) ^ n \<le> 2 ^ 24" using assms(2) by (intro power_increasing) simp_all
  then have "unat (of_nat x :: u32) = x" using assms(1) by (simp add: unsigned_of_nat take_bit_nat_eq_self)
  then show ?thesis using assms by (simp add: read_bits_low take_bit_nat_eq_self)
qed

section \<open>The packed lengths\<close>

fun packed_bits :: "u8 list \<Rightarrow> u16 list \<Rightarrow> u8 list \<Rightarrow> bool list" where
  "packed_bits sizes codes [] = []"
| "packed_bits sizes codes (c # cs) = symbol_bits sizes codes (unat c) @
    (if c < 16 then packed_bits sizes codes cs
     else
       (case cs of
          [] \<Rightarrow> []
        | e # cs \<Rightarrow> low_bits (unat (rle_extra_bits (unat c))) e @ packed_bits sizes codes cs))"

lemma put_packed_writes:
  assumes "rle_unpack cs out = Some xs" and "good_table 19 (m_huff_code_sizes d ! 2) (m_huff_codes d ! 2)"
    and "\<forall>c \<in> set (codes_of cs). m_huff_code_sizes d ! 2 ! unat c \<noteq> 0"
  shows "\<exists>d'. put_packed cs d = Some d' \<and>
    writes (packed_bits (m_huff_code_sizes d ! 2) (m_huff_codes d ! 2) cs) d d'"
  using assms
proof (induction "length cs" arbitrary: cs out d rule: less_induct)
  case (less cs' out d)
  show ?case
  proof (cases cs')
    case Nil
    then show ?thesis by (auto intro: writes_nothing)
  next
    case (Cons c cs)
    note prems = less.prems [unfolded Cons]
    let ?S = "m_huff_code_sizes d ! 2" and ?C = "m_huff_codes d ! 2"
    have "c < 19" using codes_of_less [OF prems(1)] by simp
    then have c: "unat c < 19" "?S ! unat c \<noteq> 0" using prems(3) by (simp_all add: word_less_nat_alt)
    let ?d = "put_code 2 (unat c) d"
    have W: "writes (symbol_bits ?S ?C (unat c)) d ?d" by (rule put_code_writes [OF prems(2) c])
    then have same: "m_huff_code_sizes ?d = m_huff_code_sizes d" "m_huff_codes ?d = m_huff_codes d"
      by (simp_all add: writes_def same_tables_def)
    show ?thesis
    proof (cases "c < 16")
      case True
      obtain d' where "put_packed cs ?d = Some d'" "writes (packed_bits ?S ?C cs) ?d d'"
        using less.hyps [of cs "out @ [c]" ?d] prems True Cons by (auto simp: same)
      then show ?thesis using True writes_append [OF W] by (auto simp: Cons Let_def not_le)
    next
      case False
      then obtain e es where cs: "cs = e # es" using prems(1) by (cases cs) simp_all
      consider (rep) "c = 16" "out \<noteq> []" "e < 4" | (z3) "c = 17" "e < 8" | (z7) "c = 18" "e < 128"
        using prems(1) False cs by (auto split: if_splits)
      note k = this
      define l where "l = rle_extra_bits (unat c)"
      let ?e = "TDEFL_PUT_BITS (ucast e) l ?d"
      have "unat l \<le> 7 \<and> unat e < 2 ^ unat l"
        using k by cases (simp_all add: l_def rle_extra_bits_def word_less_nat_alt)
      then have l: "unat l \<le> 7" "unat e < 2 ^ unat l" by simp_all
      have u: "unat (ucast e :: u32) = unat e" by (simp add: unat_ucast_widen)
      have "writes (low_bits (unat l) (ucast e :: u32)) ?d ?e"
        using put_bits_writes [of "ucast e" l ?d] l u by simp
      then have E: "writes (low_bits (unat l) e) ?d ?e" using l(1) by (simp add: low_bits_ucast)
      then have same': "m_huff_code_sizes ?e = m_huff_code_sizes d" "m_huff_codes ?e = m_huff_codes d"
        using same by (simp_all add: writes_def same_tables_def)
      obtain out' where "rle_unpack es out' = Some xs"
        using k prems(1) False cs by cases auto
      moreover have "\<forall>c \<in> set (codes_of es). ?S ! unat c \<noteq> 0" using prems(3) False cs by simp
      ultimately obtain d' where d': "put_packed es ?e = Some d'" "writes (packed_bits ?S ?C es) ?e d'"
        using less.hyps [of es out' ?e] prems(2) Cons cs by (auto simp: same')
      then show ?thesis
        using False writes_append [OF W writes_append [OF E d'(2)]] by (auto simp: Cons cs Let_def l_def not_le)
    qed
  qed
qed

lemma rle_unpack_grows: "rle_unpack cs out = Some xs \<Longrightarrow> length out \<le> length xs \<and> (cs \<noteq> [] \<longrightarrow> length out < length xs)"
proof (induction "length cs" arbitrary: cs out rule: less_induct)
  case (less cs' out)
  show ?case
  proof (cases cs')
    case Nil
    then show ?thesis using less.prems by simp
  next
    case (Cons c cs)
    note prems = less.prems [unfolded Cons]
    show ?thesis
    proof (cases "c < 16")
      case True
      then show ?thesis using less.hyps [of cs "out @ [c]"] prems Cons by simp
    next
      case False
      then obtain e es where cs: "cs = e # es" using prems by (cases cs) simp_all
      obtain ys where "rle_unpack es (out @ ys) = Some xs" "ys \<noteq> []"
        using prems False cs by (auto split: if_splits)
      then show ?thesis using less.hyps [of es "out @ ys"] Cons cs by (cases ys) simp_all
    qed
  qed
qed

lemma packed_bits_length:
  assumes "rle_unpack cs out = Some xs" and "\<forall>s < 19. unat (sizes ! s) \<le> 7"
  shows "length (packed_bits sizes codes cs) + 14 * length out \<le> 14 * length xs"
  using assms
proof (induction "length cs" arbitrary: cs out rule: less_induct)
  case (less cs' out)
  show ?case
  proof (cases cs')
    case Nil
    then show ?thesis using less.prems by simp
  next
    case (Cons c cs)
    note prems = less.prems [unfolded Cons]
    have "c < 19" using codes_of_less [OF prems(1)] by simp
    then have c: "length (symbol_bits sizes codes (unat c)) \<le> 7" using prems(2) by (simp add: symbol_bits_def word_less_nat_alt)
    show ?thesis
    proof (cases "c < 16")
      case True
      then show ?thesis using less.hyps [of cs "out @ [c]"] prems c Cons by simp
    next
      case False
      then obtain e es where cs: "cs = e # es" using prems(1) by (cases cs) simp_all
      obtain ys where ys: "rle_unpack es (out @ ys) = Some xs" "ys \<noteq> []"
        using prems(1) False cs by (auto split: if_splits)
      have "unat c - 16 < 3" using \<open>c < 19\<close> by (simp add: word_less_nat_alt)
      then have "unat c - 16 = 0 \<or> unat c - 16 = 1 \<or> unat c - 16 = 2" by linarith
      then have "unat (rle_extra_bits (unat c)) \<le> 7" by (auto simp: rle_extra_bits_def)
      moreover have "length (packed_bits sizes codes es) + 14 * length (out @ ys) \<le> 14 * length xs"
        using less.hyps [of es "out @ ys"] prems(2) ys(1) Cons cs by simp
      moreover have "1 \<le> length ys" using ys(2) by (simp add: Suc_le_eq)
      ultimately show ?thesis using c False by (simp add: Cons cs)
    qed
  qed
qed

lemma read_packed:
  assumes "rle_unpack cs out = Some xs" and "good_table 19 sizes codes"
    and "\<forall>c \<in> set (codes_of cs). sizes ! unat c \<noteq> 0"
  shows "read_code_lengths sizes (length xs) out (packed_bits sizes codes cs @ bs) = Some (xs, bs)"
  using assms
proof (induction "length cs" arbitrary: cs out rule: less_induct)
  case (less cs' out)
  show ?case
  proof (cases cs')
    case Nil
    then show ?thesis using less.prems by (simp add: read_code_lengths.simps)
  next
    case (Cons c cs)
    note prems = less.prems [unfolded Cons]
    have "c < 19" using codes_of_less [OF prems(1)] by simp
    then have c: "unat c < 19" "sizes ! unat c \<noteq> 0" using prems(3) by (simp_all add: word_less_nat_alt)
    have more: "length out < length xs" using rle_unpack_grows [OF prems(1)] by simp
    note sym = read_symbol_bits [OF prems(2) c]
    have step: "read_code_lengths sizes (length xs) out b = read_code_lengths sizes (length xs) o' b'"
      if "read_length_item sizes out b = Some (o', b')" for b o' b'
      using more that by (subst read_code_lengths.simps) simp
    show ?thesis
    proof (cases "c < 16")
      case True
      have "read_length_item sizes out (symbol_bits sizes codes (unat c) @ r) = Some (out @ [c], r)" for r
        using True by (simp add: read_length_item_def sym word_less_nat_alt)
      then show ?thesis
        using step less.hyps [of cs "out @ [c]"] prems True Cons by simp
    next
      case False
      then obtain e es where cs: "cs = e # es" using prems(1) by (cases cs) simp_all
      let ?l = "unat (rle_extra_bits (unat c))"
      have "\<exists>ys. rle_unpack es (out @ ys) = Some xs \<and>
          read_length_item sizes out (symbol_bits sizes codes (unat c) @ low_bits ?l e @ r) = Some (out @ ys, r)" for r
      proof -
        have t: "take_bit n (unat e) = unat e" if "e < m" "unat m = 2 ^ n" for m n
          using that by (simp add: word_less_nat_alt take_bit_nat_eq_self)
        consider "c = 16" "out \<noteq> []" "e < 4" | "c = 17" "e < 8" | "c = 18" "e < 128"
          using prems(1) False cs by (auto split: if_splits)
        then show ?thesis
        proof cases
          case 1
          then show ?thesis
            using prems(1) cs sym t [of 4 2]
            by (intro exI [of _ "replicate (3 + unat e) (last out)"])
              (simp add: read_length_item_def rle_extra_bits_def read_bits_low)
        next
          case 2
          then show ?thesis
            using prems(1) cs sym t [of 8 3]
            by (intro exI [of _ "replicate (3 + unat e) 0"])
              (simp add: read_length_item_def rle_extra_bits_def read_bits_low)
        next
          case 3
          then show ?thesis
            using prems(1) cs sym t [of 128 7]
            by (intro exI [of _ "replicate (11 + unat e) 0"])
              (simp add: read_length_item_def rle_extra_bits_def read_bits_low)
        qed
      qed
      then obtain ys where ys: "rle_unpack es (out @ ys) = Some xs"
        "read_length_item sizes out (symbol_bits sizes codes (unat c) @ low_bits ?l e @ packed_bits sizes codes es @ bs) =
          Some (out @ ys, packed_bits sizes codes es @ bs)"
        by blast
      have "\<forall>c \<in> set (codes_of es). sizes ! unat c \<noteq> 0" using prems(3) False cs by simp
      then show ?thesis
        using step [OF ys(2)] less.hyps [of es "out @ ys"] ys(1) prems(2) False Cons cs by simp
    qed
  qed
qed

section \<open>The lengths of the code length code\<close>

lemma put_bit_lengths_writes:
  assumes "\<forall>i < n. unat (m_huff_code_sizes d ! 2 ! (swizzle ! i)) < 8"
  shows "writes (concat (map (\<lambda>i. low_bits 3 (m_huff_code_sizes d ! 2 ! (swizzle ! i))) [0..<n])) d (put_bit_lengths n d)"
  using assms
proof (induction n)
  case 0
  show ?case by (auto simp: put_bit_lengths_def)
next
  case (Suc n)
  let ?d = "put_bit_lengths n d" and ?w = "m_huff_code_sizes d ! 2 ! (swizzle ! n)"
  have W: "writes (concat (map (\<lambda>i. low_bits 3 (m_huff_code_sizes d ! 2 ! (swizzle ! i))) [0..<n])) d ?d"
    using Suc by simp
  then have same: "m_huff_code_sizes ?d = m_huff_code_sizes d" by (simp add: writes_def same_tables_def)
  have u: "unat (ucast ?w :: u32) = unat ?w" by (simp add: unat_ucast_widen)
  have "writes (low_bits 3 (ucast ?w :: u32)) ?d (TDEFL_PUT_BITS (ucast ?w) 3 ?d)"
    using put_bits_writes [of "ucast ?w" 3 ?d] Suc.prems u by simp
  then have "writes (low_bits 3 ?w) ?d (TDEFL_PUT_BITS (ucast ?w) 3 ?d)" by (simp add: low_bits_ucast)
  from writes_append [OF W this] show ?case by (simp add: put_bit_lengths_def same [unfolded put_bit_lengths_def])
qed

lemma read_lengths_bits:
  assumes "\<forall>w \<in> set ws. unat (w :: u8) < 8"
  shows "read_lengths (length ws) (concat (map (low_bits 3) ws) @ bs) = Some (map unat ws, bs)"
  using assms
proof (induction ws)
  case Nil
  show ?case by simp
next
  case (Cons w ws)
  then show ?case by (simp add: read_bits_low take_bit_nat_eq_self)
qed

lemma order_is_swizzle: "length_order = swizzle"
  by (simp add: length_order_def swizzle_def)

lemma swizzle_all: "length swizzle = 19" "set swizzle = {..<19}"
proof -
  show "length swizzle = 19" by (simp add: swizzle_def)
  have "set swizzle = set [0..<19]" by code_simp
  then show "set swizzle = {..<19}" by (simp add: lessThan_atLeast0)
qed

lemma fold_lengths:
  "fold (\<lambda>(i, x) sizes. sizes[i := of_nat x]) (map (\<lambda>s. (s, unat (S ! s))) is) (z :: u8 list) ! s =
    (if s \<in> set is \<and> s < length z then S ! s else z ! s)"
proof (induction "is" arbitrary: z s)
  case Nil
  show ?case by simp
next
  case (Cons i "is")
  show ?case
    by (cases "s = i"; cases "s < length z") (auto simp: Cons.IH list_update_beyond)
qed

lemma sent_lengths:
  assumes "n \<le> 19" and "\<forall>i. n \<le> i \<longrightarrow> i < 19 \<longrightarrow> S ! (swizzle ! i) = (0 :: u8)" and "s < 19"
  shows "fold (\<lambda>(i, x) sizes. sizes[i := of_nat x])
      (zip length_order (map unat (map (\<lambda>i. S ! (swizzle ! i)) [0..<n]))) (replicate 19 0) ! s = S ! s"
proof -
  have "zip length_order (map unat (map (\<lambda>i. S ! (swizzle ! i)) [0..<n])) =
      map (\<lambda>s. (s, unat (S ! s))) (take n swizzle)"
    using assms(1) by (intro nth_equalityI) (simp_all add: order_is_swizzle swizzle_all)
  moreover have "S ! s = 0" if "s \<notin> set (take n swizzle)"
  proof -
    obtain i where i: "i < 19" "s = swizzle ! i"
      using assms(3) swizzle_all by (metis in_set_conv_nth lessThan_iff)
    have "n \<le> i"
    proof (rule ccontr)
      assume "\<not> n \<le> i"
      then have "take n swizzle ! i = s" "i < length (take n swizzle)" using i swizzle_all(1) by simp_all
      then show False using that nth_mem by blast
    qed
    then show ?thesis using assms(2) i by simp
  qed
  ultimately show ?thesis using assms(3) by (simp add: fold_lengths)
qed

section \<open>The tables\<close>

definition same_stream :: "tdefl_compressor \<Rightarrow> tdefl_compressor \<Rightarrow> bool" where
  "same_stream d d' \<longleftrightarrow> m_bits_in d' = m_bits_in d \<and> m_bit_buffer d' = m_bit_buffer d \<and>
     m_output d' = m_output d \<and> m_output_room d' = m_output_room d"

lemma same_stream_writes: "same_stream d d1 \<Longrightarrow> writes bs d1 d2 \<Longrightarrow> same_tables d2 d1 \<Longrightarrow>
    coder_ok d \<Longrightarrow> coder_ok d2 \<and> (0 < m_output_room d2 \<longrightarrow> stream_of d2 = stream_of d @ bs)"
  by (auto simp: same_stream_def writes_def stream_of_def coder_ok_def output_space_def)

text \<open>The tables are full.\<close>

lemma full_code_take:
  assumes "\<forall>s < n. unat (S ! s) \<le> m" and "m \<le> 15" and "n \<le> length S" and U: "U = {s. s < n \<and> S ! s \<noteq> 0}"
    and sum: "2 \<le> card U \<longrightarrow> (\<Sum>s \<in> U. 2 ^ (m - unat (S ! s))) = (2 :: nat) ^ m"
  shows "full_code (take n S)"
proof -
  have u: "used_sizes (take n S) = U" using assms(3) by (auto simp: used_sizes_def U)
  have "kraft (take n S) = 2 ^ 15" if "2 \<le> card U"
  proof -
    have "kraft (take n S) = (\<Sum>s \<in> U. 2 ^ (15 - unat (take n S ! s)))" by (simp add: kraft_sum u)
    also have "\<dots> = (\<Sum>s \<in> U. 2 ^ (15 - m) * 2 ^ (m - unat (S ! s)))"
    proof (rule sum.cong [OF refl])
      fix s assume "s \<in> U"
      then have "s < n" "unat (S ! s) \<le> m" using assms(1) by (simp_all add: U)
      moreover from this assms(2) have "15 - unat (S ! s) = (15 - m) + (m - unat (S ! s))" by simp
      ultimately show "2 ^ (15 - unat (take n S ! s)) = (2 :: nat) ^ (15 - m) * 2 ^ (m - unat (S ! s))"
        by (simp only: nth_take power_add)
    qed
    also have "\<dots> = 2 ^ (15 - m) * 2 ^ m" using sum that by (simp add: sum_distrib_left [symmetric])
    finally show ?thesis using assms(2) by (simp add: power_add [symmetric])
  qed
  moreover have "length (filter (\<lambda>x. x \<noteq> 0) (take n S)) = card U" using card_used [of "take n S"] by (simp add: u)
  moreover have "\<forall>x \<in> set (take n S). unat x \<le> 15" using assms(1,2) by (fastforce simp: in_set_conv_nth)
  ultimately show ?thesis unfolding full_code_def by (cases "2 \<le> card U") simp_all
qed

lemma full_code_cut:
  assumes "full_code (take n S)" and "k \<le> n" and "n \<le> length S" and "\<forall>i. k \<le> i \<longrightarrow> i < n \<longrightarrow> S ! i = 0"
  shows "full_code (take k S)"
proof -
  have "take n S = take k S @ replicate (n - k) 0"
    using assms(2-4) by (intro nth_equalityI) (auto simp: nth_append)
  then show ?thesis using assms(1) by (auto simp: full_code_def kraft_def sum_list_replicate)
qed

lemma length_fold_lengths: "length (fold (\<lambda>(i, x) sizes. sizes[i := f x]) ps z) = length z"
  by (induction ps arbitrary: z) auto

lemma optimize_good:
  assumes "huff_arrays d" and "k < 3" and "len \<le> 288" and "0 < m" and "m \<le> 15"
    and "card (used_in d k len) \<le> 2 ^ m" and "tdefl_optimize_huffman_table d k len m False = Some d'"
  shows "huff_arrays d' \<and> good_table len (m_huff_code_sizes d' ! k) (m_huff_codes d' ! k) \<and>
    (\<forall>s < 288. m_huff_code_sizes d' ! k ! s \<noteq> 0 \<longleftrightarrow> s \<in> used_in d k len) \<and>
    (\<forall>s < len. unat (m_huff_code_sizes d' ! k ! s) \<le> m) \<and>
    (\<forall>j. j \<noteq> k \<longrightarrow> m_huff_code_sizes d' ! j = m_huff_code_sizes d ! j \<and> m_huff_codes d' ! j = m_huff_codes d ! j) \<and>
    m_huff_count d' = m_huff_count d \<and> same_stream d d' \<and> full_code (take len (m_huff_code_sizes d' ! k))"
proof -
  obtain sizes codes where r: "d' = d\<lparr>m_huff_code_sizes := (m_huff_code_sizes d)[k := sizes],
      m_huff_codes := (m_huff_codes d)[k := codes]\<rparr>"
    "length sizes = 288" "length codes = 288" "\<forall>s < 288. sizes ! s \<noteq> 0 \<longleftrightarrow> s \<in> used_in d k len"
    "\<forall>s < len. unat (sizes ! s) \<le> m" "prefix_free len sizes codes"
    "\<forall>s < len. sizes ! s \<noteq> 0 \<longrightarrow> unat (codes ! s) < 2 ^ unat (sizes ! s)"
    "\<forall>s < len. sizes ! s \<noteq> 0 \<longrightarrow> codes ! s = canonical_code len sizes s"
    "2 \<le> card (used_in d k len) \<longrightarrow> (\<Sum>s \<in> used_in d k len. 2 ^ (m - unat (sizes ! s))) = (2 :: nat) ^ m"
    using optimize_result [OF assms(1-6)] assms(7) by auto
  have "used_in d k len = {s. s < len \<and> sizes ! s \<noteq> 0}" 
  proof (rule set_eqI)
    fix s
    show "s \<in> used_in d k len \<longleftrightarrow> s \<in> {s. s < len \<and> sizes ! s \<noteq> 0}"
      using r(4) assms(3) by (cases "s < len") (simp_all add: used_in_def)
  qed
  then have full: "full_code (take len sizes)"
    using full_code_take [OF r(5) assms(5) _ _ r(9)] r(2) assms(3) by simp
  have "good_table len sizes codes"
    using r(5-8) assms(5) unfolding good_table_def by (meson order_trans)
  moreover have "m_huff_code_sizes d' ! k = sizes" "m_huff_codes d' ! k = codes"
    using assms(1,2) by (simp_all add: r(1) huff_arrays_def)
  moreover have "huff_arrays d'"
    using assms(1,2) r(2,3) by (auto simp: r(1) huff_arrays_def nth_list_update)
  ultimately show ?thesis
    using r(4,5) full by (simp add: r(1) same_stream_def)
qed

lemma card_used_in: "card (used_in d k len) \<le> len"
proof -
  have "used_in d k len \<subseteq> {..<len}" by (auto simp: used_in_def)
  then show ?thesis using card_mono [of "{..<len}"] by fastforce
qed

text \<open>The frequencies that a block can have: symbols 286 and 287, and the distances 30 and 31, do
  not occur.\<close>

definition counts_ok :: "tdefl_compressor \<Rightarrow> bool" where
  "counts_ok d \<longleftrightarrow> huff_arrays d \<and> (\<forall>s. 286 \<le> s \<longrightarrow> s < 288 \<longrightarrow> m_huff_count d ! 0 ! s = 0) \<and>
     (\<forall>s. 30 \<le> s \<longrightarrow> s < 32 \<longrightarrow> m_huff_count d ! 1 ! s = 0)"

lemma dynamic_tables_good:
  assumes "counts_ok d" and "dynamic_tables d = Some d'"
  shows "huff_arrays d' \<and> same_stream d d' \<and>
    good_table 288 (m_huff_code_sizes d' ! 0) (m_huff_codes d' ! 0) \<and>
    good_table 32 (m_huff_code_sizes d' ! 1) (m_huff_codes d' ! 1) \<and>
    (\<forall>s < 288. m_huff_code_sizes d' ! 0 ! s \<noteq> 0 \<longleftrightarrow> s = 256 \<or> m_huff_count d ! 0 ! s \<noteq> 0) \<and>
    (\<forall>s < 32. m_huff_code_sizes d' ! 1 ! s \<noteq> 0 \<longleftrightarrow> m_huff_count d ! 1 ! s \<noteq> 0) \<and>
    full_code (take 288 (m_huff_code_sizes d' ! 0)) \<and> full_code (take 32 (m_huff_code_sizes d' ! 1))"
proof -
  let ?d0 = "d\<lparr>m_huff_count := (m_huff_count d)[0 := (m_huff_count d ! 0)[256 := 1]]\<rparr>"
  have d: "huff_arrays d" using assms(1) by (simp add: counts_ok_def)
  then have d0: "huff_arrays ?d0" by (auto simp: huff_arrays_def nth_list_update)
  obtain d1 where o: "tdefl_optimize_huffman_table ?d0 0 288 15 False = Some d1"
    "tdefl_optimize_huffman_table d1 1 32 15 False = Some d'"
    using assms(2)
    by (auto simp: dynamic_tables_def TDEFL_MAX_HUFF_SYMBOLS_0_def TDEFL_MAX_HUFF_SYMBOLS_1_def bind_eq_Some_conv)
  have "card (used_in ?d0 0 288) \<le> 2 ^ 15" using card_used_in [of ?d0 0 288] by simp
  then have A: "huff_arrays d1 \<and> good_table 288 (m_huff_code_sizes d1 ! 0) (m_huff_codes d1 ! 0) \<and>
    (\<forall>s < 288. m_huff_code_sizes d1 ! 0 ! s \<noteq> 0 \<longleftrightarrow> s \<in> used_in ?d0 0 288) \<and>
    m_huff_count d1 = m_huff_count ?d0 \<and> same_stream ?d0 d1 \<and> full_code (take 288 (m_huff_code_sizes d1 ! 0))"
    using optimize_good [OF d0 _ _ _ _ _ o(1)] by simp
  have "card (used_in d1 1 32) \<le> 2 ^ 15" using card_used_in [of d1 1 32] by simp
  then have B: "huff_arrays d' \<and> good_table 32 (m_huff_code_sizes d' ! 1) (m_huff_codes d' ! 1) \<and>
    (\<forall>s < 288. m_huff_code_sizes d' ! 1 ! s \<noteq> 0 \<longleftrightarrow> s \<in> used_in d1 1 32) \<and>
    m_huff_code_sizes d' ! 0 = m_huff_code_sizes d1 ! 0 \<and> m_huff_codes d' ! 0 = m_huff_codes d1 ! 0 \<and>
    same_stream d1 d' \<and> full_code (take 32 (m_huff_code_sizes d' ! 1))"
    using optimize_good [OF _ _ _ _ _ _ o(2)] A by simp
  have "s \<in> used_in ?d0 0 288 \<longleftrightarrow> s = 256 \<or> m_huff_count d ! 0 ! s \<noteq> 0" if "s < 288" for s
    using d that by (auto simp: used_in_def huff_arrays_def nth_list_update)
  moreover have "s \<in> used_in d1 1 32 \<longleftrightarrow> m_huff_count d ! 1 ! s \<noteq> 0" if "s < 32" for s
    using A that by (simp add: used_in_def)
  ultimately show ?thesis using A B by (simp add: same_stream_def)
qed

lemma length_rle_count: "length (rle_count (rle_pack cnt xs)) = length cnt"
proof -
  have one: "length (rle_count (TDEFL_RLE_PREV_CODE_SIZE p r)) = length (rle_count r)"
    "length (rle_count (TDEFL_RLE_ZERO_CODE_SIZE r)) = length (rle_count r)" for p r
    by (simp_all add: TDEFL_RLE_PREV_CODE_SIZE_def TDEFL_RLE_ZERO_CODE_SIZE_def rle_emit_def rle_add_def Let_def)
  have "length (rle_count (snd (rle_round x s))) = length (rle_count (snd s))" for x s
    by (cases s) (simp add: rle_round_def one rle_emit_def rle_add_def Let_def)
  then have "length (rle_count (snd (fold rle_round xs s))) = length (rle_count (snd s))" for s
    by (induction xs arbitrary: s) simp_all
  from this [of "(0xFF, \<lparr>rle_count = cnt, packed_code_sizes = [], rle_z_count = 0, rle_repeat_count = 0\<rparr>)"]
  show ?thesis by (auto simp: rle_pack_def one split: prod.split)
qed

lemma lengths_table_good:
  assumes d: "huff_arrays d" and xs: "xs = take nl (m_huff_code_sizes d ! 0) @ take nd (m_huff_code_sizes d ! 1)"
    and small: "\<forall>x \<in> set xs. unat x \<le> 15" "length xs \<le> 320"
  shows "\<exists>packed d'. lengths_table nl nd d = Some (packed, d') \<and> rle_unpack packed [] = Some xs \<and>
    good_table 19 (m_huff_code_sizes d' ! 2) (m_huff_codes d' ! 2) \<and>
    (\<forall>c \<in> set (codes_of packed). m_huff_code_sizes d' ! 2 ! unat c \<noteq> 0) \<and>
    (\<forall>s < 19. unat (m_huff_code_sizes d' ! 2 ! s) \<le> 7) \<and> same_stream d d' \<and> huff_arrays d' \<and>
    full_code (take 19 (m_huff_code_sizes d' ! 2)) \<and>
    (\<forall>j < 2. m_huff_code_sizes d' ! j = m_huff_code_sizes d ! j \<and> m_huff_codes d' ! j = m_huff_codes d ! j)"
proof -
  let ?cnt = "replicate 19 0 @ drop 19 (m_huff_count d ! 2)"
  let ?r = "rle_pack ?cnt xs"
  let ?d = "d\<lparr>m_huff_count := (m_huff_count d)[2 := rle_count ?r]\<rparr>"
  have "\<forall>x \<in> set xs. x < 16" using small(1) by (auto simp: word_less_nat_alt)
  then have at: "rle_at xs ?r" by (intro rle_pack_result) (simp_all add: nth_append)
  have len: "length (rle_count ?r) = 288" using d by (simp add: length_rle_count huff_arrays_def)
  have d0: "huff_arrays ?d" using d len by (auto simp: huff_arrays_def nth_list_update)
  have card: "card (used_in ?d 2 19) \<le> 19" by (rule card_used_in)
  obtain d' where o: "tdefl_optimize_huffman_table ?d 2 19 7 False = Some d'"
    using optimize_result [OF d0, of 2 19 7] card by auto
  have A: "huff_arrays d' \<and> good_table 19 (m_huff_code_sizes d' ! 2) (m_huff_codes d' ! 2) \<and>
    (\<forall>s < 288. m_huff_code_sizes d' ! 2 ! s \<noteq> 0 \<longleftrightarrow> s \<in> used_in ?d 2 19) \<and>
    (\<forall>s < 19. unat (m_huff_code_sizes d' ! 2 ! s) \<le> 7) \<and>
    (\<forall>j. j \<noteq> 2 \<longrightarrow> m_huff_code_sizes d' ! j = m_huff_code_sizes d ! j \<and> m_huff_codes d' ! j = m_huff_codes d ! j) \<and>
    same_stream ?d d' \<and> full_code (take 19 (m_huff_code_sizes d' ! 2))"
    using optimize_good [OF d0 _ _ _ _ _ o] card by simp
  have "m_huff_code_sizes d' ! 2 ! unat c \<noteq> 0" if "c \<in> set (codes_of (packed_code_sizes ?r))" for c
  proof -
    have "unat c < 19" using at that codes_of_less [of _ "[]"] by (auto simp: rle_at_def word_less_nat_alt)
    moreover have "rle_count ?r ! unat c \<noteq> 0" using rle_counts_used [OF at small(2)] that by blast
    ultimately show ?thesis using A d by (simp add: used_in_def huff_arrays_def)
  qed
  moreover have "lengths_table nl nd d = Some (packed_code_sizes ?r, d')"
    using o unfolding lengths_table_def xs [symmetric] TDEFL_MAX_HUFF_SYMBOLS_2_def by (simp add: Let_def)
  ultimately show ?thesis using A at by (auto simp: rle_at_def same_stream_def)
qed

section \<open>The header\<close>

definition header_bits :: "nat \<Rightarrow> nat \<Rightarrow> nat \<Rightarrow> u8 list \<Rightarrow> tdefl_compressor \<Rightarrow> bool list" where
  "header_bits nl nd nb packed d =
     low_bits 5 (of_nat (nl - 257) :: u32) @ low_bits 5 (of_nat (nd - 1) :: u32) @ low_bits 4 (of_nat (nb - 4) :: u32) @
     concat (map (low_bits 3) (map (\<lambda>i. m_huff_code_sizes d ! 2 ! (swizzle ! i)) [0..<nb])) @
     packed_bits (m_huff_code_sizes d ! 2) (m_huff_codes d ! 2) packed"

lemma header_bits_length:
  assumes "rle_unpack packed [] = Some xs" and "length xs \<le> 320" and "nb \<le> 19"
    and "\<forall>s < 19. unat (m_huff_code_sizes d ! 2 ! s) \<le> 7"
  shows "length (header_bits nl nd nb packed d) \<le> 4600"
proof -
  have "length (concat (map (low_bits 3) ws)) = 3 * length ws" for ws :: "u8 list"
    by (induction ws) simp_all
  then show ?thesis
    using packed_bits_length [OF assms(1,4), of "m_huff_codes d ! 2"] assms(2,3) by (simp add: header_bits_def del: map_map)
qed

lemma packed_bits_cong:
  "\<forall>c \<in> set (codes_of cs). a ! unat c = b ! unat c \<Longrightarrow> packed_bits a codes cs = packed_bits b codes cs"
  by (induction cs rule: codes_of.induct) (auto simp: symbol_bits_def split: list.splits)

lemma header_bits_cong:
  assumes "m_huff_code_sizes d' = m_huff_code_sizes d" and "m_huff_codes d' = m_huff_codes d"
  shows "header_bits nl nd nb packed d' = header_bits nl nd nb packed d"
  using assms by (simp add: header_bits_def)

lemma bit_lengths_used_result:
  "4 \<le> bit_lengths_used d \<and> bit_lengths_used d \<le> 19 \<and>
    (\<forall>i. bit_lengths_used d \<le> i \<longrightarrow> i < 19 \<longrightarrow> m_huff_code_sizes d ! 2 ! (swizzle ! i) = 0)"
proof -
  let ?S = "map (\<lambda>i. m_huff_code_sizes d ! 2 ! i) swizzle"
  have "trim_codes ?S 0 19 \<le> 19 \<and> (\<forall>s. trim_codes ?S 0 19 \<le> s \<longrightarrow> s < 19 \<longrightarrow> ?S ! s = 0)"
    using trim_codes_result [of 0 19 19 ?S] by auto
  moreover have "?S ! i = m_huff_code_sizes d ! 2 ! (swizzle ! i)" if "i < 19" for i
    using that swizzle_all(1) by simp
  ultimately show ?thesis unfolding bit_lengths_used_def by fastforce
qed

lemma header_reads:
  assumes "rle_unpack packed [] = Some xs" and "length xs = nl + nd"
    and g: "good_table 19 (m_huff_code_sizes d ! 2) (m_huff_codes d ! 2)"
    and used: "\<forall>c \<in> set (codes_of packed). m_huff_code_sizes d ! 2 ! unat c \<noteq> 0"
    and small: "\<forall>s < 19. unat (m_huff_code_sizes d ! 2 ! s) \<le> 7"
    and n: "257 \<le> nl" "nl \<le> 286" "1 \<le> nd" "nd \<le> 30" and nb: "nb = bit_lengths_used d"
    and full: "19 \<le> length (m_huff_code_sizes d ! 2)" "full_code (take 19 (m_huff_code_sizes d ! 2))" "full_code (take nl xs)" "full_code (drop nl xs)"
  shows "read_dynamic_header (header_bits nl nd nb packed d @ bs) = 
    Some (pad_lengths 288 (take nl xs), pad_lengths 32 (drop nl xs), bs)"
proof -
  let ?S = "m_huff_code_sizes d ! 2" and ?C = "m_huff_codes d ! 2"
  let ?ws = "map (\<lambda>i. ?S ! (swizzle ! i)) [0..<nb]"
  define sizes where "sizes = fold (\<lambda>(i, x) sizes. sizes[i := of_nat x]) (zip length_order (map unat ?ws)) (replicate 19 (0 :: u8))"
  have nb': "4 \<le> nb" "nb \<le> 19" "\<forall>i. nb \<le> i \<longrightarrow> i < 19 \<longrightarrow> ?S ! (swizzle ! i) = 0"
    using bit_lengths_used_result [of d] by (auto simp: nb)
  have sizes: "\<forall>s < 19. sizes ! s = ?S ! s"
    using sent_lengths [OF nb'(2,3)] unfolding sizes_def by blast
  have "sizes = take 19 ?S"
    using sizes full(1) by (intro nth_equalityI) (simp_all add: sizes_def length_fold_lengths)
  then have fs: "full_code sizes" using full(2) by simp
  have "swizzle ! i < 19" if "i < nb" for i
    using swizzle_all nth_mem [of i swizzle] that nb'(2) by auto
  then have "\<forall>w \<in> set ?ws. unat w < 8" using small by (auto intro: le_imp_less_Suc [of _ 7, simplified])
  from read_lengths_bits [OF this] have ls: "read_lengths nb (concat (map (low_bits 3) ?ws) @ r) = Some (map unat ?ws, r)" for r
    by simp
  have gs: "good_table 19 sizes ?C" using good_table_cut [OF g sizes] by simp
  have c: "unat c < 19" if "c \<in> set (codes_of packed)" for c
    using codes_of_less [OF assms(1) that] by (simp add: word_less_nat_alt)
  have "packed_bits ?S ?C packed = packed_bits sizes ?C packed"
    using c sizes by (intro packed_bits_cong) simp
  moreover have "\<forall>c \<in> set (codes_of packed). sizes ! unat c \<noteq> 0" using c used sizes by simp
  ultimately have "read_code_lengths sizes (nl + nd) [] (packed_bits ?S ?C packed @ bs) = Some (xs, bs)"
    using read_packed [OF assms(1) gs] assms(2) by simp
  moreover have "read_bits 5 (low_bits 5 (of_nat (nl - 257) :: u32) @ r) = Some (nl - 257, r)"
    "read_bits 5 (low_bits 5 (of_nat (nd - 1) :: u32) @ r) = Some (nd - 1, r)"
    "read_bits 4 (low_bits 4 (of_nat (nb - 4) :: u32) @ r) = Some (nb - 4, r)" for r
    by (insert n nb'(2), (rule read_value; simp)+)
  moreover have "nb - 4 + 4 = nb" "nl - 257 + 257 = nl" "nd - 1 + 1 = nd" using n nb'(1) by simp_all
  ultimately show ?thesis
    unfolding read_dynamic_header_def header_bits_def
    by (simp only: append_assoc bind.bind_lunit prod.case ls sizes_def [symmetric] Let_def fs full(3,4) not_True_eq_False if_False if_True simp_thms)
qed

lemma header_writes:
  assumes "rle_unpack packed [] = Some xs"
    and g: "good_table 19 (m_huff_code_sizes d ! 2) (m_huff_codes d ! 2)"
    and used: "\<forall>c \<in> set (codes_of packed). m_huff_code_sizes d ! 2 ! unat c \<noteq> 0"
    and small: "\<forall>s < 19. unat (m_huff_code_sizes d ! 2 ! s) \<le> 7"
    and n: "257 \<le> nl" "nl \<le> 286" "1 \<le> nd" "nd \<le> 30" and nb: "nb = bit_lengths_used d"
  shows "\<exists>d'. put_packed packed (put_bit_lengths nb (TDEFL_PUT_BITS (of_nat (nb - 4)) 4
      (TDEFL_PUT_BITS (of_nat (nd - 1)) 5 (TDEFL_PUT_BITS (of_nat (nl - 257)) 5 (TDEFL_PUT_BITS 2 2 d))))) = Some d' \<and>
    writes (low_bits 2 (2 :: u32) @ header_bits nl nd nb packed d) d d'"
proof -
  have nb': "nb \<le> 19" using bit_lengths_used_result [of d] by (simp add: nb)
  let ?d1 = "TDEFL_PUT_BITS 2 2 d"
  let ?d2 = "TDEFL_PUT_BITS (of_nat (nl - 257)) 5 ?d1"
  let ?d3 = "TDEFL_PUT_BITS (of_nat (nd - 1)) 5 ?d2"
  let ?d4 = "TDEFL_PUT_BITS (of_nat (nb - 4)) 4 ?d3"
  let ?d5 = "put_bit_lengths nb ?d4"
  have W: "writes (low_bits 2 (2 :: u32)) d ?d1" using put_bits_writes [of 2 2 d] by simp
  have "writes (low_bits 5 (of_nat (nl - 257) :: u32)) ?d1 ?d2" by (insert n, rule put_value_writes; simp)
  note W = writes_append [OF W this]
  have "writes (low_bits 5 (of_nat (nd - 1) :: u32)) ?d2 ?d3" by (insert n, rule put_value_writes; simp)
  note W = writes_append [OF W this]
  have "writes (low_bits 4 (of_nat (nb - 4) :: u32)) ?d3 ?d4" by (insert nb', rule put_value_writes; simp)
  note W = writes_append [OF W this]
  then have same: "m_huff_code_sizes ?d4 = m_huff_code_sizes d" "m_huff_codes ?d4 = m_huff_codes d"
    by (simp_all add: writes_def same_tables_def)
  have "swizzle ! i < 19" if "i < nb" for i
    using swizzle_all nth_mem [of i swizzle] that nb' by auto
  then have "\<forall>i < nb. unat (m_huff_code_sizes d ! 2 ! (swizzle ! i)) < 8"
    using small by (auto intro: le_imp_less_Suc [of _ 7, simplified])
  then have "\<forall>i < nb. unat (m_huff_code_sizes ?d4 ! 2 ! (swizzle ! i)) < 8" unfolding same .
  note W = writes_append [OF W put_bit_lengths_writes [OF this, unfolded same]]
  then have same: "m_huff_code_sizes ?d5 = m_huff_code_sizes d" "m_huff_codes ?d5 = m_huff_codes d"
    by (simp_all add: writes_def same_tables_def)
  obtain d' where d': "put_packed packed ?d5 = Some d'"
    "writes (packed_bits (m_huff_code_sizes d ! 2) (m_huff_codes d ! 2) packed) ?d5 d'"
    using put_packed_writes [OF assms(1), of ?d5] g used unfolding same by blast
  from writes_append [OF W d'(2)] d'(1) show ?thesis
    by (intro exI [of _ d']) (simp add: header_bits_def comp_def)
qed

text \<open>The lengths a decoder reads from the header of a dynamic block are those of the tables.\<close>

lemma dynamic_block_result:
  assumes d: "counts_ok d" and d1: "dynamic_tables d = Some d1"
  shows "\<exists>d' hdr. tdefl_start_dynamic_block d = Some d' \<and> length hdr \<le> 4600 \<and> output_space d' = output_space d \<and> (coder_ok d \<longrightarrow> coder_ok d' \<and> m_output_room d' \<le> m_output_room d \<and>
      8 * m_output_room d + unat (m_bits_in d') \<le>
        8 * m_output_room d' + unat (m_bits_in d) + length (low_bits 2 (2 :: u32) @ hdr) \<and>
      (0 < m_output_room d' \<longrightarrow> stream_of d' = stream_of d @ low_bits 2 (2 :: u32) @ hdr)) \<and>
    (\<forall>bs. read_dynamic_header (hdr @ bs) =
      Some (m_huff_code_sizes d' ! 0, take 32 (m_huff_code_sizes d' ! 1), bs)) \<and> huff_arrays d' \<and>
    good_table 288 (m_huff_code_sizes d' ! 0) (m_huff_codes d' ! 0) \<and>
    good_table 32 (m_huff_code_sizes d' ! 1) (m_huff_codes d' ! 1) \<and>
    (\<forall>s < 288. m_huff_code_sizes d' ! 0 ! s \<noteq> 0 \<longleftrightarrow> s = 256 \<or> m_huff_count d ! 0 ! s \<noteq> 0) \<and>
    (\<forall>s < 32. m_huff_code_sizes d' ! 1 ! s \<noteq> 0 \<longleftrightarrow> m_huff_count d ! 1 ! s \<noteq> 0)"
proof -
  note T = dynamic_tables_good [OF d d1]
  let ?S0 = "m_huff_code_sizes d1 ! 0" and ?S1 = "m_huff_code_sizes d1 ! 1"
  define nl where "nl = trim_codes ?S0 257 286"
  define nd where "nd = trim_codes ?S1 1 30"
  have z: "\<forall>s. 286 \<le> s \<longrightarrow> s < 288 \<longrightarrow> ?S0 ! s = 0" "\<forall>s. 30 \<le> s \<longrightarrow> s < 32 \<longrightarrow> ?S1 ! s = 0"
    using T d by (auto simp: counts_ok_def)
  have nl: "257 \<le> nl" "nl \<le> 286" "\<forall>s. nl \<le> s \<longrightarrow> s < 288 \<longrightarrow> ?S0 ! s = 0"
    using trim_codes_result [OF _ z(1), of 257] by (simp_all add: nl_def)
  have nd: "1 \<le> nd" "nd \<le> 30" "\<forall>s. nd \<le> s \<longrightarrow> s < 32 \<longrightarrow> ?S1 ! s = 0"
    using trim_codes_result [OF _ z(2), of 1] by (simp_all add: nd_def)
  define xs where "xs = take nl ?S0 @ take nd ?S1"
  have len: "length ?S0 = 288" "length ?S1 = 288" using T by (simp_all add: huff_arrays_def)
  have S: "\<forall>s < nl. unat (?S0 ! s) \<le> 15" "\<forall>s < nd. unat (?S1 ! s) \<le> 15"
    using T nl(2) nd(2) unfolding good_table_def by simp_all
  have take: "\<forall>x \<in> set (take n ys). unat x \<le> 15" if "\<forall>s < n. unat (ys ! s) \<le> 15" for n and ys :: "u8 list"
    using that by (auto simp: in_set_conv_nth)
  have "\<forall>x \<in> set xs. unat x \<le> 15"
    using take [OF S(1)] take [OF S(2)] by (auto simp: xs_def)
  moreover have "length xs \<le> 320" "length xs = nl + nd" using nl(2) nd(2) len by (simp_all add: xs_def)
  ultimately obtain packed d2 where L: "lengths_table nl nd d1 = Some (packed, d2)" "rle_unpack packed [] = Some xs"
    "good_table 19 (m_huff_code_sizes d2 ! 2) (m_huff_codes d2 ! 2)"
    "\<forall>c \<in> set (codes_of packed). m_huff_code_sizes d2 ! 2 ! unat c \<noteq> 0"
    "\<forall>s < 19. unat (m_huff_code_sizes d2 ! 2 ! s) \<le> 7" "same_stream d1 d2" "huff_arrays d2"
    "\<forall>j < 2. m_huff_code_sizes d2 ! j = m_huff_code_sizes d1 ! j \<and> m_huff_codes d2 ! j = m_huff_codes d1 ! j"
    "full_code (take 19 (m_huff_code_sizes d2 ! 2))"
    using lengths_table_good [OF _ xs_def] T by blast
  have full: "full_code (take nl ?S0)" "full_code (take nd ?S1)"
    using full_code_cut [of 288 ?S0 nl] full_code_cut [of 32 ?S1 nd] T nl(2,3) nd(2,3) len by simp_all
  define nb where "nb = bit_lengths_used d2"
  obtain d3 where H: "put_packed packed (put_bit_lengths nb (TDEFL_PUT_BITS (of_nat (nb - 4)) 4
      (TDEFL_PUT_BITS (of_nat (nd - 1)) 5 (TDEFL_PUT_BITS (of_nat (nl - 257)) 5 (TDEFL_PUT_BITS 2 2 d2))))) = Some d3"
    "writes (low_bits 2 (2 :: u32) @ header_bits nl nd nb packed d2) d2 d3"
    using header_writes [OF L(2-5) nl(1,2) nd(1,2) nb_def] by blast
  have "bit_lengths_used (TDEFL_PUT_BITS (of_nat (nd - 1)) 5 (TDEFL_PUT_BITS (of_nat (nl - 257)) 5 (TDEFL_PUT_BITS 2 2 d2))) = nb"
    unfolding nb_def using put_bits_same by (simp add: bit_lengths_used_def same_tables_def)
  then have start: "tdefl_start_dynamic_block d = Some d3"
    by (simp only: tdefl_start_dynamic_block_def Let_def d1 Option.bind.simps nl_def [symmetric]
        nd_def [symmetric] L(1) prod.case H(1))
  have "m_huff_code_sizes d3 = m_huff_code_sizes d2" "m_huff_codes d3 = m_huff_codes d2" "huff_arrays d3"
    using H(2) L(7) by (simp_all add: writes_def same_tables_def huff_arrays_def)
  moreover have "same_stream d d2" using T L(6) by (simp add: same_stream_def)
  then have "coder_ok d \<longrightarrow> coder_ok d3 \<and> m_output_room d3 \<le> m_output_room d \<and>
      8 * m_output_room d + unat (m_bits_in d3) \<le> 8 * m_output_room d3 + unat (m_bits_in d) +
        length (low_bits 2 (2 :: u32) @ header_bits nl nd nb packed d2) \<and>
      (0 < m_output_room d3 \<longrightarrow> stream_of d3 = stream_of d @ low_bits 2 (2 :: u32) @ header_bits nl nd nb packed d2)"
    using H(2) by (simp add: writes_def same_stream_def stream_of_def coder_ok_def)
  moreover have "read_dynamic_header (header_bits nl nd nb packed d2 @ bs) =
      Some (pad_lengths 288 (take nl ?S0), pad_lengths 32 (take nd ?S1), bs)" for bs
    using header_reads [OF L(2) _ L(3-5) nl(1,2) nd(1,2) nb_def _ L(9)] full L(7) len nl(2) nd(2) by (simp add: xs_def huff_arrays_def)
  moreover have "pad_lengths 288 (take nl ?S0) = ?S0" "pad_lengths 32 (take nd ?S1) = take 32 ?S1"
    using pad_lengths_take [of nl 288 ?S0] pad_lengths_take [of nd 32 ?S1] nl nd len by simp_all
  moreover have "length (header_bits nl nd nb packed d2) \<le> 4600"
    using header_bits_length [OF L(2) \<open>length xs \<le> 320\<close> _ L(5)] bit_lengths_used_result [of d2] by (simp add: nb_def)
  moreover have "output_space d3 = output_space d"
    using H(2) \<open>same_stream d d2\<close> by (simp add: writes_def same_stream_def output_space_def)
  ultimately show ?thesis
    using start T L(8) by (intro exI [of _ d3] exI [of _ "header_bits nl nd nb packed d2"]) simp
qed

text \<open>The tables can be made when the counts of table 0 leave room for the end of the block.\<close>

lemma used_weight: "(\<Sum>s \<in> used_in d k len. unat (m_huff_count d ! k ! s)) = (\<Sum>s < len. unat (m_huff_count d ! k ! s))"
  by (rule sum.mono_neutral_left) (auto simp: used_in_def)

lemma sum_update_le:
  fixes f g :: "nat \<Rightarrow> nat"
  assumes "\<And>s. s \<noteq> a \<Longrightarrow> g s = f s" and "g a = 1"
  shows "(\<Sum>s < n. g s) \<le> (\<Sum>s < n. f s) + 1"
proof -
  have "(\<Sum>s < n. g s) \<le> (\<Sum>s < n. f s + (if s = a then 1 else 0))"
    using assms by (intro sum_mono) auto
  also have "\<dots> \<le> (\<Sum>s < n. f s) + 1" by (simp add: sum.distrib)
  finally show ?thesis .
qed

lemma dynamic_tables_exist:
  assumes d: "counts_ok d" and w: "(\<Sum>s < 288. unat (m_huff_count d ! 0 ! s)) < 65535"
  shows "\<exists>d1. dynamic_tables d = Some d1"
proof -
  let ?d0 = "d\<lparr>m_huff_count := (m_huff_count d)[0 := (m_huff_count d ! 0)[256 := 1]]\<rparr>"
  have d: "huff_arrays d" using assms(1) by (simp add: counts_ok_def)
  then have d0: "huff_arrays ?d0" by (auto simp: huff_arrays_def nth_list_update)
  have "unat (m_huff_count ?d0 ! 0 ! s) = unat (m_huff_count d ! 0 ! s)" if "s \<noteq> 256" for s
    using d that by (auto simp: huff_arrays_def)
  moreover have "unat (m_huff_count ?d0 ! 0 ! 256) = 1" using d by (simp add: huff_arrays_def)
  ultimately have "(\<Sum>s < 288. unat (m_huff_count ?d0 ! 0 ! s)) \<le> (\<Sum>s < 288. unat (m_huff_count d ! 0 ! s)) + 1"
    by (rule sum_update_le)
  then have c: "(\<Sum>s \<in> used_in ?d0 0 288. unat (m_huff_count ?d0 ! 0 ! s)) < 65536"
    using w by (simp only: used_weight)
  have u: "card (used_in ?d0 0 288) \<le> 2 ^ 15" using card_used_in [of ?d0 0 288] by simp
  then obtain d1 where d1: "tdefl_optimize_huffman_table ?d0 0 288 15 False = Some d1"
    using optimize_result [OF d0, of 0 288 15] c by auto
  have "huff_arrays d1" using optimize_good [OF d0 _ _ _ _ _ d1] u by simp
  moreover have "card (used_in d1 1 32) \<le> 32" by (rule card_used_in)
  ultimately obtain d2 where "tdefl_optimize_huffman_table d1 1 32 15 False = Some d2"
    using optimize_result [of d1 1 32 15] by auto
  with d1 show ?thesis
    by (simp add: dynamic_tables_def TDEFL_MAX_HUFF_SYMBOLS_0_def TDEFL_MAX_HUFF_SYMBOLS_1_def)
qed

lemma dynamic_block_tables: "tdefl_start_dynamic_block d = Some d' \<Longrightarrow> \<exists>d1. dynamic_tables d = Some d1"
  by (auto simp: tdefl_start_dynamic_block_def bind_eq_Some_conv)

end
