(* ===== verification/Mz_Lz.thy ===== *)
theory Mz_Lz
  imports Mz_Header
begin

unbundle bit_operations_syntax

text \<open>
  The buffer of LZ codes in \<open>proj/sparc-prog/miniz.c\<close>: \<open>tdefl_record_literal\<close> and
  \<open>tdefl_record_match\<close>, which append to it, and \<open>tdefl_compress_lz_codes\<close> and
  \<open>tdefl_compress_block\<close>, which write it as a deflate block.  \<open>None\<close> is an access outside
  \<open>m_lz_code_buf\<close>.
\<close>

section \<open>The state\<close>

text \<open>The fields of \<open>tdefl_compressor\<close> for the parsing of the input; those of the Huffman coder are
  the component \<open>coder\<close>.  The two pointers into \<open>m_lz_code_buf\<close> are offsets.\<close>

record tdefl_lz =
  coder :: tdefl_compressor
  m_max_probes :: "u32 list"
  m_lookahead_pos :: u32
  m_lookahead_size :: u32
  m_dict_size :: u32
  m_pLZ_code_buf :: nat
  m_pLZ_flags :: nat
  m_num_flags_left :: u32
  m_total_lz_bytes :: u32
  m_saved_match_dist :: u32
  m_saved_match_len :: u32
  m_saved_lit :: u32
  m_dict :: "u8 list"
  m_lz_code_buf :: "u8 list"
  m_next :: "u16 list"
  m_hash :: "u16 list"

definition TDEFL_MIN_MATCH_LEN :: u32 where "TDEFL_MIN_MATCH_LEN = 3"
definition TDEFL_MAX_MATCH_LEN :: u32 where "TDEFL_MAX_MATCH_LEN = 258"
definition TDEFL_LZ_DICT_SIZE :: u32 where "TDEFL_LZ_DICT_SIZE = 32768"
definition TDEFL_LZ_DICT_SIZE_MASK :: u32 where "TDEFL_LZ_DICT_SIZE_MASK = 32767"
definition TDEFL_LZ_CODE_BUF_SIZE :: nat where "TDEFL_LZ_CODE_BUF_SIZE = 65536"

section \<open>The tables of symbols\<close>

definition s_tdefl_len_sym :: "nat list" where
  "s_tdefl_len_sym = [257, 258, 259, 260, 261, 262, 263, 264] @
     replicate 2 265 @ replicate 2 266 @ replicate 2 267 @ replicate 2 268 @
     replicate 4 269 @ replicate 4 270 @ replicate 4 271 @ replicate 4 272 @
     replicate 8 273 @ replicate 8 274 @ replicate 8 275 @ replicate 8 276 @
     replicate 16 277 @ replicate 16 278 @ replicate 16 279 @ replicate 16 280 @
     replicate 32 281 @ replicate 32 282 @ replicate 32 283 @ replicate 31 284 @ [285]"

definition s_tdefl_len_extra :: "nat list" where
  "s_tdefl_len_extra = [0, 0, 0, 0, 0, 0, 0, 0] @ replicate 8 1 @ replicate 16 2 @ replicate 32 3 @
     replicate 64 4 @ replicate 127 5 @ [0]"

definition s_tdefl_small_dist_sym :: "nat list" where
  "s_tdefl_small_dist_sym = [0, 1, 2, 3] @ replicate 2 4 @ replicate 2 5 @ replicate 4 6 @ replicate 4 7 @
     replicate 8 8 @ replicate 8 9 @ replicate 16 10 @ replicate 16 11 @ replicate 32 12 @ replicate 32 13 @
     replicate 64 14 @ replicate 64 15 @ replicate 128 16 @ replicate 128 17"

definition s_tdefl_small_dist_extra :: "nat list" where
  "s_tdefl_small_dist_extra = [0, 0, 0, 0] @ replicate 4 1 @ replicate 8 2 @ replicate 16 3 @
     replicate 32 4 @ replicate 64 5 @ replicate 128 6 @ replicate 256 7"

definition s_tdefl_large_dist_sym :: "nat list" where
  "s_tdefl_large_dist_sym = replicate 2 0 @ [18, 19] @ replicate 2 20 @ replicate 2 21 @ replicate 4 22 @
     replicate 4 23 @ replicate 8 24 @ replicate 8 25 @ replicate 16 26 @ replicate 16 27 @
     replicate 32 28 @ replicate 32 29"

definition s_tdefl_large_dist_extra :: "nat list" where
  "s_tdefl_large_dist_extra = [0, 0, 8, 8] @ replicate 4 9 @ replicate 8 10 @
     replicate 16 11 @ replicate 32 12 @ replicate 64 13"

definition mz_bitmasks :: "u32 list" where
  "mz_bitmasks = [0x0000, 0x0001, 0x0003, 0x0007, 0x000F, 0x001F, 0x003F, 0x007F, 0x00FF, 0x01FF, 0x03FF,
     0x07FF, 0x0FFF, 0x1FFF, 0x3FFF, 0x7FFF, 0xFFFF]"

section \<open>Recording\<close>

definition put_lz :: "nat \<Rightarrow> u8 \<Rightarrow> tdefl_lz \<Rightarrow> tdefl_lz option" where
  "put_lz p x d = (if p < length (m_lz_code_buf d) then Some (d\<lparr>m_lz_code_buf := (m_lz_code_buf d)[p := x]\<rparr>) else None)"

text \<open>\<open>*flags = (*flags >> 1) | mark; if (--num_flags_left == 0) \<dots>\<close>\<close>

definition next_lz_flag :: "u8 \<Rightarrow> tdefl_lz \<Rightarrow> tdefl_lz option" where
  "next_lz_flag mark d =
    do {
      d \<leftarrow> put_lz (m_pLZ_flags d) (drop_bit 1 (m_lz_code_buf d ! m_pLZ_flags d) OR mark) d;
      let d = d\<lparr>m_num_flags_left := m_num_flags_left d - 1\<rparr>;
      Some (if m_num_flags_left d = 0
            then d\<lparr>m_num_flags_left := 8, m_pLZ_flags := m_pLZ_code_buf d, m_pLZ_code_buf := m_pLZ_code_buf d + 1\<rparr>
            else d)
    }"

definition count_symbol :: "nat \<Rightarrow> nat \<Rightarrow> tdefl_lz \<Rightarrow> tdefl_lz" where
  "count_symbol k s d = d\<lparr>coder := (coder d)\<lparr>m_huff_count := (m_huff_count (coder d))
      [k := (m_huff_count (coder d) ! k)[s := m_huff_count (coder d) ! k ! s + 1]]\<rparr>\<rparr>"

definition tdefl_record_literal :: "u8 \<Rightarrow> tdefl_lz \<Rightarrow> tdefl_lz option" where
  "tdefl_record_literal lit d =
    do {
      let d = d\<lparr>m_total_lz_bytes := m_total_lz_bytes d + 1\<rparr>;
      d \<leftarrow> put_lz (m_pLZ_code_buf d) lit d;
      let d = d\<lparr>m_pLZ_code_buf := m_pLZ_code_buf d + 1\<rparr>;
      d \<leftarrow> next_lz_flag 0 d;
      Some (count_symbol 0 (unat lit) d)
    }"

definition match_dist_sym :: "u32 \<Rightarrow> nat" where
  "match_dist_sym match_dist =
    (let s0 = s_tdefl_small_dist_sym ! unat (match_dist AND 511);
         s1 = s_tdefl_large_dist_sym ! unat (drop_bit 8 match_dist AND 127)
     in if match_dist < 512 then s0 else s1)"

definition tdefl_record_match :: "u32 \<Rightarrow> u32 \<Rightarrow> tdefl_lz \<Rightarrow> tdefl_lz option" where
  "tdefl_record_match match_len match_dist d =
    do {
      let d = d\<lparr>m_total_lz_bytes := m_total_lz_bytes d + match_len\<rparr>;
      d \<leftarrow> put_lz (m_pLZ_code_buf d) (ucast (match_len - TDEFL_MIN_MATCH_LEN)) d;
      let match_dist = match_dist - 1;
      d \<leftarrow> put_lz (m_pLZ_code_buf d + 1) (ucast (match_dist AND 0xFF)) d;
      d \<leftarrow> put_lz (m_pLZ_code_buf d + 2) (ucast (drop_bit 8 match_dist)) d;
      let d = d\<lparr>m_pLZ_code_buf := m_pLZ_code_buf d + 3\<rparr>;
      d \<leftarrow> next_lz_flag 0x80 d;
      let d = count_symbol 1 (match_dist_sym match_dist) d;
      Some (if TDEFL_MIN_MATCH_LEN \<le> match_len
            then count_symbol 0 (s_tdefl_len_sym ! unat (match_len - TDEFL_MIN_MATCH_LEN)) d
            else d)
    }"

section \<open>Writing a block\<close>

definition put_match :: "u32 \<Rightarrow> u32 \<Rightarrow> tdefl_compressor \<Rightarrow> tdefl_compressor" where
  "put_match match_len match_dist d =
    (let len_sym = s_tdefl_len_sym ! unat match_len;
         len_extra = s_tdefl_len_extra ! unat match_len;
         d = put_code 0 len_sym d;
         d = TDEFL_PUT_BITS (match_len AND mz_bitmasks ! len_extra) (of_nat len_extra) d;
         (sym, num_extra_bits) =
           (if match_dist < 512
            then (s_tdefl_small_dist_sym ! unat match_dist, s_tdefl_small_dist_extra ! unat match_dist)
            else (s_tdefl_large_dist_sym ! unat (drop_bit 8 match_dist),
                  s_tdefl_large_dist_extra ! unat (drop_bit 8 match_dist)));
         d = put_code 1 sym d
     in TDEFL_PUT_BITS (match_dist AND mz_bitmasks ! num_extra_bits) (of_nat num_extra_bits) d)"

text \<open>The loop of \<open>tdefl_compress_lz_codes\<close> up to the offset \<open>m_pLZ_code_buf\<close> (\<open>fin\<close>).  The distance of
  a match has 16 bits: above \<open>0x7FFF\<close> the tables end.\<close>

function lz_codes_loop :: "u8 list \<Rightarrow> nat \<Rightarrow> u32 \<Rightarrow> nat \<Rightarrow> tdefl_compressor \<Rightarrow> tdefl_compressor option" where
  "lz_codes_loop buf fin flags p d =
    (if p < fin then
       let (flags, p) = (if flags = 1 then (ucast (buf ! p) OR 0x100, p + 1) else (flags, p))
       in if flags AND 1 \<noteq> 0 then
            if p + 2 < length buf then
              let match_len = ucast (buf ! p);
                  match_dist = ucast (buf ! (p + 1)) OR push_bit 8 (ucast (buf ! (p + 2)))
              in if match_dist < 0x8000 then lz_codes_loop buf fin (drop_bit 1 flags) (p + 3) (put_match match_len match_dist d)
                 else None
            else None
          else if p < length buf then lz_codes_loop buf fin (drop_bit 1 flags) (p + 1) (put_code 0 (unat (buf ! p)) d)
          else None
     else Some d)"
  by pat_completeness auto

termination
  by (relation "measure (\<lambda>(buf, fin, flags, p, d). fin - p)") (auto split: if_splits)

declare lz_codes_loop.simps [simp del]

definition tdefl_compress_lz_codes :: "tdefl_lz \<Rightarrow> (bool \<times> tdefl_lz) option" where
  "tdefl_compress_lz_codes d =
    do {
      _ \<leftarrow> (if m_pLZ_code_buf d \<le> length (m_lz_code_buf d) then Some () else None);
      c \<leftarrow> lz_codes_loop (m_lz_code_buf d) (m_pLZ_code_buf d) 1 0 (coder d);
      let c = put_code 0 256 c;
      Some (0 < m_output_room c, d\<lparr>coder := c\<rparr>)
    }"

definition tdefl_compress_block :: "bool \<Rightarrow> tdefl_lz \<Rightarrow> (bool \<times> tdefl_lz) option" where
  "tdefl_compress_block static_block d =
    do {
      c \<leftarrow> (if static_block then tdefl_start_static_block (coder d) else tdefl_start_dynamic_block (coder d));
      tdefl_compress_lz_codes (d\<lparr>coder := c\<rparr>)
    }"

end
