(* ===== verification/Mz_Items.thy ===== *)
theory Mz_Items
  imports Mz_Lz
begin

unbundle bit_operations_syntax

text \<open>
  The data of a compressed block: literals and matches, how RFC 1951 reads them from the bits of a
  block, and that the tables of \<open>miniz.c\<close> are those of RFC 1951.
\<close>

section \<open>Literals and matches\<close>

datatype lz_item = Lit u8 | Match nat nat

text \<open>Base value and number of extra bits of the length codes 257 to 285 and of the distance codes.\<close>

definition length_base :: "nat list" where
  "length_base = [3, 4, 5, 6, 7, 8, 9, 10, 11, 13, 15, 17, 19, 23, 27, 31, 35, 43, 51, 59, 67, 83, 99, 115,
     131, 163, 195, 227, 258]"

definition length_extra :: "nat list" where
  "length_extra = [0, 0, 0, 0, 0, 0, 0, 0, 1, 1, 1, 1, 2, 2, 2, 2, 3, 3, 3, 3, 4, 4, 4, 4, 5, 5, 5, 5, 0]"

definition dist_base :: "nat list" where
  "dist_base = [1, 2, 3, 4, 5, 7, 9, 13, 17, 25, 33, 49, 65, 97, 129, 193, 257, 385, 513, 769, 1025, 1537,
     2049, 3073, 4097, 6145, 8193, 12289, 16385, 24577]"

definition dist_extra :: "nat list" where
  "dist_extra = [0, 0, 0, 0, 1, 1, 2, 2, 3, 3, 4, 4, 5, 5, 6, 6, 7, 7, 8, 8, 9, 9, 10, 10, 11, 11, 12, 12,
     13, 13]"

text \<open>The next item, or \<open>None\<close> at the end of the block.\<close>

definition read_item :: "u8 list \<Rightarrow> u8 list \<Rightarrow> bool list \<Rightarrow> (lz_item option \<times> bool list) option" where
  "read_item lit dist bs =
    do {
      (s, bs) \<leftarrow> read_symbol 288 lit bs;
      if s < 256 then Some (Some (Lit (of_nat s)), bs)
      else if s = 256 then Some (None, bs)
      else if s < 286 then do {
        (e, bs) \<leftarrow> read_bits (length_extra ! (s - 257)) bs;
        (t, bs) \<leftarrow> read_symbol 32 dist bs;
        if t < 30 then do {
          (f, bs) \<leftarrow> read_bits (dist_extra ! t) bs;
          Some (Some (Match (length_base ! (s - 257) + e) (dist_base ! t + f)), bs) }
        else None }
      else None
    }"

lemma read_bits_shorter: "read_bits n bs = Some (x, bs') \<Longrightarrow> length bs' \<le> length bs"
  by (auto simp: read_bits_def split: if_splits)

lemma read_symbol_shorter:
  assumes "read_symbol n sizes bs = Some (s, bs')"
  shows "length bs' < length bs"
proof -
  from assms obtain ss where ss: "filter (code_matches n sizes bs) [0..<n] = s # ss"
    and b: "bs' = drop (unat (sizes ! s)) bs"
    by (auto simp: read_symbol_def split: list.splits)
  then have "s \<in> set (filter (code_matches n sizes bs) [0..<n])" by simp
  then have m: "code_matches n sizes bs s" by simp
  then have "0 < unat (sizes ! s)" by (simp add: code_matches_def unat_gt_0)
  moreover have "length (take (unat (sizes ! s)) bs) = unat (sizes ! s)"
    using m by (simp only: code_matches_def length_low_bits)
  ultimately show ?thesis using b by (simp add: min_def split: if_splits)
qed

lemma read_item_shorter: "read_item lit dist bs = Some (i, bs') \<Longrightarrow> length bs' < length bs"
  by (fastforce simp: read_item_def bind_eq_Some_conv split: if_splits
      dest: read_symbol_shorter read_bits_shorter)

function read_items :: "u8 list \<Rightarrow> u8 list \<Rightarrow> bool list \<Rightarrow> (lz_item list \<times> bool list) option" where
  "read_items lit dist bs =
    (case read_item lit dist bs of
       None \<Rightarrow> None
     | Some (None, bs) \<Rightarrow> Some ([], bs)
     | Some (Some i, bs) \<Rightarrow>
        (case read_items lit dist bs of None \<Rightarrow> None | Some (is, bs) \<Rightarrow> Some (i # is, bs)))"
  by pat_completeness auto

termination
  by (relation "measure (\<lambda>(lit, dist, bs). length bs)") (auto dest: read_item_shorter)

declare read_items.simps [simp del]

text \<open>A block after its final bit: the type, the tables and the items; fixed codes for type 1.\<close>

definition fixed_lit_sizes :: "u8 list" where
  "fixed_lit_sizes = replicate 144 8 @ replicate 112 9 @ replicate 24 7 @ replicate 8 8"

definition read_packed_block :: "bool list \<Rightarrow> (lz_item list \<times> bool list) option" where
  "read_packed_block bs =
    do {
      (t, bs) \<leftarrow> read_bits 2 bs;
      if t = 1 then read_items fixed_lit_sizes (replicate 32 5) bs
      else if t = 2 then do { (lit, dist, bs) \<leftarrow> read_dynamic_header bs; read_items lit dist bs }
      else None
    }"

section \<open>The tables\<close>

text \<open>A property of all the entries of a table.\<close>

definition entries :: "(nat \<Rightarrow> nat \<Rightarrow> bool) \<Rightarrow> nat \<Rightarrow> nat list \<Rightarrow> bool" where
  "entries P k xs \<longleftrightarrow> (\<forall>i < length xs. P (k + i) (xs ! i))"

lemma entries_nil [simp]: "entries P k []"
  by (simp add: entries_def)

lemma entries_cons [simp]: "entries P k (x # xs) \<longleftrightarrow> P k x \<and> entries P (k + 1) xs"
  by (auto simp: entries_def nth_Cons less_Suc_eq_0_disj split: nat.splits)

lemma entries_append: "entries P k (xs @ ys) \<longleftrightarrow> entries P k xs \<and> entries P (k + length xs) ys"
  by (induction xs arbitrary: k) (simp_all add: ac_simps)

lemma entries_run [simp]: "entries P k (replicate n x @ ys) \<longleftrightarrow> (\<forall>i < n. P (k + i) x) \<and> entries P (k + n) ys"
  unfolding entries_append by (auto simp: entries_def)

lemma entries_last_run [simp]: "entries P k (replicate n x) \<longleftrightarrow> (\<forall>i < n. P (k + i) x)"
  by (auto simp: entries_def)

lemma mod_of_run: "k mod m = 0 \<Longrightarrow> i < m \<Longrightarrow> (k + i) mod m = (i :: nat)"
  by (simp add: mod_add_eq [of k m i, symmetric] del: mod_add_eq)

lemma len_sym_entries:
  "entries (\<lambda>m s. 257 \<le> s \<and> s < 286 \<and> length_base ! (s - 257) + m mod 2 ^ (length_extra ! (s - 257)) = m + 3)
    0 s_tdefl_len_sym"
  unfolding s_tdefl_len_sym_def
  by (simp add: length_base_def length_extra_def mod_of_run)

lemma length_tables [simp]:
  "length s_tdefl_len_sym = 256" "length s_tdefl_small_dist_sym = 512" "length s_tdefl_large_dist_sym = 128"
  "length s_tdefl_large_dist_extra = 128"
  by (simp_all add: s_tdefl_len_sym_def s_tdefl_small_dist_sym_def s_tdefl_large_dist_sym_def
      s_tdefl_large_dist_extra_def)

lemma replicate_merge:
  "replicate m x @ replicate n x = replicate (m + n) x"
  "replicate m x @ replicate n x @ xs = replicate (m + n) x @ xs"
  by (simp_all add: replicate_add)

lemma len_extra_entries: "s_tdefl_len_extra = map (\<lambda>s. length_extra ! (s - 257)) s_tdefl_len_sym"
  by (simp add: s_tdefl_len_extra_def s_tdefl_len_sym_def length_extra_def replicate_merge)

lemma small_dist_entries:
  "entries (\<lambda>m s. s < 30 \<and> dist_base ! s + m mod 2 ^ (dist_extra ! s) = m + 1) 0 s_tdefl_small_dist_sym"
  unfolding s_tdefl_small_dist_sym_def
  by (simp add: dist_base_def dist_extra_def mod_of_run)

lemma small_extra_entries: "s_tdefl_small_dist_extra = map (\<lambda>s. dist_extra ! s) s_tdefl_small_dist_sym"
  by (simp add: s_tdefl_small_dist_extra_def s_tdefl_small_dist_sym_def dist_extra_def replicate_merge)

lemma large_dist_entries:
  "entries (\<lambda>m s. 2 \<le> m \<longrightarrow> s < 30 \<and> 8 \<le> dist_extra ! s \<and>
     dist_base ! s + 256 * (m mod 2 ^ (dist_extra ! s - 8)) = 256 * m + 1) 0 s_tdefl_large_dist_sym"
  unfolding s_tdefl_large_dist_sym_def
  by (simp add: dist_base_def dist_extra_def mod_of_run)

lemma large_extra_entries:
  "drop 2 s_tdefl_large_dist_extra = map (\<lambda>s. dist_extra ! s) (drop 2 s_tdefl_large_dist_sym)"
  by (simp add: s_tdefl_large_dist_extra_def s_tdefl_large_dist_sym_def dist_extra_def replicate_merge)

end
