(* ===== verification/Mz_Codes.thy ===== *)
theory Mz_Codes
  imports Mz_Items
begin

unbundle bit_operations_syntax

text \<open>
  The items of a block as bits: what \<open>tdefl_compress_lz_codes\<close> writes for the contents of
  \<open>m_lz_code_buf\<close>, and that RFC 1951 reads the same items back.
\<close>

section \<open>Items as symbols and bits\<close>

fun item_ok :: "lz_item \<Rightarrow> bool" where
  "item_ok (Lit c) \<longleftrightarrow> True"
| "item_ok (Match len dist) \<longleftrightarrow> 3 \<le> len \<and> len \<le> 258 \<and> 1 \<le> dist \<and> dist \<le> 32768"

definition dist_sym :: "nat \<Rightarrow> nat" where
  "dist_sym m = (if m < 512 then s_tdefl_small_dist_sym ! m else s_tdefl_large_dist_sym ! (m div 256))"

fun item_sym :: "lz_item \<Rightarrow> nat" where
  "item_sym (Lit c) = unat c"
| "item_sym (Match len dist) = s_tdefl_len_sym ! (len - 3)"

fun item_dists :: "lz_item \<Rightarrow> nat list" where
  "item_dists (Lit c) = []"
| "item_dists (Match len dist) = [dist_sym (dist - 1)]"

fun item_bits :: "u8 list \<Rightarrow> u16 list \<Rightarrow> u8 list \<Rightarrow> u16 list \<Rightarrow> lz_item \<Rightarrow> bool list" where
  "item_bits S0 C0 S1 C1 (Lit c) = symbol_bits S0 C0 (unat c)"
| "item_bits S0 C0 S1 C1 (Match len dist) =
    (let s = s_tdefl_len_sym ! (len - 3); t = dist_sym (dist - 1);
         e = length_extra ! (s - 257); f = dist_extra ! t
     in symbol_bits S0 C0 s @ low_bits e (of_nat ((len - 3) mod 2 ^ e) :: u32) @
        symbol_bits S1 C1 t @ low_bits f (of_nat ((dist - 1) mod 2 ^ f) :: u32))"

text \<open>All the symbols of the item have a code.\<close>

definition item_coded :: "u8 list \<Rightarrow> u8 list \<Rightarrow> lz_item \<Rightarrow> bool" where
  "item_coded S0 S1 i \<longleftrightarrow> S0 ! item_sym i \<noteq> 0 \<and> (\<forall>t \<in> set (item_dists i). S1 ! t \<noteq> 0)"

lemma len_sym_values:
  assumes "m < 256"
  shows "257 \<le> s_tdefl_len_sym ! m" and "s_tdefl_len_sym ! m < 286"
    and "length_base ! (s_tdefl_len_sym ! m - 257) + m mod 2 ^ (length_extra ! (s_tdefl_len_sym ! m - 257)) = m + 3"
    and "s_tdefl_len_extra ! m = length_extra ! (s_tdefl_len_sym ! m - 257)"
  using len_sym_entries assms
  by (simp_all add: entries_def len_extra_entries)

lemma dist_sym_values:
  assumes "m < 32768"
  shows "dist_sym m < 30 \<and> dist_base ! dist_sym m + m mod 2 ^ (dist_extra ! dist_sym m) = m + 1"
proof (cases "m < 512")
  case True
  then show ?thesis
    using small_dist_entries by (simp add: dist_sym_def entries_def)
next
  case False
  let ?h = "m div 256" and ?s = "s_tdefl_large_dist_sym ! (m div 256)"
  have "2 \<le> ?h" "?h < 128" using False assms by simp_all
  then have s: "?s < 30" "8 \<le> dist_extra ! ?s" "dist_base ! ?s + 256 * (?h mod 2 ^ (dist_extra ! ?s - 8)) = 256 * ?h + 1"
    using large_dist_entries by (simp_all add: entries_def)
  have "(2 :: nat) ^ (dist_extra ! ?s) = 256 * 2 ^ (dist_extra ! ?s - 8)"
    using power_add [of "2 :: nat" 8 "dist_extra ! ?s - 8"] s(2) by simp
  then have "m mod 2 ^ (dist_extra ! ?s) = 256 * (?h mod 2 ^ (dist_extra ! ?s - 8)) + m mod 256"
    by (simp add: mod_mult2_eq)
  moreover have "256 * ?h + m mod 256 = m" by (rule mult_div_mod_eq)
  ultimately have "dist_base ! ?s + m mod 2 ^ (dist_extra ! ?s) = m + 1" using s(3) by linarith
  then show ?thesis using s(1) False by (simp add: dist_sym_def)
qed

lemma extra_bits_bound: "s < 29 \<Longrightarrow> length_extra ! s \<le> 5" "t < 30 \<Longrightarrow> dist_extra ! t \<le> 13"
proof -
  have "\<forall>x \<in> set length_extra. x \<le> 5" "\<forall>x \<in> set dist_extra. x \<le> 13"
    by (simp_all add: length_extra_def dist_extra_def)
  moreover have "length length_extra = 29" "length dist_extra = 30" by (simp_all add: length_extra_def dist_extra_def)
  ultimately show "s < 29 \<Longrightarrow> length_extra ! s \<le> 5" "t < 30 \<Longrightarrow> dist_extra ! t \<le> 13" by simp_all
qed

text \<open>How many bits an item has, from bounds on the lengths of the codes.\<close>

fun item_cost :: "nat \<Rightarrow> nat \<Rightarrow> lz_item \<Rightarrow> nat" where
  "item_cost a b (Lit c) = a"
| "item_cost a b (Match len dist) = b"

lemma item_bits_length:
  assumes "item_ok i" and "\<forall>s < 256. unat (S0 ! s) \<le> a" and "\<forall>s < 288. 256 \<le> s \<longrightarrow> unat (S0 ! s) \<le> e"
    and "\<forall>t < 32. unat (S1 ! t) \<le> f"
  shows "length (item_bits S0 C0 S1 C1 i) \<le> item_cost a (e + 5 + f + 13) i"
proof (cases i)
  case (Lit c)
  have "unat c < 256" using unsigned_less [of c] by simp
  then show ?thesis using Lit assms(2) by (simp add: symbol_bits_def)
next
  case (Match len dist)
  let ?s = "s_tdefl_len_sym ! (len - 3)" and ?t = "dist_sym (dist - 1)"
  have m: "len - 3 < 256" "dist - 1 < 32768" using assms(1) Match by auto
  have s: "257 \<le> ?s" "?s < 286" "?t < 30" using len_sym_values [OF m(1)] dist_sym_values [OF m(2)] by simp_all
  then have "unat (S0 ! ?s) \<le> e" "unat (S1 ! ?t) \<le> f" "length_extra ! (?s - 257) \<le> 5" "dist_extra ! ?t \<le> 13"
    using assms(3,4) extra_bits_bound(1) [of "?s - 257"] extra_bits_bound(2) [of ?t] by auto
  then show ?thesis using Match by (simp add: symbol_bits_def Let_def)
qed

lemma items_bits_length:
  assumes "\<forall>i \<in> set items. length (f i) \<le> g i"
  shows "length (concat (map f items)) \<le> sum_list (map g items)"
  using assms by (induction items) (auto intro: add_mono)

section \<open>Reading\<close>

lemma read_item_bits:
  assumes g: "good_table 288 S0 C0" "good_table 32 S1 C1" and i: "item_ok i" "item_coded S0 S1 i"
  shows "read_item S0 S1 (item_bits S0 C0 S1 C1 i @ bs) = Some (Some i, bs)"
proof (cases i)
  case (Lit c)
  have "unat c < 256" using unsigned_less [of c] by simp
  then show ?thesis
    using read_symbol_bits [OF g(1), of "unat c"] i Lit
    by (simp add: read_item_def item_coded_def)
next
  case (Match len dist)
  let ?m = "len - 3" and ?d = "dist - 1"
  let ?s = "s_tdefl_len_sym ! ?m" and ?t = "dist_sym ?d"
  have m: "?m < 256" "?d < 32768" using i(1) Match by auto
  note L = len_sym_values [OF m(1)] and D = dist_sym_values [OF m(2)]
  have e: "length_extra ! (?s - 257) \<le> 5" "dist_extra ! ?t \<le> 13"
    using extra_bits_bound(1) [of "?s - 257"] extra_bits_bound(2) [of ?t] L(2) D by auto
  have "read_symbol 288 S0 (symbol_bits S0 C0 ?s @ r) = Some (?s, r)" for r
    using read_symbol_bits [OF g(1), of ?s] i(2) L(2) by (simp add: Match item_coded_def)
  moreover have "read_symbol 32 S1 (symbol_bits S1 C1 ?t @ r) = Some (?t, r)" for r
    using read_symbol_bits [OF g(2), of ?t] i(2) D by (simp add: Match item_coded_def)
  moreover have "read_bits k (low_bits k (of_nat (x mod 2 ^ k) :: u32) @ r) = Some (x mod 2 ^ k, r)" if "k \<le> 13" for k x r
    using that by (intro read_value) simp_all
  ultimately show ?thesis
    using L(1-3) D e i(1) Match by (simp add: read_item_def Let_def)
qed

lemma read_items_bits:
  assumes g: "good_table 288 S0 C0" "good_table 32 S1 C1" and "S0 ! 256 \<noteq> 0"
    and "\<forall>i \<in> set items. item_ok i \<and> item_coded S0 S1 i"
  shows "read_items S0 S1 (concat (map (item_bits S0 C0 S1 C1) items) @ symbol_bits S0 C0 256 @ bs) = Some (items, bs)"
  using assms(4)
proof (induction items)
  case Nil
  have "read_symbol 288 S0 (symbol_bits S0 C0 256 @ bs) = Some (256, bs)"
    using read_symbol_bits [OF g(1) _ assms(3), of bs] by simp
  then have "read_item S0 S1 (symbol_bits S0 C0 256 @ bs) = Some (None, bs)" by (simp add: read_item_def)
  then show ?case by (simp add: read_items.simps [of S0 S1 "symbol_bits S0 C0 256 @ bs"])
next
  case (Cons i items)
  then have "read_item S0 S1 (item_bits S0 C0 S1 C1 i @ concat (map (item_bits S0 C0 S1 C1) items) @ symbol_bits S0 C0 256 @ bs)
      = Some (Some i, concat (map (item_bits S0 C0 S1 C1) items) @ symbol_bits S0 C0 256 @ bs)"
    using read_item_bits [OF g] by simp
  then show ?case using Cons by (simp add: read_items.simps [of S0 S1 "item_bits S0 C0 S1 C1 i @ _"])
qed

section \<open>Writing\<close>

lemma mz_bitmasks_mask: "e \<le> 16 \<Longrightarrow> mz_bitmasks ! e = mask e"
proof -
  have bm: "mz_bitmasks = map mask [0..<17]"
    by (simp add: upt_conv_Cons mz_bitmasks_def mask_eq_exp_minus_1)
  then show "mz_bitmasks ! e = mask e" if "e \<le> 16"
    unfolding bm using that by (subst nth_map_upt) simp_all
qed

lemma put_extra_writes:
  assumes "e \<le> 13"
  shows "writes (low_bits e (of_nat (unat x mod 2 ^ e) :: u32)) d
    (TDEFL_PUT_BITS (x AND mz_bitmasks ! e) (of_nat e) d)"
proof -
  have "unat (take_bit e x) = unat x mod 2 ^ e" by (simp only: unsigned_take_bit_eq take_bit_eq_mod [of e "unat x"])
  moreover have "of_nat (unat (take_bit e x)) = take_bit e x" by simp
  ultimately have "take_bit e x = of_nat (unat x mod 2 ^ e)" by (simp only:)
  then have m: "x AND mz_bitmasks ! e = of_nat (unat x mod 2 ^ e)"
    using assms by (simp add: mz_bitmasks_mask take_bit_eq_mask)
  have "unat (of_nat e :: u32) = e" using assms by (simp add: unsigned_of_nat take_bit_nat_eq_self)
  then show ?thesis
    unfolding m using assms by (intro put_value_writes) simp_all
qed

definition tables_good :: "tdefl_compressor \<Rightarrow> bool" where
  "tables_good d \<longleftrightarrow> good_table 288 (m_huff_code_sizes d ! 0) (m_huff_codes d ! 0) \<and>
     good_table 32 (m_huff_code_sizes d ! 1) (m_huff_codes d ! 1)"

abbreviation coded :: "tdefl_compressor \<Rightarrow> lz_item \<Rightarrow> bool" where
  "coded d \<equiv> item_coded (m_huff_code_sizes d ! 0) (m_huff_code_sizes d ! 1)"

abbreviation bits_of :: "tdefl_compressor \<Rightarrow> lz_item \<Rightarrow> bool list" where
  "bits_of d \<equiv> item_bits (m_huff_code_sizes d ! 0) (m_huff_codes d ! 0) (m_huff_code_sizes d ! 1) (m_huff_codes d ! 1)"

lemma writes_same: "writes bs d d' \<Longrightarrow> m_huff_code_sizes d' = m_huff_code_sizes d \<and> m_huff_codes d' = m_huff_codes d"
  by (simp add: writes_def same_tables_def)

lemma put_match_writes:
  assumes g: "tables_good d" and i: "item_ok (Match len dist)" "coded d (Match len dist)"
    and "unat ml = len - 3" and "unat md = dist - 1"
  shows "writes (bits_of d (Match len dist)) d (put_match ml md d)"
proof -
  let ?m = "len - 3" and ?d = "dist - 1"
  let ?s = "s_tdefl_len_sym ! ?m" and ?t = "dist_sym ?d"
  have m: "?m < 256" "?d < 32768" using i(1) by auto
  note L = len_sym_values [OF m(1)] and D = dist_sym_values [OF m(2)]
  have "?s - 257 < 29" using L(2) by linarith
  then have e: "length_extra ! (?s - 257) \<le> 13" "dist_extra ! ?t \<le> 13"
    using extra_bits_bound(1) [of "?s - 257"] extra_bits_bound(2) [of ?t] D by auto
  let ?d1 = "put_code 0 ?s d"
  let ?d2 = "TDEFL_PUT_BITS (ml AND mz_bitmasks ! (length_extra ! (?s - 257))) (of_nat (length_extra ! (?s - 257))) ?d1"
  let ?d3 = "put_code 1 ?t ?d2"
  let ?d4 = "TDEFL_PUT_BITS (md AND mz_bitmasks ! (dist_extra ! ?t)) (of_nat (dist_extra ! ?t)) ?d3"
  have 1: "writes (symbol_bits (m_huff_code_sizes d ! 0) (m_huff_codes d ! 0) ?s) d ?d1"
    using put_code_writes [where n=288 and d=d and k=0 and s="?s"] g i(2) L(2) by (simp add: tables_good_def item_coded_def)
  note 2 = writes_append [OF 1 put_extra_writes [OF e(1), of ml ?d1]]
  have "writes (symbol_bits (m_huff_code_sizes d ! 1) (m_huff_codes d ! 1) ?t) ?d2 ?d3"
    using put_code_writes [where n=32 and d="?d2" and k=1 and s="?t"] g i(2) D writes_same [OF 2] by (simp add: tables_good_def item_coded_def)
  note 3 = writes_append [OF 2 this]
  note 4 = writes_append [OF 3 put_extra_writes [OF e(2), of md ?d3]]
  have "put_match ml md d = ?d4"
  proof (cases "md < 512")
    case True
    then have "dist - 1 < 512" using assms(5) by (simp add: word_less_nat_alt)
    then show ?thesis
      using True assms(4,5) L(4)
      by (simp add: put_match_def Let_def dist_sym_def small_extra_entries)
  next
    case False
    then have n: "\<not> dist - 1 < 512" using assms(5) by (simp add: word_less_nat_alt)
    then have h: "2 \<le> ?d div 256" "?d div 256 < 128" using m(2) by simp_all
    have "unat (drop_bit 8 md) = drop_bit 8 ?d" by (simp only: unat_drop_bit_eq assms(5))
    also have "\<dots> = ?d div 256" by (simp add: drop_bit_eq_div)
    finally have "unat (drop_bit 8 md) = ?d div 256" .
    moreover have "s_tdefl_large_dist_extra ! (?d div 256) = dist_extra ! ?t"
    proof -
      have k: "2 + (?d div 256 - 2) = ?d div 256" using h by linarith
      have "s_tdefl_large_dist_extra ! (?d div 256) = drop 2 s_tdefl_large_dist_extra ! (?d div 256 - 2)"
        using nth_drop [of 2 s_tdefl_large_dist_extra "?d div 256 - 2"] unfolding k by simp
      also have "\<dots> = dist_extra ! (drop 2 s_tdefl_large_dist_sym ! (?d div 256 - 2))"
        unfolding large_extra_entries using h by (subst nth_map) simp_all
      also have "\<dots> = dist_extra ! ?t"
        using nth_drop [of 2 s_tdefl_large_dist_sym "?d div 256 - 2"] n unfolding k by (simp add: dist_sym_def)
      finally show ?thesis .
    qed
    ultimately show ?thesis
      using False n assms(4) L(4) by (simp add: put_match_def Let_def dist_sym_def)
  qed
  then show ?thesis
    using 4 assms(4,5) by (simp add: Let_def)
qed

end
