(* ===== verification/Mz_Record.thy ===== *)
theory Mz_Record
  imports Mz_Codes
begin

unbundle bit_operations_syntax

text \<open>
  What \<open>m_lz_code_buf\<close> holds: groups of eight items, each after a byte of flags.  The operations
  that record an item append it, and \<open>tdefl_compress_lz_codes\<close> writes all of them.
\<close>

section \<open>The bytes of a list of items\<close>

fun item_bytes :: "lz_item \<Rightarrow> u8 list" where
  "item_bytes (Lit c) = [c]"
| "item_bytes (Match len dist) = [of_nat (len - 3), of_nat ((dist - 1) mod 256), of_nat ((dist - 1) div 256)]"

fun is_match :: "lz_item \<Rightarrow> bool" where
  "is_match (Lit c) = False"
| "is_match (Match len dist) = True"

definition flag_byte :: "lz_item list \<Rightarrow> u8" where
  "flag_byte items = horner_sum of_bool 2 (map is_match items)"

definition items_bytes :: "lz_item list \<Rightarrow> u8 list" where
  "items_bytes items = concat (map item_bytes items)"

function lz_bytes :: "lz_item list \<Rightarrow> u8 list" where
  "lz_bytes items =
    (if items = [] then []
     else flag_byte (take 8 items) # items_bytes (take 8 items) @ lz_bytes (drop 8 items))"
  by pat_completeness auto

termination
  by (relation "measure length") simp_all

declare lz_bytes.simps [simp del]

lemma lz_bytes_nil [simp]: "lz_bytes [] = []"
  by (simp add: lz_bytes.simps)

lemma lz_bytes_group: "items \<noteq> [] \<Longrightarrow> length items \<le> 8 \<Longrightarrow> lz_bytes items = flag_byte items # items_bytes items"
  by (simp add: lz_bytes.simps [of items])

lemma lz_bytes_append: "8 dvd length a \<Longrightarrow> lz_bytes (a @ b) = lz_bytes a @ lz_bytes b"
proof (induction a rule: lz_bytes.induct)
  case (1 a)
  show ?case
  proof (cases "a = []")
    case False
    then have "8 \<le> length a" using "1.prems" by (auto dest: dvd_imp_le)
    moreover have "8 dvd length (drop 8 a)" using "1.prems" by (simp add: dvd_diff_nat)
    ultimately show ?thesis
      using "1.IH" [OF False] False by (simp add: lz_bytes.simps [of a] lz_bytes.simps [of "a @ b"])
  qed simp
qed

lemma bit_flag_byte: "bit (flag_byte items) n \<longleftrightarrow> n < 8 \<and> n < length items \<and> is_match (items ! n)"
  by (auto simp: flag_byte_def bit_horner_sum_bit_iff nth_append)

lemma items_bytes_cons [simp]: "items_bytes [] = []" "items_bytes (i # is) = item_bytes i @ items_bytes is"
  by (simp_all add: items_bytes_def)

lemma items_bytes_append: "items_bytes (a @ b) = items_bytes a @ items_bytes b"
  by (simp add: items_bytes_def)

lemma length_items_bytes: "length items \<le> length (items_bytes items)"
proof (induction items)
  case (Cons i items)
  then show ?case by (cases i) simp_all
qed simp

lemma length_lz_bytes: "length items \<le> length (lz_bytes items)"
proof (induction items rule: lz_bytes.induct)
  case (1 items)
  show ?case
  proof (cases "items = []")
    case False
    have "length items = length (take 8 items) + length (drop 8 items)" by simp
    also have "\<dots> \<le> length (items_bytes (take 8 items)) + length (lz_bytes (drop 8 items))"
      using "1.IH" [OF False] length_items_bytes [of "take 8 items"] by (intro add_mono) simp_all
    finally show ?thesis using False by (simp add: lz_bytes.simps [of items])
  qed simp
qed

section \<open>Writing the buffer\<close>

text \<open>Within a group of which \<open>k\<close> places are left.\<close>

definition group_rest :: "nat \<Rightarrow> lz_item list \<Rightarrow> u8 list" where
  "group_rest k items = items_bytes (take k items) @ lz_bytes (drop k items)"

definition group_flags :: "nat \<Rightarrow> lz_item list \<Rightarrow> u32 \<Rightarrow> bool" where
  "group_flags k items flags \<longleftrightarrow> (\<forall>i. bit flags i \<longleftrightarrow> i = k \<or> (i < k \<and> i < length items \<and> is_match (items ! i)))"

lemma group_rest_nil: "group_rest k items = [] \<longleftrightarrow> items = []"
proof
  assume "group_rest k items = []"
  then have "length (take k items) = 0" "length (drop k items) = 0"
    using length_items_bytes [of "take k items"] length_lz_bytes [of "drop k items"]
    by (simp_all add: group_rest_def)
  then have "length items = 0" by auto
  then show "items = []" by simp
qed (simp add: group_rest_def)

lemma flags_one: "group_flags k items flags \<Longrightarrow> flags = 1 \<longleftrightarrow> k = 0"
proof
  assume f: "group_flags k items flags" "flags = 1"
  then have "bit (1 :: u32) k" by (simp add: group_flags_def)
  then show "k = 0" by (simp add: bit_1_iff)
next
  assume "group_flags k items flags" "k = 0"
  then show "flags = 1" by (intro bit_word_eqI) (simp add: group_flags_def bit_1_iff)
qed

lemma bit_0x100: "bit (0x100 :: u32) i \<longleftrightarrow> i = 8"
proof -
  have e: "(0x100 :: u32) = 2 ^ 8" by simp
  show ?thesis unfolding e by (subst bit_exp_iff) auto
qed

lemma new_group_flags: "group_flags 8 items (ucast (flag_byte (take 8 items)) OR 0x100)"
  unfolding group_flags_def bit_or_iff bit_0x100 bit_ucast_iff bit_flag_byte by auto

lemma group_flags_step:
  assumes "group_flags (Suc k) (i # items) flags"
  shows "flags AND 1 \<noteq> 0 \<longleftrightarrow> is_match i" and "group_flags k items (drop_bit 1 flags)"
proof -
  have "bit flags 0 \<longleftrightarrow> is_match i" using assms by (simp add: group_flags_def)
  then show "flags AND 1 \<noteq> 0 \<longleftrightarrow> is_match i" by (simp add: and_one_eq odd_iff_mod_2_eq_one bit_0)
  show "group_flags k items (drop_bit 1 flags)"
    using assms by (simp add: group_flags_def bit_drop_bit_eq)
qed

lemma unat_two_bytes: "unat (ucast (a :: u8) OR push_bit 8 (ucast (b :: u8)) :: u32) = unat a + 256 * unat b"
proof -
  have "(ucast a :: u32) OR push_bit 8 (ucast b) = ucast a + push_bit 8 (ucast b)"
    by (rule disjunctive_add [symmetric]) (auto simp: bit_simps dest: bit_imp_le_length)
  moreover have "unat (ucast a :: u32) = unat a" "unat (ucast b :: u32) = unat b" by (simp_all add: unat_ucast_widen)
  moreover have "unat a < 256" "unat b < 256" using unsigned_less [of a] unsigned_less [of b] by simp_all
  ultimately show ?thesis by (simp add: push_bit_eq_mult unat_word_ariths)
qed

lemma drop_eq_ConsD: "drop p xs = y # ys \<Longrightarrow> p < length xs \<and> xs ! p = y \<and> drop (Suc p) xs = ys"
  by (metis drop_Suc drop_eq_Nil2 leI list.distinct(1) list.sel(3) nth_via_drop tl_drop)

lemma drop_eq_Cons3D:
  assumes "drop p xs = a # b # c # ys"
  shows "p + 2 < length xs" "xs ! p = a" "xs ! (p + 1) = b" "xs ! (p + 2) = c" "drop (p + 3) xs = ys"
proof -
  have 1: "xs ! p = a" "drop (Suc p) xs = b # c # ys" using drop_eq_ConsD [OF assms] by simp_all
  have 2: "xs ! Suc p = b" "drop (Suc (Suc p)) xs = c # ys" using drop_eq_ConsD [OF 1(2)] by simp_all
  have 3: "Suc (Suc p) < length xs" "xs ! Suc (Suc p) = c" "drop (Suc (Suc (Suc p))) xs = ys"
    using drop_eq_ConsD [OF 2(2)] by simp_all
  have "p + 2 = Suc (Suc p)" "p + 3 = Suc (Suc (Suc p))" "p + 1 = Suc p" by simp_all
  with 1 2 3 show "p + 2 < length xs" "xs ! p = a" "xs ! (p + 1) = b" "xs ! (p + 2) = c" "drop (p + 3) xs = ys"
    by (simp_all only:)
qed

lemma lz_codes_step:
  assumes g: "tables_good d" and i: "item_ok i" "coded d i"
    and f: "group_flags (Suc k) (i # items) flags" "flags \<noteq> 1"
    and b: "drop p (take fin buf) = item_bytes i @ rest" and fin: "fin \<le> length buf"
  shows "\<exists>d1 p1. lz_codes_loop buf fin flags p d = lz_codes_loop buf fin (drop_bit 1 flags) p1 d1 \<and>
    writes (bits_of d i) d d1 \<and> drop p1 (take fin buf) = rest"
proof (cases i)
  case (Lit c)
  then have p: "p < fin" "buf ! p = c" "drop (Suc p) (take fin buf) = rest"
    using b fin by (auto dest!: drop_eq_ConsD)
  have "unat c < 256" using unsigned_less [of c] by simp
  then have "writes (bits_of d i) d (put_code 0 (unat c) d)"
    using put_code_writes [of 288 d 0 "unat c"] g i(2) Lit by (simp add: tables_good_def item_coded_def)
  moreover have o: "(flags AND 1 \<noteq> 0) = False" "(flags = 1) = False" "(p < length buf) = True" "(p < fin) = True"
    using group_flags_step(1) [OF f(1)] Lit f(2) p(1) fin by simp_all
  have "lz_codes_loop buf fin flags p d = lz_codes_loop buf fin (drop_bit 1 flags) (p + 1) (put_code 0 (unat c) d)"
    by (subst lz_codes_loop.simps) (simp only: o if_True if_False Let_def prod.case p(2))
  ultimately show ?thesis using p(3) by (metis Suc_eq_plus1)
next
  case (Match len dist)
  have l: "drop p (take fin buf) = of_nat (len - 3) # of_nat ((dist - 1) mod 256) # of_nat ((dist - 1) div 256) # rest"
    using b Match by simp
  then have p: "p + 2 < fin" "buf ! p = of_nat (len - 3)" "buf ! (p + 1) = of_nat ((dist - 1) mod 256)"
    "buf ! (p + 2) = of_nat ((dist - 1) div 256)" "drop (p + 3) (take fin buf) = rest"
    using drop_eq_Cons3D [OF l] fin by simp_all
  have r: "len - 3 < 256" "dist - 1 < 32768" using i(1) Match by auto
  let ?ml = "ucast (buf ! p) :: u32" and ?md = "ucast (buf ! (p + 1)) OR push_bit 8 (ucast (buf ! (p + 2))) :: u32"
  have v: "unat ?ml = len - 3" "unat ?md = dist - 1"
    using r unfolding unat_two_bytes p(2-4)
    by (simp_all add: unat_ucast_widen unsigned_of_nat take_bit_eq_mod)
  have "writes (bits_of d i) d (put_match ?ml ?md d)"
    using put_match_writes [OF g] i v Match by blast
  moreover have "?md < 0x8000" using v(2) r(2) by (simp add: word_less_nat_alt)
  then have o: "(flags AND 1 \<noteq> 0) = True" "(flags = 1) = False" "(p + 2 < length buf) = True" "(p < fin) = True"
    "(?md < 0x8000) = True"
    using group_flags_step(1) [OF f(1)] Match f(2) p(1) fin by simp_all
  have "lz_codes_loop buf fin flags p d = lz_codes_loop buf fin (drop_bit 1 flags) (p + 3) (put_match ?ml ?md d)"
    by (subst lz_codes_loop.simps) (simp only: o if_True if_False Let_def prod.case)
  ultimately show ?thesis using p(5) by blast
qed

lemma tables_good_same: "writes bs d d' \<Longrightarrow> tables_good d' = tables_good d"
  using writes_same by (simp add: tables_good_def)

text \<open>When the group is full, the loop reads the next byte of flags.\<close>

lemma lz_codes_next_group:
  assumes f: "group_flags 0 items flags" and b: "drop p (take fin buf) = group_rest 0 items"
    and "items \<noteq> []" and "fin \<le> length buf"
  shows "\<exists>flags1. lz_codes_loop buf fin flags p d = lz_codes_loop buf fin flags1 (p + 1) d \<and>
    group_flags 8 items flags1 \<and> drop (p + 1) (take fin buf) = group_rest 8 items"
proof -
  have "drop p (take fin buf) = flag_byte (take 8 items) # group_rest 8 items"
    using b assms(3) by (simp add: group_rest_def lz_bytes.simps [of items])
  from drop_eq_ConsD [OF this] have p: "p < fin" "take fin buf ! p = flag_byte (take 8 items)"
    "drop (p + 1) (take fin buf) = group_rest 8 items" by simp_all
  then have q: "buf ! p = flag_byte (take 8 items)" by simp
  have "p + 1 < fin"
  proof (rule ccontr)
    assume "\<not> p + 1 < fin"
    then have "drop (p + 1) (take fin buf) = []" by simp
    then show False using p(3) group_rest_nil [of 8 items] assms(3) by simp
  qed
  let ?f = "ucast (flag_byte (take 8 items)) OR 0x100 :: u32"
  have g: "group_flags 8 items ?f" by (rule new_group_flags)
  have o: "(flags = 1) = True" "(p < fin) = True" "(?f = 1) = False" "(p + 1 < fin) = True"
    using flags_one [OF f] flags_one [OF g] p(1) \<open>p + 1 < fin\<close> by simp_all
  have "lz_codes_loop buf fin flags p d = lz_codes_loop buf fin ?f (p + 1) d"
    by (subst (1 2) lz_codes_loop.simps) (simp only: o q if_True if_False Let_def prod.case)
  with g p(3) show ?thesis by blast
qed

lemma lz_codes_loop_writes:
  assumes "tables_good d" and "\<forall>i \<in> set items. item_ok i \<and> coded d i" and "fin \<le> length buf"
    and "group_flags k items flags" and "drop p (take fin buf) = group_rest k items"
  shows "\<exists>d'. lz_codes_loop buf fin flags p d = Some d' \<and> writes (concat (map (bits_of d) items)) d d'"
  using assms
proof (induction items arbitrary: k flags p d)
  case Nil
  then have "fin \<le> p" by (simp add: group_rest_def)
  then show ?case using writes_nothing by (auto simp: lz_codes_loop.simps [of buf fin flags p d])
next
  case (Cons i items)
  have next_item: "\<exists>d'. lz_codes_loop buf fin flags p d = Some d' \<and> writes (concat (map (bits_of d) (i # items))) d d'"
    if f: "group_flags (Suc k) (i # items) flags" "flags \<noteq> 1"
    "drop p (take fin buf) = group_rest (Suc k) (i # items)" for k flags p
  proof -
    have r: "group_rest (Suc k) (i # items) = item_bytes i @ group_rest k items" by (simp add: group_rest_def)
    obtain d1 p1 where s: "lz_codes_loop buf fin flags p d = lz_codes_loop buf fin (drop_bit 1 flags) p1 d1"
      "writes (bits_of d i) d d1" "drop p1 (take fin buf) = group_rest k items"
      using lz_codes_step [OF Cons.prems(1) _ _ f(1,2) f(3) [unfolded r] Cons.prems(3)] Cons.prems(2) by auto
    then obtain d' where d': "lz_codes_loop buf fin (drop_bit 1 flags) p1 d1 = Some d'"
      "writes (concat (map (bits_of d1) items)) d1 d'"
      using Cons.IH [of d1 k "drop_bit 1 flags" p1] Cons.prems(1-3) group_flags_step(2) [OF f(1)]
        tables_good_same [OF s(2)] writes_same [OF s(2)] by auto
    have "writes (bits_of d i @ concat (map (bits_of d) items)) d d'"
      using writes_append [OF s(2) d'(2)] by (simp add: writes_same [OF s(2)])
    then show ?thesis using s(1) d'(1) by auto
  qed
  show ?case
  proof (cases k)
    case 0
    obtain flags1 where "lz_codes_loop buf fin flags p d = lz_codes_loop buf fin flags1 (p + 1) d"
      "group_flags 8 (i # items) flags1" "drop (p + 1) (take fin buf) = group_rest 8 (i # items)"
      using lz_codes_next_group [of "i # items" flags p fin buf] Cons.prems 0 by auto
    then show ?thesis
      using next_item [of 7 flags1 "p + 1"] flags_one [of 8 "i # items" flags1] by simp
  next
    case (Suc k')
    then show ?thesis
      using next_item [of k' flags p] flags_one [OF Cons.prems(4)] Cons.prems by simp
  qed
qed

section \<open>Recording an item\<close>

text \<open>The buffer holds \<open>items\<close>: full groups, and one that is being filled, whose flags are in the
  high bits of its byte.\<close>

definition lz_holds :: "lz_item list \<Rightarrow> tdefl_lz \<Rightarrow> bool" where
  "lz_holds items d \<longleftrightarrow> (\<exists>full cur. items = full @ cur \<and> 8 dvd length full \<and> length cur < 8 \<and>
     unat (m_num_flags_left d) = 8 - length cur \<and>
     take (m_pLZ_flags d) (m_lz_code_buf d) = lz_bytes full \<and> length (lz_bytes full) = m_pLZ_flags d \<and>
     drop (Suc (m_pLZ_flags d)) (take (m_pLZ_code_buf d) (m_lz_code_buf d)) = items_bytes cur \<and>
     m_pLZ_code_buf d = Suc (m_pLZ_flags d) + length (items_bytes cur) \<and>
     (\<forall>i < length cur. bit (m_lz_code_buf d ! m_pLZ_flags d) (8 - length cur + i) \<longleftrightarrow> is_match (cur ! i)))"

definition item_len :: "lz_item \<Rightarrow> nat" where
  "item_len i = (case i of Lit c \<Rightarrow> 1 | Match len dist \<Rightarrow> len)"

text \<open>The counts of the symbols are those of the items.\<close>

definition lz_counted :: "lz_item list \<Rightarrow> tdefl_lz \<Rightarrow> bool" where
  "lz_counted items d \<longleftrightarrow> huff_arrays (coder d) \<and>
     (\<forall>s < 288. unat (m_huff_count (coder d) ! 0 ! s) = count_list (map item_sym items) s) \<and>
     (\<forall>t < 32. unat (m_huff_count (coder d) ! 1 ! t) = count_list (concat (map item_dists items)) t)"

definition lz_ok :: "lz_item list \<Rightarrow> tdefl_lz \<Rightarrow> bool" where
  "lz_ok items d \<longleftrightarrow> lz_holds items d \<and> lz_counted items d \<and> (\<forall>i \<in> set items. item_ok i) \<and>
     length (m_lz_code_buf d) = TDEFL_LZ_CODE_BUF_SIZE \<and>
     m_total_lz_bytes d = of_nat (sum_list (map item_len items))"

lemma lz_holds_length: "lz_holds items d \<Longrightarrow> length items < m_pLZ_code_buf d"
proof -
  assume "lz_holds items d"
  then obtain full cur where *: "items = full @ cur" "length (lz_bytes full) = m_pLZ_flags d"
    "m_pLZ_code_buf d = Suc (m_pLZ_flags d) + length (items_bytes cur)"
    unfolding lz_holds_def by blast
  then show ?thesis using length_lz_bytes [of full] length_items_bytes [of cur] by simp
qed

text \<open>Only the buffer changes.\<close>

definition buffer_step :: "tdefl_lz \<Rightarrow> tdefl_lz \<Rightarrow> bool" where
  "buffer_step d d' \<longleftrightarrow> length (m_lz_code_buf d') = length (m_lz_code_buf d) \<and>
     d' = d\<lparr>m_lz_code_buf := m_lz_code_buf d', m_pLZ_flags := m_pLZ_flags d',
       m_num_flags_left := m_num_flags_left d', m_pLZ_code_buf := m_pLZ_code_buf d'\<rparr>"

text \<open>The state of the parser stays, and the coder but for the counts.\<close>

definition same_parse :: "tdefl_lz \<Rightarrow> tdefl_lz \<Rightarrow> bool" where
  "same_parse d d' \<longleftrightarrow> m_max_probes d' = m_max_probes d \<and> m_lookahead_pos d' = m_lookahead_pos d \<and>
     m_lookahead_size d' = m_lookahead_size d \<and> m_dict_size d' = m_dict_size d \<and>
     m_saved_match_dist d' = m_saved_match_dist d \<and> m_saved_match_len d' = m_saved_match_len d \<and>
     m_saved_lit d' = m_saved_lit d \<and> m_dict d' = m_dict d \<and> m_next d' = m_next d \<and> m_hash d' = m_hash d \<and>
     (coder d')\<lparr>m_huff_count := m_huff_count (coder d)\<rparr> = coder d"

lemma buffer_stepD:
  assumes "buffer_step d d'"
  shows "coder d' = coder d" and "m_total_lz_bytes d' = m_total_lz_bytes d"
    and "length (m_lz_code_buf d') = length (m_lz_code_buf d)" and "same_parse d d'"
proof -
  have e: "d' = d\<lparr>m_lz_code_buf := m_lz_code_buf d', m_pLZ_flags := m_pLZ_flags d',
       m_num_flags_left := m_num_flags_left d', m_pLZ_code_buf := m_pLZ_code_buf d'\<rparr>"
    using assms by (simp add: buffer_step_def)
  show "coder d' = coder d" "m_total_lz_bytes d' = m_total_lz_bytes d" by (subst e, simp)+
  show "same_parse d d'" by (subst e, simp add: same_parse_def)
  show "length (m_lz_code_buf d') = length (m_lz_code_buf d)" using assms by (simp add: buffer_step_def)
qed

lemma same_parse_trans: "same_parse a b \<Longrightarrow> same_parse b c \<Longrightarrow> same_parse a c"
  by (simp add: same_parse_def) (metis tdefl_compressor.surjective tdefl_compressor.update_convs(3))

lemma same_parse_count: "same_parse d (count_symbol k s d)"
  by (simp add: same_parse_def count_symbol_def)

text \<open>The bytes of an item are put, and then its flag.\<close>

definition put_item :: "u8 list \<Rightarrow> tdefl_lz \<Rightarrow> tdefl_lz" where
  "put_item bs d = d\<lparr>m_lz_code_buf := take (m_pLZ_code_buf d) (m_lz_code_buf d) @ bs @
     drop (m_pLZ_code_buf d + length bs) (m_lz_code_buf d), m_pLZ_code_buf := m_pLZ_code_buf d + length bs\<rparr>"

lemma bit_0x80: "bit (0x80 :: u8) i \<longleftrightarrow> i = 7"
proof -
  have e: "(0x80 :: u8) = 2 ^ 7" by simp
  show ?thesis unfolding e by (subst bit_exp_iff) auto
qed

lemma next_lz_flag_holds:
  assumes h: "lz_holds items d" and bs: "bs = item_bytes i" and m: "mark = (if is_match i then 0x80 else 0)"
    and room: "m_pLZ_code_buf d + length bs \<le> length (m_lz_code_buf d)"
  shows "\<exists>d'. next_lz_flag mark (put_item bs d) = Some d' \<and> lz_holds (items @ [i]) d' \<and>
    m_pLZ_code_buf d' \<le> m_pLZ_code_buf d + length bs + 1 \<and> buffer_step d d'"
proof -
  obtain full cur where H: "items = full @ cur" "8 dvd length full" "length cur < 8"
    "unat (m_num_flags_left d) = 8 - length cur"
    "take (m_pLZ_flags d) (m_lz_code_buf d) = lz_bytes full" "length (lz_bytes full) = m_pLZ_flags d"
    "drop (Suc (m_pLZ_flags d)) (take (m_pLZ_code_buf d) (m_lz_code_buf d)) = items_bytes cur"
    "m_pLZ_code_buf d = Suc (m_pLZ_flags d) + length (items_bytes cur)"
    "\<forall>i < length cur. bit (m_lz_code_buf d ! m_pLZ_flags d) (8 - length cur + i) \<longleftrightarrow> is_match (cur ! i)"
    using h unfolding lz_holds_def by blast
  let ?buf = "m_lz_code_buf d" and ?f = "m_pLZ_flags d" and ?p = "m_pLZ_code_buf d"
  let ?cur = "cur @ [i]"
  define fb where "fb = drop_bit 1 (?buf ! ?f) OR mark"
  define buf1 where "buf1 = take ?p ?buf @ bs @ drop (?p + length bs) ?buf"
  define buf2 where "buf2 = buf1[?f := fb]"
  have f: "?f < ?p" "?f < length ?buf" using H(8) room by simp_all
  have len: "length buf1 = length ?buf" "length buf2 = length ?buf" using room by (simp_all add: buf1_def buf2_def)
  have b1: "buf1 ! ?f = ?buf ! ?f" using f by (simp add: buf1_def nth_append)
  have take2: "take ?f buf2 = lz_bytes full" using f H(5) by (simp add: buf2_def buf1_def)
  have nth2: "buf2 ! ?f = fb" using f len by (simp add: buf2_def)
  have "take (?p + length bs) buf1 = take ?p ?buf @ bs" using room by (simp add: buf1_def)
  then have "take (?p + length bs) buf2 = (take ?p ?buf @ bs)[?f := fb]" by (simp add: buf2_def take_update_swap)
  then have drop2: "drop (Suc ?f) (take (?p + length bs) buf2) = items_bytes ?cur"
    using f H(7) by (simp add: bs items_bytes_append)
  have flags: "bit fb (8 - length ?cur + j) \<longleftrightarrow> is_match (?cur ! j)" if "j < length ?cur" for j
  proof -
    have mb: "bit mark n \<longleftrightarrow> is_match i \<and> n = 7" for n using bit_0x80 m by simp
    have n: "1 + (8 - length ?cur + j) = 8 - length cur + j" using H(3) by simp
    have "bit fb (8 - length ?cur + j) \<longleftrightarrow> bit (?buf ! ?f) (8 - length cur + j) \<or> is_match i \<and> 8 - length ?cur + j = 7"
      by (simp only: fb_def bit_or_iff bit_drop_bit_eq comp_def mb n)
    moreover have "\<not> bit (?buf ! ?f) 8" by (auto dest: bit_imp_le_length)
    ultimately show ?thesis
      using H(3,9) that by (cases "j < length cur") (auto simp: nth_append less_Suc_eq)
  qed
  have put: "put_lz ?f fb (put_item bs d) = Some ((put_item bs d)\<lparr>m_lz_code_buf := buf2\<rparr>)"
    using f len by (simp add: put_lz_def put_item_def buf1_def buf2_def)
  have nf: "next_lz_flag mark (put_item bs d) =
      Some (if m_num_flags_left d - 1 = 0
        then d\<lparr>m_lz_code_buf := buf2, m_num_flags_left := 8, m_pLZ_flags := ?p + length bs, m_pLZ_code_buf := Suc (?p + length bs)\<rparr>
        else d\<lparr>m_lz_code_buf := buf2, m_num_flags_left := m_num_flags_left d - 1, m_pLZ_code_buf := ?p + length bs\<rparr>)"
    using put b1 by (simp add: next_lz_flag_def Let_def put_item_def buf1_def [symmetric] fb_def)
  have left: "unat (m_num_flags_left d - 1) = 8 - length ?cur"
    using H(3,4) by (subst unat_minus_one) auto
  show ?thesis
  proof (cases "length cur = 7")
    case True
    then have z: "m_num_flags_left d - 1 = 0" using left by (simp add: unat_eq_0)
    have fl: "fb = flag_byte ?cur"
    proof (rule bit_word_eqI)
      fix j
      assume "j < LENGTH(8)"
      then show "bit fb j \<longleftrightarrow> bit (flag_byte ?cur) j" using flags [of j] True by (simp add: bit_flag_byte)
    qed
    have "take (?p + length bs) buf2 = take ?f buf2 @ buf2 ! ?f # drop (Suc ?f) (take (?p + length bs) buf2)"
      using f len room by (subst id_take_nth_drop [of ?f]) simp_all
    also have "\<dots> = lz_bytes full @ lz_bytes ?cur"
      using True unfolding take2 nth2 drop2 fl by (simp add: lz_bytes_group)
    also have "\<dots> = lz_bytes (full @ ?cur)" using H(2) by (simp add: lz_bytes_append)
    finally have t: "take (?p + length bs) buf2 = lz_bytes (items @ [i])" by (simp add: H(1))
    then have l: "length (lz_bytes (items @ [i])) = ?p + length bs" using len room by (metis length_take min.absorb2)
    have "8 dvd length (items @ [i])" using H(1,2) True by simp
    then have "lz_holds (items @ [i]) (d\<lparr>m_lz_code_buf := buf2, m_num_flags_left := 8,
        m_pLZ_flags := ?p + length bs, m_pLZ_code_buf := Suc (?p + length bs)\<rparr>)"
      unfolding lz_holds_def using t l by (intro exI [of _ "items @ [i]"] exI [of _ "[]"]) simp
    then show ?thesis using nf z len by (auto simp: buffer_step_def)
  next
    case False
    then have "length cur < 7" using H(3) by simp
    then have z: "m_num_flags_left d - 1 \<noteq> 0" using left by (auto simp: unat_eq_0)
    have "lz_holds (items @ [i]) (d\<lparr>m_lz_code_buf := buf2, m_num_flags_left := m_num_flags_left d - 1,
        m_pLZ_code_buf := ?p + length bs\<rparr>)"
      unfolding lz_holds_def
      using H(1,2,6) \<open>length cur < 7\<close> left take2 drop2 flags nth2 H(8)
      by (intro exI [of _ full] exI [of _ ?cur]) (simp add: items_bytes_append bs)
    then show ?thesis using nf z len by (auto simp: buffer_step_def)
  qed
qed

text \<open>A symbol is counted; with less than 65535 items the count does not wrap.\<close>

lemma unat_count_up:
  assumes "unat (c :: u16) = n" and "n < 65535"
  shows "unat (c + 1) = n + 1"
  using assms by (simp add: unat_word_ariths)

lemma count_list_le: "count_list xs s \<le> length xs"
  by (induction xs) auto

lemma length_item_dists: "length (concat (map item_dists items)) \<le> length items"
proof (induction items)
  case (Cons i items)
  then show ?case by (cases i) simp_all
qed simp

lemma count_symbol_counts:
  assumes "huff_arrays (coder d)" and "k < 2" and "s < 288" and "unat (m_huff_count (coder d) ! k ! s) = n" and "n < 65535"
  shows "huff_arrays (coder (count_symbol k s d))"
    and "unat (m_huff_count (coder (count_symbol k s d)) ! k ! s) = n + 1"
    and "t \<noteq> s \<Longrightarrow> m_huff_count (coder (count_symbol k s d)) ! k ! t = m_huff_count (coder d) ! k ! t"
    and "j \<noteq> k \<Longrightarrow> m_huff_count (coder (count_symbol k s d)) ! j = m_huff_count (coder d) ! j"
  using assms unat_count_up [OF assms(4,5)]
  by (auto simp: count_symbol_def huff_arrays_def nth_list_update)

lemma lz_counted_cong: "coder d' = coder d \<Longrightarrow> lz_counted items d' = lz_counted items d"
  by (simp add: lz_counted_def)

lemma count_list_snoc: "count_list (xs @ ys) s = count_list xs s + count_list ys s"
  by (induction xs) simp_all

lemma lz_counted_lit:
  assumes c: "lz_counted items d" and len: "length items < 65535"
  shows "lz_counted (items @ [Lit c]) (count_symbol 0 (unat c) d)"
proof -
  have "unat c < 256" using unsigned_less [of c] by simp
  then have s: "unat c < 288" by simp
  have n: "count_list (map item_sym items) (unat c) < 65535"
    using count_list_le [of "map item_sym items" "unat c"] len by simp
  have h: "huff_arrays (coder d)" "unat (m_huff_count (coder d) ! 0 ! unat c) = count_list (map item_sym items) (unat c)"
    using c s by (simp_all add: lz_counted_def)
  note C = count_symbol_counts [OF h(1) _ s h(2) n, simplified]
  show ?thesis
    unfolding lz_counted_def
  proof (intro conjI allI impI)
    show "huff_arrays (coder (count_symbol 0 (unat c) d))" by (rule C(1))
    fix t :: nat assume "t < 288"
    then show "unat (m_huff_count (coder (count_symbol 0 (unat c) d)) ! 0 ! t) = count_list (map item_sym (items @ [Lit c])) t"
      using C(2) C(3) [of t] c by (cases "t = unat c") (simp_all add: lz_counted_def count_list_snoc)
  next
    fix t :: nat assume "t < 32"
    then show "unat (m_huff_count (coder (count_symbol 0 (unat c) d)) ! 1 ! t) =
        count_list (concat (map item_dists (items @ [Lit c]))) t"
      using C(4) [of 1] c by (simp add: lz_counted_def)
  qed
qed

lemma lz_counted_match:
  assumes c: "lz_counted items d" and i: "item_ok (Match len dist)" and l: "length items < 65535"
  shows "lz_counted (items @ [Match len dist])
    (count_symbol 0 (s_tdefl_len_sym ! (len - 3)) (count_symbol 1 (dist_sym (dist - 1)) d))"
proof -
  let ?s = "s_tdefl_len_sym ! (len - 3)" and ?t = "dist_sym (dist - 1)"
  let ?d1 = "count_symbol 1 ?t d"
  have m: "len - 3 < 256" "dist - 1 < 32768" using i by auto
  have s: "?s < 288" "?t < 32" using len_sym_values(2) [OF m(1)] dist_sym_values [OF m(2)] by simp_all
  have n: "count_list (map item_sym items) ?s < 65535" "count_list (concat (map item_dists items)) ?t < 65535"
    using count_list_le [of "map item_sym items" ?s] count_list_le [of "concat (map item_dists items)" ?t]
      length_item_dists [of items] l by simp_all
  have h: "huff_arrays (coder d)" "unat (m_huff_count (coder d) ! 1 ! ?t) = count_list (concat (map item_dists items)) ?t"
    using c s by (simp_all add: lz_counted_def)
  have "?t < 288" using s(2) by simp
  note C = count_symbol_counts [OF h(1) _ this h(2) n(2), simplified]
  have "unat (m_huff_count (coder ?d1) ! 0 ! ?s) = count_list (map item_sym items) ?s"
    using C(4) [of 0] c s(1) by (simp add: lz_counted_def)
  note D = count_symbol_counts [OF C(1) _ s(1) this [simplified] n(1), simplified]
  show ?thesis
    unfolding lz_counted_def
  proof (intro conjI allI impI)
    show "huff_arrays (coder (count_symbol 0 ?s ?d1))" using D(1) by simp
    fix j :: nat assume "j < 288"
    then show "unat (m_huff_count (coder (count_symbol 0 ?s ?d1)) ! 0 ! j) = count_list (map item_sym (items @ [Match len dist])) j"
      using D(2) D(3) [of j] C(4) [of 0] c by (cases "j = ?s") (simp_all add: lz_counted_def count_list_snoc)
  next
    fix j :: nat assume "j < 32"
    then show "unat (m_huff_count (coder (count_symbol 0 ?s ?d1)) ! 1 ! j) =
        count_list (concat (map item_dists (items @ [Match len dist]))) j"
      using D(4) [of 1] C(2) C(3) [of j] c by (cases "j = ?t") (simp_all add: lz_counted_def count_list_snoc)
  qed
qed

text \<open>The two operations append an item, if the buffer has room for it and its byte of flags.\<close>

lemma tdefl_record_literal_ok:
  assumes ok: "lz_ok items d" and room: "m_pLZ_code_buf d < TDEFL_LZ_CODE_BUF_SIZE"
  shows "\<exists>d'. tdefl_record_literal c d = Some d' \<and> lz_ok (items @ [Lit c]) d' \<and>
    m_pLZ_code_buf d' \<le> m_pLZ_code_buf d + 2 \<and> same_parse d d'"
proof -
  let ?d = "d\<lparr>m_total_lz_bytes := m_total_lz_bytes d + 1\<rparr>"
  have h: "lz_holds items ?d" using ok by (simp add: lz_ok_def lz_holds_def)
  have r: "m_pLZ_code_buf ?d + length (item_bytes (Lit c)) \<le> length (m_lz_code_buf ?d)"
    using ok room by (simp add: lz_ok_def)
  obtain d' where d': "next_lz_flag 0 (put_item [c] ?d) = Some d'" "lz_holds (items @ [Lit c]) d'"
    "m_pLZ_code_buf d' \<le> m_pLZ_code_buf d + 2" "buffer_step ?d d'"
    using next_lz_flag_holds [OF h refl refl r] by auto
  have "tdefl_record_literal c d = Some (count_symbol 0 (unat c) d')"
    using d'(1) r by (simp add: tdefl_record_literal_def put_lz_def Let_def put_item_def upd_conv_take_nth_drop)
  moreover have "length items < 65535"
    using lz_holds_length [OF h] room by (simp add: TDEFL_LZ_CODE_BUF_SIZE_def)
  then have "lz_counted (items @ [Lit c]) (count_symbol 0 (unat c) d')"
    using lz_counted_lit lz_counted_cong [of d' d] buffer_stepD [OF d'(4)] ok by (simp add: lz_ok_def)
  moreover have "lz_holds (items @ [Lit c]) (count_symbol 0 (unat c) d')"
    using d'(2) by (simp add: lz_holds_def count_symbol_def)
  moreover have "same_parse d (count_symbol 0 (unat c) d')"
    using buffer_stepD(4) [OF d'(4)] same_parse_trans [of d d'] same_parse_count
    by (simp add: same_parse_def)
  moreover have "m_total_lz_bytes d' = of_nat (sum_list (map item_len (items @ [Lit c])))"
    using ok buffer_stepD(2) [OF d'(4)] by (simp add: lz_ok_def item_len_def)
  ultimately show ?thesis
    using ok d'(3) buffer_stepD(3) [OF d'(4)]
    by (intro exI [of _ "count_symbol 0 (unat c) d'"]) (simp add: lz_ok_def count_symbol_def)
qed

lemma put_three:
  "p + 2 < length xs \<Longrightarrow> xs[p := a, Suc p := b, Suc (Suc p) := c] = take p xs @ a # b # c # drop (p + 3) xs"
  by (intro nth_equalityI) (auto simp: nth_list_update nth_append nth_Cons' not_less)

lemma unat_and_mask: "m = mask n \<Longrightarrow> unat ((x :: u32) AND m) = unat x mod 2 ^ n"
  by (simp only: flip: take_bit_eq_mask) (simp only: unsigned_take_bit_eq take_bit_eq_mod [of n "unat x"])

lemma unat_drop_8: "unat (drop_bit 8 (x :: u32)) = unat x div 256"
  by (simp only: unat_drop_bit_eq) (simp add: drop_bit_eq_div)

lemma match_dist_sym_value:
  assumes "unat d < 32768"
  shows "match_dist_sym d = dist_sym (unat d)"
proof -
  have "(511 :: u32) = mask 9" "(127 :: u32) = mask 7" by (simp_all add: mask_eq_exp_minus_1)
  then have "unat (d AND 511) = unat d mod 512" "unat (drop_bit 8 d AND 127) = unat d div 256 mod 128"
    using unat_and_mask [of 511 9 d] unat_and_mask [of 127 7 "drop_bit 8 d"] by (simp_all add: unat_drop_8)
  then show ?thesis
    using assms by (simp add: match_dist_sym_def dist_sym_def Let_def word_less_nat_alt)
qed

lemma match_bytes:
  assumes "3 \<le> unat len" and "1 \<le> unat dist"
  shows "item_bytes (Match (unat len) (unat dist)) =
    [ucast (len - 3 :: u32), ucast ((dist - 1) AND 0xFF), ucast (drop_bit 8 (dist - 1 :: u32))]"
proof -
  have l: "unat len - 3 = unat (len - 3)" "unat dist - 1 = unat (dist - 1)"
    using assms by (simp_all add: unat_sub word_le_nat_alt)
  have m: "(0xFF :: u32) = mask 8" by (simp add: mask_eq_exp_minus_1)
  have "unat (dist - 1) mod 256 = unat ((dist - 1) AND 0xFF)" "unat (dist - 1) div 256 = unat (drop_bit 8 (dist - 1))"
    using unat_and_mask [OF m, of "dist - 1"] unat_drop_8 [of "dist - 1"] by simp_all
  then show ?thesis by (simp only: item_bytes.simps l) simp
qed

lemma tdefl_record_match_ok:
  assumes ok: "lz_ok items d" and i: "item_ok (Match (unat len) (unat dist))"
    and room: "m_pLZ_code_buf d + 3 \<le> TDEFL_LZ_CODE_BUF_SIZE"
  shows "\<exists>d'. tdefl_record_match len dist d = Some d' \<and> lz_ok (items @ [Match (unat len) (unat dist)]) d' \<and>
    m_pLZ_code_buf d' \<le> m_pLZ_code_buf d + 4 \<and> same_parse d d'"
proof -
  let ?d = "d\<lparr>m_total_lz_bytes := m_total_lz_bytes d + len\<rparr>"
  let ?i = "Match (unat len) (unat dist)"
  have h: "lz_holds items ?d" using ok by (simp add: lz_ok_def lz_holds_def)
  have r: "m_pLZ_code_buf ?d + length (item_bytes ?i) \<le> length (m_lz_code_buf ?d)"
    using ok room by (simp add: lz_ok_def)
  obtain d' where d': "next_lz_flag 0x80 (put_item (item_bytes ?i) ?d) = Some d'" "lz_holds (items @ [?i]) d'"
    "m_pLZ_code_buf d' \<le> m_pLZ_code_buf d + 4" "buffer_step ?d d'"
    using next_lz_flag_holds [OF h refl refl r] by auto
  have l: "unat (len - 3) = unat len - 3" "unat (dist - 1) = unat dist - 1" "3 \<le> len"
    using i by (simp_all add: unat_sub word_le_nat_alt)
  have bytes: "item_bytes ?i = [ucast (len - 3), ucast ((dist - 1) AND 0xFF), ucast (drop_bit 8 (dist - 1))]"
    using i by (intro match_bytes) simp_all
  let ?s = "s_tdefl_len_sym ! (unat len - 3)" and ?t = "dist_sym (unat dist - 1)"
  have "unat dist - 1 < 32768" using i by auto
  then have sym: "match_dist_sym (dist - 1) = ?t"
    using match_dist_sym_value [of "dist - 1"] l(2) by simp
  have rec: "tdefl_record_match len dist d = Some (count_symbol 0 ?s (count_symbol 1 ?t d'))"
    using d'(1) r l(1,3) sym unfolding bytes
    by (simp add: tdefl_record_match_def put_lz_def Let_def put_item_def TDEFL_MIN_MATCH_LEN_def put_three numeral_3_eq_3)
  let ?d2 = "count_symbol 0 ?s (count_symbol 1 ?t d')"
  have "length items < 65535"
    using lz_holds_length [OF h] room by (simp add: TDEFL_LZ_CODE_BUF_SIZE_def)
  then have "lz_counted (items @ [?i]) ?d2"
    using lz_counted_match [OF _ i] lz_counted_cong [of d' d] buffer_stepD [OF d'(4)] ok by (simp add: lz_ok_def)
  moreover have "lz_holds (items @ [?i]) ?d2"
    using d'(2) by (simp add: lz_holds_def count_symbol_def)
  moreover have "same_parse d d'"
    using buffer_stepD(4) [OF d'(4)] by (simp add: same_parse_def)
  then have "same_parse d ?d2" using same_parse_trans same_parse_count by blast
  moreover have "m_total_lz_bytes d' = of_nat (sum_list (map item_len (items @ [?i])))"
    using ok buffer_stepD(2) [OF d'(4)] by (simp add: lz_ok_def item_len_def)
  ultimately show ?thesis
    using ok i rec d'(3) buffer_stepD(3) [OF d'(4)]
    by (intro exI [of _ ?d2]) (simp add: lz_ok_def count_symbol_def)
qed

end
