(* ===== verification/Mz_Packed.thy ===== *)
theory Mz_Packed
  imports Mz_Record
begin

unbundle bit_operations_syntax

text \<open>
  A compressed block: \<open>tdefl_compress_block\<close> writes the items of \<open>m_lz_code_buf\<close> with fixed or with
  new tables, and RFC 1951 reads them back.
\<close>

section \<open>The end of the last group\<close>

text \<open>\<open>*m_pLZ_flags >>= m_num_flags_left; m_pLZ_code_buf -= (m_num_flags_left == 8)\<close>, as
  \<open>tdefl_flush_block\<close> does before the block is written.\<close>

definition finish_lz_flags :: "tdefl_lz \<Rightarrow> tdefl_lz option" where
  "finish_lz_flags d =
    do {
      d \<leftarrow> put_lz (m_pLZ_flags d) (drop_bit (unat (m_num_flags_left d)) (m_lz_code_buf d ! m_pLZ_flags d)) d;
      Some (d\<lparr>m_pLZ_code_buf := m_pLZ_code_buf d - (if m_num_flags_left d = 8 then 1 else 0)\<rparr>)
    }"

lemma finish_lz_flags_ok:
  assumes "lz_ok items d" and "m_pLZ_code_buf d \<le> TDEFL_LZ_CODE_BUF_SIZE"
  shows "\<exists>buf p. finish_lz_flags d = Some (d\<lparr>m_lz_code_buf := buf, m_pLZ_code_buf := p\<rparr>) \<and>
    take p buf = lz_bytes items \<and> p \<le> length buf \<and> length buf = TDEFL_LZ_CODE_BUF_SIZE"
proof -
  obtain full cur where H: "items = full @ cur" "8 dvd length full" "length cur < 8"
    "unat (m_num_flags_left d) = 8 - length cur"
    "take (m_pLZ_flags d) (m_lz_code_buf d) = lz_bytes full" "length (lz_bytes full) = m_pLZ_flags d"
    "drop (Suc (m_pLZ_flags d)) (take (m_pLZ_code_buf d) (m_lz_code_buf d)) = items_bytes cur"
    "m_pLZ_code_buf d = Suc (m_pLZ_flags d) + length (items_bytes cur)"
    "\<forall>i < length cur. bit (m_lz_code_buf d ! m_pLZ_flags d) (8 - length cur + i) \<longleftrightarrow> is_match (cur ! i)"
    using assms(1) unfolding lz_ok_def lz_holds_def by blast
  let ?buf = "m_lz_code_buf d" and ?f = "m_pLZ_flags d" and ?p = "m_pLZ_code_buf d"
  have len: "length ?buf = TDEFL_LZ_CODE_BUF_SIZE" using assms(1) by (simp add: lz_ok_def)
  have f: "?f < ?p" "?f < length ?buf" "?p \<le> length ?buf" using H(8) assms(2) len by simp_all
  define fb where "fb = drop_bit (unat (m_num_flags_left d)) (?buf ! ?f)"
  define p where "p = ?p - (if m_num_flags_left d = 8 then 1 else 0)"
  have e: "finish_lz_flags d = Some (d\<lparr>m_lz_code_buf := ?buf[?f := fb], m_pLZ_code_buf := p\<rparr>)"
    using f by (simp add: finish_lz_flags_def put_lz_def fb_def p_def)
  have "take p (?buf[?f := fb]) = lz_bytes items"
  proof (cases "cur = []")
    case True
    then have "m_num_flags_left d = 8" using H(4) by (simp add: word_unat_eq_iff)
    then have "p = ?f" using H(8) True by (simp add: p_def)
    then show ?thesis using H(1,5) True by simp
  next
    case False
    then have "0 < length cur" by simp
    then have "unat (m_num_flags_left d) \<noteq> 8" using H(3,4) by linarith
    then have "m_num_flags_left d \<noteq> 8" by auto
    then have p: "p = ?p" by (simp add: p_def)
    have "fb = flag_byte cur"
    proof (rule bit_word_eqI)
      fix j
      assume "j < LENGTH(8)"
      show "bit fb j \<longleftrightarrow> bit (flag_byte cur) j"
      proof (cases "j < length cur")
        case True
        then show ?thesis using H(3,4,9) by (simp add: fb_def bit_drop_bit_eq bit_flag_byte)
      next
        case False
        then have "8 \<le> 8 - length cur + j" using H(3) by simp
        then have "\<not> bit (?buf ! ?f) (8 - length cur + j)" by (auto dest: bit_imp_le_length)
        then show ?thesis using False H(4) by (simp add: fb_def bit_drop_bit_eq bit_flag_byte)
      qed
    qed
    moreover have "take ?p (?buf[?f := fb]) = take ?f ?buf @ fb # drop (Suc ?f) (take ?p ?buf)"
      using f by (simp add: upd_conv_take_nth_drop drop_take take_Cons')
    ultimately show ?thesis
      unfolding p using H(1-3,5,7) False by (simp add: lz_bytes_append lz_bytes_group)
  qed
  then show ?thesis using e len f by (intro exI [of _ "?buf[?f := fb]"] exI [of _ p]) (simp add: p_def)
qed

section \<open>The fixed tables\<close>

lemma count_list_card: "count_list xs y = card {i. i < length xs \<and> xs ! i = y}"
  by (simp add: count_list_eq_length_filter length_filter_conv_card eq_commute)

lemma static_table_good:
  assumes d: "huff_arrays d" "k < 3" "n \<le> 288"
    and ks: "map unat (take n (m_huff_code_sizes d ! k)) = ks" "set ks \<subseteq> {1..15}"
    and kraft: "(\<Sum>x \<leftarrow> ks. 2 ^ (15 - x)) \<le> (2 :: nat) ^ 15"
  shows "\<exists>codes. tdefl_optimize_huffman_table d k n 15 True =
      Some (d\<lparr>m_huff_codes := (m_huff_codes d)[k := codes]\<rparr>) \<and>
    good_table n (m_huff_code_sizes d ! k) codes \<and> length codes = 288"
proof -
  let ?S = "m_huff_code_sizes d ! k"
  have len: "length ?S = 288" "length (m_huff_codes d ! k) = 288" "k < length (m_huff_codes d)" "length ks = n"
    using d ks(1) by (auto simp: huff_arrays_def)
  have nth: "unat (?S ! s) = ks ! s" if "s < n" for s
    using that d(3) len ks(1) [symmetric] by simp
  have "ks ! s \<in> {1..15}" if "s < n" for s using ks(2) nth_mem [of s ks] len(4) that by blast
  then have small: "1 \<le> ks ! s" "ks ! s \<le> 15" if "s < n" for s using that by auto
  have "\<forall>x \<in> set ks. x \<le> 32" using ks(2) by auto
  then obtain num where num: "huff_count_sizes ks (replicate 33 0) = Some num" "length num = 33"
    "\<forall>i < 33. num ! i = int (count_list ks i)"
    using count_sizes_result [of ks "replicate 33 0"] by auto
  have cards: "count_list ks i = card (syms_of n ?S i)" for i
    unfolding count_list_card len(4) by (rule arg_cong [where f = card]) (auto simp: nth)
  have "(\<Sum>x \<leftarrow> ks. 2 ^ (15 - x)) = (\<Sum>i \<in> {1..15}. count_list ks i * (2 :: nat) ^ (15 - i))"
    using sum_list_map_eq_sum_count2 [OF ks(2), of "\<lambda>x. 2 ^ (15 - x)"] by simp
  moreover have "space_in 15 num {1..15} = int (\<Sum>i \<in> {1..15}. count_list ks i * 2 ^ (15 - i))"
    unfolding space_in_def of_nat_sum using num(3) by (intro sum.cong) simp_all
  ultimately have "space_in 15 num {1..15} \<le> int (2 ^ 15)"
    using kraft by (simp only: of_nat_le_iff)
  then have space: "space_in 15 num {1..15} \<le> 2 ^ 15" by simp
  have tc: "table_counts 15 n ?S num"
    using num space nth small by (auto simp: table_counts_def counts_def cards)
  note R = huff_assign_codes_result [OF tc _ len(3)]
  let ?codes = "m_huff_codes (huff_assign_codes k n 15 num d) ! k"
  have "tdefl_optimize_huffman_table d k n 15 True = Some (huff_assign_codes k n 15 num d)"
    using num(1) ks(1) by (simp add: tdefl_optimize_huffman_table_def huff_static_sizes_def)
  moreover have "huff_assign_codes k n 15 num d = d\<lparr>m_huff_codes := (m_huff_codes d)[k := ?codes]\<rparr>"
    using len(3) by (simp add: huff_assign_codes_def Let_def del: upt_Suc)
  moreover have "length ?codes = 288"
    using len by (simp add: huff_assign_codes_def Let_def length_huff_give_codes del: upt_Suc)
  moreover have "good_table n ?S ?codes"
    using R len(2) d(3) nth small(2) by (auto simp: good_table_def)
  ultimately show ?thesis by metis
qed

text \<open>The bits of a stream that only grows; the tables may change.\<close>

definition extends :: "bool list \<Rightarrow> tdefl_compressor \<Rightarrow> tdefl_compressor \<Rightarrow> bool" where
  "extends bs d d' \<longleftrightarrow> (coder_ok d \<longrightarrow> coder_ok d' \<and> m_output_room d' \<le> m_output_room d \<and>
     8 * m_output_room d + unat (m_bits_in d') \<le> 8 * m_output_room d' + unat (m_bits_in d) + length bs \<and>
     (0 < m_output_room d' \<longrightarrow> stream_of d' = stream_of d @ bs)) \<and> output_space d' = output_space d"

lemma extends_append: "extends a d d1 \<Longrightarrow> extends b d1 d2 \<Longrightarrow> extends (a @ b) d d2"
  by (auto simp: extends_def)

lemma writes_extends: "writes bs d d' \<Longrightarrow> extends bs d d'"
  by (simp add: writes_def extends_def)

lemma huff_arrays_codes:
  "huff_arrays d \<Longrightarrow> length c = 288 \<Longrightarrow> huff_arrays (d\<lparr>m_huff_codes := (m_huff_codes d)[k := c]\<rparr>)"
  by (cases "k < 3") (auto simp: huff_arrays_def nth_list_update)

lemma fixed_kraft:
  "(\<Sum>x \<leftarrow> map unat fixed_lit_sizes. 2 ^ (15 - x)) = (2 :: nat) ^ 15"
  "set (map unat fixed_lit_sizes) \<subseteq> {1..15}" "length fixed_lit_sizes = 288"
  by (auto simp: fixed_lit_sizes_def sum_list_replicate)

lemma static_block_result:
  assumes d: "huff_arrays d"
  shows "\<exists>d'. tdefl_start_static_block d = Some d' \<and> extends (low_bits 2 (1 :: u32)) d d' \<and>
    tables_good d' \<and> huff_arrays d' \<and> m_huff_code_sizes d' ! 0 = fixed_lit_sizes \<and>
    take 32 (m_huff_code_sizes d' ! 1) = replicate 32 5"
proof -
  have f: "static_lit_sizes = fixed_lit_sizes" by (simp add: static_lit_sizes_def fixed_lit_sizes_def)
  let ?S1 = "replicate 32 5 @ drop 32 (m_huff_code_sizes d ! 1)"
  let ?d1 = "d\<lparr>m_huff_code_sizes := (m_huff_code_sizes d)[0 := fixed_lit_sizes, 1 := ?S1]\<rparr>"
  have len: "length (m_huff_code_sizes d) = 3" "length (m_huff_code_sizes d ! 1) = 288" using d by (simp_all add: huff_arrays_def)
  have a1: "huff_arrays ?d1" using d by (auto simp: huff_arrays_def nth_list_update fixed_kraft(3))
  obtain c0 where t0: "tdefl_optimize_huffman_table ?d1 0 288 15 True = Some (?d1\<lparr>m_huff_codes := (m_huff_codes ?d1)[0 := c0]\<rparr>)"
    "good_table 288 (m_huff_code_sizes ?d1 ! 0) c0" "length c0 = 288"
    using static_table_good [OF a1, of 0 288 "map unat fixed_lit_sizes"] fixed_kraft len by (auto simp: nth_list_update)
  let ?d2 = "?d1\<lparr>m_huff_codes := (m_huff_codes ?d1)[0 := c0]\<rparr>"
  have a2: "huff_arrays ?d2" using huff_arrays_codes [OF a1 t0(3)] .
  obtain c1 where t1: "tdefl_optimize_huffman_table ?d2 1 32 15 True = Some (?d2\<lparr>m_huff_codes := (m_huff_codes ?d2)[1 := c1]\<rparr>)"
    "good_table 32 (m_huff_code_sizes ?d2 ! 1) c1" "length c1 = 288"
    using static_table_good [OF a2, of 1 32 "replicate 32 5"] len by (auto simp: nth_list_update sum_list_replicate)
  let ?d3 = "?d2\<lparr>m_huff_codes := (m_huff_codes ?d2)[1 := c1]\<rparr>"
  have a3: "huff_arrays ?d3" using huff_arrays_codes [OF a2 t1(3)] .
  have w: "writes (low_bits 2 (1 :: u32)) ?d3 (TDEFL_PUT_BITS 1 2 ?d3)" using put_bits_writes [of 1 2 ?d3] by simp
  have "extends [] d ?d3" by (simp add: extends_def coder_ok_def stream_of_def output_space_def)
  then have e: "extends (low_bits 2 (1 :: u32)) d (TDEFL_PUT_BITS 1 2 ?d3)"
    using extends_append [of "[]" d ?d3] writes_extends [OF w] by simp
  have s: "tdefl_start_static_block d = Some (TDEFL_PUT_BITS 1 2 ?d3)"
    using t0(1) t1(1) len by (simp add: tdefl_start_static_block_def Let_def f)
  have g: "tables_good ?d3"
    using t0(2) t1(2) len d by (simp add: tables_good_def nth_list_update huff_arrays_def)
  have "m_huff_code_sizes ?d3 ! 0 = fixed_lit_sizes" "take 32 (m_huff_code_sizes ?d3 ! 1) = replicate 32 5"
    using len by (simp_all add: nth_list_update)
  moreover have "huff_arrays (TDEFL_PUT_BITS 1 2 ?d3)" using a3 w by (simp add: writes_def same_tables_def huff_arrays_def)
  ultimately show ?thesis
    using s e g tables_good_same [OF w] writes_same [OF w] by (intro exI [of _ "TDEFL_PUT_BITS 1 2 ?d3"]) simp
qed

section \<open>The block\<close>

lemma extends_nothing [intro]: "extends [] d d"
  by (simp add: extends_def)

lemma dynamic_block_extends:
  assumes "counts_ok d" and "dynamic_tables d = Some d1"
  shows "\<exists>d' hdr. tdefl_start_dynamic_block d = Some d' \<and> extends (low_bits 2 (2 :: u32) @ hdr) d d' \<and>
    length hdr \<le> 4600 \<and> (\<forall>bs. read_dynamic_header (hdr @ bs) =
      Some (m_huff_code_sizes d' ! 0, take 32 (m_huff_code_sizes d' ! 1), bs)) \<and> huff_arrays d' \<and> tables_good d' \<and>
    (\<forall>s < 288. m_huff_code_sizes d' ! 0 ! s \<noteq> 0 \<longleftrightarrow> s = 256 \<or> m_huff_count d ! 0 ! s \<noteq> 0) \<and>
    (\<forall>s < 32. m_huff_code_sizes d' ! 1 ! s \<noteq> 0 \<longleftrightarrow> m_huff_count d ! 1 ! s \<noteq> 0)"
  using dynamic_block_result [OF assms] unfolding extends_def tables_good_def
  by (elim exE conjE) (intro exI conjI, assumption+)

lemma item_symbols:
  assumes "item_ok i"
  shows "item_sym i < 286" and "t \<in> set (item_dists i) \<Longrightarrow> t < 30"
proof -
  show "item_sym i < 286"
  proof (cases i)
    case (Lit c)
    have "unat c < 256" using unsigned_less [of c] by simp
    then show ?thesis using Lit by simp
  next
    case (Match len dist)
    then have "len - 3 < 256" using assms by auto
    then show ?thesis using Match len_sym_values(2) by simp
  qed
  show "t \<in> set (item_dists i) \<Longrightarrow> t < 30"
  proof (cases i)
    case (Match len dist)
    assume "t \<in> set (item_dists i)"
    moreover have "dist - 1 < 32768" using assms Match by auto
    ultimately show ?thesis using Match dist_sym_values by auto
  qed simp
qed

lemma lz_counted_symbols:
  assumes "lz_counted items d" and "\<forall>i \<in> set items. item_ok i"
  shows "counts_ok (coder d)"
    and "i \<in> set items \<Longrightarrow> m_huff_count (coder d) ! 0 ! item_sym i \<noteq> 0 \<and> item_sym i < 286"
    and "i \<in> set items \<Longrightarrow> t \<in> set (item_dists i) \<Longrightarrow> m_huff_count (coder d) ! 1 ! t \<noteq> 0 \<and> t < 30"
proof -
  have s: "item_sym i < 286" if "i \<in> set items" for i
    using item_symbols(1) assms(2) that by blast
  have t: "t < 30" if "i \<in> set items" "t \<in> set (item_dists i)" for i t
    using item_symbols(2) assms(2) that by blast
  have pos: "0 < count_list xs x \<longleftrightarrow> x \<in> set xs" for xs and x :: nat
    by (induction xs) auto
  have c: "huff_arrays (coder d)" "\<forall>s < 288. unat (m_huff_count (coder d) ! 0 ! s) = count_list (map item_sym items) s"
    "\<forall>t < 32. unat (m_huff_count (coder d) ! 1 ! t) = count_list (concat (map item_dists items)) t"
    using assms(1) by (simp_all add: lz_counted_def)
  have nz0: "m_huff_count (coder d) ! 0 ! x \<noteq> 0 \<longleftrightarrow> x \<in> item_sym ` set items" if "x < 288" for x
    using c(2) that pos [of "map item_sym items" x] by (simp add: unat_gt_0 flip: unat_gt_0)
  have nz1: "m_huff_count (coder d) ! 1 ! x \<noteq> 0 \<longleftrightarrow> (\<exists>i \<in> set items. x \<in> set (item_dists i))" if "x < 32" for x
    using c(3) that pos [of "concat (map item_dists items)" x] by (simp flip: unat_gt_0)
  show "counts_ok (coder d)"
    unfolding counts_ok_def using c(1) nz0 nz1 s t by (metis (no_types, lifting) imageE linorder_not_less)
  show "m_huff_count (coder d) ! 0 ! item_sym i \<noteq> 0 \<and> item_sym i < 286" if "i \<in> set items"
    using nz0 [of "item_sym i"] s [OF that] that by simp
  show "m_huff_count (coder d) ! 1 ! t \<noteq> 0 \<and> t < 30" if "i \<in> set items" "t \<in> set (item_dists i)"
    using nz1 [of t] t [OF that] that by auto
qed

lemma tdefl_compress_lz_codes_ok:
  assumes g: "tables_good (coder d)" "m_huff_code_sizes (coder d) ! 0 ! 256 \<noteq> 0"
    and i: "\<forall>i \<in> set items. item_ok i \<and> coded (coder d) i"
    and b: "take (m_pLZ_code_buf d) (m_lz_code_buf d) = lz_bytes items" "m_pLZ_code_buf d \<le> length (m_lz_code_buf d)"
  shows "\<exists>c. tdefl_compress_lz_codes d = Some (0 < m_output_room c, d\<lparr>coder := c\<rparr>) \<and>
    writes (concat (map (bits_of (coder d)) items) @
      symbol_bits (m_huff_code_sizes (coder d) ! 0) (m_huff_codes (coder d) ! 0) 256) (coder d) c"
proof -
  have f: "group_flags 0 items 1" by (simp add: group_flags_def bit_1_iff)
  have "drop 0 (take (m_pLZ_code_buf d) (m_lz_code_buf d)) = group_rest 0 items"
    using b(1) by (simp add: group_rest_def)
  then obtain c1 where l: "lz_codes_loop (m_lz_code_buf d) (m_pLZ_code_buf d) 1 0 (coder d) = Some c1"
    "writes (concat (map (bits_of (coder d)) items)) (coder d) c1"
    using lz_codes_loop_writes [OF g(1) i b(2) f] by blast
  have "writes (symbol_bits (m_huff_code_sizes (coder d) ! 0) (m_huff_codes (coder d) ! 0) 256) c1 (put_code 0 256 c1)"
    using put_code_writes [of 288 c1 0 256] g writes_same [OF l(2)] by (simp add: tables_good_def)
  from writes_append [OF l(2) this] show ?thesis
    using l(1) b(2) by (intro exI [of _ "put_code 0 256 c1"]) (simp add: tdefl_compress_lz_codes_def Let_def)
qed

lemma item_bits_cut:
  assumes "item_ok i" and "\<forall>t < 32. a ! t = S1 ! t"
  shows "item_bits S0 C0 a C1 i = item_bits S0 C0 S1 C1 i" and "item_coded S0 a i = item_coded S0 S1 i"
proof -
  have "dist_sym (dist - 1) < 32" if "i = Match len dist" for len dist
  proof -
    have "dist - 1 < 32768" using assms(1) that by auto
    then show ?thesis using dist_sym_values by fastforce
  qed
  then show "item_bits S0 C0 a C1 i = item_bits S0 C0 S1 C1 i" "item_coded S0 a i = item_coded S0 S1 i"
    using assms(2) by (cases i; simp add: symbol_bits_def item_coded_def Let_def)+
qed

text \<open>The items follow tables that a decoder has: the lengths of table 0, and those of the 32 symbols of table 1.\<close>

lemma block_items_read:
  assumes g: "tables_good c" "m_huff_code_sizes c ! 0 ! 256 \<noteq> 0" "length (m_huff_code_sizes c ! 1) = 288"
    and i: "\<forall>i \<in> set items. item_ok i \<and> coded c i"
  shows "read_items (m_huff_code_sizes c ! 0) (take 32 (m_huff_code_sizes c ! 1))
    (concat (map (bits_of c) items) @ symbol_bits (m_huff_code_sizes c ! 0) (m_huff_codes c ! 0) 256 @ bs) = Some (items, bs)"
proof -
  let ?S1 = "take 32 (m_huff_code_sizes c ! 1)"
  have cut: "\<forall>t < 32. ?S1 ! t = m_huff_code_sizes c ! 1 ! t" using g(3) by simp
  have "good_table 32 ?S1 (m_huff_codes c ! 1)"
    using good_table_cut [of 32 "m_huff_code_sizes c ! 1" "m_huff_codes c ! 1" 32 ?S1] g(1) cut
    by (simp add: tables_good_def)
  moreover have "\<forall>i \<in> set items. item_ok i \<and> item_coded (m_huff_code_sizes c ! 0) ?S1 i"
    using i item_bits_cut(2) [OF _ cut] by blast
  moreover have m: "map (item_bits (m_huff_code_sizes c ! 0) (m_huff_codes c ! 0) ?S1 (m_huff_codes c ! 1)) items = map (bits_of c) items"
    using i item_bits_cut(1) [OF _ cut] by simp
  ultimately show ?thesis
    using read_items_bits [of "m_huff_code_sizes c ! 0" "m_huff_codes c ! 0" ?S1 "m_huff_codes c ! 1" items bs] g(1,2)
    unfolding m tables_good_def by blast
qed

text \<open>A block is ready to be written: the buffer holds the bytes of its items, and they are counted.\<close>

definition block_ready :: "lz_item list \<Rightarrow> tdefl_lz \<Rightarrow> bool" where
  "block_ready items d \<longleftrightarrow> lz_counted items d \<and> (\<forall>i \<in> set items. item_ok i) \<and>
     take (m_pLZ_code_buf d) (m_lz_code_buf d) = lz_bytes items \<and> m_pLZ_code_buf d \<le> length (m_lz_code_buf d)"

lemma block_body_ok:
  assumes c: "tables_good c" "huff_arrays c" "m_huff_code_sizes c ! 0 ! 256 \<noteq> 0"
    and i: "\<forall>i \<in> set items. item_ok i \<and> coded c i"
    and b: "take (m_pLZ_code_buf d) (m_lz_code_buf d) = lz_bytes items" "m_pLZ_code_buf d \<le> length (m_lz_code_buf d)"
    and h: "extends hdr (coder d) c"
  shows "\<exists>c' bits. tdefl_compress_lz_codes (d\<lparr>coder := c\<rparr>) = Some (0 < m_output_room c', d\<lparr>coder := c'\<rparr>) \<and>
    extends (hdr @ bits) (coder d) c' \<and> huff_arrays c' \<and>
    length bits = length (concat (map (bits_of c) items)) + unat (m_huff_code_sizes c ! 0 ! 256) \<and>
    (\<forall>bs. read_items (m_huff_code_sizes c ! 0) (take 32 (m_huff_code_sizes c ! 1)) (bits @ bs) = Some (items, bs))"
proof -
  let ?bits = "concat (map (bits_of c) items) @ symbol_bits (m_huff_code_sizes c ! 0) (m_huff_codes c ! 0) 256"
  obtain c' where w: "tdefl_compress_lz_codes (d\<lparr>coder := c\<rparr>) = Some (0 < m_output_room c', d\<lparr>coder := c'\<rparr>)"
    "writes ?bits c c'"
    using tdefl_compress_lz_codes_ok [of "d\<lparr>coder := c\<rparr>" items] c i b by auto
  have "length (m_huff_code_sizes c ! 1) = 288" using c(2) by (simp add: huff_arrays_def)
  then have "read_items (m_huff_code_sizes c ! 0) (take 32 (m_huff_code_sizes c ! 1)) (?bits @ bs) = Some (items, bs)" for bs
    using block_items_read [OF c(1,3) _ i] by simp
  moreover have "huff_arrays c'" using w(2) c(2) by (simp add: writes_def same_tables_def huff_arrays_def)
  ultimately show ?thesis
    using w(1) extends_append [OF h writes_extends [OF w(2)]]
    by (intro exI [of _ c'] exI [of _ ?bits]) (simp add: symbol_bits_def)
qed

text \<open>A block with fixed tables, without regard to the counts.\<close>

lemma static_compress_ok:
  assumes arr: "huff_arrays (coder d)" and i: "\<forall>i \<in> set items. item_ok i"
    and b: "take (m_pLZ_code_buf d) (m_lz_code_buf d) = lz_bytes items" "m_pLZ_code_buf d \<le> length (m_lz_code_buf d)"
  shows "\<exists>c bits. tdefl_compress_block True d = Some (0 < m_output_room c, d\<lparr>coder := c\<rparr>) \<and>
    extends bits (coder d) c \<and> huff_arrays c \<and> (\<forall>bs. read_packed_block (bits @ bs) = Some (items, bs)) \<and>
    length bits \<le> 11 + sum_list (map (item_cost 9 31) items)"
proof -
  obtain c where c: "tdefl_start_static_block (coder d) = Some c" "extends (low_bits 2 (1 :: u32)) (coder d) c"
    "tables_good c" "huff_arrays c" "m_huff_code_sizes c ! 0 = fixed_lit_sizes"
    "take 32 (m_huff_code_sizes c ! 1) = replicate 32 5"
    using static_block_result [OF arr] by blast
  have "unat x \<noteq> 0" if "x \<in> set fixed_lit_sizes" for x using fixed_kraft(2) that by auto
  then have nz0: "m_huff_code_sizes c ! 0 ! s \<noteq> 0" if "s < 288" for s
    using that unfolding c(5) by (metis fixed_kraft(3) nth_mem unsigned_0)
  have five: "m_huff_code_sizes c ! 1 ! s = 5" if "s < 32" for s
  proof -
    have "m_huff_code_sizes c ! 1 ! s = take 32 (m_huff_code_sizes c ! 1) ! s" using that by simp
    then show ?thesis unfolding c(6) using that by simp
  qed
  have "coded c i" if "item_ok i" for i
    using item_symbols [OF that] nz0 five by (force simp: item_coded_def)
  then have "\<forall>i \<in> set items. item_ok i \<and> coded c i" using i by blast
  from block_body_ok [OF c(3,4) nz0 [of 256, simplified] this b c(2)]
  obtain c' bits where b: "tdefl_compress_lz_codes (d\<lparr>coder := c\<rparr>) = Some (0 < m_output_room c', d\<lparr>coder := c'\<rparr>)"
    "extends (low_bits 2 (1 :: u32) @ bits) (coder d) c'" "huff_arrays c'"
    "length bits = length (concat (map (bits_of c) items)) + unat (fixed_lit_sizes ! 256)"
    "\<forall>bs. read_items fixed_lit_sizes (replicate 32 5) (bits @ bs) = Some (items, bs)"
    unfolding c(5,6) by blast
  have "\<forall>s < 288. unat (fixed_lit_sizes ! s) \<le> 9" "\<forall>s < 288. 256 \<le> s \<longrightarrow> unat (fixed_lit_sizes ! s) \<le> 8"
    by (auto simp: fixed_lit_sizes_def nth_append)
  then have "\<forall>i \<in> set items. length (bits_of c i) \<le> item_cost 9 (8 + 5 + 5 + 13) i"
    using i five by (intro ballI item_bits_length) (auto simp: c(5))
  from items_bits_length [OF this] have len: "length (concat (map (bits_of c) items)) \<le> sum_list (map (item_cost 9 31) items)"
    by simp
  have "unat (fixed_lit_sizes ! 256) = 7" by (simp add: fixed_lit_sizes_def nth_append)
  moreover have "read_bits 2 (low_bits 2 (1 :: u32) @ bs) = Some (1, bs)" for bs
    using read_value [of 1 2 bs] by simp
  ultimately show ?thesis
    using c(1) b len
    by (intro exI [of _ c'] exI [of _ "low_bits 2 (1 :: u32) @ bits"])
      (simp add: tdefl_compress_block_def read_packed_block_def)
qed

text \<open>A block with tables of its own.\<close>

lemma dynamic_compress_ok:
  assumes r: "block_ready items d" and t: "dynamic_tables (coder d) \<noteq> None"
  shows "\<exists>c bits. tdefl_compress_block False d = Some (0 < m_output_room c, d\<lparr>coder := c\<rparr>) \<and>
    extends bits (coder d) c \<and> huff_arrays c \<and> (\<forall>bs. read_packed_block (bits @ bs) = Some (items, bs)) \<and>
    length bits \<le> 4617 + sum_list (map (item_cost 15 48) items)"
proof -
  have R: "lz_counted items d" "\<forall>i \<in> set items. item_ok i"
    "take (m_pLZ_code_buf d) (m_lz_code_buf d) = lz_bytes items" "m_pLZ_code_buf d \<le> length (m_lz_code_buf d)"
    using r by (simp_all add: block_ready_def)
  note S = lz_counted_symbols [OF R(1,2)]
  obtain d1 where "dynamic_tables (coder d) = Some d1" using t by auto
  from dynamic_block_extends [OF S(1) this] obtain c hdr where c: "tdefl_start_dynamic_block (coder d) = Some c"
    "extends (low_bits 2 (2 :: u32) @ hdr) (coder d) c" "length hdr \<le> 4600"
    "\<forall>bs. read_dynamic_header (hdr @ bs) = Some (m_huff_code_sizes c ! 0, take 32 (m_huff_code_sizes c ! 1), bs)"
    "huff_arrays c" "tables_good c"
    "\<forall>s < 288. m_huff_code_sizes c ! 0 ! s \<noteq> 0 \<longleftrightarrow> s = 256 \<or> m_huff_count (coder d) ! 0 ! s \<noteq> 0"
    "\<forall>s < 32. m_huff_code_sizes c ! 1 ! s \<noteq> 0 \<longleftrightarrow> m_huff_count (coder d) ! 1 ! s \<noteq> 0"
    by blast
  have "coded c i" if "i \<in> set items" for i
  proof -
    have "m_huff_code_sizes c ! 0 ! item_sym i \<noteq> 0" using S(2) [OF that] c(7) by auto
    moreover have "m_huff_code_sizes c ! 1 ! t \<noteq> 0" if "t \<in> set (item_dists i)" for t
    proof -
      have "t < 32" "m_huff_count (coder d) ! 1 ! t \<noteq> 0" using S(3) [OF \<open>i \<in> set items\<close> that] by simp_all
      then show ?thesis using c(8) by blast
    qed
    ultimately show ?thesis by (simp add: item_coded_def)
  qed
  then have "\<forall>i \<in> set items. item_ok i \<and> coded c i" using R(2) by blast
  moreover have "m_huff_code_sizes c ! 0 ! 256 \<noteq> 0" using c(7) by simp
  ultimately obtain c' bits where b: "tdefl_compress_lz_codes (d\<lparr>coder := c\<rparr>) = Some (0 < m_output_room c', d\<lparr>coder := c'\<rparr>)"
    "extends ((low_bits 2 (2 :: u32) @ hdr) @ bits) (coder d) c'" "huff_arrays c'"
    "length bits = length (concat (map (bits_of c) items)) + unat (m_huff_code_sizes c ! 0 ! 256)"
    "\<forall>bs. read_items (m_huff_code_sizes c ! 0) (take 32 (m_huff_code_sizes c ! 1)) (bits @ bs) = Some (items, bs)"
    using block_body_ok [OF c(6,5) _ _ R(3,4) c(2)] by blast
  have g: "\<forall>s < 288. unat (m_huff_code_sizes c ! 0 ! s) \<le> 15" "\<forall>s < 32. unat (m_huff_code_sizes c ! 1 ! s) \<le> 15"
    using c(6) by (simp_all add: tables_good_def good_table_def)
  then have "\<forall>i \<in> set items. length (bits_of c i) \<le> item_cost 15 (15 + 5 + 15 + 13) i"
    using R(2) by (intro ballI item_bits_length) auto
  from items_bits_length [OF this] have len: "length (concat (map (bits_of c) items)) \<le> sum_list (map (item_cost 15 48) items)"
    by simp
  have "unat (m_huff_code_sizes c ! 0 ! 256) \<le> 15" using g(1) by simp
  moreover have "read_bits 2 (low_bits 2 (2 :: u32) @ bs) = Some (2, bs)" for bs
    using read_value [of 2 2 bs] by simp
  ultimately show ?thesis
    using c(1,3,4) b len
    by (intro exI [of _ c'] exI [of _ "(low_bits 2 (2 :: u32) @ hdr) @ bits"])
      (simp add: tdefl_compress_block_def read_packed_block_def)
qed

lemma tdefl_compress_block_ok:
  assumes r: "block_ready items d" and t: "static_block \<or> dynamic_tables (coder d) \<noteq> None"
  shows "\<exists>c bits. tdefl_compress_block static_block d = Some (0 < m_output_room c, d\<lparr>coder := c\<rparr>) \<and>
    extends bits (coder d) c \<and> huff_arrays c \<and> (\<forall>bs. read_packed_block (bits @ bs) = Some (items, bs)) \<and>
    (static_block \<or> length bits \<le> 4617 + sum_list (map (item_cost 15 48) items)) \<and>
    (static_block \<longrightarrow> length bits \<le> 11 + sum_list (map (item_cost 9 31) items))"
proof (cases static_block)
  case True
  have "huff_arrays (coder d)" using r by (simp add: block_ready_def lz_counted_def)
  then show ?thesis using static_compress_ok [of d items] r True by (auto simp: block_ready_def)
next
  case False
  then show ?thesis using dynamic_compress_ok [OF r] t by auto
qed

section \<open>From an empty buffer to the block\<close>

text \<open>The buffer and the counts are emptied by \<open>tdefl_init\<close> and after each block.\<close>

definition reset_lz :: "tdefl_lz \<Rightarrow> tdefl_lz" where
  "reset_lz d =
    (let cnt = m_huff_count (coder d);
         cnt = cnt[0 := replicate TDEFL_MAX_HUFF_SYMBOLS_0 0 @ drop TDEFL_MAX_HUFF_SYMBOLS_0 (cnt ! 0)];
         cnt = cnt[1 := replicate TDEFL_MAX_HUFF_SYMBOLS_1 0 @ drop TDEFL_MAX_HUFF_SYMBOLS_1 (cnt ! 1)]
     in d\<lparr>coder := (coder d)\<lparr>m_huff_count := cnt\<rparr>, m_pLZ_code_buf := 1, m_pLZ_flags := 0,
          m_num_flags_left := 8, m_total_lz_bytes := 0\<rparr>)"

lemma reset_lz_ok:
  assumes "huff_arrays (coder d)" and "length (m_lz_code_buf d) = TDEFL_LZ_CODE_BUF_SIZE"
  shows "lz_ok [] (reset_lz d)"
proof -
  have "lz_holds [] (reset_lz d)"
    by (simp add: lz_holds_def reset_lz_def Let_def)
  moreover have "huff_arrays (coder (reset_lz d))"
    using assms(1) by (auto simp: reset_lz_def Let_def huff_arrays_def nth_list_update
        TDEFL_MAX_HUFF_SYMBOLS_0_def TDEFL_MAX_HUFF_SYMBOLS_1_def)
  then have "lz_counted [] (reset_lz d)"
    using assms(1) by (auto simp: lz_counted_def reset_lz_def Let_def huff_arrays_def nth_append
        TDEFL_MAX_HUFF_SYMBOLS_0_def TDEFL_MAX_HUFF_SYMBOLS_1_def)
  ultimately show ?thesis using assms(2) by (simp add: lz_ok_def reset_lz_def Let_def)
qed

definition record_item :: "lz_item \<Rightarrow> tdefl_lz \<Rightarrow> tdefl_lz option" where
  "record_item i d =
    (case i of
       Lit c \<Rightarrow> tdefl_record_literal c d
     | Match len dist \<Rightarrow> tdefl_record_match (of_nat len) (of_nat dist) d)"

primrec record_items :: "lz_item list \<Rightarrow> tdefl_lz \<Rightarrow> tdefl_lz option" where
  "record_items [] d = Some d"
| "record_items (i # is) d = do { d \<leftarrow> record_item i d; record_items is d }"

lemma record_item_ok:
  assumes "lz_ok items d" and "item_ok i" and "m_pLZ_code_buf d + 3 \<le> TDEFL_LZ_CODE_BUF_SIZE"
  shows "\<exists>d'. record_item i d = Some d' \<and> lz_ok (items @ [i]) d' \<and>
    m_pLZ_code_buf d' \<le> m_pLZ_code_buf d + 4 \<and> same_parse d d'"
proof (cases i)
  case (Lit c)
  then show ?thesis
    using tdefl_record_literal_ok [OF assms(1), of c] assms(3) by (auto simp: record_item_def intro: le_trans)
next
  case (Match len dist)
  then have "len < 2 ^ 32" "dist < 2 ^ 32" using assms(2) by auto
  then have "unat (of_nat len :: u32) = len" "unat (of_nat dist :: u32) = dist"
    by (simp_all add: unsigned_of_nat take_bit_nat_eq_self)
  then show ?thesis
    using tdefl_record_match_ok [OF assms(1), of "of_nat len" "of_nat dist"] assms(2,3) Match
    by (simp add: record_item_def)
qed

lemma same_parse_refl: "same_parse d d"
  by (simp add: same_parse_def)

lemma record_items_ok:
  assumes "lz_ok done d" and "\<forall>i \<in> set items. item_ok i"
    and "m_pLZ_code_buf d + 4 * length items \<le> TDEFL_LZ_CODE_BUF_SIZE"
  shows "\<exists>d'. record_items items d = Some d' \<and> lz_ok (done @ items) d' \<and>
    m_pLZ_code_buf d' \<le> m_pLZ_code_buf d + 4 * length items \<and> same_parse d d'"
  using assms
proof (induction items arbitrary: "done" d)
  case Nil
  then show ?case by (simp add: same_parse_refl)
next
  case (Cons i items)
  then obtain d1 where d1: "record_item i d = Some d1" "lz_ok (done @ [i]) d1"
    "m_pLZ_code_buf d1 \<le> m_pLZ_code_buf d + 4" "same_parse d d1"
    using record_item_ok [of "done" d i] by auto
  then obtain d2 where "record_items items d1 = Some d2" "lz_ok ((done @ [i]) @ items) d2"
    "m_pLZ_code_buf d2 \<le> m_pLZ_code_buf d1 + 4 * length items" "same_parse d1 d2"
    using Cons.IH [of "done @ [i]" d1] Cons.prems by auto
  then show ?case using d1 same_parse_trans by auto
qed

text \<open>With less than 65535 items the tables of a dynamic block can always be made.\<close>

lemma sum_count_list: "\<forall>x \<in> set xs. x < n \<Longrightarrow> (\<Sum>s < n. count_list xs s) = length (xs :: nat list)"
proof (induction xs)
  case (Cons x xs)
  have "(\<Sum>s < n. count_list (x # xs) s) = (\<Sum>s < n. count_list xs s + (if s = x then 1 else 0))"
    by (intro sum.cong) auto
  then show ?case using Cons by (simp add: sum.distrib)
qed simp

lemma counted_tables_exist:
  assumes "lz_counted items d" and "\<forall>i \<in> set items. item_ok i" and "length items < 65535"
  shows "dynamic_tables (coder d) \<noteq> None"
proof -
  note S = lz_counted_symbols [OF assms(1,2)]
  have "(\<Sum>s < 288. unat (m_huff_count (coder d) ! 0 ! s)) = (\<Sum>s < 288. count_list (map item_sym items) s)"
    using assms(1) by (intro sum.cong) (simp_all add: lz_counted_def)
  also have "\<dots> = length items" using S(2) by (subst sum_count_list) fastforce+
  finally show ?thesis using dynamic_tables_exist [OF S(1)] assms(3) by auto
qed

lemma same_coder:
  "c\<lparr>m_huff_count := n\<rparr> = c' \<Longrightarrow> stream_of c' = stream_of c \<and> coder_ok c' = coder_ok c"
  by (auto simp: stream_of_def coder_ok_def)

text \<open>C17: A block of literals and matches reads back.  Items of legal lengths and distances, few enough
  for the buffer of LZ codes (four bytes for an item), are recorded one by one after a reset; then the block is written with fixed or with
  new Huffman tables.  Unless the output buffer is full, what the stream has grown by is a block
  that a decoder after RFC 1951 reads as the same items, whatever follows.\<close>

theorem packed_block_reads_back:
  assumes "huff_arrays (coder d)" and "coder_ok (coder d)" and "length (m_lz_code_buf d) = TDEFL_LZ_CODE_BUF_SIZE"
    and "\<forall>i \<in> set items. item_ok i" and "4 * length items < TDEFL_LZ_CODE_BUF_SIZE"
  shows "\<exists>d1 d2 ok d3. record_items items (reset_lz d) = Some d1 \<and> finish_lz_flags d1 = Some d2 \<and>
    tdefl_compress_block static_block d2 = Some (ok, d3) \<and>
    (ok \<longrightarrow> (\<exists>bits. stream_of (coder d3) = stream_of (coder d) @ bits \<and>
      (\<forall>bs. read_packed_block (bits @ bs) = Some (items, bs))))"
proof -
  have b: "m_pLZ_code_buf (reset_lz d) = 1" by (simp add: reset_lz_def Let_def)
  obtain d1 where d1: "record_items items (reset_lz d) = Some d1" "lz_ok items d1"
    "m_pLZ_code_buf d1 \<le> TDEFL_LZ_CODE_BUF_SIZE" "same_parse (reset_lz d) d1"
    using record_items_ok [OF reset_lz_ok [OF assms(1,3)] assms(4)] assms(5) b by auto
  obtain buf p where d2: "finish_lz_flags d1 = Some (d1\<lparr>m_lz_code_buf := buf, m_pLZ_code_buf := p\<rparr>)"
    "take p buf = lz_bytes items" "p \<le> length buf"
    using finish_lz_flags_ok [OF d1(2,3)] by blast
  let ?d2 = "d1\<lparr>m_lz_code_buf := buf, m_pLZ_code_buf := p\<rparr>"
  have cnt: "lz_counted items ?d2" using d1(2) lz_counted_cong [of ?d2 d1] by (simp add: lz_ok_def)
  have ready: "block_ready items ?d2" using d1(2) d2 cnt by (simp add: block_ready_def lz_ok_def)
  have "(coder d1)\<lparr>m_huff_count := m_huff_count (coder (reset_lz d))\<rparr> = coder (reset_lz d)"
    using d1(4) by (simp add: same_parse_def)
  then have "stream_of (coder (reset_lz d)) = stream_of (coder d1)" "coder_ok (coder (reset_lz d)) = coder_ok (coder d1)"
    by (metis same_coder)+
  then have same: "stream_of (coder d1) = stream_of (coder d)" "coder_ok (coder d1)"
    using assms(2) by (simp_all add: stream_of_def coder_ok_def reset_lz_def Let_def)
  have "length items < 65535" using assms(5) by (simp add: TDEFL_LZ_CODE_BUF_SIZE_def)
  then have "static_block \<or> dynamic_tables (coder ?d2) \<noteq> None"
    using counted_tables_exist [OF cnt assms(4)] by simp
  from tdefl_compress_block_ok [OF ready this] obtain c bits where
    c: "tdefl_compress_block static_block ?d2 = Some (0 < m_output_room c, ?d2\<lparr>coder := c\<rparr>)"
    "extends bits (coder ?d2) c" "\<forall>bs. read_packed_block (bits @ bs) = Some (items, bs)" by blast
  have "stream_of c = stream_of (coder d) @ bits" if "0 < m_output_room c"
    using c(2) same that by (simp add: extends_def)
  then show ?thesis
    using d1(1) d2(1) c(1,3)
    by (intro exI [of _ d1] exI [of _ ?d2] exI [of _ "0 < m_output_room c"] exI [of _ "?d2\<lparr>coder := c\<rparr>"]) auto
qed

definition demo_lz :: tdefl_lz where
  "demo_lz = \<lparr>coder = demo_compressor, m_max_probes = [1, 1], m_lookahead_pos = 0, m_lookahead_size = 0,
     m_dict_size = 0, m_pLZ_code_buf = 1, m_pLZ_flags = 0, m_num_flags_left = 8, m_total_lz_bytes = 0,
     m_saved_match_dist = 0, m_saved_match_len = 0, m_saved_lit = 0, m_dict = replicate 33025 0,
     m_lz_code_buf = replicate 65536 0, m_next = replicate 32768 0, m_hash = replicate 32768 0\<rparr>"

theorem packed_block_reads_back_witness:
  "\<exists>d1 d2 ok d3. record_items [Lit 97, Lit 98, Match 5 2, Lit 10] (reset_lz demo_lz) = Some d1 \<and>
    finish_lz_flags d1 = Some d2 \<and> tdefl_compress_block False d2 = Some (ok, d3) \<and>
    (ok \<longrightarrow> (\<exists>bits. \<forall>bs. read_packed_block (bits @ bs) = Some ([Lit 97, Lit 98, Match 5 2, Lit 10], bs)))"
proof -
  have "huff_arrays (coder demo_lz)" "coder_ok (coder demo_lz)" "length (m_lz_code_buf demo_lz) = TDEFL_LZ_CODE_BUF_SIZE"
    by (simp_all add: demo_lz_def huff_arrays_def coder_ok_def demo_compressor_def TDEFL_LZ_CODE_BUF_SIZE_def)
  from packed_block_reads_back [OF this, of "[Lit 97, Lit 98, Match 5 2, Lit 10]" False] show ?thesis
    by (fastforce simp: TDEFL_LZ_CODE_BUF_SIZE_def)
qed

end
