(* ===== verification/Mz_Match.thy ===== *)
theory Mz_Match
  imports Mz_Packed
begin

unbundle bit_operations_syntax

text \<open>
  \<open>tdefl_find_match\<close> of \<open>proj/sparc-prog/miniz.c\<close> (the version for machines that do not load
  unaligned words): along the hash chain it looks for the longest earlier occurrence of the bytes
  to come.  \<open>None\<close> is an access outside \<open>m_next\<close>, \<open>m_dict\<close> or \<open>m_max_probes\<close>.

  The lemmas show that there is none, that the search ends, and that what it finds is a match,
  whatever the hash chains hold.
\<close>

section \<open>The code\<close>

definition read_at :: "'a list \<Rightarrow> nat \<Rightarrow> 'a option" where
  "read_at xs i = (if i < length xs then Some (xs ! i) else None)"

text \<open>A probe returns from the function, has found a candidate, or moves on; position and distance go
  along.\<close>

datatype probe = Probe_return | Probe_found u32 u32 | Probe_next u32

definition TDEFL_PROBE :: "tdefl_lz \<Rightarrow> u32 \<Rightarrow> u32 \<Rightarrow> u32 \<Rightarrow> u8 \<Rightarrow> u8 \<Rightarrow> u32 \<Rightarrow> probe option" where
  "TDEFL_PROBE d lookahead_pos max_dist match_len c0 c1 probe_pos =
    do {
      next_probe_pos \<leftarrow> read_at (m_next d) (unat probe_pos);
      let dist = ucast (ucast (lookahead_pos - ucast next_probe_pos) :: u16);
      if next_probe_pos = 0 \<or> max_dist < dist then Some Probe_return
      else do {
        let probe_pos = ucast next_probe_pos AND TDEFL_LZ_DICT_SIZE_MASK;
        x \<leftarrow> read_at (m_dict d) (unat (probe_pos + match_len));
        if x \<noteq> c0 then Some (Probe_next probe_pos)
        else do {
          y \<leftarrow> read_at (m_dict d) (unat (probe_pos + match_len - 1));
          Some (if y = c1 then Probe_found probe_pos dist else Probe_next probe_pos) } }
    }"

primrec probes :: "nat \<Rightarrow> tdefl_lz \<Rightarrow> u32 \<Rightarrow> u32 \<Rightarrow> u32 \<Rightarrow> u8 \<Rightarrow> u8 \<Rightarrow> u32 \<Rightarrow> probe option" where
  "probes 0 d lookahead_pos max_dist match_len c0 c1 probe_pos = Some (Probe_next probe_pos)"
| "probes (Suc n) d lookahead_pos max_dist match_len c0 c1 probe_pos =
    do {
      r \<leftarrow> TDEFL_PROBE d lookahead_pos max_dist match_len c0 c1 probe_pos;
      case r of
        Probe_next probe_pos \<Rightarrow> probes n d lookahead_pos max_dist match_len c0 c1 probe_pos
      | _ \<Rightarrow> Some r
    }"

lemma count_down: "num \<noteq> 1 \<Longrightarrow> unat (num - 2 :: u32) < unat (num - 1)"
proof -
  assume "num \<noteq> 1"
  then have z: "num - 1 \<noteq> 0" by simp
  have "unat (num - 1 - 1) = unat (num - 1) - 1" using z by (rule unat_minus_one)
  moreover have "0 < unat (num - 1)" using z by (simp add: unat_gt_0)
  moreover have "num - 1 - 1 = num - 2" by simp
  ultimately show ?thesis by simp
qed

text \<open>The inner loop, up to the next candidate, with \<open>num_probes_left\<close>; \<open>None\<close> inside is the return.\<close>

function probe_loop :: "tdefl_lz \<Rightarrow> u32 \<Rightarrow> u32 \<Rightarrow> u32 \<Rightarrow> u8 \<Rightarrow> u8 \<Rightarrow> u32 \<Rightarrow> u32 \<Rightarrow>
    ((u32 \<times> u32) option \<times> u32) option" where
  "probe_loop d lookahead_pos max_dist match_len c0 c1 num_probes_left probe_pos =
    (let num_probes_left = num_probes_left - 1
     in if num_probes_left = 0 then Some (None, 0)
        else
          (case probes 3 d lookahead_pos max_dist match_len c0 c1 probe_pos of
             None \<Rightarrow> None
           | Some Probe_return \<Rightarrow> Some (None, num_probes_left)
           | Some (Probe_found probe_pos dist) \<Rightarrow> Some (Some (probe_pos, dist), num_probes_left)
           | Some (Probe_next probe_pos) \<Rightarrow>
              probe_loop d lookahead_pos max_dist match_len c0 c1 num_probes_left probe_pos))"
  by pat_completeness auto

termination
  by (relation "measure (\<lambda>(d, lookahead_pos, max_dist, match_len, c0, c1, num_probes_left, probe_pos).
        unat (num_probes_left - 1))")
    (auto simp: count_down)

declare probe_loop.simps [simp del]

lemma probe_loop_counts_down:
  "probe_loop d lookahead_pos max_dist match_len c0 c1 num probe_pos = Some (Some r, num') \<Longrightarrow>
    unat (num' - 1) < unat (num - 1)"
proof (induction d lookahead_pos max_dist match_len c0 c1 num probe_pos rule: probe_loop.induct)
  case (1 d lookahead_pos max_dist match_len c0 c1 num probe_pos)
  show ?case
    using "1.prems" count_down [of num] "1.IH" [OF refl]
    by (subst (asm) probe_loop.simps)
      (fastforce simp: Let_def split: if_splits option.splits probe.splits)
qed

primrec match_run :: "u8 list \<Rightarrow> nat \<Rightarrow> nat \<Rightarrow> nat \<Rightarrow> nat option" where
  "match_run dict p q 0 = Some 0"
| "match_run dict p q (Suc n) =
    do {
      x \<leftarrow> read_at dict p;
      y \<leftarrow> read_at dict q;
      if x \<noteq> y then Some 0 else do { k \<leftarrow> match_run dict (p + 1) (q + 1) n; Some (k + 1) }
    }"

text \<open>The outer loop: \<open>*pMatch_dist\<close> and \<open>*pMatch_len\<close> are the best match so far.\<close>

function find_loop :: "tdefl_lz \<Rightarrow> u32 \<Rightarrow> u32 \<Rightarrow> u32 \<Rightarrow> u32 \<times> u32 \<Rightarrow> u8 \<Rightarrow> u8 \<Rightarrow> u32 \<Rightarrow> u32 \<Rightarrow> (u32 \<times> u32) option" where
  "find_loop d lookahead_pos max_dist max_match_len best c0 c1 num_probes_left probe_pos =
    (let pos = lookahead_pos AND TDEFL_LZ_DICT_SIZE_MASK
     in case probe_loop d lookahead_pos max_dist (snd best) c0 c1 num_probes_left probe_pos of
          None \<Rightarrow> None
        | Some (None, num_probes_left) \<Rightarrow> Some best
        | Some (Some (probe_pos, dist), num_probes_left) \<Rightarrow>
           (if dist = 0 then Some best
            else
              (case match_run (m_dict d) (unat pos) (unat probe_pos) (unat max_match_len) of
                 None \<Rightarrow> None
               | Some run \<Rightarrow>
                  (let probe_len = of_nat run
                   in if snd best < probe_len then
                        (if probe_len = max_match_len then Some (dist, probe_len)
                         else
                           (case (read_at (m_dict d) (unat (pos + probe_len)), read_at (m_dict d) (unat (pos + probe_len - 1))) of
                              (Some c0, Some c1) \<Rightarrow>
                                find_loop d lookahead_pos max_dist max_match_len (dist, probe_len) c0 c1 num_probes_left probe_pos
                            | _ \<Rightarrow> None))
                      else
                        find_loop d lookahead_pos max_dist max_match_len best c0 c1 num_probes_left probe_pos))))"
  by pat_completeness auto

termination
  by (relation "measure (\<lambda>(d, lookahead_pos, max_dist, max_match_len, best, c0, c1, num_probes_left, probe_pos).
        unat (num_probes_left - 1))")
    (auto dest: probe_loop_counts_down)

declare find_loop.simps [simp del]

definition tdefl_find_match :: "tdefl_lz \<Rightarrow> u32 \<Rightarrow> u32 \<Rightarrow> u32 \<Rightarrow> u32 \<times> u32 \<Rightarrow> (u32 \<times> u32) option" where
  "tdefl_find_match d lookahead_pos max_dist max_match_len best =
    do {
      let pos = lookahead_pos AND TDEFL_LZ_DICT_SIZE_MASK;
      num_probes_left \<leftarrow> read_at (m_max_probes d) (if 32 \<le> snd best then 1 else 0);
      c0 \<leftarrow> read_at (m_dict d) (unat (pos + snd best));
      c1 \<leftarrow> read_at (m_dict d) (unat (pos + snd best - 1));
      if max_match_len \<le> snd best then Some best
      else find_loop d lookahead_pos max_dist max_match_len best c0 c1 num_probes_left pos
    }"

section \<open>What is found\<close>

lemma read_at_some: "i < length xs \<Longrightarrow> read_at xs i = Some (xs ! i)"
  by (simp add: read_at_def)

lemma unat_dict_mask: "unat (x AND TDEFL_LZ_DICT_SIZE_MASK) = unat x mod 32768"
  using unat_and_mask [of TDEFL_LZ_DICT_SIZE_MASK 15 x]
  by (simp add: TDEFL_LZ_DICT_SIZE_MASK_def mask_eq_exp_minus_1)

lemma match_run_result:
  assumes "p + n \<le> length dict" and "q + n \<le> length dict"
  shows "\<exists>k \<le> n. match_run dict p q n = Some k \<and> (\<forall>i < k. dict ! (p + i) = dict ! (q + i))"
  using assms
proof (induction n arbitrary: p q)
  case (Suc n)
  show ?case
  proof (cases "dict ! p = dict ! q")
    case True
    obtain k where k: "k \<le> n" "match_run dict (p + 1) (q + 1) n = Some k"
      "\<forall>i < k. dict ! (p + 1 + i) = dict ! (q + 1 + i)"
      using Suc.IH [of "p + 1" "q + 1"] Suc.prems by auto
    have "dict ! (p + i) = dict ! (q + i)" if "i < k + 1" for i
      using that True k(3) by (cases i) auto
    then show ?thesis using k(1,2) True Suc.prems by (intro exI [of _ "k + 1"]) (simp add: read_at_some)
  next
    case False
    then show ?thesis using Suc.prems by (intro exI [of _ 0]) (simp add: read_at_some)
  qed
qed simp

text \<open>The arrays have their sizes.\<close>

definition lz_arrays :: "tdefl_lz \<Rightarrow> bool" where
  "lz_arrays d \<longleftrightarrow> length (m_dict d) = 33025 \<and> length (m_next d) = 32768 \<and> length (m_hash d) = 32768 \<and>
     length (m_max_probes d) = 2"

text \<open>The place of a candidate: \<open>dist\<close> bytes back, around the dictionary.\<close>

definition candidate :: "u32 \<Rightarrow> u32 \<Rightarrow> u32 \<Rightarrow> u32 \<Rightarrow> bool" where
  "candidate lookahead_pos max_dist probe_pos dist \<longleftrightarrow> dist \<le> max_dist \<and>
     probe_pos = (lookahead_pos - dist) AND TDEFL_LZ_DICT_SIZE_MASK"

lemma uint_dict_mask: "uint (x AND TDEFL_LZ_DICT_SIZE_MASK) = uint x mod 32768"
proof -
  have "int (unat (x AND TDEFL_LZ_DICT_SIZE_MASK)) = int (unat x) mod 32768"
    unfolding unat_dict_mask by (simp add: of_nat_mod)
  then show ?thesis by simp
qed

lemma probe_distance:
  "(lookahead_pos - ucast (ucast (lookahead_pos - ucast (p :: u16)) :: u16)) AND TDEFL_LZ_DICT_SIZE_MASK =
    (ucast p :: u32) AND TDEFL_LZ_DICT_SIZE_MASK"
proof -
  let ?x = "lookahead_pos - ucast p :: u32"
  let ?d = "ucast (ucast ?x :: u16) :: u32"
  have "?d = take_bit 16 ?x" by (rule bit_word_eqI) (auto simp: bit_take_bit_iff bit_ucast_iff)
  then have "uint ?d = take_bit 16 (uint ?x)" by (simp only: unsigned_take_bit_eq)
  then have "uint ?d = uint ?x mod 65536" by (simp only: take_bit_eq_mod) simp
  then have d: "uint ?d mod 32768 = (uint lookahead_pos - uint (ucast p :: u32)) mod 32768"
    by (simp add: uint_word_ariths mod_mod_cancel)
  have "uint (lookahead_pos - ?d) mod 32768 = (uint lookahead_pos - uint ?d) mod 32768"
    by (simp only: uint_word_ariths) (simp add: mod_mod_cancel)
  also have "\<dots> = (uint lookahead_pos - uint ?d mod 32768) mod 32768" by (rule mod_diff_right_eq [symmetric])
  also have "\<dots> = (uint lookahead_pos - (uint lookahead_pos - uint (ucast p :: u32))) mod 32768"
    unfolding d by (rule mod_diff_right_eq)
  finally have "uint ((lookahead_pos - ?d) AND TDEFL_LZ_DICT_SIZE_MASK) = uint ((ucast p :: u32) AND TDEFL_LZ_DICT_SIZE_MASK)"
    unfolding uint_dict_mask by simp
  then show ?thesis by (simp only: word_uint_eq_iff)
qed

lemma TDEFL_PROBE_result:
  assumes "lz_arrays d" and "unat probe_pos < 32768" and "1 \<le> unat match_len" and "unat match_len \<le> 257"
  shows "\<exists>r. TDEFL_PROBE d lookahead_pos max_dist match_len c0 c1 probe_pos = Some r \<and>
    (\<forall>p dist. r = Probe_found p dist \<longrightarrow> candidate lookahead_pos max_dist p dist) \<and>
    (\<forall>p. r = Probe_next p \<longrightarrow> unat p < 32768)"
proof -
  let ?n = "m_next d ! unat probe_pos"
  let ?p = "ucast ?n AND TDEFL_LZ_DICT_SIZE_MASK :: u32"
  have n: "read_at (m_next d) (unat probe_pos) = Some ?n" using assms(1,2) by (simp add: read_at_def lz_arrays_def)
  have p: "unat ?p < 32768" by (simp add: unat_dict_mask)
  have s: "unat (?p + match_len) = unat ?p + unat match_len" "unat (?p + match_len - 1) = unat ?p + unat match_len - 1"
  proof -
    show "unat (?p + match_len) = unat ?p + unat match_len" using p assms(4) by (subst unat_add_lem [THEN iffD1]) simp_all
    then show "unat (?p + match_len - 1) = unat ?p + unat match_len - 1"
      using assms(3) by (subst unat_minus_one) auto
  qed
  have r: "read_at (m_dict d) (unat (?p + match_len)) = Some (m_dict d ! unat (?p + match_len))"
    "read_at (m_dict d) (unat (?p + match_len - 1)) = Some (m_dict d ! unat (?p + match_len - 1))"
    using assms(1,4) p unfolding s by (simp_all add: read_at_def lz_arrays_def)
  show ?thesis
    using n r p probe_distance [of lookahead_pos ?n]
    by (auto simp: TDEFL_PROBE_def Let_def candidate_def)
qed

lemma probes_result:
  assumes "lz_arrays d" and "unat probe_pos < 32768" and "1 \<le> unat match_len" and "unat match_len \<le> 257"
  shows "\<exists>r. probes n d lookahead_pos max_dist match_len c0 c1 probe_pos = Some r \<and>
    (\<forall>p dist. r = Probe_found p dist \<longrightarrow> candidate lookahead_pos max_dist p dist) \<and>
    (\<forall>p. r = Probe_next p \<longrightarrow> unat p < 32768)"
  using assms(2)
proof (induction n arbitrary: probe_pos)
  case (Suc n)
  obtain r where r: "TDEFL_PROBE d lookahead_pos max_dist match_len c0 c1 probe_pos = Some r"
    "\<forall>p dist. r = Probe_found p dist \<longrightarrow> candidate lookahead_pos max_dist p dist"
    "\<forall>p. r = Probe_next p \<longrightarrow> unat p < 32768"
    using TDEFL_PROBE_result [OF assms(1) Suc.prems assms(3,4)] by blast
  show ?case using r Suc.IH by (cases r) auto
qed simp

lemma probe_loop_result:
  assumes "lz_arrays d" and "1 \<le> unat match_len" and "unat match_len \<le> 257" and "unat probe_pos < 32768"
  shows "\<exists>r num'. probe_loop d lookahead_pos max_dist match_len c0 c1 num probe_pos = Some (r, num') \<and>
    (\<forall>p dist. r = Some (p, dist) \<longrightarrow> candidate lookahead_pos max_dist p dist)"
  using assms
proof (induction d lookahead_pos max_dist match_len c0 c1 num probe_pos rule: probe_loop.induct)
  case (1 d lookahead_pos max_dist match_len c0 c1 num probe_pos)
  show ?case
  proof (cases "num - 1 = 0")
    case True
    then show ?thesis by (subst probe_loop.simps) simp
  next
    case False
    obtain r where r: "probes 3 d lookahead_pos max_dist match_len c0 c1 probe_pos = Some r"
      "\<forall>p dist. r = Probe_found p dist \<longrightarrow> candidate lookahead_pos max_dist p dist"
      "\<forall>p. r = Probe_next p \<longrightarrow> unat p < 32768"
      using probes_result [OF "1.prems"(1,4,2,3)] by blast
    show ?thesis
    proof (cases r)
      case (Probe_next p)
      then have "\<exists>r num'. probe_loop d lookahead_pos max_dist match_len c0 c1 (num - 1) p = Some (r, num') \<and>
          (\<forall>p dist. r = Some (p, dist) \<longrightarrow> candidate lookahead_pos max_dist p dist)"
        using "1.IH" [OF refl False, of r p] r "1.prems" by simp
      then show ?thesis using False r(1) Probe_next by (subst probe_loop.simps) (simp add: Let_def)
    qed (use False r in \<open>subst probe_loop.simps, simp add: Let_def\<close>)+
  qed
qed

text \<open>A match: the bytes at the current position are those \<open>dist\<close> bytes back.\<close>

definition dict_match :: "tdefl_lz \<Rightarrow> u32 \<Rightarrow> u32 \<Rightarrow> u32 \<Rightarrow> u32 \<times> u32 \<Rightarrow> bool" where
  "dict_match d lookahead_pos max_dist max_len = (\<lambda>(dist, len).
     dist \<noteq> 0 \<and> dist \<le> max_dist \<and> len \<le> max_len \<and>
     (\<forall>k < unat len. m_dict d ! (unat lookahead_pos mod 32768 + k) =
        m_dict d ! (unat (lookahead_pos - dist) mod 32768 + k)))"

lemma find_loop_result:
  assumes "lz_arrays d" and "1 \<le> unat (snd best)" and "snd best < max_match_len" and "unat max_match_len \<le> 258"
    and "unat probe_pos < 32768"
  shows "\<exists>r. find_loop d lookahead_pos max_dist max_match_len best c0 c1 num probe_pos = Some r \<and>
    (r = best \<or> (snd best < snd r \<and> dict_match d lookahead_pos max_dist max_match_len r))"
  using assms(2,3,5)
proof (induction "unat (num - 1)" arbitrary: best c0 c1 num probe_pos rule: less_induct)
  case less
  let ?pos = "lookahead_pos AND TDEFL_LZ_DICT_SIZE_MASK"
  have len: "unat (snd best) \<le> 257" using less.prems(2) assms(4) by (simp add: word_less_nat_alt)
  obtain r num' where p: "probe_loop d lookahead_pos max_dist (snd best) c0 c1 num probe_pos = Some (r, num')"
    "\<forall>p dist. r = Some (p, dist) \<longrightarrow> candidate lookahead_pos max_dist p dist"
    using probe_loop_result [OF assms(1) less.prems(1) len less.prems(3)] by blast
  show ?case
  proof (cases r)
    case None
    then show ?thesis using p by (subst find_loop.simps) simp
  next
    case (Some pd)
    obtain q dist where r: "r = Some (q, dist)" using Some by (cases pd) simp
    have down: "unat (num' - 1) < unat (num - 1)" using probe_loop_counts_down p(1) r by simp
    have c: "dist \<le> max_dist" "q = (lookahead_pos - dist) AND TDEFL_LZ_DICT_SIZE_MASK"
      using p(2) r by (simp_all add: candidate_def)
    have q: "unat q = unat (lookahead_pos - dist) mod 32768" "unat ?pos = unat lookahead_pos mod 32768"
      unfolding c(2) unat_dict_mask by simp_all
    then have b: "unat q < 32768" "unat ?pos < 32768" by simp_all
    show ?thesis
    proof (cases "dist = 0")
      case True
      then show ?thesis using p r by (subst find_loop.simps) simp
    next
      case False
      have "unat ?pos + unat max_match_len \<le> length (m_dict d)" "unat q + unat max_match_len \<le> length (m_dict d)"
        using b assms(1,4) by (simp_all add: lz_arrays_def)
      from match_run_result [OF this] obtain run where run: "run \<le> unat max_match_len"
        "match_run (m_dict d) (unat ?pos) (unat q) (unat max_match_len) = Some run"
        "\<forall>i < run. m_dict d ! (unat ?pos + i) = m_dict d ! (unat q + i)" by blast
      have u: "unat (of_nat run :: u32) = run" using run(1) assms(4) by (simp add: unsigned_of_nat take_bit_nat_eq_self)
      have m: "dict_match d lookahead_pos max_dist max_match_len (dist, of_nat run)"
        using run(1,3) c(1) False u q by (simp add: dict_match_def word_le_nat_alt)
      show ?thesis
      proof (cases "snd best < of_nat run")
        case longer: True
        show ?thesis
        proof (cases "of_nat run = max_match_len")
          case True
          then show ?thesis
            using p r False run(2) longer m by (subst find_loop.simps) (simp add: Let_def)
        next
          case other: False
          then have lt: "of_nat run < max_match_len" "run < unat max_match_len"
            using run(1) u by (auto simp: word_less_nat_alt le_less)
          have one: "1 \<le> run" using longer u by (simp add: word_less_nat_alt)
          have s: "unat (?pos + of_nat run) = unat ?pos + run" "unat (?pos + of_nat run - 1) = unat ?pos + run - 1"
          proof -
            show a: "unat (?pos + of_nat run) = unat ?pos + run"
              using b(2) lt(2) assms(4) u by (subst unat_add_lem [THEN iffD1]) simp_all
            show "unat (?pos + of_nat run - 1) = unat ?pos + run - 1"
              using a one by (subst unat_minus_one) auto
          qed
          have d: "read_at (m_dict d) (unat (?pos + of_nat run)) = Some (m_dict d ! unat (?pos + of_nat run))"
            "read_at (m_dict d) (unat (?pos + of_nat run - 1)) = Some (m_dict d ! unat (?pos + of_nat run - 1))"
            using b(2) lt(2) assms(1,4) unfolding s by (simp_all add: read_at_def lz_arrays_def)
          let ?rec = "find_loop d lookahead_pos max_dist max_match_len (dist, of_nat run)
            (m_dict d ! unat (?pos + of_nat run)) (m_dict d ! unat (?pos + of_nat run - 1)) num' q"
          have "\<exists>x. ?rec = Some x \<and> (x = (dist, of_nat run) \<or>
              (snd (dist, of_nat run :: u32) < snd x \<and> dict_match d lookahead_pos max_dist max_match_len x))"
            using lt(1) one b(1) u down by (intro less.hyps) simp_all
          then obtain x where x: "?rec = Some x" "x = (dist, of_nat run) \<or>
              (of_nat run < snd x \<and> dict_match d lookahead_pos max_dist max_match_len x)" by auto
          have "find_loop d lookahead_pos max_dist max_match_len best c0 c1 num probe_pos = ?rec"
            using p r False run(2) longer other d by (subst find_loop.simps) (simp add: Let_def)
          then show ?thesis using x m longer by (auto intro: less_trans)
        qed
      next
        case shorter: False
        let ?rec = "find_loop d lookahead_pos max_dist max_match_len best c0 c1 num' q"
        have "find_loop d lookahead_pos max_dist max_match_len best c0 c1 num probe_pos = ?rec"
          using p r False run(2) shorter by (subst find_loop.simps) (simp add: Let_def)
        moreover have "\<exists>x. ?rec = Some x \<and> (x = best \<or>
              (snd best < snd x \<and> dict_match d lookahead_pos max_dist max_match_len x))"
          using less.prems b(1) down by (intro less.hyps) simp_all
        ultimately show ?thesis by simp
      qed
    qed
  qed
qed

lemma tdefl_find_match_result:
  assumes "lz_arrays d" and "1 \<le> unat (snd best)" and "unat (snd best) \<le> 257" and "unat max_match_len \<le> 258"
  shows "\<exists>r. tdefl_find_match d lookahead_pos max_dist max_match_len best = Some r \<and>
    (r = best \<or> (snd best < snd r \<and> dict_match d lookahead_pos max_dist max_match_len r))"
proof -
  let ?pos = "lookahead_pos AND TDEFL_LZ_DICT_SIZE_MASK"
  have b: "unat ?pos < 32768" by (simp add: unat_dict_mask)
  have s: "unat (?pos + snd best) = unat ?pos + unat (snd best)" "unat (?pos + snd best - 1) = unat ?pos + unat (snd best) - 1"
  proof -
    show a: "unat (?pos + snd best) = unat ?pos + unat (snd best)"
      using b assms(3) by (subst unat_add_lem [THEN iffD1]) simp_all
    show "unat (?pos + snd best - 1) = unat ?pos + unat (snd best) - 1"
      using a assms(2) by (subst unat_minus_one) auto
  qed
  have r: "read_at (m_dict d) (unat (?pos + snd best)) = Some (m_dict d ! unat (?pos + snd best))"
    "read_at (m_dict d) (unat (?pos + snd best - 1)) = Some (m_dict d ! unat (?pos + snd best - 1))"
    "read_at (m_max_probes d) (if 32 \<le> snd best then 1 else 0) = Some (m_max_probes d ! (if 32 \<le> snd best then 1 else 0))"
    using b assms(1,3) unfolding s by (simp_all add: read_at_def lz_arrays_def)
  show ?thesis
  proof (cases "max_match_len \<le> snd best")
    case True
    then show ?thesis using r by (simp add: tdefl_find_match_def Let_def)
  next
    case False
    then have "snd best < max_match_len" by simp
    from find_loop_result [OF assms(1,2) this assms(4) b] show ?thesis
      using r False by (simp add: tdefl_find_match_def Let_def)
  qed
qed

end
