(* ===== verification/Mz_Parse.thy ===== *)
theory Mz_Parse
  imports Mz_Match
begin

unbundle bit_operations_syntax

text \<open>
  The parts of \<open>tdefl_compress_normal\<close> of \<open>proj/sparc-prog/miniz.c\<close> that work on the dictionary:
  taking bytes of the input into the dictionary and the hash chains, and one step of the lazy or
  greedy parser, which records literals and matches.
\<close>

section \<open>Flags\<close>

definition TDEFL_MAX_PROBES_MASK :: u32 where "TDEFL_MAX_PROBES_MASK = 0xFFF"
definition TDEFL_WRITE_ZLIB_HEADER :: u32 where "TDEFL_WRITE_ZLIB_HEADER = 0x01000"
definition TDEFL_COMPUTE_ADLER32 :: u32 where "TDEFL_COMPUTE_ADLER32 = 0x02000"
definition TDEFL_GREEDY_PARSING_FLAG :: u32 where "TDEFL_GREEDY_PARSING_FLAG = 0x04000"
definition TDEFL_NONDETERMINISTIC_PARSING_FLAG :: u32 where "TDEFL_NONDETERMINISTIC_PARSING_FLAG = 0x08000"
definition TDEFL_RLE_MATCHES :: u32 where "TDEFL_RLE_MATCHES = 0x10000"
definition TDEFL_FILTER_MATCHES :: u32 where "TDEFL_FILTER_MATCHES = 0x20000"
definition TDEFL_FORCE_ALL_STATIC_BLOCKS :: u32 where "TDEFL_FORCE_ALL_STATIC_BLOCKS = 0x40000"
definition TDEFL_FORCE_ALL_RAW_BLOCKS :: u32 where "TDEFL_FORCE_ALL_RAW_BLOCKS = 0x80000"

section \<open>Filling the dictionary\<close>

definition TDEFL_LZ_HASH_SHIFT :: nat where "TDEFL_LZ_HASH_SHIFT = 5"
definition TDEFL_LZ_HASH_SIZE :: u32 where "TDEFL_LZ_HASH_SIZE = 32768"

text \<open>A byte of the dictionary; the first 257 are also kept behind its end.  (All indices are masked
  below the sizes of the arrays.)\<close>

definition put_dict :: "u32 \<Rightarrow> u8 \<Rightarrow> tdefl_lz \<Rightarrow> tdefl_lz" where
  "put_dict dst_pos c d =
    (let d = d\<lparr>m_dict := (m_dict d)[unat dst_pos := c]\<rparr>
     in if dst_pos < TDEFL_MAX_MATCH_LEN - 1
        then d\<lparr>m_dict := (m_dict d)[unat (TDEFL_LZ_DICT_SIZE + dst_pos) := c]\<rparr>
        else d)"

definition insert_hash :: "u32 \<Rightarrow> u32 \<Rightarrow> tdefl_lz \<Rightarrow> tdefl_lz" where
  "insert_hash hash ins_pos d =
    (let d = d\<lparr>m_next := (m_next d)[unat (ins_pos AND TDEFL_LZ_DICT_SIZE_MASK) := m_hash d ! unat hash]\<rparr>
     in d\<lparr>m_hash := (m_hash d)[unat hash := ucast ins_pos]\<rparr>)"

definition dict_at :: "tdefl_lz \<Rightarrow> u32 \<Rightarrow> u32" where
  "dict_at d p = ucast (m_dict d ! unat (p AND TDEFL_LZ_DICT_SIZE_MASK))"

text \<open>The loop that copies \<open>num_bytes_to_process\<close> bytes, with a rolling hash.\<close>

primrec fill_bytes :: "u8 list \<Rightarrow> u32 \<Rightarrow> u32 \<Rightarrow> u32 \<Rightarrow> tdefl_lz \<Rightarrow> tdefl_lz" where
  "fill_bytes [] dst_pos ins_pos hash d = d"
| "fill_bytes (c # cs) dst_pos ins_pos hash d =
    (let d = put_dict dst_pos c d;
         hash = (push_bit TDEFL_LZ_HASH_SHIFT hash XOR ucast c) AND (TDEFL_LZ_HASH_SIZE - 1);
         d = insert_hash hash ins_pos d
     in fill_bytes cs ((dst_pos + 1) AND TDEFL_LZ_DICT_SIZE_MASK) (ins_pos + 1) hash d)"

definition fill_many :: "u8 list \<Rightarrow> tdefl_lz \<Rightarrow> u8 list \<times> tdefl_lz" where
  "fill_many src d =
    (let dst_pos = (m_lookahead_pos d + m_lookahead_size d) AND TDEFL_LZ_DICT_SIZE_MASK;
         ins_pos = m_lookahead_pos d + m_lookahead_size d - 2;
         hash = push_bit TDEFL_LZ_HASH_SHIFT (dict_at d ins_pos) XOR dict_at d (ins_pos + 1);
         num_bytes_to_process = min (length src) (unat (TDEFL_MAX_MATCH_LEN - m_lookahead_size d));
         d = d\<lparr>m_lookahead_size := m_lookahead_size d + of_nat num_bytes_to_process\<rparr>
     in (drop num_bytes_to_process src, fill_bytes (take num_bytes_to_process src) dst_pos ins_pos hash d))"

text \<open>The loop for the first bytes, while there are fewer than two before them.\<close>

fun fill_few :: "u8 list \<Rightarrow> tdefl_lz \<Rightarrow> u8 list \<times> tdefl_lz" where
  "fill_few [] d = ([], d)"
| "fill_few (c # src) d =
    (if m_lookahead_size d < TDEFL_MAX_MATCH_LEN then
       let dst_pos = (m_lookahead_pos d + m_lookahead_size d) AND TDEFL_LZ_DICT_SIZE_MASK;
           d = put_dict dst_pos c d;
           d = d\<lparr>m_lookahead_size := m_lookahead_size d + 1\<rparr>;
           d = (if TDEFL_MIN_MATCH_LEN \<le> m_lookahead_size d + m_dict_size d then
                  let ins_pos = m_lookahead_pos d + (m_lookahead_size d - 1) - 2;
                      hash = (push_bit (TDEFL_LZ_HASH_SHIFT * 2) (dict_at d ins_pos) XOR
                        push_bit TDEFL_LZ_HASH_SHIFT (dict_at d (ins_pos + 1)) XOR ucast c) AND (TDEFL_LZ_HASH_SIZE - 1)
                  in insert_hash hash ins_pos d
                else d)
       in fill_few src d
     else (c # src, d))"

definition fill_dict :: "u8 list \<Rightarrow> tdefl_lz \<Rightarrow> u8 list \<times> tdefl_lz" where
  "fill_dict src d =
    (let (src, d) = (if TDEFL_MIN_MATCH_LEN - 1 \<le> m_lookahead_size d + m_dict_size d then fill_many src d else fill_few src d)
     in (src, d\<lparr>m_dict_size := min (TDEFL_LZ_DICT_SIZE - m_lookahead_size d) (m_dict_size d)\<rparr>))"

section \<open>A step of the parser\<close>

text \<open>The run of the byte before the current position, for \<open>TDEFL_RLE_MATCHES\<close>.\<close>

primrec rle_run :: "u8 list \<Rightarrow> nat \<Rightarrow> u8 \<Rightarrow> nat \<Rightarrow> nat option" where
  "rle_run dict p c 0 = Some 0"
| "rle_run dict p c (Suc n) =
    do {
      x \<leftarrow> read_at dict p;
      if x \<noteq> c then Some 0 else do { k \<leftarrow> rle_run dict (p + 1) c n; Some (k + 1) }
    }"

text \<open>\<open>cur_match_dist\<close> and \<open>cur_match_len\<close> at the current position.\<close>

definition current_match :: "u32 \<Rightarrow> tdefl_lz \<Rightarrow> (u32 \<times> u32) option" where
  "current_match flags d =
    do {
      let cur_match_len = (if m_saved_match_len d \<noteq> 0 then m_saved_match_len d else TDEFL_MIN_MATCH_LEN - 1);
      let cur_pos = m_lookahead_pos d AND TDEFL_LZ_DICT_SIZE_MASK;
      (cur_match_dist, cur_match_len) \<leftarrow>
        (if flags AND (TDEFL_RLE_MATCHES OR TDEFL_FORCE_ALL_RAW_BLOCKS) \<noteq> 0 then
           if m_dict_size d \<noteq> 0 \<and> flags AND TDEFL_FORCE_ALL_RAW_BLOCKS = 0 then do {
             c \<leftarrow> read_at (m_dict d) (unat ((cur_pos - 1) AND TDEFL_LZ_DICT_SIZE_MASK));
             run \<leftarrow> rle_run (m_dict d) (unat cur_pos) c (unat (m_lookahead_size d));
             Some (if run < unat TDEFL_MIN_MATCH_LEN then (0, 0) else (1, of_nat run)) }
           else Some (0, cur_match_len)
         else tdefl_find_match d (m_lookahead_pos d) (m_dict_size d) (m_lookahead_size d) (0, cur_match_len));
      Some (if (cur_match_len = TDEFL_MIN_MATCH_LEN \<and> 8 * 1024 \<le> cur_match_dist) \<or> cur_pos = cur_match_dist \<or>
              (flags AND TDEFL_FILTER_MATCHES \<noteq> 0 \<and> cur_match_len \<le> 5)
            then (0, 0) else (cur_match_dist, cur_match_len))
    }"

text \<open>What is recorded for it; the result is \<open>len_to_move\<close>.\<close>

definition parse_match :: "u32 \<Rightarrow> bool \<Rightarrow> u32 \<times> u32 \<Rightarrow> tdefl_lz \<Rightarrow> (u32 \<times> tdefl_lz) option" where
  "parse_match flags greedy cur d =
    (let (cur_match_dist, cur_match_len) = cur;
         cur_pos = m_lookahead_pos d AND TDEFL_LZ_DICT_SIZE_MASK
     in if m_saved_match_len d \<noteq> 0 then
          if m_saved_match_len d < cur_match_len then do {
            d \<leftarrow> tdefl_record_literal (ucast (m_saved_lit d)) d;
            if 128 \<le> cur_match_len then do {
              d \<leftarrow> tdefl_record_match cur_match_len cur_match_dist d;
              Some (cur_match_len, d\<lparr>m_saved_match_len := 0\<rparr>) }
            else do {
              c \<leftarrow> read_at (m_dict d) (unat cur_pos);
              Some (1, d\<lparr>m_saved_lit := ucast c, m_saved_match_dist := cur_match_dist, m_saved_match_len := cur_match_len\<rparr>) } }
          else do {
            d \<leftarrow> tdefl_record_match (m_saved_match_len d) (m_saved_match_dist d) d;
            Some (m_saved_match_len d - 1, d\<lparr>m_saved_match_len := 0\<rparr>) }
        else if cur_match_dist = 0 then do {
          c \<leftarrow> read_at (m_dict d) (min (unat cur_pos) 33024);
          d \<leftarrow> tdefl_record_literal c d;
          Some (1, d) }
        else if greedy \<or> flags AND TDEFL_RLE_MATCHES \<noteq> 0 \<or> 128 \<le> cur_match_len then do {
          d \<leftarrow> tdefl_record_match cur_match_len cur_match_dist d;
          Some (cur_match_len, d) }
        else do {
          c \<leftarrow> read_at (m_dict d) (min (unat cur_pos) 33024);
          Some (1, d\<lparr>m_saved_lit := ucast c, m_saved_match_dist := cur_match_dist, m_saved_match_len := cur_match_len\<rparr>) })"

text \<open>(The assertion that \<open>len_to_move\<close> is at most \<open>m_lookahead_size\<close> is not compiled; it holds, by
  \<open>parse_step_result\<close>.)\<close>

definition move_lookahead :: "u32 \<Rightarrow> tdefl_lz \<Rightarrow> tdefl_lz" where
  "move_lookahead len_to_move d =
    (let d = d\<lparr>m_lookahead_pos := m_lookahead_pos d + len_to_move\<rparr>;
         d = d\<lparr>m_lookahead_size := m_lookahead_size d - len_to_move\<rparr>
     in d\<lparr>m_dict_size := min (m_dict_size d + len_to_move) TDEFL_LZ_DICT_SIZE\<rparr>)"

definition parse_step :: "u32 \<Rightarrow> bool \<Rightarrow> tdefl_lz \<Rightarrow> tdefl_lz option" where
  "parse_step flags greedy d =
    do {
      cur \<leftarrow> current_match flags d;
      (len_to_move, d) \<leftarrow> parse_match flags greedy cur d;
      Some (move_lookahead len_to_move d)
    }"

end
