(* ===== verification/Mz_Window.thy ===== *)
theory Mz_Window
  imports Mz_Parse
begin

unbundle bit_operations_syntax

text \<open>
  What the dictionary of the compressor holds: the last bytes of the input, each at its position
  modulo 32768, the first 257 places also behind the end.  The lemmas follow the input through
  \<open>fill_dict\<close> and the matches that the parser finds.
\<close>

section \<open>The window\<close>

text \<open>\<open>data\<close> is all of the input so far, \<open>P\<close> the position of the parser in it.\<close>

definition dict_holds :: "nat \<Rightarrow> u8 list \<Rightarrow> tdefl_lz \<Rightarrow> bool" where
  "dict_holds lo data d \<longleftrightarrow> (\<forall>x. lo \<le> x \<longrightarrow> x < length data \<longrightarrow> length data \<le> x + 32768 \<longrightarrow>
     m_dict d ! (x mod 32768) = data ! x \<and> (x mod 32768 < 257 \<longrightarrow> m_dict d ! (32768 + x mod 32768) = data ! x))"

definition filling :: "nat \<Rightarrow> u8 list \<Rightarrow> tdefl_lz \<Rightarrow> bool" where
  "filling P data d \<longleftrightarrow> lz_arrays d \<and> m_lookahead_pos d = of_nat P \<and>
     length data = P + unat (m_lookahead_size d) \<and> unat (m_lookahead_size d) \<le> 258 \<and>
     unat (m_dict_size d) \<le> P \<and> unat (m_dict_size d) \<le> 32768 \<and>
     dict_holds (P - unat (m_dict_size d)) data d"

text \<open>Between two rounds of filling, \<open>m_dict_size\<close> bytes before the position are still there.\<close>

definition window :: "nat \<Rightarrow> u8 list \<Rightarrow> tdefl_lz \<Rightarrow> bool" where
  "window P data d \<longleftrightarrow> filling P data d \<and> unat (m_dict_size d) + unat (m_lookahead_size d) \<le> 32768"

lemma mod_window:
  fixes x L :: nat
  assumes "x < L" and "L < x + 32768"
  shows "x mod 32768 \<noteq> L mod 32768"
proof
  assume "x mod 32768 = L mod 32768"
  then obtain s where "L = x + 32768 * s" using mod_eq_nat1E [of L 32768 x] assms(1) by auto
  then show False using assms by (cases s) simp_all
qed

lemma put_dict_fields [simp]:
  "m_lookahead_pos (put_dict p c d) = m_lookahead_pos d" "m_lookahead_size (put_dict p c d) = m_lookahead_size d"
  "m_dict_size (put_dict p c d) = m_dict_size d" "lz_arrays (put_dict p c d) = lz_arrays d"
  by (simp_all add: put_dict_def Let_def lz_arrays_def)

lemma insert_hash_fields [simp]:
  "m_lookahead_pos (insert_hash h p d) = m_lookahead_pos d" "m_lookahead_size (insert_hash h p d) = m_lookahead_size d"
  "m_dict_size (insert_hash h p d) = m_dict_size d" "lz_arrays (insert_hash h p d) = lz_arrays d"
  "m_dict (insert_hash h p d) = m_dict d"
  by (simp_all add: insert_hash_def Let_def lz_arrays_def)

lemma put_dict_holds:
  assumes "dict_holds lo data d" and "lz_arrays d" and "unat p = length data mod 32768"
  shows "dict_holds lo (data @ [c]) (put_dict p c d)"
proof -
  let ?L = "length data"
  have len: "length (m_dict d) = 33025" using assms(2) by (simp add: lz_arrays_def)
  have p: "p < TDEFL_MAX_MATCH_LEN - 1 \<longleftrightarrow> ?L mod 32768 < 257" "unat (TDEFL_LZ_DICT_SIZE + p) = 32768 + ?L mod 32768"
    if "True"
  proof -
    show "p < TDEFL_MAX_MATCH_LEN - 1 \<longleftrightarrow> ?L mod 32768 < 257"
      by (simp add: TDEFL_MAX_MATCH_LEN_def word_less_nat_alt assms(3))
    have "?L mod 32768 < 32768" by simp
    then show "unat (TDEFL_LZ_DICT_SIZE + p) = 32768 + ?L mod 32768"
      using assms(3) by (simp add: TDEFL_LZ_DICT_SIZE_def unat_word_ariths)
  qed
  have new: "m_dict (put_dict p c d) ! k = (if k = ?L mod 32768 \<or> (k = 32768 + ?L mod 32768 \<and> ?L mod 32768 < 257) then c
      else m_dict d ! k)" if "k < 33025" for k
  proof -
    have "?L mod 32768 < 32768" by simp
    then show ?thesis
      using that p len assms(3) by (auto simp: put_dict_def Let_def nth_list_update)
  qed
  show ?thesis
    unfolding dict_holds_def
  proof (intro allI impI)
    fix x assume x: "lo \<le> x" "x < length (data @ [c])" "length (data @ [c]) \<le> x + 32768"
    have r: "x mod 32768 < 32768" by simp
    show "m_dict (put_dict p c d) ! (x mod 32768) = (data @ [c]) ! x \<and>
        (x mod 32768 < 257 \<longrightarrow> m_dict (put_dict p c d) ! (32768 + x mod 32768) = (data @ [c]) ! x)"
    proof (cases "x = ?L")
      case True
      then show ?thesis using new [of "x mod 32768"] new [of "32768 + x mod 32768"] r by simp
    next
      case False
      then have lt: "x < ?L" "?L < x + 32768" using x by simp_all
      have ne: "x mod 32768 \<noteq> ?L mod 32768" using mod_window [OF lt] .
      have old: "m_dict d ! (x mod 32768) = data ! x" "x mod 32768 < 257 \<longrightarrow> m_dict d ! (32768 + x mod 32768) = data ! x"
        using assms(1) x(1) lt by (simp_all add: dict_holds_def)
      have "?L mod 32768 < 32768" by simp
      then show ?thesis
        using new [of "x mod 32768"] new [of "32768 + x mod 32768"] r ne old lt by (auto simp: nth_append)
    qed
  qed
qed

lemma dict_holds_cong: "m_dict d' = m_dict d \<Longrightarrow> dict_holds lo data d' = dict_holds lo data d"
  by (simp add: dict_holds_def)

lemma unat_of_nat_mod: "unat (of_nat x AND TDEFL_LZ_DICT_SIZE_MASK) = x mod 32768"
  by (simp add: unat_dict_mask unsigned_of_nat take_bit_eq_mod mod_mod_cancel)

section \<open>Filling\<close>

text \<open>Everything but the dictionary, the hash chains and the sizes stays.\<close>

definition same_codes :: "tdefl_lz \<Rightarrow> tdefl_lz \<Rightarrow> bool" where
  "same_codes d d' \<longleftrightarrow> coder d' = coder d \<and> m_pLZ_code_buf d' = m_pLZ_code_buf d \<and> m_pLZ_flags d' = m_pLZ_flags d \<and>
     m_num_flags_left d' = m_num_flags_left d \<and> m_total_lz_bytes d' = m_total_lz_bytes d \<and>
     m_saved_match_dist d' = m_saved_match_dist d \<and> m_saved_match_len d' = m_saved_match_len d \<and>
     m_saved_lit d' = m_saved_lit d \<and> m_lz_code_buf d' = m_lz_code_buf d \<and> m_lookahead_pos d' = m_lookahead_pos d \<and>
     m_max_probes d' = m_max_probes d"

lemma same_codes_refl [simp]: "same_codes d d"
  by (simp add: same_codes_def)

lemma same_codes_trans: "same_codes a b \<Longrightarrow> same_codes b c \<Longrightarrow> same_codes a c"
  by (simp add: same_codes_def)

lemma same_codes_steps [simp]: "same_codes d (put_dict p c d)" "same_codes d (insert_hash h p d)"
  "same_codes d (d\<lparr>m_lookahead_size := n\<rparr>)" "same_codes d (d\<lparr>m_dict_size := n\<rparr>)"
  by (simp_all add: same_codes_def put_dict_def insert_hash_def Let_def)

lemma fill_bytes_result:
  assumes "dict_holds lo data d" and "lz_arrays d" and "unat p = length data mod 32768"
  shows "dict_holds lo (data @ cs) (fill_bytes cs p i h d) \<and> lz_arrays (fill_bytes cs p i h d) \<and>
    same_codes d (fill_bytes cs p i h d) \<and> m_lookahead_size (fill_bytes cs p i h d) = m_lookahead_size d \<and>
    m_dict_size (fill_bytes cs p i h d) = m_dict_size d"
  using assms
proof (induction cs arbitrary: data d p i h)
  case (Cons c cs)
  let ?h = "(push_bit TDEFL_LZ_HASH_SHIFT h XOR ucast c) AND (TDEFL_LZ_HASH_SIZE - 1)"
  let ?d = "insert_hash ?h i (put_dict p c d)"
  have "unat p < 32768" using Cons.prems(3) by simp
  then have "unat (p + 1) = unat p + 1" by (simp add: unat_word_ariths)
  then have "unat ((p + 1) AND TDEFL_LZ_DICT_SIZE_MASK) = length (data @ [c]) mod 32768"
    unfolding unat_dict_mask using Cons.prems(3) by (simp add: mod_Suc_eq)
  moreover have "dict_holds lo (data @ [c]) ?d"
    using put_dict_holds [OF Cons.prems] dict_holds_cong [of ?d "put_dict p c d"] by simp
  ultimately have "dict_holds lo ((data @ [c]) @ cs) (fill_bytes cs ((p + 1) AND TDEFL_LZ_DICT_SIZE_MASK) (i + 1) ?h ?d) \<and>
      lz_arrays (fill_bytes cs ((p + 1) AND TDEFL_LZ_DICT_SIZE_MASK) (i + 1) ?h ?d) \<and>
      same_codes ?d (fill_bytes cs ((p + 1) AND TDEFL_LZ_DICT_SIZE_MASK) (i + 1) ?h ?d) \<and>
      m_lookahead_size (fill_bytes cs ((p + 1) AND TDEFL_LZ_DICT_SIZE_MASK) (i + 1) ?h ?d) = m_lookahead_size ?d \<and>
      m_dict_size (fill_bytes cs ((p + 1) AND TDEFL_LZ_DICT_SIZE_MASK) (i + 1) ?h ?d) = m_dict_size ?d"
    using Cons.prems(2) by (intro Cons.IH) simp_all
  moreover have "same_codes d ?d" by (meson same_codes_steps(1,2) same_codes_trans)
  ultimately show ?case by (simp add: Let_def) (meson same_codes_trans)
qed simp

text \<open>The bytes that are taken.\<close>

definition taken :: "nat \<Rightarrow> u8 list \<Rightarrow> u8 list \<Rightarrow> tdefl_lz \<Rightarrow> u8 list \<Rightarrow> tdefl_lz \<Rightarrow> bool" where
  "taken P data src d src' d' \<longleftrightarrow> (\<exists>cs. src = cs @ src' \<and> filling P (data @ cs) d' \<and> same_codes d d' \<and>
     m_dict_size d' = m_dict_size d \<and> (src' = [] \<or> m_lookahead_size d' = 258))"

lemma dict_position:
  assumes "filling P data d"
  shows "unat ((m_lookahead_pos d + m_lookahead_size d) AND TDEFL_LZ_DICT_SIZE_MASK) = length data mod 32768"
proof -
  have "m_lookahead_pos d + m_lookahead_size d = of_nat (length data)" using assms by (simp add: filling_def)
  then show ?thesis by (simp only: unat_of_nat_mod)
qed

lemma lookahead_after:
  assumes "unat (l :: u32) \<le> 258" and "n \<le> 258 - unat l"
  shows "unat (l + of_nat n) = unat l + n"
proof -
  have "unat (of_nat n :: u32) = n" using assms(2) by (simp add: unsigned_of_nat take_bit_nat_eq_self)
  then show ?thesis using assms by (subst unat_add_lem [THEN iffD1]) simp_all
qed

lemma fill_many_result:
  assumes f: "filling P data d"
  shows "\<exists>src' d'. fill_many src d = (src', d') \<and> taken P data src d src' d'"
proof -
  let ?n = "min (length src) (unat (TDEFL_MAX_MATCH_LEN - m_lookahead_size d))"
  let ?d = "d\<lparr>m_lookahead_size := m_lookahead_size d + of_nat ?n\<rparr>"
  have la: "unat (m_lookahead_size d) \<le> 258" using f by (simp add: filling_def)
  then have r: "unat (TDEFL_MAX_MATCH_LEN - m_lookahead_size d) = 258 - unat (m_lookahead_size d)"
    by (simp add: TDEFL_MAX_MATCH_LEN_def unat_sub word_le_nat_alt)
  have la': "unat (m_lookahead_size ?d) = unat (m_lookahead_size d) + ?n"
    using lookahead_after [OF la, of ?n] r by simp
  have D: "dict_holds (P - unat (m_dict_size d)) data ?d" "lz_arrays ?d"
    using f by (simp_all add: filling_def dict_holds_def lz_arrays_def)
  obtain i h where e: "fill_many src d = (drop ?n src, fill_bytes (take ?n src)
      ((m_lookahead_pos d + m_lookahead_size d) AND TDEFL_LZ_DICT_SIZE_MASK) i h ?d)" (is "_ = (_, ?x)")
    by (simp add: fill_many_def Let_def)
  have X: "dict_holds (P - unat (m_dict_size d)) (data @ take ?n src) ?x" "lz_arrays ?x" "same_codes ?d ?x"
    "m_lookahead_size ?x = m_lookahead_size ?d" "m_dict_size ?x = m_dict_size d"
    using fill_bytes_result [OF D dict_position [OF f], of "take ?n src" i h] by simp_all
  have s: "same_codes d ?x" using same_codes_trans [OF same_codes_steps(3) X(3)] .
  then have "m_lookahead_pos ?x = of_nat P" using f by (simp add: same_codes_def filling_def)
  then have "filling P (data @ take ?n src) ?x"
    using f X(1,2,5) la la' r unfolding filling_def X(4) by simp
  moreover have "drop ?n src = [] \<or> m_lookahead_size ?x = 258"
  proof (cases "length src \<le> ?n")
    case False
    then have "unat (m_lookahead_size ?x) = 258" unfolding X(4) la' using r la by simp
    then show ?thesis by (simp add: word_unat_eq_iff)
  qed simp
  ultimately show ?thesis
    unfolding e taken_def using s X(5) by (intro exI conjI) (rule refl append_take_drop_id [symmetric] | assumption)+
qed

lemma filling_insert_hash: "filling P data d \<Longrightarrow> filling P data (insert_hash h i d)"
  by (simp add: filling_def dict_holds_cong [of "insert_hash h i d" d])

lemma fill_few_step:
  assumes f: "filling P data d" and lt: "m_lookahead_size d < TDEFL_MAX_MATCH_LEN"
  shows "\<exists>d'. fill_few (c # src) d = fill_few src d' \<and> filling P (data @ [c]) d' \<and> same_codes d d' \<and>
    m_dict_size d' = m_dict_size d"
proof -
  let ?p = "(m_lookahead_pos d + m_lookahead_size d) AND TDEFL_LZ_DICT_SIZE_MASK"
  let ?d = "(put_dict ?p c d)\<lparr>m_lookahead_size := m_lookahead_size d + 1\<rparr>"
  have e: "\<exists>d'. fill_few (c # src) d = fill_few src d' \<and> (d' = ?d \<or> (\<exists>h i. d' = insert_hash h i ?d))"
    using lt by (simp add: Let_def) blast
  have la: "unat (m_lookahead_size d) < 258" using lt by (simp add: TDEFL_MAX_MATCH_LEN_def word_less_nat_alt)
  then have la': "unat (m_lookahead_size d + 1) = unat (m_lookahead_size d) + 1"
    using lookahead_after [of "m_lookahead_size d" 1] by simp
  have "dict_holds (P - unat (m_dict_size d)) (data @ [c]) (put_dict ?p c d)"
    using f put_dict_holds [OF _ _ dict_position [OF f]] by (simp add: filling_def)
  then have "dict_holds (P - unat (m_dict_size d)) (data @ [c]) ?d" by (simp add: dict_holds_def)
  moreover have "lz_arrays (put_dict ?p c d)" using f by (simp add: filling_def)
  then have "lz_arrays ?d" by (simp add: lz_arrays_def)
  ultimately have F: "filling P (data @ [c]) ?d" using f la la' by (simp add: filling_def)
  have S: "same_codes d ?d" using same_codes_trans [OF same_codes_steps(1) same_codes_steps(3)] .
  have "filling P (data @ [c]) (insert_hash h i ?d)" for h i using F by (rule filling_insert_hash)
  moreover have "same_codes d (insert_hash h i ?d)" for h i
    using same_codes_trans [OF S same_codes_steps(2)] .
  ultimately show ?thesis using e F S by auto
qed

lemma fill_few_result:
  assumes "filling P data d"
  shows "\<exists>src' d'. fill_few src d = (src', d') \<and> taken P data src d src' d'"
  using assms
proof (induction src arbitrary: data d)
  case Nil
  then show ?case by (simp add: taken_def)
next
  case (Cons c src)
  show ?case
  proof (cases "m_lookahead_size d < TDEFL_MAX_MATCH_LEN")
    case False
    then have "unat (m_lookahead_size d) = 258"
      using Cons.prems by (simp add: filling_def TDEFL_MAX_MATCH_LEN_def word_less_nat_alt)
    then have "m_lookahead_size d = 258" by (simp add: word_unat_eq_iff)
    then show ?thesis using Cons.prems False by (simp add: taken_def)
  next
    case True
    obtain d1 where d1: "fill_few (c # src) d = fill_few src d1" "filling P (data @ [c]) d1" "same_codes d d1"
      "m_dict_size d1 = m_dict_size d"
      using fill_few_step [OF Cons.prems True] by blast
    obtain src' d2 where d2: "fill_few src d1 = (src', d2)" "taken P (data @ [c]) src d1 src' d2"
      using Cons.IH [OF d1(2)] by blast
    obtain cs where "src = cs @ src'" "filling P ((data @ [c]) @ cs) d2" "same_codes d1 d2"
      "m_dict_size d2 = m_dict_size d1" "src' = [] \<or> m_lookahead_size d2 = 258"
      using d2(2) by (auto simp: taken_def)
    then have "taken P data (c # src) d src' d2"
      unfolding taken_def using d1(3,4) by (intro exI [of _ "c # cs"]) (auto intro: same_codes_trans)
    then show ?thesis using d1(1) d2(1) by simp
  qed
qed

lemma fill_dict_result:
  assumes "window P data d"
  shows "\<exists>cs src' d'. fill_dict src d = (src', d') \<and> src = cs @ src' \<and> window P (data @ cs) d' \<and> same_codes d d' \<and>
    (src' = [] \<or> m_lookahead_size d' = 258)"
proof -
  have f: "filling P data d" using assms by (simp add: window_def)
  obtain src' d1 where d1: "(if TDEFL_MIN_MATCH_LEN - 1 \<le> m_lookahead_size d + m_dict_size d then fill_many src d
      else fill_few src d) = (src', d1)" "taken P data src d src' d1"
    using fill_many_result [OF f] fill_few_result [OF f] by (metis (full_types))
  obtain cs where cs: "src = cs @ src'" "filling P (data @ cs) d1" "same_codes d d1" "src' = [] \<or> m_lookahead_size d1 = 258"
    using d1(2) by (auto simp: taken_def)
  let ?n = "min (TDEFL_LZ_DICT_SIZE - m_lookahead_size d1) (m_dict_size d1)"
  let ?d = "d1\<lparr>m_dict_size := ?n\<rparr>"
  have "unat (TDEFL_LZ_DICT_SIZE - m_lookahead_size d1) = 32768 - unat (m_lookahead_size d1)"
    using cs(2) by (simp add: TDEFL_LZ_DICT_SIZE_def filling_def unat_sub word_le_nat_alt)
  then have n: "unat ?n = min (32768 - unat (m_lookahead_size d1)) (unat (m_dict_size d1))"
    by (simp add: min_def word_le_nat_alt)
  have "dict_holds (P - unat ?n) (data @ cs) ?d"
    using cs(2) n by (simp add: filling_def dict_holds_def)
  then have "window P (data @ cs) ?d"
    using cs(2) n by (auto simp: window_def filling_def lz_arrays_def)
  moreover have "same_codes d ?d" using same_codes_trans [OF cs(3) same_codes_steps(4)] .
  moreover have "fill_dict src d = (src', ?d)" using d1(1) by (simp add: fill_dict_def)
  moreover have "src' = [] \<or> m_lookahead_size ?d = 258" using cs(4) by simp
  ultimately show ?thesis using cs(1) by blast
qed

section \<open>Reading\<close>

lemma window_reads:
  assumes "window P data d" and "P - unat (m_dict_size d) \<le> y" and "y + k < length data" and "k \<le> 257"
  shows "y mod 32768 + k < length (m_dict d)" and "m_dict d ! (y mod 32768 + k) = data ! (y + k)"
proof -
  have W: "lz_arrays d" "dict_holds (P - unat (m_dict_size d)) data d" "length data \<le> y + k + 32768"
    using assms by (auto simp: window_def filling_def)
  have r: "y mod 32768 < 32768" by simp
  then show "y mod 32768 + k < length (m_dict d)" using W(1) assms(4) by (simp add: lz_arrays_def)
  have D: "m_dict d ! ((y + k) mod 32768) = data ! (y + k)"
    "(y + k) mod 32768 < 257 \<Longrightarrow> m_dict d ! (32768 + (y + k) mod 32768) = data ! (y + k)"
    using W(2,3) assms(2,3) by (simp_all add: dict_holds_def)
  have m: "(y + k) mod 32768 = (y mod 32768 + k) mod 32768" by (simp add: mod_add_left_eq)
  show "m_dict d ! (y mod 32768 + k) = data ! (y + k)"
  proof (cases "y mod 32768 + k < 32768")
    case True
    then show ?thesis using D(1) m by simp
  next
    case False
    then have "(y mod 32768 + k) mod 32768 = (y mod 32768 + k - 32768) mod 32768" by (intro le_mod_geq) simp
    moreover have "y mod 32768 + k - 32768 < 257" using r assms(4) by linarith
    ultimately have e: "(y + k) mod 32768 = y mod 32768 + k - 32768" "(y + k) mod 32768 < 257" unfolding m by simp_all
    have "32768 + (y + k) mod 32768 = y mod 32768 + k" using e(1) False by linarith
    then show ?thesis using D(2) [OF e(2)] by simp
  qed
qed

end
