(* ===== verification/Mz_Step.thy ===== *)
theory Mz_Step
  imports Mz_Window
begin

unbundle bit_operations_syntax

text \<open>
  What the items that the parser of \<open>proj/sparc-prog/miniz.c\<close> records stand for.  A decoder expands a
  literal to its byte and a match to bytes of its own output; after each step of the parser the
  items recorded so far expand to the input before the position, less the one byte for which a
  lazy match is kept back.
\<close>

section \<open>Expanding items\<close>

primrec copy_match :: "nat \<Rightarrow> nat \<Rightarrow> u8 list \<Rightarrow> u8 list" where
  "copy_match 0 dist out = out"
| "copy_match (Suc n) dist out = copy_match n dist (out @ [out ! (length out - dist)])"

fun expand_item :: "lz_item \<Rightarrow> u8 list \<Rightarrow> u8 list option" where
  "expand_item (Lit c) out = Some (out @ [c])"
| "expand_item (Match len dist) out =
    (if 1 \<le> dist \<and> dist \<le> length out then Some (copy_match len dist out) else None)"

primrec expand :: "lz_item list \<Rightarrow> u8 list \<Rightarrow> u8 list option" where
  "expand [] out = Some out"
| "expand (i # is) out = do { out \<leftarrow> expand_item i out; expand is out }"

lemma expand_append: "expand (a @ b) out = do { out \<leftarrow> expand a out; expand b out }"
  by (induction a arbitrary: out) (auto split: Option.bind_split)

text \<open>A match at a position of the input.\<close>

definition genuine :: "u8 list \<Rightarrow> nat \<Rightarrow> nat \<Rightarrow> nat \<Rightarrow> bool" where
  "genuine data p len dist \<longleftrightarrow> 3 \<le> len \<and> len \<le> 258 \<and> 1 \<le> dist \<and> dist \<le> 32768 \<and> dist \<le> p \<and>
     p + len \<le> length data \<and> (\<forall>k < len. data ! (p + k) = data ! (p - dist + k))"

lemma copy_match_run:
  assumes "1 \<le> dist" and "dist \<le> p" and "p + n \<le> length data" and "\<forall>k < n. data ! (p + k) = data ! (p - dist + k)"
  shows "copy_match n dist (take p data) = take (p + n) data"
  using assms
proof (induction n arbitrary: p)
  case (Suc n)
  have "data ! p = data ! (p - dist)" using Suc.prems(4) by (metis add_0_right zero_less_Suc)
  moreover have "p < length data" using Suc.prems(3) by simp
  ultimately have one: "take p data @ [take p data ! (length (take p data) - dist)] = take (Suc p) data"
    using Suc.prems(1,2) by (simp add: take_Suc_conv_app_nth)
  have "data ! (Suc p + k) = data ! (Suc p - dist + k)" if "k < n" for k
    using Suc.prems(2,4) that by (auto dest: spec [of _ "Suc k"] simp: Suc_diff_le)
  then show ?case using Suc.IH [of "Suc p"] Suc.prems one by simp
qed simp

lemma expand_genuine:
  assumes "expand items out = Some (take p data)" and "genuine data p len dist"
  shows "expand (items @ [Match len dist]) out = Some (take (p + len) data)"
  using assms copy_match_run [of dist p len data] by (simp add: expand_append genuine_def)

lemma expand_literal:
  assumes "expand items out = Some (take p data)" and "p < length data"
  shows "expand (items @ [Lit (data ! p)]) out = Some (take (Suc p) data)"
  using assms by (simp add: expand_append take_Suc_conv_app_nth)

lemma genuine_item: "genuine data p len dist \<Longrightarrow> item_ok (Match len dist)"
  by (simp add: genuine_def)

section \<open>The match at the current position\<close>

definition match_here :: "u8 list \<Rightarrow> nat \<Rightarrow> u32 \<times> u32 \<Rightarrow> bool" where
  "match_here data p r \<longleftrightarrow> genuine data p (unat (snd r)) (unat (fst r))"

lemma window_position:
  assumes "window P data d"
  shows "unat (m_lookahead_pos d AND TDEFL_LZ_DICT_SIZE_MASK) = P mod 32768"
    and "dist \<le> m_dict_size d \<Longrightarrow> unat (m_lookahead_pos d - dist) mod 32768 = (P - unat dist) mod 32768"
proof -
  have p: "m_lookahead_pos d = of_nat P" using assms by (simp add: window_def filling_def)
  then show "unat (m_lookahead_pos d AND TDEFL_LZ_DICT_SIZE_MASK) = P mod 32768" by (simp only: unat_of_nat_mod)
  assume "dist \<le> m_dict_size d"
  then have "unat dist \<le> P" using assms by (simp add: window_def filling_def word_le_nat_alt)
  then have "m_lookahead_pos d - dist = of_nat (P - unat dist)" unfolding p by simp
  then show "unat (m_lookahead_pos d - dist) mod 32768 = (P - unat dist) mod 32768"
    by (metis unat_dict_mask unat_of_nat_mod)
qed

lemma dict_match_here:
  assumes w: "window P data d" and m: "dict_match d (m_lookahead_pos d) (m_dict_size d) (m_lookahead_size d) r"
    and three: "3 \<le> snd r"
  shows "match_here data P r"
proof -
  obtain dist len where r: "r = (dist, len)" by (cases r)
  have D: "dist \<noteq> 0" "dist \<le> m_dict_size d" "len \<le> m_lookahead_size d"
    "\<forall>k < unat len. m_dict d ! (unat (m_lookahead_pos d) mod 32768 + k) =
      m_dict d ! (unat (m_lookahead_pos d - dist) mod 32768 + k)"
    using m by (simp_all add: r dict_match_def)
  have W: "unat (m_lookahead_size d) \<le> 258" "unat (m_dict_size d) \<le> P" "unat (m_dict_size d) \<le> 32768"
    "length data = P + unat (m_lookahead_size d)" using w by (simp_all add: window_def filling_def)
  have len: "unat len \<le> unat (m_lookahead_size d)" "unat dist \<le> unat (m_dict_size d)"
    using D(2,3) by (simp_all add: word_le_nat_alt)
  have pos: "unat (m_lookahead_pos d) mod 32768 = P mod 32768"
    using window_position(1) [OF w] by (simp add: unat_dict_mask)
  have "data ! (P + k) = data ! (P - unat dist + k)" if k: "k < unat len" for k
  proof -
    have "m_dict d ! (P mod 32768 + k) = data ! (P + k)"
      using k len(1) W by (intro window_reads [OF w]) simp_all
    moreover have "m_dict d ! ((P - unat dist) mod 32768 + k) = data ! (P - unat dist + k)"
      using k len W by (intro window_reads [OF w]) simp_all
    ultimately show ?thesis using D(4) k pos window_position(2) [OF w D(2)] by simp
  qed
  moreover have "1 \<le> unat dist" using D(1) by (simp add: Suc_le_eq unat_gt_0)
  moreover have "3 \<le> unat len" using three r by (simp add: word_le_nat_alt)
  ultimately show ?thesis using len W by (simp add: match_here_def genuine_def r)
qed

lemma rle_run_result:
  assumes "p + n \<le> length dict"
  shows "\<exists>k \<le> n. rle_run dict p c n = Some k \<and> (\<forall>i < k. dict ! (p + i) = c)"
  using assms
proof (induction n arbitrary: p)
  case (Suc n)
  show ?case
  proof (cases "dict ! p = c")
    case True
    obtain k where k: "k \<le> n" "rle_run dict (p + 1) c n = Some k" "\<forall>i < k. dict ! (p + 1 + i) = c"
      using Suc.IH [of "p + 1"] Suc.prems by auto
    have "dict ! (p + i) = c" if "i < k + 1" for i
      using that True k(3) by (cases i) auto
    then show ?thesis using k(1,2) True Suc.prems by (intro exI [of _ "k + 1"]) (simp add: read_at_some)
  next
    case False
    then show ?thesis using Suc.prems by (intro exI [of _ 0]) (simp add: read_at_some)
  qed
qed simp

lemma run_genuine:
  assumes "1 \<le> p" and "3 \<le> k" and "k \<le> 258" and "p + k \<le> length data" and "\<forall>i < k. data ! (p + i) = data ! (p - 1)"
  shows "genuine data p k 1"
proof -
  have "data ! (p + i) = data ! (p - 1 + i)" if "i < k" for i
  proof (cases i)
    case (Suc j)
    then have "data ! (p + j) = data ! (p - 1)" "p - 1 + i = p + j" using that assms(1,5) by auto
    then show ?thesis using that assms(5) by simp
  qed (use that assms(5) in \<open>metis add_0_right\<close>)
  then show ?thesis using assms by (simp add: genuine_def)
qed

lemma uint_dict_mask_pred: "uint ((x - 1) AND TDEFL_LZ_DICT_SIZE_MASK) = (uint x - 1) mod 32768"
  unfolding uint_dict_mask by (simp only: uint_word_ariths) (simp add: mod_mod_cancel)

lemma rle_match_here:
  assumes w: "window P data d" and one: "m_dict_size d \<noteq> 0"
  shows "\<exists>c run. read_at (m_dict d) (unat (((m_lookahead_pos d AND TDEFL_LZ_DICT_SIZE_MASK) - 1) AND TDEFL_LZ_DICT_SIZE_MASK)) = Some c \<and>
    rle_run (m_dict d) (unat (m_lookahead_pos d AND TDEFL_LZ_DICT_SIZE_MASK)) c (unat (m_lookahead_size d)) = Some run \<and>
    run \<le> 258 \<and> (3 \<le> run \<longrightarrow> match_here data P (1, of_nat run))"
proof -
  let ?pos = "m_lookahead_pos d AND TDEFL_LZ_DICT_SIZE_MASK"
  have W: "unat (m_lookahead_size d) \<le> 258" "unat (m_dict_size d) \<le> P" "lz_arrays d"
    "length data = P + unat (m_lookahead_size d)" using w by (simp_all add: window_def filling_def)
  have one': "1 \<le> unat (m_dict_size d)" using one by (simp add: Suc_le_eq unat_gt_0)
  then have P: "1 \<le> P" using W(2) by simp
  note pos = window_position(1) [OF w]
  have "unat ((?pos - 1) AND TDEFL_LZ_DICT_SIZE_MASK) = (P - 1) mod 32768"
  proof -
    have "int (unat ?pos) = int (P mod 32768)" unfolding pos ..
    then have u: "uint ?pos = int P mod 32768" by (simp add: of_nat_mod)
    have "uint ((?pos - 1) AND TDEFL_LZ_DICT_SIZE_MASK) = (uint ?pos - 1) mod 32768"
      by (rule uint_dict_mask_pred)
    also have "\<dots> = (int P - 1) mod 32768" unfolding u by (simp add: mod_diff_left_eq)
    also have "\<dots> = int ((P - 1) mod 32768)" using P by (simp add: of_nat_mod of_nat_diff)
    finally have "int (unat ((?pos - 1) AND TDEFL_LZ_DICT_SIZE_MASK)) = int ((P - 1) mod 32768)" by simp
    then show ?thesis by (simp only: of_nat_eq_iff)
  qed
  moreover have prev: "(P - 1) mod 32768 < length (m_dict d)"
    using W(3) pos_mod_bound by (simp add: lz_arrays_def less_trans [OF mod_less_divisor])
  ultimately have c: "read_at (m_dict d) (unat ((?pos - 1) AND TDEFL_LZ_DICT_SIZE_MASK)) = Some (m_dict d ! ((P - 1) mod 32768))"
    by (simp add: read_at_some)
  have "P mod 32768 < 32768" by simp
  then have "unat ?pos + unat (m_lookahead_size d) \<le> length (m_dict d)" unfolding pos using W(1,3) by (simp add: lz_arrays_def)
  from rle_run_result [OF this] obtain run where run: "run \<le> unat (m_lookahead_size d)"
    "rle_run (m_dict d) (unat ?pos) (m_dict d ! ((P - 1) mod 32768)) (unat (m_lookahead_size d)) = Some run"
    "\<forall>i < run. m_dict d ! (unat ?pos + i) = m_dict d ! ((P - 1) mod 32768)" by blast
  have "match_here data P (1, of_nat run)" if three: "3 \<le> run"
  proof -
    have "data ! (P + i) = data ! (P - 1)" if "i < run" for i
    proof -
      have "m_dict d ! (P mod 32768 + i) = data ! (P + i)"
        using that run(1) W by (intro window_reads [OF w]) simp_all
      moreover have "m_dict d ! ((P - 1) mod 32768 + 0) = data ! (P - 1 + 0)"
        using that run(1) P one' W by (intro window_reads [OF w]) simp_all
      ultimately show ?thesis using run(3) that pos by simp
    qed
    then have "genuine data P run 1" using run(1) W P three by (intro run_genuine) simp_all
    moreover have "unat (of_nat run :: u32) = run" using run(1) W(1) by (simp add: unsigned_of_nat take_bit_nat_eq_self)
    ultimately show ?thesis by (simp add: match_here_def)
  qed
  then show ?thesis using c run(1,2) W(1) by auto
qed

lemma current_match_result:
  assumes w: "window P data d" and s: "unat (m_saved_match_len d) \<le> 257"
    and three: "m_saved_match_len d = 0 \<or> 3 \<le> m_saved_match_len d"
  shows "\<exists>r. current_match flags d = Some r \<and>
    ((fst r = 0 \<and> (m_saved_match_len d \<noteq> 0 \<longrightarrow> snd r \<le> m_saved_match_len d)) \<or> match_here data P r)"
proof -
  let ?len = "if m_saved_match_len d \<noteq> 0 then m_saved_match_len d else TDEFL_MIN_MATCH_LEN - 1"
  let ?good = "\<lambda>r. (fst r = 0 \<and> (m_saved_match_len d \<noteq> 0 \<longrightarrow> snd r \<le> m_saved_match_len d)) \<or> match_here data P r"
  have W: "unat (m_lookahead_size d) \<le> 258" "lz_arrays d" using w by (simp_all add: window_def filling_def)
  have "\<exists>r. (if flags AND (TDEFL_RLE_MATCHES OR TDEFL_FORCE_ALL_RAW_BLOCKS) \<noteq> 0 then
           if m_dict_size d \<noteq> 0 \<and> flags AND TDEFL_FORCE_ALL_RAW_BLOCKS = 0 then do {
             c \<leftarrow> read_at (m_dict d) (unat (((m_lookahead_pos d AND TDEFL_LZ_DICT_SIZE_MASK) - 1) AND TDEFL_LZ_DICT_SIZE_MASK));
             run \<leftarrow> rle_run (m_dict d) (unat (m_lookahead_pos d AND TDEFL_LZ_DICT_SIZE_MASK)) c (unat (m_lookahead_size d));
             Some (if run < unat TDEFL_MIN_MATCH_LEN then (0, 0) else (1, of_nat run)) }
           else Some (0, ?len)
         else tdefl_find_match d (m_lookahead_pos d) (m_dict_size d) (m_lookahead_size d) (0, ?len)) = Some r \<and> ?good r"
    (is "\<exists>r. ?first = Some r \<and> ?good r")
  proof (cases "flags AND (TDEFL_RLE_MATCHES OR TDEFL_FORCE_ALL_RAW_BLOCKS) \<noteq> 0")
    case True
    show ?thesis
    proof (cases "m_dict_size d \<noteq> 0 \<and> flags AND TDEFL_FORCE_ALL_RAW_BLOCKS = 0")
      case rle: True
      then show ?thesis using True rle_match_here [OF w] by (auto simp: TDEFL_MIN_MATCH_LEN_def)
    qed (use True in auto)
  next
    case False
    have l: "1 \<le> unat (snd (0 :: u32, ?len))" "unat (snd (0 :: u32, ?len)) \<le> 257"
      using s by (auto simp: TDEFL_MIN_MATCH_LEN_def Suc_le_eq unat_gt_0)
    obtain r where r: "tdefl_find_match d (m_lookahead_pos d) (m_dict_size d) (m_lookahead_size d) (0, ?len) = Some r"
      "r = (0, ?len) \<or> (?len < snd r \<and> dict_match d (m_lookahead_pos d) (m_dict_size d) (m_lookahead_size d) r)"
      using tdefl_find_match_result [OF W(2) l W(1), of "m_lookahead_pos d" "m_dict_size d"] by auto
    have "?good r"
      using r(2)
    proof
      assume m: "?len < snd r \<and> dict_match d (m_lookahead_pos d) (m_dict_size d) (m_lookahead_size d) r"
      have "match_here data P r" if "3 \<le> snd r" using dict_match_here [OF w _ that] m by blast
      moreover have "3 \<le> snd r"
        using m three by (auto simp: TDEFL_MIN_MATCH_LEN_def word_less_nat_alt word_le_nat_alt split: if_splits)
      ultimately show "?good r" by blast
    qed simp
    then show ?thesis using False r(1) by auto
  qed
  then obtain r where r: "?first = Some r" "?good r" by blast
  then show ?thesis
    by (cases r) (simp add: current_match_def Let_def)
qed

section \<open>A step of the parser\<close>

text \<open>The items of the current block expand, after the output \<open>out\<close> of the blocks before it, to the
  input up to \<open>p\<close>.\<close>

definition stands_for :: "lz_item list \<Rightarrow> u8 list \<Rightarrow> u8 list \<Rightarrow> nat \<Rightarrow> tdefl_lz \<Rightarrow> bool" where
  "stands_for items out data p d \<longleftrightarrow> lz_ok items d \<and> expand items out = Some (take p data)"

text \<open>A match kept back starts one byte before the position.\<close>

definition pending :: "tdefl_lz \<Rightarrow> nat" where
  "pending d = (if m_saved_match_len d = 0 then 0 else 1)"

definition saved_ok :: "u8 list \<Rightarrow> nat \<Rightarrow> tdefl_lz \<Rightarrow> bool" where
  "saved_ok data P d \<longleftrightarrow> m_saved_match_len d \<noteq> 0 \<longrightarrow> 1 \<le> P \<and> P - 1 < length data \<and> ucast (m_saved_lit d) = data ! (P - 1) \<and>
     unat (m_saved_match_len d) < 128 \<and> genuine data (P - 1) (unat (m_saved_match_len d)) (unat (m_saved_match_dist d))"

definition same_window :: "tdefl_lz \<Rightarrow> tdefl_lz \<Rightarrow> bool" where
  "same_window d d' \<longleftrightarrow> m_max_probes d' = m_max_probes d \<and> m_lookahead_pos d' = m_lookahead_pos d \<and>
     m_lookahead_size d' = m_lookahead_size d \<and> m_dict_size d' = m_dict_size d \<and>
     m_dict d' = m_dict d \<and> m_next d' = m_next d \<and> m_hash d' = m_hash d \<and>
     (coder d')\<lparr>m_huff_count := m_huff_count (coder d)\<rparr> = coder d"

lemma same_parse_window: "same_parse d d' \<Longrightarrow> same_window d d'"
  by (simp add: same_parse_def same_window_def)

lemma same_window_trans: "same_window a b \<Longrightarrow> same_window b c \<Longrightarrow> same_window a c"
  by (simp add: same_window_def) (metis tdefl_compressor.surjective tdefl_compressor.update_convs(3))

lemma same_window_saved [simp]:
  "same_window d d" "same_window d (d\<lparr>m_saved_match_len := l\<rparr>)"
  "same_window d (d\<lparr>m_saved_match_dist := x, m_saved_match_len := l, m_saved_lit := c\<rparr>)"
  by (simp_all add: same_window_def)

lemma stands_for_saved [simp]:
  "stands_for items out data p (d\<lparr>m_saved_match_len := l\<rparr>) = stands_for items out data p d"
  "stands_for items out data p (d\<lparr>m_saved_match_dist := x, m_saved_match_len := l, m_saved_lit := c\<rparr>) =
    stands_for items out data p d"
  by (simp_all add: stands_for_def lz_ok_def lz_holds_def lz_counted_def)

lemma literal_step:
  assumes "stands_for items out data p d" and "p < length data" and "m_pLZ_code_buf d < TDEFL_LZ_CODE_BUF_SIZE"
  shows "\<exists>d'. tdefl_record_literal (data ! p) d = Some d' \<and> stands_for (items @ [Lit (data ! p)]) out data (Suc p) d' \<and>
    same_parse d d' \<and> m_pLZ_code_buf d' \<le> m_pLZ_code_buf d + 2"
  using tdefl_record_literal_ok [of items d "data ! p"] expand_literal [of items out p data] assms
  by (auto simp: stands_for_def)

lemma match_step:
  assumes "stands_for items out data p d" and "genuine data p (unat len) (unat dist)"
    and "m_pLZ_code_buf d + 3 \<le> TDEFL_LZ_CODE_BUF_SIZE"
  shows "\<exists>d'. tdefl_record_match len dist d = Some d' \<and>
    stands_for (items @ [Match (unat len) (unat dist)]) out data (p + unat len) d' \<and>
    same_parse d d' \<and> m_pLZ_code_buf d' \<le> m_pLZ_code_buf d + 4"
  using tdefl_record_match_ok [OF _ genuine_item [OF assms(2)] assms(3), of items] expand_genuine [OF _ assms(2)] assms(1)
  by (auto simp: stands_for_def simp del: item_ok.simps)

text \<open>What a choice of the parser achieves.\<close>

definition step_done :: "lz_item list \<Rightarrow> u8 list \<Rightarrow> u8 list \<Rightarrow> nat \<Rightarrow> tdefl_lz \<Rightarrow> u32 \<Rightarrow> tdefl_lz \<Rightarrow> bool" where
  "step_done items out data P d n d' \<longleftrightarrow> 1 \<le> unat n \<and> P + unat n \<le> length data \<and> same_window d d' \<and>
     saved_ok data (P + unat n) d' \<and> m_pLZ_code_buf d' \<le> m_pLZ_code_buf d + 6 \<and>
     (\<exists>new. stands_for (items @ new) out data (P + unat n - pending d') d')"

lemma ucast_u8_u32 [simp]: "ucast (ucast c :: u32) = (c :: u8)"
  by (rule bit_word_eqI) (auto simp: bit_simps)

lemma current_byte:
  assumes "window P data d" and "P < length data"
  shows "read_at (m_dict d) (unat (m_lookahead_pos d AND TDEFL_LZ_DICT_SIZE_MASK)) = Some (data ! P)"
    and "min (unat (m_lookahead_pos d AND TDEFL_LZ_DICT_SIZE_MASK)) 33024 = unat (m_lookahead_pos d AND TDEFL_LZ_DICT_SIZE_MASK)"
proof -
  show "read_at (m_dict d) (unat (m_lookahead_pos d AND TDEFL_LZ_DICT_SIZE_MASK)) = Some (data ! P)"
    using window_reads [OF assms(1), of P 0] assms(2) window_position(1) [OF assms(1)] by (simp add: read_at_some)
  have "P mod 32768 < 32768" by simp
  then show "min (unat (m_lookahead_pos d AND TDEFL_LZ_DICT_SIZE_MASK)) 33024 = unat (m_lookahead_pos d AND TDEFL_LZ_DICT_SIZE_MASK)"
    using window_position(1) [OF assms(1)] by linarith
qed

lemma parse_match_saved:
  assumes w: "window P data d" and s: "saved_ok data P d" and st: "stands_for items out data (P - 1) d"
    and some: "m_saved_match_len d \<noteq> 0" and la: "P < length data" and room: "m_pLZ_code_buf d + 8 \<le> TDEFL_LZ_CODE_BUF_SIZE"
    and cur: "(dist = 0 \<and> len \<le> m_saved_match_len d) \<or> match_here data P (dist, len)"
  shows "\<exists>n d'. parse_match flags greedy (dist, len) d = Some (n, d') \<and> step_done items out data P d n d'"
proof -
  have S: "1 \<le> P" "P - 1 < length data" "ucast (m_saved_lit d) = data ! (P - 1)" "unat (m_saved_match_len d) < 128"
    "genuine data (P - 1) (unat (m_saved_match_len d)) (unat (m_saved_match_dist d))"
    using s some by (simp_all add: saved_ok_def)
  show ?thesis
  proof (cases "m_saved_match_len d < len")
    case True
    then have m: "genuine data P (unat len) (unat dist)" using cur by (auto simp: match_here_def)
    obtain d1 where d1: "tdefl_record_literal (data ! (P - 1)) d = Some d1"
      "stands_for (items @ [Lit (data ! (P - 1))]) out data P d1" "same_parse d d1" "m_pLZ_code_buf d1 \<le> m_pLZ_code_buf d + 2"
      using literal_step [OF st S(2)] room S(1) by auto
    show ?thesis
    proof (cases "128 \<le> len")
      case long: True
      obtain d2 where d2: "tdefl_record_match len dist d1 = Some d2"
        "stands_for ((items @ [Lit (data ! (P - 1))]) @ [Match (unat len) (unat dist)]) out data (P + unat len) d2"
        "same_parse d1 d2" "m_pLZ_code_buf d2 \<le> m_pLZ_code_buf d1 + 4"
        using match_step [OF d1(2) m] d1(4) room by auto
      have "same_window d (d2\<lparr>m_saved_match_len := 0\<rparr>)"
        using same_parse_trans [OF d1(3) d2(3)] by (simp add: same_parse_def same_window_def)
      moreover have "parse_match flags greedy (dist, len) d = Some (len, d2\<lparr>m_saved_match_len := 0\<rparr>)"
        using d1(1) d2(1) True long some S(3) by (simp add: parse_match_def)
      ultimately show ?thesis
        using d1(4) d2(2,4) m by (force simp: step_done_def saved_ok_def pending_def genuine_def)
    next
      case False
      have c: "read_at (m_dict d1) (unat (m_lookahead_pos d AND TDEFL_LZ_DICT_SIZE_MASK)) = Some (data ! P)"
        using current_byte(1) [OF w la] d1(3) by (simp add: same_parse_def)
      let ?d = "d1\<lparr>m_saved_match_dist := dist, m_saved_match_len := len, m_saved_lit := ucast (data ! P)\<rparr>"
      have "same_window d ?d" using d1(3) by (simp add: same_parse_def same_window_def)
      moreover have "parse_match flags greedy (dist, len) d = Some (1, ?d)"
        using d1(1) c True False some S(3) by (simp add: parse_match_def)
      moreover have "saved_ok data (P + 1) ?d" using m la False by (auto simp: saved_ok_def word_le_nat_alt)
      moreover have "pending ?d = 1" using m by (auto simp: pending_def genuine_def)
      ultimately show ?thesis
        using d1(2,4) la by (force simp: step_done_def)
    qed
  next
    case False
    let ?l = "m_saved_match_len d"
    obtain d1 where d1: "tdefl_record_match ?l (m_saved_match_dist d) d = Some d1"
      "stands_for (items @ [Match (unat ?l) (unat (m_saved_match_dist d))]) out data (P - 1 + unat ?l) d1"
      "same_parse d d1" "m_pLZ_code_buf d1 \<le> m_pLZ_code_buf d + 4"
      using match_step [OF st S(5)] room by auto
    have l: "unat (?l - 1) = unat ?l - 1" using some by (rule unat_minus_one)
    have three: "3 \<le> unat ?l" "P - 1 + unat ?l \<le> length data" using S(5) by (simp_all add: genuine_def)
    have "parse_match flags greedy (dist, len) d = Some (?l - 1, d1\<lparr>m_saved_match_len := 0\<rparr>)"
      using d1(1,3) False some by (simp add: parse_match_def same_parse_def)
    moreover have "same_window d (d1\<lparr>m_saved_match_len := 0\<rparr>)"
      using d1(3) by (simp add: same_parse_def same_window_def)
    moreover have "P + (unat ?l - 1) = P - 1 + unat ?l" using three S(1) by simp
    then have "stands_for (items @ [Match (unat ?l) (unat (m_saved_match_dist d))]) out data
        (P + unat (?l - 1) - pending (d1\<lparr>m_saved_match_len := 0\<rparr>)) (d1\<lparr>m_saved_match_len := 0\<rparr>)"
      unfolding l using d1(2) by (simp add: pending_def)
    ultimately show ?thesis
      unfolding step_done_def using d1(4) three l S(1) by (auto simp: saved_ok_def)
  qed
qed

lemma parse_match_fresh:
  assumes w: "window P data d" and st: "stands_for items out data P d"
    and none: "m_saved_match_len d = 0" and la: "P < length data" and room: "m_pLZ_code_buf d + 8 \<le> TDEFL_LZ_CODE_BUF_SIZE"
    and cur: "dist = 0 \<or> match_here data P (dist, len)"
  shows "\<exists>n d'. parse_match flags greedy (dist, len) d = Some (n, d') \<and> step_done items out data P d n d'"
proof -
  note c = current_byte [OF w la]
  show ?thesis
  proof (cases "dist = 0")
    case True
    obtain d1 where d1: "tdefl_record_literal (data ! P) d = Some d1"
      "stands_for (items @ [Lit (data ! P)]) out data (Suc P) d1" "same_parse d d1" "m_pLZ_code_buf d1 \<le> m_pLZ_code_buf d + 2"
      using literal_step [OF st la] room by auto
    have "parse_match flags greedy (dist, len) d = Some (1, d1)"
      unfolding parse_match_def using d1(1) True none by (simp add: c)
    moreover have "m_saved_match_len d1 = 0" using d1(3) none by (simp add: same_parse_def)
    ultimately show ?thesis
      using d1(2,4) la same_parse_window [OF d1(3)] by (force simp: step_done_def saved_ok_def pending_def)
  next
    case False
    then have m: "genuine data P (unat len) (unat dist)" using cur by (auto simp: match_here_def)
    show ?thesis
    proof (cases "greedy \<or> flags AND TDEFL_RLE_MATCHES \<noteq> 0 \<or> 128 \<le> len")
      case True
      obtain d1 where d1: "tdefl_record_match len dist d = Some d1"
        "stands_for (items @ [Match (unat len) (unat dist)]) out data (P + unat len) d1"
        "same_parse d d1" "m_pLZ_code_buf d1 \<le> m_pLZ_code_buf d + 4"
        using match_step [OF st m] room by auto
      have "parse_match flags greedy (dist, len) d = Some (len, d1)"
        using d1(1) True False none by (simp add: parse_match_def)
      moreover have "m_saved_match_len d1 = 0" using d1(3) none by (simp add: same_parse_def)
      ultimately show ?thesis
        using d1(2,4) m same_parse_window [OF d1(3)] by (force simp: step_done_def saved_ok_def pending_def genuine_def)
    next
      case later: False
      let ?d = "d\<lparr>m_saved_match_dist := dist, m_saved_match_len := len, m_saved_lit := ucast (data ! P)\<rparr>"
      have "parse_match flags greedy (dist, len) d = Some (1, ?d)"
        unfolding parse_match_def using later False none by (simp add: c)
      moreover have "saved_ok data (P + 1) ?d" using m la later by (auto simp: saved_ok_def word_le_nat_alt)
      moreover have "pending ?d = 1" using m by (auto simp: pending_def genuine_def)
      moreover have "stands_for (items @ []) out data P ?d" using st by simp
      then have "\<exists>new. stands_for (items @ new) out data P ?d" by blast
      ultimately have "step_done items out data P d 1 ?d" using la by (simp add: step_done_def)
      then show ?thesis using \<open>parse_match flags greedy (dist, len) d = Some (1, ?d)\<close> by blast
    qed
  qed
qed

text \<open>The step keeps the window, and the items go on standing for the input.\<close>

definition parsed :: "lz_item list \<Rightarrow> u8 list \<Rightarrow> u8 list \<Rightarrow> nat \<Rightarrow> tdefl_lz \<Rightarrow> bool" where
  "parsed items out data P d \<longleftrightarrow> window P data d \<and> saved_ok data P d \<and> stands_for items out data (P - pending d) d"

lemma move_lookahead_result:
  assumes w: "window P data d" and w': "same_window d d1" and n: "P + unat n \<le> length data"
  shows "\<exists>d'. move_lookahead n d1 = d' \<and> window (P + unat n) data d' \<and> same_codes d' (d1\<lparr>m_lookahead_pos := of_nat (P + unat n)\<rparr>)"
proof -
  let ?ds = "min (m_dict_size d1 + n) TDEFL_LZ_DICT_SIZE"
  let ?d = "d1\<lparr>m_lookahead_pos := m_lookahead_pos d1 + n, m_lookahead_size := m_lookahead_size d1 - n, m_dict_size := ?ds\<rparr>"
  have W: "lz_arrays d" "m_lookahead_pos d1 = of_nat P" "length data = P + unat (m_lookahead_size d1)"
    "unat (m_lookahead_size d1) \<le> 258" "unat (m_dict_size d1) \<le> P"
    "unat (m_dict_size d1) + unat (m_lookahead_size d1) \<le> 32768" "dict_holds (P - unat (m_dict_size d1)) data d"
    using w w' by (simp_all add: window_def filling_def same_window_def)
  have le: "n \<le> m_lookahead_size d1" using n W(3) by (simp add: word_le_nat_alt)
  then have s: "unat (m_lookahead_size d1 - n) = unat (m_lookahead_size d1) - unat n" by (simp add: unat_sub)
  have "unat (m_dict_size d1 + n) = unat (m_dict_size d1) + unat n"
    using n W(3,6) by (subst unat_add_lem [THEN iffD1]) simp_all
  then have ds: "unat ?ds = unat (m_dict_size d1) + unat n"
    using n W(3,6) by (simp add: min_def word_le_nat_alt TDEFL_LZ_DICT_SIZE_def)
  have "dict_holds (P + unat n - unat ?ds) data ?d"
    using W(7) w' ds by (simp add: dict_holds_def same_window_def)
  moreover have "lz_arrays ?d" using W(1) w' by (simp add: lz_arrays_def same_window_def)
  ultimately have "window (P + unat n) data ?d"
    using W n s ds by (simp add: window_def filling_def)
  moreover have "move_lookahead n d1 = ?d" by (simp add: move_lookahead_def Let_def)
  moreover have "same_codes ?d (d1\<lparr>m_lookahead_pos := of_nat (P + unat n)\<rparr>)"
    using W(2) by (simp add: same_codes_def)
  ultimately show ?thesis by blast
qed

lemma same_codes_facts:
  assumes "same_codes d d'"
  shows "lz_ok items d' = lz_ok items d" and "pending d' = pending d" and "saved_ok data P d' = saved_ok data P d"
    and "stands_for items out data p d' = stands_for items out data p d"
    and "m_pLZ_code_buf d' = m_pLZ_code_buf d" and "coder d' = coder d"
  using assms by (simp_all add: same_codes_def stands_for_def lz_ok_def lz_holds_def lz_counted_def pending_def saved_ok_def)

lemma parse_step_result:
  assumes p: "parsed items out data P d" and la: "m_lookahead_size d \<noteq> 0" and room: "m_pLZ_code_buf d + 8 \<le> TDEFL_LZ_CODE_BUF_SIZE"
  shows "\<exists>n d' new. parse_step flags greedy d = Some d' \<and> 1 \<le> n \<and> P + n \<le> length data \<and> parsed (items @ new) out data (P + n) d' \<and>
    m_pLZ_code_buf d' \<le> m_pLZ_code_buf d + 6 \<and> (coder d')\<lparr>m_huff_count := m_huff_count (coder d)\<rparr> = coder d"
proof -
  have W: "window P data d" "saved_ok data P d" "stands_for items out data (P - pending d) d"
    using p by (simp_all add: parsed_def)
  have lt: "P < length data" using W(1) la by (simp add: window_def filling_def unat_gt_0)
  have s: "unat (m_saved_match_len d) \<le> 257" "m_saved_match_len d = 0 \<or> 3 \<le> m_saved_match_len d"
    using W(2) by (auto simp: saved_ok_def genuine_def word_le_nat_alt)
  obtain dist len where cur: "current_match flags d = Some (dist, len)"
    "(dist = 0 \<and> (m_saved_match_len d \<noteq> 0 \<longrightarrow> len \<le> m_saved_match_len d)) \<or> match_here data P (dist, len)"
    using current_match_result [OF W(1) s, of flags] by auto
  have "\<exists>n d1. parse_match flags greedy (dist, len) d = Some (n, d1) \<and> step_done items out data P d n d1"
  proof (cases "m_saved_match_len d = 0")
    case True
    then show ?thesis using W(3) cur(2) by (intro parse_match_fresh [OF W(1) _ True lt room]) (auto simp: pending_def)
  next
    case False
    then show ?thesis using W(3) cur(2) by (intro parse_match_saved [OF W(1,2) _ False lt room]) (auto simp: pending_def)
  qed
  then obtain n d1 where d1: "parse_match flags greedy (dist, len) d = Some (n, d1)" "step_done items out data P d n d1"
    by blast
  obtain new where S: "1 \<le> unat n" "P + unat n \<le> length data" "same_window d d1" "saved_ok data (P + unat n) d1"
    "m_pLZ_code_buf d1 \<le> m_pLZ_code_buf d + 6" "stands_for (items @ new) out data (P + unat n - pending d1) d1"
    using d1(2) by (auto simp: step_done_def)
  obtain d2 where d2: "move_lookahead n d1 = d2" "window (P + unat n) data d2"
    "same_codes d2 (d1\<lparr>m_lookahead_pos := of_nat (P + unat n)\<rparr>)"
    using move_lookahead_result [OF W(1) S(3,2)] by blast
  have f: "pending (d1\<lparr>m_lookahead_pos := x\<rparr>) = pending d1" "saved_ok data Q (d1\<lparr>m_lookahead_pos := x\<rparr>) = saved_ok data Q d1"
    "stands_for is out data q (d1\<lparr>m_lookahead_pos := x\<rparr>) = stands_for is out data q d1" for x Q q "is"
    by (simp_all add: pending_def saved_ok_def stands_for_def lz_ok_def lz_holds_def lz_counted_def)
  note F = same_codes_facts [OF d2(3)]
  have "parsed (items @ new) out data (P + unat n) d2"
    using d2(2) S(4,6) by (simp add: parsed_def f F(2-4) [symmetric])
  moreover have "parse_step flags greedy d = Some d2" using cur(1) d1(1) d2(1) by (simp add: parse_step_def)
  moreover have "m_pLZ_code_buf d2 \<le> m_pLZ_code_buf d + 6" "(coder d2)\<lparr>m_huff_count := m_huff_count (coder d)\<rparr> = coder d"
    using S(3,5) F(5,6) by (simp_all add: same_window_def)
  ultimately show ?thesis using S(1,2) by blast
qed

end
