(* ===== verification/Mz_Checksum.thy ===== *)
theory Mz_Checksum
  imports Prelude
begin

unbundle bit_operations_syntax

text \<open>
  The checksums of \<open>proj/sparc-prog/miniz.c\<close>.  A buffer with its length is a list of bytes, a
  null pointer \<open>None\<close>; \<open>mz_ulong\<close> has 32 bits on the processor.  \<open>mz_adler32\<close> works in blocks of
  5552 bytes, eight bytes per round, and reduces its sums once per block; \<open>mz_crc32\<close> looks up
  four bits at a time.  The lemmas show that they compute the checksums as they are defined:
  the sums reduced at every byte, and division by the polynomial bit by bit.
\<close>

section \<open>The code\<close>

definition MZ_ADLER32_INIT :: u32 where "MZ_ADLER32_INIT = 1"
definition MZ_CRC32_INIT :: u32 where "MZ_CRC32_INIT = 0"

text \<open>\<open>s1 += *ptr, s2 += s1\<close>.\<close>

definition adler_add :: "u8 \<Rightarrow> u32 \<times> u32 \<Rightarrow> u32 \<times> u32" where
  "adler_add b = (\<lambda>(s1, s2). let s1 = s1 + ucast b in (s1, s2 + s1))"

text \<open>The two inner loops.  \<open>i\<close> and \<open>block_len\<close> are at most 5552.\<close>

function adler_by_8 :: "nat \<Rightarrow> nat \<Rightarrow> u8 list \<Rightarrow> u32 \<times> u32 \<Rightarrow> nat \<times> u8 list \<times> u32 \<times> u32" where
  "adler_by_8 block_len i ptr s =
    (if i + 7 < block_len then
       let s = adler_add (ptr ! 0) s; s = adler_add (ptr ! 1) s;
           s = adler_add (ptr ! 2) s; s = adler_add (ptr ! 3) s;
           s = adler_add (ptr ! 4) s; s = adler_add (ptr ! 5) s;
           s = adler_add (ptr ! 6) s; s = adler_add (ptr ! 7) s
       in adler_by_8 block_len (i + 8) (drop 8 ptr) s
     else (i, ptr, s))"
  by pat_completeness auto
termination by (relation "measure (\<lambda>(block_len, i, ptr, s). block_len - i)") auto

function adler_by_1 :: "nat \<Rightarrow> nat \<Rightarrow> u8 list \<Rightarrow> u32 \<times> u32 \<Rightarrow> u8 list \<times> u32 \<times> u32" where
  "adler_by_1 block_len i ptr s =
    (if i < block_len then adler_by_1 block_len (i + 1) (drop 1 ptr) (adler_add (ptr ! 0) s)
     else (ptr, s))"
  by pat_completeness auto
termination by (relation "measure (\<lambda>(block_len, i, ptr, s). block_len - i)") auto

text \<open>The loop over the blocks; the first one has length \<open>buf_len % 5552\<close>, possibly 0.\<close>

function adler_blocks :: "nat \<Rightarrow> nat \<Rightarrow> u8 list \<Rightarrow> u32 \<times> u32 \<Rightarrow> u32 \<times> u32" where
  "adler_blocks buf_len block_len ptr s =
    (if buf_len \<noteq> 0 then
       let (i, ptr, s) = adler_by_8 block_len 0 ptr s;
           (ptr, s1, s2) = adler_by_1 block_len i ptr s;
           s1 = s1 mod 65521; s2 = s2 mod 65521
       in adler_blocks (buf_len - block_len) 5552 ptr (s1, s2)
     else s)"
  by pat_completeness auto
termination
  by (relation "measures [\<lambda>(buf_len, block_len, ptr, s). buf_len,
        \<lambda>(buf_len, block_len, ptr, s). if block_len = 0 then 1 else 0]") auto

declare adler_by_8.simps [simp del] adler_by_1.simps [simp del] adler_blocks.simps [simp del]

definition mz_adler32 :: "u32 \<Rightarrow> u8 list option \<Rightarrow> u32" where
  "mz_adler32 adler ptr = (case ptr of None \<Rightarrow> MZ_ADLER32_INIT
   | Some bytes \<Rightarrow>
       let (s1, s2) = adler_blocks (length bytes) (length bytes mod 5552) bytes
             (adler AND 0xffff, drop_bit 16 adler)
       in push_bit 16 s2 + s1)"

definition s_crc32 :: "u32 list" where
  "s_crc32 = [0, 0x1db71064, 0x3b6e20c8, 0x26d930ac, 0x76dc4190, 0x6b6b51f4, 0x4db26158, 0x5005713c,
    0xedb88320, 0xf00f9344, 0xd6d6a3e8, 0xcb61b38c, 0x9b64c2b0, 0x86d3d2d4, 0xa00ae278, 0xbdbdf21c]"

definition crc_round :: "u8 \<Rightarrow> u32 \<Rightarrow> u32" where
  "crc_round b crcu32 = (
     let crcu32 = drop_bit 4 crcu32 XOR s_crc32 ! unat ((crcu32 AND 0xF) XOR (ucast b AND 0xF))
     in drop_bit 4 crcu32 XOR s_crc32 ! unat ((crcu32 AND 0xF) XOR drop_bit 4 (ucast b)))"

definition mz_crc32 :: "u32 \<Rightarrow> u8 list option \<Rightarrow> u32" where
  "mz_crc32 crc ptr = (case ptr of None \<Rightarrow> MZ_CRC32_INIT
   | Some bytes \<Rightarrow> NOT (fold crc_round bytes (NOT crc)))"

section \<open>Adler-32\<close>

text \<open>The definition: two sums modulo 65521, reduced at every byte.\<close>

definition adler_step :: "u8 \<Rightarrow> nat \<times> nat \<Rightarrow> nat \<times> nat" where
  "adler_step b = (\<lambda>(a, c). ((a + unat b) mod 65521, (c + (a + unat b)) mod 65521))"

text \<open>The same without reducing, and the loops as folds over the block.\<close>

definition adler_sum :: "u8 \<Rightarrow> nat \<times> nat \<Rightarrow> nat \<times> nat" where
  "adler_sum b = (\<lambda>(a, c). (a + unat b, c + (a + unat b)))"

lemma adler_by_1_fold:
  assumes "block_len - i \<le> length ptr"
  shows "adler_by_1 block_len i ptr s =
    (drop (block_len - i) ptr, fold adler_add (take (block_len - i) ptr) s)"
  using assms
proof (induction block_len i ptr s rule: adler_by_1.induct)
  case (1 block_len i ptr s)
  show ?case
  proof (cases "i < block_len")
    case True
    obtain b bs where p: "ptr = b # bs" using "1.prems" True by (cases ptr) auto
    have n: "block_len - i = Suc (block_len - (i + 1))" using True by simp
    show ?thesis using "1.IH" True "1.prems" by (subst adler_by_1.simps) (simp add: p n)
  next
    case False
    then show ?thesis by (subst adler_by_1.simps) simp
  qed
qed

lemma take_8:
  assumes "8 \<le> length ptr"
  shows "take 8 ptr = [ptr ! 0, ptr ! 1, ptr ! 2, ptr ! 3, ptr ! 4, ptr ! 5, ptr ! 6, ptr ! 7]"
  using assms by (intro nth_equalityI) (auto simp: less_Suc_eq numeral_eq_Suc)

lemma adler_by_8_fold:
  assumes "block_len - i \<le> length ptr" and "i \<le> block_len"
  shows "\<exists>j. i \<le> j \<and> j \<le> block_len \<and>
    adler_by_8 block_len i ptr s = (j, drop (j - i) ptr, fold adler_add (take (j - i) ptr) s)"
  using assms
proof (induction block_len i ptr s rule: adler_by_8.induct)
  case (1 block_len i ptr s)
  show ?case
  proof (cases "i + 7 < block_len")
    case True
    let ?s = "fold adler_add (take 8 ptr) s"
    have l: "8 \<le> length ptr" using "1.prems" True by simp
    have step: "adler_by_8 block_len i ptr s = adler_by_8 block_len (i + 8) (drop 8 ptr) ?s"
      unfolding take_8 [OF l] using True by (subst adler_by_8.simps) (simp add: Let_def)
    have "\<exists>j \<ge> i + 8. j \<le> block_len \<and> adler_by_8 block_len (i + 8) (drop 8 ptr) ?s =
        (j, drop (j - (i + 8)) (drop 8 ptr), fold adler_add (take (j - (i + 8)) (drop 8 ptr)) ?s)"
      using "1.IH" [OF True refl refl refl refl refl refl refl refl] True "1.prems"
      unfolding take_8 [OF l] by auto
    then obtain j where j: "i + 8 \<le> j" "j \<le> block_len" "adler_by_8 block_len (i + 8) (drop 8 ptr) ?s =
        (j, drop (j - (i + 8)) (drop 8 ptr), fold adler_add (take (j - (i + 8)) (drop 8 ptr)) ?s)"
      by blast
    have "j - i = 8 + (j - (i + 8))" using j(1) by simp
    then have "take (j - i) ptr = take 8 ptr @ take (j - (i + 8)) (drop 8 ptr)"
      "drop (j - i) ptr = drop (j - (i + 8)) (drop 8 ptr)"
      by (simp_all only: take_add drop_drop add.commute)
    then show ?thesis using j step by (intro exI [of _ j]) simp
  next
    case False
    then show ?thesis using "1.prems" by (subst adler_by_8.simps) auto
  qed
qed

text \<open>A block as a whole.\<close>

lemma adler_block:
  assumes "buf_len \<noteq> 0" and "block_len \<le> length ptr"
  shows "adler_blocks buf_len block_len ptr s =
    (let (s1, s2) = fold adler_add (take block_len ptr) s
     in adler_blocks (buf_len - block_len) 5552 (drop block_len ptr) (s1 mod 65521, s2 mod 65521))"
proof -
  obtain j where j: "j \<le> block_len"
    "adler_by_8 block_len 0 ptr s = (j, drop j ptr, fold adler_add (take j ptr) s)"
    using adler_by_8_fold [of block_len 0 ptr s] assms(2) by auto
  have "take block_len ptr = take j ptr @ take (block_len - j) (drop j ptr)"
    using j(1) take_add [of j "block_len - j" ptr] by simp
  then show ?thesis
    using assms j adler_by_1_fold [of block_len j "drop j ptr"]
    by (subst adler_blocks.simps) (simp add: Let_def case_prod_unfold)
qed

text \<open>Within a block of at most 5552 bytes no sum reaches 2^32.\<close>

lemma adler_sum_bound:
  "case fold adler_sum bs (a, c) of (a', c') \<Rightarrow>
     a' \<le> a + 255 * length bs \<and> 2 * c' \<le> 2 * c + 2 * length bs * a + 255 * length bs * (length bs + 1)"
proof (induction bs rule: rev_induct)
  case Nil
  then show ?case by simp
next
  case (snoc b bs)
  obtain a' c' where f: "fold adler_sum bs (a, c) = (a', c')" by (cases "fold adler_sum bs (a, c)")
  have b: "unat b \<le> 255" using unsigned_less [of b, where 'a = nat] by simp
  have "2 * (c' + (a' + unat b)) \<le> 2 * c + 2 * length bs * a + 255 * length bs * (length bs + 1) +
      2 * (a + 255 * length bs + 255)"
    using snoc.IH b by (simp add: f)
  also have "\<dots> = 2 * c + 2 * Suc (length bs) * a + 255 * Suc (length bs) * (Suc (length bs) + 1)"
    by (simp add: algebra_simps)
  finally show ?case using snoc.IH b by (simp add: f) (simp add: adler_sum_def)
qed

definition unat_pair :: "u32 \<times> u32 \<Rightarrow> nat \<times> nat" where
  "unat_pair = (\<lambda>(a, c). (unat a, unat c))"

lemma unat_ucast_u8 [simp]: "unat (ucast (b :: u8) :: u32) = unat b"
proof -
  have "unat b < 256" using unsigned_less [of b, where 'a = nat] by simp
  then show ?thesis by (simp add: unsigned_ucast_eq take_bit_nat_eq_self)
qed

lemma adler_add_unat:
  assumes "unat c + unat a + unat b < 4294967296"
  shows "unat_pair (adler_add b (a, c)) = adler_sum b (unat a, unat c)"
  using assms by (simp add: unat_pair_def adler_add_def adler_sum_def Let_def unat_word_ariths)

lemma adler_fold_unat:
  assumes "length bs \<le> 5552" and "unat a \<le> 65535" and "unat c \<le> 65535"
  shows "unat_pair (fold adler_add bs (a, c)) = fold adler_sum bs (unat a, unat c)"
  using assms(1)
proof (induction bs rule: rev_induct)
  case Nil
  then show ?case by (simp add: unat_pair_def)
next
  case (snoc b bs)
  obtain a' c' where f: "fold adler_add bs (a, c) = (a', c')" by (cases "fold adler_add bs (a, c)")
  have g: "fold adler_sum bs (unat a, unat c) = (unat a', unat c')"
    using snoc by (simp add: f unat_pair_def)
  have h: "2 * (unat c' + (unat a' + unat b)) \<le>
      2 * unat c + 2 * length (bs @ [b]) * unat a + 255 * length (bs @ [b]) * (length (bs @ [b]) + 1)"
    using adler_sum_bound [where bs = "bs @ [b]" and a = "unat a" and c = "unat c"] g
    by (simp add: adler_sum_def)
  define u where "u = 2 * length (bs @ [b]) * unat a"
  define v where "v = 255 * length (bs @ [b]) * (length (bs @ [b]) + 1)"
  have "u \<le> 2 * 5552 * 65535"
    unfolding u_def using snoc.prems assms(2) by (intro mult_le_mono) simp_all
  moreover have "v \<le> 255 * 5552 * 5553"
    unfolding v_def using snoc.prems by (intro mult_le_mono) simp_all
  moreover have "2 * (unat c' + (unat a' + unat b)) \<le> 2 * unat c + u + v"
    using h by (simp only: u_def v_def)
  ultimately have "unat c' + unat a' + unat b < 4294967296"
    using assms(3) by simp
  then show ?case using adler_add_unat [of c' a' b] g by (simp add: f)
qed

text \<open>Reducing at the end of a block is reducing at every byte.\<close>

definition mod_pair :: "nat \<times> nat \<Rightarrow> nat \<times> nat" where
  "mod_pair = (\<lambda>(a, c). (a mod 65521, c mod 65521))"

lemma mod_inner: "(c + (a mod m + b)) mod m = (c + (a + b)) mod (m :: nat)"
  using mod_add_left_eq [of a m "b + c"] by (simp add: ac_simps)

lemma adler_step_sum: "adler_step b (mod_pair s) = mod_pair (adler_sum b s)"
  by (cases s) (simp add: adler_step_def adler_sum_def mod_pair_def mod_simps mod_inner)

lemma adler_step_fold: "fold adler_step bs (mod_pair s) = mod_pair (fold adler_sum bs s)"
  by (induction bs arbitrary: s) (simp_all add: adler_step_sum)

lemma adler_step_mod: "adler_step b s = adler_step b (mod_pair s)"
  by (cases s) (simp add: adler_step_def mod_pair_def mod_simps mod_inner)

lemma adler_fold_mod:
  assumes "bs \<noteq> []"
  shows "fold adler_step bs s = mod_pair (fold adler_sum bs s)"
  using assms adler_step_fold [of bs s] adler_step_mod [of "hd bs" s] by (cases bs) simp_all

lemma unat_pair_mod: "unat_pair (case s of (a, c) \<Rightarrow> (a mod 65521, c mod 65521)) = mod_pair (unat_pair s)"
  by (cases s) (simp add: unat_pair_def mod_pair_def unat_mod)

text \<open>One block, then the rest in blocks of 5552.\<close>

lemma adler_block_unat:
  assumes "block_len \<le> length ptr" and "block_len \<le> 5552"
    and "unat a \<le> 65535" and "unat c \<le> 65535" and "ptr \<noteq> []"
  obtains a' c' where
    "adler_blocks (length ptr) block_len ptr (a, c) =
      adler_blocks (length (drop block_len ptr)) 5552 (drop block_len ptr) (a', c')"
    "(unat a', unat c') = mod_pair (fold adler_sum (take block_len ptr) (unat a, unat c))"
    "unat a' \<le> 65535" "unat c' \<le> 65535"
proof -
  let ?f = "fold adler_add (take block_len ptr) (a, c)"
  obtain s1 s2 where f: "?f = (s1, s2)" by (cases ?f)
  have "unat_pair (s1, s2) = fold adler_sum (take block_len ptr) (unat a, unat c)"
    unfolding f [symmetric] using assms by (intro adler_fold_unat) simp_all
  then have "(unat (s1 mod 65521), unat (s2 mod 65521)) =
      mod_pair (fold adler_sum (take block_len ptr) (unat a, unat c))"
    using unat_pair_mod [of "(s1, s2)"] by (simp add: unat_pair_def)
  moreover have "unat (s1 mod 65521) < 65521" "unat (s2 mod 65521) < 65521"
    by (simp_all add: unat_mod)
  moreover have "adler_blocks (length ptr) block_len ptr (a, c) =
      adler_blocks (length (drop block_len ptr)) 5552 (drop block_len ptr) (s1 mod 65521, s2 mod 65521)"
    using assms(1,5) by (subst adler_block) (simp_all add: f)
  ultimately show ?thesis by (intro that [of "s1 mod 65521" "s2 mod 65521"]) simp_all
qed

lemma adler_blocks_positive:
  assumes "block_len \<le> length ptr" and "0 < block_len" and "block_len \<le> 5552"
    and "(length ptr - block_len) mod 5552 = 0" and "unat a \<le> 65535" and "unat c \<le> 65535" and "ptr \<noteq> []"
  shows "unat_pair (adler_blocks (length ptr) block_len ptr (a, c)) = fold adler_step ptr (unat a, unat c)"
  using assms
proof (induction "length ptr" arbitrary: ptr block_len a c rule: less_induct)
  case less
  let ?rest = "drop block_len ptr"
  obtain a' c' where
    step: "adler_blocks (length ptr) block_len ptr (a, c) = adler_blocks (length ?rest) 5552 ?rest (a', c')"
    and m: "(unat a', unat c') = mod_pair (fold adler_sum (take block_len ptr) (unat a, unat c))"
    and le: "unat a' \<le> 65535" "unat c' \<le> 65535"
    by (rule adler_block_unat [OF less.prems(1,3,5,6,7)])
  show ?case
  proof (cases "?rest = []")
    case True
    then have "take block_len ptr = ptr" by simp
    then show ?thesis
      using step m True adler_fold_mod [OF less.prems(7)]
      by (simp add: adler_blocks.simps [of 0] unat_pair_def)
  next
    case False
    define n where "n = length ?rest"
    have n: "n mod 5552 = 0" "0 < n" using less.prems(4) False by (simp_all add: n_def)
    then have ge: "5552 \<le> n" by (metis dvd_imp_le mod_0_imp_dvd)
    have lt: "n < length ptr" using less.prems(1,2) by (simp add: n_def)
    have "(n - 5552) mod 5552 = 0" using n(1) ge by (simp add: le_mod_geq [symmetric])
    then have "unat_pair (adler_blocks (length ?rest) 5552 ?rest (a', c')) =
        fold adler_step ?rest (unat a', unat c')"
      using lt ge le False unfolding n_def by (intro less.hyps) simp_all
    also have "\<dots> = mod_pair (fold adler_sum ?rest (fold adler_sum (take block_len ptr) (unat a, unat c)))"
      unfolding m adler_step_fold ..
    also have "fold adler_sum ?rest (fold adler_sum (take block_len ptr) (unat a, unat c)) =
        fold adler_sum ptr (unat a, unat c)"
      by (metis append_take_drop_id comp_apply fold_append)
    finally show ?thesis using step adler_fold_mod [OF less.prems(7)] by simp
  qed
qed

lemma adler_blocks_spec:
  assumes "unat a \<le> 65535" and "unat c \<le> 65535" and "ptr \<noteq> []"
  shows "unat_pair (adler_blocks (length ptr) (length ptr mod 5552) ptr (a, c)) =
    fold adler_step ptr (unat a, unat c)"
proof (cases "length ptr mod 5552 = 0")
  case False
  then show ?thesis
    using assms by (intro adler_blocks_positive) (simp_all add: minus_mod_eq_mult_div)
next
  case True
  then have "5552 \<le> length ptr" using assms(3) by (metis dvd_imp_le length_greater_0_conv mod_0_imp_dvd)
  moreover obtain a' c' where
    "adler_blocks (length ptr) 0 ptr (a, c) = adler_blocks (length ptr) 5552 ptr (a', c')"
    "(unat a', unat c') = mod_pair (unat a, unat c)" "unat a' \<le> 65535" "unat c' \<le> 65535"
    using adler_block_unat [of 0 ptr a c] assms by auto
  moreover have "fold adler_step ptr (mod_pair (unat a, unat c)) = fold adler_step ptr (unat a, unat c)"
    using adler_fold_mod [OF assms(3)] adler_step_fold by simp
  moreover have "(length ptr - 5552) mod 5552 = 0"
    using True calculation(1) by (simp add: le_mod_geq [symmetric])
  ultimately show ?thesis
    using True adler_blocks_positive [of 5552 ptr a' c'] assms(3) by simp
qed

text \<open>The checksum of a buffer: the two sums in the halves of the word.\<close>

definition adler_value :: "nat \<times> nat \<Rightarrow> u32" where
  "adler_value = (\<lambda>(a, c). of_nat (65536 * c + a))"

lemma unat_halves:
  "unat (adler AND 0xffff :: u32) = unat adler mod 65536" "unat (drop_bit 16 adler :: u32) = unat adler div 65536"
proof -
  have "adler AND 0xffff = take_bit 16 adler" by (simp add: take_bit_eq_mask mask_eq_exp_minus_1)
  then show "unat (adler AND 0xffff) = unat adler mod 65536"
    by (simp add: unsigned_take_bit_eq take_bit_eq_mod unat_mod)
  show "unat (drop_bit 16 adler) = unat adler div 65536"
    by (simp add: unsigned_drop_bit_eq drop_bit_eq_div take_bit_eq_mod unat_u32_less unat_div)
qed

text \<open>C20: The Adler-32 of miniz, unrolled eight times and reduced only once in 5552 bytes,
  is the textbook one: for any start value and any bytes, of any length, none included,
  both sums are what reducing modulo 65521 after every byte gives.\<close>

theorem mz_adler32_spec:
  "mz_adler32 adler (Some bytes) =
    adler_value (fold adler_step bytes (unat adler mod 65536, unat adler div 65536))"
proof -
  let ?r = "adler_blocks (length bytes) (length bytes mod 5552) bytes (adler AND 0xffff, drop_bit 16 adler)"
  obtain s1 s2 where r: "?r = (s1, s2)" by (cases ?r)
  have "unat_pair ?r = fold adler_step bytes (unat (adler AND 0xffff), unat (drop_bit 16 adler))"
  proof (cases "bytes = []")
    case True
    then show ?thesis by (simp add: adler_blocks.simps [of 0] unat_pair_def)
  next
    case False
    then show ?thesis using unat_u32_less [of adler]
      by (intro adler_blocks_spec) (simp_all only: unat_halves, simp_all)
  qed
  then have "fold adler_step bytes (unat adler mod 65536, unat adler div 65536) = (unat s1, unat s2)"
    by (simp only: unat_halves r unat_pair_def prod.case)
  moreover have "push_bit 16 s2 + s1 = of_nat (65536 * unat s2 + unat s1)"
    by (simp add: push_bit_eq_mult mult.commute)
  ultimately show ?thesis by (simp add: mz_adler32_def r adler_value_def)
qed

section \<open>CRC-32\<close>

text \<open>The definition: one bit at a time, the reflected polynomial 0xEDB88320.\<close>

definition crc_bit :: "u32 \<Rightarrow> u32" where
  "crc_bit c = (if bit c 0 then drop_bit 1 c XOR 0xEDB88320 else drop_bit 1 c)"

definition crc_byte :: "u8 \<Rightarrow> u32 \<Rightarrow> u32" where
  "crc_byte b c = (crc_bit ^^ 8) (c XOR ucast b)"

text \<open>The update is linear, so a nibble's effect can be looked up.\<close>

lemma crc_bit_xor: "crc_bit (x XOR y) = crc_bit x XOR crc_bit y"
  by (simp add: crc_bit_def bit_xor_iff drop_bit_xor ac_simps)

lemma crc_bits_xor: "(crc_bit ^^ n) (x XOR y) = (crc_bit ^^ n) x XOR (crc_bit ^^ n) y"
  by (induction n) (simp_all add: crc_bit_xor)

lemma crc_bits_clear:
  assumes "\<And>i. i < n \<Longrightarrow> \<not> bit x i"
  shows "(crc_bit ^^ n) x = drop_bit n x"
  using assms
proof (induction n)
  case 0
  then show ?case by simp
next
  case (Suc n)
  then have "(crc_bit ^^ Suc n) x = crc_bit (drop_bit n x)" by simp
  also have "\<dots> = drop_bit (Suc n) x" using Suc.prems [of n] by (simp add: crc_bit_def bit_drop_bit_eq)
  finally show ?case .
qed

lemma crc_table: "unat l < 16 \<Longrightarrow> (crc_bit ^^ 4) l = s_crc32 ! unat l"
proof -
  have "\<forall>i \<in> set [0..<16]. (crc_bit ^^ 4) (of_nat i) = s_crc32 ! i"
    by code_simp
  moreover have "unat l \<in> set [0..<16]" if "unat l < 16" using that by simp
  ultimately have "(crc_bit ^^ 4) (of_nat (unat l)) = s_crc32 ! unat l" if "unat l < 16"
    using that by blast
  then show "unat l < 16 \<Longrightarrow> ?thesis" by simp
qed

lemma and_15: "y AND 0xF = take_bit 4 (y :: u32)"
  by (simp add: take_bit_eq_mask mask_eq_exp_minus_1)

lemma crc_nibble:
  assumes "drop_bit 4 n = (0 :: u32)"
  shows "(crc_bit ^^ 4) (c XOR n) = drop_bit 4 c XOR s_crc32 ! unat ((c AND 0xF) XOR n)"
proof -
  let ?x = "c XOR n"
  have n: "n = take_bit 4 n"
    using take_bit_eq_self_iff_drop_bit_eq_0 [of 4 n] assms by simp
  have "?x = push_bit 4 (drop_bit 4 ?x) XOR take_bit 4 ?x"
    by (rule bit_word_eqI) (auto simp: bit_simps)
  then have "(crc_bit ^^ 4) ?x =
      (crc_bit ^^ 4) (push_bit 4 (drop_bit 4 ?x)) XOR (crc_bit ^^ 4) (take_bit 4 ?x)"
    by (metis crc_bits_xor)
  also have "(crc_bit ^^ 4) (push_bit 4 (drop_bit 4 ?x)) = drop_bit 4 (push_bit 4 (drop_bit 4 ?x))"
    by (rule crc_bits_clear) (simp add: bit_simps)
  also have "\<dots> = drop_bit 4 ?x"
    by (rule bit_word_eqI) (auto simp: bit_simps dest: bit_imp_le_length)
  also have "\<dots> = drop_bit 4 c" by (simp add: drop_bit_xor assms)
  also have "(crc_bit ^^ 4) (take_bit 4 ?x) = s_crc32 ! unat (take_bit 4 ?x)"
    using take_bit_nat_less_exp [of 4 "unat ?x"]
    by (intro crc_table) (simp only: unsigned_take_bit_eq, simp)
  also have "take_bit 4 ?x = (c AND 0xF) XOR n"
    by (subst (2) n) (simp add: and_15 take_bit_xor)
  finally show ?thesis .
qed

lemma crc_round_byte: "crc_round b c = crc_byte b c"
proof -
  let ?b = "ucast b :: u32" and ?c = "(crc_bit ^^ 4) (c XOR (ucast b AND 0xF))"
  have z: "drop_bit 4 (?b AND 0xF) = 0" "drop_bit 4 (drop_bit 4 ?b) = 0"
    by (rule bit_word_eqI, auto simp: and_15 bit_simps dest: bit_imp_le_length)+
  have "?b = (?b AND 0xF) XOR push_bit 4 (drop_bit 4 ?b)"
    by (rule bit_word_eqI) (auto simp: and_15 bit_simps)
  then have "(crc_bit ^^ 4) (c XOR ?b) = ?c XOR (crc_bit ^^ 4) (push_bit 4 (drop_bit 4 ?b))"
    by (metis crc_bits_xor xor.assoc)
  also have "(crc_bit ^^ 4) (push_bit 4 (drop_bit 4 ?b)) = drop_bit 4 (push_bit 4 (drop_bit 4 ?b))"
    by (rule crc_bits_clear) (simp add: bit_simps)
  also have "\<dots> = drop_bit 4 ?b"
    by (rule bit_word_eqI) (auto simp: bit_simps dest: bit_imp_le_length)
  finally have "crc_byte b c = (crc_bit ^^ 4) (?c XOR drop_bit 4 ?b)"
    unfolding crc_byte_def using funpow_add [of 4 4 crc_bit] by simp
  then show ?thesis
    using crc_nibble [OF z(1), of c] crc_nibble [OF z(2), of ?c]
    by (simp add: crc_round_def Let_def)
qed

text \<open>C21: The CRC-32 of miniz, four bits at a time through a table of 16 words, is the CRC
  of the reflected polynomial \<open>0xEDB88320\<close> computed bit by bit, complemented before and after.\<close>

theorem mz_crc32_spec: "mz_crc32 crc (Some bytes) = NOT (fold crc_byte bytes (NOT crc))"
proof -
  have "crc_round = crc_byte" by (intro ext) (rule crc_round_byte)
  then show ?thesis by (simp add: mz_crc32_def)
qed

text \<open>A checksum can be computed piece by piece.\<close>

lemma mz_crc32_append:
  "mz_crc32 (mz_crc32 crc (Some xs)) (Some ys) = mz_crc32 crc (Some (xs @ ys))"
  by (simp add: mz_crc32_def)

end
