(* ===== verification/Mz_Stream.thy ===== *)
theory Mz_Stream
  imports Mz_Step Mz_Checksum
begin

unbundle bit_operations_syntax

text \<open>
  The compressor as a stream (\<open>proj/sparc-prog/miniz.c\<close>): \<open>tdefl_flush_block\<close>, the main loop
  \<open>tdefl_compress_normal\<close>, \<open>tdefl_compress\<close>, \<open>tdefl_init\<close>, and the helpers that compress a block of
  memory.  \<open>None\<close> is a null pointer that is dereferenced, an index outside an array, or a loop
  that does not end.  (The processor of the programs does not load unaligned words: \<open>tdefl_compress_fast\<close> is
  not compiled.)
\<close>

section \<open>The state\<close>

datatype tdefl_status = TDEFL_STATUS_BAD_PARAM | TDEFL_STATUS_PUT_BUF_FAILED | TDEFL_STATUS_OKAY | TDEFL_STATUS_DONE

datatype tdefl_flush = TDEFL_NO_FLUSH | TDEFL_SYNC_FLUSH | TDEFL_FULL_FLUSH | TDEFL_FINISH

text \<open>The rest of \<open>tdefl_compressor\<close>.  A pointer to a buffer is its bytes, \<open>None\<close> if it is null; the
  callback is a function of the bytes it is given and of what \<open>m_pPut_buf_user\<close> points to.
  \<open>m_pSrc\<close> is the input from that pointer on, whose length is \<open>m_src_buf_left\<close>.\<close>

record 'u tdefl_stream =
  lz :: tdefl_lz
  m_pPut_buf_func :: "(u8 list \<Rightarrow> 'u \<Rightarrow> (bool \<times> 'u) option) option"
  m_pPut_buf_user :: 'u
  m_flags :: u32
  m_greedy_parsing :: bool
  m_adler32 :: u32
  m_lz_code_buf_dict_pos :: u32
  m_output_flush_ofs :: nat
  m_output_flush_remaining :: nat
  m_finished :: bool
  m_block_index :: u32
  m_wants_to_finish :: bool
  m_prev_return_status :: tdefl_status
  m_pIn_buf :: "u8 list option"
  m_pIn_buf_size :: "nat option"
  m_pOut_buf :: "u8 list option"
  m_pOut_buf_size :: "nat option"
  m_flush :: tdefl_flush
  m_pSrc :: "u8 list"
  m_out_buf_ofs :: nat
  m_output_buf :: "u8 list"

definition TDEFL_OUT_BUF_SIZE :: nat where "TDEFL_OUT_BUF_SIZE = (TDEFL_LZ_CODE_BUF_SIZE * 13) div 10"

section \<open>\<open>tdefl_flush_block\<close>\<close>

definition put_aligned :: "tdefl_compressor \<Rightarrow> tdefl_compressor" where
  "put_aligned c = (if m_bits_in c \<noteq> 0 then TDEFL_PUT_BITS 0 (8 - m_bits_in c) c else c)"

text \<open>A length and its complement.\<close>

definition put_length :: "u32 \<Rightarrow> tdefl_compressor \<Rightarrow> tdefl_compressor" where
  "put_length n c = TDEFL_PUT_BITS ((n XOR 0xFFFF) AND 0xFFFF) 16 (TDEFL_PUT_BITS (n AND 0xFFFF) 16 c)"

primrec put_dict_bytes :: "nat \<Rightarrow> u8 list \<Rightarrow> u32 \<Rightarrow> tdefl_compressor \<Rightarrow> tdefl_compressor" where
  "put_dict_bytes 0 dict pos c = c"
| "put_dict_bytes (Suc n) dict pos c =
    put_dict_bytes n dict (pos + 1) (TDEFL_PUT_BITS (ucast (dict ! unat (pos AND TDEFL_LZ_DICT_SIZE_MASK))) 8 c)"

definition put_raw_block :: "u32 \<Rightarrow> tdefl_lz \<Rightarrow> tdefl_lz" where
  "put_raw_block dict_pos d =
    (let c = TDEFL_PUT_BITS 0 2 (coder d);
         c = put_aligned c;
         c = put_length (m_total_lz_bytes d) c
     in d\<lparr>coder := put_dict_bytes (unat (m_total_lz_bytes d)) (m_dict d) dict_pos c\<rparr>)"

text \<open>\<open>m_pOutput_buf\<close>, \<open>m_bit_buffer\<close> and \<open>m_bits_in\<close> as they were saved.\<close>

definition rewind :: "tdefl_compressor \<Rightarrow> tdefl_lz \<Rightarrow> tdefl_lz" where
  "rewind saved d = d\<lparr>coder := (coder d)\<lparr>m_output := m_output saved, m_output_room := m_output_room saved,
     m_bit_buffer := m_bit_buffer saved, m_bits_in := m_bits_in saved\<rparr>\<rparr>"

definition put_block :: "u32 \<Rightarrow> bool \<Rightarrow> u32 \<Rightarrow> tdefl_lz \<Rightarrow> tdefl_lz option" where
  "put_block flags use_raw_block dict_pos d =
    do {
      let saved = coder d;
      (comp_block_succeeded, d) \<leftarrow>
        (if \<not> use_raw_block
         then tdefl_compress_block (flags AND TDEFL_FORCE_ALL_STATIC_BLOCKS \<noteq> 0 \<or> m_total_lz_bytes d < 48) d
         else Some (False, d));
      if (use_raw_block \<or> (m_total_lz_bytes d \<noteq> 0 \<and>
            m_total_lz_bytes d \<le> of_nat (length (m_output (coder d)) - length (m_output saved)) + 1)) \<and>
          m_lookahead_pos d - dict_pos \<le> m_dict_size d
      then Some (put_raw_block dict_pos (rewind saved d))
      else if \<not> comp_block_succeeded
      then do { (ok, d) \<leftarrow> tdefl_compress_block True (rewind saved d); Some d }
      else Some d
    }"

text \<open>Four bytes, the highest first.\<close>

primrec put_adler :: "nat \<Rightarrow> u32 \<Rightarrow> tdefl_compressor \<Rightarrow> tdefl_compressor" where
  "put_adler 0 a c = c"
| "put_adler (Suc n) a c = put_adler n (push_bit 8 a) (TDEFL_PUT_BITS (drop_bit 24 a AND 0xFF) 8 c)"

definition put_tail :: "tdefl_flush \<Rightarrow> u32 \<Rightarrow> u32 \<Rightarrow> tdefl_compressor \<Rightarrow> tdefl_compressor" where
  "put_tail flush flags adler c =
    (case flush of
       TDEFL_NO_FLUSH \<Rightarrow> c
     | TDEFL_FINISH \<Rightarrow>
        (let c = put_aligned c in if flags AND TDEFL_WRITE_ZLIB_HEADER \<noteq> 0 then put_adler 4 adler c else c)
     | _ \<Rightarrow> put_length 0 (put_aligned (TDEFL_PUT_BITS 0 3 c)))"

definition put_head :: "tdefl_flush \<Rightarrow> u32 \<Rightarrow> u32 \<Rightarrow> tdefl_compressor \<Rightarrow> tdefl_compressor" where
  "put_head flush flags block_index c =
    (let c = (if flags AND TDEFL_WRITE_ZLIB_HEADER \<noteq> 0 \<and> block_index = 0
              then TDEFL_PUT_BITS 0x01 8 (TDEFL_PUT_BITS 0x78 8 c) else c)
     in TDEFL_PUT_BITS (if flush = TDEFL_FINISH then 1 else 0) 1 c)"

text \<open>The bytes \<open>bs\<close> at an offset of a buffer.\<close>

definition copy_at :: "nat \<Rightarrow> u8 list \<Rightarrow> u8 list option \<Rightarrow> u8 list option" where
  "copy_at ofs bs buf = map_option (\<lambda>b. take ofs b @ bs @ drop (ofs + length bs) b) buf"

text \<open>\<open>m_pSrc - m_pIn_buf\<close>\<close>

definition consumed :: "'u tdefl_stream \<Rightarrow> nat" where
  "consumed d = (case m_pIn_buf d of None \<Rightarrow> 0 | Some buf \<Rightarrow> length buf - length (m_pSrc d))"

text \<open>The end of \<open>tdefl_flush_block\<close>: the \<open>n\<close> bytes of the output buffer are delivered.  (If the block was
  written into the caller's buffer, what an abandoned attempt left behind the \<open>n\<close> bytes is not followed.)\<close>

definition deliver :: "bool \<Rightarrow> 'u tdefl_stream \<Rightarrow> (int \<times> 'u tdefl_stream) option" where
  "deliver direct d =
    (let bs = m_output (coder (lz d)); n = length bs
     in if n \<noteq> 0 then
          (case m_pPut_buf_func d of
             Some put \<Rightarrow>
               do {
                 _ \<leftarrow> m_pIn_buf_size d;
                 let d = d\<lparr>m_pIn_buf_size := Some (consumed d), m_output_buf := bs\<rparr>;
                 (ok, user) \<leftarrow> put bs (m_pPut_buf_user d);
                 let d = d\<lparr>m_pPut_buf_user := user\<rparr>;
                 Some (if \<not> ok then (-1, d\<lparr>m_prev_return_status := TDEFL_STATUS_PUT_BUF_FAILED\<rparr>)
                       else (int (m_output_flush_remaining d), d))
               }
           | None \<Rightarrow>
               if \<not> direct then
                 do {
                   out_size \<leftarrow> m_pOut_buf_size d;
                   let bytes_to_copy = min n (out_size - m_out_buf_ofs d);
                   let d = d\<lparr>m_output_buf := bs, m_pOut_buf := copy_at (m_out_buf_ofs d) (take bytes_to_copy bs) (m_pOut_buf d),
                     m_out_buf_ofs := m_out_buf_ofs d + bytes_to_copy\<rparr>;
                   let d = (if n - bytes_to_copy \<noteq> 0
                     then d\<lparr>m_output_flush_ofs := bytes_to_copy, m_output_flush_remaining := n - bytes_to_copy\<rparr> else d);
                   Some (int (m_output_flush_remaining d), d)
                 }
               else
                 (let d = d\<lparr>m_pOut_buf := copy_at (m_out_buf_ofs d) bs (m_pOut_buf d), m_out_buf_ofs := m_out_buf_ofs d + n\<rparr>
                  in Some (int (m_output_flush_remaining d), d)))
        else Some (int (m_output_flush_remaining d), d))"

text \<open>The result is negative when the callback fails, or what remains to be delivered.\<close>

definition tdefl_flush_block :: "tdefl_flush \<Rightarrow> 'u tdefl_stream \<Rightarrow> (int \<times> 'u tdefl_stream) option" where
  "tdefl_flush_block flush d =
    do {
      let dict_pos = m_lz_code_buf_dict_pos d;
      let use_raw_block = (m_flags d AND TDEFL_FORCE_ALL_RAW_BLOCKS \<noteq> 0 \<and>
        m_lookahead_pos (lz d) - dict_pos \<le> m_dict_size (lz d));
      direct \<leftarrow>
        (if m_pPut_buf_func d = None
         then do { out_size \<leftarrow> m_pOut_buf_size d; Some (TDEFL_OUT_BUF_SIZE \<le> out_size - m_out_buf_ofs d) }
         else Some False);
      let l = (lz d)\<lparr>coder := (coder (lz d))\<lparr>m_output := [], m_output_room := TDEFL_OUT_BUF_SIZE - 16\<rparr>\<rparr>;
      let d = d\<lparr>m_output_flush_ofs := 0, m_output_flush_remaining := 0\<rparr>;
      l \<leftarrow> finish_lz_flags l;
      let l = l\<lparr>coder := put_head flush (m_flags d) (m_block_index d) (coder l)\<rparr>;
      l \<leftarrow> put_block (m_flags d) use_raw_block dict_pos l;
      let l = l\<lparr>coder := put_tail flush (m_flags d) (m_adler32 d) (coder l)\<rparr>;
      let d = d\<lparr>lz := reset_lz l, m_lz_code_buf_dict_pos := dict_pos + m_total_lz_bytes l,
        m_block_index := m_block_index d + 1\<rparr>;
      deliver direct d
    }"

section \<open>\<open>tdefl_compress_normal\<close>\<close>

text \<open>When the codes collected so far become a block.\<close>

definition flush_due :: "u32 \<Rightarrow> tdefl_lz \<Rightarrow> bool" where
  "flush_due flags d \<longleftrightarrow> TDEFL_LZ_CODE_BUF_SIZE - 8 < m_pLZ_code_buf d \<or>
     (31 * 1024 < m_total_lz_bytes d \<and>
      (m_total_lz_bytes d \<le> drop_bit 7 (of_nat (m_pLZ_code_buf d) * 115) \<or> flags AND TDEFL_FORCE_ALL_RAW_BLOCKS \<noteq> 0))"

text \<open>The local copies of \<open>m_pSrc\<close> and \<open>m_src_buf_left\<close> are written back before they are read elsewhere;
  here they are the fields.\<close>

partial_function (option) tdefl_compress_normal :: "'u tdefl_stream \<Rightarrow> (bool \<times> 'u tdefl_stream) option" where
  "tdefl_compress_normal d =
    (if m_pSrc d \<noteq> [] \<or> (m_flush d \<noteq> TDEFL_NO_FLUSH \<and> m_lookahead_size (lz d) \<noteq> 0) then
       let (src, l) = fill_dict (m_pSrc d) (lz d);
           d = d\<lparr>m_pSrc := src, lz := l\<rparr>
       in if m_flush d = TDEFL_NO_FLUSH \<and> m_lookahead_size l < TDEFL_MAX_MATCH_LEN then Some (True, d)
          else do {
            l \<leftarrow> parse_step (m_flags d) (m_greedy_parsing d) l;
            let d = d\<lparr>lz := l\<rparr>;
            if flush_due (m_flags d) l then do {
              (n, d) \<leftarrow> tdefl_flush_block TDEFL_NO_FLUSH d;
              if n \<noteq> 0 then Some (\<not> n < 0, d) else tdefl_compress_normal d }
            else tdefl_compress_normal d }
     else Some (True, d))"

section \<open>\<open>tdefl_compress\<close>\<close>

definition tdefl_flush_output_buffer :: "'u tdefl_stream \<Rightarrow> tdefl_status \<times> 'u tdefl_stream" where
  "tdefl_flush_output_buffer d =
    (let d = (if m_pIn_buf_size d \<noteq> None then d\<lparr>m_pIn_buf_size := Some (consumed d)\<rparr> else d);
         d = (case m_pOut_buf_size d of
             None \<Rightarrow> d
           | Some out_size \<Rightarrow>
               (let n = min (out_size - m_out_buf_ofs d) (m_output_flush_remaining d);
                    d = d\<lparr>m_pOut_buf := copy_at (m_out_buf_ofs d) (take n (drop (m_output_flush_ofs d) (m_output_buf d))) (m_pOut_buf d)\<rparr>;
                    d = d\<lparr>m_output_flush_ofs := m_output_flush_ofs d + n\<rparr>;
                    d = d\<lparr>m_output_flush_remaining := m_output_flush_remaining d - n\<rparr>;
                    d = d\<lparr>m_out_buf_ofs := m_out_buf_ofs d + n\<rparr>
                in d\<lparr>m_pOut_buf_size := Some (m_out_buf_ofs d)\<rparr>))
     in (if m_finished d \<and> m_output_flush_remaining d = 0 then TDEFL_STATUS_DONE else TDEFL_STATUS_OKAY, d))"

text \<open>The status is also kept in the state.\<close>

definition return_status :: "tdefl_status \<times> 'u tdefl_stream \<Rightarrow> tdefl_status \<times> 'u tdefl_stream" where
  "return_status = (\<lambda>(status, d). (status, d\<lparr>m_prev_return_status := status\<rparr>))"

definition bad_call :: "'u tdefl_stream \<Rightarrow> bool" where
  "bad_call d \<longleftrightarrow> (m_pPut_buf_func d \<noteq> None) = (m_pOut_buf d \<noteq> None \<or> m_pOut_buf_size d \<noteq> None) \<or>
     m_prev_return_status d \<noteq> TDEFL_STATUS_OKAY \<or> (m_wants_to_finish d \<and> m_flush d \<noteq> TDEFL_FINISH) \<or>
     (m_pIn_buf_size d \<noteq> None \<and> m_pIn_buf_size d \<noteq> Some 0 \<and> m_pIn_buf d = None) \<or>
     (m_pOut_buf_size d \<noteq> None \<and> m_pOut_buf_size d \<noteq> Some 0 \<and> m_pOut_buf d = None)"

text \<open>The end of a call, after the last byte was parsed.\<close>

definition finish_block :: "tdefl_flush \<Rightarrow> 'u tdefl_stream \<Rightarrow> (tdefl_status \<times> 'u tdefl_stream) option" where
  "finish_block flush d =
    (if flush \<noteq> TDEFL_NO_FLUSH \<and> m_lookahead_size (lz d) = 0 \<and> m_pSrc d = [] \<and> m_output_flush_remaining d = 0 then
       do {
         (n, d) \<leftarrow> tdefl_flush_block flush d;
         if n < 0 then Some (m_prev_return_status d, d)
         else do {
           let d = d\<lparr>m_finished := (flush = TDEFL_FINISH)\<rparr>;
           let d = (if flush = TDEFL_FULL_FLUSH
             then d\<lparr>lz := (lz d)\<lparr>m_hash := replicate (length (m_hash (lz d))) 0,
               m_next := replicate (length (m_next (lz d))) 0, m_dict_size := 0\<rparr>\<rparr>
             else d);
           Some (return_status (tdefl_flush_output_buffer d)) } }
     else Some (return_status (tdefl_flush_output_buffer d)))"

text \<open>The bytes of the input buffer are those that \<open>pIn_buf_size\<close> counts.  (The call with a null
  compressor, which only clears the sizes, is left out.)\<close>

definition tdefl_compress :: "u8 list option \<Rightarrow> nat option \<Rightarrow> u8 list option \<Rightarrow> nat option \<Rightarrow> tdefl_flush \<Rightarrow>
    'u tdefl_stream \<Rightarrow> (tdefl_status \<times> 'u tdefl_stream) option" where
  "tdefl_compress pIn_buf pIn_buf_size pOut_buf pOut_buf_size flush d =
    (let in_bytes = (case (pIn_buf, pIn_buf_size) of (Some b, Some n) \<Rightarrow> take n b | _ \<Rightarrow> []);
         d = d\<lparr>m_pIn_buf := map_option (\<lambda>_. in_bytes) pIn_buf, m_pIn_buf_size := pIn_buf_size,
           m_pOut_buf := pOut_buf, m_pOut_buf_size := pOut_buf_size,
           m_pSrc := in_bytes, m_out_buf_ofs := 0, m_flush := flush\<rparr>
     in if bad_call d then
          Some (return_status (TDEFL_STATUS_BAD_PARAM,
            d\<lparr>m_pIn_buf_size := map_option (\<lambda>_. 0) pIn_buf_size, m_pOut_buf_size := map_option (\<lambda>_. 0) pOut_buf_size\<rparr>))
        else
          let d = d\<lparr>m_wants_to_finish := m_wants_to_finish d \<or> flush = TDEFL_FINISH\<rparr>
          in if m_output_flush_remaining d \<noteq> 0 \<or> m_finished d then Some (return_status (tdefl_flush_output_buffer d))
             else do {
               (ok, d) \<leftarrow> tdefl_compress_normal d;
               if \<not> ok then Some (m_prev_return_status d, d)
               else
                 let d = (if m_flags d AND (TDEFL_WRITE_ZLIB_HEADER OR TDEFL_COMPUTE_ADLER32) \<noteq> 0 \<and> pIn_buf \<noteq> None
                   then d\<lparr>m_adler32 := mz_adler32 (m_adler32 d) (Some (take (consumed d) in_bytes))\<rparr> else d)
                 in finish_block flush d })"

definition tdefl_compress_buffer :: "u8 list option \<Rightarrow> nat \<Rightarrow> tdefl_flush \<Rightarrow> 'u tdefl_stream \<Rightarrow>
    (tdefl_status \<times> 'u tdefl_stream) option" where
  "tdefl_compress_buffer pIn_buf in_buf_size flush d = tdefl_compress pIn_buf (Some in_buf_size) None None flush d"

definition tdefl_init :: "(u8 list \<Rightarrow> 'u \<Rightarrow> (bool \<times> 'u) option) option \<Rightarrow> 'u \<Rightarrow> u32 \<Rightarrow> 'u tdefl_stream \<Rightarrow>
    tdefl_status \<times> 'u tdefl_stream" where
  "tdefl_init pPut_buf_func pPut_buf_user flags d =
    (let d = d\<lparr>m_pPut_buf_func := pPut_buf_func, m_pPut_buf_user := pPut_buf_user, m_flags := flags,
           m_greedy_parsing := (flags AND TDEFL_GREEDY_PARSING_FLAG \<noteq> 0)\<rparr>;
         l = (lz d)\<lparr>m_max_probes := [1 + ((flags AND 0xFFF) + 2) div 3, 1 + (drop_bit 2 (flags AND 0xFFF) + 2) div 3]\<rparr>;
         l = (if flags AND TDEFL_NONDETERMINISTIC_PARSING_FLAG = 0 then l\<lparr>m_hash := replicate (length (m_hash l)) 0\<rparr> else l);
         l = l\<lparr>m_lookahead_pos := 0, m_lookahead_size := 0, m_dict_size := 0\<rparr>;
         l = reset_lz l;
         l = l\<lparr>m_saved_match_dist := 0, m_saved_match_len := 0, m_saved_lit := 0\<rparr>;
         l = l\<lparr>coder := (coder l)\<lparr>m_bits_in := 0, m_bit_buffer := 0, m_output := [], m_output_room := 0\<rparr>\<rparr>
     in (TDEFL_STATUS_OKAY,
         d\<lparr>lz := l, m_lz_code_buf_dict_pos := 0, m_output_flush_ofs := 0, m_output_flush_remaining := 0,
           m_finished := False, m_block_index := 0, m_wants_to_finish := False,
           m_prev_return_status := TDEFL_STATUS_OKAY, m_adler32 := 1, m_pIn_buf := None, m_pOut_buf := None,
           m_pIn_buf_size := None, m_pOut_buf_size := None, m_flush := TDEFL_NO_FLUSH, m_pSrc := [],
           m_out_buf_ofs := 0\<rparr>))"

definition tdefl_get_prev_return_status :: "'u tdefl_stream \<Rightarrow> tdefl_status" where
  "tdefl_get_prev_return_status d = m_prev_return_status d"

definition tdefl_get_adler32 :: "'u tdefl_stream \<Rightarrow> u32" where
  "tdefl_get_adler32 d = m_adler32 d"

section \<open>Blocks of memory\<close>

text \<open>\<open>malloc\<close> is the compressor it returns, with any contents, or \<open>None\<close>; the result is the callback's
  state as well.\<close>

definition tdefl_compress_mem_to_output :: "'u tdefl_stream option \<Rightarrow> u8 list option \<Rightarrow> nat \<Rightarrow>
    (u8 list \<Rightarrow> 'u \<Rightarrow> (bool \<times> 'u) option) option \<Rightarrow> 'u \<Rightarrow> u32 \<Rightarrow> (bool \<times> 'u) option" where
  "tdefl_compress_mem_to_output malloc pBuf buf_len pPut_buf_func pPut_buf_user flags =
    (if (buf_len \<noteq> 0 \<and> pBuf = None) \<or> pPut_buf_func = None then Some (False, pPut_buf_user)
     else
       (case malloc of
          None \<Rightarrow> Some (False, pPut_buf_user)
        | Some pComp \<Rightarrow>
            (let (status, pComp) = tdefl_init pPut_buf_func pPut_buf_user flags pComp;
                 succeeded = (status = TDEFL_STATUS_OKAY)
             in if succeeded then do {
                  (status, pComp) \<leftarrow> tdefl_compress_buffer pBuf buf_len TDEFL_FINISH pComp;
                  Some (status = TDEFL_STATUS_DONE, m_pPut_buf_user pComp) }
                else Some (False, m_pPut_buf_user pComp))))"

text \<open>\<open>m_pBuf\<close> are the \<open>m_capacity\<close> bytes of the buffer; \<open>m_size\<close> of them are used.  Sizes are \<open>size_t\<close>, 32 bits.\<close>

record tdefl_output_buffer =
  m_size :: u32
  m_capacity :: u32
  m_pBuf :: "u8 list"
  m_expandable :: bool

text \<open>The \<open>do\<close> loop; it does not end when the capacity overflows before it is large enough.\<close>

partial_function (option) grow_capacity :: "u32 \<Rightarrow> u32 \<Rightarrow> u32 option" where
  "grow_capacity new_size new_capacity =
    (let new_capacity = max 128 (push_bit 1 new_capacity)
     in if new_capacity < new_size then grow_capacity new_size new_capacity else Some new_capacity)"

text \<open>\<open>realloc\<close> returns the new buffer, or fails.\<close>

definition tdefl_output_buffer_putter :: "(u8 list \<Rightarrow> u32 \<Rightarrow> u8 list option) \<Rightarrow> u8 list \<Rightarrow> tdefl_output_buffer \<Rightarrow>
    (bool \<times> tdefl_output_buffer) option" where
  "tdefl_output_buffer_putter realloc bs p =
    (let new_size = m_size p + of_nat (length bs);
         store = (\<lambda>p. p\<lparr>m_pBuf := take (unat (m_size p)) (m_pBuf p) @ bs @ drop (unat (m_size p) + length bs) (m_pBuf p),
           m_size := new_size\<rparr>)
     in if m_capacity p < new_size then
          if \<not> m_expandable p then Some (False, p)
          else do {
            new_capacity \<leftarrow> grow_capacity new_size (m_capacity p);
            Some (case realloc (m_pBuf p) new_capacity of
                None \<Rightarrow> (False, p)
              | Some pNew_buf \<Rightarrow> (True, store (p\<lparr>m_pBuf := pNew_buf, m_capacity := new_capacity\<rparr>))) }
        else Some (True, store p))"

text \<open>The buffer and its length, or \<open>None\<close> inside for the null pointer.  (The check for a null \<open>pOut_len\<close> is
  left out.)\<close>

definition tdefl_compress_mem_to_heap :: "(u8 list \<Rightarrow> u32 \<Rightarrow> u8 list option) \<Rightarrow> tdefl_output_buffer tdefl_stream option \<Rightarrow>
    u8 list option \<Rightarrow> nat \<Rightarrow> u32 \<Rightarrow> ((u8 list \<times> u32) option) option" where
  "tdefl_compress_mem_to_heap realloc malloc pSrc_buf src_buf_len flags =
    do {
      let out_buf = \<lparr>m_size = 0, m_capacity = 0, m_pBuf = [], m_expandable = True\<rparr>;
      (ok, out_buf) \<leftarrow> tdefl_compress_mem_to_output malloc pSrc_buf src_buf_len
        (Some (tdefl_output_buffer_putter realloc)) out_buf flags;
      Some (if \<not> ok then None else Some (m_pBuf out_buf, m_size out_buf))
    }"

text \<open>The number of bytes, and the buffer; the buffer is not expandable.\<close>

definition tdefl_compress_mem_to_mem :: "tdefl_output_buffer tdefl_stream option \<Rightarrow>
    u8 list option \<Rightarrow> u32 \<Rightarrow> u8 list option \<Rightarrow> nat \<Rightarrow> u32 \<Rightarrow> (u32 \<times> u8 list option) option" where
  "tdefl_compress_mem_to_mem malloc pOut_buf out_buf_len pSrc_buf src_buf_len flags =
    (case pOut_buf of
       None \<Rightarrow> Some (0, None)
     | Some buf \<Rightarrow>
        do {
          let out_buf = \<lparr>m_size = 0, m_capacity = out_buf_len, m_pBuf = buf, m_expandable = False\<rparr>;
          (ok, out_buf) \<leftarrow> tdefl_compress_mem_to_output malloc pSrc_buf src_buf_len
            (Some (tdefl_output_buffer_putter (\<lambda>_ _. None))) out_buf flags;
          Some (if \<not> ok then 0 else m_size out_buf, Some (m_pBuf out_buf))
        })"

section \<open>Flags\<close>

definition s_tdefl_num_probes :: "u32 list" where
  "s_tdefl_num_probes = [0, 1, 6, 32, 16, 32, 128, 256, 512, 768, 1500]"

definition MZ_FILTERED :: int where "MZ_FILTERED = 1"
definition MZ_HUFFMAN_ONLY :: int where "MZ_HUFFMAN_ONLY = 2"
definition MZ_RLE :: int where "MZ_RLE = 3"
definition MZ_FIXED :: int where "MZ_FIXED = 4"
definition MZ_DEFAULT_LEVEL :: int where "MZ_DEFAULT_LEVEL = 6"

definition tdefl_create_comp_flags_from_zip_params :: "int \<Rightarrow> int \<Rightarrow> int \<Rightarrow> u32" where
  "tdefl_create_comp_flags_from_zip_params lvl window_bits strategy =
    (let comp_flags = s_tdefl_num_probes ! nat (if 0 \<le> lvl then min 10 lvl else MZ_DEFAULT_LEVEL) OR
           (if lvl \<le> 3 then TDEFL_GREEDY_PARSING_FLAG else 0);
         comp_flags = (if 0 < window_bits then comp_flags OR TDEFL_WRITE_ZLIB_HEADER else comp_flags)
     in if lvl = 0 then comp_flags OR TDEFL_FORCE_ALL_RAW_BLOCKS
        else if strategy = MZ_FILTERED then comp_flags OR TDEFL_FILTER_MATCHES
        else if strategy = MZ_HUFFMAN_ONLY then comp_flags AND NOT TDEFL_MAX_PROBES_MASK
        else if strategy = MZ_FIXED then comp_flags OR TDEFL_FORCE_ALL_STATIC_BLOCKS
        else if strategy = MZ_RLE then comp_flags OR TDEFL_RLE_MATCHES
        else comp_flags)"

end
