(* ===== verification/Mz_Tinfl.thy ===== *)
theory Mz_Tinfl
  imports Mz_Stream
begin

unbundle bit_operations_syntax

text \<open>
  The decompressor of \<open>proj/sparc-prog/miniz.c\<close>: \<open>tinfl_decompress\<close>, from its start to the point where it
  returns.  (The processor has no 64-bit registers and no unaligned access, so the bit buffer has 32
  bits and the input is read byte by byte.)

  The function is a coroutine: \<open>TINFL_CR_RETURN\<close> leaves it with a status, and a later call goes on behind
  that point.  A part of the function ends with \<open>Inl\<close> if it has left, and else with \<open>Inr\<close> and what it has
  computed.  Calls that go on (\<open>m_state\<close> is not 0) are not followed.  \<open>None\<close> is an access outside an
  array or a loop that does not end.
\<close>

section \<open>The state\<close>

type_synonym i16 = "16 word"

datatype tinfl_status = TINFL_STATUS_BAD_PARAM | TINFL_STATUS_ADLER32_MISMATCH | TINFL_STATUS_FAILED |
  TINFL_STATUS_DONE | TINFL_STATUS_NEEDS_MORE_INPUT | TINFL_STATUS_HAS_MORE_OUTPUT

definition TINFL_FLAG_PARSE_ZLIB_HEADER :: u32 where "TINFL_FLAG_PARSE_ZLIB_HEADER = 1"
definition TINFL_FLAG_HAS_MORE_INPUT :: u32 where "TINFL_FLAG_HAS_MORE_INPUT = 2"
definition TINFL_FLAG_USING_NON_WRAPPING_OUTPUT_BUF :: u32 where "TINFL_FLAG_USING_NON_WRAPPING_OUTPUT_BUF = 4"
definition TINFL_FLAG_COMPUTE_ADLER32 :: u32 where "TINFL_FLAG_COMPUTE_ADLER32 = 8"

definition TINFL_MAX_HUFF_SYMBOLS_0 :: nat where "TINFL_MAX_HUFF_SYMBOLS_0 = 288"
definition TINFL_MAX_HUFF_SYMBOLS_1 :: nat where "TINFL_MAX_HUFF_SYMBOLS_1 = 32"
definition TINFL_MAX_HUFF_SYMBOLS_2 :: nat where "TINFL_MAX_HUFF_SYMBOLS_2 = 19"
definition TINFL_FAST_LOOKUP_BITS :: nat where "TINFL_FAST_LOOKUP_BITS = 10"
definition TINFL_FAST_LOOKUP_SIZE :: u32 where "TINFL_FAST_LOOKUP_SIZE = push_bit TINFL_FAST_LOOKUP_BITS 1"

record tinfl_huff_table =
  m_code_size :: "u8 list"
  m_look_up :: "i16 list"
  m_tree :: "i16 list"

text \<open>The local variables that are saved in the structure (\<open>num_bits\<close> and so on) are its fields.\<close>

record tinfl_decompressor =
  m_state :: u32
  m_num_bits :: u32
  m_zhdr0 :: u32
  m_zhdr1 :: u32
  m_z_adler32 :: u32
  m_final :: u32
  m_type :: u32
  m_check_adler32 :: u32
  m_dist :: u32
  m_counter :: u32
  m_num_extra :: u32
  m_table_sizes :: "u32 list"
  m_bit_buf :: u32
  m_dist_from_out_buf_start :: u32
  m_tables :: "tinfl_huff_table list"
  m_raw_header :: "u8 list"
  m_len_codes :: "u8 list"

text \<open>During a call: the bytes from \<open>pIn_buf_cur\<close> to the end, the output buffer from \<open>pOut_buf_start\<close> to
  \<open>pOut_buf_end\<close>, and the place of \<open>pOut_buf_cur\<close> in it.\<close>

record tinfl_run = tinfl_decompressor +
  pIn_buf_cur :: "u8 list"
  pOut_buf :: "u8 list"
  pOut_buf_cur :: nat

type_synonym 'a tinfl_step = "((tinfl_status \<times> tinfl_run) + ('a \<times> tinfl_run)) option"

definition TINFL_CR_RETURN :: "u32 \<Rightarrow> tinfl_status \<Rightarrow> tinfl_run \<Rightarrow> 'a tinfl_step" where
  "TINFL_CR_RETURN state_index status s = Some (Inl (status, s\<lparr>m_state := state_index\<rparr>))"

definition go_on :: "'a tinfl_step \<Rightarrow> ('a \<Rightarrow> tinfl_run \<Rightarrow> 'b tinfl_step) \<Rightarrow> 'b tinfl_step" where
  "go_on m k = do { r \<leftarrow> m; case r of Inl e \<Rightarrow> Some (Inl e) | Inr as \<Rightarrow> k (fst as) (snd as) }"

abbreviation here :: "'a \<Rightarrow> tinfl_run \<Rightarrow> 'a tinfl_step" where
  "here a s \<equiv> Some (Inr (a, s))"

lemma go_on_simps [simp]:
  "go_on (here a s) k = k a s" "go_on (TINFL_CR_RETURN i status s) k = TINFL_CR_RETURN i status s"
  "go_on (Some (Inl e)) k = Some (Inl e)" "go_on None k = None"
  by (simp_all add: go_on_def TINFL_CR_RETURN_def)

lemma go_on_assoc: "go_on (go_on m k) l = go_on m (\<lambda>a s. go_on (k a s) l)"
  by (auto simp: go_on_def split: Option.bind_split sum.split)

lemma go_on_mono [partial_function_mono]:
  assumes "mono_option m" and "\<And>a s. mono_option (\<lambda>f. k f a s)"
  shows "mono_option (\<lambda>f. go_on (m f) (k f))"
proof -
  have "mono_option (\<lambda>f. case y of Inl e \<Rightarrow> Some (Inl e) | Inr as \<Rightarrow> k f (fst as) (snd as))" for y
    using assms(2) by (cases y) (simp_all add: option.const_mono)
  then show ?thesis unfolding go_on_def by (intro partial_function_mono assms(1))
qed

section \<open>Input\<close>

definition TINFL_GET_BYTE :: "u32 \<Rightarrow> u32 \<Rightarrow> tinfl_run \<Rightarrow> u8 tinfl_step" where
  "TINFL_GET_BYTE flags state_index s =
    (if pIn_buf_cur s = [] then
       if flags AND TINFL_FLAG_HAS_MORE_INPUT \<noteq> 0 then TINFL_CR_RETURN state_index TINFL_STATUS_NEEDS_MORE_INPUT s
       else here 0 s
     else here (hd (pIn_buf_cur s)) (s\<lparr>pIn_buf_cur := tl (pIn_buf_cur s)\<rparr>))"

definition add_byte :: "u8 \<Rightarrow> tinfl_run \<Rightarrow> tinfl_run" where
  "add_byte c s = s\<lparr>m_bit_buf := m_bit_buf s OR push_bit (unat (m_num_bits s)) (ucast c), m_num_bits := m_num_bits s + 8\<rparr>"

partial_function (option) TINFL_NEED_BITS :: "u32 \<Rightarrow> u32 \<Rightarrow> u32 \<Rightarrow> tinfl_run \<Rightarrow> unit tinfl_step" where
  "TINFL_NEED_BITS flags state_index n s =
    go_on (TINFL_GET_BYTE flags state_index s) (\<lambda>c s.
      let s = add_byte c s
      in if m_num_bits s < n then TINFL_NEED_BITS flags state_index n s else here () s)"

definition skip_bits :: "u32 \<Rightarrow> tinfl_run \<Rightarrow> tinfl_run" where
  "skip_bits n s = s\<lparr>m_bit_buf := drop_bit (unat n) (m_bit_buf s), m_num_bits := m_num_bits s - n\<rparr>"

definition TINFL_SKIP_BITS :: "u32 \<Rightarrow> u32 \<Rightarrow> u32 \<Rightarrow> tinfl_run \<Rightarrow> unit tinfl_step" where
  "TINFL_SKIP_BITS flags state_index n s =
    go_on (if m_num_bits s < n then TINFL_NEED_BITS flags state_index n s else here () s)
      (\<lambda>_ s. here () (skip_bits n s))"

definition TINFL_GET_BITS :: "u32 \<Rightarrow> u32 \<Rightarrow> u32 \<Rightarrow> tinfl_run \<Rightarrow> u32 tinfl_step" where
  "TINFL_GET_BITS flags state_index n s =
    go_on (if m_num_bits s < n then TINFL_NEED_BITS flags state_index n s else here () s)
      (\<lambda>_ s. here (m_bit_buf s AND (push_bit (unat n) 1 - 1)) (skip_bits n s))"

section \<open>Huffman codes\<close>

text \<open>\<open>m_look_up[bit_buf & (TINFL_FAST_LOOKUP_SIZE - 1)]\<close> and \<open>m_tree[~temp + ((bit_buf >> code_len) & 1)]\<close>.\<close>

definition look_up :: "tinfl_huff_table \<Rightarrow> u32 \<Rightarrow> int option" where
  "look_up pHuff bits = map_option sint (read_at (m_look_up pHuff) (unat (bits AND (TINFL_FAST_LOOKUP_SIZE - 1))))"

definition tree_step :: "tinfl_huff_table \<Rightarrow> u32 \<Rightarrow> int \<Rightarrow> nat \<Rightarrow> int option" where
  "tree_step pHuff bits temp code_len =
    (let i = - temp - 1 + uint (drop_bit code_len bits AND 1)
     in if i < 0 then None else map_option sint (read_at (m_tree pHuff) (nat i)))"

text \<open>\<open>do { temp = m_tree[...]; } while (temp < 0)\<close>, and with the bound on the bits at hand.\<close>

partial_function (option) tree_walk :: "tinfl_huff_table \<Rightarrow> u32 \<Rightarrow> int \<Rightarrow> nat \<Rightarrow> (int \<times> nat) option" where
  "tree_walk pHuff bits temp code_len =
    do {
      temp \<leftarrow> tree_step pHuff bits temp code_len;
      if temp < 0 then tree_walk pHuff bits temp (code_len + 1) else Some (temp, code_len + 1)
    }"

partial_function (option) tree_walk_bounded :: "tinfl_huff_table \<Rightarrow> u32 \<Rightarrow> nat \<Rightarrow> int \<Rightarrow> nat \<Rightarrow> int option" where
  "tree_walk_bounded pHuff bits num_bits temp code_len =
    do {
      temp \<leftarrow> tree_step pHuff bits temp code_len;
      if temp < 0 \<and> code_len + 2 \<le> num_bits then tree_walk_bounded pHuff bits num_bits temp (code_len + 1) else Some temp
    }"

text \<open>Whether the bits at hand are a whole code.\<close>

definition code_complete :: "tinfl_huff_table \<Rightarrow> tinfl_run \<Rightarrow> bool option" where
  "code_complete pHuff s =
    do {
      temp \<leftarrow> look_up pHuff (m_bit_buf s);
      if 0 \<le> temp then
        (let code_len = nat (drop_bit 9 temp) in Some (code_len \<noteq> 0 \<and> code_len \<le> unat (m_num_bits s)))
      else if TINFL_FAST_LOOKUP_BITS < unat (m_num_bits s) then
        map_option (\<lambda>temp. 0 \<le> temp) (tree_walk_bounded pHuff (m_bit_buf s) (unat (m_num_bits s)) temp TINFL_FAST_LOOKUP_BITS)
      else Some False
    }"

partial_function (option) TINFL_HUFF_BITBUF_FILL :: "u32 \<Rightarrow> u32 \<Rightarrow> tinfl_huff_table \<Rightarrow> tinfl_run \<Rightarrow> unit tinfl_step" where
  "TINFL_HUFF_BITBUF_FILL flags state_index pHuff s =
    do {
      complete \<leftarrow> code_complete pHuff s;
      if complete then here () s
      else go_on (TINFL_GET_BYTE flags state_index s) (\<lambda>c s.
        let s = add_byte c s
        in if m_num_bits s < 15 then TINFL_HUFF_BITBUF_FILL flags state_index pHuff s else here () s)
    }"

text \<open>The symbol at the head of the bit buffer, and the length of its code; \<open>TINFL_HUFF_DECODE\<close> cuts an
  entry of \<open>m_look_up\<close> to the symbol.\<close>

definition huff_symbol :: "tinfl_huff_table \<Rightarrow> u32 \<Rightarrow> (int \<times> nat) option" where
  "huff_symbol pHuff bits =
    do {
      temp \<leftarrow> look_up pHuff bits;
      if 0 \<le> temp then Some (temp, nat (drop_bit 9 temp))
      else tree_walk pHuff bits temp TINFL_FAST_LOOKUP_BITS
    }"

definition huff_symbol_cut :: "tinfl_huff_table \<Rightarrow> u32 \<Rightarrow> (int \<times> nat) option" where
  "huff_symbol_cut pHuff bits =
    do {
      temp \<leftarrow> look_up pHuff bits;
      if 0 \<le> temp then Some (temp AND 511, nat (drop_bit 9 temp))
      else tree_walk pHuff bits temp TINFL_FAST_LOOKUP_BITS
    }"

text \<open>Two bytes, the lower one first.\<close>

definition add_two_bytes :: "tinfl_run \<Rightarrow> tinfl_run" where
  "add_two_bytes s = (case pIn_buf_cur s of
      c0 # c1 # cs \<Rightarrow> s\<lparr>m_bit_buf := m_bit_buf s OR push_bit (unat (m_num_bits s)) (ucast c0) OR
          push_bit (unat (m_num_bits s) + 8) (ucast c1),
        pIn_buf_cur := cs, m_num_bits := m_num_bits s + 16\<rparr>
    | _ \<Rightarrow> s)"

definition TINFL_HUFF_DECODE :: "u32 \<Rightarrow> u32 \<Rightarrow> tinfl_huff_table \<Rightarrow> tinfl_run \<Rightarrow> u32 tinfl_step" where
  "TINFL_HUFF_DECODE flags state_index pHuff s =
    go_on (if m_num_bits s < 15 then
             if length (pIn_buf_cur s) < 2 then TINFL_HUFF_BITBUF_FILL flags state_index pHuff s
             else here () (add_two_bytes s)
           else here () s)
      (\<lambda>_ s. do {
        (temp, code_len) \<leftarrow> huff_symbol_cut pHuff (m_bit_buf s);
        here (word_of_int temp) (skip_bits (of_nat code_len) s)
      })"

section \<open>Building a table\<close>

definition write_at :: "'a list \<Rightarrow> nat \<Rightarrow> 'a \<Rightarrow> 'a list option" where
  "write_at xs i x = (if i < length xs then Some (xs[i := x]) else None)"

text \<open>\<open>total_syms[pTable->m_code_size[i]]++\<close>\<close>

primrec count_sizes :: "u8 list \<Rightarrow> u32 list \<Rightarrow> u32 list option" where
  "count_sizes [] total_syms = Some total_syms"
| "count_sizes (c # cs) total_syms =
    do {
      n \<leftarrow> read_at total_syms (unat c);
      total_syms \<leftarrow> write_at total_syms (unat c) (n + 1);
      count_sizes cs total_syms
    }"

text \<open>\<open>used_syms += total_syms[i]; next_code[i + 1] = (total = ((total + total_syms[i]) << 1))\<close>\<close>

primrec first_codes :: "nat list \<Rightarrow> u32 list \<Rightarrow> u32 \<times> u32 \<times> u32 list \<Rightarrow> u32 \<times> u32 \<times> u32 list" where
  "first_codes [] total_syms r = r"
| "first_codes (i # is) total_syms r =
    (case r of (used_syms, tot, next_code) \<Rightarrow>
       let used_syms = used_syms + total_syms ! i;
           tot = push_bit 1 (tot + total_syms ! i)
       in first_codes is total_syms (used_syms, tot, next_code[i + 1 := tot]))"

text \<open>\<open>while (rev_code < TINFL_FAST_LOOKUP_SIZE) { pTable->m_look_up[rev_code] = k; rev_code += (1 << code_size); }\<close>\<close>

partial_function (option) fill_look_up :: "nat \<Rightarrow> i16 \<Rightarrow> u32 \<Rightarrow> i16 list \<Rightarrow> i16 list option" where
  "fill_look_up code_size k rev_code tab =
    (if rev_code < TINFL_FAST_LOOKUP_SIZE then
       do { tab \<leftarrow> write_at tab (unat rev_code) k; fill_look_up code_size k (rev_code + push_bit code_size 1) tab }
     else Some tab)"

text \<open>The codes of more than \<open>TINFL_FAST_LOOKUP_BITS\<close> bits are paths in a tree.  A node is a negative number \<open>t\<close>;
  its two sons are at \<open>-t - 1\<close> and \<open>-t\<close> of \<open>m_tree\<close>, and 0 is a son that is not there.  \<open>grow_tree\<close> is the
  loop \<open>for (j = code_size; j > (TINFL_FAST_LOOKUP_BITS + 1); j--)\<close>.\<close>

definition tree_index :: "int \<Rightarrow> nat option" where
  "tree_index tree_cur = (if tree_cur < 0 then Some (nat (- tree_cur - 1)) else None)"

primrec grow_tree :: "nat \<Rightarrow> u32 \<Rightarrow> int \<times> int \<times> i16 list \<Rightarrow> (u32 \<times> int \<times> int \<times> i16 list) option" where
  "grow_tree 0 rev_code r = Some (rev_code, r)"
| "grow_tree (Suc n) rev_code r =
    (case r of (tree_cur, tree_next, tree) \<Rightarrow>
      do {
        let rev_code = drop_bit 1 rev_code;
        let tree_cur = tree_cur - uint (rev_code AND 1);
        i \<leftarrow> tree_index tree_cur;
        x \<leftarrow> read_at tree i;
        if x = 0 then do {
          tree \<leftarrow> write_at tree i (word_of_int tree_next);
          grow_tree n rev_code (tree_next, tree_next - 2, tree) }
        else grow_tree n rev_code (sint x, tree_next, tree)
      })"

text \<open>One symbol whose \<open>code_size\<close> is not 0.\<close>

definition add_symbol :: "nat \<Rightarrow> nat \<Rightarrow> u32 list \<times> int \<times> tinfl_huff_table \<Rightarrow> (u32 list \<times> int \<times> tinfl_huff_table) option" where
  "add_symbol sym_index code_size = (\<lambda>(next_code, tree_next, pTable).
    do {
      cur_code \<leftarrow> read_at next_code code_size;
      let next_code = next_code[code_size := cur_code + 1];
      let rev_code = huff_reverse code_size cur_code 0;
      if code_size \<le> TINFL_FAST_LOOKUP_BITS then do {
        let k = of_nat (code_size * 512) OR of_nat sym_index;
        tab \<leftarrow> fill_look_up code_size k rev_code (m_look_up pTable);
        Some (next_code, tree_next, pTable\<lparr>m_look_up := tab\<rparr>) }
      else do {
        let i = unat (rev_code AND (TINFL_FAST_LOOKUP_SIZE - 1));
        x \<leftarrow> read_at (m_look_up pTable) i;
        let (tree_cur, tree_next, tab) =
          (if x = 0 then (tree_next, tree_next - 2, (m_look_up pTable)[i := word_of_int tree_next])
           else (sint x, tree_next, m_look_up pTable));
        let rev_code = drop_bit (TINFL_FAST_LOOKUP_BITS - 1) rev_code;
        (rev_code, tree_cur, tree_next, tree) \<leftarrow>
          grow_tree (code_size - (TINFL_FAST_LOOKUP_BITS + 1)) rev_code (tree_cur, tree_next, m_tree pTable);
        let rev_code = drop_bit 1 rev_code;
        let tree_cur = tree_cur - uint (rev_code AND 1);
        i \<leftarrow> tree_index tree_cur;
        tree \<leftarrow> write_at tree i (of_nat sym_index);
        Some (next_code, tree_next, pTable\<lparr>m_look_up := tab, m_tree := tree\<rparr>) }
    })"

primrec add_symbols :: "nat \<Rightarrow> u8 list \<Rightarrow> u32 list \<times> int \<times> tinfl_huff_table \<Rightarrow> (u32 list \<times> int \<times> tinfl_huff_table) option" where
  "add_symbols sym_index [] r = Some r"
| "add_symbols sym_index (c # cs) r =
    do {
      r \<leftarrow> (if c = 0 then Some r else add_symbol sym_index (unat c) r);
      add_symbols (sym_index + 1) cs r
    }"

text \<open>The first part of the body of the loop over \<open>r->m_type\<close>; false for a code that is over- or
  undersubscribed.\<close>

definition build_table :: "nat \<Rightarrow> tinfl_huff_table \<Rightarrow> (bool \<times> tinfl_huff_table) option" where
  "build_table table_size pTable =
    do {
      let pTable = pTable\<lparr>m_look_up := replicate (length (m_look_up pTable)) 0, m_tree := replicate (length (m_tree pTable)) 0\<rparr>;
      total_syms \<leftarrow> count_sizes (take table_size (m_code_size pTable)) (replicate 16 0);
      let (used_syms, tot, next_code) = first_codes [1..<16] total_syms (0, 0, replicate 17 0);
      if tot \<noteq> 65536 \<and> 1 < used_syms then Some (False, pTable)
      else do {
        (_, _, pTable) \<leftarrow> add_symbols 0 (take table_size (m_code_size pTable)) (next_code, -1, pTable);
        Some (True, pTable) }
    }"

section \<open>The tables of a block\<close>

definition s_length_dezigzag :: "nat list" where
  "s_length_dezigzag = [16, 17, 18, 0, 8, 7, 9, 6, 10, 5, 11, 4, 12, 3, 13, 2, 14, 1, 15]"

definition s_min_table_sizes :: "u32 list" where
  "s_min_table_sizes = [257, 1, 4]"

definition set_code_size :: "nat \<Rightarrow> u8 list \<Rightarrow> tinfl_run \<Rightarrow> tinfl_run" where
  "set_code_size i sizes s = s\<lparr>m_tables := (m_tables s)[i := (m_tables s ! i)\<lparr>m_code_size := sizes\<rparr>]\<rparr>"

text \<open>The first entries of the array are replaced.\<close>

definition set_code_sizes :: "nat \<Rightarrow> u8 list \<Rightarrow> tinfl_run \<Rightarrow> tinfl_run" where
  "set_code_sizes i sizes s = set_code_size i (sizes @ drop (length sizes) (m_code_size (m_tables s ! i))) s"

definition fixed_sizes :: "tinfl_run \<Rightarrow> tinfl_run" where
  "fixed_sizes s =
    (let s = s\<lparr>m_table_sizes := (m_table_sizes s)[0 := 288, 1 := 32]\<rparr>;
         s = set_code_sizes 1 (replicate 32 5) s
     in set_code_sizes 0 (replicate 144 8 @ replicate 112 9 @ replicate 24 7 @ replicate 8 8) s)"

primrec get_table_sizes :: "u32 \<Rightarrow> nat list \<Rightarrow> tinfl_run \<Rightarrow> unit tinfl_step" where
  "get_table_sizes flags [] s = here () (s\<lparr>m_counter := 3\<rparr>)"
| "get_table_sizes flags (i # is) s =
    go_on (TINFL_GET_BITS flags 11 ([5, 5, 4] ! i) (s\<lparr>m_counter := of_nat i\<rparr>)) (\<lambda>b s.
      get_table_sizes flags is (s\<lparr>m_table_sizes := (m_table_sizes s)[i := b + s_min_table_sizes ! i]\<rparr>))"

primrec get_length_sizes :: "u32 \<Rightarrow> nat list \<Rightarrow> tinfl_run \<Rightarrow> unit tinfl_step" where
  "get_length_sizes flags [] s = here () (s\<lparr>m_counter := m_table_sizes s ! 2\<rparr>)"
| "get_length_sizes flags (i # is) s =
    go_on (TINFL_GET_BITS flags 14 3 (s\<lparr>m_counter := of_nat i\<rparr>)) (\<lambda>b s.
      do {
        k \<leftarrow> read_at s_length_dezigzag i;
        sizes \<leftarrow> write_at (m_code_size (m_tables s ! 2)) k (ucast b);
        get_length_sizes flags is (set_code_size 2 sizes s)
      })"

definition dynamic_sizes :: "u32 \<Rightarrow> tinfl_run \<Rightarrow> unit tinfl_step" where
  "dynamic_sizes flags s =
    go_on (get_table_sizes flags [0, 1, 2] s) (\<lambda>_ s.
    go_on (get_length_sizes flags [0..<unat (m_table_sizes s ! 2)]
        (set_code_size 2 (replicate (length (m_code_size (m_tables s ! 2))) 0) s)) (\<lambda>_ s.
    here () (s\<lparr>m_table_sizes := (m_table_sizes s)[2 := 19]\<rparr>)))"

text \<open>\<open>TINFL_MEMSET(r->m_len_codes + counter, x, n)\<close>\<close>

definition fill_codes :: "nat \<Rightarrow> nat \<Rightarrow> u8 \<Rightarrow> u8 list \<Rightarrow> u8 list option" where
  "fill_codes i n x codes = (if i + n \<le> length codes then Some (take i codes @ replicate n x @ drop (i + n) codes) else None)"

partial_function (option) get_len_codes :: "u32 \<Rightarrow> tinfl_run \<Rightarrow> unit tinfl_step" where
  "get_len_codes flags s =
    (if m_counter s < m_table_sizes s ! 0 + m_table_sizes s ! 1 then
       go_on (TINFL_HUFF_DECODE flags 16 (m_tables s ! 2) s) (\<lambda>sym s.
         let s = s\<lparr>m_dist := sym\<rparr>
         in if sym < 16 then do {
              codes \<leftarrow> write_at (m_len_codes s) (unat (m_counter s)) (ucast sym);
              get_len_codes flags (s\<lparr>m_len_codes := codes, m_counter := m_counter s + 1\<rparr>) }
            else if sym = 16 \<and> m_counter s = 0 then TINFL_CR_RETURN 17 TINFL_STATUS_FAILED s
            else do {
              num_extra \<leftarrow> read_at [2, 3, 7] (unat (sym - 16));
              base \<leftarrow> read_at [3, 3, 11] (unat (sym - 16));
              go_on (TINFL_GET_BITS flags 18 num_extra (s\<lparr>m_num_extra := num_extra\<rparr>)) (\<lambda>x s.
                do {
                  let n = x + base;
                  let c = (if m_dist s = 16 then m_len_codes s ! unat (m_counter s - 1) else 0);
                  codes \<leftarrow> fill_codes (unat (m_counter s)) (unat n) c (m_len_codes s);
                  get_len_codes flags (s\<lparr>m_len_codes := codes, m_counter := m_counter s + n\<rparr>)
                }) })
     else here () s)"

definition get_code_lengths :: "u32 \<Rightarrow> tinfl_run \<Rightarrow> unit tinfl_step" where
  "get_code_lengths flags s =
    go_on (get_len_codes flags (s\<lparr>m_counter := 0\<rparr>)) (\<lambda>_ s.
      let n = m_table_sizes s ! 0; m = m_table_sizes s ! 1
      in if n + m \<noteq> m_counter s then TINFL_CR_RETURN 21 TINFL_STATUS_FAILED s
         else here () (set_code_sizes 1 (take (unat m) (drop (unat n) (m_len_codes s)))
           (set_code_sizes 0 (take (unat n) (m_len_codes s)) s)))"

text \<open>The loop \<open>for ( ; (int)r->m_type >= 0; r->m_type--)\<close>, from \<open>m_type\<close> down to 0.\<close>

definition make_table :: "u32 \<Rightarrow> nat \<Rightarrow> tinfl_run \<Rightarrow> unit tinfl_step" where
  "make_table flags i s =
    do {
      (ok, pTable) \<leftarrow> build_table (unat (m_table_sizes s ! i)) (m_tables s ! i);
      let s = s\<lparr>m_tables := (m_tables s)[i := pTable]\<rparr>;
      if \<not> ok then TINFL_CR_RETURN 35 TINFL_STATUS_FAILED s
      else go_on (if i = 2 then get_code_lengths flags s else here () s) (\<lambda>_ s.
        here () (s\<lparr>m_type := m_type s - 1\<rparr>))
    }"

primrec make_tables :: "u32 \<Rightarrow> nat \<Rightarrow> tinfl_run \<Rightarrow> unit tinfl_step" where
  "make_tables flags 0 s = make_table flags 0 s"
| "make_tables flags (Suc i) s = go_on (make_table flags (Suc i) s) (\<lambda>_ s. make_tables flags i s)"

section \<open>Stored blocks\<close>

text \<open>\<open>*pOut_buf_cur++ = b\<close>\<close>

definition put_byte :: "u8 \<Rightarrow> tinfl_run \<Rightarrow> tinfl_run option" where
  "put_byte b s =
    do { buf \<leftarrow> write_at (pOut_buf s) (pOut_buf_cur s) b; Some (s\<lparr>pOut_buf := buf, pOut_buf_cur := pOut_buf_cur s + 1\<rparr>) }"

definition out_full :: "tinfl_run \<Rightarrow> bool" where
  "out_full s \<longleftrightarrow> length (pOut_buf s) \<le> pOut_buf_cur s"

text \<open>A byte from the bit buffer, or from the input when the bit buffer is empty.\<close>

definition get_aligned_byte :: "u32 \<Rightarrow> u32 \<Rightarrow> u32 \<Rightarrow> tinfl_run \<Rightarrow> u32 tinfl_step" where
  "get_aligned_byte flags bits_index byte_index s =
    (if m_num_bits s \<noteq> 0 then TINFL_GET_BITS flags bits_index 8 s
     else go_on (TINFL_GET_BYTE flags byte_index s) (\<lambda>c s. here (ucast c) s))"

primrec get_raw_header :: "u32 \<Rightarrow> nat list \<Rightarrow> tinfl_run \<Rightarrow> unit tinfl_step" where
  "get_raw_header flags [] s = here () (s\<lparr>m_counter := 4\<rparr>)"
| "get_raw_header flags (i # is) s =
    go_on (get_aligned_byte flags 6 7 (s\<lparr>m_counter := of_nat i\<rparr>)) (\<lambda>b s.
      get_raw_header flags is (s\<lparr>m_raw_header := (m_raw_header s)[i := ucast b]\<rparr>))"

partial_function (option) raw_from_bits :: "u32 \<Rightarrow> tinfl_run \<Rightarrow> unit tinfl_step" where
  "raw_from_bits flags s =
    (if m_counter s \<noteq> 0 \<and> m_num_bits s \<noteq> 0 then
       go_on (TINFL_GET_BITS flags 51 8 s) (\<lambda>b s.
         let s = s\<lparr>m_dist := b\<rparr>
         in if out_full s then TINFL_CR_RETURN 52 TINFL_STATUS_HAS_MORE_OUTPUT s
            else do { s \<leftarrow> put_byte (ucast b) s; raw_from_bits flags (s\<lparr>m_counter := m_counter s - 1\<rparr>) })
     else here () s)"

partial_function (option) raw_from_input :: "u32 \<Rightarrow> tinfl_run \<Rightarrow> unit tinfl_step" where
  "raw_from_input flags s =
    (if m_counter s \<noteq> 0 then
       if out_full s then TINFL_CR_RETURN 9 TINFL_STATUS_HAS_MORE_OUTPUT s
       else if pIn_buf_cur s = [] then
         if flags AND TINFL_FLAG_HAS_MORE_INPUT \<noteq> 0 then TINFL_CR_RETURN 38 TINFL_STATUS_NEEDS_MORE_INPUT s
         else TINFL_CR_RETURN 40 TINFL_STATUS_FAILED s
       else
         let n = min (min (length (pOut_buf s) - pOut_buf_cur s) (length (pIn_buf_cur s))) (unat (m_counter s))
         in raw_from_input flags (s\<lparr>
              pOut_buf := take (pOut_buf_cur s) (pOut_buf s) @ take n (pIn_buf_cur s) @ drop (pOut_buf_cur s + n) (pOut_buf s),
              pIn_buf_cur := drop n (pIn_buf_cur s), pOut_buf_cur := pOut_buf_cur s + n, m_counter := m_counter s - of_nat n\<rparr>)
     else here () s)"

definition raw_block :: "u32 \<Rightarrow> tinfl_run \<Rightarrow> unit tinfl_step" where
  "raw_block flags s =
    go_on (TINFL_SKIP_BITS flags 5 (m_num_bits s AND 7) s) (\<lambda>_ s.
    go_on (get_raw_header flags [0, 1, 2, 3] s) (\<lambda>_ s.
      let h = (\<lambda>i. ucast (m_raw_header s ! i) :: u32);
          len = h 0 OR push_bit 8 (h 1);
          s = s\<lparr>m_counter := len\<rparr>
      in if len \<noteq> 0xFFFF XOR (h 2 OR push_bit 8 (h 3)) then TINFL_CR_RETURN 39 TINFL_STATUS_FAILED s
         else go_on (raw_from_bits flags s) (\<lambda>_ s. raw_from_input flags s)))"

section \<open>Compressed blocks\<close>

definition s_length_base :: "u32 list" where
  "s_length_base = [3, 4, 5, 6, 7, 8, 9, 10, 11, 13, 15, 17, 19, 23, 27, 31, 35, 43, 51, 59, 67, 83, 99, 115,
     131, 163, 195, 227, 258, 0, 0]"

definition s_length_extra :: "u32 list" where
  "s_length_extra = [0, 0, 0, 0, 0, 0, 0, 0, 1, 1, 1, 1, 2, 2, 2, 2, 3, 3, 3, 3, 4, 4, 4, 4, 5, 5, 5, 5, 0, 0, 0]"

definition s_dist_base :: "u32 list" where
  "s_dist_base = [1, 2, 3, 4, 5, 7, 9, 13, 17, 25, 33, 49, 65, 97, 129, 193, 257, 385, 513, 769, 1025, 1537,
     2049, 3073, 4097, 6145, 8193, 12289, 16385, 24577, 0, 0]"

definition s_dist_extra :: "u32 list" where
  "s_dist_extra = [0, 0, 0, 0, 1, 1, 2, 2, 3, 3, 4, 4, 5, 5, 6, 6, 7, 7, 8, 8, 9, 9, 10, 10, 11, 11, 12, 12,
     13, 13, 0, 0]"

text \<open>The inner loop, which ends with the symbol of a match or of the end of the block in \<open>m_counter\<close>; away from
  the ends of the buffers it takes two symbols at a time.\<close>

definition refill :: "tinfl_run \<Rightarrow> tinfl_run" where
  "refill s = (if m_num_bits s < 15 then add_two_bytes s else s)"

partial_function (option) get_literals :: "u32 \<Rightarrow> tinfl_run \<Rightarrow> unit tinfl_step" where
  "get_literals flags s =
    (if length (pIn_buf_cur s) < 4 \<or> length (pOut_buf s) < pOut_buf_cur s + 2 then
       go_on (TINFL_HUFF_DECODE flags 23 (m_tables s ! 0) s) (\<lambda>sym s.
         let s = s\<lparr>m_counter := sym\<rparr>
         in if 256 \<le> sym then here () s
            else if out_full s then TINFL_CR_RETURN 24 TINFL_STATUS_HAS_MORE_OUTPUT s
            else do { s \<leftarrow> put_byte (ucast sym) s; get_literals flags s })
     else do {
       let s = refill s;
       (sym2, code_len) \<leftarrow> huff_symbol (m_tables s ! 0) (m_bit_buf s);
       let s = skip_bits (of_nat code_len) (s\<lparr>m_counter := word_of_int sym2\<rparr>);
       if m_counter s AND 256 \<noteq> 0 then here () s
       else do {
         let s = refill s;
         (sym2, code_len) \<leftarrow> huff_symbol (m_tables s ! 0) (m_bit_buf s);
         let s = skip_bits (of_nat code_len) s;
         s \<leftarrow> put_byte (ucast (m_counter s)) s;
         if sym2 AND 256 \<noteq> 0 then here () (s\<lparr>m_counter := word_of_int sym2\<rparr>)
         else do { s \<leftarrow> put_byte (word_of_int sym2) s; get_literals flags s } } })"

text \<open>\<open>*pOut_buf_cur++ = pOut_buf_start[...]\<close>\<close>

definition copy_byte :: "nat \<Rightarrow> tinfl_run \<Rightarrow> tinfl_run option" where
  "copy_byte src s = do { b \<leftarrow> read_at (pOut_buf s) src; put_byte b s }"

text \<open>\<open>while (counter--)\<close>\<close>

partial_function (option) copy_slowly :: "u32 \<Rightarrow> tinfl_run \<Rightarrow> unit tinfl_step" where
  "copy_slowly out_mask s =
    (let counter = m_counter s; s = s\<lparr>m_counter := m_counter s - 1\<rparr>
     in if counter \<noteq> 0 then
          if out_full s then TINFL_CR_RETURN 53 TINFL_STATUS_HAS_MORE_OUTPUT s
          else do {
            s' \<leftarrow> copy_byte (unat ((m_dist_from_out_buf_start s - m_dist s) AND out_mask)) s;
            copy_slowly out_mask (s'\<lparr>m_dist_from_out_buf_start := m_dist_from_out_buf_start s + 1\<rparr>) }
        else here () s)"

text \<open>\<open>do { ... } while ((int)(counter -= 3) > 2)\<close>\<close>

partial_function (option) copy_by_3 :: "nat \<Rightarrow> int \<Rightarrow> tinfl_run \<Rightarrow> (nat \<times> int \<times> tinfl_run) option" where
  "copy_by_3 src counter s =
    do {
      s \<leftarrow> copy_byte src s;
      s \<leftarrow> copy_byte (src + 1) s;
      s \<leftarrow> copy_byte (src + 2) s;
      if 2 < counter - 3 then copy_by_3 (src + 3) (counter - 3) s else Some (src + 3, counter - 3, s)
    }"

definition copy_fast :: "nat \<Rightarrow> tinfl_run \<Rightarrow> tinfl_run option" where
  "copy_fast src s =
    do {
      (src, counter, s) \<leftarrow> copy_by_3 src (sint (m_counter s)) s;
      s \<leftarrow> (if 0 < counter then copy_byte src s else Some s);
      s \<leftarrow> (if 1 < counter then copy_byte (src + 1) s else Some s);
      Some (s\<lparr>m_counter := word_of_int counter\<rparr>)
    }"

text \<open>The length and the distance of a match, and the copy.\<close>

definition add_extra :: "u32 \<Rightarrow> u32 \<Rightarrow> u32 \<Rightarrow> tinfl_run \<Rightarrow> u32 tinfl_step" where
  "add_extra flags state_index base s =
    (if m_num_extra s \<noteq> 0 then go_on (TINFL_GET_BITS flags state_index (m_num_extra s) s) (\<lambda>b s. here (base + b) s)
     else here base s)"

definition get_match :: "u32 \<Rightarrow> tinfl_run \<Rightarrow> unit tinfl_step" where
  "get_match flags s =
    do {
      num_extra \<leftarrow> read_at s_length_extra (unat (m_counter s - 257));
      base \<leftarrow> read_at s_length_base (unat (m_counter s - 257));
      go_on (add_extra flags 25 base (s\<lparr>m_num_extra := num_extra, m_counter := base\<rparr>)) (\<lambda>counter s.
      go_on (TINFL_HUFF_DECODE flags 26 (m_tables s ! 1) (s\<lparr>m_counter := counter\<rparr>)) (\<lambda>sym s.
        do {
          num_extra \<leftarrow> read_at s_dist_extra (unat sym);
          base \<leftarrow> read_at s_dist_base (unat sym);
          go_on (add_extra flags 27 base (s\<lparr>m_num_extra := num_extra, m_dist := base\<rparr>)) (\<lambda>d s.
            here () (s\<lparr>m_dist := d, m_dist_from_out_buf_start := of_nat (pOut_buf_cur s)\<rparr>)) }))
    }"

definition copy_match_bytes :: "u32 \<Rightarrow> u32 \<Rightarrow> tinfl_run \<Rightarrow> unit tinfl_step" where
  "copy_match_bytes flags out_mask s =
    (if m_dist_from_out_buf_start s < m_dist s \<and> flags AND TINFL_FLAG_USING_NON_WRAPPING_OUTPUT_BUF \<noteq> 0
     then TINFL_CR_RETURN 37 TINFL_STATUS_FAILED s
     else
       let src = unat ((m_dist_from_out_buf_start s - m_dist s) AND out_mask)
       in if length (pOut_buf s) < max (pOut_buf_cur s) src + unat (m_counter s) then copy_slowly out_mask s
          else do { s \<leftarrow> copy_fast src s; here () s })"

partial_function (option) get_items :: "u32 \<Rightarrow> u32 \<Rightarrow> tinfl_run \<Rightarrow> unit tinfl_step" where
  "get_items flags out_mask s =
    go_on (get_literals flags s) (\<lambda>_ s.
      let s = s\<lparr>m_counter := m_counter s AND 511\<rparr>
      in if m_counter s = 256 then here () s
         else go_on (get_match flags s) (\<lambda>_ s.
              go_on (copy_match_bytes flags out_mask s) (\<lambda>_ s.
              get_items flags out_mask s)))"

section \<open>\<open>tinfl_decompress\<close>\<close>

definition one_block :: "u32 \<Rightarrow> u32 \<Rightarrow> tinfl_run \<Rightarrow> unit tinfl_step" where
  "one_block flags out_mask s =
    go_on (TINFL_GET_BITS flags 3 3 s) (\<lambda>b s.
      let s = s\<lparr>m_final := b, m_type := drop_bit 1 b\<rparr>
      in if m_type s = 0 then raw_block flags s
         else if m_type s = 3 then TINFL_CR_RETURN 10 TINFL_STATUS_FAILED s
         else go_on (if m_type s = 1 then here () (fixed_sizes s) else dynamic_sizes flags s) (\<lambda>_ s.
              go_on (make_tables flags (unat (m_type s)) s) (\<lambda>_ s.
              get_items flags out_mask s)))"

partial_function (option) blocks :: "u32 \<Rightarrow> u32 \<Rightarrow> tinfl_run \<Rightarrow> unit tinfl_step" where
  "blocks flags out_mask s =
    go_on (one_block flags out_mask s) (\<lambda>_ s. if m_final s AND 1 = 0 then blocks flags out_mask s else here () s)"

definition zlib_header_bad :: "u32 \<Rightarrow> u32 \<Rightarrow> tinfl_run \<Rightarrow> bool" where
  "zlib_header_bad flags out_mask s \<longleftrightarrow>
    (m_zhdr0 s * 256 + m_zhdr1 s) mod 31 \<noteq> 0 \<or> m_zhdr1 s AND 32 \<noteq> 0 \<or> m_zhdr0 s AND 15 \<noteq> 8 \<or>
    (flags AND TINFL_FLAG_USING_NON_WRAPPING_OUTPUT_BUF = 0 \<and>
      (let window = push_bit (unat (8 + drop_bit 4 (m_zhdr0 s))) 1 in 32768 < window \<or> out_mask + 1 < window))"

definition get_zlib_header :: "u32 \<Rightarrow> u32 \<Rightarrow> tinfl_run \<Rightarrow> unit tinfl_step" where
  "get_zlib_header flags out_mask s =
    go_on (TINFL_GET_BYTE flags 1 s) (\<lambda>c s.
    go_on (TINFL_GET_BYTE flags 2 (s\<lparr>m_zhdr0 := ucast c\<rparr>)) (\<lambda>c s.
      let s = s\<lparr>m_zhdr1 := ucast c\<rparr>; s = s\<lparr>m_counter := of_bool (zlib_header_bad flags out_mask s)\<rparr>
      in if m_counter s \<noteq> 0 then TINFL_CR_RETURN 36 TINFL_STATUS_FAILED s else here () s))"

primrec get_adler :: "u32 \<Rightarrow> nat list \<Rightarrow> tinfl_run \<Rightarrow> unit tinfl_step" where
  "get_adler flags [] s = here () (s\<lparr>m_counter := 4\<rparr>)"
| "get_adler flags (i # is) s =
    go_on (get_aligned_byte flags 41 42 (s\<lparr>m_counter := of_nat i\<rparr>)) (\<lambda>b s.
      get_adler flags is (s\<lparr>m_z_adler32 := push_bit 8 (m_z_adler32 s) OR b\<rparr>))"

definition tinfl_body :: "u32 \<Rightarrow> u32 \<Rightarrow> tinfl_run \<Rightarrow> unit tinfl_step" where
  "tinfl_body flags out_mask s =
    (let s = s\<lparr>m_bit_buf := 0, m_num_bits := 0, m_dist := 0, m_counter := 0, m_num_extra := 0, m_zhdr0 := 0, m_zhdr1 := 0,
           m_z_adler32 := 1, m_check_adler32 := 1\<rparr>;
         zlib = (flags AND TINFL_FLAG_PARSE_ZLIB_HEADER \<noteq> 0)
     in go_on (if zlib then get_zlib_header flags out_mask s else here () s) (\<lambda>_ s.
        go_on (blocks flags out_mask s) (\<lambda>_ s.
        go_on (if zlib then go_on (TINFL_SKIP_BITS flags 32 (m_num_bits s AND 7) s) (\<lambda>_ s. get_adler flags [0, 1, 2, 3] s)
               else here () s) (\<lambda>_ s.
        TINFL_CR_RETURN 34 TINFL_STATUS_DONE s))))"

text \<open>The loops of \<open>common_exit\<close> are those of \<open>mz_adler32\<close>.\<close>

definition common_exit :: "u32 \<Rightarrow> u8 list \<Rightarrow> tinfl_status \<times> tinfl_run \<Rightarrow> tinfl_status \<times> tinfl_run" where
  "common_exit flags written = (\<lambda>(status, s).
    if flags AND (TINFL_FLAG_PARSE_ZLIB_HEADER OR TINFL_FLAG_COMPUTE_ADLER32) \<noteq> 0 \<and>
       status \<notin> {TINFL_STATUS_BAD_PARAM, TINFL_STATUS_ADLER32_MISMATCH, TINFL_STATUS_FAILED}
    then
      let (s1, s2) = adler_blocks (length written) (length written mod 5552) written
            (m_check_adler32 s AND 0xffff, drop_bit 16 (m_check_adler32 s));
          s = s\<lparr>m_check_adler32 := push_bit 16 s2 + s1\<rparr>
      in (if status = TINFL_STATUS_DONE \<and> flags AND TINFL_FLAG_PARSE_ZLIB_HEADER \<noteq> 0 \<and> m_check_adler32 s \<noteq> m_z_adler32 s
          then TINFL_STATUS_ADLER32_MISMATCH else status, s)
    else (status, s))"

text \<open>\<open>out\<close> is the buffer from \<open>pOut_buf_start\<close> to its end, \<open>next_ofs\<close> the place of \<open>pOut_buf_next\<close>.  The
  result: the status, the structure, the bytes read, the buffer and the bytes written.\<close>

definition tinfl_decompress :: "tinfl_decompressor \<Rightarrow> u8 list \<Rightarrow> u8 list \<Rightarrow> nat \<Rightarrow> u32 \<Rightarrow>
    (tinfl_status \<times> tinfl_decompressor \<times> nat \<times> u8 list \<times> nat) option" where
  "tinfl_decompress r inp out next_ofs flags =
    (let out_mask = (if flags AND TINFL_FLAG_USING_NON_WRAPPING_OUTPUT_BUF \<noteq> 0 then -1 else of_nat (length out) - 1)
     in if (out_mask + 1) AND out_mask \<noteq> 0 then Some (TINFL_STATUS_BAD_PARAM, r, 0, out, 0)
        else if m_state r \<noteq> 0 then None
        else do {
          e \<leftarrow> tinfl_body flags out_mask (tinfl_decompressor.extend r
            (tinfl_run.fields inp out next_ofs));
          let sr = (case e of Inl sr \<Rightarrow> sr | Inr as \<Rightarrow> (TINFL_STATUS_FAILED, snd as));
          let n = pOut_buf_cur (snd sr) - next_ofs;
          let (status, s) = common_exit flags (take n (drop next_ofs (pOut_buf (snd sr)))) sr;
          Some (status, tinfl_decompressor.truncate s, length inp - length (pIn_buf_cur s), pOut_buf s, n)
        })"

definition tinfl_init :: "tinfl_decompressor \<Rightarrow> tinfl_decompressor" where
  "tinfl_init r = r\<lparr>m_state := 0\<rparr>"

definition tinfl_get_adler32 :: "tinfl_decompressor \<Rightarrow> u32" where
  "tinfl_get_adler32 r = m_check_adler32 r"

text \<open>\<open>decomp\<close> is a local variable, with any contents.\<close>

definition tinfl_decompress_mem_to_mem :: "tinfl_decompressor \<Rightarrow> u8 list \<Rightarrow> u8 list \<Rightarrow> u32 \<Rightarrow> (u32 \<times> u8 list) option" where
  "tinfl_decompress_mem_to_mem decomp out inp flags =
    do {
      (status, decomp, in_len, out, out_len) \<leftarrow> tinfl_decompress (tinfl_init decomp) inp out 0
        ((flags AND NOT TINFL_FLAG_HAS_MORE_INPUT) OR TINFL_FLAG_USING_NON_WRAPPING_OUTPUT_BUF);
      Some (if status \<noteq> TINFL_STATUS_DONE then -1 else of_nat out_len, out)
    }"

end
