(* ===== verification/Mz_Trie.thy ===== *)
theory Mz_Trie
  imports Mz_Tinfl "HOL-Library.Sublist"
begin

unbundle bit_operations_syntax

text \<open>
  The tables of the decompressor (\<open>proj/sparc-prog/miniz.c\<close>): what \<open>add_symbol\<close> leaves in \<open>m_look_up\<close> and
  \<open>m_tree\<close>.  Codes are lists of bits in the order of the stream.  A code of at most ten bits fills
  all entries of \<open>m_look_up\<close> that begin with it; a longer one is a path through nodes of the tree.
\<close>

section \<open>Bits as indices\<close>

definition path_index :: "bool list \<Rightarrow> nat" where
  "path_index p = horner_sum of_bool 2 p"

lemma path_index_simps [simp]: "path_index [] = 0" "path_index (b # p) = of_bool b + 2 * path_index p"
  by (simp_all add: path_index_def)

lemma path_index_less: "path_index p < 2 ^ length p"
proof (induction p)
  case (Cons b p)
  then show ?case by (cases b) simp_all
qed simp

lemma path_index_inj: "length p = length q \<Longrightarrow> path_index p = path_index q \<Longrightarrow> p = q"
proof (induction p q rule: list_induct2)
  case (Cons x xs y ys)
  have "path_index (x # xs) mod 2 = path_index (y # ys) mod 2" using Cons.prems by simp
  then have "x = y" by (cases x; cases y) simp_all
  then show ?case using Cons by simp
qed simp

lemma path_index_mod: "path_index p mod 2 ^ k = path_index (take k p)"
proof (induction p arbitrary: k)
  case (Cons b p)
  show ?case
  proof (cases k)
    case (Suc n)
    have "(of_bool b + 2 * path_index p) mod (2 * 2 ^ n) = of_bool b + 2 * (path_index p mod 2 ^ n)"
      by (cases b) (simp_all add: mod_mult2_eq mult.commute [of _ "2::nat"] mod_mult_mult1 add_mult_distrib2)
    then show ?thesis using Cons Suc by simp
  qed simp
qed simp

lemma path_index_low: "k \<le> LENGTH('a) \<Longrightarrow> path_index (low_bits k (w :: 'a :: len word)) = take_bit k (unat w)"
proof -
  assume "k \<le> LENGTH('a)"
  then have "low_bits k w = map (bit (unat w)) [0..<k]" by (simp add: low_bits_def bit_unsigned_iff)
  then show ?thesis by (simp add: path_index_def horner_sum_bit_eq_take_bit)
qed

lemma path_index_surj:
  assumes "i < 2 ^ k"
  shows "\<exists>p. length p = k \<and> path_index p = i"
  using assms
proof (induction k arbitrary: i)
  case (Suc k)
  then have "i div 2 < 2 ^ k" by simp
  from Suc.IH [OF this] obtain p where "length p = k" "path_index p = i div 2" by blast
  then show ?case by (intro exI [of _ "odd i # p"]) simp
qed simp

lemma prefix_path_index:
  assumes "length p = 10" and "length q \<le> 10"
  shows "prefix q p \<longleftrightarrow> path_index p mod 2 ^ length q = path_index q"
proof
  assume "prefix q p"
  then have "take (length q) p = q" by (auto simp: prefix_def)
  then show "path_index p mod 2 ^ length q = path_index q" by (simp add: path_index_mod)
next
  assume "path_index p mod 2 ^ length q = path_index q"
  then have "path_index (take (length q) p) = path_index q" by (simp add: path_index_mod)
  then have "take (length q) p = q" using assms by (intro path_index_inj) simp_all
  then show "prefix q p" by (metis take_is_prefix)
qed

section \<open>Filling \<open>m_look_up\<close>\<close>

lemma fill_step:
  assumes "code_size \<le> 10" and "rev_code < (1024 :: u32)"
  shows "unat (rev_code + push_bit code_size 1) = unat rev_code + 2 ^ code_size"
proof -
  have p: "(2::nat) ^ code_size \<le> 2 ^ 10" using assms(1) by (intro power_increasing) simp_all
  then have q: "unat (push_bit code_size 1 :: u32) = 2 ^ code_size"
  proof -
    have "(push_bit code_size 1 :: u32) = of_nat (2 ^ code_size)" by (simp add: push_bit_of_1)
    then show ?thesis using p by (simp only: unat_of_nat) (simp add: take_bit_nat_eq_self)
  qed
  show ?thesis using p q assms(2) by (subst unat_add_lem [THEN iffD1]) (simp_all add: word_less_nat_alt)
qed

lemma fill_look_up_result:
  assumes "code_size \<le> 10" and "length tab = 1024"
  shows "\<exists>tab'. fill_look_up code_size k rev_code tab = Some tab' \<and> length tab' = 1024 \<and>
    (\<forall>i < 1024. tab' ! i = (if unat rev_code \<le> i \<and> i mod 2 ^ code_size = unat rev_code mod 2 ^ code_size then k else tab ! i))"
  using assms(2)
proof (induction "1024 - unat rev_code" arbitrary: rev_code tab rule: less_induct)
  case less
  show ?case
  proof (cases "rev_code < 1024")
    case False
    then show ?thesis using less.prems
      by (subst fill_look_up.simps) (simp add: TINFL_FAST_LOOKUP_SIZE_def TINFL_FAST_LOOKUP_BITS_def word_less_nat_alt)
  next
    case True
    then have u: "unat rev_code < 1024" by (simp add: word_less_nat_alt)
    note s = fill_step [OF assms(1) True]
    have "0 < (2::nat) ^ code_size" by simp
    then have d: "1024 - unat (rev_code + push_bit code_size 1) < 1024 - unat rev_code" using s u by linarith
    obtain tab' where t: "fill_look_up code_size k (rev_code + push_bit code_size 1) (tab[unat rev_code := k]) = Some tab'"
      "length tab' = 1024" "\<forall>i < 1024. tab' ! i = (if unat (rev_code + push_bit code_size 1) \<le> i \<and>
        i mod 2 ^ code_size = unat (rev_code + push_bit code_size 1) mod 2 ^ code_size then k else tab[unat rev_code := k] ! i)"
      using less.hyps [OF d, of "tab[unat rev_code := k]"] less.prems by auto
    have "fill_look_up code_size k rev_code tab = Some tab'"
      using True t(1) u less.prems
      by (subst fill_look_up.simps) (simp add: TINFL_FAST_LOOKUP_SIZE_def TINFL_FAST_LOOKUP_BITS_def write_at_def)
    moreover have "tab' ! i = (if unat rev_code \<le> i \<and> i mod 2 ^ code_size = unat rev_code mod 2 ^ code_size then k else tab ! i)"
      if i: "i < 1024" for i
    proof -
      have "(unat rev_code + 2 ^ code_size) mod 2 ^ code_size = unat rev_code mod 2 ^ code_size" by simp
      moreover have "i = unat rev_code \<or> unat rev_code + 2 ^ code_size \<le> i"
        if "unat rev_code \<le> i" "i mod 2 ^ code_size = unat rev_code mod 2 ^ code_size"
      proof (cases "i = unat rev_code")
        case False
        then have "0 < i - unat rev_code" "2 ^ code_size dvd i - unat rev_code"
          using that by (simp_all add: mod_eq_dvd_iff_nat)
        then show ?thesis using that(1) by (auto dest: dvd_imp_le)
      qed simp
      ultimately show ?thesis using t(3) i s less.prems u by (auto simp: nth_list_update)
    qed
    ultimately show ?thesis using t(2) by blast
  qed
qed

text \<open>The entries that begin with a code.\<close>

lemma fill_look_up_path:
  assumes "length tab = 1024" and "length q \<le> 10" and "unat rev_code = path_index q"
  shows "\<exists>tab'. fill_look_up (length q) k rev_code tab = Some tab' \<and> length tab' = 1024 \<and>
    (\<forall>p. length p = 10 \<longrightarrow> tab' ! path_index p = (if prefix q p then k else tab ! path_index p))"
proof -
  obtain tab' where t: "fill_look_up (length q) k rev_code tab = Some tab'" "length tab' = 1024"
    "\<forall>i < 1024. tab' ! i = (if unat rev_code \<le> i \<and> i mod 2 ^ length q = unat rev_code mod 2 ^ length q then k else tab ! i)"
    using fill_look_up_result [OF assms(2,1)] by blast
  have "tab' ! path_index p = (if prefix q p then k else tab ! path_index p)" if p: "length p = 10" for p
  proof -
    have "path_index p < 1024" using path_index_less [of p] p by simp
    moreover have "path_index q mod 2 ^ length q = path_index q" using path_index_less [of q] by simp
    moreover have "path_index q \<le> path_index p" if "path_index p mod 2 ^ length q = path_index q"
      using that mod_less_eq_dividend by metis
    ultimately show ?thesis using t(3) prefix_path_index [OF p assms(2)] assms(3) by auto
  qed
  then show ?thesis using t(1,2) by blast
qed

section \<open>The tree\<close>

definition node :: "nat \<Rightarrow> int" where
  "node j = - 1 - 2 * int j"

lemma node_sons: "tree_index (node j - of_bool b) = Some (2 * j + of_bool b)"
  by (cases b) (simp_all add: tree_index_def node_def nat_add_distrib nat_mult_distrib)

lemma node_Suc: "node j - 2 = node (Suc j)"
  by (simp add: node_def)

lemma node_less: "node j < 0"
  by (simp add: node_def)

lemma node_inj [simp]: "node i = node j \<longleftrightarrow> i = j"
  by (simp add: node_def)

lemma sint_small: "- 32768 \<le> x \<Longrightarrow> x < 32768 \<Longrightarrow> sint (word_of_int x :: i16) = x"
  by (simp add: signed_of_int signed_take_bit_int_eq_self)

lemma sint_node: "j < 1000 \<Longrightarrow> sint (word_of_int (node j) :: i16) = node j"
  by (rule sint_small) (simp_all add: node_def)

text \<open>An entry for the bits \<open>q\<close>: the value of a symbol that matches, the node that \<open>q\<close> leads to, or else 0.\<close>

definition entry_ok :: "(nat \<Rightarrow> bool) \<Rightarrow> (nat \<Rightarrow> int) \<Rightarrow> nat set \<Rightarrow> nat \<Rightarrow> (nat \<Rightarrow> bool list) \<Rightarrow> bool list \<Rightarrow> i16 \<Rightarrow> bool" where
  "entry_ok matches val S J path q x \<longleftrightarrow> (\<forall>s \<in> S. matches s \<longrightarrow> sint x = val s) \<and> (\<forall>j < J. path j = q \<longrightarrow> sint x = node j) \<and>
     ((\<forall>s \<in> S. \<not> matches s) \<longrightarrow> (\<forall>j < J. path j \<noteq> q) \<longrightarrow> x = 0)"

lemma entry_keep_node: "entry_ok m v S J path q x \<Longrightarrow> q \<noteq> r \<Longrightarrow> entry_ok m v S (Suc J) (path(J := r)) q x"
  by (auto simp: entry_ok_def less_Suc_eq)

lemma entry_new_node:
  assumes "\<forall>s \<in> S. \<not> m s" and "\<forall>j < J. path j \<noteq> q" and "J < 1000"
  shows "entry_ok m v S (Suc J) (path(J := q)) q (word_of_int (node J))"
  using assms by (auto simp: entry_ok_def less_Suc_eq sint_node)

lemma entry_keep_leaf: "\<not> m s \<Longrightarrow> entry_ok m v (insert s S) J path q x = entry_ok m v S J path q x"
  by (auto simp: entry_ok_def)

lemma entry_new_leaf:
  assumes "m s" and "\<forall>t \<in> S. \<not> m t" and "\<forall>j < J. path j \<noteq> q" and "sint x = v s"
  shows "entry_ok m v (insert s S) J path q x"
  using assms by (auto simp: entry_ok_def)

text \<open>The codes \<open>c s\<close> of the symbols \<open>s\<close> of \<open>T\<close>: a prefix code with few nodes below the first ten bits.\<close>

definition inner_paths :: "(nat \<Rightarrow> bool list) \<Rightarrow> nat set \<Rightarrow> bool list set" where
  "inner_paths c T = {p. 10 \<le> length p \<and> (\<exists>s \<in> T. strict_prefix p (c s))}"

definition codes_ok :: "(nat \<Rightarrow> bool list) \<Rightarrow> nat set \<Rightarrow> bool" where
  "codes_ok c T \<longleftrightarrow> finite T \<and> (\<forall>s \<in> T. s < 288 \<and> 1 \<le> length (c s) \<and> length (c s) \<le> 15) \<and>
     (\<forall>s \<in> T. \<forall>t \<in> T. prefix (c s) (c t) \<longrightarrow> s = t) \<and> card (inner_paths c T) \<le> 288"

text \<open>The tables while the codes of the symbols of \<open>S\<close> are in place; \<open>path j\<close> leads to node number \<open>j\<close>.\<close>

definition leaf :: "(nat \<Rightarrow> bool list) \<Rightarrow> nat \<Rightarrow> int" where
  "leaf c s = int (length (c s)) * 512 + int s"

definition tab_ok :: "(nat \<Rightarrow> bool list) \<Rightarrow> nat set \<Rightarrow> nat \<Rightarrow> (nat \<Rightarrow> bool list) \<Rightarrow> i16 list \<Rightarrow> bool" where
  "tab_ok c S J path tab \<longleftrightarrow> length tab = 1024 \<and>
     (\<forall>p. length p = 10 \<longrightarrow> entry_ok (\<lambda>s. prefix (c s) p) (leaf c) S J path p (tab ! path_index p))"

definition tree_ok :: "(nat \<Rightarrow> bool list) \<Rightarrow> nat set \<Rightarrow> nat \<Rightarrow> (nat \<Rightarrow> bool list) \<Rightarrow> i16 list \<Rightarrow> bool" where
  "tree_ok c S J path tree \<longleftrightarrow> length tree = 576 \<and>
     (\<forall>i < J. \<forall>b. entry_ok (\<lambda>s. c s = path i @ [b]) int S J path (path i @ [b]) (tree ! (2 * i + of_bool b))) \<and>
     (\<forall>i. 2 * J \<le> i \<longrightarrow> i < 576 \<longrightarrow> tree ! i = 0)"

definition nodes_ok :: "(nat \<Rightarrow> bool list) \<Rightarrow> nat set \<Rightarrow> nat set \<Rightarrow> nat \<Rightarrow> (nat \<Rightarrow> bool list) \<Rightarrow> bool" where
  "nodes_ok c S T J path \<longleftrightarrow> inj_on path {..<J} \<and> path ` {..<J} \<subseteq> inner_paths c T \<and> inner_paths c S \<subseteq> path ` {..<J} \<and>
     (\<forall>j < J. \<forall>p. prefix p (path j) \<longrightarrow> 10 \<le> length p \<longrightarrow> p \<in> path ` {..<J})"

definition trie :: "(nat \<Rightarrow> bool list) \<Rightarrow> nat set \<Rightarrow> nat set \<Rightarrow> nat \<Rightarrow> (nat \<Rightarrow> bool list) \<Rightarrow> i16 list \<Rightarrow> i16 list \<Rightarrow> bool" where
  "trie c S T J path tab tree \<longleftrightarrow> nodes_ok c S T J path \<and> tab_ok c S J path tab \<and> tree_ok c S J path tree"

lemma finite_inner_paths: "codes_ok c T \<Longrightarrow> finite (inner_paths c T)"
proof -
  assume T: "codes_ok c T"
  have "inner_paths c T \<subseteq> (\<Union>s \<in> T. set (prefixes (c s)))"
    by (auto simp: inner_paths_def in_set_prefixes)
  then show ?thesis using T by (auto simp: codes_ok_def intro: finite_subset)
qed

lemma trie_start:
  "trie c {} T 0 path (replicate 1024 0) (replicate 576 0)"
proof -
  have "path_index p < 1024" if "length p = 10" for p using path_index_less [of p] that by simp
  then show ?thesis by (simp add: trie_def nodes_ok_def tab_ok_def tree_ok_def entry_ok_def inner_paths_def)
qed

text \<open>There is room for another node.\<close>

lemma node_room:
  assumes "codes_ok c T" and "nodes_ok c S T J path" and "q \<in> inner_paths c T" and "\<forall>j < J. path j \<noteq> q"
  shows "J < 288"
proof -
  have "q \<notin> path ` {..<J}" using assms(4) by blast
  then have "path ` {..<J} \<subset> inner_paths c T" using assms(2,3) unfolding nodes_ok_def by blast
  then have "card (path ` {..<J}) < card (inner_paths c T)"
    using finite_inner_paths [OF assms(1)] by (rule psubset_card_mono [rotated])
  moreover have "card (path ` {..<J}) = J" using assms(2) by (simp add: nodes_ok_def card_image)
  ultimately show ?thesis using assms(1) by (simp add: codes_ok_def)
qed

lemma node_count: "codes_ok c T \<Longrightarrow> nodes_ok c S T J path \<Longrightarrow> J \<le> 288"
  using card_mono [OF finite_inner_paths, of c T "path ` {..<J}"]
  by (simp add: nodes_ok_def card_image codes_ok_def)

text \<open>A code that begins with another one is that one.\<close>

lemma codes_okD:
  assumes "codes_ok c T" and "s \<in> T"
  shows "s < 288" and "1 \<le> length (c s)" and "length (c s) \<le> 15"
    and "t \<in> T \<Longrightarrow> prefix (c s) (c t) \<Longrightarrow> s = t"
  using assms by (auto simp: codes_ok_def)

lemma inner_no_code:
  assumes "codes_ok c T" and "q \<in> inner_paths c T" and "s \<in> T"
  shows "\<not> prefix (c s) q"
proof
  assume p: "prefix (c s) q"
  obtain t where t: "t \<in> T" "strict_prefix q (c t)" using assms(2) by (auto simp: inner_paths_def)
  then have "prefix (c s) (c t)" using p by (meson prefix_order.less_imp_le prefix_order.order_trans)
  then have "s = t" using codes_okD(4) [OF assms(1,3) t(1)] by blast
  then show False using p t(2) by (meson prefix_order.leD)
qed

lemma node_inner: "nodes_ok c S T J path \<Longrightarrow> j < J \<Longrightarrow> path j \<in> inner_paths c T"
  by (auto simp: nodes_ok_def)

text \<open>A new node for \<open>q\<close>, whose own beginnings have theirs.\<close>

lemma new_node:
  assumes T: "codes_ok c T" and n: "nodes_ok c S T J path" and q: "q \<in> inner_paths c T" "\<forall>j < J. path j \<noteq> q"
    and before: "\<forall>p. strict_prefix p q \<longrightarrow> 10 \<le> length p \<longrightarrow> p \<in> path ` {..<J}"
  shows "nodes_ok c S T (Suc J) (path(J := q))"
proof -
  have im: "path(J := q) ` {..<Suc J} = insert q (path ` {..<J})"
    by (auto simp: less_Suc_eq image_iff)
  have "inj_on (path(J := q)) {..<Suc J}"
    using n q(2) by (auto simp: nodes_ok_def inj_on_def less_Suc_eq)
  moreover have "p \<in> insert q (path ` {..<J})" if "j < Suc J" "prefix p ((path(J := q)) j)" "10 \<le> length p" for j p
  proof (cases "j = J")
    case True
    then have "p = q \<or> strict_prefix p q" using that(2) by (auto simp: strict_prefix_def)
    then show ?thesis using before that(3) by blast
  next
    case False
    then have "j < J" "prefix p (path j)" using that by auto
    then have "p \<in> path ` {..<J}" using that(3) n unfolding nodes_ok_def by blast
    then show ?thesis by blast
  qed
  ultimately show ?thesis using n q(1) unfolding nodes_ok_def im by blast
qed

text \<open>Nothing hangs below it yet.\<close>

lemma new_sons:
  assumes n: "nodes_ok c S T J path" and q: "q \<in> inner_paths c T" "\<forall>j < J. path j \<noteq> q"
  shows "\<forall>s \<in> S. c s \<noteq> q @ [b]" and "\<forall>j < Suc J. (path(J := q)) j \<noteq> q @ [b]"
proof -
  have l: "10 \<le> length q" using q(1) by (simp add: inner_paths_def)
  have no: "q \<notin> path ` {..<J}" using q(2) by blast
  show "\<forall>s \<in> S. c s \<noteq> q @ [b]"
  proof (intro ballI notI)
    fix s assume "s \<in> S" "c s = q @ [b]"
    then have "q \<in> inner_paths c S" using l by (auto simp: inner_paths_def strict_prefix_def intro!: bexI [of _ s])
    then show False using n no by (auto simp: nodes_ok_def)
  qed
  show "\<forall>j < Suc J. (path(J := q)) j \<noteq> q @ [b]"
  proof (intro allI impI notI)
    fix j assume j: "j < Suc J" "(path(J := q)) j = q @ [b]"
    then have "j < J" "prefix q (path j)" by (auto split: if_splits)
    then show False using n no l unfolding nodes_ok_def by blast
  qed
qed

lemma new_tree:
  assumes T: "codes_ok c T" and S: "S \<subseteq> T" and n: "nodes_ok c S T J path" and q: "q \<in> inner_paths c T" "\<forall>j < J. path j \<noteq> q" and J: "J < 288"
    and tr: "tree_ok c S J path tree" and len: "length tree' = 576" and rest: "\<forall>i. 2 * J \<le> i \<longrightarrow> i < 576 \<longrightarrow> tree' ! i = 0"
    and old: "\<And>i b. i < J \<Longrightarrow> tree' ! (2 * i + of_bool b) = (if path i @ [b] = q then word_of_int (node J) else tree ! (2 * i + of_bool b))"
  shows "tree_ok c S (Suc J) (path(J := q)) tree'"
proof -
  have "entry_ok (\<lambda>s. c s = (path(J := q)) i @ [b]) int S (Suc J) (path(J := q)) ((path(J := q)) i @ [b]) (tree' ! (2 * i + of_bool b))"
    if i: "i < Suc J" for i b
  proof (cases "i = J")
    case True
    have "2 * J + of_bool b < 576" using J by (cases b) simp_all
    then have "tree' ! (2 * J + of_bool b) = 0" using rest by simp
    then show ?thesis using new_sons [OF n q, of b] True by (simp add: entry_ok_def)
  next
    case False
    then have i: "i < J" using i by simp
    then have e: "entry_ok (\<lambda>s. c s = path i @ [b]) int S J path (path i @ [b]) (tree ! (2 * i + of_bool b))"
      using tr i by (simp add: tree_ok_def)
    show ?thesis
    proof (cases "path i @ [b] = q")
      case True
      have "\<forall>s \<in> S. c s \<noteq> q"
        using inner_no_code [OF T q(1)] S by blast
      then show ?thesis using entry_new_node [of S "\<lambda>s. c s = q" J path q int] q(2) J old [OF i, of b] True False by simp
    next
      case ne: False
      then show ?thesis using entry_keep_node [OF e ne] old [OF i, of b] False by simp
    qed
  qed
  then show ?thesis using len rest by (simp add: tree_ok_def)
qed

text \<open>A short code: its entries.\<close>

lemma short_code:
  assumes T: "codes_ok c T" and tr: "trie c S T J path tab tree" and S: "S \<subseteq> T" and s: "s \<in> T" "s \<notin> S"
    and short: "length (c s) \<le> 10" and r: "unat rev_code = path_index (c s)" and k: "sint k = leaf c s"
  shows "\<exists>tab'. fill_look_up (length (c s)) k rev_code tab = Some tab' \<and> trie c (insert s S) T J path tab' tree"
proof -
  have tab: "length tab = 1024" "\<And>p. length p = 10 \<Longrightarrow> entry_ok (\<lambda>s. prefix (c s) p) (leaf c) S J path p (tab ! path_index p)"
    using tr by (simp_all add: trie_def tab_ok_def)
  have nodes: "nodes_ok c S T J path" using tr by (simp add: trie_def)
  obtain tab' where t: "fill_look_up (length (c s)) k rev_code tab = Some tab'" "length tab' = 1024"
    "\<forall>p. length p = 10 \<longrightarrow> tab' ! path_index p = (if prefix (c s) p then k else tab ! path_index p)"
    using fill_look_up_path [OF tab(1) short r] by blast
  have "entry_ok (\<lambda>s. prefix (c s) p) (leaf c) (insert s S) J path p (tab' ! path_index p)" if p: "length p = 10" for p
  proof (cases "prefix (c s) p")
    case True
    have "\<not> prefix (c t) p" if "t \<in> S" for t
    proof
      assume "prefix (c t) p"
      then have "prefix (c s) (c t) \<or> prefix (c t) (c s)" using True prefix_same_cases by blast
      then show False using codes_okD(4) [OF T] that S s by blast
    qed
    moreover have "path j \<noteq> p" if "j < J" for j using inner_no_code [OF T node_inner [OF nodes that] s(1)] True by auto
    ultimately show ?thesis using True p t(3) k by (intro entry_new_leaf) simp_all
  next
    case False
    then show ?thesis using tab(2) [OF p] t(3) p by (simp add: entry_keep_leaf)
  qed
  moreover have "entry_ok (\<lambda>s. c s = path i @ [b]) int (insert s S) J path (path i @ [b]) x"
    if "entry_ok (\<lambda>s. c s = path i @ [b]) int S J path (path i @ [b]) x" "i < J" for i b x
  proof -
    have "10 \<le> length (path i)" using node_inner [OF nodes that(2)] by (simp add: inner_paths_def)
    then have "c s \<noteq> path i @ [b]" using short by (metis length_append_singleton not_less_eq_eq order_trans)
    then show ?thesis using that(1) by (simp add: entry_keep_leaf)
  qed
  moreover have "inner_paths c (insert s S) = inner_paths c S"
    using short by (auto simp: inner_paths_def dest: prefix_length_less)
  ultimately have "trie c (insert s S) T J path tab' tree"
    using tr t(2) by (simp add: trie_def nodes_ok_def tab_ok_def tree_ok_def)
  then show ?thesis using t(1) by blast
qed

text \<open>The node for the first ten bits of a longer code.\<close>

lemma first_node:
  assumes T: "codes_ok c T" and tr: "trie c S T J path tab tree" and S: "S \<subseteq> T" and s: "s \<in> T" and long: "10 < length (c s)"
    and x: "x = tab ! path_index (take 10 (c s))"
  shows "if x = 0 then J < 288 \<and> trie c S T (Suc J) (path(J := take 10 (c s))) (tab[path_index (take 10 (c s)) := word_of_int (node J)]) tree
    else \<exists>j < J. path j = take 10 (c s) \<and> sint x = node j"
proof -
  let ?q = "take 10 (c s)"
  have nodes: "nodes_ok c S T J path" using tr by (simp add: trie_def)
  have tab: "length tab = 1024" "\<And>p. length p = 10 \<Longrightarrow> entry_ok (\<lambda>s. prefix (c s) p) (leaf c) S J path p (tab ! path_index p)"
    using tr by (simp_all add: trie_def tab_ok_def)
  have len: "length ?q = 10" using long by simp
  have "strict_prefix ?q (c s)" using long by (metis len less_irrefl prefix_order.dual_order.not_eq_order_implies_strict take_is_prefix)
  then have q: "?q \<in> inner_paths c T" using s len unfolding inner_paths_def by auto
  have no: "\<forall>t \<in> S. \<not> prefix (c t) ?q" using inner_no_code [OF T q] S by blast
  have e: "entry_ok (\<lambda>s. prefix (c s) ?q) (leaf c) S J path ?q x" using tab(2) [OF len] x by simp
  show ?thesis
  proof (cases "x = 0")
    case False
    then show ?thesis using e no unfolding entry_ok_def by auto
  next
    case True
    then have new: "\<forall>j < J. path j \<noteq> ?q" using e node_less unfolding entry_ok_def by (metis less_irrefl signed_0)
    have J: "J < 288" using node_room [OF T nodes q new] .
    have n: "nodes_ok c S T (Suc J) (path(J := ?q))"
    proof (rule new_node [OF T nodes q new], intro allI impI)
      fix p assume "strict_prefix p ?q" "10 \<le> length p"
      then show "p \<in> path ` {..<J}" using prefix_length_less [of p ?q] len by simp
    qed
    have "path_index ?q < 1024" using path_index_less [of ?q] len by simp
    then have "entry_ok (\<lambda>s. prefix (c s) p) (leaf c) S (Suc J) (path(J := ?q)) p
        (tab[path_index ?q := word_of_int (node J)] ! path_index p)" if p: "length p = 10" for p
      using that entry_new_node [OF no new, of "leaf c"] J entry_keep_node [OF tab(2) [OF p], of ?q] path_index_inj [of p ?q] len tab(1)
      by (cases "p = ?q") (auto simp: nth_list_update)
    then have "tab_ok c S (Suc J) (path(J := ?q)) (tab[path_index ?q := word_of_int (node J)])" using tab(1) by (simp add: tab_ok_def)
    moreover have "tree_ok c S (Suc J) (path(J := ?q)) tree"
    proof (rule new_tree [OF T S nodes q new J])
      have "path i @ [b] \<noteq> ?q" if "i < J" for i b
      proof
        assume "path i @ [b] = ?q"
        then have "length (path i) < length ?q" by (metis length_append_singleton lessI)
        then show False using node_inner [OF nodes that] len by (simp add: inner_paths_def)
      qed
      then show "tree ! (2 * i + of_bool b) = (if path i @ [b] = ?q then word_of_int (node J) else tree ! (2 * i + of_bool b))"
        if "i < J" for i b using that by simp
    qed (use tr in \<open>simp_all add: trie_def tree_ok_def\<close>)
    ultimately show ?thesis using True J n by (simp add: trie_def)
  qed
qed

text \<open>The next node on the way of a code.\<close>

lemma slot_unique:
  "(2 * i + of_bool b :: nat) = 2 * j + of_bool b' \<longleftrightarrow> i = j \<and> b = b'"
  by (cases b; cases b'; simp; presburger)

lemma slot_less: "(i :: nat) < J \<Longrightarrow> 2 * i + of_bool b < 2 * J"
  by (cases b) simp_all

lemma next_node:
  assumes T: "codes_ok c T" and tr: "trie c S T J path tab tree" and S: "S \<subseteq> T" and s: "s \<in> T"
    and i: "i < J" "path i = take m (c s)" and m: "10 \<le> m" "Suc m < length (c s)"
    and x: "x = tree ! (2 * i + of_bool (c s ! m))"
  shows "if x = 0 then J < 288 \<and> trie c S T (Suc J) (path(J := take (Suc m) (c s))) tab (tree[2 * i + of_bool (c s ! m) := word_of_int (node J)])
    else \<exists>j < J. path j = take (Suc m) (c s) \<and> sint x = node j"
proof -
  let ?q = "take (Suc m) (c s)"
  let ?b = "c s ! m"
  have nodes: "nodes_ok c S T J path" and tab: "tab_ok c S J path tab" and tree: "tree_ok c S J path tree"
    using tr by (simp_all add: trie_def)
  have q: "?q = path i @ [?b]" using i(2) m(2) by (simp add: take_Suc_conv_app_nth)
  have len: "length ?q = Suc m" using m by simp
  have "strict_prefix ?q (c s)" using m(2) len by (metis less_irrefl prefix_order.dual_order.not_eq_order_implies_strict take_is_prefix)
  then have inner: "?q \<in> inner_paths c T" using s len m unfolding inner_paths_def by auto
  have no: "\<forall>t \<in> S. c t \<noteq> ?q" using inner_no_code [OF T inner] S by (metis prefix_order.refl subsetD)
  have e: "entry_ok (\<lambda>t. c t = ?q) int S J path ?q x" using tree i(1) unfolding q x by (simp add: tree_ok_def)
  show ?thesis
  proof (cases "x = 0")
    case False
    then show ?thesis using e no unfolding entry_ok_def by auto
  next
    case True
    then have new: "\<forall>j < J. path j \<noteq> ?q" using e node_less unfolding entry_ok_def by (metis less_irrefl signed_0)
    have J: "J < 288" using node_room [OF T nodes inner new] .
    have "nodes_ok c S T (Suc J) (path(J := ?q))"
    proof (rule new_node [OF T nodes inner new], intro allI impI)
      fix p assume "strict_prefix p ?q" "10 \<le> length p"
      then have "prefix p (path i)" unfolding q by (auto simp: strict_prefix_def)
      then show "p \<in> path ` {..<J}" using nodes i(1) \<open>10 \<le> length p\<close> unfolding nodes_ok_def by blast
    qed
    moreover have "tab_ok c S (Suc J) (path(J := ?q)) tab"
    proof -
      have "p \<noteq> ?q" if "length p = 10" for p using that len m by auto
      then show ?thesis using tab entry_keep_node by (simp add: tab_ok_def)
    qed
    moreover have "tree_ok c S (Suc J) (path(J := ?q)) (tree[2 * i + of_bool ?b := word_of_int (node J)])"
    proof (rule new_tree [OF T S nodes inner new J tree])
      have l: "length tree = 576" using tree by (simp add: tree_ok_def)
      then show "length (tree[2 * i + of_bool ?b := word_of_int (node J)]) = 576" by simp
      have idx: "2 * i + of_bool ?b < 2 * J" using slot_less [OF i(1)] .
      then show "\<forall>k. 2 * J \<le> k \<longrightarrow> k < 576 \<longrightarrow> tree[2 * i + of_bool ?b := word_of_int (node J)] ! k = 0"
        using tree by (auto simp: tree_ok_def)
      show "tree[2 * i + of_bool ?b := word_of_int (node J)] ! (2 * k + of_bool b) =
        (if path k @ [b] = ?q then word_of_int (node J) else tree ! (2 * k + of_bool b))" if k: "k < J" for k b
      proof -
        have "path k @ [b] = ?q \<longleftrightarrow> k = i \<and> b = ?b"
          unfolding q using nodes k i(1) by (auto simp: nodes_ok_def dest: inj_onD)
        then show ?thesis using slot_unique [of i ?b k b] idx J l by (auto simp: nth_list_update)
      qed
    qed
    ultimately show ?thesis using True J by (simp add: trie_def)
  qed
qed

lemma low_bit: "uint (w AND 1 :: u32) = of_bool (bit w 0)"
  by (simp add: and_one_eq odd_iff_mod_2_eq_one bit_0 even_iff_mod_2_eq_zero)

lemma grow_tree_step:
  "grow_tree (Suc n) rc (node i, node J, tree) =
    do {
      x \<leftarrow> read_at tree (2 * i + of_bool (bit (drop_bit 1 rc) 0));
      if x = 0 then do {
        tree \<leftarrow> write_at tree (2 * i + of_bool (bit (drop_bit 1 rc) 0)) (word_of_int (node J));
        grow_tree n (drop_bit 1 rc) (node J, node (Suc J), tree) }
      else grow_tree n (drop_bit 1 rc) (sint x, node J, tree)
    }"
  by (simp only: grow_tree.simps prod.case Let_def low_bit node_sons node_Suc Option.bind.simps)

lemma grow_tree_result:
  assumes T: "codes_ok c T" and S: "S \<subseteq> T" and s: "s \<in> T" and bits: "\<forall>k < length (c s). bit rc k = c s ! k"
    and "trie c S T J path tab tree" and "i < J" and "path i = take m (c s)" and "10 \<le> m" and "m + n + 1 = length (c s)"
  shows "\<exists>i' J' path' tree'. grow_tree n (drop_bit (m - 1) rc) (node i, node J, tree) =
      Some (drop_bit (length (c s) - 2) rc, node i', node J', tree') \<and>
    trie c S T J' path' tab tree' \<and> i' < J' \<and> path' i' = take (length (c s) - 1) (c s)"
  using assms(5-9)
proof (induction n arbitrary: m i J path tree)
  case 0
  then show ?case by (intro exI [of _ i] exI [of _ J] exI [of _ path] exI [of _ tree]) (simp flip: "0.prems"(5))
next
  case (Suc n)
  let ?b = "c s ! m"
  have m: "Suc m < length (c s)" using Suc.prems(5) by simp
  have d: "drop_bit 1 (drop_bit (m - 1) rc) = drop_bit m rc" using Suc.prems(4) by (simp add: drop_bit_drop_bit del: drop_bit_Suc)
  have b: "bit (drop_bit m rc) 0 = ?b" using bits m by (simp add: bit_drop_bit_eq)
  have tl: "length tree = 576" "J \<le> 288"
    using Suc.prems(1) node_count [OF T] by (auto simp: trie_def tree_ok_def)
  then have r: "read_at tree (2 * i + of_bool ?b) = Some (tree ! (2 * i + of_bool ?b))"
    using slot_less [OF Suc.prems(2), of ?b] by (simp add: read_at_def)
  note nx = next_node [OF T Suc.prems(1) S s Suc.prems(2,3,4) m refl]
  show ?case
  proof (cases "tree ! (2 * i + of_bool ?b) = 0")
    case True
    let ?tree = "tree[2 * i + of_bool ?b := word_of_int (node J)]"
    have "grow_tree (Suc n) (drop_bit (m - 1) rc) (node i, node J, tree) = grow_tree n (drop_bit m rc) (node J, node (Suc J), ?tree)"
      unfolding grow_tree_step d b r using True slot_less [OF Suc.prems(2), of ?b] tl by (simp add: write_at_def)
    moreover have "J < Suc J" "(path(J := take (Suc m) (c s))) J = take (Suc m) (c s)" "10 \<le> Suc m" "Suc m + n + 1 = length (c s)"
      using Suc.prems(4,5) by simp_all
    moreover have "trie c S T (Suc J) (path(J := take (Suc m) (c s))) tab ?tree" using nx unfolding if_P [OF True] by blast
    ultimately show ?thesis using Suc.IH [of "Suc J" "path(J := take (Suc m) (c s))" ?tree J "Suc m"] unfolding diff_Suc_1 by presburger
  next
    case False
    then obtain j where j: "j < J" "path j = take (Suc m) (c s)" "sint (tree ! (2 * i + of_bool ?b)) = node j"
      using nx by auto
    have "grow_tree (Suc n) (drop_bit (m - 1) rc) (node i, node J, tree) = grow_tree n (drop_bit m rc) (node j, node J, tree)"
      unfolding grow_tree_step d b r using False by (simp add: j(3))
    then show ?thesis using Suc.IH [of J path tree j "Suc m"] Suc.prems j by simp
  qed
qed

text \<open>The end of a long code.\<close>

lemma last_leaf:
  assumes T: "codes_ok c T" and tr: "trie c S T J path tab tree" and S: "S \<subseteq> T" and s: "s \<in> T" "s \<notin> S"
    and i: "i < J" "path i = take (length (c s) - 1) (c s)" and long: "10 < length (c s)"
  shows "trie c (insert s S) T J path tab (tree[2 * i + of_bool (c s ! (length (c s) - 1)) := of_nat s])"
proof -
  let ?b = "c s ! (length (c s) - 1)"
  define a where "a = 2 * i + of_bool ?b"
  let ?tree = "tree[a := of_nat s]"
  have nodes: "nodes_ok c S T J path" and tab: "tab_ok c S J path tab" and tree: "tree_ok c S J path tree"
    using tr by (simp_all add: trie_def)
  have a: "a < 2 * J" unfolding a_def by (rule slot_less [OF i(1)])
  have slot: "2 * k + of_bool b = a \<longleftrightarrow> k = i \<and> b = ?b" for k b using slot_unique [of k b i ?b] by (simp add: a_def)
  have l: "length tree = 576" using tree by (simp add: tree_ok_def)
  have cs: "c s = path i @ [?b]"
    unfolding i(2) using long by (subst take_Suc_conv_app_nth [symmetric]) simp_all
  have no: "\<not> prefix (c s) p" if "p \<in> path ` {..<J}" for p
    using inner_no_code [OF T _ s(1)] that nodes by (auto simp: nodes_ok_def)
  have other: "\<not> prefix (c t) (c s)" if "t \<in> S" for t using codes_okD(4) [OF T, of t s] that S s by blast
  have n: "inner_paths c (insert s S) \<subseteq> path ` {..<J}"
  proof
    fix p assume "p \<in> inner_paths c (insert s S)"
    then consider "p \<in> inner_paths c S" | "10 \<le> length p" "strict_prefix p (c s)" by (auto simp: inner_paths_def)
    then show "p \<in> path ` {..<J}"
    proof cases
      case 1
      then show ?thesis using nodes by (auto simp: nodes_ok_def)
    next
      case 2
      then have "prefix p (path i)" using cs by (metis prefix_snoc strict_prefix_def)
      then show ?thesis using nodes i(1) 2(1) unfolding nodes_ok_def by blast
    qed
  qed
  have "\<not> prefix (c s) p" if "length p = 10" for p using long prefix_length_le [of "c s" p] that by auto
  then have "tab_ok c (insert s S) J path tab" using tab by (simp add: tab_ok_def entry_keep_leaf)
  moreover have "entry_ok (\<lambda>t. c t = path k @ [b]) int (insert s S) J path (path k @ [b]) (?tree ! (2 * k + of_bool b))"
    if k: "k < J" for k b
  proof (cases "k = i \<and> b = ?b")
    case True
    have "a < length tree" using a node_count [OF T nodes] l by simp
    moreover have "2 * k + of_bool b = a" using slot [of k b] True by blast
    ultimately have new: "?tree ! (2 * k + of_bool b) = of_nat s" by (simp only: nth_list_update_eq)
    have v: "sint (of_nat s :: i16) = int s" using sint_small [of "int s"] codes_okD(1) [OF T s(1)] by simp
    have p: "path k @ [b] = c s" using True cs by simp
    have o: "c t \<noteq> c s" if "t \<in> S" for t using other [OF that] by (metis prefix_order.order_refl)
    have nd: "path j \<noteq> c s" if "j < J" for j using no [of "path j"] that by (metis image_eqI lessThan_iff prefix_order.order_refl)
    have "entry_ok (\<lambda>t. c t = c s) int (insert s S) J path (c s) (of_nat s)"
      unfolding entry_ok_def using v o nd by auto
    then show ?thesis unfolding new p .
  next
    case False
    have "path k @ [b] \<noteq> c s"
    proof
      assume "path k @ [b] = c s"
      from trans [OF this cs] have "path k = path i" "b = ?b" by (simp_all only: append1_eq_conv)
      moreover have "inj_on path {..<J}" using nodes by (simp add: nodes_ok_def)
      ultimately show False using False i(1) k by (auto dest: inj_onD)
    qed
    moreover have "?tree ! (2 * k + of_bool b) = tree ! (2 * k + of_bool b)"
      using False slot [of k b] by (metis nth_list_update_neq)
    moreover have "entry_ok (\<lambda>t. c t = path k @ [b]) int S J path (path k @ [b]) (tree ! (2 * k + of_bool b))"
      using tree k by (simp only: tree_ok_def)
    ultimately show ?thesis using entry_keep_leaf [of "\<lambda>t. c t = path k @ [b]" s] by metis
  qed
  moreover have "\<forall>k. 2 * J \<le> k \<longrightarrow> k < 576 \<longrightarrow> ?tree ! k = 0" using a tree by (auto simp: tree_ok_def)
  ultimately have "tree_ok c (insert s S) J path ?tree" using l by (simp only: tree_ok_def length_list_update) blast
  moreover have "nodes_ok c (insert s S) T J path" using nodes n by (simp add: nodes_ok_def)
  ultimately show ?thesis using \<open>tab_ok c (insert s S) J path tab\<close> unfolding trie_def a_def by blast
qed

section \<open>One symbol\<close>

lemma low_bits_path: "length p = k \<Longrightarrow> \<forall>i < k. bit (w :: 'a :: len word) i = p ! i \<Longrightarrow> low_bits k w = p"
  by (simp add: low_bits_def list_eq_iff_nth_eq)

lemma entry_value:
  assumes "l \<le> 15" and "s < 288"
  shows "sint (of_nat (l * 512) OR of_nat s :: i16) = int l * 512 + int s"
proof -
  have "(of_nat (l * 512) OR of_nat s :: i16) = of_nat (l * 512 + s)"
  proof -
    have "take_bit 9 s = s" using assms(2) by (simp add: take_bit_nat_eq_self)
    then have "push_bit 9 l AND s = 0"
      by (intro bit_eqI) (metis bit_and_iff bit_push_bit_iff bit_take_bit_iff not_less bit_0_eq bot_apply bot_bool_def)
    then have "push_bit 9 l OR s = push_bit 9 l + s" by (simp add: disjunctive_add_eq_or)
    then have "(of_nat (push_bit 9 l OR s) :: i16) = of_nat (push_bit 9 l + s)" by simp
    then show ?thesis by (simp add: of_nat_or_eq push_bit_eq_mult mult.commute)
  qed
  moreover have "sint (word_of_int (int (l * 512 + s)) :: i16) = int (l * 512 + s)"
    using assms by (intro sint_small) simp_all
  ultimately show ?thesis by simp
qed

text \<open>The reversed code as the decoder sees it.\<close>

lemma reversed_code:
  assumes "l \<le> 15" and "length p = l" and "\<forall>k < l. bit cur (l - 1 - k) = p ! k"
  defines "r \<equiv> huff_reverse l cur 0"
  shows "\<forall>k < l. bit r k = p ! k" and "unat r = path_index p"
    and "10 \<le> l \<Longrightarrow> unat (r AND (TINFL_FAST_LOOKUP_SIZE - 1)) = path_index (take 10 p)"
proof -
  show b: "\<forall>k < l. bit r k = p ! k" using assms(1,3) by (simp add: r_def bit_huff_reverse)
  have "take_bit l r = r"
    using assms(1) by (intro bit_word_eqI) (auto simp: bit_take_bit_iff r_def bit_huff_reverse)
  then have "unat r = take_bit l (unat r)" by (metis unsigned_take_bit_eq)
  also have "\<dots> = path_index p"
    using path_index_low [of l r] low_bits_path [OF assms(2) b] assms(1) by simp
  finally show "unat r = path_index p" .
  assume l: "10 \<le> l"
  have "r AND (TINFL_FAST_LOOKUP_SIZE - 1) = take_bit 10 r"
    by (simp add: TINFL_FAST_LOOKUP_SIZE_def TINFL_FAST_LOOKUP_BITS_def take_bit_eq_mask mask_eq_exp_minus_1 push_bit_of_1)
  then have "unat (r AND (TINFL_FAST_LOOKUP_SIZE - 1)) = take_bit 10 (unat r)" by (simp add: unsigned_take_bit_eq)
  also have "\<dots> = path_index (low_bits 10 r)" using path_index_low [of 10 r] by simp
  also have "low_bits 10 r = take 10 p" using l b assms(2) by (intro low_bits_path) simp_all
  finally show "unat (r AND (TINFL_FAST_LOOKUP_SIZE - 1)) = path_index (take 10 p)" .
qed

lemma add_symbol_result:
  assumes T: "codes_ok c T" and S: "S \<subseteq> T" and s: "s \<in> T" "s \<notin> S"
    and tr: "trie c S T J path (m_look_up t) (m_tree t)" and l: "length (c s) = l" "l < length nc"
    and cur: "\<forall>k < l. bit (nc ! l) (l - 1 - k) = c s ! k"
  shows "\<exists>J' path' t'. add_symbol s l (nc, node J, t) = Some (nc[l := nc ! l + 1], node J', t') \<and>
    trie c (insert s S) T J' path' (m_look_up t') (m_tree t') \<and> m_code_size t' = m_code_size t"
proof -
  have len: "1 \<le> l" "l \<le> 15" "s < 288" using codes_okD(1-3) [OF T s(1)] l(1) by simp_all
  define r where "r = huff_reverse l (nc ! l) 0"
  note rev = reversed_code [OF len(2) l(1) cur, folded r_def]
  show ?thesis
  proof (cases "l \<le> 10")
    case True
    obtain tab' where "fill_look_up l (of_nat (l * 512) OR of_nat s) r (m_look_up t) = Some tab'"
      "trie c (insert s S) T J path tab' (m_tree t)"
      using short_code [OF T tr S s, of r "of_nat (l * 512) OR of_nat s"] True rev(2) l(1) entry_value [OF len(2,3)]
      by (auto simp: leaf_def)
    then show ?thesis using True l(2)
      by (intro exI [of _ J] exI [of _ path] exI [of _ "t\<lparr>m_look_up := tab'\<rparr>"])
        (simp add: add_symbol_def read_at_def r_def [symmetric] TINFL_FAST_LOOKUP_BITS_def)
  next
    case False
    then have long: "10 < length (c s)" using l(1) by simp
    let ?p = "take 10 (c s)"
    have idx: "unat (r AND (TINFL_FAST_LOOKUP_SIZE - 1)) = path_index ?p" using rev(3) False by simp
    have "length (m_look_up t) = 1024" using tr by (simp add: trie_def tab_ok_def)
    moreover have "path_index ?p < 1024" using path_index_less [of ?p] long by simp
    ultimately have x: "read_at (m_look_up t) (path_index ?p) = Some (m_look_up t ! path_index ?p)" by (simp add: read_at_def)
    define step where "step = (if m_look_up t ! path_index ?p = 0 then (node J, node J - 2, (m_look_up t)[path_index ?p := word_of_int (node J)])
        else (sint (m_look_up t ! path_index ?p), node J, m_look_up t))"
    have "\<exists>i J1 path1 tab. step = (node i, node J1, tab) \<and> trie c S T J1 path1 tab (m_tree t) \<and> i < J1 \<and> path1 i = ?p"
    proof (cases "m_look_up t ! path_index ?p = 0")
      case True
      then show ?thesis using first_node [OF T tr S s(1) long refl]
        by (intro exI [of _ J] exI [of _ "Suc J"] exI [of _ "path(J := ?p)"]) (simp add: step_def node_Suc)
    next
      case False
      then obtain j where "j < J" "path j = ?p" "sint (m_look_up t ! path_index ?p) = node j"
        using first_node [OF T tr S s(1) long refl] by auto
      then show ?thesis using tr False
        by (intro exI [of _ j] exI [of _ J] exI [of _ path]) (simp add: step_def)
    qed
    then obtain i J1 path1 tab where st: "step = (node i, node J1, tab)" "trie c S T J1 path1 tab (m_tree t)" "i < J1" "path1 i = ?p"
      by blast
    have "\<forall>k < length (c s). bit r k = c s ! k" using rev(1) l(1) by simp
    from grow_tree_result [OF T S s(1) this st(2,3,4), of "l - 11"] obtain i2 J2 path2 tree where
      g: "grow_tree (l - 11) (drop_bit 9 r) (node i, node J1, m_tree t) = Some (drop_bit (l - 2) r, node i2, node J2, tree)"
      "trie c S T J2 path2 tab tree" "i2 < J2" "path2 i2 = take (length (c s) - 1) (c s)"
      using False l(1) by auto
    have "1 + (l - 2) = l - 1" using False by simp
    then have b: "bit (drop_bit (Suc (l - 2)) r) 0 = c s ! (l - Suc 0)" using rev(1) len(1) by (simp add: bit_drop_bit_eq)
    have "length tree = 576" "J2 \<le> 288" using g(2) node_count [OF T] by (auto simp: trie_def tree_ok_def)
    then have "2 * i2 + of_bool (c s ! (l - 1)) < length tree" using slot_less [OF g(3), of "c s ! (l - 1)"] by simp
    then have "add_symbol s l (nc, node J, t) = Some (nc[l := nc ! l + 1], node J2,
        t\<lparr>m_look_up := tab, m_tree := tree[2 * i2 + of_bool (c s ! (l - 1)) := of_nat s]\<rparr>)"
      using False l(2) x idx g(1) st(1)
      by (simp add: add_symbol_def read_at_def [of nc] r_def [symmetric] TINFL_FAST_LOOKUP_BITS_def step_def [symmetric]
          low_bit b node_sons write_at_def del: drop_bit_Suc)
    moreover have "trie c (insert s S) T J2 path2 tab (tree[2 * i2 + of_bool (c s ! (l - 1)) := of_nat s])"
      using last_leaf [OF T g(2) S s g(3,4) long] l(1) by simp
    ultimately show ?thesis
      by (intro exI [of _ J2] exI [of _ path2] exI [of _ "t\<lparr>m_look_up := tab, m_tree := tree[2 * i2 + of_bool (c s ! (l - 1)) := of_nat s]\<rparr>"]) simp
  qed
qed

end
