(* ===== verification/Mz_Table.thy ===== *)
theory Mz_Table
  imports Mz_Trie
begin

unbundle bit_operations_syntax

text \<open>
  The table that the decompressor builds from the lengths of a code (\<open>build_table\<close>, the loop over
  \<open>m_type\<close> in \<open>tinfl_decompress\<close> of \<open>proj/sparc-prog/miniz.c\<close>): for a full code it holds the
  canonical codes of RFC 1951, and any other code is refused.
\<close>

section \<open>Full codes\<close>

lemma kraft_space:
  assumes "\<forall>x \<in> set sizes. unat x \<le> 15"
  shows "int (kraft sizes) = space_in 15 (size_counts (length sizes) sizes) {1..15}"
proof -
  have "int (kraft sizes) = (\<Sum>s \<in> used_sizes sizes. 2 ^ (15 - unat (sizes ! s)))" by (simp add: kraft_sum)
  also have "\<dots> = (\<Sum>i \<in> {1..15}. \<Sum>s \<in> {s \<in> used_sizes sizes. unat (sizes ! s) = i}. 2 ^ (15 - unat (sizes ! s)))"
    using assms by (intro sum.group [symmetric]) (auto simp: used_sizes_def unat_gt_0 Suc_le_eq)
  also have "\<dots> = space_in 15 (size_counts (length sizes) sizes) {1..15}"
    unfolding space_in_def
  proof (rule sum.cong [OF refl])
    fix i :: nat assume i: "i \<in> {1..15}"
    then have "{s \<in> used_sizes sizes. unat (sizes ! s) = i} = syms_of (length sizes) sizes i" by (auto simp: used_sizes_def)
    then show "(\<Sum>s \<in> {s \<in> used_sizes sizes. unat (sizes ! s) = i}. 2 ^ (15 - unat (sizes ! s))) =
        size_counts (length sizes) sizes ! i * 2 ^ (15 - i)"
      using i by (simp add: size_counts_def)
  qed
  finally show ?thesis .
qed

lemma kraft_le:
  assumes "full_code sizes"
  shows "kraft sizes \<le> 2 ^ 15"
proof (cases "kraft sizes = 2 ^ 15")
  case False
  then have "card (used_sizes sizes) \<le> 1" using assms by (simp add: full_code_def card_used)
  then consider "used_sizes sizes = {}" | s where "used_sizes sizes = {s}"
    by (metis card_0_eq card_1_singletonE finite_used le_neq_implies_less less_one)
  then show ?thesis
  proof cases
    case 2
    then have "kraft sizes = 2 ^ (15 - unat (sizes ! s))" by (simp add: kraft_sum)
    also have "\<dots> \<le> 2 ^ 15" by (intro power_increasing) simp_all
    finally show ?thesis .
  qed (simp add: kraft_sum)
qed simp

lemma full_counts:
  assumes "full_code sizes"
  shows "table_counts 15 (length sizes) sizes (size_counts (length sizes) sizes)"
proof -
  have le: "\<forall>x \<in> set sizes. unat x \<le> 15" using assms by (simp add: full_code_def)
  then have "space_in 15 (size_counts (length sizes) sizes) {1..15} \<le> 2 ^ 15"
    using kraft_le [OF assms] unfolding kraft_space [OF le, symmetric] by (metis of_nat_le_iff of_nat_numeral of_nat_power)
  then show ?thesis using le by (simp add: table_counts_def counts_def size_counts_def)
qed

section \<open>Their canonical codes\<close>

definition first_words :: "nat \<Rightarrow> u8 list \<Rightarrow> u32 list" where
  "first_words n sizes = map (\<lambda>k. word_of_int (first_code (size_counts n sizes) k)) [0..<16]"

definition code_bits :: "u8 list \<Rightarrow> nat \<Rightarrow> bool list" where
  "code_bits sizes s = low_bits (unat (sizes ! s)) (canonical_code (length sizes) sizes s)"

lemma length_code_bits [simp]: "length (code_bits sizes s) = unat (sizes ! s)"
  by (simp add: code_bits_def)

lemma canonical_stream:
  assumes "full_code sizes" and "s < length sizes" and "sizes ! s \<noteq> 0"
  shows "canonical_code (length sizes) sizes s = stream_code (unat (sizes ! s)) (code_of (first_words (length sizes) sizes) sizes s)"
  using code_of_canonical [OF full_counts [OF assms(1)], of s "first_words (length sizes) sizes"] assms(2,3)
  by (simp add: first_words_def del: upt_Suc)

lemma canonical_good:
  assumes full: "full_code sizes"
  shows "good_table (length sizes) sizes (map (canonical_code (length sizes) sizes) [0..<length sizes])"
proof -
  define n where "n = length sizes"
  note stream = canonical_stream [OF full, folded n_def]
  let ?nc = "first_words n sizes"
  have nc: "\<forall>k. 0 < k \<longrightarrow> k \<le> 15 \<longrightarrow> ?nc ! k = word_of_int (first_code (size_counts n sizes) k)"
    by (simp add: first_words_def del: upt_Suc)
  note tc = full_counts [OF full, folded n_def]
  have le: "unat (sizes ! s) \<le> 15" if "s < n" for s using tc that by (simp add: table_counts_def)
  have b: "unat (code_of ?nc sizes t) < 2 ^ unat (sizes ! t)" if "t < n" "sizes ! t \<noteq> 0" for t
    using code_of_value(3) [OF tc that nc] by (metis of_nat_less_iff of_nat_numeral of_nat_power)
  have "take_bit (unat (sizes ! s)) (canonical_code n sizes t) \<noteq> canonical_code n sizes s"
    if st: "s < n" "t < n" "s \<noteq> t" "sizes ! s \<noteq> 0" "sizes ! s \<le> sizes ! t" for s t
  proof
    assume eq: "take_bit (unat (sizes ! s)) (canonical_code n sizes t) = canonical_code n sizes s"
    have t0: "sizes ! t \<noteq> 0" using st by (auto simp: word_le_nat_alt unat_eq_0)
    have "unat (sizes ! s) \<le> unat (sizes ! t)" "unat (sizes ! t) \<le> 15"
      using st(5) le [OF st(2)] by (simp_all add: word_le_nat_alt)
    from stream_code_prefix [OF this b [OF st(1,4)] b [OF st(2) t0]] eq
    show False using codes_differ [OF tc st(1,4,2,3,5) nc] stream st t0 by simp
  qed
  moreover have "unat (canonical_code n sizes s) < 2 ^ unat (sizes ! s)" if "s < n" "sizes ! s \<noteq> 0" for s
    using stream [OF that] stream_code_bound [OF le [OF that(1)]] by simp
  ultimately show ?thesis using le unfolding n_def [symmetric] by (simp add: good_table_def prefix_free_def)
qed

lemma code_bits_good:
  "s < length sizes \<Longrightarrow> code_bits sizes s = symbol_bits sizes (map (canonical_code (length sizes) sizes) [0..<length sizes]) s"
  by (simp add: code_bits_def symbol_bits_def)

text \<open>The reference decoder finds the symbol whose code comes next.\<close>

lemma read_symbol_full:
  "full_code sizes \<Longrightarrow> s \<in> used_sizes sizes \<Longrightarrow> read_symbol (length sizes) sizes (code_bits sizes s @ bs) = Some (s, bs)"
  using read_symbol_bits [OF canonical_good] by (simp add: used_sizes_def code_bits_good)

lemma read_symbolD:
  assumes "read_symbol n sizes bs = Some (s, bs')" and "n = length sizes"
  shows "s \<in> used_sizes sizes" and "bs = code_bits sizes s @ bs'"
proof -
  from assms(1) obtain ss where ss: "filter (code_matches n sizes bs) [0..<n] = s # ss"
    and b: "bs' = drop (unat (sizes ! s)) bs"
    by (auto simp: read_symbol_def split: list.splits)
  then have "s \<in> set (filter (code_matches n sizes bs) [0..<n])" by simp
  then have m: "s < n" "code_matches n sizes bs s" by simp_all
  then show "s \<in> used_sizes sizes" using assms(2) by (simp add: used_sizes_def code_matches_def)
  have "take (unat (sizes ! s)) bs = code_bits sizes s" using m assms(2) by (simp add: code_matches_def code_bits_def)
  then show "bs = code_bits sizes s @ bs'" using b by (metis append_take_drop_id)
qed

lemma code_bits_prefix:
  assumes "full_code sizes" and "s \<in> used_sizes sizes" and "t \<in> used_sizes sizes" and "prefix (code_bits sizes s) (code_bits sizes t)"
  shows "s = t"
proof -
  obtain r where "code_bits sizes t = code_bits sizes s @ r" using assms(4) by (auto simp: prefix_def)
  then have "read_symbol (length sizes) sizes (code_bits sizes s @ r) = Some (t, [])"
    using read_symbol_full [OF assms(1,3), of "[]"] by simp
  then show ?thesis using read_symbol_full [OF assms(1,2), of r] by simp
qed

lemma code_bits_nth:
  assumes "full_code sizes" and "s \<in> used_sizes sizes" and "k < unat (sizes ! s)"
  shows "code_bits sizes s ! k = bit (code_of (first_words (length sizes) sizes) sizes s) (unat (sizes ! s) - 1 - k)"
proof -
  have "unat (sizes ! s) \<le> 15" using assms(1,2) by (simp add: full_code_def used_sizes_def)
  then show ?thesis
    using assms canonical_stream [of sizes s] by (simp add: used_sizes_def code_bits_def low_bits_def bit_stream_code)
qed

section \<open>There is room for the nodes\<close>

lemma codes_cover:
  assumes "full_code sizes" and "kraft sizes = 2 ^ 15" and "length q = 15"
  shows "\<exists>s \<in> used_sizes sizes. prefix (code_bits sizes s) q"
proof -
  let ?all = "\<lambda>k. {q :: bool list. length q = k}"
  let ?below = "\<lambda>s. (@) (code_bits sizes s) ` ?all (15 - unat (sizes ! s))"
  have le: "unat (sizes ! s) \<le> 15" if "s \<in> used_sizes sizes" for s using assms(1) that by (simp add: full_code_def used_sizes_def)
  have all: "card (?all k) = 2 ^ k" "finite (?all k)" for k
    using card_lists_length_eq [of "UNIV :: bool set" k] finite_lists_length_eq [of "UNIV :: bool set" k] by simp_all
  have "card (?below s) = 2 ^ (15 - unat (sizes ! s))" for s
    using all by (simp add: card_image inj_on_def)
  moreover have "?below s \<inter> ?below t = {}" if "s \<in> used_sizes sizes" "t \<in> used_sizes sizes" "s \<noteq> t" for s t
  proof (rule ccontr)
    assume "?below s \<inter> ?below t \<noteq> {}"
    then obtain q where "prefix (code_bits sizes s) q" "prefix (code_bits sizes t) q" by (auto simp: prefix_def)
    then show False using code_bits_prefix [OF assms(1)] that prefix_same_cases by metis
  qed
  ultimately have "card (\<Union>s \<in> used_sizes sizes. ?below s) = kraft sizes"
    unfolding kraft_sum using all(2) by (subst card_UN_disjoint) simp_all
  then have "card (\<Union>s \<in> used_sizes sizes. ?below s) = card (?all 15)" using assms(2) all by simp
  moreover have "(\<Union>s \<in> used_sizes sizes. ?below s) \<subseteq> ?all 15" using le by auto
  ultimately have "(\<Union>s \<in> used_sizes sizes. ?below s) = ?all 15" using all(2) by (intro card_subset_eq)
  then have "q \<in> (\<Union>s \<in> used_sizes sizes. ?below s)" using assms(3) by simp
  then show ?thesis by (auto simp: prefix_def)
qed

text \<open>The code that ends right of a node, always turning left, leads back to the node.\<close>

definition node_of :: "bool list \<Rightarrow> bool list" where
  "node_of q = rev (tl (dropWhile Not (rev q)))"

lemma node_of_code: "node_of (p @ True # replicate k False) = p"
proof -
  have "dropWhile Not (replicate k False @ True # rev p) = True # rev p" by (induction k) simp_all
  then show ?thesis by (simp add: node_of_def)
qed

lemma inner_paths_small:
  assumes full: "full_code sizes" and n: "length sizes \<le> 288"
  shows "card (inner_paths (code_bits sizes) (used_sizes sizes)) \<le> 288"
proof (cases "kraft sizes = 2 ^ 15")
  case True
  let ?c = "code_bits sizes" and ?T = "used_sizes sizes"
  have "inner_paths ?c ?T \<subseteq> (\<lambda>s. node_of (?c s)) ` ?T"
  proof
    fix p assume "p \<in> inner_paths ?c ?T"
    then obtain t where t: "10 \<le> length p" "t \<in> ?T" "strict_prefix p (?c t)" by (auto simp: inner_paths_def)
    have "unat (sizes ! t) \<le> 15" using full t(2) by (simp add: full_code_def used_sizes_def)
    then have l: "length p < 15" using prefix_length_less [OF t(3)] by simp
    obtain s where s: "s \<in> ?T" "prefix (?c s) (p @ True # replicate (14 - length p) False)"
      using codes_cover [OF full True, of "p @ True # replicate (14 - length p) False"] l by auto
    have "\<not> prefix (?c s) p"
    proof
      assume "prefix (?c s) p"
      then have "prefix (?c s) (?c t)" using t(3) by (meson prefix_order.le_less_trans prefix_order.less_imp_le)
      then have "s = t" using code_bits_prefix [OF full s(1) t(2)] by blast
      then show False using \<open>prefix (?c s) p\<close> t(3) by (meson prefix_order.leD)
    qed
    then obtain r where r: "?c s = p @ r" "prefix r (True # replicate (14 - length p) False)" "r \<noteq> []"
      using s(2) by (auto simp: prefix_append)
    then obtain r' where r': "r = True # r'" "prefix r' (replicate (14 - length p) False)" by (cases r) auto
    from r'(2) have "set r' \<subseteq> {False}" by (metis set_mono_prefix set_replicate_conv_if subset_trans empty_subsetI order_refl)
    then have "r' = replicate (length r') False" by (metis replicate_eqI singletonD subsetD)
    then have "node_of (?c s) = p" unfolding r r'(1) by (metis node_of_code)
    then show "p \<in> (\<lambda>s. node_of (?c s)) ` ?T" using s(1) by blast
  qed
  then have "card (inner_paths ?c ?T) \<le> card ?T" by (rule surj_card_le [rotated]) simp
  also have "\<dots> \<le> length sizes" unfolding card_used by (rule length_filter_le)
  finally show ?thesis using n by simp
next
  case False
  then have "card (used_sizes sizes) \<le> 1" using full by (simp add: full_code_def card_used)
  then consider "used_sizes sizes = {}" | s where "used_sizes sizes = {s}"
    by (metis card_0_eq card_1_singletonE finite_used le_neq_implies_less less_one)
  then show ?thesis
  proof cases
    case (2 s)
    then have "s \<in> used_sizes sizes" by simp
    then have "unat (sizes ! s) \<le> 15" using full by (simp add: full_code_def used_sizes_def)
    have "inner_paths (code_bits sizes) (used_sizes sizes) \<subseteq> set (prefixes (code_bits sizes s))"
      using 2 by (auto simp: inner_paths_def in_set_prefixes strict_prefix_def)
    then have "card (inner_paths (code_bits sizes) (used_sizes sizes)) \<le> card (set (prefixes (code_bits sizes s)))" by (intro card_mono) simp_all
    also have "\<dots> \<le> length (prefixes (code_bits sizes s))" by (rule card_length)
    finally show ?thesis using \<open>unat (sizes ! s) \<le> 15\<close> by simp
  qed (simp add: inner_paths_def)
qed

lemma full_codes_ok:
  assumes "full_code sizes" and "length sizes \<le> 288"
  shows "codes_ok (code_bits sizes) (used_sizes sizes)"
  using assms code_bits_prefix [OF assms(1)] inner_paths_small [OF assms]
  by (auto simp: codes_ok_def used_sizes_def full_code_def unat_gt_0 Suc_le_eq)

section \<open>Building\<close>

lemma code_counts_result:
  assumes "\<forall>x \<in> set xs. unat x \<le> 15" and "length cnt = 16"
  shows "\<exists>cnt'. count_sizes xs cnt = Some cnt' \<and> length cnt' = 16 \<and>
    (\<forall>k < 16. cnt' ! k = cnt ! k + of_nat (length (filter (\<lambda>x. unat x = k) xs)))"
  using assms
proof (induction xs arbitrary: cnt)
  case (Cons x xs)
  have x: "unat x < 16" using Cons.prems by simp
  let ?cnt = "cnt[unat x := cnt ! unat x + 1]"
  obtain cnt' where c: "count_sizes xs ?cnt = Some cnt'" "length cnt' = 16"
    "\<forall>k < 16. cnt' ! k = ?cnt ! k + of_nat (length (filter (\<lambda>x. unat x = k) xs))"
    using Cons.IH [of ?cnt] Cons.prems by auto
  have "count_sizes (x # xs) cnt = Some cnt'" using c(1) x Cons.prems by (simp add: read_at_def write_at_def)
  moreover have "cnt' ! k = cnt ! k + of_nat (length (filter (\<lambda>x. unat x = k) (x # xs)))" if "k < 16" for k
    using c(3) that x Cons.prems by (simp add: nth_list_update)
  ultimately show ?case using c(2) by blast
qed simp

lemma first_codes_result:
  assumes "0 < a" and "a \<le> b" and "b \<le> 16" and "\<forall>k. a \<le> k \<longrightarrow> k < b \<longrightarrow> cnt ! k = word_of_int (num ! k)"
    and "length nc = 17" and "\<forall>k. 0 < k \<longrightarrow> k \<le> a \<longrightarrow> nc ! k = word_of_int (first_code num k)"
  shows "\<exists>nc'. first_codes [a..<b] cnt (u, word_of_int (first_code num a), nc) =
      (u + word_of_int (\<Sum>k \<in> {a..<b}. num ! k), word_of_int (first_code num b), nc') \<and>
    length nc' = 17 \<and> (\<forall>k. 0 < k \<longrightarrow> k \<le> b \<longrightarrow> nc' ! k = word_of_int (first_code num k))"
  using assms
proof (induction "b - a" arbitrary: a nc u)
  case 0
  then have "a = b" by simp
  then show ?case using "0.prems" by simp
next
  case (Suc n)
  then have ab: "a < b" "n = b - Suc a" by simp_all
  define v where "v = first_code num (Suc a)"
  have v: "v = (first_code num a + num ! a) * 2" using Suc.prems(1) by (simp add: v_def)
  have c: "cnt ! a = word_of_int (num ! a)" using Suc.prems(4) ab by simp
  have t: "push_bit 1 (word_of_int (first_code num a) + cnt ! a) = (word_of_int v :: u32)"
    unfolding c v by (simp del: first_code.simps)
  define nc1 where "nc1 = nc[Suc a := word_of_int v]"
  have nc1: "length nc1 = 17" "\<forall>k. 0 < k \<longrightarrow> k \<le> Suc a \<longrightarrow> nc1 ! k = word_of_int (first_code num k)"
    using Suc.prems(3,5,6) ab unfolding nc1_def v_def by (auto simp: nth_list_update le_Suc_eq simp del: first_code.simps)
  have "\<forall>k. Suc a \<le> k \<longrightarrow> k < b \<longrightarrow> cnt ! k = word_of_int (num ! k)" using Suc.prems(4) by simp
  from Suc.hyps(1) [OF ab(2) _ _ Suc.prems(3) this nc1, of "u + cnt ! a"] ab(1)
  obtain nc' where h: "first_codes [Suc a..<b] cnt (u + cnt ! a, word_of_int v, nc1) =
      (u + cnt ! a + word_of_int (\<Sum>k \<in> {Suc a..<b}. num ! k), word_of_int (first_code num b), nc')"
    "length nc' = 17" "\<forall>k. 0 < k \<longrightarrow> k \<le> b \<longrightarrow> nc' ! k = word_of_int (first_code num k)"
    unfolding v_def by auto
  have "first_codes [a..<b] cnt (u, word_of_int (first_code num a), nc) = first_codes [Suc a..<b] cnt (u + cnt ! a, word_of_int v, nc1)"
    unfolding upt_conv_Cons [OF ab(1)] first_codes.simps Let_def prod.case t nc1_def by (simp only: Suc_eq_plus1)
  also have "\<dots> = (u + word_of_int (\<Sum>k \<in> {a..<b}. num ! k), word_of_int (first_code num b), nc')"
    unfolding h(1) unfolding c using ab(1) by (simp add: sum.atLeast_Suc_lessThan del: sum.op_ivl_Suc)
  finally show ?case using h(2,3) by blast
qed

text \<open>The symbols are added in order; those of a length get its next codes.\<close>

lemma add_symbols_result:
  assumes full: "full_code sizes" and n: "length sizes \<le> 288" and i: "i \<le> length sizes"
    and nc: "length nc = 17" "\<forall>k. 0 < k \<longrightarrow> k < 16 \<longrightarrow> nc ! k = first_words (length sizes) sizes ! k + of_nat (card (syms_of i sizes k))"
    and tr: "trie (code_bits sizes) {s \<in> used_sizes sizes. s < i} (used_sizes sizes) J path (m_look_up t) (m_tree t)"
  shows "\<exists>nc' J' path' t'. add_symbols i (drop i sizes) (nc, node J, t) = Some (nc', node J', t') \<and>
    trie (code_bits sizes) (used_sizes sizes) (used_sizes sizes) J' path' (m_look_up t') (m_tree t') \<and> m_code_size t' = m_code_size t"
  using i nc tr
proof (induction "length sizes - i" arbitrary: i nc J path t)
  case 0
  then have i: "i = length sizes" by simp
  have "{s \<in> used_sizes sizes. s < i} = used_sizes sizes" by (auto simp: i used_sizes_def)
  then show ?case using "0.prems"(4) unfolding i
    by (intro exI [of _ nc] exI [of _ J] exI [of _ path] exI [of _ t]) simp
next
  case (Suc m)
  then have i: "i < length sizes" by simp
  have m: "m = length sizes - Suc i" using Suc.hyps(2) by simp
  note d = Cons_nth_drop_Suc [OF i, symmetric]
  let ?T = "used_sizes sizes" and ?l = "unat (sizes ! i)"
  show ?case
  proof (cases "sizes ! i = 0")
    case True
    have "{s \<in> ?T. s < Suc i} = {s \<in> ?T. s < i}" using True by (auto simp: less_Suc_eq used_sizes_def)
    moreover have "syms_of (Suc i) sizes k = syms_of i sizes k" if "0 < k" for k
      using True that by (auto simp: less_Suc_eq)
    ultimately have "\<exists>nc' J' path' t'. add_symbols (Suc i) (drop (Suc i) sizes) (nc, node J, t) = Some (nc', node J', t') \<and>
        trie (code_bits sizes) ?T ?T J' path' (m_look_up t') (m_tree t') \<and> m_code_size t' = m_code_size t"
      using Suc.prems i by (intro Suc.hyps(1) [OF m]) simp_all
    then show ?thesis unfolding d using True by simp
  next
    case False
    have iT: "i \<in> ?T" using False i by (simp add: used_sizes_def)
    have "?l \<le> 15" using full i by (simp add: full_code_def)
    then have l: "0 < ?l" "?l < 16" using False by (simp_all add: unat_gt_0)
    then have cur: "nc ! ?l = code_of (first_words (length sizes) sizes) sizes i" using Suc.prems(3) by (simp add: code_of_def)
    have S: "{s \<in> ?T. s < i} \<subseteq> ?T" "i \<notin> {s \<in> ?T. s < i}" by auto
    have bits: "\<forall>k < ?l. bit (nc ! ?l) (?l - 1 - k) = code_bits sizes i ! k"
      using code_bits_nth [OF full iT] cur by simp
    have nl: "?l < length nc" using l Suc.prems(2) by simp
    obtain J1 path1 t1 where a: "add_symbol i ?l (nc, node J, t) = Some (nc[?l := nc ! ?l + 1], node J1, t1)"
      "trie (code_bits sizes) (insert i {s \<in> ?T. s < i}) ?T J1 path1 (m_look_up t1) (m_tree t1)" "m_code_size t1 = m_code_size t"
      using add_symbol_result [OF full_codes_ok [OF full n] S(1) iT S(2) Suc.prems(4) length_code_bits nl bits] by blast
    have ins: "insert i {s \<in> ?T. s < i} = {s \<in> ?T. s < Suc i}" using iT by (auto simp: less_Suc_eq)
    let ?nc = "nc[?l := nc ! ?l + 1]"
    have nc: "length ?nc = 17" "\<forall>k. 0 < k \<longrightarrow> k < 16 \<longrightarrow> ?nc ! k = first_words (length sizes) sizes ! k + of_nat (card (syms_of (Suc i) sizes k))"
      using Suc.prems(2,3) nl unfolding card_syms_of_Suc by (auto simp: nth_list_update)
    have "\<exists>nc' J' path' t'. add_symbols (Suc i) (drop (Suc i) sizes) (?nc, node J1, t1) = Some (nc', node J', t') \<and>
        trie (code_bits sizes) ?T ?T J' path' (m_look_up t') (m_tree t') \<and> m_code_size t' = m_code_size t1"
      using i a(2) unfolding ins by (intro Suc.hyps(1) [OF m _ nc]) simp_all
    then show ?thesis unfolding d using False a(1,3) by simp
  qed
qed

text \<open>A table that holds the codes of some lengths.\<close>

definition holds_codes :: "u8 list \<Rightarrow> tinfl_huff_table \<Rightarrow> bool" where
  "holds_codes sizes t \<longleftrightarrow> length sizes \<le> 288 \<and> full_code sizes \<and> (\<exists>J path. trie (code_bits sizes) (used_sizes sizes) (used_sizes sizes) J path (m_look_up t) (m_tree t))"

definition table_arrays :: "nat \<Rightarrow> tinfl_huff_table \<Rightarrow> bool" where
  "table_arrays n t \<longleftrightarrow> length (m_code_size t) = n \<and> length (m_look_up t) = 1024 \<and> length (m_tree t) = 576"

lemma build_table_result:
  assumes a: "table_arrays m t" and n: "n \<le> m" "m \<le> 288" and le: "\<forall>x \<in> set (take n (m_code_size t)). unat x \<le> 15"
  shows "\<exists>t'. build_table n t = Some (full_code (take n (m_code_size t)), t') \<and> m_code_size t' = m_code_size t \<and> table_arrays m t' \<and>
    (full_code (take n (m_code_size t)) \<longrightarrow> holds_codes (take n (m_code_size t)) t')"
proof -
  define sizes where "sizes = take n (m_code_size t)"
  define num where "num = size_counts n sizes"
  have len: "length sizes = n" using a n by (simp add: sizes_def table_arrays_def)
  have le: "\<forall>x \<in> set sizes. unat x \<le> 15" using le by (simp add: sizes_def)
  have num: "num ! k = int (length (filter (\<lambda>x. unat x = k) sizes))" if "k < 16" for k
    using that len by (simp add: num_def size_counts_def length_filter_conv_card)
  obtain cnt where cnt: "count_sizes sizes (replicate 16 0) = Some cnt" "length cnt = 16"
    "\<forall>k < 16. cnt ! k = of_nat (length (filter (\<lambda>x. unat x = k) sizes))"
    using code_counts_result [OF le, of "replicate 16 0"] by auto
  have start: "\<forall>k. 1 \<le> k \<longrightarrow> k < 16 \<longrightarrow> cnt ! k = word_of_int (num ! k)"
    "length (replicate 17 (0 :: u32)) = 17" "\<forall>k. 0 < k \<longrightarrow> k \<le> 1 \<longrightarrow> replicate 17 (0 :: u32) ! k = word_of_int (first_code num k)"
    using cnt(3) num by (auto simp: le_Suc_eq)
  obtain nc where nc: "first_codes [1..<16] cnt (0, word_of_int (first_code num 1), replicate 17 0) =
      (0 + word_of_int (\<Sum>k \<in> {1..<16}. num ! k), word_of_int (first_code num 16), nc)" "length nc = 17"
    "\<forall>k. 0 < k \<longrightarrow> k \<le> 16 \<longrightarrow> nc ! k = word_of_int (first_code num k)"
    using first_codes_result [OF _ _ _ start, of 0] by auto
  define used where "used = card (used_sizes sizes)"
  have u: "(\<Sum>k \<in> {1..<16}. num ! k) = int used"
  proof -
    have "unat (sizes ! s) < 16" if "s < n" for s using le len that by (simp add: less_Suc_eq_le [of _ 15, simplified])
    then have "used_sizes sizes = (\<Union>k \<in> {1..<16}. syms_of n sizes k)"
      using len by (auto simp: used_sizes_def unat_gt_0 Suc_le_eq)
    then have "used = (\<Sum>k \<in> {1..<16}. card (syms_of n sizes k))"
      unfolding used_def by (simp only:) (rule card_UN_disjoint, auto)
    moreover have "num ! k = int (card (syms_of n sizes k))" if "k \<in> {1..<16}" for k
      using that by (simp add: num_def size_counts_def)
    ultimately show ?thesis by simp
  qed
  have k: "first_code num 16 = 2 * int (kraft sizes)"
    using first_code_space [of 15 num] kraft_space [OF le] len by (simp add: num_def numeral_eq_Suc)
  have "used \<le> n" unfolding used_def card_used len [symmetric] by (rule length_filter_le)
  then have small: "used \<le> 288" using n by simp
  have "kraft sizes \<le> (\<Sum>s \<in> used_sizes sizes. 2 ^ 15)"
    unfolding kraft_sum by (intro sum_mono power_increasing) simp_all
  then have "kraft sizes \<le> used * 2 ^ 15" by (simp add: used_def)
  then have kb: "kraft sizes \<le> 288 * 2 ^ 15" using small by (meson le_trans mult_le_mono1)
  have tot: "(word_of_int (first_code num 16) :: u32) = 65536 \<longleftrightarrow> kraft sizes = 2 ^ 15"
  proof -
    have "(word_of_int (first_code num 16) :: u32) = of_nat (2 * kraft sizes)" unfolding k by simp
    moreover have "unat (of_nat (2 * kraft sizes) :: u32) = 2 * kraft sizes"
      using kb by (simp only: unat_of_nat) (simp add: take_bit_nat_eq_self)
    ultimately have "unat (word_of_int (first_code num 16) :: u32) = 2 * kraft sizes" by (simp only:)
    then show ?thesis by (simp add: word_unat_eq_iff)
  qed
  have ones: "1 < (word_of_int (int used) :: u32) \<longleftrightarrow> \<not> used \<le> 1"
    using small by (simp add: word_less_nat_alt unsigned_of_nat take_bit_nat_eq_self not_le)
  have full: "full_code sizes \<longleftrightarrow> kraft sizes = 2 ^ 15 \<or> used \<le> 1"
    using le unfolding full_code_def used_def card_used by blast
  let ?t = "t\<lparr>m_look_up := replicate 1024 0, m_tree := replicate 576 0\<rparr>"
  have fc: "first_codes [1..<16] cnt (0, 0, replicate 17 0) = (of_nat used, word_of_int (first_code num 16), nc)"
    using nc(1) unfolding u by simp
  have ar: "length (m_look_up t) = 1024" "length (m_tree t) = 576" using a by (simp_all add: table_arrays_def)
  show ?thesis
  proof (cases "full_code sizes")
    case False
    then have "build_table n t = Some (False, ?t)"
      using full tot ones cnt(1) fc ar by (simp add: build_table_def sizes_def [symmetric] del: upt_Suc)
    then show ?thesis using a False by (simp add: sizes_def [symmetric] table_arrays_def)
  next
    case True
    have ncw: "\<forall>k. 0 < k \<longrightarrow> k < 16 \<longrightarrow> nc ! k = first_words (length sizes) sizes ! k + of_nat (card (syms_of 0 sizes k))"
      using nc(3) by (simp add: first_words_def len num_def del: upt_Suc)
    have "{s \<in> used_sizes sizes. s < 0} = {}" by simp
    then have tr: "trie (code_bits sizes) {s \<in> used_sizes sizes. s < 0} (used_sizes sizes) 0 (\<lambda>_. []) (m_look_up ?t) (m_tree ?t)"
      using trie_start by simp
    have len288: "length sizes \<le> 288" using len n by simp
    obtain nc' J path t' where add: "add_symbols 0 (drop 0 sizes) (nc, node 0, ?t) = Some (nc', node J, t')"
      "trie (code_bits sizes) (used_sizes sizes) (used_sizes sizes) J path (m_look_up t') (m_tree t')" "m_code_size t' = m_code_size ?t"
      using add_symbols_result [OF True len288 _ nc(2) ncw tr] by blast
    have "build_table n t = Some (True, t')"
      using True full tot ones cnt(1) fc ar add(1)
      by (auto simp: build_table_def sizes_def [symmetric] node_def Let_def simp del: upt_Suc)
    moreover have "table_arrays m t'" using add(2,3) a by (simp add: table_arrays_def trie_def tab_ok_def tree_ok_def)
    ultimately show ?thesis using True add(2,3) len288 by (auto simp: sizes_def [symmetric] holds_codes_def)
  qed
qed

end
