(* ===== verification/Mz_Lookup.thy ===== *)
theory Mz_Lookup
  imports Mz_Table
begin

unbundle bit_operations_syntax

text \<open>
  How the decompressor of \<open>proj/sparc-prog/miniz.c\<close> finds a symbol (\<open>TINFL_HUFF_DECODE\<close>): with a table
  that holds the codes of some lengths it finds the symbol that the reference decoder finds.
\<close>

section \<open>The two tables\<close>

lemma holds_trie:
  assumes "holds_codes sizes t"
  obtains J path where "trie (code_bits sizes) (used_sizes sizes) (used_sizes sizes) J path (m_look_up t) (m_tree t)"
    and "codes_ok (code_bits sizes) (used_sizes sizes)" and "full_code sizes"
  using assms full_codes_ok by (auto simp: holds_codes_def)

lemma holds_length: "holds_codes sizes t \<Longrightarrow> s \<in> used_sizes sizes \<Longrightarrow> 0 < unat (sizes ! s) \<and> unat (sizes ! s) \<le> 15 \<and> s < 288"
  by (auto simp: holds_codes_def used_sizes_def full_code_def unat_gt_0)

lemma low_mask: "unat (w AND (TINFL_FAST_LOOKUP_SIZE - 1)) = path_index (low_bits 10 w)"
proof -
  have "w AND (TINFL_FAST_LOOKUP_SIZE - 1) = take_bit 10 w"
    by (simp add: TINFL_FAST_LOOKUP_SIZE_def TINFL_FAST_LOOKUP_BITS_def take_bit_eq_mask mask_eq_exp_minus_1 push_bit_of_1)
  then show ?thesis using path_index_low [of 10 w] by (simp add: unsigned_take_bit_eq)
qed

lemma look_up_entry:
  assumes "length (m_look_up t) = 1024"
  shows "look_up t w = Some (sint (m_look_up t ! path_index (low_bits 10 w)))"
proof -
  have "path_index (low_bits 10 w) < 1024" using path_index_less [of "low_bits 10 w"] by simp
  then show ?thesis using assms by (simp add: look_up_def low_mask read_at_def)
qed

lemma leaf_parts:
  assumes "l \<le> 15" and "s < 288"
  shows "nat (drop_bit 9 (int l * 512 + int s)) = l" and "(int l * 512 + int s) AND 511 = int s"
proof -
  have "(int l * 512 + int s) div 512 = int l" using assms by simp
  then show "nat (drop_bit 9 (int l * 512 + int s)) = l" by (simp add: drop_bit_eq_div)
  have "(int l * 512 + int s) AND mask 9 = int s" using assms by (simp flip: take_bit_eq_mask add: take_bit_eq_mod)
  then show "(int l * 512 + int s) AND 511 = int s" by (simp add: mask_eq_exp_minus_1)
qed

text \<open>A word that begins with a code.\<close>

definition begins :: "u32 \<Rightarrow> nat \<Rightarrow> bool list \<Rightarrow> bool" where
  "begins w n p \<longleftrightarrow> (\<forall>k < n. bit w k = p ! k)"

lemma begins_take: "begins w n p \<Longrightarrow> k \<le> n \<Longrightarrow> n \<le> length p \<Longrightarrow> low_bits k w = take k p"
  by (intro low_bits_path) (simp_all add: begins_def)

lemma look_up_leaf:
  assumes h: "holds_codes sizes t" and s: "s \<in> used_sizes sizes" and l: "unat (sizes ! s) \<le> 10"
    and b: "begins w (unat (sizes ! s)) (code_bits sizes s)"
  shows "look_up t w = Some (leaf (code_bits sizes) s)"
proof -
  obtain J path where tr: "trie (code_bits sizes) (used_sizes sizes) (used_sizes sizes) J path (m_look_up t) (m_tree t)"
    using holds_trie [OF h] .
  have "low_bits (unat (sizes ! s)) w = code_bits sizes s" using begins_take [OF b, of "unat (sizes ! s)"] by simp
  then have "take (unat (sizes ! s)) (low_bits 10 w) = code_bits sizes s" using l by (simp add: take_low_bits)
  then have "prefix (code_bits sizes s) (low_bits 10 w)" by (metis take_is_prefix)
  then have "sint (m_look_up t ! path_index (low_bits 10 w)) = leaf (code_bits sizes) s"
    using tr s by (simp add: trie_def tab_ok_def entry_ok_def)
  moreover have "length (m_look_up t) = 1024" using tr by (simp add: trie_def tab_ok_def)
  ultimately show ?thesis by (simp add: look_up_entry)
qed

lemma inner_node:
  assumes "trie c T T J path tab tree" and "s \<in> T" and "10 \<le> m" and "m < length (c s)"
  shows "\<exists>j < J. path j = take m (c s)"
proof -
  have "strict_prefix (take m (c s)) (c s)"
    using assms(4) by (metis length_take less_irrefl min.absorb4 prefix_order.dual_order.not_eq_order_implies_strict take_is_prefix)
  then have "take m (c s) \<in> inner_paths c T" using assms(2-4) by (auto simp: inner_paths_def)
  moreover have "inner_paths c T \<subseteq> path ` {..<J}" using assms(1) by (simp add: trie_def nodes_ok_def)
  ultimately show ?thesis by (metis imageE lessThan_iff subsetD)
qed

lemma look_up_node:
  assumes tr: "trie c T T J path (m_look_up t) (m_tree t)" and s: "s \<in> T" and l: "10 < length (c s)"
    and b: "low_bits 10 w = take 10 (c s)"
  shows "\<exists>j < J. path j = take 10 (c s) \<and> look_up t w = Some (node j)"
proof -
  obtain j where j: "j < J" "path j = take 10 (c s)" using inner_node [OF tr s, of 10] l by auto
  then have "sint (m_look_up t ! path_index (low_bits 10 w)) = node j"
    using tr l unfolding b by (simp add: trie_def tab_ok_def entry_ok_def)
  moreover have "length (m_look_up t) = 1024" using tr by (simp add: trie_def tab_ok_def)
  ultimately show ?thesis using j by (auto simp: look_up_entry)
qed

lemma tree_step_result:
  assumes ok: "codes_ok c T" and tr: "trie c T T J path (m_look_up t) (m_tree t)" and s: "s \<in> T"
    and j: "j < J" "path j = take m (c s)" and m: "10 \<le> m" "m < length (c s)" and b: "bit w m = c s ! m"
  shows "if Suc m = length (c s) then tree_step t w (node j) m = Some (int s)
    else \<exists>i < J. path i = take (Suc m) (c s) \<and> tree_step t w (node j) m = Some (node i)"
proof -
  let ?b = "c s ! m" and ?q = "take (Suc m) (c s)"
  have q: "path j @ [?b] = ?q" using j(2) m(2) by (simp add: take_Suc_conv_app_nth)
  have tree: "length (m_tree t) = 576" "entry_ok (\<lambda>t. c t = ?q) int T J path ?q (m_tree t ! (2 * j + of_bool ?b))"
    using tr j(1) unfolding q [symmetric] by (simp_all add: trie_def tree_ok_def)
  have "J \<le> 288" using tr node_count [OF ok] by (auto simp: trie_def)
  then have "2 * j + of_bool ?b < 576" using slot_less [OF j(1), of ?b] by simp
  then have r: "read_at (m_tree t) (2 * j + of_bool ?b) = Some (m_tree t ! (2 * j + of_bool ?b))" using tree(1) by (simp add: read_at_def)
  have "bit (drop_bit m w) 0 = ?b" using b by (simp add: bit_drop_bit_eq)
  then have u: "uint (drop_bit m w AND 1) = of_bool ?b" by (simp only: low_bit)
  have "- node j - 1 + of_bool ?b = int (2 * j + of_bool ?b)" by (simp add: node_def)
  then have st: "tree_step t w (node j) m = Some (sint (m_tree t ! (2 * j + of_bool ?b)))"
    unfolding tree_step_def u Let_def using r by (simp only: nat_int) simp
  show ?thesis
  proof (cases "Suc m = length (c s)")
    case True
    then have "?q = c s" by simp
    then have "sint (m_tree t ! (2 * j + of_bool ?b)) = int s" using tree(2) s by (simp add: entry_ok_def)
    then show ?thesis using True st by simp
  next
    case False
    then obtain i where i: "i < J" "path i = ?q" using inner_node [OF tr s, of "Suc m"] m by auto
    then have "sint (m_tree t ! (2 * j + of_bool ?b)) = node i" using tree(2) by (simp add: entry_ok_def)
    then show ?thesis using False i st by auto
  qed
qed

lemma tree_walk_result:
  assumes ok: "codes_ok c T" and tr: "trie c T T J path (m_look_up t) (m_tree t)" and s: "s \<in> T"
    and b: "begins w (length (c s)) (c s)"
  shows "j < J \<Longrightarrow> path j = take m (c s) \<Longrightarrow> 10 \<le> m \<Longrightarrow> m < length (c s) \<Longrightarrow>
    tree_walk t w (node j) m = Some (int s, length (c s))"
proof (induction "length (c s) - m" arbitrary: j m rule: less_induct)
  case less
  have "bit w m = c s ! m" using b less.prems(4) by (simp add: begins_def)
  note st = tree_step_result [OF ok tr s less.prems this]
  show ?case
  proof (cases "Suc m = length (c s)")
    case True
    then show ?thesis using st by (subst tree_walk.simps) simp
  next
    case False
    then obtain i where i: "i < J" "path i = take (Suc m) (c s)" "tree_step t w (node j) m = Some (node i)" using st by auto
    have "tree_walk t w (node i) (Suc m) = Some (int s, length (c s))"
      using less.prems False i by (intro less.hyps) simp_all
    then show ?thesis using i(3) node_less [of i] by (subst tree_walk.simps) simp
  qed
qed

lemma tree_walk_bounded_result:
  assumes ok: "codes_ok c T" and tr: "trie c T T J path (m_look_up t) (m_tree t)" and s: "s \<in> T"
    and b: "begins w (min n (length (c s))) (c s)"
  shows "j < J \<Longrightarrow> path j = take m (c s) \<Longrightarrow> 10 \<le> m \<Longrightarrow> m < length (c s) \<Longrightarrow> m < n \<Longrightarrow>
    \<exists>v. tree_walk_bounded t w n (node j) m = Some v \<and> (0 \<le> v \<longleftrightarrow> length (c s) \<le> n)"
proof (induction "length (c s) - m" arbitrary: j m rule: less_induct)
  case less
  have "bit w m = c s ! m" using b less.prems(4,5) by (simp add: begins_def)
  note st = tree_step_result [OF ok tr s less.prems(1-4) this]
  show ?case
  proof (cases "Suc m = length (c s)")
    case True
    then show ?thesis using st less.prems(5) by (subst tree_walk_bounded.simps) simp
  next
    case False
    then obtain i where i: "i < J" "path i = take (Suc m) (c s)" "tree_step t w (node j) m = Some (node i)" using st by auto
    show ?thesis
    proof (cases "m + 2 \<le> n")
      case True
      then have "\<exists>v. tree_walk_bounded t w n (node i) (Suc m) = Some v \<and> (0 \<le> v \<longleftrightarrow> length (c s) \<le> n)"
        using less.prems False i by (intro less.hyps) simp_all
      then show ?thesis using i(3) node_less [of i] True by (subst tree_walk_bounded.simps) simp
    next
      case gt: False
      then show ?thesis using i(3) node_less [of i] less.prems False by (subst tree_walk_bounded.simps) simp
    qed
  qed
qed

section \<open>The symbol at the head of the bit buffer\<close>

lemma huff_symbol_result:
  assumes h: "holds_codes sizes t" and s: "s \<in> used_sizes sizes" and b: "begins w (unat (sizes ! s)) (code_bits sizes s)"
  shows "huff_symbol_cut t w = Some (int s, unat (sizes ! s))"
    and "\<exists>v. huff_symbol t w = Some (v, unat (sizes ! s)) \<and> v AND 511 = int s \<and> 0 \<le> v \<and> v < 2 ^ 14"
proof -
  let ?l = "unat (sizes ! s)"
  note len = holds_length [OF h s]
  have "?l * 512 + s < 16384" using len by simp
  then have "int (?l * 512 + s) < int 16384" by (simp only: of_nat_less_iff)
  then have sym_bound: "uint (sizes ! s) * 512 + int s < 16384" by simp
  obtain J path where tr: "trie (code_bits sizes) (used_sizes sizes) (used_sizes sizes) J path (m_look_up t) (m_tree t)"
    and ok: "codes_ok (code_bits sizes) (used_sizes sizes)" using holds_trie [OF h] .
  show "huff_symbol_cut t w = Some (int s, ?l)"
    "\<exists>v. huff_symbol t w = Some (v, ?l) \<and> v AND 511 = int s \<and> 0 \<le> v \<and> v < 2 ^ 14"
  proof (atomize(full), cases "?l \<le> 10")
    case True
    then show "huff_symbol_cut t w = Some (int s, ?l) \<and> (\<exists>v. huff_symbol t w = Some (v, ?l) \<and> v AND 511 = int s \<and> 0 \<le> v \<and> v < 2 ^ 14)"
      using look_up_leaf [OF h s True b] leaf_parts [of ?l s] len
      by (simp add: huff_symbol_def huff_symbol_cut_def leaf_def sym_bound)
  next
    case False
    then have l: "10 < length (code_bits sizes s)" by simp
    have "low_bits 10 w = take 10 (code_bits sizes s)" using begins_take [OF b, of 10] False by simp
    then obtain j where j: "j < J" "path j = take 10 (code_bits sizes s)" "look_up t w = Some (node j)"
      using look_up_node [OF tr s l] by blast
    have "begins w (length (code_bits sizes s)) (code_bits sizes s)" using b by simp
    then have "tree_walk t w (node j) 10 = Some (int s, ?l)" using tree_walk_result [OF ok tr s _ j(1,2)] l by simp
    moreover have "int s AND 511 = int s" using leaf_parts(2) [of 0 s] len by simp
    ultimately show "huff_symbol_cut t w = Some (int s, ?l) \<and> (\<exists>v. huff_symbol t w = Some (v, ?l) \<and> v AND 511 = int s \<and> 0 \<le> v \<and> v < 2 ^ 14)"
      using j(3) node_less [of j] len by (simp add: huff_symbol_def huff_symbol_cut_def TINFL_FAST_LOOKUP_BITS_def)
  qed
qed

text \<open>Whether the bits at hand are a whole code is told right, although bits that are not there count as 0.\<close>

lemma code_complete_result:
  assumes h: "holds_codes sizes (t :: tinfl_huff_table)" and s: "s \<in> used_sizes sizes"
    and pre: "prefix (code_bits sizes s) (low_bits (unat (m_num_bits st)) (m_bit_buf st) @ rest)"
  shows "code_complete t st = Some (unat (sizes ! s) \<le> unat (m_num_bits st))"
proof -
  define n where "n = unat (m_num_bits st)"
  define w where "w = m_bit_buf st"
  let ?l = "unat (sizes ! s)" and ?c = "code_bits sizes"
  note len = holds_length [OF h s]
  have pre: "prefix (?c s) (low_bits n w @ rest)" using pre by (simp add: n_def w_def)
  obtain J path where tr: "trie ?c (used_sizes sizes) (used_sizes sizes) J path (m_look_up t) (m_tree t)"
    and ok: "codes_ok ?c (used_sizes sizes)" and full: "full_code sizes" using holds_trie [OF h] .
  have same: "(low_bits n w @ rest) ! k = ?c s ! k" if "k < ?l" for k
  proof -
    obtain zs where "low_bits n w @ rest = ?c s @ zs" using pre by (auto simp: prefix_def)
    then show ?thesis using that by (simp only: nth_append length_code_bits if_True)
  qed
  have b: "begins w (min n ?l) (?c s)"
    unfolding begins_def
  proof (intro allI impI)
    fix k assume "k < min n ?l"
    then show "bit w k = ?c s ! k" using same [of k] by (simp add: nth_append low_bits_def)
  qed
  have node: "\<exists>j < J. path j = take 10 (?c s) \<and> look_up t w = Some (node j)" if "10 < n" "10 < ?l"
  proof -
    have "low_bits 10 w = take 10 (?c s)" using begins_take [OF b, of 10] that by simp
    then show ?thesis using look_up_node [OF tr s] that by simp
  qed
  have walk: "code_complete t st = Some (?l \<le> n)" if big: "10 < n" "10 < ?l"
  proof -
    obtain j where j: "j < J" "path j = take 10 (?c s)" "look_up t w = Some (node j)" using node [OF big] by blast
    have "begins w (min n (length (?c s))) (?c s)" using b by simp
    then obtain v where "tree_walk_bounded t w n (node j) 10 = Some v" "0 \<le> v \<longleftrightarrow> ?l \<le> n"
      using tree_walk_bounded_result [OF ok tr s _ j(1,2)] big by auto
    then show ?thesis using j(3) node_less [of j] big
      by (simp add: code_complete_def n_def [symmetric] w_def [symmetric] TINFL_FAST_LOOKUP_BITS_def)
  qed
  show ?thesis
  proof (cases "?l \<le> n")
    case True
    show ?thesis
    proof (cases "?l \<le> 10")
      case short: True
      have "begins w ?l (?c s)" using b True by (simp add: min_absorb2)
      from look_up_leaf [OF h s short this] show ?thesis
        using True len leaf_parts(1) [of ?l s] by (simp add: code_complete_def n_def [symmetric] w_def [symmetric] leaf_def)
    next
      case False
      then show ?thesis using walk True by (simp add: n_def)
    qed
  next
    case False
    define x where "x = m_look_up t ! path_index (low_bits 10 w)"
    have lk: "look_up t w = Some (sint x)" using tr look_up_entry [of t w] by (simp add: trie_def tab_ok_def x_def)
    have e: "entry_ok (\<lambda>s. prefix (?c s) (low_bits 10 w)) (leaf ?c) (used_sizes sizes) J path (low_bits 10 w) x"
      using tr by (simp add: trie_def tab_ok_def x_def)
    show ?thesis
    proof (cases "0 \<le> sint x")
      case True
      have no: "path j \<noteq> low_bits 10 w" if "j < J" for j using e that True node_less [of j] by (auto simp: entry_ok_def)
      have "\<not> (nat (drop_bit 9 (sint x)) \<noteq> 0 \<and> nat (drop_bit 9 (sint x)) \<le> n)"
      proof (cases "\<exists>u \<in> used_sizes sizes. prefix (?c u) (low_bits 10 w)")
        case True
        then obtain u where u: "u \<in> used_sizes sizes" "prefix (?c u) (low_bits 10 w)" by blast
        then have "sint x = leaf ?c u" using e by (auto simp: entry_ok_def)
        moreover note holds_length [OF h u(1)]
        ultimately have lu: "nat (drop_bit 9 (sint x)) = unat (sizes ! u)" using leaf_parts(1) [of "unat (sizes ! u)" u] by (simp add: leaf_def)
        have "\<not> unat (sizes ! u) \<le> n"
        proof
          assume le: "unat (sizes ! u) \<le> n"
          have "unat (sizes ! u) \<le> 10" using prefix_length_le [OF u(2)] by simp
          then have "?c u = low_bits (unat (sizes ! u)) w" using u(2) by (auto simp: prefix_def take_low_bits [symmetric])
          also have "\<dots> = take (unat (sizes ! u)) (low_bits n w @ rest)" using le by (simp add: take_low_bits)
          finally have "prefix (?c u) (low_bits n w @ rest)" by (metis take_is_prefix)
          then have "prefix (?c u) (?c s) \<or> prefix (?c s) (?c u)" using pre prefix_same_cases by blast
          then have "u = s" using code_bits_prefix [OF full] u(1) s by blast
          then show False using le False by simp
        qed
        then show ?thesis using lu by simp
      next
        case none: False
        then have "x = 0" using e no by (auto simp: entry_ok_def)
        then show ?thesis by simp
      qed
      then show ?thesis using True lk False by (auto simp: code_complete_def n_def [symmetric] w_def [symmetric] Let_def)
    next
      case neg: False
      show ?thesis
      proof (cases "10 < n")
        case True
        then show ?thesis using walk False by (simp add: n_def)
      next
        case small: False
        then show ?thesis using lk neg False
          by (simp add: code_complete_def n_def [symmetric] w_def [symmetric] TINFL_FAST_LOOKUP_BITS_def)
      qed
    qed
  qed
qed

end
