(* ===== verification/Mz_Decode.thy ===== *)
theory Mz_Decode
  imports Mz_Stream
begin

unbundle bit_operations_syntax

text \<open>
  A decoder of deflate streams after RFC 1951, block by block, for the compressor of
  \<open>proj/sparc-prog/miniz.c\<close> to be measured against.  The stream is a list of bits; as it ends at a
  byte, the next byte boundary is where the number of bits to come is a multiple of eight.
\<close>

section \<open>Blocks\<close>

primrec read_bytes :: "nat \<Rightarrow> bool list \<Rightarrow> (u8 list \<times> bool list) option" where
  "read_bytes 0 bs = Some ([], bs)"
| "read_bytes (Suc n) bs =
    do {
      (x, bs) \<leftarrow> read_bits 8 bs;
      (xs, bs) \<leftarrow> read_bytes n bs;
      Some (of_nat x # xs, bs)
    }"

definition to_boundary :: "bool list \<Rightarrow> bool list" where
  "to_boundary bs = drop (length bs mod 8) bs"

definition read_stored :: "bool list \<Rightarrow> (u8 list \<times> bool list) option" where
  "read_stored bs =
    do {
      (len, bs) \<leftarrow> read_bits 16 (to_boundary bs);
      (nlen, bs) \<leftarrow> read_bits 16 bs;
      if len + nlen = 65535 then read_bytes len bs else None
    }"

definition read_body :: "u8 list \<Rightarrow> bool list \<Rightarrow> (u8 list \<times> bool list) option" where
  "read_body out bs =
    do {
      (t, rest) \<leftarrow> read_bits 2 bs;
      if t = 0 then do { (bytes, bs) \<leftarrow> read_stored rest; Some (out @ bytes, bs) }
      else do { (items, bs) \<leftarrow> read_packed_block bs; out \<leftarrow> expand items out; Some (out, bs) }
    }"

text \<open>Up to the block that is marked as the last one.\<close>

partial_function (option) inflate_blocks :: "u8 list \<Rightarrow> bool list \<Rightarrow> (u8 list \<times> bool list) option" where
  "inflate_blocks out bs =
    (case bs of
       [] \<Rightarrow> None
     | final # bs \<Rightarrow>
        do {
          (out, bs) \<leftarrow> read_body out bs;
          if final then Some (out, bs) else inflate_blocks out bs
        })"

text \<open>A string of bits that begins at a given distance from a byte boundary is a block body for some
  output, whatever follows.\<close>

definition body_of :: "bool list \<Rightarrow> bool list \<Rightarrow> u8 list \<Rightarrow> u8 list \<Rightarrow> bool" where
  "body_of sent bits out out' \<longleftrightarrow>
     (\<forall>bs. 8 dvd length (sent @ bits @ bs) \<longrightarrow> read_body out (bits @ bs) = Some (out', bs))"

lemma packed_body:
  assumes "\<forall>bs. read_packed_block (bits @ bs) = Some (items, bs)" and "expand items out = Some out'"
  shows "body_of sent bits out out'"
  unfolding body_of_def
proof (intro allI impI)
  fix bs
  have p: "read_packed_block (bits @ bs) = Some (items, bs)" using assms(1) by blast
  then obtain t rest where t: "read_bits 2 (bits @ bs) = Some (t, rest)" "t \<noteq> 0"
    by (fastforce simp: read_packed_block_def bind_eq_Some_conv split: if_splits)
  then show "read_body out (bits @ bs) = Some (out', bs)" using p assms(2) by (simp add: read_body_def)
qed

lemma read_bytes_bits: "read_bytes (length xs) (concat (map (low_bits 8) xs) @ bs) = Some (xs, bs)"
proof (induction xs)
  case (Cons x xs)
  have "unat x < 2 ^ 8" using unsigned_less [of x] by simp
  then have "read_bits 8 (low_bits 8 x @ r) = Some (unat x, r)" for r
    using read_bits_low [of 8 x r] by (simp add: take_bit_nat_eq_self)
  then show ?case using Cons by simp
qed simp

lemma length_bytes_bits: "length (concat (map (low_bits 8) xs)) = 8 * length xs"
  by (induction xs) simp_all

lemma stored_body:
  assumes "8 dvd length (sent @ low_bits 2 (0 :: u32) @ pad)" and "length pad < 8" and "length xs < 65536"
  shows "body_of sent (low_bits 2 (0 :: u32) @ pad @ low_bits 16 (of_nat (length xs) :: u32) @
    low_bits 16 (of_nat (65535 - length xs) :: u32) @ concat (map (low_bits 8) xs)) out (out @ xs)"
  unfolding body_of_def
proof (intro allI impI)
  fix bs
  define m where "m = 65535 - length xs"
  have m: "length xs + m = 65535" "m < 65536" using assms(3) by (simp_all add: m_def)
  let ?T = "low_bits 16 (of_nat (length xs) :: u32) @ low_bits 16 (of_nat m :: u32) @ concat (map (low_bits 8) xs) @ bs"
  assume "8 dvd length (sent @ (low_bits 2 (0 :: u32) @ pad @ low_bits 16 (of_nat (length xs) :: u32) @
    low_bits 16 (of_nat (65535 - length xs) :: u32) @ concat (map (low_bits 8) xs)) @ bs)"
  then have "8 dvd length (sent @ low_bits 2 (0 :: u32) @ pad) + length ?T" unfolding m_def [symmetric] by (simp add: ac_simps)
  then have "8 dvd length ?T" using assms(1) by (simp only: dvd_add_right_iff)
  then have "length (pad @ ?T) mod 8 = length pad" using assms(2) by (auto simp: dvd_def)
  then have "to_boundary (pad @ ?T) = ?T" unfolding to_boundary_def by (simp only: append_eq_conv_conj [symmetric]) simp
  moreover have "read_bits 16 (low_bits 16 (of_nat n :: u32) @ r) = Some (n, r)" if "n < 65536" for n r
    using that by (intro read_value) simp_all
  ultimately have "read_stored (pad @ ?T) = Some (xs, bs)"
    using assms(3) m by (simp add: read_stored_def read_bytes_bits)
  moreover have "read_bits 2 (low_bits 2 (0 :: u32) @ r) = Some (0, r)" for r
    using read_value [of 0 2 r] by simp
  ultimately show "read_body out ((low_bits 2 (0 :: u32) @ pad @ low_bits 16 (of_nat (length xs) :: u32) @
    low_bits 16 (of_nat (65535 - length xs) :: u32) @ concat (map (low_bits 8) xs)) @ bs) = Some (out @ xs, bs)"
    unfolding m_def [symmetric] by (simp add: read_body_def)
qed

text \<open>What the bits sent so far have said: a decoder that has read them goes on after them.\<close>

definition says :: "bool list \<Rightarrow> bool list \<Rightarrow> u8 list \<Rightarrow> bool" where
  "says header sent out \<longleftrightarrow> (\<exists>rest. sent = header @ rest \<and>
     (\<forall>bs. 8 dvd length (sent @ bs) \<longrightarrow> inflate_blocks [] (rest @ bs) = inflate_blocks out bs))"

lemma says_start: "says header header []"
  by (simp add: says_def)

lemma says_block:
  assumes "says header sent out" and "body_of (sent @ [False]) bits out out'"
  shows "says header (sent @ False # bits) out'"
proof -
  obtain rest where rest: "sent = header @ rest"
    "\<And>bs. 8 dvd length (sent @ bs) \<Longrightarrow> inflate_blocks [] (rest @ bs) = inflate_blocks out bs"
    using assms(1) unfolding says_def by blast
  have "inflate_blocks [] ((rest @ False # bits) @ bs) = inflate_blocks out' bs"
    if b: "8 dvd length ((sent @ False # bits) @ bs)" for bs
  proof -
    have "inflate_blocks [] (rest @ (False # bits @ bs)) = inflate_blocks out (False # bits @ bs)"
      using b by (intro rest(2)) simp
    also have "\<dots> = inflate_blocks out' bs"
      using assms(2) b by (subst inflate_blocks.simps) (simp add: body_of_def)
    finally show ?thesis by simp
  qed
  then show ?thesis unfolding says_def by (intro exI [of _ "rest @ False # bits"]) (simp add: rest(1))
qed

lemma says_last:
  assumes "says header sent out" and "body_of (sent @ [True]) bits out out'"
    and "8 dvd length (sent @ True # bits @ bs)"
  shows "\<exists>rest. sent @ True # bits @ bs = header @ rest \<and> inflate_blocks [] rest = Some (out', bs)"
proof -
  obtain rest where rest: "sent = header @ rest"
    "\<And>bs. 8 dvd length (sent @ bs) \<Longrightarrow> inflate_blocks [] (rest @ bs) = inflate_blocks out bs"
    using assms(1) unfolding says_def by blast
  have "inflate_blocks [] (rest @ True # bits @ bs) = inflate_blocks out (True # bits @ bs)"
    using assms(3) by (intro rest(2)) simp
  also have "\<dots> = Some (out', bs)"
    using assms(2,3) by (subst inflate_blocks.simps) (simp add: body_of_def)
  finally show ?thesis using rest(1) by (intro exI [of _ "rest @ True # bits @ bs"]) simp
qed

end
