(* ===== verification/Mz_Flush.thy ===== *)
theory Mz_Flush
  imports Mz_Decode
begin

unbundle bit_operations_syntax

text \<open>
  What \<open>tdefl_flush_block\<close> of \<open>proj/sparc-prog/miniz.c\<close> writes: whichever of the three kinds of block
  it chooses, the block stands for the input since the last one.  A block with fixed tables, and a
  stored one, always fit the output buffer.
\<close>

section \<open>Stored blocks\<close>

lemma coder_stream_length:
  assumes "coder_ok c"
  shows "length (stream_of c) = 8 * length (m_output c) + unat (m_bits_in c)"
  using length_bytes_bits [of "m_output c"] by (simp add: stream_of_def)

lemma put_aligned_ok:
  assumes "coder_ok c"
  shows "\<exists>pad. writes pad c (put_aligned c) \<and> length pad < 8 \<and> 8 dvd length (stream_of c @ pad)"
proof (cases "m_bits_in c = 0")
  case True
  then show ?thesis
    using coder_stream_length [OF assms] by (intro exI [of _ "[]"]) (auto simp: put_aligned_def intro: writes_nothing)
next
  case False
  have b: "unat (m_bits_in c) < 8" "1 \<le> unat (m_bits_in c)"
    using assms False by (simp_all add: coder_ok_def Suc_le_eq unat_gt_0)
  then have l: "unat (8 - m_bits_in c) = 8 - unat (m_bits_in c)" by (simp add: unat_sub word_le_nat_alt)
  have "writes (low_bits (unat (8 - m_bits_in c)) (0 :: u32)) c (TDEFL_PUT_BITS 0 (8 - m_bits_in c) c)"
    using l by (intro put_bits_writes) simp_all
  then show ?thesis
    using coder_stream_length [OF assms] b l False
    by (intro exI [of _ "low_bits (unat (8 - m_bits_in c)) (0 :: u32)"]) (simp add: put_aligned_def)
qed

lemma low_half:
  assumes "unat (n :: u32) < 65536"
  shows "n AND 0xFFFF = of_nat (unat n)" and "(n XOR 0xFFFF) AND 0xFFFF = of_nat (65535 - unat n)"
proof -
  have m: "(0xFFFF :: u32) = mask 16" by (simp add: mask_eq_exp_minus_1)
  have "unat (take_bit 16 n) = unat n" using assms by (simp add: unsigned_take_bit_eq take_bit_nat_eq_self)
  then have "take_bit 16 n = n" by (simp only: word_unat_eq_iff)
  then have a: "n AND 0xFFFF = n" unfolding m by (simp flip: take_bit_eq_mask)
  then show "n AND 0xFFFF = of_nat (unat n)" by simp
  have sub: "bit n i \<Longrightarrow> bit (0xFFFF :: u32) i" for i using a by (metis bit_and_iff)
  have "(n XOR 0xFFFF) + n = (n XOR 0xFFFF) OR n"
    using sub by (intro disjunctive_add) (auto simp: bit_xor_iff)
  also have "\<dots> = 0xFFFF" using sub by (intro bit_word_eqI) (auto simp: bit_or_iff bit_xor_iff)
  finally have x: "n XOR 0xFFFF = 0xFFFF - n" by (simp add: eq_diff_eq)
  have "(n XOR 0xFFFF) AND 0xFFFF = n XOR 0xFFFF"
    using sub by (intro bit_word_eqI) (auto simp: bit_and_iff bit_xor_iff)
  then show "(n XOR 0xFFFF) AND 0xFFFF = of_nat (65535 - unat n)"
    using assms by (simp add: x of_nat_diff)
qed

lemma put_length_ok:
  assumes "unat n < 65536"
  shows "writes (low_bits 16 (of_nat (unat n) :: u32) @ low_bits 16 (of_nat (65535 - unat n) :: u32)) c (put_length n c)"
proof -
  have "writes (low_bits (unat (16 :: u32)) (of_nat k :: u32)) d (TDEFL_PUT_BITS (of_nat k) 16 d)" if "k < 65536" for k d
    using that by (intro put_bits_writes) (simp_all add: unsigned_of_nat take_bit_nat_eq_self)
  from writes_append [OF this [of "unat n" c] this [of "65535 - unat n"]] show ?thesis
    using assms by (simp add: put_length_def low_half [OF assms] del: of_nat_diff)
qed

lemma put_dict_bytes_ok:
  "writes (concat (map (low_bits 8) (map (\<lambda>i. dict ! unat ((pos + of_nat i) AND TDEFL_LZ_DICT_SIZE_MASK)) [0..<n]))) c
    (put_dict_bytes n dict pos c)"
proof (induction n arbitrary: pos c)
  case (Suc n)
  let ?b = "dict ! unat (pos AND TDEFL_LZ_DICT_SIZE_MASK)"
  have "unat (ucast ?b :: u32) < 2 ^ 8" using unsigned_less [of ?b] by (simp add: unat_ucast_widen)
  then have "writes (low_bits (unat (8 :: u32)) (ucast ?b :: u32)) c (TDEFL_PUT_BITS (ucast ?b) 8 c)"
    by (intro put_bits_writes) simp_all
  then have "writes (low_bits 8 ?b) c (TDEFL_PUT_BITS (ucast ?b) 8 c)" by (simp add: low_bits_ucast)
  from writes_append [OF this Suc [of "pos + 1"]]
  have "writes (low_bits 8 ?b @ concat (map (low_bits 8) (map (\<lambda>i. dict ! unat ((pos + 1 + of_nat i) AND TDEFL_LZ_DICT_SIZE_MASK)) [0..<n]))) c
      (put_dict_bytes (Suc n) dict pos c)" by simp
  moreover have "pos + 1 + of_nat i = pos + of_nat (Suc i)" for i by simp
  ultimately show ?case unfolding map_upt_Suc by simp
qed (auto intro: writes_nothing)

lemma put_raw_ok:
  assumes ok: "coder_ok (coder d)" and n: "unat (m_total_lz_bytes d) < 65536"
    and bytes: "\<And>i. i < unat (m_total_lz_bytes d) \<Longrightarrow> m_dict d ! unat ((pos + of_nat i) AND TDEFL_LZ_DICT_SIZE_MASK) = xs ! i"
    and len: "length xs = unat (m_total_lz_bytes d)"
  shows "\<exists>c bits. put_raw_block pos d = d\<lparr>coder := c\<rparr> \<and> writes bits (coder d) c \<and> length bits \<le> 41 + 8 * length xs \<and>
    (0 < m_output_room c \<longrightarrow> body_of (stream_of (coder d)) bits out (out @ xs))"
proof -
  let ?c = "coder d" and ?n = "m_total_lz_bytes d"
  let ?c1 = "TDEFL_PUT_BITS 0 2 ?c"
  have w1: "writes (low_bits 2 (0 :: u32)) ?c ?c1" using put_bits_writes [of 0 2 ?c] by simp
  then have ok1: "coder_ok ?c1" using ok by (simp add: writes_def)
  obtain pad where pad: "writes pad ?c1 (put_aligned ?c1)" "length pad < 8" "8 dvd length (stream_of ?c1 @ pad)"
    using put_aligned_ok [OF ok1] by blast
  let ?bs = "map (\<lambda>i. m_dict d ! unat ((pos + of_nat i) AND TDEFL_LZ_DICT_SIZE_MASK)) [0..<unat ?n]"
  have xs: "?bs = xs" using bytes len by (intro nth_equalityI) simp_all
  let ?c2 = "put_length ?n (put_aligned ?c1)"
  let ?c3 = "put_dict_bytes (unat ?n) (m_dict d) pos ?c2"
  have w2: "writes (low_bits 16 (of_nat (unat ?n) :: u32) @ low_bits 16 (of_nat (65535 - unat ?n) :: u32)) (put_aligned ?c1) ?c2"
    using n by (rule put_length_ok)
  have w3: "writes (concat (map (low_bits 8) xs)) ?c2 ?c3" using put_dict_bytes_ok [of "m_dict d" pos "unat ?n" ?c2] unfolding xs .
  let ?bits = "low_bits 2 (0 :: u32) @ pad @ low_bits 16 (of_nat (length xs) :: u32) @
    low_bits 16 (of_nat (65535 - length xs) :: u32) @ concat (map (low_bits 8) xs)"
  have w: "writes ?bits ?c ?c3"
    using writes_append [OF w1 writes_append [OF pad(1) writes_append [OF w2 w3]]] by (simp only: len append_assoc)
  have body: "body_of (stream_of ?c) ?bits out (out @ xs)" if room: "0 < m_output_room ?c3"
  proof (rule stored_body)
    have "m_output_room ?c3 \<le> m_output_room ?c1"
      using writes_append [OF pad(1) writes_append [OF w2 w3]] ok1 by (simp add: writes_def)
    then have "stream_of ?c1 = stream_of ?c @ low_bits 2 (0 :: u32)" using w1 ok room by (simp add: writes_def)
    then show "8 dvd length (stream_of ?c @ low_bits 2 (0 :: u32) @ pad)" using pad(3) by simp
  qed (use pad(2) n len in simp_all)
  have len': "length ?bits \<le> 41 + 8 * length xs" using pad(2) by (simp add: length_bytes_bits)
  have "put_raw_block pos d = d\<lparr>coder := ?c3\<rparr>" by (simp add: put_raw_block_def Let_def)
  then show ?thesis
    by (intro exI [of _ ?c3] exI [of _ ?bits] conjI impI) (assumption | rule w len' body)+
qed

section \<open>The choice of a block\<close>

lemma length_copy_match: "length (copy_match n dist out) = length out + n"
  by (induction n arbitrary: out) simp_all

lemma expand_length: "expand items out = Some out' \<Longrightarrow> length out' = length out + sum_list (map item_len items)"
proof (induction items arbitrary: out)
  case (Cons i items)
  obtain o1 where o1: "expand_item i out = Some o1" "expand items o1 = Some out'"
    using Cons.prems by (auto simp: bind_eq_Some_conv)
  have "length o1 = length out + item_len i"
    using o1(1) by (cases i) (auto simp: item_len_def length_copy_match split: if_splits)
  then show ?case using Cons.IH [OF o1(2)] by simp
qed simp

text \<open>The cost of the fixed tables, from the size of the buffer of codes.\<close>

lemma item_cost_bytes: "item_ok i \<Longrightarrow> 25 * item_cost 9 31 i \<le> 31 * (8 * length (item_bytes i) + 1)"
  by (cases i) simp_all

lemma lz_bytes_cost:
  "\<forall>i \<in> set items. item_ok i \<Longrightarrow> 25 * sum_list (map (item_cost 9 31) items) \<le> 248 * length (lz_bytes items)"
proof (induction items rule: lz_bytes.induct)
  case (1 items)
  show ?case
  proof (cases "items = []")
    case False
    let ?a = "take 8 items" and ?b = "drop 8 items"
    have cost: "25 * sum_list (map (item_cost 9 31) is) \<le> 31 * (8 * length (items_bytes is) + length is)"
      if "\<forall>i \<in> set is. item_ok i" for "is"
      using that
    proof (induction "is")
      case (Cons i "is")
      then show ?case using item_cost_bytes [of i] by (simp add: algebra_simps)
    qed simp
    have "set ?a \<subseteq> set items" "set ?b \<subseteq> set items" by (rule set_take_subset set_drop_subset)+
    then have ok: "\<forall>i \<in> set ?a. item_ok i" "\<forall>i \<in> set ?b. item_ok i" using "1.prems" by blast+
    have "25 * sum_list (map (item_cost 9 31) items) =
        25 * sum_list (map (item_cost 9 31) ?a) + 25 * sum_list (map (item_cost 9 31) ?b)"
      by (metis append_take_drop_id map_append sum_list_append distrib_left)
    also have "\<dots> \<le> 31 * (8 * length (items_bytes ?a) + length ?a) + 248 * length (lz_bytes ?b)"
      by (intro add_mono cost [OF ok(1)] "1.IH" [OF False ok(2)])
    also have "\<dots> \<le> 31 * (8 * length (items_bytes ?a) + 8) + 248 * length (lz_bytes ?b)"
      by (intro add_mono mult_le_mono2) simp_all
    also have "\<dots> = 248 * (1 + length (items_bytes ?a) + length (lz_bytes ?b))" by simp
    also have "1 + length (items_bytes ?a) + length (lz_bytes ?b) = length (lz_bytes items)"
      using False by (simp add: lz_bytes.simps [of items])
    finally show ?thesis .
  qed simp
qed

lemma static_cost:
  assumes "\<forall>i \<in> set items. item_ok i" and "length (lz_bytes items) \<le> 65536"
  shows "sum_list (map (item_cost 9 31) items) \<le> 650118"
  using lz_bytes_cost [OF assms(1)] assms(2) by linarith

lemma dynamic_cost:
  assumes "\<forall>i \<in> set items. item_ok i"
  shows "sum_list (map (item_cost 15 48) items) \<le> 16 * sum_list (map item_len items)"
  using assms
proof (induction items)
  case (Cons i items)
  then show ?case by (cases i) (auto simp: item_len_def)
qed simp

text \<open>The items collected stand for the input from \<open>B\<close> to \<open>Q\<close>; the parser is at \<open>P\<close>, at most one
  byte further.\<close>

definition block_state :: "lz_item list \<Rightarrow> u8 list \<Rightarrow> nat \<Rightarrow> nat \<Rightarrow> nat \<Rightarrow> tdefl_lz \<Rightarrow> bool" where
  "block_state items data B Q P d \<longleftrightarrow> block_ready items d \<and> length (m_lz_code_buf d) = TDEFL_LZ_CODE_BUF_SIZE \<and>
     window P data d \<and> expand items (take B data) = Some (take Q data) \<and> B \<le> Q \<and> Q \<le> P \<and> P \<le> Q + 1 \<and>
     m_total_lz_bytes d = of_nat (Q - B) \<and> Q - B < 2 ^ 31"

text \<open>The bits of a block body were appended to the stream; at least \<open>r\<close> bytes of room are left.\<close>

definition body_written :: "nat \<Rightarrow> u8 list \<Rightarrow> u8 list \<Rightarrow> tdefl_compressor \<Rightarrow> tdefl_compressor \<Rightarrow> bool" where
  "body_written r out out' c c' \<longleftrightarrow> coder_ok c' \<and> huff_arrays c' \<and> r \<le> m_output_room c' \<and>
     output_space c' = output_space c \<and>
     (\<exists>bits. stream_of c' = stream_of c @ bits \<and> body_of (stream_of c) bits out out')"

lemma extends_room:
  assumes "extends bits c c'" and "coder_ok c" and "length bits \<le> 8 * k" and "k + 1 + r \<le> m_output_room c" and "0 < r"
  shows "coder_ok c'" and "r \<le> m_output_room c'" and "stream_of c' = stream_of c @ bits"
    and "output_space c' = output_space c"
proof -
  have e: "coder_ok c'" "8 * m_output_room c + unat (m_bits_in c') \<le> 8 * m_output_room c' + unat (m_bits_in c) + length bits"
    "0 < m_output_room c' \<longrightarrow> stream_of c' = stream_of c @ bits" "unat (m_bits_in c) < 8"
    using assms(1,2) by (simp_all add: extends_def coder_ok_def)
  show "coder_ok c'" by (rule e(1))
  show "r \<le> m_output_room c'" using e(2,4) assms(3,4) by linarith
  then show "stream_of c' = stream_of c @ bits" using e(3) assms(5) by simp
  show "output_space c' = output_space c" using assms(1) by (simp add: extends_def)
qed

lemma same_streamD:
  assumes "same_stream c c'"
  shows "stream_of c' = stream_of c" and "coder_ok c' = coder_ok c" and "m_output_room c' = m_output_room c"
    and "output_space c' = output_space c"
  using assms by (simp_all add: same_stream_def stream_of_def coder_ok_def output_space_def)

lemma rewind_coder:
  assumes "huff_arrays c"
  shows "\<exists>c'. rewind saved (d\<lparr>coder := c\<rparr>) = d\<lparr>coder := c'\<rparr> \<and> same_stream saved c' \<and> huff_arrays c'"
  using assms
  by (intro exI [of _ "c\<lparr>m_output := m_output saved, m_output_room := m_output_room saved,
    m_bit_buffer := m_bit_buffer saved, m_bits_in := m_bits_in saved\<rparr>"]) (simp add: rewind_def same_stream_def huff_arrays_def)

lemma raw_written:
  assumes b: "block_state items data B Q P d" and near: "m_lookahead_pos d - of_nat B \<le> m_dict_size d"
    and c: "same_stream (coder d) c" "huff_arrays c" "coder_ok (coder d)" and room: "85170 \<le> m_output_room (coder d)"
  shows "\<exists>c'. put_raw_block (of_nat B) (d\<lparr>coder := c\<rparr>) = d\<lparr>coder := c'\<rparr> \<and>
    body_written 60 (take B data) (take Q data) (coder d) c'"
proof -
  have S: "window P data d" "B \<le> Q" "Q \<le> P" "P \<le> Q + 1" "m_total_lz_bytes d = of_nat (Q - B)" "Q - B < 2 ^ 31"
    using b by (simp_all add: block_state_def)
  have W: "m_lookahead_pos d = of_nat P" "unat (m_dict_size d) \<le> 32768" "P \<le> length data"
    using S(1) by (simp_all add: window_def filling_def)
  have "m_lookahead_pos d - of_nat B = of_nat (P - B)" using S(2,3) W(1) by simp
  moreover have "P - B < 2 ^ 32" using S(4,6) by simp
  ultimately have "unat (m_lookahead_pos d - of_nat B) = P - B" by (simp add: unsigned_of_nat take_bit_nat_eq_self)
  then have PB: "P - B \<le> unat (m_dict_size d)" using near by (simp add: word_le_nat_alt)
  have n: "unat (m_total_lz_bytes d) = Q - B" using S(5,6) by (simp add: unsigned_of_nat take_bit_nat_eq_self)
  let ?xs = "take (Q - B) (drop B data)"
  have len: "length ?xs = Q - B" using S(3) W(3) by simp
  let ?d = "d\<lparr>coder := c\<rparr>"
  have bytes: "m_dict ?d ! unat ((of_nat B + of_nat i) AND TDEFL_LZ_DICT_SIZE_MASK) = ?xs ! i" if "i < unat (m_total_lz_bytes ?d)" for i
  proof -
    have i: "i < Q - B" using that n by simp
    then have lt: "B + i < length data" "P - unat (m_dict_size d) \<le> B + i" using S(3) W(3) PB by linarith+
    have "m_dict d ! ((B + i) mod 32768 + 0) = data ! (B + i + 0)" using lt by (intro window_reads [OF S(1)]) simp_all
    moreover have "unat ((of_nat B + of_nat i :: u32) AND TDEFL_LZ_DICT_SIZE_MASK) = (B + i) mod 32768"
      by (simp only: of_nat_add [symmetric] unat_of_nat_mod)
    ultimately show ?thesis using i S(3) W(3) by simp
  qed
  have small: "Q - B \<le> 32768" using PB W(2) S(3) by linarith
  have "coder_ok (coder ?d)" "unat (m_total_lz_bytes ?d) < 65536" "length ?xs = unat (m_total_lz_bytes ?d)"
    using c n len small by (simp_all add: same_streamD)
  from put_raw_ok [OF this(1,2) bytes this(3), of "take B data"]
  obtain c' bits where c': "put_raw_block (of_nat B) ?d = ?d\<lparr>coder := c'\<rparr>" "writes bits c c'"
    "length bits \<le> 41 + 8 * length ?xs" "0 < m_output_room c' \<longrightarrow> body_of (stream_of c) bits (take B data) (take B data @ ?xs)"
    by auto
  have k: "length bits \<le> 8 * 32774" using c'(3) len small by simp
  have ok: "coder_ok c" "85170 \<le> m_output_room c" using c room by (simp_all add: same_streamD)
  note X = extends_room [OF writes_extends [OF c'(2)] ok(1) k, of 60]
  have "huff_arrays c'" using c'(2) c(2) by (simp add: writes_def same_tables_def huff_arrays_def)
  moreover have "take B data @ ?xs = take Q data"
    using S(2) by (metis le_add_diff_inverse take_add)
  ultimately have "body_written 60 (take B data) (take Q data) (coder d) c'"
    using X ok(2) c'(4) same_streamD(1,4) [OF c(1)] by (auto simp: body_written_def)
  then show ?thesis using c'(1) by auto
qed

lemma static_written:
  assumes b: "block_state items data B Q P d"
    and c: "same_stream (coder d) c" "huff_arrays c" "coder_ok (coder d)" and room: "85170 \<le> m_output_room (coder d)"
  shows "\<exists>c'. tdefl_compress_block True (d\<lparr>coder := c\<rparr>) = Some (True, d\<lparr>coder := c'\<rparr>) \<and>
    body_written 60 (take B data) (take Q data) (coder d) c'"
proof -
  let ?d = "d\<lparr>coder := c\<rparr>"
  have R: "\<forall>i \<in> set items. item_ok i" "take (m_pLZ_code_buf d) (m_lz_code_buf d) = lz_bytes items"
    "m_pLZ_code_buf d \<le> length (m_lz_code_buf d)" "length (m_lz_code_buf d) = 65536"
    "expand items (take B data) = Some (take Q data)"
    using b by (simp_all add: block_state_def block_ready_def TDEFL_LZ_CODE_BUF_SIZE_def)
  obtain c' bits where c': "tdefl_compress_block True ?d = Some (0 < m_output_room c', ?d\<lparr>coder := c'\<rparr>)"
    "extends bits c c'" "huff_arrays c'" "\<forall>bs. read_packed_block (bits @ bs) = Some (items, bs)"
    "length bits \<le> 11 + sum_list (map (item_cost 9 31) items)"
    using static_compress_ok [of ?d items] c(2) R(1-3) by auto
  have "length (lz_bytes items) = m_pLZ_code_buf d" using R(2,3) by (metis length_take min.absorb2)
  then have "length bits \<le> 8 * 81267" using static_cost [OF R(1)] R(3,4) c'(5) by simp
  note X = extends_room [OF c'(2) _ this, of 60]
  have ok: "coder_ok c" "85170 \<le> m_output_room c" using c room by (simp_all add: same_streamD)
  have "body_of (stream_of (coder d)) bits (take B data) (take Q data)" using packed_body [OF c'(4) R(5)] .
  then have "body_written 60 (take B data) (take Q data) (coder d) c'"
    using X ok c'(3) same_streamD(1,4) [OF c(1)] by (auto simp: body_written_def)
  moreover have "0 < m_output_room c'" using X(2) ok by simp
  ultimately show ?thesis using c'(1) by auto
qed

lemma lz_bytes_items: "9 * length items \<le> 8 * length (lz_bytes items)"
proof (induction items rule: lz_bytes.induct)
  case (1 items)
  show ?case
  proof (cases "items = []")
    case False
    let ?a = "take 8 items" and ?b = "drop 8 items"
    have "length ?a \<le> length (items_bytes ?a)" by (rule length_items_bytes)
    moreover have "length items = length ?a + length ?b" "length ?a \<le> 8" by simp_all
    moreover have "length (lz_bytes items) = 1 + length (items_bytes ?a) + length (lz_bytes ?b)"
      using False by (simp add: lz_bytes.simps [of items])
    ultimately show ?thesis using "1.IH" [OF False] by linarith
  qed simp
qed

lemma same_stream_refl: "same_stream c c"
  by (simp add: same_stream_def)

lemma body_written_mono: "body_written r out out' c c' \<Longrightarrow> s \<le> r \<Longrightarrow> body_written s out out' c c'"
  by (auto simp: body_written_def)

lemma block_attempt:
  assumes b: "block_state items data B Q P d" and ok: "coder_ok (coder d)" and room: "85170 \<le> m_output_room (coder d)"
  shows "\<exists>c good. tdefl_compress_block static_block d = Some (good, d\<lparr>coder := c\<rparr>) \<and> huff_arrays c \<and>
    (good \<longrightarrow> body_written 1 (take B data) (take Q data) (coder d) c) \<and>
    (static_block \<or> Q - B \<le> 40000 \<longrightarrow> good \<and> 60 \<le> m_output_room c)"
proof (cases static_block)
  case True
  have "huff_arrays (coder d)" using b by (simp add: block_state_def block_ready_def lz_counted_def)
  from static_written [OF b same_stream_refl this ok room] obtain c where
    "tdefl_compress_block True d = Some (True, d\<lparr>coder := c\<rparr>)" "body_written 60 (take B data) (take Q data) (coder d) c"
    by auto
  then have "tdefl_compress_block static_block d = Some (True, d\<lparr>coder := c\<rparr>)" "huff_arrays c" "60 \<le> m_output_room c"
    "body_written 1 (take B data) (take Q data) (coder d) c"
    using True body_written_mono [of 60 "take B data" "take Q data" "coder d" c 1] by (simp_all add: body_written_def)
  then show ?thesis by blast
next
  case False
  have R: "block_ready items d" "expand items (take B data) = Some (take Q data)" "B \<le> Q" "Q \<le> P" "window P data d"
    "length (m_lz_code_buf d) = 65536" using b by (simp_all add: block_state_def TDEFL_LZ_CODE_BUF_SIZE_def)
  have r: "lz_counted items d" "\<forall>i \<in> set items. item_ok i" "take (m_pLZ_code_buf d) (m_lz_code_buf d) = lz_bytes items"
    "m_pLZ_code_buf d \<le> length (m_lz_code_buf d)" using R(1) by (simp_all add: block_ready_def)
  have "length (lz_bytes items) \<le> 65536" using r(3,4) R(6) by (metis length_take min.absorb2)
  then have "length items < 65535" using lz_bytes_items [of items] by linarith
  from dynamic_compress_ok [OF R(1) counted_tables_exist [OF r(1,2) this]]
  obtain c bits where c: "tdefl_compress_block False d = Some (0 < m_output_room c, d\<lparr>coder := c\<rparr>)"
    "extends bits (coder d) c" "huff_arrays c" "\<forall>bs. read_packed_block (bits @ bs) = Some (items, bs)"
    "length bits \<le> 4617 + sum_list (map (item_cost 15 48) items)" by blast
  have body: "body_of (stream_of (coder d)) bits (take B data) (take Q data)" using packed_body [OF c(4) R(2)] .
  have "body_written 1 (take B data) (take Q data) (coder d) c" if "0 < m_output_room c"
    using that c(2,3) ok body by (auto simp: body_written_def extends_def)
  moreover have "60 \<le> m_output_room c" if "Q - B \<le> 40000"
  proof -
    have "P \<le> length data" using R(5) by (simp add: window_def filling_def)
    then have "Q - B = sum_list (map item_len items)" using expand_length [OF R(2)] R(3,4) by simp
    then have "length bits \<le> 8 * 80578" using dynamic_cost [OF r(2)] c(5) that by linarith
    from extends_room(2) [OF c(2) ok this, of 60] show ?thesis using room by simp
  qed
  ultimately show ?thesis using c(1,3) False by (intro exI [of _ c] exI [of _ "0 < m_output_room c"]) auto
qed

lemma put_block_ok:
  assumes b: "block_state items data B Q P d" and ok: "coder_ok (coder d)" and room: "85170 \<le> m_output_room (coder d)"
    and raw: "use_raw_block \<longrightarrow> m_lookahead_pos d - of_nat B \<le> m_dict_size d"
  shows "\<exists>c. put_block flags use_raw_block (of_nat B) d = Some (d\<lparr>coder := c\<rparr>) \<and>
    body_written 1 (take B data) (take Q data) (coder d) c \<and>
    (flags AND TDEFL_FORCE_ALL_STATIC_BLOCKS \<noteq> 0 \<or> Q - B \<le> 40000 \<longrightarrow> 60 \<le> m_output_room c)"
proof -
  let ?static = "flags AND TDEFL_FORCE_ALL_STATIC_BLOCKS \<noteq> 0 \<or> m_total_lz_bytes d < 48"
  have arr: "huff_arrays (coder d)" using b by (simp add: block_state_def block_ready_def lz_counted_def)
  have raw_end: "\<exists>c. put_raw_block (of_nat B) (rewind (coder d) (d\<lparr>coder := c1\<rparr>)) = d\<lparr>coder := c\<rparr> \<and>
      body_written 60 (take B data) (take Q data) (coder d) c"
    if "m_lookahead_pos d - of_nat B \<le> m_dict_size d" "huff_arrays c1" for c1
    using rewind_coder [OF that(2), of "coder d" d] raw_written [OF b that(1) _ _ ok room] by auto
  have done60: ?thesis if "put_block flags use_raw_block (of_nat B) d = Some (d\<lparr>coder := c\<rparr>)"
    "body_written 60 (take B data) (take Q data) (coder d) c" for c
    using that body_written_mono [OF that(2), of 1] by (auto simp: body_written_def)
  show ?thesis
  proof (cases use_raw_block)
    case True
    then obtain c where "put_raw_block (of_nat B) (rewind (coder d) d) = d\<lparr>coder := c\<rparr>"
      "body_written 60 (take B data) (take Q data) (coder d) c"
      using raw_end [OF _ arr] raw by auto
    then show ?thesis using True raw by (intro done60 [of c]) (simp_all add: put_block_def Let_def)
  next
    case False
    obtain c1 good where c1: "tdefl_compress_block ?static d = Some (good, d\<lparr>coder := c1\<rparr>)" "huff_arrays c1"
      "good \<longrightarrow> body_written 1 (take B data) (take Q data) (coder d) c1"
      "?static \<or> Q - B \<le> 40000 \<longrightarrow> good \<and> 60 \<le> m_output_room c1"
      using block_attempt [OF b ok room, of ?static] by blast
    let ?big = "(m_total_lz_bytes d \<noteq> 0 \<and>
        m_total_lz_bytes d \<le> of_nat (length (m_output c1) - length (m_output (coder d))) + 1) \<and>
      m_lookahead_pos d - of_nat B \<le> m_dict_size d"
    have step: "put_block flags use_raw_block (of_nat B) d =
      (if ?big then Some (put_raw_block (of_nat B) (rewind (coder d) (d\<lparr>coder := c1\<rparr>)))
       else if \<not> good then do { (ok, d) \<leftarrow> tdefl_compress_block True (rewind (coder d) (d\<lparr>coder := c1\<rparr>)); Some d }
       else Some (d\<lparr>coder := c1\<rparr>))"
      using False c1(1) by (simp add: put_block_def Let_def)
    show ?thesis
    proof (cases ?big)
      case True
      then obtain c where "put_raw_block (of_nat B) (rewind (coder d) (d\<lparr>coder := c1\<rparr>)) = d\<lparr>coder := c\<rparr>"
        "body_written 60 (take B data) (take Q data) (coder d) c"
        using raw_end [OF _ c1(2)] by blast
      then show ?thesis using True step by (intro done60 [of c]) simp_all
    next
      case small: False
      show ?thesis
      proof (cases good)
        case True
        have "put_block flags use_raw_block (of_nat B) d = Some (d\<lparr>coder := c1\<rparr>)"
          unfolding step if_not_P [OF small] using True by simp
        then show ?thesis using c1(3,4) True by blast
      next
        case bad: False
        obtain c2 where c2: "rewind (coder d) (d\<lparr>coder := c1\<rparr>) = d\<lparr>coder := c2\<rparr>" "same_stream (coder d) c2" "huff_arrays c2"
          using rewind_coder [OF c1(2)] by blast
        from static_written [OF b c2(2,3) ok room] obtain c where
          c: "tdefl_compress_block True (d\<lparr>coder := c2\<rparr>) = Some (True, d\<lparr>coder := c\<rparr>)"
          "body_written 60 (take B data) (take Q data) (coder d) c" by blast
        have "put_block flags use_raw_block (of_nat B) d = Some (d\<lparr>coder := c\<rparr>)"
          unfolding step if_not_P [OF small] using bad c2(1) c(1) by simp
        then show ?thesis using c(2) by (rule done60)
      qed
    qed
  qed
qed

end
