(* ===== verification/Mz_Send.thy ===== *)
theory Mz_Send
  imports Mz_Flush
begin

unbundle bit_operations_syntax

text \<open>
  The stream that \<open>tdefl_flush_block\<close> of \<open>proj/sparc-prog/miniz.c\<close> delivers to a callback.  What a
  callback promises is a locale: it keeps an invariant of its state, and bytes it accepts are
  appended to those it got before.
\<close>

section \<open>Callbacks\<close>

definition bits_of_bytes :: "u8 list \<Rightarrow> bool list" where
  "bits_of_bytes bs = concat (map (low_bits 8) bs)"

lemma length_bits_of_bytes [simp]: "length (bits_of_bytes bs) = 8 * length bs"
  by (simp add: bits_of_bytes_def length_bytes_bits)

lemma bits_of_bytes_append: "bits_of_bytes (a @ b) = bits_of_bytes a @ bits_of_bytes b"
  by (simp add: bits_of_bytes_def)

locale callback =
  fixes put :: "u8 list \<Rightarrow> 'u \<Rightarrow> (bool \<times> 'u) option"
    and inv :: "'u \<Rightarrow> bool"
    and sent :: "'u \<Rightarrow> u8 list"
  assumes put_returns: "inv u \<Longrightarrow> length bs \<le> TDEFL_OUT_BUF_SIZE \<Longrightarrow>
    \<exists>ok u'. put bs u = Some (ok, u') \<and> inv u' \<and> (ok \<longrightarrow> sent u' = sent u @ bs)"
begin

text \<open>A refusal: some bytes were not accepted.\<close>

definition refused :: bool where
  "refused \<longleftrightarrow> (\<exists>u bs u'. inv u \<and> length bs \<le> TDEFL_OUT_BUF_SIZE \<and> put bs u = Some (False, u'))"

end

section \<open>The parts of a block\<close>

definition zlib_header :: "u32 \<Rightarrow> bool list" where
  "zlib_header flags = (if flags AND TDEFL_WRITE_ZLIB_HEADER \<noteq> 0 then low_bits 8 (0x78 :: u32) @ low_bits 8 (1 :: u32) else [])"

lemma put_head_ok:
  "writes ((if block_index = 0 then zlib_header flags else []) @ [flush = TDEFL_FINISH]) c (put_head flush flags block_index c)"
proof -
  have b: "writes (low_bits 8 (0x78 :: u32)) c (TDEFL_PUT_BITS 0x78 8 c)" "writes (low_bits 8 (1 :: u32)) c (TDEFL_PUT_BITS 1 8 c)"
    "writes [x] c (TDEFL_PUT_BITS (if x then 1 else 0) 1 c)" for c x
    using put_bits_writes [of "0x78" 8 c] put_bits_writes [of 1 8 c] put_bits_writes [of 0 1 c] put_bits_writes [of 1 1 c]
    by (cases x; simp add: low_bits_def)+
  show ?thesis
    using b(3) [where x = "flush = TDEFL_FINISH"] writes_append [OF writes_append [OF b(1) b(2)] b(3) [where x = "flush = TDEFL_FINISH"]]
    by (auto simp: put_head_def zlib_header_def Let_def)
qed

text \<open>The four bytes of the checksum, the highest first.\<close>

definition adler_bytes :: "u32 \<Rightarrow> u8 list" where
  "adler_bytes a = map (\<lambda>k. ucast (drop_bit k a)) [24, 16, 8, 0]"

lemma put_adler_ok: "writes (bits_of_bytes (adler_bytes a)) c (put_adler 4 a c)"
proof -
  have m: "(0xFF :: u32) = mask 8" by (simp add: mask_eq_exp_minus_1)
  have byte: "writes (low_bits 8 (ucast (drop_bit 24 x) :: u8)) c (TDEFL_PUT_BITS (drop_bit 24 x AND 0xFF) 8 c)" for x :: u32 and c
  proof -
    have "unat (drop_bit 24 x AND 0xFF) < 2 ^ 8" using unat_and_mask [OF m, of "drop_bit 24 x"] by simp
    then have "writes (low_bits (unat (8 :: u32)) (drop_bit 24 x AND 0xFF)) c (TDEFL_PUT_BITS (drop_bit 24 x AND 0xFF) 8 c)"
      by (intro put_bits_writes) simp_all
    moreover have "low_bits 8 (drop_bit 24 x AND 0xFF) = low_bits 8 (ucast (drop_bit 24 x) :: u8)"
      unfolding m by (auto simp: low_bits_def bit_and_iff bit_mask_iff bit_ucast_iff)
    ultimately show ?thesis by simp
  qed
  have shift: "low_bits 8 (ucast (drop_bit 24 (push_bit n a)) :: u8) = low_bits 8 (ucast (drop_bit (24 - n) a) :: u8)" if "n \<le> 24" for n
    using that by (auto simp: low_bits_def bit_ucast_iff bit_drop_bit_eq bit_push_bit_iff)
  let ?c1 = "TDEFL_PUT_BITS (drop_bit 24 a AND 0xFF) 8 c"
  let ?c2 = "TDEFL_PUT_BITS (drop_bit 24 (push_bit 8 a) AND 0xFF) 8 ?c1"
  let ?c3 = "TDEFL_PUT_BITS (drop_bit 24 (push_bit 16 a) AND 0xFF) 8 ?c2"
  have "writes (low_bits 8 (ucast (drop_bit 24 a) :: u8) @ low_bits 8 (ucast (drop_bit 16 a) :: u8) @
      low_bits 8 (ucast (drop_bit 8 a) :: u8) @ low_bits 8 (ucast a :: u8)) c
      (TDEFL_PUT_BITS (drop_bit 24 (push_bit 24 a) AND 0xFF) 8 ?c3)"
    using writes_append [OF byte [of a c] writes_append [OF byte [of "push_bit 8 a" ?c1]
        writes_append [OF byte [of "push_bit 16 a" ?c2] byte [of "push_bit 24 a" ?c3]]]]
      shift [of 8] shift [of 16] shift [of 24] by simp
  then show ?thesis by (simp add: adler_bytes_def bits_of_bytes_def numeral_eq_Suc)
qed

lemma body_of_shift: "8 dvd length s \<Longrightarrow> body_of (s @ x) bits out out' = body_of x bits out out'"
proof -
  assume "8 dvd length s"
  then have "8 dvd length ((s @ x) @ bits @ bs) \<longleftrightarrow> 8 dvd length (x @ bits @ bs)" for bs
    by (simp add: dvd_add_right_iff)
  then show ?thesis by (simp add: body_of_def)
qed

text \<open>Everything sent: the bytes delivered, then the bits that wait.\<close>

definition waiting :: "tdefl_compressor \<Rightarrow> bool list" where
  "waiting c = low_bits (unat (m_bits_in c)) (m_bit_buffer c)"

lemma stream_waiting: "stream_of c = bits_of_bytes (m_output c) @ waiting c"
  by (simp add: stream_of_def waiting_def bits_of_bytes_def)

text \<open>The stream between two blocks: the bits sent stand for the input up to \<open>B\<close>; the first block
  brings the header.\<close>

definition told :: "u32 \<Rightarrow> u32 \<Rightarrow> bool list \<Rightarrow> u8 list \<Rightarrow> bool" where
  "told flags block_index sent out \<longleftrightarrow>
     (if block_index = 0 then sent = [] \<and> out = [] else says (zlib_header flags) sent out)"

lemma told_header:
  "told flags k sent out \<Longrightarrow> says (zlib_header flags) (sent @ (if k = 0 then zlib_header flags else [])) out"
  by (auto simp: told_def says_start split: if_splits)

text \<open>A whole stream: after the last block only zeros up to the next byte, and the checksum.\<close>

definition whole_stream :: "u32 \<Rightarrow> u32 \<Rightarrow> u8 list \<Rightarrow> u8 list \<Rightarrow> bool" where
  "whole_stream flags adler bytes out \<longleftrightarrow> (\<exists>rest pad. bits_of_bytes bytes = zlib_header flags @ rest \<and> length pad < 8 \<and>
     inflate_blocks [] rest = Some (out, pad @ (if flags AND TDEFL_WRITE_ZLIB_HEADER \<noteq> 0 then bits_of_bytes (adler_bytes adler) else [])))"

lemma put_tail_finish:
  assumes "coder_ok c" and "8 \<le> m_output_room c"
  shows "\<exists>pad. length pad < 8 \<and> coder_ok (put_tail TDEFL_FINISH flags adler c) \<and>
    same_tables c (put_tail TDEFL_FINISH flags adler c) \<and>
    output_space (put_tail TDEFL_FINISH flags adler c) = output_space c \<and> waiting (put_tail TDEFL_FINISH flags adler c) = [] \<and>
    stream_of (put_tail TDEFL_FINISH flags adler c) =
      stream_of c @ pad @ (if flags AND TDEFL_WRITE_ZLIB_HEADER \<noteq> 0 then bits_of_bytes (adler_bytes adler) else [])"
proof -
  obtain pad where pad: "writes pad c (put_aligned c)" "length pad < 8" "8 dvd length (stream_of c @ pad)"
    using put_aligned_ok [OF assms(1)] by blast
  let ?a = "if flags AND TDEFL_WRITE_ZLIB_HEADER \<noteq> 0 then bits_of_bytes (adler_bytes adler) else []"
  let ?c = "put_tail TDEFL_FINISH flags adler c"
  have w: "writes (pad @ ?a) c ?c"
    using writes_append [OF pad(1) put_adler_ok [of adler "put_aligned c"]] pad(1) by (simp add: put_tail_def Let_def)
  have "length (pad @ ?a) \<le> 8 * 5" using pad(2) by (simp add: adler_bytes_def)
  from extends_room [OF writes_extends [OF w] assms(1) this, of 1] assms(2)
  have X: "coder_ok ?c" "stream_of ?c = stream_of c @ pad @ ?a" by simp_all
  have "8 dvd length ?a" by simp
  from dvd_add [OF pad(3) this] have "8 dvd length (stream_of c @ pad @ ?a)"
    by (simp only: length_append add.assoc)
  then have "8 dvd 8 * length (m_output ?c) + unat (m_bits_in ?c)"
    unfolding coder_stream_length [OF X(1), symmetric] X(2) .
  then have "8 dvd unat (m_bits_in ?c)" by (subst (asm) dvd_add_right_iff) simp_all
  then have "waiting ?c = []" using X(1) by (auto simp: waiting_def coder_ok_def low_bits_def dest: nat_dvd_not_less)
  then show ?thesis using X w pad(2) by (auto simp: writes_def)
qed

end
