(* ===== verification/Mz_Reader.thy ===== *)
theory Mz_Reader
  imports Mz_Lookup Mz_Send
begin

unbundle bit_operations_syntax

text \<open>
  The input of the decompressor of \<open>proj/sparc-prog/miniz.c\<close> as the list of bits that are still to be
  read: those in the bit buffer and those of the bytes behind it.  \<open>TINFL_GET_BITS\<close>,
  \<open>TINFL_SKIP_BITS\<close> and \<open>TINFL_HUFF_DECODE\<close> take from it what the reference decoder takes.
\<close>

section \<open>The bits to come\<close>

definition bits_left :: "tinfl_run \<Rightarrow> bool list" where
  "bits_left s = low_bits (unat (m_num_bits s)) (m_bit_buf s) @ bits_of_bytes (pIn_buf_cur s)"

text \<open>No bits are above those that count, and there is room for another byte or two where one is needed.\<close>

definition buf_ok :: "tinfl_run \<Rightarrow> bool" where
  "buf_ok s \<longleftrightarrow> unat (m_num_bits s) \<le> 30 \<and> (\<forall>i. unat (m_num_bits s) \<le> i \<longrightarrow> \<not> bit (m_bit_buf s) i)"

definition reads :: "tinfl_run \<Rightarrow> bool list \<Rightarrow> bool" where
  "reads s bs \<longleftrightarrow> buf_ok s \<and> bits_left s = bs"

text \<open>All but the input.\<close>

definition still :: "tinfl_run \<Rightarrow> tinfl_run" where
  "still s = s\<lparr>m_bit_buf := 0, m_num_bits := 0, pIn_buf_cur := []\<rparr>"

lemma reads_update [simp]:
  "reads (s\<lparr>m_counter := a\<rparr>) bs = reads s bs" "reads (s\<lparr>m_num_extra := a\<rparr>) bs = reads s bs"
  "reads (s\<lparr>m_dist := a\<rparr>) bs = reads s bs" "reads (s\<lparr>m_dist_from_out_buf_start := a\<rparr>) bs = reads s bs"
  "reads (s\<lparr>m_final := a\<rparr>) bs = reads s bs" "reads (s\<lparr>m_type := a\<rparr>) bs = reads s bs"
  "reads (s\<lparr>m_tables := t\<rparr>) bs = reads s bs" "reads (s\<lparr>m_table_sizes := ws\<rparr>) bs = reads s bs"
  "reads (s\<lparr>m_len_codes := cs\<rparr>) bs = reads s bs" "reads (s\<lparr>m_raw_header := cs\<rparr>) bs = reads s bs"
  "reads (s\<lparr>pOut_buf := cs\<rparr>) bs = reads s bs" "reads (s\<lparr>pOut_buf_cur := n\<rparr>) bs = reads s bs"
  "reads (s\<lparr>m_z_adler32 := a\<rparr>) bs = reads s bs" "reads (s\<lparr>m_zhdr0 := a\<rparr>) bs = reads s bs" "reads (s\<lparr>m_zhdr1 := a\<rparr>) bs = reads s bs"
  by (simp_all add: reads_def buf_ok_def bits_left_def)

lemma still_fields:
  "m_counter (still s) = m_counter s" "m_num_extra (still s) = m_num_extra s" "m_dist (still s) = m_dist s"
    "m_dist_from_out_buf_start (still s) = m_dist_from_out_buf_start s" "m_final (still s) = m_final s"
    "m_type (still s) = m_type s" "m_tables (still s) = m_tables s" "m_table_sizes (still s) = m_table_sizes s"
    "m_len_codes (still s) = m_len_codes s" "m_raw_header (still s) = m_raw_header s"
    "pOut_buf (still s) = pOut_buf s" "pOut_buf_cur (still s) = pOut_buf_cur s"
    "m_z_adler32 (still s) = m_z_adler32 s" "m_zhdr0 (still s) = m_zhdr0 s" "m_zhdr1 (still s) = m_zhdr1 s"
    "m_check_adler32 (still s) = m_check_adler32 s"
  by (simp_all add: still_def)

lemma still_same:
  assumes "still s' = still s"
  shows "m_counter s' = m_counter s" "m_num_extra s' = m_num_extra s" "m_dist s' = m_dist s"
    "m_dist_from_out_buf_start s' = m_dist_from_out_buf_start s" "m_final s' = m_final s"
    "m_type s' = m_type s" "m_tables s' = m_tables s" "m_table_sizes s' = m_table_sizes s"
    "m_len_codes s' = m_len_codes s" "m_raw_header s' = m_raw_header s" "pOut_buf s' = pOut_buf s"
    "pOut_buf_cur s' = pOut_buf_cur s" "m_z_adler32 s' = m_z_adler32 s" "m_zhdr0 s' = m_zhdr0 s"
    "m_zhdr1 s' = m_zhdr1 s" "m_check_adler32 s' = m_check_adler32 s"
  using assms by (metis still_fields)+

lemma still_still [simp]: "still (s\<lparr>m_bit_buf := a, m_num_bits := n\<rparr>) = still s" "still (s\<lparr>pIn_buf_cur := cs\<rparr>) = still s"
  "still (skip_bits l s) = still s" "still (add_byte c s) = still s"
  by (simp_all add: still_def skip_bits_def add_byte_def)

section \<open>Bytes\<close>

lemma low_bits_or:
  fixes w :: u32
  assumes "n + k \<le> 32" and "\<forall>i. n \<le> i \<longrightarrow> \<not> bit w i"
  shows "low_bits (n + k) (w OR push_bit n v) = low_bits n w @ low_bits k v"
proof -
  have "low_bits n (w OR push_bit n v) = low_bits n w"
    by (simp add: low_bits_def bit_or_iff bit_push_bit_iff)
  moreover have "low_bits k (drop_bit n (w OR push_bit n v)) = low_bits k v"
    using assms by (simp add: low_bits_def bit_or_iff bit_push_bit_iff bit_drop_bit_eq)
  ultimately show ?thesis using low_bits_split [of n "n + k" "w OR push_bit n v"] by simp
qed

lemma no_bits_or:
  fixes w :: u32
  assumes "\<forall>i. n \<le> i \<longrightarrow> \<not> bit w i"
  shows "\<forall>i. n + 8 \<le> i \<longrightarrow> \<not> bit (w OR push_bit n (ucast (c :: u8))) i"
  using assms by (auto simp: bit_or_iff bit_push_bit_iff bit_ucast_iff dest: bit_imp_le_length)

lemma unat_plus_small: "unat (a :: u32) + n < 2 ^ 32 \<Longrightarrow> unat (a + of_nat n) = unat a + n"
  by (subst unat_add_lem [THEN iffD1]) (simp_all add: unsigned_of_nat take_bit_nat_eq_self)

lemma add_byte_reads:
  assumes "reads s bs" and "unat (m_num_bits s) \<le> 22" and "pIn_buf_cur s = c # cs"
  shows "reads (add_byte c (s\<lparr>pIn_buf_cur := cs\<rparr>)) bs" and "unat (m_num_bits (add_byte c s)) = unat (m_num_bits s) + 8"
proof -
  let ?n = "unat (m_num_bits s)"
  have "unat (m_num_bits s + of_nat 8) = ?n + 8" using assms(2) by (intro unat_plus_small) simp
  then have n: "unat (m_num_bits s + 8) = ?n + 8" by simp
  then show "unat (m_num_bits (add_byte c s)) = ?n + 8" by (simp add: add_byte_def)
  have z: "\<forall>i. ?n \<le> i \<longrightarrow> \<not> bit (m_bit_buf s) i" using assms(1) by (simp add: reads_def buf_ok_def)
  have "low_bits (?n + 8) (m_bit_buf s OR push_bit ?n (ucast c)) = low_bits ?n (m_bit_buf s) @ low_bits 8 c"
    using low_bits_or [OF _ z, of 8 "ucast c"] assms(2) by (simp add: low_bits_ucast)
  then show "reads (add_byte c (s\<lparr>pIn_buf_cur := cs\<rparr>)) bs"
    using assms no_bits_or [OF z] by (simp add: reads_def buf_ok_def bits_left_def add_byte_def n bits_of_bytes_def)
qed

lemma short_input: "reads s bs \<Longrightarrow> pIn_buf_cur s = [] \<Longrightarrow> length bs \<le> unat (m_num_bits s)"
  by (auto simp: reads_def bits_left_def bits_of_bytes_def)

lemma need_bits_result:
  assumes "reads s bs" and "unat (m_num_bits s) < unat n" and "unat n \<le> 16" and "unat n \<le> length bs"
  shows "\<exists>s'. TINFL_NEED_BITS flags i n s = here () s' \<and> reads s' bs \<and> unat n \<le> unat (m_num_bits s') \<and> still s' = still s"
  using assms
proof (induction "unat n - unat (m_num_bits s)" arbitrary: s rule: less_induct)
  case less
  have "pIn_buf_cur s \<noteq> []" using short_input [OF less.prems(1)] less.prems(2,4) by auto
  then obtain c cs where c: "pIn_buf_cur s = c # cs" by (cases "pIn_buf_cur s") auto
  let ?s = "add_byte c (s\<lparr>pIn_buf_cur := cs\<rparr>)"
  have a: "reads ?s bs" "unat (m_num_bits ?s) = unat (m_num_bits s) + 8"
    using add_byte_reads [OF less.prems(1) _ c] less.prems(2,3) by (simp_all add: add_byte_def)
  have g: "TINFL_GET_BYTE flags i s = here c (s\<lparr>pIn_buf_cur := cs\<rparr>)" using c by (simp add: TINFL_GET_BYTE_def)
  show ?case
  proof (cases "m_num_bits ?s < n")
    case True
    then have "unat (m_num_bits ?s) < unat n" by (simp add: word_less_nat_alt)
    then have "\<exists>s'. TINFL_NEED_BITS flags i n ?s = here () s' \<and> reads s' bs \<and> unat n \<le> unat (m_num_bits s') \<and> still s' = still ?s"
      using less.prems a by (intro less.hyps) simp_all
    then show ?thesis using True g by (subst TINFL_NEED_BITS.simps) (simp add: Let_def)
  next
    case False
    then have "unat n \<le> unat (m_num_bits ?s)" by (simp add: not_less word_le_nat_alt)
    then show ?thesis using False g a(1) by (subst TINFL_NEED_BITS.simps) (simp add: Let_def)
  qed
qed

lemma enough_bits:
  assumes "reads s bs" and "unat n \<le> 16" and "unat n \<le> length bs"
  shows "\<exists>s'. (if m_num_bits s < n then TINFL_NEED_BITS flags i n s else here () s) = here () s' \<and>
    reads s' bs \<and> unat n \<le> unat (m_num_bits s') \<and> still s' = still s"
  using need_bits_result [of s bs n] assms by (auto simp: word_less_nat_alt)

lemma skip_bits_reads:
  assumes "reads s bs" and "unat n \<le> unat (m_num_bits s)"
  shows "reads (skip_bits n s) (drop (unat n) bs)" and "unat (m_num_bits (skip_bits n s)) = unat (m_num_bits s) - unat n"
proof -
  have n: "unat (m_num_bits s - n) = unat (m_num_bits s) - unat n" using assms(2) by (simp add: unat_sub word_le_nat_alt)
  then show "unat (m_num_bits (skip_bits n s)) = unat (m_num_bits s) - unat n" by (simp add: skip_bits_def)
  have "drop (unat n) (low_bits (unat (m_num_bits s)) (m_bit_buf s)) = low_bits (unat (m_num_bits s) - unat n) (drop_bit (unat n) (m_bit_buf s))"
    using low_bits_split [OF assms(2), of "m_bit_buf s"] by simp
  then show "reads (skip_bits n s) (drop (unat n) bs)"
    using assms by (auto simp: reads_def buf_ok_def bits_left_def skip_bits_def n bit_drop_bit_eq)
qed

lemma buffer_value:
  assumes "reads s bs" and "n \<le> unat (m_num_bits s)"
  shows "m_bit_buf s AND (push_bit n 1 - 1) = of_nat (horner_sum of_bool 2 (take n bs))"
proof -
  have "n \<le> 32" using assms by (simp add: reads_def buf_ok_def)
  have "take n bs = low_bits n (m_bit_buf s)" using assms by (auto simp: reads_def bits_left_def take_low_bits)
  also have "\<dots> = map (bit (m_bit_buf s)) [0..<n]" by (simp add: low_bits_def)
  also have "\<dots> = map (bit (unat (m_bit_buf s))) [0..<n]" using \<open>n \<le> 32\<close> by (simp add: bit_unsigned_iff)
  finally have "horner_sum of_bool 2 (take n bs) = take_bit n (unat (m_bit_buf s))"
    by (simp add: horner_sum_bit_eq_take_bit)
  then have "of_nat (horner_sum of_bool 2 (take n bs)) = take_bit n (m_bit_buf s)" by (simp add: of_nat_take_bit)
  then show ?thesis by (simp add: take_bit_eq_mask mask_eq_exp_minus_1 push_bit_of_1)
qed

section \<open>The macros\<close>

lemma skip_bits_result:
  assumes "reads s bs" and "unat n \<le> 16" and "unat n \<le> length bs"
  shows "\<exists>s'. TINFL_SKIP_BITS flags i n s = here () s' \<and> reads s' (drop (unat n) bs) \<and> still s' = still s"
proof -
  obtain s' where s': "(if m_num_bits s < n then TINFL_NEED_BITS flags i n s else here () s) = here () s'"
    "reads s' bs" "unat n \<le> unat (m_num_bits s')" "still s' = still s"
    using enough_bits [OF assms] by blast
  then show ?thesis using skip_bits_reads(1) [OF s'(2,3)] unfolding TINFL_SKIP_BITS_def s'(1) by simp
qed

lemma get_bits_result:
  assumes "reads s bs" and "unat n \<le> 16" and "read_bits (unat n) bs = Some (x, bs')"
  shows "\<exists>s'. TINFL_GET_BITS flags i n s = here (of_nat x) s' \<and> reads s' bs' \<and> still s' = still s"
proof -
  have l: "unat n \<le> length bs" and x: "x = horner_sum of_bool 2 (take (unat n) bs)" "bs' = drop (unat n) bs"
    using assms(3) by (simp_all add: read_bits_def split: if_splits)
  then obtain s' where s': "(if m_num_bits s < n then TINFL_NEED_BITS flags i n s else here () s) = here () s'"
    "reads s' bs" "unat n \<le> unat (m_num_bits s')" "still s' = still s"
    using enough_bits [OF assms(1,2)] by blast
  have "TINFL_GET_BITS flags i n s = here (of_nat x) (skip_bits n s')"
    unfolding TINFL_GET_BITS_def s'(1) go_on_simps buffer_value [OF s'(2,3)] x(1) by simp
  then show ?thesis using skip_bits_reads(1) [OF s'(2,3)] s'(4) x(2) by auto
qed

lemma bitbuf_fill_result:
  assumes h: "holds_codes sizes t" and k: "k \<in> used_sizes sizes" and "reads s (code_bits sizes k @ rest)" and "unat (m_num_bits s) < 15"
  shows "\<exists>s'. TINFL_HUFF_BITBUF_FILL flags i t s = here () s' \<and> reads s' (code_bits sizes k @ rest) \<and>
    unat (sizes ! k) \<le> unat (m_num_bits s') \<and> still s' = still s"
  using assms(3,4)
proof (induction "15 - unat (m_num_bits s)" arbitrary: s rule: less_induct)
  case less
  let ?bs = "code_bits sizes k @ rest"
  have "prefix (code_bits sizes k) (low_bits (unat (m_num_bits s)) (m_bit_buf s) @ bits_of_bytes (pIn_buf_cur s))"
    using less.prems(1) by (simp add: reads_def bits_left_def)
  note c = code_complete_result [OF h k this]
  show ?case
  proof (cases "unat (sizes ! k) \<le> unat (m_num_bits s)")
    case True
    then show ?thesis using c less.prems by (subst TINFL_HUFF_BITBUF_FILL.simps) simp
  next
    case False
    then have "pIn_buf_cur s \<noteq> []" using short_input [OF less.prems(1)] by auto
    then obtain b cs where b: "pIn_buf_cur s = b # cs" by (cases "pIn_buf_cur s") auto
    let ?s = "add_byte b (s\<lparr>pIn_buf_cur := cs\<rparr>)"
    have a: "reads ?s ?bs" "unat (m_num_bits ?s) = unat (m_num_bits s) + 8"
      using add_byte_reads [OF less.prems(1) _ b] less.prems(2) by (simp_all add: add_byte_def)
    have g: "TINFL_GET_BYTE flags i s = here b (s\<lparr>pIn_buf_cur := cs\<rparr>)" using b by (simp add: TINFL_GET_BYTE_def)
    show ?thesis
    proof (cases "unat (m_num_bits ?s) < 15")
      case True
      then have "\<exists>s'. TINFL_HUFF_BITBUF_FILL flags i t ?s = here () s' \<and> reads s' ?bs \<and>
          unat (sizes ! k) \<le> unat (m_num_bits s') \<and> still s' = still ?s"
        using a by (intro less.hyps) simp_all
      then show ?thesis using True c False g by (subst TINFL_HUFF_BITBUF_FILL.simps) (simp add: Let_def word_less_nat_alt)
    next
      case full: False
      have "unat (sizes ! k) \<le> 15" using holds_length [OF h k] by simp
      then show ?thesis using full c False g a by (subst TINFL_HUFF_BITBUF_FILL.simps) (simp add: Let_def word_less_nat_alt)
    qed
  qed
qed

lemma add_two_bytes_reads:
  assumes "reads s bs" and "unat (m_num_bits s) < 15" and "2 \<le> length (pIn_buf_cur s)"
  shows "reads (add_two_bytes s) bs" and "unat (m_num_bits (add_two_bytes s)) = unat (m_num_bits s) + 16"
    and "still (add_two_bytes s) = still s"
proof -
  obtain a b cs where c: "pIn_buf_cur s = a # b # cs" using assms(3) by (metis Suc_le_length_iff numeral_2_eq_2)
  define s1 where "s1 = add_byte a (s\<lparr>pIn_buf_cur := b # cs\<rparr>)"
  have n: "unat (m_num_bits s) \<le> 22" using assms(2) by simp
  have "m_num_bits s1 = m_num_bits (add_byte a s)" by (simp add: s1_def add_byte_def)
  then have 1: "reads s1 bs" "unat (m_num_bits s1) = unat (m_num_bits s) + 8"
    using add_byte_reads [OF assms(1) n c] by (simp_all add: s1_def)
  have n1: "unat (m_num_bits s1) \<le> 22" "pIn_buf_cur s1 = b # cs" using assms(2) 1(2) by (simp_all add: s1_def add_byte_def)
  define s2 where "s2 = add_byte b (s1\<lparr>pIn_buf_cur := cs\<rparr>)"
  have "m_num_bits s2 = m_num_bits (add_byte b s1)" by (simp add: s2_def add_byte_def)
  then have 2: "reads s2 bs" "unat (m_num_bits s2) = unat (m_num_bits s) + 16"
    using add_byte_reads [OF 1(1) n1] 1(2) by (simp_all add: s2_def)
  have "m_num_bits s1 = m_num_bits s + 8" by (simp add: s1_def add_byte_def)
  then have "add_byte b (s1\<lparr>pIn_buf_cur := cs\<rparr>) = s1\<lparr>pIn_buf_cur := cs, m_bit_buf := m_bit_buf s1 OR push_bit (unat (m_num_bits s) + 8) (ucast b),
      m_num_bits := m_num_bits s + 16\<rparr>"
    using 1(2) by (simp add: add_byte_def)
  then have e: "add_two_bytes s = s2"
    using c by (simp add: add_two_bytes_def s2_def s1_def add_byte_def or.assoc)
  show "reads (add_two_bytes s) bs" "unat (m_num_bits (add_two_bytes s)) = unat (m_num_bits s) + 16"
    using 2 unfolding e by simp_all
  show "still (add_two_bytes s) = still s" unfolding e by (simp add: still_def add_byte_def s2_def s1_def)
qed

lemma buffer_begins:
  assumes "reads s (code_bits sizes k @ rest)" and "unat (sizes ! k) \<le> unat (m_num_bits s)"
  shows "begins (m_bit_buf s) (unat (sizes ! k)) (code_bits sizes k)"
  unfolding begins_def
proof (intro allI impI)
  fix j assume j: "j < unat (sizes ! k)"
  have "(low_bits (unat (m_num_bits s)) (m_bit_buf s) @ bits_of_bytes (pIn_buf_cur s)) ! j = (code_bits sizes k @ rest) ! j"
    using assms(1) by (simp add: reads_def bits_left_def)
  moreover have "j < unat (m_num_bits s)" using j assms(2) by simp
  ultimately have "low_bits (unat (m_num_bits s)) (m_bit_buf s) ! j = code_bits sizes k ! j"
    using j by (simp only: nth_append length_code_bits length_low_bits if_True)
  then show "bit (m_bit_buf s) j = code_bits sizes k ! j" using j assms(2) by (simp add: low_bits_def)
qed

text \<open>One symbol, as the reference decoder reads it.\<close>

lemma huff_decode_result:
  assumes h: "holds_codes sizes t" and r: "reads s bs" and k: "read_symbol (length sizes) sizes bs = Some (k, bs')"
  shows "\<exists>s'. TINFL_HUFF_DECODE flags i t s = here (of_nat k) s' \<and> reads s' bs' \<and> still s' = still s"
proof -
  note kD = read_symbolD [OF k refl]
  have rd: "reads s (code_bits sizes k @ bs')" using r kD(2) by simp
  have l15: "unat (sizes ! k) \<le> 15" using holds_length [OF h kD(1)] by simp
  define m where "m = (if m_num_bits s < 15 then
             if length (pIn_buf_cur s) < 2 then TINFL_HUFF_BITBUF_FILL flags i t s
             else here () (add_two_bytes s)
           else here () s)"
  have "\<exists>s'. m = here () s' \<and> reads s' (code_bits sizes k @ bs') \<and> unat (sizes ! k) \<le> unat (m_num_bits s') \<and> still s' = still s"
  proof (cases "m_num_bits s < 15")
    case True
    then have n: "unat (m_num_bits s) < 15" by (simp add: word_less_nat_alt)
    show ?thesis
    proof (cases "length (pIn_buf_cur s) < 2")
      case short: True
      then show ?thesis using bitbuf_fill_result [OF h kD(1) rd n] True by (simp add: m_def)
    next
      case False
      then show ?thesis using add_two_bytes_reads [OF rd n] True l15 by (simp add: m_def)
    qed
  next
    case False
    then show ?thesis using rd l15 by (simp add: m_def word_less_nat_alt)
  qed
  then obtain s' where s': "m = here () s'" "reads s' (code_bits sizes k @ bs')" "unat (sizes ! k) \<le> unat (m_num_bits s')" "still s' = still s"
    by blast
  have u: "unat (of_nat (unat (sizes ! k)) :: u32) = unat (sizes ! k)" using l15 by (simp add: unsigned_of_nat take_bit_nat_eq_self)
  have "TINFL_HUFF_DECODE flags i t s = here (of_nat k) (skip_bits (of_nat (unat (sizes ! k))) s')"
    unfolding TINFL_HUFF_DECODE_def m_def [symmetric] s'(1) go_on_simps
    using huff_symbol_result(1) [OF h kD(1) buffer_begins [OF s'(2,3)]] by simp
  moreover have "reads (skip_bits (of_nat (unat (sizes ! k))) s') bs'"
    using skip_bits_reads(1) [OF s'(2), of "of_nat (unat (sizes ! k))"] s'(3) unfolding u by simp
  ultimately show ?thesis using s'(4) by auto
qed

end
