(* ===== verification/Mz_Unpack.thy ===== *)
theory Mz_Unpack
  imports Mz_Reader
begin

unbundle bit_operations_syntax

text \<open>
  The decompressor of \<open>proj/sparc-prog/miniz.c\<close> inside a compressed block: the literals and matches it
  reads (\<open>get_items\<close>) are those of the reference decoder, and the output buffer gets their expansion.
\<close>

section \<open>Tables cut to the symbols sent\<close>

text \<open>A table for lengths that are padded with zeros.\<close>

definition table_for :: "nat \<Rightarrow> u8 list \<Rightarrow> tinfl_huff_table \<Rightarrow> bool" where
  "table_for n sizes t \<longleftrightarrow> (\<exists>xs. holds_codes xs t \<and> length xs \<le> n \<and> sizes = pad_lengths n xs)"

lemma read_symbol_pad:
  assumes "full_code xs" and "length xs \<le> n"
  shows "read_symbol n (pad_lengths n xs) bs = read_symbol (length xs) xs bs"
proof -
  let ?p = "pad_lengths n xs"
  have low: "?p ! s = xs ! s" if "s < length xs" for s using that by (simp add: pad_lengths_def nth_append)
  have high: "?p ! s = 0" if "length xs \<le> s" "s < n" for s using that by (simp add: pad_lengths_def nth_append)
  have c: "canonical_code (length xs) xs s = canonical_code n ?p s" if "s < length xs" "xs ! s \<noteq> 0" for s
    using assms that low high by (intro canonical_code_cong) (simp_all add: full_code_def)
  have "[0..<n] = [0..<length xs] @ [length xs..<n]"
    using assms(2) upt_add_eq_append [of 0 "length xs" "n - length xs"] by simp
  moreover have "filter (code_matches n ?p bs) [length xs..<n] = []"
    using high by (simp add: filter_empty_conv code_matches_def)
  moreover have "filter (code_matches n ?p bs) [0..<length xs] = filter (code_matches (length xs) xs bs) [0..<length xs]"
    using c low by (intro filter_cong refl) (auto simp: code_matches_def)
  ultimately have f: "filter (code_matches n ?p bs) [0..<n] = filter (code_matches (length xs) xs bs) [0..<length xs]" by simp
  show ?thesis
  proof (cases "filter (code_matches (length xs) xs bs) [0..<length xs]")
    case Nil
    then show ?thesis using f by (simp add: read_symbol_def)
  next
    case (Cons s ss)
    then have "s \<in> set (filter (code_matches (length xs) xs bs) [0..<length xs])" by simp
    then have "s < length xs" by simp
    then show ?thesis using f Cons low by (simp add: read_symbol_def)
  qed
qed

lemma table_forD:
  assumes "table_for n sizes t" and "read_symbol n sizes bs = Some (k, bs')"
  obtains xs where "holds_codes xs t" and "read_symbol (length xs) xs bs = Some (k, bs')" and "k < n" and "k < 288"
proof -
  obtain xs where xs: "holds_codes xs t" "length xs \<le> n" "sizes = pad_lengths n xs"
    using assms(1) by (auto simp: table_for_def)
  then have "read_symbol (length xs) xs bs = Some (k, bs')"
    using assms(2) read_symbol_pad [of xs n bs] by (simp add: holds_codes_def)
  moreover from this have "k < length xs" using read_symbolD(1) [of "length xs" xs bs k bs'] by (simp add: used_sizes_def)
  ultimately show ?thesis using that [OF xs(1)] xs by (simp add: holds_codes_def)
qed

lemma get_symbol:
  assumes "table_for n sizes t" and "reads s bs" and "read_symbol n sizes bs = Some (k, bs')"
  shows "\<exists>s'. TINFL_HUFF_DECODE flags i t s = here (of_nat k) s' \<and> reads s' bs' \<and> still s' = still s"
  using table_forD [OF assms(1,3)] huff_decode_result assms(2) by metis

text \<open>A symbol, away from the end of the input.\<close>

lemma fast_symbol:
  assumes "table_for n sizes t" and r: "reads s bs" and k: "read_symbol n sizes bs = Some (k, bs')" and "2 \<le> length (pIn_buf_cur s)"
  shows "\<exists>v l. huff_symbol t (m_bit_buf (refill s)) = Some (v, l) \<and> v AND 511 = int k \<and> 0 \<le> v \<and> v < 2 ^ 14 \<and>
    reads (skip_bits (of_nat l) (refill s)) bs' \<and> still (refill s) = still s \<and> length (pIn_buf_cur s) - 2 \<le> length (pIn_buf_cur (refill s))"
proof -
  obtain xs where xs: "holds_codes xs t" "read_symbol (length xs) xs bs = Some (k, bs')"
    using table_forD [OF assms(1) k] .
  note kD = read_symbolD [OF xs(2) refl]
  let ?l = "unat (xs ! k)"
  have l15: "?l \<le> 15" using holds_length [OF xs(1) kD(1)] by simp
  have rf: "reads (refill s) bs \<and> 15 \<le> unat (m_num_bits (refill s)) \<and> still (refill s) = still s \<and>
      length (pIn_buf_cur s) - 2 \<le> length (pIn_buf_cur (refill s))"
  proof (cases "m_num_bits s < 15")
    case True
    then have "unat (m_num_bits s) < 15" by (simp add: word_less_nat_alt)
    note a = add_two_bytes_reads [OF r this assms(4)]
    have "length (pIn_buf_cur s) - 2 \<le> length (pIn_buf_cur (add_two_bytes s))"
      by (auto simp: add_two_bytes_def split: list.split)
    then show ?thesis using True a by (simp add: refill_def)
  next
    case False
    then show ?thesis using r by (simp add: refill_def word_less_nat_alt)
  qed
  then have rd: "reads (refill s) (code_bits xs k @ bs')" "?l \<le> unat (m_num_bits (refill s))" using kD(2) l15 by simp_all
  obtain v where v: "huff_symbol t (m_bit_buf (refill s)) = Some (v, ?l)" "v AND 511 = int k" "0 \<le> v" "v < 2 ^ 14"
    using huff_symbol_result(2) [OF xs(1) kD(1) buffer_begins [OF rd]] by blast
  have u: "unat (of_nat ?l :: u32) = ?l" using l15 by (simp add: unsigned_of_nat take_bit_nat_eq_self)
  have "reads (skip_bits (of_nat ?l) (refill s)) bs'" using skip_bits_reads(1) [OF rd(1), of "of_nat ?l"] rd(2) unfolding u by simp
  then show ?thesis using v rf by blast
qed

section \<open>Output\<close>

text \<open>The buffer begins with \<open>out\<close>, and the rest of it is untouched.\<close>

definition wrote :: "u8 list \<Rightarrow> tinfl_run \<Rightarrow> u8 list \<Rightarrow> bool" where
  "wrote buf s out \<longleftrightarrow> pOut_buf_cur s = length out \<and> pOut_buf s = out @ drop (length out) buf \<and> length out \<le> length buf"

text \<open>All that a compressed block does not change.\<close>

definition core :: "tinfl_run \<Rightarrow> tinfl_run" where
  "core s = s\<lparr>m_bit_buf := 0, m_num_bits := 0, pIn_buf_cur := [], m_counter := 0, m_num_extra := 0, m_dist := 0,
     m_dist_from_out_buf_start := 0, pOut_buf := [], pOut_buf_cur := 0\<rparr>"

lemma core_update [simp]:
  "core (s\<lparr>m_counter := a\<rparr>) = core s" "core (s\<lparr>m_num_extra := a\<rparr>) = core s" "core (s\<lparr>m_dist := a\<rparr>) = core s"
  "core (s\<lparr>m_dist_from_out_buf_start := a\<rparr>) = core s" "core (s\<lparr>pOut_buf := cs\<rparr>) = core s" "core (s\<lparr>pOut_buf_cur := n\<rparr>) = core s"
  "core (skip_bits l s) = core s"
  by (simp_all add: core_def skip_bits_def)

lemma still_core: "still s' = still s \<Longrightarrow> core s' = core s"
proof -
  have "core s = core (still s)" for s by (simp add: core_def still_def)
  then show "still s' = still s \<Longrightarrow> core s' = core s" by metis
qed

lemma core_same:
  assumes "core s' = core s"
  shows "m_final s' = m_final s" "m_type s' = m_type s" "m_tables s' = m_tables s" "m_table_sizes s' = m_table_sizes s"
    "m_len_codes s' = m_len_codes s" "m_raw_header s' = m_raw_header s" "m_z_adler32 s' = m_z_adler32 s"
    "m_check_adler32 s' = m_check_adler32 s"
proof -
  have "m_final (core s) = m_final s" "m_type (core s) = m_type s" "m_tables (core s) = m_tables s" "m_table_sizes (core s) = m_table_sizes s"
    "m_len_codes (core s) = m_len_codes s" "m_raw_header (core s) = m_raw_header s" "m_z_adler32 (core s) = m_z_adler32 s"
    "m_check_adler32 (core s) = m_check_adler32 s" for s
    by (simp_all add: core_def)
  then show "m_final s' = m_final s" "m_type s' = m_type s" "m_tables s' = m_tables s" "m_table_sizes s' = m_table_sizes s"
    "m_len_codes s' = m_len_codes s" "m_raw_header s' = m_raw_header s" "m_z_adler32 s' = m_z_adler32 s"
    "m_check_adler32 s' = m_check_adler32 s"
    using assms by metis+
qed

lemma wrote_update [simp]:
  "wrote buf (s\<lparr>m_counter := a\<rparr>) out = wrote buf s out" "wrote buf (s\<lparr>m_num_extra := a\<rparr>) out = wrote buf s out"
  "wrote buf (s\<lparr>m_dist := a\<rparr>) out = wrote buf s out" "wrote buf (s\<lparr>m_dist_from_out_buf_start := a\<rparr>) out = wrote buf s out"
  "wrote buf (s\<lparr>m_final := a\<rparr>) out = wrote buf s out" "wrote buf (s\<lparr>m_type := a\<rparr>) out = wrote buf s out"
  "wrote buf (s\<lparr>m_tables := t\<rparr>) out = wrote buf s out" "wrote buf (s\<lparr>m_table_sizes := ws\<rparr>) out = wrote buf s out"
  "wrote buf (s\<lparr>m_len_codes := cs\<rparr>) out = wrote buf s out" "wrote buf (s\<lparr>m_raw_header := cs\<rparr>) out = wrote buf s out"
  "wrote buf (s\<lparr>m_z_adler32 := a\<rparr>) out = wrote buf s out" "wrote buf (s\<lparr>m_zhdr0 := a\<rparr>) out = wrote buf s out"
  "wrote buf (s\<lparr>m_zhdr1 := a\<rparr>) out = wrote buf s out" "wrote buf (skip_bits l s) out = wrote buf s out"
  by (simp_all add: wrote_def skip_bits_def)

lemma wrote_still:
  assumes "still s' = still s"
  shows "wrote buf s' out = wrote buf s out"
  using still_same(11,12) [OF assms] by (simp add: wrote_def)

lemma out_full_wrote: "wrote buf s out \<Longrightarrow> out_full s \<longleftrightarrow> length buf \<le> length out"
  unfolding wrote_def out_full_def by (elim conjE) simp

lemma put_byte_result:
  assumes "wrote buf s out" and "length out < length buf"
  obtains s' where "put_byte b s = Some s'" and "wrote buf s' (out @ [b])" and "core s' = core s"
    and "\<And>bs. reads s' bs = reads s bs" and "m_counter s' = m_counter s" and "pIn_buf_cur s' = pIn_buf_cur s"
    and "m_dist s' = m_dist s" and "m_dist_from_out_buf_start s' = m_dist_from_out_buf_start s"
proof -
  let ?buf = "out @ b # drop (Suc (length out)) buf"
  have "drop (length out) buf = buf ! length out # drop (Suc (length out)) buf" using assms(2) by (simp add: Cons_nth_drop_Suc)
  then have "write_at (pOut_buf s) (pOut_buf_cur s) b = Some ?buf" using assms by (simp add: wrote_def write_at_def)
  then have p: "put_byte b s = Some (s\<lparr>pOut_buf := ?buf, pOut_buf_cur := Suc (length out)\<rparr>)"
    using assms(1) by (simp add: put_byte_def wrote_def)
  show ?thesis
    by (rule that [OF p]) (use assms in \<open>simp_all add: wrote_def\<close>)
qed

section \<open>Literals\<close>

lemma expand_grows: "expand items out = Some out' \<Longrightarrow> length out \<le> length out'"
proof (induction items arbitrary: out)
  case (Cons i items)
  then obtain o1 where o: "expand_item i out = Some o1" "expand items o1 = Some out'" by (auto simp: bind_eq_Some_conv)
  have "length out \<le> length o1" using o(1) by (cases i) (auto simp: length_copy_match split: if_splits)
  then show ?case using Cons.IH [OF o(2)] by simp
qed simp

lemma read_itemsD:
  assumes "read_items lit dist bs = Some (items, rest)"
  obtains k bs1 where "read_symbol 288 lit bs = Some (k, bs1)"
  using assms by (subst (asm) read_items.simps) (auto simp: read_item_def split: option.splits bind_splits)

lemma read_items_literal:
  assumes "read_items lit dist bs = Some (items, rest)" and "read_symbol 288 lit bs = Some (k, bs1)" and "k < 256"
  obtains items1 where "items = Lit (of_nat k) # items1" and "read_items lit dist bs1 = Some (items1, rest)"
  using assms by (subst (asm) read_items.simps) (auto simp: read_item_def split: option.splits)

lemma symbol_value:
  assumes "v AND 511 = int k" and "0 \<le> v" and "v < 2 ^ 14" and "k < 288"
  shows "(word_of_int v :: u32) AND 511 = of_nat k" and "(word_of_int v :: u32) AND 256 \<noteq> 0 \<longleftrightarrow> 256 \<le> k" and "v AND 256 \<noteq> 0 \<longleftrightarrow> 256 \<le> k"
    and "k < 256 \<Longrightarrow> ucast (word_of_int v :: u32) = (of_nat k :: u8)" and "k < 256 \<Longrightarrow> (word_of_int v :: u8) = of_nat k"
proof -
  have m: "(word_of_int v :: u32) AND 511 = word_of_int (v AND 511)" using word_wi_log_defs(2) [of v 511] by simp
  then show a: "(word_of_int v :: u32) AND 511 = of_nat k" using assms(1) by simp
  have k: "int k AND 256 \<noteq> 0 \<longleftrightarrow> 256 \<le> k"
  proof -
    have "int k AND 256 \<noteq> 0 \<longleftrightarrow> bit (int k) 8" using and_exp_eq_0_iff_not_bit [of "int k" 8] by simp
    moreover have "int k div 256 = of_bool (256 \<le> k)" using assms(4) by (cases "256 \<le> k") simp_all
    then have "bit (int k) 8 \<longleftrightarrow> 256 \<le> k" by (simp add: bit_iff_odd)
    ultimately show ?thesis by simp
  qed
  have "v AND 256 = (v AND 511) AND 256" by (simp add: and.assoc)
  then show b: "v AND 256 \<noteq> 0 \<longleftrightarrow> 256 \<le> k" using k assms(1) by simp
  have "uint ((word_of_int v :: u32) AND 256) = v AND 256"
    using assms(2,3) by (simp add: unsigned_and_eq uint_word_of_int_eq take_bit_int_eq_self)
  then show "(word_of_int v :: u32) AND 256 \<noteq> 0 \<longleftrightarrow> 256 \<le> k" using b by (metis uint_0_iff)
  assume "k < 256"
  have "take_bit 8 v = take_bit 8 (v AND mask 9)" by (rule bit_eqI) (auto simp: bit_simps)
  then have "take_bit 8 v = take_bit 8 (int k)" using assms(1) by (simp add: mask_eq_exp_minus_1)
  then have "(word_of_int v :: u8) = word_of_int (int k)" by (intro word_of_int_eq_iff [THEN iffD2]) simp
  then show c: "(word_of_int v :: u8) = of_nat k" by (simp only: of_int_of_nat_eq)
  define n where "n = nat v"
  have v: "v = int n" and n: "n < 2 ^ 32" using assms(2,3) by (simp_all add: n_def)
  have "ucast (of_nat n :: u32) = (of_nat n :: u8)" using n by (simp add: unsigned_of_nat take_bit_nat_eq_self)
  then show "ucast (word_of_int v :: u32) = (of_nat k :: u8)" using c unfolding v by (simp only: of_int_of_nat_eq)
qed

text \<open>The inner loop has put the literals \<open>cs\<close>, and then got the symbol \<open>k\<close>, which is not one.\<close>

definition after_literals :: "u8 list \<Rightarrow> u8 list \<Rightarrow> u8 list \<Rightarrow> tinfl_run \<Rightarrow> u8 list \<Rightarrow> lz_item list \<times> bool list \<Rightarrow> tinfl_run \<Rightarrow> bool" where
  "after_literals lit dist buf s out res s' \<longleftrightarrow> (\<exists>cs bs k bs1 items. read_items lit dist bs = Some (items, snd res) \<and> fst res = map Lit cs @ items \<and>
     read_symbol 288 lit bs = Some (k, bs1) \<and> 256 \<le> k \<and> m_counter s' AND 511 = of_nat k \<and> reads s' bs1 \<and>
     wrote buf s' (out @ cs) \<and> core s' = core s)"

lemma after_literals_now:
  assumes "read_items lit dist bs = Some res" and "read_symbol 288 lit bs = Some (k, bs1)" and "256 \<le> k"
    and "m_counter s' AND 511 = of_nat k" and "reads s' bs1" and "wrote buf s' out" and "core s' = core s"
  shows "after_literals lit dist buf s out res s'"
  using assms unfolding after_literals_def
  by (intro exI [of _ "[]"] exI [of _ bs] exI [of _ k] exI [of _ bs1] exI [of _ "fst res"]) simp

lemma after_literals_more:
  assumes "after_literals lit dist buf s1 (out @ cs) (items, rest) s'" and "core s1 = core s"
  shows "after_literals lit dist buf s out (map Lit cs @ items, rest) s'"
proof -
  from assms obtain ds bs k bs1 items1 where h: "read_items lit dist bs = Some (items1, rest)" "items = map Lit ds @ items1"
    "read_symbol 288 lit bs = Some (k, bs1)" "256 \<le> k" "m_counter s' AND 511 = of_nat k" "reads s' bs1"
    "wrote buf s' ((out @ cs) @ ds)" "core s' = core s1"
    unfolding after_literals_def by auto
  then show ?thesis using assms(2) unfolding after_literals_def
    by (intro exI [of _ "cs @ ds"] exI [of _ bs] exI [of _ k] exI [of _ bs1] exI [of _ items1]) simp
qed

lemma symbol_small: "k < 288 \<Longrightarrow> 256 \<le> (of_nat k :: u32) \<longleftrightarrow> 256 \<le> k" "k < 288 \<Longrightarrow> (of_nat k :: u32) AND 511 = of_nat k"
proof -
  assume k: "k < 288"
  then show "256 \<le> (of_nat k :: u32) \<longleftrightarrow> 256 \<le> k" by (simp add: word_le_nat_alt unsigned_of_nat take_bit_nat_eq_self)
  have "(of_nat k :: u32) AND mask 9 = of_nat k"
    using k by (simp add: take_bit_eq_mask [symmetric] of_nat_take_bit [symmetric] take_bit_nat_eq_self)
  then show "(of_nat k :: u32) AND 511 = of_nat k" by (simp add: mask_eq_exp_minus_1)
qed

lemma get_literals_result:
  assumes "table_for 288 lit (m_tables s ! 0)" and "read_items lit dist bs = Some (items, rest)" and "reads s bs"
    and "wrote buf s out" and "expand items out = Some out'" and "length out' \<le> length buf"
  shows "\<exists>s'. get_literals flags s = here () s' \<and> after_literals lit dist buf s out (items, rest) s'"
  using assms
proof (induction "length items" arbitrary: s bs items out rule: less_induct)
  case less
  note tab = less.prems(1) and it = less.prems(2) and r = less.prems(3) and w = less.prems(4) and ex = less.prems(5,6)
  obtain k bs1 where k: "read_symbol 288 lit bs = Some (k, bs1)" using read_itemsD [OF it] .
  have k288: "k < 288" using table_forD [OF tab k] by metis
  show ?case
  proof (cases "length (pIn_buf_cur s) < 4 \<or> length (pOut_buf s) < pOut_buf_cur s + 2")
    case True
    obtain s1 where s1: "TINFL_HUFF_DECODE flags 23 (m_tables s ! 0) s = here (of_nat k) s1" "reads s1 bs1" "still s1 = still s"
      using get_symbol [OF tab r k] by blast
    have w1: "wrote buf s1 out" using w wrote_still [OF s1(3)] by simp
    show ?thesis
    proof (cases "256 \<le> k")
      case big: True
      have "get_literals flags s = here () (s1\<lparr>m_counter := of_nat k\<rparr>)"
        using True s1(1) big symbol_small(1) [OF k288] by (subst get_literals.simps) (simp add: Let_def)
      moreover have "after_literals lit dist buf s out (items, rest) (s1\<lparr>m_counter := of_nat k\<rparr>)"
        using s1(2) w1 symbol_small(2) [OF k288] still_core [OF s1(3)] by (intro after_literals_now [OF it k big]) simp_all
      ultimately show ?thesis by blast
    next
      case small: False
      then have k256: "k < 256" by simp
      obtain items1 where i1: "items = Lit (of_nat k) # items1" "read_items lit dist bs1 = Some (items1, rest)"
        using read_items_literal [OF it k k256] .
      then have ex1: "expand items1 (out @ [of_nat k]) = Some out'" using ex(1) by simp
      have room: "length out < length buf" using expand_grows [OF ex1] ex(2) by simp
      have w2: "wrote buf (s1\<lparr>m_counter := of_nat k\<rparr>) out" using w1 by simp
      have b: "ucast (of_nat k :: u32) = (of_nat k :: u8)" using k256 by (simp add: unsigned_of_nat take_bit_nat_eq_self)
      obtain s2 where s2: "put_byte (of_nat k) (s1\<lparr>m_counter := of_nat k\<rparr>) = Some s2" "wrote buf s2 (out @ [of_nat k])"
        "core s2 = core (s1\<lparr>m_counter := of_nat k\<rparr>)" "\<And>bs. reads s2 bs = reads (s1\<lparr>m_counter := of_nat k\<rparr>) bs"
        using put_byte_result [OF w2 room] by metis
      have c2: "core s2 = core s" using s2(3) still_core [OF s1(3)] by simp
      then have "table_for 288 lit (m_tables s2 ! 0)" using tab core_same(3) by metis
      moreover have "reads s2 bs1" using s2(4) s1(2) by simp
      ultimately obtain s' where s': "get_literals flags s2 = here () s'" "after_literals lit dist buf s2 (out @ [of_nat k]) (items1, rest) s'"
        using less.hyps [of items1 s2 bs1 "out @ [of_nat k]"] i1 s2(2) ex1 ex(2) by auto
      have "get_literals flags s = here () s'"
        using True s1(1) small symbol_small(1) [OF k288] s2(1) s'(1) out_full_wrote [OF w2] room b
        by (subst get_literals.simps) (simp add: Let_def)
      then show ?thesis using after_literals_more [OF s'(2) c2] i1(1) by auto
    qed
  next
    case False
    then have len: "4 \<le> length (pIn_buf_cur s)" "length out + 2 \<le> length buf" using w by (auto simp: wrote_def)
    have "2 \<le> length (pIn_buf_cur s)" using len by simp
    then obtain v l where v: "huff_symbol (m_tables s ! 0) (m_bit_buf (refill s)) = Some (v, l)" "v AND 511 = int k" "0 \<le> v" "v < 2 ^ 14"
      "reads (skip_bits (of_nat l) (refill s)) bs1" "still (refill s) = still s" "length (pIn_buf_cur s) - 2 \<le> length (pIn_buf_cur (refill s))"
      using fast_symbol [OF tab r k] by blast
    note sv = symbol_value [OF v(2-4) k288]
    define s1 where "s1 = skip_bits (of_nat l) ((refill s)\<lparr>m_counter := word_of_int v\<rparr>)"
    have t1: "m_tables (refill s) = m_tables s" using still_same(7) [OF v(6)] .
    have s1: "reads s1 bs1" "m_counter s1 = word_of_int v" "core s1 = core s" "wrote buf s1 out" "2 \<le> length (pIn_buf_cur s1)" "m_tables s1 = m_tables s"
    proof -
      have "s1 = (skip_bits (of_nat l) (refill s))\<lparr>m_counter := word_of_int v\<rparr>" by (simp add: s1_def skip_bits_def)
      then show "reads s1 bs1" "m_counter s1 = word_of_int v" "core s1 = core s" "wrote buf s1 out"
        using v(5) still_core [OF v(6)] w wrote_still [OF v(6)] by simp_all
      show "2 \<le> length (pIn_buf_cur s1)" using v(7) len(1) by (simp add: s1_def skip_bits_def)
      show "m_tables s1 = m_tables s" using t1 by (simp add: s1_def skip_bits_def)
    qed
    show ?thesis
    proof (cases "256 \<le> k")
      case True
      have "get_literals flags s = here () s1"
        using False v(1) t1 sv(2) True s1(2) by (subst get_literals.simps) (simp add: Let_def s1_def)
      moreover have "after_literals lit dist buf s out (items, rest) s1"
        using s1 sv(1) by (intro after_literals_now [OF it k True]) simp_all
      ultimately show ?thesis by blast
    next
      case small: False
      then have k256: "k < 256" by simp
      obtain items1 where i1: "items = Lit (of_nat k) # items1" "read_items lit dist bs1 = Some (items1, rest)"
        using read_items_literal [OF it k k256] .
      then have ex1: "expand items1 (out @ [of_nat k]) = Some out'" using ex(1) by simp
      obtain k2 bs2 where k2: "read_symbol 288 lit bs1 = Some (k2, bs2)" using read_itemsD [OF i1(2)] .
      have tab1: "table_for 288 lit (m_tables s1 ! 0)" using tab s1(6) by simp
      have k2b: "k2 < 288" using table_forD [OF tab1 k2] by metis
      obtain v2 l2 where v2: "huff_symbol (m_tables s1 ! 0) (m_bit_buf (refill s1)) = Some (v2, l2)" "v2 AND 511 = int k2" "0 \<le> v2" "v2 < 2 ^ 14"
        "reads (skip_bits (of_nat l2) (refill s1)) bs2" "still (refill s1) = still s1"
        using fast_symbol [OF tab1 s1(1) k2 s1(5)] by blast
      note sv2 = symbol_value [OF v2(2-4) k2b]
      define s2 where "s2 = skip_bits (of_nat l2) (refill s1)"
      have t2: "m_tables (refill s1) = m_tables s1" using still_same(7) [OF v2(6)] .
      have s2: "reads s2 bs2" "m_counter s2 = word_of_int v" "core s2 = core s" "wrote buf s2 out"
        using v2(5) still_same(1) [OF v2(6)] still_core [OF v2(6)] s1 wrote_still [OF v2(6)] by (simp_all add: s2_def) (simp add: skip_bits_def)
      have room: "length out < length buf" using len(2) by simp
      obtain s3 where s3: "put_byte (of_nat k) s2 = Some s3" "wrote buf s3 (out @ [of_nat k])"
        "core s3 = core s2" "\<And>bs. reads s3 bs = reads s2 bs"
        using put_byte_result [OF s2(4) room] by metis
      have step: "get_literals flags s = (if v2 AND 256 \<noteq> 0 then here () (s3\<lparr>m_counter := word_of_int v2\<rparr>)
          else do { s \<leftarrow> put_byte (word_of_int v2) s3; get_literals flags s })"
        using False v(1) t1 t2 sv(2,4) small s1(2) s1_def s2(2) s2_def v2(1) s3(1) k256 s1(6)
        by (subst get_literals.simps) (simp add: Let_def)
      show ?thesis
      proof (cases "256 \<le> k2")
        case True
        have "get_literals flags s = here () (s3\<lparr>m_counter := word_of_int v2\<rparr>)" using step sv2(3) True by simp
        moreover have "after_literals lit dist buf s3 (out @ [of_nat k]) (items1, rest) (s3\<lparr>m_counter := word_of_int v2\<rparr>)"
          using sv2(1) s2(1) s3 by (intro after_literals_now [OF i1(2) k2 True]) simp_all
        ultimately show ?thesis using after_literals_more s3(3) s2(3) i1(1) by fastforce
      next
        case lit2: False
        then have k2s: "k2 < 256" by simp
        obtain items2 where i2: "items1 = Lit (of_nat k2) # items2" "read_items lit dist bs2 = Some (items2, rest)"
          using read_items_literal [OF i1(2) k2 k2s] .
        then have ex2: "expand items2 (out @ [of_nat k, of_nat k2]) = Some out'" using ex1 by simp
        have room2: "length (out @ [of_nat k]) < length buf" using len(2) by simp
        obtain s4 where s4: "put_byte (of_nat k2) s3 = Some s4" "wrote buf s4 ((out @ [of_nat k]) @ [of_nat k2])"
          "core s4 = core s3" "\<And>bs. reads s4 bs = reads s3 bs"
          using put_byte_result [OF s3(2) room2] by metis
        have c4: "core s4 = core s" using s4(3) s3(3) s2(3) by simp
        then have "table_for 288 lit (m_tables s4 ! 0)" using tab core_same(3) by metis
        moreover have "reads s4 bs2" using s4(4) s3(4) s2(1) by simp
        ultimately obtain s' where s': "get_literals flags s4 = here () s'"
          "after_literals lit dist buf s4 (out @ [of_nat k, of_nat k2]) (items2, rest) s'"
          using less.hyps [of items2 s4 bs2 "out @ [of_nat k, of_nat k2]"] i1 i2 s4(2) ex2 ex(2) by auto
        have "get_literals flags s = here () s'" using step sv2(3,5) lit2 k2s s4(1) s'(1) by simp
        then show ?thesis using after_literals_more [OF s'(2) c4] i1(1) i2(1) by auto
      qed
    qed
  qed
qed

section \<open>Matches\<close>

lemma length_code_tables: "s_length_base = map of_nat length_base @ [0, 0]" "s_length_extra = map of_nat length_extra @ [0, 0]"
  by (simp_all add: s_length_base_def length_base_def s_length_extra_def length_extra_def)

lemma dist_code_tables: "s_dist_base = map of_nat dist_base @ [0, 0]" "s_dist_extra = map of_nat dist_extra @ [0, 0]"
  by (simp_all add: s_dist_base_def dist_base_def s_dist_extra_def dist_extra_def)

lemma extra_small: "i < 29 \<Longrightarrow> length_extra ! i \<le> 13" "i < 30 \<Longrightarrow> dist_extra ! i \<le> 13" "i < 29 \<Longrightarrow> 3 \<le> length_base ! i"
proof -
  have "\<forall>x \<in> set length_extra. x \<le> 13" "\<forall>x \<in> set dist_extra. x \<le> 13" "\<forall>x \<in> set length_base. 3 \<le> x" "length length_extra = 29" "length dist_extra = 30" "length length_base = 29"
    by (simp_all add: length_extra_def dist_extra_def length_base_def)
  then show "i < 29 \<Longrightarrow> length_extra ! i \<le> 13" "i < 30 \<Longrightarrow> dist_extra ! i \<le> 13" "i < 29 \<Longrightarrow> 3 \<le> length_base ! i" by simp_all
qed

lemma add_extra_result:
  assumes "reads s bs" and "m_num_extra s = of_nat n" and "n \<le> 13" and "read_bits n bs = Some (e, bs')"
  shows "\<exists>s'. add_extra flags i base s = here (base + of_nat e) s' \<and> reads s' bs' \<and> still s' = still s"
proof -
  have u: "unat (of_nat n :: u32) = n" using assms(3) by (simp add: unsigned_of_nat take_bit_nat_eq_self)
  show ?thesis
  proof (cases "n = 0")
    case True
    then show ?thesis using assms by (simp add: add_extra_def read_bits_def)
  next
    case False
    then have ne: "m_num_extra s \<noteq> 0" using u assms(2) by (metis unat_eq_zero)
    obtain s' where "TINFL_GET_BITS flags i (m_num_extra s) s = here (of_nat e) s'" "reads s' bs'" "still s' = still s"
      using get_bits_result [OF assms(1), of "m_num_extra s" e bs'] assms(2-4) u by auto
    then show ?thesis using ne by (simp add: add_extra_def)
  qed
qed

text \<open>The items after a symbol that is not a literal.\<close>

lemma read_items_end:
  assumes "read_items lit dist bs = Some (items, rest)" and "read_symbol 288 lit bs = Some (256, bs1)"
  shows "items = []" and "rest = bs1"
  using assms by (auto simp: read_items.simps [of lit dist bs] read_item_def)

lemma read_items_match:
  assumes "read_items lit dist bs = Some (items, rest)" and "read_symbol 288 lit bs = Some (k, bs1)" and "256 < k"
  obtains e bs2 t bs3 f bs4 items1 where "k < 286" and "read_bits (length_extra ! (k - 257)) bs1 = Some (e, bs2)"
    and "read_symbol 32 dist bs2 = Some (t, bs3)" and "t < 30" and "read_bits (dist_extra ! t) bs3 = Some (f, bs4)"
    and "items = Match (length_base ! (k - 257) + e) (dist_base ! t + f) # items1" and "read_items lit dist bs4 = Some (items1, rest)"
proof -
  obtain it bs4 where i: "read_item lit dist bs = Some (it, bs4)" using assms(1)
    by (subst (asm) read_items.simps) (auto split: option.splits)
  then obtain e bs2 t bs3 f where h: "k < 286" "read_bits (length_extra ! (k - 257)) bs1 = Some (e, bs2)"
    "read_symbol 32 dist bs2 = Some (t, bs3)" "t < 30" "read_bits (dist_extra ! t) bs3 = Some (f, bs4)"
    "it = Some (Match (length_base ! (k - 257) + e) (dist_base ! t + f))"
    using assms(2,3) by (auto simp: read_item_def bind_eq_Some_conv split: if_splits)
  moreover obtain items1 where "items = Match (length_base ! (k - 257) + e) (dist_base ! t + f) # items1" "read_items lit dist bs4 = Some (items1, rest)"
    using assms(1) i h(6) by (subst (asm) read_items.simps) (auto split: option.splits)
  ultimately show ?thesis using that by blast
qed

lemma get_match_result:
  assumes r: "reads s bs1" and k: "m_counter s = of_nat k" "256 < k" "k < 286"
    and e: "read_bits (length_extra ! (k - 257)) bs1 = Some (e, bs2)" and tab: "table_for 32 dist (m_tables s ! 1)"
    and t: "read_symbol 32 dist bs2 = Some (t, bs3)" "t < 30" and f: "read_bits (dist_extra ! t) bs3 = Some (f, bs4)"
    and w: "wrote buf s out"
  shows "\<exists>s'. get_match flags s = here () s' \<and> reads s' bs4 \<and> m_counter s' = of_nat (length_base ! (k - 257) + e) \<and>
    m_dist s' = of_nat (dist_base ! t + f) \<and> m_dist_from_out_buf_start s' = of_nat (length out) \<and> wrote buf s' out \<and> core s' = core s"
proof -
  define i where "i = k - 257"
  have i: "i < 29" "k = i + 257" using k by (simp_all add: i_def)
  then have c: "m_counter s - 257 = of_nat i" using k(1) by simp
  have u: "unat (of_nat i :: u32) = i" using i by (simp add: unsigned_of_nat take_bit_nat_eq_self)
  have l: "length length_base = 29" "length length_extra = 29" "length dist_base = 30" "length dist_extra = 30"
    by (simp_all add: length_base_def length_extra_def dist_base_def dist_extra_def)
  have rd: "read_at s_length_extra i = Some (of_nat (length_extra ! i))" "read_at s_length_base i = Some (of_nat (length_base ! i))"
    using i(1) l by (simp_all add: read_at_def length_code_tables nth_append)
  let ?s = "s\<lparr>m_num_extra := of_nat (length_extra ! i), m_counter := of_nat (length_base ! i)\<rparr>"
  have "reads ?s bs1" using r by simp
  from add_extra_result [OF this _ extra_small(1) [OF i(1)] e [folded i_def], of flags 25 "of_nat (length_base ! i)"]
  obtain s1 where s1: "add_extra flags 25 (of_nat (length_base ! i)) ?s = here (of_nat (length_base ! i) + of_nat e) s1" "reads s1 bs2" "still s1 = still ?s"
    by auto
  let ?s1 = "s1\<lparr>m_counter := of_nat (length_base ! i) + of_nat e\<rparr>"
  have tb: "m_tables ?s1 = m_tables s" using still_same(7) [OF s1(3)] by simp
  have "reads ?s1 bs2" using s1(2) by simp
  from get_symbol [OF tab [folded tb] this t(1)] obtain s2 where
    s2: "TINFL_HUFF_DECODE flags 26 (m_tables ?s1 ! 1) ?s1 = here (of_nat t) s2" "reads s2 bs3" "still s2 = still ?s1" by blast
  have ut: "unat (of_nat t :: u32) = t" using t(2) by (simp add: unsigned_of_nat take_bit_nat_eq_self)
  have rd2: "read_at s_dist_extra t = Some (of_nat (dist_extra ! t))" "read_at s_dist_base t = Some (of_nat (dist_base ! t))"
    using t(2) l by (simp_all add: read_at_def dist_code_tables nth_append)
  let ?s2 = "s2\<lparr>m_num_extra := of_nat (dist_extra ! t), m_dist := of_nat (dist_base ! t)\<rparr>"
  have "reads ?s2 bs3" using s2(2) by simp
  from add_extra_result [OF this _ extra_small(2) [OF t(2)] f, of flags 27 "of_nat (dist_base ! t)"]
  obtain s3 where s3: "add_extra flags 27 (of_nat (dist_base ! t)) ?s2 = here (of_nat (dist_base ! t) + of_nat f) s3" "reads s3 bs4" "still s3 = still ?s2"
    by auto
  let ?s3 = "s3\<lparr>m_dist := of_nat (dist_base ! t) + of_nat f, m_dist_from_out_buf_start := of_nat (pOut_buf_cur s3)\<rparr>"
  have g: "get_match flags s = here () ?s3"
    unfolding get_match_def c u rd using s1(1) s2(1) tb by (simp add: ut rd2 s3(1))
  have "m_counter s3 = of_nat (length_base ! i + e)" using still_same(1) [OF s3(3)] still_same(1) [OF s2(3)] by simp
  moreover have w3: "wrote buf s3 out" using w wrote_still [OF s3(3)] wrote_still [OF s2(3)] wrote_still [OF s1(3)] by simp
  moreover have "core s3 = core s" using still_core [OF s3(3)] still_core [OF s2(3)] still_core [OF s1(3)] by simp
  moreover have "pOut_buf_cur s3 = length out" using w3 by (simp add: wrote_def)
  ultimately show ?thesis using s3(2) unfolding i_def [symmetric] by (intro exI [of _ ?s3]) (simp add: g)
qed

section \<open>Copying\<close>

lemma copy_byte_result:
  assumes "wrote buf s out" and "src < length out" and "length out < length buf"
  obtains s' where "copy_byte src s = Some s'" and "wrote buf s' (out @ [out ! src])" and "core s' = core s"
    and "\<And>bs. reads s' bs = reads s bs" and "m_counter s' = m_counter s"
    and "m_dist s' = m_dist s" and "m_dist_from_out_buf_start s' = m_dist_from_out_buf_start s"
proof -
  have "read_at (pOut_buf s) src = Some (out ! src)" using assms by (simp add: wrote_def read_at_def nth_append)
  then have c: "copy_byte src s = put_byte (out ! src) s" by (simp add: copy_byte_def)
  from put_byte_result [OF assms(1,3), of "out ! src"] show ?thesis using that unfolding c by metis
qed

lemma copy_match_add: "copy_match (m + k) d out = copy_match k d (copy_match m d out)"
  by (induction m arbitrary: out) simp_all

lemma copy_by_3_result:
  assumes "wrote buf s out" and "reads s bs" and "src + d = length out" and "1 \<le> d" and "3 \<le> n" and "length out + n \<le> length buf"
  shows "\<exists>s' m. copy_by_3 src (int n) s = Some (src + m, int (n - m), s') \<and> m \<le> n \<and> n - m \<le> 2 \<and> reads s' bs \<and>
    wrote buf s' (copy_match m d out) \<and> core s' = core s"
  using assms
proof (induction n arbitrary: src s out rule: less_induct)
  case (less n)
  have r: "length out < length buf" "length (out @ [x]) < length buf" "length (out @ [x, y]) < length buf" for x y using less.prems(5,6) by simp_all
  obtain s1 where s1: "copy_byte src s = Some s1" "wrote buf s1 (out @ [out ! src])" "core s1 = core s" "\<And>bs. reads s1 bs = reads s bs"
    using copy_byte_result [OF less.prems(1) _ r(1)] less.prems(3,4) by (metis less_add_same_cancel1 less_le_trans zero_less_one)
  define o1 where "o1 = out @ [out ! src]"
  obtain s2 where s2: "copy_byte (src + 1) s1 = Some s2" "wrote buf s2 (o1 @ [o1 ! (src + 1)])" "core s2 = core s1" "\<And>bs. reads s2 bs = reads s1 bs"
    using copy_byte_result [OF s1(2), of "src + 1"] r(2) less.prems(3,4) unfolding o1_def [symmetric] by (auto simp: o1_def)
  define o2 where "o2 = o1 @ [o1 ! (src + 1)]"
  obtain s3 where s3: "copy_byte (src + 2) s2 = Some s3" "wrote buf s3 (o2 @ [o2 ! (src + 2)])" "core s3 = core s2" "\<And>bs. reads s3 bs = reads s2 bs"
    using copy_byte_result [OF s2(2), of "src + 2"] r(3) less.prems(3,4) unfolding o2_def [symmetric] by (auto simp: o2_def o1_def)
  define o3 where "o3 = o2 @ [o2 ! (src + 2)]"
  have l: "length o1 = Suc (length out)" "length o2 = Suc (Suc (length out))" "length o3 = length out + 3" by (simp_all add: o1_def o2_def o3_def)
  have i: "length out - d = src" "length o1 - d = src + 1" "length o2 - d = src + 2" using less.prems(3) l by simp_all
  have cm: "copy_match (3 + m) d out = copy_match m d o3" for m
    by (simp add: numeral_3_eq_3 i(1) o1_def [symmetric] i(2) [simplified] o2_def [symmetric, simplified] i(3) [simplified] o3_def [symmetric, simplified])
  have c: "core s3 = core s" and rd: "reads s3 bs" using s1(3,4) s2(3,4) s3(3,4) less.prems(2) by simp_all
  show ?case
  proof (cases "2 < int n - 3")
    case False
    then have "copy_by_3 src (int n) s = Some (src + 3, int (n - 3), s3)"
      using s1(1) s2(1) s3(1) less.prems(5) by (subst copy_by_3.simps) (simp add: of_nat_diff)
    then show ?thesis using False less.prems(5) s3(2) c rd cm [of 0] by (intro exI [of _ s3] exI [of _ 3]) (simp add: o3_def)
  next
    case True
    then have n: "3 \<le> n - 3" "n - 3 < n" "int n - 3 = int (n - 3)" by simp_all
    have "src + 3 + d = length o3" "length o3 + (n - 3) \<le> length buf" using less.prems(3,6) l n by simp_all
    then obtain s' m where m: "copy_by_3 (src + 3) (int (n - 3)) s3 = Some (src + 3 + m, int (n - 3 - m), s')" "m \<le> n - 3" "n - 3 - m \<le> 2"
      "reads s' bs" "wrote buf s' (copy_match m d o3)" "core s' = core s3"
      using less.IH [OF n(2) _ rd _ less.prems(4) n(1), of o3 "src + 3"] s3(2) unfolding o3_def by blast
    have "copy_by_3 src (int n) s = (if 2 < int n - 3 then copy_by_3 (src + 3) (int n - 3) s3 else Some (src + 3, int n - 3, s3))"
      using s1(1) s2(1) s3(1) by (subst copy_by_3.simps) simp
    then have "copy_by_3 src (int n) s = copy_by_3 (src + 3) (int (n - 3)) s3" using True unfolding n(3) by (simp only: if_True)
    then have "copy_by_3 src (int n) s = Some (src + (3 + m), int (n - (3 + m)), s')" using m(1) by (simp only: add.assoc diff_diff_left)
    moreover have "3 + m \<le> n" "n - (3 + m) \<le> 2" using m(2,3) n(1) by linarith+
    moreover have "wrote buf s' (copy_match (3 + m) d out)" "core s' = core s" unfolding cm m(6) using m(5) c by blast+
    ultimately show ?thesis using m(4) by blast
  qed
qed

lemma copy_fast_result:
  assumes "wrote buf s out" and "reads s bs" and "m_counter s = of_nat n" and "src + d = length out" and "1 \<le> d"
    and "3 \<le> n" and "n < 2 ^ 31" and "length out + n \<le> length buf"
  shows "\<exists>s'. copy_fast src s = Some s' \<and> reads s' bs \<and> wrote buf s' (copy_match n d out) \<and> core s' = core s"
proof -
  have sn: "sint (m_counter s) = int n"
  proof -
    have "m_counter s = word_of_int (int n)" using assms(3) by simp
    then show ?thesis using assms(7) by (simp only: signed_of_int) (simp add: signed_take_bit_int_eq_self)
  qed
  obtain s1 m where m: "copy_by_3 src (int n) s = Some (src + m, int (n - m), s1)" "m \<le> n" "n - m \<le> 2" "reads s1 bs"
    "wrote buf s1 (copy_match m d out)" "core s1 = core s"
    using copy_by_3_result [OF assms(1,2,4,5,6,8)] by blast
  define k where "k = n - m"
  have n: "n = m + k" "k \<le> 2" using m(2,3) by (simp_all add: k_def)
  let ?o = "copy_match m d out"
  have l: "length ?o = length out + m" by (simp add: length_copy_match)
  have i: "src + m = length ?o - d" "src + m < length ?o" using assms(4,5) l by simp_all
  have eq: "copy_fast src s = do {
      s \<leftarrow> (if 0 < int k then copy_byte (src + m) s1 else Some s1);
      s \<leftarrow> (if 1 < int k then copy_byte (src + m + 1) s else Some s);
      Some (s\<lparr>m_counter := word_of_int (int k)\<rparr>) }"
    unfolding copy_fast_def sn m(1) k_def by simp
  consider "k = 0" | "k = 1" | "k = 2" using n(2) by linarith
  then show ?thesis
  proof cases
    case 1
    then show ?thesis using eq m(4-6) n(1) by simp
  next
    case 2
    have room: "length ?o < length buf" using l n(1) 2 assms(8) by simp
    obtain s2 where "copy_byte (src + m) s1 = Some s2" "wrote buf s2 (?o @ [?o ! (src + m)])" "core s2 = core s1" "\<And>bs. reads s2 bs = reads s1 bs"
      using copy_byte_result [OF m(5) i(2) room] by metis
    then show ?thesis using eq m(4,6) n(1) 2 i(1) copy_match_add [of m 1 d out] by simp
  next
    case 3
    have room: "length ?o < length buf" using l n(1) 3 assms(8) by simp
    obtain s2 where s2: "copy_byte (src + m) s1 = Some s2" "wrote buf s2 (?o @ [?o ! (src + m)])" "core s2 = core s1" "\<And>bs. reads s2 bs = reads s1 bs"
      using copy_byte_result [OF m(5) i(2) room] by metis
    define o2 where "o2 = ?o @ [?o ! (src + m)]"
    have l2: "length o2 = Suc (length ?o)" by (simp add: o2_def)
    have i2: "src + m + 1 = length o2 - d" "src + m + 1 < length o2" "length o2 < length buf" using i l l2 assms(4,5,8) n(1) 3 by simp_all
    obtain s3 where s3: "copy_byte (src + m + 1) s2 = Some s3" "wrote buf s3 (o2 @ [o2 ! (src + m + 1)])" "core s3 = core s2" "\<And>bs. reads s3 bs = reads s2 bs"
      using copy_byte_result [OF s2(2) [folded o2_def] i2(2,3)] by metis
    have "copy_match n d out = o2 @ [o2 ! (src + m + 1)]"
      unfolding n(1) 3 copy_match_add [of m 2] i2(1) unfolding o2_def i(1) by (simp add: numeral_2_eq_2)
    then show ?thesis using eq s2 s3 m(4,6) 3 by simp
  qed
qed

lemma copy_match_bytes_result:
  assumes w: "wrote buf s out" and r: "reads s bs" and c: "m_counter s = of_nat n" and d: "m_dist s = of_nat d" "1 \<le> d" "d \<le> length out"
    and "m_dist_from_out_buf_start s = of_nat (length out)" and n: "3 \<le> n" "n < 2 ^ 31" and room: "length out + n \<le> length buf" "length buf < 2 ^ 32"
  shows "\<exists>s'. copy_match_bytes flags (-1) s = here () s' \<and> reads s' bs \<and> wrote buf s' (copy_match n d out) \<and> core s' = core s"
proof -
  have u: "unat (of_nat k :: u32) = k" if "k < 2 ^ 32" for k using that by (simp add: unsigned_of_nat take_bit_nat_eq_self)
  have small: "length out < 2 ^ 32" "d < 2 ^ 32" "n < 2 ^ 32" "length out - d < 2 ^ 32" using room d(3) n(2) by simp_all
  have "\<not> m_dist_from_out_buf_start s < m_dist s" using assms(7) d u small by (simp add: word_less_nat_alt)
  moreover have "(of_nat (length out) - of_nat d :: u32) = of_nat (length out - d)" using d(3) by (simp add: of_nat_diff)
  then have "unat ((m_dist_from_out_buf_start s - m_dist s) AND - 1) = length out - d" using assms(7) d(1) u small by simp
  moreover have "\<not> length (pOut_buf s) < max (pOut_buf_cur s) (length out - d) + unat (m_counter s)"
    using w c u small room by (simp add: wrote_def)
  moreover obtain s' where "copy_fast (length out - d) s = Some s'" "reads s' bs" "wrote buf s' (copy_match n d out)" "core s' = core s"
    using copy_fast_result [OF w r c _ d(2) n room(1), of "length out - d"] d(3) by auto
  ultimately show ?thesis by (simp add: copy_match_bytes_def)
qed

section \<open>The items of a block\<close>

lemma read_bits_bound: "read_bits n bs = Some (x, bs') \<Longrightarrow> x < 2 ^ n"
proof -
  assume "read_bits n bs = Some (x, bs')"
  then have "n \<le> length bs" "x = horner_sum of_bool 2 (take n bs)" by (simp_all add: read_bits_def split: if_splits)
  then show ?thesis using horner_sum_of_bool_2_less [of "take n bs"] by simp
qed

lemma length_base_le: "i < 29 \<Longrightarrow> length_base ! i \<le> 258"
proof -
  have "\<forall>x \<in> set length_base. x \<le> 258" "length length_base = 29" by (simp_all add: length_base_def)
  then show "i < 29 \<Longrightarrow> length_base ! i \<le> 258" by simp
qed

lemma get_items_result:
  assumes "table_for 288 lit (m_tables s ! 0)" and "table_for 32 dist (m_tables s ! 1)" and "read_items lit dist bs = Some (items, rest)"
    and "reads s bs" and "wrote buf s out" and "expand items out = Some out'" and "length out' \<le> length buf" and "length buf < 2 ^ 32"
  shows "\<exists>s'. get_items flags (-1) s = here () s' \<and> reads s' rest \<and> wrote buf s' out' \<and> core s' = core s"
  using assms
proof (induction "length items" arbitrary: s bs items out rule: less_induct)
  case less
  obtain s1 where s1: "get_literals flags s = here () s1" "after_literals lit dist buf s out (items, rest) s1"
    using get_literals_result [OF less.prems(1,3-7)] by blast
  then obtain cs bs0 k bs1 items1 where h: "read_items lit dist bs0 = Some (items1, rest)" "items = map Lit cs @ items1"
    "read_symbol 288 lit bs0 = Some (k, bs1)" "256 \<le> k" "m_counter s1 AND 511 = of_nat k" "reads s1 bs1"
    "wrote buf s1 (out @ cs)" "core s1 = core s"
    unfolding after_literals_def by auto
  have lits: "expand (map Lit cs) o1 = Some (o1 @ cs)" for o1 by (induction cs arbitrary: o1) simp_all
  have ex: "expand items1 (out @ cs) = Some out'" using less.prems(6) lits [of out] by (simp add: h(2) expand_append)
  have k288: "k < 288" using table_forD [OF less.prems(1)] h(3) read_symbolD by (metis table_forD)
  define s2 where "s2 = s1\<lparr>m_counter := m_counter s1 AND 511\<rparr>"
  have s2: "m_counter s2 = of_nat k" "reads s2 bs1" "wrote buf s2 (out @ cs)" "core s2 = core s" using h by (simp_all add: s2_def)
  have k256: "(of_nat k :: u32) = 256 \<longleftrightarrow> k = 256" using k288 by (auto simp: word_unat_eq_iff unsigned_of_nat take_bit_nat_eq_self)
  have step: "get_items flags (-1) s = (if k = 256 then here () s2 else go_on (get_match flags s2) (\<lambda>_ s.
      go_on (copy_match_bytes flags (-1) s) (\<lambda>_ s. get_items flags (-1) s)))"
    using s1(1) s2(1) h(5) k256 by (subst get_items.simps) (simp add: Let_def s2_def)
  show ?case
  proof (cases "k = 256")
    case True
    then have "items1 = []" "rest = bs1" using read_items_end [OF h(1)] h(3) by simp_all
    then show ?thesis using step True s2 ex by simp
  next
    case False
    then have k: "256 < k" using h(4) by simp
    obtain e bs2 t bs3 f bs4 items2 where m: "k < 286" "read_bits (length_extra ! (k - 257)) bs1 = Some (e, bs2)"
      "read_symbol 32 dist bs2 = Some (t, bs3)" "t < 30" "read_bits (dist_extra ! t) bs3 = Some (f, bs4)"
      "items1 = Match (length_base ! (k - 257) + e) (dist_base ! t + f) # items2" "read_items lit dist bs4 = Some (items2, rest)"
      using read_items_match [OF h(1,3) k] .
    define n where "n = length_base ! (k - 257) + e"
    define d where "d = dist_base ! t + f"
    have tb: "m_tables s2 = m_tables s" using core_same(3) [OF s2(4)] .
    obtain s3 where s3: "get_match flags s2 = here () s3" "reads s3 bs4" "m_counter s3 = of_nat n" "m_dist s3 = of_nat d"
      "m_dist_from_out_buf_start s3 = of_nat (length (out @ cs))" "wrote buf s3 (out @ cs)" "core s3 = core s2"
      using get_match_result [OF s2(2,1) k m(1,2) less.prems(2) [folded tb] m(3-5) s2(3), of flags] unfolding n_def d_def by auto
    have i: "k - 257 < 29" using m(1) k by simp
    have "e < 2 ^ length_extra ! (k - 257)" using read_bits_bound [OF m(2)] .
    also have "(2 :: nat) ^ length_extra ! (k - 257) \<le> 2 ^ 13" using extra_small(1) [OF i] by (intro power_increasing) simp_all
    finally have n: "3 \<le> n" "n < 2 ^ 31" using extra_small(3) [OF i] length_base_le [OF i] by (simp_all add: n_def)
    have ex2: "1 \<le> d" "d \<le> length (out @ cs)" "expand items2 (copy_match n d (out @ cs)) = Some out'"
      using ex unfolding m(6) n_def [symmetric] d_def [symmetric] by (auto split: if_splits)
    have room: "length (out @ cs) + n \<le> length buf" using expand_grows [OF ex2(3)] less.prems(7) by (simp add: length_copy_match)
    obtain s4 where s4: "copy_match_bytes flags (-1) s3 = here () s4" "reads s4 bs4" "wrote buf s4 (copy_match n d (out @ cs))" "core s4 = core s3"
      using copy_match_bytes_result [OF s3(6,2,3,4) ex2(1,2) s3(5) n room less.prems(8)] by blast
    have c4: "core s4 = core s" using s4(4) s3(7) s2(4) by simp
    have "m_tables s4 = m_tables s" using core_same(3) [OF c4] .
    moreover have "length items2 < length items" by (simp add: h(2) m(6))
    ultimately obtain s' where "get_items flags (-1) s4 = here () s'" "reads s' rest" "wrote buf s' out'" "core s' = core s4"
      using less.hyps [of items2 s4 bs4 "copy_match n d (out @ cs)"] less.prems(1,2,7,8) m(7) s4(2,3) ex2(3) by auto
    then show ?thesis using step False s3(1) s4(1) c4 by simp
  qed
qed

end
