(* ===== verification/Mz_Dynamic.thy ===== *)
theory Mz_Dynamic
  imports Mz_Unpack
begin

unbundle bit_operations_syntax

text \<open>
  The tables of a compressed block in the decompressor of \<open>proj/sparc-prog/miniz.c\<close>: the fixed ones, and
  those of a dynamic block, whose lengths are read as the reference decoder reads them.
\<close>

section \<open>The state while tables are read\<close>

definition arrays :: "tinfl_run \<Rightarrow> bool" where
  "arrays s \<longleftrightarrow> length (m_tables s) = 3 \<and> (\<forall>i < 3. table_arrays 288 (m_tables s ! i)) \<and> length (m_table_sizes s) = 3 \<and>
     length (m_len_codes s) = 457 \<and> length (m_raw_header s) = 4"

text \<open>All but the input and the variables that reading a length uses.\<close>

definition frame :: "tinfl_run \<Rightarrow> tinfl_run" where
  "frame s = s\<lparr>m_bit_buf := 0, m_num_bits := 0, pIn_buf_cur := [], m_counter := 0, m_num_extra := 0, m_dist := 0, m_len_codes := []\<rparr>"

lemma frame_update [simp]:
  "frame (s\<lparr>m_counter := a\<rparr>) = frame s" "frame (s\<lparr>m_num_extra := a\<rparr>) = frame s" "frame (s\<lparr>m_dist := a\<rparr>) = frame s"
  "frame (s\<lparr>m_len_codes := cs\<rparr>) = frame s"
  by (simp_all add: frame_def)

lemma frame_cong:
  assumes "frame s' = frame s"
  shows "frame (s'\<lparr>m_tables := t\<rparr>) = frame (s\<lparr>m_tables := t\<rparr>)" and "frame (s'\<lparr>m_table_sizes := ws\<rparr>) = frame (s\<lparr>m_table_sizes := ws\<rparr>)"
    and "frame (s'\<lparr>m_type := w\<rparr>) = frame (s\<lparr>m_type := w\<rparr>)"
proof -
  have "frame (s\<lparr>m_tables := t\<rparr>) = (frame s)\<lparr>m_tables := t\<rparr>" "frame (s\<lparr>m_table_sizes := ws\<rparr>) = (frame s)\<lparr>m_table_sizes := ws\<rparr>"
    "frame (s\<lparr>m_type := w\<rparr>) = (frame s)\<lparr>m_type := w\<rparr>" for s
    by (simp_all add: frame_def)
  then show "frame (s'\<lparr>m_tables := t\<rparr>) = frame (s\<lparr>m_tables := t\<rparr>)" "frame (s'\<lparr>m_table_sizes := ws\<rparr>) = frame (s\<lparr>m_table_sizes := ws\<rparr>)"
    "frame (s'\<lparr>m_type := w\<rparr>) = frame (s\<lparr>m_type := w\<rparr>)" using assms by simp_all
qed

lemma still_frame: "still s' = still s \<Longrightarrow> frame s' = frame s"
proof -
  have "frame s = frame (still s)" for s by (simp add: frame_def still_def)
  then show "still s' = still s \<Longrightarrow> frame s' = frame s" by metis
qed

lemma frame_same:
  assumes "frame s' = frame s"
  shows "m_tables s' = m_tables s" "m_table_sizes s' = m_table_sizes s" "m_type s' = m_type s" "m_final s' = m_final s"
    "m_raw_header s' = m_raw_header s" "pOut_buf s' = pOut_buf s" "pOut_buf_cur s' = pOut_buf_cur s"
    "m_z_adler32 s' = m_z_adler32 s" "m_check_adler32 s' = m_check_adler32 s"
proof -
  have "m_tables (frame s) = m_tables s" "m_table_sizes (frame s) = m_table_sizes s" "m_type (frame s) = m_type s" "m_final (frame s) = m_final s"
    "m_raw_header (frame s) = m_raw_header s" "pOut_buf (frame s) = pOut_buf s" "pOut_buf_cur (frame s) = pOut_buf_cur s"
    "m_z_adler32 (frame s) = m_z_adler32 s" "m_check_adler32 (frame s) = m_check_adler32 s" for s
    by (simp_all add: frame_def)
  then show "m_tables s' = m_tables s" "m_table_sizes s' = m_table_sizes s" "m_type s' = m_type s" "m_final s' = m_final s"
    "m_raw_header s' = m_raw_header s" "pOut_buf s' = pOut_buf s" "pOut_buf_cur s' = pOut_buf_cur s"
    "m_z_adler32 s' = m_z_adler32 s" "m_check_adler32 s' = m_check_adler32 s"
    using assms by metis+
qed

lemma small_word: "n < 2 ^ 32 \<Longrightarrow> unat (of_nat n :: u32) = n"
  by (simp add: unsigned_of_nat take_bit_nat_eq_self)

lemma small_byte: "n < 2 ^ 32 \<Longrightarrow> ucast (of_nat n :: u32) = (of_nat n :: u8)"
  by (simp add: unsigned_of_nat take_bit_nat_eq_self)

lemma small_less: "m < 2 ^ 32 \<Longrightarrow> n < 2 ^ 32 \<Longrightarrow> (of_nat m :: u32) < of_nat n \<longleftrightarrow> m < n"
  by (simp add: word_less_nat_alt small_word)

section \<open>The lengths of the codes\<close>

text \<open>The lengths read so far are the first entries of \<open>m_len_codes\<close>.\<close>

definition lengths_read :: "u8 list \<Rightarrow> tinfl_run \<Rightarrow> bool" where
  "lengths_read out s \<longleftrightarrow> m_counter s = of_nat (length out) \<and> length (m_len_codes s) = 457 \<and> length out \<le> 457 \<and>
     take (length out) (m_len_codes s) = out"

lemma lengths_read_same:
  assumes "still s' = still s"
  shows "lengths_read out s' = lengths_read out s"
  using still_same(1,9) [OF assms] by (simp add: lengths_read_def)

lemma lengths_read_update [simp]:
  "lengths_read out (s\<lparr>m_dist := a\<rparr>) = lengths_read out s" "lengths_read out (s\<lparr>m_num_extra := a\<rparr>) = lengths_read out s"
  by (simp_all add: lengths_read_def)

lemma fill_codes_result:
  assumes "lengths_read out s" and "length out + n \<le> 457"
  shows "\<exists>codes. fill_codes (length out) n x (m_len_codes s) = Some codes \<and>
    lengths_read (out @ replicate n x) (s\<lparr>m_len_codes := codes, m_counter := m_counter s + of_nat n\<rparr>)"
proof -
  have "length (m_len_codes s) = 457" "take (length out) (m_len_codes s) = out" using assms(1) by (simp_all add: lengths_read_def)
  then show ?thesis using assms by (simp add: fill_codes_def lengths_read_def)
qed

text \<open>One symbol of the code length code.\<close>

definition len_step :: "u32 \<Rightarrow> tinfl_run \<Rightarrow> unit tinfl_step" where
  "len_step flags s =
    go_on (TINFL_HUFF_DECODE flags 16 (m_tables s ! 2) s) (\<lambda>sym s.
      let s = s\<lparr>m_dist := sym\<rparr>
      in if sym < 16 then do {
           codes \<leftarrow> write_at (m_len_codes s) (unat (m_counter s)) (ucast sym);
           here () (s\<lparr>m_len_codes := codes, m_counter := m_counter s + 1\<rparr>) }
         else if sym = 16 \<and> m_counter s = 0 then TINFL_CR_RETURN 17 TINFL_STATUS_FAILED s
         else do {
           num_extra \<leftarrow> read_at [2, 3, 7] (unat (sym - 16));
           base \<leftarrow> read_at [3, 3, 11] (unat (sym - 16));
           go_on (TINFL_GET_BITS flags 18 num_extra (s\<lparr>m_num_extra := num_extra\<rparr>)) (\<lambda>x s.
             do {
               let n = x + base;
               let c = (if m_dist s = 16 then m_len_codes s ! unat (m_counter s - 1) else 0);
               codes \<leftarrow> fill_codes (unat (m_counter s)) (unat n) c (m_len_codes s);
               here () (s\<lparr>m_len_codes := codes, m_counter := m_counter s + n\<rparr>)
             }) })"

lemma go_on_bind: "go_on (do { x \<leftarrow> m; k x }) l = do { x \<leftarrow> m; go_on (k x) l }"
  by (cases m) simp_all

lemma get_len_codes_step:
  "get_len_codes flags s =
    (if m_counter s < m_table_sizes s ! 0 + m_table_sizes s ! 1 then go_on (len_step flags s) (\<lambda>_ s. get_len_codes flags s) else here () s)"
  unfolding len_step_def go_on_assoc
  by (subst get_len_codes.simps) (simp add: Let_def go_on_assoc go_on_bind if_distrib [of "\<lambda>m. go_on m l" for l] cong: if_cong)

lemma len_step_result:
  assumes h: "table_for 19 sizes (m_tables s ! 2)" and r: "reads s bs" and out: "lengths_read out s" "length out < 320"
    and it: "read_length_item sizes out bs = Some (out', bs')"
  shows "\<exists>s'. len_step flags s = here () s' \<and> reads s' bs' \<and> lengths_read out' s' \<and> frame s' = frame s"
proof -
  obtain c bs1 where c: "read_symbol 19 sizes bs = Some (c, bs1)" using it by (auto simp: read_length_item_def bind_eq_Some_conv)
  have c19: "c < 19" using table_forD [OF h c] by metis
  obtain s1 where s1: "TINFL_HUFF_DECODE flags 16 (m_tables s ! 2) s = here (of_nat c) s1" "reads s1 bs1" "still s1 = still s"
    using get_symbol [OF h r c] by blast
  define s2 where "s2 = s1\<lparr>m_dist := of_nat c\<rparr>"
  have s2: "reads s2 bs1" "lengths_read out s2" "frame s2 = frame s" "m_dist s2 = of_nat c"
    using s1(2) out(1) lengths_read_same [OF s1(3)] still_frame [OF s1(3)] by (simp_all add: s2_def)
  have u: "unat (m_counter s2) = length out" using s2(2) out(2) by (simp add: lengths_read_def small_word)
  have lt: "(of_nat c :: u32) < 16 \<longleftrightarrow> c < 16" using small_less [of c 16] c19 by simp
  show ?thesis
  proof (cases "c < 16")
    case True
    have o: "out' = out @ [of_nat c]" "bs' = bs1" using it c True by (simp_all add: read_length_item_def)
    obtain codes where codes: "fill_codes (length out) 1 (of_nat c) (m_len_codes s2) = Some codes"
      "lengths_read (out @ replicate 1 (of_nat c)) (s2\<lparr>m_len_codes := codes, m_counter := m_counter s2 + of_nat 1\<rparr>)"
      using fill_codes_result [OF s2(2), of 1 "of_nat c"] out(2) by auto
    have "write_at (m_len_codes s2) (length out) (of_nat c) = Some codes"
      using codes(1) s2(2) out(2) by (simp add: fill_codes_def write_at_def lengths_read_def upd_conv_take_nth_drop split: if_splits)
    then have "len_step flags s = here () (s2\<lparr>m_len_codes := codes, m_counter := m_counter s2 + 1\<rparr>)"
      using s1(1) True lt u small_byte [of c] by (simp add: len_step_def Let_def s2_def)
    then show ?thesis using codes(2) o s2 by simp
  next
    case False
    have ne: "\<not> ((of_nat c :: u32) = 16 \<and> m_counter s2 = 0)"
    proof
      assume a: "(of_nat c :: u32) = 16 \<and> m_counter s2 = 0"
      then have "unat (of_nat c :: u32) = 16" by simp
      then have "c = 16" using small_word [of c] c19 by simp
      moreover have "out = []" using a u by simp
      ultimately show False using it c by (simp add: read_length_item_def)
    qed
    define k where "k = c - 16"
    have k: "k < 3" "c = k + 16" using False c19 by (simp_all add: k_def)
    have uk: "unat (of_nat c - 16 :: u32) = k" using k small_word [of k] by simp
    define n where "n = [2, 3, 7 :: nat] ! k"
    define b where "b = [3, 3, 11 :: nat] ! k"
    have rd: "read_at [2, 3, 7 :: u32] k = Some (of_nat n)" "read_at [3, 3, 11 :: u32] k = Some (of_nat b)" "n \<le> 7" "b \<le> 11"
      using k(1) by (auto simp: read_at_def n_def b_def less_Suc_eq numeral_3_eq_3)
    define x where "x = (if c = 16 then last out else 0)"
    obtain e where e: "read_bits n bs1 = Some (e, bs')" "out' = out @ replicate (b + e) x" "c = 16 \<longrightarrow> out \<noteq> []"
      using it c False k by (auto simp: read_length_item_def bind_eq_Some_conv n_def b_def x_def less_Suc_eq numeral_3_eq_3 split: if_splits)
    have "e < 2 ^ n" using read_bits_bound [OF e(1)] .
    also have "(2 :: nat) ^ n \<le> 2 ^ 7" using rd(3) by (intro power_increasing) simp_all
    finally have be: "b + e \<le> 138" using rd(4) by simp
    have "reads (s2\<lparr>m_num_extra := of_nat n\<rparr>) bs1" using s2(1) by simp
    from get_bits_result [OF this, of "of_nat n" e bs' flags 18] obtain s3 where
      s3: "TINFL_GET_BITS flags 18 (of_nat n) (s2\<lparr>m_num_extra := of_nat n\<rparr>) = here (of_nat e) s3" "reads s3 bs'" "still s3 = still (s2\<lparr>m_num_extra := of_nat n\<rparr>)"
      using e(1) rd(3) by (auto simp: small_word)
    have l3: "lengths_read out s3" "frame s3 = frame s" "m_dist s3 = of_nat c" "unat (m_counter s3) = length out"
      using lengths_read_same [OF s3(3)] s2 still_frame [OF s3(3)] still_same(1,3) [OF s3(3)] u by simp_all
    obtain codes where codes: "fill_codes (length out) (b + e) x (m_len_codes s3) = Some codes"
      "lengths_read (out @ replicate (b + e) x) (s3\<lparr>m_len_codes := codes, m_counter := m_counter s3 + of_nat (b + e)\<rparr>)"
      using fill_codes_result [OF l3(1), of "b + e" x] out(2) be by auto
    have "(if m_dist s3 = 16 then m_len_codes s3 ! unat (m_counter s3 - 1) else 0) = x"
    proof (cases "c = 16")
      case True
      then have o: "out \<noteq> []" using e(3) by simp
      have "m_counter s3 - 1 = of_nat (length out - 1)" using l3(1) o by (simp add: lengths_read_def of_nat_diff Suc_le_eq)
      then have "unat (m_counter s3 - 1) = length out - 1" using out(2) by (simp only: small_word) (simp add: small_word)
      moreover have "m_len_codes s3 ! (length out - 1) = last out"
      proof -
        have "take (length out) (m_len_codes s3) = out" "length out - 1 < length out" using l3(1) o by (simp_all add: lengths_read_def)
        then have "m_len_codes s3 ! (length out - 1) = out ! (length out - 1)" by (metis nth_take)
        then show ?thesis using o by (simp add: last_conv_nth)
      qed
      ultimately show ?thesis using True l3(3) by (simp add: x_def)
    next
      case False
      then have "k \<noteq> 0" using k by simp
      then have "(of_nat c :: u32) \<noteq> 16" using uk by auto
      then show ?thesis using l3(3) False by (simp add: x_def)
    qed
    moreover have ube: "unat (of_nat e + of_nat b :: u32) = b + e" using small_word [of "e + b"] be by (simp add: add.commute)
    ultimately have "len_step flags s = here () (s3\<lparr>m_len_codes := codes, m_counter := m_counter s3 + (of_nat e + of_nat b)\<rparr>)"
      using s1(1) False lt ne uk rd(1,2) s3(1) l3(4) codes(1) by (simp add: len_step_def Let_def s2_def) blast
    then show ?thesis using codes(2) e(2) s3(2) l3(2)
      by (intro exI [of _ "s3\<lparr>m_len_codes := codes, m_counter := m_counter s3 + (of_nat e + of_nat b)\<rparr>"]) (simp add: ac_simps)
  qed
qed

lemma get_len_codes_result:
  assumes "table_for 19 sizes (m_tables s ! 2)" and "m_table_sizes s ! 0 + m_table_sizes s ! 1 = of_nat tot" and "tot \<le> 320"
    and "reads s bs" and "lengths_read out s" and "read_code_lengths sizes tot out bs = Some (res, rest)"
  shows "\<exists>s'. get_len_codes flags s = here () s' \<and> reads s' rest \<and> lengths_read res s' \<and> frame s' = frame s \<and> length res = tot"
  using assms
proof (induction "tot - length out" arbitrary: s bs out rule: less_induct)
  case less
  have le: "length out \<le> 457" using less.prems(5) by (simp add: lengths_read_def)
  have cmp: "m_counter s < m_table_sizes s ! 0 + m_table_sizes s ! 1 \<longleftrightarrow> length out < tot"
    unfolding less.prems(2) using less.prems(3,5) le small_less [of "length out" tot] by (simp add: lengths_read_def)
  show ?case
  proof (cases "tot \<le> length out")
    case True
    then have "length out = tot" "res = out" "rest = bs"
      using less.prems(6) by (simp_all add: read_code_lengths.simps [of sizes tot out bs] split: if_splits)
    then show ?thesis using less.prems True cmp by (simp add: get_len_codes_step)
  next
    case False
    obtain out1 bs1 where it: "read_length_item sizes out bs = Some (out1, bs1)" "read_code_lengths sizes tot out1 bs1 = Some (res, rest)"
      using less.prems(6) False by (auto simp: read_code_lengths.simps [of sizes tot out bs] split: option.splits)
    obtain s1 where s1: "len_step flags s = here () s1" "reads s1 bs1" "lengths_read out1 s1" "frame s1 = frame s"
      using len_step_result [OF less.prems(1,4,5) _ it(1)] False less.prems(3) by auto
    have "\<exists>s'. get_len_codes flags s1 = here () s' \<and> reads s' rest \<and> lengths_read res s' \<and> frame s' = frame s1 \<and> length res = tot"
      using less.prems(1-3) s1 it False read_length_item_grows [OF it(1)] frame_same(1,2) [OF s1(4)]
      by (intro less.hyps) simp_all
    then show ?thesis using False cmp s1(1,4) by (simp add: get_len_codes_step [of flags s])
  qed
qed

section \<open>The header of a dynamic block\<close>

lemma frame_set_code_size: "frame s' = frame s \<Longrightarrow> frame (set_code_size i z s') = frame (set_code_size i z s)"
  using frame_same(1) [of s' s] frame_cong(1) [of s' s] by (simp add: set_code_size_def)

lemma set_code_size_simps [simp]:
  "i < length (m_tables s) \<Longrightarrow> m_code_size (m_tables (set_code_size i z s) ! i) = z"
  "i \<noteq> j \<Longrightarrow> m_tables (set_code_size i z s) ! j = m_tables s ! j"
  "length (m_tables (set_code_size i z s)) = length (m_tables s)" "m_table_sizes (set_code_size i z s) = m_table_sizes s"
  "reads (set_code_size i z s) bs = reads s bs" "m_len_codes (set_code_size i z s) = m_len_codes s" "m_type (set_code_size i z s) = m_type s"
  "i < length (m_tables s) \<Longrightarrow> set_code_size i z (set_code_size i y s) = set_code_size i z s"
  "i < length (m_tables s) \<Longrightarrow> m_look_up (m_tables (set_code_size i z s) ! i) = m_look_up (m_tables s ! i)"
  "i < length (m_tables s) \<Longrightarrow> m_tree (m_tables (set_code_size i z s) ! i) = m_tree (m_tables s ! i)"
  by (simp_all add: set_code_size_def)

lemma set_code_size_same: "i < length (m_tables s) \<Longrightarrow> set_code_size i (m_code_size (m_tables s ! i)) s = s"
  by (simp add: set_code_size_def)

definition put_lengths :: "(nat \<times> nat) list \<Rightarrow> u8 list \<Rightarrow> u8 list" where
  "put_lengths = fold (\<lambda>(i, x) sizes. sizes[i := of_nat x])"

lemma put_lengths_simps [simp]: "put_lengths [] z = z" "put_lengths ((i, x) # ps) z = put_lengths ps (z[i := of_nat x])"
  by (simp_all add: put_lengths_def)

lemma length_put_lengths [simp]: "length (put_lengths ps z) = length z"
  by (simp add: put_lengths_def length_fold_lengths)

lemma take_put_lengths: "take n (put_lengths ps z) = put_lengths ps (take n z)"
  by (induction ps arbitrary: z) (auto simp: take_update_swap split: prod.splits)

lemma dezigzag: "s_length_dezigzag = length_order" "length length_order = 19" "set length_order \<subseteq> {..<19}"
  by (simp_all add: s_length_dezigzag_def length_order_def)

lemma get_length_sizes_result:
  assumes "read_lengths (length is) bs = Some (ls, rest)" and "reads s bs" and "set is \<subseteq> {..<19}"
    and "length (m_tables s) = 3" and "length (m_code_size (m_tables s ! 2)) = 288"
  shows "\<exists>s'. get_length_sizes flags is s = here () s' \<and> reads s' rest \<and>
    frame s' = frame (set_code_size 2 (put_lengths (zip (map ((!) length_order) is) ls) (m_code_size (m_tables s ! 2))) s) \<and> m_len_codes s' = m_len_codes s"
  using assms
proof (induction "is" arbitrary: s bs ls)
  case Nil
  then show ?case by (simp add: set_code_size_same)
next
  case (Cons i "is")
  obtain x bs1 xs where x: "read_bits 3 bs = Some (x, bs1)" "read_lengths (length is) bs1 = Some (xs, rest)" "ls = x # xs"
    using Cons.prems(1) by (auto simp: bind_eq_Some_conv)
  have "reads (s\<lparr>m_counter := of_nat i\<rparr>) bs" using Cons.prems(2) by simp
  from get_bits_result [OF this, of 3 x bs1 flags 14] x(1) obtain s1 where
    s1: "TINFL_GET_BITS flags 14 3 (s\<lparr>m_counter := of_nat i\<rparr>) = here (of_nat x) s1" "reads s1 bs1" "still s1 = still (s\<lparr>m_counter := of_nat i\<rparr>)"
    by auto
  have f1: "frame s1 = frame s" using still_frame [OF s1(3)] by simp
  have t1: "m_tables s1 = m_tables s" using frame_same(1) [OF f1] .
  have "i < 19" using Cons.prems(3) by simp
  then have "length_order ! i \<in> set length_order" using dezigzag(2) by simp
  then have k: "length_order ! i < 19" "read_at s_length_dezigzag i = Some (length_order ! i)"
    using dezigzag(3) \<open>i < 19\<close> by blast (simp add: read_at_def dezigzag \<open>i < 19\<close>)
  have "x < 2 ^ 3" using read_bits_bound [OF x(1)] .
  then have ub: "ucast (of_nat x :: u32) = (of_nat x :: u8)" by (simp add: small_byte)
  let ?z = "(m_code_size (m_tables s ! 2))[length_order ! i := of_nat x]"
  let ?s = "set_code_size 2 ?z s1"
  have w: "write_at (m_code_size (m_tables s1 ! 2)) (length_order ! i) (ucast (of_nat x :: u32)) = Some ?z"
    using k(1) Cons.prems(5) ub t1 by (simp add: write_at_def)
  have c: "m_code_size (m_tables ?s ! 2) = ?z" using t1 Cons.prems(4) by simp
  obtain s' where s': "get_length_sizes flags is ?s = here () s'" "reads s' rest"
    "frame s' = frame (set_code_size 2 (put_lengths (zip (map ((!) length_order) is) xs) ?z) ?s)" "m_len_codes s' = m_len_codes s"
    using Cons.IH [OF x(2), of ?s] s1(2) Cons.prems(3-5) t1 still_same(9) [OF s1(3)] unfolding c by auto
  have "frame s' = frame (set_code_size 2 (put_lengths (zip (map ((!) length_order) is) xs) ?z) s)"
    unfolding s'(3) frame_set_code_size [OF f1, symmetric] using t1 Cons.prems(4) by simp
  moreover have "get_length_sizes flags (i # is) s = here () s'"
    unfolding get_length_sizes.simps s1(1) go_on_simps k(2) w Option.bind.simps s'(1) ..
  ultimately show ?case using s'(2,4) unfolding x(3) list.map zip_Cons_Cons put_lengths_simps by blast
qed

lemma get_table_sizes_result:
  assumes "reads s bs" and "read_bits 5 bs = Some (a, bs1)" and "read_bits 5 bs1 = Some (b, bs2)" and "read_bits 4 bs2 = Some (c, bs3)"
    and "length (m_table_sizes s) = 3"
  shows "\<exists>s'. get_table_sizes flags [0, 1, 2] s = here () s' \<and> reads s' bs3 \<and>
    frame s' = frame (s\<lparr>m_table_sizes := [of_nat (a + 257), of_nat (b + 1), of_nat (c + 4)]\<rparr>) \<and> m_len_codes s' = m_len_codes s"
proof -
  have "reads (s\<lparr>m_counter := of_nat 0\<rparr>) bs" using assms(1) by simp
  from get_bits_result [OF this, of 5 a bs1 flags 11] assms(2) obtain s1 where
    s1: "TINFL_GET_BITS flags 11 5 (s\<lparr>m_counter := of_nat 0\<rparr>) = here (of_nat a) s1" "reads s1 bs1" "still s1 = still (s\<lparr>m_counter := of_nat 0\<rparr>)" by auto
  define r1 where "r1 = s1\<lparr>m_table_sizes := (m_table_sizes s1)[0 := of_nat a + 257]\<rparr>"
  have r1: "reads r1 bs1" "m_table_sizes r1 = (m_table_sizes s)[0 := of_nat a + 257]" "frame r1 = frame (s\<lparr>m_table_sizes := (m_table_sizes s)[0 := of_nat a + 257]\<rparr>)"
    using s1(2) still_same(8) [OF s1(3)] frame_cong(2) [OF still_frame [OF s1(3)]] by (simp_all add: r1_def) (simp add: frame_def)
  have "reads (r1\<lparr>m_counter := of_nat 1\<rparr>) bs1" using r1(1) by simp
  from get_bits_result [OF this, of 5 b bs2 flags 11] assms(3) obtain s2 where
    s2: "TINFL_GET_BITS flags 11 5 (r1\<lparr>m_counter := of_nat 1\<rparr>) = here (of_nat b) s2" "reads s2 bs2" "still s2 = still (r1\<lparr>m_counter := of_nat 1\<rparr>)" by auto
  define r2 where "r2 = s2\<lparr>m_table_sizes := (m_table_sizes s2)[1 := of_nat b + 1]\<rparr>"
  have r2: "reads r2 bs2" "m_table_sizes r2 = (m_table_sizes s)[0 := of_nat a + 257, 1 := of_nat b + 1]"
    "frame r2 = frame (r1\<lparr>m_table_sizes := (m_table_sizes s)[0 := of_nat a + 257, 1 := of_nat b + 1]\<rparr>)"
    using s2(2) r1(2) still_same(8) [OF s2(3)] frame_cong(2) [OF still_frame [OF s2(3)]] by (simp_all add: r2_def) (simp add: frame_def)
  have "reads (r2\<lparr>m_counter := of_nat 2\<rparr>) bs2" using r2(1) by simp
  from get_bits_result [OF this, of 4 c bs3 flags 11] assms(4) obtain s3 where
    s3: "TINFL_GET_BITS flags 11 4 (r2\<lparr>m_counter := of_nat 2\<rparr>) = here (of_nat c) s3" "reads s3 bs3" "still s3 = still (r2\<lparr>m_counter := of_nat 2\<rparr>)" by auto
  obtain x y z where t: "m_table_sizes s = [x, y, z]" using assms(5) by (auto simp: numeral_3_eq_3 length_Suc_conv)
  let ?T = "[of_nat a + 257, of_nat b + 1, of_nat c + 4] :: u32 list"
  define r3 where "r3 = s3\<lparr>m_table_sizes := ?T, m_counter := 3\<rparr>"
  have "m_table_sizes s3 = [of_nat a + 257, of_nat b + 1, z]" using still_same(8) [OF s3(3)] r2(2) t by simp
  then have "get_table_sizes flags [0, 1, 2] s = here () r3"
    using s1(1) s2(1) s3(1) by (simp add: r1_def r2_def r3_def s_min_table_sizes_def)
  moreover have "frame r3 = frame (s\<lparr>m_table_sizes := ?T\<rparr>)"
  proof -
    have "frame r3 = frame (s3\<lparr>m_table_sizes := ?T\<rparr>)" by (simp add: r3_def)
    also have "\<dots> = frame (r2\<lparr>m_table_sizes := ?T\<rparr>)" using frame_cong(2) [OF still_frame [OF s3(3)]] by (simp add: frame_def)
    also have "\<dots> = frame (s\<lparr>m_table_sizes := ?T\<rparr>)" using frame_cong(2) [OF r2(3), of ?T] frame_cong(2) [OF r1(3), of ?T] by simp
    finally show ?thesis .
  qed
  moreover have "reads r3 bs3" using s3(2) by (simp add: r3_def)
  moreover have "m_len_codes r3 = m_len_codes s"
    using still_same(9) [OF s3(3)] still_same(9) [OF s2(3)] still_same(9) [OF s1(3)] by (simp add: r1_def r2_def r3_def)
  ultimately show ?thesis by (intro exI [of _ r3]) (simp add: add.commute)
qed

lemma length_read_lengths: "read_lengths n bs = Some (ls, rest) \<Longrightarrow> length ls = n"
  by (induction n arbitrary: bs ls) (auto simp: bind_eq_Some_conv)

lemma dynamic_sizes_result:
  assumes a: "arrays s" and r: "reads s bs" and h: "read_bits 5 bs = Some (hlit, bs1)" "read_bits 5 bs1 = Some (hdist, bs2)"
    "read_bits 4 bs2 = Some (hclen, bs3)" "read_lengths (hclen + 4) bs3 = Some (ls, bs4)"
  shows "\<exists>s'. dynamic_sizes flags s = here () s' \<and> reads s' bs4 \<and>
    frame s' = frame ((set_code_size 2 (put_lengths (zip length_order ls) (replicate 288 0)) s)\<lparr>m_table_sizes := [of_nat (hlit + 257), of_nat (hdist + 1), 19]\<rparr>) \<and> m_len_codes s' = m_len_codes s"
proof -
  have len: "length (m_table_sizes s) = 3" "length (m_tables s) = 3" "length (m_code_size (m_tables s ! 2)) = 288"
    using a by (auto simp: arrays_def table_arrays_def)
  let ?n = "hclen + 4"
  have "hclen < 2 ^ 4" using read_bits_bound [OF h(3)] .
  then have n: "?n \<le> 19" by simp
  obtain s1 where s1: "get_table_sizes flags [0, 1, 2] s = here () s1" "reads s1 bs3"
    "frame s1 = frame (s\<lparr>m_table_sizes := [of_nat (hlit + 257), of_nat (hdist + 1), of_nat ?n]\<rparr>)" "m_len_codes s1 = m_len_codes s"
    using get_table_sizes_result [OF r h(1-3) len(1)] by blast
  have t1: "m_tables s1 = m_tables s" "m_table_sizes s1 = [of_nat (hlit + 257), of_nat (hdist + 1), of_nat ?n]"
    using frame_same(1,2) [OF s1(3)] by simp_all
  have un: "unat (of_nat ?n :: u32) = ?n" using n by (intro small_word) simp
  define s2 where "s2 = set_code_size 2 (replicate 288 0) s1"
  have s2: "reads s2 bs3" "length (m_tables s2) = 3" "m_code_size (m_tables s2 ! 2) = replicate 288 0" "length (m_code_size (m_tables s2 ! 2)) = 288"
    using s1(2) t1 len by (simp_all add: s2_def)
  have "read_lengths (length [0..<?n]) bs3 = Some (ls, bs4)" "set [0..<?n] \<subseteq> {..<19}" using h(4) n by auto
  from get_length_sizes_result [OF this(1) s2(1) this(2) s2(2,4)] obtain s3 where
    s3: "get_length_sizes flags [0..<?n] s2 = here () s3" "reads s3 bs4"
    "frame s3 = frame (set_code_size 2 (put_lengths (zip (map ((!) length_order) [0..<?n]) ls) (replicate 288 0)) s2)" "m_len_codes s3 = m_len_codes s2"
    unfolding s2(3) by blast
  have z: "zip (map ((!) length_order) [0..<?n]) ls = zip length_order ls"
    using length_read_lengths [OF h(4)] n dezigzag(2) by (intro nth_equalityI) simp_all
  let ?z = "put_lengths (zip length_order ls) (replicate 288 0)"
  have f3: "frame s3 = frame (set_code_size 2 ?z s1)" unfolding s3(3) z using t1 len by (simp add: s2_def)
  then have "m_table_sizes s3 = m_table_sizes s1" using frame_same(2) [OF f3] by simp
  then have d: "dynamic_sizes flags s = here () (s3\<lparr>m_table_sizes := [of_nat (hlit + 257), of_nat (hdist + 1), 19]\<rparr>)"
    using s1(1) s3(1) t1 len un by (simp add: dynamic_sizes_def s2_def)
  let ?T = "[of_nat (hlit + 257), of_nat (hdist + 1), 19] :: u32 list"
  have "frame (s3\<lparr>m_table_sizes := ?T\<rparr>) = frame ((set_code_size 2 ?z s1)\<lparr>m_table_sizes := ?T\<rparr>)" by (rule frame_cong(2) [OF f3])
  also have "\<dots> = frame ((set_code_size 2 ?z (s\<lparr>m_table_sizes := [of_nat (hlit + 257), of_nat (hdist + 1), of_nat ?n]\<rparr>))\<lparr>m_table_sizes := ?T\<rparr>)"
    by (rule frame_cong(2) [OF frame_set_code_size [OF s1(3)]])
  also have "\<dots> = frame ((set_code_size 2 ?z s)\<lparr>m_table_sizes := ?T\<rparr>)" by (simp add: set_code_size_def)
  finally show ?thesis using d s3(2,4) s1(4) by (intro exI [of _ "s3\<lparr>m_table_sizes := ?T\<rparr>"]) (simp add: s2_def)
qed

section \<open>Making the tables\<close>

text \<open>What a block keeps of the state before its tables are made.\<close>

definition outer :: "tinfl_run \<Rightarrow> tinfl_run" where
  "outer s = s\<lparr>m_bit_buf := 0, m_num_bits := 0, pIn_buf_cur := [], m_counter := 0, m_num_extra := 0, m_dist := 0, m_len_codes := [],
     m_tables := [], m_table_sizes := [], m_type := 0\<rparr>"

lemma outer_update [simp]:
  "outer (s\<lparr>m_tables := t\<rparr>) = outer s" "outer (s\<lparr>m_table_sizes := ws\<rparr>) = outer s" "outer (s\<lparr>m_type := w\<rparr>) = outer s"
  "outer (set_code_size i z s) = outer s" "outer (set_code_sizes i z s) = outer s" "outer (s\<lparr>m_counter := a\<rparr>) = outer s"
  by (simp_all add: outer_def set_code_size_def set_code_sizes_def)

lemma frame_outer: "frame s' = frame s \<Longrightarrow> outer s' = outer s"
proof -
  have "outer s = outer (frame s)" for s by (simp add: outer_def frame_def)
  then show "frame s' = frame s \<Longrightarrow> outer s' = outer s" by metis
qed

lemma outer_same:
  assumes "outer s' = outer s"
  shows "m_final s' = m_final s" "m_raw_header s' = m_raw_header s" "pOut_buf s' = pOut_buf s" "pOut_buf_cur s' = pOut_buf_cur s"
    "m_z_adler32 s' = m_z_adler32 s" "m_check_adler32 s' = m_check_adler32 s"
proof -
  have "m_final (outer s) = m_final s" "m_raw_header (outer s) = m_raw_header s" "pOut_buf (outer s) = pOut_buf s"
    "pOut_buf_cur (outer s) = pOut_buf_cur s" "m_z_adler32 (outer s) = m_z_adler32 s" "m_check_adler32 (outer s) = m_check_adler32 s" for s
    by (simp_all add: outer_def)
  then show "m_final s' = m_final s" "m_raw_header s' = m_raw_header s" "pOut_buf s' = pOut_buf s" "pOut_buf_cur s' = pOut_buf_cur s"
    "m_z_adler32 s' = m_z_adler32 s" "m_check_adler32 s' = m_check_adler32 s"
    using assms by metis+
qed

text \<open>One table whose lengths are there.\<close>

lemma built_table:
  assumes "arrays s" and "i < 3" and "unat (m_table_sizes s ! i) = n" and "n \<le> 288"
    and xs: "take n (m_code_size (m_tables s ! i)) = xs" and full: "full_code xs"
  shows "\<exists>t'. build_table n (m_tables s ! i) = Some (True, t') \<and> holds_codes xs t' \<and> m_code_size t' = m_code_size (m_tables s ! i) \<and>
    arrays (s\<lparr>m_tables := (m_tables s)[i := t']\<rparr>)"
proof -
  have "table_arrays 288 (m_tables s ! i)" using assms(1,2) by (simp add: arrays_def)
  moreover have "\<forall>x \<in> set xs. unat x \<le> 15" using full by (simp add: full_code_def)
  ultimately obtain t' where t: "build_table n (m_tables s ! i) = Some (True, t')" "holds_codes xs t'"
    "m_code_size t' = m_code_size (m_tables s ! i)" "table_arrays 288 t'"
    using build_table_result [of 288 "m_tables s ! i" n] assms(4) full unfolding xs by auto
  have "table_arrays 288 ((m_tables s)[i := t'] ! j)" if "j < 3" for j
    using assms(1) t(4) that by (cases "j = i") (simp_all add: arrays_def)
  then show ?thesis using t assms(1) by (auto simp: arrays_def)
qed

lemma make_table_result:
  assumes "arrays s" and "i < 2" and "unat (m_table_sizes s ! i) = n" and "n \<le> 288" and "reads s bs"
    and xs: "take n (m_code_size (m_tables s ! i)) = xs" and full: "full_code xs"
  shows "\<exists>s' t'. make_table flags i s = here () s' \<and> holds_codes xs t' \<and> reads s' bs \<and> arrays s' \<and> outer s' = outer s \<and>
    m_tables s' = (m_tables s)[i := t'] \<and> m_table_sizes s' = m_table_sizes s"
proof -
  obtain t' where t: "build_table n (m_tables s ! i) = Some (True, t')" "holds_codes xs t'"
    "arrays (s\<lparr>m_tables := (m_tables s)[i := t']\<rparr>)"
    using built_table [OF assms(1) _ assms(3,4) xs full] assms(2) by auto
  let ?s = "s\<lparr>m_tables := (m_tables s)[i := t'], m_type := m_type s - 1\<rparr>"
  have "make_table flags i s = here () ?s" using t(1) assms(2,3) by (simp add: make_table_def)
  moreover have "arrays ?s" using t(3) by (simp add: arrays_def)
  ultimately show ?thesis using t(2) assms(5) by (intro exI [of _ ?s] exI [of _ t']) simp
qed

text \<open>The two tables of a block.\<close>

lemma two_tables:
  assumes a: "arrays s" and r: "reads s bs" and n: "unat (m_table_sizes s ! 0) = n0" "unat (m_table_sizes s ! 1) = n1" "n0 \<le> 288" "n1 \<le> 32"
    and xs: "take n0 (m_code_size (m_tables s ! 0)) = xs" "take n1 (m_code_size (m_tables s ! 1)) = ys" and full: "full_code xs" "full_code ys"
  shows "\<exists>s'. make_tables flags 1 s = here () s' \<and> reads s' bs \<and> arrays s' \<and> outer s' = outer s \<and>
    table_for 288 (pad_lengths 288 xs) (m_tables s' ! 0) \<and> table_for 32 (pad_lengths 32 ys) (m_tables s' ! 1)"
proof -
  have len: "length (m_tables s) = 3" using a by (simp add: arrays_def)
  obtain s1 t1 where s1: "make_table flags 1 s = here () s1" "holds_codes ys t1" "reads s1 bs" "arrays s1" "outer s1 = outer s"
    "m_tables s1 = (m_tables s)[1 := t1]" "m_table_sizes s1 = m_table_sizes s"
    using make_table_result [OF a _ n(2) _ r xs(2) full(2), of flags] n(4) by auto
  have "unat (m_table_sizes s1 ! 0) = n0" "take n0 (m_code_size (m_tables s1 ! 0)) = xs" using s1(6,7) n(1) xs(1) by simp_all
  from make_table_result [OF s1(4) _ this(1) n(3) s1(3) this(2) full(1), of flags] obtain s2 t2 where
    s2: "make_table flags 0 s1 = here () s2" "holds_codes xs t2" "reads s2 bs" "arrays s2" "outer s2 = outer s1" "m_tables s2 = (m_tables s1)[0 := t2]"
    by auto
  have "make_tables flags 1 s = here () s2" using s1(1) s2(1) by simp
  moreover have "m_tables s2 ! 0 = t2" "m_tables s2 ! 1 = t1" using s2(6) s1(6) len by simp_all
  moreover have "table_for 288 (pad_lengths 288 xs) t2"
    using s2(2) unfolding table_for_def by (intro exI [of _ xs]) (simp add: holds_codes_def)
  moreover have "length ys \<le> 32" using xs(2) n(4) by auto
  then have "table_for 32 (pad_lengths 32 ys) t1" using s1(2) unfolding table_for_def by (intro exI [of _ ys]) simp
  ultimately show ?thesis using s2(3,4,5) s1(5) by auto
qed

section \<open>The two kinds of tables\<close>

lemma fixed_full: "full_code fixed_lit_sizes" "full_code (replicate 32 5)"
  by (simp_all add: full_code_def kraft_def fixed_lit_sizes_def sum_list_replicate)

lemma fixed_tables:
  assumes a: "arrays s" and r: "reads s bs"
  shows "\<exists>s'. make_tables flags 1 (fixed_sizes s) = here () s' \<and> reads s' bs \<and> arrays s' \<and> outer s' = outer s \<and>
    table_for 288 fixed_lit_sizes (m_tables s' ! 0) \<and> table_for 32 (replicate 32 5) (m_tables s' ! 1)"
proof -
  let ?s = "fixed_sizes s"
  have len: "length (m_tables s) = 3" "length (m_code_size (m_tables s ! 0)) = 288" "length (m_code_size (m_tables s ! 1)) = 288" "length (m_table_sizes s) = 3"
    using a by (auto simp: arrays_def table_arrays_def)
  have "length fixed_lit_sizes = 288" by (simp add: fixed_lit_sizes_def)
  have e: "?s = set_code_size 0 fixed_lit_sizes (set_code_size 1 (replicate 32 5 @ drop 32 (m_code_size (m_tables s ! 1))) (s\<lparr>m_table_sizes := (m_table_sizes s)[0 := 288, 1 := 32]\<rparr>))"
    using len by (simp add: fixed_sizes_def set_code_sizes_def Let_def fixed_lit_sizes_def)
  have "arrays ?s" using a len \<open>length fixed_lit_sizes = 288\<close> unfolding e
    by (auto simp: arrays_def table_arrays_def set_code_size_def nth_list_update)
  moreover have "reads ?s bs" using r unfolding e by simp
  moreover have "unat (m_table_sizes ?s ! 0) = 288" "unat (m_table_sizes ?s ! 1) = 32" unfolding e using len by simp_all
  moreover have "take 288 (m_code_size (m_tables ?s ! 0)) = fixed_lit_sizes" unfolding e using len \<open>length fixed_lit_sizes = 288\<close> by simp
  moreover have "take 32 (m_code_size (m_tables ?s ! 1)) = replicate 32 5" unfolding e using len by simp
  ultimately obtain s' where "make_tables flags 1 ?s = here () s'" "reads s' bs" "arrays s'" "outer s' = outer ?s"
    "table_for 288 (pad_lengths 288 fixed_lit_sizes) (m_tables s' ! 0)" "table_for 32 (pad_lengths 32 (replicate 32 5)) (m_tables s' ! 1)"
    using two_tables [OF _ _ _ _ _ _ _ _ fixed_full] by (metis order_refl)
  moreover have "outer ?s = outer s" unfolding e by simp
  moreover have "pad_lengths 288 fixed_lit_sizes = fixed_lit_sizes" using \<open>length fixed_lit_sizes = 288\<close> by (simp add: pad_lengths_def)
  ultimately show ?thesis by (auto simp: pad_lengths_def)
qed

lemma read_dynamic_headerD:
  assumes "read_dynamic_header bs = Some (lit, dist, rest)"
  obtains hlit bs1 hdist bs2 hclen bs3 ls bs4 out where "read_bits 5 bs = Some (hlit, bs1)" and "read_bits 5 bs1 = Some (hdist, bs2)"
    and "read_bits 4 bs2 = Some (hclen, bs3)" and "read_lengths (hclen + 4) bs3 = Some (ls, bs4)"
    and "full_code (put_lengths (zip length_order ls) (replicate 19 0))"
    and "read_code_lengths (put_lengths (zip length_order ls) (replicate 19 0)) (hlit + 257 + (hdist + 1)) [] bs4 = Some (out, rest)"
    and "full_code (take (hlit + 257) out)" and "full_code (drop (hlit + 257) out)"
    and "lit = pad_lengths 288 (take (hlit + 257) out)" and "dist = pad_lengths 32 (drop (hlit + 257) out)"
  using assms unfolding read_dynamic_header_def put_lengths_def [symmetric] Let_def
  by (auto simp: bind_eq_Some_conv simp del: add_Suc_right split: if_splits)

lemma set_code_sizes_result:
  assumes "arrays s" and "i < 3" and "length xs \<le> 288"
  shows "arrays (set_code_sizes i xs s)" and "take (length xs) (m_code_size (m_tables (set_code_sizes i xs s) ! i)) = xs"
    and "j \<noteq> i \<Longrightarrow> m_tables (set_code_sizes i xs s) ! j = m_tables s ! j" and "m_table_sizes (set_code_sizes i xs s) = m_table_sizes s"
    and "reads (set_code_sizes i xs s) bs = reads s bs" and "m_len_codes (set_code_sizes i xs s) = m_len_codes s"
  using assms by (auto simp: set_code_sizes_def set_code_size_def arrays_def table_arrays_def nth_list_update)

lemma get_code_lengths_result:
  assumes a: "arrays s" and r: "reads s bs" and h: "table_for 19 sizes (m_tables s ! 2)"
    and ts: "m_table_sizes s ! 0 = of_nat n" "m_table_sizes s ! 1 = of_nat m" and nm: "n \<le> 288" "m \<le> 32"
    and rd: "read_code_lengths sizes (n + m) [] bs = Some (out, rest)"
  shows "\<exists>s'. get_code_lengths flags s = here () s' \<and> reads s' rest \<and> arrays s' \<and> outer s' = outer s \<and> m_table_sizes s' = m_table_sizes s \<and>
    take n (m_code_size (m_tables s' ! 0)) = take n out \<and> take m (m_code_size (m_tables s' ! 1)) = drop n out"
proof -
  have "m_table_sizes (s\<lparr>m_counter := 0\<rparr>) ! 0 + m_table_sizes (s\<lparr>m_counter := 0\<rparr>) ! 1 = of_nat (n + m)" using ts by simp
  moreover have "lengths_read [] (s\<lparr>m_counter := 0\<rparr>)" using a by (simp add: lengths_read_def arrays_def)
  ultimately obtain s1 where s1: "get_len_codes flags (s\<lparr>m_counter := 0\<rparr>) = here () s1" "reads s1 rest" "lengths_read out s1"
    "frame s1 = frame (s\<lparr>m_counter := 0\<rparr>)" "length out = n + m"
    using get_len_codes_result [of sizes "s\<lparr>m_counter := 0\<rparr>" "n + m" bs "[]" out rest flags] h nm r rd by auto
  have f1: "frame s1 = frame s" using s1(4) by simp
  have t1: "m_table_sizes s1 = m_table_sizes s" "m_tables s1 = m_tables s" using frame_same(1,2) [OF f1] by simp_all
  have a1: "arrays s1" using a s1(3) t1 frame_same(5) [OF f1] by (simp add: arrays_def lengths_read_def)
  have u: "unat (of_nat n :: u32) = n" "unat (of_nat m :: u32) = m" using nm by (simp_all add: small_word)
  have c: "take (n + m) (m_len_codes s1) = out" using s1(3,5) by (simp add: lengths_read_def)
  have x: "take n (m_len_codes s1) = take n out" using c by (metis min.absorb1 le_add1 take_take)
  have y: "take m (drop n (m_len_codes s1)) = drop n out" using c by (metis add.commute take_drop)
  have m_cnt: "m_counter s1 = of_nat (n + m)" using s1(3,5) by (simp add: lengths_read_def)
  let ?s2 = "set_code_sizes 0 (take n out) s1"
  let ?s3 = "set_code_sizes 1 (drop n out) ?s2"
  have g: "get_code_lengths flags s = here () ?s3"
    unfolding get_code_lengths_def s1(1) go_on_simps Let_def t1(1) ts u x y m_cnt by simp
  have l: "length (take n out) = n" "length (drop n out) = m" using s1(5) by simp_all
  note p = set_code_sizes_result [OF a1, of 0 "take n out"] set_code_sizes_result [of ?s2 1 "drop n out"]
  have "arrays ?s2" using p(1) nm l by simp
  then show ?thesis using g p l nm s1(2) t1 frame_outer [OF f1] by (intro exI [of _ ?s3]) simp
qed

lemma dynamic_block_tables_result:
  assumes a: "arrays s" and r: "reads s bs" and hdr: "read_dynamic_header bs = Some (lit, dist, rest)" and ty: "m_type s = 2"
  shows "\<exists>s1 s'. dynamic_sizes flags s = here () s1 \<and> m_type s1 = 2 \<and> make_tables flags 2 s1 = here () s' \<and> reads s' rest \<and> arrays s' \<and>
    outer s' = outer s \<and> table_for 288 lit (m_tables s' ! 0) \<and> table_for 32 dist (m_tables s' ! 1)"
proof -
  obtain hlit bs1 hdist bs2 hclen bs3 ls bs4 out where h: "read_bits 5 bs = Some (hlit, bs1)" "read_bits 5 bs1 = Some (hdist, bs2)"
    "read_bits 4 bs2 = Some (hclen, bs3)" "read_lengths (hclen + 4) bs3 = Some (ls, bs4)"
    "full_code (put_lengths (zip length_order ls) (replicate 19 0))"
    "read_code_lengths (put_lengths (zip length_order ls) (replicate 19 0)) (hlit + 257 + (hdist + 1)) [] bs4 = Some (out, rest)"
    "full_code (take (hlit + 257) out)" "full_code (drop (hlit + 257) out)"
    "lit = pad_lengths 288 (take (hlit + 257) out)" "dist = pad_lengths 32 (drop (hlit + 257) out)"
    using read_dynamic_headerD [OF hdr] .
  define n m where "n = hlit + 257" and "m = hdist + 1"
  note h = h [folded n_def m_def]
  have nm: "n \<le> 288" "m \<le> 32" using read_bits_bound [OF h(1)] read_bits_bound [OF h(2)] by (simp_all add: n_def m_def)
  define sizes where "sizes = put_lengths (zip length_order ls) (replicate 19 (0 :: u8))"
  define S where "S = (set_code_size 2 (put_lengths (zip length_order ls) (replicate 288 0)) s)\<lparr>m_table_sizes := [of_nat n, of_nat m, 19]\<rparr>"
  obtain s1 where s1: "dynamic_sizes flags s = here () s1" "reads s1 bs4" "frame s1 = frame S" "m_len_codes s1 = m_len_codes s"
    using dynamic_sizes_result [OF a r h(1-4), of flags] unfolding S_def n_def m_def by blast
  have len: "length (m_tables s) = 3" using a by (simp add: arrays_def)
  have t1: "m_tables s1 = m_tables S" "m_table_sizes s1 = [of_nat n, of_nat m, 19]" "m_type s1 = 2"
    using frame_same(1,2,3) [OF s1(3)] ty by (simp_all add: S_def)
  have "arrays s1" using a s1(4) frame_same(5) [OF s1(3)] t1(1,2)
    by (auto simp: arrays_def table_arrays_def S_def set_code_size_def nth_list_update)
  moreover have "unat (m_table_sizes s1 ! 2) = 19" using t1(2) by simp
  moreover have "take 19 (m_code_size (m_tables s1 ! 2)) = sizes"
    unfolding t1(1) using len by (simp add: S_def sizes_def take_put_lengths)
  ultimately obtain t2 where t2: "build_table 19 (m_tables s1 ! 2) = Some (True, t2)" "holds_codes sizes t2"
    "arrays (s1\<lparr>m_tables := (m_tables s1)[2 := t2]\<rparr>)"
    using built_table [of s1 2 19 sizes] h(5) unfolding sizes_def [symmetric] by auto
  define s2 where "s2 = s1\<lparr>m_tables := (m_tables s1)[2 := t2]\<rparr>"
  have s2: "arrays s2" "reads s2 bs4" "m_table_sizes s2 = [of_nat n, of_nat m, 19]" "outer s2 = outer s"
    using t2(3) s1(2) t1(2) frame_outer [OF s1(3)] by (simp_all add: s2_def S_def)
  have "length sizes = 19" by (simp add: sizes_def)
  then have "table_for 19 sizes t2" using t2(2) unfolding table_for_def by (intro exI [of _ sizes]) (simp add: pad_lengths_def)
  moreover have "m_tables s2 ! 2 = t2" using t1(1) len by (simp add: s2_def S_def)
  ultimately have "table_for 19 sizes (m_tables s2 ! 2)" by simp
  from get_code_lengths_result [OF s2(1,2) this _ _ nm h(6) [folded sizes_def], of flags] obtain s3 where
    s3: "get_code_lengths flags s2 = here () s3" "reads s3 rest" "arrays s3" "outer s3 = outer s2" "m_table_sizes s3 = m_table_sizes s2"
    "take n (m_code_size (m_tables s3 ! 0)) = take n out" "take m (m_code_size (m_tables s3 ! 1)) = drop n out"
    using s2(3) by auto
  have mt: "make_table flags 2 s1 = here () (s3\<lparr>m_type := m_type s3 - 1\<rparr>)"
    using t2(1) s3(1) t1(2) by (simp add: make_table_def s2_def [symmetric])
  have "arrays (s3\<lparr>m_type := m_type s3 - 1\<rparr>)" using s3(3) by (simp add: arrays_def)
  moreover have "unat (m_table_sizes s3 ! 0) = n" "unat (m_table_sizes s3 ! 1) = m" using s3(5) s2(3) nm by (simp_all add: small_word)
  ultimately obtain s' where s': "make_tables flags 1 (s3\<lparr>m_type := m_type s3 - 1\<rparr>) = here () s'" "reads s' rest" "arrays s'" "outer s' = outer s3"
    "table_for 288 lit (m_tables s' ! 0)" "table_for 32 dist (m_tables s' ! 1)"
    using two_tables [of "s3\<lparr>m_type := m_type s3 - 1\<rparr>" rest n m "take n out" "drop n out" flags] s3 nm h(7-10) by auto
  have "make_tables flags 2 s1 = make_tables flags 1 (s3\<lparr>m_type := m_type s3 - 1\<rparr>)" using mt by (simp add: numeral_2_eq_2)
  then show ?thesis using s1(1) t1(3) s' s3(4) s2(4) by auto
qed

end
