(* ===== verification/Mz_Run.thy ===== *)
theory Mz_Run
  imports Mz_Send
begin

unbundle bit_operations_syntax

text \<open>
  The compressor as a whole (\<open>proj/sparc-prog/miniz.c\<close>): from \<open>tdefl_init\<close> through
  \<open>tdefl_compress_normal\<close> to the last block, what a callback gets is a stream that stands for the
  input.
\<close>

section \<open>A block of the stream\<close>

lemma item_len_258: "item_ok i \<Longrightarrow> item_len i \<le> 258"
  by (cases i) (simp_all add: item_len_def)

lemma block_state_ready:
  assumes p: "parsed items (take B data) data P l" and q: "B + pending l \<le> P"
    and c: "m_huff_count c = m_huff_count (coder l)" "huff_arrays c"
    and b: "take p buf = lz_bytes items" "p \<le> length buf" "length buf = TDEFL_LZ_CODE_BUF_SIZE"
  shows "block_state items data B (P - pending l) P (l\<lparr>m_lz_code_buf := buf, m_pLZ_code_buf := p, coder := c\<rparr>)"
proof -
  let ?l = "l\<lparr>m_lz_code_buf := buf, m_pLZ_code_buf := p, coder := c\<rparr>"
  have L: "window P data l" "lz_ok items l" "expand items (take B data) = Some (take (P - pending l) data)"
    using p by (simp_all add: parsed_def stands_for_def)
  have "lz_counted items ?l" using L(2) c by (simp add: lz_ok_def lz_counted_def)
  then have "block_ready items ?l" using L(2) b by (simp add: block_ready_def lz_ok_def)
  moreover have "window P data ?l" using L(1) by (simp add: window_def filling_def dict_holds_def lz_arrays_def)
  moreover have n: "P - pending l - B = sum_list (map item_len items)"
    using expand_length [OF L(3)] L(1) q by (simp add: window_def filling_def)
  moreover have "P - pending l - B < 2 ^ 31"
  proof -
    have "sum_list (map item_len items) \<le> sum_list (map (\<lambda>_. 258) items)"
      using L(2) item_len_258 by (intro sum_list_mono) (simp add: lz_ok_def)
    also have "\<dots> = length items * 258" by (simp add: sum_list_const_mult sum_list_triv)
    also have "length items \<le> 65536"
      using length_lz_bytes [of items] b unfolding TDEFL_LZ_CODE_BUF_SIZE_def by (metis dual_order.trans length_take min.absorb2)
    finally show ?thesis using n by simp
  qed
  moreover have "m_total_lz_bytes ?l = of_nat (P - pending l - B)" using L(2) n by (simp add: lz_ok_def)
  moreover have "P \<le> P - pending l + 1" unfolding pending_def by (cases P) simp_all
  ultimately show ?thesis using L(3) b(3) q by (simp add: block_state_def)
qed

lemma reset_parsed:
  assumes p: "parsed items (take B data) data P l" and c: "huff_arrays c" and b: "length buf = TDEFL_LZ_CODE_BUF_SIZE"
  shows "parsed [] (take (P - pending l) data) data P (reset_lz (l\<lparr>m_lz_code_buf := buf, m_pLZ_code_buf := p', coder := c\<rparr>))"
    and "pending (reset_lz (l\<lparr>m_lz_code_buf := buf, m_pLZ_code_buf := p', coder := c\<rparr>)) = pending l"
proof -
  let ?l = "reset_lz (l\<lparr>m_lz_code_buf := buf, m_pLZ_code_buf := p', coder := c\<rparr>)"
  have f: "m_lookahead_pos ?l = m_lookahead_pos l" "m_lookahead_size ?l = m_lookahead_size l" "m_dict_size ?l = m_dict_size l"
    "m_dict ?l = m_dict l" "m_next ?l = m_next l" "m_hash ?l = m_hash l" "m_max_probes ?l = m_max_probes l"
    "m_saved_match_len ?l = m_saved_match_len l" "m_saved_match_dist ?l = m_saved_match_dist l" "m_saved_lit ?l = m_saved_lit l"
    by (simp_all add: reset_lz_def Let_def)
  show e: "pending ?l = pending l" by (simp add: pending_def f)
  have "lz_ok [] ?l" using c b by (intro reset_lz_ok) simp_all
  moreover have "window P data ?l"
    using p by (simp add: parsed_def window_def filling_def dict_holds_def lz_arrays_def f)
  moreover have "saved_ok data P ?l" using p unfolding parsed_def saved_ok_def f by blast
  ultimately show "parsed [] (take (P - pending l) data) data P ?l"
    by (simp add: parsed_def e stands_for_def)
qed

text \<open>The coder as \<open>tdefl_flush_block\<close> starts it.\<close>

definition fresh_output :: "tdefl_compressor \<Rightarrow> tdefl_compressor" where
  "fresh_output c = c\<lparr>m_output := [], m_output_room := TDEFL_OUT_BUF_SIZE - 16\<rparr>"

lemma fresh_output_ok:
  "coder_ok (fresh_output c) = coder_ok c" "stream_of (fresh_output c) = waiting c" "output_space (fresh_output c) = 85180"
  "m_output_room (fresh_output c) = 85180" "m_huff_count (fresh_output c) = m_huff_count c" "huff_arrays (fresh_output c) = huff_arrays c"
  by (simp_all add: fresh_output_def coder_ok_def stream_of_def waiting_def output_space_def huff_arrays_def
      TDEFL_OUT_BUF_SIZE_def TDEFL_LZ_CODE_BUF_SIZE_def)

lemma head_stream:
  assumes "coder_ok c"
  shows "stream_of (put_head flush flags k (fresh_output c)) =
      waiting c @ (if k = 0 then zlib_header flags else []) @ [flush = TDEFL_FINISH]"
    and "output_space (put_head flush flags k (fresh_output c)) = 85180"
    and "coder_ok (put_head flush flags k (fresh_output c))"
    and "85170 \<le> m_output_room (put_head flush flags k (fresh_output c))"
proof -
  let ?c = "fresh_output c"
  have w: "writes ((if k = 0 then zlib_header flags else []) @ [flush = TDEFL_FINISH]) ?c (put_head flush flags k ?c)"
    by (rule put_head_ok)
  have ok: "coder_ok ?c" using assms by (simp add: fresh_output_ok)
  have "length ((if k = 0 then zlib_header flags else []) @ [flush = TDEFL_FINISH]) \<le> 8 * 3" by (simp add: zlib_header_def)
  note X = extends_room [OF writes_extends [OF w] ok this, of 85170]
  show "stream_of (put_head flush flags k ?c) = waiting c @ (if k = 0 then zlib_header flags else []) @ [flush = TDEFL_FINISH]"
    "output_space (put_head flush flags k ?c) = 85180" "coder_ok (put_head flush flags k ?c)"
    "85170 \<le> m_output_room (put_head flush flags k ?c)"
    using X by (simp_all add: fresh_output_ok)
qed

lemma flush_lz:
  assumes p: "parsed items (take B data) data P l" and q: "B + pending l \<le> P" and ok: "coder_ok (coder l)"
    and buf: "m_pLZ_code_buf l \<le> TDEFL_LZ_CODE_BUF_SIZE"
    and raw: "use_raw_block \<longrightarrow> m_lookahead_pos l - of_nat B \<le> m_dict_size l"
  shows "\<exists>d c. finish_lz_flags (l\<lparr>coder := fresh_output (coder l)\<rparr>) = Some d \<and> coder d = fresh_output (coder l) \<and>
    put_block flags use_raw_block (of_nat B) (d\<lparr>coder := put_head flush flags k (coder d)\<rparr>) = Some (d\<lparr>coder := c\<rparr>) \<and>
    m_total_lz_bytes d = of_nat (P - pending l - B) \<and>
    body_written 1 (take B data) (take (P - pending l) data) (put_head flush flags k (coder d)) c \<and>
    (flags AND TDEFL_FORCE_ALL_STATIC_BLOCKS \<noteq> 0 \<or> P - pending l - B \<le> 40000 \<longrightarrow> 60 \<le> m_output_room c) \<and>
    (\<forall>c'. huff_arrays c' \<longrightarrow> parsed [] (take (P - pending l) data) data P (reset_lz (d\<lparr>coder := c'\<rparr>)) \<and>
      pending (reset_lz (d\<lparr>coder := c'\<rparr>)) = pending l)"
proof -
  let ?c = "fresh_output (coder l)"
  let ?h = "put_head flush flags k ?c"
  have lz: "lz_ok items l" using p by (simp add: parsed_def stands_for_def)
  then have arr: "huff_arrays (coder l)" by (simp add: lz_ok_def lz_counted_def)
  have "lz_ok items (l\<lparr>coder := ?c\<rparr>)"
    using lz by (simp add: lz_ok_def lz_holds_def lz_counted_def fresh_output_ok)
  then obtain cb p' where f: "finish_lz_flags (l\<lparr>coder := ?c\<rparr>) = Some (l\<lparr>coder := ?c, m_lz_code_buf := cb, m_pLZ_code_buf := p'\<rparr>)"
    "take p' cb = lz_bytes items" "p' \<le> length cb" "length cb = TDEFL_LZ_CODE_BUF_SIZE"
    using finish_lz_flags_ok [of items "l\<lparr>coder := ?c\<rparr>"] buf by auto
  let ?d = "l\<lparr>coder := ?c, m_lz_code_buf := cb, m_pLZ_code_buf := p'\<rparr>"
  have d: "?d\<lparr>coder := c'\<rparr> = l\<lparr>m_lz_code_buf := cb, m_pLZ_code_buf := p', coder := c'\<rparr>" for c' by simp
  have w: "writes ((if k = 0 then zlib_header flags else []) @ [flush = TDEFL_FINISH]) ?c ?h" by (rule put_head_ok)
  note hs = head_stream [OF ok, where flush = flush and flags = flags and k = k]
  have h: "m_huff_count ?h = m_huff_count (coder l)" "huff_arrays ?h"
    using w arr by (simp_all add: writes_def same_tables_def huff_arrays_def fresh_output_def)
  have bs: "block_state items data B (P - pending l) P (?d\<lparr>coder := ?h\<rparr>)"
    using block_state_ready [OF p q h f(2-4)] by (simp only: d)
  obtain c where c: "put_block flags use_raw_block (of_nat B) (?d\<lparr>coder := ?h\<rparr>) = Some (?d\<lparr>coder := ?h\<rparr>\<lparr>coder := c\<rparr>)"
    "body_written 1 (take B data) (take (P - pending l) data) ?h c"
    "flags AND TDEFL_FORCE_ALL_STATIC_BLOCKS \<noteq> 0 \<or> P - pending l - B \<le> 40000 \<longrightarrow> 60 \<le> m_output_room c"
    using put_block_ok [OF bs, of use_raw_block flags] hs(3,4) raw by auto
  have "m_total_lz_bytes ?d = of_nat (P - pending l - B)" using bs by (simp add: block_state_def)
  moreover have "parsed [] (take (P - pending l) data) data P (reset_lz (?d\<lparr>coder := c'\<rparr>)) \<and>
      pending (reset_lz (?d\<lparr>coder := c'\<rparr>)) = pending l" if "huff_arrays c'" for c'
    unfolding d using reset_parsed [OF p that f(4)] by blast
  ultimately show ?thesis using f(1) c by (intro exI [of _ ?d] exI [of _ c]) simp
qed

section \<open>Flushing to a callback\<close>

text \<open>What a flush leaves alone.\<close>

definition same_call :: "'u tdefl_stream \<Rightarrow> 'u tdefl_stream \<Rightarrow> bool" where
  "same_call d d' \<longleftrightarrow> m_flush d' = m_flush d \<and> m_pIn_buf d' = m_pIn_buf d \<and>
     m_adler32 d' = m_adler32 d \<and> m_finished d' = m_finished d \<and> m_greedy_parsing d' = m_greedy_parsing d \<and>
     m_flags d' = m_flags d \<and> m_pOut_buf_size d' = m_pOut_buf_size d \<and> m_pPut_buf_func d' = m_pPut_buf_func d \<and>
     (m_pIn_buf_size d' = None) = (m_pIn_buf_size d = None)"

lemma same_call_trans: "same_call a b \<Longrightarrow> same_call b c \<Longrightarrow> same_call a c"
  by (simp add: same_call_def)

text \<open>The bytes that are passed.\<close>

definition given :: "u8 list option \<Rightarrow> nat \<Rightarrow> u8 list" where
  "given pBuf len = (case pBuf of None \<Rightarrow> [] | Some b \<Rightarrow> take len b)"

text \<open>The arrays of a compressor have their sizes; nothing else is known of memory that was allocated.\<close>

definition stream_arrays :: "'u tdefl_stream \<Rightarrow> bool" where
  "stream_arrays d \<longleftrightarrow> length (m_dict (lz d)) = 33025 \<and> length (m_next (lz d)) = 32768 \<and> length (m_hash (lz d)) = 32768 \<and>
     length (m_lz_code_buf (lz d)) = TDEFL_LZ_CODE_BUF_SIZE \<and> huff_arrays (coder (lz d))"

section \<open>More input\<close>

lemma genuine_more: "genuine data p len dist \<Longrightarrow> genuine (data @ cs) p len dist"
  by (auto simp: genuine_def nth_append)

lemma parsed_more:
  assumes p: "parsed items out data P l" and w: "window P (data @ cs) l'" and s: "same_codes l l'"
  shows "parsed items out (data @ cs) P l'"
proof -
  have P: "P \<le> length data" using p by (simp add: parsed_def window_def filling_def)
  note F = same_codes_facts [OF s]
  have "saved_ok (data @ cs) P l"
    using p genuine_more [of data "P - 1"] by (auto simp: parsed_def saved_ok_def nth_append)
  moreover have "stands_for items out (data @ cs) (P - pending l) l"
    using p P by (simp add: parsed_def stands_for_def)
  ultimately show ?thesis using w by (simp add: parsed_def F)
qed

lemma nothing_pending: "window (length data) data l \<Longrightarrow> saved_ok data (length data) l \<Longrightarrow> pending l = 0"
  by (auto simp: saved_ok_def genuine_def pending_def)

text \<open>A round that is entered has something to parse.\<close>

lemma lookahead_left:
  assumes w: "window P data d" and w': "window P (data @ cs) l" and more: "src \<noteq> [] \<or> m_lookahead_size d \<noteq> 0"
    and src: "src = cs @ rest" "rest = [] \<or> m_lookahead_size l = 258"
  shows "m_lookahead_size l \<noteq> 0"
proof
  assume z: "m_lookahead_size l = 0"
  then have "rest = []" using src(2) by auto
  moreover have "length (data @ cs) = P" using w' z by (simp add: window_def filling_def)
  moreover have "P + unat (m_lookahead_size d) = length data" using w by (simp add: window_def filling_def)
  ultimately have "length cs = 0" "unat (m_lookahead_size d) = 0" "src = cs" using src(1) by auto
  then have "src = []" "m_lookahead_size d = 0" by (simp_all add: unat_eq_0)
  then show False using more by simp
qed

section \<open>The start\<close>

lemma adler_of_nothing: "mz_adler32 1 (Some []) = 1"
  by code_simp

lemma zlib_adler_flags: "flags AND TDEFL_WRITE_ZLIB_HEADER \<noteq> 0 \<Longrightarrow> flags AND (TDEFL_WRITE_ZLIB_HEADER OR TDEFL_COMPUTE_ADLER32) \<noteq> 0"
proof
  assume z: "flags AND TDEFL_WRITE_ZLIB_HEADER \<noteq> 0" and a: "flags AND (TDEFL_WRITE_ZLIB_HEADER OR TDEFL_COMPUTE_ADLER32) = 0"
  have "flags AND TDEFL_WRITE_ZLIB_HEADER = (flags AND (TDEFL_WRITE_ZLIB_HEADER OR TDEFL_COMPUTE_ADLER32)) AND TDEFL_WRITE_ZLIB_HEADER"
    unfolding and.assoc by (simp add: TDEFL_WRITE_ZLIB_HEADER_def TDEFL_COMPUTE_ADLER32_def)
  then show False using z a by simp
qed

lemma whole_stream_cong:
  "whole_stream flags a bytes out \<Longrightarrow> flags AND TDEFL_WRITE_ZLIB_HEADER \<noteq> 0 \<longrightarrow> a = b \<Longrightarrow> whole_stream flags b bytes out"
  by (simp add: whole_stream_def split: if_splits)

lemma lz_ok_init:
  "lz_ok items (r\<lparr>m_saved_match_dist := a, m_saved_match_len := b, m_saved_lit := e,
     coder := (coder r)\<lparr>m_bits_in := n, m_bit_buffer := w, m_output := out, m_output_room := room\<rparr>\<rparr>) = lz_ok items r"
  by (simp add: lz_ok_def lz_holds_def lz_counted_def huff_arrays_def)

lemma init_parsed:
  assumes "stream_arrays d"
  shows "parsed [] [] [] 0 (lz (snd (tdefl_init f u flags d)))" and "pending (lz (snd (tdefl_init f u flags d))) = 0"
    and "coder_ok (coder (lz (snd (tdefl_init f u flags d))))" and "waiting (coder (lz (snd (tdefl_init f u flags d)))) = []"
    and "m_pLZ_code_buf (lz (snd (tdefl_init f u flags d))) = 1"
proof -
  let ?l = "lz (snd (tdefl_init f u flags d))"
  let ?p = "[1 + ((flags AND 0xFFF) + 2) div 3, 1 + (drop_bit 2 (flags AND 0xFFF) + 2) div 3]"
  let ?probing = "(lz d)\<lparr>m_max_probes := ?p\<rparr>"
  let ?start = "(if flags AND TDEFL_NONDETERMINISTIC_PARSING_FLAG = 0 then ?probing\<lparr>m_hash := replicate (length (m_hash ?probing)) 0\<rparr>
    else ?probing)\<lparr>m_lookahead_pos := 0, m_lookahead_size := 0, m_dict_size := 0\<rparr>"
  have eq: "?l = (reset_lz ?start)\<lparr>m_saved_match_dist := 0, m_saved_match_len := 0, m_saved_lit := 0,
     coder := (coder (reset_lz ?start))\<lparr>m_bits_in := 0, m_bit_buffer := 0, m_output := [], m_output_room := 0\<rparr>\<rparr>"
    by (simp add: tdefl_init_def Let_def)
  have r: "reset_lz ?start = ?start\<lparr>coder := coder (reset_lz ?start), m_pLZ_code_buf := 1, m_pLZ_flags := 0,
          m_num_flags_left := 8, m_total_lz_bytes := 0\<rparr>"
    by (simp add: reset_lz_def Let_def)
  have l: "m_saved_match_len ?l = 0" "m_lookahead_pos ?l = 0" "m_lookahead_size ?l = 0" "m_dict_size ?l = 0"
    "m_dict ?l = m_dict (lz d)" "m_next ?l = m_next (lz d)" "length (m_hash ?l) = length (m_hash (lz d))" "length (m_max_probes ?l) = 2"
    by (subst eq, subst r, simp)+
  have "lz_ok [] (reset_lz ?start)" using assms by (intro reset_lz_ok) (simp_all add: stream_arrays_def)
  then have "lz_ok [] ?l" unfolding eq lz_ok_init .
  moreover have "window 0 [] ?l"
    using assms by (simp add: window_def filling_def lz_arrays_def dict_holds_def l stream_arrays_def)
  moreover show "pending ?l = 0" by (simp add: pending_def l)
  ultimately show "parsed [] [] [] 0 ?l" by (simp add: parsed_def saved_ok_def stands_for_def l)
  show "coder_ok (coder ?l)" "waiting (coder ?l) = []" "m_pLZ_code_buf ?l = 1"
    unfolding eq by (simp_all add: coder_ok_def waiting_def low_bits_def reset_lz_def Let_def)
qed

section \<open>Blocks and rounds with a callback\<close>

context callback
begin

lemma deliver_callback:
  assumes f: "m_pPut_buf_func d = Some put" "m_pIn_buf_size d \<noteq> None" "inv (m_pPut_buf_user d)"
    and n: "length (m_output (coder (lz d))) \<le> TDEFL_OUT_BUF_SIZE" "m_output_flush_remaining d = 0"
  shows "\<exists>r d'. deliver False d = Some (r, d') \<and> same_call d d' \<and> m_pSrc d' = m_pSrc d \<and> lz d' = lz d \<and> m_block_index d' = m_block_index d \<and>
    m_lz_code_buf_dict_pos d' = m_lz_code_buf_dict_pos d \<and> inv (m_pPut_buf_user d') \<and> m_output_flush_remaining d' = 0 \<and>
    ((r = 0 \<and> sent (m_pPut_buf_user d') = sent (m_pPut_buf_user d) @ m_output (coder (lz d))) \<or>
     (r = -1 \<and> m_prev_return_status d' = TDEFL_STATUS_PUT_BUF_FAILED \<and> refused))"
proof -
  let ?bs = "m_output (coder (lz d))"
  obtain ok u where u: "put ?bs (m_pPut_buf_user d) = Some (ok, u)" "inv u" "ok \<longrightarrow> sent u = sent (m_pPut_buf_user d) @ ?bs"
    using put_returns [OF f(3) n(1)] by blast
  obtain k where k: "m_pIn_buf_size d = Some k" using f(2) by blast
  show ?thesis
  proof (cases "?bs = []")
    case True
    then show ?thesis using f n by (intro exI [of _ 0] exI [of _ d]) (simp add: deliver_def Let_def same_call_def)
  next
    case False
    have "refused" if "\<not> ok" using u(1) f(3) n(1) that unfolding refused_def
      by (intro exI [of _ "m_pPut_buf_user d"] exI [of _ ?bs] exI [of _ u]) simp
    then show ?thesis
      using False u f(1) n(2) k by (cases ok) (simp_all add: deliver_def Let_def same_call_def)
  qed
qed

definition ready :: "u8 list \<Rightarrow> nat \<Rightarrow> nat \<Rightarrow> 'u tdefl_stream \<Rightarrow> bool" where
  "ready data B P d \<longleftrightarrow> (\<exists>items. parsed items (take B data) data P (lz d)) \<and> B + pending (lz d) \<le> P \<and>
     coder_ok (coder (lz d)) \<and> m_lz_code_buf_dict_pos d = of_nat B \<and> m_pPut_buf_func d = Some put \<and>
     m_pIn_buf_size d \<noteq> None \<and> inv (m_pPut_buf_user d) \<and> unat (m_block_index d) \<le> P \<and> m_output_flush_remaining d = 0 \<and>
     told (m_flags d) (m_block_index d) (bits_of_bytes (sent (m_pPut_buf_user d)) @ waiting (coder (lz d))) (take B data)"

text \<open>Up to the delivery.\<close>

lemma flush_to_delivery:
  assumes r: "ready data B P d" and buf: "m_pLZ_code_buf (lz d) \<le> TDEFL_LZ_CODE_BUF_SIZE"
  shows "\<exists>l c. tdefl_flush_block flush d = deliver False (d\<lparr>m_output_flush_ofs := 0, m_output_flush_remaining := 0,
      lz := reset_lz (l\<lparr>coder := put_tail flush (m_flags d) (m_adler32 d) c\<rparr>),
      m_lz_code_buf_dict_pos := of_nat (P - pending (lz d)), m_block_index := m_block_index d + 1\<rparr>) \<and>
    body_written 1 (take B data) (take (P - pending (lz d)) data)
      (put_head flush (m_flags d) (m_block_index d) (fresh_output (coder (lz d)))) c \<and>
    (m_flags d AND TDEFL_FORCE_ALL_STATIC_BLOCKS \<noteq> 0 \<or> P - pending (lz d) - B \<le> 40000 \<longrightarrow> 60 \<le> m_output_room c) \<and>
    (\<forall>c'. huff_arrays c' \<longrightarrow> parsed [] (take (P - pending (lz d)) data) data P (reset_lz (l\<lparr>coder := c'\<rparr>)) \<and>
      pending (reset_lz (l\<lparr>coder := c'\<rparr>)) = pending (lz d))"
proof -
  obtain items where p: "parsed items (take B data) data P (lz d)" using r by (auto simp: ready_def)
  have R: "B + pending (lz d) \<le> P" "coder_ok (coder (lz d))" "m_lz_code_buf_dict_pos d = of_nat B" "m_pPut_buf_func d = Some put"
    using r by (simp_all add: ready_def)
  let ?raw = "m_flags d AND TDEFL_FORCE_ALL_RAW_BLOCKS \<noteq> 0 \<and> m_lookahead_pos (lz d) - of_nat B \<le> m_dict_size (lz d)"
  have "?raw \<longrightarrow> m_lookahead_pos (lz d) - of_nat B \<le> m_dict_size (lz d)" by blast
  from flush_lz [OF p R(1,2) buf this, of "m_flags d" flush "m_block_index d"]
  obtain l c where l: "finish_lz_flags ((lz d)\<lparr>coder := fresh_output (coder (lz d))\<rparr>) = Some l"
    "coder l = fresh_output (coder (lz d))"
    "put_block (m_flags d) ?raw (of_nat B) (l\<lparr>coder := put_head flush (m_flags d) (m_block_index d) (coder l)\<rparr>) = Some (l\<lparr>coder := c\<rparr>)"
    "m_total_lz_bytes l = of_nat (P - pending (lz d) - B)"
    "body_written 1 (take B data) (take (P - pending (lz d)) data) (put_head flush (m_flags d) (m_block_index d) (coder l)) c"
    "m_flags d AND TDEFL_FORCE_ALL_STATIC_BLOCKS \<noteq> 0 \<or> P - pending (lz d) - B \<le> 40000 \<longrightarrow> 60 \<le> m_output_room c"
    "\<forall>c'. huff_arrays c' \<longrightarrow> parsed [] (take (P - pending (lz d)) data) data P (reset_lz (l\<lparr>coder := c'\<rparr>)) \<and>
      pending (reset_lz (l\<lparr>coder := c'\<rparr>)) = pending (lz d)" by blast
  have pos: "of_nat B + (of_nat (P - pending (lz d) - B) :: u32) = of_nat (P - pending (lz d))"
  proof -
    have "of_nat B + (of_nat (P - pending (lz d) - B) :: u32) = of_nat (B + (P - pending (lz d) - B))" by (rule of_nat_add [symmetric])
    then show ?thesis using R(1) by (simp del: of_nat_add of_nat_diff)
  qed
  have "tdefl_flush_block flush d = deliver False (d\<lparr>m_output_flush_ofs := 0, m_output_flush_remaining := 0,
      lz := reset_lz (l\<lparr>coder := put_tail flush (m_flags d) (m_adler32 d) c\<rparr>),
      m_lz_code_buf_dict_pos := of_nat (P - pending (lz d)), m_block_index := m_block_index d + 1\<rparr>)"
    using l(1,3,4) R(3,4) pos by (simp add: tdefl_flush_block_def Let_def fresh_output_def)
  then show ?thesis using l(2,5-7) by (intro exI [of _ l] exI [of _ c]) simp
qed

lemma reset_coder: "same_stream c (coder (reset_lz (l\<lparr>coder := c\<rparr>)))"
  by (simp add: same_stream_def reset_lz_def Let_def)

lemma same_stream_waiting: "same_stream c c' \<Longrightarrow> waiting c' = waiting c \<and> m_output c' = m_output c"
  by (simp add: same_stream_def waiting_def)

text \<open>What a block adds to the stream.\<close>

lemma block_told:
  assumes ok: "coder_ok (coder (lz d))"
    and t: "told (m_flags d) (m_block_index d) (bits_of_bytes bytes @ waiting (coder (lz d))) out"
    and w: "body_written r out out' (put_head flush (m_flags d) (m_block_index d) (fresh_output (coder (lz d)))) c"
  shows "\<exists>bits sent0. bits_of_bytes bytes @ stream_of c = sent0 @ (flush = TDEFL_FINISH) # bits \<and>
    says (zlib_header (m_flags d)) sent0 out \<and> body_of (sent0 @ [flush = TDEFL_FINISH]) bits out out' \<and>
    length (m_output c) \<le> TDEFL_OUT_BUF_SIZE"
proof -
  let ?h = "put_head flush (m_flags d) (m_block_index d) (fresh_output (coder (lz d)))"
  let ?sent = "bits_of_bytes bytes @ waiting (coder (lz d)) @ (if m_block_index d = 0 then zlib_header (m_flags d) else [])"
  note hs = head_stream [OF ok, where flush = flush and flags = "m_flags d" and k = "m_block_index d"]
  obtain bits where b: "stream_of c = stream_of ?h @ bits" "body_of (stream_of ?h) bits out out'" "output_space c = output_space ?h"
    using w by (auto simp: body_written_def)
  have "bits_of_bytes bytes @ stream_of c = ?sent @ (flush = TDEFL_FINISH) # bits" unfolding b(1) hs(1) by simp
  moreover have "says (zlib_header (m_flags d)) ?sent out" using told_header [OF t] by simp
  moreover have "body_of (bits_of_bytes bytes @ stream_of ?h) bits out out'" using b(2) by (simp add: body_of_shift)
  then have "body_of (?sent @ [flush = TDEFL_FINISH]) bits out out'" unfolding hs(1) by simp
  moreover have "length (m_output c) \<le> TDEFL_OUT_BUF_SIZE"
    using b(3) hs(2) by (simp add: output_space_def TDEFL_OUT_BUF_SIZE_def TDEFL_LZ_CODE_BUF_SIZE_def)
  ultimately show ?thesis by (intro exI [of _ bits] exI [of _ ?sent]) simp
qed

lemma flush_inside:
  assumes r: "ready data B P d" and buf: "m_pLZ_code_buf (lz d) \<le> TDEFL_LZ_CODE_BUF_SIZE"
    and k: "unat (m_block_index d) < P" and P: "P < 2 ^ 32"
  shows "\<exists>n d'. tdefl_flush_block TDEFL_NO_FLUSH d = Some (n, d') \<and> same_call d d' \<and> m_pSrc d' = m_pSrc d \<and> inv (m_pPut_buf_user d') \<and>
    ((n = 0 \<and> ready data (P - pending (lz d)) P d' \<and> m_pLZ_code_buf (lz d') = 1) \<or>
     (n = -1 \<and> m_prev_return_status d' = TDEFL_STATUS_PUT_BUF_FAILED \<and> refused))"
proof -
  have R: "B + pending (lz d) \<le> P" "coder_ok (coder (lz d))" "m_pPut_buf_func d = Some put" "m_pIn_buf_size d \<noteq> None"
    "inv (m_pPut_buf_user d)"
    "told (m_flags d) (m_block_index d) (bits_of_bytes (sent (m_pPut_buf_user d)) @ waiting (coder (lz d))) (take B data)"
    using r by (simp_all add: ready_def)
  let ?Q = "P - pending (lz d)"
  obtain l c where l: "tdefl_flush_block TDEFL_NO_FLUSH d = deliver False (d\<lparr>m_output_flush_ofs := 0, m_output_flush_remaining := 0,
      lz := reset_lz (l\<lparr>coder := c\<rparr>), m_lz_code_buf_dict_pos := of_nat ?Q, m_block_index := m_block_index d + 1\<rparr>)"
    "body_written 1 (take B data) (take ?Q data) (put_head TDEFL_NO_FLUSH (m_flags d) (m_block_index d) (fresh_output (coder (lz d)))) c"
    "\<forall>c'. huff_arrays c' \<longrightarrow> parsed [] (take ?Q data) data P (reset_lz (l\<lparr>coder := c'\<rparr>)) \<and>
      pending (reset_lz (l\<lparr>coder := c'\<rparr>)) = pending (lz d)"
    using flush_to_delivery [OF r buf, of TDEFL_NO_FLUSH] by (auto simp: put_tail_def)
  let ?l = "reset_lz (l\<lparr>coder := c\<rparr>)"
  let ?d = "d\<lparr>m_output_flush_ofs := 0, m_output_flush_remaining := 0, lz := ?l, m_lz_code_buf_dict_pos := of_nat ?Q,
    m_block_index := m_block_index d + 1\<rparr>"
  obtain bits sent0 where B: "bits_of_bytes (sent (m_pPut_buf_user d)) @ stream_of c = sent0 @ False # bits"
    "says (zlib_header (m_flags d)) sent0 (take B data)" "body_of (sent0 @ [False]) bits (take B data) (take ?Q data)"
    "length (m_output c) \<le> TDEFL_OUT_BUF_SIZE"
    using block_told [OF R(2,6) l(2)] by auto
  have C: "waiting (coder ?l) = waiting c" "m_output (coder ?l) = m_output c" "coder_ok (coder ?l)" "huff_arrays c"
    using same_stream_waiting [OF reset_coder] same_streamD(2) [OF reset_coder] l(2) by (simp_all add: body_written_def)
  have L: "parsed [] (take ?Q data) data P ?l" "pending ?l = pending (lz d)" using l(3) C(4) by simp_all
  have idx: "unat (m_block_index d + 1) = unat (m_block_index d) + 1"
    using k P by (subst unat_add_lem [THEN iffD1]) simp_all
  then have "m_block_index d + 1 \<noteq> 0" by auto
  then have T: "told (m_flags d) (m_block_index d + 1) (bits_of_bytes (sent (m_pPut_buf_user d) @ m_output c) @ waiting c) (take ?Q data)"
    using says_block [OF B(2,3)] B(1) by (simp add: told_def bits_of_bytes_append stream_waiting)
  obtain n d' where d': "deliver False ?d = Some (n, d')" "same_call ?d d'" "m_pSrc d' = m_pSrc d" "lz d' = ?l" "m_block_index d' = m_block_index d + 1"
    "m_lz_code_buf_dict_pos d' = of_nat ?Q" "inv (m_pPut_buf_user d')" "m_output_flush_remaining d' = 0"
    "(n = 0 \<and> sent (m_pPut_buf_user d') = sent (m_pPut_buf_user d) @ m_output c) \<or>
     (n = -1 \<and> m_prev_return_status d' = TDEFL_STATUS_PUT_BUF_FAILED \<and> refused)"
    using deliver_callback [of ?d] R(3-5) B(4) C(2) by auto
  have sc: "same_call d d'" using d'(2) by (simp add: same_call_def)
  have "ready data ?Q P d'" if "n = 0"
  proof -
    have "m_flags d' = m_flags d" "m_pPut_buf_func d' = Some put" "m_pIn_buf_size d' \<noteq> None"
      using sc R(3,4) by (simp_all add: same_call_def)
    moreover have "?Q + pending ?l \<le> P" using L(2) R(1) by simp
    moreover have "sent (m_pPut_buf_user d') = sent (m_pPut_buf_user d) @ m_output c" using that d'(9) by auto
    ultimately show ?thesis
      unfolding ready_def d'(4-6,8) using L(1) C(1,3) T idx k d'(7) by auto
  qed
  moreover have "m_pLZ_code_buf (lz d') = 1" unfolding d'(4) by (simp add: reset_lz_def Let_def)
  ultimately show ?thesis using l(1) d'(1,3,7,9) sc by auto
qed

text \<open>The last block.\<close>

lemma flush_last:
  assumes r: "ready data B P d" and buf: "m_pLZ_code_buf (lz d) \<le> TDEFL_LZ_CODE_BUF_SIZE"
    and fits: "m_flags d AND TDEFL_FORCE_ALL_STATIC_BLOCKS \<noteq> 0 \<or> P - pending (lz d) - B \<le> 40000"
  shows "\<exists>n d'. tdefl_flush_block TDEFL_FINISH d = Some (n, d') \<and> same_call d d' \<and> m_pSrc d' = m_pSrc d \<and> inv (m_pPut_buf_user d') \<and>
    m_output_flush_remaining d' = 0 \<and>
    ((n = 0 \<and> whole_stream (m_flags d) (m_adler32 d) (sent (m_pPut_buf_user d')) (take (P - pending (lz d)) data)) \<or>
     (n = -1 \<and> m_prev_return_status d' = TDEFL_STATUS_PUT_BUF_FAILED \<and> refused))"
proof -
  have R: "coder_ok (coder (lz d))" "m_pPut_buf_func d = Some put" "m_pIn_buf_size d \<noteq> None" "inv (m_pPut_buf_user d)"
    "told (m_flags d) (m_block_index d) (bits_of_bytes (sent (m_pPut_buf_user d)) @ waiting (coder (lz d))) (take B data)"
    using r by (simp_all add: ready_def)
  let ?Q = "P - pending (lz d)"
  let ?a = "if m_flags d AND TDEFL_WRITE_ZLIB_HEADER \<noteq> 0 then bits_of_bytes (adler_bytes (m_adler32 d)) else []"
  obtain l c where l: "tdefl_flush_block TDEFL_FINISH d = deliver False (d\<lparr>m_output_flush_ofs := 0, m_output_flush_remaining := 0,
      lz := reset_lz (l\<lparr>coder := put_tail TDEFL_FINISH (m_flags d) (m_adler32 d) c\<rparr>),
      m_lz_code_buf_dict_pos := of_nat ?Q, m_block_index := m_block_index d + 1\<rparr>)"
    "body_written 1 (take B data) (take ?Q data) (put_head TDEFL_FINISH (m_flags d) (m_block_index d) (fresh_output (coder (lz d)))) c"
    "60 \<le> m_output_room c"
    using flush_to_delivery [OF r buf, of TDEFL_FINISH] fits by blast
  let ?c = "put_tail TDEFL_FINISH (m_flags d) (m_adler32 d) c"
  let ?l = "reset_lz (l\<lparr>coder := ?c\<rparr>)"
  let ?d = "d\<lparr>m_output_flush_ofs := 0, m_output_flush_remaining := 0, lz := ?l, m_lz_code_buf_dict_pos := of_nat ?Q,
    m_block_index := m_block_index d + 1\<rparr>"
  obtain bits sent0 where B: "bits_of_bytes (sent (m_pPut_buf_user d)) @ stream_of c = sent0 @ True # bits"
    "says (zlib_header (m_flags d)) sent0 (take B data)" "body_of (sent0 @ [True]) bits (take B data) (take ?Q data)"
    using block_told [OF R(1,5) l(2)] by auto
  have hs: "output_space c = 85180" using l(2) head_stream(2) [OF R(1)] by (simp add: body_written_def)
  obtain pad where T: "length pad < 8" "output_space ?c = output_space c" "waiting ?c = []" "stream_of ?c = stream_of c @ pad @ ?a"
    using put_tail_finish [of c "m_flags d" "m_adler32 d"] l(2,3) by (auto simp: body_written_def)
  have all: "bits_of_bytes (sent (m_pPut_buf_user d) @ m_output ?c) = sent0 @ True # bits @ pad @ ?a"
    using T(3,4) B(1) stream_waiting [of ?c] by (simp add: bits_of_bytes_append)
  have "8 dvd length (sent0 @ True # bits @ pad @ ?a)" unfolding all [symmetric] by simp
  from says_last [OF B(2,3) this] have W: "whole_stream (m_flags d) (m_adler32 d) (sent (m_pPut_buf_user d) @ m_output ?c) (take ?Q data)"
    using T(1) unfolding whole_stream_def all by blast
  have out: "m_output (coder ?l) = m_output ?c" using same_stream_waiting [OF reset_coder] by simp
  have len: "length (m_output ?c) \<le> TDEFL_OUT_BUF_SIZE"
    using T(2) hs by (simp add: output_space_def TDEFL_OUT_BUF_SIZE_def TDEFL_LZ_CODE_BUF_SIZE_def)
  obtain n d' where d': "deliver False ?d = Some (n, d')" "same_call ?d d'" "m_pSrc d' = m_pSrc d" "m_output_flush_remaining d' = 0"
    "inv (m_pPut_buf_user d')"
    "(n = 0 \<and> sent (m_pPut_buf_user d') = sent (m_pPut_buf_user d) @ m_output ?c) \<or>
     (n = -1 \<and> m_prev_return_status d' = TDEFL_STATUS_PUT_BUF_FAILED \<and> refused)"
    using deliver_callback [of ?d] R(2-4) len out by auto
  have "same_call d d'" using d'(2) by (simp add: same_call_def)
  then show ?thesis using l(1) d'(1,3-6) W by auto
qed

section \<open>The main loop\<close>

lemma ready_facts:
  assumes "ready data B P d"
  shows "window P data (lz d)" and "saved_ok data P (lz d)" and "B \<le> P" and "P \<le> length data"
  using assms by (auto simp: ready_def parsed_def window_def filling_def)

text \<open>One round: the dictionary is filled, and the parser makes a step.\<close>

lemma round_ready:
  assumes r: "ready data B P d" and more: "m_pSrc d \<noteq> [] \<or> m_lookahead_size (lz d) \<noteq> 0"
    and room: "m_pLZ_code_buf (lz d) + 8 \<le> TDEFL_LZ_CODE_BUF_SIZE"
  shows "\<exists>cs src l n l'. fill_dict (m_pSrc d) (lz d) = (src, l) \<and> m_pSrc d = cs @ src \<and>
    parse_step flags greedy l = Some l' \<and> 1 \<le> n \<and> P + n \<le> length (data @ cs) \<and>
    m_pLZ_code_buf l' \<le> TDEFL_LZ_CODE_BUF_SIZE \<and> ready (data @ cs) B (P + n) (d\<lparr>m_pSrc := src, lz := l'\<rparr>)"
proof -
  obtain items where p: "parsed items (take B data) data P (lz d)" using r by (auto simp: ready_def)
  note W = ready_facts [OF r]
  obtain cs src l where f: "fill_dict (m_pSrc d) (lz d) = (src, l)" "m_pSrc d = cs @ src" "window P (data @ cs) l"
    "same_codes (lz d) l" "src = [] \<or> m_lookahead_size l = 258"
    using fill_dict_result [OF W(1), of "m_pSrc d"] by blast
  note F = same_codes_facts [OF f(4)]
  have "take B (data @ cs) = take B data" using W(3,4) by simp
  then have p': "parsed items (take B (data @ cs)) (data @ cs) P l" using parsed_more [OF p f(3,4)] by (simp only:)
  have la: "m_lookahead_size l \<noteq> 0" using lookahead_left [OF W(1) f(3) more f(2,5)] .
  have room': "m_pLZ_code_buf l + 8 \<le> TDEFL_LZ_CODE_BUF_SIZE" using room F(5) by simp
  obtain n l' new where s: "parse_step flags greedy l = Some l'" "1 \<le> n" "P + n \<le> length (data @ cs)"
    "parsed (items @ new) (take B (data @ cs)) (data @ cs) (P + n) l'" "m_pLZ_code_buf l' \<le> m_pLZ_code_buf l + 6"
    "(coder l')\<lparr>m_huff_count := m_huff_count (coder l)\<rparr> = coder l"
    using parse_step_result [OF p' la room', of flags greedy] by blast
  have e: "coder (lz d) = (coder l')\<lparr>m_huff_count := m_huff_count (coder l)\<rparr>" using s(6) F(6) by simp
  have c: "same_stream (coder (lz d)) (coder l')" unfolding e by (simp add: same_stream_def)
  have "take B (data @ cs) = take B data" using W(3,4) by simp
  moreover have "B + pending l' \<le> P + n" using W(3) s(2) by (simp add: pending_def)
  ultimately have "ready (data @ cs) B (P + n) (d\<lparr>m_pSrc := src, lz := l'\<rparr>)"
    using r s(4) same_streamD(2) [OF c] same_stream_waiting [OF c] by (auto simp: ready_def)
  then show ?thesis using f(1,2) s(1-3,5) room' by (intro exI conjI) (assumption | simp)+
qed

text \<open>Until the input is used up and parsed.\<close>

lemma compress_loop:
  assumes "ready data B P d" and "m_pLZ_code_buf (lz d) + 8 \<le> TDEFL_LZ_CODE_BUF_SIZE" and "m_flush d = TDEFL_FINISH"
    and "data @ m_pSrc d = input" and "length input < 2 ^ 32"
  shows "\<exists>ok d' B'. tdefl_compress_normal d = Some (ok, d') \<and> same_call d d' \<and> inv (m_pPut_buf_user d') \<and>
    ((ok \<and> ready input B' (length input) d' \<and> m_pSrc d' = [] \<and> m_lookahead_size (lz d') = 0 \<and>
       m_pLZ_code_buf (lz d') \<le> TDEFL_LZ_CODE_BUF_SIZE) \<or>
     (\<not> ok \<and> m_prev_return_status d' = TDEFL_STATUS_PUT_BUF_FAILED \<and> refused))"
  using assms
proof (induction "length input - P" arbitrary: data B P d rule: less_induct)
  case less
  note r = less.prems(1)
  show ?case
  proof (cases "m_pSrc d \<noteq> [] \<or> m_lookahead_size (lz d) \<noteq> 0")
    case False
    have "data = input" "P = length input"
      using False less.prems(4) ready_facts(1) [OF r] by (auto simp: window_def filling_def)
    moreover have "tdefl_compress_normal d = Some (True, d)" using False by (subst tdefl_compress_normal.simps) simp
    moreover have "same_call d d" by (simp add: same_call_def)
    moreover have "inv (m_pPut_buf_user d)" using r by (simp add: ready_def)
    ultimately show ?thesis using r False less.prems(2) by (intro exI [of _ True] exI [of _ d] exI [of _ B]) simp
  next
    case more: True
    obtain cs src l n l' where s: "fill_dict (m_pSrc d) (lz d) = (src, l)" "m_pSrc d = cs @ src"
      "parse_step (m_flags d) (m_greedy_parsing d) l = Some l'" "1 \<le> n" "P + n \<le> length (data @ cs)"
      "m_pLZ_code_buf l' \<le> TDEFL_LZ_CODE_BUF_SIZE" "ready (data @ cs) B (P + n) (d\<lparr>m_pSrc := src, lz := l'\<rparr>)"
      using round_ready [OF r more less.prems(2), of "m_flags d" "m_greedy_parsing d"] by blast
    let ?d = "d\<lparr>m_pSrc := src, lz := l'\<rparr>"
    have step: "tdefl_compress_normal d =
        (if flush_due (m_flags d) l' then do {
           (n, d) \<leftarrow> tdefl_flush_block TDEFL_NO_FLUSH ?d;
           if n \<noteq> 0 then Some (\<not> n < 0, d) else tdefl_compress_normal d }
         else tdefl_compress_normal ?d)"
      using more s(1,3) less.prems(3) by (subst tdefl_compress_normal.simps) (simp add: Let_def)
    have input: "(data @ cs) @ src = input" using less.prems(4) s(2) by simp
    then have P: "P + n \<le> length input" "P + n < 2 ^ 32" "length input - (P + n) < length input - P"
      using s(4,5) less.prems(5) by auto
    have sc: "same_call d ?d" by (simp add: same_call_def)
    show ?thesis
    proof (cases "flush_due (m_flags d) l'")
      case False
      then have "m_pLZ_code_buf l' + 8 \<le> TDEFL_LZ_CODE_BUF_SIZE"
        by (simp add: flush_due_def TDEFL_LZ_CODE_BUF_SIZE_def)
      from less.hyps [OF P(3) s(7) _ _ _ less.prems(5)] this input less.prems(3) show ?thesis
        unfolding step if_not_P [OF False] using same_call_trans [OF sc] by fastforce
    next
      case True
      have "unat (m_block_index ?d) < P + n" using r s(4) by (simp add: ready_def)
      from flush_inside [OF s(7) _ this P(2)] obtain k d' where f: "tdefl_flush_block TDEFL_NO_FLUSH ?d = Some (k, d')"
        "same_call ?d d'" "m_pSrc d' = src" "inv (m_pPut_buf_user d')"
        "(k = 0 \<and> ready (data @ cs) (P + n - pending l') (P + n) d' \<and> m_pLZ_code_buf (lz d') = 1) \<or>
         (k = -1 \<and> m_prev_return_status d' = TDEFL_STATUS_PUT_BUF_FAILED \<and> refused)"
        using s(6) by auto
      have sc': "same_call d d'" using same_call_trans [OF sc f(2)] .
      from f(5) show ?thesis
      proof
        assume k: "k = 0 \<and> ready (data @ cs) (P + n - pending l') (P + n) d' \<and> m_pLZ_code_buf (lz d') = 1"
        then have rec: "tdefl_compress_normal d = tdefl_compress_normal d'" using step True f(1) by simp
        have "m_pLZ_code_buf (lz d') + 8 \<le> TDEFL_LZ_CODE_BUF_SIZE" "m_flush d' = TDEFL_FINISH" "(data @ cs) @ m_pSrc d' = input"
          using k sc' less.prems(3) f(3) input by (simp_all add: TDEFL_LZ_CODE_BUF_SIZE_def same_call_def)
        from less.hyps [OF P(3) _ this less.prems(5)] k show ?thesis
          unfolding rec using same_call_trans [OF sc'] by fastforce
      next
        assume "k = -1 \<and> m_prev_return_status d' = TDEFL_STATUS_PUT_BUF_FAILED \<and> refused"
        then show ?thesis using step True f(1,4) sc' by auto
      qed
    qed
  qed
qed

section \<open>From the start\<close>

text \<open>What the end of a finishing call returns.\<close>

lemma flush_output_done:
  "m_pOut_buf_size d = None \<Longrightarrow> m_finished d \<Longrightarrow> m_output_flush_remaining d = 0 \<Longrightarrow>
    fst (tdefl_flush_output_buffer d) = TDEFL_STATUS_DONE \<and> m_pPut_buf_user (snd (tdefl_flush_output_buffer d)) = m_pPut_buf_user d"
  by (simp add: tdefl_flush_output_buffer_def Let_def)

lemma return_status_facts:
  "return_status r = (fst r, (snd r)\<lparr>m_prev_return_status := fst r\<rparr>)"
  by (cases r) (simp add: return_status_def)

lemma finish_call:
  assumes r: "ready data B P d" and z: "m_lookahead_size (lz d) = 0" "m_pSrc d = []"
    and buf: "m_pLZ_code_buf (lz d) \<le> TDEFL_LZ_CODE_BUF_SIZE" and out: "m_pOut_buf_size d = None"
    and fits: "m_flags d AND TDEFL_FORCE_ALL_STATIC_BLOCKS \<noteq> 0 \<or> P - pending (lz d) - B \<le> 40000"
  shows "\<exists>status d'. finish_block TDEFL_FINISH d = Some (status, d') \<and> inv (m_pPut_buf_user d') \<and>
    ((status = TDEFL_STATUS_DONE \<and> whole_stream (m_flags d) (m_adler32 d) (sent (m_pPut_buf_user d')) (take (P - pending (lz d)) data)) \<or>
     (status = TDEFL_STATUS_PUT_BUF_FAILED \<and> refused))"
proof -
  obtain n d' where f: "tdefl_flush_block TDEFL_FINISH d = Some (n, d')" "same_call d d'" "m_output_flush_remaining d' = 0" "inv (m_pPut_buf_user d')"
    "(n = 0 \<and> whole_stream (m_flags d) (m_adler32 d) (sent (m_pPut_buf_user d')) (take (P - pending (lz d)) data)) \<or>
     (n = -1 \<and> m_prev_return_status d' = TDEFL_STATUS_PUT_BUF_FAILED \<and> refused)"
    using flush_last [OF r buf fits] by blast
  have rem: "m_output_flush_remaining d = 0" using r by (simp add: ready_def)
  have o: "m_pOut_buf_size d' = None" using f(2) out by (simp add: same_call_def)
  show ?thesis
    using f(5) f(1,3,4) z rem o flush_output_done [of "d'\<lparr>m_finished := True\<rparr>"]
    by (auto simp: finish_block_def return_status_facts Let_def)
qed

text \<open>A call of \<open>tdefl_compress\<close> that finishes, right after \<open>tdefl_init\<close>.\<close>

lemma init_ready:
  assumes arr: "stream_arrays d" and u: "inv user" "sent user = []"
  shows "ready [] 0 0 ((snd (tdefl_init (Some put) user flags d))\<lparr>m_pIn_buf := inb, m_pIn_buf_size := Some len,
           m_pOut_buf := None, m_pOut_buf_size := None,
           m_pSrc := input, m_out_buf_ofs := 0, m_flush := TDEFL_FINISH, m_wants_to_finish := True\<rparr>)"
proof -
  let ?d = "snd (tdefl_init (Some put) user flags d)"
  note I = init_parsed [OF arr, of "Some put" user flags]
  have "m_lz_code_buf_dict_pos ?d = 0" "m_pPut_buf_func ?d = Some put" "m_pPut_buf_user ?d = user" "m_block_index ?d = 0"
    "m_output_flush_remaining ?d = 0" by (simp_all add: tdefl_init_def Let_def)
  then show ?thesis using I u by (auto simp: ready_def told_def bits_of_bytes_def)
qed

lemma compress_to_callback:
  assumes arr: "stream_arrays d" and u: "inv user" "sent user = []" and buf: "pBuf = None \<longrightarrow> len = 0"
    and small: "length (given pBuf len) < 2 ^ 32"
    and fits: "flags AND TDEFL_FORCE_ALL_STATIC_BLOCKS \<noteq> 0 \<or> length (given pBuf len) \<le> 40000"
  shows "\<exists>ok u'. tdefl_compress_mem_to_output (Some d) pBuf len (Some put) user flags = Some (ok, u') \<and> inv u' \<and>
    (ok \<longrightarrow> whole_stream flags (mz_adler32 1 (Some (given pBuf len))) (sent u') (given pBuf len)) \<and> (\<not> ok \<longrightarrow> refused)"
proof -
  let ?in = "given pBuf len"
  let ?i = "snd (tdefl_init (Some put) user flags d)"
  let ?d = "?i\<lparr>m_pIn_buf := map_option (\<lambda>_. ?in) pBuf, m_pIn_buf_size := Some len,
           m_pOut_buf := None, m_pOut_buf_size := None,
           m_pSrc := ?in, m_out_buf_ofs := 0, m_flush := TDEFL_FINISH, m_wants_to_finish := True\<rparr>"
  have i: "fst (tdefl_init (Some put) user flags d) = TDEFL_STATUS_OKAY" "m_flags ?i = flags" "m_adler32 ?i = 1" "m_pPut_buf_func ?i = Some put"
    "m_prev_return_status ?i = TDEFL_STATUS_OKAY" "\<not> m_wants_to_finish ?i" "\<not> m_finished ?i" "m_output_flush_remaining ?i = 0"
    by (simp_all add: tdefl_init_def Let_def)
  have r: "ready [] 0 0 ?d" using init_ready [OF arr u] .
  have "m_pLZ_code_buf (lz ?d) = 1" using init_parsed(5) [OF arr] by simp
  then have room: "m_pLZ_code_buf (lz ?d) + 8 \<le> TDEFL_LZ_CODE_BUF_SIZE" by (simp add: TDEFL_LZ_CODE_BUF_SIZE_def)
  have "[] @ m_pSrc ?d = ?in" by simp
  from compress_loop [OF r room _ this small] obtain ok d' B where loop: "tdefl_compress_normal ?d = Some (ok, d')" "same_call ?d d'" "inv (m_pPut_buf_user d')"
    "(ok \<and> ready ?in B (length ?in) d' \<and> m_pSrc d' = [] \<and> m_lookahead_size (lz d') = 0 \<and>
       m_pLZ_code_buf (lz d') \<le> TDEFL_LZ_CODE_BUF_SIZE) \<or>
     (\<not> ok \<and> m_prev_return_status d' = TDEFL_STATUS_PUT_BUF_FAILED \<and> refused)" by auto
  let ?a = "if flags AND (TDEFL_WRITE_ZLIB_HEADER OR TDEFL_COMPUTE_ADLER32) \<noteq> 0 \<and> pBuf \<noteq> None
    then d'\<lparr>m_adler32 := mz_adler32 1 (Some ?in)\<rparr> else d'"
  have sc: "m_flags d' = flags" "m_adler32 d' = 1" "m_pIn_buf d' = map_option (\<lambda>_. ?in) pBuf" "m_pOut_buf_size d' = None"
    using loop(2) i by (simp_all add: same_call_def)
  have bytes: "(case (pBuf, Some len) of (Some b, Some n) \<Rightarrow> take n b | _ \<Rightarrow> []) = ?in" by (simp add: given_def split: option.split)
  have good: "\<not> bad_call (?i\<lparr>m_pIn_buf := map_option (\<lambda>_. ?in) pBuf, m_pIn_buf_size := Some len,
           m_pOut_buf := None, m_pOut_buf_size := None,
           m_pSrc := ?in, m_out_buf_ofs := 0, m_flush := TDEFL_FINISH\<rparr>)"
    using i buf by (auto simp: bad_call_def)
  have eaten: "take (consumed d') ?in = ?in" if ok "pBuf \<noteq> None"
    using that loop(4) sc(3) by (auto simp: consumed_def)
  have c: "tdefl_compress pBuf (Some len) None None TDEFL_FINISH ?i =
    (if ok then finish_block TDEFL_FINISH ?a else Some (m_prev_return_status d', d'))"
    unfolding tdefl_compress_def bytes Let_def if_not_P [OF good] using i loop(1) sc(1,2) eaten by simp
  have call: "tdefl_compress_mem_to_output (Some d) pBuf len (Some put) user flags =
    (if ok then do { (status, c) \<leftarrow> finish_block TDEFL_FINISH ?a; Some (status = TDEFL_STATUS_DONE, m_pPut_buf_user c) }
     else Some (m_prev_return_status d' = TDEFL_STATUS_DONE, m_pPut_buf_user d'))"
    using c i(1) buf by (auto simp: tdefl_compress_mem_to_output_def tdefl_compress_buffer_def Let_def case_prod_beta)
  show ?thesis
  proof (cases ok)
    case True
    then have D: "ready ?in B (length ?in) d'" "m_pSrc d' = []" "m_lookahead_size (lz d') = 0" "m_pLZ_code_buf (lz d') \<le> TDEFL_LZ_CODE_BUF_SIZE"
      using loop(4) by simp_all
    have p: "pending (lz d') = 0"
      using nothing_pending ready_facts(1,2) [OF D(1)] by blast
    have a: "ready ?in B (length ?in) ?a" "lz ?a = lz d'" "m_pSrc ?a = []" "m_pOut_buf_size ?a = None" "m_flags ?a = flags"
      using D(1,2) sc by (simp_all add: ready_def)
    have "flags AND TDEFL_WRITE_ZLIB_HEADER \<noteq> 0 \<longrightarrow> m_adler32 ?a = mz_adler32 1 (Some ?in)"
      using sc(2) zlib_adler_flags [of flags] by (cases pBuf) (auto simp: given_def adler_of_nothing)
    then show ?thesis
      using finish_call [OF a(1)] D a fits p True call whole_stream_cong by force
  next
    case False
    then show ?thesis using loop(3,4) call by auto
  qed
qed

end

end
