(* ===== verification/Mz_Memory.thy ===== *)
theory Mz_Memory
  imports Mz_Run
begin

unbundle bit_operations_syntax

text \<open>
  Compressing a block of memory (\<open>proj/sparc-prog/miniz.c\<close>): the callback of
  \<open>tdefl_compress_mem_to_mem\<close> and \<open>tdefl_compress_mem_to_heap\<close> keeps the promise of a callback, and what
  the two leave in the buffer is a stream that stands for the input.
\<close>

section \<open>The output buffer as a callback\<close>

definition used_bytes :: "tdefl_output_buffer \<Rightarrow> u8 list" where
  "used_bytes p = take (unat (m_size p)) (m_pBuf p)"

text \<open>The buffer has the capacity it claims.  For one that does not grow, the capacity is so far from the
  end of \<open>size_t\<close> that the new size does not wrap.\<close>

definition buffer_ok :: "tdefl_output_buffer \<Rightarrow> bool" where
  "buffer_ok p \<longleftrightarrow> length (m_pBuf p) = unat (m_capacity p) \<and> m_size p \<le> m_capacity p"

definition fixed_buffer :: "nat \<Rightarrow> tdefl_output_buffer \<Rightarrow> bool" where
  "fixed_buffer n p \<longleftrightarrow> buffer_ok p \<and> \<not> m_expandable p \<and> length (m_pBuf p) = n \<and> n \<le> 2 ^ 32 - 2 ^ 17"

lemma new_size:
  assumes "unat (m_size p) \<le> 2 ^ 32 - 2 ^ 17" and "length bs \<le> TDEFL_OUT_BUF_SIZE"
  shows "unat (m_size p + of_nat (length bs)) = unat (m_size p) + length bs"
proof -
  have l: "length bs \<le> 85196" using assms(2) by (simp add: TDEFL_OUT_BUF_SIZE_def TDEFL_LZ_CODE_BUF_SIZE_def)
  then have "unat (of_nat (length bs) :: u32) = length bs" by (simp add: unat_of_nat take_bit_nat_eq_self)
  then show ?thesis using assms(1) l by (subst unat_add_lem [THEN iffD1]) simp_all
qed

text \<open>Bytes that fit are stored behind the ones in use.\<close>

definition store_bytes :: "u8 list \<Rightarrow> tdefl_output_buffer \<Rightarrow> tdefl_output_buffer" where
  "store_bytes bs p = p\<lparr>m_pBuf := take (unat (m_size p)) (m_pBuf p) @ bs @ drop (unat (m_size p) + length bs) (m_pBuf p),
     m_size := m_size p + of_nat (length bs)\<rparr>"

lemma putter_cases:
  "tdefl_output_buffer_putter realloc bs p =
    (if \<not> m_capacity p < m_size p + of_nat (length bs) then Some (True, store_bytes bs p)
     else if \<not> m_expandable p then Some (False, p)
     else do {
       n \<leftarrow> grow_capacity (m_size p + of_nat (length bs)) (m_capacity p);
       Some (case realloc (m_pBuf p) n of None \<Rightarrow> (False, p)
         | Some buf \<Rightarrow> (True, store_bytes bs (p\<lparr>m_pBuf := buf, m_capacity := n\<rparr>))) })"
  unfolding tdefl_output_buffer_putter_def store_bytes_def Let_def by (simp cong: option.case_cong)

lemma store_bytes_ok:
  assumes "buffer_ok p" and "unat (m_size p + of_nat (length bs)) = unat (m_size p) + length bs"
    and "m_size p + of_nat (length bs) \<le> m_capacity p"
  shows "buffer_ok (store_bytes bs p)" and "m_expandable (store_bytes bs p) = m_expandable p"
    and "m_capacity (store_bytes bs p) = m_capacity p" and "length (m_pBuf (store_bytes bs p)) = length (m_pBuf p)"
    and "used_bytes (store_bytes bs p) = used_bytes p @ bs"
proof -
  have "unat (m_size p) + length bs \<le> length (m_pBuf p)"
    using assms by (simp add: buffer_ok_def word_le_nat_alt)
  then show "buffer_ok (store_bytes bs p)" "m_expandable (store_bytes bs p) = m_expandable p"
    "m_capacity (store_bytes bs p) = m_capacity p" "length (m_pBuf (store_bytes bs p)) = length (m_pBuf p)"
    "used_bytes (store_bytes bs p) = used_bytes p @ bs"
    using assms by (simp_all add: store_bytes_def used_bytes_def buffer_ok_def)
qed

lemma buffer_size: "buffer_ok p \<Longrightarrow> unat (m_size p) \<le> length (m_pBuf p)"
  by (simp add: buffer_ok_def word_le_nat_alt)

interpretation mem: callback "tdefl_output_buffer_putter (\<lambda>_ _. None)" "fixed_buffer n" used_bytes
proof unfold_locales
  fix p :: tdefl_output_buffer and bs :: "u8 list"
  assume p: "fixed_buffer n p" and bs: "length bs \<le> TDEFL_OUT_BUF_SIZE"
  then have "unat (m_size p) \<le> 2 ^ 32 - 2 ^ 17" using buffer_size [of p] by (simp add: fixed_buffer_def)
  note s = new_size [OF this bs]
  show "\<exists>ok u'. tdefl_output_buffer_putter (\<lambda>_ _. None) bs p = Some (ok, u') \<and> fixed_buffer n u' \<and>
    (ok \<longrightarrow> used_bytes u' = used_bytes p @ bs)"
  proof (cases "m_capacity p < m_size p + of_nat (length bs)")
    case True
    then show ?thesis using p by (intro exI [of _ False] exI [of _ p]) (simp add: putter_cases fixed_buffer_def)
  next
    case False
    then show ?thesis using p store_bytes_ok [OF _ s]
      by (intro exI [of _ True] exI [of _ "store_bytes bs p"]) (simp add: putter_cases fixed_buffer_def not_less)
  qed
qed

section \<open>A buffer that grows\<close>

text \<open>The capacities are 0 and the powers of two from 128 on.\<close>

definition grown :: "nat \<Rightarrow> u32 \<Rightarrow> bool" where
  "grown k c \<longleftrightarrow> 7 \<le> k \<and> k \<le> 31 \<and> unat c = 2 ^ k"

lemma grown_step:
  "c = 0 \<Longrightarrow> grown 7 (max 128 (push_bit 1 c))"
  "grown k c \<Longrightarrow> k < 31 \<Longrightarrow> grown (Suc k) (max 128 (push_bit 1 c))"
proof -
  show "c = 0 \<Longrightarrow> grown 7 (max 128 (push_bit 1 c))" by (simp add: grown_def)
  assume g: "grown k c" and k: "k < 31"
  have "(2::nat) ^ Suc k \<le> 2 ^ 31" using k by (intro power_increasing) simp_all
  then have "unat (push_bit 1 c) = 2 ^ Suc k"
    using g by (simp add: grown_def push_bit_eq_mult unat_word_ariths)
  moreover have "(128::nat) \<le> 2 ^ Suc k" using g power_increasing [of 7 "Suc k" "2::nat"] by (simp add: grown_def)
  ultimately show "grown (Suc k) (max 128 (push_bit 1 c))"
    using g k by (simp add: grown_def max_def word_le_nat_alt)
qed

lemma grow_from:
  assumes "grown k c" and "unat n \<le> 2 ^ 31" and "c < n"
  shows "\<exists>c' k'. grow_capacity n c = Some c' \<and> grown k' c' \<and> n \<le> c'"
  using assms
proof (induction "31 - k" arbitrary: k c)
  case 0
  then show ?case by (simp add: grown_def word_less_nat_alt)
next
  case (Suc m)
  then have g: "grown (Suc k) (max 128 (push_bit 1 c))" by (intro grown_step) simp_all
  show ?case
  proof (cases "max 128 (push_bit 1 c) < n")
    case True
    then show ?thesis using Suc.hyps(1) [OF _ g Suc.prems(2) True] Suc.hyps(2)
      by (subst grow_capacity.simps) (simp add: Let_def)
  next
    case False
    then have "grow_capacity n c = Some (max 128 (push_bit 1 c))" by (subst grow_capacity.simps) (simp only: Let_def False if_False)
    then show ?thesis using g False linorder_not_less by blast
  qed
qed

lemma grow_capacity_ends:
  assumes "c = 0 \<or> (\<exists>k. grown k c)" and "unat n \<le> 2 ^ 31" and "c < n"
  shows "\<exists>c' k'. grow_capacity n c = Some c' \<and> grown k' c' \<and> n \<le> c'"
proof (cases "c = 0")
  case True
  note g = grown_step(1) [OF True]
  show ?thesis
  proof (cases "max 128 (push_bit 1 c) < n")
    case t: True
    then show ?thesis using grow_from [OF g assms(2)] by (subst grow_capacity.simps) (simp add: Let_def)
  next
    case False
    then have "grow_capacity n c = Some (max 128 (push_bit 1 c))" by (subst grow_capacity.simps) (simp only: Let_def False if_False)
    then show ?thesis using g False linorder_not_less by blast
  qed
next
  case False
  then show ?thesis using assms grow_from by blast
qed

text \<open>What the code relies on: \<open>realloc\<close> gives a block of the size asked for that keeps the contents, or
  fails; half of the address space it never gives.\<close>

definition reallocates :: "(u8 list \<Rightarrow> u32 \<Rightarrow> u8 list option) \<Rightarrow> bool" where
  "reallocates realloc \<longleftrightarrow> (\<forall>buf n. 2 ^ 31 \<le> unat n \<longrightarrow> realloc buf n = None) \<and>
     (\<forall>buf n buf'. realloc buf n = Some buf' \<longrightarrow> length buf' = unat n \<and> take (length buf) buf' = take (unat n) buf)"

definition growing_buffer :: "tdefl_output_buffer \<Rightarrow> bool" where
  "growing_buffer p \<longleftrightarrow> buffer_ok p \<and> m_expandable p \<and> (m_capacity p = 0 \<or> (\<exists>k < 31. grown k (m_capacity p)))"

lemma growing_callback:
  assumes "reallocates realloc"
  shows "callback (tdefl_output_buffer_putter realloc) growing_buffer used_bytes"
proof unfold_locales
  fix p :: tdefl_output_buffer and bs :: "u8 list"
  assume p: "growing_buffer p" and bs: "length bs \<le> TDEFL_OUT_BUF_SIZE"
  then have ok: "buffer_ok p" "m_expandable p" by (simp_all add: growing_buffer_def)
  let ?n = "m_size p + of_nat (length bs)"
  have "unat (m_capacity p) \<le> 2 ^ 30"
    using p power_increasing [of _ 30 "2::nat"] by (fastforce simp: growing_buffer_def grown_def simp flip: power_numeral)
  moreover have "unat (m_size p) \<le> unat (m_capacity p)" using buffer_size [OF ok(1)] ok(1) by (simp add: buffer_ok_def)
  ultimately have "unat (m_size p) \<le> 2 ^ 30" by simp
  moreover from this have s: "unat ?n = unat (m_size p) + length bs" by (intro new_size [OF _ bs]) simp
  moreover have "length bs \<le> 85196" using bs by (simp add: TDEFL_OUT_BUF_SIZE_def TDEFL_LZ_CODE_BUF_SIZE_def)
  ultimately have small: "unat ?n \<le> 2 ^ 31" by simp
  show "\<exists>ok u'. tdefl_output_buffer_putter realloc bs p = Some (ok, u') \<and> growing_buffer u' \<and>
    (ok \<longrightarrow> used_bytes u' = used_bytes p @ bs)"
  proof (cases "m_capacity p < ?n")
    case False
    then show ?thesis using p store_bytes_ok [OF ok(1) s]
      by (intro exI [of _ True] exI [of _ "store_bytes bs p"]) (simp add: putter_cases growing_buffer_def not_less)
  next
    case True
    have "m_capacity p = 0 \<or> (\<exists>k. grown k (m_capacity p))" using p by (auto simp: growing_buffer_def)
    from grow_capacity_ends [OF this small True] obtain c k where c: "grow_capacity ?n (m_capacity p) = Some c" "grown k c" "?n \<le> c"
      by blast
    show ?thesis
    proof (cases "realloc (m_pBuf p) c")
      case None
      then show ?thesis using p True c(1) ok(2) by (intro exI [of _ False] exI [of _ p]) (simp add: putter_cases)
    next
      case (Some buf)
      let ?p = "p\<lparr>m_pBuf := buf, m_capacity := c\<rparr>"
      have b: "length buf = unat c" "take (length (m_pBuf p)) buf = take (unat c) (m_pBuf p)" "\<not> 2 ^ 31 \<le> unat c"
        using assms Some by (auto simp: reallocates_def)
      then have "k < 31" using c(2) by (cases "k = 31") (simp_all add: grown_def)
      have "m_capacity p \<le> c" using True c(3) by simp
      then have le: "length (m_pBuf p) \<le> unat c" "m_size p \<le> c"
        using ok(1) by (auto simp: buffer_ok_def word_le_nat_alt)
      have "buffer_ok ?p" using b(1) le(2) by (simp add: buffer_ok_def)
      moreover have "used_bytes ?p = used_bytes p"
      proof -
        have "take (unat (m_size p)) buf = take (unat (m_size p)) (take (length (m_pBuf p)) buf)"
          using buffer_size [OF ok(1)] by (simp add: min_absorb1)
        also have "\<dots> = take (unat (m_size p)) (m_pBuf p)" using b(2) le(1) by simp
        finally show ?thesis by (simp add: used_bytes_def)
      qed
      moreover have "m_size ?p + of_nat (length bs) \<le> m_capacity ?p" "m_size ?p = m_size p" using c(3) by simp_all
      ultimately show ?thesis using store_bytes_ok [of ?p bs] s True c(1,2) \<open>k < 31\<close> Some ok(2)
        by (intro exI [of _ True] exI [of _ "store_bytes bs ?p"]) (auto simp: putter_cases growing_buffer_def)
    qed
  qed
qed

section \<open>What is in the buffer\<close>

lemma compress_to_output_result:
  assumes put: "\<And>u bs. good u \<Longrightarrow> length bs \<le> TDEFL_OUT_BUF_SIZE \<Longrightarrow>
      \<exists>u'. put bs u = Some (True, u') \<and> good u' \<and> sent u' = sent u @ bs"
    and user: "good user" "sent user = []" and pComp: "stream_arrays pComp" and len: "length src < 2 ^ 32"
    and fits: "flags AND TDEFL_FORCE_ALL_STATIC_BLOCKS \<noteq> 0 \<or> length src \<le> 40000"
  shows "\<exists>user'. tdefl_compress_mem_to_output (Some pComp) (Some src) (length src) (Some put) user flags = Some (True, user') \<and>
    whole_stream flags (mz_adler32 1 (Some src)) (sent user') src"
proof -
  have c: "callback put good sent" using put by unfold_locales blast
  have g: "given (Some src) (length src) = src" by (simp add: given_def)
  have r: "\<not> callback.refused put good"
  proof
    assume "callback.refused put good"
    then obtain u bs u' where "good u" "put bs u = Some (False, u')" "length bs \<le> TDEFL_OUT_BUF_SIZE"
      by (auto simp: callback.refused_def [OF c])
    then show False using put by fastforce
  qed
  show ?thesis
    using callback.compress_to_callback [OF c pComp user, of "Some src" "length src" flags] r len fits
    by (auto simp: g)
qed

text \<open>C13: A block of memory is compressed into any callback that accepts what it is given: the call
  returns true, and the callback has received a whole stream that stands for the input: a zlib header
  if the flags ask for one, blocks that a decoder after RFC 1951 expands to the input, less than
  eight bits of padding, and with a header the input's Adler-32.  (Inputs below 4 GB, for any flags; with
  fixed tables, or of at most 40000 bytes.)\<close>

theorem compress_reaches_callback:
  assumes put: "\<And>u bs. good u \<Longrightarrow> length bs \<le> TDEFL_OUT_BUF_SIZE \<Longrightarrow>
      \<exists>u'. put bs u = Some (True, u') \<and> good u' \<and> sent u' = sent u @ bs"
    and user: "good user" "sent user = []" and pComp: "stream_arrays pComp" and len: "length src < 2 ^ 32"
    and fits: "flags AND TDEFL_FORCE_ALL_STATIC_BLOCKS \<noteq> 0 \<or> length src \<le> 40000"
  shows "\<exists>user'. tdefl_compress_mem_to_output (Some pComp) (Some src) (length src) (Some put) user flags = Some (True, user') \<and>
    whole_stream flags (mz_adler32 1 (Some src)) (sent user') src"
  using assms by (rule compress_to_output_result)

definition demo_stream :: "'u \<Rightarrow> 'u tdefl_stream" where
  "demo_stream user = \<lparr>lz = demo_lz, m_pPut_buf_func = None, m_pPut_buf_user = user, m_flags = 7, m_greedy_parsing = True,
     m_adler32 = 0, m_lz_code_buf_dict_pos = 5, m_output_flush_ofs = 2, m_output_flush_remaining = 1, m_finished = True,
     m_block_index = 9, m_wants_to_finish = True, m_prev_return_status = TDEFL_STATUS_DONE, m_pIn_buf = None, m_pIn_buf_size = None,
     m_pOut_buf = None, m_pOut_buf_size = None, m_flush = TDEFL_NO_FLUSH, m_pSrc = [], m_out_buf_ofs = 0, m_output_buf = []\<rparr>"

definition demo_user :: tdefl_output_buffer where
  "demo_user = \<lparr>m_size = 0, m_capacity = 0, m_pBuf = [], m_expandable = False\<rparr>"

lemma demo_lengths: "length [a, b, e] = 3" "length [a, b, e, f, g, h] = 6"
  by simp_all

lemma demo_stream_arrays: "stream_arrays (demo_stream user)"
  by (simp add: stream_arrays_def demo_stream_def demo_lz_def huff_arrays_def demo_compressor_def TDEFL_LZ_CODE_BUF_SIZE_def)

theorem compress_reaches_callback_witness:
  "\<exists>out. tdefl_compress_mem_to_output (Some (demo_stream [])) (Some [97, 98, 97, 98, 97, 98]) 6
      (Some (\<lambda>bs out. Some (True, out @ bs))) [] 0x1080 = Some (True, out) \<and>
    whole_stream 0x1080 (mz_adler32 1 (Some [97, 98, 97, 98, 97, 98])) out [97, 98, 97, 98, 97, 98]"
  using compress_reaches_callback [of "\<lambda>_. True" "\<lambda>bs out. Some (True, out @ bs)" id "[]" "demo_stream []"
      "[97, 98, 97, 98, 97, 98]" "0x1080", unfolded demo_lengths]
  by (simp add: demo_stream_arrays)

lemma compress_mem_to_mem_result:
  assumes arr: "stream_arrays pComp" and buf: "length buf = unat out_len" "unat out_len \<le> 2 ^ 32 - 2 ^ 17"
    and len: "length src < 2 ^ 32" and fits: "flags AND TDEFL_FORCE_ALL_STATIC_BLOCKS \<noteq> 0 \<or> length src \<le> 40000"
  shows "\<exists>n buf'. tdefl_compress_mem_to_mem (Some pComp) (Some buf) out_len (Some src) (length src) flags = Some (n, Some buf') \<and>
    length buf' = length buf \<and> n \<le> out_len \<and>
    (n \<noteq> 0 \<longrightarrow> whole_stream flags (mz_adler32 1 (Some src)) (take (unat n) buf') src)"
proof -
  let ?p = "\<lparr>m_size = 0, m_capacity = out_len, m_pBuf = buf, m_expandable = False\<rparr>"
  have p: "fixed_buffer (length buf) ?p" "used_bytes ?p = []" using buf by (simp_all add: fixed_buffer_def buffer_ok_def used_bytes_def)
  obtain ok p' where c: "tdefl_compress_mem_to_output (Some pComp) (Some src) (length src)
      (Some (tdefl_output_buffer_putter (\<lambda>_ _. None))) ?p flags = Some (ok, p')" "fixed_buffer (length buf) p'"
    "ok \<longrightarrow> whole_stream flags (mz_adler32 1 (Some src)) (used_bytes p') src"
    using mem.compress_to_callback [OF arr p, of "Some src" "length src" flags] len fits by (auto simp: given_def)
  have "unat (m_size p') \<le> length (m_pBuf p')" "length (m_pBuf p') = length buf"
    using c(2) buffer_size [of p'] by (simp_all add: fixed_buffer_def)
  then have "m_size p' \<le> out_len" using buf(1) by (simp add: word_le_nat_alt)
  then show ?thesis using c buf(1)
    by (simp add: tdefl_compress_mem_to_mem_def fixed_buffer_def used_bytes_def)
qed

text \<open>C10: Compressing from memory to memory loses nothing.  For a buffer of the size
  that is claimed (at most 4 GB less 128 KB), whatever it and the new compressor contain, \<open>tdefl_compress_mem_to_mem\<close> returns, does not
  write beyond the buffer, and either reports 0 or the number of bytes of a whole stream: a zlib
  header if the flags ask for one, blocks that a decoder after RFC 1951 expands to the input, less
  than eight bits of padding, and with a header the input's Adler-32.  (Inputs below 4 GB, for any
  flags; with fixed tables, or of at most 40000 bytes.)\<close>

theorem mem_to_mem_is_whole_stream:
  assumes arr: "stream_arrays pComp" and buf: "length buf = unat out_len" "unat out_len \<le> 2 ^ 32 - 2 ^ 17"
    and len: "length src < 2 ^ 32" and fits: "flags AND TDEFL_FORCE_ALL_STATIC_BLOCKS \<noteq> 0 \<or> length src \<le> 40000"
  shows "\<exists>n buf'. tdefl_compress_mem_to_mem (Some pComp) (Some buf) out_len (Some src) (length src) flags = Some (n, Some buf') \<and>
    length buf' = length buf \<and> n \<le> out_len \<and>
    (n \<noteq> 0 \<longrightarrow> whole_stream flags (mz_adler32 1 (Some src)) (take (unat n) buf') src)"
  using assms by (rule compress_mem_to_mem_result)

theorem mem_to_mem_is_whole_stream_witness:
  "\<exists>n buf'. tdefl_compress_mem_to_mem (Some (demo_stream demo_user)) (Some (replicate 64 0)) 64 (Some [1, 2, 3, 1, 2, 3]) 6 0x1080 = Some (n, Some buf') \<and>
    length buf' = 64 \<and> n \<le> 64 \<and>
    (n \<noteq> 0 \<longrightarrow> whole_stream 0x1080 (mz_adler32 1 (Some [1, 2, 3, 1, 2, 3])) (take (unat n) buf') [1, 2, 3, 1, 2, 3])"
  using mem_to_mem_is_whole_stream [OF demo_stream_arrays [of demo_user], of "replicate 64 0" 64 "[1, 2, 3, 1, 2, 3]" "0x1080", unfolded demo_lengths]
  by simp

text \<open>C14: Compressing to the heap.  If \<open>realloc\<close> keeps the contents of a block and never
  gives half of the address space, \<open>tdefl_compress_mem_to_heap\<close> returns (the capacity stops doubling),
  and gives no buffer, or one that holds a whole stream for the input, with its length.
  (Inputs below 4 GB, for any flags; with fixed tables, or of at most 40000 bytes.)\<close>

theorem mem_to_heap_is_whole_stream:
  assumes arr: "stream_arrays pComp" and heap: "reallocates realloc"
    and len: "length src < 2 ^ 32" and fits: "flags AND TDEFL_FORCE_ALL_STATIC_BLOCKS \<noteq> 0 \<or> length src \<le> 40000"
  shows "\<exists>r. tdefl_compress_mem_to_heap realloc (Some pComp) (Some src) (length src) flags = Some r \<and>
    (\<forall>buf n. r = Some (buf, n) \<longrightarrow> unat n \<le> length buf \<and>
      whole_stream flags (mz_adler32 1 (Some src)) (take (unat n) buf) src)"
proof -
  let ?p = "\<lparr>m_size = 0, m_capacity = 0, m_pBuf = [], m_expandable = True\<rparr>"
  have p: "growing_buffer ?p" "used_bytes ?p = []" by (simp_all add: growing_buffer_def buffer_ok_def used_bytes_def)
  obtain ok p' where c: "tdefl_compress_mem_to_output (Some pComp) (Some src) (length src)
      (Some (tdefl_output_buffer_putter realloc)) ?p flags = Some (ok, p')" "growing_buffer p'"
    "ok \<longrightarrow> whole_stream flags (mz_adler32 1 (Some src)) (used_bytes p') src"
    using callback.compress_to_callback [OF growing_callback [OF heap] arr p, of "Some src" "length src" flags] len fits
    by (auto simp: given_def)
  have "unat (m_size p') \<le> length (m_pBuf p')" using c(2) buffer_size [of p'] by (simp add: growing_buffer_def)
  then show ?thesis using c by (simp add: tdefl_compress_mem_to_heap_def used_bytes_def)
qed

theorem mem_to_heap_is_whole_stream_witness:
  "\<exists>r. tdefl_compress_mem_to_heap (\<lambda>buf n. if unat n < 2 ^ 31 then Some (take (unat n) (buf @ replicate (unat n) 0)) else None)
      (Some (demo_stream demo_user)) (Some [1, 2, 3]) 3 0x80 = Some r \<and>
    (\<forall>buf n. r = Some (buf, n) \<longrightarrow> unat n \<le> length buf \<and> whole_stream 0x80 (mz_adler32 1 (Some [1, 2, 3])) (take (unat n) buf) [1, 2, 3])"
proof -
  have "reallocates (\<lambda>buf n. if unat n < 2 ^ 31 then Some (take (unat n) (buf @ replicate (unat n) 0)) else None)"
    by (auto simp: reallocates_def min_def)
  from mem_to_heap_is_whole_stream [OF demo_stream_arrays [of demo_user] this, of "[1, 2, 3]" "0x80", unfolded demo_lengths] show ?thesis by simp
qed

section \<open>Rounds\<close>

text \<open>C15: Every round of the main loop keeps the compressor well-formed.  From a compressor
  that is well-formed between two rounds, with input or lookahead left and room for an item in the buffer of LZ codes,
  the dictionary is filled and the parser makes a step: it returns (no index leaves an array), all arrays keep their
  sizes, the window holds the input around the new position, and the items recorded so far stand for
  the input up to there.\<close>

theorem round_keeps_compressor:
  assumes p: "parsed items out data P d" and more: "src \<noteq> [] \<or> m_lookahead_size d \<noteq> 0"
    and room: "m_pLZ_code_buf d + 8 \<le> TDEFL_LZ_CODE_BUF_SIZE"
  shows "\<exists>rest l l' new n. fill_dict src d = (rest, l) \<and> parse_step flags greedy l = Some l' \<and> 1 \<le> n \<and>
    parsed (items @ new) out (data @ take (length src - length rest) src) (P + n) l' \<and>
    lz_arrays l' \<and> huff_arrays (coder l') \<and> length (m_lz_code_buf l') = TDEFL_LZ_CODE_BUF_SIZE"
proof -
  have W: "window P data d" using p by (simp add: parsed_def)
  obtain cs rest l where f: "fill_dict src d = (rest, l)" "src = cs @ rest" "window P (data @ cs) l" "same_codes d l"
    "rest = [] \<or> m_lookahead_size l = 258"
    using fill_dict_result [OF W, of src] by blast
  note F = same_codes_facts [OF f(4)]
  have la: "m_lookahead_size l \<noteq> 0" using lookahead_left [OF W f(3) more f(2,5)] .
  have "m_pLZ_code_buf l + 8 \<le> TDEFL_LZ_CODE_BUF_SIZE" using room F(5) by simp
  from parse_step_result [OF parsed_more [OF p f(3,4)] la this, of flags greedy] obtain n l' new where
    s: "parse_step flags greedy l = Some l'" "1 \<le> n" "parsed (items @ new) out (data @ cs) (P + n) l'" by blast
  have "take (length src - length rest) src = cs" using f(2) by simp
  moreover have "lz_arrays l'" "huff_arrays (coder l')" "length (m_lz_code_buf l') = TDEFL_LZ_CODE_BUF_SIZE"
    using s(3) by (simp_all add: parsed_def window_def filling_def stands_for_def lz_ok_def lz_counted_def)
  ultimately show ?thesis using f(1) s by (intro exI [of _ rest] exI [of _ l] exI [of _ l'] exI [of _ new] exI [of _ n]) simp
qed

theorem round_keeps_compressor_witness:
  "\<exists>rest l l' new n. fill_dict [97, 98, 97] (lz (snd (tdefl_init None () 0x80 (demo_stream ())))) = (rest, l) \<and>
    parse_step 0x80 False l = Some l' \<and> 1 \<le> n \<and> parsed ([] @ new) [] ([] @ take (3 - length rest) [97, 98, 97]) (0 + n) l' \<and> lz_arrays l'"
proof -
  note I = init_parsed [OF demo_stream_arrays [of "()"], of None "()" "0x80"]
  have "m_pLZ_code_buf (lz (snd (tdefl_init None () 0x80 (demo_stream ())))) + 8 \<le> TDEFL_LZ_CODE_BUF_SIZE"
    unfolding I(5) by (simp add: TDEFL_LZ_CODE_BUF_SIZE_def)
  from round_keeps_compressor [OF I(1) _ this, of "[97, 98, 97]" "0x80" False, unfolded demo_lengths] show ?thesis by blast
qed

end
