(* ===== verification/Mz_Restore.thy ===== *)
theory Mz_Restore
  imports Mz_Dynamic Mz_Memory
begin

unbundle bit_operations_syntax

text \<open>
  The decompressor of \<open>proj/sparc-prog/miniz.c\<close> on a whole stream: stored blocks, the loop over the
  blocks, header and checksum.  It restores what the reference decoder reads from the stream, and
  so what was compressed.
\<close>

section \<open>Stored blocks\<close>

lemma aligned_byte_result:
  assumes r: "reads s bs" and x: "read_bits 8 bs = Some (x, bs')"
  shows "\<exists>s'. get_aligned_byte flags i j s = here (of_nat x) s' \<and> reads s' bs' \<and> still s' = still s"
proof (cases "m_num_bits s = 0")
  case False
  then show ?thesis using get_bits_result [OF r, of 8 x bs' flags i] x by (simp add: get_aligned_byte_def)
next
  case True
  then have b: "bs = bits_of_bytes (pIn_buf_cur s)" "buf_ok s" using r by (simp_all add: reads_def bits_left_def low_bits_def)
  then have "pIn_buf_cur s \<noteq> []" using x by (auto simp: read_bits_def bits_of_bytes_def split: if_splits)
  then obtain c cs where c: "pIn_buf_cur s = c # cs" by (cases "pIn_buf_cur s") auto
  then have "bs = low_bits 8 c @ bits_of_bytes cs" using b(1) by (simp add: bits_of_bytes_def)
  moreover have "unat c < 2 ^ 8" using unsigned_less [of c] by simp
  ultimately have "x = unat c" "bs' = bits_of_bytes cs" using x read_bits_low [of 8 c "bits_of_bytes cs"] by (simp_all add: take_bit_nat_eq_self)
  moreover have "reads (s\<lparr>pIn_buf_cur := cs\<rparr>) (bits_of_bytes cs)" using True b(2) by (simp add: reads_def buf_ok_def bits_left_def low_bits_def)
  moreover have "(ucast c :: u32) = of_nat (unat (ucast c :: u32))" by simp
  then have "(ucast c :: u32) = of_nat (unat c)" by (simp add: unat_ucast_widen)
  ultimately show ?thesis using True c by (simp add: get_aligned_byte_def TINFL_GET_BYTE_def)
qed

lemma raw_from_bits_result:
  assumes "m_counter s = of_nat n" and "n < 2 ^ 16" and "reads s bs" and "read_bytes n bs = Some (xs, rest)"
    and "wrote buf s out" and "length out + n \<le> length buf"
  shows "\<exists>s' m bs' ys zs. raw_from_bits flags s = here () s' \<and> m_counter s' = of_nat m \<and> m \<le> n \<and> (m = 0 \<or> m_num_bits s' = 0) \<and> reads s' bs' \<and>
    read_bytes m bs' = Some (zs, rest) \<and> wrote buf s' (out @ ys) \<and> xs = ys @ zs \<and> length ys + m = n \<and> core s' = core s"
  using assms
proof (induction n arbitrary: s bs xs out)
  case 0
  then have "raw_from_bits flags s = here () s" by (subst raw_from_bits.simps) simp
  then show ?case using 0 by (intro exI [of _ s] exI [of _ 0] exI [of _ bs] exI [of _ "[]"] exI [of _ xs]) simp
next
  case (Suc n)
  have "unat (m_counter s) = Suc n" using Suc.prems(1,2) small_word [of "Suc n"] by simp
  then have ne: "m_counter s \<noteq> 0" by auto
  show ?case
  proof (cases "m_num_bits s = 0")
    case True
    then have "raw_from_bits flags s = here () s" by (subst raw_from_bits.simps) simp
    then show ?thesis using Suc.prems True
      by (intro exI [of _ s] exI [of _ "Suc n"] exI [of _ bs] exI [of _ "[]"] exI [of _ xs]) simp
  next
    case False
    obtain x bs1 ys where x: "read_bits 8 bs = Some (x, bs1)" "read_bytes n bs1 = Some (ys, rest)" "xs = of_nat x # ys"
      using Suc.prems(4) by (auto simp: bind_eq_Some_conv)
    obtain s1 where s1: "TINFL_GET_BITS flags 51 8 s = here (of_nat x) s1" "reads s1 bs1" "still s1 = still s"
      using get_bits_result [OF Suc.prems(3), of 8 x bs1 flags 51] x(1) by auto
    define s2 where "s2 = s1\<lparr>m_dist := of_nat x\<rparr>"
    have s2: "reads s2 bs1" "wrote buf s2 out" "core s2 = core s" "m_counter s2 = m_counter s"
      using s1(2) Suc.prems(5) wrote_still [OF s1(3)] still_core [OF s1(3)] still_same(1) [OF s1(3)] by (simp_all add: s2_def)
    have room: "length out < length buf" using Suc.prems(6) by simp
    have "x < 2 ^ 8" using read_bits_bound [OF x(1)] .
    then have ux: "ucast (of_nat x :: u32) = (of_nat x :: u8)" by (simp add: small_byte)
    obtain s3 where s3: "put_byte (of_nat x) s2 = Some s3" "wrote buf s3 (out @ [of_nat x])" "core s3 = core s2"
      "\<And>bs. reads s3 bs = reads s2 bs" "m_counter s3 = m_counter s2"
      using put_byte_result [OF s2(2) room] by metis
    let ?s3 = "s3\<lparr>m_counter := m_counter s3 - 1\<rparr>"
    have "m_counter ?s3 = of_nat n" using s3(5) s2(4) Suc.prems(1) by simp
    moreover have "reads ?s3 bs1" "wrote buf ?s3 (out @ [of_nat x])" using s3 s2 by simp_all
    moreover have "length (out @ [of_nat x :: u8]) + n \<le> length buf" "n < 2 ^ 16" using Suc.prems(2,6) by simp_all
    ultimately obtain s' m bs' ys' zs where h: "raw_from_bits flags ?s3 = here () s'" "m_counter s' = of_nat m" "m \<le> n" "m = 0 \<or> m_num_bits s' = 0"
      "reads s' bs'" "read_bytes m bs' = Some (zs, rest)" "wrote buf s' ((out @ [of_nat x]) @ ys')" "ys = ys' @ zs" "length ys' + m = n" "core s' = core ?s3"
      using Suc.IH [of ?s3 bs1 ys "out @ [of_nat x]"] x(2) by metis
    have "raw_from_bits flags s = here () s'"
      using ne False s1(1) out_full_wrote [OF s2(2)] room ux s3(1) h(1) by (subst raw_from_bits.simps) (simp add: Let_def s2_def)
    then show ?thesis using h x(3) s3(3) s2(3)
      by (intro exI [of _ s'] exI [of _ m] exI [of _ bs'] exI [of _ "of_nat x # ys'"] exI [of _ zs]) simp
  qed
qed

lemma read_bytes_whole:
  "read_bytes n (bits_of_bytes cs) = Some (xs, rest) \<Longrightarrow> n \<le> length cs \<and> xs = take n cs \<and> rest = bits_of_bytes (drop n cs)"
proof (induction n arbitrary: cs xs)
  case (Suc n)
  then obtain x bs1 ys where x: "read_bits 8 (bits_of_bytes cs) = Some (x, bs1)" "read_bytes n bs1 = Some (ys, rest)" "xs = of_nat x # ys"
    by (auto simp: bind_eq_Some_conv)
  then have "cs \<noteq> []" by (auto simp: read_bits_def bits_of_bytes_def split: if_splits)
  then obtain d ds where d: "cs = d # ds" by (cases cs) auto
  have "unat d < 2 ^ 8" using unsigned_less [of d] by simp
  then have "x = unat d" "bs1 = bits_of_bytes ds" using x(1) read_bits_low [of 8 d "bits_of_bytes ds"] d by (simp_all add: bits_of_bytes_def take_bit_nat_eq_self)
  then show ?case using Suc.IH [of ds ys] x(2,3) d by simp
qed simp

lemma raw_from_input_result:
  assumes "m_counter s = of_nat n" and "n < 2 ^ 16" and "n = 0 \<or> m_num_bits s = 0" and "reads s bs"
    and "read_bytes n bs = Some (xs, rest)" and "wrote buf s out" and "length out + n \<le> length buf"
  shows "\<exists>s'. raw_from_input flags s = here () s' \<and> reads s' rest \<and> wrote buf s' (out @ xs) \<and> core s' = core s"
proof (cases "n = 0")
  case True
  then show ?thesis using assms by (subst raw_from_input.simps) simp
next
  case False
  then have nb: "m_num_bits s = 0" using assms(3) by simp
  then have "bs = bits_of_bytes (pIn_buf_cur s)" using assms(4) by (simp add: reads_def bits_left_def low_bits_def)
  then have c: "n \<le> length (pIn_buf_cur s)" "xs = take n (pIn_buf_cur s)" "rest = bits_of_bytes (drop n (pIn_buf_cur s))"
    using read_bytes_whole assms(5) by blast+
  have u: "unat (m_counter s) = n" using assms(1,2) by (simp add: small_word)
  then have ne: "m_counter s \<noteq> 0" using False by auto
  have w: "pOut_buf_cur s = length out" "pOut_buf s = out @ drop (length out) buf" "length out \<le> length buf" using assms(6) by (simp_all add: wrote_def)
  have m: "min (min (length (pOut_buf s) - pOut_buf_cur s) (length (pIn_buf_cur s))) (unat (m_counter s)) = n"
    using c(1) u w assms(7) by simp
  let ?s = "s\<lparr>pOut_buf := out @ xs @ drop (n + length out) buf, pIn_buf_cur := drop n (pIn_buf_cur s), pOut_buf_cur := length out + n, m_counter := 0\<rparr>"
  have "pIn_buf_cur s \<noteq> []" using c(1) False by auto
  moreover have "\<not> out_full s" using out_full_wrote [OF assms(6)] assms(7) False by simp
  moreover have "m_counter s - of_nat n = 0" using assms(1) by simp
  ultimately have "raw_from_input flags s = raw_from_input flags ?s"
    using ne m w c(2) by (subst raw_from_input.simps) (simp add: Let_def)
  also have "\<dots> = here () ?s" by (subst raw_from_input.simps) simp
  finally have "raw_from_input flags s = here () ?s" .
  moreover have "reads ?s rest" using assms(4) nb c(3) by (simp add: reads_def buf_ok_def bits_left_def low_bits_def)
  moreover have "length xs = n" using c(1,2) by simp
  then have "wrote buf ?s (out @ xs)" using assms(7) by (simp add: wrote_def add.commute)
  moreover have "core ?s = core s" by (simp add: core_def)
  ultimately show ?thesis by blast
qed

text \<open>Sixteen bits are two bytes, the lower one first.\<close>

lemma read_bits_add:
  "read_bits (m + n) bs = do { (x, bs) \<leftarrow> read_bits m bs; (y, bs) \<leftarrow> read_bits n bs; Some (x + 2 ^ m * y, bs) }"
proof (cases "m + n \<le> length bs")
  case True
  have "take (m + n) bs = take m bs @ take n (drop m bs)" by (rule take_add)
  moreover have "m \<le> length bs" "n \<le> length bs - m" using True by simp_all
  ultimately show ?thesis using True by (simp add: read_bits_def horner_sum_append min_def add.commute)
qed (auto simp: read_bits_def)

lemma two_bytes: "x < 256 \<Longrightarrow> y < 256 \<Longrightarrow> (of_nat x OR push_bit 8 (of_nat y) :: u32) = of_nat (x + 256 * y)"
proof -
  assume "x < 256" "y < 256"
  then have "take_bit 8 x = x" by (simp add: take_bit_nat_eq_self)
  then have "x AND push_bit 8 y = 0"
    by (intro bit_eqI) (metis bit_and_iff bit_push_bit_iff bit_take_bit_iff not_less bit_0_eq bot_apply bot_bool_def)
  then have "x OR push_bit 8 y = x + 256 * y" by (simp add: disjunctive_add_eq_or [symmetric] push_bit_eq_mult mult.commute)
  then have "(of_nat (x OR push_bit 8 y) :: u32) = of_nat (x + 256 * y)" by (simp only:)
  then show ?thesis by (simp add: of_nat_or_eq of_nat_push_bit)
qed

lemma complement_16: "m + n = 65535 \<Longrightarrow> (of_nat m :: u32) = 0xFFFF XOR of_nat n"
proof -
  assume mn: "m + n = 65535"
  define k :: nat where "k = 16"
  have "take_bit k n = n" using mn by (simp add: take_bit_nat_eq_self k_def)
  then have b: "i < k" if "bit n i" for i using that by (metis bit_take_bit_iff)
  have "(mask k XOR n) AND n = 0" using b by (intro bit_eqI) (auto simp: bit_simps)
  moreover have "(mask k XOR n) OR n = mask k" using b by (intro bit_eqI) (auto simp: bit_simps)
  ultimately have "(mask k XOR n) + n = mask k" by (metis disjunctive_add_eq_or)
  moreover have "mask k = (65535 :: nat)" by (simp add: mask_eq_exp_minus_1 k_def)
  ultimately have "m = mask 16 XOR n" using mn by (simp add: k_def)
  then have "(of_nat m :: u32) = of_nat (mask 16 XOR n)" by simp
  then show ?thesis by (simp add: of_nat_xor_eq of_nat_mask_eq mask_eq_exp_minus_1)
qed

text \<open>What a block does not change.\<close>

definition kept :: "tinfl_run \<Rightarrow> tinfl_run \<Rightarrow> bool" where
  "kept s s' \<longleftrightarrow> arrays s' \<and> m_final s' = m_final s \<and> m_z_adler32 s' = m_z_adler32 s \<and> m_check_adler32 s' = m_check_adler32 s"

lemma kept_core: "arrays s \<Longrightarrow> core s' = core s \<Longrightarrow> kept s s'"
  using core_same [of s' s] by (simp add: kept_def arrays_def)

lemma kept_trans: "kept s s1 \<Longrightarrow> kept s1 s2 \<Longrightarrow> kept s s2"
  by (simp add: kept_def)

lemma kept_outer: "arrays s' \<Longrightarrow> outer s' = outer s \<Longrightarrow> kept s s'"
  using outer_same [of s' s] by (simp add: kept_def)

lemma raw_header_step:
  assumes "reads s bs" and "read_bits 8 bs = Some (x, bs')"
  obtains s' where "\<And>is. get_raw_header flags (i # is) s = get_raw_header flags is s'" and "reads s' bs'"
    and "m_raw_header s' = (m_raw_header s)[i := of_nat x]" and "core (s'\<lparr>m_raw_header := []\<rparr>) = core (s\<lparr>m_raw_header := []\<rparr>)"
    and "\<And>buf out. wrote buf s' out = wrote buf s out"
proof -
  have "reads (s\<lparr>m_counter := of_nat i\<rparr>) bs" using assms(1) by simp
  from aligned_byte_result [OF this assms(2), of flags 6 7] obtain s1 where
    s1: "get_aligned_byte flags 6 7 (s\<lparr>m_counter := of_nat i\<rparr>) = here (of_nat x) s1" "reads s1 bs'" "still s1 = still (s\<lparr>m_counter := of_nat i\<rparr>)" by blast
  have "x < 2 ^ 8" using read_bits_bound [OF assms(2)] .
  then have u: "ucast (of_nat x :: u32) = (of_nat x :: u8)" by (simp add: small_byte)
  let ?s = "s1\<lparr>m_raw_header := (m_raw_header s1)[i := of_nat x]\<rparr>"
  have "core (s1\<lparr>m_raw_header := []\<rparr>) = core (s\<lparr>m_raw_header := []\<rparr>)"
  proof -
    have "core (s\<lparr>m_raw_header := []\<rparr>) = (core s)\<lparr>m_raw_header := []\<rparr>" for s by (simp add: core_def)
    then show ?thesis using still_core [OF s1(3)] by simp
  qed
  then show ?thesis
    using s1(1,2) u still_same(10) [OF s1(3)] wrote_still [OF s1(3)] by (intro that [of ?s]) simp_all
qed

lemma four_elements:
  assumes "length xs = 4"
  obtains a b c d where "xs = [a, b, c, d]"
  using assms by (auto simp: numeral_eq_Suc length_Suc_conv)

lemma read_16: "read_bits 16 bs = do { (x, bs) \<leftarrow> read_bits 8 bs; (y, bs) \<leftarrow> read_bits 8 bs; Some (x + 256 * y, bs) }"
  using read_bits_add [of 8 8 bs] by simp

lemma read_16D: "read_bits 16 bs = Some (z, bs') \<Longrightarrow> \<exists>x y b. read_bits 8 bs = Some (x, b) \<and> read_bits 8 b = Some (y, bs') \<and> z = x + 256 * y"
  unfolding read_16 by (auto simp: bind_eq_Some_conv)

lemma read_storedD:
  assumes "read_stored bs = Some (xs, rest)"
  obtains len nlen b0 b1 b2 b3 c0 c1 c2 c3 where "read_bits 8 (to_boundary bs) = Some (b0, c0)" and "read_bits 8 c0 = Some (b1, c1)"
    and "read_bits 8 c1 = Some (b2, c2)" and "read_bits 8 c2 = Some (b3, c3)" and "len = b0 + 256 * b1" and "nlen = b2 + 256 * b3"
    and "len + nlen = 65535" and "read_bytes len c3 = Some (xs, rest)"
proof -
  obtain len nlen d1 d2 where h: "read_bits 16 (to_boundary bs) = Some (len, d1)" "read_bits 16 d1 = Some (nlen, d2)" "len + nlen = 65535"
    "read_bytes len d2 = Some (xs, rest)"
    using assms by (auto simp: read_stored_def bind_eq_Some_conv split: if_splits)
  from read_16D [OF h(1)] obtain b0 b1 c0 where "read_bits 8 (to_boundary bs) = Some (b0, c0)" "read_bits 8 c0 = Some (b1, d1)" "len = b0 + 256 * b1" by blast
  moreover from read_16D [OF h(2)] obtain b2 b3 c2 where "read_bits 8 d1 = Some (b2, c2)" "read_bits 8 c2 = Some (b3, d2)" "nlen = b2 + 256 * b3" by blast
  ultimately show ?thesis using that h(3,4) by blast
qed

lemma raw_block_result:
  assumes a: "arrays s" and r: "reads s bs" and st: "read_stored bs = Some (xs, rest)" and w: "wrote buf s out"
    and room: "length out + length xs \<le> length buf"
  shows "\<exists>s'. raw_block flags s = here () s' \<and> reads s' rest \<and> wrote buf s' (out @ xs) \<and> kept s s'"
proof -
  have "length bs mod 8 = unat (m_num_bits s) mod 8" using r by (auto simp: reads_def bits_left_def)
  moreover have "unat (m_num_bits s AND mask 3) = unat (m_num_bits s) mod 8" by (simp only: take_bit_eq_mask [symmetric] unsigned_take_bit_eq) (simp add: take_bit_eq_mod)
  ultimately have n: "unat (m_num_bits s AND 7) = length bs mod 8" by (simp add: mask_eq_exp_minus_1)
  have "length bs mod 8 \<le> length bs" "length bs mod 8 \<le> 16" by (simp_all add: less_imp_le [OF less_trans [of _ 8]])
  with skip_bits_result [OF r, of "m_num_bits s AND 7" flags 5] obtain s1 where
    s1: "TINFL_SKIP_BITS flags 5 (m_num_bits s AND 7) s = here () s1" "reads s1 (to_boundary bs)" "still s1 = still s"
    unfolding n to_boundary_def by blast
  obtain len nlen b0 b1 b2 b3 c0 c1 c2 c3 where h: "read_bits 8 (to_boundary bs) = Some (b0, c0)" "read_bits 8 c0 = Some (b1, c1)"
    "read_bits 8 c1 = Some (b2, c2)" "read_bits 8 c2 = Some (b3, c3)" "len = b0 + 256 * b1" "nlen = b2 + 256 * b3" "len + nlen = 65535"
    "read_bytes len c3 = Some (xs, rest)"
    by (rule read_storedD [OF st])
  have b: "b0 < 256" "b1 < 256" "b2 < 256" "b3 < 256"
    using read_bits_bound [OF h(1)] read_bits_bound [OF h(2)] read_bits_bound [OF h(3)] read_bits_bound [OF h(4)] by simp_all
  obtain r0 where r0: "\<And>is. get_raw_header flags (0 # is) s1 = get_raw_header flags is r0" "reads r0 c0" "m_raw_header r0 = (m_raw_header s1)[0 := of_nat b0]"
    "core (r0\<lparr>m_raw_header := []\<rparr>) = core (s1\<lparr>m_raw_header := []\<rparr>)" "\<And>buf out. wrote buf r0 out = wrote buf s1 out"
    using raw_header_step [OF s1(2) h(1)] by metis
  obtain r1 where r1: "\<And>is. get_raw_header flags (1 # is) r0 = get_raw_header flags is r1" "reads r1 c1" "m_raw_header r1 = (m_raw_header r0)[1 := of_nat b1]"
    "core (r1\<lparr>m_raw_header := []\<rparr>) = core (r0\<lparr>m_raw_header := []\<rparr>)" "\<And>buf out. wrote buf r1 out = wrote buf r0 out"
    using raw_header_step [OF r0(2) h(2)] by metis
  obtain r2 where r2: "\<And>is. get_raw_header flags (2 # is) r1 = get_raw_header flags is r2" "reads r2 c2" "m_raw_header r2 = (m_raw_header r1)[2 := of_nat b2]"
    "core (r2\<lparr>m_raw_header := []\<rparr>) = core (r1\<lparr>m_raw_header := []\<rparr>)" "\<And>buf out. wrote buf r2 out = wrote buf r1 out"
    using raw_header_step [OF r1(2) h(3)] by metis
  obtain r3 where r3: "\<And>is. get_raw_header flags (3 # is) r2 = get_raw_header flags is r3" "reads r3 c3" "m_raw_header r3 = (m_raw_header r2)[3 := of_nat b3]"
    "core (r3\<lparr>m_raw_header := []\<rparr>) = core (r2\<lparr>m_raw_header := []\<rparr>)" "\<And>buf out. wrote buf r3 out = wrote buf r2 out"
    using raw_header_step [OF r2(2) h(4)] by metis
  have g: "get_raw_header flags [0, 1, 2, 3] s1 = here () (r3\<lparr>m_counter := 4\<rparr>)"
    unfolding r0(1) r1(1) r2(1) r3(1) by simp
  have "length (m_raw_header s1) = 4" using a still_same(10) [OF s1(3)] by (simp add: arrays_def)
  then obtain w0 w1 w2 w3 where "m_raw_header s1 = [w0, w1, w2, w3]" by (rule four_elements)
  then have hd: "m_raw_header r3 = [of_nat b0, of_nat b1, of_nat b2, of_nat b3]" using r0(3) r1(3) r2(3) r3(3) by simp
  have up: "ucast (of_nat x :: u8) = (of_nat x :: u32)" if "x < 256" for x using that by (simp add: unsigned_of_nat take_bit_nat_eq_self)
  define s2 where "s2 = r3\<lparr>m_counter := of_nat len\<rparr>"
  have s2: "m_counter s2 = of_nat len" "reads s2 c3" "wrote buf s2 out" using r0(5) r1(5) r2(5) r3(2,5) w wrote_still [OF s1(3)] by (simp_all add: s2_def)
  have k2: "kept s s2"
  proof -
    have "core (s2\<lparr>m_raw_header := []\<rparr>) = core (r3\<lparr>m_raw_header := []\<rparr>)" by (simp add: s2_def core_def)
    then have "core (s2\<lparr>m_raw_header := []\<rparr>) = core (s1\<lparr>m_raw_header := []\<rparr>)" using r0(4) r1(4) r2(4) r3(4) by simp
    then have "m_final s2 = m_final s1" "m_tables s2 = m_tables s1" "m_table_sizes s2 = m_table_sizes s1" "m_len_codes s2 = m_len_codes s1"
      "m_z_adler32 s2 = m_z_adler32 s1" "m_check_adler32 s2 = m_check_adler32 s1"
      using core_same [of "s2\<lparr>m_raw_header := []\<rparr>" "s1\<lparr>m_raw_header := []\<rparr>"] by simp_all
    moreover have "length (m_raw_header s2) = 4" using hd by (simp add: s2_def)
    ultimately show ?thesis using a still_same [OF s1(3)] by (simp add: kept_def arrays_def)
  qed
  have len16: "len < 2 ^ 16" using h(7) by simp
  have lx: "length xs = len"
  proof -
    have "read_bytes n bs = Some (ys, rest) \<Longrightarrow> length ys = n" for n bs ys
      by (induction n arbitrary: bs ys) (auto simp: bind_eq_Some_conv)
    then show ?thesis using h(8) by blast
  qed
  obtain s3 m bs3 ys zs where s3: "raw_from_bits flags s2 = here () s3" "m_counter s3 = of_nat m" "m \<le> len" "m = 0 \<or> m_num_bits s3 = 0" "reads s3 bs3"
    "read_bytes m bs3 = Some (zs, rest)" "wrote buf s3 (out @ ys)" "xs = ys @ zs" "length ys + m = len" "core s3 = core s2"
    using raw_from_bits_result [OF s2(1) len16 s2(2) h(8) s2(3)] room lx by metis
  have "length (out @ ys) + m \<le> length buf" "m < 2 ^ 16" using s3(3,9) room lx len16 by simp_all
  with raw_from_input_result [OF s3(2) _ s3(4,5,6,7)] obtain s4 where
    s4: "raw_from_input flags s3 = here () s4" "reads s4 rest" "wrote buf s4 ((out @ ys) @ zs)" "core s4 = core s3" by blast
  have "raw_block flags s = here () s4"
    unfolding raw_block_def s1(1) go_on_simps g Let_def
    using hd two_bytes [OF b(1,2)] two_bytes [OF b(3,4)] complement_16 [OF h(7)] b s3(1) s4(1)
    by (simp add: up h(5,6) s2_def)
  moreover have "kept s s4" using kept_trans [OF k2 kept_core [OF _ , of s2 s4]] k2 s3(10) s4(4) by (simp add: kept_def)
  ultimately show ?thesis using s4(2,3) s3(8) by auto
qed


section \<open>A block\<close>

lemma kept_still: "arrays s \<Longrightarrow> still s' = still s \<Longrightarrow> kept s s'"
  using still_core kept_core by blast

lemma block_type:
  assumes "t < 4"
  shows "drop_bit 1 (of_nat (of_bool f + 2 * t) :: u32) = of_nat t" and "(of_nat (of_bool f + 2 * t) :: u32) AND 1 = of_bool f"
proof -
  have "t = 0 \<or> t = 1 \<or> t = 2 \<or> t = 3" using assms by linarith
  then show "drop_bit 1 (of_nat (of_bool f + 2 * t) :: u32) = of_nat t" "(of_nat (of_bool f + 2 * t) :: u32) AND 1 = of_bool f"
    by (cases f; auto)+
qed

lemma read_type:
  assumes "read_bits 2 bs = Some (t, rest)"
  shows "read_bits 3 (f # bs) = Some (of_bool f + 2 * t, rest)"
proof -
  have "read_bits 1 (f # bs) = Some (of_bool f, bs)" by (simp add: read_bits_def)
  moreover have "read_bits 3 (f # bs) = do { (x, bs) \<leftarrow> read_bits 1 (f # bs); (y, bs) \<leftarrow> read_bits 2 bs; Some (x + 2 ^ 1 * y, bs) }"
    using read_bits_add [of 1 2 "f # bs"] by (simp only: numeral_plus_numeral one_plus_numeral add_num_simps)
  ultimately show ?thesis using assms by simp
qed

lemma packed_block_result:
  assumes "table_for 288 lit (m_tables s ! 0)" and "table_for 32 dist (m_tables s ! 1)" and "read_items lit dist bs = Some (items, rest)"
    and "expand items out = Some out'" and "arrays s" and "reads s bs" and "wrote buf s out" and "length out' \<le> length buf" and "length buf < 2 ^ 32"
  shows "\<exists>s'. get_items flags (-1) s = here () s' \<and> reads s' rest \<and> wrote buf s' out' \<and> kept s s'"
  using get_items_result [OF assms(1,2,3,6,7,4,8,9)] kept_core [OF assms(5)] by blast

lemma one_block_result:
  assumes a: "arrays s" and r: "reads s (f # bs)" and b: "read_body out bs = Some (out', rest)" and w: "wrote buf s out"
    and room: "length out' \<le> length buf" "length buf < 2 ^ 32"
  shows "\<exists>s'. one_block flags (-1) s = here () s' \<and> reads s' rest \<and> wrote buf s' out' \<and> arrays s' \<and>
    m_final s' AND 1 = of_bool f \<and> m_z_adler32 s' = m_z_adler32 s \<and> m_check_adler32 s' = m_check_adler32 s"
proof -
  obtain t bs1 where t: "read_bits 2 bs = Some (t, bs1)" using b by (auto simp: read_body_def bind_eq_Some_conv)
  have t4: "t < 4" using read_bits_bound [OF t] by simp
  have "unat (3 :: u32) = 3" by simp
  with get_bits_result [OF r, of 3 "of_bool f + 2 * t" bs1 flags 3] read_type [OF t] obtain s0 where
    s0: "TINFL_GET_BITS flags 3 3 s = here (of_nat (of_bool f + 2 * t)) s0" "reads s0 bs1" "still s0 = still s" by auto
  define s1 where "s1 = s0\<lparr>m_final := of_nat (of_bool f + 2 * t), m_type := of_nat t\<rparr>"
  have k0: "kept s s0" by (rule kept_still [OF a s0(3)])
  have "wrote buf s0 out" using w wrote_still [OF s0(3)] by simp
  then have s1: "arrays s1" "reads s1 bs1" "wrote buf s1 out" "m_type s1 = of_nat t" "m_final s1 AND 1 = of_bool f"
    "m_z_adler32 s1 = m_z_adler32 s" "m_check_adler32 s1 = m_check_adler32 s"
    using k0 s0(2) block_type(2) [OF t4, of f]
    by (simp_all add: s1_def kept_def arrays_def reads_def buf_ok_def bits_left_def wrote_def)
  let ?rest = "if m_type s1 = 0 then raw_block flags s1
         else if m_type s1 = 3 then TINFL_CR_RETURN 10 TINFL_STATUS_FAILED s1
         else go_on (if m_type s1 = 1 then here () (fixed_sizes s1) else dynamic_sizes flags s1) (\<lambda>_ s.
              go_on (make_tables flags (unat (m_type s)) s) (\<lambda>_ s. get_items flags (-1) s))"
  have one: "one_block flags (-1) s = ?rest"
    by (simp only: one_block_def s0(1) go_on_simps Let_def block_type(1) [OF t4] s1_def)
  have "\<exists>s'. ?rest = here () s' \<and> reads s' rest \<and> wrote buf s' out' \<and> kept s1 s'"
  proof (cases "t = 0")
    case True
    with b t obtain xs where xs: "read_stored bs1 = Some (xs, rest)" "out' = out @ xs" by (auto simp: read_body_def bind_eq_Some_conv)
    show ?thesis using raw_block_result [OF s1(1,2) xs(1) s1(3)] room(1) True s1(4) by (simp add: xs(2))
  next
    case False
    with b t obtain items where it: "read_packed_block bs = Some (items, rest)" "expand items out = Some out'"
      by (auto simp: read_body_def bind_eq_Some_conv)
    show ?thesis
    proof (cases "t = 1")
      case True
      have ri: "read_items fixed_lit_sizes (replicate 32 5) bs1 = Some (items, rest)" using it(1) t True by (simp add: read_packed_block_def)
      obtain s2 where s2: "make_tables flags 1 (fixed_sizes s1) = here () s2" "reads s2 bs1" "arrays s2" "outer s2 = outer s1"
        "table_for 288 fixed_lit_sizes (m_tables s2 ! 0)" "table_for 32 (replicate 32 5) (m_tables s2 ! 1)"
        using fixed_tables [OF s1(1,2)] by blast
      have w2: "wrote buf s2 out" using outer_same [OF s2(4)] s1(3) by (simp add: wrote_def)
      have "m_type (fixed_sizes s1) = m_type s1" by (simp add: fixed_sizes_def set_code_sizes_def set_code_size_def Let_def)
      then have "?rest = get_items flags (-1) s2" using s1(4) True s2(1) by simp
      moreover obtain r where r: "get_items flags (-1) s2 = here () r" "reads r rest" "wrote buf r out'" "kept s2 r"
        using packed_block_result [OF s2(5,6) ri it(2) s2(3,2) w2 room] by blast
      moreover have "kept s1 r" by (rule kept_trans [OF kept_outer [OF s2(3,4)] r(4)])
      ultimately show ?thesis by (intro exI [of _ r] conjI) (simp_all only:)
    next
      case False
      with \<open>t \<noteq> 0\<close> it(1) t obtain lit dist bs2 where h: "t = 2" "read_dynamic_header bs1 = Some (lit, dist, bs2)" "read_items lit dist bs2 = Some (items, rest)"
        by (auto simp: read_packed_block_def bind_eq_Some_conv split: if_splits)
      have "m_type s1 = 2" using s1(4) h(1) by simp
      from dynamic_block_tables_result [OF s1(1,2) h(2) this] obtain s2 s3 where
        s2: "dynamic_sizes flags s1 = here () s2" "m_type s2 = 2" "make_tables flags 2 s2 = here () s3" "reads s3 bs2" "arrays s3" "outer s3 = outer s1"
        "table_for 288 lit (m_tables s3 ! 0)" "table_for 32 dist (m_tables s3 ! 1)" by blast
      have w2: "wrote buf s3 out" using outer_same [OF s2(6)] s1(3) by (simp add: wrote_def)
      have "?rest = get_items flags (-1) s3" using \<open>m_type s1 = 2\<close> s2(1,2,3) by simp
      moreover obtain r where r: "get_items flags (-1) s3 = here () r" "reads r rest" "wrote buf r out'" "kept s3 r"
        using packed_block_result [OF s2(7,8) h(3) it(2) s2(5,4) w2 room] by blast
      moreover have "kept s1 r" by (rule kept_trans [OF kept_outer [OF s2(5,6)] r(4)])
      ultimately show ?thesis by (intro exI [of _ r] conjI) (simp_all only:)
    qed
  qed
  then show ?thesis unfolding one using s1(5,6,7) by (auto simp: kept_def)
qed


section \<open>All blocks\<close>

lemma read_body_grows: "read_body out bs = Some (out', rest) \<Longrightarrow> length out \<le> length out'"
  by (auto simp: read_body_def bind_eq_Some_conv dest!: expand_grows split: if_splits)

lemma inflate_blocks_grows: "inflate_blocks out bs = Some r \<Longrightarrow> length out \<le> length (fst r)"
  by (erule inflate_blocks.raw_induct [where P = "\<lambda>out bs r. length out \<le> length (fst r)", rotated])
    (fastforce simp: bind_eq_Some_conv dest: read_body_grows split: list.splits if_splits)

definition restores :: "u32 \<Rightarrow> u8 list \<Rightarrow> u8 list \<Rightarrow> bool list \<Rightarrow> u8 list \<times> bool list \<Rightarrow> bool" where
  "restores flags buf out bs r \<longleftrightarrow> (\<forall>s. arrays s \<longrightarrow> reads s bs \<longrightarrow> wrote buf s out \<longrightarrow> length (fst r) \<le> length buf \<longrightarrow>
     (\<exists>s'. blocks flags (-1) s = here () s' \<and> reads s' (snd r) \<and> wrote buf s' (fst r) \<and>
       m_z_adler32 s' = m_z_adler32 s \<and> m_check_adler32 s' = m_check_adler32 s))"

lemma restores_last:
  assumes "read_body out bs = Some r" and "length buf < 2 ^ 32"
  shows "restores flags buf out (True # bs) r"
  unfolding restores_def
proof (intro allI impI)
  fix s
  assume s: "arrays s" "reads s (True # bs)" "wrote buf s out" "length (fst r) \<le> length buf"
  have "read_body out bs = Some (fst r, snd r)" using assms(1) by simp
  from one_block_result [OF s(1,2) this s(3,4) assms(2)] obtain s' where
    s': "one_block flags (-1) s = here () s'" "reads s' (snd r)" "wrote buf s' (fst r)" "m_final s' AND 1 = of_bool True"
    "m_z_adler32 s' = m_z_adler32 s" "m_check_adler32 s' = m_check_adler32 s" by blast
  have "blocks flags (-1) s = here () s'" using s'(1,4) by (subst blocks.simps) simp
  with s' show "\<exists>s'. blocks flags (-1) s = here () s' \<and> reads s' (snd r) \<and> wrote buf s' (fst r) \<and>
       m_z_adler32 s' = m_z_adler32 s \<and> m_check_adler32 s' = m_check_adler32 s" by blast
qed

lemma restores_next:
  assumes b: "read_body out bs = Some (out1, bs1)" and n: "restores flags buf out1 bs1 r" "length out1 \<le> length (fst r)" and l: "length buf < 2 ^ 32"
  shows "restores flags buf out (False # bs) r"
  unfolding restores_def
proof (intro allI impI)
  fix s
  assume s: "arrays s" "reads s (False # bs)" "wrote buf s out" "length (fst r) \<le> length buf"
  have "length out1 \<le> length buf" using n(2) s(4) by simp
  from one_block_result [OF s(1,2) b s(3) this l] obtain s1 where
    s1: "one_block flags (-1) s = here () s1" "reads s1 bs1" "wrote buf s1 out1" "arrays s1" "m_final s1 AND 1 = of_bool False"
    "m_z_adler32 s1 = m_z_adler32 s" "m_check_adler32 s1 = m_check_adler32 s" by blast
  have "blocks flags (-1) s = blocks flags (-1) s1" using s1(1,5) by (subst blocks.simps) simp
  moreover have "\<exists>s'. blocks flags (-1) s1 = here () s' \<and> reads s' (snd r) \<and> wrote buf s' (fst r) \<and>
       m_z_adler32 s' = m_z_adler32 s1 \<and> m_check_adler32 s' = m_check_adler32 s1"
    using n(1) s1(2,3,4) s(4) unfolding restores_def by blast
  ultimately show "\<exists>s'. blocks flags (-1) s = here () s' \<and> reads s' (snd r) \<and> wrote buf s' (fst r) \<and>
       m_z_adler32 s' = m_z_adler32 s \<and> m_check_adler32 s' = m_check_adler32 s" using s1(6,7) by simp
qed

lemma blocks_result:
  assumes "inflate_blocks out bs = Some r" and l: "length buf < 2 ^ 32"
  shows "length out \<le> length (fst r) \<and> restores flags buf out bs r"
  using assms(1)
proof (rule inflate_blocks.raw_induct [where P = "\<lambda>out bs r. length out \<le> length (fst r) \<and> restores flags buf out bs r", rotated])
  fix inflate out bs r
  assume IH: "\<And>out bs r. inflate out bs = Some r \<Longrightarrow> length out \<le> length (fst r) \<and> restores flags buf out bs r"
    and e: "(case bs of [] \<Rightarrow> None | final # bs \<Rightarrow> do { (out, bs) \<leftarrow> read_body out bs; if final then Some (out, bs) else inflate out bs }) = Some r"
  obtain f bs0 where bs: "bs = f # bs0" using e by (cases bs) auto
  obtain out1 bs1 where b: "read_body out bs0 = Some (out1, bs1)" using e bs by (auto simp: bind_eq_Some_conv)
  have g: "length out \<le> length out1" by (rule read_body_grows [OF b])
  show "length out \<le> length (fst r) \<and> restores flags buf out bs r"
  proof (cases f)
    case True
    then have "r = (out1, bs1)" using e bs b by simp
    then show ?thesis using g restores_last [OF b l] bs True by simp
  next
    case False
    then have "inflate out1 bs1 = Some r" using e bs b by simp
    from IH [OF this] show ?thesis using g restores_next [OF b _ _ l] bs False by auto
  qed
qed


section \<open>The zlib header and the checksum\<close>

lemma read_byte_of: "read_bits 8 (bits_of_bytes (b # bs)) = Some (unat b, bits_of_bytes bs)"
proof -
  have "unat b < 2 ^ 8" using unsigned_less [of b] by simp
  then show ?thesis using read_bits_low [of 8 b "bits_of_bytes bs"] by (simp add: take_bit_nat_eq_self bits_of_bytes_def)
qed

lemma header_bytes:
  assumes "bits_of_bytes inp = zlib_header cflags @ rest" and "cflags AND TDEFL_WRITE_ZLIB_HEADER \<noteq> 0"
  obtains cs where "inp = 0x78 # 1 # cs" and "rest = bits_of_bytes cs"
proof -
  have "low_bits 8 (0x78 :: u32) @ low_bits 8 (1 :: u32) = concat (map (low_bits 8) [0x78, 1 :: u8])"
    by (simp add: low_bits_def bit_1_iff upt_rec_numeral)
  then have "read_bytes 2 (bits_of_bytes inp) = Some ([0x78, 1], rest)"
    unfolding assms(1) zlib_header_def using read_bytes_bits [of "[0x78, 1]" rest] assms(2) by (simp add: numeral_2_eq_2 del: read_bytes.simps)
  from read_bytes_whole [OF this] have "2 \<le> length inp" "take 2 inp = [0x78, 1]" "rest = bits_of_bytes (drop 2 inp)" by simp_all
  moreover have "inp = take 2 inp @ drop 2 inp" by simp
  ultimately show ?thesis using that [of "drop 2 inp"] by simp
qed

lemma zlib_header_result:
  assumes "pIn_buf_cur s = 0x78 # 1 # cs" and "flags AND TINFL_FLAG_USING_NON_WRAPPING_OUTPUT_BUF \<noteq> 0"
  shows "get_zlib_header flags m s = here () (s\<lparr>pIn_buf_cur := cs, m_zhdr0 := 0x78, m_zhdr1 := 1, m_counter := 0\<rparr>)"
  using assms by (simp add: get_zlib_header_def TINFL_GET_BYTE_def zlib_header_bad_def Let_def)

lemma adler_step_result:
  assumes "reads s (bits_of_bytes (b # bs))"
  obtains s' where "\<And>is. get_adler flags (i # is) s = get_adler flags is s'" and "reads s' (bits_of_bytes bs)"
    and "m_z_adler32 s' = push_bit 8 (m_z_adler32 s) OR ucast b" and "m_check_adler32 s' = m_check_adler32 s"
    and "pOut_buf s' = pOut_buf s" and "pOut_buf_cur s' = pOut_buf_cur s"
proof -
  have "reads (s\<lparr>m_counter := of_nat i\<rparr>) (bits_of_bytes (b # bs))" using assms by simp
  from aligned_byte_result [OF this read_byte_of, of flags 41 42] obtain s1 where
    s1: "get_aligned_byte flags 41 42 (s\<lparr>m_counter := of_nat i\<rparr>) = here (of_nat (unat b)) s1" "reads s1 (bits_of_bytes bs)"
    "still s1 = still (s\<lparr>m_counter := of_nat i\<rparr>)" by blast
  have "(of_nat (unat b) :: u32) = ucast b" by simp
  moreover have "reads (s1\<lparr>m_z_adler32 := w\<rparr>) bs' = reads s1 bs'" for w bs' by (simp add: reads_def buf_ok_def bits_left_def)
  ultimately show ?thesis
    using s1(1,2) still_same(11,12,13,16) [OF s1(3)]
    by (intro that [of "s1\<lparr>m_z_adler32 := push_bit 8 (m_z_adler32 s1) OR of_nat (unat b)\<rparr>"]) simp_all
qed

lemma four_bytes:
  "push_bit 8 (push_bit 8 (push_bit 8 (push_bit 8 w OR ucast (ucast (drop_bit 24 a) :: u8)) OR ucast (ucast (drop_bit 16 a) :: u8)) OR
     ucast (ucast (drop_bit 8 a) :: u8)) OR ucast (ucast a :: u8) = (a :: u32)"
proof (rule bit_word_eqI)
  fix n
  assume "n < LENGTH(32)"
  then have "n < 8 \<or> 8 \<le> n \<and> n < 16 \<or> 16 \<le> n \<and> n < 24 \<or> 24 \<le> n \<and> n < 32" by auto
  then show "bit (push_bit 8 (push_bit 8 (push_bit 8 (push_bit 8 w OR ucast (ucast (drop_bit 24 a) :: u8)) OR ucast (ucast (drop_bit 16 a) :: u8)) OR
     ucast (ucast (drop_bit 8 a) :: u8)) OR ucast (ucast a :: u8)) n = bit a n"
    by (elim disjE) (auto simp: bit_or_iff bit_push_bit_iff bit_ucast_iff bit_drop_bit_eq)
qed

lemma get_adler_result:
  assumes "reads s (bits_of_bytes (adler_bytes a))"
  shows "\<exists>s'. get_adler flags [0, 1, 2, 3] s = here () s' \<and> m_z_adler32 s' = a \<and> m_check_adler32 s' = m_check_adler32 s \<and>
    pOut_buf s' = pOut_buf s \<and> pOut_buf_cur s' = pOut_buf_cur s"
proof -
  let ?b = "\<lambda>k. ucast (drop_bit k a) :: u8"
  have "reads s (bits_of_bytes (?b 24 # [?b 16, ?b 8, ?b 0]))" using assms by (simp add: adler_bytes_def)
  then obtain s1 where s1: "\<And>is. get_adler flags (0 # is) s = get_adler flags is s1" "reads s1 (bits_of_bytes [?b 16, ?b 8, ?b 0])"
    "m_z_adler32 s1 = push_bit 8 (m_z_adler32 s) OR ucast (?b 24)" "m_check_adler32 s1 = m_check_adler32 s"
    "pOut_buf s1 = pOut_buf s" "pOut_buf_cur s1 = pOut_buf_cur s" by (rule adler_step_result [where flags = flags and i = 0]) (rule that)
  from s1(2) obtain s2 where s2: "\<And>is. get_adler flags (1 # is) s1 = get_adler flags is s2" "reads s2 (bits_of_bytes [?b 8, ?b 0])"
    "m_z_adler32 s2 = push_bit 8 (m_z_adler32 s1) OR ucast (?b 16)" "m_check_adler32 s2 = m_check_adler32 s1"
    "pOut_buf s2 = pOut_buf s1" "pOut_buf_cur s2 = pOut_buf_cur s1" by (rule adler_step_result [where flags = flags and i = 1]) (rule that)
  from s2(2) obtain s3 where s3: "\<And>is. get_adler flags (2 # is) s2 = get_adler flags is s3" "reads s3 (bits_of_bytes [?b 0])"
    "m_z_adler32 s3 = push_bit 8 (m_z_adler32 s2) OR ucast (?b 8)" "m_check_adler32 s3 = m_check_adler32 s2"
    "pOut_buf s3 = pOut_buf s2" "pOut_buf_cur s3 = pOut_buf_cur s2" by (rule adler_step_result [where flags = flags and i = 2]) (rule that)
  from s3(2) obtain s4 where s4: "\<And>is. get_adler flags (3 # is) s3 = get_adler flags is s4"
    "m_z_adler32 s4 = push_bit 8 (m_z_adler32 s3) OR ucast (?b 0)" "m_check_adler32 s4 = m_check_adler32 s3"
    "pOut_buf s4 = pOut_buf s3" "pOut_buf_cur s4 = pOut_buf_cur s3" by (rule adler_step_result [where flags = flags and i = 3]) (rule that)
  have "get_adler flags [0, 1, 2, 3] s = here () (s4\<lparr>m_counter := 4\<rparr>)" unfolding s1(1) s2(1) s3(1) s4(1) by simp
  moreover have "m_z_adler32 s4 = a" using s1(3) s2(3) s3(3) s4(2) four_bytes [of "m_z_adler32 s" a] by simp
  ultimately show ?thesis using s1(4-6) s2(4-6) s3(4-6) s4(3-5) by (intro exI [of _ "s4\<lparr>m_counter := 4\<rparr>"]) simp
qed


section \<open>A whole stream\<close>

text \<open>Both sides have to agree on whether there is a zlib header.\<close>

definition same_format :: "u32 \<Rightarrow> u32 \<Rightarrow> bool" where
  "same_format cflags flags \<longleftrightarrow> (flags AND TINFL_FLAG_PARSE_ZLIB_HEADER \<noteq> 0 \<longleftrightarrow> cflags AND TDEFL_WRITE_ZLIB_HEADER \<noteq> 0)"

lemma boundary_of_pad: "length pad < 8 \<Longrightarrow> 8 dvd length bs \<Longrightarrow> to_boundary (pad @ bs) = bs"
  by (auto simp: to_boundary_def elim!: dvdE)

lemma skip_to_boundary:
  assumes "reads s bs"
  shows "\<exists>s'. TINFL_SKIP_BITS flags i (m_num_bits s AND 7) s = here () s' \<and> reads s' (to_boundary bs) \<and> still s' = still s"
proof -
  have "length bs mod 8 = unat (m_num_bits s) mod 8" using assms by (auto simp: reads_def bits_left_def)
  moreover have "unat (m_num_bits s AND mask 3) = unat (m_num_bits s) mod 8" by (simp only: take_bit_eq_mask [symmetric] unsigned_take_bit_eq) (simp add: take_bit_eq_mod)
  ultimately have n: "unat (m_num_bits s AND 7) = length bs mod 8" by (simp add: mask_eq_exp_minus_1)
  have "length bs mod 8 \<le> length bs" "length bs mod 8 \<le> 16" by (simp_all add: less_imp_le [OF less_trans [of _ 8]])
  with skip_bits_result [OF assms, of "m_num_bits s AND 7" flags i] show ?thesis unfolding n to_boundary_def by blast
qed

text \<open>What the decompressor does before its first block.\<close>

definition tinfl_start :: "tinfl_run \<Rightarrow> tinfl_run" where
  "tinfl_start s = s\<lparr>m_bit_buf := 0, m_num_bits := 0, m_dist := 0, m_counter := 0, m_num_extra := 0, m_zhdr0 := 0, m_zhdr1 := 0,
     m_z_adler32 := 1, m_check_adler32 := 1\<rparr>"

lemma start_result:
  assumes a: "arrays s" and w: "wrote buf s []" and i: "bits_of_bytes (pIn_buf_cur s) = zlib_header cflags @ rest"
    and fl: "same_format cflags flags" "flags AND TINFL_FLAG_USING_NON_WRAPPING_OUTPUT_BUF \<noteq> 0"
  shows "\<exists>s'. (if flags AND TINFL_FLAG_PARSE_ZLIB_HEADER \<noteq> 0 then get_zlib_header flags m (tinfl_start s) else here () (tinfl_start s)) = here () s' \<and>
    arrays s' \<and> reads s' rest \<and> wrote buf s' [] \<and> m_check_adler32 s' = 1"
proof (cases "flags AND TINFL_FLAG_PARSE_ZLIB_HEADER \<noteq> 0")
  case False
  then have "rest = bits_of_bytes (pIn_buf_cur s)" using i fl(1) by (simp add: same_format_def zlib_header_def)
  then show ?thesis using False a w
    by (simp add: tinfl_start_def arrays_def reads_def buf_ok_def bits_left_def wrote_def low_bits_def)
next
  case True
  then have "cflags AND TDEFL_WRITE_ZLIB_HEADER \<noteq> 0" using fl(1) by (simp add: same_format_def)
  with i obtain cs where cs: "pIn_buf_cur s = 0x78 # 1 # cs" "rest = bits_of_bytes cs" by (rule header_bytes)
  then have "pIn_buf_cur (tinfl_start s) = 0x78 # 1 # cs" by (simp add: tinfl_start_def)
  from zlib_header_result [OF this fl(2)] True show ?thesis using a w cs(2)
    by (simp add: tinfl_start_def arrays_def reads_def buf_ok_def bits_left_def wrote_def low_bits_def)
qed

lemma body_result:
  assumes a: "arrays s" and w: "wrote buf s []" and st: "whole_stream cflags adler (pIn_buf_cur s) src"
    and fl: "same_format cflags flags" "flags AND TINFL_FLAG_USING_NON_WRAPPING_OUTPUT_BUF \<noteq> 0"
    and room: "length src \<le> length buf" "length buf < 2 ^ 32"
  shows "\<exists>s'. tinfl_body flags (-1) s = Some (Inl (TINFL_STATUS_DONE, s')) \<and> wrote buf s' src \<and> m_check_adler32 s' = 1 \<and>
    (flags AND TINFL_FLAG_PARSE_ZLIB_HEADER \<noteq> 0 \<longrightarrow> m_z_adler32 s' = adler)"
proof -
  obtain rest pad where h: "bits_of_bytes (pIn_buf_cur s) = zlib_header cflags @ rest" "length pad < 8"
    "inflate_blocks [] rest = Some (src, pad @ (if cflags AND TDEFL_WRITE_ZLIB_HEADER \<noteq> 0 then bits_of_bytes (adler_bytes adler) else []))"
    using st by (auto simp: whole_stream_def)
  let ?z = "flags AND TINFL_FLAG_PARSE_ZLIB_HEADER \<noteq> 0"
  let ?tail = "if ?z then bits_of_bytes (adler_bytes adler) else []"
  have z: "cflags AND TDEFL_WRITE_ZLIB_HEADER \<noteq> 0 \<longleftrightarrow> ?z" using fl(1) by (simp add: same_format_def)
  obtain s1 where s1: "(if ?z then get_zlib_header flags (-1) (tinfl_start s) else here () (tinfl_start s)) = here () s1"
    "arrays s1" "reads s1 rest" "wrote buf s1 []" "m_check_adler32 s1 = 1"
    using start_result [OF a w h(1) fl] by blast
  have "restores flags buf [] rest (src, pad @ ?tail)" using blocks_result [OF h(3)[unfolded z] room(2)] by blast
  then obtain s2 where s2: "blocks flags (-1) s1 = here () s2" "reads s2 (pad @ ?tail)" "wrote buf s2 src" "m_check_adler32 s2 = 1"
    using s1(2-5) room(1) unfolding restores_def by fastforce
  have "\<exists>s3. (if ?z then go_on (TINFL_SKIP_BITS flags 32 (m_num_bits s2 AND 7) s2) (\<lambda>_ s. get_adler flags [0, 1, 2, 3] s) else here () s2) = here () s3 \<and>
    wrote buf s3 src \<and> m_check_adler32 s3 = 1 \<and> (?z \<longrightarrow> m_z_adler32 s3 = adler)"
  proof (cases ?z)
    case False
    then show ?thesis using s2(3,4) by simp
  next
    case True
    obtain r where r: "TINFL_SKIP_BITS flags 32 (m_num_bits s2 AND 7) s2 = here () r" "reads r (to_boundary (pad @ ?tail))" "still r = still s2"
      using skip_to_boundary [OF s2(2)] by blast
    have "to_boundary (pad @ ?tail) = bits_of_bytes (adler_bytes adler)" using boundary_of_pad [OF h(2)] True by simp
    with r(2) obtain s3 where s3: "get_adler flags [0, 1, 2, 3] r = here () s3" "m_z_adler32 s3 = adler" "m_check_adler32 s3 = m_check_adler32 r"
      "pOut_buf s3 = pOut_buf r" "pOut_buf_cur s3 = pOut_buf_cur r" using get_adler_result by fastforce
    then show ?thesis using True r(1) s2(3,4) still_same(11,12,16) [OF r(3)] by (simp add: wrote_def)
  qed
  then obtain s3 where s3: "(if ?z then go_on (TINFL_SKIP_BITS flags 32 (m_num_bits s2 AND 7) s2) (\<lambda>_ s. get_adler flags [0, 1, 2, 3] s) else here () s2) = here () s3"
    "wrote buf s3 src" "m_check_adler32 s3 = 1" "?z \<longrightarrow> m_z_adler32 s3 = adler" by blast
  have "tinfl_body flags (-1) s = TINFL_CR_RETURN 34 TINFL_STATUS_DONE s3"
    unfolding tinfl_body_def Let_def tinfl_start_def [symmetric] s1(1) go_on_simps s2(1) s3(1) ..
  then show ?thesis using s3(2-4) by (intro exI [of _ "s3\<lparr>m_state := 34\<rparr>"]) (simp add: TINFL_CR_RETURN_def wrote_def)
qed


section \<open>The decompressor as a whole\<close>

text \<open>The arrays of a \<open>tinfl_decompressor\<close>, whatever they contain.\<close>

definition decompressor_arrays :: "tinfl_decompressor \<Rightarrow> bool" where
  "decompressor_arrays r \<longleftrightarrow> length (m_tables r) = 3 \<and> (\<forall>i < 3. table_arrays 288 (m_tables r ! i)) \<and> length (m_table_sizes r) = 3 \<and>
     length (m_len_codes r) = 457 \<and> length (m_raw_header r) = 4"

lemma common_exit_done:
  assumes "m_check_adler32 s = 1" and "flags AND TINFL_FLAG_PARSE_ZLIB_HEADER \<noteq> 0 \<longrightarrow> m_z_adler32 s = mz_adler32 1 (Some src)"
  shows "\<exists>w. common_exit flags src (TINFL_STATUS_DONE, s) = (TINFL_STATUS_DONE, s\<lparr>m_check_adler32 := w\<rparr>)"
proof -
  obtain x y where xy: "adler_blocks (length src) (length src mod 5552) src (1 AND 0xffff, drop_bit 16 1) = (x, y)" by (rule prod.exhaust)
  then have "mz_adler32 1 (Some src) = push_bit 16 y + x" by (simp add: mz_adler32_def)
  then have sum: "flags AND TINFL_FLAG_PARSE_ZLIB_HEADER \<noteq> 0 \<longrightarrow> m_z_adler32 s = push_bit 16 y + x" using assms(2) by simp
  show ?thesis
  proof (cases "flags AND (TINFL_FLAG_PARSE_ZLIB_HEADER OR TINFL_FLAG_COMPUTE_ADLER32) = 0")
    case True
    then have "common_exit flags src (TINFL_STATUS_DONE, s) = (TINFL_STATUS_DONE, s)" by (simp add: common_exit_def)
    then show ?thesis by (intro exI [of _ "m_check_adler32 s"]) simp
  next
    case False
    then have "common_exit flags src (TINFL_STATUS_DONE, s) = (TINFL_STATUS_DONE, s\<lparr>m_check_adler32 := push_bit 16 y + x\<rparr>)"
      using sum assms(1) xy by (auto simp: common_exit_def)
    then show ?thesis by blast
  qed
qed

lemma decompress_result:
  assumes a: "decompressor_arrays r" "m_state r = 0" and st: "whole_stream cflags (mz_adler32 1 (Some src)) inp src"
    and fl: "same_format cflags flags" "flags AND TINFL_FLAG_USING_NON_WRAPPING_OUTPUT_BUF \<noteq> 0"
    and room: "length src \<le> length out" "length out < 2 ^ 32"
  shows "\<exists>r' n. tinfl_decompress r inp out 0 flags = Some (TINFL_STATUS_DONE, r', n, src @ drop (length src) out, length src)"
proof -
  let ?s = "tinfl_decompressor.extend r (tinfl_run.fields inp out 0)"
  have s: "arrays ?s" "wrote out ?s []" "pIn_buf_cur ?s = inp"
    using a(1) by (simp_all add: arrays_def decompressor_arrays_def wrote_def tinfl_decompressor.defs tinfl_run.defs)
  obtain s' where s': "tinfl_body flags (-1) ?s = Some (Inl (TINFL_STATUS_DONE, s'))" "wrote out s' src" "m_check_adler32 s' = 1"
    "flags AND TINFL_FLAG_PARSE_ZLIB_HEADER \<noteq> 0 \<longrightarrow> m_z_adler32 s' = mz_adler32 1 (Some src)"
    using body_result [OF s(1,2) _ fl room] st s(3) by auto
  obtain w where w: "common_exit flags src (TINFL_STATUS_DONE, s') = (TINFL_STATUS_DONE, s'\<lparr>m_check_adler32 := w\<rparr>)"
    using common_exit_done [OF s'(3,4)] by blast
  have o: "pOut_buf s' = src @ drop (length src) out" "pOut_buf_cur s' = length src" using s'(2) by (simp_all add: wrote_def)
  show ?thesis
    unfolding tinfl_decompress_def using fl(2) a(2) by (simp add: s'(1) w o Let_def)
qed

lemma mem_to_mem_flags:
  fixes flags :: u32
  defines "g \<equiv> (flags AND NOT TINFL_FLAG_HAS_MORE_INPUT) OR TINFL_FLAG_USING_NON_WRAPPING_OUTPUT_BUF"
  shows "g AND TINFL_FLAG_USING_NON_WRAPPING_OUTPUT_BUF \<noteq> 0" and "same_format cflags g = same_format cflags flags"
proof -
  have "bit (g AND TINFL_FLAG_USING_NON_WRAPPING_OUTPUT_BUF) 2"
    by (simp add: g_def TINFL_FLAG_USING_NON_WRAPPING_OUTPUT_BUF_def bit_simps)
  then show "g AND TINFL_FLAG_USING_NON_WRAPPING_OUTPUT_BUF \<noteq> 0" by auto
  have "g AND TINFL_FLAG_PARSE_ZLIB_HEADER = flags AND TINFL_FLAG_PARSE_ZLIB_HEADER"
    by (rule bit_word_eqI) (auto simp: g_def TINFL_FLAG_USING_NON_WRAPPING_OUTPUT_BUF_def TINFL_FLAG_HAS_MORE_INPUT_def TINFL_FLAG_PARSE_ZLIB_HEADER_def bit_simps)
  then show "same_format cflags g = same_format cflags flags" by (simp add: same_format_def)
qed

lemma mem_to_mem_restores:
  assumes a: "decompressor_arrays r" and st: "whole_stream cflags (mz_adler32 1 (Some src)) inp src"
    and fl: "same_format cflags flags" and room: "length src \<le> length out" "length out < 2 ^ 32"
  shows "tinfl_decompress_mem_to_mem r out inp flags = Some (of_nat (length src), src @ drop (length src) out)"
proof -
  have "decompressor_arrays (tinfl_init r)" "m_state (tinfl_init r) = 0" using a by (simp_all add: tinfl_init_def decompressor_arrays_def)
  moreover have "same_format cflags ((flags AND NOT TINFL_FLAG_HAS_MORE_INPUT) OR TINFL_FLAG_USING_NON_WRAPPING_OUTPUT_BUF)"
    using fl mem_to_mem_flags(2) by blast
  ultimately obtain r' n where "tinfl_decompress (tinfl_init r) inp out 0 ((flags AND NOT TINFL_FLAG_HAS_MORE_INPUT) OR TINFL_FLAG_USING_NON_WRAPPING_OUTPUT_BUF) =
      Some (TINFL_STATUS_DONE, r', n, src @ drop (length src) out, length src)"
    using decompress_result [OF _ _ st _ mem_to_mem_flags(1) room] by blast
  then show ?thesis by (simp add: tinfl_decompress_mem_to_mem_def)
qed


section \<open>Properties\<close>

definition demo_decompressor :: tinfl_decompressor where
  "demo_decompressor = \<lparr>m_state = 5, m_num_bits = 7, m_zhdr0 = 0, m_zhdr1 = 0, m_z_adler32 = 0, m_final = 0, m_type = 0,
     m_check_adler32 = 0, m_dist = 0, m_counter = 0, m_num_extra = 0, m_table_sizes = replicate 3 0, m_bit_buf = 0xFFFF,
     m_dist_from_out_buf_start = 0,
     m_tables = replicate 3 \<lparr>m_code_size = replicate 288 9, m_look_up = replicate 1024 1, m_tree = replicate 576 1\<rparr>,
     m_raw_header = replicate 4 0, m_len_codes = replicate 457 0\<rparr>"

lemma demo_decompressor_arrays: "decompressor_arrays demo_decompressor"
  by (simp add: decompressor_arrays_def demo_decompressor_def table_arrays_def)

definition demo_bytes :: "u8 list" where
  "demo_bytes = [0x78, 1, 1, 2, 0, 0xFD, 0xFF, 72, 105, 0, 0xFB, 0, 0xB2]"

lemma demo_whole_stream: "whole_stream TDEFL_WRITE_ZLIB_HEADER (mz_adler32 1 (Some [72, 105])) demo_bytes [72, 105]"
proof -
  have a: "mz_adler32 1 (Some [72, 105]) = 0xFB00B2" by code_simp
  let ?a = "bits_of_bytes (adler_bytes 0xFB00B2)" and ?w = "[72, 105] :: u8 list"
  let ?body = "low_bits 2 (0 :: u32) @ replicate 5 False @ low_bits 16 (of_nat (length ?w) :: u32) @
    low_bits 16 (of_nat (65535 - length ?w) :: u32) @ concat (map (low_bits 8) ?w)"
  have "body_of [True] ?body [] ([] @ ?w)" by (rule stored_body) simp_all
  moreover have "8 dvd length ([True] @ ?body @ ?a)" by (simp add: length_bytes_bits)
  ultimately have b: "read_body [] (?body @ ?a) = Some ([] @ ?w, ?a)" unfolding body_of_def by blast
  have "inflate_blocks [] (True # ?body @ ?a) = Some (?w, ?a)" by (subst inflate_blocks.simps) (simp only: list.case b bind.bind_lunit prod.case append_Nil if_True)
  moreover have "bits_of_bytes demo_bytes = zlib_header TDEFL_WRITE_ZLIB_HEADER @ True # ?body @ ?a"
  proof -
    have n: "(of_nat (length ?w) :: u32) = 2" "(of_nat (65535 - length ?w) :: u32) = 65533" by simp_all
    show ?thesis unfolding n by code_simp
  qed
  moreover have "TDEFL_WRITE_ZLIB_HEADER AND TDEFL_WRITE_ZLIB_HEADER \<noteq> 0" by (simp add: TDEFL_WRITE_ZLIB_HEADER_def)
  ultimately show ?thesis unfolding whole_stream_def a by (intro exI [of _ "True # ?body @ ?a"] exI [of _ "[]"]) simp
qed

text \<open>C12: Decompressing restores.  Given a whole stream for some bytes, with any mix of stored, fixed
  and dynamic blocks, \<open>tinfl_decompress_mem_to_mem\<close> returns, reads and writes only inside its arrays, whatever they
  contain, reports the number of the bytes and leaves them in the buffer, and the rest of the buffer as it was, if the
  buffer, of less than 4 GB, has room for them and the flags say whether there is a zlib header.\<close>

theorem decompress_restores:
  assumes "decompressor_arrays r" and "whole_stream cflags (mz_adler32 1 (Some src)) bytes src" and "same_format cflags flags"
    and "length src \<le> length out" and "length out < 2 ^ 32"
  shows "tinfl_decompress_mem_to_mem r out bytes flags = Some (of_nat (length src), src @ drop (length src) out)"
  using assms by (rule mem_to_mem_restores)

theorem decompress_restores_witness:
  "tinfl_decompress_mem_to_mem demo_decompressor [1, 2, 3] demo_bytes TINFL_FLAG_PARSE_ZLIB_HEADER = Some (2, [72, 105, 3])"
proof -
  have "same_format TDEFL_WRITE_ZLIB_HEADER TINFL_FLAG_PARSE_ZLIB_HEADER"
    by (simp add: same_format_def TDEFL_WRITE_ZLIB_HEADER_def TINFL_FLAG_PARSE_ZLIB_HEADER_def)
  from decompress_restores [OF demo_decompressor_arrays demo_whole_stream this, of "[1, 2, 3]"] show ?thesis by simp
qed

text \<open>C11: What \<open>tdefl_compress_mem_to_output\<close> compresses, \<open>tinfl_decompress_mem_to_mem\<close> restores.  For any callback
  that accepts what it is given the compressor returns true, and the decompressor turns what the callback has received
  into the input again: it reports its length, and leaves it at the start of a buffer that has room for it, the rest of
  which it does not touch.  Whatever the two structures contain at first; the flags on both sides ask for a zlib header or
  on both sides do not.  (Inputs below 4 GB; with fixed tables, or of at most 40000 bytes.)\<close>

theorem decompress_inverts_compress:
  assumes "\<And>u bs. good u \<Longrightarrow> length bs \<le> TDEFL_OUT_BUF_SIZE \<Longrightarrow>
      \<exists>u'. put bs u = Some (True, u') \<and> good u' \<and> sent u' = sent u @ bs"
    and "good user" and "sent user = []" and "stream_arrays pComp" and "length src < 2 ^ 32"
    and "cflags AND TDEFL_FORCE_ALL_STATIC_BLOCKS \<noteq> 0 \<or> length src \<le> 40000"
    and "decompressor_arrays r" and "same_format cflags flags" and "length src \<le> length out" and "length out < 2 ^ 32"
  shows "\<exists>user'. tdefl_compress_mem_to_output (Some pComp) (Some src) (length src) (Some put) user cflags = Some (True, user') \<and>
    tinfl_decompress_mem_to_mem r out (sent user') flags = Some (of_nat (length src), src @ drop (length src) out)"
  using compress_to_output_result [OF assms(1-6)] mem_to_mem_restores [OF assms(7) _ assms(8-10)] by blast

theorem decompress_inverts_compress_witness:
  "\<exists>bytes. tdefl_compress_mem_to_output (Some (demo_stream [])) (Some [97, 98, 97, 98, 97, 98]) 6
      (Some (\<lambda>bs out. Some (True, out @ bs))) [] 0x1080 = Some (True, bytes) \<and>
    tinfl_decompress_mem_to_mem demo_decompressor [0, 0, 0, 0, 0, 0, 7] bytes TINFL_FLAG_PARSE_ZLIB_HEADER =
      Some (6, [97, 98, 97, 98, 97, 98, 7])"
proof -
  have "same_format 0x1080 TINFL_FLAG_PARSE_ZLIB_HEADER"
    by (simp add: same_format_def TDEFL_WRITE_ZLIB_HEADER_def TINFL_FLAG_PARSE_ZLIB_HEADER_def)
  from decompress_inverts_compress [of "\<lambda>_. True" "\<lambda>bs out. Some (True, out @ bs)" id "[]" "demo_stream []"
      "[97, 98, 97, 98, 97, 98]" "0x1080", OF _ _ _ demo_stream_arrays _ _ demo_decompressor_arrays this, of "[0, 0, 0, 0, 0, 0, 7]",
      unfolded demo_lengths]
  show ?thesis by simp
qed

text \<open>The same for a buffer, where 0 is reported when the compressor gives up.\<close>

lemma mem_to_mem_restored:
  assumes "stream_arrays pComp" and "length buf = unat out_len" and "unat out_len \<le> 2 ^ 32 - 2 ^ 17"
    and "length src < 2 ^ 32" and "cflags AND TDEFL_FORCE_ALL_STATIC_BLOCKS \<noteq> 0 \<or> length src \<le> 40000"
    and "decompressor_arrays r" and "same_format cflags flags" and "length src \<le> length out" and "length out < 2 ^ 32"
  shows "\<exists>n buf'. tdefl_compress_mem_to_mem (Some pComp) (Some buf) out_len (Some src) (length src) cflags = Some (n, Some buf') \<and>
    (n \<noteq> 0 \<longrightarrow> tinfl_decompress_mem_to_mem r out (take (unat n) buf') flags = Some (of_nat (length src), src @ drop (length src) out))"
  using compress_mem_to_mem_result [OF assms(1-5)] mem_to_mem_restores [OF assms(6) _ assms(7-9)] by blast

end
