(* ===== verification/Spec2Isabelle.thy ===== *)
theory Spec2Isabelle
  imports Space_Props Data_Props Call_Props Start_Props Bus_Props Sim_Props Cache_Bench_Props Helpers Progs Mz_Restore
begin

text \<open>
  \<^bold>\<open>Sparcy: a SPARC simulator's system calls, memory bus and test programs.\<close>

  The repository simulates a SPARC v8 processor in SystemVerilog.  When the simulated program
  executes a trap instruction, the test bench calls the C code of \<open>proj/sparc-linux\<close>, which
  plays the Linux kernel for it: \<open>sl_init\<close> places the program arguments on the guest's stack,
  \<open>sl_syscall\<close> executes one system call on the host on behalf of the guest, and
  \<open>sl_exit_called\<close> tells the test bench to stop.  The guest is big-endian with 32-bit
  addresses; its memory is a block of the host's memory that starts at \<open>guest_base\<close>.  The host
  is little-endian with 64-bit longs (x86-64 Linux).  The test bench itself, \<open>proj/system.cpp\<close> and
  \<open>proj/main.cpp\<close>, loads the program, plays the memory at the other end of the processor's bus
  (with the timing of the library DRAMSim2) and drives the clock.  The programs of
  \<open>proj/sparc-prog\<close> run on the simulated processor; two of them use the compression library
  \<open>miniz.c\<close>.  This development models the C and C++ code of the three parts.

  \<^bold>\<open>The model.\<close>  C integers are words of their width; \<open>abi_long\<close> and \<open>abi_ulong\<close> are both
  \<open>u32\<close>, read with \<open>sint\<close> or \<open>uint\<close> as the C type says; conversions are \<open>ucast\<close> and \<open>scast\<close>.
  Host memory is a function from 64-bit addresses to bytes.  The globals of \<open>syscall.c\<close>, host
  memory, \<open>errno\<close>, the messages on \<open>stderr\<close> and the state of the operating system form the
  record \<open>sl_state\<close>; every C function that reads or changes state is a program of the state
  monad over it, written in the order of the C statements.  Where the code does something C
  leaves undefined (an array index out of range, a string without end), the flag \<open>fault\<close> of
  the state is set; \<open>goto efault\<close> is a branch that returns \<open>-TARGET_EFAULT\<close>.

  The operating system is not code of the repository.  It is the parameter \<open>os\<close> of the handlers,
  a record of functions, one per group of host calls, each from the arguments, host memory and
  the state of the host to a result, an errno, a new memory and a new state of the host.
  Nothing is assumed about it: a property that depends on an answer of the host says so in a
  hypothesis.

  The test bench works on the same host memory.  Its class \<open>System\<close> is the record \<open>system\<close>, the
  pins of the processor the record \<open>vtop\<close>; DRAMSim2, libelf and the Verilog model are parameters.
  A step that fails an assertion, exits or leaves the RAM is an \<open>Inl\<close>.  Properties that rely on
  DRAMSim2 name what they rely on: \<open>dram_contract\<close> (every accepted read is reported once) and
  \<open>dram_latency\<close> (after a bounded number of updates).

  \<^bold>\<open>The theories\<close>, in the order of their imports:

  \<^item> \<open>Prelude\<close>: the state monad's rules (\<open>run_simps\<close>), the collections, words and lists.
  \<^item> \<open>Bswap\<close> (\<open>bswap.h\<close>, \<open>cpu-all.h\<close>, \<open>abitypes.h\<close>): byte swaps and typed access to memory, with a
    locale for a scalar type (encoding, decoding, load, store) interpreted on the accessors of
    each width and byte order.
  \<^item> \<open>Host\<close>: the structures of the host and the record of its functions.
  \<^item> \<open>Errno_Defs\<close> (\<open>errno_defs.h\<close>), \<open>Syscall_Nr\<close> (\<open>syscall_nr.h\<close>): the constants.
  \<^item> \<open>Guest\<close> (\<open>syscall.c\<close> 96-120 and 305-320, \<open>target-sparc.h\<close>): the state, \<open>g2h\<close>, \<open>lock_user\<close> and
    its relatives, \<open>put_user\<close> and \<open>get_user\<close>; the predicate \<open>framed\<close>: a program that leaves the
    core of the state (address space, exit flag, tables) alone.
  \<^item> \<open>Errno\<close>: the errno table, its inverse, \<open>get_errno\<close> and \<open>is_error\<close>.
  \<^item> \<open>AddrSpace\<close>: \<open>do_brk\<close> and \<open>target_mmap\<close>, their specification on numbers, and a locale for
    an allocator of disjoint regions interpreted on \<open>target_mmap\<close>.
  \<^item> \<open>Convert\<close>: ids, limits, times, usage.  \<open>Select\<close>: descriptor sets and \<open>do_select\<close>.
    \<open>Iovec\<close>: \<open>lock_iovec\<close>, \<open>unlock_iovec\<close>.
  \<^item> \<open>Handler\<close>: the arguments of a call and the shapes many cases share.
  \<^item> \<open>Layout\<close>, \<open>Stat\<close>: structures in guest memory as lists of fields with offsets; the status
    structures.  \<open>Dirent\<close>: directory entries, with a locale for a loop over records
    interpreted on both \<open>getdents\<close> loops.
  \<^item> \<open>Sys_Path\<close>, \<open>Sys_Fd\<close>, \<open>Sys_Proc\<close>: one definition per case of \<open>do_syscall\<close>, \<open>sys_<name>\<close>
    for \<open>case TARGET_NR_<name>\<close>.
  \<^item> \<open>Dispatch\<close>: the \<open>switch\<close> as the list of its case labels in source order, \<open>do_syscall\<close>,
    \<open>sl_syscall\<close>, \<open>sl_exit_called\<close>.
  \<^item> \<open>Init\<close>: \<open>init_stack\<close>, \<open>sl_init\<close>; runs of the emulation as a step relation (one step per
    call of \<open>sl_syscall\<close>) and what they keep.
  \<^item> \<open>Args\<close>: ranges of guest addresses in host memory, C strings, what \<open>copy_args\<close> and
    \<open>put_words\<close> leave there.
  \<^item> \<open>Space_Props\<close>, \<open>Data_Props\<close>, \<open>Call_Props\<close>, \<open>Start_Props\<close>: the properties of the address
    space, of the data conversions, of the dispatcher, single calls and runs, and of start-up.
  \<^item> \<open>Helpers\<close>: the static functions of \<open>syscall.c\<close> beside the calls (timer ids and slots, 64-bit
    offsets, names under \<open>/proc\<close>).
  \<^item> \<open>Bus\<close> (\<open>system.cpp\<close>): \<open>System::tick\<close> part by part, in the order of the code, and the
    callbacks of the memory system.  \<open>Bus_Facts\<close>: what each part changes, lines and bursts, runs
    of clock edges as a step relation, the reads in flight.  \<open>Bus_Props\<close>: its properties.
  \<^item> \<open>Elf\<close> (\<open>system.cpp\<close>): \<open>System::load_elf\<close> and the constructor.  \<open>Sim\<close> (\<open>main.cpp\<close>): clock, main
    loop, set-up and check of the arguments, the stub for system calls.  \<open>Sim_Props\<close>: properties
    of the test bench together with the system calls.
  \<^item> \<open>Cache_Bench\<close> (\<open>hw2/system.cpp\<close>, \<open>hw2/main.cpp\<close>): the test bench of the cache homework, with
    the random requests of \<open>procTick\<close>.  \<open>Cache_Bench_Props\<close>: it is the same machine as \<open>Bus\<close> on
    memory traffic; its requests stay in the RAM.
  \<^item> \<open>Prints\<close> (\<open>prints.c\<close>): the output of numbers, with a locale for the collection of digits
    interpreted on the decimal and the hexadecimal loop.  \<open>Progs\<close>: \<open>pi_checksum.c\<close>, \<open>malloc.c\<close>,
    \<open>stack_dir.c\<close>, \<open>hw.c\<close> as the lists of buffers they write.
  \<^item> \<open>Mz_Checksum\<close> (\<open>miniz.c\<close>): the checksums.  \<open>Mz_Radix\<close>, \<open>Mz_MinRed\<close>, \<open>Mz_Weights\<close>, \<open>Mz_Limit\<close>,
    \<open>Mz_Huffman\<close>, \<open>Mz_Canonical\<close>, \<open>Mz_Tables\<close>: \<open>tdefl_optimize_huffman_table\<close> with the sorting of
    symbols, the lengths of the codes, their limit, and the codes themselves.
  \<^item> \<open>Mz_Bits\<close>: \<open>TDEFL_PUT_BITS\<close> and the stream of bits it writes.  \<open>Mz_Block\<close>: the start of a
    block with new tables.  \<open>Mz_Inflate\<close>, \<open>Mz_Items\<close>: how a decoder after RFC 1951 reads tables
    and items.  \<open>Mz_Header\<close>: it reads the tables that were written.
  \<^item> \<open>Mz_Lz\<close>: the buffer of literals and matches, \<open>tdefl_record_literal\<close>, \<open>tdefl_record_match\<close>,
    \<open>tdefl_compress_lz_codes\<close>, \<open>tdefl_compress_block\<close>.  \<open>Mz_Codes\<close>, \<open>Mz_Record\<close>, \<open>Mz_Packed\<close>: what
    the buffer holds, and that the block it becomes reads back.
  \<^item> \<open>Mz_Match\<close>: \<open>tdefl_find_match\<close>.  \<open>Mz_Parse\<close>: the parts of \<open>tdefl_compress_normal\<close> that fill the
    dictionary and choose literals and matches.  \<open>Mz_Window\<close>: what the dictionary holds.
    \<open>Mz_Step\<close>: a step of the parser, and what the items recorded stand for.
  \<^item> \<open>Mz_Stream\<close>: the compressor as a stream: \<open>tdefl_flush_block\<close>, \<open>tdefl_compress_normal\<close>,
    \<open>tdefl_compress\<close>, \<open>tdefl_init\<close> and the helpers that compress a block of memory.
    \<open>Mz_Decode\<close>: a decoder after RFC 1951 for a stream of blocks.  \<open>Mz_Flush\<close>: one block, fixed,
    dynamic or stored, on every branch of \<open>tdefl_flush_block\<close>.  \<open>Mz_Send\<close>: the locale \<open>callback\<close>
    (what a receiver of the output promises), header, checksum and end of a stream.
    \<open>Mz_Run\<close>: from \<open>tdefl_init\<close> through the main loop to the last block, for any callback.
    \<open>Mz_Memory\<close>: the callback of \<open>tdefl_compress_mem_to_mem\<close> and \<open>tdefl_compress_mem_to_heap\<close>
    interprets that locale; what is in their buffers.
  \<^item> \<open>Mz_Tinfl\<close>: the decompressor, \<open>tinfl_decompress\<close>, from its start (\<open>m_state\<close> is 0) to the point
    where it returns, and \<open>tinfl_decompress_mem_to_mem\<close>; the macros \<open>TINFL_GET_BITS\<close>,
    \<open>TINFL_HUFF_DECODE\<close> and so on are functions on its local variables, a return from inside a macro is
    a value of its own, and so is a read or a write outside an array.
    \<open>Mz_Trie\<close>: what adding a symbol leaves in the two lookup tables.  \<open>Mz_Table\<close>: a full code gets a
    table, any other is refused.  \<open>Mz_Lookup\<close>, \<open>Mz_Reader\<close>: the macros that take bits and symbols
    from the input take what the decoder after RFC 1951 takes.  \<open>Mz_Unpack\<close>: so does the loop over
    the literals and matches of a block, and the output buffer gets their expansion.
    \<open>Mz_Dynamic\<close>: the tables of a fixed block, and of a dynamic block from its header.
    \<open>Mz_Restore\<close>: stored blocks, all blocks, header and checksum: a whole stream is restored, and
    so is what the compressor has made of an input.

  \<^bold>\<open>What is shown.\<close>  \<open>brk\<close> and \<open>mmap\<close> implement a specification over natural numbers as long as
  no sum passes 2^32, and what they do when one does; new heap is zero and nothing else is
  written; mappings never overlap; every call but five leaves the core of the state alone, for
  any number and arguments; the layout of the address space and the fixed part of the state
  survive any sequence of calls, from \<open>sl_init\<close> on; the program finds its arguments where the
  SPARC start-up code looks for them; the exit flag is set exactly by the exit calls; every case
  label is reached; the result convention of errors; vectors are bounded; the structures the
  guest reads have the SPARC layout and byte order; conversions are inverse to each other on
  the values they can represent; the directory loops end and convert each record.
  For the bus: what is written to a line is read back, a read is answered with its line, critical
  word first, every read is answered, responses leave in order, the assertion on completed reads
  cannot fail, and system calls and bus see one memory.  For the test bench: segments are placed
  as the ELF file says, but the initial heap may lie on zero-initialised data; the main loop ends;
  the keyboard is never polled; the check of the arguments reads back what \<open>sl_init\<close> laid out.
  For the programs: the printed numerals are right; the checksums are the textbook ones; the
  symbols are sorted stably; the code lengths are those of a complete prefix code.  For the
  compressor: its tables are prefix codes within the limit of lengths, the lengths it sends unpack
  to the tables, and a block of literals and matches reads back as the items recorded.  As a
  whole: a round of the main loop keeps the compressor well-formed, and what a callback, a buffer or
  the heap receives is a stream that decodes to the input, with its Adler-32 where there is a zlib
  header.  For the decompressor: its tables find the symbols of a full code, it reads from every block what
  the decoder after RFC 1951 reads, never leaves an array on a whole stream, and restores what was
  compressed.  (Inputs of more than 40000 bytes with dynamic tables are not covered: what room is left for
  the end of the stream behind a long dynamic block depends on how well the block is coded.)

  \<^bold>\<open>Loops.\<close>  Loops with a counter are primitive recursion on it.  The loops whose end depends on
  memory (\<open>getdents\<close>, the search for the end of a string) are partial functions to
  \<open>option\<close>: \<open>None\<close> is a loop that does not end.  There is no fuel.  So is the main loop of the
  compressor, which is proved to end for a call that finishes the stream, and the loop that doubles the
  capacity of a buffer, proved to end while \<open>realloc\<close> gives less than half of the address space.

  The loops that are counted by time (\<open>sim_loop\<close>) or by an index have a termination proof; the
  last loop of \<open>tdefl_calculate_minimum_redundancy\<close> is a partial function proved to end.

  \<^bold>\<open>Not modelled.\<close>  The SystemVerilog sources (the processor is a parameter); waveforms and the
  set-up of the console; of \<open>miniz.c\<close> the calls that resume a decompressor that returned in
  the middle of a stream, its helpers for the heap and for a callback, the zlib interface, the writer
  of PNG files, and the archive functions, which \<open>MINIZ_NO_ARCHIVE_APIS\<close> leaves out of the build; \<open>compress.c\<close> and
  \<open>deflate.c\<close>, which drive it; the declarations of the headers that no case of
  \<open>do_syscall\<close> uses.  \<open>free\<close> and \<open>unlock_user\<close> have no effect the code can observe.  The
  \<open>calloc\<close> of \<open>lock_iovec\<close> may fail, as an answer of the host; that of \<open>init_stack\<close> is taken to
  succeed.
\<close>

end
